(* ===== verification/Prelude.thy ===== *)
theory Prelude
  imports Main "HOL-Library.Word" "HOL-Library.Signed_Division"
begin

text \<open>
  Shared vocabulary of the development: the machine integers of the Rust code
  (\<open>i64\<close>, \<open>u64\<close> as 64 bit words, \<open>i32\<close>, \<open>u32\<close> as 32 bit words), byte strings
  (\<open>string\<close>, one \<open>char\<close> per byte of the UTF-8 text), the few functions of the Rust
  standard library the modelled code calls on them, and the collections of
  simplification rules the component theories share.
\<close>

named_theorems frame_simps \<open>which fields of a state an operation leaves alone\<close>
named_theorems eval_simps \<open>unfolding rules used to run the model on a concrete input\<close>

section \<open>Machine integers\<close>

type_synonym i64 = "64 word"
type_synonym i32 = "32 word"
type_synonym u64 = "64 word"

text \<open>\<open>i64::MIN\<close> and \<open>i64::MAX\<close>.\<close>

definition i64_min :: i64 where "i64_min = 0x8000000000000000"
definition i64_max :: i64 where "i64_max = 0x7FFFFFFFFFFFFFFF"

text \<open>Rust's \<open>/\<close> and \<open>%\<close> on \<open>i64\<close>: truncation towards zero, the remainder takes the
  sign of the dividend.  Both panic on a zero divisor and on \<open>i64::MIN / -1\<close>; the
  callers modelled here test for those two before they divide.\<close>

definition i64_div :: "i64 \<Rightarrow> i64 \<Rightarrow> i64" where
  "i64_div a b = word_of_int (sint a sdiv sint b)"

definition i64_rem :: "i64 \<Rightarrow> i64 \<Rightarrow> i64" where
  "i64_rem a b = word_of_int (sint a smod sint b)"

text \<open>The bitwise operators, under names that leave \<open>AND\<close>, \<open>OR\<close>, \<open>XOR\<close> and \<open>NOT\<close> to the
  tokens of the arithmetic evaluator.  \<open>>>\<close> on \<open>i64\<close> is the arithmetic shift.\<close>

definition i64_and :: "i64 \<Rightarrow> i64 \<Rightarrow> i64" where "i64_and a b = semiring_bit_operations_class.and a b"
definition i64_or :: "i64 \<Rightarrow> i64 \<Rightarrow> i64" where "i64_or a b = semiring_bit_operations_class.or a b"
definition i64_xor :: "i64 \<Rightarrow> i64 \<Rightarrow> i64" where "i64_xor a b = semiring_bit_operations_class.xor a b"
definition i64_not :: "i64 \<Rightarrow> i64" where "i64_not a = ring_bit_operations_class.not a"
definition i64_shl :: "i64 \<Rightarrow> nat \<Rightarrow> i64" where "i64_shl a n = push_bit n a"
definition i64_shr :: "i64 \<Rightarrow> nat \<Rightarrow> i64" where "i64_shr a n = signed_drop_bit n a"

definition i64_lt :: "i64 \<Rightarrow> i64 \<Rightarrow> bool" where "i64_lt a b \<longleftrightarrow> sint a < sint b"
definition i64_le :: "i64 \<Rightarrow> i64 \<Rightarrow> bool" where "i64_le a b \<longleftrightarrow> sint a \<le> sint b"

definition bool_i64 :: "bool \<Rightarrow> i64" where
  "bool_i64 b = (if b then 1 else 0)"

text \<open>\<open>i64::from(x as i32)\<close>: the low 32 bits, sign extended.\<close>

definition wrap_i32 :: "i64 \<Rightarrow> i64" where
  "wrap_i32 x = scast (ucast x :: i32)"

lemma sint_inj: "sint (a :: 'a::len word) = sint b \<Longrightarrow> a = b"
  using word_eq_iff_signed [where ?'a = int and v = a and w = b] by simp

lemma sint_range: "- (2 ^ 63) \<le> sint (a :: i64)" "sint (a :: i64) < 2 ^ 63"
  using sint_ge [of a] sint_lt [of a] by simp_all

lemma sint_of_range: "- (2 ^ 63) \<le> i \<Longrightarrow> i < 2 ^ 63 \<Longrightarrow> sint (word_of_int i :: i64) = i"
  by (simp add: int_word_sint)

lemma unat_nonneg: "0 \<le> sint (a :: i64) \<Longrightarrow> unat a = nat (sint a)"
  using sint_range [of a] by (simp add: unat_eq_nat_uint uint_sint take_bit_int_eq_self)

lemma i64_rem_div: "i64_div a b * b + i64_rem a b = a"
proof -
  have "sint a sdiv sint b * sint b + sint a smod sint b = sint a"
    by (simp add: sdiv_mult_smod_eq)
  then have "word_of_int (sint a sdiv sint b * sint b + sint a smod sint b) = (word_of_int (sint a) :: i64)"
    by simp
  then show ?thesis
    by (simp add: i64_div_def i64_rem_def wi_hom_syms)
qed

section \<open>Bytes, characters and text\<close>

definition byte :: "char \<Rightarrow> nat" where
  "byte c = of_char c"

definition is_digit :: "char \<Rightarrow> bool" where
  "is_digit c \<longleftrightarrow> 48 \<le> byte c \<and> byte c \<le> 57"

definition is_alpha :: "char \<Rightarrow> bool" where
  "is_alpha c \<longleftrightarrow> (65 \<le> byte c \<and> byte c \<le> 90) \<or> (97 \<le> byte c \<and> byte c \<le> 122)"

definition is_alnum :: "char \<Rightarrow> bool" where
  "is_alnum c \<longleftrightarrow> is_digit c \<or> is_alpha c"

definition is_hexdigit :: "char \<Rightarrow> bool" where
  "is_hexdigit c \<longleftrightarrow> is_digit c \<or> (65 \<le> byte c \<and> byte c \<le> 70) \<or> (97 \<le> byte c \<and> byte c \<le> 102)"

definition to_lower :: "char \<Rightarrow> char" where
  "to_lower c = (if 65 \<le> byte c \<and> byte c \<le> 90 then char_of (byte c + 32) else c)"

text \<open>The number of bytes of the UTF-8 character that starts with the given byte.
  Rust strings are valid UTF-8, so a lead byte determines it.\<close>

definition utf8_width :: "char \<Rightarrow> nat" where
  "utf8_width c = (if byte c < 128 then 1 else if byte c < 224 then 2
                   else if byte c < 240 then 3 else 4)"

text \<open>\<open>str::chars\<close>: each character is kept as its own UTF-8 encoding.\<close>

function chars :: "string \<Rightarrow> string list" where
  "chars [] = []"
| "chars (c # cs) = (c # take (utf8_width c - 1) cs) # chars (drop (utf8_width c - 1) cs)"
  by pat_completeness auto
termination
  by (relation "measure length") auto

text \<open>The Unicode scalar value of an encoded character.\<close>

definition code_point :: "string \<Rightarrow> int" where
  "code_point u = (case u of
     [] \<Rightarrow> 0
   | [a] \<Rightarrow> int (byte a)
   | [a, b] \<Rightarrow> int ((byte a - 192) * 64 + (byte b - 128))
   | [a, b, c] \<Rightarrow> int ((byte a - 224) * 4096 + (byte b - 128) * 64 + (byte c - 128))
   | a # b # c # d # _ \<Rightarrow>
       int ((byte a - 240) * 262144 + (byte b - 128) * 4096 + (byte c - 128) * 64 + (byte d - 128)))"

text \<open>\<open>char::is_whitespace\<close>: the White_Space property.\<close>

definition is_whitespace :: "string \<Rightarrow> bool" where
  "is_whitespace u \<longleftrightarrow>
     (let p = code_point u in
      (9 \<le> p \<and> p \<le> 13) \<or> p = 32 \<or> p = 133 \<or> p = 160 \<or> p = 5760 \<or> (8192 \<le> p \<and> p \<le> 8202)
      \<or> p = 8232 \<or> p = 8233 \<or> p = 8239 \<or> p = 8287 \<or> p = 12288)"

definition trim_start :: "string \<Rightarrow> string" where
  "trim_start s = concat (dropWhile is_whitespace (chars s))"

definition trim_end :: "string \<Rightarrow> string" where
  "trim_end s = concat (rev (dropWhile is_whitespace (rev (chars s))))"

definition trim :: "string \<Rightarrow> string" where
  "trim s = trim_end (trim_start s)"

definition strip_prefix :: "string \<Rightarrow> string \<Rightarrow> string option" where
  "strip_prefix p s = (if take (length p) s = p then Some (drop (length p) s) else None)"

definition strip_suffix :: "string \<Rightarrow> string \<Rightarrow> string option" where
  "strip_suffix p s = map_option rev (strip_prefix (rev p) (rev s))"

fun find_char :: "char \<Rightarrow> string \<Rightarrow> nat option" where
  "find_char c [] = None"
| "find_char c (x # xs) = (if x = c then Some 0 else map_option Suc (find_char c xs))"

definition rfind_char :: "char \<Rightarrow> string \<Rightarrow> nat option" where
  "rfind_char c s = map_option (\<lambda>i. length s - 1 - i) (find_char c (rev s))"

text \<open>\<open>&s[a..b]\<close>.\<close>

definition str_slice :: "string \<Rightarrow> nat \<Rightarrow> nat \<Rightarrow> string" where
  "str_slice s a b = take (b - a) (drop a s)"

text \<open>\<open>while pred(s[i]) { i += 1 }\<close> as the length of the run at the head of the text.\<close>

definition span_len :: "(char \<Rightarrow> bool) \<Rightarrow> string \<Rightarrow> nat" where
  "span_len P s = length (takeWhile P s)"

section \<open>Decimal text\<close>

definition digit_val :: "char \<Rightarrow> nat" where
  "digit_val c = byte c - 48"

definition digit_char :: "nat \<Rightarrow> char" where
  "digit_char n = char_of (48 + n)"

fun show_nat :: "nat \<Rightarrow> string" where
  "show_nat n = (if n < 10 then [digit_char n] else show_nat (n div 10) @ [digit_char (n mod 10)])"

declare show_nat.simps [simp del]

definition show_int :: "int \<Rightarrow> string" where
  "show_int i = (if i < 0 then ''-'' @ show_nat (nat (- i)) else show_nat (nat i))"

text \<open>Value of a run of digits, most significant first.\<close>

definition digits_val :: "nat \<Rightarrow> string \<Rightarrow> nat" where
  "digits_val base ds = foldl (\<lambda>a c. a * base + digit_val c) 0 ds"

text \<open>\<open>str::parse\<close> at a signed and at an unsigned type: an optional sign, at least one
  digit, nothing else, in range.\<close>

definition parse_digits :: "string \<Rightarrow> nat option" where
  "parse_digits s = (if s \<noteq> [] \<and> list_all is_digit s then Some (digits_val 10 s) else None)"

definition parse_int :: "string \<Rightarrow> int option" where
  "parse_int s = (case s of
     [] \<Rightarrow> None
   | c # cs \<Rightarrow> if c = CHR ''-'' then map_option (\<lambda>n. - int n) (parse_digits cs)
               else if c = CHR ''+'' then map_option int (parse_digits cs)
               else map_option int (parse_digits s))"

definition parse_i64 :: "string \<Rightarrow> i64 option" where
  "parse_i64 s = (case parse_int s of
     None \<Rightarrow> None
   | Some i \<Rightarrow> if - (2 ^ 63) \<le> i \<and> i < 2 ^ 63 then Some (word_of_int i) else None)"

definition parse_i32 :: "string \<Rightarrow> int option" where
  "parse_i32 s = (case parse_int s of
     None \<Rightarrow> None
   | Some i \<Rightarrow> if - (2 ^ 31) \<le> i \<and> i < 2 ^ 31 then Some i else None)"

definition parse_u32 :: "string \<Rightarrow> nat option" where
  "parse_u32 s = (case s of
     [] \<Rightarrow> None
   | c # cs \<Rightarrow> (case parse_digits (if c = CHR ''+'' then cs else s) of
       None \<Rightarrow> None
     | Some n \<Rightarrow> if n < 2 ^ 32 then Some n else None))"

section \<open>Lemmas on text\<close>

lemma utf8_width_pos [simp]: "0 < utf8_width c"
  by (simp add: utf8_width_def)

lemma byte_digit_char [simp]: "n < 10 \<Longrightarrow> byte (digit_char n) = 48 + n"
  by (simp add: byte_def digit_char_def)

lemma is_digit_digit_char [simp]: "n < 10 \<Longrightarrow> is_digit (digit_char n)"
  by (simp add: is_digit_def)

lemma digit_val_digit_char [simp]: "n < 10 \<Longrightarrow> digit_val (digit_char n) = n"
  by (simp add: digit_val_def)

lemma digits_val_snoc [simp]: "digits_val b (ds @ [c]) = digits_val b ds * b + digit_val c"
  by (simp add: digits_val_def)

lemma digits_val_Nil [simp]: "digits_val b [] = 0"
  by (simp add: digits_val_def)

lemma foldl_digits:
  "foldl (\<lambda>a c. a * 10 + digit_val c) k ds = k * 10 ^ length ds + foldl (\<lambda>a c. a * 10 + digit_val c) 0 ds"
proof (induction ds arbitrary: k)
  case (Cons d ds)
  have "foldl (\<lambda>a c. a * 10 + digit_val c) k (d # ds) =
      (k * 10 + digit_val d) * 10 ^ length ds + foldl (\<lambda>a c. a * 10 + digit_val c) 0 ds"
    by (simp only: foldl.simps Cons [of "k * 10 + digit_val d"])
  also have "\<dots> = k * 10 ^ length (d # ds) + (digit_val d * 10 ^ length ds + foldl (\<lambda>a c. a * 10 + digit_val c) 0 ds)"
    by (simp add: distrib_right)
  finally show ?case using Cons [of "digit_val d"] by simp
qed simp

lemma digits_val_Cons: "digits_val 10 (c # ds) = digit_val c * 10 ^ length ds + digits_val 10 ds"
  using foldl_digits [of "digit_val c" ds] by (simp add: digits_val_def)

lemma digit_chars:
  "digit_char 0 = CHR ''0''" "digit_char (Suc 0) = CHR ''1''" "digit_char 2 = CHR ''2''" "digit_char 3 = CHR ''3''"
  "digit_char 4 = CHR ''4''" "digit_char 5 = CHR ''5''" "digit_char 6 = CHR ''6''" "digit_char 7 = CHR ''7''"
  "digit_char 8 = CHR ''8''" "digit_char 9 = CHR ''9''"
  by code_simp+

lemma show_nat_digits [simp]: "list_all is_digit (show_nat n)"
proof (induction n rule: show_nat.induct)
  case (1 n)
  then show ?case by (subst show_nat.simps) auto
qed

lemma show_nat_neq_Nil [simp]: "show_nat n \<noteq> []"
  by (subst show_nat.simps) simp

lemma digits_val_show_nat [simp]: "digits_val 10 (show_nat n) = n"
proof (induction n rule: show_nat.induct)
  case (1 n)
  show ?case
  proof (cases "n < 10")
    case True
    then show ?thesis by (subst show_nat.simps) (simp add: digits_val_def)
  next
    case False
    then show ?thesis using 1 by (subst show_nat.simps) simp
  qed
qed

lemma parse_digits_show_nat [simp]: "parse_digits (show_nat n) = Some n"
  by (simp add: parse_digits_def)

lemma is_digit_neq:
  assumes "is_digit c"
  shows "c \<noteq> CHR ''-''" "c \<noteq> CHR ''+''" "c \<noteq> CHR ''_''" "c \<noteq> CHR '' ''" "c \<noteq> CHR ''.''"
  using assms by (auto simp: is_digit_def byte_def)

lemma parse_int_show_int: "parse_int (show_int i) = Some i"
proof (cases "i < 0")
  case True
  then show ?thesis by (simp add: show_int_def parse_int_def)
next
  case False
  obtain c cs where c: "show_nat (nat i) = c # cs"
    using show_nat_neq_Nil by (cases "show_nat (nat i)") auto
  then have "is_digit c"
    using show_nat_digits [of "nat i"] by simp
  then have "c \<noteq> CHR ''-''" "c \<noteq> CHR ''+''"
    by (rule is_digit_neq)+
  moreover have "parse_digits (c # cs) = Some (nat i)"
    using parse_digits_show_nat [of "nat i"] c by simp
  ultimately show ?thesis using False c by (simp add: show_int_def parse_int_def)
qed

lemma digit_char_zero: "k < 10 \<Longrightarrow> digit_char k = CHR ''0'' \<longleftrightarrow> k = 0"
proof -
  assume k: "k < 10"
  have "digit_char k = CHR ''0'' \<longleftrightarrow> byte (digit_char k) = byte (CHR ''0'')"
    unfolding byte_def of_char_eq_iff ..
  also have "\<dots> \<longleftrightarrow> k = 0"
    unfolding byte_digit_char [OF k] by (simp add: byte_def)
  finally show "digit_char k = CHR ''0'' \<longleftrightarrow> k = 0" .
qed

lemma show_nat_zero: "hd (show_nat n) = CHR ''0'' \<longleftrightarrow> n = 0"
proof (induction n rule: show_nat.induct)
  case (1 n)
  note d = digit_char_zero
  show ?case
  proof (cases "n < 10")
    case True
    then show ?thesis using d by (subst show_nat.simps) simp
  next
    case False
    then have "n div 10 \<noteq> 0" by simp
    then show ?thesis using False 1 by (subst show_nat.simps) simp
  qed
qed

lemma show_nat_0: "show_nat 0 = ''0''"
  by (simp add: show_nat.simps digit_char_zero)

lemma parse_show_int: "- (2 ^ 63) \<le> i \<Longrightarrow> i < 2 ^ 63 \<Longrightarrow> parse_i64 (show_int i) = Some (word_of_int i)"
  by (simp add: parse_i64_def parse_int_show_int)

lemma show_int_chars: "c \<in> set (show_int i) \<Longrightarrow> c = CHR ''-'' \<or> is_digit c"
  using show_nat_digits by (auto simp: show_int_def list_all_iff split: if_splits)

lemma span_len_le: "span_len P s \<le> length s"
  by (simp add: span_len_def length_takeWhile_le)

lemma length_str_slice: "length (str_slice s a b) \<le> b - a"
  by (simp add: str_slice_def)

end
