(* ===== verification/MathTypes.thy ===== *)
theory MathTypes
  imports Prelude
begin

text \<open>
  Data of the arithmetic evaluator (\<open>src/ported/math.rs\<close>): numbers, operand-stack
  entries, tokens with their precedence and operator-type tables, the evaluator's
  state and the configuration it reads.

  Floating point is the parameter \<open>'f float_ops\<close>: IEEE arithmetic is not
  part of the program.  The parameter table is \<open>'e\<close> with the operations
  \<open>('f, 'e) param_ops\<close> of \<open>src/ported/params.rs\<close> the evaluator calls.  The drop-in
  modes of \<open>src/extensions/dash_mode.rs\<close> are fields of the configuration; the model
  covers every mode except \<open>ksh93_mode\<close>, whose arithmetic is the host's long double.
\<close>

section \<open>Numbers\<close>

record 'f mnumber =
  mn_l :: i64
  mn_d :: 'f
  mn_type :: "32 word"

definition MN_INTEGER :: "32 word" where "MN_INTEGER = 1"
definition MN_FLOAT :: "32 word" where "MN_FLOAT = 2"
definition MN_UNSET :: "32 word" where "MN_UNSET = 4"

record 'f mathvalue =
  mv_val :: "'f mnumber"
  mv_lval :: "string option"
  mv_pval :: "string option"

record 'f float_ops =
  f_zero :: 'f
  f_one :: 'f
  f_nan :: 'f
  f_inf :: 'f
  f_of_int :: "i64 \<Rightarrow> 'f"
  f_to_int :: "'f \<Rightarrow> i64"
  f_add :: "'f \<Rightarrow> 'f \<Rightarrow> 'f"
  f_sub :: "'f \<Rightarrow> 'f \<Rightarrow> 'f"
  f_mul :: "'f \<Rightarrow> 'f \<Rightarrow> 'f"
  f_div :: "'f \<Rightarrow> 'f \<Rightarrow> 'f"
  f_rem :: "'f \<Rightarrow> 'f \<Rightarrow> 'f"
  f_pow :: "'f \<Rightarrow> 'f \<Rightarrow> 'f"
  f_neg :: "'f \<Rightarrow> 'f"
  f_trunc :: "'f \<Rightarrow> 'f"
  f_lt :: "'f \<Rightarrow> 'f \<Rightarrow> bool"
  f_le :: "'f \<Rightarrow> 'f \<Rightarrow> bool"
  f_eq :: "'f \<Rightarrow> 'f \<Rightarrow> bool"
  f_parse :: "string \<Rightarrow> 'f option"
  f_show :: "'f \<Rightarrow> string"
  f_display :: "'f \<Rightarrow> string"

section \<open>Tokens\<close>

text \<open>The token constants under their source names; \<open>COMP\<close> is \<open>M_COMP\<close> because the ML
  environment reserves that word.\<close>

datatype token =
  M_INPAR | M_OUTPAR | NOT | M_COMP | POSTPLUS | POSTMINUS | UPLUS | UMINUS
| AND | XOR | OR | MUL | DIV | MOD | PLUS | MINUS | SHLEFT | SHRIGHT
| LES | LEQ | GRE | GEQ | DEQ | NEQ | DAND | DOR | DXOR | QUEST | COLON
| EQ | PLUSEQ | MINUSEQ | MULEQ | DIVEQ | MODEQ | ANDEQ | XOREQ | OREQ
| SHLEFTEQ | SHRIGHTEQ | DANDEQ | DOREQ | DXOREQ | COMMA | EOI
| PREPLUS | PREMINUS | NUM | ID | POWER | CID | POWEREQ | FUNC

text \<open>The numeric value of each token constant, the index of the tables below.\<close>

primrec tok_code :: "token \<Rightarrow> nat" where
  "tok_code M_INPAR = 0" | "tok_code M_OUTPAR = 1" | "tok_code NOT = 2" | "tok_code M_COMP = 3"
| "tok_code POSTPLUS = 4" | "tok_code POSTMINUS = 5" | "tok_code UPLUS = 6" | "tok_code UMINUS = 7"
| "tok_code AND = 8" | "tok_code XOR = 9" | "tok_code OR = 10" | "tok_code MUL = 11"
| "tok_code DIV = 12" | "tok_code MOD = 13" | "tok_code PLUS = 14" | "tok_code MINUS = 15"
| "tok_code SHLEFT = 16" | "tok_code SHRIGHT = 17" | "tok_code LES = 18" | "tok_code LEQ = 19"
| "tok_code GRE = 20" | "tok_code GEQ = 21" | "tok_code DEQ = 22" | "tok_code NEQ = 23"
| "tok_code DAND = 24" | "tok_code DOR = 25" | "tok_code DXOR = 26" | "tok_code QUEST = 27"
| "tok_code COLON = 28" | "tok_code EQ = 29" | "tok_code PLUSEQ = 30" | "tok_code MINUSEQ = 31"
| "tok_code MULEQ = 32" | "tok_code DIVEQ = 33" | "tok_code MODEQ = 34" | "tok_code ANDEQ = 35"
| "tok_code XOREQ = 36" | "tok_code OREQ = 37" | "tok_code SHLEFTEQ = 38" | "tok_code SHRIGHTEQ = 39"
| "tok_code DANDEQ = 40" | "tok_code DOREQ = 41" | "tok_code DXOREQ = 42" | "tok_code COMMA = 43"
| "tok_code EOI = 44" | "tok_code PREPLUS = 45" | "tok_code PREMINUS = 46" | "tok_code NUM = 47"
| "tok_code ID = 48" | "tok_code POWER = 49" | "tok_code CID = 50" | "tok_code POWEREQ = 51"
| "tok_code FUNC = 52"

definition TOKCOUNT :: nat where "TOKCOUNT = 53"

text \<open>Operator associativity and type flags.\<close>

definition LR :: nat where "LR = 0x0000"
definition RL :: nat where "RL = 0x0001"
definition BOOL :: nat where "BOOL = 0x0002"
definition OP_A2 :: nat where "OP_A2 = 0x0004"
definition OP_A2IR :: nat where "OP_A2IR = 0x0008"
definition OP_A2IO :: nat where "OP_A2IO = 0x0010"
definition OP_E2 :: nat where "OP_E2 = 0x0020"
definition OP_E2IO :: nat where "OP_E2IO = 0x0040"
definition OP_OP :: nat where "OP_OP = 0x0080"
definition OP_OPF :: nat where "OP_OPF = 0x0100"

text \<open>The flags are distinct powers of two, so a bit test is an odd quotient and an
  \<open>|\<close> of distinct flags is a sum.\<close>

definition has_flag :: "nat \<Rightarrow> nat \<Rightarrow> bool" where
  "has_flag tp fl \<longleftrightarrow> odd (tp div fl)"

definition Z_PREC :: "nat list" where
  "Z_PREC = [
    1, 137, 2, 2, 2,
    2, 2, 2, 4, 5,
    6, 8, 8, 8, 9,
    9, 3, 3, 10, 10,
    10, 10, 11, 11, 12,
    13, 13, 14, 15, 16,
    16, 16, 16, 16, 16,
    16, 16, 16, 16, 16,
    16, 16, 16, 17, 200,
    2, 2, 0, 0, 7,
    0, 16, 0]"

definition C_PREC :: "nat list" where
  "C_PREC = [
    1, 137, 2, 2, 2, 2, 2, 2, 9, 10, 11, 4, 4, 4, 5, 5, 6, 6, 7, 7, 7, 7, 8, 8, 12, 14, 13, 15, 16,
    17, 17, 17, 17, 17, 17, 17, 17, 17, 17, 17, 17, 17, 17, 18, 200, 2, 2, 0, 0, 3, 0, 17, 0]"

definition Z_PREC_TERNARY_MIDDLE :: "nat list" where
  "Z_PREC_TERNARY_MIDDLE = Z_PREC[tok_code COLON := 17]"

definition C_PREC_TERNARY_MIDDLE :: "nat list" where
  "C_PREC_TERNARY_MIDDLE = C_PREC[tok_code COLON := 18]"

definition OP_TYPE :: "nat list" where
  "OP_TYPE = [
    LR,
    LR + OP_OP + OP_OPF,
    RL,
    RL,
    RL + OP_OP + OP_OPF,
    RL + OP_OP + OP_OPF,
    RL,
    RL,
    LR + OP_A2IO,
    LR + OP_A2IO,
    LR + OP_A2IO,
    LR + OP_A2,
    LR + OP_A2,
    LR + OP_A2,
    LR + OP_A2,
    LR + OP_A2,
    LR + OP_A2IO,
    LR + OP_A2IO,
    LR + OP_A2IR,
    LR + OP_A2IR,
    LR + OP_A2IR,
    LR + OP_A2IR,
    LR + OP_A2IR,
    LR + OP_A2IR,
    BOOL + OP_A2IO,
    BOOL + OP_A2IO,
    LR + OP_A2IO,
    RL + OP_OP,
    RL + OP_OP,
    RL + OP_E2,
    RL + OP_E2,
    RL + OP_E2,
    RL + OP_E2,
    RL + OP_E2,
    RL + OP_E2,
    RL + OP_E2IO,
    RL + OP_E2IO,
    RL + OP_E2IO,
    RL + OP_E2IO,
    RL + OP_E2IO,
    BOOL + OP_E2IO,
    BOOL + OP_E2IO,
    RL + OP_A2IO,
    RL + OP_A2,
    RL + OP_OP,
    RL,
    RL,
    LR + OP_OPF,
    LR + OP_OPF,
    RL + OP_A2,
    LR + OP_OPF,
    RL + OP_E2,
    LR + OP_OPF]"

definition op_type :: "token \<Rightarrow> nat" where
  "op_type t = OP_TYPE ! tok_code t"

definition prec_of :: "nat list \<Rightarrow> token \<Rightarrow> nat" where
  "prec_of P t = P ! tok_code t"

datatype prec_type = MPREC_TOP | MPREC_ARG

section \<open>State\<close>

text \<open>The thread-local variables of the evaluator.  The operand stack grows at the head
  of the list.  \<open>m_env\<close> is the parameter table and \<open>m_diag\<close> the messages given to
  \<open>zerr\<close> and \<open>zwarn\<close>, newest first; both outlive an evaluation, like the output radix
  and \<open>m_lastmathval\<close>.  \<open>m_panic\<close> is not a variable of the program: the model raises
  it where the code would panic, at a slice whose end precedes its start.\<close>

record ('f, 'e) mstate =
  m_input :: string
  m_pos :: nat
  m_tok_start :: nat
  m_yyval :: "'f mnumber"
  m_yylval :: string
  m_stack :: "'f mathvalue list"
  m_mtok :: token
  m_unary :: bool
  m_noeval :: int
  m_lastbase :: int
  m_prec :: "nat list"
  m_c_precedences :: bool
  m_force_float :: bool
  m_octal_zeroes :: bool
  m_error :: "string option"
  m_variables :: "string \<rightharpoonup> 'f mnumber"
  m_string_variables :: "string \<rightharpoonup> string"
  m_outputradix :: int
  m_outputunderscore :: int
  m_lastmathval :: "'f mnumber"
  m_diag :: "string list"
  m_panic :: bool
  m_env :: 'e

section \<open>The parameter table\<close>

text \<open>A parameter node (\<open>struct param\<close>), as far as the evaluator reads it.\<close>

record 'f param =
  pm_flags :: "32 word"
  pm_u_val :: i64
  pm_u_dval :: 'f
  pm_u_str :: "string option"

definition PM_SCALAR :: "32 word" where "PM_SCALAR = 0"
definition PM_ARRAY :: "32 word" where "PM_ARRAY = 0x1"
definition PM_INTEGER :: "32 word" where "PM_INTEGER = 0x2"
definition PM_EFLOAT :: "32 word" where "PM_EFLOAT = 0x4"
definition PM_FFLOAT :: "32 word" where "PM_FFLOAT = 0x8"
definition PM_HASHED :: "32 word" where "PM_HASHED = 0x10"
definition PM_READONLY :: "32 word" where "PM_READONLY = 0x400"
definition PM_TIED :: "32 word" where "PM_TIED = 0x10000"
definition PM_SPECIAL :: "32 word" where "PM_SPECIAL = 0x100000"
definition PM_UNSET :: "32 word" where "PM_UNSET = 0x1000000"
definition PM_NAMEREF :: "32 word" where "PM_NAMEREF = 0x40000000"

definition pm_test :: "32 word \<Rightarrow> 32 word \<Rightarrow> bool" where
  "pm_test fl m \<longleftrightarrow> semiring_bit_operations_class.and fl m \<noteq> 0"

definition PM_TYPE :: "32 word \<Rightarrow> 32 word" where
  "PM_TYPE x = semiring_bit_operations_class.and x
     (PM_SCALAR + PM_INTEGER + PM_EFLOAT + PM_FFLOAT + PM_ARRAY + PM_HASHED + PM_NAMEREF)"

text \<open>The operations of the parameter code and of the math function table the evaluator
  calls.  The three assignments also read \<open>lastbase\<close>, which a parameter without a base of
  its own inherits.  \<open>p_element\<close> reads a subscripted parameter (\<open>getvalue\<close>, \<open>getnumvalue\<close>) and
  \<open>p_doshfunc\<close> runs a shell function; both may call back into the evaluator, their first
  argument.\<close>

type_synonym ('f, 'e) nested_eval =
  "string \<Rightarrow> ('f, 'e) mstate \<Rightarrow> (string + 'f mnumber) \<times> ('f, 'e) mstate"

record mathfunc =
  mf_name :: string
  mf_flags :: "32 word"
  mf_module :: "string option"
  mf_minargs :: int
  mf_maxargs :: int

definition MFF_STR :: "32 word" where "MFF_STR = 1"
definition MFF_USERFUNC :: "32 word" where "MFF_USERFUNC = 4"

record ('f, 'e) param_ops =
  p_get :: "string \<Rightarrow> 'e \<Rightarrow> 'f param option"
  p_visible :: "string \<Rightarrow> 'e \<Rightarrow> bool"
  p_getsparam :: "string \<Rightarrow> 'e \<Rightarrow> string option \<times> 'e"
  p_array0 :: "string \<Rightarrow> 'e \<Rightarrow> string option"
  p_first_code :: "string \<Rightarrow> i64"
  p_assignnparam :: "int \<Rightarrow> string \<Rightarrow> 'f mnumber \<Rightarrow> 'e \<Rightarrow> 'e"
  p_setnparam :: "int \<Rightarrow> string \<Rightarrow> 'f mnumber \<Rightarrow> 'e \<Rightarrow> 'e \<times> 32 word option"
  p_assignsparam :: "int \<Rightarrow> string \<Rightarrow> string \<Rightarrow> 'e \<Rightarrow> 'e"
  p_element :: "('f, 'e) nested_eval \<Rightarrow> string \<Rightarrow> ('f, 'e) mstate \<Rightarrow> 'f mnumber \<times> ('f, 'e) mstate"
  p_mathfuncs :: "'e \<Rightarrow> mathfunc list"
  p_autoload :: "string \<Rightarrow> 'e \<Rightarrow> bool \<times> 'e"
  p_getshfunc :: "string \<Rightarrow> 'e \<Rightarrow> bool"
  p_doshfunc :: "('f, 'e) nested_eval \<Rightarrow> string \<Rightarrow> string list \<Rightarrow> ('f, 'e) mstate \<Rightarrow> ('f, 'e) mstate"
  p_sfunc :: "string \<Rightarrow> string \<Rightarrow> 'e \<Rightarrow> 'f mnumber \<times> 'e"
  p_nfunc :: "string \<Rightarrow> 'f mnumber list \<Rightarrow> 'e \<Rightarrow> 'f mnumber \<times> 'e"

section \<open>Configuration\<close>

record ('f, 'e) mconf =
  c_float :: "'f float_ops"
  c_param :: "('f, 'e) param_ops"
  c_dash_strict :: bool
  c_posix_faithful :: bool
  c_bash_mode :: bool
  c_pdksh_family :: bool
  c_personality_sh :: bool
  c_emulate_sh :: bool
  c_emulate_ksh :: bool
  c_emulating_592 :: bool
  c_atomax_clamps :: bool
  o_cprecedences :: bool
  o_forcefloat :: bool
  o_octalzeroes :: bool
  o_unset :: bool
  o_ksharrays :: bool
  o_multibyte :: bool
  o_posixidentifiers :: bool
  c_lastval :: i32
  c_pid :: i64
  c_pound :: i64
  c_iswalnum :: "string \<Rightarrow> bool"

definition dash_strict :: "('f, 'e) mconf \<Rightarrow> bool" where
  "dash_strict C = c_dash_strict C"

definition posix_faithful :: "('f, 'e) mconf \<Rightarrow> bool" where
  "posix_faithful C = c_posix_faithful C"

definition dash_faithful :: "('f, 'e) mconf \<Rightarrow> bool" where
  "dash_faithful C \<longleftrightarrow> posix_faithful C \<and> dash_strict C"

definition bash_mode :: "('f, 'e) mconf \<Rightarrow> bool" where
  "bash_mode C = c_bash_mode C"

definition sh_mode :: "('f, 'e) mconf \<Rightarrow> bool" where
  "sh_mode C \<longleftrightarrow> posix_faithful C \<and> c_personality_sh C"

definition pdksh_family :: "('f, 'e) mconf \<Rightarrow> bool" where
  "pdksh_family C = c_pdksh_family C"

definition korn_mode :: "('f, 'e) mconf \<Rightarrow> bool" where
  "korn_mode C \<longleftrightarrow> posix_faithful C \<and> c_emulate_ksh C"

definition math_unset_is_error :: "('f, 'e) mconf \<Rightarrow> bool" where
  "math_unset_is_error C \<longleftrightarrow> \<not> pdksh_family C"

lemmas mode_defs = dash_strict_def posix_faithful_def dash_faithful_def bash_mode_def sh_mode_def
  pdksh_family_def korn_mode_def math_unset_is_error_def

text \<open>An evaluator: \<open>mathevall\<close> run at the next nesting level.\<close>

type_synonym ('f, 'e) evalf = "prec_type \<Rightarrow> ('f, 'e) mstate \<Rightarrow> (string + 'f mnumber) \<times> ('f, 'e) mstate"

definition MAX_MLEVEL :: nat where "MAX_MLEVEL = 256"

end
