(* ===== verification/MathOps.thy ===== *)
theory MathOps
  imports MathTypes
begin

text \<open>
  The operand stack, the variable accesses and the operators of the evaluator:
  \<open>push\<close>, \<open>pop\<close>, \<open>getmathparam\<close>, \<open>setmathvar\<close>, \<open>getcvar\<close>, \<open>op\<close> and \<open>bop\<close> of
  \<open>src/ported/math.rs\<close>.  Every function takes the configuration and, where it may
  evaluate the text of a parameter or of a subscript, the evaluator of the next nesting
  level, \<open>ev\<close>.
\<close>

section \<open>Numbers\<close>

definition int_num :: "('f, 'e) mconf \<Rightarrow> i64 \<Rightarrow> 'f mnumber" where
  "int_num C v = \<lparr>mn_l = v, mn_d = f_zero (c_float C), mn_type = MN_INTEGER\<rparr>"

definition float_num :: "('f, 'e) mconf \<Rightarrow> 'f \<Rightarrow> 'f mnumber" where
  "float_num C x = \<lparr>mn_l = 0, mn_d = x, mn_type = MN_FLOAT\<rparr>"

definition unset_num :: "('f, 'e) mconf \<Rightarrow> 'f mnumber" where
  "unset_num C = \<lparr>mn_l = 0, mn_d = f_zero (c_float C), mn_type = MN_UNSET\<rparr>"

text \<open>The two readings every operator applies to its operands.\<close>

definition as_int :: "('f, 'e) mconf \<Rightarrow> 'f mnumber \<Rightarrow> i64" where
  "as_int C n = (if mn_type n = MN_FLOAT then f_to_int (c_float C) (mn_d n) else mn_l n)"

definition as_float :: "('f, 'e) mconf \<Rightarrow> 'f mnumber \<Rightarrow> 'f" where
  "as_float C n = (if mn_type n = MN_FLOAT then mn_d n else f_of_int (c_float C) (mn_l n))"

definition notzero :: "'f mnumber \<Rightarrow> bool" where
  "notzero a = (if mn_type a = MN_UNSET then False
                else if mn_type a = MN_INTEGER then mn_l a \<noteq> 0 else True)"

text \<open>The truth test of \<open>!\<close> and \<open>?:\<close>: false for an integer zero, a float zero and an
  unresolved value.\<close>

definition is_false :: "('f, 'e) mconf \<Rightarrow> 'f mnumber \<Rightarrow> bool" where
  "is_false C n \<longleftrightarrow> (mn_type n = MN_INTEGER \<and> mn_l n = 0)
     \<or> (mn_type n = MN_FLOAT \<and> f_eq (c_float C) (mn_d n) (f_zero (c_float C)))
     \<or> mn_type n = MN_UNSET"

section \<open>Accessors\<close>

definition m_error_some :: "('f, 'e) mstate \<Rightarrow> bool" where
  "m_error_some st \<longleftrightarrow> m_error st \<noteq> None"

definition m_error_set :: "string \<Rightarrow> ('f, 'e) mstate \<Rightarrow> ('f, 'e) mstate" where
  "m_error_set msg st = (if m_error st = None then st\<lparr>m_error := Some msg\<rparr> else st)"

definition zerr :: "string \<Rightarrow> ('f, 'e) mstate \<Rightarrow> ('f, 'e) mstate" where
  "zerr msg st = st\<lparr>m_diag := msg # m_diag st\<rparr>"

definition m_variables_insert :: "string \<Rightarrow> 'f mnumber \<Rightarrow> ('f, 'e) mstate \<Rightarrow> ('f, 'e) mstate" where
  "m_variables_insert k v st = st\<lparr>m_variables := (m_variables st)(k \<mapsto> v)\<rparr>"

text \<open>\<open>restore_state\<close> puts every field of \<open>xyy_locals\<close> back; what an inner evaluation did
  to the parameter table, the diagnostics, the output radix and \<open>lastmathval\<close> stays.\<close>

definition restore_state :: "('f, 'e) mstate \<Rightarrow> ('f, 'e) mstate \<Rightarrow> ('f, 'e) mstate" where
  "restore_state saved st = saved\<lparr>
     m_outputradix := m_outputradix st, m_outputunderscore := m_outputunderscore st,
     m_lastmathval := m_lastmathval st, m_diag := m_diag st, m_panic := m_panic st,
     m_env := m_env st\<rparr>"

definition new_state :: "('f, 'e) mconf \<Rightarrow> string \<Rightarrow> ('f, 'e) mstate \<Rightarrow> ('f, 'e) mstate" where
  "new_state C s st = st\<lparr>
     m_input := s, m_pos := 0, m_tok_start := 0, m_yyval := int_num C 0, m_yylval := [],
     m_stack := [], m_mtok := EOI, m_unary := True, m_noeval := 0, m_lastbase := -1,
     m_prec := Z_PREC, m_c_precedences := False, m_force_float := False,
     m_octal_zeroes := False, m_variables := Map.empty, m_string_variables := Map.empty,
     m_error := None\<rparr>"

definition push :: "'f mnumber \<Rightarrow> string option \<Rightarrow> ('f, 'e) mstate \<Rightarrow> ('f, 'e) mstate" where
  "push v lval st = st\<lparr>m_stack := \<lparr>mv_val = v, mv_lval = lval, mv_pval = None\<rparr> # m_stack st\<rparr>"

definition default_mathvalue :: "('f, 'e) mconf \<Rightarrow> 'f mathvalue" where
  "default_mathvalue C = \<lparr>mv_val = int_num C 0, mv_lval = None, mv_pval = None\<rparr>"

definition pop_with_lval :: "('f, 'e) mconf \<Rightarrow> ('f, 'e) mstate \<Rightarrow> 'f mathvalue \<times> ('f, 'e) mstate" where
  "pop_with_lval C st = (case m_stack st of
     [] \<Rightarrow> (default_mathvalue C, st)
   | mv # rest \<Rightarrow> (mv, st\<lparr>m_stack := rest\<rparr>))"

definition top_prec :: "('f, 'e) mstate \<Rightarrow> nat" where
  "top_prec st = prec_of (m_prec st) COMMA + 1"

section \<open>Nested evaluation\<close>

text \<open>The sentinels \<open>Nularg\<close> and \<open>Inpar\<close>, encoded.\<close>

definition Nularg :: string where "Nularg = [CHR 0xEE, CHR 0x86, CHR 0xA1]"
definition Inpar :: string where "Inpar = [CHR 0xEE, CHR 0x86, CHR 0x88]"

definition skip_nularg :: "string \<Rightarrow> string" where
  "skip_nularg s = (case strip_prefix Nularg s of Some r \<Rightarrow> r | None \<Rightarrow> s)"

text \<open>The full path of \<open>matheval\<close>: the value cache lives for the evaluation only.\<close>

definition matheval_run ::
  "('f, 'e) mconf \<Rightarrow> ('f, 'e) evalf \<Rightarrow> string \<Rightarrow> ('f, 'e) mstate \<Rightarrow> (string + 'f mnumber) \<times> ('f, 'e) mstate" where
  "matheval_run C ev s st =
     (let (r, st1) = ev MPREC_TOP (new_state C s st);
          st2 = st1\<lparr>m_variables := m_variables st, m_string_variables := m_string_variables st,
                    m_mtok := m_mtok st\<rparr>
      in case r of Inr n \<Rightarrow> (r, st2\<lparr>m_lastmathval := n\<rparr>) | Inl _ \<Rightarrow> (r, st2))"

text \<open>\<open>matheval\<close> called while an evaluation is in progress (\<open>M_LEVEL > 0\<close>): no reset of
  the output format and no shortcut.\<close>

definition matheval_nested ::
  "('f, 'e) mconf \<Rightarrow> ('f, 'e) evalf \<Rightarrow> ('f, 'e) nested_eval" where
  "matheval_nested C ev s0 st =
     (let s = skip_nularg s0
      in if dash_faithful C \<and> trim s = [] then (Inl ''bad math expression: expression expected'', st)
         else if s = [] then (Inr (int_num C 0), st)
         else matheval_run C ev s st)"

text \<open>The same between \<open>save_state\<close> and \<open>restore_state\<close>.\<close>

definition matheval_saved ::
  "('f, 'e) mconf \<Rightarrow> ('f, 'e) evalf \<Rightarrow> ('f, 'e) nested_eval" where
  "matheval_saved C ev s st =
     (let (r, st1) = matheval_nested C ev s st in (r, restore_state st st1))"

section \<open>Reading a parameter\<close>

definition base_name :: "string \<Rightarrow> string" where
  "base_name name = (case find_char (CHR ''['') name of Some b \<Rightarrow> take b name | None \<Rightarrow> name)"

definition has_subscript :: "string \<Rightarrow> bool" where
  "has_subscript name \<longleftrightarrow> find_char (CHR ''['') name \<noteq> None"

text \<open>The text between the first \<open>[\<close> and the last \<open>]\<close>.\<close>

definition subscript_body :: "string \<Rightarrow> string" where
  "subscript_body name = (case find_char (CHR ''['') name of
     None \<Rightarrow> []
   | Some bi \<Rightarrow>
       let close = (case rfind_char (CHR '']'') name of Some i \<Rightarrow> i | None \<Rightarrow> length name)
       in if bi < close then str_slice name (bi + 1) close else [])"

text \<open>The typed read of a plain integer or float parameter.\<close>

definition typed_read :: "('f, 'e) mconf \<Rightarrow> string \<Rightarrow> 'e \<Rightarrow> 'f mnumber option" where
  "typed_read C base env = (case p_get (c_param C) base env of
     None \<Rightarrow> None
   | Some pm \<Rightarrow>
       let fl = pm_flags pm;
           plain = (\<not> pm_test fl (PM_SPECIAL + PM_NAMEREF + PM_UNSET)) \<and> p_visible (c_param C) base env;
           t = PM_TYPE fl
       in if plain \<and> t = PM_INTEGER then Some (int_num C (pm_u_val pm))
          else if plain \<and> (t = PM_EFLOAT \<or> t = PM_FFLOAT) then Some (float_num C (pm_u_dval pm))
          else None)"

text \<open>\<open>strtoimax\<close> as dash reads a variable: accumulated negatively, saturating.\<close>

definition to_digit :: "nat \<Rightarrow> char \<Rightarrow> nat option" where
  "to_digit radix c =
     (let v = (if is_digit c then byte c - 48
               else if 97 \<le> byte c \<and> byte c \<le> 122 then byte c - 87
               else if 65 \<le> byte c \<and> byte c \<le> 90 then byte c - 55
               else 99)
      in if v < radix then Some v else None)"

fun strtoimax_acc :: "nat \<Rightarrow> string \<Rightarrow> int \<Rightarrow> bool \<Rightarrow> (int \<times> bool) option" where
  "strtoimax_acc radix [] acc erange = Some (acc, erange)"
| "strtoimax_acc radix (c # cs) acc erange = (case to_digit radix c of
     None \<Rightarrow> None
   | Some d \<Rightarrow>
       let a = acc * int radix - int d
       in if erange then strtoimax_acc radix cs acc True
          else if - (2 ^ 63) \<le> acc * int radix \<and> - (2 ^ 63) \<le> a then strtoimax_acc radix cs a False
          else strtoimax_acc radix cs acc True)"

definition strtoimax_digits :: "bool \<Rightarrow> string \<Rightarrow> nat \<Rightarrow> (int \<times> bool) option" where
  "strtoimax_digits neg digits radix =
     (if digits = [] then None
      else case strtoimax_acc radix digits 0 False of
        None \<Rightarrow> None
      | Some (acc, erange) \<Rightarrow>
          if erange then Some (if neg then - (2 ^ 63) else 2 ^ 63 - 1, True)
          else if neg then Some (acc, False)
          else if acc = - (2 ^ 63) then Some (2 ^ 63 - 1, True)
          else Some (- acc, False))"

definition dash_atomax_range :: "('f, 'e) mconf \<Rightarrow> (int \<times> bool) option \<Rightarrow> int option" where
  "dash_atomax_range C r = (case r of
     None \<Rightarrow> None
   | Some (v, e) \<Rightarrow> if e \<and> \<not> c_atomax_clamps C then None else Some v)"

definition dash_arith_var :: "('f, 'e) mconf \<Rightarrow> string \<Rightarrow> int option" where
  "dash_arith_var C raw =
     (let t = trim raw
      in case t of
           [] \<Rightarrow> Some 0
         | c # cs \<Rightarrow>
             let neg = (c = CHR ''-'');
                 body = (if c = CHR ''-'' \<or> c = CHR ''+'' then cs else t);
                 (radix, digits) =
                   (case strip_prefix ''0x'' body of
                      Some h \<Rightarrow> (16, h)
                    | None \<Rightarrow> (case strip_prefix ''0X'' body of
                        Some h \<Rightarrow> (16, h)
                      | None \<Rightarrow> if 1 < length body \<and> take 1 body = ''0'' then (8, drop 1 body)
                                else (10, body)))
             in dash_atomax_range C (strtoimax_digits neg digits radix))"

text \<open>\<open>raw.trim_start().trim_start_matches(['+', '-'])\<close> has a leading zero and more.\<close>

definition octal_lead :: "('f, 'e) mstate \<Rightarrow> string \<Rightarrow> bool" where
  "octal_lead st raw \<longleftrightarrow> m_octal_zeroes st \<and>
     (let t = dropWhile (\<lambda>c. c = CHR ''+'' \<or> c = CHR ''-'') (trim_start raw)
      in 1 < length t \<and> take 1 t = ''0'')"

text \<open>The re-evaluation of a parameter's text, under the caller's cache and precedences
  and without \<open>base\<close> among the string variables.\<close>

definition eval_text ::
  "('f, 'e) mconf \<Rightarrow> ('f, 'e) evalf \<Rightarrow> string \<Rightarrow> string \<Rightarrow> ('f, 'e) mstate
    \<Rightarrow> (string + 'f mnumber) \<times> ('f, 'e) mstate" where
  "eval_text C ev base raw st =
     (let st1 = (new_state C raw st)\<lparr>
                  m_variables := m_variables st,
                  m_string_variables := (m_string_variables st)(base := None),
                  m_prec := m_prec st, m_c_precedences := m_c_precedences st\<rparr>;
          (r, st2) = ev MPREC_TOP st1
      in (r, restore_state st st2))"

text \<open>The string path of \<open>getmathparam\<close>; \<open>None\<close> is the fall through to what follows.\<close>

definition getmathparam_string ::
  "('f, 'e) mconf \<Rightarrow> ('f, 'e) evalf \<Rightarrow> string \<Rightarrow> string \<Rightarrow> ('f, 'e) mstate
    \<Rightarrow> 'f mnumber option \<times> ('f, 'e) mstate" where
  "getmathparam_string C ev base raw st =
     (if dash_faithful C then
        (case dash_arith_var C raw of
           Some n \<Rightarrow> (Some (int_num C (word_of_int n)), st)
         | None \<Rightarrow> (Some (int_num C 0), m_error_set (''Illegal number: '' @ raw) st))
      else
        let integer_only = bash_mode C \<or> sh_mode C \<or> pdksh_family C;
            lead = octal_lead st raw
        in if \<not> lead \<and> parse_i64 raw \<noteq> None then (Some (int_num C (the (parse_i64 raw))), st)
           else if \<not> lead \<and> \<not> integer_only \<and> f_parse (c_float C) raw \<noteq> None then
             (Some (float_num C (the (f_parse (c_float C) raw))), st)
           else
             let (r, st1) = eval_text C ev base raw st
             in case r of
                  Inr n \<Rightarrow> (Some n, st1)
                | Inl msg \<Rightarrow> (None, m_error_set msg st1))"

text \<open>What \<open>getsparam\<close> or, under \<open>KSHARRAYS\<close>, element 0 of an array gives.\<close>

definition param_text ::
  "('f, 'e) mconf \<Rightarrow> string \<Rightarrow> string \<Rightarrow> 'e \<Rightarrow> string option \<times> 'e" where
  "param_text C name base env =
     (case (if name = base \<and> o_ksharrays C then p_array0 (c_param C) base env else None) of
        Some raw \<Rightarrow> (Some raw, env)
      | None \<Rightarrow> p_getsparam (c_param C) base env)"

definition getmathparam_unset ::
  "('f, 'e) mconf \<Rightarrow> string \<Rightarrow> ('f, 'e) mstate \<Rightarrow> 'f mnumber \<times> ('f, 'e) mstate" where
  "getmathparam_unset C name st =
     (int_num C 0,
      if \<not> o_unset C \<and> math_unset_is_error C then zerr (name @ '': parameter not set'') st else st)"

definition getmathparam_text ::
  "('f, 'e) mconf \<Rightarrow> ('f, 'e) evalf \<Rightarrow> string \<Rightarrow> ('f, 'e) mstate \<Rightarrow> 'f mnumber \<times> ('f, 'e) mstate" where
  "getmathparam_text C ev name st =
     (let base = base_name name;
          (raw, env1) = param_text C name base (m_env st);
          st1 = st\<lparr>m_env := env1\<rparr>;
          (v, st2) = (case raw of None \<Rightarrow> (None, st1) | Some t \<Rightarrow> getmathparam_string C ev base t st1)
      in case v of
           Some n \<Rightarrow> (n, st2)
         | None \<Rightarrow>
             (case m_string_variables st2 base of
                None \<Rightarrow> getmathparam_unset C name st2
              | Some t \<Rightarrow>
                  (case eval_text C ev base t st2 of
                     (Inr n, st3) \<Rightarrow> (n, st3)
                   | (Inl _, st3) \<Rightarrow> getmathparam_unset C name st3)))"

text \<open>A subscripted name: the element read of the parameter code between
  \<open>save_state\<close> and \<open>restore_state\<close>, an error of the inner evaluation kept.\<close>

definition getmathparam_element ::
  "('f, 'e) mconf \<Rightarrow> ('f, 'e) evalf \<Rightarrow> string \<Rightarrow> ('f, 'e) mstate \<Rightarrow> 'f mnumber \<times> ('f, 'e) mstate" where
  "getmathparam_element C ev name st =
     (let (n, st1) = p_element (c_param C) (matheval_nested C ev) name st;
          st2 = restore_state st st1
      in (n, case m_error st1 of Some e \<Rightarrow> m_error_set e st2 | None \<Rightarrow> st2))"

definition getmathparam_raw ::
  "('f, 'e) mconf \<Rightarrow> ('f, 'e) evalf \<Rightarrow> string \<Rightarrow> ('f, 'e) mstate \<Rightarrow> 'f mnumber \<times> ('f, 'e) mstate" where
  "getmathparam_raw C ev name st =
     (case m_variables st (base_name name) of
        Some v \<Rightarrow> (v, st)
      | None \<Rightarrow>
          if has_subscript name then getmathparam_element C ev name st
          else case typed_read C (base_name name) (m_env st) of
                 Some n \<Rightarrow> (n, st)
               | None \<Rightarrow> getmathparam_text C ev name st)"

definition getmathparam ::
  "('f, 'e) mconf \<Rightarrow> ('f, 'e) evalf \<Rightarrow> string \<Rightarrow> ('f, 'e) mstate \<Rightarrow> 'f mnumber \<times> ('f, 'e) mstate" where
  "getmathparam C ev name st =
     (let (raw, st1) = getmathparam_raw C ev name st
      in if m_force_float st1 \<and> mn_type raw = MN_INTEGER
         then (float_num C (f_of_int (c_float C) (mn_l raw)), st1) else (raw, st1))"

text \<open>The deferred read of a stack entry.\<close>

definition get_value ::
  "('f, 'e) mconf \<Rightarrow> ('f, 'e) evalf \<Rightarrow> 'f mathvalue \<Rightarrow> ('f, 'e) mstate \<Rightarrow> 'f mnumber \<times> ('f, 'e) mstate" where
  "get_value C ev mv st =
     (if mn_type (mv_val mv) = MN_UNSET then
        (case mv_lval mv of Some name \<Rightarrow> getmathparam C ev name st | None \<Rightarrow> (mv_val mv, st))
      else (mv_val mv, st))"

definition pop ::
  "('f, 'e) mconf \<Rightarrow> ('f, 'e) evalf \<Rightarrow> ('f, 'e) mstate \<Rightarrow> 'f mnumber \<times> ('f, 'e) mstate" where
  "pop C ev st = (case m_stack st of
     [] \<Rightarrow> (int_num C 0, m_error_set ''stack underflow'' st)
   | mv # rest \<Rightarrow> get_value C ev mv (st\<lparr>m_stack := rest\<rparr>))"

text \<open>The read \<open>op\<close> and \<open>bop\<close> use: an unresolved entry without a name is 0.\<close>

definition read_operand ::
  "('f, 'e) mconf \<Rightarrow> ('f, 'e) evalf \<Rightarrow> 'f mathvalue \<Rightarrow> ('f, 'e) mstate \<Rightarrow> 'f mnumber \<times> ('f, 'e) mstate" where
  "read_operand C ev mv st =
     (if mn_type (mv_val mv) = MN_UNSET then
        (case mv_lval mv of Some name \<Rightarrow> getmathparam C ev name st | None \<Rightarrow> (int_num C 0, st))
      else (mv_val mv, st))"

section \<open>Writing a parameter\<close>

definition is_hashed :: "('f, 'e) mconf \<Rightarrow> string \<Rightarrow> 'e \<Rightarrow> bool" where
  "is_hashed C base env = (case p_get (c_param C) base env of
     Some pm \<Rightarrow> PM_TYPE (pm_flags pm) = PM_HASHED | None \<Rightarrow> False)"

definition param_is_set :: "('f, 'e) mconf \<Rightarrow> string \<Rightarrow> 'e \<Rightarrow> bool" where
  "param_is_set C name env = (case p_get (c_param C) name env of
     Some pm \<Rightarrow> \<not> pm_test (pm_flags pm) PM_UNSET | None \<Rightarrow> False)"

definition starts_with :: "string \<Rightarrow> string \<Rightarrow> bool" where
  "starts_with p s \<longleftrightarrow> take (length p) s = p"

text \<open>\<open>resolve_lval\<close>: an lvalue with its arithmetic subscript evaluated once,
  \<open>array[++x]\<close> to \<open>array[1]\<close>.\<close>

definition resolve_lval ::
  "('f, 'e) mconf \<Rightarrow> ('f, 'e) evalf \<Rightarrow> string option \<Rightarrow> ('f, 'e) mstate
    \<Rightarrow> string option \<times> ('f, 'e) mstate" where
  "resolve_lval C ev lv st = (case lv of
     None \<Rightarrow> (None, st)
   | Some name \<Rightarrow>
       if \<not> has_subscript name \<or> starts_with ''('' (subscript_body name)
          \<or> is_hashed C (base_name name) (m_env st) then (Some name, st)
       else (case matheval_saved C ev (subscript_body name) st of
               (Inr n, st1) \<Rightarrow> (Some (base_name name @ ''['' @ show_int (sint (as_int C n)) @ '']''), st1)
             | (Inl _, st1) \<Rightarrow> (Some name, st1)))"

definition show_num :: "('f, 'e) mconf \<Rightarrow> 'f mnumber \<Rightarrow> string" where
  "show_num C n = (if mn_type n = MN_FLOAT then f_show (c_float C) (mn_d n) else show_int (sint (mn_l n)))"

text \<open>The subscripted store.\<close>

definition setmathvar_element ::
  "('f, 'e) mconf \<Rightarrow> ('f, 'e) evalf \<Rightarrow> string \<Rightarrow> 'f mnumber \<Rightarrow> ('f, 'e) mstate
    \<Rightarrow> 'f mnumber \<times> ('f, 'e) mstate" where
  "setmathvar_element C ev name v st =
     (let body = subscript_body name;
          is_search = starts_with ''('' body \<or> starts_with Inpar body;
          (canonical, st1) =
            (if is_hashed C (base_name name) (m_env st) \<or> is_search then (name, st)
             else case matheval_saved C ev body st of
                    (r, st1) \<Rightarrow>
                      (base_name name @ ''['' @
                        show_int (case r of Inr n \<Rightarrow> sint (as_int C n) | Inl _ \<Rightarrow> 0) @ '']'', st1));
          st2 = st1\<lparr>m_env := p_assignsparam (c_param C) (m_lastbase st1) canonical (show_num C v) (m_env st1)\<rparr>
      in (v, m_variables_insert canonical v st2))"

text \<open>The value of an assignment takes the type of the parameter it was stored in.\<close>

definition retype :: "('f, 'e) mconf \<Rightarrow> 32 word option \<Rightarrow> 'f mnumber \<Rightarrow> 'f mnumber" where
  "retype C fl v = (case fl of
     None \<Rightarrow> v
   | Some fl \<Rightarrow>
       if pm_test fl PM_INTEGER then int_num C (as_int C v)
       else if pm_test fl (PM_EFLOAT + PM_FFLOAT) then
         float_num C (if mn_type v = MN_INTEGER then f_of_int (c_float C) (mn_l v) else mn_d v)
       else v)"

definition setmathvar ::
  "('f, 'e) mconf \<Rightarrow> ('f, 'e) evalf \<Rightarrow> string \<Rightarrow> 'f mnumber \<Rightarrow> bool \<Rightarrow> ('f, 'e) mstate
    \<Rightarrow> 'f mnumber \<times> ('f, 'e) mstate" where
  "setmathvar C ev name v pval st =
     (if name = [] then (int_num C 0, zerr ''bad math expression: lvalue required'' st)
      else if m_noeval st \<noteq> 0 then (v, st)
      else if pval \<and> \<not> has_subscript name \<and> param_is_set C name (m_env st) then
        (v, (m_variables_insert name v st)\<lparr>m_env := p_assignnparam (c_param C) (m_lastbase st) name v (m_env st)\<rparr>)
      else if has_subscript name then setmathvar_element C ev name v st
      else
        let (env1, fl) = p_setnparam (c_param C) (m_lastbase st) name v (m_env st)
        in (retype C fl v, (m_variables_insert name v st)\<lparr>m_env := env1\<rparr>))"

section \<open>Character values\<close>

definition getcvar ::
  "('f, 'e) mconf \<Rightarrow> string \<Rightarrow> ('f, 'e) mstate \<Rightarrow> 'f mnumber \<times> ('f, 'e) mstate" where
  "getcvar C name st = (case m_string_variables st name of
     Some raw \<Rightarrow> (int_num C (p_first_code (c_param C) raw), st)
   | None \<Rightarrow>
       (case p_getsparam (c_param C) name (m_env st) of
          (Some raw, env1) \<Rightarrow> (int_num C (p_first_code (c_param C) raw), st\<lparr>m_env := env1\<rparr>)
        | (None, env1) \<Rightarrow>
            (case m_variables st name of
               Some v \<Rightarrow>
                 let s = (if mn_type v = MN_INTEGER then show_int (sint (mn_l v))
                          else if mn_type v = MN_FLOAT then f_display (c_float C) (mn_d v) else ''0'')
                 in (int_num C (word_of_int (case chars s of [] \<Rightarrow> 0 | c # _ \<Rightarrow> code_point c)),
                     st\<lparr>m_env := env1\<rparr>)
             | None \<Rightarrow> (int_num C 0, st\<lparr>m_env := env1\<rparr>))))"

section \<open>Binary operators\<close>

text \<open>Both operands to integers, both to floats, or as they are.\<close>

definition coerce_operands ::
  "('f, 'e) mconf \<Rightarrow> token \<Rightarrow> 'f mnumber \<Rightarrow> 'f mnumber \<Rightarrow> 'f mnumber \<times> 'f mnumber" where
  "coerce_operands C what a b =
     (if has_flag (op_type what) OP_A2IO \<or> has_flag (op_type what) OP_E2IO then
        (int_num C (as_int C a), int_num C (as_int C b))
      else if (mn_type a = MN_FLOAT) \<noteq> (mn_type b = MN_FLOAT) \<and> what \<noteq> COMMA
              \<and> (mn_type a \<noteq> MN_UNSET \<or> what \<noteq> EQ) then
        (float_num C (as_float C a), float_num C (as_float C b))
      else (a, b))"

definition op_bits :: "('f, 'e) mconf \<Rightarrow> token \<Rightarrow> 'f mnumber \<Rightarrow> 'f mnumber \<Rightarrow> string + 'f mnumber" where
  "op_bits C what a b = Inr (int_num C
     (if what = AND \<or> what = ANDEQ then i64_and (as_int C a) (as_int C b)
      else if what = XOR \<or> what = XOREQ then i64_xor (as_int C a) (as_int C b)
      else i64_or (as_int C a) (as_int C b)))"

definition op_mul :: "('f, 'e) mconf \<Rightarrow> 'f mnumber \<Rightarrow> 'f mnumber \<Rightarrow> string + 'f mnumber" where
  "op_mul C a b = Inr (if mn_type a = MN_FLOAT
     then float_num C (f_mul (c_float C) (as_float C a) (as_float C b))
     else int_num C (as_int C a * as_int C b))"

definition op_div :: "('f, 'e) mconf \<Rightarrow> 'f mnumber \<Rightarrow> 'f mnumber \<Rightarrow> string + 'f mnumber" where
  "op_div C a b =
     (if mn_type a = MN_FLOAT then Inr (float_num C (f_div (c_float C) (as_float C a) (as_float C b)))
      else if \<not> notzero b then Inl ''division by zero''
      else let ai = as_int C a; bi = as_int C b
           in if bi = -1 then Inr (int_num C (- ai)) else Inr (int_num C (i64_div ai bi)))"

definition op_mod :: "('f, 'e) mconf \<Rightarrow> 'f mnumber \<Rightarrow> 'f mnumber \<Rightarrow> string + 'f mnumber" where
  "op_mod C a b =
     (if mn_type a = MN_FLOAT then Inr (float_num C (f_rem (c_float C) (as_float C a) (as_float C b)))
      else if \<not> notzero b then Inl ''division by zero''
      else let ai = as_int C a; bi = as_int C b
           in if bi = -1 then Inr (int_num C 0) else Inr (int_num C (i64_rem ai bi)))"

definition op_plus :: "('f, 'e) mconf \<Rightarrow> 'f mnumber \<Rightarrow> 'f mnumber \<Rightarrow> string + 'f mnumber" where
  "op_plus C a b = Inr (if mn_type a = MN_FLOAT
     then float_num C (f_add (c_float C) (as_float C a) (as_float C b))
     else int_num C (as_int C a + as_int C b))"

definition op_minus :: "('f, 'e) mconf \<Rightarrow> 'f mnumber \<Rightarrow> 'f mnumber \<Rightarrow> string + 'f mnumber" where
  "op_minus C a b = Inr (if mn_type a = MN_FLOAT
     then float_num C (f_sub (c_float C) (as_float C a) (as_float C b))
     else int_num C (as_int C a - as_int C b))"

definition shift_count :: "('f, 'e) mconf \<Rightarrow> i64 \<Rightarrow> nat" where
  "shift_count C b = unat (ucast b :: i32) mod (if pdksh_family C then 32 else 64)"

definition op_shift :: "('f, 'e) mconf \<Rightarrow> token \<Rightarrow> 'f mnumber \<Rightarrow> 'f mnumber \<Rightarrow> string + 'f mnumber" where
  "op_shift C what a b = Inr (int_num C
     (if what = SHLEFT \<or> what = SHLEFTEQ then i64_shl (as_int C a) (shift_count C (as_int C b))
      else i64_shr (as_int C a) (shift_count C (as_int C b))))"

definition op_compare :: "('f, 'e) mconf \<Rightarrow> token \<Rightarrow> 'f mnumber \<Rightarrow> 'f mnumber \<Rightarrow> string + 'f mnumber" where
  "op_compare C what a b =
     (let F = c_float C; fa = as_float C a; fb = as_float C b; ia = as_int C a; ib = as_int C b;
          fl = (mn_type a = MN_FLOAT)
      in Inr (int_num C (bool_i64
        (case what of
           LES \<Rightarrow> if fl then f_lt F fa fb else i64_lt ia ib
         | LEQ \<Rightarrow> if fl then f_le F fa fb else i64_le ia ib
         | GRE \<Rightarrow> if fl then f_lt F fb fa else i64_lt ib ia
         | GEQ \<Rightarrow> if fl then f_le F fb fa else i64_le ib ia
         | DEQ \<Rightarrow> if fl then f_eq F fa fb else ia = ib
         | _ \<Rightarrow> if fl then \<not> f_eq F fa fb else ia \<noteq> ib))))"

definition op_logic :: "('f, 'e) mconf \<Rightarrow> token \<Rightarrow> 'f mnumber \<Rightarrow> 'f mnumber \<Rightarrow> string + 'f mnumber" where
  "op_logic C what a b =
     (let x = (as_int C a \<noteq> 0); y = (as_int C b \<noteq> 0)
      in Inr (int_num C (bool_i64
        (if what = DAND \<or> what = DANDEQ then x \<and> y
         else if what = DOR \<or> what = DOREQ then x \<or> y
         else x \<noteq> y))))"

text \<open>The squaring loop: \<open>e\<close> the remaining exponent, \<open>acc\<close> the current square.\<close>

function power_loop :: "nat \<Rightarrow> i64 \<Rightarrow> i64 \<Rightarrow> i64" where
  "power_loop e acc result =
     (if e = 0 then result
      else let result' = (if odd e then result * acc else result);
               e' = e div 2
           in power_loop e' (if 0 < e' then acc * acc else acc) result')"
  by pat_completeness auto
termination
  by (relation "measure (\<lambda>(e, _, _). e)") auto

declare power_loop.simps [simp del]

definition op_power :: "('f, 'e) mconf \<Rightarrow> 'f mnumber \<Rightarrow> 'f mnumber \<Rightarrow> string + 'f mnumber" where
  "op_power C a b =
     (let F = c_float C; fl = (mn_type a = MN_FLOAT); neg = (\<not> fl \<and> i64_lt (mn_l b) 0)
      in if neg \<and> (bash_mode C \<or> sh_mode C) then Inl ''exponent less than 0''
         else
           let a' = (if neg then float_num C (f_of_int F (mn_l a)) else a);
               b' = (if neg then float_num C (f_of_int F (mn_l b)) else b);
               cf = (fl \<or> neg)
           in if \<not> cf then Inr (int_num C (power_loop (unat (mn_l b)) (mn_l a) 1))
              else
                let af = as_float C a'; bf = as_float C b'
                in if f_le F bf (f_zero F) \<and> \<not> notzero a' then Inl ''division by zero''
                   else if f_lt F af (f_zero F) \<and> \<not> f_eq F bf (f_trunc F bf)
                   then Inl ''bad math expression: imaginary power''
                   else Inr (float_num C (f_pow F af bf)))"

definition binary_result ::
  "('f, 'e) mconf \<Rightarrow> token \<Rightarrow> 'f mnumber \<Rightarrow> 'f mnumber \<Rightarrow> string + 'f mnumber" where
  "binary_result C what a b = (case what of
     AND \<Rightarrow> op_bits C what a b | ANDEQ \<Rightarrow> op_bits C what a b
   | XOR \<Rightarrow> op_bits C what a b | XOREQ \<Rightarrow> op_bits C what a b
   | OR \<Rightarrow> op_bits C what a b | OREQ \<Rightarrow> op_bits C what a b
   | MUL \<Rightarrow> op_mul C a b | MULEQ \<Rightarrow> op_mul C a b
   | DIV \<Rightarrow> op_div C a b | DIVEQ \<Rightarrow> op_div C a b
   | MOD \<Rightarrow> op_mod C a b | MODEQ \<Rightarrow> op_mod C a b
   | PLUS \<Rightarrow> op_plus C a b | PLUSEQ \<Rightarrow> op_plus C a b
   | MINUS \<Rightarrow> op_minus C a b | MINUSEQ \<Rightarrow> op_minus C a b
   | SHLEFT \<Rightarrow> op_shift C what a b | SHLEFTEQ \<Rightarrow> op_shift C what a b
   | SHRIGHT \<Rightarrow> op_shift C what a b | SHRIGHTEQ \<Rightarrow> op_shift C what a b
   | LES \<Rightarrow> op_compare C what a b | LEQ \<Rightarrow> op_compare C what a b
   | GRE \<Rightarrow> op_compare C what a b | GEQ \<Rightarrow> op_compare C what a b
   | DEQ \<Rightarrow> op_compare C what a b | NEQ \<Rightarrow> op_compare C what a b
   | DAND \<Rightarrow> op_logic C what a b | DANDEQ \<Rightarrow> op_logic C what a b
   | DOR \<Rightarrow> op_logic C what a b | DOREQ \<Rightarrow> op_logic C what a b
   | DXOR \<Rightarrow> op_logic C what a b | DXOREQ \<Rightarrow> op_logic C what a b
   | POWER \<Rightarrow> op_power C a b | POWEREQ \<Rightarrow> op_power C a b
   | COMMA \<Rightarrow> Inr b | EQ \<Rightarrow> Inr b
   | _ \<Rightarrow> Inr (int_num C 0))"

text \<open>mksh's 32 bit results.\<close>

definition wrap_result :: "('f, 'e) mconf \<Rightarrow> 'f mnumber \<Rightarrow> 'f mnumber" where
  "wrap_result C r =
     (if pdksh_family C \<and> mn_type r = MN_INTEGER then r\<lparr>mn_l := wrap_i32 (mn_l r)\<rparr> else r)"

definition is_assign :: "token \<Rightarrow> bool" where
  "is_assign what \<longleftrightarrow> has_flag (op_type what) OP_E2 \<or> has_flag (op_type what) OP_E2IO"

definition is_binary :: "token \<Rightarrow> bool" where
  "is_binary what \<longleftrightarrow> has_flag (op_type what) OP_A2 \<or> has_flag (op_type what) OP_A2IR
     \<or> has_flag (op_type what) OP_A2IO \<or> is_assign what"

text \<open>The write-back and the push of the result.\<close>

definition finish_binary ::
  "('f, 'e) mconf \<Rightarrow> ('f, 'e) evalf \<Rightarrow> token \<Rightarrow> string option \<Rightarrow> 'f mnumber \<Rightarrow> ('f, 'e) mstate
    \<Rightarrow> ('f, 'e) mstate" where
  "finish_binary C ev what lval r st =
     (if is_assign what then
        (case lval of
           Some name \<Rightarrow> let (v, st1) = setmathvar C ev name r (what \<noteq> EQ) st in push v (Some name) st1
         | None \<Rightarrow> push (int_num C 0) None (m_error_set ''bad math expression: lvalue required'' st))
      else push r None st)"

definition op_binary ::
  "('f, 'e) mconf \<Rightarrow> ('f, 'e) evalf \<Rightarrow> token \<Rightarrow> ('f, 'e) mstate \<Rightarrow> ('f, 'e) mstate" where
  "op_binary C ev what st =
     (if length (m_stack st) < 2 then
        m_error_set ''bad math expression: operand expected at end of string'' st
      else
        let (b, st1) = pop C ev st;
            (mv0, st2) = pop_with_lval C st1;
            (pval, st3) = (if is_assign what then resolve_lval C ev (mv_lval mv0) st2 else (None, st2));
            mv = (if pval \<noteq> None then mv0\<lparr>mv_lval := pval, mv_pval := pval\<rparr> else mv0);
            (a, st4) = (if what \<noteq> EQ then read_operand C ev mv st3 else (mv_val mv, st3));
            (a', b') = coerce_operands C what a b
        in case (if 0 < m_noeval st4 then Inr (int_num C 0) else binary_result C what a' b') of
             Inl msg \<Rightarrow> m_error_set msg st4
           | Inr r \<Rightarrow> finish_binary C ev what (mv_lval mv) (wrap_result C r) st4)"

section \<open>Unary operators\<close>

definition op_uminus :: "('f, 'e) mconf \<Rightarrow> 'f mnumber \<Rightarrow> 'f mnumber" where
  "op_uminus C v =
     (if mn_type v = MN_FLOAT then float_num C (f_neg (c_float C) (mn_d v))
      else int_num C (if pdksh_family C then wrap_i32 (- wrap_i32 (mn_l v)) else - mn_l v))"

text \<open>The new value of \<open>++\<close> and \<open>--\<close>.\<close>

definition step_value :: "('f, 'e) mconf \<Rightarrow> bool \<Rightarrow> 'f mnumber \<Rightarrow> 'f mnumber" where
  "step_value C up v =
     (let F = c_float C
      in if mn_type v = MN_FLOAT then
           float_num C (if up then f_add F (mn_d v) (f_one F) else f_sub F (mn_d v) (f_one F))
         else
           let n = (if up then mn_l v + 1 else mn_l v - 1)
           in int_num C (if pdksh_family C then wrap_i32 n else n))"

definition op_postfix ::
  "('f, 'e) mconf \<Rightarrow> ('f, 'e) evalf \<Rightarrow> bool \<Rightarrow> string option \<Rightarrow> 'f mnumber \<Rightarrow> ('f, 'e) mstate
    \<Rightarrow> ('f, 'e) mstate" where
  "op_postfix C ev up lval v st = (case lval of
     None \<Rightarrow> m_error_set ''bad math expression: lvalue required'' st
   | Some name \<Rightarrow> push v None (snd (setmathvar C ev name (step_value C up v) True st)))"

definition op_prefix ::
  "('f, 'e) mconf \<Rightarrow> ('f, 'e) evalf \<Rightarrow> bool \<Rightarrow> string option \<Rightarrow> 'f mnumber \<Rightarrow> ('f, 'e) mstate
    \<Rightarrow> ('f, 'e) mstate" where
  "op_prefix C ev up lval v st = (case lval of
     None \<Rightarrow>
       if bash_mode C \<or> sh_mode C \<or> dash_faithful C then push v None st
       else m_error_set ''bad math expression: lvalue required'' st
   | Some name \<Rightarrow>
       push (step_value C up v) lval (snd (setmathvar C ev name (step_value C up v) True st)))"

text \<open>\<open>?:\<close> on the three operands above it, the last one popped already.\<close>

definition op_quest ::
  "('f, 'e) mconf \<Rightarrow> ('f, 'e) evalf \<Rightarrow> 'f mnumber \<Rightarrow> ('f, 'e) mstate \<Rightarrow> ('f, 'e) mstate" where
  "op_quest C ev false_val st =
     (if length (m_stack st) < 2 then m_error_set ''?: needs 3 operands'' st
      else let (true_val, st1) = pop C ev st;
               (cond, st2) = pop C ev st1
           in push (if \<not> is_false C cond then true_val else false_val) None st2)"

definition is_step :: "token \<Rightarrow> bool" where
  "is_step what \<longleftrightarrow> what \<in> {POSTPLUS, POSTMINUS, PREPLUS, PREMINUS}"

definition colon_message :: string where
  "colon_message = ''bad math expression: '' @ [CHR 0x27] @ '':'' @ [CHR 0x27] @ '' without '' @
     [CHR 0x27] @ ''?'' @ [CHR 0x27]"

definition op_unary ::
  "('f, 'e) mconf \<Rightarrow> ('f, 'e) evalf \<Rightarrow> token \<Rightarrow> ('f, 'e) mstate \<Rightarrow> ('f, 'e) mstate" where
  "op_unary C ev what st =
     (if m_stack st = [] then
        m_error_set ''bad math expression: operand expected at end of string'' st
      else
        let (mv0, st1) = pop_with_lval C st;
            (pval, st2) = (if is_step what then resolve_lval C ev (mv_lval mv0) st1 else (None, st1));
            mv = (if pval \<noteq> None then mv0\<lparr>mv_lval := pval, mv_pval := pval\<rparr> else mv0);
            (v, st3) = read_operand C ev mv st2
        in case what of
             NOT \<Rightarrow> push (int_num C (if is_false C v then 1 else 0)) None st3
           | M_COMP \<Rightarrow> push (int_num C (i64_not (as_int C v))) None st3
           | UPLUS \<Rightarrow> push v None st3
           | UMINUS \<Rightarrow> push (op_uminus C v) None st3
           | POSTPLUS \<Rightarrow> op_postfix C ev True (mv_lval mv) v st3
           | POSTMINUS \<Rightarrow> op_postfix C ev False (mv_lval mv) v st3
           | PREPLUS \<Rightarrow> op_prefix C ev True (mv_lval mv) v st3
           | PREMINUS \<Rightarrow> op_prefix C ev False (mv_lval mv) v st3
           | QUEST \<Rightarrow> op_quest C ev v st3
           | COLON \<Rightarrow> m_error_set colon_message st3
           | _ \<Rightarrow> m_error_set ''unknown operator'' st3)"

definition op ::
  "('f, 'e) mconf \<Rightarrow> ('f, 'e) evalf \<Rightarrow> token \<Rightarrow> ('f, 'e) mstate \<Rightarrow> ('f, 'e) mstate" where
  "op C ev what st =
     (if m_error_some st then st
      else if is_binary what then op_binary C ev what st
      else op_unary C ev what st)"

text \<open>The prologue of \<open>&&\<close>, \<open>||\<close> and their assignment forms: it looks at the left
  operand without popping it and turns evaluation off for the right one.\<close>

definition bop ::
  "('f, 'e) mconf \<Rightarrow> ('f, 'e) evalf \<Rightarrow> token \<Rightarrow> ('f, 'e) mstate \<Rightarrow> ('f, 'e) mstate" where
  "bop C ev tk st = (case m_stack st of
     [] \<Rightarrow> st
   | mv # _ \<Rightarrow>
       let (v, st1) = read_operand C ev mv st;
           tst = (if semiring_bit_operations_class.and (mn_type v) MN_FLOAT \<noteq> 0
                  then f_to_int (c_float C) (mn_d v) \<noteq> 0 else mn_l v \<noteq> 0)
       in if (tk = DAND \<or> tk = DANDEQ) \<and> \<not> tst \<or> (tk = DOR \<or> tk = DOREQ) \<and> tst
          then st1\<lparr>m_noeval := m_noeval st1 + 1\<rparr> else st1)"

section \<open>Math functions\<close>

text \<open>\<open>eval_math_args\<close>: one \<open>mathevall\<close> per argument at argument precedence, until the
  token that stopped it is not a comma; \<open>None\<close> means an error was reported.  Each
  argument but an empty rest consumes text, so the length of the text bounds the loop.\<close>

fun math_args_loop ::
  "('f, 'e) mconf \<Rightarrow> ('f, 'e) evalf \<Rightarrow> nat \<Rightarrow> string \<Rightarrow> 'f mnumber list \<Rightarrow> ('f, 'e) mstate
    \<Rightarrow> 'f mnumber list option \<times> ('f, 'e) mstate" where
  "math_args_loop C ev 0 rest out st = (None, st)"
| "math_args_loop C ev (Suc n) rest out st =
     (if rest = [] then (Some out, st)
      else
        let (r, st1) = ev MPREC_ARG ((new_state C rest st)\<lparr>m_variables := m_variables st\<rparr>);
            st2 = restore_state st st1;
            rest' = drop (min (m_pos st1) (length rest)) rest
        in case r of
             Inl msg \<Rightarrow> (None, zerr msg st2)
           | Inr v \<Rightarrow>
               if m_mtok st1 = COMMA then math_args_loop C ev n rest' (out @ [v]) st2
               else (case chars rest' of
                  [] \<Rightarrow> (Some (out @ [v]), st2)
                | c # _ \<Rightarrow>
                    (None, zerr (''bad math expression: '' @
                       (if c_emulating_592 C then ''illegal'' else ''invalid'') @ '' character: '' @ c) st2)))"

definition eval_math_args ::
  "('f, 'e) mconf \<Rightarrow> ('f, 'e) evalf \<Rightarrow> string \<Rightarrow> ('f, 'e) mstate
    \<Rightarrow> 'f mnumber list option \<times> ('f, 'e) mstate" where
  "eval_math_args C ev a st =
     (let rest = dropWhile (\<lambda>c. c = CHR '' '' \<or> c = CHR 0x09) a
      in math_args_loop C ev (length rest + 1) rest [] st)"

definition wrong_args :: "mathfunc \<Rightarrow> nat \<Rightarrow> bool" where
  "wrong_args f argc \<longleftrightarrow> int argc < mf_minargs f \<or> (0 \<le> mf_maxargs f \<and> mf_maxargs f < int argc)"

definition mf_test :: "mathfunc \<Rightarrow> 32 word \<Rightarrow> bool" where
  "mf_test f m \<longleftrightarrow> semiring_bit_operations_class.and (mf_flags f) m \<noteq> 0"

text \<open>A function defined by \<open>functions -M\<close>: the value is \<open>lastmathval\<close> after the body.\<close>

definition call_userfunc ::
  "('f, 'e) mconf \<Rightarrow> ('f, 'e) evalf \<Rightarrow> mathfunc \<Rightarrow> string \<Rightarrow> string \<Rightarrow> string \<Rightarrow> ('f, 'e) mstate
    \<Rightarrow> 'f mnumber \<times> ('f, 'e) mstate" where
  "call_userfunc C ev f call name argtext st =
     (let impl = (case mf_module f of Some m \<Rightarrow> m | None \<Rightarrow> mf_name f)
      in if \<not> p_getshfunc (c_param C) impl (m_env st) then
           (int_num C 0, zerr (''no such function: '' @ impl) st)
         else
           let a1 = (case strip_prefix ''('' argtext of Some r \<Rightarrow> r | None \<Rightarrow> argtext);
               a = (case strip_suffix '')'' a1 of Some r \<Rightarrow> r | None \<Rightarrow> a1);
               (argv, st1) =
                 (if mf_test f MFF_STR then (Some [a], st)
                  else case eval_math_args C ev a st of
                         (None, st1) \<Rightarrow> (None, st1)
                       | (Some nums, st1) \<Rightarrow> (Some (map (show_num C) nums), st1))
           in case argv of
                None \<Rightarrow> (int_num C 0, st1)
              | Some args \<Rightarrow>
                  if wrong_args f (length args) then
                    (int_num C 0, zerr (''wrong number of arguments: '' @ call) st1)
                  else
                    let st2 = p_doshfunc (c_param C) (matheval_nested C ev) impl (name # args) st1;
                        st3 = restore_state st1 st2
                    in (m_lastmathval st3, st3))"

text \<open>A module's function: string functions take the raw text, numeric ones the list.\<close>

definition call_modfunc ::
  "('f, 'e) mconf \<Rightarrow> ('f, 'e) evalf \<Rightarrow> mathfunc \<Rightarrow> string \<Rightarrow> string \<Rightarrow> string \<Rightarrow> ('f, 'e) mstate
    \<Rightarrow> 'f mnumber \<times> ('f, 'e) mstate" where
  "call_modfunc C ev f call name args st =
     (if mf_test f MFF_STR \<and> \<not> mf_test f MFF_USERFUNC then
        let (v, env1) = p_sfunc (c_param C) name args (m_env st) in (v, st\<lparr>m_env := env1\<rparr>)
      else case eval_math_args C ev args st of
             (None, st1) \<Rightarrow> (int_num C 0, st1)
           | (Some nums, st1) \<Rightarrow>
               if wrong_args f (length nums) then
                 (int_num C 0, zerr (''wrong number of arguments: '' @ call) st1)
               else let (v, env1) = p_nfunc (c_param C) name nums (m_env st1)
                    in (v, st1\<lparr>m_env := env1\<rparr>))"

definition callmathfunc ::
  "('f, 'e) mconf \<Rightarrow> ('f, 'e) evalf \<Rightarrow> string \<Rightarrow> ('f, 'e) mstate \<Rightarrow> 'f mnumber \<times> ('f, 'e) mstate" where
  "callmathfunc C ev call st =
     (let paren = (case find_char (CHR ''('') call of Some i \<Rightarrow> i | None \<Rightarrow> length call);
          name = take paren call;
          registered = (\<lambda>f. mf_name f = name \<and> mf_module f = None)
      in case find (\<lambda>f. mf_name f = name \<and> mf_test f MFF_USERFUNC) (p_mathfuncs (c_param C) (m_env st)) of
           Some f \<Rightarrow> call_userfunc C ev f call name (drop paren call) st
         | None \<Rightarrow>
             let (found, env1) =
                   (if find registered (p_mathfuncs (c_param C) (m_env st)) \<noteq> None then (True, m_env st)
                    else p_autoload (c_param C) name (m_env st));
                 st1 = st\<lparr>m_env := env1\<rparr>
             in if \<not> found then (int_num C 0, zerr (''unknown function: '' @ name) st1)
                else if paren < length call \<and> length call - 1 < paren + 1 then
                  (int_num C 0, st1\<lparr>m_panic := True\<rparr>)
                else
                  let args = (if paren < length call then str_slice call (paren + 1) (length call - 1) else [])
                  in case find registered (p_mathfuncs (c_param C) (m_env st1)) of
                       None \<Rightarrow> (int_num C 0, zerr (''unknown function: '' @ name) st1)
                     | Some f \<Rightarrow> call_modfunc C ev f call name args st1)"

end
