(* ===== verification/Strtol.thy ===== *)
theory Strtol
  imports MathTypes
begin

text \<open>
  \<open>zstrtol_underscore\<close> and \<open>zstrtol\<close> of \<open>src/ported/utils.rs\<close>: the integer scanner behind
  every integer literal of the arithmetic evaluator.  The result is the value, the
  number of bytes consumed and the message given to \<open>zerr\<close> or \<open>zwarn\<close>, if any.  The
  accumulator is a \<open>u64\<close> (a 64 bit word read as unsigned).
\<close>

section \<open>Definitions\<close>

text \<open>The digits of a base: \<open>0\<close> up to the base for bases to ten, all decimal digits and
  letters up to the base above.\<close>

definition zstrtol_digit :: "nat \<Rightarrow> char \<Rightarrow> nat option" where
  "zstrtol_digit base c =
     (let b = byte c
      in if base \<le> 10 then (if 48 \<le> b \<and> b < 48 + base then Some (b - 48) else None)
         else if is_digit c then Some (b - 48)
         else if 97 \<le> b \<and> b < 97 + base - 10 then Some (b mod 32 + 9)
         else if 65 \<le> b \<and> b < 65 + base - 10 then Some (b mod 32 + 9)
         else None)"

text \<open>The accumulation loop.  Once a digit does not fit, \<open>trunc\<close> holds its index and the
  remaining digits are only skipped.\<close>

fun zstrtol_loop ::
  "nat \<Rightarrow> bool \<Rightarrow> string \<Rightarrow> nat \<Rightarrow> 64 word \<Rightarrow> nat option \<Rightarrow> nat \<times> 64 word \<times> nat option" where
  "zstrtol_loop base underscore [] i calc trunc = (i, calc, trunc)"
| "zstrtol_loop base underscore (c # cs) i calc trunc =
     (case zstrtol_digit base c of
        Some d \<Rightarrow>
          (case trunc of
             None \<Rightarrow>
               let newcalc = calc * of_nat base + of_nat d
               in if newcalc < calc then zstrtol_loop base underscore cs (i + 1) calc (Some i)
                  else zstrtol_loop base underscore cs (i + 1) newcalc None
           | Some t \<Rightarrow> zstrtol_loop base underscore cs (i + 1) calc (Some t))
      | None \<Rightarrow>
          if underscore \<and> c = CHR ''_'' then zstrtol_loop base underscore cs (i + 1) calc trunc
          else (i, calc, trunc))"

text \<open>Blanks and the sign.\<close>

definition zstrtol_sign :: "string \<Rightarrow> nat \<times> bool" where
  "zstrtol_sign s =
     (let i = span_len (\<lambda>c. c = CHR '' '' \<or> c = CHR 0x09) s
      in case drop i s of
           [] \<Rightarrow> (i, False)
         | c # _ \<Rightarrow> if c = CHR ''-'' then (i + 1, True)
                    else if c = CHR ''+'' then (i + 1, False) else (i, False))"

text \<open>Base 0: the base from the prefix.\<close>

definition zstrtol_base :: "string \<Rightarrow> nat \<Rightarrow> nat \<Rightarrow> nat \<times> nat" where
  "zstrtol_base s i base =
     (if base \<noteq> 0 then (i, base)
      else if take 1 (drop i s) \<noteq> ''0'' then (i, 10)
      else if take 1 (drop (i + 1) s) = ''x'' \<or> take 1 (drop (i + 1) s) = ''X'' then (i + 2, 16)
      else if take 1 (drop (i + 1) s) = ''b'' \<or> take 1 (drop (i + 1) s) = ''B'' then (i + 2, 2)
      else (i + 1, 8))"

definition invalid_base :: "int \<Rightarrow> string" where
  "invalid_base n = ''invalid base (must be 2 to 36 inclusive): '' @ show_int n"

text \<open>A magnitude with the top bit set that is not \<open>i64::MIN\<close> loses its last digit.\<close>

definition zstrtol_clip :: "nat \<Rightarrow> bool \<Rightarrow> nat \<times> 64 word \<times> nat option \<Rightarrow> nat \<times> 64 word \<times> nat option" where
  "zstrtol_clip base neg r = (case r of (i, calc, trunc) \<Rightarrow>
     if trunc = None \<and> sint calc < 0 \<and> (\<not> neg \<or> take_bit 63 calc \<noteq> 0)
     then (i, calc div of_nat base, Some (i - 1)) else (i, calc, trunc))"

definition zstrtol_underscore ::
  "('f, 'e) mconf \<Rightarrow> string \<Rightarrow> nat \<Rightarrow> bool \<Rightarrow> i64 \<times> nat \<times> string option" where
  "zstrtol_underscore C s base0 underscore =
     (let (i0, neg) = zstrtol_sign s;
          (inp, base) = zstrtol_base s i0 base0
      in if base < 2 \<or> 36 < base then (0, 0, Some (invalid_base (int base)))
         else
           let (i, calc, trunc) =
                 zstrtol_clip base neg (zstrtol_loop base underscore (drop inp s) inp 0 None)
           in if trunc \<noteq> None \<and> dash_faithful C then
                (if neg then - i64_max else i64_max, i, None)
              else
                (if neg then - calc else calc, i,
                 case trunc of
                   None \<Rightarrow> None
                 | Some t \<Rightarrow> Some (''number truncated after '' @ show_nat (t - inp) @ '' digits: '' @ drop inp s)))"

definition zstrtol :: "('f, 'e) mconf \<Rightarrow> string \<Rightarrow> nat \<Rightarrow> i64 \<times> nat \<times> string option" where
  "zstrtol C s base = zstrtol_underscore C s base False"

end
