(* ===== verification/MathLex.thy ===== *)
theory MathLex
  imports MathOps Strtol
begin

text \<open>
  The lexer of the evaluator: the input cursor, \<open>decode_math_keychar\<close>, \<open>lexconstant\<close>
  and \<open>zzlex\<close> of \<open>src/ported/math.rs\<close>, and \<open>itype_end\<close> of \<open>src/ported/utils.rs\<close> at the
  identifier classes.  The input is the UTF-8 text and the position a byte offset that
  stands at the start of a character, as in the code; a character is tested by its lead
  byte, which decides every comparison with an ASCII character.
\<close>

section \<open>The cursor\<close>

definition rest_of :: "('f, 'e) mstate \<Rightarrow> string" where
  "rest_of st = drop (m_pos st) (m_input st)"

definition peek :: "('f, 'e) mstate \<Rightarrow> char option" where
  "peek st = (case rest_of st of [] \<Rightarrow> None | c # _ \<Rightarrow> Some c)"

definition peek_is :: "char \<Rightarrow> ('f, 'e) mstate \<Rightarrow> bool" where
  "peek_is c st \<longleftrightarrow> peek st = Some c"

definition peek_sat :: "(char \<Rightarrow> bool) \<Rightarrow> ('f, 'e) mstate \<Rightarrow> bool" where
  "peek_sat P st \<longleftrightarrow> (case peek st of None \<Rightarrow> False | Some c \<Rightarrow> P c)"

text \<open>The whole character at the cursor.\<close>

definition peek_char :: "('f, 'e) mstate \<Rightarrow> string" where
  "peek_char st = (case rest_of st of [] \<Rightarrow> [] | c # cs \<Rightarrow> c # take (utf8_width c - 1) cs)"

definition move :: "nat \<Rightarrow> ('f, 'e) mstate \<Rightarrow> ('f, 'e) mstate" where
  "move n st = st\<lparr>m_pos := m_pos st + n\<rparr>"

definition advance :: "('f, 'e) mstate \<Rightarrow> ('f, 'e) mstate" where
  "advance st = (case peek st of None \<Rightarrow> st | Some c \<Rightarrow> move (utf8_width c) st)"

text \<open>\<open>while let Some(c) = peek() { if P(c) { advance(); } else { break; } }\<close> for a class of
  ASCII characters.\<close>

definition skip_while :: "(char \<Rightarrow> bool) \<Rightarrow> ('f, 'e) mstate \<Rightarrow> ('f, 'e) mstate" where
  "skip_while P st = move (span_len P (rest_of st)) st"

definition is_ident_start :: "char \<Rightarrow> bool" where
  "is_ident_start c \<longleftrightarrow> is_alpha c \<or> c = CHR ''_''"

definition is_ident :: "char \<Rightarrow> bool" where
  "is_ident c \<longleftrightarrow> is_alnum c \<or> c = CHR ''_''"

definition set_yyval :: "'f mnumber \<Rightarrow> ('f, 'e) mstate \<Rightarrow> ('f, 'e) mstate" where
  "set_yyval n st = st\<lparr>m_yyval := n\<rparr>"

definition set_lastbase :: "int \<Rightarrow> ('f, 'e) mstate \<Rightarrow> ('f, 'e) mstate" where
  "set_lastbase b st = st\<lparr>m_lastbase := b\<rparr>"

definition report :: "string option \<Rightarrow> ('f, 'e) mstate \<Rightarrow> ('f, 'e) mstate" where
  "report d st = (case d of None \<Rightarrow> st | Some msg \<Rightarrow> zerr msg st)"

section \<open>Identifiers\<close>

text \<open>\<open>itype_end\<close> at \<open>IIDENT\<close>: ASCII letters, digits and underscore, and with \<open>MULTIBYTE\<close>
  and without \<open>POSIXIDENTIFIERS\<close> the characters \<open>iswalnum\<close> accepts.\<close>

function iident_end :: "('f, 'e) mconf \<Rightarrow> string \<Rightarrow> nat" where
  "iident_end C [] = 0"
| "iident_end C (c # cs) =
     (if byte c < 128 then (if is_ident c then 1 + iident_end C cs else 0)
      else if o_multibyte C \<and> \<not> o_posixidentifiers C
              \<and> c_iswalnum C (c # take (utf8_width c - 1) cs)
      then utf8_width c + iident_end C (drop (utf8_width c - 1) cs) else 0)"
  by pat_completeness auto
termination
  by (relation "measure (\<lambda>(_, s). length s)") auto

text \<open>\<open>itype_end\<close> at \<open>INAMESPC\<close>: an identifier, or the ksh93 form with one dot in it.\<close>

definition inamespc_end :: "('f, 'e) mconf \<Rightarrow> string \<Rightarrow> nat" where
  "inamespc_end C s =
     (if \<not> o_posixidentifiers C \<or> c_emulate_ksh C then
        let r = (if take 1 s = ''.'' then 1 else 0);
            t = r + iident_end C (drop r s)
        in if r < t \<and> take 1 (drop t s) = ''.'' then t + 1 + iident_end C (drop (t + 1) s)
           else if r < t then t
           else iident_end C s
      else iident_end C s)"

section \<open>Character constants\<close>

text \<open>One character of a key string: its code and the characters used; 0 used is the
  multibyte early return.\<close>

definition octal_run :: "string list \<Rightarrow> string" where
  "octal_run cs = concat (takeWhile (\<lambda>u. 48 \<le> code_point u \<and> code_point u \<le> 55) (take 3 cs))"

definition hex_run :: "string list \<Rightarrow> string" where
  "hex_run cs = concat (takeWhile (\<lambda>u. length u = 1 \<and> is_hexdigit (hd u)) (take 2 cs))"

definition hex_val :: "string \<Rightarrow> int" where
  "hex_val ds = foldl (\<lambda>a c. a * 16 + int (case to_digit 16 c of Some v \<Rightarrow> v | None \<Rightarrow> 0)) 0 ds"

definition Meta :: int where "Meta = 0x83"

definition decode_escape :: "string list \<Rightarrow> int \<times> nat" where
  "decode_escape cs = (case cs of
     [] \<Rightarrow> (92, 1)
   | e # rest \<Rightarrow>
       if e = ''n'' then (10, 2) else if e = ''t'' then (9, 2) else if e = ''r'' then (13, 2)
       else if e = ''e'' \<or> e = ''E'' then (27, 2) else if e = ''a'' then (7, 2)
       else if e = ''b'' then (8, 2) else if e = ''f'' then (12, 2) else if e = ''v'' then (11, 2)
       else if e = [CHR 0x5C] then (92, 2)
       else if octal_run cs \<noteq> [] then (int (digits_val 8 (octal_run cs)), 1 + length (octal_run cs))
       else if e = ''x'' then
         (if hex_run rest = [] then (120, 2) else (hex_val (hex_run rest), 2 + length (hex_run rest)))
       else (code_point e, 2))"

definition decode_one :: "('f, 'e) mconf \<Rightarrow> string list \<Rightarrow> (int \<times> nat) option" where
  "decode_one C cs = (case cs of
     [] \<Rightarrow> None
   | u # rest \<Rightarrow>
       if u \<noteq> [CHR 0x5C] then
         (if code_point u = Meta \<and> rest \<noteq> [] then
            Some (uint (semiring_bit_operations_class.xor (word_of_int (code_point (hd rest)) :: i32) 32), 2)
          else if \<not> o_multibyte C \<and> 127 < code_point u then Some (int (byte (hd u)), 1)
          else if 127 < code_point u then Some (code_point u, 0)
          else Some (code_point u, 1))
       else Some (decode_escape rest))"

text \<open>The modifier loop: \<open>\C-\<close>, \<open>\M-\<close> and \<open>^\<close> are remembered and applied to the next
  character.  Each pass uses at least one character.\<close>

definition apply_modifiers :: "int \<Rightarrow> bool \<Rightarrow> int \<Rightarrow> int" where
  "apply_modifiers meta control code0 =
     (let w = (\<lambda>i. word_of_int i :: i64);
          code1 = (if meta = 2 then sint (i64_or (w code0) 0x80) else code0);
          code2 = (if control then (if code1 = 63 then 0x7F else sint (i64_and (w code1) 0x9F)) else code1)
      in if meta \<noteq> 0 \<and> meta \<noteq> 2 then sint (i64_or (w code2) 0x80) else code2)"

fun keychar_loop ::
  "('f, 'e) mconf \<Rightarrow> nat \<Rightarrow> string list \<Rightarrow> nat \<Rightarrow> int \<Rightarrow> bool \<Rightarrow> (int \<times> nat) option" where
  "keychar_loop C 0 cs i meta control = None"
| "keychar_loop C (Suc n) cs i meta control =
     (let rest = drop i cs
      in if rest = [] then None
         else if take 2 rest = [[CHR 0x5C], ''C''] then
           keychar_loop C n cs (i + (if take 1 (drop 2 rest) = [''-''] then 3 else 2)) meta True
         else if take 2 rest = [[CHR 0x5C], ''M''] then
           keychar_loop C n cs (i + (if take 1 (drop 2 rest) = [''-''] then 3 else 2))
             (1 + (if control then 1 else 0)) control
         else if take 1 rest = [''^''] \<and> \<not> control \<and> 1 < length rest then
           keychar_loop C n cs (i + 1) meta True
         else case decode_one C rest of
                None \<Rightarrow> None
              | Some (code, used) \<Rightarrow>
                  if used = 0 then Some (code, i + 1)
                  else Some (apply_modifiers meta control code, i + used))"

definition decode_math_keychar :: "('f, 'e) mconf \<Rightarrow> string \<Rightarrow> (int \<times> nat) option" where
  "decode_math_keychar C s = (let cs = chars s in keychar_loop C (length cs + 1) cs 0 0 False)"

section \<open>Numeric constants\<close>

text \<open>The number of an integer literal: negated by wrapping, a float under \<open>FORCEFLOAT\<close>.\<close>

definition literal_num :: "('f, 'e) mconf \<Rightarrow> bool \<Rightarrow> i64 \<Rightarrow> ('f, 'e) mstate \<Rightarrow> 'f mnumber" where
  "literal_num C is_neg v st =
     (if m_force_float st then
        float_num C (if is_neg then f_neg (c_float C) (f_of_int (c_float C) v) else f_of_int (c_float C) v)
      else int_num C (if is_neg then - v else v))"

definition wrap_const :: "('f, 'e) mconf \<Rightarrow> i64 \<Rightarrow> i64" where
  "wrap_const C v = (if pdksh_family C then wrap_i32 v else v)"

text \<open>\<open>0x\<close>: the cursor is behind the \<open>x\<close>.\<close>

definition lex_hex :: "('f, 'e) mconf \<Rightarrow> bool \<Rightarrow> ('f, 'e) mstate \<Rightarrow> token \<times> ('f, 'e) mstate" where
  "lex_hex C is_neg st =
     (let tail = rest_of st;
          st1 = skip_while (\<lambda>c. is_hexdigit c \<or> c = CHR ''_'') st
      in if dash_strict C \<and> m_pos st1 = m_pos st then
           (EOI, m_error_set ''bad math expression: operand expected'' st1)
         else
           let (v, _, d) = zstrtol_underscore C tail 16 True
           in (NUM, set_yyval (literal_num C is_neg (wrap_const C v) st1) (set_lastbase 16 (report d st1))))"

text \<open>\<open>0b\<close>: the cursor is behind the \<open>b\<close>.\<close>

definition lex_bin :: "('f, 'e) mconf \<Rightarrow> bool \<Rightarrow> ('f, 'e) mstate \<Rightarrow> token \<times> ('f, 'e) mstate" where
  "lex_bin C is_neg st =
     (let const_start = m_pos st - 2;
          tail = drop const_start (m_input st);
          (v, used, d) = zstrtol_underscore C tail 0 True;
          st1 = (report d st)\<lparr>m_pos := const_start + used\<rparr>
      in (NUM, set_yyval (literal_num C is_neg v st1) (set_lastbase 2 st1)))"

text \<open>A leading zero under \<open>OCTALZEROES\<close>; \<open>None\<close> is the fall through to the decimal scan
  with the zero put back.\<close>

definition lex_octal ::
  "('f, 'e) mconf \<Rightarrow> bool \<Rightarrow> ('f, 'e) mstate \<Rightarrow> (token \<times> ('f, 'e) mstate) option" where
  "lex_octal C is_neg st =
     (let n = span_len (\<lambda>c. is_digit c \<or> c = CHR ''_'') (rest_of st);
          stop = drop n (rest_of st);
          is_float_or_base = (stop \<noteq> [] \<and> hd stop \<in> set ''.eE#'')
      in if is_float_or_base \<or> n = 0 then None
         else
           let st1 = skip_while (\<lambda>c. (48 \<le> byte c \<and> byte c \<le> 55) \<or> c = CHR ''_'') st;
               oct_str = filter (\<lambda>c. c \<noteq> CHR ''_'') (str_slice (m_input st) (m_pos st) (m_pos st1));
               (v, _, d) = (if oct_str = [] then (0, 0, None) else zstrtol C oct_str 8)
           in Some (NUM, set_yyval (literal_num C is_neg v st1) (set_lastbase 8 (report d st1))))"

text \<open>Floating point: the scan bounds the constant, underscores are cut out of the
  input, and \<open>strtod\<close>'s longest prefix decides.\<close>

definition float_scan :: "('f, 'e) mstate \<Rightarrow> ('f, 'e) mstate" where
  "float_scan st =
     (let digits = (\<lambda>c. is_digit c \<or> c = CHR ''_'');
          st1 = (if peek_is (CHR ''.'') st then skip_while digits (move 1 st) else st)
      in if peek_is (CHR ''e'') st1 \<or> peek_is (CHR ''E'') st1 then
           let st2 = move 1 st1;
               st3 = (if peek_is (CHR ''+'') st2 \<or> peek_is (CHR ''-'') st2 then move 1 st2 else st2)
           in skip_while digits st3
         else st1)"

definition strtod_int :: "string \<Rightarrow> nat" where
  "strtod_int b = span_len is_digit b"

definition strtod_mant :: "string \<Rightarrow> nat" where
  "strtod_mant b =
     (let n = strtod_int b
      in if take 1 (drop n b) = ''.'' then n + 1 + span_len is_digit (drop (n + 1) b) else n)"

definition strtod_end :: "string \<Rightarrow> nat" where
  "strtod_end b =
     (let n = strtod_mant b
      in if strtod_int b = 0 \<and> n \<le> 1 then 0
         else if take 1 (drop n b) = ''e'' \<or> take 1 (drop n b) = ''E'' then
           let m = n + 1;
               exp_digits = (if take 1 (drop m b) = ''+'' \<or> take 1 (drop m b) = ''-'' then m + 1 else m);
               k = span_len is_digit (drop exp_digits b)
           in if 0 < k then exp_digits + k else n
         else n)"

definition strtod_text :: "string \<Rightarrow> string" where
  "strtod_text b =
     (let i = strtod_int b; m = strtod_mant b; n = strtod_end b
      in (if i = 0 then ''0'' else take i b) @ ''.'' @
         (if i + 1 < m then str_slice b (i + 1) m else ''0'') @ str_slice b m n)"

definition float_cut :: "nat \<Rightarrow> ('f, 'e) mstate \<Rightarrow> ('f, 'e) mstate" where
  "float_cut num_start st =
     (let st1 = float_scan st; seg = str_slice (m_input st1) num_start (m_pos st1)
      in if CHR ''_'' \<in> set seg then
           st1\<lparr>m_input := take num_start (m_input st1) @ filter (\<lambda>c. c \<noteq> CHR ''_'') seg
                            @ drop (m_pos st1) (m_input st1)\<rparr>
         else st1)"

definition float_value ::
  "('f, 'e) mconf \<Rightarrow> bool \<Rightarrow> nat \<Rightarrow> ('f, 'e) mstate \<Rightarrow> token \<times> ('f, 'e) mstate" where
  "float_value C is_neg num_start st =
     (let b = drop num_start (m_input st);
          n = strtod_end b
      in if n = 0 \<or> take 1 (drop n b) = ''.'' then
           (EOI, m_error_set ''bad floating point constant'' st)
         else
           let v = (case f_parse (c_float C) (strtod_text b) of Some v \<Rightarrow> v | None \<Rightarrow> f_zero (c_float C))
           in (NUM, set_yyval (float_num C (if is_neg then f_neg (c_float C) v else v))
                      (st\<lparr>m_pos := num_start + n\<rparr>)))"

definition lex_float ::
  "('f, 'e) mconf \<Rightarrow> bool \<Rightarrow> nat \<Rightarrow> ('f, 'e) mstate \<Rightarrow> token \<times> ('f, 'e) mstate" where
  "lex_float C is_neg num_start st = float_value C is_neg num_start (float_cut num_start st)"

section \<open>Based constants\<close>

definition bad_number :: "string \<Rightarrow> string" where
  "bad_number tok = tok @ '': bad number '' @ [CHR 0x27] @ tok @ [CHR 0x27]"

text \<open>mksh: digits below the base, a second \<open>#\<close> is no digit; \<open>None\<close> is the bad digit.\<close>

fun pdksh_digits :: "nat \<Rightarrow> string \<Rightarrow> nat \<Rightarrow> i64 \<Rightarrow> nat \<times> i64 option" where
  "pdksh_digits base [] n v = (n, Some v)"
| "pdksh_digits base (c # cs) n v =
     (if is_alnum c \<or> c = CHR ''#'' then
        (case to_digit base c of
           None \<Rightarrow> (n, None)
         | Some d \<Rightarrow> pdksh_digits base cs (n + 1) (v * of_nat base + of_nat d))
      else (n, Some v))"

definition pdksh_tok :: "string \<Rightarrow> string" where
  "pdksh_tok s = takeWhile (\<lambda>c. is_alnum c \<or> c = CHR ''#'') s"

definition lex_based_pdksh ::
  "('f, 'e) mconf \<Rightarrow> bool \<Rightarrow> nat \<Rightarrow> i64 \<Rightarrow> ('f, 'e) mstate \<Rightarrow> token \<times> ('f, 'e) mstate" where
  "lex_based_pdksh C is_neg num_start base_num st =
     (let fin = (\<lambda>v st'. let v' = wrap_i32 v
                 in (NUM, set_yyval (int_num C (if is_neg then wrap_i32 (- v') else v'))
                       (set_lastbase (sint (ucast base_num :: i32)) st')));
          text = drop num_start (m_input st)
      in if i64_lt base_num 1 then (EOI, m_error_set (bad_number text) st)
         else if base_num = 1 then
           (case peek st of
              None \<Rightarrow> fin 0 st
            | Some c \<Rightarrow>
                if 128 \<le> byte c then (EOI, m_error_set (text @ '': unexpected character'') st)
                else fin (of_nat (byte c)) (move 1 st))
         else
           let base = (if i64_lt 36 base_num then 10 else unat base_num);
               (n, v) = pdksh_digits base (rest_of st) 0 0
           in case v of
                None \<Rightarrow> (EOI, m_error_set (bad_number (pdksh_tok text)) (move n st))
              | Some x \<Rightarrow> fin x (move n st))"

text \<open>bash: bases to 64, the digits in the order 0-9 a-z A-Z @ _.\<close>

definition bash_tok_char :: "char \<Rightarrow> bool" where
  "bash_tok_char c \<longleftrightarrow> is_alnum c \<or> c \<in> set ''#@_''"

definition bash_digit :: "nat \<Rightarrow> char \<Rightarrow> nat" where
  "bash_digit base c =
     (if is_digit c then byte c - 48
      else if 97 \<le> byte c \<and> byte c \<le> 122 then byte c - 87
      else if 65 \<le> byte c \<and> byte c \<le> 90 then byte c - 65 + (if base \<le> 36 then 10 else 36)
      else if c = CHR ''@'' then 62 else 63)"

fun bash_digits :: "nat \<Rightarrow> string \<Rightarrow> nat \<Rightarrow> i64 \<Rightarrow> nat \<times> (string + i64)" where
  "bash_digits base [] n v = (n, Inr v)"
| "bash_digits base (c # cs) n v =
     (if \<not> bash_tok_char c then (n, Inr v)
      else if c = CHR ''#'' then (n, Inl ''invalid number'')
      else if base \<le> bash_digit base c then (n, Inl ''value too great for base'')
      else bash_digits base cs (n + 1) (v * of_nat base + of_nat (bash_digit base c)))"

definition lex_based_bash ::
  "('f, 'e) mconf \<Rightarrow> bool \<Rightarrow> nat \<Rightarrow> i64 \<Rightarrow> ('f, 'e) mstate \<Rightarrow> token \<times> ('f, 'e) mstate" where
  "lex_based_bash C is_neg num_start base_num st =
     (let tok = takeWhile bash_tok_char (drop num_start (m_input st));
          failed = (\<lambda>what st'. (EOI, m_error_set (what @ '' (error token is \"'' @ tok @ ''\")'') st'))
      in if i64_lt base_num 2 \<or> i64_lt 64 base_num then failed ''invalid arithmetic base'' st
         else
           let base = unat base_num;
               (n, r) = bash_digits base (rest_of st) 0 0;
               st1 = move n st
           in case r of
                Inl what \<Rightarrow> failed what st1
              | Inr v \<Rightarrow>
                  if n = 0 \<and> bash_mode C then failed ''invalid integer constant'' st1
                  else (NUM, set_yyval (int_num C (if is_neg then - v else v))
                               (set_lastbase (int base) st1)))"

text \<open>zsh: base 0 detects the base, 2 to 36 otherwise.\<close>

definition lex_based_zsh ::
  "('f, 'e) mconf \<Rightarrow> bool \<Rightarrow> i64 \<Rightarrow> ('f, 'e) mstate \<Rightarrow> token \<times> ('f, 'e) mstate" where
  "lex_based_zsh C is_neg base_num st =
     (let base = (if i64_le 0 base_num \<and> i64_le base_num 36 then unat base_num else 37)
      in if base \<noteq> 0 \<and> (base < 2 \<or> 36 < base) then
           (NUM, set_yyval (int_num C 0) (m_error_set (invalid_base (sint base_num)) st))
         else
           let (v, used, d) = zstrtol_underscore C (rest_of st) base True;
               st1 = move used (report d (set_lastbase (int base) st))
           in (NUM, set_yyval (literal_num C is_neg v st1) st1))"

text \<open>\<open>base#value\<close>: the cursor is at the \<open>#\<close>.\<close>

definition lex_based ::
  "('f, 'e) mconf \<Rightarrow> bool \<Rightarrow> nat \<Rightarrow> ('f, 'e) mstate \<Rightarrow> token \<times> ('f, 'e) mstate" where
  "lex_based C is_neg num_start st0 =
     (let st = move 1 st0;
          base_str = filter (\<lambda>c. c \<noteq> CHR ''_'') (str_slice (m_input st) num_start (m_pos st - 1));
          (base_num, _, d) = zstrtol_underscore C base_str 10 True;
          st1 = report d st
      in if pdksh_family C then lex_based_pdksh C is_neg num_start base_num st1
         else if bash_mode C \<or> sh_mode C then lex_based_bash C is_neg num_start base_num st1
         else lex_based_zsh C is_neg base_num st1)"

section \<open>Plain integers\<close>

definition wrapping_decimal :: "string \<Rightarrow> i64" where
  "wrapping_decimal ds = foldl (\<lambda>a c. a * 10 + of_nat (byte c - 48)) 0 ds"

definition lex_integer ::
  "('f, 'e) mconf \<Rightarrow> bool \<Rightarrow> nat \<Rightarrow> ('f, 'e) mstate \<Rightarrow> token \<times> ('f, 'e) mstate" where
  "lex_integer C is_neg num_start st =
     (let int_str = filter (\<lambda>c. c \<noteq> CHR ''_'') (str_slice (m_input st) num_start (m_pos st));
          digits = (int_str \<noteq> [] \<and> list_all is_digit int_str);
          (v, d) =
            (case parse_i64 int_str of
               Some n \<Rightarrow> (n, None)
             | None \<Rightarrow>
                 if (bash_mode C \<or> sh_mode C \<or> pdksh_family C) \<and> digits then
                   (wrap_const C (wrapping_decimal int_str), None)
                 else if digits then
                   (case zstrtol_underscore C (drop num_start (m_input st)) 10 True of (n, _, d) \<Rightarrow> (n, d))
                 else (0, None));
          st1 = report d st
      in (NUM, set_yyval (literal_num C is_neg (wrap_const C v) st1) st1))"

text \<open>Decimal digits, then what follows them decides.\<close>

definition lex_decimal :: "('f, 'e) mconf \<Rightarrow> bool \<Rightarrow> ('f, 'e) mstate \<Rightarrow> token \<times> ('f, 'e) mstate" where
  "lex_decimal C is_neg st =
     (let num_start = m_pos st;
          underscore_ok = (\<not> posix_faithful C \<and> \<not> bash_mode C);
          st1 = skip_while (\<lambda>c. is_digit c \<or> (c = CHR ''_'' \<and> underscore_ok)) st
      in if peek_is (CHR ''.'') st1 \<and> (bash_mode C \<or> dash_faithful C \<or> sh_mode C \<or> pdksh_family C) then
           (EOI, m_error_set (''arithmetic syntax error: invalid arithmetic operator (error token is \"''
                    @ rest_of st1 @ ''\")'') st1)
         else if peek_is (CHR ''.'') st1 \<or> peek_is (CHR ''e'') st1 \<or> peek_is (CHR ''E'') st1 then
           lex_float C is_neg num_start st1
         else if peek_is (CHR ''#'') st1 \<and> \<not> dash_strict C then lex_based C is_neg num_start st1
         else lex_integer C is_neg num_start st1)"

definition lexconstant :: "('f, 'e) mconf \<Rightarrow> ('f, 'e) mstate \<Rightarrow> token \<times> ('f, 'e) mstate" where
  "lexconstant C st0 =
     (let is_neg = peek_is (CHR ''-'') st0;
          st = (if is_neg then move 1 st0 else st0)
      in if peek_is (CHR ''0'') st then
           let st1 = move 1 st; low = map_option to_lower (peek st1)
           in if low = Some (CHR ''x'') then lex_hex C is_neg (move 1 st1)
              else if low = Some (CHR ''b'') \<and> \<not> dash_strict C \<and> \<not> posix_faithful C then
                lex_bin C is_neg (move 1 st1)
              else if low = Some (CHR ''o'') then
                (NUM, set_yyval (int_num C 0) (m_error_set
                   (''bad math expression: operator expected at `'' @ rest_of st1 @ [CHR 0x27]) st1))
              else if m_octal_zeroes st1 then
                (case lex_octal C is_neg st1 of Some r \<Rightarrow> r | None \<Rightarrow> lex_decimal C is_neg st)
              else lex_decimal C is_neg st
         else lex_decimal C is_neg st)"

section \<open>Operators of one to three characters\<close>

text \<open>\<open>if peek() == Some(c) { advance(); return t; }\<close> with an alternative.\<close>

definition lex_alt ::
  "char \<Rightarrow> (('f, 'e) mstate \<Rightarrow> token \<times> ('f, 'e) mstate) \<Rightarrow> (('f, 'e) mstate \<Rightarrow> token \<times> ('f, 'e) mstate)
    \<Rightarrow> ('f, 'e) mstate \<Rightarrow> token \<times> ('f, 'e) mstate" where
  "lex_alt c yes no st = (if peek_is c st then yes (move 1 st) else no st)"

definition lex_ret :: "token \<Rightarrow> ('f, 'e) mstate \<Rightarrow> token \<times> ('f, 'e) mstate" where
  "lex_ret t st = (t, st)"

definition lex_plus :: "('f, 'e) mconf \<Rightarrow> ('f, 'e) mstate \<Rightarrow> token \<times> ('f, 'e) mstate" where
  "lex_plus C st =
     (if peek_is (CHR ''+'') st \<and> \<not> dash_strict C then
        (if m_unary st then PREPLUS else POSTPLUS, move 1 st)
      else if peek_is (CHR ''='') st then (PLUSEQ, move 1 st)
      else (if m_unary st then UPLUS else PLUS, st))"

text \<open>A minus in front of a digit, or of a point and a digit, starts a constant.\<close>

definition digit_ahead :: "string \<Rightarrow> bool" where
  "digit_ahead s = (case s of
     [] \<Rightarrow> False
   | c # cs \<Rightarrow> is_digit c \<or> (c = CHR ''.'' \<and> (case cs of [] \<Rightarrow> False | d # _ \<Rightarrow> is_digit d)))"

definition lex_minus :: "('f, 'e) mconf \<Rightarrow> ('f, 'e) mstate \<Rightarrow> token \<times> ('f, 'e) mstate" where
  "lex_minus C st =
     (if peek_is (CHR ''-'') st \<and> \<not> dash_strict C then
        (if m_unary st then PREMINUS else POSTMINUS, move 1 st)
      else if peek_is (CHR ''='') st then (MINUSEQ, move 1 st)
      else if m_unary st then
        (if digit_ahead (rest_of st) then
           let (tok, st1) = lexconstant C (st\<lparr>m_pos := m_pos st - 1\<rparr>)
           in (tok, if pdksh_family C \<and> mn_type (m_yyval st1) = MN_INTEGER
                    then set_yyval ((m_yyval st1)\<lparr>mn_l := wrap_i32 (mn_l (m_yyval st1))\<rparr>) st1 else st1)
         else (UMINUS, st))
      else (MINUS, st))"

definition lex_caret :: "('f, 'e) mconf \<Rightarrow> ('f, 'e) mstate \<Rightarrow> token \<times> ('f, 'e) mstate" where
  "lex_caret C st =
     (if peek_is (CHR ''^'') st \<and> \<not> posix_faithful C then
        lex_alt (CHR ''='') (lex_ret DXOREQ) (lex_ret DXOR) (move 1 st)
      else lex_alt (CHR ''='') (lex_ret XOREQ) (lex_ret XOR) st)"

definition lex_star :: "('f, 'e) mconf \<Rightarrow> ('f, 'e) mstate \<Rightarrow> token \<times> ('f, 'e) mstate" where
  "lex_star C st =
     (if peek_is (CHR ''*'') st \<and> \<not> dash_strict C \<and> \<not> (pdksh_family C \<and> posix_faithful C) then
        lex_alt (CHR ''='') (lex_ret POWEREQ) (lex_ret POWER) (move 1 st)
      else lex_alt (CHR ''='') (lex_ret MULEQ) (lex_ret MUL) st)"

text \<open>\<open>c\<close>, \<open>c=\<close>, \<open>cc\<close> and \<open>cc=\<close>.\<close>

definition lex_double ::
  "char \<Rightarrow> token \<Rightarrow> token \<Rightarrow> (('f, 'e) mstate \<Rightarrow> token \<times> ('f, 'e) mstate) \<Rightarrow> ('f, 'e) mstate
    \<Rightarrow> token \<times> ('f, 'e) mstate" where
  "lex_double c single assign twice st =
     lex_alt c twice (lex_alt (CHR ''='') (lex_ret assign) (lex_ret single)) st"

section \<open>Brackets, character codes and identifiers\<close>

text \<open>\<open>[base]value\<close>: the cursor is at the first digit of the base.\<close>

definition lex_bracket_base :: "('f, 'e) mconf \<Rightarrow> ('f, 'e) mstate \<Rightarrow> token \<times> ('f, 'e) mstate" where
  "lex_bracket_base C st =
     (let st1 = skip_while is_digit st
      in if \<not> peek_is (CHR '']'') st1 then (EOI, m_error_set ''bad base syntax'' st1)
         else
           let base = (case parse_u32 (str_slice (m_input st) (m_pos st) (m_pos st1)) of
                         Some b \<Rightarrow> b | None \<Rightarrow> 10);
               st2 = move 1 st1
           in if \<not> peek_sat is_digit st2 \<and> \<not> peek_sat is_ident_start st2 then
                (EOI, m_error_set ''bad base syntax'' st2)
              else if base < 2 \<or> 36 < base then
                (NUM, set_yyval (int_num C 0) (m_error_set (invalid_base (int base)) st2))
              else
                let st3 = skip_while is_alnum st2;
                    (v, _, d) = zstrtol C (str_slice (m_input st2) (m_pos st2) (m_pos st3)) base
                in (NUM, set_yyval (int_num C v) (set_lastbase (int base) (report d st3))))"

text \<open>The output format \<open>[#N]\<close>, \<open>[##N]\<close>, \<open>[#N_M]\<close>, \<open>[#_M]\<close>; the cursor is behind the
  first \<open>#\<close>.  \<open>None\<close> continues with the next token.\<close>

definition format_radix :: "int \<Rightarrow> ('f, 'e) mstate \<Rightarrow> ('f, 'e) mstate" where
  "format_radix n st =
     (let st1 = skip_while is_digit st;
          radix = (case parse_i32 (str_slice (m_input st) (m_pos st) (m_pos st1)) of
                     Some r \<Rightarrow> r | None \<Rightarrow> 10)
      in st1\<lparr>m_outputradix := n * radix\<rparr>)"

definition format_underscore :: "('f, 'e) mstate \<Rightarrow> ('f, 'e) mstate" where
  "format_underscore st =
     (if peek_is (CHR ''_'') st then
        let st1 = move 1 st
        in if peek_sat is_digit st1 then
             let st2 = skip_while is_digit st1
             in st2\<lparr>m_outputunderscore :=
                  (case parse_i32 (str_slice (m_input st1) (m_pos st1) (m_pos st2)) of
                     Some m \<Rightarrow> m | None \<Rightarrow> 3)\<rparr>
           else st1\<lparr>m_outputunderscore := 3\<rparr>
      else st)"

definition lex_format :: "('f, 'e) mstate \<Rightarrow> token option \<times> ('f, 'e) mstate" where
  "lex_format st0 =
     (let n = (if peek_is (CHR ''#'') st0 then -1 else 1);
          st = (if peek_is (CHR ''#'') st0 then move 1 st0 else st0)
      in if \<not> peek_sat is_digit st \<and> \<not> peek_is (CHR ''_'') st then
           (Some EOI, m_error_set ''bad output format specification'' st)
         else
           let checkradix = peek_sat is_digit st;
               st1 = (if checkradix then format_radix n st else st);
               st2 = format_underscore st1
           in if \<not> peek_is (CHR '']'') st2 then
                (Some EOI, m_error_set ''bad output format specification'' st2)
              else
                let st3 = move 1 st2; r = \<bar>m_outputradix st3\<bar>
                in if checkradix \<and> (r < 2 \<or> 36 < r) then
                     (Some EOI, m_error_set (invalid_base (m_outputradix st3)) st3)
                   else (None, st3))"

definition lex_bracket :: "('f, 'e) mconf \<Rightarrow> ('f, 'e) mstate \<Rightarrow> token option \<times> ('f, 'e) mstate" where
  "lex_bracket C st =
     (if peek_sat is_digit st then (case lex_bracket_base C st of (t, st1) \<Rightarrow> (Some t, st1))
      else if peek_is (CHR ''#'') st then lex_format (move 1 st)
      else (Some EOI, m_error_set ''bad output format specification'' st))"

text \<open>The bytes of a bracketed group, its closing bracket included, from behind the
  opening one; \<open>esc\<close> is a character that hides the next one.\<close>

fun nest_len :: "char option \<Rightarrow> char \<Rightarrow> char \<Rightarrow> nat \<Rightarrow> string \<Rightarrow> nat" where
  "nest_len esc opn cl d [] = 0"
| "nest_len esc opn cl d (c # cs) =
     (if c = opn then 1 + nest_len esc opn cl (d + 1) cs
      else if c = cl then (if d \<le> 1 then 1 else 1 + nest_len esc opn cl (d - 1) cs)
      else if Some c = esc then
        (case cs of [] \<Rightarrow> 1 | _ # cs' \<Rightarrow> 2 + nest_len esc opn cl d cs')
      else 1 + nest_len esc opn cl d cs)"

text \<open>\<open>#\\x\<close>, \<open>##x\<close>, \<open>#name\<close> and a bare \<open>#\<close>; the cursor is behind the first \<open>#\<close>.\<close>

definition lex_cid :: "('f, 'e) mconf \<Rightarrow> ('f, 'e) mstate \<Rightarrow> token \<times> ('f, 'e) mstate" where
  "lex_cid C st =
     (let st1 = skip_while is_ident st
      in if m_pos st < m_pos st1 then
           let st2 = (if peek_is (CHR ''['') st1 then
                        move (1 + nest_len (Some (CHR 0x5C)) (CHR ''['') (CHR '']'') 1
                                    (drop 1 (rest_of st1))) st1
                      else st1)
           in (CID, st2\<lparr>m_yylval := str_slice (m_input st) (m_pos st) (m_pos st2)\<rparr>)
         else (NUM, set_yyval (int_num C (c_pound C)) st1))"

definition lex_hash :: "('f, 'e) mconf \<Rightarrow> ('f, 'e) mstate \<Rightarrow> token \<times> ('f, 'e) mstate" where
  "lex_hash C st =
     (if peek_is (CHR 0x5C) st \<or> peek_is (CHR ''#'') st then
        let st1 = move 1 st
        in if peek st1 = None then
             (EOI, zerr ''bad math expression: character missing after ##'' st1)
           else
             (case decode_math_keychar C (rest_of st1) of
                Some (code, consumed) \<Rightarrow>
                  (NUM, set_yyval (int_num C (word_of_int code))
                     (move (length (concat (take consumed (chars (rest_of st1))))) st1))
              | None \<Rightarrow>
                  (NUM, set_yyval (int_num C (word_of_int (code_point (peek_char st1)))) (advance st1)))
      else lex_cid C st)"

text \<open>A name, the two IEEE constants, a call or a subscripted name; \<open>start\<close> is where the
  name begins and \<open>len\<close> its length.\<close>

definition lex_name ::
  "('f, 'e) mconf \<Rightarrow> nat \<Rightarrow> nat \<Rightarrow> ('f, 'e) mstate \<Rightarrow> token \<times> ('f, 'e) mstate" where
  "lex_name C start len st0 =
     (let st = st0\<lparr>m_pos := start + len\<rparr>;
          id_lower = (if c_emulate_sh C then [] else map to_lower (str_slice (m_input st) start (start + len)))
      in if id_lower = ''nan'' then (NUM, set_yyval (float_num C (f_nan (c_float C))) st)
         else if id_lower = ''inf'' then (NUM, set_yyval (float_num C (f_inf (c_float C))) st)
         else if peek_is (CHR ''('') st then
           let st1 = move (1 + nest_len None (CHR ''('') (CHR '')'') 1 (drop 1 (rest_of st))) st
           in (FUNC, st1\<lparr>m_yylval := str_slice (m_input st) start (m_pos st1)\<rparr>)
         else
           let st1 = (if peek_is (CHR ''['') st then
                        move (1 + nest_len None (CHR ''['') (CHR '']'') 1 (drop 1 (rest_of st))) st
                      else st)
           in (ID, st1\<lparr>m_yylval := str_slice (m_input st) start (m_pos st1)\<rparr>))"

text \<open>The Korn shells' \<open>'a'\<close>; the cursor is behind the quote.\<close>

definition lex_quoted :: "('f, 'e) mconf \<Rightarrow> ('f, 'e) mstate \<Rightarrow> (token \<times> ('f, 'e) mstate) option" where
  "lex_quoted C st =
     (if peek st \<noteq> None \<and> peek_is (CHR 0x27) (advance st) then
        Some (NUM, set_yyval (int_num C (word_of_int (code_point (peek_char st)))) (move 1 (advance st)))
      else None)"

text \<open>Everything else: \<open>pre\<close> is the position of the character \<open>c\<close> just read.\<close>

definition lex_other ::
  "('f, 'e) mconf \<Rightarrow> char \<Rightarrow> nat \<Rightarrow> ('f, 'e) mstate \<Rightarrow> token \<times> ('f, 'e) mstate" where
  "lex_other C c pre st =
     (if is_digit c \<or> (c = CHR ''.'' \<and> peek_sat is_digit st) then lexconstant C (st\<lparr>m_pos := pre\<rparr>)
      else
        let len = inamespc_end C (drop pre (m_input st))
        in if len \<noteq> 0 then lex_name C pre len st
           else case (if c = CHR 0x27 \<and> korn_mode C then lex_quoted C st else None) of
                  Some r \<Rightarrow> r
                | None \<Rightarrow> (EOI, st\<lparr>m_pos := pre\<rparr>))"

section \<open>The lexer\<close>

text \<open>The dispatch on the character \<open>c\<close> read at \<open>pre\<close>; \<open>None\<close> reads on.\<close>

definition lex_token ::
  "('f, 'e) mconf \<Rightarrow> char \<Rightarrow> nat \<Rightarrow> ('f, 'e) mstate \<Rightarrow> token option \<times> ('f, 'e) mstate" where
  "lex_token C c pre st =
     (if c = CHR ''['' then lex_bracket C st
      else
        let (t, st1) =
         (if c = CHR ''+'' then lex_plus C st
          else if c = CHR ''-'' then lex_minus C st
          else if c = CHR ''('' then (M_INPAR, st)
          else if c = CHR '')'' then (M_OUTPAR, st)
          else if c = CHR ''!'' then lex_alt (CHR ''='') (lex_ret NEQ) (lex_ret NOT) st
          else if c = CHR ''~'' then (M_COMP, st)
          else if c = CHR ''&'' then
            lex_double c AND ANDEQ (lex_alt (CHR ''='') (lex_ret DANDEQ) (lex_ret DAND)) st
          else if c = CHR ''|'' then
            lex_double c OR OREQ (lex_alt (CHR ''='') (lex_ret DOREQ) (lex_ret DOR)) st
          else if c = CHR ''^'' then lex_caret C st
          else if c = CHR ''*'' then lex_star C st
          else if c = CHR ''/'' then lex_alt (CHR ''='') (lex_ret DIVEQ) (lex_ret DIV) st
          else if c = CHR ''%'' then lex_alt (CHR ''='') (lex_ret MODEQ) (lex_ret MOD) st
          else if c = CHR ''<'' then
            lex_double c LES LEQ (lex_alt (CHR ''='') (lex_ret SHLEFTEQ) (lex_ret SHLEFT)) st
          else if c = CHR ''>'' then
            lex_double c GRE GEQ (lex_alt (CHR ''='') (lex_ret SHRIGHTEQ) (lex_ret SHRIGHT)) st
          else if c = CHR ''='' then lex_alt (CHR ''='') (lex_ret DEQ) (lex_ret EQ) st
          else if c = CHR ''$'' then (NUM, set_yyval (int_num C (c_pid C)) st)
          else if c = CHR ''?'' then
            (if m_unary st then (NUM, set_yyval (int_num C (scast (c_lastval C))) st) else (QUEST, st))
          else if c = CHR '':'' then (COLON, st)
          else if c = CHR '','' then
            (if dash_strict C then
               (EOI, m_error_set (''bad math expression: '' @ [CHR 0x27, CHR '','', CHR 0x27] @
                        '' operator not supported'') st)
             else (COMMA, st))
          else if c = CHR ''#'' then lex_hash C st
          else lex_other C c pre st)
        in (Some t, st1))"

definition is_blank :: "char \<Rightarrow> bool" where
  "is_blank c \<longleftrightarrow> c = CHR '' '' \<or> c = CHR 0x09 \<or> c = CHR 0x0A \<or> c = CHR 0x22"

text \<open>Only \<open>[#...]\<close> reads on, and it leaves the input alone and never moves back.\<close>

lemma skip_while_frame [simp]:
  "m_input (skip_while P st) = m_input st" "m_pos (skip_while P st) = m_pos st + span_len P (rest_of st)"
  by (simp_all add: skip_while_def move_def)

lemma move_frame [simp]:
  "m_input (move n st) = m_input st" "m_pos (move n st) = m_pos st + n"
  by (simp_all add: move_def)

lemma format_frame [simp]:
  "m_input (format_radix n st) = m_input st" "m_pos st \<le> m_pos (format_radix n st)"
  "m_input (format_underscore st) = m_input st" "m_pos st \<le> m_pos (format_underscore st)"
  by (auto simp: format_radix_def format_underscore_def Let_def)

lemma lex_format_continues:
  assumes "lex_format st = (None, st')"
  shows "m_input st' = m_input st" "m_pos st \<le> m_pos st'"
proof -
  have both: "m_pos s \<le> m_pos (format_underscore (format_radix n s))" for n and s :: "('a, 'b) mstate"
    by (rule le_trans [OF format_frame(2) format_frame(4)])
  have "m_input st' = m_input st \<and> m_pos st \<le> m_pos st'"
    using assms both [of "move (Suc 0) st" "- 1"] both [of st 1]
      format_frame(4) [of "move (Suc 0) st"] le_SucI [OF format_frame(4) [of st]]
    by (auto simp: lex_format_def Let_def split: if_splits)
  then show "m_input st' = m_input st" "m_pos st \<le> m_pos st'" by auto
qed

lemma lex_token_continues:
  assumes "lex_token C c pre st = (None, st')"
  shows "m_input st' = m_input st" "m_pos st \<le> m_pos st'"
proof -
  have "lex_bracket C st = (None, st')"
    using assms by (auto simp: lex_token_def split: if_splits prod.splits)
  then have "lex_format (move 1 st) = (None, st')"
    by (auto simp: lex_bracket_def split: if_splits prod.splits)
  from lex_format_continues [OF this] show "m_input st' = m_input st" "m_pos st \<le> m_pos st'"
    by simp_all
qed

lemma peek_Some_pos: "peek st = Some c \<Longrightarrow> m_pos st < length (m_input st)"
  by (cases "m_pos st < length (m_input st)") (auto simp: peek_def rest_of_def)

lemma advance_pos: "peek st = Some c \<Longrightarrow> m_pos st < m_pos (advance st) \<and> m_input (advance st) = m_input st"
  by (simp add: advance_def)

text \<open>The loop over blanks and output formats.\<close>

function zzlex_loop :: "('f, 'e) mconf \<Rightarrow> ('f, 'e) mstate \<Rightarrow> token \<times> ('f, 'e) mstate" where
  "zzlex_loop C st = (case peek st of
     None \<Rightarrow> (EOI, st\<lparr>m_tok_start := m_pos st\<rparr>)
   | Some c \<Rightarrow>
       let st1 = advance st
       in if is_blank c then zzlex_loop C st1
          else case lex_token C c (m_pos st) (st1\<lparr>m_tok_start := m_pos st\<rparr>) of
                 (Some t, st2) \<Rightarrow> (t, st2)
               | (None, st2) \<Rightarrow> zzlex_loop C st2)"
  by pat_completeness auto

termination
proof (relation "measure (\<lambda>(_, st). length (m_input st) - m_pos st)", goal_cases)
  case 1
  show ?case by simp
next
  case (2 C st c st1)
  then show ?case using advance_pos [of st c] peek_Some_pos [of st c]
    by (simp add: diff_less_mono2)
next
  case (3 C st c st1 p st2)
  then have "lex_token C c (m_pos st) (st1\<lparr>m_tok_start := m_pos st\<rparr>) = (None, st2)" by simp
  from lex_token_continues [OF this] show ?case
    using 3 advance_pos [of st c] peek_Some_pos [of st c] by (simp add: diff_less_mono2)
qed

declare zzlex_loop.simps [simp del]

definition zzlex :: "('f, 'e) mconf \<Rightarrow> ('f, 'e) mstate \<Rightarrow> token \<times> ('f, 'e) mstate" where
  "zzlex C st = zzlex_loop C (set_yyval (int_num C 0) st)"

end
