(* ===== verification/MathParse.thy ===== *)
theory MathParse
  imports MathLex
begin

text \<open>
  The operator-precedence parser and the entry points: \<open>checkunary\<close>, \<open>mathparse\<close>,
  \<open>mathevall\<close>, \<open>matheval\<close>, \<open>mathevali\<close>, \<open>mathevali_noeval\<close> and \<open>mathevalarg\<close> of
  \<open>src/ported/math.rs\<close>.  The parser takes the lexer as an argument; the program's is
  \<open>zzlex\<close>.  Its recursion is bounded by fuel (\<open>None\<close> is out of fuel); that twice the
  length of the input and a constant suffices is proved in \<open>MathCorrect\<close>.
\<close>

section \<open>Operator or operand expected\<close>

text \<open>The context of the message: at most ten characters, from the first non-blank one.\<close>

definition error_context :: "('f, 'e) mstate \<Rightarrow> string" where
  "error_context st =
     (let s = dropWhile (\<lambda>c. c = CHR '' '' \<or> c = CHR 0x09 \<or> c = CHR 0x0A) (drop (m_tok_start st) (m_input st));
          cs = chars s
      in if s = [] then ''end of string''
         else ''`'' @ (if 10 < length cs then concat (take 10 cs) @ ''...'' else s) @ [CHR 0x27])"

definition expected_message :: "string \<Rightarrow> ('f, 'e) mstate \<Rightarrow> string" where
  "expected_message kind st =
     (let ctx = error_context st
      in ''bad math expression: '' @ kind @ '' expected at '' @ ctx)"

definition is_op_token :: "token \<Rightarrow> bool" where
  "is_op_token t \<longleftrightarrow> is_binary t \<or> has_flag (op_type t) OP_OP"

definition checkunary :: "('f, 'e) mstate \<Rightarrow> ('f, 'e) mstate" where
  "checkunary st =
     (let t = m_mtok st;
          st1 = (if is_op_token t \<and> m_unary st then m_error_set (expected_message ''operand'' st) st
                 else if \<not> is_op_token t \<and> \<not> m_unary st then
                   m_error_set (expected_message ''operator'' st) st
                 else st)
      in st1\<lparr>m_unary := \<not> has_flag (op_type t) OP_OPF\<rparr>)"

section \<open>The parser\<close>

text \<open>The operand tokens \<open>NUM\<close>, \<open>ID\<close>, \<open>CID\<close> and \<open>FUNC\<close>.\<close>

definition push_operand ::
  "('f, 'e) mconf \<Rightarrow> ('f, 'e) evalf \<Rightarrow> ('f, 'e) mstate \<Rightarrow> ('f, 'e) mstate" where
  "push_operand C ev st =
     (let name = m_yylval st; off = (0 < m_noeval st)
      in if m_mtok st = NUM then push (m_yyval st) None st
         else if m_mtok st = ID then push (if off then int_num C 0 else unset_num C) (Some name) st
         else if m_mtok st = CID then
           let (v, st1) = (if off then (int_num C 0, st) else getcvar C name st) in push v (Some name) st1
         else
           let (v, st1) = (if off then (int_num C 0, st) else callmathfunc C ev name st) in push v None st1)"

definition is_operand_token :: "token \<Rightarrow> bool" where
  "is_operand_token t \<longleftrightarrow> t = NUM \<or> t = ID \<or> t = CID \<or> t = FUNC"

definition middle_assigns :: "('f, 'e) mconf \<Rightarrow> bool" where
  "middle_assigns C \<longleftrightarrow> bash_mode C \<or> posix_faithful C"

text \<open>\<open>?\<close>: the truth of the condition on top of the stack, evaluation turned off for the
  middle operand when it is false, and the table the middle operand is parsed with.\<close>

definition quest_cond ::
  "('f, 'e) mconf \<Rightarrow> ('f, 'e) evalf \<Rightarrow> ('f, 'e) mstate \<Rightarrow> bool \<times> ('f, 'e) mstate" where
  "quest_cond C ev st =
     (let (cond, st1) = get_value C ev (hd (m_stack st)) st in (\<not> is_false C cond, st1))"

definition noeval_inc :: "bool \<Rightarrow> ('f, 'e) mstate \<Rightarrow> ('f, 'e) mstate" where
  "noeval_inc b st = (if b then st\<lparr>m_noeval := m_noeval st + 1\<rparr> else st)"

definition noeval_dec :: "bool \<Rightarrow> ('f, 'e) mstate \<Rightarrow> ('f, 'e) mstate" where
  "noeval_dec b st = (if b then st\<lparr>m_noeval := m_noeval st - 1\<rparr> else st)"

definition middle_table :: "('f, 'e) mconf \<Rightarrow> ('f, 'e) mstate \<Rightarrow> ('f, 'e) mstate" where
  "middle_table C st =
     (if middle_assigns C then
        st\<lparr>m_prec := (if m_c_precedences st then C_PREC_TERNARY_MIDDLE else Z_PREC_TERNARY_MIDDLE)\<rparr>
      else st)"

definition middle_prec :: "('f, 'e) mconf \<Rightarrow> ('f, 'e) mstate \<Rightarrow> nat" where
  "middle_prec C st =
     (if middle_assigns C then prec_of (m_prec (middle_table C st)) EQ
      else prec_of (m_prec st) COLON - 1)"

definition middle_restore ::
  "('f, 'e) mconf \<Rightarrow> ('f, 'e) mstate \<Rightarrow> ('f, 'e) mstate \<Rightarrow> ('f, 'e) mstate" where
  "middle_restore C saved st = (if middle_assigns C then st\<lparr>m_prec := m_prec saved\<rparr> else st)"

definition else_prec :: "('f, 'e) mconf \<Rightarrow> ('f, 'e) mstate \<Rightarrow> nat" where
  "else_prec C st = (if korn_mode C then prec_of (m_prec st) EQ else prec_of (m_prec st) QUEST)"

definition no_colon :: "nat \<Rightarrow> ('f, 'e) mstate \<Rightarrow> ('f, 'e) mstate" where
  "no_colon stack_before st =
     m_error_set (if stack_before < length (m_stack st)
       then ''bad math expression: '' @ [CHR 0x27] @ '':'' @ [CHR 0x27] @ '' expected''
       else ''bad math expression: operand expected at end of string'') st"

text \<open>An operator: a binary one without a left operand is an error, a boolean one may turn
  evaluation off; the right operand is parsed one level tighter unless the operator
  groups to the right.\<close>

definition orphan_binary :: "token \<Rightarrow> ('f, 'e) mstate \<Rightarrow> bool" where
  "orphan_binary t st \<longleftrightarrow> m_stack st = [] \<and> is_binary t"

definition orphan_message :: "('f, 'e) mstate \<Rightarrow> string" where
  "orphan_message st =
     ''bad math expression: operand expected at `'' @ drop (m_tok_start st) (m_input st) @ [CHR 0x27]"

definition is_bool :: "token \<Rightarrow> bool" where
  "is_bool t \<longleftrightarrow> op_type t mod 4 = BOOL"

definition right_prec :: "nat list \<Rightarrow> token \<Rightarrow> nat" where
  "right_prec P t = prec_of P t - (if op_type t mod 2 \<noteq> RL then 1 else 0)"

fun mathparse ::
  "('f, 'e) mconf \<Rightarrow> ('f, 'e) evalf \<Rightarrow> (('f, 'e) mstate \<Rightarrow> token \<times> ('f, 'e) mstate) \<Rightarrow> nat
    \<Rightarrow> nat \<Rightarrow> ('f, 'e) mstate \<Rightarrow> ('f, 'e) mstate option"
and mathloop ::
  "('f, 'e) mconf \<Rightarrow> ('f, 'e) evalf \<Rightarrow> (('f, 'e) mstate \<Rightarrow> token \<times> ('f, 'e) mstate) \<Rightarrow> nat
    \<Rightarrow> nat \<Rightarrow> ('f, 'e) mstate \<Rightarrow> ('f, 'e) mstate option"
where
  "mathparse C ev lx 0 pc st = None"
| "mathparse C ev lx (Suc n) pc st =
     (if m_error_some st then Some st
      else
        let (t, st1) = lx st; st2 = st1\<lparr>m_mtok := t\<rparr>
        in if pc = top_prec st2 \<and> t = EOI then Some st2
           else mathloop C ev lx n pc (checkunary st2))"
| "mathloop C ev lx 0 pc st = None"
| "mathloop C ev lx (Suc n) pc st =
     (let t = m_mtok st
      in if \<not> prec_of (m_prec st) t \<le> pc \<or> m_error_some st then Some st
         else if is_operand_token t then
           (let (t', st1) = lx (push_operand C ev st)
            in mathloop C ev lx n pc (checkunary (st1\<lparr>m_mtok := t'\<rparr>)))
         else if t = M_INPAR then
           (case mathparse C ev lx n (top_prec st) st of
              None \<Rightarrow> None
            | Some st1 \<Rightarrow>
                if m_mtok st1 \<noteq> M_OUTPAR then
                  Some (m_error_set (''bad math expression: '' @ [CHR 0x27] @ '')'' @ [CHR 0x27] @ '' expected'') st1)
                else
                  let (t', st2) = lx st1
                  in mathloop C ev lx n pc (checkunary (st2\<lparr>m_mtok := t'\<rparr>)))
         else if t = QUEST then
           (if m_stack st = [] then Some (m_error_set ''bad math expression'' st)
            else
              let (q, st1) = quest_cond C ev st;
                  st2 = noeval_inc (\<not> q) st1
              in case mathparse C ev lx n (middle_prec C st2) (middle_table C st2) of
                   None \<Rightarrow> None
                 | Some st3 \<Rightarrow>
                     let st4 = noeval_dec (\<not> q) (middle_restore C st2 st3)
                     in if m_mtok st4 \<noteq> COLON then Some (no_colon (length (m_stack st2)) st4)
                        else
                          let st5 = noeval_inc q st4
                          in case mathparse C ev lx n (else_prec C st5) st5 of
                               None \<Rightarrow> None
                             | Some st6 \<Rightarrow> mathloop C ev lx n pc (op C ev QUEST (noeval_dec q st6)))
         else if orphan_binary t st then Some (m_error_set (orphan_message st) st)
         else
           let st1 = (if is_bool t then bop C ev t st else st)
           in case mathparse C ev lx n (right_prec (m_prec st1) t) st1 of
                None \<Rightarrow> None
              | Some st2 \<Rightarrow> mathloop C ev lx n pc (op C ev t (st2\<lparr>m_noeval := m_noeval st\<rparr>)))"

section \<open>mathevall\<close>

text \<open>The fuel of one evaluation: each pass of the loop and each call of the parser but
  the last ones of a nest consumes input.\<close>

definition parse_fuel :: "('f, 'e) mstate \<Rightarrow> nat" where
  "parse_fuel st = 2 * length (m_input st) + 4"

function skip_blanks :: "('f, 'e) mstate \<Rightarrow> ('f, 'e) mstate" where
  "skip_blanks st =
     (if peek st \<noteq> None \<and> (is_whitespace (peek_char st) \<or> peek_char st = Nularg)
      then skip_blanks (advance st) else st)"
  by pat_completeness auto
termination
proof (relation "measure (\<lambda>st. length (m_input st) - m_pos st)", goal_cases)
  case 1
  show ?case by simp
next
  case (2 st)
  then obtain c where "peek st = Some c" by auto
  then show ?case using advance_pos [of st c] peek_Some_pos [of st c] by (simp add: diff_less_mono2)
qed

declare skip_blanks.simps [simp del]

definition sync_options :: "('f, 'e) mconf \<Rightarrow> ('f, 'e) mstate \<Rightarrow> ('f, 'e) mstate" where
  "sync_options C st = st\<lparr>
     m_c_precedences := o_cprecedences C, m_force_float := o_forcefloat C,
     m_octal_zeroes := o_octalzeroes C,
     m_prec := (if o_cprecedences C then C_PREC else Z_PREC)\<rparr>"

text \<open>What is left behind the expression; \<open>None\<close> when it is only white space.\<close>

definition trailing :: "('f, 'e) mconf \<Rightarrow> ('f, 'e) mstate \<Rightarrow> string option" where
  "trailing C st =
     (case dropWhile is_whitespace (chars (rest_of st)) of
        [] \<Rightarrow> None
      | c # _ \<Rightarrow>
          Some (if c = '')'' then ''bad math expression: unexpected '' @ [CHR 0x27] @ '')'' @ [CHR 0x27]
                else ''bad math expression: '' @ (if c_emulating_592 C then ''illegal'' else ''invalid'')
                     @ '' character: '' @ c))"

text \<open>The value of a finished parse: the error, an unbalanced parenthesis, trailing text,
  or the top of the stack.\<close>

definition finish_eval ::
  "('f, 'e) mconf \<Rightarrow> ('f, 'e) evalf \<Rightarrow> prec_type \<Rightarrow> ('f, 'e) mstate
    \<Rightarrow> (string + 'f mnumber) \<times> ('f, 'e) mstate" where
  "finish_eval C ev prec_tp st =
     (case m_error st of
        Some e \<Rightarrow> (Inl e, st\<lparr>m_error := None\<rparr>)
      | None \<Rightarrow>
          if m_mtok st = M_OUTPAR then
            (Inl (''bad math expression: unexpected '' @ [CHR 0x27] @ '')'' @ [CHR 0x27]), st)
          else if prec_tp = MPREC_TOP \<and> trailing C st \<noteq> None then (Inl (the (trailing C st)), st)
          else (case m_stack st of
                  [] \<Rightarrow> (Inr (int_num C 0), st)
                | mv # rest \<Rightarrow>
                    let (v, st1) = read_operand C ev mv (st\<lparr>m_stack := rest\<rparr>)
                    in (case m_error st1 of
                          Some e \<Rightarrow> (Inl e, st1\<lparr>m_error := None\<rparr>)
                        | None \<Rightarrow> (Inr v, st1))))"

text \<open>The state and the level \<open>mathparse\<close> is entered with.\<close>

definition entry_state :: "('f, 'e) mconf \<Rightarrow> ('f, 'e) mstate \<Rightarrow> ('f, 'e) mstate" where
  "entry_state C st = skip_blanks (sync_options C st)"

definition entry_prec :: "prec_type \<Rightarrow> ('f, 'e) mstate \<Rightarrow> nat" where
  "entry_prec prec_tp st = (if prec_tp = MPREC_TOP then top_prec st else prec_of (m_prec st) COMMA - 1)"

definition mathevall_body ::
  "('f, 'e) mconf \<Rightarrow> ('f, 'e) evalf \<Rightarrow> ('f, 'e) evalf" where
  "mathevall_body C ev prec_tp st =
     (let st1 = entry_state C st
      in if prec_tp = MPREC_TOP \<and> length (m_input st1) \<le> m_pos st1 then (Inr (int_num C 0), st1)
         else case mathparse C ev (zzlex C) (parse_fuel st1) (entry_prec prec_tp st1) st1 of
                None \<Rightarrow> (Inl ''out of fuel'', st1)
              | Some st2 \<Rightarrow> finish_eval C ev prec_tp st2)"

text \<open>\<open>mathevall\<close> with \<open>n\<close> nesting levels left, \<open>MAX_MLEVEL - M_LEVEL\<close>: the guard on the
  level is the base case.\<close>

primrec mathevall :: "('f, 'e) mconf \<Rightarrow> nat \<Rightarrow> ('f, 'e) evalf" where
  "mathevall C 0 = (\<lambda>prec_tp st.
     (Inl (''math recursion limit exceeded: '' @ trim (m_input st)), sync_options C st))"
| "mathevall C (Suc n) = mathevall_body C (mathevall C n)"

section \<open>The shortcut of matheval\<close>

text \<open>A decimal literal of at most 18 digits without a leading zero.\<close>

definition plain :: "string \<Rightarrow> i64 option" where
  "plain t =
     (let digits = (case strip_prefix ''-'' t of Some d \<Rightarrow> d | None \<Rightarrow> t)
      in if digits \<noteq> [] \<and> length digits \<le> 18 \<and> list_all is_digit digits
            \<and> (length digits = 1 \<or> take 1 digits \<noteq> ''0'')
         then parse_i64 t else None)"

definition is_name :: "string \<Rightarrow> bool" where
  "is_name t \<longleftrightarrow> t \<noteq> [] \<and> is_ident_start (hd t) \<and> list_all is_ident (tl t)"

text \<open>A plain literal, or a plain integer or decimal-string parameter.\<close>

definition fast_operand :: "('f, 'e) mconf \<Rightarrow> 'e \<Rightarrow> string \<Rightarrow> i64 option" where
  "fast_operand C env t0 =
     (let t = trim t0
      in case plain t of
           Some n \<Rightarrow> Some n
         | None \<Rightarrow>
             if \<not> is_name t \<or> map to_lower t = ''nan'' \<or> map to_lower t = ''inf'' then None
             else case p_get (c_param C) t env of
                    None \<Rightarrow> None
                  | Some pm \<Rightarrow>
                      if pm_test (pm_flags pm) (PM_SPECIAL + PM_UNSET + PM_TIED + PM_ARRAY + PM_HASHED
                           + PM_EFLOAT + PM_FFLOAT + PM_NAMEREF) then None
                      else if PM_TYPE (pm_flags pm) = PM_INTEGER then Some (pm_u_val pm)
                      else if PM_TYPE (pm_flags pm) = PM_SCALAR then
                        (case pm_u_str pm of None \<Rightarrow> None | Some u \<Rightarrow> plain u)
                      else None)"

definition is_op_byte :: "char \<Rightarrow> bool" where
  "is_op_byte c \<longleftrightarrow> c \<in> set ''+-*<>=!&|^/%''"

definition fast_apply :: "string \<Rightarrow> i64 \<Rightarrow> i64 \<Rightarrow> i64 option" where
  "fast_apply opr l r =
     (if opr = ''+'' then Some (l + r)
      else if opr = ''-'' then Some (l - r)
      else if opr = ''*'' then Some (l * r)
      else if opr = ''<'' then Some (bool_i64 (i64_lt l r))
      else if opr = ''>'' then Some (bool_i64 (i64_lt r l))
      else if opr = ''<='' then Some (bool_i64 (i64_le l r))
      else if opr = ''>='' then Some (bool_i64 (i64_le r l))
      else if opr = ''=='' then Some (bool_i64 (l = r))
      else if opr = ''!='' then Some (bool_i64 (l \<noteq> r))
      else if opr = ''&'' then Some (i64_and l r)
      else if opr = ''|'' then Some (i64_or l r)
      else if opr = ''^'' then Some (i64_xor l r)
      else None)"

text \<open>\<open>A\<close> or \<open>A op B\<close>: the operator is the first run of operator bytes behind an optional
  leading minus.\<close>

definition fast_binary :: "('f, 'e) mconf \<Rightarrow> 'e \<Rightarrow> string \<Rightarrow> i64 option" where
  "fast_binary C env s =
     (let start = (if take 1 s = ''-'' then 1 else 0);
          p = start + span_len (\<lambda>c. \<not> is_op_byte c) (drop start s)
      in if length s \<le> p then fast_operand C env s
         else
           let q = p + span_len is_op_byte (drop p s)
           in case fast_operand C env (take p s) of
                None \<Rightarrow> None
              | Some l \<Rightarrow> (case fast_operand C env (drop q s) of
                  None \<Rightarrow> None
                | Some r \<Rightarrow> fast_apply (str_slice s p q) l r))"

text \<open>\<open>NAME++\<close>, \<open>NAME--\<close>, \<open>++NAME\<close>, \<open>--NAME\<close>: the name, the step and whether the old value
  is the result.\<close>

definition fast_step :: "('f, 'e) mconf \<Rightarrow> string \<Rightarrow> (string \<times> i64 \<times> bool) option" where
  "fast_step C s =
     (let t = trim s
      in if dash_strict C then None
         else case strip_suffix ''++'' t of
                Some n \<Rightarrow> Some (trim_end n, 1, True)
              | None \<Rightarrow> (case strip_suffix ''--'' t of
                  Some n \<Rightarrow> Some (trim_end n, -1, True)
                | None \<Rightarrow> (case strip_prefix ''++'' t of
                    Some n \<Rightarrow> Some (trim_start n, 1, False)
                  | None \<Rightarrow> (case strip_prefix ''--'' t of
                      Some n \<Rightarrow> Some (trim_start n, -1, False)
                    | None \<Rightarrow> None))))"

definition is_writable :: "('f, 'e) mconf \<Rightarrow> string \<Rightarrow> 'e \<Rightarrow> bool" where
  "is_writable C name env = (case p_get (c_param C) name env of
     Some pm \<Rightarrow> \<not> pm_test (pm_flags pm) PM_READONLY | None \<Rightarrow> False)"

definition matheval_fast :: "('f, 'e) mconf \<Rightarrow> 'e \<Rightarrow> string \<Rightarrow> (i64 \<times> 'e) option" where
  "matheval_fast C env s = (case fast_step C s of
     Some (name, delta, post) \<Rightarrow>
       if \<not> is_writable C name env \<or> plain name \<noteq> None then None
       else (case fast_operand C env name of
               None \<Rightarrow> None
             | Some old \<Rightarrow>
                 let new = old + delta
                 in Some (if post then old else new, p_assignnparam (c_param C) (- 1) name (int_num C new) env))
   | None \<Rightarrow> map_option (\<lambda>l. (l, env)) (fast_binary C env s))"

section \<open>Entry points\<close>

definition reset_output_format :: "('f, 'e) mstate \<Rightarrow> ('f, 'e) mstate" where
  "reset_output_format st = st\<lparr>m_outputradix := 0, m_outputunderscore := 0\<rparr>"

text \<open>\<open>matheval\<close> at the top level (\<open>M_LEVEL = 0\<close>).\<close>

definition matheval ::
  "('f, 'e) mconf \<Rightarrow> string \<Rightarrow> ('f, 'e) mstate \<Rightarrow> (string + 'f mnumber) \<times> ('f, 'e) mstate" where
  "matheval C s0 st0 =
     (let s = skip_nularg s0;
          st = reset_output_format st0
      in if dash_faithful C \<and> trim s = [] then (Inl ''bad math expression: expression expected'', st)
         else if s = [] then (Inr (int_num C 0), st)
         else if \<not> o_forcefloat C \<and> \<not> korn_mode C then
           (case matheval_fast C (m_env st) s of
              Some (l, env1) \<Rightarrow>
                (Inr (int_num C l), st\<lparr>m_env := env1, m_lastbase := -1, m_error := None,
                                        m_lastmathval := int_num C l\<rparr>)
            | None \<Rightarrow> matheval_run C (mathevall C MAX_MLEVEL) s (st\<lparr>m_lastbase := -1\<rparr>))
         else matheval_run C (mathevall C MAX_MLEVEL) s st)"

definition num_to_int :: "('f, 'e) mconf \<Rightarrow> 'f mnumber \<Rightarrow> i64" where
  "num_to_int C n = (if semiring_bit_operations_class.and (mn_type n) MN_FLOAT \<noteq> 0
                     then f_to_int (c_float C) (mn_d n) else mn_l n)"

definition mathevali ::
  "('f, 'e) mconf \<Rightarrow> string \<Rightarrow> ('f, 'e) mstate \<Rightarrow> (string + i64) \<times> ('f, 'e) mstate" where
  "mathevali C s st = (case matheval C s st of
     (Inl e, st1) \<Rightarrow> (Inl e, st1) | (Inr n, st1) \<Rightarrow> (Inr (num_to_int C n), st1))"

text \<open>Parse-only evaluation: \<open>noeval\<close> is raised behind \<open>new\<close>.\<close>

definition mathevali_noeval ::
  "('f, 'e) mconf \<Rightarrow> string \<Rightarrow> ('f, 'e) mstate \<Rightarrow> (string + i64) \<times> ('f, 'e) mstate" where
  "mathevali_noeval C s0 st =
     (let s = skip_nularg s0
      in if s = [] then (Inr 0, st)
         else
           let (r, st1) = mathevall C MAX_MLEVEL MPREC_TOP ((new_state C s st)\<lparr>m_noeval := 1\<rparr>);
               st2 = st1\<lparr>m_noeval := 0, m_variables := m_variables st,
                         m_string_variables := m_string_variables st, m_mtok := m_mtok st\<rparr>
           in (case r of Inl e \<Rightarrow> Inl e | Inr n \<Rightarrow> Inr (num_to_int C n), st2))"

text \<open>\<open>mathevalarg\<close>: argument precedence, an error is reported and gives 0.\<close>

definition mathevalarg ::
  "('f, 'e) mconf \<Rightarrow> string \<Rightarrow> ('f, 'e) mstate \<Rightarrow> i64 \<times> ('f, 'e) mstate" where
  "mathevalarg C expr st =
     (let s = skip_nularg expr
      in if s = [] then (0, zerr ''bad math expression: empty string'' st)
         else
           let (r, st1) = mathevall C MAX_MLEVEL MPREC_ARG (new_state C s st);
               st2 = st1\<lparr>m_variables := m_variables st, m_string_variables := m_string_variables st,
                         m_mtok := m_mtok st\<rparr>
           in (case r of
                 Inl msg \<Rightarrow> (0, zerr msg st2)
               | Inr n \<Rightarrow> (num_to_int C n, st2)))"

section \<open>Unfolding at numerals\<close>

lemmas mathparse_numeral = mathparse.simps(2) [where n = "pred_numeral k", folded numeral_eq_Suc] for k
lemmas mathloop_numeral = mathloop.simps(2) [where n = "pred_numeral k", folded numeral_eq_Suc] for k
lemmas keychar_loop_numeral = keychar_loop.simps(2) [where n = "pred_numeral k", folded numeral_eq_Suc] for k
lemmas math_args_loop_numeral = math_args_loop.simps(2) [where n = "pred_numeral k", folded numeral_eq_Suc] for k

lemma mathevall_numeral:
  "mathevall C (numeral k) prec_tp st = mathevall_body C (mathevall C (pred_numeral k)) prec_tp st"
  by (simp add: numeral_eq_Suc)

end
