(* ===== verification/MathTables.thy ===== *)
theory MathTables
  imports MathParse
begin

text \<open>
  Facts about the tables of the evaluator: the operator types as numbers, which tokens
  are operators, binary or followed by an operator, and how the two precedence tables
  order the tokens an expression ends at and the levels the parser is entered with.
\<close>

section \<open>The precedence tables\<close>

definition tables :: "nat list set" where
  "tables = {Z_PREC, C_PREC, Z_PREC_TERNARY_MIDDLE, C_PREC_TERNARY_MIDDLE}"

text \<open>The precedences as numbers; the middle of \<open>?:\<close> only moves the colon.\<close>

lemma prec_values:
  "prec_of Z_PREC M_INPAR = 1" "prec_of Z_PREC M_OUTPAR = 137" "prec_of Z_PREC NOT = 2"
  "prec_of Z_PREC M_COMP = 2" "prec_of Z_PREC POSTPLUS = 2" "prec_of Z_PREC POSTMINUS = 2"
  "prec_of Z_PREC UPLUS = 2" "prec_of Z_PREC UMINUS = 2" "prec_of Z_PREC AND = 4"
  "prec_of Z_PREC XOR = 5" "prec_of Z_PREC OR = 6" "prec_of Z_PREC MUL = 8" "prec_of Z_PREC DIV = 8"
  "prec_of Z_PREC MOD = 8" "prec_of Z_PREC PLUS = 9" "prec_of Z_PREC MINUS = 9"
  "prec_of Z_PREC SHLEFT = 3" "prec_of Z_PREC SHRIGHT = 3" "prec_of Z_PREC LES = 10"
  "prec_of Z_PREC LEQ = 10" "prec_of Z_PREC GRE = 10" "prec_of Z_PREC GEQ = 10"
  "prec_of Z_PREC DEQ = 11" "prec_of Z_PREC NEQ = 11" "prec_of Z_PREC DAND = 12"
  "prec_of Z_PREC DOR = 13" "prec_of Z_PREC DXOR = 13" "prec_of Z_PREC QUEST = 14"
  "prec_of Z_PREC COLON = 15" "prec_of Z_PREC EQ = 16" "prec_of Z_PREC PLUSEQ = 16"
  "prec_of Z_PREC MINUSEQ = 16" "prec_of Z_PREC MULEQ = 16" "prec_of Z_PREC DIVEQ = 16"
  "prec_of Z_PREC MODEQ = 16" "prec_of Z_PREC ANDEQ = 16" "prec_of Z_PREC XOREQ = 16"
  "prec_of Z_PREC OREQ = 16" "prec_of Z_PREC SHLEFTEQ = 16" "prec_of Z_PREC SHRIGHTEQ = 16"
  "prec_of Z_PREC DANDEQ = 16" "prec_of Z_PREC DOREQ = 16" "prec_of Z_PREC DXOREQ = 16"
  "prec_of Z_PREC COMMA = 17" "prec_of Z_PREC EOI = 200" "prec_of Z_PREC PREPLUS = 2"
  "prec_of Z_PREC PREMINUS = 2" "prec_of Z_PREC NUM = 0" "prec_of Z_PREC ID = 0"
  "prec_of Z_PREC POWER = 7" "prec_of Z_PREC CID = 0" "prec_of Z_PREC POWEREQ = 16"
  "prec_of Z_PREC FUNC = 0"
  "prec_of C_PREC M_INPAR = 1" "prec_of C_PREC M_OUTPAR = 137" "prec_of C_PREC NOT = 2"
  "prec_of C_PREC M_COMP = 2" "prec_of C_PREC POSTPLUS = 2" "prec_of C_PREC POSTMINUS = 2"
  "prec_of C_PREC UPLUS = 2" "prec_of C_PREC UMINUS = 2" "prec_of C_PREC AND = 9"
  "prec_of C_PREC XOR = 10" "prec_of C_PREC OR = 11" "prec_of C_PREC MUL = 4"
  "prec_of C_PREC DIV = 4" "prec_of C_PREC MOD = 4" "prec_of C_PREC PLUS = 5"
  "prec_of C_PREC MINUS = 5" "prec_of C_PREC SHLEFT = 6" "prec_of C_PREC SHRIGHT = 6"
  "prec_of C_PREC LES = 7" "prec_of C_PREC LEQ = 7" "prec_of C_PREC GRE = 7"
  "prec_of C_PREC GEQ = 7" "prec_of C_PREC DEQ = 8" "prec_of C_PREC NEQ = 8"
  "prec_of C_PREC DAND = 12" "prec_of C_PREC DOR = 14" "prec_of C_PREC DXOR = 13"
  "prec_of C_PREC QUEST = 15" "prec_of C_PREC COLON = 16" "prec_of C_PREC EQ = 17"
  "prec_of C_PREC PLUSEQ = 17" "prec_of C_PREC MINUSEQ = 17" "prec_of C_PREC MULEQ = 17"
  "prec_of C_PREC DIVEQ = 17" "prec_of C_PREC MODEQ = 17" "prec_of C_PREC ANDEQ = 17"
  "prec_of C_PREC XOREQ = 17" "prec_of C_PREC OREQ = 17" "prec_of C_PREC SHLEFTEQ = 17"
  "prec_of C_PREC SHRIGHTEQ = 17" "prec_of C_PREC DANDEQ = 17" "prec_of C_PREC DOREQ = 17"
  "prec_of C_PREC DXOREQ = 17" "prec_of C_PREC COMMA = 18" "prec_of C_PREC EOI = 200"
  "prec_of C_PREC PREPLUS = 2" "prec_of C_PREC PREMINUS = 2" "prec_of C_PREC NUM = 0"
  "prec_of C_PREC ID = 0" "prec_of C_PREC POWER = 3" "prec_of C_PREC CID = 0"
  "prec_of C_PREC POWEREQ = 17" "prec_of C_PREC FUNC = 0"
  by (simp_all add: prec_of_def Z_PREC_def C_PREC_def)

lemma tok_code_colon: "tok_code t = tok_code COLON \<longleftrightarrow> t = COLON"
  by (cases t) simp_all

lemma prec_middle:
  "prec_of Z_PREC_TERNARY_MIDDLE t = (if t = COLON then 17 else prec_of Z_PREC t)"
  "prec_of C_PREC_TERNARY_MIDDLE t = (if t = COLON then 18 else prec_of C_PREC t)"
proof -
  have "prec_of (P[tok_code COLON := n]) t = (if t = COLON then n else prec_of P t)" if "length P = 53" for P n
    using that tok_code_colon [of t] by (auto simp: prec_of_def)
  moreover have "length Z_PREC = 53" "length C_PREC = 53" by (simp_all add: Z_PREC_def C_PREC_def)
  ultimately show "prec_of Z_PREC_TERNARY_MIDDLE t = (if t = COLON then 17 else prec_of Z_PREC t)"
    "prec_of C_PREC_TERNARY_MIDDLE t = (if t = COLON then 18 else prec_of C_PREC t)"
    unfolding Z_PREC_TERNARY_MIDDLE_def C_PREC_TERNARY_MIDDLE_def
    by (simp_all only:)
qed

lemmas table_defs = tables_def prec_values prec_middle

text \<open>The operator types as numbers.\<close>

lemma op_type_values:
  "op_type M_INPAR = 0" "op_type M_OUTPAR = 384" "op_type NOT = 1" "op_type M_COMP = 1"
  "op_type POSTPLUS = 385" "op_type POSTMINUS = 385" "op_type UPLUS = 1" "op_type UMINUS = 1"
  "op_type AND = 16" "op_type XOR = 16" "op_type OR = 16" "op_type MUL = 4" "op_type DIV = 4"
  "op_type MOD = 4" "op_type PLUS = 4" "op_type MINUS = 4" "op_type SHLEFT = 16"
  "op_type SHRIGHT = 16" "op_type LES = 8" "op_type LEQ = 8" "op_type GRE = 8" "op_type GEQ = 8"
  "op_type DEQ = 8" "op_type NEQ = 8" "op_type DAND = 18" "op_type DOR = 18" "op_type DXOR = 16"
  "op_type QUEST = 129" "op_type COLON = 129" "op_type EQ = 33" "op_type PLUSEQ = 33"
  "op_type MINUSEQ = 33" "op_type MULEQ = 33" "op_type DIVEQ = 33" "op_type MODEQ = 33"
  "op_type ANDEQ = 65" "op_type XOREQ = 65" "op_type OREQ = 65" "op_type SHLEFTEQ = 65"
  "op_type SHRIGHTEQ = 65" "op_type DANDEQ = 66" "op_type DOREQ = 66" "op_type DXOREQ = 17"
  "op_type COMMA = 5" "op_type EOI = 129" "op_type PREPLUS = 1" "op_type PREMINUS = 1"
  "op_type NUM = 256" "op_type ID = 256" "op_type POWER = 5" "op_type CID = 256"
  "op_type POWEREQ = 33" "op_type FUNC = 256"
  by (simp_all add: op_type_def OP_TYPE_def LR_def RL_def BOOL_def OP_A2_def OP_A2IR_def OP_A2IO_def
      OP_E2_def OP_E2IO_def OP_OP_def OP_OPF_def)

lemmas flag_defs = op_type_values has_flag_def LR_def RL_def BOOL_def OP_A2_def OP_A2IR_def
  OP_A2IO_def OP_E2_def OP_E2IO_def OP_OP_def OP_OPF_def

lemma operand_after [simp]:
  "has_flag (op_type t) OP_OPF \<longleftrightarrow> t \<in> {M_OUTPAR, POSTPLUS, POSTMINUS, NUM, ID, CID, FUNC}"
  by (cases t) (simp_all add: flag_defs)

lemma op_kinds: "is_op_token t \<longleftrightarrow> t \<notin> {NUM, ID, CID, FUNC, M_INPAR, NOT, M_COMP, UPLUS, UMINUS, PREPLUS, PREMINUS}"
  by (cases t) (simp_all add: is_op_token_def is_binary_def is_assign_def flag_defs)

lemma binary_kinds: "is_binary t \<longleftrightarrow> is_op_token t \<and> t \<notin> {M_OUTPAR, POSTPLUS, POSTMINUS, QUEST, COLON, EOI}"
  by (cases t) (simp_all add: is_op_token_def is_binary_def is_assign_def flag_defs)

text \<open>The tokens an expression can end at bind weaker than every level the parser is
  entered with; the tokens that begin an operand bind tighter.\<close>

lemma prec_exit: "P \<in> tables \<Longrightarrow> prec_of P EOI = 200 \<and> prec_of P M_OUTPAR = 137"
  by (auto simp: table_defs)

lemma prec_low: "P \<in> tables \<Longrightarrow> \<not> is_op_token t \<Longrightarrow> prec_of P t \<le> 2"
  by (auto simp: op_kinds table_defs)

lemma prec_right_ge: "P \<in> tables \<Longrightarrow> \<not> is_operand_token t \<Longrightarrow> t \<noteq> M_INPAR \<Longrightarrow> 2 \<le> right_prec P t"
  by (cases t) (auto simp: table_defs is_operand_token_def right_prec_def flag_defs)

lemma prec_levels:
  assumes "P \<in> tables"
  shows "2 \<le> prec_of P COMMA" "prec_of P COMMA \<le> 18" "2 \<le> prec_of P EQ" "prec_of P EQ \<le> 17"
    "3 \<le> prec_of P COLON" "prec_of P COLON \<le> 18" "2 \<le> prec_of P QUEST" "prec_of P QUEST \<le> 17"
  using assms by (auto simp: table_defs)

lemma tables_mem [simp]: "Z_PREC \<in> tables" "C_PREC \<in> tables"
  "Z_PREC_TERNARY_MIDDLE \<in> tables" "C_PREC_TERNARY_MIDDLE \<in> tables"
  by (simp_all add: tables_def)

lemma prec_comma: "P \<in> tables \<Longrightarrow> t \<noteq> EOI \<Longrightarrow> t \<noteq> M_OUTPAR \<Longrightarrow> prec_of P t \<le> prec_of P COMMA"
  by (cases t) (auto simp: table_defs)

end
