(* ===== verification/MathLexFacts.thy ===== *)
theory MathLexFacts
  imports MathTables
begin

text \<open>
  What the lexer leaves alone and how it moves: the operand stack, the flags, the value
  cache and the parameter table are untouched, an error is only ever added, and every
  token but \<open>EOI\<close> consumes input.  The facts are the laws of the interface \<open>math_lexer\<close>
  the parser's theorems are proved from, interpreted at \<open>zzlex\<close>.
\<close>

section \<open>The fields the lexer keeps\<close>

definition kept :: "('f, 'e) mstate \<Rightarrow> 'f mathvalue list \<times> bool \<times> int \<times> nat list \<times> bool \<times> bool \<times> bool
    \<times> (string \<rightharpoonup> 'f mnumber) \<times> (string \<rightharpoonup> string) \<times> 'f mnumber \<times> bool \<times> token \<times> 'e" where
  "kept st = (m_stack st, m_unary st, m_noeval st, m_prec st, m_c_precedences st, m_force_float st,
     m_octal_zeroes st, m_variables st, m_string_variables st, m_lastmathval st, m_panic st,
     m_mtok st, m_env st)"

lemma kept_updates [frame_simps]:
  "kept (st\<lparr>m_pos := p\<rparr>) = kept st" "kept (st\<lparr>m_input := i\<rparr>) = kept st"
  "kept (st\<lparr>m_tok_start := p\<rparr>) = kept st" "kept (st\<lparr>m_yyval := n\<rparr>) = kept st"
  "kept (st\<lparr>m_yylval := s\<rparr>) = kept st" "kept (st\<lparr>m_lastbase := b\<rparr>) = kept st"
  "kept (st\<lparr>m_error := e\<rparr>) = kept st" "kept (st\<lparr>m_diag := d\<rparr>) = kept st"
  "kept (st\<lparr>m_outputradix := r\<rparr>) = kept st" "kept (st\<lparr>m_outputunderscore := r\<rparr>) = kept st"
  by (simp_all add: kept_def)

text \<open>An error is never replaced.\<close>

definition err_mono :: "('f, 'e) mstate \<Rightarrow> ('f, 'e) mstate \<Rightarrow> bool" where
  "err_mono st st' \<longleftrightarrow> (m_error st \<noteq> None \<longrightarrow> m_error st' = m_error st)"

text \<open>Characters of the input and of the last name come from the input.\<close>

definition chars_from :: "('f, 'e) mstate \<Rightarrow> ('f, 'e) mstate \<Rightarrow> bool" where
  "chars_from st st' \<longleftrightarrow> set (m_input st') \<subseteq> set (m_input st)
     \<and> set (m_yylval st') \<subseteq> set (m_input st) \<union> set (m_yylval st)"

definition lex_ok :: "('f, 'e) mstate \<Rightarrow> ('f, 'e) mstate \<Rightarrow> bool" where
  "lex_ok st st' \<longleftrightarrow> kept st' = kept st \<and> err_mono st st' \<and> chars_from st st'"

lemma lex_ok_refl [simp]: "lex_ok st st"
  by (simp add: lex_ok_def err_mono_def chars_from_def)

lemma lex_ok_trans [trans]: "lex_ok a b \<Longrightarrow> lex_ok b c \<Longrightarrow> lex_ok a c"
  by (auto simp: lex_ok_def err_mono_def chars_from_def)

text \<open>The primitive steps, as right extensions.\<close>

lemma lex_ok_steps [simp]:
  "lex_ok st (move n s) = lex_ok st s" "lex_ok st (set_yyval v s) = lex_ok st s"
  "lex_ok st (set_lastbase b s) = lex_ok st s" "lex_ok st (report d s) = lex_ok st s"
  "lex_ok st (zerr m s) = lex_ok st s"
  "lex_ok st (skip_while P s) = lex_ok st s" "lex_ok st (advance s) = lex_ok st s"
  "lex_ok st (s\<lparr>m_pos := p\<rparr>) = lex_ok st s" "lex_ok st (s\<lparr>m_tok_start := p\<rparr>) = lex_ok st s"
  "lex_ok st (s\<lparr>m_outputradix := r\<rparr>) = lex_ok st s" "lex_ok st (s\<lparr>m_outputunderscore := r\<rparr>) = lex_ok st s"
  "lex_ok st (s\<lparr>m_yyval := v\<rparr>) = lex_ok st s" "lex_ok st (s\<lparr>m_lastbase := b\<rparr>) = lex_ok st s"
  "lex_ok st (s\<lparr>m_diag := ds\<rparr>) = lex_ok st s"
  by (simp_all add: lex_ok_def err_mono_def chars_from_def move_def set_yyval_def set_lastbase_def
        report_def zerr_def skip_while_def advance_def kept_def split: option.split)

lemma lex_ok_error [intro]: "lex_ok st s \<Longrightarrow> lex_ok st (m_error_set m s)"
  by (auto simp: lex_ok_def err_mono_def chars_from_def m_error_set_def kept_def)

lemma lex_ok_yylval:
  "lex_ok st s \<Longrightarrow> set x \<subseteq> set (m_input st) \<Longrightarrow> lex_ok st (s\<lparr>m_yylval := x\<rparr>)"
  by (auto simp: lex_ok_def err_mono_def chars_from_def kept_def)

lemma lex_ok_input:
  "lex_ok st s \<Longrightarrow> set x \<subseteq> set (m_input s) \<Longrightarrow> lex_ok st (s\<lparr>m_input := x\<rparr>)"
  by (auto simp: lex_ok_def err_mono_def chars_from_def kept_def)

lemma lex_ok_set_input: "lex_ok st s \<Longrightarrow> set (m_input s) \<subseteq> set (m_input st)"
  by (simp add: lex_ok_def chars_from_def)

lemma set_str_slice: "set (str_slice s a b) \<subseteq> set s"
  by (auto simp: str_slice_def dest: in_set_takeD in_set_dropD)

lemma lex_ok_name: "lex_ok st s \<Longrightarrow> lex_ok st (s\<lparr>m_yylval := str_slice (m_input st) a b\<rparr>)"
  by (rule lex_ok_yylval) (simp_all add: set_str_slice)

text \<open>Both branches of a conditional, whatever the condition.\<close>

lemma lex_ok_if:
  "lex_ok st (snd x) \<Longrightarrow> lex_ok st (snd y) \<Longrightarrow> lex_ok st (snd (if b then x else y))"
  "lex_ok st u \<Longrightarrow> lex_ok st v \<Longrightarrow> lex_ok st (if b then u else v)"
  by simp_all

section \<open>The parts of the lexer\<close>

text \<open>Each part extends a run of the lexer; the facts chain as conditional rewrites.\<close>

lemma lex_hex_ok [simp]: "lex_ok st s \<Longrightarrow> lex_ok st (snd (lex_hex C neg s))"
  by (auto simp: lex_hex_def Let_def split_beta)

lemma lex_bin_ok [simp]: "lex_ok st s \<Longrightarrow> lex_ok st (snd (lex_bin C neg s))"
  by (auto simp: lex_bin_def Let_def split_beta)

lemma lex_octal_ok: "lex_octal C neg s = Some (t, s') \<Longrightarrow> lex_ok st s \<Longrightarrow> lex_ok st s'"
  by (auto simp: lex_octal_def Let_def split_beta split: if_splits)

lemma float_scan_ok [simp]: "lex_ok st (float_scan s) = lex_ok st s"
  by (simp add: float_scan_def Let_def)

lemma float_scan_input [simp]: "m_input (float_scan s) = m_input s"
  by (simp add: float_scan_def Let_def)

lemma set_cut: "set (take a s @ filter P (str_slice s b c) @ drop d s) \<subseteq> set s"
  using set_str_slice [of s b c] by (auto dest: in_set_takeD in_set_dropD)

lemma float_cut_ok [simp]: "lex_ok st s \<Longrightarrow> lex_ok st (float_cut k s)"
  unfolding float_cut_def Let_def
  by (intro lex_ok_if lex_ok_input [OF _ set_cut]) simp_all

lemma float_value_ok [simp]: "lex_ok st s \<Longrightarrow> lex_ok st (snd (float_value C neg k s))"
  by (auto simp: float_value_def Let_def)

lemma lex_float_ok [simp]: "lex_ok st s \<Longrightarrow> lex_ok st (snd (lex_float C neg k s))"
  by (simp add: lex_float_def)

lemma lex_based_pdksh_ok [simp]: "lex_ok st s \<Longrightarrow> lex_ok st (snd (lex_based_pdksh C neg k b s))"
  by (auto simp: lex_based_pdksh_def Let_def split_beta split: option.split)

lemma lex_based_bash_ok [simp]: "lex_ok st s \<Longrightarrow> lex_ok st (snd (lex_based_bash C neg k b s))"
  by (auto simp: lex_based_bash_def Let_def split_beta split: sum.split)

lemma lex_based_zsh_ok [simp]: "lex_ok st s \<Longrightarrow> lex_ok st (snd (lex_based_zsh C neg b s))"
  by (auto simp: lex_based_zsh_def Let_def split_beta)

lemma lex_based_ok [simp]: "lex_ok st s \<Longrightarrow> lex_ok st (snd (lex_based C neg k s))"
  by (simp add: lex_based_def Let_def split_beta)

lemma lex_integer_ok [simp]: "lex_ok st s \<Longrightarrow> lex_ok st (snd (lex_integer C neg k s))"
  by (auto simp: lex_integer_def Let_def split_beta)

lemma lex_decimal_ok [simp]: "lex_ok st s \<Longrightarrow> lex_ok st (snd (lex_decimal C neg s))"
  by (auto simp: lex_decimal_def Let_def)

lemma lexconstant_ok [simp]: "lex_ok st s \<Longrightarrow> lex_ok st (snd (lexconstant C s))"
  unfolding lexconstant_def Let_def
  by (intro lex_ok_if; auto split: option.split elim: lex_octal_ok)

lemma lex_alt_ok [simp]:
  "lex_ok st (snd (lex_alt c yes no s)) =
     lex_ok st (snd (if peek_is c s then yes (move 1 s) else no s))"
  by (simp add: lex_alt_def)

lemma lex_ret_ok [simp]: "lex_ok st (snd (lex_ret t s)) = lex_ok st s"
  by (simp add: lex_ret_def)

lemma lex_plus_ok [simp]: "lex_ok st s \<Longrightarrow> lex_ok st (snd (lex_plus C s))"
  by (simp add: lex_plus_def)

lemma lex_minus_ok [simp]: "lex_ok st s \<Longrightarrow> lex_ok st (snd (lex_minus C s))"
  by (simp add: lex_minus_def split_beta)

lemma lex_caret_ok [simp]: "lex_ok st s \<Longrightarrow> lex_ok st (snd (lex_caret C s))"
  by (simp add: lex_caret_def)

lemma lex_star_ok [simp]: "lex_ok st s \<Longrightarrow> lex_ok st (snd (lex_star C s))"
  by (simp add: lex_star_def)

lemma lex_bracket_base_ok [simp]: "lex_ok st s \<Longrightarrow> lex_ok st (snd (lex_bracket_base C s))"
  unfolding lex_bracket_base_def Let_def split_beta
  by (intro lex_ok_if; auto)

lemma lex_format_parts_ok [simp]:
  "lex_ok st (format_radix n s) = lex_ok st s" "lex_ok st (format_underscore s) = lex_ok st s"
  by (simp_all add: format_radix_def format_underscore_def Let_def)

lemma lex_format_ok [simp]: "lex_ok st s \<Longrightarrow> lex_ok st (snd (lex_format s))"
  unfolding lex_format_def Let_def
  by (intro lex_ok_if; auto)

lemma lex_bracket_ok [simp]: "lex_ok st s \<Longrightarrow> lex_ok st (snd (lex_bracket C s))"
  by (auto simp: lex_bracket_def split_beta)

lemma lex_cid_ok [simp]:
  assumes "lex_ok st s"
  shows "lex_ok st (snd (lex_cid C s))"
proof -
  have in_s: "set (str_slice (m_input s) a b) \<subseteq> set (m_input st)" for a b
    using set_str_slice [of "m_input s" a b] lex_ok_set_input [OF assms] by blast
  show ?thesis
    unfolding lex_cid_def Let_def
    by (intro lex_ok_if) (auto intro!: lex_ok_yylval in_s simp: assms)
qed

lemma lex_hash_ok [simp]: "lex_ok st s \<Longrightarrow> lex_ok st (snd (lex_hash C s))"
  unfolding lex_hash_def Let_def
  by (intro lex_ok_if; auto split: option.split)

lemma lex_name_ok [simp]:
  assumes "lex_ok st s"
  shows "lex_ok st (snd (lex_name C a n s))"
proof -
  have in_s: "set (str_slice (m_input s) i j) \<subseteq> set (m_input st)" for i j
    using set_str_slice [of "m_input s" i j] lex_ok_set_input [OF assms] by blast
  show ?thesis
    unfolding lex_name_def Let_def
    by (intro lex_ok_if) (auto intro!: lex_ok_yylval in_s simp: assms)
qed

lemma lex_other_ok [simp]: "lex_ok st s \<Longrightarrow> lex_ok st (snd (lex_other C c k s))"
  unfolding lex_other_def Let_def
  by (intro lex_ok_if; auto simp: lex_quoted_def split: option.split)

lemma lex_token_ok [simp]: "lex_ok st s \<Longrightarrow> lex_ok st (snd (lex_token C c k s))"
  unfolding lex_token_def lex_double_def split_beta Let_def snd_conv
  by (intro lex_ok_if; auto)

lemma zzlex_loop_ok: "lex_ok st s \<Longrightarrow> lex_ok st (snd (zzlex_loop C s))"
proof (induction C s rule: zzlex_loop.induct)
  case (1 C s)
  show ?case
  proof (cases "peek s")
    case None
    then show ?thesis using 1 by (simp add: zzlex_loop.simps [of C s])
  next
    case (Some c)
    have tok: "lex_ok st (snd (lex_token C c (m_pos s) ((advance s)\<lparr>m_tok_start := m_pos s\<rparr>)))"
      using 1 by simp
    show ?thesis
    proof (cases "lex_token C c (m_pos s) ((advance s)\<lparr>m_tok_start := m_pos s\<rparr>)")
      case (Pair t s2)
      then show ?thesis
        using 1 Some tok by (cases t) (auto simp: zzlex_loop.simps [of C s] Let_def)
    qed
  qed
qed

lemma zzlex_ok: "lex_ok st (snd (zzlex C st))"
  by (simp add: zzlex_def zzlex_loop_ok)

section \<open>Progress\<close>

text \<open>The bytes left to read.\<close>

definition left :: "('f, 'e) mstate \<Rightarrow> nat" where
  "left st = length (m_input st) - m_pos st"

text \<open>A run that keeps the input and does not move back.\<close>

definition fwd :: "('f, 'e) mstate \<Rightarrow> ('f, 'e) mstate \<Rightarrow> bool" where
  "fwd st s \<longleftrightarrow> m_input s = m_input st \<and> m_pos st \<le> m_pos s"

lemma fwd_refl [simp]: "fwd st st"
  by (simp add: fwd_def)

lemma fwd_steps [simp]:
  "fwd st s \<Longrightarrow> fwd st (move n s)" "fwd st (set_yyval v s) = fwd st s"
  "fwd st (set_lastbase b s) = fwd st s" "fwd st (report d s) = fwd st s"
  "fwd st (zerr m s) = fwd st s" "fwd st (m_error_set m s) = fwd st s"
  "fwd st s \<Longrightarrow> fwd st (skip_while P s)" "fwd st s \<Longrightarrow> fwd st (advance s)"
  "fwd st (s\<lparr>m_tok_start := p\<rparr>) = fwd st s" "fwd st (s\<lparr>m_yylval := x\<rparr>) = fwd st s"
  "fwd st (s\<lparr>m_outputradix := r\<rparr>) = fwd st s" "fwd st (s\<lparr>m_outputunderscore := r\<rparr>) = fwd st s"
  by (simp_all add: fwd_def set_yyval_def set_lastbase_def report_def zerr_def m_error_set_def
        advance_def move_def split: option.split)

lemma fwd_if:
  "fwd st (snd x) \<Longrightarrow> fwd st (snd y) \<Longrightarrow> fwd st (snd (if b then x else y))"
  "fwd st u \<Longrightarrow> fwd st v \<Longrightarrow> fwd st (if b then u else v)"
  by simp_all

lemma fwd_left:
  assumes "fwd st s" "m_pos st0 < m_pos st" "m_input st = m_input st0" "m_pos st0 < length (m_input st0)"
  shows "left s < left st0"
  using assms by (auto simp: fwd_def left_def intro: diff_less_mono2)

lemma lex_hex_fwd [simp]: "fwd st s \<Longrightarrow> fwd st (snd (lex_hex C neg s))"
  by (simp add: lex_hex_def Let_def split_beta)

lemma lex_octal_fwd: "lex_octal C neg s = Some (t, s') \<Longrightarrow> fwd st s \<Longrightarrow> fwd st s'"
  by (auto simp: lex_octal_def Let_def split_beta split: if_splits)

lemma lex_based_parts_fwd [simp]:
  "fwd st s \<Longrightarrow> fwd st (snd (lex_based_pdksh C neg k b s))"
  "fwd st s \<Longrightarrow> fwd st (snd (lex_based_bash C neg k b s))"
  "fwd st s \<Longrightarrow> fwd st (snd (lex_based_zsh C neg b s))"
    unfolding lex_based_pdksh_def lex_based_bash_def lex_based_zsh_def Let_def split_beta
    by (intro fwd_if; simp split: option.split sum.split)+

lemma lex_based_fwd: "fwd (move 1 s) (snd (lex_based C neg k s))"
  by (simp add: lex_based_def Let_def split_beta)

lemma lex_integer_fwd [simp]: "fwd st s \<Longrightarrow> fwd st (snd (lex_integer C neg k s))"
  by (simp add: lex_integer_def Let_def split_beta)

lemma lex_ret_fwd [simp]: "fwd st (snd (lex_ret t s)) = fwd st s"
  by (simp add: lex_ret_def)

lemma lex_alt_fwd [simp]:
  "fwd st (snd (lex_alt c yes no s)) = fwd st (snd (if peek_is c s then yes (move 1 s) else no s))"
  by (simp add: lex_alt_def)

lemma lex_plus_fwd [simp]: "fwd st s \<Longrightarrow> fwd st (snd (lex_plus C s))"
  by (simp add: lex_plus_def)

lemma lex_caret_fwd [simp]: "fwd st s \<Longrightarrow> fwd st (snd (lex_caret C s))"
  by (simp add: lex_caret_def)

lemma lex_star_fwd [simp]: "fwd st s \<Longrightarrow> fwd st (snd (lex_star C s))"
  by (simp add: lex_star_def)

lemma lex_double_fwd [simp]:
  "fwd st s \<Longrightarrow> fwd st (snd (lex_double c a b (lex_alt d (lex_ret t) (lex_ret u)) s))"
  by (simp add: lex_double_def)

lemma lex_bracket_base_fwd [simp]: "fwd st s \<Longrightarrow> fwd st (snd (lex_bracket_base C s))"
  unfolding lex_bracket_base_def Let_def split_beta
  by (intro fwd_if; simp)

lemma lex_format_parts_fwd [simp]:
  "fwd st s \<Longrightarrow> fwd st (format_radix n s)" "fwd st s \<Longrightarrow> fwd st (format_underscore s)"
  by (simp_all add: format_radix_def format_underscore_def Let_def)

lemma lex_format_fwd [simp]: "fwd st s \<Longrightarrow> fwd st (snd (lex_format s))"
  unfolding lex_format_def Let_def
  by (intro fwd_if; simp)

lemma lex_bracket_fwd [simp]: "fwd st s \<Longrightarrow> fwd st (snd (lex_bracket C s))"
  by (auto simp: lex_bracket_def split_beta)

lemma lex_cid_fwd [simp]: "fwd st s \<Longrightarrow> fwd st (snd (lex_cid C s))"
  unfolding lex_cid_def Let_def
  by (intro fwd_if; simp)

lemma lex_hash_fwd [simp]: "fwd st s \<Longrightarrow> fwd st (snd (lex_hash C s))"
  unfolding lex_hash_def Let_def
  by (intro fwd_if; auto split: option.split)

subsection \<open>Constants\<close>

lemma zstrtol_loop_index: "i \<le> fst (zstrtol_loop base u s i calc trunc) \<and>
    fst (zstrtol_loop base u s i calc trunc) \<le> i + length s"
proof (induction base u s i calc trunc rule: zstrtol_loop.induct)
  case (1 base u i calc trunc)
  show ?case by simp
next
  case (2 base u c cs i calc trunc)
  then show ?case
    by (cases "zstrtol_digit base c"; cases trunc)
      (auto simp: Let_def intro: le_trans [of i "Suc i"])
qed

lemma zstrtol_clip_index [simp]: "fst (zstrtol_clip base neg r) = fst r"
  by (simp add: zstrtol_clip_def split_beta)

text \<open>A scan with prefix \<open>0b\<close> uses the prefix.\<close>

lemma zstrtol_used_bin:
  assumes "s = CHR ''0'' # c # cs" "to_lower c = CHR ''b''" "zstrtol_underscore C s 0 True = (v, used, d)"
  shows "2 \<le> used"
proof -
  have c: "c = CHR ''b'' \<or> c = CHR ''B''"
  proof (cases "65 \<le> byte c \<and> byte c \<le> 90")
    case True
    then have "char_of (byte c + 32) = CHR ''b''"
      using assms(2) by (simp add: to_lower_def)
    then have "of_char (char_of (byte c + 32) :: char) = (98 :: nat)" by simp
    then have "byte c = 66" using True by (simp add: of_char_of)
    then have "(of_char c :: nat) = of_char (CHR ''B'')" by (simp add: byte_def)
    then show ?thesis by (simp only: of_char_eq_iff simp_thms)
  next
    case False
    then show ?thesis using assms(2) by (auto simp: to_lower_def)
  qed
  have "zstrtol_sign s = (0, False)"
    by (simp add: zstrtol_sign_def span_len_def assms(1))
  moreover have "zstrtol_base s 0 0 = (2, 2)"
    using c by (auto simp: zstrtol_base_def assms(1))
  ultimately have "used = fst (zstrtol_loop 2 True (drop 2 s) 2 0 None)"
    using assms(3) by (auto simp: zstrtol_underscore_def split_beta Let_def split: if_splits)
  then show ?thesis using zstrtol_loop_index [of 2 2 True "drop 2 s" 0 None] by simp
qed

lemma lex_bin_left:
  assumes "rest_of st = CHR ''0'' # c # cs" "to_lower c = CHR ''b''"
  shows "left (snd (lex_bin C neg (move 2 st))) < left st"
proof -
  obtain v used d where z: "zstrtol_underscore C (rest_of st) 0 True = (v, used, d)"
    by (cases "zstrtol_underscore C (rest_of st) 0 True") auto
  have "2 \<le> used" using zstrtol_used_bin [OF assms z] .
  moreover have "m_pos st < length (m_input st)"
    using assms(1) by (cases "m_pos st < length (m_input st)") (auto simp: rest_of_def)
  moreover have "m_pos (snd (lex_bin C neg (move 2 st))) = m_pos st + used"
    "m_input (snd (lex_bin C neg (move 2 st))) = m_input st"
    using z by (auto simp: lex_bin_def move_def rest_of_def Let_def set_yyval_def set_lastbase_def
        report_def zerr_def split: option.split)
  ultimately show ?thesis by (simp add: left_def)
qed

lemma float_scan_fwd [simp]: "fwd st s \<Longrightarrow> fwd st (float_scan s)"
  by (simp add: float_scan_def Let_def)

lemma length_cut:
  assumes "k \<le> e"
  shows "length (take k s @ filter P (str_slice s k e) @ drop e s) \<le> length s"
proof -
  have "length (filter P (str_slice s k e)) \<le> length (str_slice s k e)" by simp
  moreover have "length (str_slice s k e) \<le> e - k" "length (str_slice s k e) \<le> length s - k"
    by (simp_all add: str_slice_def)
  moreover have "length (take k s) \<le> k" "length (take k s) \<le> length s" by simp_all
  ultimately show ?thesis using assms unfolding length_append length_drop by linarith
qed

lemma left_updates [simp]:
  "left (set_yyval v st) = left st" "left (m_error_set m st) = left st" "left (report d st) = left st"
  "left (set_lastbase b st) = left st" "left (st\<lparr>m_yyval := v\<rparr>) = left st"
  by (simp_all add: left_def set_yyval_def m_error_set_def report_def zerr_def set_lastbase_def
        split: option.split)

lemma float_cut_length: "fwd s0 s \<Longrightarrow> length (m_input (float_cut (m_pos s0) s)) \<le> length (m_input s0)"
  using length_cut [of "m_pos s0" "m_pos (float_scan s)" "m_input (float_scan s)"] float_scan_fwd [of s0 s]
  by (auto simp: float_cut_def Let_def fwd_def)

lemma float_value_left:
  assumes "k < length (m_input s)" "fst (float_value C neg k s) = NUM"
  shows "left (snd (float_value C neg k s)) < length (m_input s) - k"
  using assms by (auto simp: float_value_def Let_def left_def set_yyval_def split: if_splits)

lemma lex_float_left:
  assumes "fwd s0 s" "m_pos s0 < length (m_input s0)" "fst (lex_float C neg (m_pos s0) s) = NUM"
  shows "left (snd (lex_float C neg (m_pos s0) s)) < left s0"
proof -
  let ?c = "float_cut (m_pos s0) s"
  have len: "length (m_input ?c) \<le> length (m_input s0)" by (rule float_cut_length [OF assms(1)])
  show ?thesis
  proof (cases "m_pos s0 < length (m_input ?c)")
    case True
    then show ?thesis
      using float_value_left [OF True, of C neg] assms(3) len by (simp add: lex_float_def left_def)
  next
    case False
    then have "left (snd (lex_float C neg (m_pos s0) s)) = 0"
      using assms(3)
      by (auto simp: lex_float_def float_value_def Let_def left_def set_yyval_def split: if_splits)
    then show ?thesis using assms(2) by (simp add: left_def)
  qed
qed

lemma lex_decimal_left:
  assumes "digit_ahead (rest_of st)" "fst (lex_decimal C neg st) = NUM"
  shows "left (snd (lex_decimal C neg st)) < left st"
proof -
  let ?P = "\<lambda>c. is_digit c \<or> (c = CHR ''_'' \<and> \<not> posix_faithful C \<and> \<not> bash_mode C)"
  let ?s = "skip_while ?P st"
  obtain c cs where r: "rest_of st = c # cs"
    using assms(1) by (cases "rest_of st") (auto simp: digit_ahead_def)
  then have len: "m_pos st < length (m_input st)"
    by (cases "m_pos st < length (m_input st)") (auto simp: rest_of_def)
  have s: "fwd st ?s" by simp
  have based: "left (snd (lex_based C neg (m_pos st) ?s)) < left st"
  proof -
    show ?thesis by (rule fwd_left [OF lex_based_fwd]) (simp_all add: len)
  qed
  have plain: "left (snd (lex_integer C neg (m_pos st) ?s)) < left st" if "\<not> peek_is (CHR ''.'') ?s"
  proof -
    have "0 < span_len ?P (rest_of st)"
    proof (cases "is_digit c")
      case True
      then show ?thesis by (simp add: r span_len_def)
    next
      case False
      then have "c = CHR ''.''" using assms(1) r by (simp add: digit_ahead_def)
      then have "span_len ?P (rest_of st) = 0"
        using False by (simp add: r span_len_def is_digit_def byte_def)
      then have "peek_is (CHR ''.'') ?s"
        using r \<open>c = CHR ''.''\<close> by (simp add: skip_while_def move_def peek_is_def peek_def rest_of_def)
      then show ?thesis using that by simp
    qed
    then have "m_pos st < m_pos ?s" by simp
    moreover have "fwd ?s (snd (lex_integer C neg (m_pos st) ?s))" by simp
    ultimately show ?thesis using fwd_left [of ?s _ st] len by simp
  qed
  show ?thesis
    using assms(2) based plain lex_float_left [OF s len]
    unfolding lex_decimal_def Let_def by (auto split: if_splits)
qed


lemma lexconstant_left:
  assumes "digit_ahead (rest_of st) \<or> (\<exists>r. rest_of st = CHR ''-'' # r \<and> digit_ahead r)"
    and "fst (lexconstant C st) = NUM"
  shows "left (snd (lexconstant C st)) < left st"
proof -
  define neg where "neg = peek_is (CHR ''-'') st"
  define s where "s = (if neg then move 1 st else st)"
  have ahead: "digit_ahead (rest_of s)"
    using assms(1) by (auto simp: s_def neg_def peek_is_def peek_def rest_of_def move_def digit_ahead_def
        is_digit_def byte_def drop_Suc drop_tl split: list.splits)
  have len: "m_pos st < length (m_input st)"
    using assms(1) by (cases "m_pos st < length (m_input st)") (auto simp: rest_of_def digit_ahead_def)
  have ge: "m_pos st \<le> m_pos s" "m_input s = m_input st" by (simp_all add: s_def)
  have left_s: "left s \<le> left st" using ge by (simp add: left_def)
  have L: "lexconstant C st = (if peek_is (CHR ''0'') s then
           let st1 = move 1 s; low = map_option to_lower (peek st1)
           in if low = Some (CHR ''x'') then lex_hex C neg (move 1 st1)
              else if low = Some (CHR ''b'') \<and> \<not> dash_strict C \<and> \<not> posix_faithful C then
                lex_bin C neg (move 1 st1)
              else if low = Some (CHR ''o'') then
                (NUM, set_yyval (int_num C 0) (m_error_set
                   (''bad math expression: operator expected at `'' @ rest_of st1 @ [CHR 0x27]) st1))
              else if m_octal_zeroes st1 then
                (case lex_octal C neg st1 of Some r \<Rightarrow> r | None \<Rightarrow> lex_decimal C neg s)
              else lex_decimal C neg s
         else lex_decimal C neg s)"
    by (simp only: lexconstant_def neg_def s_def Let_def)
  have dec: "fst (lex_decimal C neg s) = NUM \<Longrightarrow> left (snd (lex_decimal C neg s)) < left st"
    using lex_decimal_left [OF ahead] left_s by (meson less_le_trans)
  have fw: "fwd (move 1 s) r \<Longrightarrow> left r < left st" for r
    by (rule fwd_left [of "move 1 s"]) (use ge len in auto)
  have bin: "left (snd (lex_bin C neg (move 2 s))) < left st"
    if z: "peek_is (CHR ''0'') s" and b: "map_option to_lower (peek (move 1 s)) = Some (CHR ''b'')"
  proof -
    obtain c where c: "peek (move 1 s) = Some c" "to_lower c = CHR ''b''"
      using b by auto
    obtain r where r: "rest_of s = CHR ''0'' # r"
      using z by (auto simp: peek_is_def peek_def split: list.splits)
    then have "rest_of (move 1 s) = r"
      by (simp add: rest_of_def move_def drop_Suc drop_tl)
    then obtain cs where "r = c # cs"
      using c(1) by (auto simp: peek_def split: list.splits)
    then show ?thesis using lex_bin_left [of s c cs C neg] r c(2) left_s by simp
  qed
  have oct: "lex_octal C neg (move 1 s) = Some r \<Longrightarrow> left (snd r) < left st" for r
    by (cases r) (auto intro!: fw dest: lex_octal_fwd [where st = "move 1 s"])
  have move2: "move (Suc 0) (move (Suc 0) s) = move 2 s" by (simp add: move_def)
  define P where "P r \<longleftrightarrow> (fst r = NUM \<longrightarrow> left (snd r) < left st)" for r :: "token \<times> ('a, 'b) mstate"
  have P_if: "(b \<Longrightarrow> P x) \<Longrightarrow> (\<not> b \<Longrightarrow> P y) \<Longrightarrow> P (if b then x else y)" for b x y by simp
  have P_oct: "P (case lex_octal C neg (move 1 s) of Some r \<Rightarrow> r | None \<Rightarrow> lex_decimal C neg s)"
    using oct dec by (auto simp: P_def split: option.split)
  have hex: "left (snd (lex_hex C neg (move 1 (move 1 s)))) < left st"
    by (rule fw) simp
  have "P (lexconstant C st)"
    unfolding L Let_def
    by (intro P_if P_oct) (use dec bin hex fw [of "move 1 s"] in \<open>simp_all add: P_def move2\<close>)
  then show ?thesis using assms(2) by (simp add: P_def)
qed

text \<open>A constant is a number or the end of the input.\<close>

definition num_or_eoi :: "token \<times> ('f, 'e) mstate \<Rightarrow> bool" where
  "num_or_eoi r \<longleftrightarrow> fst r = NUM \<or> fst r = EOI"

lemma num_or_eoi_if:
  "num_or_eoi x \<Longrightarrow> num_or_eoi y \<Longrightarrow> num_or_eoi (if b then x else y)"
  by simp

lemma num_or_eoi_pair [simp]: "num_or_eoi (NUM, s)" "num_or_eoi (EOI, s)"
  by (simp_all add: num_or_eoi_def)

lemma num_or_eoi_parts [simp]:
  "num_or_eoi (lex_float C neg k s)" "num_or_eoi (lex_integer C neg k s)"
  "num_or_eoi (lex_hex C neg s)" "num_or_eoi (lex_bin C neg s)"
  "num_or_eoi (lex_based_pdksh C neg k b s)" "num_or_eoi (lex_based_bash C neg k b s)"
  "num_or_eoi (lex_based_zsh C neg b s)"
  unfolding lex_float_def float_value_def lex_integer_def lex_hex_def lex_bin_def lex_based_pdksh_def
    lex_based_bash_def lex_based_zsh_def Let_def split_beta
  by (simp_all split: option.split sum.split)

lemma num_or_eoi_octal: "lex_octal C neg s = Some r \<Longrightarrow> num_or_eoi r"
  by (auto simp: lex_octal_def Let_def split_beta split: if_splits)

lemma num_or_eoi_decimal [simp]: "num_or_eoi (lex_decimal C neg s)"
  by (simp add: lex_decimal_def lex_based_def Let_def split_beta)

lemma lexconstant_token: "num_or_eoi (lexconstant C st)"
  unfolding lexconstant_def Let_def
  by (intro num_or_eoi_if) (auto split: option.split dest: num_or_eoi_octal)

lemma lex_other_left:
  assumes "peek s0 = Some c" "m_pos s0 = k" "m_input s = m_input s0" "m_pos s = k + utf8_width c"
    and "fst (lex_other C c k s) \<noteq> EOI"
  shows "left (snd (lex_other C c k s)) < left s0"
proof -
  have len: "k < length (m_input s0)" using peek_Some_pos [OF assms(1)] assms(2) by simp
  obtain cs where r: "rest_of s0 = c # cs" using assms(1) by (auto simp: peek_def split: list.splits)
  have r': "rest_of (s\<lparr>m_pos := k\<rparr>) = c # cs" using r assms(2,3) by (simp add: rest_of_def)
  have const: "left (snd (lexconstant C (s\<lparr>m_pos := k\<rparr>))) < left s0"
    if "is_digit c \<or> (c = CHR ''.'' \<and> peek_sat is_digit s)" "fst (lexconstant C (s\<lparr>m_pos := k\<rparr>)) \<noteq> EOI"
  proof -
    have "digit_ahead (c # cs)"
    proof (cases "is_digit c")
      case False
      then have c: "c = CHR ''.''" "peek_sat is_digit s" using that by auto
      then have "rest_of s = cs"
        using r assms(2-4) by (simp add: rest_of_def utf8_width_def byte_def drop_Suc drop_tl)
      then show ?thesis using c by (auto simp: digit_ahead_def peek_sat_def peek_def split: list.splits)
    qed (simp add: digit_ahead_def)
    moreover have "fst (lexconstant C (s\<lparr>m_pos := k\<rparr>)) = NUM"
      using that(2) lexconstant_token [of C "s\<lparr>m_pos := k\<rparr>"] by (simp add: num_or_eoi_def)
    ultimately show ?thesis
      using lexconstant_left [of "s\<lparr>m_pos := k\<rparr>" C] r' assms(2,3) by (simp add: left_def)
  qed
  have name: "left (snd (lex_name C k n s)) < left s0" if "n \<noteq> 0" for n
  proof -
    have "fwd (s\<lparr>m_pos := k + n\<rparr>) (snd (lex_name C k n s))"
      unfolding lex_name_def Let_def by (intro fwd_if; simp)
    then show ?thesis by (rule fwd_left) (use that assms(2,3) len in auto)
  qed
  have quoted: "left (snd x) < left s0" if "lex_quoted C s = Some x" for x
  proof -
    have "fwd s (snd x)" using that by (auto simp: lex_quoted_def split: if_splits)
    then show ?thesis by (rule fwd_left) (use assms(2-4) len in auto)
  qed
  show ?thesis
    using assms(5) const name quoted
    unfolding lex_other_def Let_def by (auto split: if_splits option.splits)
qed

subsection \<open>Tokens\<close>

lemma lex_token_left:
  assumes "peek s0 = Some c" "lex_token C c (m_pos s0) ((advance s0)\<lparr>m_tok_start := m_pos s0\<rparr>) = (t, s')"
    and "t \<noteq> Some EOI"
  shows "left s' < left s0"
proof -
  let ?k = "m_pos s0"
  define s where "s = (advance s0)\<lparr>m_tok_start := ?k\<rparr>"
  have len: "?k < length (m_input s0)" by (rule peek_Some_pos [OF assms(1)])
  have pos: "m_pos s = ?k + utf8_width c" "m_input s = m_input s0"
    using assms(1) by (simp_all add: s_def advance_def)
  define P where "P r \<longleftrightarrow> (fst r \<noteq> EOI \<longrightarrow> left (snd r) < left s0)" for r :: "token \<times> ('a, 'b) mstate"
  have P_if: "(b \<Longrightarrow> P x) \<Longrightarrow> (\<not> b \<Longrightarrow> P y) \<Longrightarrow> P (if b then x else y)" for b x y by simp
  have fw: "fwd s r \<Longrightarrow> left r < left s0" for r
    by (rule fwd_left [of s]) (use pos len in auto)
  have P_fwd: "fwd s (snd r) \<Longrightarrow> P r" for r by (simp add: P_def fw)
  have P_minus: "P (lex_minus C s)" if c: "c = CHR ''-''"
  proof -
    obtain cs where r0: "rest_of s0 = CHR ''-'' # cs"
      using assms(1) c by (auto simp: peek_def split: list.splits)
    have p1: "m_pos s = ?k + 1" using pos c by (simp add: utf8_width_def byte_def)
    then have rs: "rest_of s = cs" "rest_of (s\<lparr>m_pos := m_pos s - 1\<rparr>) = CHR ''-'' # cs"
      using r0 pos by (simp_all add: rest_of_def drop_Suc drop_tl)
    have "left (snd (lexconstant C (s\<lparr>m_pos := m_pos s - 1\<rparr>))) < left s0"
      if "digit_ahead (rest_of s)" "fst (lexconstant C (s\<lparr>m_pos := m_pos s - 1\<rparr>)) \<noteq> EOI"
    proof -
      have "fst (lexconstant C (s\<lparr>m_pos := m_pos s - 1\<rparr>)) = NUM"
        using that(2) lexconstant_token [of C "s\<lparr>m_pos := m_pos s - 1\<rparr>"] by (simp add: num_or_eoi_def)
      then show ?thesis
        using lexconstant_left [of "s\<lparr>m_pos := m_pos s - 1\<rparr>" C] rs that(1) pos p1
        by (simp add: left_def)
    qed
    then show ?thesis
      unfolding lex_minus_def Let_def split_beta
      by (intro P_if) (auto simp: P_def intro: fw)
  qed
  have P_other: "P (lex_other C c ?k s)"
    using lex_other_left [OF assms(1) refl pos(2,1)] by (simp add: P_def)
  show ?thesis
  proof (cases "c = CHR ''[''")
    case True
    then have "lex_bracket C s = (t, s')" using assms(2) by (simp add: lex_token_def s_def)
    then have "fwd s s'" using lex_bracket_fwd [of s s C] by simp
    then show ?thesis by (rule fw)
  next
    case False
    obtain t1 where t1: "t = Some t1"
      using assms(2) False by (auto simp: lex_token_def Let_def split: prod.splits)
    have "P (t1, s')"
      using assms(2) [folded s_def] False t1 unfolding lex_token_def Let_def split_beta
      by (simp only: if_False prod.inject option.inject prod.collapse)
        (erule conjE, hypsubst, unfold prod.collapse, intro P_if P_minus P_other, auto intro!: P_fwd)
    then show ?thesis using assms(3) t1 by (simp add: P_def)
  qed
qed

lemma zzlex_loop_left: "fst (zzlex_loop C s) \<noteq> EOI \<Longrightarrow> left (snd (zzlex_loop C s)) < left s"
proof (induction C s rule: zzlex_loop.induct)
  case (1 C s)
  show ?case
  proof (cases "peek s")
    case None
    then show ?thesis using 1 by (simp add: zzlex_loop.simps [of C s])
  next
    case (Some c)
    have adv: "left (advance s) < left s"
      using advance_pos [OF Some] peek_Some_pos [OF Some] by (simp add: left_def diff_less_mono2)
    obtain t s2 where tok: "lex_token C c (m_pos s) ((advance s)\<lparr>m_tok_start := m_pos s\<rparr>) = (t, s2)"
      by (cases "lex_token C c (m_pos s) ((advance s)\<lparr>m_tok_start := m_pos s\<rparr>)")
    note eq = zzlex_loop.simps [of C s, unfolded Some option.case Let_def tok prod.case]
    have left2: "t \<noteq> Some EOI \<Longrightarrow> left s2 < left s" by (rule lex_token_left [OF Some tok])
    show ?thesis
    proof (cases "is_blank c")
      case True
      then show ?thesis using 1 Some adv eq by (auto intro: less_trans)
    next
      case False
      show ?thesis
      proof (cases t)
        case None
        have run: "zzlex_loop C s = zzlex_loop C s2" using eq False None by simp
        have "left (snd (zzlex_loop C s2)) < left s2"
          by (rule 1(2) [OF Some refl False, of None s2]) (use tok None run 1(3) in simp_all)
        then show ?thesis using left2 None run by simp
      next
        case (Some t')
        then show ?thesis using 1 left2 eq False by simp
      qed
    qed
  qed
qed

lemma zzlex_left: "fst (zzlex C st) \<noteq> EOI \<Longrightarrow> left (snd (zzlex C st)) < left st"
  using zzlex_loop_left [of C "set_yyval (int_num C 0) st"] by (simp add: zzlex_def)

section \<open>The interface of the parser to its lexer\<close>

locale math_lexer =
  fixes lx :: "('f, 'e) mstate \<Rightarrow> token \<times> ('f, 'e) mstate"
  assumes lx_ok: "lex_ok st (snd (lx st))"
    and lx_left: "fst (lx st) \<noteq> EOI \<Longrightarrow> left (snd (lx st)) < left st"

interpretation zl: math_lexer "zzlex C"
  by unfold_locales (simp_all add: zzlex_ok zzlex_left)

end
