(* ===== verification/MathFrames.thy ===== *)
theory MathFrames
  imports MathLexFacts
begin

text \<open>
  What the operators and the variable accesses leave alone.  Every nested evaluation runs
  between \<open>save_state\<close> and \<open>restore_state\<close>, so the cursor, the flags, the precedence table
  and the suppression counter \<open>noeval\<close> survive it, whatever the parameter code does.
\<close>

section \<open>The steady part of the state\<close>

definition steady :: "('f, 'e) mstate \<Rightarrow> (string \<times> nat \<times> nat \<times> 'f mnumber \<times> string \<times> token \<times> bool)
    \<times> int \<times> int \<times> nat list \<times> bool \<times> bool \<times> bool \<times> (string \<rightharpoonup> string)" where
  "steady st = ((m_input st, m_pos st, m_tok_start st, m_yyval st, m_yylval st, m_mtok st, m_unary st),
     m_noeval st, m_lastbase st, m_prec st, m_c_precedences st, m_force_float st, m_octal_zeroes st,
     m_string_variables st)"

lemma steady_updates [simp]:
  "steady (st\<lparr>m_stack := x1\<rparr>) = steady st" "steady (st\<lparr>m_error := x2\<rparr>) = steady st"
  "steady (st\<lparr>m_variables := x3\<rparr>) = steady st" "steady (st\<lparr>m_diag := x4\<rparr>) = steady st"
  "steady (st\<lparr>m_env := x5\<rparr>) = steady st" "steady (st\<lparr>m_panic := x6\<rparr>) = steady st"
  "steady (st\<lparr>m_lastmathval := x7\<rparr>) = steady st" "steady (st\<lparr>m_outputradix := x8\<rparr>) = steady st"
  "steady (st\<lparr>m_outputunderscore := x9\<rparr>) = steady st"
  by (simp_all add: steady_def)

lemma steady_helpers [simp]:
  "steady (m_error_set m st) = steady st" "steady (zerr m st) = steady st"
  "steady (m_variables_insert k v st) = steady st" "steady (restore_state s st) = steady s"
  "steady (push v l st) = steady st"
  by (simp_all add: m_error_set_def zerr_def m_variables_insert_def restore_state_def push_def
        steady_def)

lemma stack_helpers [simp]:
  "m_stack (m_error_set m st) = m_stack st" "m_stack (zerr m st) = m_stack st"
  "m_stack (m_variables_insert k v st) = m_stack st" "m_stack (restore_state s st) = m_stack s"
  "m_stack (push v l st) = \<lparr>mv_val = v, mv_lval = l, mv_pval = None\<rparr> # m_stack st"
  by (simp_all add: m_error_set_def zerr_def m_variables_insert_def restore_state_def push_def)

lemma error_helpers [simp]:
  "m_error (zerr m st) = m_error st" "m_error (m_variables_insert k v st) = m_error st"
  "m_error (restore_state s st) = m_error s" "m_error (push v l st) = m_error st"
  by (simp_all add: zerr_def m_variables_insert_def restore_state_def push_def)

text \<open>A run that keeps the steady part and the stack and never replaces an error.\<close>

definition quiet :: "('f, 'e) mstate \<Rightarrow> ('f, 'e) mstate \<Rightarrow> bool" where
  "quiet st s \<longleftrightarrow> steady s = steady st \<and> m_stack s = m_stack st \<and> err_mono st s"

lemma quiet_refl [simp]: "quiet st st"
  by (simp add: quiet_def err_mono_def)

lemma quiet_trans [trans]: "quiet a b \<Longrightarrow> quiet b c \<Longrightarrow> quiet a c"
  by (auto simp: quiet_def err_mono_def)

lemma quiet_steps [simp]:
  "quiet st (zerr m s) = quiet st s" "quiet st (m_variables_insert k v s) = quiet st s"
  "quiet st (s\<lparr>m_env := x\<rparr>) = quiet st s" "quiet st (s\<lparr>m_panic := p\<rparr>) = quiet st s"
  "quiet st (restore_state s s') = quiet st s"
  "quiet st s \<Longrightarrow> quiet st (m_error_set m s)"
  by (auto simp: quiet_def err_mono_def m_error_set_def)

section \<open>Reads\<close>

lemma eval_text_quiet [simp]: "quiet st s \<Longrightarrow> quiet st (snd (eval_text C ev b raw s))"
  by (simp add: eval_text_def split_beta Let_def)

lemma getmathparam_string_quiet [simp]: "quiet st s \<Longrightarrow> quiet st (snd (getmathparam_string C ev b raw s))"
  by (auto simp: getmathparam_string_def split_beta Let_def split: option.split sum.split)

lemma getmathparam_unset_quiet [simp]: "quiet st s \<Longrightarrow> quiet st (snd (getmathparam_unset C name s))"
  by (simp add: getmathparam_unset_def)

lemma getmathparam_text_quiet [simp]:
  assumes "quiet st s"
  shows "quiet st (snd (getmathparam_text C ev name s))"
proof -
  have str: "getmathparam_string C ev b raw (s\<lparr>m_env := e\<rparr>) = (v, s') \<Longrightarrow> quiet st s'" for b raw e v s'
    using getmathparam_string_quiet [of st "s\<lparr>m_env := e\<rparr>" C ev b raw] assms by simp
  have evt: "eval_text C ev b raw s1 = (r, s2) \<Longrightarrow> quiet st s1 \<Longrightarrow> quiet st s2" for b raw s1 r s2
    using eval_text_quiet [of st s1 C ev b raw] by simp
  show ?thesis
    using assms
    by (auto simp: getmathparam_text_def Let_def dest: str split: prod.splits option.splits sum.splits
          intro!: getmathparam_unset_quiet intro: evt)
qed

lemma getmathparam_element_quiet [simp]: "quiet st s \<Longrightarrow> quiet st (snd (getmathparam_element C ev name s))"
  by (simp add: getmathparam_element_def split_beta Let_def split: option.split)

lemma getmathparam_quiet [simp]: "quiet st s \<Longrightarrow> quiet st (snd (getmathparam C ev name s))"
  by (simp add: getmathparam_def getmathparam_raw_def split_beta Let_def split: option.split)

lemma get_value_quiet [simp]: "quiet st s \<Longrightarrow> quiet st (snd (get_value C ev mv s))"
  by (simp add: get_value_def split: option.split)

lemma read_operand_quiet [simp]: "quiet st s \<Longrightarrow> quiet st (snd (read_operand C ev mv s))"
  by (simp add: read_operand_def split: option.split)

lemma matheval_saved_quiet [simp]: "quiet st s \<Longrightarrow> quiet st (snd (matheval_saved C ev x s))"
  by (simp add: matheval_saved_def split_beta)

lemma resolve_lval_quiet [simp]: "quiet st s \<Longrightarrow> quiet st (snd (resolve_lval C ev lv s))"
  using matheval_saved_quiet [of st s C ev]
  by (auto simp: resolve_lval_def split_beta split: option.split prod.split sum.split)

lemma getcvar_quiet [simp]: "quiet st s \<Longrightarrow> quiet st (snd (getcvar C name s))"
  by (simp add: getcvar_def Let_def split: option.split prod.split)

section \<open>Writes\<close>

lemma setmathvar_element_quiet [simp]: "quiet st s \<Longrightarrow> quiet st (snd (setmathvar_element C ev name v s))"
  by (simp add: setmathvar_element_def split_beta Let_def)

lemma setmathvar_quiet [simp]: "quiet st s \<Longrightarrow> quiet st (snd (setmathvar C ev name v p s))"
  by (simp add: setmathvar_def split_beta Let_def)

section \<open>Math functions\<close>

lemma math_args_loop_quiet: "quiet st s \<Longrightarrow> quiet st (snd (math_args_loop C ev n rest out s))"
proof (induction n arbitrary: rest out s)
  case 0
  then show ?case by simp
next
  case (Suc n)
  obtain r s1 where r: "ev MPREC_ARG ((new_state C rest s)\<lparr>m_variables := m_variables s\<rparr>) = (r, s1)"
    by (cases "ev MPREC_ARG ((new_state C rest s)\<lparr>m_variables := m_variables s\<rparr>)")
  have "quiet st (restore_state s s1)" using Suc.prems by simp
  then show ?case
    using Suc.prems by (auto simp: r Let_def Suc.IH split: sum.split list.split)
qed

lemma eval_math_args_quiet [simp]: "quiet st s \<Longrightarrow> quiet st (snd (eval_math_args C ev a s))"
  by (simp only: eval_math_args_def Let_def split: if_split) (simp del: math_args_loop.simps add: math_args_loop_quiet)

lemma call_userfunc_quiet [simp]: "quiet st s \<Longrightarrow> quiet st (snd (call_userfunc C ev f call name a s))"
  unfolding call_userfunc_def Let_def split_beta by (simp split: option.split)

lemma call_modfunc_quiet [simp]: "quiet st s \<Longrightarrow> quiet st (snd (call_modfunc C ev f call name a s))"
  unfolding call_modfunc_def Let_def split_beta by (simp split: option.split)

text \<open>Every branch of a case distinction, whatever it tests.\<close>

lemma quiet_branches:
  "quiet st (snd x) \<Longrightarrow> quiet st (snd y) \<Longrightarrow> quiet st (snd (if b then x else y))"
  "quiet st (snd x) \<Longrightarrow> (\<And>v. quiet st (snd (f v))) \<Longrightarrow> quiet st (snd (case opt of None \<Rightarrow> x | Some v \<Rightarrow> f v))"
  by (simp_all split: option.split)

lemma callmathfunc_quiet [simp]: "quiet st s \<Longrightarrow> quiet st (snd (callmathfunc C ev call s))"
  unfolding callmathfunc_def Let_def split_beta by (intro quiet_branches; simp)

section \<open>Operators\<close>

text \<open>An operator changes the stack, but not the steady part.\<close>

definition calm :: "('f, 'e) mstate \<Rightarrow> ('f, 'e) mstate \<Rightarrow> bool" where
  "calm st s \<longleftrightarrow> steady s = steady st \<and> err_mono st s"

lemma calm_refl [simp]: "calm st st"
  by (simp add: calm_def err_mono_def)

lemma calm_trans [trans]: "calm a b \<Longrightarrow> calm b c \<Longrightarrow> calm a c"
  by (auto simp: calm_def err_mono_def)

lemma calm_steps [simp]:
  "calm st (push v l s) = calm st s" "calm st (s\<lparr>m_stack := x\<rparr>) = calm st s"
  "calm st s \<Longrightarrow> calm st (m_error_set m s)"
  by (auto simp: calm_def err_mono_def m_error_set_def)

lemma quiet_calm: "quiet st s \<Longrightarrow> calm st s"
  by (simp add: quiet_def calm_def)

lemma calm_quiet: "calm st s \<Longrightarrow> quiet s t \<Longrightarrow> calm st t"
  using calm_trans quiet_calm by blast

lemma pop_calm [simp]: "calm st s \<Longrightarrow> calm st (snd (pop C ev s))"
proof (cases "m_stack s")
  case (Cons mv rest)
  assume "calm st s"
  then have "calm st (s\<lparr>m_stack := rest\<rparr>)" by simp
  from calm_quiet [OF this get_value_quiet [OF quiet_refl]] show ?thesis
    by (simp add: pop_def Cons)
qed (simp add: pop_def)

lemma pop_with_lval_calm [simp]: "calm st s \<Longrightarrow> calm st (snd (pop_with_lval C s))"
  by (simp add: pop_with_lval_def split: list.split)

lemma setmathvar_calm [simp]: "calm st s \<Longrightarrow> calm st (snd (setmathvar C ev name v p s))"
  using calm_quiet setmathvar_quiet [OF quiet_refl] by blast

lemma resolve_lval_calm [simp]: "calm st s \<Longrightarrow> calm st (snd (resolve_lval C ev l s))"
  using calm_quiet resolve_lval_quiet [OF quiet_refl] by blast

lemma read_operand_calm [simp]: "calm st s \<Longrightarrow> calm st (snd (read_operand C ev mv s))"
  using calm_quiet read_operand_quiet [OF quiet_refl] by blast

lemma finish_binary_calm [simp]: "calm st s \<Longrightarrow> calm st (finish_binary C ev what lv r s)"
  by (simp add: finish_binary_def split_beta split: option.split)

lemma op_binary_calm [simp]: "calm st s \<Longrightarrow> calm st (op_binary C ev what s)"
  by (simp add: op_binary_def split_beta Let_def split: sum.split)

lemma op_step_calm [simp]:
  "calm st s \<Longrightarrow> calm st (op_postfix C ev up l v s)" "calm st s \<Longrightarrow> calm st (op_prefix C ev up l v s)"
  "calm st s \<Longrightarrow> calm st (op_quest C ev v s)"
  by (simp_all add: op_postfix_def op_prefix_def op_quest_def split_beta Let_def split: option.split)

lemma op_unary_calm [simp]: "calm st s \<Longrightarrow> calm st (op_unary C ev what s)"
  unfolding op_unary_def Let_def split_beta
  by (cases what) simp_all

lemma op_calm [simp]: "calm st s \<Longrightarrow> calm st (op C ev what s)"
  by (simp add: op_def)

lemma getcvar_calm [simp]: "calm st s \<Longrightarrow> calm st (snd (getcvar C name s))"
  using calm_quiet getcvar_quiet [OF quiet_refl] by blast

lemma callmathfunc_calm [simp]: "calm st s \<Longrightarrow> calm st (snd (callmathfunc C ev call s))"
  using calm_quiet callmathfunc_quiet [OF quiet_refl] by blast

lemma push_operand_calm [simp]: "calm st s \<Longrightarrow> calm st (push_operand C ev s)"
  by (simp add: push_operand_def split_beta Let_def)

lemma quest_cond_quiet [simp]: "quiet st s \<Longrightarrow> quiet st (snd (quest_cond C ev s))"
  by (simp add: quest_cond_def split_beta)

text \<open>\<open>bop\<close> raises the suppression counter by at most one.\<close>

lemma bop_calm:
  "calm st ((bop C ev t st)\<lparr>m_noeval := m_noeval st\<rparr>)"
  "m_noeval (bop C ev t st) = m_noeval st \<or> m_noeval (bop C ev t st) = m_noeval st + 1"
  "m_stack (bop C ev t st) = m_stack st"
proof -
  have q: "quiet st (snd (read_operand C ev mv st))" for mv by simp
  have n: "m_noeval (snd (read_operand C ev mv st)) = m_noeval st" for mv
    using q [of mv] by (simp add: quiet_def steady_def)
  have c: "calm st (snd (read_operand C ev mv st)\<lparr>m_noeval := m_noeval st\<rparr>)" for mv
    using q [of mv] by (simp add: quiet_def calm_def steady_def err_mono_def)
  have s: "m_stack (snd (read_operand C ev mv st)) = m_stack st" for mv
    using q [of mv] by (simp add: quiet_def)
  have self: "calm st (st\<lparr>m_noeval := m_noeval st\<rparr>)" by simp
  show "calm st ((bop C ev t st)\<lparr>m_noeval := m_noeval st\<rparr>)"
    using c by (auto simp: bop_def split_beta Let_def split: list.split)
  show "m_noeval (bop C ev t st) = m_noeval st \<or> m_noeval (bop C ev t st) = m_noeval st + 1"
    using n by (auto simp: bop_def split_beta Let_def split: list.split)
  show "m_stack (bop C ev t st) = m_stack st"
    using s by (auto simp: bop_def split_beta Let_def split: list.split)
qed

end
