(* ===== verification/MathCorrect.thy ===== *)
theory MathCorrect
  imports MathFrames
begin

text \<open>
  The parser over any lexer with the laws of \<open>math_lexer\<close>: what a run leaves as it was,
  that it moves forward, that the fuel suffices, and that a run without an error leaves
  exactly one value on the operand stack.  Interpreted at \<open>zzlex\<close>, the facts give the
  theorems about the program.
\<close>

section \<open>One pass of the loop\<close>

text \<open>The tokens fetched by the parser, and the state it then goes on with.\<close>

definition fetch :: "(('f, 'e) mstate \<Rightarrow> token \<times> ('f, 'e) mstate) \<Rightarrow> ('f, 'e) mstate \<Rightarrow> ('f, 'e) mstate" where
  "fetch lx st = checkunary ((snd (lx st))\<lparr>m_mtok := fst (lx st)\<rparr>)"

lemma mathparse_Suc:
  "mathparse C ev lx (Suc n) pc st =
     (if m_error_some st then Some st
      else if pc = top_prec ((snd (lx st))\<lparr>m_mtok := fst (lx st)\<rparr>) \<and> fst (lx st) = EOI
      then Some ((snd (lx st))\<lparr>m_mtok := EOI\<rparr>)
      else mathloop C ev lx n pc (fetch lx st))"
  by (simp add: fetch_def split_beta Let_def)

declare mathparse.simps(2) [simp del] mathloop.simps(2) [simp del]

text \<open>The ways a pass can go; every proof about the loop is by these cases.\<close>

lemma mathloop_cases [consumes 1, case_names exit operand group_error group quest_error
    colon_error quest orphan operator]:
  assumes "mathloop C ev lx (Suc n) pc st = Some s"
  obtains "s = st" "pc < prec_of (m_prec st) (m_mtok st) \<or> m_error_some st"
  | "prec_of (m_prec st) (m_mtok st) \<le> pc" "\<not> m_error_some st" "is_operand_token (m_mtok st)"
    "mathloop C ev lx n pc (fetch lx (push_operand C ev st)) = Some s"
  | s1 m where "\<not> m_error_some st" "m_mtok st = M_INPAR" "mathparse C ev lx n (top_prec st) st = Some s1"
    "s = m_error_set m s1"
  | s1 where "prec_of (m_prec st) (m_mtok st) \<le> pc" "\<not> m_error_some st" "m_mtok st = M_INPAR"
    "mathparse C ev lx n (top_prec st) st = Some s1" "m_mtok s1 = M_OUTPAR"
    "mathloop C ev lx n pc (fetch lx s1) = Some s"
  | m where "\<not> m_error_some st" "m_mtok st = QUEST" "m_stack st = []" "s = m_error_set m st"
  | q s1 s2 where "\<not> m_error_some st" "m_mtok st = QUEST" "m_stack st \<noteq> []"
    "quest_cond C ev st = (q, s1)"
    "mathparse C ev lx n (middle_prec C (noeval_inc (\<not> q) s1)) (middle_table C (noeval_inc (\<not> q) s1)) = Some s2"
    "s = no_colon (length (m_stack (noeval_inc (\<not> q) s1)))
           (noeval_dec (\<not> q) (middle_restore C (noeval_inc (\<not> q) s1) s2))"
  | q s1 s2 s3 s4 where "prec_of (m_prec st) (m_mtok st) \<le> pc" "\<not> m_error_some st" "m_mtok st = QUEST"
    "m_stack st \<noteq> []" "quest_cond C ev st = (q, s1)"
    "mathparse C ev lx n (middle_prec C (noeval_inc (\<not> q) s1)) (middle_table C (noeval_inc (\<not> q) s1)) = Some s2"
    "m_mtok s2 = COLON"
    "s3 = noeval_inc q (noeval_dec (\<not> q) (middle_restore C (noeval_inc (\<not> q) s1) s2))"
    "mathparse C ev lx n (else_prec C s3) s3 = Some s4"
    "mathloop C ev lx n pc (op C ev QUEST (noeval_dec q s4)) = Some s"
  | m where "\<not> m_error_some st" "orphan_binary (m_mtok st) st" "s = m_error_set m st"
  | t s1 s2 where "prec_of (m_prec st) t \<le> pc" "\<not> m_error_some st" "t = m_mtok st"
    "\<not> is_operand_token t" "t \<noteq> M_INPAR" "t \<noteq> QUEST" "\<not> orphan_binary t st"
    "s1 = (if is_bool t then bop C ev t st else st)"
    "mathparse C ev lx n (right_prec (m_prec s1) t) s1 = Some s2"
    "mathloop C ev lx n pc (op C ev t (s2\<lparr>m_noeval := m_noeval st\<rparr>)) = Some s"
proof -
  let ?t = "m_mtok st"
  note run = assms [unfolded mathloop.simps Let_def]
  have mtok: "m_mtok (noeval_dec b (middle_restore C u v)) = m_mtok v" for b and u v :: "('a, 'b) mstate"
    by (simp add: noeval_dec_def middle_restore_def)
  consider "pc < prec_of (m_prec st) ?t \<or> m_error_some st"
    | "prec_of (m_prec st) ?t \<le> pc" "\<not> m_error_some st" "is_operand_token ?t"
    | "prec_of (m_prec st) ?t \<le> pc" "\<not> m_error_some st" "?t = M_INPAR"
    | "prec_of (m_prec st) ?t \<le> pc" "\<not> m_error_some st" "?t = QUEST"
    | "prec_of (m_prec st) ?t \<le> pc" "\<not> m_error_some st"
      "\<not> is_operand_token ?t" "?t \<noteq> M_INPAR" "?t \<noteq> QUEST"
    using not_le by blast
  then show thesis
  proof cases
    case 1
    then show ?thesis using run that(1) by (auto split: if_splits)
  next
    case 2
    then show ?thesis using run that(2) by (simp add: fetch_def split_beta)
  next
    case 3
    then show ?thesis using run that(3,4)
      by (auto simp: fetch_def split_beta is_operand_token_def split: option.splits if_splits)
  next
    case 4
    then show ?thesis using run that(5,6,7)
      by (auto simp: is_operand_token_def mtok split: option.splits if_splits prod.splits)
  next
    case 5
    show ?thesis
    proof (cases "orphan_binary ?t st")
      case True
      then show ?thesis using run 5 that(8) by (auto split: if_splits)
    next
      case False
      then show ?thesis using run 5 that(9) [OF 5(1,2) refl 5(3-5) False refl]
        by (simp split: option.splits)
    qed
  qed
qed

section \<open>What a run keeps\<close>

definition modes :: "('f, 'e) mstate \<Rightarrow> int \<times> nat list \<times> bool \<times> bool \<times> bool \<times> (string \<rightharpoonup> string)" where
  "modes st = (m_noeval st, m_prec st, m_c_precedences st, m_force_float st, m_octal_zeroes st,
     m_string_variables st)"

text \<open>The modes are as before and no error has been replaced.\<close>

definition ran :: "('f, 'e) mstate \<Rightarrow> ('f, 'e) mstate \<Rightarrow> bool" where
  "ran st s \<longleftrightarrow> modes s = modes st \<and> err_mono st s"

lemma ran_refl [simp]: "ran st st"
  by (simp add: ran_def err_mono_def)

lemma ran_trans [trans]: "ran a b \<Longrightarrow> ran b c \<Longrightarrow> ran a c"
  by (auto simp: ran_def err_mono_def)

lemma ran_steps [simp]:
  "ran st (s\<lparr>m_mtok := t\<rparr>) = ran st s" "ran st (s\<lparr>m_unary := u\<rparr>) = ran st s"
  "ran st s \<Longrightarrow> ran st (m_error_set m s)"
  by (auto simp: ran_def err_mono_def modes_def m_error_set_def)

lemma calm_ran: "calm st s \<Longrightarrow> ran st s"
  by (simp add: calm_def ran_def steady_def modes_def)

lemma lex_ok_ran: "lex_ok st s \<Longrightarrow> ran st s"
  by (simp add: lex_ok_def ran_def kept_def modes_def)

lemma ran_op [simp]: "ran st s \<Longrightarrow> ran st (op C ev t s)"
  using calm_ran [OF op_calm [OF calm_refl]] ran_trans by blast

lemma ran_push_operand [simp]: "ran st s \<Longrightarrow> ran st (push_operand C ev s)"
  using calm_ran [OF push_operand_calm [OF calm_refl]] ran_trans by blast

lemma ran_checkunary [simp]: "ran st s \<Longrightarrow> ran st (checkunary s)"
  by (simp add: checkunary_def Let_def)

text \<open>The temporary changes of \<open>?:\<close> and of the boolean operators are undone.\<close>

lemma quest_cond_ran: "quest_cond C ev st = (q, s) \<Longrightarrow> ran st s \<and> m_stack s = m_stack st
    \<and> steady s = steady st"
  using quest_cond_quiet [of st st C ev] calm_ran [OF quiet_calm] by (fastforce simp: quiet_def)

lemma ran_middle:
  assumes "ran st s1" "ran (middle_table C (noeval_inc b s1)) s2"
  shows "ran st (noeval_dec b (middle_restore C (noeval_inc b s1) s2))"
    and "ran st (m_error_set m (noeval_dec b (middle_restore C (noeval_inc b s1) s2)))"
proof -
  show 1: "ran st (noeval_dec b (middle_restore C (noeval_inc b s1) s2))"
    using assms by (cases b)
      (auto simp: ran_def err_mono_def modes_def middle_table_def middle_restore_def noeval_inc_def
        noeval_dec_def split: if_splits)
  show "ran st (m_error_set m (noeval_dec b (middle_restore C (noeval_inc b s1) s2)))"
    using 1 by simp
qed

lemma ran_else: "ran st s3 \<Longrightarrow> ran (noeval_inc q s3) s4 \<Longrightarrow> ran st (noeval_dec q s4)"
  by (cases q) (auto simp: ran_def err_mono_def modes_def noeval_inc_def noeval_dec_def)

lemma ran_right:
  assumes "s1 = (if is_bool t then bop C ev t st else st)" "ran s1 s2"
  shows "ran st (s2\<lparr>m_noeval := m_noeval st\<rparr>)"
proof -
  have "ran st (s1\<lparr>m_noeval := m_noeval st\<rparr>)"
    using calm_ran [OF bop_calm(1) [where st = st]] assms(1) by simp
  then show ?thesis
    using assms(2) by (auto simp: ran_def err_mono_def modes_def)
qed

context math_lexer
begin

lemma lx_ran: "ran st (snd (lx st))"
  by (rule lex_ok_ran [OF lx_ok])

lemma fetch_ran [simp]: "ran st s \<Longrightarrow> ran st (fetch lx s)"
  using ran_trans [OF _ lx_ran] by (simp add: fetch_def)

text \<open>A run of the parser leaves the suppression counter, the precedence table and the
  options as they were and reports the first error, whatever the nested evaluations,
  the parameter code and the functions do.\<close>

lemma parser_ran:
  "(\<forall>pc st s. mathparse C ev lx n pc st = Some s \<longrightarrow> ran st s) \<and>
   (\<forall>pc st s. mathloop C ev lx n pc st = Some s \<longrightarrow> ran st s)"
proof (induction n)
  case 0
  show ?case by simp
next
  case (Suc n)
  have parse: "ran st s" if "mathparse C ev lx n pc st = Some s" for pc st s
    using Suc that by blast
  have loop: "ran st s" if "mathloop C ev lx n pc st' = Some s" "ran st st'" for pc st st' s
    using Suc that ran_trans by blast
  have "ran st s" if "mathparse C ev lx (Suc n) pc st = Some s" for pc st s
    using that loop [of pc "fetch lx st" s st] lx_ran [of st] by (auto simp: mathparse_Suc split: if_splits)
  moreover have "ran st s" if "mathloop C ev lx (Suc n) pc st = Some s" for pc st s
    using that
  proof (cases rule: mathloop_cases)
    case exit
    then show ?thesis by simp
  next
    case operand
    then show ?thesis using loop by simp
  next
    case (group_error s1 m)
    then show ?thesis using parse by simp
  next
    case (group s1)
    then show ?thesis using loop parse by simp
  next
    case (quest_error m)
    then show ?thesis by simp
  next
    case (colon_error q s1 s2)
    show ?thesis
      unfolding colon_error(6) no_colon_def
      using quest_cond_ran [OF colon_error(4)] parse [OF colon_error(5)] by (intro ran_middle(2)) auto
  next
    case (quest q s1 s2 s3 s4)
    have "ran st (noeval_dec (\<not> q) (middle_restore C (noeval_inc (\<not> q) s1) s2))"
      using ran_middle(1) quest_cond_ran [OF quest(5)] parse [OF quest(6)] by blast
    from ran_else [OF this parse [OF quest(9), unfolded quest(8)]] show ?thesis
      using loop [OF quest(10)] by simp
  next
    case (orphan m)
    then show ?thesis by simp
  next
    case (operator t s1 s2)
    from ran_right [OF operator(8) parse [OF operator(9)]] show ?thesis
      using loop [OF operator(10)] by simp
  qed
  ultimately show ?case by blast
qed

end

section \<open>Progress\<close>

lemma calm_steady: "calm st s \<Longrightarrow> steady s = steady st"
  by (simp add: calm_def)

lemma steady_fields:
  assumes "steady s = steady st"
  shows "m_mtok s = m_mtok st" "left s = left st" "m_unary s = m_unary st" "m_prec s = m_prec st"
    "m_noeval s = m_noeval st"
  using assms by (simp_all add: steady_def left_def)

lemmas calm_fields = steady_fields [OF calm_steady]

lemma op_fields [simp]:
  "m_mtok (op C ev t s) = m_mtok s" "left (op C ev t s) = left s" "m_unary (op C ev t s) = m_unary s"
  "m_prec (op C ev t s) = m_prec s"
  by (simp_all add: calm_fields [OF op_calm [OF calm_refl]])

lemma push_operand_fields [simp]:
  "m_mtok (push_operand C ev s) = m_mtok s" "left (push_operand C ev s) = left s"
  "m_unary (push_operand C ev s) = m_unary s" "m_prec (push_operand C ev s) = m_prec s"
  by (simp_all add: calm_fields [OF push_operand_calm [OF calm_refl]])

lemma bop_fields:
  "m_mtok (bop C ev t s) = m_mtok s" "left (bop C ev t s) = left s" "m_prec (bop C ev t s) = m_prec s"
  "m_unary (bop C ev t s) = m_unary s"
  using calm_fields [OF bop_calm(1) [of s C ev t]] by (auto simp: left_def)

lemma left_state [simp]:
  "left (s\<lparr>m_noeval := x1\<rparr>) = left s" "left (s\<lparr>m_prec := x2\<rparr>) = left s"
  "left (s\<lparr>m_mtok := x3\<rparr>) = left s" "left (s\<lparr>m_unary := x4\<rparr>) = left s"
  "left (m_error_set m s) = left s"
  by (simp_all add: left_def m_error_set_def)

lemma error_set_fields [simp]:
  "m_mtok (m_error_set m s) = m_mtok s" "m_unary (m_error_set m s) = m_unary s"
  "m_prec (m_error_set m s) = m_prec s" "m_error_some (m_error_set m s)"
  by (simp_all add: m_error_set_def m_error_some_def)

lemma checkunary_fields [simp]:
  "m_mtok (checkunary s) = m_mtok s" "left (checkunary s) = left s"
  by (simp_all add: checkunary_def Let_def)

lemma noeval_fields [simp]:
  "left (noeval_inc b s) = left s" "left (noeval_dec b s) = left s"
  "m_mtok (noeval_inc b s) = m_mtok s" "m_mtok (noeval_dec b s) = m_mtok s"
  "m_prec (noeval_inc b s) = m_prec s" "m_prec (noeval_dec b s) = m_prec s"
  "m_stack (noeval_inc b s) = m_stack s" "m_stack (noeval_dec b s) = m_stack s"
  "m_unary (noeval_inc b s) = m_unary s" "m_unary (noeval_dec b s) = m_unary s"
  "m_error (noeval_inc b s) = m_error s" "m_error (noeval_dec b s) = m_error s"
  by (simp_all add: noeval_inc_def noeval_dec_def)

lemma middle_fields [simp]:
  "left (middle_table C s) = left s" "left (middle_restore C s t) = left t"
  "m_mtok (middle_table C s) = m_mtok s" "m_mtok (middle_restore C s t) = m_mtok t"
  "m_stack (middle_table C s) = m_stack s" "m_stack (middle_restore C s t) = m_stack t"
  "m_unary (middle_table C s) = m_unary s" "m_unary (middle_restore C s t) = m_unary t"
  "m_error (middle_table C s) = m_error s" "m_error (middle_restore C s t) = m_error t"
  by (simp_all add: middle_table_def middle_restore_def)

lemma middle_tables: "m_prec s \<in> tables \<Longrightarrow> m_prec (middle_table C s) \<in> tables"
  by (simp add: middle_table_def)

text \<open>The levels the parser is entered with.\<close>

definition level :: "nat \<Rightarrow> bool" where
  "level pc \<longleftrightarrow> 2 \<le> pc \<and> pc \<le> 19"

lemma level_parts:
  assumes "m_prec s \<in> tables"
  shows "level (top_prec s)" "level (middle_prec C s)" "level (else_prec C s)"
    and "level pc \<Longrightarrow> prec_of (m_prec s) t \<le> pc \<Longrightarrow> \<not> is_operand_token t \<Longrightarrow> t \<noteq> M_INPAR \<Longrightarrow>
           level (right_prec (m_prec s) t)"
proof -
  show "level (top_prec s)" using prec_levels [OF assms] by (simp add: level_def top_prec_def)
  show "level (middle_prec C s)"
    using prec_levels [OF assms] prec_levels [OF middle_tables [OF assms, of C]]
    by (auto simp: level_def middle_prec_def)
  show "level (else_prec C s)" using prec_levels [OF assms] by (simp add: level_def else_prec_def)
  show "level pc \<Longrightarrow> prec_of (m_prec s) t \<le> pc \<Longrightarrow> \<not> is_operand_token t \<Longrightarrow> t \<noteq> M_INPAR \<Longrightarrow>
           level (right_prec (m_prec s) t)"
    using prec_right_ge [OF assms, of t] by (auto simp: level_def right_prec_def)
qed

lemma level_exit: "P \<in> tables \<Longrightarrow> level pc \<Longrightarrow> pc < prec_of P EOI \<and> pc < prec_of P M_OUTPAR"
  using prec_exit [of P] by (simp add: level_def)

lemma mathloop_exit:
  "m_prec st \<in> tables \<Longrightarrow> level pc \<Longrightarrow> m_mtok st = EOI \<or> m_error_some st \<Longrightarrow> mathloop C ev lx (Suc n) pc st = Some st"
  using level_exit [of "m_prec st" pc] by (auto simp: mathloop.simps)

lemma mathloop_stay:
  assumes "mathloop C ev lx n pc st = Some s" "m_prec st \<in> tables" "level pc" "m_mtok st = EOI \<or> m_error_some st"
  shows "s = st"
  using assms mathloop_exit [of st pc C ev lx] by (cases n) auto

text \<open>Where a pass that runs out of fuel does so.\<close>

lemma mathloop_None_cases [consumes 1, case_names operand group1 group2 middle other rest right operator]:
  assumes "mathloop C ev lx (Suc n) pc st = None"
  obtains "\<not> m_error_some st" "mathloop C ev lx n pc (fetch lx (push_operand C ev st)) = None"
  | "\<not> m_error_some st" "mathparse C ev lx n (top_prec st) st = None"
  | s1 where "\<not> m_error_some st" "mathparse C ev lx n (top_prec st) st = Some s1"
    "m_mtok s1 = M_OUTPAR" "mathloop C ev lx n pc (fetch lx s1) = None"
  | q s1 where "\<not> m_error_some st" "quest_cond C ev st = (q, s1)"
    "mathparse C ev lx n (middle_prec C (noeval_inc (\<not> q) s1)) (middle_table C (noeval_inc (\<not> q) s1)) = None"
  | q s1 s2 s3 where "\<not> m_error_some st" "quest_cond C ev st = (q, s1)"
    "mathparse C ev lx n (middle_prec C (noeval_inc (\<not> q) s1)) (middle_table C (noeval_inc (\<not> q) s1)) = Some s2"
    "m_mtok s2 = COLON"
    "s3 = noeval_inc q (noeval_dec (\<not> q) (middle_restore C (noeval_inc (\<not> q) s1) s2))"
    "mathparse C ev lx n (else_prec C s3) s3 = None"
  | q s1 s2 s3 s4 where "\<not> m_error_some st" "quest_cond C ev st = (q, s1)"
    "mathparse C ev lx n (middle_prec C (noeval_inc (\<not> q) s1)) (middle_table C (noeval_inc (\<not> q) s1)) = Some s2"
    "m_mtok s2 = COLON"
    "s3 = noeval_inc q (noeval_dec (\<not> q) (middle_restore C (noeval_inc (\<not> q) s1) s2))"
    "mathparse C ev lx n (else_prec C s3) s3 = Some s4"
    "mathloop C ev lx n pc (op C ev QUEST (noeval_dec q s4)) = None"
  | t s1 where "\<not> m_error_some st" "prec_of (m_prec st) t \<le> pc" "\<not> is_operand_token t" "t \<noteq> M_INPAR"
    "s1 = (if is_bool t then bop C ev t st else st)"
    "mathparse C ev lx n (right_prec (m_prec s1) t) s1 = None"
  | t s1 s2 where "\<not> m_error_some st" "prec_of (m_prec st) t \<le> pc" "\<not> is_operand_token t" "t \<noteq> M_INPAR"
    "s1 = (if is_bool t then bop C ev t st else st)"
    "mathparse C ev lx n (right_prec (m_prec s1) t) s1 = Some s2"
    "mathloop C ev lx n pc (op C ev t (s2\<lparr>m_noeval := m_noeval st\<rparr>)) = None"
proof -
  let ?t = "m_mtok st"
  note run = assms [unfolded mathloop.simps Let_def]
  have go: "prec_of (m_prec st) ?t \<le> pc" "\<not> m_error_some st"
    using run by (auto split: if_splits)
  consider "is_operand_token ?t" | "?t = M_INPAR" | "?t = QUEST"
    | "\<not> is_operand_token ?t" "?t \<noteq> M_INPAR" "?t \<noteq> QUEST" by blast
  then show thesis
  proof cases
    case 1
    then show ?thesis using run go that(1) by (simp add: fetch_def split_beta)
  next
    case 2
    then show ?thesis using run go that(2,3)
      by (auto simp: fetch_def split_beta is_operand_token_def split: option.splits if_splits)
  next
    case 3
    then show ?thesis using run go that(4,5,6)
      by (auto simp: is_operand_token_def split: option.splits if_splits prod.splits)
  next
    case 4
    then show ?thesis using run go that(7) [OF go(2,1) 4(1,2) refl] that(8) [OF go(2,1) 4(1,2) refl]
      by (auto split: option.splits if_splits)
  qed
qed

context math_lexer
begin

lemma fetch_left: "m_mtok (fetch lx s) = EOI \<or> left (fetch lx s) < left s"
  using lx_left [of s] by (auto simp: fetch_def)

lemma fetch_prec [simp]: "m_prec (fetch lx s) = m_prec s"
  using fetch_ran [OF ran_refl, of s] by (simp add: ran_def modes_def)

lemma parse_prec: "mathparse C ev lx n pc st = Some s \<Longrightarrow> m_prec s = m_prec st"
  using parser_ran [of C ev n] by (auto simp: ran_def modes_def)

lemma parse_error: "mathparse C ev lx n pc st = Some s \<Longrightarrow> m_error_some st \<Longrightarrow> m_error_some s"
  using parser_ran [of C ev n] by (auto simp: ran_def err_mono_def m_error_some_def)

lemma loop_error: "mathloop C ev lx n pc st = Some s \<Longrightarrow> m_error_some st \<Longrightarrow> m_error_some s"
  using parser_ran [of C ev n] unfolding ran_def err_mono_def m_error_some_def by metis

lemma fetch_error: "m_error_some s \<Longrightarrow> m_error_some (fetch lx s)"
  using fetch_ran [OF ran_refl, of s] by (auto simp: ran_def err_mono_def m_error_some_def)

lemma op_error: "m_error_some s \<Longrightarrow> op C ev t s = s"
  by (simp add: op_def)

lemma bop_prec: "m_prec (if b then bop C ev t st else st) = m_prec st"
  by (simp add: bop_fields)

lemma quest_prec:
  assumes "quest_cond C ev st = (q, s1)"
  shows "m_prec s1 = m_prec st" "left s1 = left st"
  using quest_cond_ran [OF assms] steady_fields [of s1 st] by auto

lemma middle_back: "mathparse C ev lx n pc (middle_table C s1) = Some s2 \<Longrightarrow>
    m_prec (middle_restore C s1 s2) = m_prec s1"
  using parse_prec by (fastforce simp: middle_restore_def middle_table_def)

text \<open>Each call consumes input, meets its end or stops at an error.\<close>

definition done_or_less :: "('f, 'e) mstate \<Rightarrow> ('f, 'e) mstate \<Rightarrow> bool" where
  "done_or_less st s \<longleftrightarrow> m_mtok s = EOI \<or> m_error_some s \<or> left s < left st"

definition done_or_le :: "('f, 'e) mstate \<Rightarrow> ('f, 'e) mstate \<Rightarrow> bool" where
  "done_or_le st s \<longleftrightarrow> m_mtok s = EOI \<or> m_error_some s \<or> left s \<le> left st"

lemma parser_left:
  "(\<forall>pc st s. m_prec st \<in> tables \<longrightarrow> level pc \<longrightarrow> mathparse C ev lx n pc st = Some s \<longrightarrow> done_or_less st s) \<and>
   (\<forall>pc st s. m_prec st \<in> tables \<longrightarrow> level pc \<longrightarrow> mathloop C ev lx n pc st = Some s \<longrightarrow> done_or_le st s)"
proof (induction n)
  case 0
  show ?case by simp
next
  case (Suc n)
  have parse: "done_or_less st s"
    if "mathparse C ev lx n pc st = Some s" "m_prec st \<in> tables" "level pc" for pc st s
    using Suc that by blast
  have loop: "done_or_le st s"
    if run: "mathloop C ev lx n pc st' = Some s" and "m_prec st' \<in> tables" "level pc"
      "m_mtok st' = EOI \<or> m_error_some st' \<or> left st' \<le> left st" for pc st st' s
  proof (cases "m_mtok st' = EOI \<or> m_error_some st'")
    case True
    then have "s = st'" using mathloop_stay that by blast
    then show ?thesis using that by (simp add: done_or_le_def)
  next
    case False
    moreover have "done_or_le st' s" using Suc that by blast
    ultimately show ?thesis using that(4) by (auto simp: done_or_le_def)
  qed
  have "done_or_less st s"
    if "mathparse C ev lx (Suc n) pc st = Some s" "m_prec st \<in> tables" "level pc" for pc st s
    using that loop [of pc "fetch lx st" s "fetch lx st"] fetch_left [of st]
      mathloop_stay [of C ev lx n pc "fetch lx st" s]
    by (auto simp: mathparse_Suc done_or_less_def done_or_le_def split: if_splits)
  moreover have "done_or_le st s"
    if run: "mathloop C ev lx (Suc n) pc st = Some s" and P: "m_prec st \<in> tables" and lv: "level pc" for pc st s
    using run
  proof (cases rule: mathloop_cases)
    case exit
    then show ?thesis by (simp add: done_or_le_def)
  next
    case operand
    show ?thesis
      by (rule loop [OF operand(4) _ lv]) (use fetch_left [of "push_operand C ev st"] P in auto)
  next
    case (group_error s1 m)
    then show ?thesis by (simp add: done_or_le_def)
  next
    case (group s1)
    show ?thesis
      by (rule loop [OF group(6) _ lv])
        (use parse [OF group(4) P] level_parts(1) [OF P] fetch_left [of s1] fetch_error [of s1]
           parse_prec [OF group(4)] P group(5) in \<open>auto simp: done_or_less_def\<close>)
  next
    case (quest_error m)
    then show ?thesis by (simp add: done_or_le_def)
  next
    case (colon_error q s1 s2)
    then show ?thesis by (simp add: done_or_le_def no_colon_def)
  next
    case (quest q s1 s2 s3 s4)
    note p = quest_prec [OF quest(5)]
    let ?m = "noeval_inc (\<not> q) s1"
    have "done_or_less (middle_table C ?m) s2"
      by (rule parse [OF quest(6)]) (use P p in \<open>auto intro: middle_tables level_parts\<close>)
    then have s2: "m_error_some s2 \<or> left s2 < left st" using p quest(7) by (simp add: done_or_less_def)
    have prec3: "m_prec s3 = m_prec st" using middle_back [OF quest(6)] p quest(8) by simp
    have s3: "left s3 = left s2" "m_error s3 = m_error s2" by (simp_all add: quest(8))
    have "done_or_less s3 s4"
      by (rule parse [OF quest(9)]) (use P prec3 in \<open>auto intro: level_parts\<close>)
    then have s4: "m_mtok s4 = EOI \<or> m_error_some s4 \<or> left s4 \<le> left st"
      using s2 s3 parse_error [OF quest(9)] by (auto simp: done_or_less_def m_error_some_def)
    show ?thesis
    proof (rule loop [OF quest(10) _ lv])
      show "m_prec (op C ev QUEST (noeval_dec q s4)) \<in> tables"
        using parse_prec [OF quest(9)] prec3 P by simp
      show "m_mtok (op C ev QUEST (noeval_dec q s4)) = EOI \<or> m_error_some (op C ev QUEST (noeval_dec q s4)) \<or>
          left (op C ev QUEST (noeval_dec q s4)) \<le> left st"
        using s4 op_error [of "noeval_dec q s4" C ev QUEST] by (auto simp: m_error_some_def)
    qed
  next
    case (orphan m)
    then show ?thesis by (simp add: done_or_le_def)
  next
    case (operator t s1 s2)
    have p: "m_prec s1 = m_prec st" "left s1 = left st" by (simp_all add: operator(8) bop_fields)
    have "done_or_less s1 s2"
      by (rule parse [OF operator(9)]) (use P p operator(1,3-5) lv in \<open>auto intro: level_parts\<close>)
    then have s2: "m_mtok s2 = EOI \<or> m_error_some s2 \<or> left s2 < left st" using p by (simp add: done_or_less_def)
    let ?s = "s2\<lparr>m_noeval := m_noeval st\<rparr>"
    show ?thesis
    proof (rule loop [OF operator(10) _ lv])
      show "m_prec (op C ev t ?s) \<in> tables"
        using parse_prec [OF operator(9)] p P by simp
      show "m_mtok (op C ev t ?s) = EOI \<or> m_error_some (op C ev t ?s) \<or> left (op C ev t ?s) \<le> left st"
        using s2 op_error [of ?s C ev t] by (auto simp: m_error_some_def)
    qed
  qed
  ultimately show ?case by blast
qed

end

section \<open>The fuel suffices\<close>

context math_lexer
begin

lemma parser_fuel:
  "(\<forall>pc st. m_prec st \<in> tables \<longrightarrow> level pc \<longrightarrow> 2 * left st + 2 \<le> n \<longrightarrow> mathparse C ev lx n pc st \<noteq> None) \<and>
   (\<forall>pc st. m_prec st \<in> tables \<longrightarrow> level pc \<longrightarrow>
      2 * left st + 3 \<le> n \<or> (m_mtok st = EOI \<or> m_error_some st) \<and> 1 \<le> n \<longrightarrow> mathloop C ev lx n pc st \<noteq> None)"
proof (induction n)
  case 0
  show ?case by simp
next
  case (Suc n)
  have parse: "2 * left st + 2 \<le> n \<Longrightarrow> m_prec st \<in> tables \<Longrightarrow> level pc \<Longrightarrow> mathparse C ev lx n pc st \<noteq> None" for pc st
    using Suc by blast
  have loop: "m_mtok st = EOI \<or> m_error_some st \<or> 2 * left st + 3 \<le> n \<Longrightarrow> 1 \<le> n \<Longrightarrow>
      m_prec st \<in> tables \<Longrightarrow> level pc \<Longrightarrow> mathloop C ev lx n pc st \<noteq> None" for pc st
    using Suc by blast
  have left: "done_or_less st s"
    if "mathparse C ev lx n pc st = Some s" "m_prec st \<in> tables" "level pc" for pc st s
    using parser_left that by blast
  have "mathparse C ev lx (Suc n) pc st \<noteq> None"
    if "m_prec st \<in> tables" "level pc" "2 * left st + 2 \<le> Suc n" for pc st
    using that loop [of "fetch lx st" pc] fetch_left [of st] by (auto simp: mathparse_Suc)
  moreover have "mathloop C ev lx (Suc n) pc st \<noteq> None"
    if P: "m_prec st \<in> tables" and lv: "level pc"
      and f: "2 * left st + 3 \<le> Suc n \<or> (m_mtok st = EOI \<or> m_error_some st) \<and> 1 \<le> Suc n" for pc st
  proof (cases "m_mtok st = EOI \<or> m_error_some st")
    case True
    then show ?thesis using mathloop_exit [OF P lv] by simp
  next
    case False
    then have fuel: "2 * left st + 2 \<le> n" using f by simp
    show ?thesis
    proof (rule notI)
      assume "mathloop C ev lx (Suc n) pc st = None"
      then show False
      proof (cases rule: mathloop_None_cases)
        case operand
        then show False using loop [of "fetch lx (push_operand C ev st)" pc]
            fetch_left [of "push_operand C ev st"] fuel P lv by auto
      next
        case group1
        then show False using parse fuel P level_parts(1) [OF P] by blast
      next
        case (group2 s1)
        then show False using loop [of "fetch lx s1" pc] left [OF group2(2) P level_parts(1) [OF P]]
            fetch_left [of s1] fetch_error [of s1] parse_prec [OF group2(2)] P lv fuel
          by (auto simp: done_or_less_def)
      next
        case (middle q s1)
        let ?m = "noeval_inc (\<not> q) s1"
        have "m_prec ?m \<in> tables" "left ?m = left st" using quest_prec [OF middle(2)] P by simp_all
        then show False
          using parse [of "middle_table C ?m" "middle_prec C ?m"] middle(3) fuel level_parts(2) [of ?m C]
            middle_tables [of ?m C] by simp
      next
        case (other q s1 s2 s3)
        note p = quest_prec [OF other(2)]
        have "done_or_less (middle_table C (noeval_inc (\<not> q) s1)) s2"
          by (rule left [OF other(3)]) (use P p in \<open>auto intro: middle_tables level_parts\<close>)
        then have s2: "m_error_some s2 \<or> left s2 < left st" using p other(4) by (simp add: done_or_less_def)
        have prec3: "m_prec s3 = m_prec st" using middle_back [OF other(3)] p other(5) by simp
        have s3: "left s3 = left s2" "m_error s3 = m_error s2" by (simp_all add: other(5))
        have err: "m_error_some s3 \<Longrightarrow> mathparse C ev lx n (else_prec C s3) s3 \<noteq> None"
          using fuel by (cases n) (auto simp: mathparse_Suc)
        have "\<not> m_error_some s3 \<Longrightarrow> mathparse C ev lx n (else_prec C s3) s3 \<noteq> None"
          using s2 s3 parse [of s3 "else_prec C s3"] prec3 P fuel level_parts(3) [of s3 C]
          by (auto simp: m_error_some_def)
        then show False using err other(6) by blast
      next
        case (rest q s1 s2 s3 s4)
        note p = quest_prec [OF rest(2)]
        have "done_or_less (middle_table C (noeval_inc (\<not> q) s1)) s2"
          by (rule left [OF rest(3)]) (use P p in \<open>auto intro: middle_tables level_parts\<close>)
        then have s2: "m_error_some s2 \<or> left s2 < left st" using p rest(4) by (simp add: done_or_less_def)
        have prec3: "m_prec s3 = m_prec st" using middle_back [OF rest(3)] p rest(5) by simp
        have s3: "left s3 = left s2" "m_error s3 = m_error s2" by (simp_all add: rest(5))
        have "done_or_less s3 s4"
          by (rule left [OF rest(6)]) (use P prec3 in \<open>auto intro: level_parts\<close>)
        then have s4: "m_mtok s4 = EOI \<or> m_error_some s4 \<or> left s4 < left st"
          using s2 s3 parse_error [OF rest(6)] by (auto simp: done_or_less_def m_error_some_def)
        let ?s = "op C ev QUEST (noeval_dec q s4)"
        have "m_prec ?s \<in> tables"
          using parse_prec [OF rest(6)] prec3 P by simp
        then show False
          using loop [of ?s pc] s4 rest(7) fuel lv op_error [of "noeval_dec q s4" C ev QUEST]
          by (auto simp: m_error_some_def)
      next
        case (right t s1)
        have p: "m_prec s1 = m_prec st" "left s1 = left st" by (simp_all add: right(5) bop_fields)
        have "level (right_prec (m_prec s1) t)"
          using level_parts(4) [of st pc t] right(2-4) P lv p by simp
        then show False using parse [of s1 "right_prec (m_prec s1) t"] right(6) P p fuel by simp
      next
        case (operator t s1 s2)
        have p: "m_prec s1 = m_prec st" "left s1 = left st" by (simp_all add: operator(5) bop_fields)
        have "done_or_less s1 s2"
          by (rule left [OF operator(6)]) (use P p operator(2-4) lv in \<open>auto intro: level_parts\<close>)
        then have s2: "m_mtok s2 = EOI \<or> m_error_some s2 \<or> left s2 < left st" using p by (simp add: done_or_less_def)
        let ?s = "s2\<lparr>m_noeval := m_noeval st\<rparr>"
        have "m_prec (op C ev t ?s) \<in> tables"
          using parse_prec [OF operator(6)] p P by simp
        then show False
          using loop [of "op C ev t ?s" pc] s2 operator(7) fuel lv op_error [of ?s C ev t]
          by (auto simp: m_error_some_def)
      qed
    qed
  qed
  ultimately show ?case by blast
qed

end

end
