(* ===== verification/MathStack.thy ===== *)
theory MathStack
  imports MathCorrect
begin

text \<open>
  The operand stack: an operator pops its operands and pushes one result, and a run of the
  parser without an error leaves exactly one value above the stack it started with.
\<close>

section \<open>The operand stack\<close>

text \<open>The stack an operand or an operator is expected on: \<open>b\<close> when an operand is, one value
  above it when an operator is.\<close>

definition operand_stack :: "'f mathvalue list \<Rightarrow> ('f, 'e) mstate \<Rightarrow> bool" where
  "operand_stack b st \<longleftrightarrow> (if m_unary st then m_stack st = b else \<exists>v. m_stack st = v # b)"

text \<open>The same once the token has been checked.\<close>

definition checked :: "('f, 'e) mstate \<Rightarrow> bool" where
  "checked st \<longleftrightarrow> (m_unary st \<longleftrightarrow> \<not> has_flag (op_type (m_mtok st)) OP_OPF)"

definition one_value :: "'f mathvalue list \<Rightarrow> ('f, 'e) mstate \<Rightarrow> bool" where
  "one_value b st \<longleftrightarrow> (\<exists>v. m_stack st = v # b) \<and> is_op_token (m_mtok st) \<and> checked st"

definition ready :: "'f mathvalue list \<Rightarrow> ('f, 'e) mstate \<Rightarrow> bool" where
  "ready b st \<longleftrightarrow> checked st \<and>
     (if is_op_token (m_mtok st) then \<exists>v. m_stack st = v # b else m_stack st = b)"

lemma one_value_ready: "one_value b st \<Longrightarrow> ready b st"
  by (simp add: one_value_def ready_def)

lemma checkunary_ready:
  assumes "operand_stack b st" "\<not> m_error_some (checkunary st)"
  shows "ready b (checkunary st)"
proof -
  have e: "m_stack (checkunary st) = m_stack st"
    by (simp add: checkunary_def Let_def)
  have u: "m_unary (checkunary st) \<longleftrightarrow> \<not> has_flag (op_type (m_mtok st)) OP_OPF"
    by (simp add: checkunary_def Let_def)
  have "is_op_token (m_mtok st) \<longleftrightarrow> \<not> m_unary st"
    using assms(2) by (auto simp: checkunary_def Let_def m_error_some_def m_error_set_def split: if_splits)
  then show ?thesis
    using assms(1) e u by (simp add: ready_def checked_def operand_stack_def)
qed

lemma quiet_stack: "quiet st s \<Longrightarrow> m_stack s = m_stack st"
  by (simp add: quiet_def)

lemma getcvar_stack [simp]: "m_stack (snd (getcvar C name s)) = m_stack s"
  by (rule quiet_stack) simp

lemma callmathfunc_stack [simp]: "m_stack (snd (callmathfunc C ev call s)) = m_stack s"
  by (rule quiet_stack) simp

lemma read_operand_stack [simp]: "m_stack (snd (read_operand C ev mv s)) = m_stack s"
  by (rule quiet_stack) simp

lemma get_value_stack [simp]: "m_stack (snd (get_value C ev mv s)) = m_stack s"
  by (rule quiet_stack) simp

lemma resolve_lval_stack [simp]: "m_stack (snd (resolve_lval C ev l s)) = m_stack s"
  by (rule quiet_stack) simp

lemma setmathvar_stack [simp]: "m_stack (snd (setmathvar C ev name v p s)) = m_stack s"
  by (rule quiet_stack) simp

lemma push_operand_stack: "\<exists>v. m_stack (push_operand C ev s) = v # m_stack s"
  by (simp add: push_operand_def split_beta Let_def)

lemma finish_binary_stack: "\<exists>v. m_stack (finish_binary C ev t l r s) = v # m_stack s"
  by (simp add: finish_binary_def split_beta split: option.split)

lemma pop_stack: "m_stack s = x # b \<Longrightarrow> m_stack (snd (pop C ev s)) = b"
  by (simp add: pop_def)

lemma op_binary_stack:
  assumes "m_stack s = x # y # b" "\<not> m_error_some (op_binary C ev t s)"
  shows "\<exists>v. m_stack (op_binary C ev t s) = v # b"
proof -
  have p: "m_stack (snd (pop_with_lval C (snd (pop C ev s)))) = b"
    using pop_stack [OF assms(1), of C ev] by (simp add: pop_with_lval_def)
  have q: "\<exists>v. m_stack (case X of Inl msg \<Rightarrow> m_error_set msg u | Inr r \<Rightarrow> finish_binary C ev t l (wrap_result C r) u) = v # b"
    if "m_stack u = b" "\<not> m_error_some (case X of Inl msg \<Rightarrow> m_error_set msg u
          | Inr r \<Rightarrow> finish_binary C ev t l (wrap_result C r) u)" for X l u
    using that finish_binary_stack [of C ev t l _ u] by (cases X) auto
  have len: "\<not> length (m_stack s) < 2" using assms(1) by simp
  show ?thesis
    using assms(2) unfolding op_binary_def Let_def split_beta if_not_P [OF len]
    by (rule q [rotated]) (use p in simp)
qed

text \<open>The tokens that take one operand.\<close>

definition prefix_or_postfix :: "token \<Rightarrow> bool" where
  "prefix_or_postfix t \<longleftrightarrow> t \<in> {NOT, M_COMP, UPLUS, UMINUS, POSTPLUS, POSTMINUS, PREPLUS, PREMINUS}"

lemma op_step_stack:
  "\<not> m_error_some (op_postfix C ev up l v s) \<Longrightarrow> \<exists>w. m_stack (op_postfix C ev up l v s) = w # m_stack s"
  "\<not> m_error_some (op_prefix C ev up l v s) \<Longrightarrow> \<exists>w. m_stack (op_prefix C ev up l v s) = w # m_stack s"
  by (auto simp: op_postfix_def op_prefix_def split: option.splits if_splits)

lemma op_unary_stack:
  assumes "m_stack s = x # b" "prefix_or_postfix t" "\<not> m_error_some (op_unary C ev t s)"
  shows "\<exists>v. m_stack (op_unary C ev t s) = v # b"
proof -
  have p: "m_stack (snd (pop_with_lval C s)) = b"
    using assms(1) by (simp add: pop_with_lval_def)
  have t: "t = NOT \<or> t = M_COMP \<or> t = UPLUS \<or> t = UMINUS \<or> t = POSTPLUS \<or> t = POSTMINUS \<or>
      t = PREPLUS \<or> t = PREMINUS"
    using assms(2) by (simp add: prefix_or_postfix_def)
  have ne: "m_stack s \<noteq> []" using assms(1) by simp
  show ?thesis
    by (insert t, elim disjE; use assms(3) p in
      \<open>auto simp: op_unary_def Let_def split_beta ne is_step_def dest!: op_step_stack\<close>)
qed

lemma op_quest_stack:
  assumes "m_stack s = x # y # z # b" "\<not> m_error_some (op_unary C ev QUEST s)"
  shows "\<exists>v. m_stack (op_unary C ev QUEST s) = v # b"
proof -
  have p: "m_stack (snd (pop_with_lval C s)) = y # z # b"
    using assms(1) by (simp add: pop_with_lval_def)
  have q: "\<exists>w. m_stack (op_quest C ev v u) = w # b" if "m_stack u = y # z # b" for u v
    using that pop_stack [OF pop_stack [OF that, of C ev], of C ev]
    by (simp add: op_quest_def split_beta Let_def)
  show ?thesis
    using assms p q unfolding op_unary_def Let_def split_beta
    by (auto simp: is_step_def)
qed

lemma op_unary_error:
  assumes "t = COLON \<or> t = COMMA \<or> t = M_OUTPAR \<or> t = EOI" "\<not> is_binary t"
  shows "m_error_some (op_unary C ev t s)"
  using assms unfolding op_unary_def Let_def split_beta by (auto simp: is_step_def)

section \<open>One value per expression\<close>

lemma not_top:
  assumes "m_prec s \<in> tables"
  shows "t \<noteq> EOI \<Longrightarrow> t \<noteq> M_OUTPAR \<Longrightarrow> right_prec (m_prec s) t \<noteq> top_prec s"
    "else_prec C s \<noteq> top_prec s"
  using prec_comma [OF assms, of t] prec_comma [OF assms, of EQ] prec_comma [OF assms, of QUEST]
  by (auto simp: right_prec_def top_prec_def else_prec_def)

text \<open>The operator applied to its right operand.\<close>

lemma op_stack:
  assumes "\<not> m_error_some (op C ev t s)"
  shows "is_binary t \<Longrightarrow> m_stack s = x # y # b \<Longrightarrow> \<exists>v. m_stack (op C ev t s) = v # b"
    and "prefix_or_postfix t \<Longrightarrow> m_stack s = x # b \<Longrightarrow> \<exists>v. m_stack (op C ev t s) = v # b"
    and "m_stack s = x # y # z # b \<Longrightarrow> t = QUEST \<Longrightarrow> \<exists>v. m_stack (op C ev t s) = v # b"
    and "t \<noteq> COLON"
proof -
  have e: "\<not> m_error_some s" using assms by (auto simp: op_def)
  then have o: "op C ev t s = (if is_binary t then op_binary C ev t s else op_unary C ev t s)"
    by (simp add: op_def)
  have n: "prefix_or_postfix t \<Longrightarrow> \<not> is_binary t" "t = QUEST \<Longrightarrow> \<not> is_binary t" "\<not> is_binary COLON"
    by (auto simp: prefix_or_postfix_def binary_kinds op_kinds)
  show "is_binary t \<Longrightarrow> m_stack s = x # y # b \<Longrightarrow> \<exists>v. m_stack (op C ev t s) = v # b"
    using op_binary_stack assms o by auto
  show "prefix_or_postfix t \<Longrightarrow> m_stack s = x # b \<Longrightarrow> \<exists>v. m_stack (op C ev t s) = v # b"
    using op_unary_stack assms o n by auto
  show "m_stack s = x # y # z # b \<Longrightarrow> t = QUEST \<Longrightarrow> \<exists>v. m_stack (op C ev t s) = v # b"
    using op_quest_stack assms o n by auto
  show "t \<noteq> COLON" using op_unary_error [of COLON C ev s] assms o n by auto
qed

context math_lexer
begin

lemma fetch_ready:
  assumes "operand_stack b s" "\<not> m_error_some (fetch lx s)"
  shows "ready b (fetch lx s)"
proof -
  have "kept (snd (lx s)) = kept s" using lx_ok [of s] by (simp add: lex_ok_def)
  then have "operand_stack b ((snd (lx s))\<lparr>m_mtok := fst (lx s)\<rparr>)"
    using assms(1) by (simp add: kept_def operand_stack_def)
  then show ?thesis using assms(2) unfolding fetch_def by (rule checkunary_ready)
qed

lemma eoi_stack:
  assumes "operand_stack b s"
  shows "operand_stack b ((snd (lx s))\<lparr>m_mtok := t\<rparr>)"
proof -
  have "kept (snd (lx s)) = kept s" using lx_ok [of s] by (simp add: lex_ok_def)
  then show ?thesis using assms by (simp add: kept_def operand_stack_def)
qed

lemma parse_ok: "mathparse C ev lx n pc st = Some s \<Longrightarrow> \<not> m_error_some s \<Longrightarrow> \<not> m_error_some st"
  using parse_error by blast

lemma loop_ok: "mathloop C ev lx n pc st = Some s \<Longrightarrow> \<not> m_error_some s \<Longrightarrow> \<not> m_error_some st"
  using loop_error by blast

lemma parser_stack:
  "(\<forall>pc st s b. mathparse C ev lx n pc st = Some s \<longrightarrow> m_prec st \<in> tables \<longrightarrow> level pc \<longrightarrow>
       operand_stack b st \<longrightarrow> \<not> m_error_some s \<longrightarrow>
       one_value b s \<or> m_mtok s = EOI \<and> pc = top_prec s \<and> operand_stack b s) \<and>
   (\<forall>pc st s b. mathloop C ev lx n pc st = Some s \<longrightarrow> m_prec st \<in> tables \<longrightarrow> level pc \<longrightarrow>
       ready b st \<longrightarrow> \<not> m_error_some s \<longrightarrow> one_value b s)"
proof (induction n)
  case 0
  show ?case by simp
next
  case (Suc n)
  have parse: "one_value b s \<or> m_mtok s = EOI \<and> pc = top_prec s \<and> operand_stack b s"
    if "mathparse C ev lx n pc st = Some s" "m_prec st \<in> tables" "level pc" "operand_stack b st"
      "\<not> m_error_some s" for pc st s b
    using Suc that by blast
  have loop: "one_value b s"
    if "mathloop C ev lx n pc st = Some s" "m_prec st \<in> tables" "level pc" "\<not> m_error_some s"
      "\<not> m_error_some st \<Longrightarrow> ready b st" for pc st s b
    using Suc that loop_ok by blast
  have "one_value b s \<or> m_mtok s = EOI \<and> pc = top_prec s \<and> operand_stack b s"
    if "mathparse C ev lx (Suc n) pc st = Some s" "m_prec st \<in> tables" "level pc"
      "operand_stack b st" "\<not> m_error_some s" for pc st s b
    using that eoi_stack [OF that(4)] loop [of pc "fetch lx st" s b] fetch_ready [OF that(4)]
    by (auto simp: mathparse_Suc top_prec_def split: if_splits)
  moreover have "one_value b s"
    if run: "mathloop C ev lx (Suc n) pc st = Some s" and P: "m_prec st \<in> tables" and lv: "level pc"
      and rd: "ready b st" and ok: "\<not> m_error_some s" for pc st s b
    using run
  proof (cases rule: mathloop_cases)
    case exit
    then have "is_op_token (m_mtok st)" using prec_low [OF P, of "m_mtok st"] ok lv by (auto simp: level_def)
    then show ?thesis using rd exit by (simp add: ready_def one_value_def)
  next
    case operand
    have st: "m_stack st = b" using rd operand(3) by (auto simp: ready_def is_operand_token_def op_kinds)
    have "\<not> m_unary st" using rd operand(3) by (auto simp: ready_def checked_def is_operand_token_def)
    then have "operand_stack b (push_operand C ev st)"
      using push_operand_stack [of C ev st] by (simp add: operand_stack_def st)
    from loop [OF operand(4) _ lv ok fetch_ready [OF this]] show ?thesis using P by simp
  next
    case (group_error s1 m)
    then show ?thesis using ok by simp
  next
    case (group s1)
    have "operand_stack b st"
      using rd group(3) by (simp add: ready_def checked_def op_kinds operand_stack_def)
    have e: "\<not> m_error_some s1" using loop_ok [OF group(6) ok] fetch_error by blast
    from parse [OF group(4) P level_parts(1) [OF P] \<open>operand_stack b st\<close> e] group(5)
    have "operand_stack b s1" by (simp add: one_value_def checked_def operand_stack_def)
    from loop [OF group(6) _ lv ok fetch_ready [OF this]] show ?thesis
      using parse_prec [OF group(4)] P by simp
  next
    case (quest_error m)
    then show ?thesis using ok by simp
  next
    case (colon_error q s1 s2)
    then show ?thesis using ok by (simp add: no_colon_def)
  next
    case (quest q s1 s2 s3 s4)
    note p = quest_prec [OF quest(5)] quest_cond_ran [OF quest(5)]
    let ?m = "noeval_inc (\<not> q) s1"
    let ?o = "op C ev QUEST (noeval_dec q s4)"
    have eo: "\<not> m_error_some ?o" using loop_ok [OF quest(10) ok] .
    then have "\<not> m_error_some (noeval_dec q s4)" using op_error by metis
    then have e4: "\<not> m_error_some s4" by (simp add: m_error_some_def)
    then have e2: "\<not> m_error_some s2" using parse_ok [OF quest(9)] quest(8) by (simp add: m_error_some_def)
    obtain v where v: "m_stack st = v # b" using rd quest(3) by (auto simp: ready_def op_kinds)
    have "m_unary st" using rd quest(3) by (simp add: ready_def checked_def)
    then have "operand_stack (v # b) (middle_table C ?m)"
      using v p(3) steady_fields(3) [of s1 st] by (simp add: operand_stack_def)
    then have "one_value (v # b) s2"
      using parse [OF quest(6) _ _ _ e2] quest(7) p(1) P
        level_parts(2) [of ?m C] middle_tables [of ?m C] by auto
    then obtain w where w: "m_stack s3 = w # v # b" "m_unary s3"
      using quest(7,8) by (auto simp: one_value_def checked_def)
    have prec3: "m_prec s3 = m_prec st" using middle_back [OF quest(6)] p quest(8) by simp
    have "operand_stack (w # v # b) s3" using w by (simp add: operand_stack_def)
    then have "one_value (w # v # b) s4"
      using parse [OF quest(9) _ _ _ e4] P prec3 level_parts(3) [of s3 C] not_top(2) [of s3 C]
        parse_prec [OF quest(9)] by (auto simp: top_prec_def)
    then obtain x where "m_stack (noeval_dec q s4) = x # w # v # b" "is_op_token (m_mtok s4)" "checked s4"
      by (auto simp: one_value_def)
    then have "ready b ?o"
      using op_stack(3) [OF eo] noeval_fields by (auto simp: ready_def checked_def)
    from loop [OF quest(10) _ lv ok this] show ?thesis using parse_prec [OF quest(9)] prec3 P by simp
  next
    case (orphan m)
    then show ?thesis using ok by simp
  next
    case (operator t s1 s2)
    have p: "m_prec s1 = m_prec st" "left s1 = left st" "m_unary s1 = m_unary st" "m_stack s1 = m_stack st"
      by (simp_all add: operator(8) bop_fields bop_calm)
    let ?s = "s2\<lparr>m_noeval := m_noeval st\<rparr>"
    let ?o = "op C ev t ?s"
    have eo: "\<not> m_error_some ?o" using loop_ok [OF operator(10) ok] .
    then have "\<not> m_error_some ?s" using op_error by metis
    then have e2: "\<not> m_error_some s2" by (simp add: m_error_some_def)
    have t: "t \<noteq> EOI" "t \<noteq> M_OUTPAR" "t \<noteq> COLON"
      using operator(1) level_exit [OF P lv] op_stack(4) [OF eo] by auto
    define c where "c = (if is_binary t then hd (m_stack st) # b else b)"
    have "operand_stack c s1"
      using rd operator(3) p t operator(4-6)
      by (auto simp: ready_def checked_def operand_stack_def op_kinds binary_kinds is_operand_token_def c_def)
    moreover have "right_prec (m_prec s1) t \<noteq> top_prec s2"
      using not_top(1) [of s1 t] t P p parse_prec [OF operator(9)] by (simp add: top_prec_def)
    moreover have "level (right_prec (m_prec s1) t)"
      using level_parts(4) [of st pc t] operator(1,4,5) P lv p by simp
    ultimately have one: "one_value c s2"
      using parse [OF operator(9) _ _ _ e2] P p by auto
    have "\<exists>v. m_stack ?o = v # b"
    proof (cases "is_binary t")
      case True
      then show ?thesis using op_stack(1) [OF eo] one by (auto simp: one_value_def c_def)
    next
      case False
      then have "prefix_or_postfix t"
        using operator(4-6) t by (cases t) (auto simp: binary_kinds op_kinds is_operand_token_def prefix_or_postfix_def)
      then show ?thesis using op_stack(2) [OF eo] one False by (auto simp: one_value_def c_def)
    qed
    then have "ready b ?o" using one by (auto simp: ready_def one_value_def checked_def)
    from loop [OF operator(10) _ lv ok this] show ?thesis using parse_prec [OF operator(9)] p P by simp
  qed
  ultimately show ?case by blast
qed

text \<open>Only the end of the input as the first token leaves no value; anything else leaves one.\<close>

lemma parser_value:
  assumes run: "mathparse C ev lx n pc st = Some s" and P: "m_prec st \<in> tables" "level pc"
    and un: "m_unary st" and ok: "\<not> m_error_some s"
  shows "if fst (lx st) = EOI then m_stack s = m_stack st \<and> m_mtok s = EOI \<and> pc = top_prec st else one_value (m_stack st) s"
proof (cases n)
  case 0
  then show ?thesis using run by simp
next
  case (Suc k)
  have b: "operand_stack (m_stack st) st" using un by (simp add: operand_stack_def)
  have kept: "m_stack (snd (lx st)) = m_stack st" "m_prec (snd (lx st)) = m_prec st"
    using lx_ok [of st] by (simp_all add: lex_ok_def kept_def)
  note r = run [unfolded Suc mathparse_Suc if_not_P [OF parse_ok [OF run ok]]]
  show ?thesis
  proof (cases "pc = top_prec ((snd (lx st))\<lparr>m_mtok := fst (lx st)\<rparr>) \<and> fst (lx st) = EOI")
    case True
    then show ?thesis using r kept by (auto simp: top_prec_def)
  next
    case False
    from this r have l: "mathloop C ev lx k pc (fetch lx st) = Some s"
      by (simp only: if_False)
    have f: "m_prec (fetch lx st) = m_prec st" "m_stack (fetch lx st) = m_stack st" "m_mtok (fetch lx st) = fst (lx st)"
      using kept by (simp_all add: fetch_def checkunary_def Let_def)
    have rd: "ready (m_stack st) (fetch lx st)" using fetch_ready [OF b loop_ok [OF l ok]] .
    then have "fst (lx st) \<noteq> EOI" using f by (auto simp: ready_def op_kinds)
    then show ?thesis using parser_stack l P f rd ok by metis
  qed
qed

end

end
