(* ===== verification/MathRuns.thy ===== *)
theory MathRuns
  imports MathStack
begin

text \<open>
  Runs of the parser without the fuel: more fuel gives the same result, so "some fuel gives
  the result" is a function of the state, and each case of the loop is a rule.
\<close>

section \<open>More fuel, the same result\<close>

lemma orphan_kinds:
  "orphan_binary t st \<Longrightarrow> \<not> is_operand_token t \<and> t \<noteq> M_INPAR \<and> t \<noteq> QUEST"
  by (auto simp: orphan_binary_def is_operand_token_def binary_kinds op_kinds)

lemma fuel_Suc:
  "(\<forall>pc st s. mathparse C ev lx n pc st = Some s \<longrightarrow> mathparse C ev lx (Suc n) pc st = Some s) \<and>
   (\<forall>pc st s. mathloop C ev lx n pc st = Some s \<longrightarrow> mathloop C ev lx (Suc n) pc st = Some s)"
proof (induction n)
  case 0
  show ?case by simp
next
  case (Suc n)
  then have p: "mathparse C ev lx n pc st = Some s \<Longrightarrow> mathparse C ev lx (Suc n) pc st = Some s"
    and l: "mathloop C ev lx n pc st = Some s \<Longrightarrow> mathloop C ev lx (Suc n) pc st = Some s" for pc st s
    by blast+
  have "mathparse C ev lx (Suc (Suc n)) pc st = Some s" if "mathparse C ev lx (Suc n) pc st = Some s" for pc st s
    using that l unfolding mathparse_Suc [of _ _ _ "Suc n"] mathparse_Suc [of _ _ _ n] by (auto split: if_splits)
  moreover have "mathloop C ev lx (Suc (Suc n)) pc st = Some s"
    if run: "mathloop C ev lx (Suc n) pc st = Some s" for pc st s
  proof -
    note eq = mathloop.simps(2) [of C ev lx "Suc n" pc st]
    show ?thesis
      using run
    proof (cases rule: mathloop_cases)
      case exit
      then show ?thesis by (auto simp: eq)
    next
      case operand
      then show ?thesis using l by (simp add: eq fetch_def split_beta Let_def)
    next
      case (group_error s1 m)
      then show ?thesis using p l run by (auto simp: eq Let_def split_beta is_operand_token_def mathloop.simps(2) [of C ev lx n pc st] split: option.splits if_splits)
    next
      case (group s1)
      then show ?thesis using p l by (simp add: eq fetch_def split_beta Let_def is_operand_token_def)
    next
      case (quest_error m)
      then show ?thesis using run by (auto simp: eq Let_def split_beta is_operand_token_def mathloop.simps(2) [of C ev lx n pc st] split: if_splits)
    next
      case (colon_error q s1 s2)
      then show ?thesis using p l run by (auto simp: eq Let_def split_beta is_operand_token_def mathloop.simps(2) [of C ev lx n pc st] split: option.splits if_splits prod.splits)
    next
      case (quest q s1 s2 s3 s4)
      then show ?thesis using p l by (simp add: eq Let_def is_operand_token_def)
    next
      case (orphan m)
      then show ?thesis using orphan_kinds [OF orphan(2)] run
        by (auto simp: eq Let_def mathloop.simps(2) [of C ev lx n pc st])
    next
      case (operator t s1 s2)
      then show ?thesis using p [OF operator(9)] l [OF operator(10)]
        by (cases "is_bool t") (simp_all add: eq Let_def)
    qed
  qed
  ultimately show ?case by blast
qed

lemma fuel_mono:
  assumes "n \<le> m"
  shows "mathparse C ev lx n pc st = Some s \<Longrightarrow> mathparse C ev lx m pc st = Some s"
    and "mathloop C ev lx n pc st = Some s \<Longrightarrow> mathloop C ev lx m pc st = Some s"
  using assms fuel_Suc by (induction m rule: dec_induct) blast+

section \<open>Runs\<close>

definition parses ::
  "('f, 'e) mconf \<Rightarrow> ('f, 'e) evalf \<Rightarrow> (('f, 'e) mstate \<Rightarrow> token \<times> ('f, 'e) mstate) \<Rightarrow> nat
    \<Rightarrow> ('f, 'e) mstate \<Rightarrow> ('f, 'e) mstate \<Rightarrow> bool" where
  "parses C ev lx pc st s \<longleftrightarrow> (\<exists>n. mathparse C ev lx n pc st = Some s)"

definition loops ::
  "('f, 'e) mconf \<Rightarrow> ('f, 'e) evalf \<Rightarrow> (('f, 'e) mstate \<Rightarrow> token \<times> ('f, 'e) mstate) \<Rightarrow> nat
    \<Rightarrow> ('f, 'e) mstate \<Rightarrow> ('f, 'e) mstate \<Rightarrow> bool" where
  "loops C ev lx pc st s \<longleftrightarrow> (\<exists>n. mathloop C ev lx n pc st = Some s)"

text \<open>A run and any amount of fuel that gives a result agree.\<close>

lemma parses_unique:
  assumes "parses C ev lx pc st s" "mathparse C ev lx n pc st = Some s'"
  shows "s' = s"
proof -
  obtain m where m: "mathparse C ev lx m pc st = Some s" using assms(1) by (auto simp: parses_def)
  show ?thesis
    using fuel_mono(1) [OF _ m, of "max m n"] fuel_mono(1) [OF _ assms(2), of "max m n"] by simp
qed

lemma common_fuel:
  assumes "parses C ev lx pc st s" "loops C ev lx pc' st' s'"
  obtains n where "mathparse C ev lx n pc st = Some s" "mathloop C ev lx n pc' st' = Some s'"
proof -
  obtain m k where "mathparse C ev lx m pc st = Some s" "mathloop C ev lx k pc' st' = Some s'"
    using assms by (auto simp: parses_def loops_def)
  then show thesis
    using that [of "max m k"] fuel_mono(1) [of m "max m k"] fuel_mono(2) [of k "max m k"]
      max.cobounded1 max.cobounded2 by blast
qed

lemma common_fuel3:
  assumes "parses C ev lx pc st s" "parses C ev lx pc1 st1 s1" "loops C ev lx pc' st' s'"
  obtains n where "mathparse C ev lx n pc st = Some s" "mathparse C ev lx n pc1 st1 = Some s1"
    "mathloop C ev lx n pc' st' = Some s'"
proof -
  obtain m where "mathparse C ev lx m pc st = Some s" using assms(1) by (auto simp: parses_def)
  moreover obtain k where "mathparse C ev lx k pc1 st1 = Some s1" "mathloop C ev lx k pc' st' = Some s'"
    using common_fuel [OF assms(2,3)] .
  ultimately show thesis
    using that [of "max m k"] fuel_mono(1) [of _ "max m k"] fuel_mono(2) [of k "max m k"]
      max.cobounded1 max.cobounded2 by blast
qed

text \<open>The rules.\<close>

lemma parses_error: "m_error_some st \<Longrightarrow> parses C ev lx pc st st"
  unfolding parses_def by (rule exI [of _ "Suc 0"]) (simp add: mathparse_Suc)

lemma parses_loop:
  assumes "\<not> m_error_some st" "fst (lx st) \<noteq> EOI \<or> pc \<noteq> top_prec (snd (lx st))"
    and "loops C ev lx pc (fetch lx st) s"
  shows "parses C ev lx pc st s"
proof -
  obtain n where "mathloop C ev lx n pc (fetch lx st) = Some s" using assms(3) by (auto simp: loops_def)
  then have "mathparse C ev lx (Suc n) pc st = Some s"
    using assms(1,2) by (auto simp: mathparse_Suc top_prec_def)
  then show ?thesis by (auto simp: parses_def)
qed

lemma loops_exit: "pc < prec_of (m_prec st) (m_mtok st) \<or> m_error_some st \<Longrightarrow> loops C ev lx pc st st"
  unfolding loops_def by (rule exI [of _ "Suc 0"]) (auto simp: mathloop.simps)

lemma loops_operand:
  assumes "prec_of (m_prec st) (m_mtok st) \<le> pc" "\<not> m_error_some st" "is_operand_token (m_mtok st)"
    and "loops C ev lx pc (fetch lx (push_operand C ev st)) s"
  shows "loops C ev lx pc st s"
proof -
  obtain n where "mathloop C ev lx n pc (fetch lx (push_operand C ev st)) = Some s"
    using assms(4) by (auto simp: loops_def)
  then have "mathloop C ev lx (Suc n) pc st = Some s"
    using assms(1-3) by (simp add: mathloop.simps fetch_def split_beta Let_def)
  then show ?thesis by (auto simp: loops_def)
qed

lemma loops_group:
  assumes "prec_of (m_prec st) M_INPAR \<le> pc" "\<not> m_error_some st" "m_mtok st = M_INPAR"
    and "parses C ev lx (top_prec st) st s1" "m_mtok s1 = M_OUTPAR"
    and "loops C ev lx pc (fetch lx s1) s"
  shows "loops C ev lx pc st s"
proof -
  obtain n where "mathparse C ev lx n (top_prec st) st = Some s1" "mathloop C ev lx n pc (fetch lx s1) = Some s"
    using common_fuel [OF assms(4,6)] .
  then have "mathloop C ev lx (Suc n) pc st = Some s"
    using assms(1-3,5) by (simp add: mathloop.simps fetch_def split_beta Let_def is_operand_token_def)
  then show ?thesis by (auto simp: loops_def)
qed

lemma loops_group_error:
  assumes "prec_of (m_prec st) M_INPAR \<le> pc" "\<not> m_error_some st" "m_mtok st = M_INPAR"
    and "parses C ev lx (top_prec st) st s1" "m_mtok s1 \<noteq> M_OUTPAR"
  shows "\<exists>m. loops C ev lx pc st (m_error_set m s1)"
proof -
  obtain n where "mathparse C ev lx n (top_prec st) st = Some s1" using assms(4) by (auto simp: parses_def)
  then have "\<exists>m. mathloop C ev lx (Suc n) pc st = Some (m_error_set m s1)"
    using assms(1-3,5) by (auto simp: mathloop.simps Let_def is_operand_token_def)
  then show ?thesis by (auto simp: loops_def)
qed

lemma loops_quest:
  assumes "prec_of (m_prec st) QUEST \<le> pc" "\<not> m_error_some st" "m_mtok st = QUEST" "m_stack st \<noteq> []"
    and "quest_cond C ev st = (q, s1)" "s1' = noeval_inc (\<not> q) s1"
    and "parses C ev lx (middle_prec C s1') (middle_table C s1') s2" "m_mtok s2 = COLON"
    and "s3 = noeval_inc q (noeval_dec (\<not> q) (middle_restore C s1' s2))"
    and "parses C ev lx (else_prec C s3) s3 s4" "loops C ev lx pc (op C ev QUEST (noeval_dec q s4)) s"
  shows "loops C ev lx pc st s"
proof -
  obtain n where "mathparse C ev lx n (middle_prec C s1') (middle_table C s1') = Some s2"
    "mathparse C ev lx n (else_prec C s3) s3 = Some s4" "mathloop C ev lx n pc (op C ev QUEST (noeval_dec q s4)) = Some s"
    using common_fuel3 [OF assms(7,10,11)] .
  then have "mathloop C ev lx (Suc n) pc st = Some s"
    using assms(1-6,8,9) by (simp add: mathloop.simps Let_def is_operand_token_def)
  then show ?thesis by (auto simp: loops_def)
qed

lemma loops_quest_error:
  assumes "prec_of (m_prec st) QUEST \<le> pc" "\<not> m_error_some st" "m_mtok st = QUEST" "m_stack st \<noteq> []"
    and "quest_cond C ev st = (q, s1)" "s1' = noeval_inc (\<not> q) s1"
    and "parses C ev lx (middle_prec C s1') (middle_table C s1') s2" "m_mtok s2 \<noteq> COLON"
  shows "\<exists>m s2'. m_error s2' = m_error s2 \<and> loops C ev lx pc st (m_error_set m s2')"
proof -
  obtain n where "mathparse C ev lx n (middle_prec C s1') (middle_table C s1') = Some s2"
    using assms(7) by (auto simp: parses_def)
  then have "mathloop C ev lx (Suc n) pc st = Some (no_colon (length (m_stack s1')) (noeval_dec (\<not> q) (middle_restore C s1' s2)))"
    using assms(1-6,8) by (simp add: mathloop.simps Let_def is_operand_token_def)
  moreover have "m_error (noeval_dec (\<not> q) (middle_restore C s1' s2)) = m_error s2" by simp
  ultimately show ?thesis
    unfolding loops_def no_colon_def by blast
qed

lemma loops_operator:
  assumes "prec_of (m_prec st) t \<le> pc" "\<not> m_error_some st" "m_mtok st = t"
    and "\<not> is_operand_token t" "t \<noteq> M_INPAR" "t \<noteq> QUEST" "\<not> orphan_binary t st"
    and "s1 = (if is_bool t then bop C ev t st else st)"
    and "parses C ev lx (right_prec (m_prec s1) t) s1 s2"
    and "loops C ev lx pc (op C ev t (s2\<lparr>m_noeval := m_noeval st\<rparr>)) s"
  shows "loops C ev lx pc st s"
proof -
  obtain n where "mathparse C ev lx n (right_prec (m_prec s1) t) s1 = Some s2"
    "mathloop C ev lx n pc (op C ev t (s2\<lparr>m_noeval := m_noeval st\<rparr>)) = Some s"
    using common_fuel [OF assms(9,10)] .
  then have "mathloop C ev lx (Suc n) pc st = Some s"
    using assms(1-8) by (simp add: mathloop.simps Let_def)
  then show ?thesis by (auto simp: loops_def)
qed

end
