(* ===== verification/MathRender.thy ===== *)
theory MathRender
  imports MathRuns
begin

text \<open>
  Printing and evaluating.  An expression of literals, the prefix operators, the binary
  operators without an assignment and \<open>?:\<close> is printed with parentheses only where the
  precedence table asks for them; the evaluator reads the printed text back to the value
  of the expression, the first error included, in both precedence tables.
\<close>

section \<open>Expressions and their value\<close>

datatype expr = Lit nat | Pre token expr | Bin token expr expr | Cond expr expr expr

definition prefix_ops :: "token list" where
  "prefix_ops = [NOT, M_COMP, UPLUS, UMINUS]"

definition infix_ops :: "token list" where
  "infix_ops = [AND, XOR, OR, MUL, DIV, MOD, PLUS, MINUS, SHLEFT, SHRIGHT, LES, LEQ, GRE, GEQ, DEQ,
     NEQ, DAND, DOR, DXOR, COMMA, POWER]"

fun wf_expr :: "expr \<Rightarrow> bool" where
  "wf_expr (Lit n) \<longleftrightarrow> n < 2 ^ 63"
| "wf_expr (Pre t e) \<longleftrightarrow> t \<in> set prefix_ops \<and> wf_expr e"
| "wf_expr (Bin t a b) \<longleftrightarrow> t \<in> set infix_ops \<and> wf_expr a \<and> wf_expr b"
| "wf_expr (Cond c a b) \<longleftrightarrow> wf_expr c \<and> wf_expr a \<and> wf_expr b"

definition un_value :: "('f, 'e) mconf \<Rightarrow> token \<Rightarrow> 'f mnumber \<Rightarrow> 'f mnumber" where
  "un_value C t v =
     (if t = NOT then int_num C (if is_false C v then 1 else 0)
      else if t = M_COMP then int_num C (i64_not (as_int C v))
      else if t = UMINUS then op_uminus C v else v)"

definition bin_value :: "('f, 'e) mconf \<Rightarrow> token \<Rightarrow> 'f mnumber \<Rightarrow> 'f mnumber \<Rightarrow> string + 'f mnumber" where
  "bin_value C t x y =
     (let (x', y') = coerce_operands C t x y
      in map_sum id (wrap_result C) (binary_result C t x' y'))"

text \<open>The left operand decides a boolean operator.\<close>

definition decides :: "('f, 'e) mconf \<Rightarrow> token \<Rightarrow> 'f mnumber \<Rightarrow> bool" where
  "decides C t x \<longleftrightarrow> t = DAND \<and> as_int C x = 0 \<or> t = DOR \<and> as_int C x \<noteq> 0"

fun expr_value :: "('f, 'e) mconf \<Rightarrow> expr \<Rightarrow> string + 'f mnumber" where
  "expr_value C (Lit n) = Inr (int_num C (wrap_const C (of_nat n)))"
| "expr_value C (Pre t e) = map_sum id (un_value C t) (expr_value C e)"
| "expr_value C (Bin t a b) =
     (case expr_value C a of
        Inl m \<Rightarrow> Inl m
      | Inr x \<Rightarrow>
          if decides C t x then Inr (int_num C (bool_i64 (t = DOR)))
          else (case expr_value C b of Inl m \<Rightarrow> Inl m | Inr y \<Rightarrow> bin_value C t x y))"
| "expr_value C (Cond c a b) =
     (case expr_value C c of
        Inl m \<Rightarrow> Inl m
      | Inr x \<Rightarrow> if is_false C x then expr_value C b else expr_value C a)"

section \<open>Printing\<close>

fun op_text :: "token \<Rightarrow> string" where
  "op_text NOT = ''!''" | "op_text M_COMP = ''~''" | "op_text UPLUS = ''+''" | "op_text UMINUS = ''-''"
| "op_text AND = ''&''" | "op_text XOR = ''^''" | "op_text OR = ''|''" | "op_text MUL = ''*''"
| "op_text DIV = ''/''" | "op_text MOD = ''%''" | "op_text PLUS = ''+''" | "op_text MINUS = ''-''"
| "op_text SHLEFT = ''<<''" | "op_text SHRIGHT = ''>>''" | "op_text LES = ''<''" | "op_text LEQ = ''<=''"
| "op_text GRE = ''>''" | "op_text GEQ = ''>=''" | "op_text DEQ = ''==''" | "op_text NEQ = ''!=''"
| "op_text DAND = ''&&''" | "op_text DOR = ''||''" | "op_text DXOR = ''^^''" | "op_text COMMA = '',''"
| "op_text POWER = ''**''" | "op_text _ = ''''"

definition is_rl :: "token \<Rightarrow> bool" where
  "is_rl t \<longleftrightarrow> op_type t mod 2 = RL"

definition left_prec :: "nat list \<Rightarrow> token \<Rightarrow> nat" where
  "left_prec P t = prec_of P t - (if is_rl t then 1 else 0)"

fun level_of :: "nat list \<Rightarrow> expr \<Rightarrow> nat" where
  "level_of P (Lit n) = 0"
| "level_of P (Pre t e) = prec_of P t"
| "level_of P (Bin t a b) = prec_of P t"
| "level_of P (Cond c a b) = prec_of P QUEST"

definition parens :: "bool \<Rightarrow> string \<Rightarrow> string" where
  "parens b s = (if b then ''('' @ s @ '')'' else s)"

text \<open>The text of an expression; an operand that binds weaker than its place allows is
  put in parentheses.\<close>

fun show_expr :: "nat list \<Rightarrow> expr \<Rightarrow> string" where
  "show_expr P (Lit n) = show_nat n"
| "show_expr P (Pre t e) =
     op_text t @ '' '' @ parens (right_prec P t < level_of P e) (show_expr P e)"
| "show_expr P (Bin t a b) =
     parens (left_prec P t < level_of P a) (show_expr P a) @ '' '' @ op_text t @ '' '' @
     parens (right_prec P t < level_of P b) (show_expr P b)"
| "show_expr P (Cond c a b) =
     parens (left_prec P QUEST < level_of P c) (show_expr P c) @ '' ? '' @
     parens (prec_of P COLON - 1 < level_of P a) (show_expr P a) @ '' : '' @
     parens (prec_of P QUEST < level_of P b) (show_expr P b)"

section \<open>Reading one token\<close>

text \<open>The cursor on a known rest.\<close>

lemma rest_pos: "rest_of st = c # cs \<Longrightarrow> drop (Suc (m_pos st)) (m_input st) = cs"
  by (simp add: rest_of_def drop_Suc drop_tl)

lemma cursor_rest:
  assumes "rest_of st = c # cs"
  shows "peek st = Some c" "peek_is x st \<longleftrightarrow> c = x" "peek_sat P st \<longleftrightarrow> P c"
    "byte c < 128 \<Longrightarrow> rest_of (advance st) = cs" "rest_of (move (Suc 0) st) = cs"
    "byte c < 128 \<Longrightarrow> advance st = move (Suc 0) st"
  using assms rest_pos [OF assms]
  by (auto simp: peek_def peek_is_def peek_sat_def advance_def rest_of_def move_def utf8_width_def)

lemma cursor_end: "rest_of st = [] \<Longrightarrow> peek st = None"
  "rest_of st = [] \<Longrightarrow> \<not> peek_is x st" "rest_of st = [] \<Longrightarrow> \<not> peek_sat P st"
  by (simp_all add: peek_def peek_is_def peek_sat_def)

lemma rest_updates [simp]:
  "rest_of (st\<lparr>m_tok_start := a\<rparr>) = rest_of st" "rest_of (set_yyval v st) = rest_of st"
  "rest_of (st\<lparr>m_mtok := t\<rparr>) = rest_of st" "rest_of (st\<lparr>m_unary := u\<rparr>) = rest_of st"
  "rest_of (st\<lparr>m_stack := k\<rparr>) = rest_of st" "rest_of (st\<lparr>m_noeval := n\<rparr>) = rest_of st"
  "rest_of (st\<lparr>m_error := e\<rparr>) = rest_of st" "rest_of (st\<lparr>m_yyval := v\<rparr>) = rest_of st"
  "rest_of (st\<lparr>m_lastbase := b\<rparr>) = rest_of st"
  by (simp_all add: rest_of_def set_yyval_def)

text \<open>What the fetch of a known token gives: the token, the rest behind it, the operand or
  operator check passed.\<close>

definition ctx :: "('f, 'e) mstate \<Rightarrow> (int \<times> nat list \<times> bool \<times> bool \<times> bool \<times> (string \<rightharpoonup> string)) \<times> 'e
    \<times> (string \<rightharpoonup> 'f mnumber) \<times> string option" where
  "ctx st = (modes st, m_env st, m_variables st, m_error st)"

definition reads :: "('f, 'e) mconf \<Rightarrow> bool \<Rightarrow> string \<Rightarrow> token \<Rightarrow> string \<Rightarrow> bool" where
  "reads C u s t r \<longleftrightarrow>
     (\<forall>st :: ('f, 'e) mstate. rest_of st = s \<longrightarrow> m_unary st = u \<longrightarrow>
        fst (zzlex C st) = t \<and> rest_of (snd (zzlex C st)) = r \<and> m_error (snd (zzlex C st)) = m_error st)"

lemma zzlex_blank: "rest_of st = CHR '' '' # cs \<Longrightarrow> zzlex_loop C st = zzlex_loop C (move (Suc 0) st)"
  by (subst zzlex_loop.simps) (simp add: cursor_rest(1) cursor_rest(6) is_blank_def Let_def byte_def)

lemma zzlex_step:
  assumes "rest_of st = c # cs" "byte c < 128" "\<not> is_blank c"
    and "lex_token C c (m_pos st) ((move (Suc 0) st)\<lparr>m_tok_start := m_pos st\<rparr>) = (Some t, st2)"
  shows "zzlex_loop C st = (t, st2)"
  by (subst zzlex_loop.simps) (use assms in \<open>simp add: cursor_rest Let_def\<close>)

lemma unary_steps [simp]: "m_unary (move n st) = m_unary st" "m_error (move n st) = m_error st"
  "m_unary (set_yyval v st) = m_unary st" "m_error (set_yyval v st) = m_error st"
  by (simp_all add: move_def set_yyval_def)

text \<open>zsh's own mode: every operator is read.\<close>

definition native :: "('f, 'e) mconf \<Rightarrow> bool" where
  "native C \<longleftrightarrow> \<not> dash_strict C \<and> \<not> posix_faithful C \<and> \<not> bash_mode C"

text \<open>The dispatch at the operators.\<close>

lemma move_0 [simp]: "move 0 st = st"
  by (simp add: move_def)

lemma lex_token_infix:
  assumes "native C" "t \<in> set infix_ops" "rest_of s = tl (op_text t) @ '' '' @ r" "\<not> m_unary s"
  shows "lex_token C (hd (op_text t)) p s = (Some t, move (length (op_text t) - 1) s)"
  using assms unfolding native_def
  by (cases t; simp add: infix_ops_def lex_token_def lex_plus_def lex_minus_def lex_alt_def
      lex_ret_def lex_double_def lex_caret_def lex_star_def cursor_rest)

lemma op_text_head:
  "t \<in> set infix_ops \<Longrightarrow> op_text t \<noteq> [] \<and> byte (hd (op_text t)) < 128 \<and> \<not> is_blank (hd (op_text t))"
  by (cases t) (auto simp: infix_ops_def byte_def is_blank_def)

lemma rest_move: "rest_of (move n st) = drop n (rest_of st)"
  by (simp add: rest_of_def move_def add.commute)

lemma move_tok_start [simp]: "m_unary (st\<lparr>m_tok_start := a\<rparr>) = m_unary st"
  by simp

text \<open>A token that begins at a character that is not blank.\<close>

lemma zzlex_plain:
  assumes "rest_of st = c # cs" "byte c < 128" "\<not> is_blank c"
    and "\<And>s. rest_of s = cs \<Longrightarrow> m_unary s = m_unary st \<Longrightarrow> lex_token C c (m_pos st) s = (Some t, move n s)"
  shows "fst (zzlex_loop C st) = t" "rest_of (snd (zzlex_loop C st)) = drop n cs"
    "m_error (snd (zzlex_loop C st)) = m_error st"
proof -
  let ?s = "(move (Suc 0) st)\<lparr>m_tok_start := m_pos st\<rparr>"
  have s: "rest_of ?s = cs" "m_unary ?s = m_unary st"
    using assms(1) by (simp_all add: cursor_rest)
  note z = zzlex_step [OF assms(1-3) assms(4) [OF s]]
  show "fst (zzlex_loop C st) = t" "rest_of (snd (zzlex_loop C st)) = drop n cs"
    "m_error (snd (zzlex_loop C st)) = m_error st"
    using s(1) by (simp_all add: z rest_move)
qed

lemma zzlex_rest: "rest_of st = s \<Longrightarrow> rest_of (set_yyval v st) = s"
  by simp

lemma reads_plain:
  assumes "byte c < 128" "\<not> is_blank c"
    and "\<And>s :: ('f, 'e) mstate. \<And>p. rest_of s = cs \<Longrightarrow> m_unary s = u \<Longrightarrow> lex_token C c p s = (Some t, move n s)"
    and "drop n cs = r"
  shows "reads C u (c # cs) t r"
  unfolding reads_def zzlex_def
proof (intro allI impI)
  fix st :: "('f, 'e) mstate"
  assume st: "rest_of st = c # cs" "m_unary st = u"
  let ?st = "set_yyval (int_num C 0) st"
  have r: "rest_of ?st = c # cs" using st by simp
  have l: "rest_of s = cs \<Longrightarrow> m_unary s = m_unary ?st \<Longrightarrow> lex_token C c (m_pos ?st) s = (Some t, move n s)" for s
    using assms(3) st(2) by simp
  show "fst (zzlex_loop C ?st) = t \<and> rest_of (snd (zzlex_loop C ?st)) = r \<and>
      m_error (snd (zzlex_loop C ?st)) = m_error st"
    using zzlex_plain [OF r assms(1,2) l] assms(4) by simp
qed

lemma set_yyval_move: "set_yyval v (move n st) = move n (set_yyval v st)"
  by (rule mstate.equality) (simp_all add: set_yyval_def move_def)

lemma reads_blank:
  assumes "reads C u s t r"
  shows "reads C u (CHR '' '' # s) t r"
  unfolding reads_def
proof (intro allI impI)
  fix st :: "('a, 'b) mstate"
  assume st: "rest_of st = CHR '' '' # s" "m_unary st = u"
  let ?st = "move (Suc 0) st"
  have "rest_of (set_yyval (int_num C 0) st) = CHR '' '' # s" using st by simp
  from zzlex_blank [OF this, of C] have z: "zzlex C st = zzlex C ?st"
    by (simp add: zzlex_def set_yyval_move)
  have "rest_of ?st = s" "m_unary ?st = u" "m_error ?st = m_error st"
    using st by (simp_all add: cursor_rest)
  then show "fst (zzlex C st) = t \<and> rest_of (snd (zzlex C st)) = r \<and> m_error (snd (zzlex C st)) = m_error st"
    using assms [unfolded reads_def, rule_format, of ?st] by (simp only: z)
qed

lemma reads_infix:
  assumes "native C" "t \<in> set infix_ops"
  shows "reads C False ('' '' @ op_text t @ '' '' @ r) t ('' '' @ r)"
proof -
  have ne: "op_text t \<noteq> []" "byte (hd (op_text t)) < 128" "\<not> is_blank (hd (op_text t))"
    using op_text_head [OF assms(2)] by auto
  have "reads C False (hd (op_text t) # tl (op_text t) @ '' '' @ r) t ('' '' @ r)"
    by (rule reads_plain [OF ne(2,3)], rule lex_token_infix [OF assms]) auto
  then show ?thesis using ne(1) by (cases "op_text t") (simp_all add: reads_blank)
qed

lemma lex_token_prefix:
  assumes "t \<in> set prefix_ops" "rest_of s = '' '' @ r" "m_unary s"
  shows "lex_token C (hd (op_text t)) p s = (Some t, move 0 s)"
proof -
  have "t = NOT \<or> t = M_COMP \<or> t = UPLUS \<or> t = UMINUS" using assms(1) by (simp add: prefix_ops_def)
  then show ?thesis
    using assms(2,3)
    by (elim disjE; simp add: lex_token_def lex_plus_def lex_minus_def lex_alt_def
        lex_ret_def cursor_rest digit_ahead_def is_digit_def byte_def)
qed

lemma reads_prefix:
  assumes "t \<in> set prefix_ops"
  shows "reads C True (op_text t @ '' '' @ r) t ('' '' @ r)"
proof -
  have ne: "byte (hd (op_text t)) < 128" "\<not> is_blank (hd (op_text t))" "op_text t = [hd (op_text t)]"
    using assms by (auto simp: prefix_ops_def byte_def is_blank_def)
  have "reads C True (hd (op_text t) # '' '' @ r) t ('' '' @ r)"
    by (rule reads_plain [OF ne(1,2)], rule lex_token_prefix [OF assms]) auto
  then show ?thesis using ne(3) by (metis append_Cons append_Nil)
qed

lemma reads_marks:
  "reads C u (''('' @ r) M_INPAR r" "reads C u ('')'' @ r) M_OUTPAR r"
  "reads C False ('' ?'' @ r) QUEST r" "reads C u ('' :'' @ r) COLON r"
proof -
  note 1 = reads_plain [where n = 0 and cs = r and r = r]
  show "reads C u (''('' @ r) M_INPAR r" "reads C u ('')'' @ r) M_OUTPAR r"
    by (simp, rule 1; simp add: byte_def is_blank_def lex_token_def)+
  have "reads C False (''?'' @ r) QUEST r"
    by (simp, rule 1; simp add: byte_def is_blank_def lex_token_def)
  then show "reads C False ('' ?'' @ r) QUEST r" by (simp add: reads_blank)
  have "reads C u ('':'' @ r) COLON r"
    by (simp, rule 1; simp add: byte_def is_blank_def lex_token_def)
  then show "reads C u ('' :'' @ r) COLON r" by (simp add: reads_blank)
qed

lemma reads_end: "reads C u [] EOI []"
  unfolding reads_def zzlex_def
proof (intro allI impI)
  fix st :: "('a, 'b) mstate"
  assume "rest_of st = []"
  then show "fst (zzlex_loop C (set_yyval (int_num C 0) st)) = EOI \<and>
      rest_of (snd (zzlex_loop C (set_yyval (int_num C 0) st))) = [] \<and>
      m_error (snd (zzlex_loop C (set_yyval (int_num C 0) st))) = m_error st"
    by (subst (1 2 3) zzlex_loop.simps) (simp add: cursor_end)
qed

section \<open>Reading a literal\<close>

text \<open>What may follow a literal.\<close>

definition num_end :: "string \<Rightarrow> bool" where
  "num_end r \<longleftrightarrow> r = [] \<or> hd r = CHR '' '' \<or> hd r = CHR '')''"

lemma num_end_span:
  assumes "num_end r" "list_all P ds" "\<not> P (CHR '' '')" "\<not> P (CHR '')'')"
  shows "span_len P (ds @ r) = length ds"
proof -
  have "takeWhile P r = []" using assms(1,3,4) by (cases r) (auto simp: num_end_def)
  then have "takeWhile P (ds @ r) = ds" using assms(2) by (simp add: list_all_iff takeWhile_append)
  then show ?thesis by (simp add: span_len_def)
qed

lemma parse_show_nat: "n < 2 ^ 63 \<Longrightarrow> parse_i64 (show_nat n) = Some (of_nat n)"
  using parse_int_show_int [of "int n"] by (simp add: parse_i64_def show_int_def)

lemma lex_decimal_number:
  assumes "rest_of st = show_nat n @ r" "num_end r" "n < 2 ^ 63" "\<not> m_force_float st"
  shows "lex_decimal C False st =
    (NUM, set_yyval (int_num C (wrap_const C (of_nat n))) (move (length (show_nat n)) st))"
proof -
  let ?P = "\<lambda>c. is_digit c \<or> (c = CHR ''_'' \<and> \<not> posix_faithful C \<and> \<not> bash_mode C)"
  let ?s = "move (length (show_nat n)) st"
  have P: "list_all ?P (show_nat n)"
    using show_nat_digits [of n] by (simp add: list_all_iff)
  have skip: "skip_while ?P st = ?s"
    using num_end_span [OF assms(2) P] by (simp add: skip_while_def assms(1) is_digit_def byte_def)
  have r: "rest_of ?s = r" by (simp add: rest_move assms(1))
  have peek: "\<not> peek_is c ?s" if "c \<in> set ''.eE#''" for c
    using that assms(2) r by (cases r) (auto simp: cursor_rest cursor_end num_end_def)
  have slice: "str_slice (m_input st) (m_pos st) (m_pos ?s) = show_nat n"
    using assms(1) by (simp add: str_slice_def rest_of_def)
  have noscore: "filter (\<lambda>c. c \<noteq> CHR ''_'') (show_nat n) = show_nat n"
    using show_nat_digits [of n] by (intro filter_True) (auto simp: list_all_iff is_digit_def byte_def)
  have int: "lex_integer C False (m_pos st) ?s = (NUM, set_yyval (int_num C (wrap_const C (of_nat n))) ?s)"
    using assms(4) parse_show_nat [OF assms(3)]
    by (simp add: lex_integer_def slice [simplified] noscore literal_num_def report_def move_def)
  show ?thesis
    unfolding lex_decimal_def Let_def skip int
    using peek by simp
qed

text \<open>A literal reads back.\<close>

definition reads_num :: "('f, 'e) mconf \<Rightarrow> nat \<Rightarrow> string \<Rightarrow> bool" where
  "reads_num C n r \<longleftrightarrow>
     (\<forall>st :: ('f, 'e) mstate. rest_of st = show_nat n @ r \<longrightarrow> \<not> m_force_float st \<longrightarrow>
        fst (zzlex C st) = NUM \<and> rest_of (snd (zzlex C st)) = r \<and>
        m_error (snd (zzlex C st)) = m_error st \<and>
        m_yyval (snd (zzlex C st)) = int_num C (wrap_const C (of_nat n)))"

lemma lexconstant_number:
  assumes "rest_of st = show_nat n @ r" "num_end r" "n < 2 ^ 63" "\<not> m_force_float st"
  shows "lexconstant C st =
    (NUM, set_yyval (int_num C (wrap_const C (of_nat n))) (move (length (show_nat n)) st))"
proof -
  obtain c cs where c: "show_nat n = c # cs" by (cases "show_nat n") auto
  have dig: "is_digit c" using show_nat_digits [of n] c by simp
  have rest: "rest_of st = c # cs @ r" using assms(1) c by simp
  have neg: "\<not> peek_is (CHR ''-'') st"
    using dig by (auto simp: cursor_rest(2) [OF rest] is_digit_def byte_def)
  show ?thesis
  proof (cases "c = CHR ''0''")
    case False
    then show ?thesis
      using lex_decimal_number [OF assms] neg
      by (simp add: lexconstant_def cursor_rest(2) [OF rest])
  next
    case True
    then have "n = 0" using show_nat_zero [of n] c by simp
    then have z: "rest_of (move (Suc 0) st) = r" using assms(1) by (simp add: rest_move show_nat_0)
    obtain low where low: "map_option to_lower (peek (move (Suc 0) st)) = low"
      "low \<noteq> Some (CHR ''x'')" "low \<noteq> Some (CHR ''b'')" "low \<noteq> Some (CHR ''o'')"
      using assms(2) z by (cases r) (auto simp: cursor_end cursor_rest num_end_def to_lower_def byte_def)
    have "span_len (\<lambda>c. is_digit c \<or> c = CHR ''_'') r = 0"
      using assms(2) by (cases r) (auto simp: span_len_def num_end_def is_digit_def byte_def)
    then have "lex_octal C False (move (Suc 0) st) = None"
      by (simp add: lex_octal_def z Let_def)
    then show ?thesis
      using lex_decimal_number [OF assms] neg True low
      by (simp add: lexconstant_def Let_def cursor_rest(2) [OF rest] del: map_option_eq_Some)
  qed
qed

lemma literal_reads:
  assumes "num_end r" "n < 2 ^ 63"
  shows "reads_num C n r"
  unfolding reads_num_def
proof (intro allI impI)
  fix st :: "('a, 'b) mstate"
  assume st: "rest_of st = show_nat n @ r" "\<not> m_force_float st"
  obtain c cs where c: "show_nat n = c # cs" by (cases "show_nat n") auto
  have dig: "is_digit c" using show_nat_digits [of n] c by simp
  let ?st = "set_yyval (int_num C 0) st"
  let ?s = "(move (Suc 0) ?st)\<lparr>m_tok_start := m_pos ?st\<rparr>"
  have rest: "rest_of ?st = c # cs @ r" using st c by simp
  have again: "rest_of (?s\<lparr>m_pos := m_pos ?st\<rparr>) = show_nat n @ r"
    using rest c by (simp add: rest_of_def move_def)
  have "lex_token C c (m_pos ?st) ?s = (Some NUM, set_yyval (int_num C (wrap_const C (of_nat n)))
      (move (length (show_nat n)) (?s\<lparr>m_pos := m_pos ?st\<rparr>)))"
  proof -
    have "c \<notin> set ''[+-()!~&|^*/%<>=$?:,#''" using dig by (auto simp: is_digit_def byte_def)
    then have "lex_token C c (m_pos ?st) ?s = (case lex_other C c (m_pos ?st) ?s of (t, s) \<Rightarrow> (Some t, s))"
      by (simp add: lex_token_def)
    moreover have "lex_other C c (m_pos ?st) ?s = lexconstant C (?s\<lparr>m_pos := m_pos ?st\<rparr>)"
      using dig by (simp add: lex_other_def)
    moreover have "\<not> m_force_float (?s\<lparr>m_pos := m_pos ?st\<rparr>)" using st(2) by (simp add: set_yyval_def move_def)
    ultimately show ?thesis using lexconstant_number [OF again assms] by simp
  qed
  then have z: "zzlex C st = (NUM, set_yyval (int_num C (wrap_const C (of_nat n)))
      (move (length (show_nat n)) (?s\<lparr>m_pos := m_pos ?st\<rparr>)))"
    unfolding zzlex_def
    by (intro zzlex_step [OF rest]) (use dig in \<open>auto simp: is_digit_def is_blank_def byte_def\<close>)
  show "fst (zzlex C st) = NUM \<and> rest_of (snd (zzlex C st)) = r \<and> m_error (snd (zzlex C st)) = m_error st \<and>
      m_yyval (snd (zzlex C st)) = int_num C (wrap_const C (of_nat n))"
  proof -
    have "rest_of (move (length (show_nat n)) (?s\<lparr>m_pos := m_pos ?st\<rparr>)) = r"
      using again by (simp add: rest_move)
    then show ?thesis unfolding z by (simp add: set_yyval_def)
  qed
qed

end
