(* ===== verification/MathValue.thy ===== *)
theory MathValue
  imports MathRender
begin

text \<open>
  What the operators do with known operands on the stack, and the value of an expression
  as the parser computes it: the operands that are decided away are parsed with evaluation
  turned off, which does not change the value.
\<close>

section \<open>The operators on known operands\<close>

definition valid_num :: "'f mnumber \<Rightarrow> bool" where
  "valid_num v \<longleftrightarrow> mn_type v = MN_INTEGER \<or> mn_type v = MN_FLOAT"

abbreviation entry :: "'f mnumber \<Rightarrow> 'f mathvalue" where
  "entry v \<equiv> \<lparr>mv_val = v, mv_lval = None, mv_pval = None\<rparr>"

lemma num_types [simp]: "MN_INTEGER \<noteq> MN_UNSET" "MN_FLOAT \<noteq> MN_UNSET" "MN_INTEGER \<noteq> MN_FLOAT"
  "MN_UNSET \<noteq> MN_INTEGER" "MN_UNSET \<noteq> MN_FLOAT" "MN_FLOAT \<noteq> MN_INTEGER"
  by (simp_all add: MN_INTEGER_def MN_FLOAT_def MN_UNSET_def)

lemma num_parts [simp]:
  "mn_type (int_num C i) = MN_INTEGER" "mn_l (int_num C i) = i" "mn_type (float_num C d) = MN_FLOAT"
  "mn_d (float_num C d) = d" "as_int C (int_num C i) = i"
  by (simp_all add: int_num_def float_num_def as_int_def)

lemma valid_nums [simp]: "valid_num (int_num C i)" "valid_num (float_num C d)"
  by (simp_all add: valid_num_def)

lemma valid_read:
  assumes "valid_num v"
  shows "read_operand C ev (entry v) s = (v, s)" "get_value C ev (entry v) s = (v, s)"
  using assms by (auto simp: read_operand_def get_value_def valid_num_def)

lemma wrap_result_0 [simp]: "wrap_result C (int_num C 0) = int_num C 0" "wrap_result C (int_num C 1) = int_num C 1"
  by (simp_all add: wrap_result_def int_num_def wrap_i32_def)

lemma valid_wrap [simp]: "valid_num v \<Longrightarrow> valid_num (wrap_result C v)"
  by (simp add: wrap_result_def valid_num_def)

lemma valid_un [simp]: "valid_num v \<Longrightarrow> valid_num (un_value C t v)"
  by (simp add: un_value_def op_uminus_def)

lemma op_prefix_value:
  assumes "\<not> m_error_some s" "m_stack s = entry v # b" "valid_num v" "t \<in> set prefix_ops"
  shows "op C ev t s = s\<lparr>m_stack := entry (un_value C t v) # b\<rparr>"
proof -
  have t: "t = NOT \<or> t = M_COMP \<or> t = UPLUS \<or> t = UMINUS" using assms(4) by (simp add: prefix_ops_def)
  then have "\<not> is_binary t" "\<not> is_step t" by (auto simp: binary_kinds op_kinds is_step_def)
  moreover have "pop_with_lval C s = (entry v, s\<lparr>m_stack := b\<rparr>)" using assms(2) by (simp add: pop_with_lval_def)
  ultimately have "op C ev t s = op_unary C ev t s" using assms(1) by (simp add: op_def)
  also have "\<dots> = push (un_value C t v) None (s\<lparr>m_stack := b\<rparr>)"
    using t assms(2,3) \<open>\<not> is_step t\<close>
    by (auto simp: op_unary_def pop_with_lval_def valid_read un_value_def)
  finally show ?thesis by (simp add: push_def)
qed

lemma infix_not_assign: "t \<in> set infix_ops \<Longrightarrow> is_binary t \<and> \<not> is_assign t \<and> t \<noteq> EQ"
  by (auto simp: infix_ops_def is_binary_def is_assign_def flag_defs)

lemma op_infix_value:
  assumes "\<not> m_error_some s" "m_stack s = entry y # entry x # b" "valid_num x" "valid_num y"
    and "t \<in> set infix_ops"
  shows "op C ev t s =
    (if 0 < m_noeval s then s\<lparr>m_stack := entry (int_num C 0) # b\<rparr>
     else case bin_value C t x y of
            Inl m \<Rightarrow> s\<lparr>m_stack := b, m_error := Some m\<rparr>
          | Inr v \<Rightarrow> s\<lparr>m_stack := entry v # b\<rparr>)"
proof -
  note t = infix_not_assign [OF assms(5)]
  have len: "\<not> length (m_stack s) < 2" using assms(2) by simp
  have p: "pop C ev s = (y, s\<lparr>m_stack := entry x # b\<rparr>)"
    "pop_with_lval C (s\<lparr>m_stack := entry x # b\<rparr>) = (entry x, s\<lparr>m_stack := b\<rparr>)"
    using assms(2,4) by (simp_all add: pop_def valid_read pop_with_lval_def)
  obtain x' y' where c: "coerce_operands C t x y = (x', y')" by (cases "coerce_operands C t x y")
  have e: "m_error s = None" using assms(1) by (simp add: m_error_some_def)
  have "op C ev t s = op_binary C ev t s" using assms(1) t by (simp add: op_def)
  also have "\<dots> = (if 0 < m_noeval s then push (int_num C 0) None (s\<lparr>m_stack := b\<rparr>)
      else case bin_value C t x y of Inl m \<Rightarrow> m_error_set m (s\<lparr>m_stack := b\<rparr>)
           | Inr v \<Rightarrow> push v None (s\<lparr>m_stack := b\<rparr>))"
    unfolding op_binary_def if_not_P [OF len] p Let_def bin_value_def c
    using t assms(3)
    by (cases "binary_result C t x' y'") (simp_all add: p valid_read finish_binary_def c)
  finally show ?thesis using e by (simp add: push_def m_error_set_def split: sum.split)
qed

lemma op_quest_value:
  assumes "\<not> m_error_some s" "m_stack s = entry z # entry y # entry x # b"
    and "valid_num x" "valid_num y" "valid_num z"
  shows "op C ev QUEST s = s\<lparr>m_stack := entry (if is_false C x then z else y) # b\<rparr>"
proof -
  have "\<not> is_binary QUEST" "\<not> is_step QUEST" by (auto simp: binary_kinds op_kinds is_step_def)
  then have "op C ev QUEST s = op_unary C ev QUEST s" using assms(1) by (simp add: op_def)
  also have "\<dots> = push (if is_false C x then z else y) None (s\<lparr>m_stack := b\<rparr>)"
    using assms(2-5) \<open>\<not> is_step QUEST\<close>
    by (auto simp: op_unary_def pop_with_lval_def valid_read op_quest_def pop_def)
  finally show ?thesis by (simp add: push_def)
qed

lemma bop_value:
  assumes "m_stack s = entry x # b" "valid_num x" "t = DAND \<or> t = DOR"
  shows "bop C ev t s = (if decides C t x then s\<lparr>m_noeval := m_noeval s + 1\<rparr> else s)"
proof -
  have "semiring_bit_operations_class.and (mn_type x) MN_FLOAT \<noteq> 0 \<longleftrightarrow> mn_type x = MN_FLOAT"
    using assms(2) by (auto simp: valid_num_def MN_INTEGER_def MN_FLOAT_def)
  then show ?thesis
    using assms(3) unfolding bop_def assms(1)
    by (elim disjE) (simp_all add: valid_read(1) [OF assms(2)] decides_def as_int_def)
qed

section \<open>The value as the parser computes it\<close>

text \<open>An operand whose value is decided away is still parsed, with evaluation turned off:
  \<open>off\<close> says that it is.\<close>

fun run_value :: "('f, 'e) mconf \<Rightarrow> bool \<Rightarrow> expr \<Rightarrow> string + 'f mnumber" where
  "run_value C off (Lit n) = Inr (int_num C (wrap_const C (of_nat n)))"
| "run_value C off (Pre t e) = map_sum id (un_value C t) (run_value C off e)"
| "run_value C off (Bin t a b) =
     (case run_value C off a of
        Inl m \<Rightarrow> Inl m
      | Inr x \<Rightarrow>
          (case run_value C (off \<or> decides C t x) b of
             Inl m \<Rightarrow> Inl m
           | Inr y \<Rightarrow> if off then Inr (int_num C 0) else bin_value C t x y))"
| "run_value C off (Cond c a b) =
     (case run_value C off c of
        Inl m \<Rightarrow> Inl m
      | Inr x \<Rightarrow>
          (case run_value C (off \<or> is_false C x) a of
             Inl m \<Rightarrow> Inl m
           | Inr y \<Rightarrow>
               (case run_value C (off \<or> \<not> is_false C x) b of
                  Inl m \<Rightarrow> Inl m
                | Inr z \<Rightarrow> Inr (if is_false C x then z else y))))"

lemma run_value_off: "\<exists>v. run_value C True e = Inr v \<and> valid_num v"
  by (induction e) auto

lemma valid_binary:
  assumes "t \<in> set infix_ops" "valid_num b" "binary_result C t a b = Inr v"
  shows "valid_num v"
proof -
  have "v = b \<or> valid_num v"
    using assms(1,3)
    by (cases t) (auto simp: binary_result_def op_bits_def op_mul_def op_div_def op_mod_def op_plus_def
        op_minus_def op_shift_def op_compare_def op_logic_def op_power_def Let_def infix_ops_def
        split: if_splits)
  then show ?thesis using assms(2) by auto
qed

lemma valid_coerce: "valid_num a \<Longrightarrow> valid_num b \<Longrightarrow> coerce_operands C t a b = (a', b') \<Longrightarrow> valid_num b'"
  by (auto simp: coerce_operands_def split: if_splits)

lemma valid_bin_value:
  assumes "t \<in> set infix_ops" "valid_num a" "valid_num b" "bin_value C t a b = Inr v"
  shows "valid_num v"
proof -
  obtain a' b' where c: "coerce_operands C t a b = (a', b')" by (cases "coerce_operands C t a b")
  then obtain w where w: "binary_result C t a' b' = Inr w" "v = wrap_result C w"
    using assms(4) by (cases "binary_result C t a' b'") (auto simp: bin_value_def)
  show ?thesis
    using valid_binary [OF assms(1) valid_coerce [OF assms(2,3) c] w(1)] w(2) by simp
qed

lemma run_value_valid: "wf_expr e \<Longrightarrow> run_value C off e = Inr v \<Longrightarrow> valid_num v"
proof (induction e arbitrary: off v)
  case (Lit n)
  then show ?case by auto
next
  case (Pre t e)
  then show ?case by (cases "run_value C off e") auto
next
  case (Bin t a b)
  then show ?case
    by (auto split: sum.splits if_splits) (blast dest: valid_bin_value)
next
  case (Cond c a b)
  then show ?case by (auto split: sum.splits)
qed

text \<open>Parsing the decided operand does not change the value.\<close>

lemma decided_value:
  assumes "decides C t x" "valid_num x"
  shows "bin_value C t x y = Inr (int_num C (bool_i64 (t = DOR)))"
proof -
  have "t = DAND \<or> t = DOR" using assms(1) by (auto simp: decides_def)
  then show ?thesis
  proof
    assume t: "t = DAND"
    then have "as_int C x = 0" using assms(1) by (simp add: decides_def)
    then show ?thesis
      by (simp add: t bin_value_def coerce_operands_def flag_defs binary_result_def op_logic_def bool_i64_def)
  next
    assume t: "t = DOR"
    then have "as_int C x \<noteq> 0" using assms(1) by (simp add: decides_def)
    then show ?thesis
      by (simp add: t bin_value_def coerce_operands_def flag_defs binary_result_def op_logic_def bool_i64_def)
  qed
qed

lemma run_value_expr: "wf_expr e \<Longrightarrow> run_value C False e = expr_value C e"
proof (induction e)
  case (Bin t a b)
  show ?case
  proof (cases "expr_value C a")
    case (Inr x)
    then have x: "valid_num x" using run_value_valid [of a C False x] Bin by simp
    show ?thesis
    proof (cases "decides C t x")
      case True
      obtain y where "run_value C True b = Inr y" using run_value_off by blast
      then show ?thesis using Bin Inr True decided_value [OF True x] by simp
    next
      case False
      then show ?thesis using Bin Inr by (simp split: sum.split)
    qed
  qed (use Bin in simp)
next
  case (Cond c a b)
  show ?case
  proof (cases "expr_value C c")
    case (Inr x)
    obtain y z where "run_value C True a = Inr y" "run_value C True b = Inr z" using run_value_off by blast
    then show ?thesis using Cond Inr by (cases "is_false C x") (auto split: sum.split)
  qed (use Cond in simp)
qed auto

end
