(* ===== verification/MathDemo.thy ===== *)
theory MathDemo
  imports MathParse "HOL-Library.AList"
begin

text \<open>
  A concrete configuration: floating point over the integers, a parameter table as an
  association list with integer, float and scalar parameters and array elements stored
  under their resolved names, and a small math function table.  The witnesses of the
  development evaluate the model at it.
\<close>

definition int_floats :: "int float_ops" where
  "int_floats = \<lparr>
     f_zero = 0, f_one = 1, f_nan = 0, f_inf = 0,
     f_of_int = sint, f_to_int = word_of_int,
     f_add = (\<lambda>x y. x + y), f_sub = (\<lambda>x y. x - y), f_mul = (\<lambda>x y. x * y),
     f_div = (\<lambda>x y. x sdiv y), f_rem = (\<lambda>x y. x smod y), f_pow = (\<lambda>x y. x ^ nat y),
     f_neg = uminus, f_trunc = (\<lambda>x. x),
     f_lt = (\<lambda>x y. x < y), f_le = (\<lambda>x y. x \<le> y), f_eq = (\<lambda>x y. x = y),
     f_parse = (\<lambda>s. parse_int (takeWhile (\<lambda>c. c \<noteq> CHR ''.'') s)),
     f_show = show_int, f_display = show_int\<rparr>"

type_synonym demo_env = "(string \<times> int param) list"

definition int_param :: "i64 \<Rightarrow> int param" where
  "int_param v = \<lparr>pm_flags = PM_INTEGER, pm_u_val = v, pm_u_dval = 0, pm_u_str = None\<rparr>"

definition float_param :: "int \<Rightarrow> int param" where
  "float_param x = \<lparr>pm_flags = PM_FFLOAT, pm_u_val = 0, pm_u_dval = x, pm_u_str = None\<rparr>"

definition scalar_param :: "string \<Rightarrow> int param" where
  "scalar_param s = \<lparr>pm_flags = PM_SCALAR, pm_u_val = 0, pm_u_dval = 0, pm_u_str = Some s\<rparr>"

definition demo_text :: "int param \<Rightarrow> string" where
  "demo_text pm = (if pm_flags pm = PM_INTEGER then show_int (sint (pm_u_val pm))
                   else if pm_flags pm = PM_FFLOAT then show_int (pm_u_dval pm)
                   else case pm_u_str pm of Some s \<Rightarrow> s | None \<Rightarrow> [])"

definition demo_getsparam :: "string \<Rightarrow> demo_env \<Rightarrow> string option \<times> demo_env" where
  "demo_getsparam name env = (map_option demo_text (map_of env name), env)"

definition demo_param :: "int mnumber \<Rightarrow> int param" where
  "demo_param n = (if mn_type n = MN_FLOAT then float_param (mn_d n) else int_param (mn_l n))"

text \<open>An assignment keeps the type of an integer or float parameter and gives a scalar the
  decimal text.\<close>

definition demo_store :: "int mnumber \<Rightarrow> int param option \<Rightarrow> int param" where
  "demo_store n old = (case old of
     None \<Rightarrow> demo_param n
   | Some pm \<Rightarrow>
       let v = (if mn_type n = MN_FLOAT then word_of_int (mn_d n) else mn_l n);
           x = (if mn_type n = MN_FLOAT then mn_d n else sint (mn_l n))
       in if pm_flags pm = PM_INTEGER then int_param v
          else if pm_flags pm = PM_FFLOAT then float_param x
          else scalar_param (show_int x))"

definition demo_assignnparam :: "int \<Rightarrow> string \<Rightarrow> int mnumber \<Rightarrow> demo_env \<Rightarrow> demo_env" where
  "demo_assignnparam base name n env = AList.update name (demo_store n (map_of env name)) env"

definition demo_setnparam ::
  "int \<Rightarrow> string \<Rightarrow> int mnumber \<Rightarrow> demo_env \<Rightarrow> demo_env \<times> 32 word option" where
  "demo_setnparam base name n env =
     (demo_assignnparam base name n env, Some (pm_flags (demo_store n (map_of env name))))"

definition demo_assignsparam :: "int \<Rightarrow> string \<Rightarrow> string \<Rightarrow> demo_env \<Rightarrow> demo_env" where
  "demo_assignsparam base name s env = AList.update name (scalar_param s) env"

definition demo_element ::
  "(int, demo_env) nested_eval \<Rightarrow> string \<Rightarrow> (int, demo_env) mstate
    \<Rightarrow> int mnumber \<times> (int, demo_env) mstate" where
  "demo_element run name st =
     (let num = (\<lambda>v. \<lparr>mn_l = v, mn_d = 0, mn_type = MN_INTEGER\<rparr>)
      in case run (subscript_body name) st of
           (Inl e, st1) \<Rightarrow> (num 0, m_error_set e st1)
         | (Inr n, st1) \<Rightarrow>
             let key = base_name name @ ''['' @ show_int (sint (mn_l n)) @ '']''
             in (num (case map_of (m_env st1) key of
                        None \<Rightarrow> 0
                      | Some pm \<Rightarrow> (case parse_i64 (demo_text pm) of Some v \<Rightarrow> v | None \<Rightarrow> 0)), st1))"

definition demo_mathfuncs :: "mathfunc list" where
  "demo_mathfuncs = [\<lparr>mf_name = ''sum'', mf_flags = 0, mf_module = None, mf_minargs = 0, mf_maxargs = -1\<rparr>]"

definition demo_ops :: "(int, demo_env) param_ops" where
  "demo_ops = \<lparr>
     p_get = (\<lambda>name env. map_of env name), p_visible = (\<lambda>_ _. True),
     p_getsparam = demo_getsparam, p_array0 = (\<lambda>_ _. None),
     p_first_code = (\<lambda>s. case chars s of [] \<Rightarrow> 0 | c # _ \<Rightarrow> word_of_int (code_point c)),
     p_assignnparam = demo_assignnparam, p_setnparam = demo_setnparam,
     p_assignsparam = demo_assignsparam, p_element = demo_element,
     p_mathfuncs = (\<lambda>_. demo_mathfuncs), p_autoload = (\<lambda>_ env. (False, env)),
     p_getshfunc = (\<lambda>_ _. False), p_doshfunc = (\<lambda>_ _ _ st. st),
     p_sfunc = (\<lambda>_ _ env. (\<lparr>mn_l = 0, mn_d = 0, mn_type = MN_INTEGER\<rparr>, env)),
     p_nfunc = (\<lambda>_ ns env. (\<lparr>mn_l = sum_list (map mn_l ns), mn_d = 0, mn_type = MN_INTEGER\<rparr>, env))\<rparr>"

definition demo_conf :: "(int, demo_env) mconf" where
  "demo_conf = \<lparr>
     c_float = int_floats, c_param = demo_ops,
     c_dash_strict = False, c_posix_faithful = False, c_bash_mode = False, c_pdksh_family = False,
     c_personality_sh = False, c_emulate_sh = False, c_emulate_ksh = False, c_emulating_592 = False,
     c_atomax_clamps = True,
     o_cprecedences = False, o_forcefloat = False, o_octalzeroes = False, o_unset = True,
     o_ksharrays = False, o_multibyte = True, o_posixidentifiers = False,
     c_lastval = 0, c_pid = 4242, c_pound = 0, c_iswalnum = (\<lambda>_. False)\<rparr>"

definition demo_state :: "demo_env \<Rightarrow> (int, demo_env) mstate" where
  "demo_state env = \<lparr>
     m_input = [], m_pos = 0, m_tok_start = 0,
     m_yyval = \<lparr>mn_l = 0, mn_d = 0, mn_type = MN_INTEGER\<rparr>, m_yylval = [], m_stack = [],
     m_mtok = EOI, m_unary = True, m_noeval = 0, m_lastbase = -1, m_prec = Z_PREC,
     m_c_precedences = False, m_force_float = False, m_octal_zeroes = False,
     m_error = None, m_variables = Map.empty, m_string_variables = Map.empty,
     m_outputradix = 0, m_outputunderscore = 0,
     m_lastmathval = \<lparr>mn_l = 0, mn_d = 0, mn_type = MN_INTEGER\<rparr>,
     m_diag = [], m_panic = False, m_env = env\<rparr>"

lemma demo_conf_sel [simp]:
  "c_float demo_conf = int_floats" "c_param demo_conf = demo_ops"
  "c_dash_strict demo_conf = False" "c_posix_faithful demo_conf = False"
  "c_bash_mode demo_conf = False" "c_pdksh_family demo_conf = False"
  "c_personality_sh demo_conf = False" "c_emulate_sh demo_conf = False"
  "c_emulate_ksh demo_conf = False" "c_emulating_592 demo_conf = False"
  "c_atomax_clamps demo_conf = True" "o_cprecedences demo_conf = False"
  "o_forcefloat demo_conf = False" "o_octalzeroes demo_conf = False"
  "o_unset demo_conf = True" "o_ksharrays demo_conf = False"
  "o_multibyte demo_conf = True" "o_posixidentifiers demo_conf = False"
  "c_lastval demo_conf = 0" "c_pid demo_conf = 4242" "c_pound demo_conf = 0"
  "c_iswalnum demo_conf u = False"
  by (simp_all add: demo_conf_def)

lemma int_floats_sel [simp]:
  "f_zero int_floats = 0" "f_one int_floats = 1" "f_of_int int_floats = sint"
  "f_to_int int_floats = word_of_int" "f_neg int_floats = uminus"
  "f_lt int_floats x y = (x < y)" "f_le int_floats x y = (x \<le> y)" "f_eq int_floats x y = (x = y)"
  "f_trunc int_floats x = x" "f_pow int_floats x y = x ^ nat y"
  "f_add int_floats x y = x + y" "f_sub int_floats x y = x - y" "f_mul int_floats x y = x * y"
  "f_div int_floats x y = x sdiv y" "f_rem int_floats x y = x smod y"
  "f_nan int_floats = 0" "f_inf int_floats = 0"
  by (simp_all add: int_floats_def)

lemma demo_ops_sel [simp]:
  "p_get demo_ops name env = map_of env name" "p_visible demo_ops name env = True"
  "p_getsparam demo_ops = demo_getsparam" "p_array0 demo_ops name env = None"
  "p_assignnparam demo_ops = demo_assignnparam" "p_setnparam demo_ops = demo_setnparam"
  "p_assignsparam demo_ops = demo_assignsparam" "p_element demo_ops = demo_element"
  "p_mathfuncs demo_ops env = demo_mathfuncs" "p_autoload demo_ops name env = (False, env)"
  "p_nfunc demo_ops name ns env = (\<lparr>mn_l = sum_list (map mn_l ns), mn_d = 0, mn_type = MN_INTEGER\<rparr>, env)"
  by (simp_all add: demo_ops_def)

section \<open>Running the model\<close>

text \<open>The rules \<open>simp\<close> runs the evaluator with on a concrete input, and the congruences that
  keep it from the branches not taken.\<close>

lemmas math_run =
  Let_def mathparse_numeral mathloop_numeral mathevall_numeral keychar_loop_numeral
  math_args_loop_numeral i64_min_def i64_max_def i64_div_def i64_rem_def i64_and_def i64_or_def
  i64_xor_def i64_not_def i64_shl_def i64_shr_def i64_lt_def i64_le_def bool_i64_def wrap_i32_def
  byte_def is_digit_def is_alpha_def is_alnum_def is_hexdigit_def to_lower_def utf8_width_def
  chars.simps code_point_def is_whitespace_def trim_start_def trim_end_def trim_def
  strip_prefix_def strip_suffix_def find_char.simps rfind_char_def str_slice_def span_len_def
  digit_val_def digit_char_def show_nat.simps show_int_def digits_val_def parse_digits_def
  parse_int_def parse_i64_def parse_i32_def parse_u32_def MN_INTEGER_def MN_FLOAT_def MN_UNSET_def
  LR_def RL_def BOOL_def OP_A2_def OP_A2IR_def OP_A2IO_def OP_E2_def OP_E2IO_def OP_OP_def
  OP_OPF_def has_flag_def Z_PREC_def C_PREC_def Z_PREC_TERNARY_MIDDLE_def
  C_PREC_TERNARY_MIDDLE_def OP_TYPE_def op_type_def prec_of_def PM_SCALAR_def PM_ARRAY_def
  PM_INTEGER_def PM_EFLOAT_def PM_FFLOAT_def PM_HASHED_def PM_READONLY_def PM_TIED_def
  PM_SPECIAL_def PM_UNSET_def PM_NAMEREF_def pm_test_def PM_TYPE_def MFF_STR_def MFF_USERFUNC_def
  dash_strict_def posix_faithful_def dash_faithful_def bash_mode_def sh_mode_def pdksh_family_def
  korn_mode_def math_unset_is_error_def MAX_MLEVEL_def int_num_def float_num_def unset_num_def
  as_int_def as_float_def notzero_def is_false_def m_error_some_def m_error_set_def zerr_def
  m_variables_insert_def restore_state_def new_state_def push_def default_mathvalue_def
  pop_with_lval_def top_prec_def Nularg_def Inpar_def skip_nularg_def matheval_run_def
  matheval_nested_def matheval_saved_def base_name_def has_subscript_def subscript_body_def
  typed_read_def to_digit_def strtoimax_acc.simps strtoimax_digits_def dash_atomax_range_def
  dash_arith_var_def octal_lead_def eval_text_def getmathparam_string_def param_text_def
  getmathparam_unset_def getmathparam_text_def getmathparam_element_def getmathparam_raw_def
  getmathparam_def get_value_def pop_def read_operand_def is_hashed_def param_is_set_def starts_with_def
  resolve_lval_def show_num_def setmathvar_element_def retype_def setmathvar_def getcvar_def
  coerce_operands_def op_bits_def op_mul_def op_div_def op_mod_def op_plus_def op_minus_def
  shift_count_def op_shift_def op_compare_def op_logic_def power_loop.simps op_power_def
  binary_result_def wrap_result_def is_assign_def is_binary_def finish_binary_def op_binary_def
  op_uminus_def step_value_def op_postfix_def op_prefix_def op_quest_def is_step_def
  colon_message_def op_unary_def op_def bop_def math_args_loop.simps eval_math_args_def
  wrong_args_def mf_test_def call_userfunc_def call_modfunc_def callmathfunc_def zstrtol_digit_def
  zstrtol_loop.simps zstrtol_sign_def zstrtol_base_def invalid_base_def zstrtol_clip_def
  zstrtol_underscore_def zstrtol_def rest_of_def peek_def peek_is_def peek_sat_def peek_char_def
  move_def advance_def skip_while_def is_ident_start_def is_ident_def set_yyval_def
  set_lastbase_def report_def iident_end.simps inamespc_end_def octal_run_def hex_run_def
  hex_val_def Meta_def decode_escape_def decode_one_def apply_modifiers_def keychar_loop.simps
  decode_math_keychar_def literal_num_def wrap_const_def lex_hex_def lex_bin_def lex_octal_def
  float_scan_def strtod_int_def strtod_mant_def strtod_end_def strtod_text_def float_cut_def
  float_value_def lex_float_def bad_number_def pdksh_digits.simps pdksh_tok_def
  lex_based_pdksh_def bash_tok_char_def bash_digit_def bash_digits.simps lex_based_bash_def
  lex_based_zsh_def lex_based_def wrapping_decimal_def lex_integer_def lex_decimal_def
  lexconstant_def lex_alt_def lex_ret_def lex_plus_def digit_ahead_def lex_minus_def lex_caret_def
  lex_star_def lex_double_def lex_bracket_base_def format_radix_def format_underscore_def
  lex_format_def lex_bracket_def nest_len.simps lex_cid_def lex_hash_def lex_name_def
  lex_quoted_def lex_other_def lex_token_def is_blank_def zzlex_loop.simps zzlex_def
  error_context_def expected_message_def is_op_token_def checkunary_def push_operand_def
  is_operand_token_def middle_assigns_def quest_cond_def noeval_inc_def noeval_dec_def
  middle_table_def middle_prec_def middle_restore_def else_prec_def no_colon_def orphan_binary_def
  orphan_message_def is_bool_def right_prec_def mathparse.simps parse_fuel_def skip_blanks.simps
  sync_options_def trailing_def finish_eval_def entry_state_def entry_prec_def mathevall_body_def
  mathevall.simps plain_def is_name_def fast_operand_def is_op_byte_def fast_apply_def
  fast_binary_def fast_step_def is_writable_def matheval_fast_def reset_output_format_def
  matheval_def num_to_int_def mathevali_def mathevali_noeval_def mathevalarg_def int_param_def
  float_param_def scalar_param_def demo_text_def demo_getsparam_def demo_param_def demo_store_def
  demo_assignnparam_def demo_setnparam_def demo_assignsparam_def demo_element_def
  demo_mathfuncs_def demo_state_def mathloop.simps

lemmas math_run_cong = let_weak_cong if_weak_cong option.case_cong_weak prod.case_cong_weak
  sum.case_cong_weak list.case_cong_weak token.case_cong_weak

end
