(* ===== verification/MathProps.thy ===== *)
theory MathProps
  imports MathRender MathDemo
begin

text \<open>
  The theorems about the evaluator that rest on the interpretation of \<open>math_lexer\<close> at
  \<open>zzlex\<close>: the fuel of \<open>mathevall\<close> suffices, an evaluation restores what it changed, the
  first error is the one reported, and a parse without an error leaves one value.
\<close>

section \<open>Entering the parser\<close>

lemma skip_blanks_frame:
  "modes (skip_blanks st) = modes st" "m_stack (skip_blanks st) = m_stack st"
  "m_unary (skip_blanks st) = m_unary st" "m_error (skip_blanks st) = m_error st"
proof -
  have *: "modes (advance st) = modes st" "m_stack (advance st) = m_stack st"
    "m_unary (advance st) = m_unary st" "m_error (advance st) = m_error st" for st :: "('a, 'b) mstate"
    by (simp_all add: advance_def move_def modes_def split: option.split)
  have "modes (skip_blanks st) = modes st \<and> m_stack (skip_blanks st) = m_stack st \<and>
      m_unary (skip_blanks st) = m_unary st \<and> m_error (skip_blanks st) = m_error st"
    by (induction st rule: skip_blanks.induct) (subst (1 2 3 4) skip_blanks.simps, simp add: *)
  then show "modes (skip_blanks st) = modes st" "m_stack (skip_blanks st) = m_stack st"
    "m_unary (skip_blanks st) = m_unary st" "m_error (skip_blanks st) = m_error st" by auto
qed

definition option_table :: "('f, 'e) mconf \<Rightarrow> nat list" where
  "option_table C = (if o_cprecedences C then C_PREC else Z_PREC)"

lemma option_table_tables [simp]: "option_table C \<in> tables"
  by (simp add: option_table_def)

lemma entry_fields:
  "m_prec (entry_state C st) = option_table C" "m_noeval (entry_state C st) = m_noeval st"
  "m_string_variables (entry_state C st) = m_string_variables st"
  "m_stack (entry_state C st) = m_stack st" "m_unary (entry_state C st) = m_unary st"
  "m_error (entry_state C st) = m_error st"
  using skip_blanks_frame [of "sync_options C st"]
  by (simp_all add: entry_state_def modes_def sync_options_def option_table_def)

lemma entry_level: "level (entry_prec tp (entry_state C st))"
  using level_parts(1) [of "entry_state C st"]
  by (simp add: entry_prec_def entry_fields level_def option_table_def prec_values)

lemma left_le: "left st \<le> length (m_input st)"
  by (simp add: left_def)

lemma mathparse_entry:
  "\<exists>s. mathparse C ev (zzlex C) (parse_fuel (entry_state C st)) (entry_prec tp (entry_state C st)) (entry_state C st) = Some s"
proof -
  let ?s = "entry_state C st"
  have "2 * left ?s + 2 \<le> parse_fuel ?s" using left_le [of ?s] by (simp add: parse_fuel_def)
  moreover have "m_prec ?s \<in> tables" by (simp add: entry_fields)
  ultimately have "mathparse C ev (zzlex C) (parse_fuel ?s) (entry_prec tp ?s) ?s \<noteq> None"
    using zl.parser_fuel entry_level by blast
  then show ?thesis by blast
qed

text \<open>C3.  Termination: the fuel \<open>mathevall\<close> gives the parser, twice the length of the
  expression and four, always suffices, for every input, every precedence argument, every
  mode and whatever the nested evaluations do; the outcome "out of fuel" does not occur.\<close>

theorem mathevall_fuel_suffices:
  "\<exists>s. mathparse C ev (zzlex C) (parse_fuel (entry_state C st)) (entry_prec tp (entry_state C st)) (entry_state C st) = Some s"
  by (rule mathparse_entry)

section \<open>What an evaluation restores\<close>

lemma finish_eval_quiet: "steady (snd (finish_eval C ev tp st)) = steady st"
proof -
  have r: "steady (snd (read_operand C ev mv (st\<lparr>m_stack := k\<rparr>))) = steady st" for mv k
  proof -
    have "quiet (st\<lparr>m_stack := k\<rparr>) (snd (read_operand C ev mv (st\<lparr>m_stack := k\<rparr>)))" by simp
    then show ?thesis by (simp add: quiet_def)
  qed
  show ?thesis
    using r by (auto simp: finish_eval_def Let_def split_beta split: option.splits list.splits)
qed

lemma steady_modes: "steady s = steady st \<Longrightarrow> modes s = modes st"
  by (simp add: steady_def modes_def)

lemma mathevall_body_modes: "modes (snd (mathevall_body C ev tp st)) = modes (entry_state C st)"
proof -
  let ?s = "entry_state C st"
  obtain s where s: "mathparse C ev (zzlex C) (parse_fuel ?s) (entry_prec tp ?s) ?s = Some s"
    using mathparse_entry by blast
  then have "ran ?s s" using zl.parser_ran by blast
  moreover have "modes (snd (finish_eval C ev tp s)) = modes s"
    by (rule steady_modes [OF finish_eval_quiet])
  ultimately show ?thesis
    by (simp add: mathevall_body_def Let_def s ran_def)
qed

text \<open>C4.  Invariant: whatever an evaluation at any nesting depth does, and whether it
  succeeds or fails, it hands the suppression counter \<open>noeval\<close> and the string variables
  back as it found them and leaves the precedence table the \<open>CPRECEDENCES\<close> option selects:
  the temporary changes made by \<open>&&\<close>, \<open>||\<close>, \<open>?:\<close>, by the nested evaluations of subscripts and parameter
  texts and by the table of the middle operand are all undone.\<close>

theorem mathevall_restores_modes:
  "m_noeval (snd (mathevall C n tp st)) = m_noeval st \<and>
   m_string_variables (snd (mathevall C n tp st)) = m_string_variables st \<and>
   m_prec (snd (mathevall C n tp st)) = option_table C"
proof (cases n)
  case 0
  then show ?thesis by (simp add: sync_options_def option_table_def)
next
  case (Suc k)
  then show ?thesis
    using mathevall_body_modes [where C = C and ev = "mathevall C k" and tp = tp and st = st]
    by (simp add: modes_def entry_fields)
qed

section \<open>The operand stack\<close>

text \<open>C5.  Invariant: a parse that starts where an operand is expected and ends without an
  error leaves exactly one value above the operands that were on the stack, so no operator
  ever took an operand that was not its own and no value is lost or left over.  The one
  exception is the empty expression, where the first token already is the end of the input: it
  leaves the stack as it was, and only the outermost parse accepts it.\<close>

theorem parse_leaves_one_value:
  assumes "mathparse C ev (zzlex C) n pc st = Some s" "m_prec st \<in> tables" "level pc"
    and "m_unary st" "m_error s = None"
  shows "if fst (zzlex C st) = EOI then m_stack s = m_stack st \<and> m_mtok s = EOI \<and> pc = top_prec st
    else \<exists>v. m_stack s = v # m_stack st"
  using zl.parser_value [OF assms(1-4)] assms(5) by (auto simp: m_error_some_def one_value_def split: if_splits)

theorem parse_leaves_one_value_witness:
  "\<exists>s. mathparse demo_conf (mathevall demo_conf 5) (zzlex demo_conf) 20 18 ((demo_state [])\<lparr>m_input := ''1+(2)''\<rparr>) = Some s
     \<and> length (m_stack s) = 1"
proof -
  let ?st = "(demo_state [])\<lparr>m_input := ''1+(2)''\<rparr>"
  have "map_option (\<lambda>s. (m_error s, m_stack s = [])) (mathparse demo_conf (mathevall demo_conf 5) (zzlex demo_conf) 20 18 ?st)
      = Some (None, False)"
    by (simp add: math_run cong: math_run_cong)
  then obtain s where s: "mathparse demo_conf (mathevall demo_conf 5) (zzlex demo_conf) 20 18 ?st = Some s"
    "m_error s = None" "m_stack s \<noteq> []" by auto
  have st: "m_prec ?st \<in> tables" "m_unary ?st" "m_stack ?st = []"
    by (simp_all add: demo_state_def)
  have "level 18" by (simp add: level_def)
  from parse_leaves_one_value [OF s(1) st(1) this st(2) s(2)] show ?thesis
    using s st(3) by (auto split: if_splits)
qed

end
