(* ===== verification/MathEval.thy ===== *)
theory MathEval
  imports MathValue MathProps
begin

text \<open>
  The evaluator reads a printed expression back to its value: the run of the parser follows
  the structure of the expression, whatever is on the stack below and whatever follows.
\<close>

section \<open>States of a run\<close>

text \<open>The parser may start an operand here.\<close>

definition starts :: "nat list \<Rightarrow> ('f, 'e) mstate \<Rightarrow> bool" where
  "starts P st \<longleftrightarrow>
     \<not> m_error_some st \<and> m_unary st \<and> \<not> m_force_float st \<and> 0 \<le> m_noeval st \<and> m_prec st = P"

text \<open>The value is on the stack, the token behind the expression has been read and checked.\<close>

definition landed :: "'f mnumber \<Rightarrow> token \<Rightarrow> string \<Rightarrow> ('f, 'e) mstate \<Rightarrow> ('f, 'e) mstate \<Rightarrow> bool" where
  "landed v t r st f \<longleftrightarrow> m_stack f = entry v # m_stack st \<and> m_mtok f = t \<and> rest_of f = r \<and>
     (m_unary f \<longleftrightarrow> \<not> has_flag (op_type t) OP_OPF) \<and> ctx f = ctx st"

text \<open>What follows an expression: a token that ends it.\<close>

definition follows :: "('f, 'e) mconf \<Rightarrow> string \<Rightarrow> token \<Rightarrow> string \<Rightarrow> bool" where
  "follows C r t r' \<longleftrightarrow> num_end r \<and> is_op_token t \<and> reads C False r t r'"

text \<open>The token does not continue an expression of level \<open>q\<close> on its right edge.\<close>

definition tight :: "nat list \<Rightarrow> nat \<Rightarrow> token \<Rightarrow> bool" where
  "tight P q t \<longleftrightarrow> q < prec_of P t \<or> (q = prec_of P t \<and> \<not> is_rl t)"

definition outcome ::
  "('f, 'e) mconf \<Rightarrow> ('f, 'e) evalf \<Rightarrow> nat \<Rightarrow> token \<Rightarrow> string \<Rightarrow> ('f, 'e) mstate \<Rightarrow> string + 'f mnumber \<Rightarrow> bool" where
  "outcome C ev pc t r st res \<longleftrightarrow> (case res of
     Inl m \<Rightarrow> \<exists>s. parses C ev (zzlex C) pc st s \<and> m_error s = Some m
   | Inr v \<Rightarrow> \<exists>f. landed v t r st f \<and>
       (\<forall>s. loops C ev (zzlex C) pc f s \<longrightarrow> parses C ev (zzlex C) pc st s))"

definition main_tables :: "nat list set" where
  "main_tables = {Z_PREC, C_PREC}"

lemma main_tables_tables: "P \<in> main_tables \<Longrightarrow> P \<in> tables"
  by (auto simp: main_tables_def)

lemma ctx_fields:
  assumes "ctx f = ctx st"
  shows "m_error_some f = m_error_some st" "m_error f = m_error st" "m_prec f = m_prec st"
    "m_noeval f = m_noeval st" "m_force_float f = m_force_float st"
  using assms by (simp_all add: ctx_def modes_def m_error_some_def)

lemma fetch_reads:
  fixes st :: "('f, 'e) mstate"
  assumes "reads C (m_unary st) (rest_of st) t r" "is_op_token t \<longleftrightarrow> \<not> m_unary st"
  shows "m_mtok (fetch (zzlex C) st) = t" "rest_of (fetch (zzlex C) st) = r"
    "m_stack (fetch (zzlex C) st) = m_stack st" "ctx (fetch (zzlex C) st) = ctx st"
    "m_unary (fetch (zzlex C) st) \<longleftrightarrow> \<not> has_flag (op_type t) OP_OPF"
proof -
  let ?s = "snd (zzlex C st)"
  have rd: "fst (zzlex C st) = t" "rest_of ?s = r" "m_error ?s = m_error st"
    using assms(1) by (auto simp: reads_def)
  have k: "kept ?s = kept st" using zl.lx_ok [of st C] by (simp add: lex_ok_def)
  have u: "m_unary ?s = m_unary st" using k by (simp add: kept_def)
  have f: "fetch (zzlex C) st = ?s\<lparr>m_mtok := t, m_unary := \<not> has_flag (op_type t) OP_OPF\<rparr>"
    using rd(1) u assms(2) by (simp add: fetch_def checkunary_def Let_def)
  show "m_mtok (fetch (zzlex C) st) = t" "rest_of (fetch (zzlex C) st) = r"
    "m_stack (fetch (zzlex C) st) = m_stack st" "ctx (fetch (zzlex C) st) = ctx st"
    "m_unary (fetch (zzlex C) st) \<longleftrightarrow> \<not> has_flag (op_type t) OP_OPF"
    using rd k by (simp_all add: f ctx_def modes_def kept_def)
qed

text \<open>A blank in front of an operand.\<close>

lemma parses_blank:
  assumes "rest_of st = CHR '' '' # s" "\<not> m_error_some st" "parses C ev (zzlex C) pc (move (Suc 0) st) u"
  shows "parses C ev (zzlex C) pc st u"
proof -
  have "rest_of (set_yyval (int_num C 0) st) = CHR '' '' # s" using assms(1) by simp
  from zzlex_blank [OF this, of C] have z: "zzlex C st = zzlex C (move (Suc 0) st)"
    by (simp add: zzlex_def set_yyval_move)
  have fetch_z: "fetch (zzlex C) st = fetch (zzlex C) (move (Suc 0) st)" by (simp add: fetch_def z)
  obtain n where "mathparse C ev (zzlex C) n pc (move (Suc 0) st) = Some u"
    using assms(3) by (auto simp: parses_def)
  moreover have "\<not> m_error_some (move (Suc 0) st)" using assms(2) by (simp add: m_error_some_def)
  ultimately have "mathparse C ev (zzlex C) n pc st = Some u"
    using assms(2) fetch_z by (cases n) (auto simp: mathparse_Suc z split: if_splits)
  then show ?thesis by (auto simp: parses_def)
qed

lemma move_fields [simp]:
  "m_stack (move n st) = m_stack st" "ctx (move n st) = ctx st" "m_mtok (move n st) = m_mtok st"
  "starts P (move n st) = starts P st" "m_noeval (move n st) = m_noeval st"
  by (simp_all add: move_def ctx_def modes_def starts_def m_error_some_def)

lemma outcome_blank:
  assumes "rest_of st = CHR '' '' # s" "\<not> m_error_some st" "outcome C ev pc t r (move (Suc 0) st) res"
  shows "outcome C ev pc t r st res"
  using assms(3) parses_blank [OF assms(1,2), of C ev pc]
  by (auto simp: outcome_def landed_def split: sum.splits)

text \<open>The first token of an operand.\<close>

lemma outcome_token:
  assumes "starts P st" "reads C True (rest_of st) t0 r0" "\<not> is_op_token t0"
    and "\<And>f. m_mtok f = t0 \<Longrightarrow> rest_of f = r0 \<Longrightarrow> m_stack f = m_stack st \<Longrightarrow> ctx f = ctx st \<Longrightarrow>
           (m_unary f \<longleftrightarrow> \<not> has_flag (op_type t0) OP_OPF) \<Longrightarrow> m_yyval f = m_yyval (snd (zzlex C st)) \<Longrightarrow>
           (case res of
              Inl m \<Rightarrow> \<exists>s. loops C ev (zzlex C) pc f s \<and> m_error s = Some m
            | Inr v \<Rightarrow> \<exists>g. landed v t r st g \<and> (\<forall>s. loops C ev (zzlex C) pc g s \<longrightarrow> loops C ev (zzlex C) pc f s))"
  shows "outcome C ev pc t r st res"
proof -
  have u: "m_unary st" "\<not> m_error_some st" using assms(1) by (simp_all add: starts_def)
  have op: "is_op_token t0 \<longleftrightarrow> \<not> m_unary st" using assms(3) u by simp
  have rd: "reads C (m_unary st) (rest_of st) t0 r0" using assms(2) u by simp
  have y: "m_yyval (fetch (zzlex C) st) = m_yyval (snd (zzlex C st))"
    by (simp add: fetch_def checkunary_def Let_def m_error_set_def)
  have ne: "fst (zzlex C st) \<noteq> EOI" using rd assms(3) by (auto simp: reads_def op_kinds)
  have go: "loops C ev (zzlex C) pc (fetch (zzlex C) st) s \<Longrightarrow> parses C ev (zzlex C) pc st s" for s
    by (rule parses_loop [OF u(2)]) (use ne in auto)
  show ?thesis
    using assms(4) [OF fetch_reads [OF rd op] y] go
    by (auto simp: outcome_def split: sum.splits)
qed

section \<open>Literals and parentheses\<close>

lemma tight_level:
  "tight P q t \<Longrightarrow> k \<le> q \<Longrightarrow> tight P k t"
  by (auto simp: tight_def)

lemma main_prec:
  assumes "P \<in> main_tables"
  shows "prec_of P NUM = 0" "prec_of P M_INPAR = 1" "prec_of P M_OUTPAR = 137"
    "t \<in> set prefix_ops \<Longrightarrow> prec_of P t = 2 \<and> right_prec P t = 2 \<and> is_rl t"
  using assms by (auto simp: main_tables_def prec_values prefix_ops_def right_prec_def is_rl_def flag_defs)

text \<open>The claim for a printed operand at a place of level \<open>q\<close>.\<close>

definition reads_back ::
  "('f, 'e) mconf \<Rightarrow> ('f, 'e) evalf \<Rightarrow> nat list \<Rightarrow> nat \<Rightarrow> expr \<Rightarrow> string \<Rightarrow> bool" where
  "reads_back C ev P q e s \<longleftrightarrow>
     (\<forall>(st :: ('f, 'e) mstate) pc r t r'. starts P st \<longrightarrow> level pc \<longrightarrow> q \<le> pc \<longrightarrow> rest_of st = s @ r \<longrightarrow>
        follows C r t r' \<longrightarrow> tight P q t \<longrightarrow>
        outcome C ev pc t r' st (run_value C (0 < m_noeval st) e))"

lemma reads_back_outcome:
  "reads_back C ev P q e s \<Longrightarrow> starts P st \<Longrightarrow> level pc \<Longrightarrow> q \<le> pc \<Longrightarrow> rest_of st = s @ r \<Longrightarrow>
   follows C r t r' \<Longrightarrow> tight P q t \<Longrightarrow> outcome C ev pc t r' st (run_value C (0 < m_noeval st) e)"
  unfolding reads_back_def by blast

lemma fetch_follows:
  assumes "follows C r t r'" "rest_of f = r" "\<not> m_unary f" "m_stack f = entry v # m_stack st" "ctx f = ctx st"
  shows "landed v t r' st (fetch (zzlex C) f)"
proof -
  have "reads C (m_unary f) (rest_of f) t r'" "is_op_token t \<longleftrightarrow> \<not> m_unary f"
    using assms(1-3) by (simp_all add: follows_def)
  from fetch_reads [OF this] show ?thesis using assms(4,5) by (simp add: landed_def)
qed

lemma push_operand_num:
  "m_mtok f = NUM \<Longrightarrow> push_operand C ev f = f\<lparr>m_stack := entry (m_yyval f) # m_stack f\<rparr>"
  by (simp add: push_operand_def push_def Let_def)

lemma reads_back_literal:
  assumes "P \<in> main_tables" "n < 2 ^ 63"
  shows "reads_back C ev P q (Lit n) (show_nat n)"
  unfolding reads_back_def
proof (intro allI impI)
  fix st :: "('a, 'b) mstate" and pc r t r'
  assume st: "starts P st" "level pc" "q \<le> pc" "rest_of st = show_nat n @ r"
    "follows C r t r'" "tight P q t"
  have rn: "reads_num C n r" by (rule literal_reads [OF _ assms(2)]) (use st(5) in \<open>simp add: follows_def\<close>)
  let ?v = "int_num C (wrap_const C (of_nat n))"
  have z: "fst (zzlex C st) = NUM" "rest_of (snd (zzlex C st)) = r" "m_yyval (snd (zzlex C st)) = ?v"
    "m_error (snd (zzlex C st)) = m_error st"
    using rn st(1,4) by (simp_all add: reads_num_def starts_def)
  have u: "\<not> m_error_some st" "m_unary st" using st(1) by (simp_all add: starts_def)
  have k: "kept (snd (zzlex C st)) = kept st" using zl.lx_ok [of st C] by (simp add: lex_ok_def)
  let ?f = "fetch (zzlex C) st"
  have f: "m_mtok ?f = NUM" "rest_of ?f = r" "m_stack ?f = m_stack st" "ctx ?f = ctx st" "\<not> m_unary ?f"
    "m_yyval ?f = ?v"
    using z k u by (simp_all add: fetch_def checkunary_def Let_def op_kinds kept_def ctx_def modes_def)
  let ?g = "push_operand C ev ?f"
  have g: "rest_of ?g = r" "m_stack ?g = entry ?v # m_stack st" "ctx ?g = ctx st" "\<not> m_unary ?g"
    using f by (simp_all add: push_operand_num ctx_def modes_def)
  have "landed ?v t r' st (fetch (zzlex C) ?g)"
    by (rule fetch_follows [OF st(5) g(1,4,2,3)])
  moreover have "parses C ev (zzlex C) pc st s"
    if "loops C ev (zzlex C) pc (fetch (zzlex C) ?g) s" for s
  proof (rule parses_loop [OF u(1)])
    show "fst (zzlex C st) \<noteq> EOI \<or> pc \<noteq> top_prec (snd (zzlex C st))" using z by simp
    show "loops C ev (zzlex C) pc ?f s"
    proof (rule loops_operand [OF _ _ _ that])
      show "prec_of (m_prec ?f) (m_mtok ?f) \<le> pc"
        using f(1) ctx_fields(3) [OF f(4)] st(1) main_prec(1) [OF assms(1)] by (simp add: starts_def)
      show "\<not> m_error_some ?f" using ctx_fields(1) [OF f(4)] u by simp
    qed (simp add: f is_operand_token_def)
  qed
  ultimately show "outcome C ev pc t r' st (run_value C (0 < m_noeval st) (Lit n))"
    by (auto simp: outcome_def)
qed

lemma level_bound: "P \<in> main_tables \<Longrightarrow> wf_expr e \<Longrightarrow> level_of P e \<le> prec_of P COMMA"
  using prec_comma [OF main_tables_tables]
  by (cases e) (auto simp: infix_ops_def prefix_ops_def)

lemma error_mono_loops:
  "loops C ev (zzlex C) pc st s \<Longrightarrow> m_error st = Some m \<Longrightarrow> m_error s = Some m"
  using zl.parser_ran by (fastforce simp: loops_def ran_def err_mono_def)

text \<open>A group: its value, and the rest behind the closing parenthesis.\<close>

lemma reads_back_parens:
  assumes "P \<in> main_tables" "wf_expr e" "reads_back C ev P (level_of P e) e s"
  shows "reads_back C ev P q e (parens (q < level_of P e) s)"
proof (cases "q < level_of P e")
  case False
  show ?thesis
    unfolding reads_back_def
  proof (intro allI impI)
    fix st :: "('a, 'b) mstate" and pc r t r'
    assume st: "starts P st" "level pc" "q \<le> pc" "rest_of st = parens (q < level_of P e) s @ r"
      "follows C r t r'" "tight P q t"
    have l: "level_of P e \<le> q" using False by simp
    show "outcome C ev pc t r' st (run_value C (0 < m_noeval st) e)"
    proof (rule reads_back_outcome [OF assms(3) st(1,2)])
      show "level_of P e \<le> pc" using l st(3) by simp
      show "rest_of st = s @ r" using st(4) False by (simp add: parens_def)
      show "follows C r t r'" by (rule st(5))
      show "tight P (level_of P e) t" by (rule tight_level [OF st(6) l])
    qed
  qed
next
  case True
  show ?thesis
    unfolding reads_back_def
  proof (intro allI impI)
    fix st :: "('a, 'b) mstate" and pc r t r'
    assume st: "starts P st" "level pc" "q \<le> pc" "rest_of st = parens (q < level_of P e) s @ r"
      "follows C r t r'" "tight P q t"
    have rest: "rest_of st = ''('' @ (s @ '')'' @ r)" using st(4) True by (simp add: parens_def)
    have u: "\<not> m_error_some st" "m_unary st" using st(1) by (simp_all add: starts_def)
    let ?f = "fetch (zzlex C) st"
    have rd: "reads C (m_unary st) (rest_of st) M_INPAR (s @ '')'' @ r)"
      unfolding rest by (rule reads_marks)
    have f: "m_mtok ?f = M_INPAR" "rest_of ?f = s @ '')'' @ r" "m_stack ?f = m_stack st" "ctx ?f = ctx st" "m_unary ?f"
      using fetch_reads [OF rd] u by (simp_all add: op_kinds)
    have fs: "starts P ?f" using f st(1) ctx_fields [OF f(4)] by (simp add: starts_def)
    have top: "level (top_prec ?f)" "level_of P e \<le> top_prec ?f"
      using level_parts(1) [of ?f] main_tables_tables [OF assms(1)] fs level_bound [OF assms(1,2)]
      by (simp_all add: starts_def top_prec_def)
    have fol: "follows C ('')'' @ r) M_OUTPAR r"
      using reads_marks(2) by (simp add: follows_def num_end_def op_kinds)
    have "tight P (level_of P e) M_OUTPAR"
      using level_bound [OF assms(1,2)] main_prec(3) [OF assms(1)] prec_levels(2) [OF main_tables_tables [OF assms(1)]]
      by (simp add: tight_def)
    from reads_back_outcome [OF assms(3) fs top(1,2) f(2) fol this]
    have inner: "outcome C ev (top_prec ?f) M_OUTPAR r ?f (run_value C (0 < m_noeval st) e)"
      using ctx_fields(4) [OF f(4)] by simp
    have ne: "fst (zzlex C st) \<noteq> EOI" using rd by (auto simp: reads_def)
    have go: "loops C ev (zzlex C) pc ?f s \<Longrightarrow> parses C ev (zzlex C) pc st s" for s
      by (rule parses_loop [OF u(1)]) (use ne in auto)
    have pin: "prec_of (m_prec ?f) M_INPAR \<le> pc" "\<not> m_error_some ?f"
      using fs main_prec(2) [OF assms(1)] st(2) by (simp_all add: starts_def level_def)
    show "outcome C ev pc t r' st (run_value C (0 < m_noeval st) e)"
    proof (cases "run_value C (0 < m_noeval st) e")
      case (Inl m)
      then obtain s1 where s1: "parses C ev (zzlex C) (top_prec ?f) ?f s1" "m_error s1 = Some m"
        using inner by (auto simp: outcome_def)
      have "\<exists>s. loops C ev (zzlex C) pc ?f s \<and> m_error s = Some m"
      proof (cases "m_mtok s1 = M_OUTPAR")
        case True
        have "m_error_some (fetch (zzlex C) s1)" using zl.fetch_error [of s1] s1(2) by (simp add: m_error_some_def)
        then have "loops C ev (zzlex C) pc (fetch (zzlex C) s1) (fetch (zzlex C) s1)" by (simp add: loops_exit)
        from loops_group [OF pin f(1) s1(1) True this] have "loops C ev (zzlex C) pc ?f (fetch (zzlex C) s1)" .
        moreover have "m_error (fetch (zzlex C) s1) = Some m"
          using zl.fetch_ran [OF ran_refl, of s1 C] s1(2) by (simp add: ran_def err_mono_def)
        ultimately show ?thesis by blast
      next
        case False
        from loops_group_error [OF pin f(1) s1(1) False] show ?thesis
          using s1(2) by (auto simp: m_error_set_def)
      qed
      then show ?thesis using go Inl by (auto simp: outcome_def)
    next
      case (Inr v)
      then obtain g where g: "landed v M_OUTPAR r ?f g"
        "\<And>s. loops C ev (zzlex C) (top_prec ?f) g s \<Longrightarrow> parses C ev (zzlex C) (top_prec ?f) ?f s"
        using inner by (auto simp: outcome_def)
      have gf: "m_mtok g = M_OUTPAR" "rest_of g = r" "\<not> m_unary g" "m_stack g = entry v # m_stack st" "ctx g = ctx st"
        using g(1) f by (simp_all add: landed_def)
      have "loops C ev (zzlex C) (top_prec ?f) g g"
        using ctx_fields(3) [OF gf(5)] gf(1) st(1) main_prec(3) [OF assms(1)] top(1)
        by (intro loops_exit) (simp add: starts_def level_def)
      then have p: "parses C ev (zzlex C) (top_prec ?f) ?f g" by (rule g(2))
      have "landed v t r' st (fetch (zzlex C) g)"
        by (rule fetch_follows [OF st(5) gf(2-5)])
      moreover have "parses C ev (zzlex C) pc st s" if "loops C ev (zzlex C) pc (fetch (zzlex C) g) s" for s
        by (rule go, rule loops_group [OF pin f(1) p gf(1) that])
      ultimately show ?thesis using Inr by (auto simp: outcome_def)
    qed
  qed
qed

section \<open>Operators\<close>

text \<open>The operand behind an operator: the parser stops in front of the token that follows.\<close>

lemma operand_stops:
  assumes "P \<in> main_tables" "reads_back C ev P q e s" "starts P st" "level q" "rest_of st = '' '' @ s @ r"
    and "follows C r t r'" "q < prec_of P t"
  shows "run_value C (0 < m_noeval st) e = Inl m \<Longrightarrow> \<exists>u. parses C ev (zzlex C) q st u \<and> m_error u = Some m"
    and "run_value C (0 < m_noeval st) e = Inr v \<Longrightarrow> \<exists>u. parses C ev (zzlex C) q st u \<and> landed v t r' st u"
proof -
  let ?m = "move (Suc 0) st"
  have rest: "rest_of ?m = s @ r" using assms(5) by (simp add: rest_move)
  have e: "\<not> m_error_some st" using assms(3) by (simp add: starts_def)
  have "tight P q t" using assms(7) by (simp add: tight_def)
  from reads_back_outcome [OF assms(2) _ assms(4) le_refl rest assms(6) this]
  have "outcome C ev q t r' ?m (run_value C (0 < m_noeval st) e)" using assms(3) by simp
  from outcome_blank [OF _ e this] have o: "outcome C ev q t r' st (run_value C (0 < m_noeval st) e)"
    using assms(5) by simp
  show "run_value C (0 < m_noeval st) e = Inl m \<Longrightarrow> \<exists>u. parses C ev (zzlex C) q st u \<and> m_error u = Some m"
    using o by (auto simp: outcome_def)
  assume "run_value C (0 < m_noeval st) e = Inr v"
  then obtain g where g: "landed v t r' st g"
      "\<And>s. loops C ev (zzlex C) q g s \<Longrightarrow> parses C ev (zzlex C) q st s"
    using o by (auto simp: outcome_def)
  have "loops C ev (zzlex C) q g g"
    using g(1) assms(3,7) ctx_fields(3) [of g st] by (intro loops_exit) (simp add: landed_def starts_def)
  then show "\<exists>u. parses C ev (zzlex C) q st u \<and> landed v t r' st u" using g by blast
qed

lemma reads_back_prefix:
  assumes "P \<in> main_tables" "wf_expr (Pre t e)" "reads_back C ev P 2 e s"
  shows "reads_back C ev P (prec_of P t) (Pre t e) (op_text t @ '' '' @ s)"
  unfolding reads_back_def
proof (intro allI impI)
  fix st :: "('a, 'b) mstate" and pc r t' r'
  have t: "t \<in> set prefix_ops" and we: "wf_expr e" using assms(2) by auto
  note tp = main_prec(4) [OF assms(1) t]
  have kinds: "\<not> is_op_token t" "\<not> is_operand_token t" "t \<noteq> M_INPAR" "t \<noteq> QUEST" "\<not> is_binary t" "\<not> is_bool t"
    "\<not> has_flag (op_type t) OP_OPF"
    using t by (auto simp: prefix_ops_def op_kinds is_operand_token_def binary_kinds is_bool_def flag_defs)
  assume st: "starts P st" "level pc" "prec_of P t \<le> pc" "rest_of st = (op_text t @ '' '' @ s) @ r"
    "follows C r t' r'" "tight P (prec_of P t) t'"
  have lt: "2 < prec_of P t'"
  proof -
    have "prec_of P t' = 2 \<Longrightarrow> is_op_token t' \<Longrightarrow> is_rl t'"
      using assms(1) by (cases t') (auto simp: main_tables_def prec_values is_rl_def flag_defs op_kinds)
    then show ?thesis using st(5,6) tp by (auto simp: tight_def follows_def)
  qed
  have "reads C True (rest_of st) t ('' '' @ s @ r)"
    using reads_prefix [OF t, of C "s @ r"] st(4) by simp
  then show "outcome C ev pc t' r' st (run_value C (0 < m_noeval st) (Pre t e))"
  proof (rule outcome_token [OF st(1) _ kinds(1)])
    fix f :: "('a, 'b) mstate"
    assume f: "m_mtok f = t" "rest_of f = '' '' @ s @ r" "m_stack f = m_stack st" "ctx f = ctx st"
      "m_unary f \<longleftrightarrow> \<not> has_flag (op_type t) OP_OPF"
    have fs: "starts P f" using f st(1) kinds(7) ctx_fields [OF f(4)] by (simp add: starts_def)
    have nv: "m_noeval f = m_noeval st" by (rule ctx_fields(4) [OF f(4)])
    have go: "loops C ev (zzlex C) pc (op C ev t u) z \<Longrightarrow> parses C ev (zzlex C) 2 f u \<Longrightarrow>
        m_noeval u = m_noeval f \<Longrightarrow> loops C ev (zzlex C) pc f z" for u z
    proof -
      assume a: "loops C ev (zzlex C) pc (op C ev t u) z" "parses C ev (zzlex C) 2 f u" "m_noeval u = m_noeval f"
      have "u\<lparr>m_noeval := m_noeval f\<rparr> = u" using a(3) by simp
      then have l: "loops C ev (zzlex C) pc (op C ev t (u\<lparr>m_noeval := m_noeval f\<rparr>)) z" using a(1) by simp
      show "loops C ev (zzlex C) pc f z"
        by (rule loops_operator [OF _ _ f(1) kinds(2-4) _ refl _ l])
          (use st(2,3) fs kinds tp a(2) in \<open>auto simp: starts_def orphan_binary_def\<close>)
    qed
    note stops = operand_stops [OF assms(1,3) fs _ f(2) st(5) lt]
    show "case run_value C (0 < m_noeval st) (Pre t e) of
        Inl m \<Rightarrow> \<exists>s. loops C ev (zzlex C) pc f s \<and> m_error s = Some m
      | Inr v \<Rightarrow> \<exists>g. landed v t' r' st g \<and> (\<forall>s. loops C ev (zzlex C) pc g s \<longrightarrow> loops C ev (zzlex C) pc f s)"
    proof (cases "run_value C (0 < m_noeval st) e")
      case (Inl m)
      then obtain u where u: "parses C ev (zzlex C) 2 f u" "m_error u = Some m"
        using stops(1) [of m] nv by (auto simp: level_def)
      then have "m_noeval u = m_noeval f"
        using zl.parser_ran by (fastforce simp: parses_def ran_def modes_def)
      moreover have "loops C ev (zzlex C) pc (op C ev t u) u"
        using u(2) loops_exit [of pc u C ev] by (simp add: op_def m_error_some_def)
      ultimately have "loops C ev (zzlex C) pc f u" using go [OF _ u(1)] by simp
      then show ?thesis using Inl u(2) by auto
    next
      case (Inr v)
      then obtain u where u: "parses C ev (zzlex C) 2 f u" "landed v t' r' f u"
        using stops(2) [of v] nv by (auto simp: level_def)
      have uf: "m_stack u = entry v # m_stack st" "ctx u = ctx f" "\<not> m_error_some u"
        using u(2) f(3) fs ctx_fields(1) [of u f] by (auto simp: landed_def starts_def)
      have op: "op C ev t u = u\<lparr>m_stack := entry (un_value C t v) # m_stack st\<rparr>"
        by (rule op_prefix_value [OF uf(3,1) run_value_valid [OF we Inr] t])
      have "landed (un_value C t v) t' r' st (op C ev t u)"
        using u(2) f(4) unfolding op by (simp add: landed_def ctx_def modes_def)
      then show ?thesis using go [OF _ u(1)] ctx_fields(4) [OF uf(2)] Inr by auto
    qed
  qed
qed

text \<open>Operators of one level group to the same side.\<close>

lemma rl_levels:
  "is_op_token t \<Longrightarrow> prec_of Z_PREC t \<in> {3..14} \<union> {17} \<Longrightarrow> is_rl t \<longleftrightarrow> prec_of Z_PREC t \<in> {7, 14, 17}"
  "is_op_token t \<Longrightarrow> prec_of C_PREC t \<in> {3..15} \<union> {18} \<Longrightarrow> is_rl t \<longleftrightarrow> prec_of C_PREC t \<in> {3, 15, 18}"
  by (cases t; simp add: prec_values is_rl_def flag_defs op_kinds)+

lemma infix_levels:
  assumes "t \<in> set infix_ops \<union> {QUEST}"
  shows "prec_of Z_PREC t \<in> {3..14} \<union> {17}" "prec_of C_PREC t \<in> {3..15} \<union> {18}" "is_op_token t"
  using assms by (auto simp: infix_ops_def prec_values op_kinds)

lemma same_level:
  assumes "P \<in> main_tables" "t \<in> set infix_ops \<union> {QUEST}" "is_op_token t'" "prec_of P t = prec_of P t'"
  shows "is_rl t' = is_rl t"
proof -
  have "P = Z_PREC \<or> P = C_PREC" using assms(1) by (simp add: main_tables_def)
  then show ?thesis
    using rl_levels(1) [of t'] rl_levels(1) [OF infix_levels(3,1) [OF assms(2)]] infix_levels(1) [OF assms(2)]
      rl_levels(2) [of t'] rl_levels(2) [OF infix_levels(3,2) [OF assms(2)]] infix_levels(2) [OF assms(2)]
      assms(3,4)
    by (elim disjE) simp_all
qed

lemma right_level:
  assumes "P \<in> main_tables" "t \<in> set infix_ops" "is_op_token t'" "tight P (prec_of P t) t'"
  shows "right_prec P t < prec_of P t'"
proof -
  have p: "2 < prec_of P t" using assms(1,2) by (auto simp: main_tables_def infix_ops_def prec_values)
  show ?thesis
  proof (cases "prec_of P t = prec_of P t'")
    case True
    then have "\<not> is_rl t" using same_level [of P t t'] assms by (auto simp: tight_def)
    then show ?thesis using p True by (simp add: right_prec_def is_rl_def)
  next
    case False
    then show ?thesis using assms(4) by (auto simp: tight_def right_prec_def)
  qed
qed

lemma infix_facts:
  assumes "P \<in> main_tables" "t \<in> set infix_ops"
  shows "\<not> is_operand_token t" "t \<noteq> M_INPAR" "t \<noteq> QUEST" "is_op_token t" "\<not> has_flag (op_type t) OP_OPF"
    "is_bool t \<longleftrightarrow> t = DAND \<or> t = DOR" "tight P (left_prec P t) t" "left_prec P t \<le> prec_of P t"
    "level (right_prec P t)"
proof -
  show "\<not> is_operand_token t" "t \<noteq> M_INPAR" "t \<noteq> QUEST" "is_op_token t" "\<not> has_flag (op_type t) OP_OPF"
    using assms(2) by (auto simp: infix_ops_def is_operand_token_def op_kinds)
  show "is_bool t \<longleftrightarrow> t = DAND \<or> t = DOR"
    using assms(2) by (auto simp: infix_ops_def is_bool_def flag_defs)
  have p: "2 < prec_of P t \<and> prec_of P t \<le> 18"
    using assms by (auto simp: main_tables_def infix_ops_def prec_values)
  then show "tight P (left_prec P t) t" by (simp add: tight_def left_prec_def)
  show "left_prec P t \<le> prec_of P t" by (simp add: left_prec_def)
  show "level (right_prec P t)" using p by (auto simp: level_def right_prec_def)
qed

text \<open>The run from a binary operator on, its left operand on the stack.\<close>

lemma infix_run:
  fixes g :: "('f, 'e) mstate"
  assumes "P \<in> main_tables" "wf_expr b" "t \<in> set infix_ops" "reads_back C ev P (right_prec P t) b sb"
    and g: "starts P g" "m_mtok g = t" "rest_of g = '' '' @ sb @ r" "m_stack g = entry x # k" "valid_num x"
    and "prec_of P t \<le> pc" "follows C r t' r'" "tight P (prec_of P t) t'"
  defines "off \<equiv> 0 < m_noeval g"
  defines "res \<equiv> (case run_value C (off \<or> decides C t x) b of Inl m \<Rightarrow> Inl m
       | Inr y \<Rightarrow> if off then Inr (int_num C 0) else bin_value C t x y)"
  shows "case res of
      Inl m \<Rightarrow> \<exists>s. loops C ev (zzlex C) pc g s \<and> m_error s = Some m
    | Inr v \<Rightarrow> \<exists>h. landed v t' r' (g\<lparr>m_stack := k\<rparr>) h \<and> (\<forall>s. loops C ev (zzlex C) pc h s \<longrightarrow> loops C ev (zzlex C) pc g s)"
proof -
  note t = infix_facts [OF assms(1,3)]
  define s1 where "s1 = (if is_bool t then bop C ev t g else g)"
  have s1: "s1 = (if decides C t x then g\<lparr>m_noeval := m_noeval g + 1\<rparr> else g)"
    using bop_value [OF g(4,5), of t C ev] t(6) by (auto simp: s1_def decides_def)
  have st1: "starts P s1" "rest_of s1 = '' '' @ sb @ r" "m_stack s1 = entry x # k"
      "(0 < m_noeval s1) = (off \<or> decides C t x)" "ctx (s1\<lparr>m_noeval := m_noeval g\<rparr>) = ctx g"
    using g by (auto simp: s1 starts_def m_error_some_def off_def ctx_def modes_def)
  have lt: "right_prec P t < prec_of P t'"
    using right_level [OF assms(1,3) _ assms(12)] assms(11) by (simp add: follows_def)
  note stops = operand_stops [OF assms(1,4) st1(1) t(9) st1(2) assms(11) lt, unfolded st1(4)]
  have go: "loops C ev (zzlex C) pc g z"
    if "parses C ev (zzlex C) (right_prec P t) s1 u" "loops C ev (zzlex C) pc (op C ev t (u\<lparr>m_noeval := m_noeval g\<rparr>)) z" for u z
    by (rule loops_operator [OF _ _ g(2) t(1-3) _ s1_def _ that(2)])
      (use g st1(1) assms(10) that(1) in \<open>auto simp: starts_def orphan_binary_def\<close>)
  show ?thesis
  proof (cases "run_value C (off \<or> decides C t x) b")
    case (Inl m)
    then obtain u where u: "parses C ev (zzlex C) (right_prec P t) s1 u" "m_error u = Some m"
      using stops(1) by auto
    let ?u = "u\<lparr>m_noeval := m_noeval g\<rparr>"
    have "op C ev t ?u = ?u" using u(2) by (simp add: op_def m_error_some_def)
    moreover have "loops C ev (zzlex C) pc ?u ?u" using u(2) by (intro loops_exit) (simp add: m_error_some_def)
    ultimately have "loops C ev (zzlex C) pc g ?u" using go [OF u(1)] by simp
    then show ?thesis using Inl u(2) by (auto simp: res_def)
  next
    case (Inr y)
    then obtain u where u: "parses C ev (zzlex C) (right_prec P t) s1 u" "landed y t' r' s1 u"
      using stops(2) by auto
    let ?u = "u\<lparr>m_noeval := m_noeval g\<rparr>"
    have cu: "ctx ?u = ctx g"
    proof -
      have "ctx ?u = ctx (s1\<lparr>m_noeval := m_noeval g\<rparr>)" using u(2) by (simp add: landed_def ctx_def modes_def)
      then show ?thesis using st1(5) by simp
    qed
    have uf: "m_stack ?u = entry y # entry x # k" "\<not> m_error_some ?u"
      using u(2) st1(3) ctx_fields(1) [OF cu] g(1) by (simp_all add: landed_def starts_def)
    note op = op_infix_value [OF uf(2,1) g(5) run_value_valid [OF assms(2) Inr] assms(3), of C ev]
    have land: "landed v t' r' (g\<lparr>m_stack := k\<rparr>) (?u\<lparr>m_stack := entry v # k\<rparr>)" for v
      using u(2) cu by (simp add: landed_def ctx_def modes_def)
    show ?thesis
    proof (cases res)
      case err: (Inl m)
      then have bv: "\<not> off" "bin_value C t x y = Inl m" using Inr by (auto simp: res_def split: if_splits)
      let ?w = "?u\<lparr>m_stack := k, m_error := Some m\<rparr>"
      have "op C ev t ?u = ?w" using op bv by (simp add: off_def)
      moreover have "loops C ev (zzlex C) pc ?w ?w" by (intro loops_exit) (simp add: m_error_some_def)
      ultimately have "loops C ev (zzlex C) pc g ?w" using go [OF u(1)] by simp
      then show ?thesis unfolding err by auto
    next
      case val: (Inr v)
      then have "op C ev t ?u = ?u\<lparr>m_stack := entry v # k\<rparr>"
        using op Inr by (auto simp: res_def off_def split: if_splits)
      then show ?thesis using land [of v] go [OF u(1)] unfolding val by auto
    qed
  qed
qed

text \<open>An outcome carried on behind the left operand.\<close>

lemma outcome_after:
  assumes "landed x t0 r0 st g" "\<And>s. loops C ev (zzlex C) pc g s \<Longrightarrow> parses C ev (zzlex C) pc st s"
    and "case res of
        Inl m \<Rightarrow> \<exists>s. loops C ev (zzlex C) pc g s \<and> m_error s = Some m
      | Inr v \<Rightarrow> \<exists>h. landed v t r (g\<lparr>m_stack := m_stack st\<rparr>) h \<and> (\<forall>s. loops C ev (zzlex C) pc h s \<longrightarrow> loops C ev (zzlex C) pc g s)"
  shows "outcome C ev pc t r st res"
proof -
  have "landed v t r (g\<lparr>m_stack := m_stack st\<rparr>) h \<Longrightarrow> landed v t r st h" for v h
    using assms(1) by (simp add: landed_def ctx_def modes_def)
  then show ?thesis
    using assms(2,3) by (cases res) (fastforce simp: outcome_def)+
qed

lemma landed_starts:
  "landed x t r st g \<Longrightarrow> starts P st \<Longrightarrow> \<not> has_flag (op_type t) OP_OPF \<Longrightarrow> starts P g"
  using ctx_fields [of g st] by (simp add: landed_def starts_def)

lemma reads_back_infix:
  assumes "native C" "P \<in> main_tables" "wf_expr (Bin t a b)"
    and "reads_back C ev P (left_prec P t) a sa" "reads_back C ev P (right_prec P t) b sb"
  shows "reads_back C ev P (prec_of P t) (Bin t a b) (sa @ '' '' @ op_text t @ '' '' @ sb)"
  unfolding reads_back_def
proof (intro allI impI)
  fix st :: "('a, 'b) mstate" and pc r t' r'
  have t: "t \<in> set infix_ops" "wf_expr a" "wf_expr b" using assms(3) by auto
  note tf = infix_facts [OF assms(2) t(1)]
  assume st: "starts P st" "level pc" "prec_of P t \<le> pc" "rest_of st = (sa @ '' '' @ op_text t @ '' '' @ sb) @ r"
    "follows C r t' r'" "tight P (prec_of P t) t'"
  have rest: "rest_of st = sa @ ('' '' @ op_text t @ '' '' @ sb @ r)" using st(4) by simp
  have fol: "follows C ('' '' @ op_text t @ '' '' @ sb @ r) t ('' '' @ sb @ r)"
    using reads_infix [OF assms(1) t(1), of "sb @ r"] tf(4) by (simp add: follows_def num_end_def)
  have "left_prec P t \<le> pc" using tf(8) st(3) by simp
  from reads_back_outcome [OF assms(4) st(1,2) this rest fol tf(7)]
  have left: "outcome C ev pc t ('' '' @ sb @ r) st (run_value C (0 < m_noeval st) a)" .
  show "outcome C ev pc t' r' st (run_value C (0 < m_noeval st) (Bin t a b))"
  proof (cases "run_value C (0 < m_noeval st) a")
    case (Inl m)
    then show ?thesis using left by (simp add: outcome_def)
  next
    case (Inr x)
    then obtain g where g: "landed x t ('' '' @ sb @ r) st g"
        "\<And>s. loops C ev (zzlex C) pc g s \<Longrightarrow> parses C ev (zzlex C) pc st s"
      using left by (auto simp: outcome_def)
    have gf: "m_mtok g = t" "rest_of g = '' '' @ sb @ r" "m_stack g = entry x # m_stack st" "m_noeval g = m_noeval st"
      using g(1) ctx_fields(4) [of g st] by (simp_all add: landed_def)
    have "starts P g" using landed_starts [OF g(1) st(1) tf(5)] .
    note run = infix_run [OF assms(2) t(3,1) assms(5) this gf(1-3) run_value_valid [OF t(2) Inr] st(3,5,6)]
    have eq: "run_value C (0 < m_noeval st) (Bin t a b) =
        (case run_value C (0 < m_noeval g \<or> decides C t x) b of Inl m \<Rightarrow> Inl m
         | Inr y \<Rightarrow> if 0 < m_noeval g then Inr (int_num C 0) else bin_value C t x y)"
      unfolding gf(4) by (simp add: Inr)
    show ?thesis unfolding eq by (rule outcome_after [OF g run])
  qed
qed

section \<open>The conditional\<close>

lemma quest_facts:
  assumes "P \<in> main_tables"
  shows "tight P (left_prec P QUEST) QUEST" "left_prec P QUEST \<le> prec_of P QUEST"
    "level (prec_of P COLON - 1)" "level (prec_of P QUEST)" "prec_of P COLON - 1 < prec_of P COLON"
    "is_op_token t \<Longrightarrow> tight P (prec_of P QUEST) t \<Longrightarrow> prec_of P QUEST < prec_of P t"
proof -
  show "tight P (left_prec P QUEST) QUEST" "left_prec P QUEST \<le> prec_of P QUEST"
    "level (prec_of P COLON - 1)" "level (prec_of P QUEST)" "prec_of P COLON - 1 < prec_of P COLON"
    using assms by (auto simp: main_tables_def prec_values tight_def left_prec_def is_rl_def flag_defs level_def)
  assume t: "is_op_token t" "tight P (prec_of P QUEST) t"
  have "is_rl QUEST" by (simp add: is_rl_def flag_defs)
  then show "prec_of P QUEST < prec_of P t"
    using t same_level [of P QUEST t] assms by (auto simp: tight_def)
qed

lemma native_modes:
  "native C \<Longrightarrow> \<not> middle_assigns C" "native C \<Longrightarrow> \<not> korn_mode C"
  "native C \<Longrightarrow> middle_table C s = s" "native C \<Longrightarrow> middle_restore C s u = u"
  "native C \<Longrightarrow> middle_prec C s = prec_of (m_prec s) COLON - 1"
  "native C \<Longrightarrow> else_prec C s = prec_of (m_prec s) QUEST"
  by (simp_all add: native_def middle_assigns_def korn_mode_def middle_table_def middle_restore_def
      middle_prec_def else_prec_def)

lemma starts_noeval: "starts P s \<Longrightarrow> starts P (noeval_inc b s)"
  by (simp add: starts_def noeval_inc_def m_error_some_def)

lemma ctx_noeval_dec: "ctx u = ctx s \<Longrightarrow> ctx (noeval_dec b u) = ctx (noeval_dec b s)"
  by (cases b) (simp_all add: ctx_def modes_def noeval_dec_def)

text \<open>The run from \<open>?\<close> on, the condition on the stack.\<close>

lemma quest_run:
  fixes g :: "('f, 'e) mstate"
  assumes "native C" "P \<in> main_tables" "wf_expr a" "wf_expr b"
    and rb: "reads_back C ev P (prec_of P COLON - 1) a sa" "reads_back C ev P (prec_of P QUEST) b sb"
    and g: "starts P g" "m_mtok g = QUEST" "rest_of g = '' '' @ sa @ '' : '' @ sb @ r" "m_stack g = entry x # k" "valid_num x"
    and fol: "prec_of P QUEST \<le> pc" "follows C r t' r'" "tight P (prec_of P QUEST) t'"
  shows "case (case run_value C (0 < m_noeval g \<or> is_false C x) a of Inl m \<Rightarrow> Inl m
       | Inr y \<Rightarrow> (case run_value C (0 < m_noeval g \<or> \<not> is_false C x) b of Inl m \<Rightarrow> Inl m
           | Inr z \<Rightarrow> Inr (if is_false C x then z else y))) of
      Inl m \<Rightarrow> \<exists>s. loops C ev (zzlex C) pc g s \<and> m_error s = Some m
    | Inr v \<Rightarrow> \<exists>h. landed v t' r' (g\<lparr>m_stack := k\<rparr>) h \<and> (\<forall>s. loops C ev (zzlex C) pc h s \<longrightarrow> loops C ev (zzlex C) pc g s)"
proof -
  note qf = quest_facts [OF assms(2)]
  note nm = native_modes [OF assms(1)]
  let ?q = "\<not> is_false C x"
  define s1 where "s1 = noeval_inc (\<not> ?q) g"
  have cond: "quest_cond C ev g = (?q, g)"
    using g(4,5) by (simp add: quest_cond_def valid_read)
  have gf: "prec_of (m_prec g) QUEST \<le> pc" "\<not> m_error_some g" "m_stack g \<noteq> []"
    using g(1,4) fol(1) by (simp_all add: starts_def)
  have st1: "starts P s1" "rest_of s1 = '' '' @ sa @ '' : '' @ sb @ r" "m_stack s1 = entry x # k"
    "0 < m_noeval s1 \<longleftrightarrow> 0 < m_noeval g \<or> is_false C x" "ctx (noeval_dec (\<not> ?q) s1) = ctx g"
    "m_prec s1 = P"
    using g starts_noeval [OF g(1), of "\<not> ?q"]
    by (auto simp: s1_def noeval_inc_def noeval_dec_def starts_def ctx_def modes_def)
  have colon: "follows C ('' : '' @ sb @ r) COLON ('' '' @ sb @ r)"
    using reads_marks(4) [of C False "'' '' @ sb @ r"] by (simp add: follows_def num_end_def op_kinds)
  note stops1 = operand_stops [OF assms(2) rb(1) st1(1) qf(3) _ colon qf(5), unfolded st1(4)]
  have rest1: "rest_of s1 = '' '' @ sa @ '' : '' @ sb @ r" by (rule st1(2))
  have mid: "parses C ev (zzlex C) (middle_prec C s1) (middle_table C s1) s2"
    if "parses C ev (zzlex C) (prec_of P COLON - 1) s1 s2" for s2
    using that st1(6) by (simp add: nm)
  note go = loops_quest [OF gf(1,2) g(2) gf(3) cond s1_def mid]
  show ?thesis
  proof (cases "run_value C (0 < m_noeval g \<or> is_false C x) a")
    case (Inl m)
    then obtain s2 where s2: "parses C ev (zzlex C) (prec_of P COLON - 1) s1 s2" "m_error s2 = Some m"
      using stops1(1) rest1 by auto
    have "\<exists>s. loops C ev (zzlex C) pc g s \<and> m_error s = Some m"
    proof (cases "m_mtok s2 = COLON")
      case False
      from loops_quest_error [OF gf(1,2) g(2) gf(3) cond s1_def mid [OF s2(1)] this]
      show ?thesis using s2(2) by (auto simp: m_error_set_def)
    next
      case True
      define s3 where "s3 = noeval_inc ?q (noeval_dec (\<not> ?q) (middle_restore C s1 s2))"
      have e3: "m_error s3 = Some m" using s2(2) by (simp add: s3_def nm noeval_inc_def noeval_dec_def)
      let ?s = "noeval_dec ?q s3"
      have e: "m_error ?s = Some m" using e3 by (simp add: noeval_dec_def)
      have "parses C ev (zzlex C) (else_prec C s3) s3 s3" using e3 by (intro parses_error) (simp add: m_error_some_def)
      moreover have "loops C ev (zzlex C) pc (op C ev QUEST ?s) ?s"
        using e loops_exit [of pc ?s C ev] by (simp add: op_def m_error_some_def)
      ultimately have "loops C ev (zzlex C) pc g ?s" by (rule go [OF s2(1) True s3_def])
      then show ?thesis using e by blast
    qed
    then show ?thesis using Inl by simp
  next
    case (Inr y)
    then obtain s2 where s2: "parses C ev (zzlex C) (prec_of P COLON - 1) s1 s2" "landed y COLON ('' '' @ sb @ r) s1 s2"
      using stops1(2) rest1 by auto
    have f2: "m_mtok s2 = COLON" "rest_of s2 = '' '' @ sb @ r" "m_stack s2 = entry y # entry x # k" "m_unary s2"
      "ctx s2 = ctx s1"
      using s2(2) st1(3) by (simp_all add: landed_def)
    define s3 where "s3 = noeval_inc ?q (noeval_dec (\<not> ?q) (middle_restore C s1 s2))"
    have c3: "ctx (noeval_dec (\<not> ?q) s2) = ctx g"
      using ctx_noeval_dec [OF f2(5)] st1(5) by simp
    have "starts P (noeval_dec (\<not> ?q) s2)"
      using ctx_fields [OF c3] g(1) f2(4) by (simp add: starts_def noeval_dec_def)
    from starts_noeval [OF this, of ?q] have st3: "starts P s3" by (simp add: s3_def nm)
    have f3: "rest_of s3 = '' '' @ sb @ r" "m_stack s3 = entry y # entry x # k"
      "0 < m_noeval s3 \<longleftrightarrow> 0 < m_noeval g \<or> \<not> is_false C x" "ctx (noeval_dec ?q s3) = ctx g" "m_prec s3 = P"
      using f2(2,3) c3 ctx_fields(4) [OF c3] st3 g(1)
      by (auto simp: s3_def nm noeval_inc_def noeval_dec_def starts_def ctx_def modes_def)
    note stops3 = operand_stops [OF assms(2) rb(2) st3 qf(4) f3(1) fol(2) qf(6), unfolded f3(3)]
    have op': "is_op_token t'" using fol(2) by (simp add: follows_def)
    have el: "parses C ev (zzlex C) (else_prec C s3) s3 s4"
      if "parses C ev (zzlex C) (prec_of P QUEST) s3 s4" for s4
      using that f3(5) by (simp add: nm)
    show ?thesis
    proof (cases "run_value C (0 < m_noeval g \<or> \<not> is_false C x) b")
      case err: (Inl m)
      then obtain s4 where s4: "parses C ev (zzlex C) (prec_of P QUEST) s3 s4" "m_error s4 = Some m"
        using stops3(1) op' fol(3) by auto
      let ?s = "noeval_dec ?q s4"
      have e: "m_error ?s = Some m" using s4(2) by (simp add: noeval_dec_def)
      have "loops C ev (zzlex C) pc (op C ev QUEST ?s) ?s"
        using e loops_exit [of pc ?s C ev] by (simp add: op_def m_error_some_def)
      then have "loops C ev (zzlex C) pc g ?s" by (rule go [OF s2(1) f2(1) s3_def el [OF s4(1)]])
      then show ?thesis using e Inr err by auto
    next
      case val: (Inr z)
      then obtain s4 where s4: "parses C ev (zzlex C) (prec_of P QUEST) s3 s4" "landed z t' r' s3 s4"
        using stops3(2) op' fol(3) by auto
      let ?s = "noeval_dec ?q s4" and ?v = "if is_false C x then z else y"
      have c: "ctx ?s = ctx g"
        using ctx_noeval_dec [of s4 s3] s4(2) f3(4) by (simp add: landed_def)
      have sf: "m_stack ?s = entry z # entry y # entry x # k" "\<not> m_error_some ?s"
        using s4(2) f3(2) ctx_fields(1) [OF c] g(1) by (simp_all add: landed_def starts_def noeval_dec_def)
      have o: "op C ev QUEST ?s = ?s\<lparr>m_stack := entry ?v # k\<rparr>"
        by (rule op_quest_value [OF sf(2,1) g(5) run_value_valid [OF assms(3) Inr] run_value_valid [OF assms(4) val]])
      have "landed ?v t' r' (g\<lparr>m_stack := k\<rparr>) (op C ev QUEST ?s)"
        using s4(2) c unfolding o by (simp add: landed_def ctx_def modes_def noeval_dec_def)
      then show ?thesis using Inr val go [OF s2(1) f2(1) s3_def el [OF s4(1)]] by auto
    qed
  qed
qed

lemma reads_back_cond:
  assumes "native C" "P \<in> main_tables" "wf_expr (Cond c a b)"
    and "reads_back C ev P (left_prec P QUEST) c sc" "reads_back C ev P (prec_of P COLON - 1) a sa"
    and "reads_back C ev P (prec_of P QUEST) b sb"
  shows "reads_back C ev P (prec_of P QUEST) (Cond c a b) (sc @ '' ? '' @ sa @ '' : '' @ sb)"
  unfolding reads_back_def
proof (intro allI impI)
  fix st :: "('a, 'b) mstate" and pc r t' r'
  have w: "wf_expr c" "wf_expr a" "wf_expr b" using assms(3) by auto
  note qf = quest_facts [OF assms(2)]
  assume st: "starts P st" "level pc" "prec_of P QUEST \<le> pc" "rest_of st = (sc @ '' ? '' @ sa @ '' : '' @ sb) @ r"
    "follows C r t' r'" "tight P (prec_of P QUEST) t'"
  let ?r = "'' '' @ sa @ '' : '' @ sb @ r"
  have rest: "rest_of st = sc @ ('' ?'' @ ?r)" using st(4) by simp
  have fol: "follows C ('' ?'' @ ?r) QUEST ?r"
    using reads_marks(3) [of C ?r] by (simp add: follows_def num_end_def op_kinds)
  have "left_prec P QUEST \<le> pc" using qf(2) st(3) by simp
  from reads_back_outcome [OF assms(4) st(1,2) this rest fol qf(1)]
  have left: "outcome C ev pc QUEST ?r st (run_value C (0 < m_noeval st) c)" .
  show "outcome C ev pc t' r' st (run_value C (0 < m_noeval st) (Cond c a b))"
  proof (cases "run_value C (0 < m_noeval st) c")
    case (Inl m)
    then show ?thesis using left by (simp add: outcome_def)
  next
    case (Inr x)
    then obtain g where g: "landed x QUEST ?r st g"
        "\<And>s. loops C ev (zzlex C) pc g s \<Longrightarrow> parses C ev (zzlex C) pc st s"
      using left by (auto simp: outcome_def)
    have gf: "m_mtok g = QUEST" "rest_of g = ?r" "m_stack g = entry x # m_stack st" "m_noeval g = m_noeval st"
      using g(1) ctx_fields(4) [of g st] by (simp_all add: landed_def)
    have "starts P g" using landed_starts [OF g(1) st(1)] by simp
    note run = quest_run [OF assms(1,2) w(2,3) assms(5,6) this gf(1-3) run_value_valid [OF w(1) Inr] st(3,5,6)]
    have eq: "run_value C (0 < m_noeval st) (Cond c a b) =
        (case run_value C (0 < m_noeval g \<or> is_false C x) a of Inl m \<Rightarrow> Inl m
         | Inr y \<Rightarrow> (case run_value C (0 < m_noeval g \<or> \<not> is_false C x) b of Inl m \<Rightarrow> Inl m
             | Inr z \<Rightarrow> Inr (if is_false C x then z else y)))"
      unfolding gf(4) by (simp add: Inr)
    show ?thesis unfolding eq by (rule outcome_after [OF g run])
  qed
qed

section \<open>Expressions\<close>

lemma reads_back_expr:
  assumes "native C" "P \<in> main_tables"
  shows "wf_expr e \<Longrightarrow> reads_back C ev P (level_of P e) e (show_expr P e)"
proof (induction e)
  case (Lit n)
  then show ?case by (simp add: reads_back_literal [OF assms(2)])
next
  case (Pre t e)
  then have "right_prec P t = 2" "wf_expr e" using main_prec(4) [OF assms(2)] by auto
  then show ?case
    using reads_back_prefix [OF assms(2) Pre.prems reads_back_parens [OF assms(2) _ Pre.IH]] by simp
next
  case (Bin t a b)
  then have w: "wf_expr a" "wf_expr b" by auto
  show ?case
    using reads_back_infix [OF assms Bin.prems reads_back_parens [OF assms(2) w(1) Bin.IH(1) [OF w(1)]]
        reads_back_parens [OF assms(2) w(2) Bin.IH(2) [OF w(2)]]] by simp
next
  case (Cond c a b)
  then have w: "wf_expr c" "wf_expr a" "wf_expr b" by auto
  show ?case
    using reads_back_cond [OF assms Cond.prems reads_back_parens [OF assms(2) w(1) Cond.IH(1) [OF w(1)]]
        reads_back_parens [OF assms(2) w(2) Cond.IH(2) [OF w(2)]]
        reads_back_parens [OF assms(2) w(3) Cond.IH(3) [OF w(3)]]] by simp
qed

text \<open>The whole text, the end of the input behind it.\<close>

lemma run_expr:
  assumes "native C" "P \<in> main_tables" "wf_expr e" "starts P st" "rest_of st = show_expr P e" "m_stack st = []"
    and "m_noeval st = 0"
  shows "case expr_value C e of
      Inl m \<Rightarrow> \<exists>s. parses C ev (zzlex C) (top_prec st) st s \<and> m_error s = Some m
    | Inr v \<Rightarrow> \<exists>s. parses C ev (zzlex C) (top_prec st) st s \<and> m_error s = None \<and> m_mtok s = EOI \<and>
        rest_of s = [] \<and> m_stack s = [entry v] \<and> valid_num v"
proof -
  have fol: "follows C [] EOI []" using reads_end [of C False] by (simp add: follows_def num_end_def op_kinds)
  have P: "m_prec st = P" "m_error st = None" using assms(4) by (simp_all add: starts_def m_error_some_def)
  have lv: "level (top_prec st)" "level_of P e \<le> top_prec st" "prec_of P EOI = 200"
    using level_parts(1) [of st] main_tables_tables [OF assms(2)] P level_bound [OF assms(2,3)]
      prec_exit [OF main_tables_tables [OF assms(2)]]
    by (simp_all add: top_prec_def)
  have tight: "tight P (level_of P e) EOI"
    using lv(1,2) by (simp add: tight_def lv(3) level_def)
  from reads_back_outcome [OF reads_back_expr [OF assms(1-3)] assms(4) lv(1,2) _ fol tight, of ev]
  have out: "outcome C ev (top_prec st) EOI [] st (expr_value C e)"
    using assms(5,7) run_value_expr [OF assms(3), of C] by simp
  show ?thesis
  proof (cases "expr_value C e")
    case (Inl m)
    then show ?thesis using out by (simp add: outcome_def)
  next
    case (Inr v)
    then obtain f where f: "landed v EOI [] st f"
        "\<And>s. loops C ev (zzlex C) (top_prec st) f s \<Longrightarrow> parses C ev (zzlex C) (top_prec st) st s"
      using out by (auto simp: outcome_def)
    have ff: "m_error f = None" "m_prec f = P" "m_mtok f = EOI" "rest_of f = []" "m_stack f = [entry v]"
      using f(1) ctx_fields [of f st] P assms(6) by (simp_all add: landed_def)
    have "loops C ev (zzlex C) (top_prec st) f f"
      using lv(1) by (intro loops_exit) (simp add: ff lv(3) level_def)
    moreover have "valid_num v"
      using run_value_valid [OF assms(3), of C False v] run_value_expr [OF assms(3), of C] Inr by simp
    ultimately show ?thesis using f(2) ff Inr by auto
  qed
qed

section \<open>An evaluation\<close>

text \<open>A printed expression begins with a character that is not a blank.\<close>

lemma show_nat_head: "\<exists>c cs. show_nat n = c # cs \<and> is_digit c"
  using show_nat_neq_Nil [of n] show_nat_digits [of n] by (cases "show_nat n") auto

lemma show_expr_head:
  "wf_expr e \<Longrightarrow> \<exists>c cs. show_expr P e = c # cs \<and> (is_digit c \<or> c \<in> set ''!~+-('')"
proof (induction e)
  case (Lit n)
  then show ?case using show_nat_head [of n] by auto
next
  case (Pre t e)
  then show ?case by (auto simp: prefix_ops_def)
next
  case (Bin t a b)
  then obtain c cs where "show_expr P a = c # cs" "is_digit c \<or> c \<in> set ''!~+-(''" by auto
  then show ?case by (simp add: parens_def)
next
  case (Cond c a b)
  then obtain d ds where "show_expr P c = d # ds" "is_digit d \<or> d \<in> set ''!~+-(''" by auto
  then show ?case by (simp add: parens_def)
qed

lemma skip_blanks_expr:
  assumes "rest_of st = c # cs" "is_digit c \<or> c \<in> set ''!~+-(''"
  shows "skip_blanks st = st"
proof -
  have b: "byte c < 128" "33 \<le> byte c" using assms(2) by (auto simp: is_digit_def byte_def)
  have "peek_char st = [c]" using assms(1) b by (simp add: peek_char_def utf8_width_def)
  moreover have "\<not> is_whitespace [c]" using b by (simp add: is_whitespace_def code_point_def Let_def)
  ultimately show ?thesis by (subst skip_blanks.simps) (simp add: Nularg_def)
qed

lemma trailing_none: "rest_of s = [] \<Longrightarrow> trailing C s = None"
  by (simp add: trailing_def chars.simps)

lemma mathevall_expr:
  assumes "native C" "\<not> o_forcefloat C" "wf_expr e" "m_input st = show_expr (option_table C) e" "m_pos st = 0"
    and "m_stack st = []" "m_unary st" "m_error st = None" "m_noeval st = 0"
  shows "fst (mathevall C (Suc n) MPREC_TOP st) = expr_value C e"
proof -
  let ?P = "option_table C" and ?s = "entry_state C st" and ?ev = "mathevall C n"
  have P: "?P \<in> main_tables" by (simp add: option_table_def main_tables_def)
  obtain c cs where c: "show_expr ?P e = c # cs" "is_digit c \<or> c \<in> set ''!~+-(''"
    using show_expr_head [OF assms(3)] by blast
  have "rest_of (sync_options C st) = c # cs" using assms(4,5) c by (simp add: rest_of_def sync_options_def)
  then have s: "?s = sync_options C st" using skip_blanks_expr c(2) by (simp add: entry_state_def)
  have ss: "starts ?P ?s" "rest_of ?s = show_expr ?P e" "m_stack ?s = []" "m_noeval ?s = 0"
    "\<not> length (m_input ?s) \<le> m_pos ?s"
    unfolding s using assms c
    by (simp_all add: starts_def sync_options_def m_error_some_def rest_of_def option_table_def)
  obtain z where z: "mathparse C ?ev (zzlex C) (parse_fuel ?s) (entry_prec MPREC_TOP ?s) ?s = Some z"
    using mathparse_entry by blast
  then have val: "fst (mathevall C (Suc n) MPREC_TOP st) = fst (finish_eval C ?ev MPREC_TOP z)"
    using ss(5) by (simp add: mathevall_body_def Let_def)
  have pc: "entry_prec MPREC_TOP ?s = top_prec ?s" by (simp add: entry_prec_def)
  note run = run_expr [OF assms(1) P assms(3) ss(1-4), of ?ev]
  note same = parses_unique [OF _ z [unfolded pc]]
  show ?thesis
  proof (cases "expr_value C e")
    case (Inl m)
    then have "m_error z = Some m" using run same by auto
    then show ?thesis using val Inl by (simp add: finish_eval_def)
  next
    case (Inr v)
    then have "m_error z = None \<and> m_mtok z = EOI \<and> rest_of z = [] \<and> m_stack z = [entry v] \<and> valid_num v"
      using run same by auto
    then show ?thesis using val Inr by (simp add: finish_eval_def trailing_none valid_read)
  qed
qed

text \<open>C1.  Round trip: in zsh's own mode without \<open>FORCE_FLOAT\<close>, with integer literals below 2^63 and
  either precedence table, the evaluator gives every printed expression the value of the expression.  The expression
  is built from literals, the four prefix operators, the binary operators that do not assign
  and \<open>?:\<close>, and printed with parentheses only where the table asks for them; its value is
  computed by recursion, the right operand of \<open>&&\<close> and \<open>||\<close> and the branches of \<open>?:\<close> only when
  they are needed, and the first error is the result.  So the parser groups by precedence
  and associativity as the tables say, and what it parses without evaluating has no effect
  on the value.\<close>

theorem evaluator_reads_back:
  assumes "native C" "\<not> o_forcefloat C" "wf_expr e"
  shows "fst (matheval_run C (mathevall C (Suc n)) (show_expr (option_table C) e) st) = expr_value C e"
proof -
  let ?s = "new_state C (show_expr (option_table C) e) st"
  have "fst (mathevall C (Suc n) MPREC_TOP ?s) = expr_value C e"
    by (rule mathevall_expr [OF assms]) (simp_all add: new_state_def)
  then show ?thesis
    by (simp add: matheval_run_def Let_def split_beta split: sum.split)
qed

definition demo_expr :: expr where
  "demo_expr = Cond (Bin DAND (Lit 2) (Pre NOT (Lit 0)))
     (Bin MINUS (Bin MINUS (Lit 7) (Lit 2)) (Pre UMINUS (Bin POWER (Lit 2) (Lit 3)))) (Bin DIV (Lit 1) (Lit 0))"

theorem evaluator_reads_back_witness:
  "fst (matheval_run demo_conf (mathevall demo_conf (Suc 0))
      ''2 && ! 0 ? 7 - 2 - - (2 ** 3) : 1 / 0'' (demo_state [])) = Inr (int_num demo_conf 13)"
proof -
  have shown: "show_expr (option_table demo_conf) demo_expr = ''2 && ! 0 ? 7 - 2 - - (2 ** 3) : 1 / 0''"
    by (simp add: demo_expr_def option_table_def prec_values left_prec_def right_prec_def is_rl_def flag_defs
        parens_def show_nat.simps digit_chars)
  have v: "expr_value demo_conf demo_expr = Inr (int_num demo_conf 13)"
    by (simp add: demo_expr_def decides_def un_value_def bin_value_def coerce_operands_def binary_result_def
        flag_defs op_logic_def op_minus_def op_power_def op_uminus_def is_false_def wrap_result_def wrap_const_def
        bool_i64_def power_loop.simps as_int_def int_num_def i64_lt_def mode_defs
        MN_INTEGER_def MN_FLOAT_def MN_UNSET_def)
  have "native demo_conf" "\<not> o_forcefloat demo_conf" "wf_expr demo_expr"
    by (simp_all add: native_def mode_defs demo_expr_def prefix_ops_def infix_ops_def)
  from evaluator_reads_back [OF this, of 0 "demo_state []"] show ?thesis
    unfolding shown v .
qed

end
