(* ===== verification/MathArith.thy ===== *)
theory MathArith
  imports MathDemo
begin

text \<open>
  The integer operators of the evaluator against arithmetic: the squaring loop of \<open>**\<close>, the
  division law with its two guards, shifts and 32 bit results.
\<close>

section \<open>Powers\<close>

lemma power_loop_eq: "power_loop e acc r = r * acc ^ e"
proof (induction e acc r rule: power_loop.induct)
  case (1 e acc r)
  show ?case
  proof (cases "e = 0")
    case True
    then show ?thesis by (simp add: power_loop.simps)
  next
    case False
    let ?r = "if odd e then r * acc else r"
    have step: "power_loop e acc r = ?r * (if 0 < e div 2 then acc * acc else acc) ^ (e div 2)"
      using 1 [OF False refl refl] False by (subst power_loop.simps) (simp add: Let_def)
    have sq: "(if 0 < e div 2 then acc * acc else acc) ^ (e div 2) = acc ^ (2 * (e div 2))"
      by (simp add: power_mult power2_eq_square)
    have "?r * acc ^ (2 * (e div 2)) = r * acc ^ e"
    proof (cases "odd e")
      case True
      then have "e = Suc (2 * (e div 2))" by simp
      then have "acc ^ e = acc * acc ^ (2 * (e div 2))" by (metis power_Suc)
      then show ?thesis using True by (simp add: mult.assoc)
    next
      case False
      then show ?thesis by simp
    qed
    then show ?thesis unfolding step sq .
  qed
qed

text \<open>C18.  Equivalence: on integers with a non-negative exponent \<open>**\<close>, which multiplies by
  repeated squaring, computes the power, wrapping modulo two to the 64.\<close>

theorem op_power_integer:
  assumes "mn_type a = MN_INTEGER" "0 \<le> sint (mn_l b)"
  shows "op_power C a b = Inr (int_num C (mn_l a ^ nat (sint (mn_l b))))"
proof -
  have "MN_INTEGER \<noteq> MN_FLOAT" by (simp add: MN_INTEGER_def MN_FLOAT_def)
  moreover have "unat (mn_l b) = nat (sint (mn_l b))" by (rule unat_nonneg [OF assms(2)])
  ultimately show ?thesis
    using assms by (simp add: op_power_def Let_def i64_lt_def power_loop_eq)
qed

theorem op_power_integer_witness:
  "op_power demo_conf (int_num demo_conf 3) (int_num demo_conf 5) = Inr (int_num demo_conf 243)"
  using op_power_integer [of "int_num demo_conf 3" "int_num demo_conf 5" demo_conf]
  by (simp add: int_num_def)

section \<open>Division\<close>

lemma smod_bound: "b \<noteq> 0 \<Longrightarrow> \<bar>a smod b\<bar> < \<bar>b\<bar>" for a b :: int
  by (simp add: signed_modulo_int_def abs_mult sgn_if)

lemma sint_i64_rem: "sint (i64_rem a b) = sint a smod sint b"
proof (cases "sint b = 0")
  case True
  then have "sint a smod sint b = sint a" by (simp add: signed_modulo_int_def sgn_mult_abs)
  then show ?thesis using sint_range [of a] by (simp add: i64_rem_def)
next
  case False
  have "\<bar>sint a smod sint b\<bar> < \<bar>sint b\<bar>" by (rule smod_bound [OF False])
  then have "- (2 ^ 63) \<le> sint a smod sint b" "sint a smod sint b < 2 ^ 63"
    using sint_range [of b] by linarith+
  then show ?thesis by (simp add: i64_rem_def sint_of_range)
qed

lemma sint_neg: "sint (- a) = (if a = i64_min then sint a else - sint a)" for a :: i64
proof (cases "a = i64_min")
  case False
  have "sint a \<noteq> sint i64_min" using False sint_inj by blast
  moreover have "sint i64_min = - (2 ^ 63)" by (simp add: i64_min_def)
  ultimately have "- (2 ^ 63) \<le> - sint a" "- sint a < 2 ^ 63" using sint_range [of a] by linarith+
  then have "sint (word_of_int (- sint a) :: i64) = - sint a" by (rule sint_of_range)
  then show ?thesis using False by simp
qed (simp add: i64_min_def)

lemma sint_quotient:
  assumes "b \<noteq> 0" "b \<noteq> -1"
  shows "sint (i64_div a b) = sint a sdiv sint b"
proof -
  have nz: "sint b \<noteq> 0" "sint b \<noteq> -1" using assms sint_inj [of b 0] sint_inj [of b "-1"] by auto
  have q: "sint a sdiv sint b = sgn (sint a) * sgn (sint b) * (\<bar>sint a\<bar> div \<bar>sint b\<bar>)" by (simp add: signed_divide_int_def)
  have "- (2 ^ 63) \<le> sint a sdiv sint b \<and> sint a sdiv sint b < 2 ^ 63"
  proof (cases "sint b = 1")
    case True
    then show ?thesis using sint_range [of a] by (simp add: q sgn_mult_abs)
  next
    case False
    then have "2 \<le> \<bar>sint b\<bar>" using nz by linarith
    then have "\<bar>sint a\<bar> div \<bar>sint b\<bar> \<le> \<bar>sint a\<bar> div 2" using zdiv_mono2 [of "\<bar>sint a\<bar>" 2 "\<bar>sint b\<bar>"] by simp
    moreover have "\<bar>sint a\<bar> \<le> 2 ^ 63" using sint_range [of a] by linarith
    moreover have "\<bar>sint a\<bar> div 2 < 2 ^ 63" using calculation(2) by (simp add: div_less_iff_less_mult)
    ultimately have "\<bar>sint a\<bar> div \<bar>sint b\<bar> < 2 ^ 63" by linarith
    moreover have "\<bar>sint a sdiv sint b\<bar> \<le> \<bar>sint a\<bar> div \<bar>sint b\<bar>"
      unfolding q by (simp add: abs_mult sgn_if pos_imp_zdiv_nonneg_iff nz(1))
    ultimately show ?thesis by linarith
  qed
  then show ?thesis by (simp add: i64_div_def sint_of_range)
qed

text \<open>Integer division truncates towards zero, the remainder has the sign of the dividend; the one quotient that
  does not fit, of the smallest integer and -1, wraps round to the smallest integer.  Rust would panic on it:
  \<open>op_div\<close> and \<open>op_mod\<close> test for the divisor -1 before they divide.\<close>

theorem integer_division:
  assumes "mn_type a = MN_INTEGER" "mn_type b = MN_INTEGER" "mn_l b \<noteq> 0"
  shows "\<exists>q r. op_div C a b = Inr (int_num C q) \<and> op_mod C a b = Inr (int_num C r) \<and>
    sint q = (if mn_l a = i64_min \<and> mn_l b = -1 then sint i64_min else sint (mn_l a) sdiv sint (mn_l b)) \<and>
    sint r = sint (mn_l a) smod sint (mn_l b)"
proof -
  let ?a = "mn_l a" and ?b = "mn_l b"
  define q where "q = (if ?b = -1 then - ?a else i64_div ?a ?b)"
  define r where "r = (if ?b = -1 then 0 else i64_rem ?a ?b)"
  have t: "MN_INTEGER \<noteq> MN_FLOAT" "MN_INTEGER \<noteq> MN_UNSET" by (simp_all add: MN_INTEGER_def MN_FLOAT_def MN_UNSET_def)
  have "op_div C a b = Inr (int_num C q)" "op_mod C a b = Inr (int_num C r)"
    using assms t by (simp_all add: op_div_def op_mod_def notzero_def as_int_def Let_def q_def r_def)
  moreover have "sint r = sint ?a smod sint ?b"
    by (auto simp: r_def sint_i64_rem signed_modulo_int_def)
  moreover have "sint q = (if ?a = i64_min \<and> ?b = -1 then sint i64_min else sint ?a sdiv sint ?b)"
  proof (cases "?b = -1")
    case True
    then show ?thesis using sint_neg [of ?a] by (auto simp: q_def i64_min_def)
  next
    case False
    then show ?thesis using sint_quotient assms(3) by (simp add: q_def)
  qed
  ultimately show ?thesis by blast
qed

text \<open>Errors: \<open>/\<close> and \<open>%\<close> fail exactly when the dividend is not a float and the divisor is
  an integer zero or unset, and then both with "division by zero"; every other pair of
  operands, the overflowing quotient included, has a result.\<close>

theorem division_errors:
  "(op_div C a b = Inl e \<longleftrightarrow> mn_type a \<noteq> MN_FLOAT \<and> \<not> notzero b \<and> e = ''division by zero'') \<and>
   (op_mod C a b = Inl e \<longleftrightarrow> mn_type a \<noteq> MN_FLOAT \<and> \<not> notzero b \<and> e = ''division by zero'')"
  by (auto simp: op_div_def op_mod_def Let_def)

end
