(* ===== verification/StrtolFacts.thy ===== *)
theory StrtolFacts
  imports MathArith
begin

text \<open>
  The integer scanner: it reads the decimal text of a number back, and it never consumes
  more than the text it is given.
\<close>

section \<open>The loop\<close>

lemma zstrtol_digit_10: "zstrtol_digit 10 c = (if is_digit c then Some (digit_val c) else None)"
  by (auto simp: zstrtol_digit_def is_digit_def digit_val_def Let_def)

lemma loop_index:
  "zstrtol_loop base u s i calc tr = (i', calc', tr') \<Longrightarrow> i \<le> i' \<and> i' \<le> i + length s"
proof (induction base u s i calc tr rule: zstrtol_loop.induct)
  case (2 base u c cs i calc tr)
  then show ?case by (fastforce simp: Let_def split: option.splits if_splits)
qed auto

text \<open>While the accumulator is far from the top bit, every digit is taken.\<close>

lemma loop_digits:
  assumes "list_all is_digit ds" "r = [] \<or> \<not> is_digit (hd r)" "a * 10 ^ length ds + digits_val 10 ds < 2 ^ 63"
  shows "zstrtol_loop 10 False (ds @ r) i (of_nat a) None =
    (i + length ds, of_nat (a * 10 ^ length ds + digits_val 10 ds), None)"
  using assms
proof (induction ds arbitrary: a i)
  case Nil
  then show ?case by (cases r) (auto simp: zstrtol_digit_10)
next
  case (Cons c ds)
  have val: "digits_val 10 (c # ds) = digit_val c * 10 ^ length ds + digits_val 10 ds"
    by (rule digits_val_Cons)
  let ?a = "a * 10 + digit_val c"
  have bound: "?a * 10 ^ length ds + digits_val 10 ds < 2 ^ 63"
    using Cons.prems(3) by (simp add: val algebra_simps)
  have "?a * 1 \<le> ?a * 10 ^ length ds" by (rule mult_le_mono2) simp
  then have "?a \<le> ?a * 10 ^ length ds" by (simp only: mult_1_right)
  from le_less_trans [OF trans_le_add1 [OF this] bound] have small: "?a < 2 ^ 63" .
  have step: "of_nat a * 10 + of_nat (digit_val c) = (of_nat ?a :: 64 word)" by simp
  have ge: "\<not> (of_nat ?a :: 64 word) < of_nat a"
  proof -
    have "unat (of_nat k :: 64 word) = k" if "k < 2 ^ 63" for k
      using that by (simp add: unat_of_nat)
    then show ?thesis using small by (simp add: word_less_nat_alt del: of_nat_add of_nat_mult)
  qed
  show ?case
    using Cons.prems Cons.IH [OF _ _ bound, of "i + 1"] ge
    by (simp add: zstrtol_digit_10 Let_def step val algebra_simps)
qed

section \<open>Properties\<close>

text \<open>C20.  Round trip: \<open>zstrtol\<close> at base ten reads the decimal text of a number below two to the
  63 back, whatever follows it that is not a digit, consumes exactly the digits and
  reports nothing.\<close>

theorem zstrtol_show_nat:
  assumes "n < 2 ^ 63" "r = [] \<or> \<not> is_digit (hd r)"
  shows "zstrtol C (show_nat n @ r) 10 = (of_nat n, length (show_nat n), None)"
proof -
  have loop: "zstrtol_loop 10 False (show_nat n @ r) 0 0 None = (length (show_nat n), of_nat n, None)"
    using loop_digits [of "show_nat n" r 0 0] assms by simp
  obtain c cs where c: "show_nat n = c # cs" by (cases "show_nat n") auto
  have dig: "is_digit c" using show_nat_digits [of n] c by simp
  have sign: "zstrtol_sign (show_nat n @ r) = (0, False)"
    using dig by (auto simp: zstrtol_sign_def c span_len_def is_digit_def byte_def)
  have "sint (word_of_int (int n) :: 64 word) = int n"
    using assms(1) by (intro sint_of_range) simp_all
  then have "\<not> sint (of_nat n :: 64 word) < 0" by simp
  then have clip: "zstrtol_clip 10 False (length (show_nat n), of_nat n, None) = (length (show_nat n), of_nat n, None)"
    by (simp add: zstrtol_clip_def)
  show ?thesis
    by (simp add: zstrtol_def zstrtol_underscore_def sign zstrtol_base_def loop clip)
qed

theorem zstrtol_show_nat_witness:
  "zstrtol demo_conf ''9223372036854775807+1'' 10 = (9223372036854775807, 19, None)"
proof -
  have "show_nat 9223372036854775807 = ''9223372036854775807''"
    by (simp add: show_nat.simps digit_chars)
  then show ?thesis
    using zstrtol_show_nat [of 9223372036854775807 "''+1''" demo_conf] by (simp add: is_digit_def byte_def)
qed

lemma sign_index: "fst (zstrtol_sign s) \<le> length s"
proof -
  let ?i = "span_len (\<lambda>c. c = CHR '' '' \<or> c = CHR 0x09) s"
  have "?i \<le> length s" by (rule span_len_le)
  then show ?thesis
    by (cases "drop ?i s") (auto simp: zstrtol_sign_def Let_def dest: arg_cong [where f = length])
qed

lemma base_index:
  assumes "i \<le> length s"
  shows "fst (zstrtol_base s i base) \<le> length s"
proof -
  have short: "k < length s" if "take (Suc 0) (drop k s) = [c]" for k c
    using that by (cases "k < length s") auto
  show ?thesis using assms by (auto simp: zstrtol_base_def dest!: short)
qed

lemma clip_index: "fst (zstrtol_clip base neg r) = fst r"
  by (simp add: zstrtol_clip_def split: prod.split)

text \<open> Bounds: the scanner never reports more bytes consumed than the text has, for every
  base, sign, prefix and overflow.\<close>

theorem zstrtol_consumes_within:
  "fst (snd (zstrtol_underscore C s base u)) \<le> length s"
proof -
  obtain i neg where s: "zstrtol_sign s = (i, neg)" by (cases "zstrtol_sign s")
  obtain k b where k: "zstrtol_base s i base = (k, b)" by (cases "zstrtol_base s i base")
  have le: "k \<le> length s" using base_index [of i s base] sign_index [of s] s k by simp
  obtain j c t where l: "zstrtol_loop b u (drop k s) k 0 None = (j, c, t)"
    by (cases "zstrtol_loop b u (drop k s) k 0 None")
  have "j \<le> length s" using loop_index [OF l] le by simp
  moreover obtain c' t' where "zstrtol_clip b neg (j, c, t) = (j, c', t')"
    using clip_index [of b neg "(j, c, t)"] by (cases "zstrtol_clip b neg (j, c, t)") auto
  ultimately show ?thesis by (auto simp: zstrtol_underscore_def s k l Let_def)
qed

end
