(* ===== verification/TolerantSort.thy ===== *)
theory TolerantSort
  imports Prelude "HOL-Library.Multiset"
begin

text \<open>
  \<open>qsort_tolerant\<close> of \<open>src/tolerant_sort.rs\<close>: a bottom-up merge sort over indices, followed by
  the permutation of the elements in place along its cycles.  It has to return a
  permutation whatever the comparator answers, and the sorted one, with equal elements in
  their old order, when the comparator is consistent.  The two index arrays are the lists
  \<open>idx\<close> and \<open>tmp\<close>; the inner loops write into \<open>tmp\<close> as the code does.
\<close>

section \<open>The code\<close>

text \<open>\<open>std::cmp::Ordering\<close>.\<close>

datatype ordering = Less | Equal | Greater

fun reverse_ordering :: "ordering \<Rightarrow> ordering" where
  "reverse_ordering Less = Greater" | "reverse_ordering Equal = Equal" | "reverse_ordering Greater = Less"

text \<open>The three loops that merge \<open>idx[left..mid]\<close> with \<open>idx[mid..right]\<close> into \<open>tmp\<close>.\<close>

function merge_both ::
  "('a \<Rightarrow> 'a \<Rightarrow> ordering) \<Rightarrow> 'a list \<Rightarrow> nat list \<Rightarrow> nat \<Rightarrow> nat \<Rightarrow> nat \<Rightarrow> nat \<Rightarrow> nat \<Rightarrow> nat list
    \<Rightarrow> nat \<times> nat \<times> nat \<times> nat list" where
  "merge_both cmp v idx mid right l r k tmp =
     (if l < mid \<and> r < right then
        if cmp (v ! (idx ! l)) (v ! (idx ! r)) = Greater
        then merge_both cmp v idx mid right l (r + 1) (k + 1) (tmp[k := idx ! r])
        else merge_both cmp v idx mid right (l + 1) r (k + 1) (tmp[k := idx ! l])
      else (l, r, k, tmp))"
  by pat_completeness auto
termination
  by (relation "measure (\<lambda>(cmp, v, idx, mid, right, l, r, k, tmp). (mid - l) + (right - r))") auto

function copy_run :: "nat list \<Rightarrow> nat \<Rightarrow> nat \<Rightarrow> nat \<Rightarrow> nat list \<Rightarrow> nat \<times> nat list" where
  "copy_run idx stop l k tmp =
     (if l < stop then copy_run idx stop (l + 1) (k + 1) (tmp[k := idx ! l]) else (k, tmp))"
  by pat_completeness auto
termination
  by (relation "measure (\<lambda>(idx, stop, l, k, tmp). stop - l)") auto

declare merge_both.simps [simp del] copy_run.simps [simp del]

definition merge_run ::
  "('a \<Rightarrow> 'a \<Rightarrow> ordering) \<Rightarrow> 'a list \<Rightarrow> nat list \<Rightarrow> nat \<Rightarrow> nat \<Rightarrow> nat \<Rightarrow> nat list \<Rightarrow> nat list" where
  "merge_run cmp v idx width n i tmp =
     (let left = i;
          mid = min (i + width) n;
          right = min (i + 2 * width) n;
          (l, r, k, tmp1) = merge_both cmp v idx mid right left mid left tmp;
          (k2, tmp2) = copy_run idx mid l k tmp1;
          (k3, tmp3) = copy_run idx right r k2 tmp2
      in tmp3)"

text \<open>One pass over the array, and the passes with doubled widths.  The width starts at 1;
  the guard on it only serves the termination of the definitions.\<close>

function merge_pass ::
  "('a \<Rightarrow> 'a \<Rightarrow> ordering) \<Rightarrow> 'a list \<Rightarrow> nat list \<Rightarrow> nat \<Rightarrow> nat \<Rightarrow> nat \<Rightarrow> nat list \<Rightarrow> nat list" where
  "merge_pass cmp v idx width n i tmp =
     (if i < n \<and> 0 < width
      then merge_pass cmp v idx width n (i + 2 * width) (merge_run cmp v idx width n i tmp)
      else tmp)"
  by pat_completeness auto
termination
  by (relation "measure (\<lambda>(cmp, v, idx, width, n, i, tmp). n - i)") auto

function merge_widths ::
  "('a \<Rightarrow> 'a \<Rightarrow> ordering) \<Rightarrow> 'a list \<Rightarrow> nat \<Rightarrow> nat \<Rightarrow> nat list \<Rightarrow> nat list \<Rightarrow> nat list \<times> nat list" where
  "merge_widths cmp v n width idx tmp =
     (if width < n \<and> 0 < width
      then merge_widths cmp v n (width * 2) (merge_pass cmp v idx width n 0 tmp) idx
      else (idx, tmp))"
  by pat_completeness auto
termination
  by (relation "measure (\<lambda>(cmp, v, n, width, idx, tmp). n - width)") auto

declare merge_pass.simps [simp del] merge_widths.simps [simp del]

text \<open>The permutation in place.  The inner loop ends only because \<open>idx\<close> is a permutation, so
  it has fuel; \<open>None\<close> would be a loop that does not end.\<close>

fun cycle_loop :: "nat \<Rightarrow> nat list \<Rightarrow> nat \<Rightarrow> nat \<Rightarrow> 'a list \<Rightarrow> nat list \<Rightarrow> ('a list \<times> nat list) option" where
  "cycle_loop 0 idx start i v visited = None"
| "cycle_loop (Suc n) idx start i v visited =
     (let visited' = visited[i := 1];
          j = idx ! i
      in if j = start \<or> j = i then Some (v, visited')
         else cycle_loop n idx start j (v[i := v ! j, j := v ! i]) visited')"

fun apply_cycles :: "nat \<Rightarrow> nat list \<Rightarrow> nat list \<Rightarrow> 'a list \<Rightarrow> nat list \<Rightarrow> 'a list option" where
  "apply_cycles n idx [] v visited = Some v"
| "apply_cycles n idx (start # starts) v visited =
     (if visited ! start \<noteq> 0 then apply_cycles n idx starts v visited
      else case cycle_loop n idx start start v visited of
             None \<Rightarrow> None
           | Some (v', visited') \<Rightarrow> apply_cycles n idx starts v' visited')"

definition qsort_tolerant :: "('a \<Rightarrow> 'a \<Rightarrow> ordering) \<Rightarrow> 'a list \<Rightarrow> 'a list option" where
  "qsort_tolerant cmp v =
     (let n = length v
      in if n < 2 then Some v
         else let (idx, tmp) = merge_widths cmp v n 1 [0..<n] (replicate n 0)
              in apply_cycles n idx [0..<n] v (map (\<lambda>_. 0) tmp))"

section \<open>The merge loops as a merge of lists\<close>

definition part :: "'a list \<Rightarrow> nat \<Rightarrow> nat \<Rightarrow> 'a list" where
  "part xs a b = take (b - a) (drop a xs)"

lemma part_empty [simp]: "b \<le> a \<Longrightarrow> part xs a b = []"
  by (simp add: part_def)

lemma part_step: "a < b \<Longrightarrow> b \<le> length xs \<Longrightarrow> part xs a b = xs ! a # part xs (a + 1) b"
  by (simp add: part_def Cons_nth_drop_Suc [symmetric] take_Cons' Suc_diff_Suc)

lemma length_part [simp]: "b \<le> length xs \<Longrightarrow> length (part xs a b) = b - a"
  by (simp add: part_def)

fun merge :: "('a \<Rightarrow> 'a \<Rightarrow> ordering) \<Rightarrow> 'a list \<Rightarrow> 'a list \<Rightarrow> 'a list" where
  "merge cmp [] ys = ys"
| "merge cmp xs [] = xs"
| "merge cmp (x # xs) (y # ys) =
     (if cmp x y = Greater then y # merge cmp (x # xs) ys else x # merge cmp xs (y # ys))"

lemma merge_Nil2 [simp]: "merge cmp xs [] = xs"
  by (cases xs) simp_all

lemma length_merge [simp]: "length (merge cmp xs ys) = length xs + length ys"
  by (induction cmp xs ys rule: merge.induct) simp_all

lemma mset_merge [simp]: "mset (merge cmp xs ys) = mset xs + mset ys"
  by (induction cmp xs ys rule: merge.induct) simp_all

lemma set_merge [simp]: "set (merge cmp xs ys) = set xs \<union> set ys"
  by (induction cmp xs ys rule: merge.induct) auto

text \<open>\<open>tmp\<close> with a list written at a position.\<close>

definition paste :: "nat \<Rightarrow> 'a list \<Rightarrow> 'a list \<Rightarrow> 'a list" where
  "paste k xs tmp = take k tmp @ xs @ drop (k + length xs) tmp"

lemma paste_Nil [simp]: "paste k [] tmp = tmp"
  by (simp add: paste_def)

lemma length_paste [simp]: "k + length xs \<le> length tmp \<Longrightarrow> length (paste k xs tmp) = length tmp"
  by (simp add: paste_def)

lemma paste_Cons:
  "k < length tmp \<Longrightarrow> paste (k + 1) xs (tmp[k := x]) = paste k (x # xs) tmp"
  by (simp add: paste_def take_Suc_conv_app_nth)

lemma paste_paste:
  "k + length xs \<le> length tmp \<Longrightarrow> paste (k + length xs) ys (paste k xs tmp) = paste k (xs @ ys) tmp"
  by (simp add: paste_def ac_simps)

lemma copy_run_paste:
  "stop \<le> length idx \<Longrightarrow> l \<le> stop \<Longrightarrow> k + (stop - l) \<le> length tmp \<Longrightarrow>
   copy_run idx stop l k tmp = (k + (stop - l), paste k (part idx l stop) tmp)"
proof (induction idx stop l k tmp rule: copy_run.induct)
  case (1 idx stop l k tmp)
  show ?case
  proof (cases "l < stop")
    case True
    then show ?thesis
      using 1 by (subst copy_run.simps) (simp add: part_step paste_Cons [symmetric] del: paste_Cons)
  next
    case False
    then show ?thesis using 1 by (subst copy_run.simps) simp
  qed
qed

lemma merge_both_paste:
  "mid \<le> length idx \<Longrightarrow> right \<le> length idx \<Longrightarrow> l \<le> mid \<Longrightarrow> r \<le> right \<Longrightarrow> k + (mid - l) + (right - r) \<le> length tmp \<Longrightarrow>
   merge_both cmp v idx mid right l r k tmp = (l', r', k', tmp') \<Longrightarrow>
   l' \<le> mid \<and> r' \<le> right \<and> length tmp' = length tmp \<and> k' + (mid - l') + (right - r') = k + (mid - l) + (right - r) \<and>
   paste k' (part idx l' mid @ part idx r' right) tmp' =
     paste k (merge (\<lambda>i j. cmp (v ! i) (v ! j)) (part idx l mid) (part idx r right)) tmp"
proof (induction cmp v idx mid right l r k tmp rule: merge_both.induct)
  case (1 cmp v idx mid right l r k tmp)
  show ?case
  proof (cases "l < mid \<and> r < right")
    case False
    then have "l' = l" "r' = r" "k' = k" "tmp' = tmp" using 1(8) by (subst (asm) merge_both.simps, simp)+
    moreover have "part idx l mid = [] \<or> part idx r right = []" using False by auto
    ultimately show ?thesis using 1(5,6) by auto
  next
    case True
    have k: "k < length tmp" using True 1(7) by arith
    have steps: "part idx l mid = idx ! l # part idx (l + 1) mid" "part idx r right = idx ! r # part idx (r + 1) right"
      using True 1(3,4) by (simp_all add: part_step)
    show ?thesis
    proof (cases "cmp (v ! (idx ! l)) (v ! (idx ! r)) = Greater")
      case g: True
      have eq: "merge_both cmp v idx mid right l (r + 1) (k + 1) (tmp[k := idx ! r]) = (l', r', k', tmp')"
        using 1(8) True g by (subst (asm) merge_both.simps) simp
      have e: "k + 1 + (mid - l) + (right - (r + 1)) = k + (mid - l) + (right - r)" using True by arith
      have le: "r + 1 \<le> right" "k + 1 + (mid - l) + (right - (r + 1)) \<le> length (tmp[k := idx ! r])"
        using True 1(7) unfolding e by simp_all
      have m: "merge (\<lambda>i j. cmp (v ! i) (v ! j)) (part idx l mid) (part idx r right) =
          idx ! r # merge (\<lambda>i j. cmp (v ! i) (v ! j)) (part idx l mid) (part idx (r + 1) right)"
        using g by (simp add: steps)
      from 1(1) [OF True g 1(3-5) le eq, unfolded e length_list_update paste_Cons [OF k]] show ?thesis
        unfolding m by blast
    next
      case g: False
      have eq: "merge_both cmp v idx mid right (l + 1) r (k + 1) (tmp[k := idx ! l]) = (l', r', k', tmp')"
        using 1(8) True g by (subst (asm) merge_both.simps) simp
      have e: "k + 1 + (mid - (l + 1)) + (right - r) = k + (mid - l) + (right - r)" using True by arith
      have le: "l + 1 \<le> mid" "k + 1 + (mid - (l + 1)) + (right - r) \<le> length (tmp[k := idx ! l])"
        using True 1(7) unfolding e by simp_all
      have m: "merge (\<lambda>i j. cmp (v ! i) (v ! j)) (part idx l mid) (part idx r right) =
          idx ! l # merge (\<lambda>i j. cmp (v ! i) (v ! j)) (part idx (l + 1) mid) (part idx r right)"
        using g by (simp add: steps)
      from 1(2) [OF True g 1(3,4) le(1) 1(6) le(2) eq, unfolded e length_list_update paste_Cons [OF k]] show ?thesis
        unfolding m by blast
    qed
  qed
qed

lemma merge_run_paste:
  assumes "length idx = n" "length tmp = n" "i < n"
  shows "merge_run cmp v idx width n i tmp =
    paste i (merge (\<lambda>i j. cmp (v ! i) (v ! j)) (take width (drop i idx)) (take width (drop (i + width) idx))) tmp"
proof -
  let ?mid = "min (i + width) n" and ?right = "min (i + 2 * width) n"
  obtain l r k tmp1 where m: "merge_both cmp v idx ?mid ?right i ?mid i tmp = (l, r, k, tmp1)"
    by (cases "merge_both cmp v idx ?mid ?right i ?mid i tmp") auto
  have le: "?mid \<le> length idx" "?right \<le> length idx" "i \<le> ?mid" "?mid \<le> ?right" "i + (?mid - i) + (?right - ?mid) \<le> length tmp"
    using assms by auto
  note mp = merge_both_paste [OF le m]
  have s: "part idx i ?mid = take width (drop i idx)" "part idx ?mid ?right = take width (drop (i + width) idx)"
    using assms(1,3) by (auto simp: part_def min_def)
  have f: "l \<le> ?mid" "r \<le> ?right" "length tmp1 = length tmp"
    "k + (?mid - l) + (?right - r) = i + (?mid - i) + (?right - ?mid)"
    "paste k (part idx l ?mid @ part idx r ?right) tmp1 =
       paste i (merge (\<lambda>i j. cmp (v ! i) (v ! j)) (part idx i ?mid) (part idx ?mid ?right)) tmp"
    using mp by blast+
  have b: "k + (?mid - l) + (?right - r) \<le> length tmp1" unfolding f(3,4) by (rule le(5))
  then have b': "k + (?mid - l) \<le> length tmp1" by (rule add_leD1)
  have c1: "copy_run idx ?mid l k tmp1 = (k + (?mid - l), paste k (part idx l ?mid) tmp1)"
    by (rule copy_run_paste [OF le(1) f(1) b'])
  have l1: "length (paste k (part idx l ?mid) tmp1) = length tmp1"
    using b' length_part [OF le(1), of l] by (intro length_paste) simp
  have c2: "copy_run idx ?right r (k + (?mid - l)) (paste k (part idx l ?mid) tmp1) =
      (k + (?mid - l) + (?right - r), paste (k + (?mid - l)) (part idx r ?right) (paste k (part idx l ?mid) tmp1))"
    by (rule copy_run_paste [OF le(2) f(2)]) (use b l1 in simp)
  have "merge_run cmp v idx width n i tmp = paste (k + (?mid - l)) (part idx r ?right) (paste k (part idx l ?mid) tmp1)"
    by (simp add: merge_run_def Let_def m c1 c2)
  also have "\<dots> = paste k (part idx l ?mid @ part idx r ?right) tmp1"
    using paste_paste [of k "part idx l ?mid" tmp1 "part idx r ?right"] b' length_part [OF le(1), of l] by simp
  finally show ?thesis unfolding f(5) s .
qed

text \<open>A pass, on the part of the list that is left.\<close>

function pass_list :: "(nat \<Rightarrow> nat \<Rightarrow> ordering) \<Rightarrow> nat \<Rightarrow> nat list \<Rightarrow> nat list" where
  "pass_list cmp w xs =
     (if xs = [] \<or> w = 0 then []
      else merge cmp (take w xs) (take w (drop w xs)) @ pass_list cmp w (drop (2 * w) xs))"
  by pat_completeness auto
termination
  by (relation "measure (\<lambda>(cmp, w, xs). length xs)") auto

declare pass_list.simps [simp del]

lemma length_pass_list: "0 < w \<Longrightarrow> length (pass_list cmp w xs) = length xs"
  by (induction cmp w xs rule: pass_list.induct) (subst pass_list.simps, auto)

lemma merge_pass_list:
  "length idx = n \<Longrightarrow> length tmp = n \<Longrightarrow> 0 < w \<Longrightarrow>
   merge_pass cmp v idx w n i tmp = take i tmp @ pass_list (\<lambda>i j. cmp (v ! i) (v ! j)) w (drop i idx)"
proof (induction cmp v idx w n i tmp rule: merge_pass.induct)
  case (1 cmp v idx w n i tmp)
  show ?case
  proof (cases "i < n")
    case False
    then show ?thesis using 1 by (simp add: merge_pass.simps [of cmp v idx w n i] pass_list.simps)
  next
    case True
    let ?m = "merge (\<lambda>i j. cmp (v ! i) (v ! j)) (take w (drop i idx)) (take w (drop (i + w) idx))"
    have r: "merge_run cmp v idx w n i tmp = paste i ?m tmp"
      by (rule merge_run_paste [OF 1(2,3) True])
    have len: "length ?m = min (2 * w) (n - i)" using 1(2) by auto
    then have lp: "length (paste i ?m tmp) = n" using 1(3) True by simp
    have "merge_pass cmp v idx w n i tmp = merge_pass cmp v idx w n (i + 2 * w) (paste i ?m tmp)"
      using True 1(4) by (subst merge_pass.simps) (simp add: r)
    also have "\<dots> = take (i + 2 * w) (paste i ?m tmp) @ pass_list (\<lambda>i j. cmp (v ! i) (v ! j)) w (drop (i + 2 * w) idx)"
      using 1(1) [OF _ 1(2) _ 1(4)] True 1(4) lp by (simp add: r)
    also have "take (i + 2 * w) (paste i ?m tmp) = take i tmp @ ?m"
      using len 1(3) True by (auto simp: paste_def min_def)
    finally show ?thesis
      using True 1(2,4) pass_list.simps [of "\<lambda>i j. cmp (v ! i) (v ! j)" w "drop i idx"] by (simp add: ac_simps)
  qed
qed

lemma merge_pass_whole:
  "length idx = n \<Longrightarrow> length tmp = n \<Longrightarrow> 0 < w \<Longrightarrow>
   merge_pass cmp v idx w n 0 tmp = pass_list (\<lambda>i j. cmp (v ! i) (v ! j)) w idx"
  by (simp add: merge_pass_list)

section \<open>Sorted runs\<close>

text \<open>A run: the indices from \<open>i\<close> on, in some order that \<open>R\<close> allows.\<close>

definition run_ok :: "(nat \<Rightarrow> nat \<Rightarrow> bool) \<Rightarrow> nat \<Rightarrow> nat list \<Rightarrow> bool" where
  "run_ok R i xs \<longleftrightarrow> mset xs = mset [i..<i + length xs] \<and> sorted_wrt R xs"

function runs :: "(nat \<Rightarrow> nat \<Rightarrow> bool) \<Rightarrow> nat \<Rightarrow> nat \<Rightarrow> nat list \<Rightarrow> bool" where
  "runs R w i xs \<longleftrightarrow>
     (if xs = [] then True else if w = 0 then False
      else run_ok R i (take w xs) \<and> runs R w (i + w) (drop w xs))"
  by pat_completeness auto
termination
  by (relation "measure (\<lambda>(R, w, i, xs). length xs)") auto

declare runs.simps [simp del]

lemma runs_single: "runs R 1 i [i..<i + m]"
proof (induction m arbitrary: i)
  case 0
  then show ?case by (simp add: runs.simps)
next
  case (Suc m)
  have "[i..<i + Suc m] = i # [Suc i..<Suc i + m]" by (simp add: upt_rec)
  then show ?case
    using Suc.IH [of "Suc i"] by (subst runs.simps) (simp add: run_ok_def)
qed

lemma sorted_merge:
  assumes "transp R" "\<And>x y. x \<in> set xs \<Longrightarrow> y \<in> set ys \<Longrightarrow> if cmp x y = Greater then R y x else R x y"
  shows "sorted_wrt R xs \<Longrightarrow> sorted_wrt R ys \<Longrightarrow> sorted_wrt R (merge cmp xs ys)"
  using assms(2)
proof (induction cmp xs ys rule: merge.induct)
  case (3 cmp x xs y ys)
  have t: "R a b \<Longrightarrow> R b c \<Longrightarrow> R a c" for a b c using assms(1) by (blast dest: transpD)
  show ?case
  proof (cases "cmp x y = Greater")
    case True
    then have "R y x" using 3(5) [of x y] by simp
    moreover have "sorted_wrt R (merge cmp (x # xs) ys)" using 3 True by simp
    ultimately show ?thesis using True 3(3,4) by (auto intro: t)
  next
    case False
    then have "R x y" using 3(5) [of x y] by simp
    moreover have "sorted_wrt R (merge cmp xs (y # ys))" using 3 False by simp
    ultimately show ?thesis using False 3(3,4) by (auto intro: t)
  qed
qed simp_all

text \<open>What the relation has to know about the comparator.\<close>

definition compares :: "(nat \<Rightarrow> nat \<Rightarrow> bool) \<Rightarrow> (nat \<Rightarrow> nat \<Rightarrow> ordering) \<Rightarrow> nat \<Rightarrow> bool" where
  "compares R cmp n \<longleftrightarrow> transp R \<and> (\<forall>i j. i < j \<and> j < n \<longrightarrow> (if cmp i j = Greater then R j i else R i j))"

lemma run_merge:
  assumes "compares R cmp n" "run_ok R i xs" "run_ok R (i + length xs) ys" "i + length xs + length ys \<le> n"
  shows "run_ok R i (merge cmp xs ys)"
proof -
  have "set xs = set [i..<i + length xs]" "set ys = set [i + length xs..<i + length xs + length ys]"
    by (rule mset_eq_setD, use assms(2,3) in \<open>simp only: run_ok_def\<close>)+
  then have "sorted_wrt R (merge cmp xs ys)"
    using assms by (intro sorted_merge) (auto simp: compares_def run_ok_def)
  moreover have "mset [i..<i + length xs] + mset [i + length xs..<i + length xs + length ys] =
      mset [i..<i + (length xs + length ys)]"
    using upt_add_eq_append [of i "i + length xs" "length ys"] by (simp only: mset_append add.assoc le_add1 simp_thms)
  ultimately show ?thesis using assms(2,3) by (simp add: run_ok_def)
qed

lemma runs_pass:
  "runs R w i xs \<Longrightarrow> compares R cmp n \<Longrightarrow> i + length xs \<le> n \<Longrightarrow> 0 < w \<Longrightarrow> runs R (2 * w) i (pass_list cmp w xs)"
proof (induction cmp w xs arbitrary: i rule: pass_list.induct)
  case (1 cmp w xs)
  show ?case
  proof (cases "xs = []")
    case True
    then show ?thesis by (simp add: pass_list.simps runs.simps)
  next
    case False
    let ?a = "take w xs" and ?b = "take w (drop w xs)" and ?r = "pass_list cmp w (drop (2 * w) xs)"
    have ra: "run_ok R i ?a" "runs R w (i + w) (drop w xs)" using 1(2,5) False by (simp_all add: runs.simps [of R w i])
    show ?thesis
    proof (cases "drop w xs = []")
      case True
      then have "pass_list cmp w xs = xs" using False 1(5) by (simp add: pass_list.simps [of cmp w xs] pass_list.simps [of cmp w "[]"])
      then show ?thesis using ra True False 1(5) by (subst runs.simps) (simp add: runs.simps)
    next
      case cont: False
      then have rb: "run_ok R (i + w) ?b" "runs R w (i + 2 * w) (drop (2 * w) xs)" "length ?a = w"
        using ra(2) 1(5) by (simp_all add: runs.simps [of R w "i + w"] mult_2 mult_2_right ac_simps)
      have rm: "run_ok R i (merge cmp ?a ?b)"
        using run_merge [OF 1(3) ra(1), of ?b] rb 1(4) by simp
      have rr: "runs R (2 * w) (i + 2 * w) ?r"
      proof (cases "drop (2 * w) xs = []")
        case True
        then show ?thesis by (simp add: pass_list.simps [of cmp w "[]"] runs.simps)
      next
        case more: False
        show ?thesis
          by (rule 1(1) [OF _ rb(2) 1(3) _ 1(5)]) (use False 1(4,5) more in auto)
      qed
      have eq: "pass_list cmp w xs = merge cmp ?a ?b @ ?r" using False 1(5) by (simp add: pass_list.simps [of cmp w xs])
      show ?thesis
      proof (cases "?r = []")
        case True
        have "length ?b \<le> w" by simp
        then show ?thesis using rm True eq cont rb(3) 1(5)
          by (subst runs.simps) (simp add: runs.simps)
      next
        case full: False
        then have "2 * w < length xs"
          using length_pass_list [OF 1(5), of cmp "drop (2 * w) xs"] by (cases "2 * w < length xs") auto
        then have "length (merge cmp ?a ?b) = 2 * w" by simp
        then show ?thesis using rm rr eq full 1(5) by (subst runs.simps) simp
      qed
    qed
  qed
qed

lemma merge_widths_sorted:
  "runs R w 0 idx \<Longrightarrow> compares R (\<lambda>i j. cmp (v ! i) (v ! j)) n \<Longrightarrow> length idx = n \<Longrightarrow> length tmp = n \<Longrightarrow> 0 < w \<Longrightarrow>
   merge_widths cmp v n w idx tmp = (idx', tmp') \<Longrightarrow> run_ok R 0 idx' \<and> length idx' = n \<and> length tmp' = n"
proof (induction cmp v n w idx tmp rule: merge_widths.induct)
  case (1 cmp v n w idx tmp)
  show ?case
  proof (cases "w < n")
    case True
    note p = merge_pass_whole [OF 1(4,5,6)]
    have eq: "merge_widths cmp v n (w * 2) (merge_pass cmp v idx w n 0 tmp) idx = (idx', tmp')"
      using 1(6,7) True by (subst (asm) merge_widths.simps) simp
    have r: "runs R (w * 2) 0 (merge_pass cmp v idx w n 0 tmp)"
      using runs_pass [OF 1(2,3) _ 1(6)] 1(4) by (simp add: p ac_simps)
    have l: "length (merge_pass cmp v idx w n 0 tmp) = n"
      using length_pass_list [OF 1(6)] 1(4) by (simp add: p)
    show ?thesis
      by (rule 1(1) [OF _ r 1(3) l 1(4) _ eq]) (use True 1(6) in simp_all)
  next
    case False
    then have "idx' = idx" "tmp' = tmp" using 1(7) by (simp_all add: merge_widths.simps [of cmp v n w])
    moreover have "run_ok R 0 idx"
      using 1(2,4) False by (cases "idx = []") (simp_all add: runs.simps [of R w] run_ok_def split: if_splits)
    ultimately show ?thesis using 1(4,5) by simp
  qed
qed

section \<open>The cycles\<close>

definition marks :: "nat list \<Rightarrow> nat set" where
  "marks visited = {x. x < length visited \<and> visited ! x \<noteq> 0}"

lemma marks_update [simp]: "i < length visited \<Longrightarrow> marks (visited[i := Suc 0]) = insert i (marks visited)"
  by (auto simp: marks_def nth_list_update)

lemma marks_finite [simp]: "finite (marks visited)" "marks visited \<subseteq> {..<length visited}"
  by (auto simp: marks_def)

text \<open>The elements of the visited places are in place and the visited places are whole
  cycles; the others have not moved.\<close>

definition placed :: "nat list \<Rightarrow> 'a list \<Rightarrow> nat set \<Rightarrow> 'a list \<Rightarrow> bool" where
  "placed idx old B v \<longleftrightarrow> length v = length idx \<and> (\<forall>x\<in>B. v ! x = old ! (idx ! x)) \<and>
     (\<forall>x < length idx. x \<notin> B \<longrightarrow> v ! x = old ! x) \<and> (\<forall>x\<in>B. \<exists>y\<in>B. idx ! y = x)"

text \<open>Inside a cycle: the element of its first place travels with the cursor.\<close>

definition travels :: "nat list \<Rightarrow> 'a list \<Rightarrow> nat \<Rightarrow> nat set \<Rightarrow> nat \<Rightarrow> 'a list \<Rightarrow> bool" where
  "travels idx old start B i v \<longleftrightarrow> length v = length idx \<and> i < length idx \<and> i \<notin> B \<and> start \<in> insert i B \<and>
     (\<forall>x\<in>B. v ! x = old ! (idx ! x)) \<and> v ! i = old ! start \<and>
     (\<forall>x < length idx. x \<notin> insert i B \<longrightarrow> v ! x = old ! x) \<and>
     (\<forall>x\<in>insert i B. x \<noteq> start \<longrightarrow> (\<exists>y\<in>B. idx ! y = x))"

lemma travels_start:
  "placed idx old B v \<Longrightarrow> start < length idx \<Longrightarrow> start \<notin> B \<Longrightarrow> travels idx old start B start v"
  by (auto simp: placed_def travels_def)

lemma travels_end:
  "travels idx old start B i v \<Longrightarrow> idx ! i = start \<Longrightarrow> placed idx old (insert i B) v"
  unfolding placed_def travels_def by auto

lemma travels_step:
  assumes "travels idx old start B i v" "distinct idx" "set idx = {..<length idx}" "B \<subseteq> {..<length idx}"
    and "idx ! i \<noteq> start"
  shows "travels idx old start (insert i B) (idx ! i) (v[i := v ! (idx ! i), idx ! i := v ! i])"
    and "idx ! i \<noteq> i"
proof -
  let ?j = "idx ! i"
  have t: "i < length idx" "i \<notin> B" "length v = length idx" "start \<in> insert i B" "v ! i = old ! start"
    "\<And>x. x \<in> B \<Longrightarrow> v ! x = old ! (idx ! x)" "\<And>x. x < length idx \<Longrightarrow> x \<notin> insert i B \<Longrightarrow> v ! x = old ! x"
    "\<And>x. x \<in> insert i B \<Longrightarrow> x \<noteq> start \<Longrightarrow> \<exists>y\<in>B. idx ! y = x"
    using assms(1) by (auto simp: travels_def)
  have jn: "?j < length idx" using assms(3) t(1) nth_mem by blast
  have new: "?j \<notin> insert i B"
  proof
    assume "?j \<in> insert i B"
    then obtain y where "y \<in> B" "idx ! y = ?j" using t(8) assms(5) by blast
    moreover then have "y < length idx" using assms(4) by auto
    ultimately show False using assms(2) t(1,2) nth_eq_iff_index_eq by metis
  qed
  then show "idx ! i \<noteq> i" by simp
  let ?v = "v[i := v ! ?j, ?j := v ! i]"
  have vi: "?v ! i = old ! ?j" "?v ! ?j = old ! start"
    using t(1,3,5) jn new t(7) [OF jn new] by simp_all
  have vB: "?v ! x = v ! x" if "x \<noteq> i" "x \<noteq> ?j" for x using that by simp
  have old: "?v ! x = old ! (idx ! x)" if "x \<in> insert i B" for x
  proof (cases "x = i")
    case True
    then show ?thesis using vi(1) by simp
  next
    case False
    then have "x \<in> B" "x \<noteq> ?j" using that new by auto
    then show ?thesis using vB [OF False] t(6) by simp
  qed
  show "travels idx old start (insert i B) ?j ?v"
    unfolding travels_def
  proof (intro conjI ballI allI impI)
    show "length ?v = length idx" using t(3) by simp
    show "?j < length idx" "?j \<notin> insert i B" by (fact jn new)+
    show "start \<in> insert ?j (insert i B)" using t(4) by simp
    show "?v ! x = old ! (idx ! x)" if "x \<in> insert i B" for x by (rule old [OF that])
    show "?v ! ?j = old ! start" by (rule vi(2))
    show "?v ! x = old ! x" if "x < length idx" "x \<notin> insert ?j (insert i B)" for x
      using that vB [of x] t(7) [of x] by simp
    show "\<exists>y\<in>insert i B. idx ! y = x" if "x \<in> insert ?j (insert i B)" "x \<noteq> start" for x
      using that t(8) by blast
  qed
qed

lemma cycle_loop_ends:
  "travels idx old start (marks vis) i v \<Longrightarrow> distinct idx \<Longrightarrow> set idx = {..<length idx} \<Longrightarrow>
   length vis = length idx \<Longrightarrow> length idx - card (marks vis) \<le> n \<Longrightarrow>
   \<exists>v' vis'. cycle_loop n idx start i v vis = Some (v', vis') \<and> placed idx old (marks vis') v' \<and>
     insert start (marks vis) \<subseteq> marks vis' \<and> length vis' = length idx"
proof (induction n arbitrary: i v vis)
  case 0
  have "marks vis \<subset> {..<length idx}"
    using 0(1,4) marks_finite(2) [of vis] by (auto simp: travels_def)
  then have "card (marks vis) < length idx" using psubset_card_mono [of "{..<length idx}"] by simp
  then show ?case using 0 by simp
next
  case (Suc n)
  let ?vis = "vis[i := Suc 0]"
  have i: "i < length vis" "i \<notin> marks vis" "start \<in> insert i (marks vis)" using Suc(2,5) by (simp_all add: travels_def)
  note m = marks_update [OF i(1)]
  show ?case
  proof (cases "idx ! i = start")
    case True
    then show ?thesis
      using travels_end [OF Suc(2)] m i(3) Suc(5) by (simp add: Let_def) blast
  next
    case False
    have sub: "marks vis \<subseteq> {..<length idx}" using marks_finite(2) [of vis] Suc(5) by simp
    note st = travels_step [OF Suc(2-4) sub False]
    have card: "length idx - card (marks ?vis) \<le> n" using Suc(6) i(2) by (simp add: m)
    obtain v' vis' where "cycle_loop n idx start (idx ! i) (v[i := v ! (idx ! i), idx ! i := v ! i]) ?vis = Some (v', vis')"
      "placed idx old (marks vis') v'" "insert start (marks ?vis) \<subseteq> marks vis'" "length vis' = length idx"
      using Suc(1) [OF _ Suc(3,4) _ card, of "idx ! i" "v[i := v ! (idx ! i), idx ! i := v ! i]"] st(1) Suc(5)
      by (auto simp: m)
    then show ?thesis using False st(2) by (auto simp: Let_def m)
  qed
qed

lemma apply_cycles_all:
  "placed idx old (marks vis) v \<Longrightarrow> distinct idx \<Longrightarrow> set idx = {..<length idx} \<Longrightarrow> length vis = length idx \<Longrightarrow>
   set starts \<subseteq> {..<length idx} \<Longrightarrow>
   \<exists>w B. apply_cycles (length idx) idx starts v vis = Some w \<and> placed idx old B w \<and> marks vis \<union> set starts \<subseteq> B"
proof (induction starts arbitrary: v vis)
  case Nil
  then show ?case by auto
next
  case (Cons a starts)
  show ?case
  proof (cases "vis ! a = 0")
    case False
    then have "a \<in> marks vis" using Cons(5,6) by (simp add: marks_def)
    then show ?thesis using False Cons(1) [OF Cons(2-5)] Cons(6) by auto
  next
    case True
    then have "a \<notin> marks vis" by (simp add: marks_def)
    then have "travels idx old a (marks vis) a v" using travels_start [OF Cons(2)] Cons(6) by simp
    from cycle_loop_ends [OF this Cons(3,4,5), of "length idx"]
    obtain v' vis' where c: "cycle_loop (length idx) idx a a v vis = Some (v', vis')" "placed idx old (marks vis') v'"
      "insert a (marks vis) \<subseteq> marks vis'" "length vis' = length idx" by auto
    from Cons(1) [OF c(2) Cons(3,4) c(4)] Cons(6) obtain w B where
      "apply_cycles (length idx) idx starts v' vis' = Some w" "placed idx old B w" "marks vis' \<union> set starts \<subseteq> B" by auto
    then show ?thesis using c True by auto
  qed
qed

lemma apply_cycles_permutes:
  assumes "mset idx = mset [0..<n]" "length v = n"
  shows "apply_cycles n idx [0..<n] v (replicate n 0) = Some (map ((!) v) idx)"
proof -
  have l: "length idx = n" using assms(1) by (metis diff_zero length_upt size_mset)
  have d: "distinct idx" "set idx = {..<length idx}"
    using mset_eq_imp_distinct_iff [OF assms(1)] mset_eq_setD [OF assms(1)] l
    by (simp_all add: atLeast0LessThan del: mset_upt)
  have "placed idx v (marks (replicate n 0)) v" using assms(2) l by (auto simp: placed_def marks_def)
  from apply_cycles_all [OF this d, of "[0..<n]"] obtain w B where
    w: "apply_cycles n idx [0..<n] v (replicate n 0) = Some w" "placed idx v B w" "{..<n} \<subseteq> B"
    using l by (auto simp: atLeast0LessThan)
  have "w = map ((!) v) idx"
    using w(2,3) l by (intro nth_equalityI) (auto simp: placed_def)
  then show ?thesis using w(1) by simp
qed

section \<open>What the sort returns\<close>

lemma qsort_result:
  obtains idx where "qsort_tolerant cmp v = Some (map ((!) v) idx)" "mset idx = mset [0..<length v]"
    "\<And>R. compares R (\<lambda>i j. cmp (v ! i) (v ! j)) (length v) \<Longrightarrow> sorted_wrt R idx"
proof (cases "length v < 2")
  case True
  have "map ((!) v) [0..<length v] = v" by (rule map_nth)
  moreover have "sorted_wrt R [0..<length v]" for R using True by (cases "length v") auto
  ultimately show thesis using that [of "[0..<length v]"] True by (simp add: qsort_tolerant_def)
next
  case False
  let ?n = "length v"
  obtain idx tmp where m: "merge_widths cmp v ?n 1 [0..<?n] (replicate ?n 0) = (idx, tmp)"
    by (cases "merge_widths cmp v ?n 1 [0..<?n] (replicate ?n 0)") auto
  have r: "run_ok R 0 idx \<and> length idx = ?n \<and> length tmp = ?n"
    if "compares R (\<lambda>i j. cmp (v ! i) (v ! j)) ?n" for R
    using merge_widths_sorted [OF _ that _ _ _ m] runs_single [of R 0 ?n] by simp
  have "compares (\<lambda>_ _. True) (\<lambda>i j. cmp (v ! i) (v ! j)) ?n" by (simp add: compares_def transp_def)
  from r [OF this] have i: "mset idx = mset [0..<?n]" "length tmp = ?n" by (simp_all add: run_ok_def)
  have z: "map (\<lambda>_. 0) tmp = replicate ?n 0" using i(2) by (simp add: map_replicate_const)
  have "qsort_tolerant cmp v = Some (map ((!) v) idx)"
    using False apply_cycles_permutes [OF i(1) refl] by (simp add: qsort_tolerant_def Let_def m [simplified] z)
  then show thesis using that [OF _ i(1)] r by (simp add: run_ok_def)
qed

text \<open>A consistent comparator: a total preorder.\<close>

locale comparator =
  fixes cmp :: "'a \<Rightarrow> 'a \<Rightarrow> ordering"
  assumes cmp_reverse: "cmp y x = reverse_ordering (cmp x y)"
    and cmp_trans: "cmp x y \<noteq> Greater \<Longrightarrow> cmp y z \<noteq> Greater \<Longrightarrow> cmp x z \<noteq> Greater"
begin

lemma cmp_cases: "cmp x y = Less \<longleftrightarrow> cmp y x = Greater" "cmp x y = Equal \<longleftrightarrow> cmp y x = Equal"
  by (cases "cmp x y"; simp add: cmp_reverse [of y x])+

lemma cmp_refl: "cmp x x = Equal"
  using cmp_reverse [of x x] by (cases "cmp x x") simp_all

lemma less_trans: "cmp x y \<noteq> Greater \<Longrightarrow> cmp y z \<noteq> Greater \<Longrightarrow> cmp x y = Less \<or> cmp y z = Less \<Longrightarrow> cmp x z = Less"
  using cmp_trans [of x y z] cmp_trans [of z x y] cmp_trans [of y z x] cmp_cases [of x z] cmp_cases [of x y] cmp_cases [of y z]
  by (cases "cmp x z") auto

definition before :: "'a list \<Rightarrow> nat \<Rightarrow> nat \<Rightarrow> bool" where
  "before v i j \<longleftrightarrow> cmp (v ! i) (v ! j) = Less \<or> cmp (v ! i) (v ! j) = Equal \<and> i < j"

lemma before_compares: "compares (before v) (\<lambda>i j. cmp (v ! i) (v ! j)) n"
proof -
  have "transp (before v)"
  proof (rule transpI)
    fix i j k
    assume *: "before v i j" "before v j k"
    then have le: "cmp (v ! i) (v ! j) \<noteq> Greater" "cmp (v ! j) (v ! k) \<noteq> Greater" by (auto simp: before_def)
    show "before v i k"
    proof (cases "cmp (v ! i) (v ! j) = Less \<or> cmp (v ! j) (v ! k) = Less")
      case True
      then show ?thesis using less_trans [OF le] by (simp add: before_def)
    next
      case False
      then have "i < k" using * by (auto simp: before_def)
      moreover have "cmp (v ! i) (v ! k) \<noteq> Greater" by (rule cmp_trans [OF le])
      ultimately show ?thesis by (cases "cmp (v ! i) (v ! k)") (auto simp: before_def)
    qed
  qed
  moreover have "if cmp (v ! i) (v ! j) = Greater then before v j i else before v i j" if "i < j" for i j
    using that cmp_cases(1) [of "v ! j" "v ! i"] by (cases "cmp (v ! i) (v ! j)") (auto simp: before_def)
  ultimately show ?thesis by (simp add: compares_def)
qed

text \<open>The sort may be run with any function that agrees with the comparator on the elements.\<close>

lemma qsort_before:
  assumes "qsort_tolerant c v = Some w" "\<And>x y. x \<in> set v \<Longrightarrow> y \<in> set v \<Longrightarrow> c x y = cmp x y"
  obtains idx where "w = map ((!) v) idx" "mset idx = mset [0..<length v]" "sorted_wrt (before v) idx"
proof -
  obtain idx where i: "qsort_tolerant c v = Some (map ((!) v) idx)" "mset idx = mset [0..<length v]"
    "\<And>R. compares R (\<lambda>i j. c (v ! i) (v ! j)) (length v) \<Longrightarrow> sorted_wrt R idx"
    using qsort_result [of c v] by blast
  have "compares (before v) (\<lambda>i j. c (v ! i) (v ! j)) (length v)"
    using before_compares [of v "length v"] assms(2) by (simp add: compares_def)
  from i(3) [OF this] show thesis using that i(1,2) assms(1) by simp
qed

lemma qsort_sorted:
  assumes "qsort_tolerant c v = Some w" "\<And>x y. x \<in> set v \<Longrightarrow> y \<in> set v \<Longrightarrow> c x y = cmp x y"
  shows "sorted_wrt (\<lambda>x y. cmp x y \<noteq> Greater) w"
proof -
  obtain idx where i: "w = map ((!) v) idx" "mset idx = mset [0..<length v]" "sorted_wrt (before v) idx"
    using qsort_before [OF assms] .
  have "sorted_wrt (\<lambda>i j. cmp (v ! i) (v ! j) \<noteq> Greater) idx"
    by (rule sorted_wrt_mono_rel [OF _ i(3)]) (auto simp: before_def)
  then show ?thesis by (simp add: i(1) sorted_wrt_map)
qed

lemma qsort_stable:
  assumes "qsort_tolerant c v = Some w" "\<And>x y. x \<in> set v \<Longrightarrow> y \<in> set v \<Longrightarrow> c x y = cmp x y"
    and "\<And>x y. P x \<Longrightarrow> P y \<Longrightarrow> cmp x y = Equal"
  shows "filter P w = filter P v"
proof -
  obtain idx where i: "w = map ((!) v) idx" "mset idx = mset [0..<length v]" "sorted_wrt (before v) idx"
    using qsort_before [OF assms(1,2)] .
  let ?P = "\<lambda>i. P (v ! i)"
  have "sorted_wrt (before v) (filter ?P idx)" by (rule sorted_wrt_filter [OF i(3)])
  then have "sorted_wrt (<) (filter ?P idx)"
    by (rule sorted_wrt_mono_rel [rotated]) (use assms(3) in \<open>auto simp: before_def\<close>)
  moreover have "sorted_wrt (<) (filter ?P [0..<length v])" by (intro sorted_wrt_filter) simp
  moreover have "set (filter ?P idx) = set (filter ?P [0..<length v])"
    using mset_eq_setD [OF i(2)] by simp
  ultimately have "filter ?P idx = filter ?P [0..<length v]"
    by (simp add: strict_sorted_equal)
  then have "map ((!) v) (filter ?P idx) = map ((!) v) (filter ?P [0..<length v])" by simp
  also have "map ((!) v) (filter ?P [0..<length v]) = filter P (map ((!) v) [0..<length v])"
    by (simp add: filter_map comp_def)
  also have "map ((!) v) [0..<length v] = v" by (rule map_nth)
  finally show ?thesis by (simp add: i(1) filter_map comp_def)
qed

text \<open>Elements equal to one element are equal to each other.\<close>

lemma equal_class: "cmp x y = Equal \<Longrightarrow> cmp x z = Equal \<Longrightarrow> cmp y z = Equal"
proof -
  assume "cmp x y = Equal" "cmp x z = Equal"
  then have "cmp y x \<noteq> Greater" "cmp x z \<noteq> Greater" "cmp z x \<noteq> Greater" "cmp x y \<noteq> Greater"
    using cmp_cases(2) [of x y] cmp_cases(2) [of x z] by simp_all
  from cmp_trans [OF this(1,2)] cmp_trans [OF this(3,4)] show "cmp y z = Equal"
    using cmp_cases(1) [of y z] by (cases "cmp y z") auto
qed

end

text \<open>Comparing by a key, and the other way round.\<close>

lemma comparator_key: "comparator cmp \<Longrightarrow> comparator (\<lambda>x y. cmp (f x) (f y))"
  unfolding comparator_def by blast

lemma reverse_Greater [simp]: "reverse_ordering o1 = Greater \<longleftrightarrow> o1 = Less"
  by (cases o1) simp_all

lemma comparator_reverse:
  assumes "comparator cmp"
  shows "comparator (\<lambda>x y. reverse_ordering (cmp x y))"
proof -
  note rev = comparator.cmp_reverse [OF assms] and tr = comparator.cmp_trans [OF assms]
    and less = comparator.cmp_cases(1) [OF assms]
  show ?thesis
  proof
    show "reverse_ordering (cmp y x) = reverse_ordering (reverse_ordering (cmp x y))" for x y
      by (rule arg_cong [OF rev])
    show "reverse_ordering (cmp x z) \<noteq> Greater"
      if "reverse_ordering (cmp x y) \<noteq> Greater" "reverse_ordering (cmp y z) \<noteq> Greater" for x y z
      using that tr [of z y x] less [of x y] less [of y z] less [of x z] by simp
  qed
qed

end
