(* ===== verification/StrSort.thy ===== *)
theory StrSort
  imports TolerantSort
begin

text \<open>
  The string comparison and the array sort of \<open>src/ported/sort.rs\<close>: \<open>zstrcmp\<close> with its numeric and
  backslash modes, \<open>eltpcmp\<close> with the recorded lengths of elements that contain NUL bytes,
  and \<open>strmetasort\<close>, which builds the compare keys once and sorts indices with
  \<open>qsort_tolerant\<close>.  The collation \<open>strcoll\<close> and the case tables of the C library are
  parameters, as is the Unicode lower case of a character.
\<close>

section \<open>Flags and configuration\<close>

definition SORTIT_IGNORING_CASE :: nat where "SORTIT_IGNORING_CASE = 0"
definition SORTIT_NUMERICALLY :: nat where "SORTIT_NUMERICALLY = 1"
definition SORTIT_NUMERICALLY_SIGNED :: nat where "SORTIT_NUMERICALLY_SIGNED = 2"
definition SORTIT_BACKWARDS :: nat where "SORTIT_BACKWARDS = 3"
definition SORTIT_IGNORING_BACKSLASHES :: nat where "SORTIT_IGNORING_BACKSLASHES = 4"

text \<open>A flag is named by its bit; \<open>sortit f b\<close> is \<open>f & (1 << b) != 0\<close>.\<close>

definition sortit :: "32 word \<Rightarrow> nat \<Rightarrow> bool" where
  "sortit flags b = bit flags b"

record sort_conf =
  so_bytewise :: bool
  so_multibyte :: bool
  so_strcoll :: "string \<Rightarrow> string \<Rightarrow> ordering"
  so_to_lowercase :: "string \<Rightarrow> string"
  so_tulower :: "char \<Rightarrow> char"

abbreviation NUL :: char where "NUL \<equiv> CHR 0x00"
abbreviation Bslash :: char where "Bslash \<equiv> CHR 0x5C"

text \<open>\<open><[u8]>::cmp\<close>.\<close>

fun bytes_cmp :: "string \<Rightarrow> string \<Rightarrow> ordering" where
  "bytes_cmp [] [] = Equal"
| "bytes_cmp [] (b # bs) = Less"
| "bytes_cmp (a # as) [] = Greater"
| "bytes_cmp (a # as) (b # bs) =
     (if byte a < byte b then Less else if byte b < byte a then Greater else bytes_cmp as bs)"

section \<open>zstrcmp\<close>

text \<open>\<open>strcoll\<close> reads up to the first NUL.\<close>

definition strcoll_cmp :: "sort_conf \<Rightarrow> string \<Rightarrow> string \<Rightarrow> ordering" where
  "strcoll_cmp S a b = so_strcoll S (takeWhile (\<lambda>c. c \<noteq> NUL) a) (takeWhile (\<lambda>c. c \<noteq> NUL) b)"

text \<open>The backslash skip: at most one on each side per aligned place, up to the first
  mismatch; the remainders are collated.\<close>

definition skip_one :: "string \<Rightarrow> string" where
  "skip_one s = (case s of c # cs \<Rightarrow> if c = Bslash then cs else s | [] \<Rightarrow> [])"

function skip_common :: "string \<Rightarrow> string \<Rightarrow> string \<times> string" where
  "skip_common a b =
     (if a = [] \<or> b = [] then (a, b)
      else if skip_one a = [] \<or> skip_one b = [] \<or> hd (skip_one a) \<noteq> hd (skip_one b)
      then (skip_one a, skip_one b)
      else skip_common (tl (skip_one a)) (tl (skip_one b)))"
  by pat_completeness auto
termination
  by (relation "measure (\<lambda>(a, b). length a)") (auto simp: skip_one_def split: list.splits if_splits)

declare skip_common.simps [simp del]

text \<open>Reading behind the end gives the terminator.\<close>

definition at :: "string \<Rightarrow> nat \<Rightarrow> char" where
  "at s i = (if i < length s then s ! i else NUL)"

function walk_equal :: "string \<Rightarrow> string \<Rightarrow> nat \<Rightarrow> nat \<Rightarrow> nat \<times> nat" where
  "walk_equal a b i j =
     (if at a i = at b j \<and> at a i \<noteq> NUL then walk_equal a b (i + 1) (j + 1) else (i, j))"
  by pat_completeness auto
termination
  by (relation "measure (\<lambda>(a, b, i, j). length a - i)") (auto simp: at_def split: if_splits)

fun rewind :: "string \<Rightarrow> nat \<Rightarrow> nat \<Rightarrow> nat \<times> nat" where
  "rewind a 0 j = (0, j)"
| "rewind a (Suc i) j = (if is_digit (at a i) then rewind a i (j - 1) else (Suc i, j))"

function skip_zeros :: "string \<Rightarrow> nat \<Rightarrow> nat" where
  "skip_zeros a i = (if at a i = CHR ''0'' then skip_zeros a (i + 1) else i)"
  by pat_completeness auto
termination
  by (relation "measure (\<lambda>(a, i). length a - i)") (auto simp: at_def split: if_splits)

function same_digits :: "string \<Rightarrow> string \<Rightarrow> nat \<Rightarrow> nat \<Rightarrow> nat \<times> nat" where
  "same_digits a b i j =
     (if is_digit (at a i) \<and> at a i = at b j then same_digits a b (i + 1) (j + 1) else (i, j))"
  by pat_completeness auto
termination
  by (relation "measure (\<lambda>(a, b, i, j). length a - i)")
    (auto simp: at_def is_digit_def byte_def split: if_splits)

function both_digits :: "string \<Rightarrow> string \<Rightarrow> nat \<Rightarrow> nat \<Rightarrow> nat \<times> nat" where
  "both_digits a b i j =
     (if is_digit (at a i) \<and> is_digit (at b j) then both_digits a b (i + 1) (j + 1) else (i, j))"
  by pat_completeness auto
termination
  by (relation "measure (\<lambda>(a, b, i, j). length a - i)")
    (auto simp: at_def is_digit_def byte_def split: if_splits)

declare walk_equal.simps [simp del] skip_zeros.simps [simp del] same_digits.simps [simp del] both_digits.simps [simp del]

definition int_cmp :: "int \<Rightarrow> int \<Rightarrow> ordering" where
  "int_cmp x y = (if x < y then Less else if y < x then Greater else Equal)"

text \<open>The two digit runs that begin at the cursors, \<open>None\<close> when they are the same number.\<close>

definition run_cmp :: "string \<Rightarrow> string \<Rightarrow> int \<Rightarrow> nat \<Rightarrow> nat \<Rightarrow> ordering option" where
  "run_cmp a b mul i j =
     (let (i2, j2) = same_digits a b (skip_zeros a i) (skip_zeros b j)
      in if is_digit (at a i2) \<or> is_digit (at b j2) then
           let cmp = mul * (int (byte (at a i2)) - int (byte (at b j2)));
               (i3, j3) = both_digits a b i2 j2
           in if is_digit (at a i3) \<and> \<not> is_digit (at b j3) then Some (if 0 \<le> mul then Greater else Less)
              else if is_digit (at b j3) \<and> \<not> is_digit (at a i3) then Some (if 0 \<le> mul then Less else Greater)
              else Some (int_cmp cmp 0)
         else None)"

definition cmp_numeric :: "sort_conf \<Rightarrow> string \<Rightarrow> string \<Rightarrow> bool \<Rightarrow> ordering" where
  "cmp_numeric S a b signed_mode =
     (let (i, j) = walk_equal a b 0 0
      in if signed_mode \<and> at a i = CHR ''-'' \<and> is_digit (at a (i + 1)) \<and> is_digit (at b j) then Less
         else if signed_mode \<and> at b j = CHR ''-'' \<and> is_digit (at b (j + 1)) \<and> is_digit (at a i) then Greater
         else if is_digit (at a i) \<or> is_digit (at b j) then
           let (i1, j1) = rewind a i j;
               mul = (if signed_mode \<and> 0 < i1 \<and> at a (i1 - 1) = CHR ''-'' then - 1 else 1)
           in if is_digit (at a i1) \<and> is_digit (at b j1) then
                (case run_cmp a b mul i1 j1 of Some r \<Rightarrow> r | None \<Rightarrow> strcoll_cmp S a b)
              else strcoll_cmp S a b
         else strcoll_cmp S a b)"

definition zstrcmp :: "sort_conf \<Rightarrow> string \<Rightarrow> string \<Rightarrow> 32 word \<Rightarrow> ordering" where
  "zstrcmp S a b flags =
     (if so_bytewise S then bytes_cmp a b
      else
        let numeric_signed = sortit flags SORTIT_NUMERICALLY_SIGNED;
            numeric = (numeric_signed \<or> sortit flags SORTIT_NUMERICALLY);
            (a', b') =
              (if \<not> sortit flags SORTIT_IGNORING_BACKSLASHES then (a, b)
               else if numeric then (filter (\<lambda>c. c \<noteq> Bslash) a, filter (\<lambda>c. c \<noteq> Bslash) b)
               else if Bslash \<notin> set a \<and> Bslash \<notin> set b then (a, b)
               else skip_common a b)
        in if numeric then cmp_numeric S a' b' numeric_signed else strcoll_cmp S a' b')"

section \<open>eltpcmp\<close>

record sortelt =
  se_orig :: string
  se_cmp :: string
  se_origlen :: int
  se_len :: int

text \<open>The walk over the common prefix: it ends at a difference, at the shorter recorded
  length, or at a NUL when only one element has a length; the second result is the place
  behind the last NUL both have.\<close>

function common_prefix :: "string \<Rightarrow> string \<Rightarrow> bool \<Rightarrow> nat \<Rightarrow> int \<Rightarrow> nat \<Rightarrow> nat \<times> nat" where
  "common_prefix a b both_len i len start =
     (if at a i \<noteq> at b i \<or> len \<le> 0 then (i, start)
      else if at a i = NUL then
        if both_len then common_prefix a b both_len (i + 1) (len - 1) (i + 1) else (i, start)
      else common_prefix a b both_len (i + 1) (len - 1) start)"
  by pat_completeness auto
termination
  by (relation "measure (\<lambda>(a, b, f, i, len, start). nat len)") auto

declare common_prefix.simps [simp del]

definition eltpcmp :: "sort_conf \<Rightarrow> sortelt \<Rightarrow> sortelt \<Rightarrow> 32 word \<Rightarrow> ordering" where
  "eltpcmp S x y flags =
     (let forward = semiring_bit_operations_class.and flags (ring_bit_operations_class.not (push_bit SORTIT_BACKWARDS 1));
          a = se_cmp x; b = se_cmp y;
          a_has = (0 \<le> se_len x); b_has = (0 \<le> se_len y);
          result =
            (if \<not> a_has \<and> \<not> b_has then zstrcmp S a b forward
             else
               let len = (if a_has then if b_has then min (se_len x) (se_len y) else se_len x else se_len y);
                   (i, start) = common_prefix a b (a_has \<and> b_has) 0 len 0;
                   alen = (if a_has then se_len x else - 1);
                   blen = (if b_has then se_len y else - 1)
               in if at a i = at b i \<and> alen \<noteq> blen then
                    if a_has then if b_has then int_cmp alen blen else Greater else Less
                  else zstrcmp S (drop start a) (drop start b) forward)
      in if sortit flags SORTIT_BACKWARDS then reverse_ordering result else result)"

section \<open>The compare keys\<close>

text \<open>\<open>unmetafy_str\<close>, over the characters of the string: U+0083 and a character from U+0080 to
  U+00FF stand for one byte.\<close>

fun unmetafy_chars :: "string list \<Rightarrow> string" where
  "unmetafy_chars [] = []"
| "unmetafy_chars [c] = c"
| "unmetafy_chars (c # n # cs) =
     (if code_point c = 0x83 \<and> 0x80 \<le> code_point n \<and> code_point n \<le> 0xFF
      then char_of (semiring_bit_operations_class.xor (nat (code_point n)) 32) # unmetafy_chars cs
      else c @ unmetafy_chars (n # cs))"

definition unmetafy_str :: "string \<Rightarrow> string" where
  "unmetafy_str s = unmetafy_chars (chars s)"

text \<open>The leading well-formed UTF-8 character: the shortest valid prefix of at most four
  bytes.\<close>

definition byte_in :: "nat \<Rightarrow> nat \<Rightarrow> char \<Rightarrow> bool" where
  "byte_in lo hi c \<longleftrightarrow> lo \<le> byte c \<and> byte c \<le> hi"

fun valid_utf8 :: "string \<Rightarrow> bool" where
  "valid_utf8 [a] \<longleftrightarrow> byte a < 0x80"
| "valid_utf8 [a, b] \<longleftrightarrow> byte_in 0xC2 0xDF a \<and> byte_in 0x80 0xBF b"
| "valid_utf8 [a, b, c] \<longleftrightarrow>
     (byte a = 0xE0 \<and> byte_in 0xA0 0xBF b \<or> byte_in 0xE1 0xEC a \<and> byte_in 0x80 0xBF b \<or>
      byte a = 0xED \<and> byte_in 0x80 0x9F b \<or> byte_in 0xEE 0xEF a \<and> byte_in 0x80 0xBF b) \<and> byte_in 0x80 0xBF c"
| "valid_utf8 [a, b, c, d] \<longleftrightarrow>
     (byte a = 0xF0 \<and> byte_in 0x90 0xBF b \<or> byte_in 0xF1 0xF3 a \<and> byte_in 0x80 0xBF b \<or>
      byte a = 0xF4 \<and> byte_in 0x80 0x8F b) \<and> byte_in 0x80 0xBF c \<and> byte_in 0x80 0xBF d"
| "valid_utf8 _ \<longleftrightarrow> False"

definition mbrtowc_one :: "string \<Rightarrow> nat option" where
  "mbrtowc_one s = find (\<lambda>n. valid_utf8 (take n s)) [1..<min (length s) 4 + 1]"

lemma mbrtowc_one_pos: "mbrtowc_one s = Some n \<Longrightarrow> 0 < n \<and> n \<le> length s"
proof -
  assume "mbrtowc_one s = Some n"
  then have "n \<in> set [1..<min (length s) 4 + 1]"
    unfolding mbrtowc_one_def find_Some_iff using nth_mem by blast
  then show ?thesis unfolding set_upt by auto
qed

function lower_chars :: "sort_conf \<Rightarrow> string \<Rightarrow> string" where
  "lower_chars S s =
     (if s = [] then []
      else if hd s = NUL then NUL # lower_chars S (tl s)
      else case mbrtowc_one s of
             Some n \<Rightarrow> so_to_lowercase S (take n s) @ lower_chars S (drop n s)
           | None \<Rightarrow> map (so_tulower S) s)"
  by pat_completeness auto
termination
  by (relation "measure (\<lambda>(S, s). length s)") (auto dest: mbrtowc_one_pos)

declare lower_chars.simps [simp del]

definition lower_bytes :: "sort_conf \<Rightarrow> string \<Rightarrow> string" where
  "lower_bytes S s = (if so_multibyte S then lower_chars S s else map (so_tulower S) s)"

fun strip_backslashes :: "string \<Rightarrow> string" where
  "strip_backslashes [] = []"
| "strip_backslashes [c] = (if c = Bslash then [] else [c])"
| "strip_backslashes (c # d # s) =
     (if c = Bslash then d # strip_backslashes s else c # strip_backslashes (d # s))"

definition apply_transforms :: "sort_conf \<Rightarrow> 32 word \<Rightarrow> string \<Rightarrow> string" where
  "apply_transforms S flags cmp =
     (let cmp1 = (if sortit flags SORTIT_IGNORING_CASE then lower_bytes S cmp else cmp)
      in if sortit flags SORTIT_IGNORING_BACKSLASHES then strip_backslashes cmp1 else cmp1)"

definition sort_key :: "sort_conf \<Rightarrow> 32 word \<Rightarrow> string \<Rightarrow> string" where
  "sort_key S flags s = apply_transforms S flags (unmetafy_str s)"

definition make_elt :: "sort_conf \<Rightarrow> 32 word \<Rightarrow> string \<Rightarrow> int \<Rightarrow> sortelt" where
  "make_elt S flags s origlen =
     (let cmp = sort_key S flags s
      in \<lparr>se_orig = s, se_cmp = cmp, se_origlen = origlen,
          se_len = (if NUL \<in> set cmp then int (length cmp) else - 1)\<rparr>)"

section \<open>strmetasort\<close>

definition sort_elts :: "sort_conf \<Rightarrow> 32 word \<Rightarrow> string list \<Rightarrow> nat list option \<Rightarrow> sortelt list" where
  "sort_elts S flags arr lens =
     (case lens of
        Some ls \<Rightarrow> map (\<lambda>(s, l). make_elt S flags s (int l)) (zip arr ls)
      | None \<Rightarrow> map (\<lambda>s. make_elt S flags s (- 1)) arr)"

text \<open>The write back: place \<open>dst\<close> takes what \<open>indices[dst]\<close> held.\<close>

definition reorder :: "nat list \<Rightarrow> 'a list \<Rightarrow> 'a list" where
  "reorder indices original = map ((!) original) indices @ drop (length indices) original"

definition strmetasort ::
  "sort_conf \<Rightarrow> string list \<Rightarrow> 32 word \<Rightarrow> nat list option \<Rightarrow> (string list \<times> nat list option) option" where
  "strmetasort S arr flags lens =
     (if length arr < 2 then Some (arr, lens)
      else
        let elts = sort_elts S flags arr lens
        in case qsort_tolerant (\<lambda>i j. eltpcmp S (elts ! i) (elts ! j) flags) [0..<length elts] of
             None \<Rightarrow> None
           | Some indices \<Rightarrow> Some (reorder indices arr, map_option (reorder indices) lens))"

section \<open>The comparator in bytewise mode\<close>

lemma byte_eq: "byte a = byte b \<longleftrightarrow> a = b"
  by (simp add: byte_def)

lemma bytes_cmp_reverse: "bytes_cmp b a = reverse_ordering (bytes_cmp a b)"
proof (induction a b rule: bytes_cmp.induct)
  case (4 a as b bs)
  then show ?case by (cases "byte a" "byte b" rule: linorder_cases) simp_all
qed simp_all

lemma bytes_cmp_trans: "bytes_cmp a b \<noteq> Greater \<Longrightarrow> bytes_cmp b c \<noteq> Greater \<Longrightarrow> bytes_cmp a c \<noteq> Greater"
proof (induction a b arbitrary: c rule: bytes_cmp.induct)
  case (4 a as b bs)
  show ?case
  proof (cases c)
    case Nil
    then show ?thesis using 4(3) by simp
  next
    case (Cons d ds)
    have le: "byte a \<le> byte b" "byte b \<le> byte d" using 4(2,3) Cons by (simp_all split: if_splits)
    show ?thesis
    proof (cases "byte a = byte b \<and> byte b = byte d")
      case True
      then show ?thesis using 4 Cons by simp
    next
      case False
      then have "byte a < byte d" using le by linarith
      then show ?thesis using Cons by simp
    qed
  qed
next
  case (1 c) then show ?case by simp
next
  case (2 b bs) then show ?case by (cases c) (auto split: if_splits)
qed simp

interpretation bytes: comparator bytes_cmp
  by unfold_locales (fact bytes_cmp_reverse, fact bytes_cmp_trans)

lemma bytes_cmp_append [simp]: "bytes_cmp (p @ a) (p @ b) = bytes_cmp a b"
  by (induction p) simp_all

lemma bytes_cmp_prefix: "bytes_cmp p (p @ s) = (if s = [] then Equal else Less)"
  using bytes_cmp_append [of p "[]" s] by (cases s) simp_all

text \<open>What the walk over the common prefix found.\<close>

lemma common_prefix_spec:
  "common_prefix a b f i len start = (j, st) \<Longrightarrow> take i a = take i b \<Longrightarrow> start \<le> i \<Longrightarrow> i \<le> length b \<Longrightarrow>
   i \<le> N \<Longrightarrow> len = int N - int i \<Longrightarrow> N \<le> length a \<Longrightarrow> (f \<Longrightarrow> N \<le> length b) \<Longrightarrow> f \<or> NUL \<notin> set (take i a) \<Longrightarrow>
   take j a = take j b \<and> st \<le> j \<and> j \<le> N \<and> j \<le> length b \<and>
   (at a j \<noteq> at b j \<or> j = N \<or> \<not> f \<and> at b j = NUL) \<and> (f \<or> NUL \<notin> set (take j a) \<and> st = start)"
proof (induction a b f i len start rule: common_prefix.induct)
  case (1 a b f i len start)
  show ?case
  proof (cases "at a i \<noteq> at b i \<or> len \<le> 0")
    case True
    then have "j = i" "st = start" using 1(3) by (simp_all add: common_prefix.simps [of a b f i])
    then show ?thesis using True 1(4-8,11) by auto
  next
    case go: False
    then have i: "i < N" "i < length a" "at a i = at b i" using 1(7-9) by auto
    show ?thesis
    proof (cases "at a i = NUL \<and> \<not> f")
      case True
      have "common_prefix a b f i len start = (i, start)"
        by (subst common_prefix.simps) (use True go in simp)
      then have "j = i" "st = start" using 1(3) by simp_all
      then show ?thesis using True i 1(4-8,11) by auto
    next
      case step: False
      have ib: "i < length b"
      proof (cases f)
        case True
        then show ?thesis using i(1) 1(10) by simp
      next
        case False
        then have "at b i \<noteq> NUL" using step i(3) by simp
        then show ?thesis by (simp add: at_def split: if_splits)
      qed
      have "a ! i = b ! i" using i ib by (simp add: at_def)
      then have t: "take (i + 1) a = take (i + 1) b" "f \<or> NUL \<notin> set (take (i + 1) a)"
        using 1(4,11) i ib step by (auto simp: take_Suc_conv_app_nth at_def)
      have l: "len - 1 = int N - int (i + 1)" "i + 1 \<le> N" "i + 1 \<le> length b" using 1(8) i(1) ib by auto
      show ?thesis
      proof (cases "at a i = NUL")
        case True
        then have f using step by simp
        have "common_prefix a b f i len start = common_prefix a b f (i + 1) (len - 1) (i + 1)"
          by (subst common_prefix.simps) (use go True step in simp)
        then have "common_prefix a b f (i + 1) (len - 1) (i + 1) = (j, st)" using 1(3) by simp
        from 1(1) [OF go True \<open>f\<close> this t(1) _ l(3,2,1) 1(9,10) t(2)] show ?thesis using \<open>f\<close> by simp
      next
        case False
        then have "common_prefix a b f i len start = common_prefix a b f (i + 1) (len - 1) start"
          by (subst common_prefix.simps) (use go in simp)
        then have "common_prefix a b f (i + 1) (len - 1) start = (j, st)" using 1(3) by simp
        moreover have "start \<le> i + 1" using 1(5) by simp
        ultimately show ?thesis using 1(2) [OF go False _ t(1) _ l(3,2,1) 1(9,10) t(2)] by blast
      qed
    qed
  qed
qed

lemma common_prefix_commute: "common_prefix a b f i len start = common_prefix b a f i len start"
proof (induction a b f i len start rule: common_prefix.induct)
  case (1 a b f i len start)
  then show ?case by (subst (1 2) common_prefix.simps) auto
qed

lemma bytes_cmp_drop:
  assumes "take n a = take n b"
  shows "bytes_cmp (drop n a) (drop n b) = bytes_cmp a b"
  using bytes_cmp_append [of "take n a" "drop n a" "drop n b"] assms by (metis append_take_drop_id)

text \<open>The two sides of the walk that the lengths decide.\<close>

lemma both_lengths:
  assumes "common_prefix a b True 0 (int (min (length a) (length b))) 0 = (j, st)"
  shows "(if at a j = at b j \<and> length a \<noteq> length b then int_cmp (int (length a)) (int (length b))
          else bytes_cmp (drop st a) (drop st b)) = bytes_cmp a b"
proof -
  let ?N = "min (length a) (length b)"
  have s: "take j a = take j b" "st \<le> j" "at a j \<noteq> at b j \<or> j = ?N"
    using common_prefix_spec [OF assms, of ?N] by auto
  show ?thesis
  proof (cases "at a j = at b j \<and> length a \<noteq> length b")
    case True
    then have j: "j = ?N" using s(3) by simp
    show ?thesis
    proof (cases "length a < length b")
      case less: True
      then have "b = a @ drop j b" using s(1) j by (metis append_take_drop_id min.strict_order_iff take_all_iff order_refl)
      then have "bytes_cmp a b = Less" using bytes_cmp_prefix [of a "drop j b"] less j by simp
      then show ?thesis using True less by (simp add: int_cmp_def)
    next
      case False
      then have g: "length b < length a" using True by simp
      then have "a = b @ drop j a" using s(1) j by (metis append_take_drop_id min.strict_order_iff min.commute take_all_iff order_refl)
      then have "bytes_cmp b a = Less" using bytes_cmp_prefix [of b "drop j a"] g j by simp
      then show ?thesis using True g bytes.cmp_cases(1) [of b a] by (simp add: int_cmp_def)
    qed
  next
    case False
    have "take st a = take st b" using s(1,2) by (metis min.absorb1 take_take)
    then show ?thesis using bytes_cmp_drop False by auto
  qed
qed

lemma one_length:
  assumes "common_prefix a b False 0 (int (length a)) 0 = (j, st)" "NUL \<in> set a" "NUL \<notin> set b"
  shows "st = 0" "at a j = at b j \<Longrightarrow> bytes_cmp a b = Greater"
proof -
  have s: "take j a = take j b" "j \<le> length a" "j \<le> length b" "NUL \<notin> set (take j a)" "st = 0"
    "at a j \<noteq> at b j \<or> j = length a \<or> at b j = NUL"
    using common_prefix_spec [OF assms(1), of "length a"] by auto
  show "st = 0" by (fact s(5))
  assume eq: "at a j = at b j"
  have ja: "j < length a" using s(2,4) assms(2) by (cases "j = length a") auto
  then have "at b j = NUL" using eq s(6) by simp
  then have jb: "j = length b" using s(3) assms(3) nth_mem [of j b] unfolding at_def by (metis le_neq_implies_less)
  then have "a = b @ drop j a" using s(1) by (metis append_take_drop_id take_all_iff order_refl)
  then have "bytes_cmp b a = Less" using bytes_cmp_prefix [of b "drop j a"] ja by simp
  then show "bytes_cmp a b = Greater" using bytes.cmp_cases(1) [of b a] by simp
qed

text \<open>The elements \<open>strmetasort\<close> builds.\<close>

definition elt_ok :: "sortelt \<Rightarrow> bool" where
  "elt_ok x \<longleftrightarrow> se_len x = (if NUL \<in> set (se_cmp x) then int (length (se_cmp x)) else - 1)"

lemma make_elt_ok [simp]: "elt_ok (make_elt S flags s l)" "se_cmp (make_elt S flags s l) = sort_key S flags s"
  by (simp_all add: elt_ok_def make_elt_def Let_def)

lemma eltpcmp_bytes:
  assumes "so_bytewise S" "elt_ok x" "elt_ok y"
  shows "eltpcmp S x y flags =
    (if sortit flags SORTIT_BACKWARDS then reverse_ordering (bytes_cmp (se_cmp x) (se_cmp y))
     else bytes_cmp (se_cmp x) (se_cmp y))"
proof -
  let ?a = "se_cmp x" and ?b = "se_cmp y"
  have z: "zstrcmp S a b f = bytes_cmp a b" for a b f using assms(1) by (simp add: zstrcmp_def)
  consider "NUL \<notin> set ?a" "NUL \<notin> set ?b" | "NUL \<in> set ?a" "NUL \<in> set ?b"
    | "NUL \<in> set ?a" "NUL \<notin> set ?b" | "NUL \<notin> set ?a" "NUL \<in> set ?b" by blast
  then show ?thesis
  proof cases
    case 1
    then show ?thesis using assms(2,3) by (simp add: eltpcmp_def elt_ok_def z Let_def)
  next
    case 2
    obtain j st where c: "common_prefix ?a ?b True 0 (int (min (length ?a) (length ?b))) 0 = (j, st)" by fastforce
    then show ?thesis
      using 2 assms(2,3) both_lengths [OF c] c
      by (cases "at ?a j = at ?b j \<and> length ?a \<noteq> length ?b")
        (auto simp: eltpcmp_def elt_ok_def z Let_def simp flip: of_nat_min)
  next
    case 3
    obtain j st where c: "common_prefix ?a ?b False 0 (int (length ?a)) 0 = (j, st)" by fastforce
    then show ?thesis
      using 3 assms(2,3) one_length [OF c 3] by (simp add: eltpcmp_def elt_ok_def z Let_def)
  next
    case 4
    obtain j st where c: "common_prefix ?b ?a False 0 (int (length ?b)) 0 = (j, st)" by fastforce
    then show ?thesis
      using 4 assms(2,3) one_length [OF c 4(2,1)] bytes.cmp_cases(1) [of ?a ?b]
      by (cases "at ?a j = at ?b j")
        (simp_all add: eltpcmp_def elt_ok_def z Let_def common_prefix_commute [of ?a ?b])
  qed
qed

section \<open>The array sort\<close>

lemma length_sort_elts: "length (sort_elts S flags arr None) = length arr"
  "length ls = length arr \<Longrightarrow> length (sort_elts S flags arr (Some ls)) = length arr"
  by (simp_all add: sort_elts_def)

lemma sort_elts_nth:
  assumes "i < length arr" "case lens of Some ls \<Rightarrow> length ls = length arr | None \<Rightarrow> True"
  shows "elt_ok (sort_elts S flags arr lens ! i) \<and> se_cmp (sort_elts S flags arr lens ! i) = sort_key S flags (arr ! i)"
  using assms by (auto simp: sort_elts_def split: option.splits)

lemma reorder_perm: "mset idx = mset [0..<length xs] \<Longrightarrow> reorder idx xs = map ((!) xs) idx"
  using size_mset [of idx] by (simp add: reorder_def flip: size_mset)

lemma mset_reorder: "mset idx = mset [0..<length xs] \<Longrightarrow> mset (map ((!) xs) idx) = mset xs"
  by (metis map_nth mset_map)

text \<open>The index sort as the sort of the elements.\<close>

lemma strmetasort_result:
  assumes "case lens of Some ls \<Rightarrow> length ls = length arr | None \<Rightarrow> True"
  obtains idx where "strmetasort S arr flags lens = Some (map ((!) arr) idx, map_option (\<lambda>ls. map ((!) ls) idx) lens)"
    "mset idx = mset [0..<length arr]"
    "2 \<le> length arr \<Longrightarrow> qsort_tolerant (\<lambda>i j. eltpcmp S (sort_elts S flags arr lens ! i) (sort_elts S flags arr lens ! j) flags)
       [0..<length arr] = Some idx"
proof (cases "length arr < 2")
  case True
  have "map ((!) xs) [0..<length arr] = xs" if "length xs = length arr" for xs :: "nat list"
    using map_nth [of xs] that by simp
  then have "strmetasort S arr flags lens =
      Some (map ((!) arr) [0..<length arr], map_option (\<lambda>ls. map ((!) ls) [0..<length arr]) lens)"
    using True assms map_nth [of arr] by (auto simp: strmetasort_def split: option.splits)
  then show thesis using that [of "[0..<length arr]"] True by simp
next
  case False
  let ?cmp = "\<lambda>i j. eltpcmp S (sort_elts S flags arr lens ! i) (sort_elts S flags arr lens ! j) flags"
  have len: "length (sort_elts S flags arr lens) = length arr"
    using assms length_sort_elts by (cases lens) auto
  obtain idx where q: "qsort_tolerant ?cmp [0..<length arr] = Some idx" "mset idx = mset [0..<length arr]"
  proof -
    obtain i where i: "qsort_tolerant ?cmp [0..<length arr] = Some (map ((!) [0..<length arr]) i)"
      "mset i = mset [0..<length [0..<length arr]]"
      using qsort_result [of ?cmp "[0..<length arr]"] by metis
    then have "mset (map ((!) [0..<length arr]) i) = mset [0..<length arr]" by (intro mset_reorder) simp
    then show thesis using that i(1) by blast
  qed
  have "reorder idx ls = map ((!) ls) idx" if "lens = Some ls" for ls
    using reorder_perm [of idx ls] q(2) assms that by simp
  then have "strmetasort S arr flags lens = Some (map ((!) arr) idx, map_option (\<lambda>ls. map ((!) ls) idx) lens)"
    using False q reorder_perm [OF q(2)] len by (cases lens) (simp_all add: strmetasort_def Let_def)
  then show thesis using that q by blast
qed

text \<open>The sort under a comparator on the keys.\<close>

lemma strmetasort_sorts:
  assumes "case lens of Some ls \<Rightarrow> length ls = length arr | None \<Rightarrow> True" "comparator keycmp"
    and "\<And>x y. x \<in> set arr \<Longrightarrow> y \<in> set arr \<Longrightarrow> \<forall>a b. elt_ok a \<longrightarrow> elt_ok b \<longrightarrow> se_cmp a = sort_key S flags x \<longrightarrow>
       se_cmp b = sort_key S flags y \<longrightarrow> eltpcmp S a b flags = keycmp x y"
    and "strmetasort S arr flags lens = Some (out, lens')"
  shows "sorted_wrt (\<lambda>x y. keycmp x y \<noteq> Greater) out"
    "filter (\<lambda>y. keycmp x y = Equal) out = filter (\<lambda>y. keycmp x y = Equal) arr"
proof -
  let ?n = "length arr" and ?elt = "\<lambda>i. sort_elts S flags arr lens ! i"
  let ?cmp = "\<lambda>i j. eltpcmp S (?elt i) (?elt j) flags"
  obtain idx where i: "strmetasort S arr flags lens = Some (map ((!) arr) idx, map_option (\<lambda>ls. map ((!) ls) idx) lens)"
    "mset idx = mset [0..<?n]" "2 \<le> ?n \<Longrightarrow> qsort_tolerant ?cmp [0..<?n] = Some idx"
    using strmetasort_result [OF assms(1), of S flags] by blast
  have out: "out = map ((!) arr) idx" using i(1) assms(4) by simp
  have cmp: "?cmp i j = keycmp (arr ! i) (arr ! j)" if "i < ?n" "j < ?n" for i j
    using assms(3) [of "arr ! i" "arr ! j"] sort_elts_nth [OF that(1) assms(1)] sort_elts_nth [OF that(2) assms(1)] that
    by auto
  have key: "comparator (\<lambda>i j. keycmp (arr ! i) (arr ! j))" by (rule comparator_key [OF assms(2)])
  have agree: "?cmp i j = keycmp (arr ! i) (arr ! j)" if "i \<in> set [0..<?n]" "j \<in> set [0..<?n]" for i j
    using cmp that by simp
  show "sorted_wrt (\<lambda>x y. keycmp x y \<noteq> Greater) out"
  proof (cases "2 \<le> ?n")
    case True
    show ?thesis
      using comparator.qsort_sorted [OF key i(3) [OF True] agree] by (simp add: out sorted_wrt_map)
  next
    case False
    then have "length out < 2" using size_mset [of idx] i(2) out by (simp flip: size_mset)
    then show ?thesis by (cases out) auto
  qed
  show "filter (\<lambda>y. keycmp x y = Equal) out = filter (\<lambda>y. keycmp x y = Equal) arr" for x
  proof (cases "2 \<le> ?n")
    case True
    have "filter (\<lambda>i. keycmp x (arr ! i) = Equal) idx = filter (\<lambda>i. keycmp x (arr ! i) = Equal) [0..<?n]"
      by (rule comparator.qsort_stable [OF key i(3) [OF True] agree])
        (auto intro: comparator.equal_class [OF assms(2)])
    then have "filter (\<lambda>y. keycmp x y = Equal) (map ((!) arr) idx) = filter (\<lambda>y. keycmp x y = Equal) (map ((!) arr) [0..<?n])"
      by (simp add: filter_map comp_def)
    then show ?thesis by (simp add: out map_nth)
  next
    case False
    then have "strmetasort S arr flags lens = Some (arr, lens)" by (simp add: strmetasort_def)
    then show ?thesis using assms(4) by simp
  qed
qed

end
