(* ===== verification/SortFacts.thy ===== *)
theory SortFacts
  imports StrSort
begin

text \<open>
  What the array sort promises: it always returns, the result is a permutation with the
  recorded lengths still beside their strings, and it is ordered and stable under bytewise
  comparison and under a collation.  The numeric mode compares digit strings by value.
\<close>

section \<open>Digit strings\<close>

lemma at_drop: "at s i = (case drop i s of [] \<Rightarrow> NUL | c # _ \<Rightarrow> c)"
  by (cases "drop i s") (auto simp: at_def drop_eq_Nil hd_drop_conv_nth [symmetric] not_less dest: arg_cong [where f = hd] split: if_splits)

lemma not_digit_NUL [simp]: "\<not> is_digit NUL"
  by (simp add: is_digit_def byte_def)

lemma drop_step: "drop i s = c # cs \<Longrightarrow> drop (i + 1) s = cs"
  by (simp add: drop_Suc drop_tl)

lemma skip_zeros_drop: "drop (skip_zeros a i) a = dropWhile (\<lambda>c. c = CHR ''0'') (drop i a)"
proof (induction a i rule: skip_zeros.induct)
  case (1 a i)
  show ?case
  proof (cases "drop i a")
    case Nil
    then show ?thesis by (simp add: skip_zeros.simps [of a i] at_drop)
  next
    case (Cons c cs)
    then show ?thesis using 1 drop_step [OF Cons] by (simp add: skip_zeros.simps [of a i] at_drop)
  qed
qed

text \<open>Two digit strings from their first difference on.\<close>

fun differ :: "string \<Rightarrow> string \<Rightarrow> string \<times> string" where
  "differ (x # xs) (y # ys) = (if x = y then differ xs ys else (x # xs, y # ys))"
| "differ xs ys = (xs, ys)"

lemma same_digits_drop:
  "same_digits a b i j = (i', j') \<Longrightarrow> list_all is_digit (drop i a) \<Longrightarrow>
   (drop i' a, drop j' b) = differ (drop i a) (drop j b)"
proof (induction a b i j rule: same_digits.induct)
  case (1 a b i j)
  show ?case
  proof (cases "drop i a = [] \<or> drop j b = [] \<or> at a i \<noteq> at b j")
    case True
    then have "i' = i" "j' = j" using 1(2,3)
      by (auto simp: same_digits.simps [of a b i j] at_drop split: list.splits if_splits)
    then show ?thesis using True by (cases "drop i a"; cases "drop j b") (auto simp: at_drop)
  next
    case False
    then obtain x xs ys where d: "drop i a = x # xs" "drop j b = x # ys"
      by (cases "drop i a"; cases "drop j b") (auto simp: at_drop)
    then have go: "is_digit (at a i) \<and> at a i = at b j" using 1(3) by (simp add: at_drop)
    have "same_digits a b i j = same_digits a b (i + 1) (j + 1)"
      by (subst same_digits.simps) (simp only: if_P [OF go])
    then have "same_digits a b (i + 1) (j + 1) = (i', j')" using 1(2) by simp
    from 1(1) [OF go this] show ?thesis using d drop_step [OF d(1)] drop_step [OF d(2)] 1(3) by simp
  qed
qed

lemma both_digits_drop:
  "both_digits a b i j = (i', j') \<Longrightarrow> list_all is_digit (drop i a) \<Longrightarrow> list_all is_digit (drop j b) \<Longrightarrow>
   drop i' a = drop (length (drop j b)) (drop i a) \<and> drop j' b = drop (length (drop i a)) (drop j b)"
proof (induction a b i j rule: both_digits.induct)
  case (1 a b i j)
  show ?case
  proof (cases "drop i a = [] \<or> drop j b = []")
    case True
    then have "i' = i" "j' = j" using 1(2)
      by (auto simp: both_digits.simps [of a b i j] at_drop split: if_splits)
    then show ?thesis using True by auto
  next
    case False
    then obtain x xs y ys where d: "drop i a = x # xs" "drop j b = y # ys"
      by (cases "drop i a"; cases "drop j b") auto
    then have go: "is_digit (at a i) \<and> is_digit (at b j)" using 1(3,4) by (simp add: at_drop)
    have "both_digits a b i j = both_digits a b (i + 1) (j + 1)"
      by (subst both_digits.simps) (simp only: if_P [OF go])
    then have "both_digits a b (i + 1) (j + 1) = (i', j')" using 1(2) by simp
    from 1(1) [OF go this, unfolded drop_step [OF d(1)] drop_step [OF d(2)]] show ?thesis
      using 1(3,4) unfolding d by simp
  qed
qed

text \<open>The value of digit strings without leading zeros, by length and then by the first
  difference.\<close>

lemma digit_val_less: "is_digit c \<Longrightarrow> digit_val c < 10"
  unfolding is_digit_def digit_val_def by arith

lemma digits_val_bound: "list_all is_digit ds \<Longrightarrow> digits_val 10 ds < 10 ^ length ds"
proof (induction ds)
  case (Cons d ds)
  have "(digit_val d + 1) * 10 ^ length ds \<le> 10 * 10 ^ length ds"
    using Cons digit_val_less [of d] by (intro mult_le_mono1) simp
  then have "digit_val d * 10 ^ length ds + 10 ^ length ds \<le> 10 ^ length (d # ds)" by simp
  moreover have "digits_val 10 ds < 10 ^ length ds" using Cons by simp
  ultimately show ?case unfolding digits_val_Cons by linarith
qed simp

lemma digits_val_head: "is_digit d \<Longrightarrow> d \<noteq> CHR ''0'' \<Longrightarrow> 10 ^ length ds \<le> digits_val 10 (d # ds)"
proof -
  assume d: "is_digit d" "d \<noteq> CHR ''0''"
  have "byte d \<noteq> 48" using d(2) byte_eq [of d "CHR ''0''"] by (simp add: byte_def)
  then have "1 \<le> digit_val d" using d(1) unfolding is_digit_def digit_val_def by arith
  then have "1 * 10 ^ length ds \<le> digit_val d * 10 ^ length ds" by (rule mult_le_mono1)
  then show ?thesis unfolding digits_val_Cons by linarith
qed

lemma digits_longer:
  assumes "list_all is_digit xs" "list_all is_digit ys" "length xs < length ys" "hd ys \<noteq> CHR ''0''"
  shows "digits_val 10 xs < digits_val 10 ys"
proof -
  obtain d ds where y: "ys = d # ds" using assms(3) by (cases ys) auto
  have "digits_val 10 xs < 10 ^ length xs" by (rule digits_val_bound [OF assms(1)])
  also have "\<dots> \<le> 10 ^ length ds" using assms(3) y by (intro power_increasing) simp_all
  also have "\<dots> \<le> digits_val 10 ys" using digits_val_head [of d ds] assms(2,4) y by simp
  finally show ?thesis .
qed

lemma digits_first:
  assumes "list_all is_digit (x # xs)" "list_all is_digit (y # ys)" "length xs = length ys" "byte x < byte y"
  shows "digits_val 10 (x # xs) < digits_val 10 (y # ys)"
proof -
  have "48 \<le> byte x" "48 \<le> byte y" using assms(1,2) by (simp_all add: is_digit_def)
  then have "digit_val x + 1 \<le> digit_val y" using assms(4) unfolding digit_val_def by arith
  then have "(digit_val x + 1) * 10 ^ length xs \<le> digit_val y * 10 ^ length xs" by (rule mult_le_mono1)
  then have "digit_val x * 10 ^ length xs + 10 ^ length xs \<le> digit_val y * 10 ^ length xs" by simp
  moreover have "digits_val 10 xs < 10 ^ length xs" using digits_val_bound [of xs] assms(1) by simp
  ultimately show ?thesis unfolding digits_val_Cons assms(3) [symmetric] by linarith
qed

lemma digits_zeros: "digits_val 10 (dropWhile (\<lambda>c. c = CHR ''0'') ds) = digits_val 10 ds"
  by (induction ds) (simp_all add: digits_val_Cons digit_val_def byte_def)

definition nat_cmp :: "nat \<Rightarrow> nat \<Rightarrow> ordering" where
  "nat_cmp m n = (if m < n then Less else if n < m then Greater else Equal)"

lemma differ_common: "\<exists>p. xs = p @ fst (differ xs ys) \<and> ys = p @ snd (differ xs ys)"
proof (induction xs ys rule: differ.induct)
  case (1 x xs y ys)
  show ?case
  proof (cases "x = y")
    case True
    then obtain p where "xs = p @ fst (differ xs ys)" "ys = p @ snd (differ xs ys)" using 1 by auto
    then show ?thesis using True by (intro exI [of _ "x # p"]) simp
  qed simp
qed simp_all

lemma differ_heads: "differ xs ys = (x # u, y # v) \<Longrightarrow> x \<noteq> y"
  by (induction xs ys rule: differ.induct) (auto split: if_splits)

lemma digits_val_append: "digits_val 10 (p @ s) = digits_val 10 p * 10 ^ length s + digits_val 10 s"
  by (induction p) (simp_all add: digits_val_Cons distrib_right power_add)

text \<open>The comparison of two runs that the code makes at their first difference.\<close>

lemma differ_value:
  assumes "list_all is_digit xs" "list_all is_digit ys" "xs = [] \<or> hd xs \<noteq> CHR ''0''" "ys = [] \<or> hd ys \<noteq> CHR ''0''"
    and "differ xs ys = (u, v)"
  shows "nat_cmp (digits_val 10 xs) (digits_val 10 ys) =
    (if length v < length u then Greater else if length u < length v then Less
     else case (u, v) of (x # _, y # _) \<Rightarrow> (if byte x < byte y then Less else Greater) | _ \<Rightarrow> Equal)"
proof -
  obtain p where p: "xs = p @ u" "ys = p @ v" using differ_common [of xs ys] assms(5) by auto
  have uv: "list_all is_digit u" "list_all is_digit v" using assms(1,2) p by simp_all
  consider "length v < length u" | "length u < length v" | "length u = length v" by linarith
  then show ?thesis
  proof cases
    case 1
    then have "digits_val 10 ys < digits_val 10 xs" using digits_longer [OF assms(2,1)] assms(3) p by auto
    then show ?thesis using 1 by (simp add: nat_cmp_def)
  next
    case 2
    then have "digits_val 10 xs < digits_val 10 ys" using digits_longer [OF assms(1,2)] assms(4) p by auto
    then show ?thesis using 2 by (simp add: nat_cmp_def)
  next
    case 3
    show ?thesis
    proof (cases u)
      case Nil
      then show ?thesis using 3 p by (simp add: nat_cmp_def)
    next
      case (Cons x u')
      then obtain y v' where v: "v = y # v'" using 3 by (cases v) auto
      have "x \<noteq> y" using differ_heads assms(5) Cons v by blast
      then have "byte x < byte y \<or> byte y < byte x" using byte_eq [of x y] by linarith
      then have "if byte x < byte y then digits_val 10 u < digits_val 10 v else digits_val 10 v < digits_val 10 u"
        using digits_first [of x u' y v'] digits_first [of y v' x u'] uv 3 Cons v by auto
      then have "if byte x < byte y then digits_val 10 xs < digits_val 10 ys else digits_val 10 ys < digits_val 10 xs"
        using 3 p by (simp add: digits_val_append)
      then show ?thesis using 3 Cons v by (cases "byte x < byte y") (simp_all add: nat_cmp_def)
    qed
  qed
qed

lemma is_digit_head: "list_all is_digit (drop i a) \<Longrightarrow> is_digit (at a i) \<longleftrightarrow> drop i a \<noteq> []"
  by (cases "drop i a") (simp_all add: at_drop)

lemma run_cmp_value:
  assumes "list_all is_digit a" "list_all is_digit b"
  shows "run_cmp a b 1 0 0 =
    (if digits_val 10 a = digits_val 10 b then None else Some (nat_cmp (digits_val 10 a) (digits_val 10 b)))"
proof -
  let ?z = "dropWhile (\<lambda>c. c = CHR ''0'')"
  let ?xs = "?z a" and ?ys = "?z b"
  have z: "drop (skip_zeros a 0) a = ?xs" "drop (skip_zeros b 0) b = ?ys" by (simp_all add: skip_zeros_drop)
  have dig: "list_all is_digit ?xs" "list_all is_digit ?ys"
    using assms by (auto simp: list_all_iff dest: set_dropWhileD)
  have heads: "?xs = [] \<or> hd ?xs \<noteq> CHR ''0''" "?ys = [] \<or> hd ?ys \<noteq> CHR ''0''"
    using hd_dropWhile [of "\<lambda>c. c = CHR ''0''"] by blast+
  obtain i j where s: "same_digits a b (skip_zeros a 0) (skip_zeros b 0) = (i, j)" by fastforce
  obtain u v where uv: "differ ?xs ?ys = (u, v)" by fastforce
  have d: "drop i a = u" "drop j b = v"
    using same_digits_drop [OF s] dig(1) unfolding z uv by simp_all
  have dd: "list_all is_digit u" "list_all is_digit v"
    using differ_common [of ?xs ?ys] dig unfolding uv by (metis fst_conv snd_conv list_all_append)+
  obtain i3 j3 where b: "both_digits a b i j = (i3, j3)" by fastforce
  have b3: "drop i3 a = drop (length v) u" "drop j3 b = drop (length u) v"
    using both_digits_drop [OF b] dd d by simp_all
  have dig3: "is_digit (at a i) \<longleftrightarrow> u \<noteq> []" "is_digit (at b j) \<longleftrightarrow> v \<noteq> []"
    "is_digit (at a i3) \<longleftrightarrow> length v < length u" "is_digit (at b j3) \<longleftrightarrow> length u < length v"
    using is_digit_head [of i a] is_digit_head [of j b] is_digit_head [of i3 a] is_digit_head [of j3 b]
      list_all_append [of is_digit "take (length v) u" "drop (length v) u"]
      list_all_append [of is_digit "take (length u) v" "drop (length u) v"] dd
    unfolding d b3 by (simp_all add: not_le)
  have val: "nat_cmp (digits_val 10 a) (digits_val 10 b) =
    (if length v < length u then Greater else if length u < length v then Less
     else case (u, v) of (x # _, y # _) \<Rightarrow> (if byte x < byte y then Less else Greater) | _ \<Rightarrow> Equal)"
    using differ_value [OF dig heads uv] by (simp add: digits_zeros)
  show ?thesis
  proof (cases "u = [] \<and> v = []")
    case True
    then have "nat_cmp (digits_val 10 a) (digits_val 10 b) = Equal" using val by simp
    then have "digits_val 10 a = digits_val 10 b" by (simp add: nat_cmp_def split: if_splits)
    then show ?thesis using True by (simp add: run_cmp_def s dig3 Let_def)
  next
    case False
    have ne: "nat_cmp (digits_val 10 a) (digits_val 10 b) \<noteq> Equal"
      using False val by (cases u; cases v) (auto split: if_splits)
    then have "digits_val 10 a \<noteq> digits_val 10 b" by (auto simp: nat_cmp_def)
    moreover have "run_cmp a b 1 0 0 = Some (nat_cmp (digits_val 10 a) (digits_val 10 b))"
    proof (cases "length u = length v")
      case True
      then obtain x us y vs where h: "u = x # us" "v = y # vs" using False by (cases u; cases v) auto
      then have "at a i = x" "at b j = y" using d by (simp_all add: at_drop)
      moreover have "byte x \<noteq> byte y" using differ_heads uv h byte_eq by blast
      ultimately show ?thesis
        using h True val by (auto simp: run_cmp_def s b dig3 Let_def int_cmp_def)
    next
      case len: False
      then show ?thesis using False val by (auto simp: run_cmp_def s b dig3 Let_def)
    qed
    ultimately show ?thesis by simp
  qed
qed

lemma walk_equal_spec:
  "walk_equal a b i i = (i', j') \<Longrightarrow> i \<le> length a \<Longrightarrow> i \<le> length b \<Longrightarrow> take i a = take i b \<Longrightarrow>
   j' = i' \<and> i' \<le> length a \<and> i' \<le> length b \<and> take i' a = take i' b \<and> (at a i' \<noteq> at b i' \<or> at a i' = NUL)"
proof (induction "length a - i" arbitrary: i rule: less_induct)
  case less
  show ?case
  proof (cases "at a i = at b i \<and> at a i \<noteq> NUL")
    case True
    then have i: "i < length a" "i < length b" "a ! i = b ! i" by (auto simp: at_def split: if_splits)
    have "walk_equal a b i i = walk_equal a b (i + 1) (i + 1)"
      by (subst walk_equal.simps) (simp only: if_P [OF True])
    then have "walk_equal a b (i + 1) (i + 1) = (i', j')" using less(2) by simp
    from less(1) [OF _ this] show ?thesis using i less(5) by (simp add: take_Suc_conv_app_nth)
  next
    case False
    then show ?thesis using less(2-5) by (auto simp: walk_equal.simps [of a b i i] split: if_splits)
  qed
qed

lemma rewind_start: "list_all is_digit (take i a) \<Longrightarrow> i \<le> length a \<Longrightarrow> rewind a i i = (0, 0)"
  by (induction i) (simp_all add: take_Suc_conv_app_nth at_def)

lemma cmp_numeric_value:
  assumes "list_all is_digit a" "list_all is_digit b" "a \<noteq> []" "b \<noteq> []"
  shows "cmp_numeric S a b neg =
    (if digits_val 10 a = digits_val 10 b then strcoll_cmp S a b else nat_cmp (digits_val 10 a) (digits_val 10 b))"
proof -
  obtain i j where w: "walk_equal a b 0 0 = (i, j)" by fastforce
  have s: "j = i" "i \<le> length a" "i \<le> length b" "take i a = take i b" "at a i \<noteq> at b i \<or> at a i = NUL"
    using walk_equal_spec [OF w] by simp_all
  have suf: "list_all is_digit (drop i a)" "list_all is_digit (drop i b)" "list_all is_digit (take i a)"
    using assms(1,2) list_all_append [of is_digit "take i a" "drop i a"] list_all_append [of is_digit "take i b" "drop i b"]
    by simp_all
  note h = is_digit_head [OF suf(1)] is_digit_head [OF suf(2)]
  have minus: "at a i \<noteq> CHR ''-''" "at b i \<noteq> CHR ''-''"
    using suf(1,2) by (cases "drop i a"; cases "drop i b"; auto simp: at_drop is_digit_def byte_def)+
  have r: "rewind a i i = (0, 0)" by (rule rewind_start [OF suf(3) s(2)])
  have d0: "is_digit (at a 0)" "is_digit (at b 0)" using assms by (cases a; cases b; simp add: at_def)+
  show ?thesis
  proof (cases "is_digit (at a i) \<or> is_digit (at b i)")
    case True
    then show ?thesis
      using minus run_cmp_value [OF assms(1,2)]
      by (simp add: cmp_numeric_def w s(1) r d0 Let_def)
  next
    case False
    then have "drop i a = []" "drop i b = []" using h by auto
    then have "a = b" using s(4) by simp
    moreover have "cmp_numeric S a b neg = strcoll_cmp S a b"
      using False minus by (simp add: cmp_numeric_def w s(1) Let_def)
    ultimately show ?thesis by simp
  qed
qed

section \<open>The properties\<close>

text \<open>C21.  Termination and safety: whatever the comparator answers, consistent or not, the sort
  returns, and what it returns is a permutation of the array; the in-place permutation
  follows the cycles to their ends.\<close>

theorem qsort_permutes:
  "\<exists>w. qsort_tolerant cmp v = Some w \<and> mset w = mset v"
proof -
  obtain idx where "qsort_tolerant cmp v = Some (map ((!) v) idx)" "mset idx = mset [0..<length v]"
    using qsort_result [of cmp v] by blast
  then show ?thesis using mset_reorder by blast
qed

text \<open>C22.  Safety: the array sort returns, for every mode and every set of flags, and moves
  each string together with its recorded length.\<close>

theorem strmetasort_permutes:
  assumes "length ls = length arr"
  shows "\<exists>out ls'. strmetasort S arr flags (Some ls) = Some (out, Some ls') \<and> mset (zip out ls') = mset (zip arr ls)"
proof -
  obtain idx where i: "strmetasort S arr flags (Some ls) = Some (map ((!) arr) idx, map_option (\<lambda>ls. map ((!) ls) idx) (Some ls))"
    "mset idx = mset [0..<length arr]"
    using strmetasort_result [of arr "Some ls" S flags] assms by auto
  have "set idx \<subseteq> {..<length arr}" using mset_eq_setD [OF i(2)] by auto
  then have "zip (map ((!) arr) idx) (map ((!) ls) idx) = map ((!) (zip arr ls)) idx"
    using assms by (auto simp: zip_map_map zip_same_conv_map)
  moreover have "mset (map ((!) (zip arr ls)) idx) = mset (zip arr ls)"
    using i(2) assms by (intro mset_reorder) simp
  ultimately show ?thesis using i(1) by auto
qed

definition demo_sort :: "bool \<Rightarrow> sort_conf" where
  "demo_sort bytewise = \<lparr>so_bytewise = bytewise, so_multibyte = False, so_strcoll = bytes_cmp,
     so_to_lowercase = (\<lambda>s. s), so_tulower = (\<lambda>c. c)\<rparr>"

theorem strmetasort_permutes_witness:
  "\<exists>out ls'. strmetasort (demo_sort False) [''b'', ''a'', ''c''] 0 (Some [1, 5, 9]) = Some (out, Some ls') \<and>
     mset (zip out ls') = mset [(''b'', 1), (''a'', 5), (''c'', 9)]"
  using strmetasort_permutes [of "[1, 5, 9]" "[''b'', ''a'', ''c'']" "demo_sort False" 0] by simp


text \<open>C23.  Functional: in the modes that compare bytewise (dash, ash and the pdksh family) the
  result is in the lexicographic order of the unmetafied and transformed keys, backwards
  under \<open>SORTIT_BACKWARDS\<close>, and keeps the order of elements with the same key.  Keys with NUL
  bytes, which go through the recorded lengths, are ordered the same way, and the numeric
  flags have no effect.\<close>

theorem strmetasort_bytewise:
  assumes "so_bytewise S" "case lens of Some ls \<Rightarrow> length ls = length arr | None \<Rightarrow> True"
    and "strmetasort S arr flags lens = Some (out, lens')"
  shows "sorted_wrt (\<lambda>x y. bytes_cmp (sort_key S flags x) (sort_key S flags y) \<noteq>
           (if sortit flags SORTIT_BACKWARDS then Less else Greater)) out \<and>
         (\<forall>k. filter (\<lambda>y. sort_key S flags y = k) out = filter (\<lambda>y. sort_key S flags y = k) arr)"
proof -
  let ?key = "sort_key S flags"
  let ?cmp = "\<lambda>x y. if sortit flags SORTIT_BACKWARDS then reverse_ordering (bytes_cmp (?key x) (?key y))
    else bytes_cmp (?key x) (?key y)"
  have c: "comparator ?cmp"
    using comparator_key [OF bytes.comparator_axioms, of ?key] comparator_reverse [of "\<lambda>x y. bytes_cmp (?key x) (?key y)"]
    by (cases "sortit flags SORTIT_BACKWARDS") simp_all
  have e: "\<forall>a b. elt_ok a \<longrightarrow> elt_ok b \<longrightarrow> se_cmp a = ?key x \<longrightarrow> se_cmp b = ?key y \<longrightarrow> eltpcmp S a b flags = ?cmp x y" for x y
    using eltpcmp_bytes [OF assms(1)] by simp
  have eq: "bytes_cmp a b = Equal \<longleftrightarrow> a = b" for a b
    by (induction a b rule: bytes_cmp.induct) (auto simp: not_less_iff_gr_or_eq byte_eq)
  have same: "?cmp x y = Equal \<longleftrightarrow> ?key y = ?key x" for x y
    using eq [of "?key x" "?key y"] by (cases "bytes_cmp (?key x) (?key y)") auto
  note sorts = strmetasort_sorts [OF assms(2) c e assms(3)]
  have "filter (\<lambda>y. ?key y = k) out = filter (\<lambda>y. ?key y = k) arr" for k
  proof (cases "\<exists>x. ?key x = k")
    case True
    then show ?thesis using sorts(2) unfolding same by blast
  next
    case False
    then show ?thesis by (metis (mono_tags) filter_False)
  qed
  then show ?thesis using sorts(1) by (auto split: if_splits elim: sorted_wrt_mono_rel [rotated])
qed

theorem strmetasort_bytewise_witness:
  "\<exists>out. strmetasort (demo_sort True) [''b_x'', ''a'', ''b2'', ''a'', ''b''] 8 None = Some (out, None) \<and>
     sorted_wrt (\<lambda>x y. bytes_cmp (sort_key (demo_sort True) 8 x) (sort_key (demo_sort True) 8 y) \<noteq> Less) out"
proof -
  let ?arr = "[''b_x'', ''a'', ''b2'', ''a'', ''b'']"
  have h: "so_bytewise (demo_sort True)" "case None of Some ls \<Rightarrow> length (ls :: nat list) = length ?arr | None \<Rightarrow> True"
    "sortit 8 SORTIT_BACKWARDS" by code_simp+
  obtain out where r: "strmetasort (demo_sort True) ?arr 8 None = Some (out, None)"
    using strmetasort_result [OF h(2), of "demo_sort True" 8] by auto
  show ?thesis using strmetasort_bytewise [OF h(1,2) r] r h(3) by auto
qed

text \<open>C25.  Functional: the numeric mode compares two digit strings by their value, leading
  zeros included; only when the values agree does the collation decide.\<close>

theorem zstrcmp_numeric:
  assumes "\<not> so_bytewise S" "sortit flags SORTIT_NUMERICALLY \<or> sortit flags SORTIT_NUMERICALLY_SIGNED"
    and "list_all is_digit a" "list_all is_digit b" "a \<noteq> []" "b \<noteq> []"
  shows "zstrcmp S a b flags =
    (if digits_val 10 a = digits_val 10 b then strcoll_cmp S a b else nat_cmp (digits_val 10 a) (digits_val 10 b))"
proof -
  have "c \<noteq> Bslash" if "is_digit c" for c using that by (auto simp: is_digit_def byte_def)
  then have "filter (\<lambda>c. c \<noteq> Bslash) a = a" "filter (\<lambda>c. c \<noteq> Bslash) b = b"
    using assms(3,4) by (auto simp: filter_id_conv list_all_iff)
  then show ?thesis
    using assms(1,2) cmp_numeric_value [OF assms(3-6)] by (auto simp: zstrcmp_def Let_def)
qed

theorem zstrcmp_numeric_witness:
  "zstrcmp (demo_sort False) ''0010'' ''9'' 2 = Greater"
proof -
  have "\<not> so_bytewise (demo_sort False)" "sortit 2 SORTIT_NUMERICALLY \<or> sortit 2 SORTIT_NUMERICALLY_SIGNED"
    "list_all is_digit ''0010''" "list_all is_digit ''9''" by code_simp+
  moreover have "digits_val 10 ''0010'' = 10" "digits_val 10 ''9'' = 9" by code_simp+
  ultimately show ?thesis using zstrcmp_numeric [of "demo_sort False" 2 "''0010''" "''9''"] by (simp add: nat_cmp_def)
qed


text \<open>C24.  Functional: outside those modes, with the numeric, the signed numeric and the backslash
  flag unset and for keys without NUL bytes, the result is in the order of the collation, and backwards under
  \<open>SORTIT_BACKWARDS\<close>; the collation is assumed to be a total preorder, as the C library
  documents \<open>strcoll\<close>.\<close>

theorem strmetasort_collates:
  assumes "\<not> so_bytewise S" "comparator (so_strcoll S)"
    and "case lens of Some ls \<Rightarrow> length ls = length arr | None \<Rightarrow> True"
    and "\<not> sortit flags SORTIT_NUMERICALLY" "\<not> sortit flags SORTIT_NUMERICALLY_SIGNED"
    and "\<not> sortit flags SORTIT_IGNORING_BACKSLASHES" "\<And>x. x \<in> set arr \<Longrightarrow> NUL \<notin> set (sort_key S flags x)"
    and "strmetasort S arr flags lens = Some (out, lens')"
  shows "sorted_wrt (\<lambda>x y. so_strcoll S (sort_key S flags x) (sort_key S flags y) \<noteq>
           (if sortit flags SORTIT_BACKWARDS then Less else Greater)) out"
proof -
  let ?key = "sort_key S flags"
  let ?cmp = "\<lambda>x y. if sortit flags SORTIT_BACKWARDS then reverse_ordering (so_strcoll S (?key x) (?key y))
    else so_strcoll S (?key x) (?key y)"
  have c: "comparator ?cmp"
    using comparator_key [OF assms(2), of ?key] comparator_reverse [of "\<lambda>x y. so_strcoll S (?key x) (?key y)"]
    by (cases "sortit flags SORTIT_BACKWARDS") simp_all
  have fw: "sortit (semiring_bit_operations_class.and flags (ring_bit_operations_class.not (push_bit SORTIT_BACKWARDS 1))) b = sortit flags b"
    if "b \<noteq> SORTIT_BACKWARDS" for b
    using that bit_imp_le_length [of flags b] by (auto simp: sortit_def bit_simps)
  have e: "eltpcmp S a b flags = ?cmp x y"
    if "x \<in> set arr" "y \<in> set arr" "elt_ok a" "elt_ok b" "se_cmp a = ?key x" "se_cmp b = ?key y" for a b x y
  proof -
    have n: "NUL \<notin> set (se_cmp a)" "NUL \<notin> set (se_cmp b)" using that assms(7) by simp_all
    then have l: "se_len a = - 1" "se_len b = - 1" using that(3,4) by (simp_all add: elt_ok_def)
    have t: "takeWhile (\<lambda>c. c \<noteq> NUL) (?key x) = ?key x" "takeWhile (\<lambda>c. c \<noteq> NUL) (?key y) = ?key y"
      using n that(5,6) by (auto simp: takeWhile_eq_all_conv)
    have f: "SORTIT_NUMERICALLY \<noteq> SORTIT_BACKWARDS" "SORTIT_NUMERICALLY_SIGNED \<noteq> SORTIT_BACKWARDS"
      "SORTIT_IGNORING_BACKSLASHES \<noteq> SORTIT_BACKWARDS"
      by (simp_all add: SORTIT_NUMERICALLY_def SORTIT_NUMERICALLY_SIGNED_def SORTIT_IGNORING_BACKSLASHES_def SORTIT_BACKWARDS_def)
    show ?thesis
      using assms(1,4-6) f by (simp add: eltpcmp_def l that(5,6) zstrcmp_def Let_def fw strcoll_cmp_def t del: push_bit_of_1)
  qed
  then have "\<forall>a b. elt_ok a \<longrightarrow> elt_ok b \<longrightarrow> se_cmp a = ?key x \<longrightarrow> se_cmp b = ?key y \<longrightarrow> eltpcmp S a b flags = ?cmp x y"
    if "x \<in> set arr" "y \<in> set arr" for x y using that by blast
  from strmetasort_sorts(1) [OF assms(3) c this assms(8)] show ?thesis
    by (auto split: if_splits elim: sorted_wrt_mono_rel [rotated])
qed

theorem strmetasort_collates_witness:
  "\<exists>out. strmetasort (demo_sort False) [''b'', ''a''] 0 None = Some (out, None) \<and>
     sorted_wrt (\<lambda>x y. bytes_cmp (sort_key (demo_sort False) 0 x) (sort_key (demo_sort False) 0 y) \<noteq> Greater) out"
proof -
  let ?S = "demo_sort False" and ?arr = "[''b'', ''a'']"
  have h: "\<not> so_bytewise ?S" "comparator (so_strcoll ?S)"
    "case None of Some ls \<Rightarrow> length (ls :: nat list) = length ?arr | None \<Rightarrow> True"
    "\<not> sortit 0 SORTIT_NUMERICALLY" "\<not> sortit 0 SORTIT_NUMERICALLY_SIGNED" "\<not> sortit 0 SORTIT_IGNORING_BACKSLASHES"
    "\<not> sortit 0 SORTIT_BACKWARDS"
    using bytes.comparator_axioms by (simp_all add: demo_sort_def sortit_def)
  have k: "NUL \<notin> set (sort_key ?S 0 x)" if "x \<in> set ?arr" for x
    using that h(6) by (auto simp: sort_key_def apply_transforms_def sortit_def unmetafy_str_def chars.simps utf8_width_def byte_def)
  obtain out where r: "strmetasort ?S ?arr 0 None = Some (out, None)"
    using strmetasort_result [OF h(3), of ?S 0] by auto
  have "so_strcoll ?S = bytes_cmp" by (simp add: demo_sort_def)
  then show ?thesis using strmetasort_collates [OF h(1-6) k r] r h(7) by auto
qed

end
