(* ===== verification/Tparm.thy ===== *)
theory Tparm
  imports Prelude
begin

text \<open>
  The terminfo string evaluator, \<open>src/src/extensions/tparm.rs\<close>: \<open>tparm_params\<close>, the termcap
  addresser \<open>tgoto\<close> and the padding writer \<open>tputs\<close>.  The code walks a byte array with an
  index; the model keeps the unread suffix, so \<open>cap.get(i)\<close> is its head and \<open>i + 1\<close> its
  tail.  Rust arithmetic is that of a release build: it wraps.  The static variables
  \<open>%PA\<close> to \<open>%PZ\<close>, a global of the code, are passed and returned.
\<close>

section \<open>Values and the integer formatter\<close>

datatype V = VInt i64 | VStr string

fun v_int :: "V \<Rightarrow> i64" where
  "v_int (VInt i) = i"
| "v_int (VStr s) = (case parse_i64 s of Some n \<Rightarrow> n | None \<Rightarrow> 0)"

fun v_string :: "V \<Rightarrow> string" where
  "v_string (VInt i) = show_int (sint i)"
| "v_string (VStr s) = s"

text \<open>\<open>str::parse::<usize>\<close>, \<open>str::split_once\<close> and \<open>{:o}\<close>, \<open>{:x}\<close>, \<open>{:X}\<close>.\<close>

definition parse_usize :: "string \<Rightarrow> nat option" where
  "parse_usize s = (case s of
     [] \<Rightarrow> None
   | c # cs \<Rightarrow> (case parse_digits (if c = CHR ''+'' then cs else s) of
       None \<Rightarrow> None
     | Some n \<Rightarrow> if n < 2 ^ 64 then Some n else None))"

definition split_once :: "char \<Rightarrow> string \<Rightarrow> (string \<times> string) option" where
  "split_once c s = map_option (\<lambda>i. (take i s, drop (i + 1) s)) (find_char c s)"

definition base_char :: "bool \<Rightarrow> nat \<Rightarrow> char" where
  "base_char upper n = (if n < 10 then digit_char n else char_of ((if upper then 55 else 87) + n))"

function show_base :: "nat \<Rightarrow> bool \<Rightarrow> nat \<Rightarrow> string" where
  "show_base b upper n =
     (if n < b \<or> b < 2 then [base_char upper n] else show_base b upper (n div b) @ [base_char upper (n mod b)])"
  by pat_completeness auto
termination by (relation "measure (\<lambda>(b, upper, n). n)") auto

declare show_base.simps [simp del]

record fmt_flags =
  f_left :: bool
  f_zero :: bool
  f_plus :: bool
  f_space :: bool
  f_alt :: bool

fun scan_flags :: "fmt_flags \<Rightarrow> string \<Rightarrow> fmt_flags \<times> string" where
  "scan_flags f [] = (f, [])"
| "scan_flags f (c # cs) =
     (if c = CHR ''-'' then scan_flags (f\<lparr>f_left := True\<rparr>) cs
      else if c = CHR ''0'' then scan_flags (f\<lparr>f_zero := True\<rparr>) cs
      else if c = CHR ''+'' then scan_flags (f\<lparr>f_plus := True\<rparr>) cs
      else if c = CHR '' '' then scan_flags (f\<lparr>f_space := True\<rparr>) cs
      else if c = CHR ''#'' then scan_flags (f\<lparr>f_alt := True\<rparr>) cs
      else (f, c # cs))"

definition fmt_width :: "string \<Rightarrow> nat option \<times> nat option" where
  "fmt_width rest = (case split_once (CHR ''.'') rest of
     Some (a, b) \<Rightarrow> (parse_usize a, parse_usize b)
   | None \<Rightarrow> (parse_usize rest, None))"

text \<open>The digits go through \<open>i32\<close>, the sign does not.\<close>

definition fmt_digits :: "char \<Rightarrow> i64 \<Rightarrow> string" where
  "fmt_digits conv v =
     (let n32 = (ucast v :: i32)
      in if conv = CHR ''o'' then show_base 8 False (unat n32)
         else if conv = CHR ''x'' then show_base 16 False (unat n32)
         else if conv = CHR ''X'' then show_base 16 True (unat n32)
         else show_nat (nat \<bar>sint n32\<bar>))"

definition fmt_prefix :: "fmt_flags \<Rightarrow> char \<Rightarrow> i64 \<Rightarrow> string" where
  "fmt_prefix f conv v =
     (if conv = CHR ''d'' then
        (if i64_lt v 0 then ''-'' else if f_plus f then ''+'' else if f_space f then '' '' else '''')
      else if f_alt f \<and> v \<noteq> 0 then
        (if conv = CHR ''o'' then ''0'' else if conv = CHR ''x'' then ''0x'' else if conv = CHR ''X'' then ''0X'' else '''')
      else '''')"

definition fmt_pad :: "fmt_flags \<Rightarrow> char \<Rightarrow> i64 \<Rightarrow> nat option \<Rightarrow> string \<Rightarrow> string" where
  "fmt_pad f conv v w body = (case w of
     None \<Rightarrow> body
   | Some w \<Rightarrow>
       if w \<le> length body then body
       else let pad = w - length body
            in if f_left f then body @ replicate pad (CHR '' '')
               else if f_zero f \<and> conv = CHR ''d'' \<and> (i64_lt v 0 \<or> f_plus f \<or> f_space f)
               then take 1 body @ replicate pad (CHR ''0'') @ drop 1 body
               else if f_zero f then replicate pad (CHR ''0'') @ body
               else replicate pad (CHR '' '') @ body)"

definition fmt_int :: "string \<Rightarrow> char \<Rightarrow> i64 \<Rightarrow> string" where
  "fmt_int spec0 conv v =
     (let spec = (case strip_prefix '':'' spec0 of Some s \<Rightarrow> s | None \<Rightarrow> spec0);
          (f, rest) = scan_flags \<lparr>f_left = False, f_zero = False, f_plus = False, f_space = False, f_alt = False\<rparr> spec;
          (w, p) = fmt_width rest;
          digits = fmt_digits conv v;
          body = (case p of Some p \<Rightarrow> replicate (p - length digits) (CHR ''0'') @ digits | None \<Rightarrow> digits)
      in fmt_pad f conv v w (fmt_prefix f conv v @ body))"

section \<open>The stack machine\<close>

record tstate =
  t_rest :: string
  t_params :: "V list"
  t_out :: string
  t_stack :: "V list"
  t_dynamic :: "i64 list"
  t_statics :: "i64 list"
  t_incremented :: bool

abbreviation Pct :: char where "Pct \<equiv> CHR ''%''"

definition t_push :: "V \<Rightarrow> tstate \<Rightarrow> tstate" where
  "t_push v s = s\<lparr>t_stack := t_stack s @ [v]\<rparr>"

definition t_pop :: "tstate \<Rightarrow> V \<times> tstate" where
  "t_pop s = (if t_stack s = [] then (VInt 0, s) else (last (t_stack s), s\<lparr>t_stack := butlast (t_stack s)\<rparr>))"

definition t_emit :: "string \<Rightarrow> tstate \<Rightarrow> tstate" where
  "t_emit x s = s\<lparr>t_out := t_out s @ x\<rparr>"

text \<open>The two scans over a branch that is not taken.\<close>

fun skip_to_else_or_end :: "nat \<Rightarrow> string \<Rightarrow> string" where
  "skip_to_else_or_end depth [] = []"
| "skip_to_else_or_end depth [c] = (if c \<noteq> Pct then [] else [c])"
| "skip_to_else_or_end depth (x # c # r) =
     (if x \<noteq> Pct then skip_to_else_or_end depth (c # r)
      else if c = CHR ''?'' then skip_to_else_or_end (depth + 1) r
      else if c = CHR '';'' then (if depth = 0 then r else skip_to_else_or_end (depth - 1) r)
      else if c = CHR ''e'' \<and> depth = 0 then r
      else skip_to_else_or_end depth r)"

fun skip_to_end :: "nat \<Rightarrow> string \<Rightarrow> string" where
  "skip_to_end depth [] = []"
| "skip_to_end depth [c] = (if c \<noteq> Pct then [] else [c])"
| "skip_to_end depth (x # c # r) =
     (if x \<noteq> Pct then skip_to_end depth (c # r)
      else if c = CHR ''?'' then skip_to_end (depth + 1) r
      else if c = CHR '';'' then (if depth = 0 then r else skip_to_end (depth - 1) r)
      else skip_to_end depth r)"

definition binary_op :: "char \<Rightarrow> i64 \<Rightarrow> i64 \<Rightarrow> i64" where
  "binary_op c a b =
     (if c = CHR ''+'' then a + b
      else if c = CHR ''-'' then a - b
      else if c = CHR ''*'' then a * b
      else if c = CHR ''/'' then (if b = 0 then 0 else i64_div a b)
      else if c = CHR ''m'' then (if b = 0 then 0 else i64_rem a b)
      else if c = CHR ''&'' then i64_and a b
      else if c = CHR ''|'' then i64_or a b
      else if c = CHR ''^'' then i64_xor a b
      else if c = CHR ''='' then bool_i64 (a = b)
      else if c = CHR ''<'' then bool_i64 (i64_lt a b)
      else if c = CHR ''>'' then bool_i64 (i64_lt b a)
      else if c = CHR ''A'' then bool_i64 (a \<noteq> 0 \<and> b \<noteq> 0)
      else bool_i64 (a \<noteq> 0 \<or> b \<noteq> 0))"

definition is_binary_op :: "char \<Rightarrow> bool" where
  "is_binary_op c \<longleftrightarrow> c \<in> set ''+-*/m&|^=<>AO''"

definition is_upper :: "char \<Rightarrow> bool" where "is_upper c \<longleftrightarrow> 65 \<le> byte c \<and> byte c \<le> 90"
definition is_lower :: "char \<Rightarrow> bool" where "is_lower c \<longleftrightarrow> 97 \<le> byte c \<and> byte c \<le> 122"

definition param_at :: "V list \<Rightarrow> nat \<Rightarrow> V" where
  "param_at p i = (if i < length p then p ! i else VInt 0)"

text \<open>\<open>%i\<close>: the first two parameters are incremented, once; in the termcap reading they are
  also written over the two bottom slots of the stack.\<close>

definition bump :: "V list \<Rightarrow> V list" where
  "bump p = map (\<lambda>v. VInt (v_int v + 1)) (take 2 p) @ drop 2 p"

definition to_slot :: "V list \<Rightarrow> nat \<Rightarrow> V list \<Rightarrow> V list" where
  "to_slot p k st = (if k < length p \<and> k < length st then st[k := VInt (v_int (p ! k))] else st)"

definition t_increment :: "bool \<Rightarrow> tstate \<Rightarrow> tstate" where
  "t_increment hack s =
     (if t_incremented s then s
      else let p = bump (t_params s)
           in s\<lparr>t_incremented := True, t_params := p,
                t_stack := if hack then to_slot p 1 (to_slot p 0 (t_stack s)) else t_stack s\<rparr>)"

text \<open>\<open>%PA\<close> and \<open>%gA\<close>.\<close>

definition t_set_var :: "char \<Rightarrow> i64 \<Rightarrow> tstate \<Rightarrow> tstate" where
  "t_set_var n v s =
     (if is_upper n then s\<lparr>t_statics := (t_statics s)[byte n - 65 := v]\<rparr>
      else if is_lower n then s\<lparr>t_dynamic := (t_dynamic s)[byte n - 97 := v]\<rparr>
      else s)"

definition t_get_var :: "char \<Rightarrow> tstate \<Rightarrow> i64" where
  "t_get_var n s =
     (if is_upper n then t_statics s ! (byte n - 65)
      else if is_lower n then t_dynamic s ! (byte n - 97)
      else 0)"

text \<open>The run of flags, width and precision before a conversion character: the text of the
  run, the conversion and what follows.\<close>

definition is_spec_char :: "char \<Rightarrow> bool" where
  "is_spec_char d \<longleftrightarrow> is_digit d \<or> d = CHR ''.'' \<or> d = CHR ''-'' \<or> d = CHR ''+'' \<or> d = CHR '' '' \<or> d = CHR ''#''"

definition is_conversion :: "char \<Rightarrow> bool" where
  "is_conversion c \<longleftrightarrow> c \<in> set ''doxXs''"

definition spec_run :: "string \<Rightarrow> string \<times> string" where
  "spec_run r =
     (let colon = (case r of [] \<Rightarrow> [] | c # _ \<Rightarrow> if c = CHR '':'' then [c] else []);
          r1 = drop (length colon) r
      in (colon @ takeWhile is_spec_char r1, dropWhile is_spec_char r1))"

definition t_format :: "string \<Rightarrow> (string \<times> char \<times> string) option" where
  "t_format r = (case r of
     [] \<Rightarrow> None
   | c # _ \<Rightarrow>
       if c = CHR '':'' \<or> is_spec_char c then
         (case spec_run r of
            (spec, conv # after) \<Rightarrow> if is_conversion conv then Some (spec, conv, after) else None
          | (spec, []) \<Rightarrow> None)
       else None)"

definition t_show :: "string \<Rightarrow> char \<Rightarrow> V \<Rightarrow> string" where
  "t_show spec conv v = (if conv = CHR ''s'' then v_string v else fmt_int spec conv (v_int v))"

definition t_print :: "string \<Rightarrow> char \<Rightarrow> tstate \<Rightarrow> tstate" where
  "t_print spec conv s = (let (v, s1) = t_pop s in t_emit (t_show spec conv v) s1)"

text \<open>One directive, its character already read.\<close>

definition t_directive :: "bool \<Rightarrow> char \<Rightarrow> tstate \<Rightarrow> tstate" where
  "t_directive hack c s =
     (if c = Pct then t_emit [Pct] s
      else if is_conversion c then t_print [] c s
      else if c = CHR ''c'' then
        (let (v, s1) = t_pop s
         in t_emit [if v_int v = 0 then char_of (128 :: nat) else char_of (unat (i64_and (v_int v) 255))] s1)
      else if c = CHR ''p'' then
        (case t_rest s of
           [] \<Rightarrow> s
         | n # r \<Rightarrow>
             let idx = (if is_digit n then digit_val n else 0); s1 = s\<lparr>t_rest := r\<rparr>
             in if 1 \<le> idx then t_push (param_at (t_params s) (idx - 1)) s1 else s1)
      else if c = CHR 0x27 then
        (case t_rest s of
           [] \<Rightarrow> s
         | ch # r \<Rightarrow>
             t_push (VInt (of_nat (byte ch)))
               (s\<lparr>t_rest := (case r of [] \<Rightarrow> [] | q # r' \<Rightarrow> if q = CHR 0x27 then r' else r)\<rparr>))
      else if c = CHR ''{'' then
        (let n = takeWhile (\<lambda>x. x \<noteq> CHR ''}'') (t_rest s)
         in t_push (VInt (case parse_i64 n of Some i \<Rightarrow> i | None \<Rightarrow> 0))
              (s\<lparr>t_rest := drop 1 (dropWhile (\<lambda>x. x \<noteq> CHR ''}'') (t_rest s))\<rparr>))
      else if c = CHR ''l'' then
        (let (v, s1) = t_pop s in t_push (VInt (of_nat (length (v_string v)))) s1)
      else if c = CHR ''P'' then
        (case t_rest s of
           [] \<Rightarrow> s
         | n # r \<Rightarrow> let (v, s1) = t_pop (s\<lparr>t_rest := r\<rparr>) in t_set_var n (v_int v) s1)
      else if c = CHR ''g'' then
        (case t_rest s of
           [] \<Rightarrow> s
         | n # r \<Rightarrow> t_push (VInt (t_get_var n s)) (s\<lparr>t_rest := r\<rparr>))
      else if is_binary_op c then
        (let (b, s1) = t_pop s; (a, s2) = t_pop s1
         in t_push (VInt (binary_op c (v_int a) (v_int b))) s2)
      else if c = CHR ''!'' then
        (let (v, s1) = t_pop s in t_push (VInt (bool_i64 (v_int v = 0))) s1)
      else if c = CHR ''~'' then
        (let (v, s1) = t_pop s in t_push (VInt (i64_not (v_int v))) s1)
      else if c = CHR ''i'' then t_increment hack s
      else if c = CHR ''t'' then
        (let (v, s1) = t_pop s
         in if v_int v \<noteq> 0 then s1 else s1\<lparr>t_rest := skip_to_else_or_end 0 (t_rest s1)\<rparr>)
      else if c = CHR ''e'' then s\<lparr>t_rest := skip_to_end 0 (t_rest s)\<rparr>
      else s)"

text \<open>One turn of the loop.\<close>

definition t_step :: "bool \<Rightarrow> tstate \<Rightarrow> tstate" where
  "t_step hack s = (case t_rest s of
     [] \<Rightarrow> s
   | x # r \<Rightarrow>
       if x \<noteq> Pct then t_emit [x] (s\<lparr>t_rest := r\<rparr>)
       else (case r of
          [] \<Rightarrow> s\<lparr>t_rest := []\<rparr>
        | c # r' \<Rightarrow> (case t_format r of
             Some (spec, conv, after) \<Rightarrow> t_print spec conv (s\<lparr>t_rest := after\<rparr>)
           | None \<Rightarrow> t_directive hack c (s\<lparr>t_rest := r'\<rparr>))))"

subsection \<open>Every turn reads something\<close>

lemma skip_to_else_or_end_length: "length (skip_to_else_or_end d r) \<le> length r"
  by (induction d r rule: skip_to_else_or_end.induct) (auto simp: le_SucI)

lemma skip_to_end_length: "length (skip_to_end d r) \<le> length r"
  by (induction d r rule: skip_to_end.induct) (auto simp: le_SucI)

lemma t_rest_helpers [simp]:
  "t_rest (t_push v s) = t_rest s" "t_rest (t_emit x s) = t_rest s" "t_rest (snd (t_pop s)) = t_rest s"
  "t_rest (t_print spec conv s) = t_rest s" "t_rest (t_increment hack s) = t_rest s" "t_rest (t_set_var n w s) = t_rest s"
  by (simp_all add: t_push_def t_emit_def t_pop_def t_print_def t_increment_def t_set_var_def Let_def split: prod.split)

lemma t_pop_rest: "t_pop s = (v, s1) \<Longrightarrow> t_rest s1 = t_rest s"
  using t_rest_helpers(3) [of s] by simp

lemma t_rest_if:
  assumes "length (t_rest a) \<le> n" "length (t_rest b) \<le> n"
  shows "length (t_rest (if P then a else b)) \<le> n"
  using assms by simp

lemma t_directive_length: "length (t_rest (t_directive hack c s)) \<le> length (t_rest s)"
proof -
  have "length (drop 1 (dropWhile P (t_rest s))) \<le> length (t_rest s)" for P
    using length_dropWhile_le [of P "t_rest s"] by simp
  then show ?thesis
    unfolding t_directive_def Let_def
    by (intro t_rest_if)
      (auto simp: skip_to_else_or_end_length skip_to_end_length split: prod.split list.split dest!: t_pop_rest)
qed

lemma t_format_length: "t_format r = Some (spec, conv, after) \<Longrightarrow> length after < length r"
proof -
  assume "t_format r = Some (spec, conv, after)"
  then have "dropWhile is_spec_char (drop k r) = conv # after" if "k = (case r of [] \<Rightarrow> 0 | c # _ \<Rightarrow> if c = CHR '':'' then 1 else 0)" for k
    using that by (auto simp: t_format_def spec_run_def Let_def split: list.splits if_splits)
  from this [OF refl] show ?thesis
    using length_dropWhile_le [of is_spec_char "drop (case r of [] \<Rightarrow> 0 | c # _ \<Rightarrow> if c = CHR '':'' then 1 else 0) r"] by simp
qed

lemma t_step_length:
  assumes "t_rest s \<noteq> []"
  shows "length (t_rest (t_step hack s)) < length (t_rest s)"
proof -
  have "length (t_rest (t_directive hack c (s\<lparr>t_rest := r\<rparr>))) < Suc (Suc (length r))" for c r
    using t_directive_length [of hack c "s\<lparr>t_rest := r\<rparr>"] by simp
  then show ?thesis
    using assms by (auto simp: t_step_def dest!: t_format_length split: list.split option.split)
qed

function tparm_loop :: "bool \<Rightarrow> tstate \<Rightarrow> tstate" where
  "tparm_loop hack s = (if t_rest s = [] then s else tparm_loop hack (t_step hack s))"
  by pat_completeness auto
termination
  by (relation "measure (\<lambda>(hack, s). length (t_rest s))") (auto simp: t_step_length)

declare tparm_loop.simps [simp del]

section \<open>The entry point\<close>

fun says_pct_p :: "string \<Rightarrow> bool" where
  "says_pct_p (x # c # r) = ((x = Pct \<and> c = CHR ''p'') \<or> says_pct_p (c # r))"
| "says_pct_p r = False"

function count_conversions :: "string \<Rightarrow> nat" where
  "count_conversions r = (case r of
     x # c # r' \<Rightarrow>
       if x \<noteq> Pct then count_conversions (c # r')
       else (case snd (spec_run (c # r')) of
          k # after \<Rightarrow> if is_conversion k \<or> k = CHR ''c'' then 1 + count_conversions after else count_conversions r'
        | [] \<Rightarrow> count_conversions r')
   | _ \<Rightarrow> 0)"
  by pat_completeness auto

lemma spec_run_length: "length (snd (spec_run r)) \<le> length r"
  using length_dropWhile_le [of is_spec_char "drop (length (case r of [] \<Rightarrow> [] | c # _ \<Rightarrow> if c = CHR '':'' then [c] else [])) r"]
  by (simp add: spec_run_def Let_def)

lemma spec_run_after: "snd (spec_run (c # r)) = k # after \<Longrightarrow> length after < Suc (Suc (length r))"
  using spec_run_length [of "c # r"] by simp

termination count_conversions
  by (relation "measure length") (auto simp: spec_run_after)

declare count_conversions.simps [simp del]

definition pre_push :: "V list \<Rightarrow> nat \<Rightarrow> V list" where
  "pre_push p n = map (param_at p) (rev [0..<n])"

definition tparm_params :: "string \<Rightarrow> V list \<Rightarrow> i64 list \<Rightarrow> string \<times> i64 list" where
  "tparm_params cap params statics =
     (let hack = (\<not> says_pct_p cap);
          st = (if hack then pre_push params (min (count_conversions cap) 2) else []);
          s = tparm_loop hack \<lparr>t_rest = cap, t_params = params, t_out = [], t_stack = st,
                t_dynamic = replicate 26 0, t_statics = statics, t_incremented = False\<rparr>
      in (takeWhile (\<lambda>b. b \<noteq> CHR 0x00) (t_out s), t_statics s))"

definition tparm :: "string \<Rightarrow> i64 list \<Rightarrow> i64 list \<Rightarrow> string \<times> i64 list" where
  "tparm cap params statics = tparm_params cap (map VInt params) statics"

end
