(* ===== verification/Termcap.thy ===== *)
theory Termcap
  imports Tparm
begin

text \<open>
  The rest of \<open>src/src/extensions/tparm.rs\<close>: the termcap cursor addresser \<open>tgoto\<close> and the
  padding writer \<open>tputs\<close>, each a loop over the unread suffix as in Tparm.
\<close>

section \<open>tgoto\<close>

record gstate =
  g_rest :: string
  g_args :: "i64 list"
  g_next :: nat
  g_out :: string

text \<open>\<open>{:02}\<close> and \<open>{:03}\<close>: the zeros go after the sign, which counts for the width.\<close>

definition zero_pad :: "nat \<Rightarrow> int \<Rightarrow> string" where
  "zero_pad w i =
     (let digits = show_nat (nat \<bar>i\<bar>); sign = (if i < 0 then ''-'' else [])
      in sign @ replicate (w - length sign - length digits) (CHR ''0'') @ digits)"

definition g_emit :: "string \<Rightarrow> gstate \<Rightarrow> gstate" where
  "g_emit x s = s\<lparr>g_out := g_out s @ x\<rparr>"

definition g_peek :: "gstate \<Rightarrow> i64" where
  "g_peek s = (if g_next s < length (g_args s) then g_args s ! g_next s else 0)"

definition g_take :: "gstate \<Rightarrow> i64 \<times> gstate" where
  "g_take s = (g_peek s, s\<lparr>g_next := g_next s + 1\<rparr>)"

definition g_slot :: "(i64 \<Rightarrow> i64) \<Rightarrow> gstate \<Rightarrow> gstate" where
  "g_slot f s = (if g_next s < length (g_args s) then s\<lparr>g_args := (g_args s)[g_next s := f (g_args s ! g_next s)]\<rparr> else s)"

definition low_byte :: "i64 \<Rightarrow> char" where
  "low_byte v = char_of (unat (i64_and v 255))"

definition head_byte :: "string \<Rightarrow> i64" where
  "head_byte r = (case r of [] \<Rightarrow> 0 | c # _ \<Rightarrow> of_nat (byte c))"

definition g_directive :: "char \<Rightarrow> gstate \<Rightarrow> gstate" where
  "g_directive c s =
     (if c = Pct then g_emit [Pct] s
      else if c = CHR ''d'' then (let (v, s1) = g_take s in g_emit (show_int (sint v)) s1)
      else if c = CHR ''2'' then (let (v, s1) = g_take s in g_emit (zero_pad 2 (sint (i64_rem v 100))) s1)
      else if c = CHR ''3'' then (let (v, s1) = g_take s in g_emit (zero_pad 3 (sint (i64_rem v 1000))) s1)
      else if c = CHR ''.'' then (let (v, s1) = g_take s in g_emit [low_byte v] s1)
      else if c = CHR ''+'' then
        (let add = head_byte (g_rest s); (v, s1) = g_take (s\<lparr>g_rest := drop 1 (g_rest s)\<rparr>)
         in g_emit [low_byte (v + add)] s1)
      else if c = CHR ''>'' then
        (let x = head_byte (g_rest s); y = head_byte (drop 1 (g_rest s)); s1 = s\<lparr>g_rest := drop 2 (g_rest s)\<rparr>
         in if i64_lt x (g_peek s1) then g_slot (\<lambda>v. v + y) s1 else s1)
      else if c = CHR ''r'' then s\<lparr>g_args := [g_args s ! 1, g_args s ! 0]\<rparr>
      else if c = CHR ''i'' then s\<lparr>g_args := [g_args s ! 0 + 1, g_args s ! 1 + 1]\<rparr>
      else if c = CHR ''n'' then s\<lparr>g_args := [i64_xor (g_args s ! 0) 96, i64_xor (g_args s ! 1) 96]\<rparr>
      else if c = CHR ''B'' then g_slot (\<lambda>v. i64_div v 10 * 16 + i64_rem v 10) s
      else if c = CHR ''D'' then g_slot (\<lambda>v. v - 2 * i64_rem v 16) s
      else g_emit [c] s)"

definition g_step :: "gstate \<Rightarrow> gstate" where
  "g_step s = (case g_rest s of
     [] \<Rightarrow> s
   | x # r \<Rightarrow>
       if x \<noteq> Pct then g_emit [x] (s\<lparr>g_rest := r\<rparr>)
       else (case r of [] \<Rightarrow> s\<lparr>g_rest := []\<rparr> | c # r' \<Rightarrow> g_directive c (s\<lparr>g_rest := r'\<rparr>)))"

lemma g_rest_helpers [simp]:
  "g_rest (g_emit x s) = g_rest s" "g_rest (g_slot f s) = g_rest s"
  by (simp_all add: g_emit_def g_slot_def)

lemma g_rest_if:
  assumes "length (g_rest a) \<le> n" "length (g_rest b) \<le> n"
  shows "length (g_rest (if P then a else b)) \<le> n"
  using assms by simp

lemma g_directive_length: "length (g_rest (g_directive c s)) \<le> length (g_rest s)"
  unfolding g_directive_def Let_def by (intro g_rest_if) (auto simp: g_take_def)

lemma g_step_length:
  assumes "g_rest s \<noteq> []"
  shows "length (g_rest (g_step s)) < length (g_rest s)"
proof -
  have "length (g_rest (g_directive c (s\<lparr>g_rest := r\<rparr>))) < Suc (Suc (length r))" for c r
    using g_directive_length [of c "s\<lparr>g_rest := r\<rparr>"] by simp
  then show ?thesis using assms by (auto simp: g_step_def split: list.split)
qed

function tgoto_loop :: "gstate \<Rightarrow> gstate" where
  "tgoto_loop s = (if g_rest s = [] then s else tgoto_loop (g_step s))"
  by pat_completeness auto
termination
  by (relation "measure (\<lambda>s. length (g_rest s))") (auto simp: g_step_length)

declare tgoto_loop.simps [simp del]

definition tgoto :: "string \<Rightarrow> i64 \<Rightarrow> i64 \<Rightarrow> i64 list \<Rightarrow> string \<times> i64 list" where
  "tgoto cap col row statics =
     (if says_pct_p cap then tparm cap [row, col] statics
      else (g_out (tgoto_loop \<lparr>g_rest = cap, g_args = [row, col], g_next = 0, g_out = []\<rparr>), statics))"

section \<open>tputs\<close>

record PadInfo =
  p_baud :: i32
  p_xon :: bool
  p_padding_baud_rate :: i32
  p_no_pad_char :: bool
  p_pad_char :: char

definition BAUDBYTE :: i64 where "BAUDBYTE = 9"

text \<open>\<open>number = number * 10 + digit\<close> over a run of digits, in \<open>i64\<close>.\<close>

definition read_number :: "string \<Rightarrow> i64" where
  "read_number ds = foldl (\<lambda>a c. a * 10 + of_nat (digit_val c)) 0 ds"

text \<open>The fraction: at most one digit counts.\<close>

definition read_fraction :: "i64 \<Rightarrow> string \<Rightarrow> i64 \<times> string" where
  "read_fraction number r = (case r of
     c # r1 \<Rightarrow>
       if c = CHR ''.'' then
         (case r1 of
            d # r2 \<Rightarrow> if is_digit d then (number + of_nat (digit_val d), dropWhile is_digit r2) else (number, r1)
          | [] \<Rightarrow> (number, r1))
       else (number, r)
   | [] \<Rightarrow> (number, r))"

fun read_marks :: "i32 \<Rightarrow> i64 \<Rightarrow> bool \<Rightarrow> string \<Rightarrow> i64 \<times> bool \<times> string" where
  "read_marks affcnt number mandatory [] = (number, mandatory, [])"
| "read_marks affcnt number mandatory (c # r) =
     (if c = CHR ''*'' then read_marks affcnt (number * scast affcnt) mandatory r
      else if c = CHR ''/'' then read_marks affcnt number True r
      else (number, mandatory, c # r))"

definition pad_bytes :: "PadInfo \<Rightarrow> i64 \<Rightarrow> bool \<Rightarrow> string" where
  "pad_bytes info number mandatory =
     (let normal_delay = (\<not> p_xon info \<and> 0 < sint (p_padding_baud_rate info) \<and>
            sint (p_padding_baud_rate info) \<le> sint (p_baud info))
      in if i64_lt 0 number \<and> (normal_delay \<or> mandatory) \<and> \<not> p_no_pad_char info
         then let ms = i64_div number 10;
                  nullcount = i64_div (ms * scast (p_baud info)) (BAUDBYTE * 1000)
              in replicate (nat (sint nullcount)) (p_pad_char info)
         else [])"

text \<open>A delay that starts right after \<open>$<\<close>: the pad bytes and the unread suffix.\<close>

definition read_delay :: "i32 \<Rightarrow> PadInfo \<Rightarrow> string \<Rightarrow> string \<times> string" where
  "read_delay affcnt info r =
     (let number = read_number (takeWhile is_digit r) * 10;
          (number1, r1) = read_fraction number (dropWhile is_digit r);
          (number2, mandatory, r2) = read_marks affcnt number1 False r1;
          r3 = (case r2 of c # r' \<Rightarrow> if c = CHR ''>'' then r' else r2 | [] \<Rightarrow> r2)
      in (pad_bytes info number2 mandatory, r3))"

definition opens_delay :: "string \<Rightarrow> bool" where
  "opens_delay rest \<longleftrightarrow>
     (case rest of [] \<Rightarrow> False | c # _ \<Rightarrow> is_digit c \<or> c = CHR ''.'') \<and> CHR ''>'' \<in> set rest"

lemma read_fraction_length: "length (snd (read_fraction n r)) \<le> length r"
  using length_dropWhile_le [of is_digit "drop 2 r"]
  by (auto simp: read_fraction_def split: list.split)

lemma read_marks_length: "length (snd (snd (read_marks a n m r))) \<le> length r"
  by (induction a n m r rule: read_marks.induct) (auto simp: le_SucI)

lemma read_delay_length: "length (snd (read_delay affcnt info r)) \<le> length r"
proof -
  obtain n r1 where f: "read_fraction (read_number (takeWhile is_digit r) * 10) (dropWhile is_digit r) = (n, r1)"
    by (cases "read_fraction (read_number (takeWhile is_digit r) * 10) (dropWhile is_digit r)")
  obtain n2 m r2 where g: "read_marks affcnt n False r1 = (n2, m, r2)"
    by (cases "read_marks affcnt n False r1") auto
  have "length r2 \<le> length r"
    using read_fraction_length [of "read_number (takeWhile is_digit r) * 10" "dropWhile is_digit r"]
      read_marks_length [of affcnt n False r1] length_dropWhile_le [of is_digit r] f g by simp
  then show ?thesis by (auto simp: read_delay_def f g split: list.split)
qed

function tputs :: "string \<Rightarrow> i32 \<Rightarrow> PadInfo \<Rightarrow> string" where
  "tputs cap affcnt info = (case cap of
     [] \<Rightarrow> []
   | x # r \<Rightarrow>
       if x \<noteq> CHR ''$'' then x # tputs r affcnt info
       else (case r of
          c # rest \<Rightarrow>
            if c \<noteq> CHR ''<'' then CHR ''$'' # tputs r affcnt info
            else if \<not> opens_delay rest then ''$<'' @ tputs rest affcnt info
            else fst (read_delay affcnt info rest) @ tputs (snd (read_delay affcnt info rest)) affcnt info
        | [] \<Rightarrow> ''$''))"
  by pat_completeness auto
termination
proof (relation "measure (\<lambda>(cap, affcnt, info). length cap)", goal_cases)
  case (5 cap affcnt info x r c rest)
  then show ?case using read_delay_length [of affcnt info rest] by simp
qed auto

declare tputs.simps [simp del]

definition no_terminal :: PadInfo where
  "no_terminal = \<lparr>p_baud = 0, p_xon = False, p_padding_baud_rate = 0, p_no_pad_char = False, p_pad_char = CHR 0x00\<rparr>"

definition tputs_strip_padding :: "string \<Rightarrow> string" where
  "tputs_strip_padding s = tputs s 1 no_terminal"

end
