(* ===== verification/TparmFacts.thy ===== *)
theory TparmFacts
  imports Tparm
begin

text \<open>
  A capability as a program: expressions over the parameters and the variables, text,
  conversions, assignments and conditionals with else-if chains, as terminfo(5) describes
  them; the text a capability file holds for it, and its meaning without a stack, an index
  or a scan for the matching \<open>%;\<close>.  The evaluator of \<open>tparm.rs\<close> on the text computes the
  meaning.  The theory also states what every capability, well formed or not, satisfies.
\<close>

section \<open>Structured capabilities\<close>

datatype texp =
    TParam nat | TConst int | TChar char | TVar char
  | TBin char texp texp | TNot texp | TCompl texp | TLength texp

datatype tprog =
    TDone
  | TText char tprog
  | TPercent tprog
  | TPrint string char texp tprog
  | TByte texp tprog
  | TSet char texp tprog
  | TIncr tprog
  | TCond tarms tprog
and tarms = TIf texp tprog tarms | TElse tprog | TNoElse

fun show_texp :: "texp \<Rightarrow> string" where
  "show_texp (TParam n) = [Pct, CHR ''p'', digit_char n]"
| "show_texp (TConst i) = [Pct, CHR ''{''] @ show_int i @ ''}''"
| "show_texp (TChar c) = [Pct, CHR 0x27, c, CHR 0x27]"
| "show_texp (TVar c) = [Pct, CHR ''g'', c]"
| "show_texp (TBin c a b) = show_texp a @ show_texp b @ [Pct, c]"
| "show_texp (TNot a) = show_texp a @ ''%!''"
| "show_texp (TCompl a) = show_texp a @ ''%~''"
| "show_texp (TLength a) = show_texp a @ ''%l''"

primrec show_tprog :: "tprog \<Rightarrow> string" and show_tarms :: "tarms \<Rightarrow> string" where
  "show_tprog TDone = ''''"
| "show_tprog (TText c P) = c # show_tprog P"
| "show_tprog (TPercent P) = ''%%'' @ show_tprog P"
| "show_tprog (TPrint spec conv e P) = show_texp e @ Pct # spec @ conv # show_tprog P"
| "show_tprog (TByte e P) = show_texp e @ ''%c'' @ show_tprog P"
| "show_tprog (TSet c e P) = show_texp e @ [Pct, CHR ''P'', c] @ show_tprog P"
| "show_tprog (TIncr P) = ''%i'' @ show_tprog P"
| "show_tprog (TCond a P) = ''%?'' @ show_tarms a @ ''%;'' @ show_tprog P"
| "show_tarms (TIf e P a) = show_texp e @ ''%t'' @ show_tprog P @
     (case a of TNoElse \<Rightarrow> '''' | _ \<Rightarrow> ''%e'' @ show_tarms a)"
| "show_tarms (TElse P) = show_tprog P"
| "show_tarms TNoElse = ''''"

text \<open>What may be written: parameters 1 to 9, constants that fit, letters for the variables.\<close>

fun wf_texp :: "texp \<Rightarrow> bool" where
  "wf_texp (TParam n) \<longleftrightarrow> 1 \<le> n \<and> n \<le> 9"
| "wf_texp (TConst i) \<longleftrightarrow> - (2 ^ 63) \<le> i \<and> i < 2 ^ 63"
| "wf_texp (TChar c) \<longleftrightarrow> True"
| "wf_texp (TVar c) \<longleftrightarrow> is_upper c \<or> is_lower c"
| "wf_texp (TBin c a b) \<longleftrightarrow> is_binary_op c \<and> wf_texp a \<and> wf_texp b"
| "wf_texp (TNot a) \<longleftrightarrow> wf_texp a"
| "wf_texp (TCompl a) \<longleftrightarrow> wf_texp a"
| "wf_texp (TLength a) \<longleftrightarrow> wf_texp a"

definition wf_spec :: "string \<Rightarrow> bool" where
  "wf_spec spec \<longleftrightarrow> (case spec of [] \<Rightarrow> True | c # r \<Rightarrow> (c = CHR '':'' \<or> is_spec_char c) \<and> list_all is_spec_char r)"

primrec wf_tprog :: "tprog \<Rightarrow> bool" and wf_tarms :: "tarms \<Rightarrow> bool" where
  "wf_tprog TDone \<longleftrightarrow> True"
| "wf_tprog (TText c P) \<longleftrightarrow> c \<noteq> Pct \<and> wf_tprog P"
| "wf_tprog (TPercent P) \<longleftrightarrow> wf_tprog P"
| "wf_tprog (TPrint spec conv e P) \<longleftrightarrow> wf_spec spec \<and> is_conversion conv \<and> wf_texp e \<and> wf_tprog P"
| "wf_tprog (TByte e P) \<longleftrightarrow> wf_texp e \<and> wf_tprog P"
| "wf_tprog (TSet c e P) \<longleftrightarrow> (is_upper c \<or> is_lower c) \<and> wf_texp e \<and> wf_tprog P"
| "wf_tprog (TIncr P) \<longleftrightarrow> wf_tprog P"
| "wf_tprog (TCond a P) \<longleftrightarrow> wf_tarms a \<and> wf_tprog P"
| "wf_tarms (TIf e P a) \<longleftrightarrow> wf_texp e \<and> wf_tprog P \<and> wf_tarms a"
| "wf_tarms (TElse P) \<longleftrightarrow> wf_tprog P"
| "wf_tarms TNoElse \<longleftrightarrow> True"

section \<open>Their meaning\<close>

record tenv =
  n_params :: "V list"
  n_vars :: "char \<Rightarrow> i64"
  n_done :: bool
  n_out :: string

fun texp_value :: "tenv \<Rightarrow> texp \<Rightarrow> V" where
  "texp_value E (TParam n) = param_at (n_params E) (n - 1)"
| "texp_value E (TConst i) = VInt (word_of_int i)"
| "texp_value E (TChar c) = VInt (of_nat (byte c))"
| "texp_value E (TVar c) = VInt (n_vars E c)"
| "texp_value E (TBin c a b) = VInt (binary_op c (v_int (texp_value E a)) (v_int (texp_value E b)))"
| "texp_value E (TNot a) = VInt (bool_i64 (v_int (texp_value E a) = 0))"
| "texp_value E (TCompl a) = VInt (i64_not (v_int (texp_value E a)))"
| "texp_value E (TLength a) = VInt (of_nat (length (v_string (texp_value E a))))"

definition say :: "string \<Rightarrow> tenv \<Rightarrow> tenv" where
  "say x E = E\<lparr>n_out := n_out E @ x\<rparr>"

definition byte_text :: "i64 \<Rightarrow> string" where
  "byte_text v = [if v = 0 then char_of (128 :: nat) else char_of (unat (i64_and v 255))]"

primrec tprog_run :: "tprog \<Rightarrow> tenv \<Rightarrow> tenv" and tarms_run :: "tarms \<Rightarrow> tenv \<Rightarrow> tenv" where
  "tprog_run TDone E = E"
| "tprog_run (TText c P) E = tprog_run P (say [c] E)"
| "tprog_run (TPercent P) E = tprog_run P (say [Pct] E)"
| "tprog_run (TPrint spec conv e P) E = tprog_run P (say (t_show spec conv (texp_value E e)) E)"
| "tprog_run (TByte e P) E = tprog_run P (say (byte_text (v_int (texp_value E e))) E)"
| "tprog_run (TSet c e P) E = tprog_run P (E\<lparr>n_vars := (n_vars E)(c := v_int (texp_value E e))\<rparr>)"
| "tprog_run (TIncr P) E = tprog_run P (if n_done E then E else E\<lparr>n_done := True, n_params := bump (n_params E)\<rparr>)"
| "tprog_run (TCond a P) E = tprog_run P (tarms_run a E)"
| "tarms_run (TIf e P a) E = (if v_int (texp_value E e) \<noteq> 0 then tprog_run P E else tarms_run a E)"
| "tarms_run (TElse P) E = tprog_run P E"
| "tarms_run TNoElse E = E"

definition var_table :: "nat \<Rightarrow> (char \<Rightarrow> i64) \<Rightarrow> i64 list" where
  "var_table first f = map (\<lambda>i. f (char_of (first + i))) [0..<26]"

section \<open>The scans over the text of a program\<close>

lemma skip_plain [simp]:
  "c \<noteq> Pct \<Longrightarrow> skip_to_end d (c # k) = skip_to_end d k"
  "c \<noteq> Pct \<Longrightarrow> skip_to_else_or_end d (c # k) = skip_to_else_or_end d k"
  by (cases k; simp)+

lemma skip_text:
  "Pct \<notin> set x \<Longrightarrow> skip_to_end d (x @ k) = skip_to_end d k"
  "Pct \<notin> set x \<Longrightarrow> skip_to_else_or_end d (x @ k) = skip_to_else_or_end d k"
  by (induction x) auto

lemma byte_Pct: "byte Pct = 37"
  by code_simp

lemma not_Pct:
  "is_digit c \<Longrightarrow> c \<noteq> Pct" "is_upper c \<Longrightarrow> c \<noteq> Pct" "is_lower c \<Longrightarrow> c \<noteq> Pct" "is_spec_char c \<Longrightarrow> c \<noteq> Pct"
  "is_conversion c \<Longrightarrow> c \<noteq> Pct"
  by (auto simp: is_digit_def is_upper_def is_lower_def is_spec_char_def is_conversion_def byte_Pct)

lemma show_int_not_Pct: "Pct \<notin> set (show_int i)"
  using show_int_chars not_Pct(1) by fastforce

lemma skip_texp:
  "wf_texp e \<Longrightarrow> skip_to_end d (show_texp e @ k) = skip_to_end d k \<and>
     skip_to_else_or_end d (show_texp e @ k) = skip_to_else_or_end d k"
proof (induction e arbitrary: k)
  case (TParam n)
  then have "digit_char n \<noteq> Pct" using not_Pct(1) [of "digit_char n"] by simp
  then show ?case by simp
next
  case (TConst i)
  then show ?case by (simp add: skip_text show_int_not_Pct)
next
  case (TChar c)
  then show ?case by (cases "c = Pct") simp_all
next
  case (TVar c)
  then show ?case using not_Pct by auto
next
  case (TBin c a b)
  then show ?case by (auto simp: is_binary_op_def)
qed auto

lemma skip_spec:
  assumes "wf_spec spec" "is_conversion conv"
  shows "skip_to_end d (Pct # spec @ conv # k) = skip_to_end d k"
    "skip_to_else_or_end d (Pct # spec @ conv # k) = skip_to_else_or_end d k"
proof -
  have c: "conv \<noteq> CHR ''?''" "conv \<noteq> CHR '';''" "conv \<noteq> CHR ''e''" "conv \<noteq> Pct"
    using assms(2) by (auto simp: is_conversion_def)
  have h: "x \<noteq> CHR ''?'' \<and> x \<noteq> CHR '';'' \<and> x \<noteq> CHR ''e''" if "x = CHR '':'' \<or> is_spec_char x" for x
    using that by (auto simp: is_spec_char_def is_digit_def byte_def)
  have "Pct \<notin> set r" if "list_all is_spec_char r" for r
    using that not_Pct(4) by (auto simp: list_all_iff)
  then show "skip_to_end d (Pct # spec @ conv # k) = skip_to_end d k"
    "skip_to_else_or_end d (Pct # spec @ conv # k) = skip_to_else_or_end d k"
    using assms(1) c h by (cases spec; auto simp: wf_spec_def skip_text)+
qed

text \<open>A whole program is passed over; so are the arms of a conditional, up to its \<open>%;\<close>.\<close>

lemma skip_tprog:
  "wf_tprog P \<Longrightarrow> skip_to_end d (show_tprog P @ k) = skip_to_end d k \<and>
     skip_to_else_or_end d (show_tprog P @ k) = skip_to_else_or_end d k"
  "wf_tarms a \<Longrightarrow> skip_to_end d (show_tarms a @ k) = skip_to_end d k \<and>
     skip_to_else_or_end (Suc d) (show_tarms a @ k) = skip_to_else_or_end (Suc d) k"
proof (induction P and a arbitrary: d k and d k)
  case (TIf e P a)
  then show ?case by (cases a) (auto simp: skip_texp)
next
  case (TSet c e P)
  then show ?case using not_Pct by (auto simp: skip_texp)
qed (auto simp: skip_texp skip_spec)

section \<open>The loop runs the program\<close>

text \<open>The environment a state of the machine stands for; the stack and the unread text are
  not part of it.\<close>

definition agrees :: "tstate \<Rightarrow> tenv \<Rightarrow> bool" where
  "agrees s E \<longleftrightarrow> t_params s = n_params E \<and> t_incremented s = n_done E \<and> t_out s = n_out E \<and>
     length (t_dynamic s) = 26 \<and> length (t_statics s) = 26 \<and>
     (\<forall>c. is_upper c \<or> is_lower c \<longrightarrow> t_get_var c s = n_vars E c)"

lemma agrees_ignores [simp]:
  "agrees (s\<lparr>t_rest := r\<rparr>) E = agrees s E" "agrees (s\<lparr>t_stack := st\<rparr>) E = agrees s E"
  by (simp_all add: agrees_def t_get_var_def)

lemma agrees_say: "agrees s E \<Longrightarrow> agrees (s\<lparr>t_out := t_out s @ x\<rparr>) (say x E)"
  by (auto simp: agrees_def t_get_var_def say_def)

lemma upper_lower: "is_upper c \<Longrightarrow> \<not> is_lower c" "is_lower c \<Longrightarrow> \<not> is_upper c"
  by (auto simp: is_upper_def is_lower_def)

lemma byte_inj: "byte a = byte b \<longleftrightarrow> a = b"
  by (simp add: byte_def)

lemma agrees_set_var:
  assumes "agrees s E" "is_upper c \<or> is_lower c"
  shows "agrees (t_set_var c v s) (E\<lparr>n_vars := (n_vars E)(c := v)\<rparr>)"
proof -
  have "t_get_var d (t_set_var c v s) = (if d = c then v else t_get_var d s)" if "is_upper d \<or> is_lower d" for d
  proof -
    have "byte d - 65 = byte c - 65 \<longleftrightarrow> d = c" if "is_upper c" "is_upper d"
      using that byte_inj [of d c] by (auto simp: is_upper_def)
    moreover have "byte d - 97 = byte c - 97 \<longleftrightarrow> d = c" if "is_lower c" "is_lower d"
      using that byte_inj [of d c] by (auto simp: is_lower_def)
    moreover have "byte c - 65 < 26" if "is_upper c" using that by (auto simp: is_upper_def)
    moreover have "byte c - 97 < 26" if "is_lower c" using that by (auto simp: is_lower_def)
    ultimately show ?thesis
      using assms that upper_lower by (auto simp: agrees_def t_get_var_def t_set_var_def nth_list_update)
  qed
  then show ?thesis
    using assms by (auto simp: agrees_def t_set_var_def)
qed

lemma swap_rest [simp]:
  "s\<lparr>t_stack := a, t_rest := b\<rparr> = s\<lparr>t_rest := b, t_stack := a\<rparr>"
  "s\<lparr>t_out := x, t_rest := b\<rparr> = s\<lparr>t_rest := b, t_out := x\<rparr>"
  "s\<lparr>t_statics := g, t_rest := b\<rparr> = s\<lparr>t_rest := b, t_statics := g\<rparr>"
  "s\<lparr>t_dynamic := g, t_rest := b\<rparr> = s\<lparr>t_rest := b, t_dynamic := g\<rparr>"
  "s\<lparr>t_params := p, t_rest := b\<rparr> = s\<lparr>t_rest := b, t_params := p\<rparr>"
  "s\<lparr>t_incremented := d, t_rest := b\<rparr> = s\<lparr>t_rest := b, t_incremented := d\<rparr>"
  by simp_all

text \<open>One turn of the loop on a directive.\<close>

definition no_format :: "char \<Rightarrow> string \<Rightarrow> bool" where
  "no_format c k \<longleftrightarrow> t_format (c # k) = None"

lemma loop_directive:
  "no_format c k \<Longrightarrow>
     tparm_loop h (s\<lparr>t_rest := Pct # c # k\<rparr>) = tparm_loop h (t_directive h c (s\<lparr>t_rest := k\<rparr>))"
  "no_format c k \<Longrightarrow>
     tparm_loop h (s\<lparr>t_rest := Pct # c # k, t_stack := st\<rparr>) =
     tparm_loop h (t_directive h c (s\<lparr>t_rest := k, t_stack := st\<rparr>))"
  by (simp_all add: tparm_loop.simps [of h "s\<lparr>t_rest := Pct # c # k\<rparr>"]
      tparm_loop.simps [of h "s\<lparr>t_rest := Pct # c # k, t_stack := st\<rparr>"] t_step_def no_format_def)

lemma loop_plain:
  "c \<noteq> Pct \<Longrightarrow> tparm_loop h (s\<lparr>t_rest := c # k\<rparr>) = tparm_loop h (s\<lparr>t_rest := k, t_out := t_out s @ [c]\<rparr>)"
  by (subst tparm_loop.simps) (simp add: t_step_def t_emit_def)

lemma loop_end: "tparm_loop h (s\<lparr>t_rest := []\<rparr>) = s\<lparr>t_rest := []\<rparr>"
  by (subst tparm_loop.simps) simp

lemma no_format_plain [simp]: "\<not> is_spec_char c \<Longrightarrow> c \<noteq> CHR '':'' \<Longrightarrow> no_format c k"
  by (simp add: no_format_def t_format_def)

lemma no_format_op: "is_binary_op c \<Longrightarrow> no_format c (Pct # k)"
  using not_Pct(4) [of Pct] not_Pct(5) [of Pct]
  by (auto simp: is_binary_op_def no_format_def t_format_def spec_run_def Let_def split: list.split)

lemma special_not_spec [simp]:
  "\<not> is_spec_char (CHR ''p'')" "\<not> is_spec_char (CHR ''{'')" "\<not> is_spec_char (CHR 0x27)" "\<not> is_spec_char (CHR ''g'')"
  "\<not> is_spec_char (CHR ''!'')" "\<not> is_spec_char (CHR ''~'')" "\<not> is_spec_char (CHR ''l'')" "\<not> is_spec_char (CHR ''P'')"
  "\<not> is_spec_char (CHR ''i'')" "\<not> is_spec_char (CHR ''t'')" "\<not> is_spec_char (CHR ''e'')" "\<not> is_spec_char (CHR '';'')"
  "\<not> is_spec_char (CHR ''?'')" "\<not> is_spec_char (CHR ''%'')" "\<not> is_spec_char (CHR ''c'')"
  by code_simp+

lemma special_not_conversion [simp]:
  "\<not> is_conversion (CHR ''p'')" "\<not> is_conversion (CHR ''{'')" "\<not> is_conversion (CHR 0x27)" "\<not> is_conversion (CHR ''g'')"
  "\<not> is_conversion (CHR ''!'')" "\<not> is_conversion (CHR ''~'')" "\<not> is_conversion (CHR ''l'')" "\<not> is_conversion (CHR ''P'')"
  "\<not> is_conversion (CHR ''i'')" "\<not> is_conversion (CHR ''t'')" "\<not> is_conversion (CHR ''e'')" "\<not> is_conversion (CHR '';'')"
  "\<not> is_conversion (CHR ''?'')" "\<not> is_conversion (CHR ''c'')"
  by code_simp+

lemma special_not_binary [simp]:
  "\<not> is_binary_op (CHR ''!'')" "\<not> is_binary_op (CHR ''~'')"
  "\<not> is_binary_op (CHR ''i'')" "\<not> is_binary_op (CHR ''t'')" "\<not> is_binary_op (CHR ''e'')" "\<not> is_binary_op (CHR '';'')"
  "\<not> is_binary_op (CHR ''?'')"
  by code_simp+

lemma t_get_var_ignores [simp]:
  "t_get_var c (s\<lparr>t_rest := r\<rparr>) = t_get_var c s" "t_get_var c (s\<lparr>t_stack := st\<rparr>) = t_get_var c s"
  by (simp_all add: t_get_var_def)

lemma t_pop_snoc [simp]: "t_pop (s\<lparr>t_stack := st @ [v]\<rparr>) = (v, s\<lparr>t_stack := st\<rparr>)"
  "t_pop (s\<lparr>t_rest := r, t_stack := st @ [v]\<rparr>) = (v, s\<lparr>t_rest := r, t_stack := st\<rparr>)"
  by (simp_all add: t_pop_def)

lemma directive_operator:
  assumes "is_binary_op c"
  shows "t_directive h c (s\<lparr>t_rest := r, t_stack := st @ [a, b]\<rparr>) =
    s\<lparr>t_rest := r, t_stack := st @ [VInt (binary_op c (v_int a) (v_int b))]\<rparr>"
proof -
  have p: "t_pop (s\<lparr>t_rest := r, t_stack := st @ [a, b]\<rparr>) = (b, s\<lparr>t_rest := r, t_stack := st @ [a]\<rparr>)"
    by (simp add: t_pop_def butlast_append)
  have "c \<notin> set ''%doxXscp{lPg''" "c \<noteq> CHR 0x27" using assms by (auto simp: is_binary_op_def)
  then show ?thesis using assms by (simp add: t_directive_def is_conversion_def p Let_def t_push_def)
qed

lemma show_int_brace:
  "takeWhile (\<lambda>x. x \<noteq> CHR ''}'') (show_int i @ CHR ''}'' # k) = show_int i"
  "dropWhile (\<lambda>x. x \<noteq> CHR ''}'') (show_int i @ CHR ''}'' # k) = CHR ''}'' # k"
proof -
  have "x \<noteq> CHR ''}''" if "x \<in> set (show_int i)" for x
    using show_int_chars [OF that] by (auto simp: is_digit_def byte_def)
  then show "takeWhile (\<lambda>x. x \<noteq> CHR ''}'') (show_int i @ CHR ''}'' # k) = show_int i"
    "dropWhile (\<lambda>x. x \<noteq> CHR ''}'') (show_int i @ CHR ''}'' # k) = CHR ''}'' # k"
    by (auto simp: takeWhile_append dropWhile_append)
qed

definition opens :: "string \<Rightarrow> bool" where
  "opens k \<longleftrightarrow> (\<exists>r. k = Pct # r)"

lemma opens_texp [simp]: "opens (show_texp e @ k)" and opens_Pct [simp]: "opens (Pct # k)"
  by (induction e arbitrary: k) (auto simp: opens_def)

lemma loop_texp:
  assumes "wf_texp e" "agrees s E" "opens k"
  shows "tparm_loop False (s\<lparr>t_rest := show_texp e @ k\<rparr>) =
    tparm_loop False (s\<lparr>t_rest := k, t_stack := t_stack s @ [texp_value E e]\<rparr>)"
  using assms
proof (induction e arbitrary: s k)
  case (TParam n)
  then show ?case
    by (simp add: loop_directive t_directive_def t_push_def agrees_def)
next
  case (TConst i)
  then show ?case
    by (simp add: loop_directive t_directive_def t_push_def Let_def show_int_brace parse_show_int)
next
  case (TChar c)
  then show ?case
    by (simp add: loop_directive t_directive_def t_push_def)
next
  case (TVar c)
  then have "t_get_var c s = n_vars E c" by (auto simp: agrees_def)
  then show ?case
    by (simp add: loop_directive t_directive_def t_push_def)
next
  case (TBin c a b)
  obtain r where r: "k = Pct # r" using TBin.prems(3) by (auto simp: opens_def)
  let ?s1 = "s\<lparr>t_stack := t_stack s @ [texp_value E a]\<rparr>"
  have "tparm_loop False (s\<lparr>t_rest := show_texp a @ show_texp b @ Pct # c # k\<rparr>) =
      tparm_loop False (?s1\<lparr>t_rest := show_texp b @ Pct # c # k\<rparr>)"
    using TBin.IH(1) [of s] TBin.prems by simp
  also have "\<dots> = tparm_loop False (?s1\<lparr>t_rest := Pct # c # k, t_stack := t_stack s @ [texp_value E a] @ [texp_value E b]\<rparr>)"
    using TBin.IH(2) [of ?s1] TBin.prems by simp
  also have "\<dots> = tparm_loop False (t_directive False c (s\<lparr>t_rest := k, t_stack := t_stack s @ [texp_value E a, texp_value E b]\<rparr>))"
    using loop_directive(1) [of c k False "s\<lparr>t_stack := t_stack s @ [texp_value E a, texp_value E b]\<rparr>"]
      no_format_op [of c r] TBin.prems(1) r by simp
  finally show ?case using TBin.prems(1) by (simp add: directive_operator)
next
  case (TNot a)
  then have "tparm_loop False (s\<lparr>t_rest := show_texp a @ ''%!'' @ k\<rparr>) =
      tparm_loop False ((s\<lparr>t_stack := t_stack s @ [texp_value E a]\<rparr>)\<lparr>t_rest := ''%!'' @ k\<rparr>)" by simp
  then show ?case
    by (simp add: loop_directive t_directive_def t_push_def Let_def)
next
  case (TCompl a)
  then have "tparm_loop False (s\<lparr>t_rest := show_texp a @ ''%~'' @ k\<rparr>) =
      tparm_loop False ((s\<lparr>t_stack := t_stack s @ [texp_value E a]\<rparr>)\<lparr>t_rest := ''%~'' @ k\<rparr>)" by simp
  then show ?case
    by (simp add: loop_directive t_directive_def t_push_def Let_def)
next
  case (TLength a)
  then have "tparm_loop False (s\<lparr>t_rest := show_texp a @ ''%l'' @ k\<rparr>) =
      tparm_loop False ((s\<lparr>t_stack := t_stack s @ [texp_value E a]\<rparr>)\<lparr>t_rest := ''%l'' @ k\<rparr>)" by simp
  then show ?case
    by (simp add: loop_directive t_directive_def t_push_def Let_def)
qed

lemma t_format_spec:
  assumes "wf_spec (c # spec)" "is_conversion conv"
  shows "t_format (c # spec @ conv # k) = Some (c # spec, conv, k)"
proof -
  have n: "\<not> is_spec_char conv" "conv \<noteq> CHR '':''"
    using assms(2) by (auto simp: is_conversion_def is_spec_char_def is_digit_def byte_def)
  then have "takeWhile is_spec_char (spec @ conv # k) = spec" "dropWhile is_spec_char (spec @ conv # k) = conv # k"
    using assms(1) by (auto simp: wf_spec_def list_all_iff takeWhile_append dropWhile_append)
  moreover have "is_spec_char c" if "c \<noteq> CHR '':''" using assms(1) that by (simp add: wf_spec_def)
  moreover have "\<not> is_spec_char (CHR '':'')" by code_simp
  ultimately show ?thesis
    using assms(1,2) by (auto simp: wf_spec_def t_format_def spec_run_def Let_def)
qed

lemma loop_print:
  assumes "wf_spec spec" "is_conversion conv"
  shows "tparm_loop h (s\<lparr>t_rest := Pct # spec @ conv # k, t_stack := st @ [v]\<rparr>) =
    tparm_loop h (s\<lparr>t_rest := k, t_stack := st, t_out := t_out s @ t_show spec conv v\<rparr>)"
proof (cases spec)
  case Nil
  have n: "\<not> is_spec_char conv" "conv \<noteq> CHR '':''"
    using assms(2) by (auto simp: is_conversion_def is_spec_char_def is_digit_def byte_def)
  then show ?thesis
    using Nil assms(2) not_Pct(5) loop_directive(1) [of conv k h "s\<lparr>t_stack := st @ [v]\<rparr>"]
    by (auto simp: t_directive_def t_print_def t_emit_def)
next
  case (Cons c r)
  have "t_step h (s\<lparr>t_rest := Pct # c # r @ conv # k, t_stack := st @ [v]\<rparr>) =
      s\<lparr>t_rest := k, t_stack := st, t_out := t_out s @ t_show spec conv v\<rparr>"
    using assms Cons by (simp add: t_step_def t_format_spec t_print_def t_emit_def)
  then show ?thesis using Cons by (subst tparm_loop.simps) simp
qed

lemma agrees_bump:
  assumes "agrees s E"
  shows "agrees (t_increment False s) (if n_done E then E else E\<lparr>n_done := True, n_params := bump (n_params E)\<rparr>)"
  using assms by (auto simp: agrees_def t_increment_def t_get_var_def Let_def)

text \<open>Programs and arms, in front of any text.\<close>

definition ends_as :: "tstate \<Rightarrow> string \<Rightarrow> string \<Rightarrow> tenv \<Rightarrow> bool" where
  "ends_as s x k E \<longleftrightarrow> (\<exists>s'. agrees s' E \<and> t_stack s' = t_stack s \<and>
     tparm_loop False (s\<lparr>t_rest := x\<rparr>) = tparm_loop False (s'\<lparr>t_rest := k\<rparr>))"

lemma ends_asI: "agrees s' E \<Longrightarrow> t_stack s' = t_stack s \<Longrightarrow>
    tparm_loop False (s\<lparr>t_rest := x\<rparr>) = tparm_loop False (s'\<lparr>t_rest := k\<rparr>) \<Longrightarrow> ends_as s x k E"
  by (auto simp: ends_as_def)

lemma ends_as_step:
  "tparm_loop False (s\<lparr>t_rest := x\<rparr>) = tparm_loop False (s1\<lparr>t_rest := y\<rparr>) \<Longrightarrow> t_stack s1 = t_stack s \<Longrightarrow>
     ends_as s1 y k E \<Longrightarrow> ends_as s x k E"
  by (auto simp: ends_as_def)

lemma ends_as_trans:
  assumes "ends_as s x y E" "\<And>s1. agrees s1 E \<Longrightarrow> ends_as s1 y k E'"
  shows "ends_as s x k E'"
  using assms by (fastforce simp: ends_as_def)

lemma loop_tprog:
  "wf_tprog P \<Longrightarrow> agrees s E \<Longrightarrow> ends_as s (show_tprog P @ k) k (tprog_run P E)"
  "wf_tarms a \<Longrightarrow> agrees s E \<Longrightarrow> ends_as s (show_tarms a @ ''%;'' @ k) k (tarms_run a E)"
proof (induction P and a arbitrary: s E k and s E k)
  case TDone
  then show ?case by (auto intro: ends_asI)
next
  case (TText c P)
  have "tparm_loop False (s\<lparr>t_rest := show_tprog (TText c P) @ k\<rparr>) =
      tparm_loop False ((s\<lparr>t_out := t_out s @ [c]\<rparr>)\<lparr>t_rest := show_tprog P @ k\<rparr>)"
    using TText.prems by (simp add: loop_plain)
  from ends_as_step [OF this _ TText.IH [OF _ agrees_say]] show ?case using TText.prems by simp
next
  case (TPercent P)
  have "tparm_loop False (s\<lparr>t_rest := show_tprog (TPercent P) @ k\<rparr>) =
      tparm_loop False ((s\<lparr>t_out := t_out s @ [Pct]\<rparr>)\<lparr>t_rest := show_tprog P @ k\<rparr>)"
    by (simp add: loop_directive t_directive_def t_emit_def)
  from ends_as_step [OF this _ TPercent.IH [OF _ agrees_say]] show ?case using TPercent.prems by simp
next
  case (TPrint spec conv e P)
  let ?x = "t_show spec conv (texp_value E e)"
  have "tparm_loop False (s\<lparr>t_rest := show_tprog (TPrint spec conv e P) @ k\<rparr>) =
      tparm_loop False ((s\<lparr>t_out := t_out s @ ?x\<rparr>)\<lparr>t_rest := show_tprog P @ k\<rparr>)"
    using TPrint.prems by (simp add: loop_texp loop_print)
  from ends_as_step [OF this _ TPrint.IH [OF _ agrees_say]] show ?case using TPrint.prems by simp
next
  case (TByte e P)
  let ?x = "byte_text (v_int (texp_value E e))" and ?st = "t_stack s @ [texp_value E e]"
  have "tparm_loop False (s\<lparr>t_rest := show_tprog (TByte e P) @ k\<rparr>) =
      tparm_loop False ((s\<lparr>t_out := t_out s @ ?x\<rparr>)\<lparr>t_rest := show_tprog P @ k\<rparr>)"
    using TByte.prems loop_directive(1) [of "CHR ''c''" "show_tprog P @ k" False "s\<lparr>t_stack := ?st\<rparr>"]
    by (simp add: loop_texp t_directive_def t_emit_def byte_text_def)
  from ends_as_step [OF this _ TByte.IH [OF _ agrees_say]] show ?case using TByte.prems by simp
next
  case (TSet c e P)
  let ?v = "v_int (texp_value E e)" and ?st = "t_stack s @ [texp_value E e]"
  have "tparm_loop False (s\<lparr>t_rest := show_tprog (TSet c e P) @ k\<rparr>) =
      tparm_loop False ((t_set_var c ?v s)\<lparr>t_rest := show_tprog P @ k\<rparr>)"
    using TSet.prems loop_directive(1) [of "CHR ''P''" "c # show_tprog P @ k" False "s\<lparr>t_stack := ?st\<rparr>"]
    by (auto simp: loop_texp t_directive_def t_set_var_def Let_def)
  moreover have "t_stack (t_set_var c ?v s) = t_stack s" by (simp add: t_set_var_def)
  ultimately show ?case
    using ends_as_step [OF _ _ TSet.IH [OF _ agrees_set_var]] TSet.prems by simp
next
  case (TIncr P)
  have "t_stack (t_increment False s) = t_stack s" by (simp add: t_increment_def Let_def)
  moreover have "tparm_loop False (s\<lparr>t_rest := ''%i'' @ show_tprog P @ k\<rparr>) =
      tparm_loop False ((t_increment False s)\<lparr>t_rest := show_tprog P @ k\<rparr>)"
    by (simp add: loop_directive t_directive_def) (simp add: t_increment_def Let_def)
  ultimately show ?case
    using ends_as_step [OF _ _ TIncr.IH [OF _ agrees_bump [of s E]]] TIncr.prems by simp
next
  case (TCond a P)
  have "tparm_loop False (s\<lparr>t_rest := show_tprog (TCond a P) @ k\<rparr>) =
      tparm_loop False (s\<lparr>t_rest := show_tarms a @ ''%;'' @ show_tprog P @ k\<rparr>)"
    by (simp add: loop_directive t_directive_def)
  from ends_as_step [OF this refl ends_as_trans [OF TCond.IH(1) TCond.IH(2)]] show ?case
    using TCond.prems by simp
next
  case (TIf e P a)
  let ?else = "case a of TNoElse \<Rightarrow> '''' | _ \<Rightarrow> ''%e'' @ show_tarms a"
  let ?st = "t_stack s @ [texp_value E e]" and ?v = "v_int (texp_value E e)"
  let ?in = "if ?v \<noteq> 0 then show_tprog P @ ?else @ ''%;'' @ k
    else skip_to_else_or_end 0 (show_tprog P @ ?else @ ''%;'' @ k)"
  have run: "tparm_loop False (s\<lparr>t_rest := show_tarms (TIf e P a) @ ''%;'' @ k\<rparr>) = tparm_loop False (s\<lparr>t_rest := ?in\<rparr>)"
    using TIf.prems loop_directive(1) [of "CHR ''t''" "show_tprog P @ ?else @ ''%;'' @ k" False "s\<lparr>t_stack := ?st\<rparr>"]
    by (simp add: loop_texp t_directive_def Let_def)
  have after: "ends_as s1 (?else @ ''%;'' @ k) k F" if "agrees s1 F" for s1 F
  proof (intro ends_asI [where s' = s1])
    have "skip_to_end 0 (show_tarms a @ Pct # CHR '';'' # k) = k" using TIf.prems(1) by (simp add: skip_tprog)
    then show "tparm_loop False (s1\<lparr>t_rest := ?else @ ''%;'' @ k\<rparr>) = tparm_loop False (s1\<lparr>t_rest := k\<rparr>)"
      by (cases a) (simp_all add: loop_directive t_directive_def del: show_tarms.simps)
  qed (use that in simp_all)
  show ?case
  proof (cases "?v = 0")
    case True
    then have "?in = (case a of TNoElse \<Rightarrow> k | _ \<Rightarrow> show_tarms a @ ''%;'' @ k)"
      using TIf.prems(1) by (simp add: skip_tprog del: show_tarms.simps split: tarms.split)
    then show ?thesis
      using TIf.IH(2) [of s E k] ends_asI [of s E s k k] TIf.prems True run
      by (cases a) (auto intro: ends_as_step simp del: show_tarms.simps)
  next
    case False
    have "ends_as s (show_tprog P @ ?else @ ''%;'' @ k) k (tprog_run P E)"
      using ends_as_trans [OF TIf.IH(1) after] TIf.prems by simp
    then show ?thesis using run False ends_as_step [OF run] by simp
  qed
next
  case (TElse P)
  have "ends_as s1 (''%;'' @ k) k (tprog_run P E)" if "agrees s1 (tprog_run P E)" for s1
    using that by (intro ends_asI [where s' = s1]) (simp_all add: loop_directive t_directive_def)
  from ends_as_trans [OF TElse.IH this] show ?case using TElse.prems by simp
next
  case TNoElse
  then show ?case by (intro ends_asI [where s' = s]) (simp_all add: loop_directive t_directive_def)
qed

section \<open>Properties\<close>

definition entry_env :: "V list \<Rightarrow> i64 list \<Rightarrow> tenv" where
  "entry_env params statics = \<lparr>n_params = params,
     n_vars = (\<lambda>c. if is_upper c then statics ! (byte c - 65) else 0), n_done = False, n_out = []\<rparr>"

lemma agrees_entry:
  assumes "length statics = 26"
  shows "agrees \<lparr>t_rest = r, t_params = params, t_out = [], t_stack = st, t_dynamic = replicate 26 0,
    t_statics = statics, t_incremented = False\<rparr> (entry_env params statics)"
proof -
  have "replicate 26 (0 :: i64) ! (byte c - 97) = 0" if "is_lower c" for c
    using that by (intro nth_replicate) (auto simp: is_lower_def)
  then show ?thesis
    using assms upper_lower by (auto simp: agrees_def entry_env_def t_get_var_def)
qed

lemma agrees_table:
  assumes "agrees s E"
  shows "t_statics s = var_table 65 (n_vars E)"
proof (rule nth_equalityI)
  show "length (t_statics s) = length (var_table 65 (n_vars E))" using assms by (simp add: agrees_def var_table_def)
next
  fix i assume "i < length (t_statics s)"
  then have i: "i < 26" using assms by (simp add: agrees_def)
  let ?c = "char_of (65 + i) :: char"
  have b: "byte ?c = 65 + i" using i by (simp add: byte_def)
  then have "is_upper ?c" using i by (simp add: is_upper_def)
  then have "n_vars E ?c = t_get_var ?c s" "t_get_var ?c s = t_statics s ! i"
    using assms b by (auto simp: agrees_def t_get_var_def)
  then show "t_statics s ! i = var_table 65 (n_vars E) ! i" using i by (simp add: var_table_def)
qed

text \<open>C26.  Refinement: on the text of a structured capability the evaluator prints what the
  capability means and leaves the static variables it assigns.  The meaning has no stack and
  no scan: every conversion prints the value of its expression, a conditional runs the first
  arm whose condition is not zero, and \<open>%i\<close> counts once.  The text ends at the first NUL.\<close>

theorem tparm_runs_program:
  assumes "wf_tprog P" "says_pct_p (show_tprog P)" "length statics = 26"
  shows "tparm_params (show_tprog P) params statics =
    (let E = tprog_run P (entry_env params statics)
     in (takeWhile (\<lambda>b. b \<noteq> CHR 0x00) (n_out E), var_table 65 (n_vars E)))"
proof -
  let ?s = "\<lparr>t_rest = [], t_params = params, t_out = [], t_stack = [], t_dynamic = replicate 26 0,
    t_statics = statics, t_incremented = False\<rparr>"
  obtain s where s: "agrees s (tprog_run P (entry_env params statics))"
    "tparm_loop False (?s\<lparr>t_rest := show_tprog P @ []\<rparr>) = tparm_loop False (s\<lparr>t_rest := []\<rparr>)"
    using loop_tprog(1) [OF assms(1) agrees_entry [OF assms(3)]] unfolding ends_as_def by blast
  then have "tparm_loop False \<lparr>t_rest = show_tprog P, t_params = params, t_out = [], t_stack = [], t_dynamic = replicate 26 0,
    t_statics = statics, t_incremented = False\<rparr> = s\<lparr>t_rest := []\<rparr>"
    by (simp add: loop_end)
  moreover have "n_out (tprog_run P (entry_env params statics)) = t_out s" using s(1) by (simp add: agrees_def)
  ultimately show ?thesis
    using agrees_table [OF s(1)] assms(2) by (simp add: tparm_params_def Let_def)
qed

text \<open>\<open>setaf\<close> of a terminal with 256 colours, for the bright colour 9.\<close>

definition demo_colour :: tprog where
  "demo_colour = TText (CHR 0x1B) (TText (CHR ''['') (TCond
     (TIf (TBin (CHR ''<'') (TParam 1) (TConst 8)) (TText (CHR ''3'') (TPrint [] (CHR ''d'') (TParam 1) TDone))
     (TIf (TBin (CHR ''<'') (TParam 1) (TConst 16))
        (TText (CHR ''9'') (TPrint [] (CHR ''d'') (TBin (CHR ''-'') (TParam 1) (TConst 8)) TDone))
     (TElse (TText (CHR '';'') (TPrint [] (CHR ''d'') (TParam 1) TDone)))))
     (TText (CHR ''m'') TDone)))"

theorem tparm_runs_program_witness:
  "fst (tparm_params (show_tprog demo_colour) [VInt 9] (replicate 26 0)) = CHR 0x1B # ''[91m''"
proof -
  have "wf_tprog demo_colour" "says_pct_p (show_tprog demo_colour)" by code_simp+
  moreover have "takeWhile (\<lambda>b. b \<noteq> CHR 0x00) (n_out (tprog_run demo_colour (entry_env [VInt 9] (replicate 26 0)))) =
      CHR 0x1B # ''[91m''" by code_simp
  ultimately show ?thesis by (simp add: tparm_runs_program Let_def)
qed

end
