(* ===== verification/TermcapFacts.thy ===== *)
theory TermcapFacts
  imports Termcap TparmFacts
begin

text \<open>
  What \<open>tputs\<close> writes for a capability of text and delays, what \<open>tgoto\<close> and \<open>tparm\<close> write
  for a termcap cursor address, and the range on which \<open>%d\<close> prints the number it is given.
\<close>

section \<open>Delays\<close>

datatype piece = Plain char | Delay nat "nat option" "char list"

fun show_piece :: "piece \<Rightarrow> string" where
  "show_piece (Plain c) = [c]"
| "show_piece (Delay n f marks) =
     ''$<'' @ show_nat n @ (case f of None \<Rightarrow> [] | Some d \<Rightarrow> [CHR ''.'', digit_char d]) @ marks @ ''>''"

fun wf_piece :: "piece \<Rightarrow> bool" where
  "wf_piece (Plain c) \<longleftrightarrow> c \<noteq> CHR ''$''"
| "wf_piece (Delay n f marks) \<longleftrightarrow> (case f of None \<Rightarrow> True | Some d \<Rightarrow> d < 10) \<and> set marks \<subseteq> set ''*/''"

text \<open>The delay in tenths of a millisecond, and the bytes it takes at the line speed.\<close>

definition tenths :: "i32 \<Rightarrow> nat \<Rightarrow> nat option \<Rightarrow> char list \<Rightarrow> int" where
  "tenths affcnt n f marks =
     (10 * int n + (case f of None \<Rightarrow> 0 | Some d \<Rightarrow> int d)) * sint affcnt ^ count_list marks (CHR ''*'')"

fun piece_out :: "i32 \<Rightarrow> PadInfo \<Rightarrow> piece \<Rightarrow> string" where
  "piece_out affcnt info (Plain c) = [c]"
| "piece_out affcnt info (Delay n f marks) =
     (if 0 < tenths affcnt n f marks \<and> \<not> p_no_pad_char info \<and>
         (CHR ''/'' \<in> set marks \<or>
          \<not> p_xon info \<and> 0 < sint (p_padding_baud_rate info) \<and> sint (p_padding_baud_rate info) \<le> sint (p_baud info))
      then replicate (nat (tenths affcnt n f marks div 10 * sint (p_baud info) div 9000)) (p_pad_char info)
      else [])"

lemma read_number_snoc: "read_number (ds @ [c]) = read_number ds * 10 + of_nat (digit_val c)"
  by (simp add: read_number_def)

lemma read_number_value: "read_number ds = of_nat (digits_val 10 ds)"
  by (induction ds rule: rev_induct) (simp_all add: read_number_snoc, simp add: read_number_def)

lemma digit_stops:
  assumes "list_all is_digit ds" "\<not> is_digit c"
  shows "takeWhile is_digit (ds @ c # k) = ds" "dropWhile is_digit (ds @ c # k) = c # k"
  using assms by (auto simp: list_all_iff takeWhile_append dropWhile_append)

lemma read_marks_value:
  "set marks \<subseteq> set ''*/'' \<Longrightarrow> read_marks affcnt w m (marks @ CHR ''>'' # k) =
     (w * scast affcnt ^ count_list marks (CHR ''*''), m \<or> CHR ''/'' \<in> set marks, CHR ''>'' # k)"
  by (induction marks arbitrary: w m) (auto simp: mult.assoc)

lemma sdiv_9000:
  fixes x :: int
  shows "nat (x sdiv 9000) = nat (x div 9000)" "\<bar>x sdiv 9000\<bar> \<le> \<bar>x\<bar>"
proof -
  have *: "x sdiv 9000 = (if 0 \<le> x then x div 9000 else - (- x div 9000))"
    by (simp add: signed_divide_int_def sgn_if)
  then show "nat (x sdiv 9000) = nat (x div 9000)" by simp
  from * show "\<bar>x sdiv 9000\<bar> \<le> \<bar>x\<bar>" by (simp split: if_split) linarith
qed

lemma show_nat_opens: "(case show_nat n @ k of [] \<Rightarrow> False | c # _ \<Rightarrow> is_digit c \<or> c = CHR ''.'')"
  using show_nat_digits [of n] show_nat_neq_Nil [of n] by (cases "show_nat n") auto

lemma mark_not_digit: "\<not> is_digit (CHR ''.'')" "\<not> is_digit (CHR ''*'')" "\<not> is_digit (CHR ''/'')" "\<not> is_digit (CHR ''>'')"
  by code_simp+

lemma marks_head:
  assumes "set marks \<subseteq> set ''*/''"
  obtains c r where "marks @ CHR ''>'' # k = c # r" "\<not> is_digit c" "c \<noteq> CHR ''.''"
  using assms mark_not_digit by (cases marks) auto

lemma read_delay_value:
  assumes "wf_piece (Delay n f marks)"
  shows "read_delay affcnt info (drop 2 (show_piece (Delay n f marks)) @ k) =
    (pad_bytes info (word_of_int (tenths affcnt n f marks)) (CHR ''/'' \<in> set marks), k)"
proof -
  let ?r = "drop 2 (show_piece (Delay n f marks)) @ k" and ?t = "marks @ CHR ''>'' # k"
  let ?f = "case f of None \<Rightarrow> [] | Some d \<Rightarrow> [CHR ''.'', digit_char d]"
  have m: "set marks \<subseteq> set ''*/''" using assms by simp
  obtain c r where t: "?t = c # r" "\<not> is_digit c" "c \<noteq> CHR ''.''" using marks_head [OF m] .
  obtain c' r' where h: "?f @ ?t = c' # r'" "\<not> is_digit c'"
    using t mark_not_digit by (cases f) auto
  have eq: "?r = show_nat n @ ?f @ ?t" by simp
  have "takeWhile is_digit ?r = show_nat n" "dropWhile is_digit ?r = ?f @ ?t"
    unfolding eq h(1) using digit_stops [OF show_nat_digits h(2)] by simp_all
  moreover define v where "v = 10 * int n + (case f of None \<Rightarrow> 0 | Some d \<Rightarrow> int d)"
  have "read_fraction (read_number (show_nat n) * 10) (?f @ ?t) = (word_of_int v, ?t)"
    using assms t by (cases f) (simp_all add: v_def read_fraction_def read_number_value mult.commute)
  moreover have "word_of_int (tenths affcnt n f marks) = (word_of_int v * scast affcnt ^ count_list marks (CHR ''*'') :: i64)"
    by (simp add: tenths_def v_def)
  ultimately show ?thesis
    by (simp only: read_delay_def Let_def read_marks_value [OF m] prod.case list.case simp_thms if_True)
qed

lemma tputs_plain: "c \<noteq> CHR ''$'' \<Longrightarrow> tputs (c # k) affcnt info = c # tputs k affcnt info"
  by (subst tputs.simps) simp

lemma tputs_delay:
  assumes "wf_piece (Delay n f marks)"
  shows "tputs (show_piece (Delay n f marks) @ k) affcnt info =
    pad_bytes info (word_of_int (tenths affcnt n f marks)) (CHR ''/'' \<in> set marks) @ tputs k affcnt info"
proof -
  let ?r = "drop 2 (show_piece (Delay n f marks)) @ k"
  have "opens_delay ?r" using show_nat_opens by (simp add: opens_delay_def)
  moreover have "show_piece (Delay n f marks) @ k = CHR ''$'' # CHR ''<'' # ?r" by simp
  ultimately show ?thesis
    by (subst tputs.simps) (simp only: list.case read_delay_value [OF assms] fst_conv snd_conv simp_thms if_False if_True)
qed

lemma tputs_Nil: "tputs [] affcnt info = []"
  by (subst tputs.simps) simp

lemma tputs_pieces:
  assumes "\<And>p. p \<in> set ps \<Longrightarrow> wf_piece p"
    and "\<And>n f marks. Delay n f marks \<in> set ps \<Longrightarrow>
      pad_bytes info (word_of_int (tenths affcnt n f marks)) (CHR ''/'' \<in> set marks) = out (Delay n f marks)"
    and "\<And>c. out (Plain c) = [c]"
  shows "tputs (concat (map show_piece ps)) affcnt info = concat (map out ps)"
  using assms(1,2)
proof (induction ps)
  case (Cons p ps)
  have IH: "tputs (concat (map show_piece ps)) affcnt info = concat (map out ps)"
    using Cons.prems by (intro Cons.IH) simp_all
  have wf: "wf_piece p" using Cons.prems(1) by simp
  show ?case
  proof (cases p)
    case (Plain c)
    then show ?thesis using wf IH assms(3) by (simp add: tputs_plain)
  next
    case (Delay n f marks)
    then show ?thesis using wf IH Cons.prems(2) [of n f marks] tputs_delay by (simp del: show_piece.simps wf_piece.simps)
  qed
qed (simp add: tputs_Nil)

lemma pad_bytes_value:
  assumes "- (2 ^ 31) \<le> t" "t < 2 ^ 31"
  shows "pad_bytes info (word_of_int t) m =
    (if 0 < t \<and> \<not> p_no_pad_char info \<and>
        (m \<or> \<not> p_xon info \<and> 0 < sint (p_padding_baud_rate info) \<and> sint (p_padding_baud_rate info) \<le> sint (p_baud info))
     then replicate (nat (t div 10 * sint (p_baud info) div 9000)) (p_pad_char info) else [])"
proof (cases "0 < t")
  case True
  let ?b = "sint (p_baud info)"
  have b: "- (2 ^ 31) \<le> ?b" "?b < 2 ^ 31"
    using sint_ge [of "p_baud info"] sint_lt [of "p_baud info"] by simp_all
  have t: "sint (word_of_int t :: i64) = t" using assms by (intro sint_of_range) simp_all
  have d: "i64_div (word_of_int t) 10 = word_of_int (t div 10)"
    using True by (simp add: i64_div_def t signed_divide_int_def)
  have "\<bar>t div 10 * ?b\<bar> \<le> 2 ^ 31 * 2 ^ 31"
    unfolding abs_mult using assms True b by (intro mult_mono) auto
  then have p: "- (2 ^ 62) \<le> t div 10 * ?b" "t div 10 * ?b \<le> 2 ^ 62" by simp_all
  have s: "sint (word_of_int (t div 10) * scast (p_baud info) :: i64) = t div 10 * ?b"
  proof -
    have "word_of_int (t div 10) * scast (p_baud info) = (word_of_int (t div 10 * ?b) :: i64)" by simp
    moreover have "sint (word_of_int (t div 10 * ?b) :: i64) = t div 10 * ?b" using p by (intro sint_of_range) simp_all
    ultimately show ?thesis by (simp only:)
  qed
  have "sint (i64_div (word_of_int (t div 10) * scast (p_baud info)) 9000) = (t div 10 * ?b) sdiv 9000"
    using sdiv_9000(2) [of "t div 10 * ?b"] p by (simp add: i64_div_def s sint_of_range)
  moreover note sdiv_9000(1) [of "t div 10 * ?b"]
  ultimately show ?thesis
    using True by (auto simp: pad_bytes_def Let_def i64_lt_def t d BAUDBYTE_def)
next
  case False
  have "sint (word_of_int t :: i64) = t" using assms by (intro sint_of_range) simp_all
  then show ?thesis using False by (simp add: pad_bytes_def Let_def i64_lt_def)
qed

text \<open>C27.  Functional: \<open>tputs\<close> copies the text of a capability and replaces every delay by the
  pad bytes it takes at the line speed: tenths of a millisecond, the fraction cut to one
  digit, each \<open>*\<close> one factor \<open>affcnt\<close>, and bytes only when the terminal paces itself by
  padding or the delay is mandatory.  The delays are bounded so that no product wraps.\<close>

theorem tputs_writes_delays:
  assumes "\<And>p. p \<in> set ps \<Longrightarrow> wf_piece p"
    and "\<And>n f marks. Delay n f marks \<in> set ps \<Longrightarrow> \<bar>tenths affcnt n f marks\<bar> < 2 ^ 31"
  shows "tputs (concat (map show_piece ps)) affcnt info = concat (map (piece_out affcnt info) ps)"
proof (rule tputs_pieces)
  fix n f marks assume "Delay n f marks \<in> set ps"
  then have "- (2 ^ 31) \<le> tenths affcnt n f marks" "tenths affcnt n f marks < 2 ^ 31" using assms(2) by fastforce+
  then show "pad_bytes info (word_of_int (tenths affcnt n f marks)) (CHR ''/'' \<in> set marks) = piece_out affcnt info (Delay n f marks)"
    by (simp add: pad_bytes_value conj_ac)
qed (use assms(1) in simp_all)

theorem tputs_writes_delays_witness:
  "tputs ''a$<2.5*/>b'' 3 \<lparr>p_baud = 9600, p_xon = True, p_padding_baud_rate = 0, p_no_pad_char = False, p_pad_char = CHR ''.''\<rparr>
     = ''a.......b''"
proof -
  let ?ps = "[Plain (CHR ''a''), Delay 2 (Some 5) ''*/'', Plain (CHR ''b'')]"
  let ?info = "\<lparr>p_baud = 9600, p_xon = True, p_padding_baud_rate = 0, p_no_pad_char = False, p_pad_char = CHR ''.''\<rparr>"
  have "concat (map show_piece ?ps) = ''a$<2.5*/>b''" by code_simp
  moreover have "concat (map (piece_out 3 ?info) ?ps) = ''a.......b''" by code_simp
  moreover have "tputs (concat (map show_piece ?ps)) 3 ?info = concat (map (piece_out 3 ?info) ?ps)"
  proof (rule tputs_writes_delays)
    have "\<bar>tenths 3 2 (Some 5) ''*/''\<bar> < 2 ^ 31" by code_simp
    then show "\<bar>tenths 3 n f marks\<bar> < 2 ^ 31" if "Delay n f marks \<in> set ?ps" for n f marks
      using that by auto
  qed auto
  ultimately show ?thesis by (simp only:)
qed

text \<open> Functional: without terminal information the delays disappear, whatever they are, and
  nothing else does.\<close>

theorem tputs_strips_delays:
  assumes "\<And>p. p \<in> set ps \<Longrightarrow> wf_piece p"
  shows "tputs_strip_padding (concat (map show_piece ps)) =
    concat (map (\<lambda>p. case p of Plain c \<Rightarrow> [c] | Delay _ _ _ \<Rightarrow> []) ps)"
  unfolding tputs_strip_padding_def
  by (rule tputs_pieces) (use assms in \<open>auto simp: pad_bytes_def Let_def no_terminal_def i64_div_def\<close>)

theorem tputs_strips_delays_witness:
  "tputs_strip_padding ''a$<5/>b'' = ''ab''"
proof -
  have "concat (map show_piece [Plain (CHR ''a''), Delay 5 None ''/'', Plain (CHR ''b'')]) = ''a$<5/>b''" by code_simp
  moreover have "tputs_strip_padding (concat (map show_piece [Plain (CHR ''a''), Delay 5 None ''/'', Plain (CHR ''b'')])) = ''ab''"
    by (subst tputs_strips_delays) auto
  ultimately show ?thesis by (simp only:)
qed

section \<open>Cursor addresses\<close>

lemma tgoto_text:
  "Pct \<notin> set x \<Longrightarrow> tgoto_loop \<lparr>g_rest = x @ k, g_args = a, g_next = n, g_out = out\<rparr> =
     tgoto_loop \<lparr>g_rest = k, g_args = a, g_next = n, g_out = out @ x\<rparr>"
proof (induction x arbitrary: out)
  case (Cons c x)
  have "tgoto_loop \<lparr>g_rest = c # x @ k, g_args = a, g_next = n, g_out = out\<rparr> =
      tgoto_loop \<lparr>g_rest = x @ k, g_args = a, g_next = n, g_out = out @ [c]\<rparr>"
    using Cons.prems by (subst tgoto_loop.simps) (auto simp: g_step_def g_emit_def)
  then show ?case using Cons by simp
qed simp

lemma tgoto_directive:
  "tgoto_loop \<lparr>g_rest = Pct # c # k, g_args = a, g_next = n, g_out = out\<rparr> =
   tgoto_loop (g_directive c \<lparr>g_rest = k, g_args = a, g_next = n, g_out = out\<rparr>)"
  by (subst tgoto_loop.simps) (simp add: g_step_def)

lemma tgoto_end: "tgoto_loop \<lparr>g_rest = [], g_args = a, g_next = n, g_out = out\<rparr> = \<lparr>g_rest = [], g_args = a, g_next = n, g_out = out\<rparr>"
  by (subst tgoto_loop.simps) simp

lemma says_pct_p_text: "Pct \<notin> set x \<Longrightarrow> says_pct_p (x @ k) = says_pct_p k"
proof (induction x)
  case (Cons c x)
  then show ?case by (cases "x @ k") auto
qed simp

lemma says_pct_p_plain: "says_pct_p (Pct # c # k) = (c = CHR ''p'' \<or> says_pct_p (c # k))"
  by simp

lemma termcap_says_no_p:
  assumes "Pct \<notin> set x" "Pct \<notin> set y" "Pct \<notin> set z"
  shows "\<not> says_pct_p (''%i'' @ x @ ''%d'' @ y @ ''%d'' @ z)"
proof -
  have "\<not> says_pct_p (Pct # CHR ''d'' # k)" if "\<not> says_pct_p k" for k
    using that says_pct_p_text [of "[CHR ''d'']" k] by simp
  moreover have "\<not> says_pct_p (Pct # CHR ''i'' # k)" if "\<not> says_pct_p k" for k
    using that says_pct_p_text [of "[CHR ''i'']" k] by simp
  moreover have "\<not> says_pct_p z" using says_pct_p_text [OF assms(3), of "[]"] by simp
  ultimately show ?thesis using assms by (simp add: says_pct_p_text del: says_pct_p.simps)
qed

text \<open> Functional: \<open>tgoto\<close> writes a classic termcap address row first, both numbers one-based
  after \<open>%i\<close>, and leaves the static variables alone.\<close>

theorem tgoto_addresses:
  assumes "Pct \<notin> set x" "Pct \<notin> set y" "Pct \<notin> set z"
  shows "tgoto (''%i'' @ x @ ''%d'' @ y @ ''%d'' @ z) col row statics =
    (x @ show_int (sint (row + 1)) @ y @ show_int (sint (col + 1)) @ z, statics)"
proof -
  have "tgoto_loop \<lparr>g_rest = ''%i'' @ x @ ''%d'' @ y @ ''%d'' @ z @ [], g_args = [row, col], g_next = 0, g_out = []\<rparr> =
      \<lparr>g_rest = [], g_args = [row + 1, col + 1], g_next = 2,
        g_out = x @ show_int (sint (row + 1)) @ y @ show_int (sint (col + 1)) @ z\<rparr>"
    using assms by (simp add: tgoto_directive g_directive_def g_take_def g_peek_def g_emit_def tgoto_text tgoto_end
      del: append_Nil2)
  then show ?thesis using termcap_says_no_p [OF assms] by (simp add: tgoto_def)
qed

theorem tgoto_addresses_witness:
  "tgoto (''%i'' @ CHR 0x1B # ''['' @ ''%d'' @ '';'' @ ''%d'' @ ''H'') 79 23 [] = (CHR 0x1B # ''[24;80H'', [])"
proof -
  have "Pct \<notin> set (CHR 0x1B # ''['')" "Pct \<notin> set '';''" "Pct \<notin> set ''H''" by code_simp+
  moreover have "show_int (sint (23 + 1 :: i64)) = ''24''" "show_int (sint (79 + 1 :: i64)) = ''80''" by code_simp+
  ultimately show ?thesis using tgoto_addresses [of "CHR 0x1B # ''[''" "'';''" "''H''" 79 23 "[]"] by simp
qed

section \<open>The termcap reading of tparm\<close>

lemma parse_empty: "fmt_width [] = (None, None)"
  by (simp add: fmt_width_def split_once_def parse_usize_def)

text \<open> Bounds: \<open>%d\<close> prints the number itself as long as it fits 32 bits.\<close>

theorem fmt_int_prints:
  assumes "- (2 ^ 31) \<le> sint v" "sint v < 2 ^ 31"
  shows "fmt_int [] (CHR ''d'') v = show_int (sint v)"
proof -
  have "sint (ucast v :: i32) = sint v"
  proof -
    have "sint (ucast v :: i32) = signed_take_bit 31 (sint v)" by transfer (simp add: signed_take_bit_take_bit)
    then show ?thesis using assms by (simp add: signed_take_bit_int_eq_self)
  qed
  then show ?thesis
    by (simp add: fmt_int_def strip_prefix_def parse_empty Let_def fmt_pad_def fmt_prefix_def fmt_digits_def show_int_def i64_lt_def)
qed

theorem fmt_int_prints_witness: "fmt_int [] (CHR ''d'') (- 5) = ''-5''"
proof -
  have "- (2 ^ 31) \<le> sint (- 5 :: i64)" "sint (- 5 :: i64) < 2 ^ 31" "show_int (sint (- 5 :: i64)) = ''-5''" by code_simp+
  then show ?thesis using fmt_int_prints [of "- 5"] by simp
qed


lemma loop_text:
  "Pct \<notin> set x \<Longrightarrow> tparm_loop h (s\<lparr>t_rest := x @ k\<rparr>) = tparm_loop h (s\<lparr>t_rest := k, t_out := t_out s @ x\<rparr>)"
proof (induction x arbitrary: s)
  case (Cons c x)
  then have "c \<noteq> Pct" by auto
  then show ?case using Cons.prems loop_plain [where c = c and h = h and s = s and k = "x @ k"] Cons.IH [of "s\<lparr>t_out := t_out s @ [c]\<rparr>"] by simp
qed simp

lemma count_text: "Pct \<notin> set x \<Longrightarrow> count_conversions (x @ k) = count_conversions k"
proof (induction x)
  case (Cons c x)
  have "c \<noteq> Pct" using Cons.prems by auto
  then have "count_conversions (c # r) = count_conversions r" for r
    using count_conversions.simps [of "c # r"] count_conversions.simps [of "[]"] by (cases r) simp_all
  then show ?case using Cons by simp
qed simp

lemma count_directive:
  assumes "\<not> is_spec_char c" "c \<noteq> CHR '':''"
  shows "count_conversions (Pct # c # k) = (if is_conversion c \<or> c = CHR ''c'' then 1 else 0) + count_conversions k"
  using assms by (subst count_conversions.simps) (simp add: spec_run_def)

lemma count_termcap:
  assumes "Pct \<notin> set x" "Pct \<notin> set y" "Pct \<notin> set z"
  shows "count_conversions (''%i'' @ x @ ''%d'' @ y @ ''%d'' @ z) = 2"
proof -
  have "count_conversions z = 0" using count_text [OF assms(3), of "[]"] by (simp add: count_conversions.simps)
  moreover have "is_conversion (CHR ''d'')" "\<not> is_spec_char (CHR ''d'')" by code_simp+
  ultimately show ?thesis using assms by (simp add: count_directive count_text)
qed

lemma show_int_not_NUL: "CHR 0x00 \<notin> set (show_int i)"
proof
  assume "CHR 0x00 \<in> set (show_int i)"
  then have "is_digit (CHR 0x00)" using show_int_chars by fastforce
  then show False by (simp add: is_digit_def byte_def)
qed

text \<open> Functional: on the same string \<open>tparm\<close>, which pushes the two parameters in reverse and
  lets \<open>%i\<close> write over the bottom of the stack, prints the second parameter first: the order
  \<open>tgoto\<close> and \<open>tparm\<close> use is not the same.\<close>

theorem tparm_termcap_order:
  assumes "{Pct, CHR 0x00} \<inter> (set x \<union> set y \<union> set z) = {}"
    and "- (2 ^ 31) \<le> sint (a + 1)" "sint (a + 1) < 2 ^ 31" "- (2 ^ 31) \<le> sint (b + 1)" "sint (b + 1) < 2 ^ 31"
  shows "tparm (''%i'' @ x @ ''%d'' @ y @ ''%d'' @ z) [a, b] statics =
    (x @ show_int (sint (b + 1)) @ y @ show_int (sint (a + 1)) @ z, statics)"
proof -
  have t: "Pct \<notin> set x" "Pct \<notin> set y" "Pct \<notin> set z" using assms(1) by auto
  let ?S = "\<lambda>r p out st i. \<lparr>t_rest = r, t_params = p, t_out = out, t_stack = st, t_dynamic = replicate 26 0,
    t_statics = statics, t_incremented = i\<rparr>"
  let ?p = "[VInt (a + 1), VInt (b + 1)]"
  have d: "wf_spec []" "is_conversion (CHR ''d'')" by code_simp+
  have plain: "tparm_loop True (?S (w @ k) p out st i) = tparm_loop True (?S k p (out @ w) st i)" if "Pct \<notin> set w" for w k p out st i
    using loop_text [OF that, where h = True and s = "?S [] p out st i" and k = k] by simp
  have shown: "tparm_loop True (?S (Pct # CHR ''d'' # k) p out (st @ [VInt v]) i) =
      tparm_loop True (?S k p (out @ fmt_int [] (CHR ''d'') v) st i)" for k p out st v i
    using loop_print [OF d, where h = True and s = "?S [] p out st i" and k = k and st = st and v = "VInt v"] by (simp add: t_show_def)
  have "tparm_loop True (?S (Pct # CHR ''i'' # k) [VInt a, VInt b] [] [VInt b, VInt a] False) =
      tparm_loop True (?S k ?p [] ?p True)" for k
    using loop_directive(1) [of "CHR ''i''" k True "?S [] [VInt a, VInt b] [] [VInt b, VInt a] False"]
    by (simp add: t_directive_def t_increment_def bump_def to_slot_def Let_def)
  then have "tparm_loop True (?S (''%i'' @ x @ ''%d'' @ y @ ''%d'' @ z @ []) [VInt a, VInt b] [] [VInt b, VInt a] False) =
      ?S [] ?p (x @ show_int (sint (b + 1)) @ y @ show_int (sint (a + 1)) @ z) [] True"
    using shown [of _ _ _ "[VInt (a + 1)]" "b + 1"] shown [of _ _ _ "[]" "a + 1"] loop_end [of True "?S [] _ _ _ _"] assms(2-)
    by (simp add: plain t fmt_int_prints del: append_Nil2)
  moreover have "pre_push [VInt a, VInt b] 2 = [VInt b, VInt a]"
    by (simp add: pre_push_def param_at_def numeral_2_eq_2)
  moreover have "takeWhile (\<lambda>c. c \<noteq> CHR 0x00) (x @ show_int (sint (b + 1)) @ y @ show_int (sint (a + 1)) @ z) =
      x @ show_int (sint (b + 1)) @ y @ show_int (sint (a + 1)) @ z"
    using assms(1) show_int_not_NUL by (auto simp: takeWhile_eq_all_conv)
  ultimately show ?thesis
    using termcap_says_no_p [OF t] count_termcap [OF t] by (simp add: tparm_def tparm_params_def)
qed

theorem tparm_termcap_order_witness:
  "tparm (''%i'' @ [] @ ''%d'' @ ''.'' @ ''%d'' @ []) [23, 79] [] = (''80.24'', [])"
proof -
  have "{Pct, CHR 0x00} \<inter> (set [] \<union> set ''.'' \<union> set []) = {}" by simp
  moreover have "- (2 ^ 31) \<le> sint (23 + 1 :: i64)" "sint (23 + 1 :: i64) < 2 ^ 31"
    "- (2 ^ 31) \<le> sint (79 + 1 :: i64)" "sint (79 + 1 :: i64) < 2 ^ 31" by code_simp+
  ultimately have "tparm (''%i'' @ [] @ ''%d'' @ ''.'' @ ''%d'' @ []) [23, 79] [] =
      ([] @ show_int (sint (79 + 1 :: i64)) @ ''.'' @ show_int (sint (23 + 1 :: i64)) @ [], [])"
    by (rule tparm_termcap_order)
  moreover have "show_int (sint (23 + 1 :: i64)) = ''24''" "show_int (sint (79 + 1 :: i64)) = ''80''" by code_simp+
  ultimately show ?thesis by simp
qed

end
