(* ===== verification/LockService.thy ===== *)
theory LockService
  imports Prelude
begin

text \<open>
  The named locks of the daemon, \<open>src/daemon/lock.rs\<close>: the table of holders, the probe for
  a dead holder, and the four operations of a client.  A request is the three fields the code
  reads from its JSON object; the kernel's answer to \<open>kill(pid, 0)\<close>, the clock and the random
  token are arguments.  Every operation holds the table's mutex while it reads and writes, so
  a run of the daemon is a sequence of whole operations; a waiting \<open>lock_acquire\<close> is one
  attempt per turn of its poll loop, with other operations in between.
\<close>

section \<open>The table and the requests\<close>

type_synonym u128 = "128 word"

record LockEntry =
  holder_pid :: i32
  token :: u128
  acquired_at_ns :: i64

type_synonym lock_table = "string \<Rightarrow> LockEntry option"

datatype err_code = Bad_args | Busy | Timeout | Wrong_token

text \<open>The fields of the request: a string, an integer, a string; \<open>None\<close> when the key is absent
  or of another type.\<close>

record lock_args =
  a_name :: "string option"
  a_pid :: "i64 option"
  a_token :: "string option"

definition name_arg :: "lock_args \<Rightarrow> err_code + string" where
  "name_arg args = (case a_name args of
     Some s \<Rightarrow> if s = [] then Inl Bad_args else Inr s
   | None \<Rightarrow> Inl Bad_args)"

definition caller_pid :: "lock_args \<Rightarrow> i32" where
  "caller_pid args = (case a_pid args of Some n \<Rightarrow> ucast n | None \<Rightarrow> 0)"

text \<open>\<open>kill(pid, 0)\<close>: success, \<open>EPERM\<close>, or another error.\<close>

datatype kill_result = Kill_ok | Kill_eperm | Kill_error

definition pid_alive :: "(i32 \<Rightarrow> kill_result) \<Rightarrow> i32 \<Rightarrow> bool" where
  "pid_alive kill pid =
     (if sint pid \<le> 0 then False
      else case kill pid of Kill_ok \<Rightarrow> True | Kill_eperm \<Rightarrow> True | Kill_error \<Rightarrow> False)"

section \<open>The operations\<close>

text \<open>What the kernel, the clock and the generator answer during one operation.\<close>

record world =
  w_kill :: "i32 \<Rightarrow> kill_result"
  w_now :: i64
  w_token :: u128

definition drop_stale :: "world \<Rightarrow> lock_table \<Rightarrow> string \<Rightarrow> lock_table" where
  "drop_stale w T name = (case T name of
     Some existing \<Rightarrow> if \<not> pid_alive (w_kill w) (holder_pid existing) then T(name := None) else T
   | None \<Rightarrow> T)"

definition try_acquire_inner :: "world \<Rightarrow> lock_table \<Rightarrow> string \<Rightarrow> i32 \<Rightarrow> u128 option \<times> lock_table" where
  "try_acquire_inner w T name pid =
     (let T1 = drop_stale w T name
      in if T1 name \<noteq> None then (None, T1)
         else (Some (w_token w),
               T1(name \<mapsto> \<lparr>holder_pid = pid, token = w_token w, acquired_at_ns = w_now w\<rparr>)))"

record grant =
  g_name :: string
  g_token :: u128
  g_pid :: i32

definition op_lock_try_acquire :: "world \<Rightarrow> lock_args \<Rightarrow> lock_table \<Rightarrow> (err_code + grant) \<times> lock_table" where
  "op_lock_try_acquire w args T = (case name_arg args of
     Inl e \<Rightarrow> (Inl e, T)
   | Inr name \<Rightarrow>
       let pid = caller_pid args
       in case try_acquire_inner w T name pid of
            (Some tok, T1) \<Rightarrow> (Inr \<lparr>g_name = name, g_token = tok, g_pid = pid\<rparr>, T1)
          | (None, T1) \<Rightarrow> (Inl Busy, T1))"

text \<open>One turn of the poll loop of \<open>lock_acquire\<close>; \<open>None\<close> is the sleep.  The deadline is the
  instant \<open>timeout_secs\<close> gives, \<open>None\<close> when the request has no positive timeout, and the clock
  is read again after a failed attempt.\<close>

definition acquire_turn ::
  "world \<Rightarrow> nat option \<Rightarrow> nat \<Rightarrow> string \<Rightarrow> i32 \<Rightarrow> lock_table \<Rightarrow> (err_code + grant) option \<times> lock_table" where
  "acquire_turn w deadline now name pid T =
     (case try_acquire_inner w T name pid of
        (Some tok, T1) \<Rightarrow> (Some (Inr \<lparr>g_name = name, g_token = tok, g_pid = pid\<rparr>), T1)
      | (None, T1) \<Rightarrow>
          (case deadline of
             Some dl \<Rightarrow> if dl \<le> now then (Some (Inl Timeout), T1) else (None, T1)
           | None \<Rightarrow> (Some (Inl Busy), T1)))"

definition op_lock_acquire ::
  "world \<Rightarrow> nat option \<Rightarrow> nat \<Rightarrow> lock_args \<Rightarrow> lock_table \<Rightarrow> (err_code + grant) option \<times> lock_table" where
  "op_lock_acquire w deadline now args T = (case name_arg args of
     Inl e \<Rightarrow> (Some (Inl e), T)
   | Inr name \<Rightarrow> acquire_turn w deadline now name (caller_pid args) T)"

text \<open>\<open>str::parse::<u128>\<close>.\<close>

definition parse_u128 :: "string \<Rightarrow> u128 option" where
  "parse_u128 s = (case s of
     [] \<Rightarrow> None
   | c # cs \<Rightarrow> (case parse_digits (if c = CHR ''+'' then cs else s) of
       None \<Rightarrow> None
     | Some n \<Rightarrow> if n < 2 ^ 128 then Some (of_nat n) else None))"

definition op_lock_release :: "lock_args \<Rightarrow> lock_table \<Rightarrow> (err_code + bool) \<times> lock_table" where
  "op_lock_release args T = (case name_arg args of
     Inl e \<Rightarrow> (Inl e, T)
   | Inr name \<Rightarrow> (case a_token args of
       None \<Rightarrow> (Inl Bad_args, T)
     | Some s \<Rightarrow> (case parse_u128 s of
         None \<Rightarrow> (Inl Bad_args, T)
       | Some tok \<Rightarrow> (case T name of
           Some entry \<Rightarrow> if token entry = tok then (Inr True, T(name := None)) else (Inl Wrong_token, T)
         | None \<Rightarrow> (Inr False, T)))))"

section \<open>Runs of the daemon\<close>

datatype event =
    Try world lock_args
  | Poll world "nat option" nat lock_args
  | Release lock_args

datatype answer = Granted grant | Refused err_code | Waiting | Released bool

fun step :: "event \<Rightarrow> lock_table \<Rightarrow> answer \<times> lock_table" where
  "step (Try w args) T = (case op_lock_try_acquire w args T of
     (Inl e, T1) \<Rightarrow> (Refused e, T1) | (Inr g, T1) \<Rightarrow> (Granted g, T1))"
| "step (Poll w deadline now args) T = (case op_lock_acquire w deadline now args T of
     (None, T1) \<Rightarrow> (Waiting, T1) | (Some (Inl e), T1) \<Rightarrow> (Refused e, T1) | (Some (Inr g), T1) \<Rightarrow> (Granted g, T1))"
| "step (Release args) T = (case op_lock_release args T of
     (Inl e, T1) \<Rightarrow> (Refused e, T1) | (Inr b, T1) \<Rightarrow> (Released b, T1))"

text \<open>The events that end a holding: a release with its token, and an attempt on its name at a
  moment the kernel does not see the holder.\<close>

fun frees :: "event \<Rightarrow> string \<Rightarrow> LockEntry \<Rightarrow> bool" where
  "frees (Try w args) name h \<longleftrightarrow> a_name args = Some name \<and> \<not> pid_alive (w_kill w) (holder_pid h)"
| "frees (Poll w d n args) name h \<longleftrightarrow> a_name args = Some name \<and> \<not> pid_alive (w_kill w) (holder_pid h)"
| "frees (Release args) name h \<longleftrightarrow>
     a_name args = Some name \<and> (\<exists>s. a_token args = Some s \<and> parse_u128 s = Some (token h))"

section \<open>Exclusive holding, for any table of holders\<close>

fun run_all :: "('ev \<Rightarrow> 'st \<Rightarrow> 'ans \<times> 'st) \<Rightarrow> 'ev list \<Rightarrow> 'st \<Rightarrow> 'ans list \<times> 'st" where
  "run_all act [] s = ([], s)"
| "run_all act (e # es) s = (let (a, s1) = act e s; (as, s2) = run_all act es s1 in (a # as, s2))"

text \<open>What a client of the service relies on: a holder stays until an event that frees it, and
  nobody is granted what is held.\<close>

locale holding =
  fixes act :: "'ev \<Rightarrow> 'st \<Rightarrow> 'ans \<times> 'st"
    and holder :: "'st \<Rightarrow> 'k \<Rightarrow> 'h option"
    and ends :: "'ev \<Rightarrow> 'k \<Rightarrow> 'h \<Rightarrow> bool"
    and grants :: "'ans \<Rightarrow> 'k \<Rightarrow> bool"
  assumes stays: "holder s k = Some h \<Longrightarrow> \<not> ends e k h \<Longrightarrow> holder (snd (act e s)) k = Some h"
    and exclusive: "holder s k = Some h \<Longrightarrow> \<not> ends e k h \<Longrightarrow> \<not> grants (fst (act e s)) k"
begin

lemma held_throughout:
  assumes "holder s k = Some h" "\<forall>e \<in> set es. \<not> ends e k h"
  shows "holder (snd (run_all act es s)) k = Some h \<and> (\<forall>a \<in> set (fst (run_all act es s)). \<not> grants a k)"
  using assms
proof (induction es arbitrary: s)
  case (Cons e es)
  obtain a s1 where a: "act e s = (a, s1)" by (cases "act e s")
  obtain as s2 where b: "run_all act es s1 = (as, s2)" by (cases "run_all act es s1")
  have "holder s1 k = Some h" "\<not> grants a k"
    using stays [of s k h e] exclusive [of s k h e] Cons.prems a by simp_all
  then show ?case using Cons.IH [of s1] Cons.prems a b by simp
qed simp

end

definition answer_grants :: "answer \<Rightarrow> string \<Rightarrow> bool" where
  "answer_grants a name \<longleftrightarrow> (case a of Granted g \<Rightarrow> g_name g = name | _ \<Rightarrow> False)"

lemma name_arg_Inr: "name_arg args = Inr name \<longleftrightarrow> a_name args = Some name \<and> name \<noteq> []"
  by (auto simp: name_arg_def split: option.splits if_splits)

lemma try_acquire_other: "n \<noteq> name \<Longrightarrow> snd (try_acquire_inner w T name pid) n = T n"
  by (auto simp: try_acquire_inner_def drop_stale_def Let_def split: option.split)

lemma try_acquire_held:
  "T name = Some h \<Longrightarrow> pid_alive (w_kill w) (holder_pid h) \<Longrightarrow> try_acquire_inner w T name pid = (None, T)"
  by (simp add: try_acquire_inner_def drop_stale_def)

lemma try_acquire_free:
  assumes "\<And>h. T name = Some h \<Longrightarrow> \<not> pid_alive (w_kill w) (holder_pid h)"
  shows "try_acquire_inner w T name pid =
    (Some (w_token w), T(name \<mapsto> \<lparr>holder_pid = pid, token = w_token w, acquired_at_ns = w_now w\<rparr>))"
  using assms by (cases "T name") (auto simp: try_acquire_inner_def drop_stale_def)

lemma try_acquire_cases:
  obtains (held) h where "T name = Some h" "pid_alive (w_kill w) (holder_pid h)" "try_acquire_inner w T name pid = (None, T)"
  | (free) "try_acquire_inner w T name pid =
      (Some (w_token w), T(name \<mapsto> \<lparr>holder_pid = pid, token = w_token w, acquired_at_ns = w_now w\<rparr>))"
  using try_acquire_held [of T name _ w pid] try_acquire_free [of T name w pid] by blast

lemma step_attempt:
  assumes "e = Try w args \<or> e = Poll w d now args" "a_name args = Some name" "name \<noteq> []"
  obtains (held) h a where "T name = Some h" "pid_alive (w_kill w) (holder_pid h)" "step e T = (a, T)" "\<And>n. \<not> answer_grants a n"
  | (free) "step e T = (Granted \<lparr>g_name = name, g_token = w_token w, g_pid = caller_pid args\<rparr>,
      T(name \<mapsto> \<lparr>holder_pid = caller_pid args, token = w_token w, acquired_at_ns = w_now w\<rparr>))"
proof -
  have n: "name_arg args = Inr name" using assms by (simp add: name_arg_Inr)
  note ops = op_lock_try_acquire_def op_lock_acquire_def acquire_turn_def answer_grants_def Let_def
  show ?thesis
  proof (cases rule: try_acquire_cases [of T name w "caller_pid args"])
    case (held h)
    have "\<exists>a. step e T = (a, T) \<and> (\<forall>n. \<not> answer_grants a n)"
      using assms(1) by (auto simp: n held(3) ops split: option.split)
    then show ?thesis using that(1) [OF held(1,2)] by blast
  next
    case free
    show ?thesis using assms(1) by (intro that(2)) (auto simp: n free ops)
  qed
qed

lemma step_bad_name:
  assumes "name_arg args = Inl x" "e = Try w args \<or> e = Poll w d now args \<or> e = Release args"
  shows "step e T = (Refused x, T)"
  using assms by (auto simp: op_lock_try_acquire_def op_lock_acquire_def op_lock_release_def)

lemma step_release:
  assumes "T name = Some h" "\<not> frees (Release args) name h"
  shows "snd (step (Release args) T) name = Some h" "\<not> answer_grants (fst (step (Release args) T)) n"
  using assms
  by (auto simp: op_lock_release_def name_arg_Inr answer_grants_def split: sum.split option.split)

lemma step_keeps:
  assumes "T name = Some h" "\<not> frees e name h"
  shows "snd (step e T) name = Some h \<and> \<not> answer_grants (fst (step e T)) name"
proof -
  have attempt: "snd (step e T) name = Some h \<and> \<not> answer_grants (fst (step e T)) name"
    if e: "e = Try w args \<or> e = Poll w d now args" for w args d now
  proof (cases "name_arg args")
    case (Inl x)
    then show ?thesis using step_bad_name [OF Inl, of e w d now T] e assms(1) by (auto simp: answer_grants_def)
  next
    case (Inr n)
    then have n: "a_name args = Some n" "n \<noteq> []" by (simp_all add: name_arg_Inr)
    from e n show ?thesis
    proof (cases rule: step_attempt [of e w args d now n T])
      case (held h' a)
      then show ?thesis using assms by simp
    next
      case free
      have "n \<noteq> name"
      proof
        assume "n = name"
        then have "pid_alive (w_kill w) (holder_pid h)" using assms(2) e n by auto
        then show False
          using free assms(1) e n \<open>n = name\<close> try_acquire_held [of T name h w]
          by (auto simp: op_lock_try_acquire_def op_lock_acquire_def acquire_turn_def Let_def name_arg_Inr
              split: sum.splits option.splits if_splits)
      qed
      then show ?thesis using free assms(1) by (simp add: answer_grants_def)
    qed
  qed
  show ?thesis
  proof (cases e)
    case (Release args)
    then show ?thesis using step_release assms by simp
  qed (use attempt in blast)+
qed

interpretation lock: holding step "\<lambda>T name. T name" frees answer_grants
  by unfold_locales (use step_keeps in blast)+

end
