(* ===== verification/LockFacts.thy ===== *)
theory LockFacts
  imports LockService
begin

text \<open>
  What the lock service promises its clients, and where it does not: exclusion as long as the
  holder can be seen, release by the token only, progress past a dead holder, and the holder
  without a process id.
\<close>

lemma step_attempt_grants:
  assumes "e = Try w args \<or> e = Poll w d now args" "a_name args = Some name" "name \<noteq> []"
    and "\<And>h. T name = Some h \<Longrightarrow> \<not> pid_alive (w_kill w) (holder_pid h)"
  shows "step e T = (Granted \<lparr>g_name = name, g_token = w_token w, g_pid = caller_pid args\<rparr>,
    T(name \<mapsto> \<lparr>holder_pid = caller_pid args, token = w_token w, acquired_at_ns = w_now w\<rparr>))"
  using assms(1-3)
proof (cases rule: step_attempt [where T = T])
  case (held h a)
  then show ?thesis using assms(4) by blast
qed

lemma granted_is_attempt:
  assumes "step e T = (Granted g, T1)"
  obtains (attempt) w d now args where "e = Try w args \<or> e = Poll w d now args" "a_name args = Some (g_name g)" "g_name g \<noteq> []"
    "T1 = T(g_name g \<mapsto> \<lparr>holder_pid = g_pid g, token = g_token g, acquired_at_ns = w_now w\<rparr>)"
proof -
  have by_attempt: thesis if e: "e = Try w args \<or> e = Poll w d now args" for w args d now
  proof (cases "name_arg args")
    case (Inl x)
    then show ?thesis using step_bad_name [OF Inl, of e w d now T] e assms by auto
  next
    case (Inr n)
    then have n: "a_name args = Some n" "n \<noteq> []" by (simp_all add: name_arg_Inr)
    from e n show ?thesis
    proof (cases rule: step_attempt [where T = T])
      case (held h a)
      then have "\<not> answer_grants (Granted g) (g_name g)" using assms by simp
      then show ?thesis by (simp add: answer_grants_def)
    next
      case free
      then have g: "g = \<lparr>g_name = n, g_token = w_token w, g_pid = caller_pid args\<rparr>"
        "T1 = T(n \<mapsto> \<lparr>holder_pid = caller_pid args, token = w_token w, acquired_at_ns = w_now w\<rparr>)"
        using assms by simp_all
      show ?thesis using attempt [OF e] n g by simp
    qed
  qed
  show ?thesis
  proof (cases e)
    case (Release args)
    then show ?thesis using assms by (simp split: prod.splits sum.splits)
  qed (use by_attempt in blast)+
qed

lemma granted_table:
  assumes "step e T = (Granted g, T1)"
  obtains n where "T1 = T(g_name g \<mapsto> \<lparr>holder_pid = g_pid g, token = g_token g, acquired_at_ns = n\<rparr>)" "g_name g \<noteq> []"
  using assms by (rule granted_is_attempt) (rule that)

lemma parse_u128_show: "parse_u128 (show_nat (unat t)) = Some t"
proof -
  obtain c cs where s: "show_nat (unat t) = c # cs" using show_nat_neq_Nil by (cases "show_nat (unat t)") auto
  then have "c \<noteq> CHR ''+''" using show_nat_digits [of "unat t"] is_digit_neq(2) by simp
  then show ?thesis using s parse_digits_show_nat [of "unat t"] unsigned_less [of t] by (simp add: parse_u128_def)
qed

section \<open>Properties\<close>

text \<open>C28.  Safety: after a grant the lock belongs to the caller, and whatever operations follow,
  nobody else is granted the name until one of them releases it with that token or asks for
  it at a moment the kernel does not see the holder.\<close>

theorem lock_exclusive:
  assumes "step e T = (Granted g, T1)"
    and "\<And>e' h. e' \<in> set es \<Longrightarrow> holder_pid h = g_pid g \<Longrightarrow> token h = g_token g \<Longrightarrow> \<not> frees e' (g_name g) h"
  shows "\<exists>h. holder_pid h = g_pid g \<and> token h = g_token g \<and>
    snd (run_all step es T1) (g_name g) = Some h \<and>
    (\<forall>a \<in> set (fst (run_all step es T1)). \<not> answer_grants a (g_name g))"
proof -
  obtain w where t: "T1 = T(g_name g \<mapsto> \<lparr>holder_pid = g_pid g, token = g_token g, acquired_at_ns = w\<rparr>)"
    using granted_table [OF assms(1)] .
  let ?h = "\<lparr>holder_pid = g_pid g, token = g_token g, acquired_at_ns = w\<rparr>"
  have "\<forall>e' \<in> set es. \<not> frees e' (g_name g) ?h" using assms(2) by simp
  then show ?thesis using lock.held_throughout [of T1 "g_name g" ?h es] t by auto
qed

definition demo_world :: world where
  "demo_world = \<lparr>w_kill = (\<lambda>p. if p = 7 \<or> p = 8 then Kill_ok else Kill_error), w_now = 5, w_token = 1234\<rparr>"

definition demo_request :: "string \<Rightarrow> int \<Rightarrow> lock_args" where
  "demo_request name pid = \<lparr>a_name = Some name, a_pid = Some (word_of_int pid), a_token = None\<rparr>"

theorem lock_exclusive_witness:
  "\<not> answer_grants (fst (step (Try demo_world (demo_request ''build'' 8))
     (snd (step (Try demo_world (demo_request ''build'' 7)) (\<lambda>_. None))))) ''build''"
proof -
  let ?e = "Try demo_world (demo_request ''build'' 7)" and ?e' = "Try demo_world (demo_request ''build'' 8)"
  let ?g = "\<lparr>g_name = ''build'', g_token = 1234, g_pid = 7\<rparr>"
  have "step ?e (\<lambda>_. None) = (Granted ?g, snd (step ?e (\<lambda>_. None)))"
    using step_attempt_grants [of ?e demo_world "demo_request ''build'' 7" None 0 "''build''" "\<lambda>_. None"]
    by (simp add: demo_request_def caller_pid_def demo_world_def)
  moreover have "pid_alive (w_kill demo_world) 7" by (simp add: pid_alive_def demo_world_def)
  then have "\<not> frees e' (g_name ?g) h" if "e' \<in> set [?e']" "holder_pid h = g_pid ?g" "token h = g_token ?g" for e' h
    using that by simp
  ultimately obtain h where "\<forall>a \<in> set (fst (run_all step [?e'] (snd (step ?e (\<lambda>_. None))))). \<not> answer_grants a (g_name ?g)"
    using lock_exclusive [of ?e "\<lambda>_. None" ?g _ "[?e']"] by blast
  then show ?thesis by (simp add: case_prod_beta Let_def)
qed

text \<open>C29.  Roundtrip: the token the service prints in its answer releases the lock, and any other
  token is refused and leaves the table as it was.\<close>

theorem lock_token_releases:
  assumes "step e T = (Granted g, T1)" "a_name args = Some (g_name g)" "a_token args = Some (show_nat (unat t))"
  shows "op_lock_release args T1 =
    (if t = g_token g then (Inr True, T1(g_name g := None)) else (Inl Wrong_token, T1))"
proof -
  obtain w where "T1 = T(g_name g \<mapsto> \<lparr>holder_pid = g_pid g, token = g_token g, acquired_at_ns = w\<rparr>)" "g_name g \<noteq> []"
    using granted_table [OF assms(1)] .
  moreover have "name_arg args = Inr (g_name g)" using assms(2) calculation by (simp add: name_arg_Inr)
  ultimately show ?thesis using assms(3) by (auto simp: op_lock_release_def parse_u128_show)
qed

theorem lock_token_releases_witness:
  "fst (op_lock_release \<lparr>a_name = Some ''build'', a_pid = None, a_token = Some ''1234''\<rparr>
     (snd (step (Try demo_world (demo_request ''build'' 7)) (\<lambda>_. None)))) = Inr True"
proof -
  let ?e = "Try demo_world (demo_request ''build'' 7)" and ?g = "\<lparr>g_name = ''build'', g_token = 1234, g_pid = 7\<rparr>"
  let ?args = "\<lparr>a_name = Some ''build'', a_pid = None, a_token = Some ''1234''\<rparr>"
  have "step ?e (\<lambda>_. None) = (Granted ?g, snd (step ?e (\<lambda>_. None)))"
    using step_attempt_grants [of ?e demo_world "demo_request ''build'' 7" None 0 "''build''" "\<lambda>_. None"]
    by (simp add: demo_request_def caller_pid_def demo_world_def)
  moreover have "a_token ?args = Some (show_nat (unat (1234 :: u128)))" by code_simp
  ultimately show ?thesis using lock_token_releases [of ?e "\<lambda>_. None" ?g _ ?args 1234] by simp
qed

text \<open> Liveness: an attempt, waiting or not, on a lock whose holder the kernel no longer sees
  is granted in that turn.\<close>

theorem lock_past_dead_holder:
  assumes "e = Try w args \<or> e = Poll w d now args" "a_name args = Some name" "name \<noteq> []"
    and "\<And>h. T name = Some h \<Longrightarrow> w_kill w (holder_pid h) = Kill_error"
  shows "fst (step e T) = Granted \<lparr>g_name = name, g_token = w_token w, g_pid = caller_pid args\<rparr>"
  using step_attempt_grants [OF assms(1-3), of T] assms(4) by (simp add: pid_alive_def)

theorem lock_past_dead_holder_witness:
  "fst (step (Poll demo_world (Some 9) 3 (demo_request ''build'' 7)) (\<lambda>_. Some \<lparr>holder_pid = 99, token = 1, acquired_at_ns = 0\<rparr>))
     = Granted \<lparr>g_name = ''build'', g_token = 1234, g_pid = 7\<rparr>"
  using lock_past_dead_holder [of "Poll demo_world (Some 9) 3 (demo_request ''build'' 7)" demo_world "demo_request ''build'' 7"
      "Some 9" 3 "''build''" "\<lambda>_. Some \<lparr>holder_pid = 99, token = 1, acquired_at_ns = 0\<rparr>"]
  by (simp add: demo_request_def demo_world_def caller_pid_def)

text \<open>C30.  Error: a client that sends no process id, or one that is not positive, is granted the
  lock but does not hold it against anybody: the next attempt on the name is granted too.\<close>

theorem lock_without_pid:
  assumes "step e T = (Granted g, T1)" "sint (g_pid g) \<le> 0"
    and "e' = Try w args \<or> e' = Poll w d now args" "a_name args = Some (g_name g)"
  shows "fst (step e' T1) = Granted \<lparr>g_name = g_name g, g_token = w_token w, g_pid = caller_pid args\<rparr>"
proof -
  obtain w1 where t: "T1 = T(g_name g \<mapsto> \<lparr>holder_pid = g_pid g, token = g_token g, acquired_at_ns = w1\<rparr>)" "g_name g \<noteq> []"
    using granted_table [OF assms(1)] .
  have "\<not> pid_alive (w_kill w) (holder_pid h)" if "T1 (g_name g) = Some h" for h
    using that t assms(2) by (auto simp: pid_alive_def)
  then show ?thesis using step_attempt_grants [OF assms(3,4) t(2)] by simp
qed

theorem lock_without_pid_witness:
  "fst (step (Try demo_world (demo_request ''build'' 8))
     (snd (step (Try demo_world \<lparr>a_name = Some ''build'', a_pid = None, a_token = None\<rparr>) (\<lambda>_. None))))
   = Granted \<lparr>g_name = ''build'', g_token = 1234, g_pid = 8\<rparr>"
proof -
  let ?a = "\<lparr>a_name = Some ''build'', a_pid = None, a_token = None\<rparr>"
  let ?e = "Try demo_world ?a" and ?g = "\<lparr>g_name = ''build'', g_token = 1234, g_pid = 0\<rparr>"
  have "step ?e (\<lambda>_. None) = (Granted ?g, snd (step ?e (\<lambda>_. None)))"
    using step_attempt_grants [of ?e demo_world ?a None 0 "''build''" "\<lambda>_. None"] by (simp add: caller_pid_def demo_world_def)
  then have "fst (step (Try demo_world (demo_request ''build'' 8)) (snd (step ?e (\<lambda>_. None)))) =
      Granted \<lparr>g_name = g_name ?g, g_token = w_token demo_world, g_pid = caller_pid (demo_request ''build'' 8)\<rparr>"
    by (rule lock_without_pid) (simp_all add: demo_request_def)
  then show ?thesis by (simp add: demo_world_def demo_request_def caller_pid_def)
qed

end
