(* ===== verification/Braces.thy ===== *)
theory Braces
  imports Prelude "HOL-Library.Monad_Syntax"
begin

text \<open>
  Brace expansion, \<open>src/src/ported/glob.rs\<close>: \<open>hasbraces\<close>, \<open>bracechardots\<close>, \<open>expand_range\<close>,
  \<open>expand_comma\<close>, \<open>expand_ccl\<close> and \<open>xpandbraces\<close>.  A word is a list of Unicode scalar values;
  the lexer's tokens are the private-use values U+E184 to U+E1A1.  \<open>None\<close> of the outermost
  option is a run that does not come back: a panic, or a loop that never ends.  The functions
  of other files on single characters are the fields of \<open>brace_conf\<close>.
\<close>

section \<open>Characters and words\<close>

type_synonym word_text = "nat list"

abbreviation Dot :: nat where "Dot \<equiv> 46"
abbreviation Backslash :: nat where "Backslash \<equiv> 92"
definition Inbrace :: nat where "Inbrace = 0xE18F"
definition Outbrace :: nat where "Outbrace = 0xE190"
definition BComma :: nat where "BComma = 0xE19A"
definition BDash :: nat where "BDash = 0xE19B"
definition Bnull :: nat where "Bnull = 0xE19F"
definition BNularg :: nat where "BNularg = 0xE1A1"
definition Pound :: nat where "Pound = 0xE184"

definition itok_char :: "nat \<Rightarrow> bool" where "itok_char c \<longleftrightarrow> 0xE184 \<le> c \<and> c \<le> 0xE1A1"

definition ZTOKENS :: word_text where
  "ZTOKENS = map byte ''#$^*(())$=|{}[]`<>>?~`,-!'' @ [39, 34, 92, 92]"

text \<open>\<open>char::encode_utf8\<close> and \<open>char::from_u32\<close>.\<close>

definition utf8_bytes :: "nat \<Rightarrow> nat list" where
  "utf8_bytes c =
     (if c < 128 then [c]
      else if c < 2048 then [192 + c div 64, 128 + c mod 64]
      else if c < 65536 then [224 + c div 4096, 128 + c div 64 mod 64, 128 + c mod 64]
      else [240 + c div 262144, 128 + c div 4096 mod 64, 128 + c div 64 mod 64, 128 + c mod 64])"

definition char_from_u32 :: "nat \<Rightarrow> nat option" where
  "char_from_u32 u = (if u < 0xD800 \<or> 0xE000 \<le> u \<and> u < 0x110000 then Some u else None)"

definition text_of :: "string \<Rightarrow> word_text" where
  "text_of s = map byte s"

text \<open>\<open>str::parse\<close>: only ASCII text can be a number.\<close>

definition parse_word :: "(string \<Rightarrow> 'a option) \<Rightarrow> word_text \<Rightarrow> 'a option" where
  "parse_word parse t = (if list_all (\<lambda>c. c < 128) t then parse (map char_of t) else None)"

definition ascii_digit :: "nat \<Rightarrow> bool" where "ascii_digit c \<longleftrightarrow> 48 \<le> c \<and> c \<le> 57"

text \<open>\<open>str::find("..")\<close>.\<close>

fun find_dots :: "word_text \<Rightarrow> nat option" where
  "find_dots (a # b # r) = (if a = Dot \<and> b = Dot then Some 0 else map_option Suc (find_dots (b # r)))"
| "find_dots r = None"

section \<open>The modes and the character functions of other files\<close>

record brace_conf =
  b_bash_mode :: bool
  b_sh_mode :: bool
  b_ksh93_mode :: bool
  b_pdksh_family :: bool
  b_posix_faithful :: bool
  b_untokenize :: "word_text \<Rightarrow> word_text"
  b_endpoint :: "word_text \<Rightarrow> nat option"
  b_nicechar :: "nat \<Rightarrow> word_text"

text \<open>\<open>b_endpoint\<close> is the scalar an endpoint decodes to when \<open>mb_metacharlenconv\<close> reads it to its
  end; \<open>b_nicechar\<close> is \<open>wcs_nicechar\<close>.\<close>

section \<open>bracechardots\<close>

text \<open>The token of a one-character endpoint: \<open>None\<close> inside is the rejected \<open>Inbrace\<close>, outside the
  index past the end of \<open>ZTOKENS\<close>.\<close>

definition untok_endpoint :: "word_text \<Rightarrow> word_text option option" where
  "untok_endpoint t = (case t of
     [c] \<Rightarrow> if itok_char c then
              (if c = Inbrace then Some None
               else let idx = c - Pound in if idx < length ZTOKENS then Some (Some [ZTOKENS ! idx]) else None)
            else Some (Some t)
   | _ \<Rightarrow> Some (Some t))"

definition ascii_lower :: "nat \<Rightarrow> bool" where "ascii_lower c \<longleftrightarrow> 97 \<le> c \<and> c \<le> 122"
definition ascii_upper :: "nat \<Rightarrow> bool" where "ascii_upper c \<longleftrightarrow> 65 \<le> c \<and> c \<le> 90"

definition char_endpoints :: "brace_conf \<Rightarrow> word_text \<Rightarrow> word_text \<Rightarrow> (nat \<times> nat) option" where
  "char_endpoints C l r = (case (b_endpoint C l, b_endpoint C r) of
     (Some c1, Some c2) \<Rightarrow>
       if b_ksh93_mode C \<and> (ascii_lower c1 \<noteq> ascii_lower c2 \<or> ascii_upper c1 \<noteq> ascii_upper c2) then None
       else Some (c1, c2)
   | _ \<Rightarrow> None)"

definition bracechardots :: "brace_conf \<Rightarrow> word_text \<Rightarrow> (nat \<times> nat \<times> int) option option" where
  "bracechardots C s =
     (if length s < 4 then Some None
      else case find_dots s of
        None \<Rightarrow> Some None
      | Some p \<Rightarrow>
          if p = 0 then Some None
          else let left = take p s; right = drop (p + 2) s
               in case (case find_dots right of
                          None \<Rightarrow> Some (right, 1)
                        | Some q \<Rightarrow>
                            if \<not> b_bash_mode C then None
                            else map_option (Pair (take q right))
                                   (parse_word parse_i32 (b_untokenize C (drop (q + 2) right)))) of
                    None \<Rightarrow> Some None
                  | Some (end_str, incr) \<Rightarrow>
                      do { l \<leftarrow> untok_endpoint left;
                           case l of
                             None \<Rightarrow> Some None
                           | Some l \<Rightarrow>
                               do { r \<leftarrow> untok_endpoint end_str;
                                    case r of
                                      None \<Rightarrow> Some None
                                    | Some r \<Rightarrow> Some (map_option (\<lambda>(c1, c2). (c1, c2, incr)) (char_endpoints C l r)) } })"

section \<open>hasbraces\<close>

definition undash :: "word_text \<Rightarrow> word_text" where
  "undash t = map (\<lambda>c. if c = BDash then 45 else c) t"

text \<open>One endpoint of the structural walk: an optional \<open>-\<close> and digits.\<close>

definition skip_number :: "word_text \<Rightarrow> word_text" where
  "skip_number b = dropWhile ascii_digit (case b of c # r \<Rightarrow> if c = 45 then r else b | [] \<Rightarrow> b)"

definition skip_dots :: "word_text \<Rightarrow> word_text option" where
  "skip_dots b = (case b of a # c # r \<Rightarrow> if a = Dot \<and> c = Dot then Some r else None | _ \<Rightarrow> None)"

definition range_shape :: "brace_conf \<Rightarrow> word_text \<Rightarrow> bool" where
  "range_shape C b = (case skip_dots (skip_number b) of
     None \<Rightarrow> False
   | Some r \<Rightarrow>
       let r1 = skip_number r
       in if r1 = [] then True
          else if b_sh_mode C then False
          else (case skip_dots r1 of None \<Rightarrow> False | Some r2 \<Rightarrow> skip_number r2 = []))"

definition numeric_ok :: "brace_conf \<Rightarrow> word_text \<Rightarrow> bool" where
  "numeric_ok C content =
     (let b = undash content
      in range_shape C b \<and> \<not> b_pdksh_family C \<and>
         (b \<noteq> [] \<and> ascii_digit (hd b) \<or> b \<noteq> [] \<and> ascii_digit (last b)))"

fun split_dots :: "word_text \<Rightarrow> word_text \<Rightarrow> word_text list" where
  "split_dots acc (a # b # r) = (if a = Dot \<and> b = Dot then acc # split_dots [] r else split_dots (acc @ [a]) (b # r))"
| "split_dots acc r = [acc @ r]"

definition ksh93_char_step_range :: "brace_conf \<Rightarrow> word_text \<Rightarrow> bool" where
  "ksh93_char_step_range C body =
     (b_ksh93_mode C \<and>
      (case split_dots [] (undash body) of
         [a, b, s] \<Rightarrow> length a = 1 \<and> length b = 1 \<and> parse_word parse_i64 s \<noteq> None
       | _ \<Rightarrow> False))"

definition dots_expand :: "brace_conf \<Rightarrow> word_text \<Rightarrow> bool option" where
  "dots_expand C content =
     (if Inbrace \<in> set content then Some True
      else do { cd \<leftarrow> (if b_pdksh_family C then Some None else bracechardots C content);
                Some (cd \<noteq> None \<or> numeric_ok C content \<or> ksh93_char_step_range C content) })"

text \<open>The walk; \<open>open\<close> is the text since the brace at depth 0.\<close>

fun hb_walk :: "brace_conf \<Rightarrow> bool \<Rightarrow> nat \<Rightarrow> bool \<Rightarrow> bool \<Rightarrow> word_text option \<Rightarrow> word_text \<Rightarrow> bool option" where
  "hb_walk C ccl depth comma dots open [] = Some False"
| "hb_walk C ccl depth comma dots open [c] =
     (if c = Outbrace \<and> depth = 1 then
        (let content = (case open of Some t \<Rightarrow> t | None \<Rightarrow> [])
         in if comma then Some True
            else do { d \<leftarrow> (if dots then dots_expand C content else Some False);
                      Some (d \<or> ccl \<and> content \<noteq> []) })
      else Some False)"
| "hb_walk C ccl depth comma dots open (c # x # r) =
     (let grow = (\<lambda>cs. map_option (\<lambda>t. t @ cs) open)
      in if c = Backslash \<or> c = Bnull then hb_walk C ccl depth comma dots (grow [c, x]) r
         else if c = Inbrace then
           hb_walk C ccl (depth + 1) comma dots (if depth = 0 then Some [] else grow [c]) (x # r)
         else if c = Outbrace \<and> 0 < depth then
           (if depth = 1 then
              let content = (case open of Some t \<Rightarrow> t | None \<Rightarrow> [])
              in if comma then Some True
                 else do { d \<leftarrow> (if dots then dots_expand C content else Some False);
                           if d \<or> ccl \<and> content \<noteq> [] then Some True
                           else hb_walk C ccl 0 False False None (x # r) }
            else hb_walk C ccl (depth - 1) comma dots (grow [c]) (x # r))
         else if c = BComma \<and> 0 < depth then hb_walk C ccl depth True dots (grow [c]) (x # r)
         else if c = Dot \<and> 0 < depth \<and> x = Dot then hb_walk C ccl depth comma True (grow [c]) (x # r)
         else hb_walk C ccl depth comma dots (grow [c]) (x # r))"

definition hasbraces :: "brace_conf \<Rightarrow> word_text \<Rightarrow> bool \<Rightarrow> bool option" where
  "hasbraces C s ccl =
     (if \<not> list_ex (\<lambda>c. 0x8F \<in> set (utf8_bytes c)) s then Some False
      else hb_walk C ccl 0 False False None s)"

section \<open>Ranges\<close>

text \<open>Does the content hold a token other than the braces and the comma?  A metafied pair is
  passed over.\<close>

fun needs_untokenize :: "word_text \<Rightarrow> bool" where
  "needs_untokenize [] = False"
| "needs_untokenize [c] = (c \<noteq> 0x83 \<and> itok_char c \<and> c \<noteq> Inbrace \<and> c \<noteq> Outbrace \<and> c \<noteq> BComma)"
| "needs_untokenize (c # x # r) =
     (if c = 0x83 then needs_untokenize r
      else itok_char c \<and> c \<noteq> Inbrace \<and> c \<noteq> Outbrace \<and> c \<noteq> BComma \<or> needs_untokenize (x # r))"

text \<open>\<open>&content[dotdot_byte + 2..]\<close>: two bytes past the character at the index, which must be a
  character boundary.\<close>

definition after_dots :: "nat \<Rightarrow> word_text \<Rightarrow> word_text option" where
  "after_dots dd content = (case drop dd content of
     [] \<Rightarrow> None
   | a # r \<Rightarrow>
       if 128 \<le> a \<and> a < 2048 then Some r
       else (case r of b # r' \<Rightarrow> if a < 128 \<and> b < 128 then Some r' else None | [] \<Rightarrow> None))"

text \<open>\<open>while cond(v) { push(v); v += step }\<close> in \<open>i64\<close>, which may go round for ever.\<close>

partial_function (option) range_walk :: "(i64 \<Rightarrow> bool) \<Rightarrow> i64 \<Rightarrow> i64 \<Rightarrow> i64 list option" where
  "range_walk go step v =
     (if go v then Option.bind (range_walk go step (v + step)) (\<lambda>vs. Some (v # vs)) else Some [])"

definition ksh93_range_values :: "i64 \<Rightarrow> i64 \<Rightarrow> i64 option \<Rightarrow> i64 list option" where
  "ksh93_range_values start stop raw =
     (let step = (case raw of Some s \<Rightarrow> s | None \<Rightarrow> if i64_le start stop then 1 else - 1)
      in map_option (Cons start)
           (range_walk (\<lambda>v. i64_lt 0 step \<and> i64_le v stop \<or> i64_lt step 0 \<and> i64_le stop v) step (start + step)))"

record range_step =
  r_right :: word_text
  r_abs :: i64
  r_negative :: bool
  r_text :: word_text
  r_raw :: "i64 option"

definition split_step :: "brace_conf \<Rightarrow> word_text \<Rightarrow> range_step option" where
  "split_step C rest = (case find_dots rest of
     None \<Rightarrow> Some \<lparr>r_right = rest, r_abs = 1, r_negative = False, r_text = [], r_raw = None\<rparr>
   | Some pos \<Rightarrow>
       let s_text = drop (pos + 2) rest
       in case parse_word parse_i64 s_text of
            None \<Rightarrow> None
          | Some raw \<Rightarrow>
              if raw = 0 \<and> \<not> b_bash_mode C then None
              else Some \<lparr>r_right = take pos rest, r_abs = (if i64_lt raw 0 then - raw else raw),
                         r_negative = i64_lt raw 0, r_text = s_text, r_raw = Some raw\<rparr>)"

definition numeric_values :: "brace_conf \<Rightarrow> range_step \<Rightarrow> i64 \<Rightarrow> i64 \<Rightarrow> i64 list option" where
  "numeric_values C R start stop =
     (let step = (if r_abs R = 0 then 1 else r_abs R)
      in do { vals \<leftarrow> (if b_ksh93_mode C then ksh93_range_values start stop (r_raw R)
                       else if i64_le start stop then range_walk (\<lambda>v. i64_le v stop) step start
                       else range_walk (\<lambda>v. i64_le stop v) (- step) start);
              Some (if r_negative R \<and> \<not> b_bash_mode C \<and> \<not> b_ksh93_mode C then rev vals else vals) })"

definition padded_field :: "word_text \<Rightarrow> bool" where
  "padded_field t = (let s = dropWhile (\<lambda>c. c = 43 \<or> c = 45) t in 2 \<le> length s \<and> hd s = 48)"

definition range_padded :: "brace_conf \<Rightarrow> word_text \<Rightarrow> range_step \<Rightarrow> bool" where
  "range_padded C left R \<longleftrightarrow>
     \<not> b_ksh93_mode C \<and> \<not> b_sh_mode C \<and> \<not> (left = [48] \<and> \<not> (b_bash_mode C \<or> b_sh_mode C)) \<and>
     (padded_field left \<or> padded_field (r_right R) \<or> r_text R \<noteq> [] \<and> padded_field (r_text R))"

definition zero_fill :: "nat \<Rightarrow> word_text \<Rightarrow> word_text" where
  "zero_fill w t = replicate (w - length t) 48 @ t"

definition format_value :: "bool \<Rightarrow> nat \<Rightarrow> i64 \<Rightarrow> word_text" where
  "format_value pad width v =
     (if pad then
        (if i64_lt v 0 then 45 # zero_fill (width - 1) (text_of (show_int (sint (- v))))
         else zero_fill width (text_of (show_int (sint v))))
      else text_of (show_int (sint v)))"

definition char_values :: "brace_conf \<Rightarrow> range_step \<Rightarrow> nat \<Rightarrow> nat \<Rightarrow> nat list option" where
  "char_values C R c1 c2 =
     (let step = (if r_abs R = 0 then 1 else r_abs R);
          start = (of_nat c1 :: i64); stop = (of_nat c2 :: i64);
          dir = (if i64_le start stop then step else - step)
      in do { vals \<leftarrow> (if b_ksh93_mode C then ksh93_range_values start stop (r_raw R)
                       else range_walk (\<lambda>v. i64_lt 0 dir \<and> i64_le v stop \<or> i64_lt dir 0 \<and> i64_le stop v) dir start);
              Some (List.map_filter (\<lambda>v. char_from_u32 (unat (ucast v :: i32))) vals) })"

definition char_piece :: "brace_conf \<Rightarrow> nat \<Rightarrow> word_text" where
  "char_piece C c = (if c = Backslash \<and> (b_bash_mode C \<or> b_sh_mode C) then [BNularg] else b_nicechar C c)"

definition expand_range ::
  "brace_conf \<Rightarrow> word_text \<Rightarrow> word_text \<Rightarrow> nat \<Rightarrow> word_text \<Rightarrow> word_text list option option" where
  "expand_range C pre content0 dd suf =
     (let content = (if needs_untokenize content0 then b_untokenize C content0 else content0);
          left = take dd content
      in do { rest \<leftarrow> after_dots dd content;
              case split_step C rest of
                None \<Rightarrow> Some None
              | Some R \<Rightarrow>
                  (case (parse_word parse_i64 left, parse_word parse_i64 (r_right R)) of
                     (Some start, Some stop) \<Rightarrow>
                       do { vals \<leftarrow> numeric_values C R start stop;
                            let pad = range_padded C left R;
                                width = max (max (length left) (length (r_right R))) (length (r_text R))
                            in Some (Some (map (\<lambda>v. pre @ format_value pad width v @ suf) vals)) }
                   | _ \<Rightarrow>
                       (case (b_endpoint C left, b_endpoint C (r_right R)) of
                          (Some c1, Some c2) \<Rightarrow>
                            if r_text R = [] \<or> b_bash_mode C \<or> b_ksh93_mode C then
                              do { cs \<leftarrow> char_values C R c1 c2;
                                   Some (Some (map (\<lambda>c. pre @ char_piece C c @ suf) cs)) }
                            else Some None
                        | _ \<Rightarrow> Some None)) })"

section \<open>Commas and character classes\<close>

fun comma_parts :: "nat \<Rightarrow> nat list \<Rightarrow> word_text \<Rightarrow> word_text list" where
  "comma_parts k [] content = [drop k content]"
| "comma_parts k (p # ps) content = take (p - k) (drop k content) # comma_parts (p + 1) ps content"

definition expand_comma :: "word_text \<Rightarrow> word_text \<Rightarrow> nat list \<Rightarrow> word_text \<Rightarrow> word_text list" where
  "expand_comma pre content positions suf = map (\<lambda>x. pre @ x @ suf) (comma_parts 0 positions content)"

definition imeta_byte :: "nat \<Rightarrow> bool" where "imeta_byte b \<longleftrightarrow> b = 0 \<or> 0x83 \<le> b \<and> b \<le> 0xA2"

fun ccl_bytes :: "word_text \<Rightarrow> nat list" where
  "ccl_bytes [] = []"
| "ccl_bytes [c] =
     (if c = 0x83 then [c] else if itok_char c then [c mod 256]
      else concat (map (\<lambda>b. if imeta_byte b then [0x83, semiring_bit_operations_class.xor b 32] else [b]) (utf8_bytes c)))"
| "ccl_bytes (c # n # r) =
     (if c = 0x83 then c # n mod 256 # ccl_bytes r
      else (if itok_char c then [c mod 256]
            else concat (map (\<lambda>b. if imeta_byte b then [0x83, semiring_bit_operations_class.xor b 32] else [b]) (utf8_bytes c)))
           @ ccl_bytes (n # r))"

definition untok_byte :: "nat \<Rightarrow> nat option" where
  "untok_byte b =
     (if 0x84 \<le> b \<and> b \<le> 0xA1 then (if b - 0x84 < length ZTOKENS then Some (ZTOKENS ! (b - 0x84)) else None) else Some b)"

text \<open>The next character of the class, and the one after it as the code peeks at it.\<close>

definition ccl_next :: "nat list \<Rightarrow> (nat \<times> nat list) option" where
  "ccl_next str = (case str of
     [] \<Rightarrow> None
   | b # r \<Rightarrow> do { c1 \<leftarrow> untok_byte b;
                    Some (case r of m # r' \<Rightarrow> if c1 = 0x83 then (semiring_bit_operations_class.xor 32 m, r') else (c1, r)
                          | [] \<Rightarrow> (c1, r)) })"

definition ccl_peek :: "nat list \<Rightarrow> nat option" where
  "ccl_peek r = (case r of
     [] \<Rightarrow> Some 0
   | b # r' \<Rightarrow> do { c2 \<leftarrow> untok_byte b;
                     Some (if c2 = 0x83 then semiring_bit_operations_class.xor 32 (case r' of m # _ \<Rightarrow> m | [] \<Rightarrow> 0) else c2) })"

definition set_range :: "nat \<Rightarrow> nat \<Rightarrow> bool list \<Rightarrow> bool list" where
  "set_range a b ccl = map (\<lambda>i. a \<le> i \<and> i < b \<or> ccl ! i) [0..<length ccl]"

lemma ccl_next_length: "ccl_next str = Some (c, r) \<Longrightarrow> length r < length str"
  by (auto simp: ccl_next_def split: list.splits if_splits bind_splits)

function ccl_walk :: "nat list \<Rightarrow> nat option \<Rightarrow> bool list \<Rightarrow> bool list option" where
  "ccl_walk str lastch ccl =
     (if str = [] then Some ccl
      else case ccl_next str of
        None \<Rightarrow> None
      | Some (c1, r) \<Rightarrow>
          (case ccl_peek r of
             None \<Rightarrow> None
           | Some c2 \<Rightarrow>
               (case lastch of
                  Some l \<Rightarrow>
                    if c1 = 45 \<and> r \<noteq> [] \<and> l \<le> c2 then ccl_walk r None (set_range l c2 ccl)
                    else ccl_walk r (Some c1) (ccl[c1 := True])
                | None \<Rightarrow> ccl_walk r (Some c1) (ccl[c1 := True]))))"
  by pat_completeness auto
termination
  by (relation "measure (\<lambda>(str, l, ccl). length str)") (auto dest: ccl_next_length)

declare ccl_walk.simps [simp del]

definition expand_ccl :: "word_text \<Rightarrow> word_text \<Rightarrow> word_text \<Rightarrow> word_text list option" where
  "expand_ccl pre content suf =
     map_option (\<lambda>ccl. map (\<lambda>c1. pre @ (if c1 < 0x80 then [c1] else [0x83, semiring_bit_operations_class.xor c1 32]) @ suf)
                         (filter (\<lambda>i. ccl ! i) [0..<256]))
       (ccl_walk (ccl_bytes content) None (replicate 256 False))"

section \<open>xpandbraces\<close>

text \<open>The scan from a brace to its partner: the length of the content, the commas and the first
  \<open>..\<close> at depth 1.\<close>

fun scan_group :: "nat \<Rightarrow> nat \<Rightarrow> nat list \<Rightarrow> nat option \<Rightarrow> word_text \<Rightarrow> (nat \<times> nat list \<times> nat option) option" where
  "scan_group k depth commas dd [] = None"
| "scan_group k depth commas dd (c # r) =
     (if c = Inbrace then scan_group (k + 1) (depth + 1) commas dd r
      else if c = Outbrace then
        (if depth = 1 then Some (k, commas, dd) else scan_group (k + 1) (depth - 1) commas dd r)
      else if c = BComma \<and> depth = 1 then scan_group (k + 1) depth (commas @ [k]) dd r
      else if c = Dot \<and> depth = 1 \<and> r \<noteq> [] \<and> hd r = Dot \<and> dd = None then scan_group (k + 1) depth commas (Some k) r
      else scan_group (k + 1) depth commas dd r)"

datatype attempt = Parts "word_text list" | Retry nat | Stop

definition has_ascii_digit :: "word_text \<Rightarrow> bool" where "has_ascii_digit t \<longleftrightarrow> list_ex ascii_digit t"

text \<open>A range that could not be expanded loses its braces when an endpoint holds a digit.\<close>

definition failed_range :: "brace_conf \<Rightarrow> word_text \<Rightarrow> word_text \<Rightarrow> word_text \<Rightarrow> nat \<Rightarrow> nat \<Rightarrow> attempt option" where
  "failed_range C pre content suf dp next_from =
     do { right \<leftarrow> after_dots dp content;
          let left = take dp content;
              strip_end = (case find_dots right of Some p \<Rightarrow> take p right | None \<Rightarrow> right)
          in if (has_ascii_digit left \<or> has_ascii_digit strip_end) \<and> \<not> b_ksh93_mode C
             then Some (Parts [pre @ content @ suf]) else Some (Retry next_from) }"

definition expand_group ::
  "(word_text \<Rightarrow> word_text list option) \<Rightarrow> brace_conf \<Rightarrow> bool \<Rightarrow> word_text \<Rightarrow> word_text \<Rightarrow> word_text
     \<Rightarrow> nat list \<Rightarrow> nat option \<Rightarrow> nat \<Rightarrow> attempt option" where
  "expand_group rec C ccl pre content suf commas dd next_from =
     (let rest = (if commas \<noteq> [] then Some (Parts (expand_comma pre content commas suf))
                  else if ccl \<and> content \<noteq> [] then map_option Parts (expand_ccl pre content suf)
                  else if Inbrace \<in> set content then
                    do { inner \<leftarrow> rec content; Some (Parts (map (\<lambda>x. pre @ [123] @ x @ [125] @ suf) inner)) }
                  else Some (Retry next_from))
      in case dd of
           None \<Rightarrow> rest
         | Some dp \<Rightarrow>
             if b_pdksh_family C \<or> commas \<noteq> [] then rest
             else do { e \<leftarrow> expand_range C pre content dp suf;
                       case e of
                         Some parts \<Rightarrow> Some (Parts parts)
                       | None \<Rightarrow> failed_range C pre content suf dp next_from })"

definition try_expand_from ::
  "(word_text \<Rightarrow> word_text list option) \<Rightarrow> brace_conf \<Rightarrow> bool \<Rightarrow> word_text \<Rightarrow> nat \<Rightarrow> attempt option" where
  "try_expand_from rec C ccl s i0 =
     (let head = takeWhile (\<lambda>c. c \<noteq> Inbrace) (drop i0 s); start = i0 + length head
      in if length s \<le> start then Some Stop
         else case scan_group 0 1 [] None (drop (start + 1) s) of
           None \<Rightarrow> Some Stop
         | Some (k, commas, dd) \<Rightarrow>
             expand_group rec C ccl (take start s) (take k (drop (start + 1) s)) (drop (start + k + 2) s) commas dd (start + k + 2))"

text \<open>The loop over the braces of one word; every turn starts past the last one.\<close>

fun try_expand_one ::
  "nat \<Rightarrow> (word_text \<Rightarrow> word_text list option) \<Rightarrow> brace_conf \<Rightarrow> bool \<Rightarrow> word_text \<Rightarrow> nat \<Rightarrow> word_text list option option" where
  "try_expand_one 0 rec C ccl s i0 = None"
| "try_expand_one (Suc n) rec C ccl s i0 =
     do { a \<leftarrow> try_expand_from rec C ccl s i0;
          case a of
            Parts ps \<Rightarrow> Some (Some ps)
          | Retry nf \<Rightarrow> if i0 < nf then try_expand_one n rec C ccl s nf else Some None
          | Stop \<Rightarrow> Some None }"

fun expand_all :: "(word_text \<Rightarrow> word_text list option option) \<Rightarrow> word_text list \<Rightarrow> (bool \<times> word_text list) option" where
  "expand_all f [] = Some (False, [])"
| "expand_all f (x # xs) =
     do { r \<leftarrow> f x; (changed, ys) \<leftarrow> expand_all f xs;
          Some (case r of Some ps \<Rightarrow> (True, ps @ ys) | None \<Rightarrow> (changed, x # ys)) }"

fun passes :: "nat \<Rightarrow> (word_text \<Rightarrow> word_text list option option) \<Rightarrow> word_text list \<Rightarrow> word_text list option" where
  "passes 0 f items = None"
| "passes (Suc n) f items =
     do { (changed, results) \<leftarrow> expand_all f items;
          if changed then passes n f results else Some results }"

primrec xpandbraces :: "nat \<Rightarrow> brace_conf \<Rightarrow> bool \<Rightarrow> word_text \<Rightarrow> word_text list option" where
  "xpandbraces 0 C ccl s = None"
| "xpandbraces (Suc n) C ccl s =
     (if b_posix_faithful C \<and> b_pdksh_family C \<and> find_dots s \<noteq> None \<and> BComma \<notin> set s then Some [s]
      else do { b \<leftarrow> hasbraces C s ccl;
                if \<not> b then Some [s]
                else passes n (\<lambda>x. try_expand_one (Suc (length x)) (xpandbraces n C ccl) C ccl x 0) [s] })"

end
