(* ===== verification/BraceFacts.thy ===== *)
theory BraceFacts
  imports Braces
begin

text \<open>
  Brace words as trees: literal characters, comma groups and numeric ranges, nested at will;
  their text with the lexer's tokens, and the words they stand for, left to right.  The
  expander of \<open>glob.rs\<close>, which rewrites the first group of every word until nothing changes,
  produces exactly those words.
\<close>

section \<open>Brace words\<close>

datatype bword = Done | Lit nat bword | Alt balts bword | Range int int bword
  and balts = Last bword | More bword balts

definition num_text :: "int \<Rightarrow> word_text" where
  "num_text i = text_of (show_int i)"

primrec show_bword :: "bword \<Rightarrow> word_text" and show_balts :: "balts \<Rightarrow> word_text" where
  "show_bword Done = []"
| "show_bword (Lit c w) = c # show_bword w"
| "show_bword (Alt a w) = Inbrace # show_balts a @ Outbrace # show_bword w"
| "show_bword (Range m n w) = Inbrace # num_text m @ Dot # Dot # num_text n @ Outbrace # show_bword w"
| "show_balts (Last w) = show_bword w"
| "show_balts (More w a) = show_bword w @ BComma # show_balts a"

text \<open>The numbers from \<open>m\<close> to \<open>n\<close>, downwards when \<open>n\<close> is smaller.\<close>

definition numbers :: "int \<Rightarrow> int \<Rightarrow> int list" where
  "numbers m n = (if m \<le> n then [m..n] else rev [n..m])"

primrec bword_words :: "bword \<Rightarrow> word_text list" and balts_words :: "balts \<Rightarrow> word_text list" where
  "bword_words Done = [[]]"
| "bword_words (Lit c w) = map ((#) c) (bword_words w)"
| "bword_words (Alt a w) = concat (map (\<lambda>x. map ((@) x) (bword_words w)) (balts_words a))"
| "bword_words (Range m n w) = concat (map (\<lambda>i. map ((@) (num_text i)) (bword_words w)) (numbers m n))"
| "balts_words (Last w) = bword_words w"
| "balts_words (More w a) = bword_words w @ balts_words a"

definition plain_char :: "nat \<Rightarrow> bool" where
  "plain_char c \<longleftrightarrow> c \<notin> {Inbrace, Outbrace, BComma, Backslash, Bnull}"

definition in_range :: "int \<Rightarrow> bool" where
  "in_range i \<longleftrightarrow> - (2 ^ 63) < i \<and> i < 2 ^ 63 - 1"

primrec wf_bword :: "bword \<Rightarrow> bool" and wf_balts :: "balts \<Rightarrow> bool" where
  "wf_bword Done \<longleftrightarrow> True"
| "wf_bword (Lit c w) \<longleftrightarrow> plain_char c \<and> wf_bword w"
| "wf_bword (Alt a w) \<longleftrightarrow> (\<forall>x. a \<noteq> Last x) \<and> wf_balts a \<and> wf_bword w"
| "wf_bword (Range m n w) \<longleftrightarrow> in_range m \<and> in_range n \<and> wf_bword w"
| "wf_balts (Last w) \<longleftrightarrow> wf_bword w"
| "wf_balts (More w a) \<longleftrightarrow> wf_bword w \<and> wf_balts a"

text \<open>How many groups the words can still hold.\<close>

primrec groups :: "bword \<Rightarrow> nat" and alt_groups :: "balts \<Rightarrow> nat" where
  "groups Done = 0"
| "groups (Lit c w) = groups w"
| "groups (Alt a w) = Suc (alt_groups a + groups w)"
| "groups (Range m n w) = Suc (groups w)"
| "alt_groups (Last w) = groups w"
| "alt_groups (More w a) = groups w + alt_groups a"

section \<open>One group at a time\<close>

fun then_word :: "bword \<Rightarrow> bword \<Rightarrow> bword" where
  "then_word Done v = v"
| "then_word (Lit c w) v = Lit c (then_word w v)"
| "then_word (Alt a w) v = Alt a (then_word w v)"
| "then_word (Range m n w) v = Range m n (then_word w v)"

fun alt_list :: "balts \<Rightarrow> bword list" where
  "alt_list (Last w) = [w]"
| "alt_list (More w a) = w # alt_list a"

definition lits :: "word_text \<Rightarrow> bword \<Rightarrow> bword" where
  "lits t w = foldr Lit t w"

fun first_group :: "bword \<Rightarrow> bword list option" where
  "first_group Done = None"
| "first_group (Lit c w) = map_option (map (Lit c)) (first_group w)"
| "first_group (Alt a w) = Some (map (\<lambda>x. then_word x w) (alt_list a))"
| "first_group (Range m n w) = Some (map (\<lambda>i. lits (num_text i) w) (numbers m n))"

lemma show_then [simp]: "show_bword (then_word w v) = show_bword w @ show_bword v"
  by (induction w v rule: then_word.induct) auto

lemma show_lits [simp]: "show_bword (lits t w) = t @ show_bword w"
  by (induction t) (auto simp: lits_def)

lemma words_lits [simp]: "bword_words (lits t w) = map ((@) t) (bword_words w)"
  by (induction t) (auto simp: lits_def)

lemma append_funs:
  "(@) (a @ b) = (\<lambda>y. a @ b @ y)" "(@) (c # b) = (\<lambda>y. c # b @ y)" "(@) [] = (\<lambda>y. y)"
  by auto

lemma concat_then: "concat (map (\<lambda>x. map ((@) x) V) (concat (map (\<lambda>x. map ((@) x) W) A))) =
    concat (map (\<lambda>x. map ((@) x) (concat (map (\<lambda>y. map ((@) y) V) W))) A)"
  by (induction A) (simp_all add: map_concat o_def append_funs)

lemma words_then: "bword_words (then_word w v) = concat (map (\<lambda>x. map ((@) x) (bword_words v)) (bword_words w))"
proof (induction w v rule: then_word.induct)
  case (3 a w v)
  then show ?case by (simp add: concat_then)
next
  case (4 m n w v)
  then show ?case using concat_then [of "bword_words v" "bword_words w" "map num_text (numbers m n)"] by (simp add: o_def)
qed (simp_all add: map_concat o_def append_funs)

lemma words_alts: "balts_words a = concat (map bword_words (alt_list a))"
  by (induction a rule: alt_list.induct) auto

lemma groups_then [simp]: "groups (then_word w v) = groups w + groups v"
  by (induction w v rule: then_word.induct) auto

lemma groups_lits [simp]: "groups (lits t w) = groups w"
  by (induction t) (auto simp: lits_def)

lemma groups_alts: "x \<in> set (alt_list a) \<Longrightarrow> groups x \<le> alt_groups a"
  by (induction a rule: alt_list.induct) auto

lemma first_group_words: "first_group w = Some vs \<Longrightarrow> concat (map bword_words vs) = bword_words w"
proof (induction w arbitrary: vs rule: first_group.induct)
  case (2 c w)
  then obtain us where u: "first_group w = Some us" "vs = map (Lit c) us" by auto
  have "concat (map (\<lambda>x. map ((#) c) (bword_words x)) us) = map ((#) c) (concat (map bword_words us))"
    by (simp add: map_concat o_def)
  then show ?case using u 2(1) by (simp add: o_def)
next
  case (3 a w)
  have "concat (map (\<lambda>x. concat (map (\<lambda>x. map ((@) x) (bword_words w)) (bword_words x))) L) =
      concat (map (\<lambda>x. map ((@) x) (bword_words w)) (concat (map bword_words L)))" for L
    by (induction L) auto
  then show ?case using 3 by (auto simp: words_then words_alts o_def)
qed (auto simp: o_def)

lemma first_group_less: "first_group w = Some vs \<Longrightarrow> v \<in> set vs \<Longrightarrow> groups v < groups w"
  by (induction w arbitrary: vs v rule: first_group.induct) (force dest: groups_alts)+

lemma first_group_None: "first_group w = None \<longleftrightarrow> groups w = 0"
  by (induction w rule: first_group.induct) auto

lemma num_plain: "c \<in> set (num_text i) \<Longrightarrow> ascii_digit c \<or> c = 45"
  using show_nat_digits by (auto simp: num_text_def text_of_def show_int_def ascii_digit_def list_all_iff is_digit_def byte_def split: if_splits)

lemma plain_values [simp]: "plain_char 45" "ascii_digit c \<Longrightarrow> plain_char c"
  by (auto simp: plain_char_def Inbrace_def Outbrace_def BComma_def Bnull_def ascii_digit_def)

lemma wf_lits: "list_all plain_char t \<Longrightarrow> wf_bword (lits t w) = wf_bword w"
  by (induction t) (auto simp: lits_def)

lemma wf_then: "wf_bword (then_word w v) \<longleftrightarrow> wf_bword w \<and> wf_bword v"
  by (induction w v rule: then_word.induct) auto

lemma wf_alts: "wf_balts a \<longleftrightarrow> (\<forall>x \<in> set (alt_list a). wf_bword x)"
  by (induction a rule: alt_list.induct) auto

lemma first_group_wf: "first_group w = Some vs \<Longrightarrow> wf_bword w \<Longrightarrow> v \<in> set vs \<Longrightarrow> wf_bword v"
proof (induction w arbitrary: vs v rule: first_group.induct)
  case (4 m n w)
  have "list_all plain_char (num_text i)" for i using num_plain plain_values by (fastforce simp: list_all_iff)
  then show ?case using 4 by (auto simp: wf_lits)
qed (auto simp: wf_then wf_alts)

lemma words_plain: "groups w = 0 \<Longrightarrow> bword_words w = [show_bword w]"
  by (induction w rule: first_group.induct) auto

lemma show_plain: "groups w = 0 \<Longrightarrow> wf_bword w \<Longrightarrow> Inbrace \<notin> set (show_bword w)"
  by (induction w rule: first_group.induct) (auto simp: plain_char_def)

section \<open>The scan over a group\<close>

lemma tokens_differ [simp]:
  "Outbrace \<noteq> Inbrace" "BComma \<noteq> Inbrace" "BComma \<noteq> Outbrace" "Dot \<noteq> Inbrace" "Dot \<noteq> Outbrace" "Dot \<noteq> BComma"
  "Inbrace \<noteq> Outbrace" "Inbrace \<noteq> BComma" "Outbrace \<noteq> BComma"
  by (simp_all add: Inbrace_def Outbrace_def BComma_def)

lemma plain_not:
  assumes "plain_char c"
  shows "c \<noteq> Inbrace" "c \<noteq> Outbrace" "c \<noteq> BComma" "c \<noteq> Backslash" "c \<noteq> Bnull"
  using assms by (simp_all add: plain_char_def)

definition plain_text :: "word_text \<Rightarrow> bool" where
  "plain_text t \<longleftrightarrow> list_all plain_char t \<and> Dot \<notin> set t"

lemma plain_num [simp]: "plain_text (num_text i)"
  using num_plain plain_values by (fastforce simp: plain_text_def list_all_iff ascii_digit_def)

lemma scan_text:
  "plain_text t \<Longrightarrow> scan_group k d commas dd (t @ r) = scan_group (k + length t) d commas dd r"
proof (induction t arbitrary: k)
  case (Cons c t)
  then have "plain_char c" "c \<noteq> Dot" by (auto simp: plain_text_def)
  then have "scan_group k d commas dd (c # t @ r) = scan_group (k + 1) d commas dd (t @ r)"
    using plain_not by simp
  then show ?case using Cons by (simp add: plain_text_def)
qed simp

text \<open>Inside a nested group nothing is recorded.\<close>

lemma scan_nested:
  "wf_bword w \<Longrightarrow> scan_group k (Suc (Suc d)) commas dd (show_bword w @ r) =
     scan_group (k + length (show_bword w)) (Suc (Suc d)) commas dd r"
  "wf_balts a \<Longrightarrow> scan_group k (Suc (Suc d)) commas dd (show_balts a @ r) =
     scan_group (k + length (show_balts a)) (Suc (Suc d)) commas dd r"
proof (induction w and a arbitrary: k d r and k d r)
  case (Lit c w)
  then show ?case using plain_not [of c] by (simp add: Lit.IH)
next
  case (Range m n w)
  then show ?case by (simp add: scan_text Range.IH algebra_simps)
qed (simp_all add: algebra_simps)

text \<open>At depth 1 the commas of the group itself are recorded.\<close>

fun comma_places :: "nat \<Rightarrow> balts \<Rightarrow> nat list" where
  "comma_places k (Last w) = []"
| "comma_places k (More w a) = (k + length (show_bword w)) # comma_places (k + length (show_bword w) + 1) a"

lemma scan_word:
  "wf_bword w \<Longrightarrow> \<exists>dd'. scan_group k 1 commas dd (show_bword w @ r) =
     scan_group (k + length (show_bword w)) 1 commas dd' r"
proof (induction w arbitrary: k dd rule: bword.induct [where ?P2.0 = "\<lambda>_. True"])
  case (Lit c w)
  have "\<exists>dd'. scan_group k 1 commas dd (c # show_bword w @ r) = scan_group (k + 1) 1 commas dd' (show_bword w @ r)"
    using plain_not [of c] Lit.prems by auto
  then obtain dd' where "scan_group k 1 commas dd (c # show_bword w @ r) = scan_group (k + 1) 1 commas dd' (show_bword w @ r)" ..
  then show ?case using Lit.IH [of "k + 1" dd'] Lit.prems by auto
next
  case (Alt a w)
  have "scan_group k 1 commas dd (show_bword (Alt a w) @ r) =
      scan_group (k + 2 + length (show_balts a)) 1 commas dd (show_bword w @ r)"
    using Alt.prems by (simp add: scan_nested)
  then show ?case using Alt.IH [of "k + 2 + length (show_balts a)" dd] Alt.prems by (auto simp: algebra_simps)
next
  case (Range m n w)
  have "scan_group k 1 commas dd (show_bword (Range m n w) @ r) =
      scan_group (Suc (Suc (Suc (Suc (k + length (num_text m) + length (num_text n)))))) 1 commas dd (show_bword w @ r)"
    by (simp add: scan_text)
  then show ?case using Range.IH [of "Suc (Suc (Suc (Suc (k + length (num_text m) + length (num_text n)))))" dd] Range.prems by (auto simp: algebra_simps)
qed auto

lemma scan_alts:
  "wf_balts a \<Longrightarrow> \<exists>dd'. scan_group k 1 commas dd (show_balts a @ Outbrace # r) =
     Some (k + length (show_balts a), commas @ comma_places k a, dd')"
proof (induction a arbitrary: k commas dd rule: alt_list.induct)
  case (1 w)
  then show ?case using scan_word [of w k commas dd "Outbrace # r"] by auto
next
  case (2 w a)
  obtain dd1 where "scan_group k 1 commas dd (show_bword w @ BComma # show_balts a @ Outbrace # r) =
      scan_group (k + length (show_bword w) + 1) 1 (commas @ [k + length (show_bword w)]) dd1 (show_balts a @ Outbrace # r)"
    using scan_word [of w k commas dd "BComma # show_balts a @ Outbrace # r"] 2(2) by auto
  then show ?case
    using 2(1) [of "k + length (show_bword w) + 1" "commas @ [k + length (show_bword w)]" dd1] 2(2) by (auto simp: algebra_simps)
qed

lemma comma_parts_alts:
  "length p = k \<Longrightarrow> comma_parts k (comma_places k a) (p @ show_balts a) = map show_bword (alt_list a)"
proof (induction a arbitrary: k p rule: alt_list.induct)
  case (2 w a)
  show ?case using 2(1) [of "p @ show_bword w @ [BComma]" "k + length (show_bword w) + 1"] 2(2) by simp
qed simp

lemma scan_numbers:
  "scan_group 0 1 [] None (num_text m @ Dot # Dot # num_text n @ Outbrace # r) =
     Some (length (num_text m) + 2 + length (num_text n), [], Some (length (num_text m)))"
proof -
  have "scan_group k 1 [] (Some p) (Dot # num_text n @ Outbrace # r) =
      Some (k + 1 + length (num_text n), [], Some p)" for k p
    by (simp add: scan_text)
  then show ?thesis by (simp add: scan_text del: scan_group.simps(2)) (subst scan_group.simps(2), simp)
qed
section \<open>Numeric ranges\<close>

lemma num_text_chars: "num_text i = map byte (show_int i)" "num_text i \<noteq> []"
  by (simp_all add: num_text_def text_of_def show_int_def)

lemma parse_num_wide: "- (2 ^ 63) \<le> i \<Longrightarrow> i < 2 ^ 63 \<Longrightarrow> parse_word parse_i64 (num_text i) = Some (word_of_int i)"
proof -
  assume i: "- (2 ^ 63) \<le> i" "i < 2 ^ 63"
  have "byte c < 128" if "c \<in> set (show_int i)" for c
    using show_int_chars [OF that] by (auto simp: is_digit_def byte_def)
  then have "list_all (\<lambda>c. c < 128) (num_text i)" by (simp add: num_text_chars list_all_iff)
  moreover have "map char_of (num_text i) = show_int i"
    by (simp add: num_text_chars byte_def o_def)
  ultimately show ?thesis using i by (simp add: parse_word_def parse_show_int)
qed

lemma parse_num: "in_range i \<Longrightarrow> parse_word parse_i64 (num_text i) = Some (word_of_int i)"
  by (intro parse_num_wide) (simp_all add: in_range_def)

lemma find_dots_none: "Dot \<notin> set t \<Longrightarrow> find_dots t = None"
  by (induction t rule: find_dots.induct) auto

lemma find_dots_some: "Dot \<notin> set t \<Longrightarrow> find_dots (t @ Dot # Dot # r) = Some (length t)"
proof (induction t)
  case (Cons c t)
  then show ?case by (cases t) auto
qed simp

lemma num_no_dot: "Dot \<notin> set (num_text i)"
  using plain_num by (simp add: plain_text_def)

lemma num_not_token: "c \<in> set (num_text i) \<Longrightarrow> c < 128"
  using num_plain by (fastforce simp: ascii_digit_def)

lemma no_untokenize: "list_all (\<lambda>c. c < 128) t \<Longrightarrow> \<not> needs_untokenize t"
  by (induction t rule: needs_untokenize.induct) (auto simp: itok_char_def)

lemma not_padded [simp]: "\<not> padded_field (num_text i)"
proof -
  have "\<not> (2 \<le> length s \<and> hd s = 48)" if s: "s = map byte (show_nat n)" for s n
  proof
    assume a: "2 \<le> length s \<and> hd s = 48"
    then have "byte (hd (show_nat n)) = 48" using s by (simp add: hd_map)
    then have "hd (show_nat n) = CHR ''0''" using byte_digit_char [of 0] digit_chars(1) by (metis add_0_right byte_def of_char_eq_iff zero_less_numeral)
    then have "n = 0" by (simp add: show_nat_zero)
    then show False using a s by (simp add: show_nat_0)
  qed
  moreover have "dropWhile (\<lambda>c. c = 43 \<or> c = 45) (num_text i) = map byte (show_nat (nat \<bar>i\<bar>))"
  proof -
    have d: "dropWhile (\<lambda>c. c = 43 \<or> c = 45) (map byte (show_nat n)) = map byte (show_nat n)" for n
    proof (cases "show_nat n")
      case (Cons c cs)
      then have "is_digit c" using show_nat_digits [of n] by simp
      then show ?thesis using Cons by (auto simp: is_digit_def)
    qed simp
    have "byte (CHR ''-'') = 45" by code_simp
    then show ?thesis using d by (simp add: num_text_chars show_int_def)
  qed
  ultimately show ?thesis by (simp add: padded_field_def Let_def)
qed

lemma range_up:
  "- (2 ^ 63) < start \<Longrightarrow> stop < 2 ^ 63 - 1 \<Longrightarrow> start \<le> stop + 1 \<Longrightarrow>
     range_walk (\<lambda>v. i64_le v (word_of_int stop)) 1 (word_of_int start) = Some (map word_of_int [start..stop])"
proof (induction "nat (stop + 1 - start)" arbitrary: start)
  case 0
  then show ?case by (subst range_walk.simps) (simp add: i64_le_def sint_of_range)
next
  case (Suc n)
  then have "start \<le> stop" "n = nat (stop + 1 - (start + 1))" by simp_all
  moreover have "range_walk (\<lambda>v. i64_le v (word_of_int stop)) 1 (word_of_int start + 1) = Some (map word_of_int [start + 1..stop])"
    using Suc.hyps(1) [of "start + 1"] Suc.prems calculation by simp
  ultimately show ?case
    using Suc.prems by (subst range_walk.simps) (simp add: i64_le_def sint_of_range upto.simps [of start stop])
qed

lemma i64_le_fun: "i64_le a = (\<lambda>v. sint a \<le> sint v)"
  by (simp add: i64_le_def fun_eq_iff)

lemma range_down:
  "stop > - (2 ^ 63) \<Longrightarrow> start < 2 ^ 63 - 1 \<Longrightarrow> stop \<le> start + 1 \<Longrightarrow>
     range_walk (\<lambda>v. i64_le (word_of_int stop) v) (- 1) (word_of_int start) = Some (map word_of_int (rev [stop..start]))"
proof (induction "nat (start + 1 - stop)" arbitrary: start)
  case 0
  then show ?case by (subst range_walk.simps) (simp add: i64_le_fun sint_of_range)
next
  case (Suc n)
  then have "stop \<le> start" "n = nat (start - 1 + 1 - stop)" by simp_all
  moreover have "word_of_int start + - 1 = (word_of_int (start - 1) :: i64)" by simp
  moreover have "range_walk (\<lambda>v. i64_le (word_of_int stop) v) (- 1) (word_of_int (start - 1)) = Some (map word_of_int (rev [stop..start - 1]))"
    using Suc.hyps(1) [of "start - 1"] Suc.prems calculation by simp
  ultimately show ?case
    using Suc.prems by (subst range_walk.simps) (simp add: i64_le_fun sint_of_range upto_rec2 [of stop start])
qed

definition zsh_braces :: "brace_conf \<Rightarrow> bool" where
  "zsh_braces C \<longleftrightarrow> \<not> b_bash_mode C \<and> \<not> b_sh_mode C \<and> \<not> b_ksh93_mode C \<and> \<not> b_pdksh_family C \<and> \<not> b_posix_faithful C"

lemma expand_range_numbers:
  assumes "zsh_braces C" "in_range m" "in_range n"
  shows "expand_range C pre (num_text m @ Dot # Dot # num_text n) (length (num_text m)) suf =
    Some (Some (map (\<lambda>i. pre @ num_text i @ suf) (numbers m n)))"
proof -
  let ?c = "num_text m @ Dot # Dot # num_text n"
  have "\<not> needs_untokenize ?c" using num_not_token by (intro no_untokenize) (auto simp: list_all_iff)
  moreover have "after_dots (length (num_text m)) ?c = Some (num_text n)" by (simp add: after_dots_def)
  moreover have "split_step C (num_text n) = Some \<lparr>r_right = num_text n, r_abs = 1, r_negative = False, r_text = [], r_raw = None\<rparr>"
    by (simp add: split_step_def find_dots_none num_no_dot)
  moreover have "numeric_values C \<lparr>r_right = num_text n, r_abs = 1, r_negative = False, r_text = [], r_raw = None\<rparr>
      (word_of_int m) (word_of_int n) = Some (map word_of_int (numbers m n))"
    using assms range_up [of m n] range_down [of n m]
    by (auto simp: numeric_values_def zsh_braces_def numbers_def i64_le_fun sint_of_range in_range_def)
  moreover have "text_of (show_int (sint (word_of_int i :: i64))) = num_text i" if "i \<in> set (numbers m n)" for i
  proof -
    have "- (2 ^ 63) \<le> i" "i < 2 ^ 63" using that assms by (auto simp: numbers_def in_range_def split: if_splits)
    then show ?thesis by (simp add: num_text_def sint_of_range)
  qed
  ultimately show ?thesis
    using assms by (simp add: expand_range_def parse_num range_padded_def format_value_def Let_def)
qed

text \<open>The first group of a word is expanded; a word without one is left.\<close>

fun starts_group :: "bword \<Rightarrow> bool" where
  "starts_group (Alt a w) = True"
| "starts_group (Range m n w) = True"
| "starts_group w = False"

lemma split_group:
  "first_group w \<noteq> None \<Longrightarrow> wf_bword w \<Longrightarrow> \<exists>p u. list_all plain_char p \<and> w = lits p u \<and> starts_group u"
proof (induction w rule: first_group.induct)
  case (2 c w)
  then obtain p u where "list_all plain_char p" "w = lits p u" "starts_group u" by auto
  then show ?case using 2(3) by (intro exI [of _ "c # p"] exI [of _ u]) (simp add: lits_def)
next
  case (3 a w)
  show ?case by (intro exI [of _ "[]"]) (simp add: lits_def)
next
  case (4 m n w)
  show ?case by (intro exI [of _ "[]"]) (simp add: lits_def)
qed simp

lemma first_group_lits: "first_group (lits p w) = map_option (map (lits p)) (first_group w)"
  by (induction p) (auto simp: lits_def option.map_comp o_def option.map_ident)

lemma expand_alternatives:
  assumes "wf_balts a" "\<forall>x. a \<noteq> Last x"
  shows "\<exists>dd. scan_group 0 1 [] None (show_balts a @ Outbrace # r) = Some (length (show_balts a), comma_places 0 a, dd)
    \<and> comma_places 0 a \<noteq> [] \<and> comma_parts 0 (comma_places 0 a) (show_balts a) = map show_bword (alt_list a)"
  using scan_alts [OF assms(1), of 0 "[]" None r] comma_parts_alts [of "[]" 0 a] assms(2) by (cases a) auto

lemma try_expand_group:
  assumes "zsh_braces C" "wf_bword w"
  shows "try_expand_one (Suc n) rec C ccl (show_bword w) 0 = Some (map_option (map show_bword) (first_group w))"
proof (cases "first_group w")
  case None
  then have "Inbrace \<notin> set (show_bword w)" using show_plain assms(2) by (simp add: first_group_None)
  then have t: "takeWhile (\<lambda>c. c \<noteq> Inbrace) (show_bword w) = show_bword w" by (auto simp: takeWhile_eq_all_conv)
  show ?thesis using None by (simp add: try_expand_from_def t)
next
  case (Some vs)
  then obtain p u where p: "list_all plain_char p" "w = lits p u" "starts_group u"
    using split_group [of w] assms(2) by auto
  have h: "takeWhile (\<lambda>c. c \<noteq> Inbrace) (p @ Inbrace # r) = p" for r
    using p(1) plain_not(1) by (auto simp: takeWhile_append list_all_iff)
  show ?thesis
  proof (cases u)
    case (Alt a v)
    then have w: "w = lits p (Alt a v)" using p(2) by simp
    then have a: "wf_balts a" "\<forall>x. a \<noteq> Last x" using assms(2) p(1) by (simp_all add: wf_lits)
    obtain dd where s: "scan_group 0 1 [] None (show_balts a @ Outbrace # show_bword v) = Some (length (show_balts a), comma_places 0 a, dd)"
      "comma_places 0 a \<noteq> []" "comma_parts 0 (comma_places 0 a) (show_balts a) = map show_bword (alt_list a)"
      using expand_alternatives [OF a] by blast
    have "expand_group rec C ccl p (show_balts a) (show_bword v) (comma_places 0 a) dd k =
        Some (Parts (map show_bword (map (lits p) (map (\<lambda>x. then_word x v) (alt_list a)))))" for k
      using s(2,3) by (auto simp: expand_group_def expand_comma_def o_def Let_def split: option.split)
    then show ?thesis
      using s(1) by (simp add: w try_expand_from_def h first_group_lits Let_def)
  next
    case (Range m k v)
    then have w: "w = lits p (Range m k v)" using p(2) by simp
    then have r: "in_range m" "in_range k" using assms(2) p(1) by (simp_all add: wf_lits)
    have "expand_group rec C ccl p (num_text m @ Dot # Dot # num_text k) (show_bword v) [] (Some (length (num_text m))) i =
        Some (Parts (map show_bword (map (lits p) (map (\<lambda>i. lits (num_text i) v) (numbers m k)))))" for i
      using assms(1) r by (simp add: expand_group_def expand_range_numbers zsh_braces_def o_def)
    then show ?thesis
      using scan_numbers [of m k "show_bword v"]
      by (simp add: w try_expand_from_def h first_group_lits Let_def numeral_3_eq_3)
  qed (use p(3) in simp_all)
qed
section \<open>Recognising a group\<close>

lemma hb_step:
  "r \<noteq> [] \<Longrightarrow> plain_char c \<Longrightarrow> hb_walk C ccl (Suc d) comma dots (Some t) (c # r) =
     hb_walk C ccl (Suc d) comma (dots \<or> c = Dot \<and> hd r = Dot) (Some (t @ [c])) r"
  "r \<noteq> [] \<Longrightarrow> hb_walk C ccl (Suc d) comma dots (Some t) (BComma # r) = hb_walk C ccl (Suc d) True dots (Some (t @ [BComma])) r"
  "r \<noteq> [] \<Longrightarrow> hb_walk C ccl (Suc d) comma dots (Some t) (Inbrace # r) =
     hb_walk C ccl (Suc (Suc d)) comma dots (Some (t @ [Inbrace])) r"
  "r \<noteq> [] \<Longrightarrow> hb_walk C ccl (Suc (Suc d)) comma dots (Some t) (Outbrace # r) =
     hb_walk C ccl (Suc d) comma dots (Some (t @ [Outbrace])) r"
  "r \<noteq> [] \<Longrightarrow> hb_walk C ccl 0 False False None (Inbrace # r) = hb_walk C ccl (Suc 0) False False (Some []) r"
  using plain_not [of c]
  by (cases r; auto simp: Let_def Inbrace_def Outbrace_def BComma_def Bnull_def)+

lemma hb_close: "hb_walk C ccl (Suc 0) True dots open (Outbrace # r) = Some True"
  by (cases r) (auto simp: Outbrace_def Bnull_def Inbrace_def Let_def)

lemma hb_close_range:
  "dots_expand C t = Some True \<Longrightarrow> hb_walk C ccl (Suc 0) False True (Some t) (Outbrace # r) = Some True"
  by (cases r) (auto simp: Outbrace_def Bnull_def Inbrace_def Let_def)

lemma hb_literals:
  "list_all plain_char p \<Longrightarrow> hb_walk C ccl 0 False False None (p @ r) = hb_walk C ccl 0 False False None r"
proof (induction p)
  case (Cons c p)
  have "hb_walk C ccl 0 False False None (c # s) = hb_walk C ccl 0 False False None s" for s
    using plain_not [of c] Cons.prems by (cases s) (auto simp: Let_def)
  then show ?case using Cons by simp
qed simp

declare hb_walk.simps [simp del]

definition passes_over :: "brace_conf \<Rightarrow> bool \<Rightarrow> nat \<Rightarrow> word_text \<Rightarrow> bool \<Rightarrow> bool" where
  "passes_over C ccl d x k \<longleftrightarrow> (\<forall>comma dots t r. r \<noteq> [] \<longrightarrow>
     (\<exists>comma' dots' t'. hb_walk C ccl d comma dots (Some t) (x @ r) = hb_walk C ccl d comma' dots' (Some t') r \<and>
        (comma \<or> k \<longrightarrow> comma')))"

lemma passes_over_Nil: "passes_over C ccl d [] False"
  by (auto simp: passes_over_def)

lemma passes_over_weaken: "passes_over C ccl d x k \<Longrightarrow> passes_over C ccl d x False"
  unfolding passes_over_def by (intro allI impI) metis

lemma passes_over_append:
  assumes "passes_over C ccl d x k" "passes_over C ccl d y l"
  shows "passes_over C ccl d (x @ y) (k \<or> l)"
  unfolding passes_over_def
proof (intro allI impI)
  fix comma dots t and r :: word_text assume r: "r \<noteq> []"
  obtain comma1 dots1 t1 where "hb_walk C ccl d comma dots (Some t) (x @ y @ r) = hb_walk C ccl d comma1 dots1 (Some t1) (y @ r)"
    "comma \<or> k \<longrightarrow> comma1"
    using assms(1) r unfolding passes_over_def by (metis append_is_Nil_conv)
  moreover obtain comma2 dots2 t2 where "hb_walk C ccl d comma1 dots1 (Some t1) (y @ r) = hb_walk C ccl d comma2 dots2 (Some t2) r"
    "comma1 \<or> l \<longrightarrow> comma2"
    using assms(2) r unfolding passes_over_def by metis
  ultimately show "\<exists>comma' dots' t'. hb_walk C ccl d comma dots (Some t) ((x @ y) @ r) = hb_walk C ccl d comma' dots' (Some t') r \<and>
      (comma \<or> k \<or> l \<longrightarrow> comma')"
    by auto
qed

lemma passes_over_chars:
  "plain_char c \<Longrightarrow> passes_over C ccl (Suc d) [c] False" "passes_over C ccl (Suc d) [BComma] True"
  by (auto simp: passes_over_def hb_step)

lemma passes_over_group:
  assumes "passes_over C ccl (Suc (Suc d)) x k"
  shows "passes_over C ccl (Suc d) (Inbrace # x @ [Outbrace]) k"
  unfolding passes_over_def
proof (intro allI impI)
  fix comma dots t and r :: word_text assume r: "r \<noteq> []"
  obtain comma1 dots1 t1 where "hb_walk C ccl (Suc (Suc d)) comma dots (Some (t @ [Inbrace])) (x @ Outbrace # r) =
      hb_walk C ccl (Suc (Suc d)) comma1 dots1 (Some t1) (Outbrace # r)" "comma \<or> k \<longrightarrow> comma1"
    using assms unfolding passes_over_def by (metis list.distinct(1))
  then show "\<exists>comma' dots' t'. hb_walk C ccl (Suc d) comma dots (Some t) ((Inbrace # x @ [Outbrace]) @ r) =
      hb_walk C ccl (Suc d) comma' dots' (Some t') r \<and> (comma \<or> k \<longrightarrow> comma')"
    using r by (auto simp: hb_step)
qed

lemma passes_over_text: "list_all plain_char x \<Longrightarrow> passes_over C ccl (Suc d) x False"
proof (induction x)
  case (Cons c x)
  have "passes_over C ccl (Suc d) ([c] @ x) (False \<or> False)"
    by (intro passes_over_append passes_over_chars Cons.IH) (use Cons.prems in simp_all)
  then show ?case by simp
qed (simp add: passes_over_Nil)

lemma plain_dot [simp]: "plain_char Dot"
  by (simp add: plain_char_def Inbrace_def Outbrace_def BComma_def Bnull_def)

lemma num_all_plain: "list_all plain_char (num_text i)"
  using plain_num by (simp add: plain_text_def)

lemma passes_over_word:
  "wf_bword w \<Longrightarrow> passes_over C ccl (Suc d) (show_bword w) False"
  "wf_balts a \<Longrightarrow> passes_over C ccl (Suc d) (show_balts a) (\<forall>x. a \<noteq> Last x)"
proof (induction w and a arbitrary: d and d)
  case (Lit c w)
  have "passes_over C ccl (Suc d) ([c] @ show_bword w) (False \<or> False)"
    by (intro passes_over_append passes_over_chars Lit.IH) (use Lit.prems in simp_all)
  then show ?case by simp
next
  case (Alt a w)
  have "passes_over C ccl (Suc d) ((Inbrace # show_balts a @ [Outbrace]) @ show_bword w) ((\<forall>x. a \<noteq> Last x) \<or> False)"
    by (intro passes_over_append passes_over_group Alt.IH) (use Alt.prems in simp_all)
  then show ?case by (simp add: passes_over_weaken)
next
  case (Range m n w)
  have "passes_over C ccl (Suc (Suc d)) (num_text m @ Dot # Dot # num_text n) False"
    by (intro passes_over_text) (simp add: num_all_plain)
  then have "passes_over C ccl (Suc d) ((Inbrace # (num_text m @ Dot # Dot # num_text n) @ [Outbrace]) @ show_bword w) (False \<or> False)"
    by (intro passes_over_append passes_over_group Range.IH) (use Range.prems in simp_all)
  then show ?case by simp
next
  case (More w a)
  have "passes_over C ccl (Suc d) (show_bword w @ [BComma] @ show_balts a) (False \<or> True \<or> (\<forall>x. a \<noteq> Last x))"
    by (intro passes_over_append passes_over_chars More.IH) (use More.prems in simp_all)
  then show ?case by simp
next
  case (Last w)
  then show ?case by simp
qed (auto simp: passes_over_Nil)

lemma skip_number_num: "r = [] \<or> hd r = Dot \<Longrightarrow> skip_number (num_text i @ r) = r"
proof -
  assume r: "r = [] \<or> hd r = Dot"
  have d: "dropWhile ascii_digit (map byte (show_nat n) @ r) = r" for n
  proof -
    have "list_all ascii_digit (map byte (show_nat n))"
      using show_nat_digits [of n] by (auto simp: list_all_iff ascii_digit_def is_digit_def)
    moreover have "dropWhile ascii_digit r = r" using r by (cases r) (auto simp: ascii_digit_def)
    ultimately show ?thesis by (simp add: dropWhile_append list_all_iff)
  qed
  have m: "byte (CHR ''-'') = 45" by code_simp
  obtain c s where "map byte (show_nat (nat i)) = c # s" "c \<noteq> 45"
    using show_nat_digits [of "nat i"] show_nat_neq_Nil [of "nat i"] by (cases "show_nat (nat i)") (auto simp: is_digit_def)
  then show ?thesis
    using d [of "nat i"] d [of "nat (- i)"] m by (auto simp: skip_number_def num_text_chars show_int_def)
qed

lemma last_num: "ascii_digit (last (num_text i))"
proof -
  have "is_digit (last (show_nat n))" for n
    using show_nat_digits [of n] show_nat_neq_Nil [of n] by (simp add: list_all_iff)
  then show ?thesis by (simp add: num_text_chars show_int_def last_map ascii_digit_def is_digit_def)
qed

lemma dots_expand_numbers:
  assumes "zsh_braces C"
  shows "dots_expand C (num_text m @ Dot # Dot # num_text n) = Some True"
proof -
  let ?c = "num_text m @ Dot # Dot # num_text n"
  have chars: "c \<in> set ?c \<Longrightarrow> c < 128" for c using num_not_token by auto
  then have "Inbrace \<notin> set ?c" "undash ?c = ?c"
    by (force simp: Inbrace_def, force simp: undash_def BDash_def intro!: map_idI)
  moreover have "\<exists>x. bracechardots C ?c = Some x"
  proof -
    have "untok_endpoint (num_text i) = Some (Some (num_text i))" for i
      using num_not_token [of _ i] by (auto simp: untok_endpoint_def itok_char_def split: list.split)
    then show ?thesis
      by (auto simp: bracechardots_def find_dots_some num_no_dot find_dots_none num_text_chars(2))
  qed
  moreover have "range_shape C ?c"
    using skip_number_num [of "Dot # Dot # num_text n" m] skip_number_num [of "[]" n] by (simp add: range_shape_def skip_dots_def)
  moreover have "ascii_digit (last ?c)" using last_num [of n] num_text_chars(2) [of n] by simp
  ultimately show ?thesis
    using assms by (auto simp: dots_expand_def numeric_ok_def zsh_braces_def)
qed

lemma hb_range_text:
  "plain_text x \<Longrightarrow> r \<noteq> [] \<Longrightarrow> hb_walk C ccl (Suc d) comma dots (Some t) (x @ r) = hb_walk C ccl (Suc d) comma dots (Some (t @ x)) r"
proof (induction x arbitrary: t)
  case (Cons c x)
  then have "plain_char c" "c \<noteq> Dot" "plain_text x" by (auto simp: plain_text_def)
  then show ?case using Cons.IH [of "t @ [c]"] Cons.prems(2) by (simp add: hb_step(1))
qed simp

lemma hasbraces_word:
  assumes "zsh_braces C" "wf_bword w"
  shows "hasbraces C (show_bword w) ccl = Some (first_group w \<noteq> None)"
proof (cases "first_group w")
  case None
  then have "list_all plain_char (show_bword w)"
    using assms(2) by (induction w rule: first_group.induct) (auto simp: plain_char_def)
  then show ?thesis using hb_literals [of "show_bword w" C ccl "[]"] None by (simp add: hasbraces_def hb_walk.simps(1))
next
  case (Some vs)
  then obtain p u where p: "list_all plain_char p" "w = lits p u" "starts_group u"
    using split_group [of w] assms(2) by auto
  have "list_ex (\<lambda>c. 0x8F \<in> set (utf8_bytes c)) (show_bword w)"
    using p(2,3) by (cases u) (auto simp: list_ex_iff utf8_bytes_def Inbrace_def)
  moreover have "hb_walk C ccl 0 False False None (show_bword w) = Some True"
  proof (cases u)
    case (Alt a v)
    then have a: "passes_over C ccl (Suc 0) (show_balts a) True"
      using passes_over_word(2) [of a C ccl 0] assms(2) p by (simp add: wf_lits)
    obtain comma dots t where "hb_walk C ccl (Suc 0) False False (Some []) (show_balts a @ Outbrace # show_bword v) =
        hb_walk C ccl (Suc 0) comma dots (Some t) (Outbrace # show_bword v)" "comma"
      using a unfolding passes_over_def by (metis list.distinct(1))
    then show ?thesis using p Alt by (simp add: hb_literals hb_step hb_close)
  next
    case (Range m n v)
    have "hb_walk C ccl (Suc 0) False False (Some []) (num_text m @ Dot # Dot # num_text n @ Outbrace # show_bword v) =
        hb_walk C ccl (Suc 0) False True (Some (num_text m @ Dot # Dot # num_text n)) (Outbrace # show_bword v)"
    proof -
      have "hd (num_text n @ Outbrace # show_bword v) \<noteq> Dot"
        using num_text_chars(2) [of n] num_no_dot [of n] by (cases "num_text n") auto
      then show ?thesis by (simp add: hb_range_text hb_step)
    qed
    then show ?thesis
      using p Range hb_close_range [OF dots_expand_numbers [OF assms(1)]] by (simp add: hb_literals hb_step)
  qed (use p(3) in simp_all)
  ultimately show ?thesis using Some by (simp add: hasbraces_def)
qed
section \<open>The passes\<close>

definition step_words :: "bword list \<Rightarrow> bword list" where
  "step_words ws = concat (map (\<lambda>w. case first_group w of Some vs \<Rightarrow> vs | None \<Rightarrow> [w]) ws)"

lemma expand_all_words:
  assumes "\<And>w. w \<in> set ws \<Longrightarrow> f (show_bword w) = Some (map_option (map show_bword) (first_group w))"
  shows "expand_all f (map show_bword ws) = Some (\<exists>w \<in> set ws. first_group w \<noteq> None, map show_bword (step_words ws))"
  using assms by (induction ws) (auto simp: step_words_def split: option.splits)

lemma step_words_words: "concat (map bword_words (step_words ws)) = concat (map bword_words ws)"
  by (induction ws) (auto simp: step_words_def first_group_words split: option.split)

lemma step_words_wf: "\<forall>w \<in> set ws. wf_bword w \<Longrightarrow> w \<in> set (step_words ws) \<Longrightarrow> wf_bword w"
  using first_group_wf by (fastforce simp: step_words_def split: option.splits)

lemma step_words_less:
  assumes "\<forall>w \<in> set ws. groups w \<le> Suc n" "w \<in> set (step_words ws)"
  shows "groups w \<le> n"
proof -
  obtain v where v: "v \<in> set ws" "w \<in> set (case first_group v of Some vs \<Rightarrow> vs | None \<Rightarrow> [v])"
    using assms(2) by (auto simp: step_words_def)
  then show ?thesis
    using assms(1) first_group_less [of v] first_group_None [of v] by (cases "first_group v") fastforce+
qed

lemma passes_words:
  assumes "\<And>w. wf_bword w \<Longrightarrow> f (show_bword w) = Some (map_option (map show_bword) (first_group w))"
    and "\<forall>w \<in> set ws. wf_bword w \<and> groups w \<le> n"
  shows "passes (Suc n) f (map show_bword ws) = Some (concat (map bword_words ws))"
  using assms(2)
proof (induction n arbitrary: ws)
  case 0
  then have g: "first_group w = None \<and> bword_words w = [show_bword w]" if "w \<in> set ws" for w
    using that words_plain by (simp add: first_group_None)
  have "concat (map bword_words ws) = map show_bword ws" using g by (induction ws) auto
  moreover have "step_words ws = ws" using g by (induction ws) (auto simp: step_words_def)
  ultimately show ?case using expand_all_words [of ws f] assms(1) 0 g by simp
next
  case (Suc n)
  have e: "expand_all f (map show_bword ws) = Some (\<exists>w \<in> set ws. first_group w \<noteq> None, map show_bword (step_words ws))"
    using Suc.prems assms(1) by (intro expand_all_words) blast
  have "\<forall>w \<in> set (step_words ws). wf_bword w \<and> groups w \<le> n"
    using Suc.prems step_words_wf step_words_less by blast
  from Suc.IH [OF this] have IH: "passes (Suc n) f (map show_bword (step_words ws)) = Some (concat (map bword_words ws))"
    by (simp add: step_words_words)
  show ?case
  proof (cases "\<exists>w \<in> set ws. first_group w \<noteq> None")
    case True
    then show ?thesis using e IH by (simp del: passes.simps add: passes.simps(2) [of "Suc n"])
  next
    case False
    then have g: "first_group w = None \<and> bword_words w = [show_bword w]" if "w \<in> set ws" for w
      using that words_plain first_group_None by simp
    have "concat (map bword_words ws) = map show_bword ws" using g by (induction ws) auto
    moreover have "step_words ws = ws" using g by (induction ws) (auto simp: step_words_def)
    ultimately show ?thesis using e False by (simp del: passes.simps add: passes.simps(2) [of "Suc n"])
  qed
qed

section \<open>Properties\<close>

text \<open>C2.  Equivalence: in zsh mode the expansion of a word with comma groups and numeric ranges,
  nested in any way, is the product of its groups, the leftmost group varying slowest; more
  fuel than the word has groups is enough, so the expander ends.\<close>

theorem brace_expansion:
  assumes "zsh_braces C" "wf_bword w" "groups w + 2 \<le> n"
  shows "xpandbraces n C ccl (show_bword w) = Some (bword_words w)"
proof -
  obtain k where n: "n = Suc (Suc k)" "groups w \<le> k" using assms(3) by (cases n; cases "n - 1") auto
  have "passes (Suc k) (\<lambda>x. try_expand_one (Suc (length x)) (xpandbraces (Suc k) C ccl) C ccl x 0) (map show_bword [w]) =
      Some (concat (map bword_words [w]))"
    using assms(1,2) n(2) by (intro passes_words try_expand_group) auto
  moreover have "bword_words w = [show_bword w]" if "first_group w = None"
    using that words_plain first_group_None by simp
  ultimately show ?thesis
    using assms(1,2) by (auto simp: n(1) zsh_braces_def hasbraces_word simp del: passes.simps)
qed

definition zsh_conf :: brace_conf where
  "zsh_conf = \<lparr>b_bash_mode = False, b_sh_mode = False, b_ksh93_mode = False, b_pdksh_family = False,
     b_posix_faithful = False, b_untokenize = (\<lambda>t. t), b_endpoint = (\<lambda>t. case t of [c] \<Rightarrow> Some c | _ \<Rightarrow> None),
     b_nicechar = (\<lambda>c. [c])\<rparr>"

theorem brace_expansion_witness:
  "xpandbraces 5 zsh_conf False (97 # Inbrace # 98 # BComma # Inbrace # 49 # 46 # 46 # 51 # Outbrace # Outbrace # [99]) =
     Some (map text_of [''abc'', ''a1c'', ''a2c'', ''a3c''])"
proof -
  let ?w = "Lit 97 (Alt (More (Lit 98 Done) (Last (Range 1 3 Done))) (Lit 99 Done))"
  have "plain_char 97" "plain_char 98" "plain_char 99" "in_range 1" "in_range 3"
    by (simp_all add: plain_char_def in_range_def Inbrace_def Outbrace_def BComma_def Bnull_def)
  then have "zsh_braces zsh_conf" "wf_bword ?w" "groups ?w + 2 \<le> 5" by (simp_all add: zsh_braces_def zsh_conf_def)
  then have "xpandbraces 5 zsh_conf False (show_bword ?w) = Some (bword_words ?w)" by (rule brace_expansion)
  moreover have num: "num_text 1 = [49]" "num_text 2 = [50]" "num_text 3 = [51]"
    by (simp_all add: num_text_def text_of_def show_int_def show_nat.simps digit_chars byte_def)
  then have "show_bword ?w = 97 # Inbrace # 98 # BComma # Inbrace # 49 # 46 # 46 # 51 # Outbrace # Outbrace # [99]" by simp
  moreover have "numbers 1 3 = [1, 2, 3]" by (simp add: numbers_def upto.simps)
  then have "bword_words ?w = map text_of [''abc'', ''a1c'', ''a2c'', ''a3c'']"
    by (simp add: num text_of_def byte_def)
  ultimately show ?thesis by (simp only:)
qed

lemma walk_for_ever: "range_walk (\<lambda>v. True) step v = None"
proof (cases "range_walk (\<lambda>v. True) step v")
  case (Some vs)
  have "\<exists>x. \<not> go x" if "range_walk go step v = Some vs" for go step v vs
    using that by (rule range_walk.raw_induct [rotated]) (auto split: if_splits bind_splits)
  from this [OF Some] show ?thesis by simp
qed

text \<open>C32.  Error: a range that ends at the largest integer never stops counting: the counter wraps
  below its bound.  \<open>{9223372036854775806..9223372036854775807}\<close> has two elements.\<close>

theorem brace_range_overflows:
  assumes "zsh_braces C" "- (2 ^ 63) < m" "m < 2 ^ 63"
  shows "expand_range C pre (num_text m @ Dot # Dot # num_text (2 ^ 63 - 1)) (length (num_text m)) suf = None"
proof -
  let ?top = "num_text (2 ^ 63 - 1)" and ?c = "num_text m @ Dot # Dot # num_text (2 ^ 63 - 1)"
  have "\<not> needs_untokenize ?c" using num_not_token by (intro no_untokenize) (auto simp: list_all_iff)
  moreover have "after_dots (length (num_text m)) ?c = Some ?top" by (simp add: after_dots_def)
  moreover have "split_step C ?top = Some \<lparr>r_right = ?top, r_abs = 1, r_negative = False, r_text = [], r_raw = None\<rparr>"
    by (simp add: split_step_def find_dots_none num_no_dot del: power_numeral)
  moreover have "parse_word parse_i64 (num_text i) = Some (word_of_int i)" if "- (2 ^ 63) < i" "i < 2 ^ 63" for i
    using that by (intro parse_num_wide) simp_all
  moreover have "(\<lambda>v. i64_le v (word_of_int (2 ^ 63 - 1))) = (\<lambda>v. True)"
  proof -
    have "sint v \<le> 2 ^ 63 - 1" for v :: i64 using sint_range(2) [of v] by linarith
    then show ?thesis by (simp add: i64_le_def sint_of_range)
  qed
  moreover have "i64_le (word_of_int m) (word_of_int (2 ^ 63 - 1))"
    using assms by (simp add: i64_le_def sint_of_range)
  ultimately show ?thesis
    using assms by (simp add: expand_range_def numeric_values_def zsh_braces_def walk_for_ever Let_def del: power_numeral)
qed

theorem brace_range_overflows_witness:
  "expand_range zsh_conf [] (text_of ''9223372036854775806..9223372036854775807'') 19 [] = None"
proof -
  have z: "zsh_braces zsh_conf" by (simp add: zsh_braces_def zsh_conf_def)
  have "show_nat 9223372036854775806 = ''9223372036854775806''" "show_nat 9223372036854775807 = ''9223372036854775807''"
    by (simp_all add: show_nat.simps digit_chars)
  then have "text_of ''9223372036854775806..9223372036854775807'' =
      num_text 9223372036854775806 @ Dot # Dot # num_text (2 ^ 63 - 1)" "length (num_text 9223372036854775806) = 19"
    by (simp_all add: num_text_def text_of_def show_int_def byte_def)
  then show ?thesis using brace_range_overflows [OF z, of 9223372036854775806 "[]" "[]"] by simp
qed

section \<open>Character classes\<close>

text \<open>The items of a class: the characters from \<open>a\<close> to \<open>b\<close>.\<close>

definition show_item :: "nat \<times> nat \<Rightarrow> word_text" where
  "show_item p = (case p of (a, b) \<Rightarrow> if a = b then [a] else [a, 45, b])"

definition class_char :: "nat \<Rightarrow> bool" where
  "class_char c \<longleftrightarrow> 0 < c \<and> c < 128 \<and> c \<noteq> 45"

definition class_table :: "nat set \<Rightarrow> bool list" where
  "class_table S = map (\<lambda>i. i \<in> S) [0..<256]"

lemma class_table_facts:
  "length (class_table S) = 256"
  "c < 128 \<Longrightarrow> (class_table S)[c := True] = class_table (insert c S)"
  "set_range a b (class_table S) = class_table ({a..<b} \<union> S)"
  by (auto simp: class_table_def set_range_def list_eq_iff_nth_eq nth_list_update)

lemma ascii_bytes: "list_all (\<lambda>c. 0 < c \<and> c < 128) t \<Longrightarrow> ccl_bytes t = t"
  by (induction t rule: ccl_bytes.induct) (auto simp: itok_char_def utf8_bytes_def imeta_byte_def)

lemma ccl_read:
  assumes "c < 128" "list_all (\<lambda>c. c < 128) r"
  shows "ccl_next (c # r) = Some (c, r)" "ccl_peek r = Some (case r of [] \<Rightarrow> 0 | b # _ \<Rightarrow> b)"
  using assms by (auto simp: ccl_next_def ccl_peek_def untok_byte_def split: list.split)

lemma ccl_char:
  assumes "c < 128" "c \<noteq> 45" "list_all (\<lambda>c. c < 128) r"
  shows "ccl_walk (c # r) l (class_table S) = ccl_walk r (Some c) (class_table (insert c S))"
  using assms ccl_read [OF assms(1,3)]
  by (subst ccl_walk.simps) (auto simp: class_table_facts split: option.split)

lemma ccl_dash:
  assumes "a \<le> b" "list_all (\<lambda>c. c < 128) (b # r)"
  shows "ccl_walk (45 # b # r) (Some a) (class_table S) = ccl_walk (b # r) None (class_table ({a..<b} \<union> S))"
  using assms ccl_read [of 45 "b # r"] by (subst ccl_walk.simps) (auto simp: class_table_facts)

lemma ccl_items:
  assumes "\<forall>(a, b) \<in> set items. class_char a \<and> class_char b \<and> a \<le> b"
  shows "ccl_walk (concat (map show_item items)) l (class_table S) = Some (class_table (S \<union> (\<Union>(a, b) \<in> set items. {a..b})))"
  using assms
proof (induction items arbitrary: l S)
  case Nil
  then show ?case by (subst ccl_walk.simps) simp
next
  case (Cons p items)
  obtain a b where p: "p = (a, b)" by (cases p)
  let ?r = "concat (map show_item items)"
  have r: "list_all (\<lambda>c. c < 128) ?r"
    using Cons.prems by (force simp: list_all_iff show_item_def class_char_def split: prod.splits if_splits)
  have ab: "a < 128" "a \<noteq> 45" "b < 128" "b \<noteq> 45" "a \<le> b" using Cons.prems p by (auto simp: class_char_def)
  have rest: "ccl_walk ?r l' (class_table T) = Some (class_table (T \<union> (\<Union>(a, b) \<in> set items. {a..b})))" for l' T
    using Cons by simp
  have "ccl_walk (show_item p @ ?r) l (class_table S) = ccl_walk ?r (Some b) (class_table ({a..b} \<union> S))"
  proof (cases "a = b")
    case True
    then show ?thesis using ccl_char [OF ab(1,2) r, of l S] by (simp add: p show_item_def)
  next
    case False
    have "insert b ({a..<b} \<union> insert a S) = {a..b} \<union> S" using ab(5) by auto
    then have "ccl_walk (b # ?r) None (class_table ({a..<b} \<union> insert a S)) = ccl_walk ?r (Some b) (class_table ({a..b} \<union> S))"
      using ccl_char [OF ab(3,4) r] by simp
    moreover have "ccl_walk (a # 45 # b # ?r) l (class_table S) = ccl_walk (45 # b # ?r) (Some a) (class_table (insert a S))"
      using r ab(3) by (intro ccl_char ab) simp
    moreover have "ccl_walk (45 # b # ?r) (Some a) (class_table (insert a S)) = ccl_walk (b # ?r) None (class_table ({a..<b} \<union> insert a S))"
      using r ab(3) by (intro ccl_dash ab) simp
    ultimately show ?thesis using False by (simp add: p show_item_def)
  qed
  then show ?case by (simp add: rest p Un_ac)
qed

text \<open>With \<open>BRACE_CCL\<close> a class of ASCII characters other than the dash, and of ranges of them, expands to
  one word per character, each once, in the order of the character codes, whatever the order and the
  overlaps of its items.\<close>

theorem brace_class:
  assumes "\<forall>(a, b) \<in> set items. class_char a \<and> class_char b \<and> a \<le> b"
  shows "expand_ccl pre (concat (map show_item items)) suf =
    Some (map (\<lambda>c. pre @ c # suf) (sorted_list_of_set (\<Union>(a, b) \<in> set items. {a..b})))"
proof -
  let ?S = "\<Union>(a, b) \<in> set items. {a..b}"
  have "list_all (\<lambda>c. 0 < c \<and> c < 128) (concat (map show_item items))"
    using assms by (force simp: list_all_iff show_item_def class_char_def split: prod.splits if_splits)
  then have b: "ccl_bytes (concat (map show_item items)) = concat (map show_item items)" by (rule ascii_bytes)
  have S: "c < 128" if "c \<in> ?S" for c using that assms by (force simp: class_char_def)
  have "replicate 256 False = class_table {}" by (simp add: class_table_def map_replicate_const)
  then have w: "ccl_walk (concat (map show_item items)) None (replicate 256 False) = Some (class_table ?S)"
    using ccl_items [OF assms, of None "{}"] by simp
  have "filter (\<lambda>i. class_table ?S ! i) [0..<256] = filter (\<lambda>i. i \<in> ?S) [0..<256]"
    by (rule filter_cong) (auto simp: class_table_def)
  also have "\<dots> = sorted_list_of_set (set (filter (\<lambda>i. i \<in> ?S) [0..<256]))"
    by (rule sorted_list_of_set.idem_if_sorted_distinct [symmetric])
      (intro sorted_wrt_filter, simp_all only: sorted_upt distinct_filter distinct_upt)
  also have "set (filter (\<lambda>i. i \<in> ?S) [0..<256]) = ?S" using S by fastforce
  finally have f: "filter (\<lambda>i. class_table ?S ! i) [0..<256] = sorted_list_of_set ?S" .
  have "finite ?S" by auto
  then have "c < 128" if "c \<in> set (sorted_list_of_set ?S)" for c using that S by simp
  then show ?thesis unfolding expand_ccl_def b w by (simp only: f option.map) (simp cong: map_cong)
qed

theorem brace_class_witness:
  "expand_ccl [] (text_of ''xa-cb'') [46] = Some (map text_of [''a.'', ''b.'', ''c.'', ''x.''])"
proof -
  let ?items = "[(120, 120), (97, 99), (98, 98)] :: (nat \<times> nat) list"
  have "\<forall>(a, b) \<in> set ?items. class_char a \<and> class_char b \<and> a \<le> b" by (simp add: class_char_def)
  from brace_class [OF this, of "[]" "[46]"]
  have "expand_ccl [] (concat (map show_item ?items)) [46] =
      Some (map (\<lambda>c. c # [46]) (sorted_list_of_set (\<Union>(a, b) \<in> set ?items. {a..b})))" by (simp only: append_Nil)
  moreover have "concat (map show_item ?items) = text_of ''xa-cb''" by (simp add: show_item_def text_of_def byte_def)
  moreover have u: "(\<Union>(a, b) \<in> set ?items. {a..b}) = {97, 98, 99, 120}" by auto
  have "sorted_list_of_set (\<Union>(a, b) \<in> set ?items. {a..b}) = [97, 98, 99, 120]" unfolding u by simp
  moreover have "map (\<lambda>c. c # [46]) [97, 98, 99, 120] = map text_of [''a.'', ''b.'', ''c.'', ''x.'']"
    by (simp add: text_of_def byte_def)
  ultimately show ?thesis by (simp only:)
qed

end
