(* ===== verification/Auth.thy ===== *)
theory Auth
  imports Prelude
begin

text \<open>
  Who may run which operation over HTTP: \<open>src/daemon/auth.rs\<close> and the gate at the head of
  \<open>handler_op\<close> in \<open>src/daemon/http.rs\<close>.  A request header is the text the HTTP library hands
  over, \<open>None\<close> when it is absent or not readable as ASCII.
\<close>

section \<open>Tokens and their patterns\<close>

record Token =
  label :: string
  secret :: string
  patterns :: "string list"

text \<open>The part after the last \<open>.\<close>, when there is one: \<open>rsplit_once('.')\<close>, second half.\<close>

definition after_last_dot :: "string \<Rightarrow> string option" where
  "after_last_dot s =
     (if CHR ''.'' \<in> set s then Some (rev (takeWhile (\<lambda>c. c \<noteq> CHR ''.'') (rev s))) else None)"

definition pattern_matches :: "string \<Rightarrow> string \<Rightarrow> bool" where
  "pattern_matches p scope =
     (if p = ''*'' \<or> p = scope then True
      else if (case strip_suffix ''.*'' p of
                 Some pre \<Rightarrow> (case strip_prefix pre scope of
                     Some rest \<Rightarrow> rest \<noteq> [] \<and> hd rest = CHR ''.'' | None \<Rightarrow> False)
               | None \<Rightarrow> False) then True
      else case strip_prefix ''*.'' p of
             Some suf \<Rightarrow> (case after_last_dot scope of Some verb \<Rightarrow> verb = suf | None \<Rightarrow> False)
           | None \<Rightarrow> False)"

fun scope_matches :: "string list \<Rightarrow> string \<Rightarrow> bool" where
  "scope_matches [] scope = False"
| "scope_matches (p # ps) scope = (if pattern_matches p scope then True else scope_matches ps scope)"

definition allows :: "Token \<Rightarrow> string \<Rightarrow> bool" where
  "allows t scope = (if patterns t = [] then True else scope_matches (patterns t) scope)"

definition granted_scopes :: "Token \<Rightarrow> string list" where
  "granted_scopes t = (if patterns t = [] then [''*''] else patterns t)"

definition lookup_token :: "Token list \<Rightarrow> string \<Rightarrow> Token option" where
  "lookup_token tokens s = find (\<lambda>t. secret t = s) tokens"

section \<open>The scope an operation needs\<close>

definition op_scope_table :: "(string list \<times> string) list" where
  "op_scope_table = [
     ([''cache_get'', ''cache_list'', ''cache_stats''], ''cache.read''),
     ([''cache_put'', ''cache_del''], ''cache.write''),
     ([''job_list'', ''job_output'', ''job_status'', ''job_wait''], ''job.read''),
     ([''job_submit''], ''job.write''),
     ([''job_cancel'', ''job_kill''], ''job.control''),
     ([''lock_list''], ''lock.read''),
     ([''lock_acquire'', ''lock_release'', ''lock_try_acquire''], ''lock.write''),
     ([''definitions_query'', ''definitions_kinds'', ''definitions_diff'', ''definitions_subscribe'',
       ''definitions_unsubscribe''], ''defs.read''),
     ([''definitions_emit''], ''defs.write''),
     ([''snapshot_list'', ''snapshot_diff'', ''snapshot_bisect'', ''snapshot_verify'',
       ''snapshot_pubkey''], ''snapshot.read''),
     ([''snapshot_save'', ''snapshot_load'', ''snapshot_sign'', ''snapshot_publish'', ''snapshot_pull''], ''snapshot.write''),
     ([''artifact_get'', ''artifact_get_by_digest'', ''artifact_list''], ''artifact.read''),
     ([''artifact_put''], ''artifact.write''),
     ([''artifact_gc''], ''artifact.admin''),
     ([''schedule_list''], ''schedule.read''),
     ([''schedule_add'', ''schedule_add_once'', ''schedule_remove''], ''schedule.write''),
     ([''subscribe'', ''unsubscribe'', ''subscription_set_paused''], ''event.read''),
     ([''publish''], ''event.write''),
     ([''watch_list'', ''watcher_stats''], ''watch.read''),
     ([''watch_subscribe'', ''watch_unsubscribe'', ''fpath_changed''], ''watch.write''),
     ([''list_shells''], ''shell.read''),
     ([''send'', ''notify'', ''tag'', ''untag'', ''register''], ''shell.write''),
     ([''recorder_ingest''], ''recorder.write''),
     ([''history_query''], ''history.read''),
     ([''history_append''], ''history.write''),
     ([''ask_pending'', ''ask_take''], ''ask.read''),
     ([''ask_ask'', ''ask_response'', ''ask_dismiss''], ''ask.write''),
     ([''export'', ''export_all'', ''export_catalog'', ''export_shard'', ''export_zcompdump'', ''view''], ''export.read''),
     ([''import_all'', ''import_catalog'', ''import_history'', ''import_shard'', ''import_zcompdump'',
       ''import_zwc'', ''load_script'', ''push_canonical'', ''pull_canonical'',
       ''canonical_hydrate_view'', ''diff_canonical''], ''import.write''),
     ([''info'', ''ping'', ''daemon'', ''doctor'', ''verify'', ''metrics'', ''log_stats'',
       ''config_get'', ''config_list'', ''keys'', ''complete'', ''suggest'', ''highlight'',
       ''source_resolve'', ''replay_log'', ''cmd_result'', ''cmd_started'', ''subscribe_shard''], ''meta.read''),
     ([''clean'', ''compact'', ''stats_flush'', ''log_level'', ''log_rotate'', ''config_set''], ''meta.admin'')]"

fun scope_row :: "(string list \<times> string) list \<Rightarrow> string \<Rightarrow> string" where
  "scope_row [] op = ''meta.admin''"
| "scope_row (r # rows) op = (if op \<in> set (fst r) then snd r else scope_row rows op)"

definition op_scope :: "string \<Rightarrow> string" where
  "op_scope op = scope_row op_scope_table op"

section \<open>The gate of the HTTP handler\<close>

definition is_ascii_blank :: "char \<Rightarrow> bool" where
  "is_ascii_blank c \<longleftrightarrow> byte c = 32 \<or> 9 \<le> byte c \<and> byte c \<le> 13"

definition trim_blanks :: "string \<Rightarrow> string" where
  "trim_blanks s = rev (dropWhile is_ascii_blank (rev (dropWhile is_ascii_blank s)))"

definition bearer_secret :: "string option \<Rightarrow> string" where
  "bearer_secret header =
     (let text = (case header of Some v \<Rightarrow> v | None \<Rightarrow> '''')
      in trim_blanks (case strip_prefix ''Bearer '' text of Some rest \<Rightarrow> rest | None \<Rightarrow> ''''))"

datatype gate = Unauthorized | Scope_denied string "string list" | Dispatched "Token option"

definition authorize :: "string option \<Rightarrow> Token list \<Rightarrow> unit + Token option" where
  "authorize header tokens =
     (if tokens = [] then Inr None
      else let s = bearer_secret header
           in if s = [] then Inl ()
              else (case lookup_token tokens s of Some t \<Rightarrow> Inr (Some t) | None \<Rightarrow> Inl ()))"

definition gate_op :: "string option \<Rightarrow> Token list \<Rightarrow> string \<Rightarrow> gate" where
  "gate_op header tokens op = (case authorize header tokens of
     Inl _ \<Rightarrow> Unauthorized
   | Inr None \<Rightarrow> Dispatched None
   | Inr (Some t) \<Rightarrow>
       let required = op_scope op
       in if \<not> allows t required then Scope_denied required (granted_scopes t) else Dispatched (Some t))"

section \<open>What a pattern grants\<close>

text \<open>The scopes of the table have one dot: an area before it, a verb after it.\<close>

definition area_verb :: "string \<Rightarrow> string \<Rightarrow> string \<Rightarrow> bool" where
  "area_verb scope area verb \<longleftrightarrow>
     scope = area @ ''.'' @ verb \<and> CHR ''.'' \<notin> set area \<and> CHR ''.'' \<notin> set verb"

definition one_dot :: "string \<Rightarrow> bool" where
  "one_dot s \<longleftrightarrow> (let a = takeWhile (\<lambda>c. c \<noteq> CHR ''.'') s
      in length a < length s \<and> CHR ''.'' \<notin> set (drop (length a + 1) s))"

lemma one_dot_area_verb: "one_dot s \<Longrightarrow> \<exists>area verb. area_verb s area verb"
proof -
  assume one: "one_dot s"
  let ?a = "takeWhile (\<lambda>c. c \<noteq> CHR ''.'') s"
  have "length ?a < length s" using one by (simp add: one_dot_def Let_def)
  then have "s ! length ?a = CHR ''.''" using nth_length_takeWhile by fastforce
  then have "s = ?a @ ''.'' @ drop (length ?a + 1) s"
    using \<open>length ?a < length s\<close>
    by (metis Cons_nth_drop_Suc Suc_eq_plus1 append_Cons append_Nil dropWhile_eq_drop takeWhile_dropWhile_id)
  moreover have "CHR ''.'' \<notin> set ?a" by (auto dest: set_takeWhileD)
  ultimately show ?thesis using one unfolding area_verb_def one_dot_def Let_def by blast
qed

lemma scope_row_rows: "scope_row rows op \<in> insert ''meta.admin'' (snd ` set rows)"
  by (induction rows) auto

lemma table_one_dot: "\<forall>s \<in> insert ''meta.admin'' (snd ` set op_scope_table). one_dot s"
  by (simp add: op_scope_table_def one_dot_def)

lemma op_scope_area_verb: "\<exists>area verb. area_verb (op_scope op) area verb"
  using scope_row_rows [of op_scope_table op] table_one_dot
  unfolding op_scope_def by (intro one_dot_area_verb) blast

lemma strip_prefix_Some: "strip_prefix pre s = Some r \<longleftrightarrow> s = pre @ r"
  by (auto simp: strip_prefix_def) (metis append_take_drop_id)

lemma strip_suffix_Some: "strip_suffix suf s = Some r \<longleftrightarrow> s = r @ suf"
  unfolding strip_suffix_def by (auto simp: strip_prefix_Some) (metis rev_append rev_rev_ident)+

lemma strip_cases:
  "(case strip_prefix pre s of Some r \<Rightarrow> P r | None \<Rightarrow> False) \<longleftrightarrow> (\<exists>r. s = pre @ r \<and> P r)"
  "(case strip_suffix suf s of Some r \<Rightarrow> P r | None \<Rightarrow> False) \<longleftrightarrow> (\<exists>r. s = r @ suf \<and> P r)"
  using strip_prefix_Some [of pre s] strip_suffix_Some [of suf s]
  by (auto split: option.split) (metis option.distinct(1))+

lemma after_last_dot_verb: "area_verb scope area verb \<Longrightarrow> after_last_dot scope = Some verb"
  by (auto simp: area_verb_def after_last_dot_def takeWhile_append takeWhile_eq_all_conv)

lemma dot_split:
  assumes "area_verb scope area verb" "scope = pre @ rest" "rest \<noteq> []" "hd rest = CHR ''.''"
  shows "pre = area"
proof -
  have "pre @ CHR ''.'' # tl rest = area @ CHR ''.'' # verb"
    using assms by (cases rest) (auto simp: area_verb_def)
  moreover have "CHR ''.'' \<notin> set area" "CHR ''.'' \<notin> set verb" using assms by (auto simp: area_verb_def)
  ultimately show ?thesis
    by (auto simp: append_eq_append_conv2 Cons_eq_append_conv append_eq_Cons_conv)
qed

lemma pattern_matches_scope:
  assumes "area_verb scope area verb"
  shows "pattern_matches p scope \<longleftrightarrow>
    p \<in> {''*'', area @ ''.*'', ''*.'' @ verb, area @ ''.'' @ verb}"
proof -
  have scope: "scope = area @ ''.'' @ verb" using assms by (simp add: area_verb_def)
  have area: "(\<exists>pre. p = pre @ ''.*'' \<and> (\<exists>rest. scope = pre @ rest \<and> rest \<noteq> [] \<and> hd rest = CHR ''.'')) \<longleftrightarrow>
      p = area @ ''.*''"
    using dot_split [OF assms] by (auto simp: scope)
  have "pattern_matches p scope \<longleftrightarrow> p = ''*'' \<or> p = scope \<or>
      (\<exists>pre. p = pre @ ''.*'' \<and> (\<exists>rest. scope = pre @ rest \<and> rest \<noteq> [] \<and> hd rest = CHR ''.'')) \<or>
      p = ''*.'' @ verb"
    unfolding pattern_matches_def after_last_dot_verb [OF assms] strip_cases by auto
  then show ?thesis unfolding area by (auto simp: scope)
qed

lemma scope_matches_any: "scope_matches ps scope \<longleftrightarrow> (\<exists>p \<in> set ps. pattern_matches p scope)"
  by (induction ps) auto

text \<open>C33. An HTTP operation is dispatched exactly when no token is configured, or the bearer secret is
  that of a configured token which has no pattern or has, for the area and the verb the operation
  needs, one of the four patterns \<open>*\<close>, \<open>area.*\<close>, \<open>*.verb\<close>, \<open>area.verb\<close>.\<close>

theorem gate_dispatches:
  "(\<exists>t. gate_op header tokens op = Dispatched t) \<longleftrightarrow>
     tokens = [] \<or>
     (\<exists>t area verb. bearer_secret header \<noteq> [] \<and> lookup_token tokens (bearer_secret header) = Some t \<and>
        area_verb (op_scope op) area verb \<and>
        (patterns t = [] \<or>
         (\<exists>p \<in> set (patterns t). p \<in> {''*'', area @ ''.*'', ''*.'' @ verb, area @ ''.'' @ verb})))"
proof -
  obtain area verb where av: "area_verb (op_scope op) area verb" using op_scope_area_verb by blast
  then have unique: "area_verb (op_scope op) a v \<longleftrightarrow> a = area \<and> v = verb" for a v
    using dot_split [OF av, of a "''.'' @ v"] by (auto simp: area_verb_def)
  have "allows t (op_scope op) \<longleftrightarrow> patterns t = [] \<or>
      (\<exists>p \<in> set (patterns t). p \<in> {''*'', area @ ''.*'', ''*.'' @ verb, area @ ''.'' @ verb})" for t
    unfolding allows_def scope_matches_any pattern_matches_scope [OF av] by simp
  then show ?thesis
    unfolding unique
    by (auto simp: gate_op_def authorize_def Let_def split: option.split sum.split)
qed

end
