(* ===== verification/BTree.thy ===== *)
theory BTree
  imports Prelude
begin

text \<open>
  The ordered map of the Rust standard library as the daemon uses it: an association list
  in increasing order of its keys, with the calls the modelled code makes.  The laws of a map
  hold whether or not the list is in order; what is walked in key order (\<open>values\<close>,
  \<open>keys\<close>, \<open>retain\<close>) needs the order, which every operation keeps.
\<close>

section \<open>The operations\<close>

type_synonym ('k, 'v) btree = "('k \<times> 'v) list"

definition bt_get :: "('k, 'v) btree \<Rightarrow> 'k \<Rightarrow> 'v option" where
  "bt_get m k = map_of m k"

fun bt_insert :: "'k::linorder \<Rightarrow> 'v \<Rightarrow> ('k, 'v) btree \<Rightarrow> ('k, 'v) btree" where
  "bt_insert k v [] = [(k, v)]"
| "bt_insert k v (e # m) =
     (if k < fst e then (k, v) # e # m else if k = fst e then (k, v) # m else e # bt_insert k v m)"

definition bt_retain :: "('k \<Rightarrow> 'v \<Rightarrow> bool) \<Rightarrow> ('k, 'v) btree \<Rightarrow> ('k, 'v) btree" where
  "bt_retain P m = filter (\<lambda>e. P (fst e) (snd e)) m"

definition bt_remove :: "'k \<Rightarrow> ('k, 'v) btree \<Rightarrow> ('k, 'v) btree" where
  "bt_remove k m = filter (\<lambda>e. fst e \<noteq> k) m"

text \<open>\<open>get_mut\<close> followed by an assignment through the reference.\<close>

definition bt_modify :: "'k \<Rightarrow> ('v \<Rightarrow> 'v) \<Rightarrow> ('k, 'v) btree \<Rightarrow> ('k, 'v) btree" where
  "bt_modify k f m = map (\<lambda>e. (fst e, if fst e = k then f (snd e) else snd e)) m"

text \<open>A walk that replaces every value (\<open>values_mut\<close>).\<close>

definition bt_map :: "('v \<Rightarrow> 'v) \<Rightarrow> ('k, 'v) btree \<Rightarrow> ('k, 'v) btree" where
  "bt_map f m = map (\<lambda>e. (fst e, f (snd e))) m"

definition bt_values :: "('k, 'v) btree \<Rightarrow> 'v list" where
  "bt_values m = map snd m"

definition bt_keys :: "('k, 'v) btree \<Rightarrow> 'k list" where
  "bt_keys m = map fst m"

section \<open>The laws\<close>

definition bt_ok :: "('k::linorder, 'v) btree \<Rightarrow> bool" where
  "bt_ok m \<longleftrightarrow> sorted_wrt (<) (bt_keys m)"

lemma bt_get_empty [simp]: "bt_get [] k = None"
  by (simp add: bt_get_def)

lemma bt_get_insert [simp]: "bt_get (bt_insert k v m) k' = (if k' = k then Some v else bt_get m k')"
  by (induction m) (auto simp: bt_get_def)

lemma bt_get_remove [simp]: "bt_get (bt_remove k m) k' = (if k' = k then None else bt_get m k')"
  by (induction m) (auto simp: bt_get_def bt_remove_def)

lemma bt_get_modify [simp]:
  "bt_get (bt_modify k f m) k' = (if k' = k then map_option f (bt_get m k') else bt_get m k')"
  by (induction m) (auto simp: bt_get_def bt_modify_def)

lemma bt_ok_empty [simp]: "bt_ok []"
  by (simp add: bt_ok_def bt_keys_def)

lemma keys_insert: "set (bt_keys (bt_insert k v m)) = insert k (set (bt_keys m))"
  by (induction m) (auto simp: bt_keys_def)

lemma bt_ok_insert [simp]: "bt_ok m \<Longrightarrow> bt_ok (bt_insert k v m)"
proof (induction m)
  case Nil
  then show ?case by (simp add: bt_ok_def bt_keys_def)
next
  case (Cons e m)
  then show ?case
    using keys_insert [of k v m] by (auto simp: bt_ok_def bt_keys_def)
qed

lemma sorted_keys_filter: "bt_ok m \<Longrightarrow> bt_ok (filter P m)"
  unfolding bt_ok_def bt_keys_def by (induction m) auto

lemma bt_ok_retain [simp]: "bt_ok m \<Longrightarrow> bt_ok (bt_retain P m)"
  by (simp add: bt_retain_def sorted_keys_filter)

lemma bt_ok_remove [simp]: "bt_ok m \<Longrightarrow> bt_ok (bt_remove k m)"
  by (simp add: bt_remove_def sorted_keys_filter)

lemma keys_modify [simp]: "bt_keys (bt_modify k f m) = bt_keys m"
  by (simp add: bt_keys_def bt_modify_def)

lemma bt_ok_modify [simp]: "bt_ok (bt_modify k f m) = bt_ok m"
  by (simp add: bt_ok_def)

lemma bt_ok_distinct: "bt_ok m \<Longrightarrow> distinct (bt_keys m)"
  unfolding bt_ok_def by (simp add: strict_sorted_iff)

lemma bt_get_member: "bt_ok m \<Longrightarrow> bt_get m k = Some v \<longleftrightarrow> (k, v) \<in> set m"
  using bt_ok_distinct [of m] by (simp add: bt_get_def bt_keys_def)

lemma bt_get_retain:
  "bt_ok m \<Longrightarrow> bt_get (bt_retain P m) k =
     (case bt_get m k of Some v \<Rightarrow> if P k v then Some v else None | None \<Rightarrow> None)"
proof (induction m)
  case Nil
  then show ?case by (simp add: bt_retain_def)
next
  case (Cons e m)
  then have ok: "bt_ok m" and out: "fst e \<notin> set (bt_keys m)"
    using bt_ok_distinct [of "e # m"] by (auto simp: bt_ok_def bt_keys_def)
  have "bt_get m (fst e) = None" using out by (simp add: bt_get_def bt_keys_def map_of_eq_None_iff)
  then show ?case using Cons.IH [OF ok] by (cases e) (auto simp: bt_retain_def bt_get_def)
qed

lemma bt_values_member: "bt_ok m \<Longrightarrow> v \<in> set (bt_values m) \<longleftrightarrow> (\<exists>k. bt_get m k = Some v)"
  by (force simp: bt_values_def bt_get_member)

lemma bt_get_map [simp]: "bt_get (bt_map f m) k = map_option f (bt_get m k)"
  by (induction m) (auto simp: bt_get_def bt_map_def)

lemma keys_map [simp]: "bt_keys (bt_map f m) = bt_keys m"
  by (simp add: bt_keys_def bt_map_def)

lemma bt_ok_map [simp]: "bt_ok (bt_map f m) = bt_ok m"
  by (simp add: bt_ok_def)

lemma bt_keys_member: "k \<in> set (bt_keys m) \<longleftrightarrow> bt_get m k \<noteq> None"
  by (auto simp: bt_keys_def bt_get_def map_of_eq_None_iff)

section \<open>Walks over a list of keys\<close>

lemma bt_get_remove_all [simp]:
  "bt_get (foldl (\<lambda>m n. bt_remove n m) m ns) k = (if k \<in> set ns then None else bt_get m k)"
  by (induction ns arbitrary: m) auto

lemma bt_ok_remove_all [simp]: "bt_ok m \<Longrightarrow> bt_ok (foldl (\<lambda>m n. bt_remove n m) m ns)"
  by (induction ns arbitrary: m) auto

lemma bt_ok_modify_all [simp]: "bt_ok (foldl (\<lambda>m n. bt_modify n f m) m ns) = bt_ok m"
  by (induction ns arbitrary: m) auto

lemma bt_get_modify_all:
  assumes "\<And>k v. bt_get m k = Some v \<Longrightarrow> Q k v" "\<And>k v. Q k v \<Longrightarrow> Q k (f v)"
    "bt_get (foldl (\<lambda>m n. bt_modify n f m) m ns) k = Some v"
  shows "Q k v"
  using assms(1,3)
proof (induction ns arbitrary: m)
  case (Cons n ns)
  show ?case
  proof (rule Cons.IH)
    show "bt_get (foldl (\<lambda>m n. bt_modify n f m) (bt_modify n f m) ns) k = Some v" using Cons.prems by simp
  next
    fix k v
    assume "bt_get (bt_modify n f m) k = Some v"
    then show "Q k v" using Cons.prems(1) assms(2) by (auto split: if_splits)
  qed
qed simp

end
