(* ===== verification/AskInbox.thy ===== *)
theory AskInbox
  imports BTree
begin

text \<open>
  The inbox of pending requests of the daemon, \<open>src/daemon/zask.rs\<close>: one queue per shell, with
  the operations on them.  The table of queues is a hash map in the code; the one walk over it,
  \<open>drop_expired\<close>, gives the same queues and the same count in every order, so it is the ordered
  map here.  Integers keep their width; the release build wraps them.
\<close>

section \<open>JSON values\<close>

text \<open>What the operations read of \<open>serde_json::Value\<close>.  A number that is not an integer is kept as
  its text; an object has one entry per key.\<close>

datatype json =
    Null
  | Bool bool
  | Number int
  | Real string
  | String string
  | Array "json list"
  | Object "(string \<times> json) list"

fun jget :: "json \<Rightarrow> string \<Rightarrow> json option" where
  "jget (Object kvs) k = map_of kvs k"
| "jget _ k = None"

fun as_str :: "json \<Rightarrow> string option" where
  "as_str (String s) = Some s"
| "as_str _ = None"

fun as_bool :: "json \<Rightarrow> bool option" where
  "as_bool (Bool b) = Some b"
| "as_bool _ = None"

fun as_u64 :: "json \<Rightarrow> u64 option" where
  "as_u64 (Number n) = (if 0 \<le> n \<and> n < 2 ^ 64 then Some (word_of_int n) else None)"
| "as_u64 _ = None"

fun as_array :: "json \<Rightarrow> json list option" where
  "as_array (Array xs) = Some xs"
| "as_array _ = None"

definition get_str :: "json \<Rightarrow> string \<Rightarrow> string option" where
  "get_str v k = Option.bind (jget v k) as_str"

definition get_bool :: "json \<Rightarrow> string \<Rightarrow> bool option" where
  "get_bool v k = Option.bind (jget v k) as_bool"

definition get_u64 :: "json \<Rightarrow> string \<Rightarrow> u64 option" where
  "get_u64 v k = Option.bind (jget v k) as_u64"

definition get_or_null :: "json \<Rightarrow> string \<Rightarrow> json" where
  "get_or_null v k = (case jget v k of Some x \<Rightarrow> x | None \<Rightarrow> Null)"

definition get_flag :: "json \<Rightarrow> string \<Rightarrow> bool" where
  "get_flag v k = (case get_bool v k of Some b \<Rightarrow> b | None \<Rightarrow> False)"

text \<open>\<open>ErrPayload::new(code, msg)\<close>.\<close>

type_synonym err_payload = "string \<times> string"

section \<open>Requests\<close>

datatype AskKind = Picker | Input | Dialog | Menu | Progress

definition kind_of_str :: "string \<Rightarrow> err_payload + AskKind" where
  "kind_of_str s =
     (if s = ''picker'' then Inr Picker
      else if s = ''input'' then Inr Input
      else if s = ''dialog'' then Inr Dialog
      else if s = ''menu'' then Inr Menu
      else if s = ''progress'' then Inr Progress
      else Inl (''bad_kind'',
        ''unknown ask kind `'' @ s @ ''` (try picker|input|dialog|menu|progress)''))"

fun kind_str :: "AskKind \<Rightarrow> string" where
  "kind_str Picker = ''picker''"
| "kind_str Input = ''input''"
| "kind_str Dialog = ''dialog''"
| "kind_str Menu = ''menu''"
| "kind_str Progress = ''progress''"

record AskRequest =
  request_id :: string
  from_shell :: u64
  target_shell :: u64
  kind :: AskKind
  payload :: json
  urgency :: string
  created_at_ns :: i64
  timeout_ms :: u64

record AskInbox =
  queues :: "(u64, AskRequest list) btree"
  next_request_id :: u64

section \<open>The operations\<close>

definition new_inbox :: AskInbox where
  "new_inbox = \<lparr>queues = [], next_request_id = 0\<rparr>"

definition next_id :: "AskInbox \<Rightarrow> string \<times> AskInbox" where
  "next_id ib = (let n = next_request_id ib + 1
     in (''ask-'' @ show_nat (unat n), ib\<lparr>next_request_id := n\<rparr>))"

definition queue_of :: "AskInbox \<Rightarrow> u64 \<Rightarrow> AskRequest list" where
  "queue_of ib s = (case bt_get (queues ib) s of Some q \<Rightarrow> q | None \<Rightarrow> [])"

definition push_request :: "AskRequest \<Rightarrow> AskInbox \<Rightarrow> AskInbox" where
  "push_request req ib =
     ib\<lparr>queues := bt_insert (target_shell req) (queue_of ib (target_shell req) @ [req]) (queues ib)\<rparr>"

definition pending_count :: "AskInbox \<Rightarrow> u64 \<Rightarrow> nat" where
  "pending_count ib s = (case bt_get (queues ib) s of Some q \<Rightarrow> length q | None \<Rightarrow> 0)"

definition pending :: "AskInbox \<Rightarrow> u64 \<Rightarrow> AskRequest list" where
  "pending ib s = queue_of ib s"

fun position :: "('a \<Rightarrow> bool) \<Rightarrow> 'a list \<Rightarrow> nat option" where
  "position P [] = None"
| "position P (x # xs) = (if P x then Some 0 else map_option Suc (position P xs))"

definition set_queue :: "u64 \<Rightarrow> AskRequest list \<Rightarrow> AskInbox \<Rightarrow> AskInbox" where
  "set_queue s q ib = ib\<lparr>queues := bt_modify s (\<lambda>_. q) (queues ib)\<rparr>"

text \<open>\<open>VecDeque::remove\<close>: the element at an index inside the queue, and the rest.\<close>

definition remove_at :: "u64 \<Rightarrow> AskRequest list \<Rightarrow> nat \<Rightarrow> AskInbox \<Rightarrow> AskRequest option \<times> AskInbox" where
  "remove_at s q i ib =
     (if i < length q then (Some (q ! i), set_queue s (take i q @ drop (Suc i) q) ib) else (None, ib))"

definition is_critical :: "AskRequest \<Rightarrow> bool" where
  "is_critical r \<longleftrightarrow> urgency r = ''critical''"

definition take_request :: "u64 \<Rightarrow> AskInbox \<Rightarrow> AskRequest option \<times> AskInbox" where
  "take_request s ib = (case bt_get (queues ib) s of
     None \<Rightarrow> (None, ib)
   | Some q \<Rightarrow>
       if q = [] then (None, ib)
       else remove_at s q (case position is_critical q of Some i \<Rightarrow> i | None \<Rightarrow> 0) ib)"

definition take_specific :: "u64 \<Rightarrow> string \<Rightarrow> AskInbox \<Rightarrow> AskRequest option \<times> AskInbox" where
  "take_specific s req_id ib = (case bt_get (queues ib) s of
     None \<Rightarrow> (None, ib)
   | Some q \<Rightarrow> (case position (\<lambda>r. request_id r = req_id) q of
       None \<Rightarrow> (None, ib)
     | Some i \<Rightarrow> remove_at s q i ib))"

definition dismiss :: "u64 \<Rightarrow> string \<Rightarrow> AskInbox \<Rightarrow> AskRequest option \<times> AskInbox" where
  "dismiss s req_id ib = take_specific s req_id ib"

definition clear_queue :: "u64 \<Rightarrow> AskInbox \<Rightarrow> AskRequest list \<times> AskInbox" where
  "clear_queue s ib = (case bt_get (queues ib) s of
     Some q \<Rightarrow> (q, set_queue s [] ib)
   | None \<Rightarrow> ([], ib))"

definition drop_for_shell :: "u64 \<Rightarrow> AskInbox \<Rightarrow> AskInbox" where
  "drop_for_shell s ib = ib\<lparr>queues := bt_remove s (queues ib)\<rparr>"

text \<open>The deadline is computed in \<open>i64\<close>: the timeout is reinterpreted and multiplied with
  wrap-around.\<close>

definition deadline :: "AskRequest \<Rightarrow> i64" where
  "deadline r = created_at_ns r + timeout_ms r * 1000000"

definition keeps :: "i64 \<Rightarrow> AskRequest \<Rightarrow> bool" where
  "keeps now r = (if timeout_ms r = 0 then True else \<not> i64_lt (deadline r) now)"

definition drop_expired :: "i64 \<Rightarrow> AskInbox \<Rightarrow> nat \<times> AskInbox" where
  "drop_expired now ib =
     (sum_list (map (\<lambda>q. length (filter (\<lambda>r. \<not> keeps now r) q)) (bt_values (queues ib))),
      ib\<lparr>queues := bt_map (filter (keeps now)) (queues ib)\<rparr>)"

section \<open>The interface of a queue\<close>

text \<open>What a shell relies on: the requests waiting for it as a list, an operation that adds one at
  the end, and one that takes one out and leaves the others in their order, the oldest urgent one
  when there is one and the oldest otherwise.\<close>

locale request_queue =
  fixes waiting :: "'s \<Rightarrow> 'k \<Rightarrow> 'r list"
    and put :: "'r \<Rightarrow> 's \<Rightarrow> 's"
    and addressee :: "'r \<Rightarrow> 'k"
    and get :: "'k \<Rightarrow> 's \<Rightarrow> 'r option \<times> 's"
    and urgent :: "'r \<Rightarrow> bool"
  assumes waiting_put: "waiting (put r s) k = waiting s k @ (if addressee r = k then [r] else [])"
    and get_empty: "waiting s k = [] \<Longrightarrow> get k s = (None, s)"
    and get_urgent: "waiting s k = us @ r # vs \<Longrightarrow> (\<forall>x \<in> set us. \<not> urgent x) \<Longrightarrow> urgent r \<Longrightarrow>
      fst (get k s) = Some r \<and> waiting (snd (get k s)) k = us @ vs"
    and get_plain: "waiting s k = r # vs \<Longrightarrow> (\<forall>x \<in> set (r # vs). \<not> urgent x) \<Longrightarrow>
      fst (get k s) = Some r \<and> waiting (snd (get k s)) k = vs"
    and get_other: "k' \<noteq> k \<Longrightarrow> waiting (snd (get k s)) k' = waiting s k'"
begin

fun drain :: "nat \<Rightarrow> 'k \<Rightarrow> 's \<Rightarrow> 'r list \<times> 's" where
  "drain 0 k s = ([], s)"
| "drain (Suc n) k s = (case get k s of
     (None, s1) \<Rightarrow> ([], s1)
   | (Some r, s1) \<Rightarrow> (case drain n k s1 of (rs, s2) \<Rightarrow> (r # rs, s2)))"

text \<open>The order in which requests leave.\<close>

definition leaving :: "'r list \<Rightarrow> 'r list" where
  "leaving q = filter urgent q @ filter (\<lambda>r. \<not> urgent r) q"

lemma get_step:
  assumes "waiting s k \<noteq> []"
  obtains r s1 where "get k s = (Some r, s1)" "leaving (waiting s k) = r # leaving (waiting s1 k)"
    "length (waiting s k) = Suc (length (waiting s1 k))"
proof (cases "\<exists>r \<in> set (waiting s k). urgent r")
  case True
  then obtain us r vs where q: "waiting s k = us @ r # vs" "urgent r" "\<forall>x \<in> set us. \<not> urgent x"
    using split_list_first_prop [of "waiting s k" urgent] by blast
  with get_urgent [OF q(1,3,2)] that [of r "snd (get k s)"] show ?thesis
    by (cases "get k s") (auto simp: leaving_def filter_empty_conv)
next
  case False
  then obtain r vs where q: "waiting s k = r # vs" using assms by (cases "waiting s k") auto
  with False get_plain [OF q] that [of r "snd (get k s)"] show ?thesis
    by (cases "get k s") (auto simp: leaving_def filter_empty_conv)
qed

lemma drain_leaving:
  "length (waiting s k) \<le> n \<Longrightarrow>
    fst (drain n k s) = leaving (waiting s k) \<and> waiting (snd (drain n k s)) k = []"
proof (induction n arbitrary: s)
  case 0
  then show ?case by (simp add: leaving_def)
next
  case (Suc n)
  show ?case
  proof (cases "waiting s k = []")
    case True
    then show ?thesis by (simp add: get_empty leaving_def)
  next
    case False
    then obtain r s1 where step: "get k s = (Some r, s1)" "leaving (waiting s k) = r # leaving (waiting s1 k)"
      "length (waiting s k) = Suc (length (waiting s1 k))" by (rule get_step)
    then show ?thesis using Suc.IH [of s1] Suc.prems by (auto split: prod.split)
  qed
qed

lemma drain_other: "k' \<noteq> k \<Longrightarrow> waiting (snd (drain n k s)) k' = waiting s k'"
proof (induction n arbitrary: s)
  case (Suc n)
  obtain o1 s1 where g: "get k s = (o1, s1)" by (cases "get k s")
  then have "waiting s1 k' = waiting s k'" using get_other [OF Suc.prems, of s] by simp
  then show ?case using Suc.IH [OF Suc.prems, of s1] g
    by (cases o1; cases "drain n k s1") simp_all
qed simp

end

section \<open>The inbox provides it\<close>

lemma queue_of_set: "bt_get (queues ib) s \<noteq> None \<Longrightarrow> queue_of (set_queue s q ib) s' = (if s' = s then q else queue_of ib s')"
  by (auto simp: queue_of_def set_queue_def)

lemma queue_of_push: "queue_of (push_request r ib) s = queue_of ib s @ (if target_shell r = s then [r] else [])"
  by (auto simp: queue_of_def push_request_def)

lemma queue_of_drop: "queue_of (drop_for_shell s ib) s' = (if s' = s then [] else queue_of ib s')"
  by (auto simp: queue_of_def drop_for_shell_def)

lemma queue_of_next_id [simp]: "queue_of (snd (next_id ib)) s = queue_of ib s"
  by (simp add: queue_of_def next_id_def Let_def)

lemma queue_of_get: "queue_of ib s \<noteq> [] \<Longrightarrow> bt_get (queues ib) s = Some (queue_of ib s)"
  by (auto simp: queue_of_def split: option.splits)

lemma pending_count_queue: "pending_count ib s = length (queue_of ib s)"
  by (simp add: pending_count_def queue_of_def split: option.split)

lemma position_split: "\<not> (\<exists>x \<in> set us. P x) \<Longrightarrow> P r \<Longrightarrow> position P (us @ r # vs) = Some (length us)"
  by (induction us) auto

lemma position_none: "position P q = None \<longleftrightarrow> (\<forall>x \<in> set q. \<not> P x)"
  by (induction q) auto

lemma position_some: "position P q = Some i \<Longrightarrow> i < length q \<and> P (q ! i) \<and> (\<forall>j < i. \<not> P (q ! j))"
proof (induction q arbitrary: i)
  case (Cons x q)
  then show ?case by (auto split: if_splits simp: nth_Cons less_Suc_eq_0_disj split: nat.split)
qed simp

lemma take_request_empty: "queue_of ib s = [] \<Longrightarrow> take_request s ib = (None, ib)"
  by (auto simp: take_request_def queue_of_def split: option.splits)

lemma take_request_urgent:
  assumes "queue_of ib s = us @ r # vs" "\<forall>x \<in> set us. \<not> is_critical x" "is_critical r"
  shows "take_request s ib = (Some r, set_queue s (us @ vs) ib)"
  using queue_of_get [of ib s] position_split [of us is_critical r vs] assms
  by (simp add: take_request_def remove_at_def)

lemma take_request_plain:
  assumes "queue_of ib s = r # vs" "\<forall>x \<in> set (r # vs). \<not> is_critical x"
  shows "take_request s ib = (Some r, set_queue s vs ib)"
  using queue_of_get [of ib s] assms position_none [of is_critical "r # vs"]
  by (simp add: take_request_def remove_at_def)

lemma take_request_other: "s' \<noteq> s \<Longrightarrow> queue_of (snd (take_request s ib)) s' = queue_of ib s'"
  by (auto simp: take_request_def remove_at_def queue_of_set split: option.split)

interpretation inbox: request_queue queue_of push_request target_shell take_request is_critical
proof unfold_locales
  fix ib s us r vs
  assume "queue_of ib s = us @ r # vs" "\<forall>x \<in> set us. \<not> is_critical x" "is_critical r"
  then show "fst (take_request s ib) = Some r \<and> queue_of (snd (take_request s ib)) s = us @ vs"
    using take_request_urgent [of ib s us r vs] queue_of_get [of ib s] by (simp add: queue_of_set)
next
  fix ib s r vs
  assume "queue_of ib s = r # vs" "\<forall>x \<in> set (r # vs). \<not> is_critical x"
  then show "fst (take_request s ib) = Some r \<and> queue_of (snd (take_request s ib)) s = vs"
    using take_request_plain [of ib s r vs] queue_of_get [of ib s] by (simp add: queue_of_set)
qed (simp_all add: queue_of_push take_request_empty take_request_other)

end
