(* ===== verification/PubSub.thy ===== *)
theory PubSub
  imports Prelude
begin

text \<open>
  The subscription patterns of the daemon, \<open>src/daemon/pubsub.rs\<close>: the glob matcher, the
  scopes an event comes from, and the parsing and matching of a subscription.  A Rust string is
  the list of its UTF-8 bytes.
\<close>

section \<open>The glob matcher\<close>

function glob_rec :: "string \<Rightarrow> string \<Rightarrow> bool" where
  "glob_rec [] [] = True"
| "glob_rec [] (c # str) = False"
| "glob_rec (p # pat) str =
     (if p = CHR ''*'' then
        (if glob_rec pat str then True
         else case str of [] \<Rightarrow> False | c # rest \<Rightarrow> glob_rec (p # pat) rest)
      else case str of
        [] \<Rightarrow> False
      | c # rest \<Rightarrow> if p = CHR ''?'' then glob_rec pat rest else if p = c then glob_rec pat rest else False)"
  by pat_completeness auto
termination by (relation "measure (\<lambda>(pat, str). length pat + length str)") auto

declare glob_rec.simps(3) [simp del]

definition glob_match :: "string \<Rightarrow> string \<Rightarrow> bool" where
  "glob_match pattern s = glob_rec pattern s"

section \<open>Scopes and subscriptions\<close>

record Scope =
  sc_shell_id :: u64
  sc_tags :: "string set"
  sc_user :: "string option"
  sc_job_id :: "u64 option"

definition for_job :: "u64 \<Rightarrow> Scope" where
  "for_job n = \<lparr>sc_shell_id = 0, sc_tags = {}, sc_user = None, sc_job_id = Some n\<rparr>"

definition canonical :: "Scope \<Rightarrow> string" where
  "canonical s = (case sc_job_id s of
     Some n \<Rightarrow> ''job:'' @ show_nat (unat n)
   | None \<Rightarrow> ''shell:'' @ show_nat (unat (sc_shell_id s)))"

definition matches_scope :: "Scope \<Rightarrow> string \<Rightarrow> bool" where
  "matches_scope s pat =
     (if pat = ''*'' then True
      else if (case sc_job_id s of
                 Some n \<Rightarrow> glob_match pat (''job:'' @ show_nat (unat n))
               | None \<Rightarrow> glob_match pat (''shell:'' @ show_nat (unat (sc_shell_id s)))) then True
      else if (\<exists>t \<in> sc_tags s. glob_match pat (''tag:'' @ t)) then True
      else case sc_user s of Some u \<Rightarrow> glob_match pat (''user:'' @ u) | None \<Rightarrow> False)"

record Subscription =
  sub_id :: u64
  sub_client_id :: u64
  sub_shell_id :: "u64 option"
  sub_pattern :: string
  scope_pat :: string
  topic_pat :: string
  paused :: bool

definition parse_subscription :: "u64 \<Rightarrow> u64 \<Rightarrow> string \<Rightarrow> string + Subscription" where
  "parse_subscription client_id n pattern =
     (if CHR ''.'' \<notin> set pattern then Inl (''missing `.` separator in pattern `'' @ pattern @ ''`'')
      else
        let scope = takeWhile (\<lambda>c. c \<noteq> CHR ''.'') pattern;
            topic = drop (length scope + 1) pattern
        in if scope = [] \<or> topic = [] then Inl (''empty scope or topic in `'' @ pattern @ ''`'')
           else Inr \<lparr>sub_id = n, sub_client_id = client_id, sub_shell_id = None, sub_pattern = pattern,
                     scope_pat = scope, topic_pat = topic, paused = False\<rparr>)"

definition matches_event :: "Subscription \<Rightarrow> Scope \<Rightarrow> string \<Rightarrow> bool" where
  "matches_event sub scope topic \<longleftrightarrow>
     glob_match (scope_pat sub) (canonical scope) \<and> glob_match (topic_pat sub) topic"

section \<open>What a pattern matches\<close>

text \<open>A text matches when it can be cut into one piece per pattern byte: any piece for
  \<open>*\<close>, one byte for \<open>?\<close>, the byte itself otherwise.\<close>

definition glob_piece :: "char \<Rightarrow> string \<Rightarrow> bool" where
  "glob_piece p w \<longleftrightarrow> (if p = CHR ''*'' then True else if p = CHR ''?'' then length w = 1 else w = [p])"

definition glob_cut :: "string \<Rightarrow> string \<Rightarrow> bool" where
  "glob_cut pat s \<longleftrightarrow> (\<exists>ws. list_all2 glob_piece pat ws \<and> concat ws = s)"

lemma glob_cut_Nil: "glob_cut [] s \<longleftrightarrow> s = []"
  by (auto simp: glob_cut_def)

lemma glob_cut_Cons: "glob_cut (p # pat) s \<longleftrightarrow> (\<exists>w r. s = w @ r \<and> glob_piece p w \<and> glob_cut pat r)"
proof
  assume "glob_cut (p # pat) s"
  then obtain w ws where "glob_piece p w" "list_all2 glob_piece pat ws" "s = w @ concat ws"
    by (auto simp: glob_cut_def list_all2_Cons1)
  then show "\<exists>w r. s = w @ r \<and> glob_piece p w \<and> glob_cut pat r" by (auto simp: glob_cut_def)
next
  assume "\<exists>w r. s = w @ r \<and> glob_piece p w \<and> glob_cut pat r"
  then obtain w ws where "glob_piece p w" "list_all2 glob_piece pat ws" "s = w @ concat ws"
    by (auto simp: glob_cut_def)
  then show "glob_cut (p # pat) s" by (auto simp: glob_cut_def intro!: exI [of _ "w # ws"])
qed

lemma star_cut:
  "glob_cut (CHR ''*'' # pat) [] \<longleftrightarrow> glob_cut pat []"
  "glob_cut (CHR ''*'' # pat) (c # s) \<longleftrightarrow> glob_cut pat (c # s) \<or> glob_cut (CHR ''*'' # pat) s"
  by (auto simp: glob_cut_Cons glob_piece_def Cons_eq_append_conv)

lemma byte_piece: "p \<noteq> CHR ''*'' \<Longrightarrow> glob_piece p w \<longleftrightarrow> (\<exists>c. w = [c] \<and> (p = CHR ''?'' \<or> p = c))"
  by (auto simp: glob_piece_def length_Suc_conv)

lemma byte_cut:
  assumes "p \<noteq> CHR ''*''"
  shows "\<not> glob_cut (p # pat) []"
    "glob_cut (p # pat) (c # s) \<longleftrightarrow> (p = CHR ''?'' \<or> p = c) \<and> glob_cut pat s"
proof -
  show "\<not> glob_cut (p # pat) []" using assms by (auto simp: glob_cut_Cons byte_piece)
  have "glob_cut (p # pat) (c # s)" if "p = CHR ''?'' \<or> p = c" "glob_cut pat s"
    unfolding glob_cut_Cons using that assms
    by (intro exI [of _ "[c]"] exI [of _ s]) (auto simp: byte_piece)
  then show "glob_cut (p # pat) (c # s) \<longleftrightarrow> (p = CHR ''?'' \<or> p = c) \<and> glob_cut pat s"
    using assms by (auto simp: glob_cut_Cons byte_piece)
qed

lemma glob_rec_star:
  "glob_rec (CHR ''*'' # pat) [] \<longleftrightarrow> glob_rec pat []"
  "glob_rec (CHR ''*'' # pat) (c # s) \<longleftrightarrow> glob_rec pat (c # s) \<or> glob_rec (CHR ''*'' # pat) s"
  by (simp_all add: glob_rec.simps(3) [of _ _ "[]"] glob_rec.simps(3) [of _ _ "c # s"])

lemma glob_rec_byte:
  assumes "p \<noteq> CHR ''*''"
  shows "\<not> glob_rec (p # pat) []"
    "glob_rec (p # pat) (c # s) \<longleftrightarrow> (p = CHR ''?'' \<or> p = c) \<and> glob_rec pat s"
  using assms by (simp_all add: glob_rec.simps(3))

lemma glob_rec_cut: "glob_rec pat s \<longleftrightarrow> glob_cut pat s"
proof (induction pat arbitrary: s)
  case Nil
  then show ?case by (cases s) (simp_all add: glob_cut_Nil)
next
  case (Cons p pat)
  show ?case
  proof (cases "p = CHR ''*''")
    case True
    show ?thesis unfolding True by (induction s) (simp_all add: glob_rec_star star_cut Cons.IH)
  next
    case False
    then show ?thesis by (cases s) (simp_all add: glob_rec_byte byte_cut Cons.IH)
  qed
qed

text \<open>C34. What the recursive matcher answers is the set of texts the pattern describes: those that can be
  cut into one piece per pattern byte, any bytes for \<open>*\<close>, one byte for \<open>?\<close> and the byte itself otherwise.
  It always ends.  The comment on \<open>glob_match\<close> says that \<open>?\<close> matches one character; a character of two bytes needs
  two.\<close>

theorem glob_match_language:
  "glob_match pattern s \<longleftrightarrow> (\<exists>ws. list_all2 glob_piece pattern ws \<and> concat ws = s)"
  by (simp add: glob_match_def glob_rec_cut glob_cut_def)

lemma glob_star [simp]: "glob_match ''*'' s"
  unfolding glob_match_def by (induction s) (simp_all add: glob_rec_star)

lemma glob_literal:
  assumes "CHR ''*'' \<notin> set p" "CHR ''?'' \<notin> set p"
  shows "glob_match p s \<longleftrightarrow> s = p"
  using assms unfolding glob_match_def
proof (induction p arbitrary: s)
  case Nil
  then show ?case by (cases s) simp_all
next
  case (Cons c p)
  then have "c \<noteq> CHR ''*''" "c \<noteq> CHR ''?''" by auto
  then show ?case using Cons by (cases s) (auto simp: glob_rec_byte)
qed

end
