(* ===== verification/DaemonState.thy ===== *)
theory DaemonState
  imports AskInbox PubSub
begin

text \<open>
  The state behind the daemon's mutex and the inbox, \<open>src/daemon/state.rs\<close>: connections, shell
  records, subscriptions, tags and the frames queued on each connection, and the request handlers
  of \<open>src/daemon/zask.rs\<close> and \<open>src/daemon/ops.rs\<close> that work on them.  A connection's outbound
  channel is the list of frames queued on it so far and whether its receiving end is still there.
  Times that are only displayed are left out.
\<close>

section \<open>The state\<close>

type_synonym frame = "string \<times> json"

record Session =
  client_id :: u64
  session_id :: string
  s_pid :: i32
  s_tty :: "string option"
  s_cwd :: "string option"
  s_argv0 :: "string option"
  s_shell_id :: "u64 option"
  outbound :: "frame list"
  receiving :: bool
  definitions_subscribed :: bool

record ShellRecord =
  shell_id :: u64
  r_pid :: i32
  start :: "u64 option"
  r_tty :: "string option"
  r_cwd :: "string option"
  r_argv0 :: "string option"
  tags :: "string set"

record DaemonState =
  sessions :: "(u64, Session) btree"
  next_client_id :: u64
  shells :: "(u64, ShellRecord) btree"
  shell_by_pid :: "i32 \<Rightarrow> u64 option"
  next_shell_id :: u64
  subscriptions :: "(u64, Subscription) btree"
  next_subscription_id :: u64
  config :: "string \<Rightarrow> string option"
  ask_inbox :: AskInbox

definition new_daemon :: DaemonState where
  "new_daemon = \<lparr>sessions = [], next_client_id = 1, shells = [], shell_by_pid = (\<lambda>_. None), next_shell_id = 1,
     subscriptions = [], next_subscription_id = 1, config = (\<lambda>_. None), ask_inbox = new_inbox\<rparr>"

definition shell_of :: "DaemonState \<Rightarrow> u64 \<Rightarrow> u64 option" where
  "shell_of g client = Option.bind (bt_get (sessions g) client) s_shell_id"

definition owns_subscription :: "DaemonState \<Rightarrow> u64 \<Rightarrow> Subscription \<Rightarrow> bool" where
  "owns_subscription g client sub = (case shell_of g client of
     Some shell \<Rightarrow> sub_shell_id sub = Some shell
   | None \<Rightarrow> sub_shell_id sub = None \<and> sub_client_id sub = client)"

section \<open>Connections and shell records\<close>

text \<open>The fields a connection reports replace those of the record when present.\<close>

definition overwrite :: "'a option \<Rightarrow> 'a option \<Rightarrow> 'a option" where
  "overwrite new old = (if new \<noteq> None then new else old)"

definition refresh ::
  "string option \<Rightarrow> string option \<Rightarrow> string option \<Rightarrow> ShellRecord \<Rightarrow> ShellRecord" where
  "refresh tty cwd argv0 r =
     r\<lparr>r_tty := overwrite tty (r_tty r), r_cwd := overwrite cwd (r_cwd r), r_argv0 := overwrite argv0 (r_argv0 r)\<rparr>"

definition insert_session ::
  "string \<Rightarrow> i32 \<Rightarrow> string option \<Rightarrow> string option \<Rightarrow> string option \<Rightarrow> u64 option \<Rightarrow> DaemonState
    \<Rightarrow> (u64 \<times> string) \<times> DaemonState" where
  "insert_session uuid pid tty cwd argv0 shell g =
     (let client = next_client_id g
      in ((client, uuid),
          g\<lparr>next_client_id := client + 1,
            sessions := bt_insert client
              \<lparr>client_id = client, session_id = uuid, s_pid = pid, s_tty = tty, s_cwd = cwd, s_argv0 = argv0,
               s_shell_id = shell, outbound = [], receiving = True, definitions_subscribed = False\<rparr>
              (sessions g)\<rparr>))"

definition remove_shell_locked :: "u64 \<Rightarrow> DaemonState \<Rightarrow> DaemonState" where
  "remove_shell_locked shell g =
     (let g1 = (case bt_get (shells g) shell of
                  Some r \<Rightarrow>
                    let g' = g\<lparr>shells := bt_remove shell (shells g)\<rparr>
                    in if shell_by_pid g' (r_pid r) = Some shell
                       then g'\<lparr>shell_by_pid := (shell_by_pid g')(r_pid r := None)\<rparr> else g'
                | None \<Rightarrow> g)
      in g1\<lparr>subscriptions := bt_retain (\<lambda>_ s. sub_shell_id s \<noteq> Some shell) (subscriptions g1)\<rparr>)"

text \<open>Whether the record a pid points to is joined, and the start time it learns.\<close>

definition same_process :: "u64 option \<Rightarrow> u64 option \<Rightarrow> bool" where
  "same_process old new = (case (old, new) of (Some a, Some b) \<Rightarrow> a = b | _ \<Rightarrow> True)"

definition reuse_record :: "u64 option \<Rightarrow> u64 option \<Rightarrow> DaemonState \<Rightarrow> bool \<times> DaemonState" where
  "reuse_record known new g = (case Option.bind known (bt_get (shells g)) of
     Some r \<Rightarrow>
       (case (start r, new) of
          (Some a, Some b) \<Rightarrow> (a = b, g)
        | (None, Some b) \<Rightarrow> (True, g\<lparr>shells := bt_modify (the known) (\<lambda>r. r\<lparr>start := Some b\<rparr>) (shells g)\<rparr>)
        | _ \<Rightarrow> (True, g))
   | None \<Rightarrow> (False, g))"

definition mint_shell :: "i32 \<Rightarrow> u64 option \<Rightarrow> DaemonState \<Rightarrow> u64 \<times> DaemonState" where
  "mint_shell pid new g =
     (let n = next_shell_id g
      in (n, g\<lparr>next_shell_id := n + 1,
               shell_by_pid := (shell_by_pid g)(pid \<mapsto> n),
               shells := bt_insert n
                 \<lparr>shell_id = n, r_pid = pid, start = new, r_tty = None, r_cwd = None, r_argv0 = None, tags = {}\<rparr>
                 (shells g)\<rparr>))"

text \<open>The part of the registration under the lock: the connection, its shell, and the record it
  replaced.\<close>

definition join_shell :: "i32 \<Rightarrow> u64 option \<Rightarrow> DaemonState \<Rightarrow> u64 \<times> u64 option \<times> DaemonState" where
  "join_shell pid new g =
     (let known = shell_by_pid g pid
      in case reuse_record known new g of
           (reuse, g1) \<Rightarrow>
             (case known of
                Some old \<Rightarrow>
                  if reuse then (old, None, g1)
                  else (case mint_shell pid new (remove_shell_locked old g1) of (n, g2) \<Rightarrow> (n, Some old, g2))
              | None \<Rightarrow> (case mint_shell pid new g1 of (n, g2) \<Rightarrow> (n, None, g2))))"

definition register_locked ::
  "string \<Rightarrow> i32 \<Rightarrow> u64 option \<Rightarrow> string option \<Rightarrow> string option \<Rightarrow> string option \<Rightarrow> DaemonState
    \<Rightarrow> (u64 \<times> string) \<times> u64 option \<times> DaemonState" where
  "register_locked uuid pid new tty cwd argv0 g =
     (case join_shell pid new g of
        (shell, replaced, g1) \<Rightarrow>
          (case insert_session uuid pid tty cwd argv0 (Some shell)
                  (g1\<lparr>shells := bt_modify shell (refresh tty cwd argv0) (shells g1)\<rparr>) of
             (out, g2) \<Rightarrow> (out, replaced, g2)))"

definition register_shell_session ::
  "string \<Rightarrow> i32 \<Rightarrow> u64 option \<Rightarrow> string option \<Rightarrow> string option \<Rightarrow> string option \<Rightarrow> DaemonState
    \<Rightarrow> (u64 \<times> string) \<times> DaemonState" where
  "register_shell_session uuid pid new tty cwd argv0 g =
     (case register_locked uuid pid new tty cwd argv0 g of
        (out, replaced, g1) \<Rightarrow>
          (out, case replaced of
                  Some old \<Rightarrow> g1\<lparr>ask_inbox := drop_for_shell old (ask_inbox g1)\<rparr>
                | None \<Rightarrow> g1))"

definition register_ephemeral_session ::
  "string \<Rightarrow> i32 \<Rightarrow> string option \<Rightarrow> string option \<Rightarrow> DaemonState \<Rightarrow> (u64 \<times> string) \<times> DaemonState" where
  "register_ephemeral_session uuid pid tty argv0 g = insert_session uuid pid tty None argv0 None g"

definition unregister_session :: "u64 \<Rightarrow> DaemonState \<Rightarrow> DaemonState" where
  "unregister_session client g =
     (if bt_get (sessions g) client \<noteq> None
      then g\<lparr>sessions := bt_remove client (sessions g),
             subscriptions := bt_retain (\<lambda>_ sub. sub_client_id sub \<noteq> client) (subscriptions g)\<rparr>
      else g)"

definition shell_exists :: "DaemonState \<Rightarrow> u64 \<Rightarrow> bool" where
  "shell_exists g shell \<longleftrightarrow> bt_get (shells g) shell \<noteq> None"

definition shell_ids :: "DaemonState \<Rightarrow> u64 list" where
  "shell_ids g = bt_keys (shells g)"

text \<open>\<open>kill(pid, 0)\<close> and the start time of a process are the kernel's.\<close>

definition shell_alive :: "(i32 \<Rightarrow> bool) \<Rightarrow> (i32 \<Rightarrow> u64 option) \<Rightarrow> i32 \<Rightarrow> u64 option \<Rightarrow> bool" where
  "shell_alive exists_pid started pid recorded =
     (if sint pid \<le> 0 \<or> \<not> exists_pid pid then False
      else case (recorded, if sint pid \<le> 0 then None else started pid) of
             (Some a, Some b) \<Rightarrow> a = b
           | _ \<Rightarrow> True)"

definition dead_shells :: "(i32 \<Rightarrow> u64 option \<Rightarrow> bool) \<Rightarrow> DaemonState \<Rightarrow> u64 list" where
  "dead_shells alive g =
     map shell_id (filter (\<lambda>r. \<not> alive (r_pid r) (start r)) (bt_values (shells g)))"

definition remove_shells :: "u64 list \<Rightarrow> DaemonState \<Rightarrow> DaemonState" where
  "remove_shells dead g = foldl (\<lambda>g shell. remove_shell_locked shell g) g dead"

definition drop_queues :: "u64 list \<Rightarrow> DaemonState \<Rightarrow> DaemonState" where
  "drop_queues dead g = g\<lparr>ask_inbox := foldl (\<lambda>ib shell. drop_for_shell shell ib) (ask_inbox g) dead\<rparr>"

definition reap_dead_shells_with ::
  "(i32 \<Rightarrow> u64 option \<Rightarrow> bool) \<Rightarrow> DaemonState \<Rightarrow> u64 list \<times> DaemonState" where
  "reap_dead_shells_with alive g =
     (let dead = dead_shells alive g
      in if dead = [] then ([], g) else (dead, drop_queues dead (remove_shells dead g)))"

definition update_session ::
  "u64 \<Rightarrow> string option \<Rightarrow> string option \<Rightarrow> string option \<Rightarrow> DaemonState \<Rightarrow> Session option \<times> DaemonState" where
  "update_session client cwd tty argv0 g =
     (let g1 = (case shell_of g client of
                  Some shell \<Rightarrow> g\<lparr>shells := bt_modify shell (refresh tty cwd argv0) (shells g)\<rparr>
                | None \<Rightarrow> g);
          upd = (\<lambda>s. s\<lparr>s_cwd := overwrite cwd (s_cwd s), s_tty := overwrite tty (s_tty s),
                       s_argv0 := overwrite argv0 (s_argv0 s)\<rparr>)
      in case bt_get (sessions g1) client of
           None \<Rightarrow> (None, g1)
         | Some s \<Rightarrow> (Some (upd s), g1\<lparr>sessions := bt_modify client upd (sessions g1)\<rparr>))"

section \<open>Tags and settings\<close>

definition change_tags ::
  "(string set \<Rightarrow> string set) \<Rightarrow> u64 \<Rightarrow> DaemonState \<Rightarrow> string set option \<times> DaemonState" where
  "change_tags f client g = (case shell_of g client of
     None \<Rightarrow> (None, g)
   | Some shell \<Rightarrow> (case bt_get (shells g) shell of
       None \<Rightarrow> (None, g)
     | Some r \<Rightarrow> (Some (f (tags r)), g\<lparr>shells := bt_modify shell (\<lambda>r. r\<lparr>tags := f (tags r)\<rparr>) (shells g)\<rparr>)))"

definition add_tags :: "u64 \<Rightarrow> string list \<Rightarrow> DaemonState \<Rightarrow> string set option \<times> DaemonState" where
  "add_tags client ts g = change_tags (\<lambda>old. foldl (\<lambda>a t. insert t a) old ts) client g"

definition remove_tags :: "u64 \<Rightarrow> string list \<Rightarrow> DaemonState \<Rightarrow> string set option \<times> DaemonState" where
  "remove_tags client ts g =
     change_tags (\<lambda>old. if ts = [] then {} else foldl (\<lambda>a t. a - {t}) old ts) client g"

definition shells_with_tag :: "DaemonState \<Rightarrow> string \<Rightarrow> u64 list" where
  "shells_with_tag g tag = map shell_id (filter (\<lambda>r. tag \<in> tags r) (bt_values (shells g)))"

definition config_set :: "string \<Rightarrow> string \<Rightarrow> DaemonState \<Rightarrow> string option \<times> DaemonState" where
  "config_set k v g = (config g k, g\<lparr>config := (config g)(k \<mapsto> v)\<rparr>)"

definition config_get :: "(string \<Rightarrow> string option) \<Rightarrow> (string \<Rightarrow> string) \<Rightarrow> DaemonState \<Rightarrow> string \<Rightarrow> string option" where
  "config_get env upper g k = (case config g k of Some v \<Rightarrow> Some v | None \<Rightarrow> env (''ZSHRS_'' @ upper k))"

definition set_definitions_subscribed :: "u64 \<Rightarrow> bool \<Rightarrow> DaemonState \<Rightarrow> bool option \<times> DaemonState" where
  "set_definitions_subscribed client on g = (case bt_get (sessions g) client of
     None \<Rightarrow> (None, g)
   | Some s \<Rightarrow> (Some (definitions_subscribed s),
       g\<lparr>sessions := bt_modify client (\<lambda>s. s\<lparr>definitions_subscribed := on\<rparr>) (sessions g)\<rparr>))"

end
