(* ===== verification/DaemonBus.thy ===== *)
theory DaemonBus
  imports DaemonState
begin

text \<open>
  Subscriptions, delivery and the handlers: the rest of \<open>src/daemon/state.rs\<close>, the operations on
  subscriptions, tags and targets in \<open>src/daemon/ops.rs\<close>, and the requests to the user of
  \<open>src/daemon/zask.rs\<close>.  A handler that takes the lock several times is the composition of its
  locked parts.
\<close>

section \<open>Subscriptions\<close>

definition add_subscription :: "u64 \<Rightarrow> string \<Rightarrow> DaemonState \<Rightarrow> (string + u64) \<times> DaemonState" where
  "add_subscription client pattern g =
     (let n = next_subscription_id g;
          g1 = g\<lparr>next_subscription_id := n + 1\<rparr>
      in case parse_subscription client n pattern of
           Inl e \<Rightarrow> (Inl e, g1)
         | Inr sub \<Rightarrow>
             (Inr n, g1\<lparr>subscriptions :=
                bt_insert n (sub\<lparr>sub_shell_id := shell_of g1 client\<rparr>) (subscriptions g1)\<rparr>))"

definition owned_ids :: "(Subscription \<Rightarrow> bool) \<Rightarrow> u64 \<Rightarrow> DaemonState \<Rightarrow> u64 list" where
  "owned_ids P client g =
     map sub_id (filter (\<lambda>s. P s \<and> owns_subscription g client s) (bt_values (subscriptions g)))"

definition remove_subscription_by_pattern :: "u64 \<Rightarrow> string \<Rightarrow> DaemonState \<Rightarrow> nat \<times> DaemonState" where
  "remove_subscription_by_pattern client pattern g =
     (let doomed = owned_ids (\<lambda>s. sub_pattern s = pattern) client g
      in (length doomed,
          g\<lparr>subscriptions := foldl (\<lambda>m n. bt_remove n m) (subscriptions g) doomed\<rparr>))"

definition owned :: "u64 \<Rightarrow> u64 \<Rightarrow> DaemonState \<Rightarrow> bool" where
  "owned client n g = (case bt_get (subscriptions g) n of
     Some s \<Rightarrow> owns_subscription g client s | None \<Rightarrow> False)"

definition remove_subscription_by_id :: "u64 \<Rightarrow> u64 \<Rightarrow> DaemonState \<Rightarrow> bool \<times> DaemonState" where
  "remove_subscription_by_id client n g =
     (if owned client n g then (True, g\<lparr>subscriptions := bt_remove n (subscriptions g)\<rparr>) else (False, g))"

definition list_subscriptions_for :: "DaemonState \<Rightarrow> u64 \<Rightarrow> Subscription list" where
  "list_subscriptions_for g client = filter (owns_subscription g client) (bt_values (subscriptions g))"

definition set_subscription_paused :: "u64 \<Rightarrow> u64 \<Rightarrow> bool \<Rightarrow> DaemonState \<Rightarrow> bool \<times> DaemonState" where
  "set_subscription_paused client n on g =
     (if owned client n g
      then (True, g\<lparr>subscriptions := bt_modify n (\<lambda>s. s\<lparr>paused := on\<rparr>) (subscriptions g)\<rparr>)
      else (False, g))"

definition pause_all_subscriptions :: "u64 \<Rightarrow> bool \<Rightarrow> DaemonState \<Rightarrow> nat \<times> DaemonState" where
  "pause_all_subscriptions client on g =
     (let ids = owned_ids (\<lambda>s. paused s \<noteq> on) client g
      in (length ids,
          g\<lparr>subscriptions := foldl (\<lambda>m n. bt_modify n (\<lambda>s. s\<lparr>paused := on\<rparr>) m) (subscriptions g) ids\<rparr>))"

definition origin_scope :: "DaemonState \<Rightarrow> u64 \<Rightarrow> Scope option" where
  "origin_scope g client = (case bt_get (sessions g) client of
     None \<Rightarrow> None
   | Some s \<Rightarrow> Some (case Option.bind (s_shell_id s) (bt_get (shells g)) of
       Some r \<Rightarrow> \<lparr>sc_shell_id = shell_id r, sc_tags = tags r, sc_user = None, sc_job_id = None\<rparr>
     | None \<Rightarrow> \<lparr>sc_shell_id = 0, sc_tags = {}, sc_user = None, sc_job_id = None\<rparr>))"

section \<open>Delivery\<close>

definition queue_frame :: "frame \<Rightarrow> Session \<Rightarrow> Session" where
  "queue_frame f s = (if receiving s then s\<lparr>outbound := outbound s @ [f]\<rparr> else s)"

fun publish_loop ::
  "Scope \<Rightarrow> string \<Rightarrow> frame \<Rightarrow> Subscription list \<Rightarrow> (u64, Session) btree \<Rightarrow> nat \<times> (u64, Session) btree" where
  "publish_loop origin topic f [] ss = (0, ss)"
| "publish_loop origin topic f (sub # subs) ss =
     (if paused sub then publish_loop origin topic f subs ss
      else if \<not> matches_scope origin (scope_pat sub) then publish_loop origin topic f subs ss
      else if \<not> glob_match (topic_pat sub) topic then publish_loop origin topic f subs ss
      else case bt_get ss (sub_client_id sub) of
             Some s \<Rightarrow>
               if receiving s
               then (case publish_loop origin topic f subs (bt_modify (sub_client_id sub) (queue_frame f) ss) of
                       (n, ss1) \<Rightarrow> (n + 1, ss1))
               else publish_loop origin topic f subs ss
           | None \<Rightarrow> publish_loop origin topic f subs ss)"

definition publish :: "Scope \<Rightarrow> string \<Rightarrow> frame \<Rightarrow> DaemonState \<Rightarrow> nat \<times> DaemonState" where
  "publish origin topic f g = (case publish_loop origin topic f (bt_values (subscriptions g)) (sessions g) of
     (n, ss) \<Rightarrow> (n, g\<lparr>sessions := ss\<rparr>))"

text \<open>A walk over the connections that queues the frame on those a test selects and counts those
  that took it.\<close>

definition send_where :: "(Session \<Rightarrow> bool) \<Rightarrow> frame \<Rightarrow> DaemonState \<Rightarrow> nat \<times> DaemonState" where
  "send_where P f g =
     (length (filter (\<lambda>s. P s \<and> receiving s) (bt_values (sessions g))),
      g\<lparr>sessions := bt_map (\<lambda>s. if P s then queue_frame f s else s) (sessions g)\<rparr>)"

definition send_to_shell_except :: "u64 \<Rightarrow> frame \<Rightarrow> u64 option \<Rightarrow> DaemonState \<Rightarrow> nat \<times> DaemonState" where
  "send_to_shell_except shell f except g =
     send_where (\<lambda>s. s_shell_id s = Some shell \<and> Some (client_id s) \<noteq> except) f g"

definition send_to_shell :: "u64 \<Rightarrow> frame \<Rightarrow> DaemonState \<Rightarrow> nat \<times> DaemonState" where
  "send_to_shell shell f g = send_to_shell_except shell f None g"

definition send_to :: "u64 \<Rightarrow> frame \<Rightarrow> DaemonState \<Rightarrow> bool \<times> DaemonState" where
  "send_to client f g = (case bt_get (sessions g) client of
     Some s \<Rightarrow> (receiving s, g\<lparr>sessions := bt_modify client (queue_frame f) (sessions g)\<rparr>)
   | None \<Rightarrow> (False, g))"

definition broadcast :: "frame \<Rightarrow> u64 list \<Rightarrow> DaemonState \<Rightarrow> nat \<times> DaemonState" where
  "broadcast f excluded g =
     send_where (\<lambda>s. \<not> (case s_shell_id s of Some shell \<Rightarrow> shell \<in> set excluded | None \<Rightarrow> False)) f g"

definition broadcast_to_definitions_subscribers :: "frame \<Rightarrow> DaemonState \<Rightarrow> nat \<times> DaemonState" where
  "broadcast_to_definitions_subscribers f g = send_where definitions_subscribed f g"

fun send_shells :: "frame \<Rightarrow> u64 list \<Rightarrow> DaemonState \<Rightarrow> u64 list \<times> DaemonState" where
  "send_shells f [] g = ([], g)"
| "send_shells f (shell # ss) g = (case send_to_shell shell f g of
     (n, g1) \<Rightarrow> (case send_shells f ss g1 of
       (reached, g2) \<Rightarrow> (if n > 0 then shell # reached else reached, g2)))"

definition send_tag :: "string \<Rightarrow> frame \<Rightarrow> DaemonState \<Rightarrow> u64 list \<times> DaemonState" where
  "send_tag tag f g = send_shells f (shells_with_tag g tag) g"

section \<open>Targets of a message\<close>

text \<open>The user database, the owner of a process and the daemon's own user are the system's.\<close>

record users =
  uid_of :: "string \<Rightarrow> (string + nat option)"
  process_uid :: "i32 \<Rightarrow> nat option"
  our_uid :: nat

definition user_shells :: "users \<Rightarrow> nat \<Rightarrow> u64 \<Rightarrow> DaemonState \<Rightarrow> u64 list" where
  "user_shells us uid caller g =
     map shell_id (filter (\<lambda>r. shell_id r \<noteq> caller \<and> process_uid us (r_pid r) = Some uid) (bt_values (shells g)))"

definition resolve_target ::
  "users \<Rightarrow> json \<Rightarrow> u64 \<Rightarrow> frame \<Rightarrow> DaemonState \<Rightarrow> (err_payload + u64 list) \<times> DaemonState" where
  "resolve_target us target caller f g = (case get_bool target ''all'' of
     Some True \<Rightarrow> map_prod Inr id (send_shells f (filter (\<lambda>s. s \<noteq> caller) (shell_ids g)) g)
   | Some False \<Rightarrow> (Inl (''bad_args'', ''target.all must be true if present''), g)
   | None \<Rightarrow> (case get_str target ''tag'' of
       Some tag \<Rightarrow> map_prod Inr id (send_tag tag f g)
     | None \<Rightarrow> (case get_u64 target ''shell_id'' of
         Some shell \<Rightarrow>
           if \<not> shell_exists g shell
           then (Inl (''no_shell'', ''shell_id '' @ show_nat (unat shell) @ '' not found''), g)
           else (case send_to_shell shell f g of (n, g1) \<Rightarrow> (Inr (if n > 0 then [shell] else []), g1))
       | None \<Rightarrow> (case get_str target ''user'' of
           Some user \<Rightarrow>
             (case uid_of us user of
                Inl e \<Rightarrow> (Inl (''no_user'', ''user lookup for `'' @ user @ ''` failed: '' @ e), g)
              | Inr None \<Rightarrow> (Inl (''no_user'', ''user `'' @ user @ ''` does not exist''), g)
              | Inr (Some uid) \<Rightarrow>
                  if uid \<noteq> our_uid us \<and> our_uid us \<noteq> 0
                  then (Inl (''user_mismatch'',
                         ''cross-user dispatch to `'' @ user @ ''` (uid '' @ show_nat uid @
                         '') needs a root daemon; this daemon (uid '' @ show_nat (our_uid us) @
                         '') accepts only its own uid''), g)
                  else map_prod Inr id (send_shells f (user_shells us uid caller g) g))
         | None \<Rightarrow> (Inl (''bad_args'', ''target must be one of {shell_id, tag, user, all}''), g)))))"

section \<open>The handlers of subscriptions and tags\<close>

fun parse_tag_list :: "json list \<Rightarrow> err_payload + string list" where
  "parse_tag_list [] = Inr []"
| "parse_tag_list (t # ts) = (case as_str t of
     None \<Rightarrow> Inl (''bad_args'', ''`tags` entries must be strings'')
   | Some s \<Rightarrow> (case parse_tag_list ts of Inl e \<Rightarrow> Inl e | Inr r \<Rightarrow> Inr (s # r)))"

definition parse_tags :: "json \<Rightarrow> err_payload + string list" where
  "parse_tags args = (case jget args ''tags'' of
     None \<Rightarrow> Inl (''bad_args'', ''missing `tags` array'')
   | Some v \<Rightarrow> (case as_array v of
       None \<Rightarrow> Inl (''bad_args'', ''`tags` must be an array of strings'')
     | Some arr \<Rightarrow> parse_tag_list arr))"

definition no_caller :: err_payload where
  "no_caller = (''no_shell'', ''caller is not a registered shell'')"

definition tags_answer ::
  "string set option \<times> DaemonState \<Rightarrow> (err_payload + string set) \<times> DaemonState" where
  "tags_answer a = (case a of (Some ts, g) \<Rightarrow> (Inr ts, g) | (None, g) \<Rightarrow> (Inl no_caller, g))"

definition op_tag :: "u64 \<Rightarrow> json \<Rightarrow> DaemonState \<Rightarrow> (err_payload + string set) \<times> DaemonState" where
  "op_tag client args g = (case parse_tags args of
     Inl e \<Rightarrow> (Inl e, g) | Inr ts \<Rightarrow> tags_answer (add_tags client ts g))"

definition op_untag :: "u64 \<Rightarrow> json \<Rightarrow> DaemonState \<Rightarrow> (err_payload + string set) \<times> DaemonState" where
  "op_untag client args g =
     (case (if get_flag args ''all'' then Inr [] else parse_tags args) of
        Inl e \<Rightarrow> (Inl e, g) | Inr ts \<Rightarrow> tags_answer (remove_tags client ts g))"

datatype sub_answer = Listed "Subscription list" | Subscribed u64

definition op_subscribe :: "u64 \<Rightarrow> json \<Rightarrow> DaemonState \<Rightarrow> (err_payload + sub_answer) \<times> DaemonState" where
  "op_subscribe client args g = (case get_str args ''pattern'' of
     None \<Rightarrow> (Inl (''bad_args'', ''missing `pattern`''), g)
   | Some pattern \<Rightarrow>
       if take 6 pattern = ''--list'' then (Inr (Listed (list_subscriptions_for g client)), g)
       else (case add_subscription client pattern g of
               (Inl e, g1) \<Rightarrow> (Inl (''bad_pattern'', e), g1)
             | (Inr n, g1) \<Rightarrow> (Inr (Subscribed n), g1)))"

definition op_subscription_set_paused ::
  "u64 \<Rightarrow> json \<Rightarrow> DaemonState \<Rightarrow> (err_payload + nat) \<times> DaemonState" where
  "op_subscription_set_paused client args g = (case get_bool args ''paused'' of
     None \<Rightarrow> (Inl (''bad_args'', ''missing `paused` boolean''), g)
   | Some on \<Rightarrow>
       if get_flag args ''all'' then map_prod Inr id (pause_all_subscriptions client on g)
       else (case get_u64 args ''id'' of
               Some n \<Rightarrow> (case set_subscription_paused client n on g of
                 (ok, g1) \<Rightarrow> (Inr (if ok then 1 else 0), g1))
             | None \<Rightarrow> (Inl (''bad_args'', ''specify `id` or `all: true`''), g)))"

definition op_unsubscribe :: "u64 \<Rightarrow> json \<Rightarrow> DaemonState \<Rightarrow> (err_payload + nat) \<times> DaemonState" where
  "op_unsubscribe client args g = (case get_u64 args ''id'' of
     Some n \<Rightarrow> (case remove_subscription_by_id client n g of
       (removed, g1) \<Rightarrow> (Inr (if removed then 1 else 0), g1))
   | None \<Rightarrow> (case get_str args ''pattern'' of
       None \<Rightarrow> (Inl (''bad_args'', ''missing `pattern` or `id`''), g)
     | Some pattern \<Rightarrow> map_prod Inr id (remove_subscription_by_pattern client pattern g)))"

definition op_publish :: "u64 \<Rightarrow> json \<Rightarrow> DaemonState \<Rightarrow> (err_payload + nat) \<times> DaemonState" where
  "op_publish client args g = (case get_str args ''topic'' of
     None \<Rightarrow> (Inl (''bad_args'', ''missing `topic`''), g)
   | Some topic \<Rightarrow> (case origin_scope g client of
       None \<Rightarrow> (Inl (''no_session'', ''client session not found''), g)
     | Some origin \<Rightarrow>
         map_prod Inr id (publish origin topic
           (''match'', Object [(''subscription_id'', Null), (''scope'', String (canonical origin)),
                               (''topic'', String topic), (''data'', get_or_null args ''data'')]) g)))"

section \<open>The handlers of requests to the user\<close>

definition ask_targets :: "u64 \<Rightarrow> json \<Rightarrow> DaemonState \<Rightarrow> err_payload + u64 list \<times> bool" where
  "ask_targets client target g =
     (case get_u64 target ''shell_id'' of
        Some n \<Rightarrow> Inr ([n], True)
      | None \<Rightarrow>
          if get_flag target ''self''
          then (case shell_of g client of Some s \<Rightarrow> Inr ([s], True) | None \<Rightarrow> Inl no_caller)
          else if get_flag target ''all''
          then Inr (filter (\<lambda>s. Some s \<noteq> shell_of g client) (shell_ids g), False)
          else (case get_str target ''tag'' of
                  Some tag \<Rightarrow> Inr (shells_with_tag g tag, False)
                | None \<Rightarrow> Inl (''bad_args'', ''target must specify {shell_id} | {self} | {all} | {tag}'')))"

record queued =
  q_request :: string
  q_shell :: u64
  q_count :: nat

definition ask_one ::
  "u64 \<Rightarrow> AskKind \<Rightarrow> string \<Rightarrow> json \<Rightarrow> u64 \<Rightarrow> i64 \<Rightarrow> u64 \<Rightarrow> DaemonState \<Rightarrow> queued \<times> DaemonState" where
  "ask_one caller k urg pay timeout now shell g =
     (case next_id (ask_inbox g) of
        (rid, ib) \<Rightarrow>
          (let ib1 = push_request \<lparr>request_id = rid, from_shell = caller, target_shell = shell, kind = k, payload = pay,
                           urgency = urg, created_at_ns = now, timeout_ms = timeout\<rparr> ib;
               n = pending_count ib1 shell;
               evt = (''ask:pending'', Object [(''request_id'', String rid), (''kind'', String (kind_str k)),
                       (''from_shell'', Number (uint caller)), (''target_shell'', Number (uint shell)),
                       (''urgency'', String urg), (''pending_count'', Number (int n))])
           in (\<lparr>q_request = rid, q_shell = shell, q_count = n\<rparr>,
               snd (send_to_shell shell evt (g\<lparr>ask_inbox := ib1\<rparr>)))))"

fun ask_each ::
  "u64 \<Rightarrow> AskKind \<Rightarrow> string \<Rightarrow> json \<Rightarrow> u64 \<Rightarrow> i64 \<Rightarrow> u64 list \<Rightarrow> DaemonState \<Rightarrow> queued list \<times> DaemonState" where
  "ask_each caller k urg pay timeout now [] g = ([], g)"
| "ask_each caller k urg pay timeout now (shell # ss) g =
     (if \<not> shell_exists g shell then ask_each caller k urg pay timeout now ss g
      else case ask_one caller k urg pay timeout now shell g of
             (q, g1) \<Rightarrow> (case ask_each caller k urg pay timeout now ss g1 of (qs, g2) \<Rightarrow> (q # qs, g2)))"

definition op_ask_ask :: "u64 \<Rightarrow> json \<Rightarrow> i64 \<Rightarrow> DaemonState \<Rightarrow> (err_payload + queued list) \<times> DaemonState" where
  "op_ask_ask client args now g = (case get_str args ''kind'' of
     None \<Rightarrow> (Inl (''bad_args'', ''missing `kind`''), g)
   | Some ks \<Rightarrow> (case kind_of_str ks of
       Inl e \<Rightarrow> (Inl e, g)
     | Inr k \<Rightarrow> (case ask_targets client (get_or_null args ''target'') g of
         Inl e \<Rightarrow> (Inl e, g)
       | Inr (targets, strict) \<Rightarrow>
           (case (if strict then filter (\<lambda>s. \<not> shell_exists g s) targets else []) of
              sid # _ \<Rightarrow>
                (Inl (''no_shell'', ''target shell_id '' @ show_nat (unat sid) @ '' not registered''), g)
            | [] \<Rightarrow>
                map_prod Inr id (ask_each
                  (case shell_of g client of Some s \<Rightarrow> s | None \<Rightarrow> 0) k
                  (case get_str args ''urgency'' of Some u \<Rightarrow> u | None \<Rightarrow> ''normal'')
                  (get_or_null args ''payload'')
                  (case get_u64 args ''timeout_ms'' of Some t \<Rightarrow> t | None \<Rightarrow> 3600000)
                  now targets g)))))"

definition op_ask_pending :: "u64 \<Rightarrow> json \<Rightarrow> DaemonState \<Rightarrow> err_payload + AskRequest list" where
  "op_ask_pending client args g = (case get_u64 args ''shell_id'' of
     Some s \<Rightarrow> Inr (pending (ask_inbox g) s)
   | None \<Rightarrow> (case shell_of g client of
       Some s \<Rightarrow> Inr (pending (ask_inbox g) s)
     | None \<Rightarrow> Inl no_caller))"

definition op_ask_take ::
  "u64 \<Rightarrow> json \<Rightarrow> DaemonState \<Rightarrow> (err_payload + AskRequest option \<times> nat) \<times> DaemonState" where
  "op_ask_take client args g = (case shell_of g client of
     None \<Rightarrow> (Inl no_caller, g)
   | Some shell \<Rightarrow>
       (case (case get_str args ''request_id'' of
                Some rid \<Rightarrow> take_specific shell rid (ask_inbox g)
              | None \<Rightarrow> take_request shell (ask_inbox g)) of
          (Some r, ib) \<Rightarrow> (Inr (Some r, pending_count ib shell), g\<lparr>ask_inbox := ib\<rparr>)
        | (None, ib) \<Rightarrow> (Inr (None, 0), g\<lparr>ask_inbox := ib\<rparr>)))"

definition cancelled_frame :: "AskRequest \<Rightarrow> u64 \<Rightarrow> json \<Rightarrow> frame" where
  "cancelled_frame r shell reason = (''ask:response'',
     Object [(''request_id'', String (request_id r)), (''value'', Null), (''cancelled'', Bool True),
             (''dismissed_by'', Number (uint shell)), (''reason'', reason)])"

fun tell_originators ::
  "u64 \<Rightarrow> u64 \<Rightarrow> json \<Rightarrow> AskRequest list \<Rightarrow> DaemonState \<Rightarrow> nat \<times> DaemonState" where
  "tell_originators client shell reason [] g = (0, g)"
| "tell_originators client shell reason (r # rs) g =
     (if from_shell r = 0 then tell_originators client shell reason rs g
      else case send_to_shell_except (from_shell r) (cancelled_frame r shell reason) (Some client) g of
             (n, g1) \<Rightarrow> (case tell_originators client shell reason rs g1 of
               (m, g2) \<Rightarrow> (if n > 0 then m + 1 else m, g2)))"

definition op_ask_dismiss :: "u64 \<Rightarrow> json \<Rightarrow> DaemonState \<Rightarrow> (err_payload + nat \<times> nat) \<times> DaemonState" where
  "op_ask_dismiss client args g = (case shell_of g client of
     None \<Rightarrow> (Inl no_caller, g)
   | Some shell \<Rightarrow>
       (case (if get_flag args ''all'' then Inr (clear_queue shell (ask_inbox g))
              else case get_str args ''request_id'' of
                     None \<Rightarrow> Inl (''bad_args'', ''missing `request_id` or `all`'')
                   | Some rid \<Rightarrow> (case dismiss shell rid (ask_inbox g) of
                       (Some r, ib) \<Rightarrow> Inr ([r], ib) | (None, ib) \<Rightarrow> Inr ([], ib))) of
          Inl e \<Rightarrow> (Inl e, g)
        | Inr (removed, ib) \<Rightarrow>
            (case tell_originators client shell (get_or_null args ''reason'') removed (g\<lparr>ask_inbox := ib\<rparr>) of
               (n, g1) \<Rightarrow> (Inr (length removed, n), g1))))"

definition op_ask_response :: "json \<Rightarrow> DaemonState \<Rightarrow> (err_payload + bool) \<times> DaemonState" where
  "op_ask_response args g = (case get_str args ''request_id'' of
     None \<Rightarrow> (Inl (''bad_args'', ''missing `request_id`''), g)
   | Some rid \<Rightarrow> (case get_u64 args ''from_shell'' of
       None \<Rightarrow> (Inr False, g)
     | Some orig \<Rightarrow>
         (case send_to_shell orig
            (''ask:response'', Object [(''request_id'', String rid), (''value'', get_or_null args ''value''),
                                       (''cancelled'', Bool (get_flag args ''cancelled''))]) g of
            (n, g1) \<Rightarrow>
              if n = 0
              then (Inl (''no_originator'',
                      ''originating shell '' @ show_nat (unat orig) @ '' no longer connected''), g1)
              else (Inr True, g1))))"

end
