(* ===== verification/DaemonRuns.thy ===== *)
theory DaemonRuns
  imports DaemonBus
begin

text \<open>
  The runs of the daemon: one event per part of the code that holds a lock, in any order, and the
  invariant every run keeps.  The handlers take the locks several times, so between the parts of
  one handler the parts of others may come; what a handler decided in an earlier part is an
  argument of its later event (the shells found dead, a request for a shell seen registered).
\<close>

section \<open>Events\<close>

datatype daemon_event =
    Hello_shell string i32 "u64 option" "string option" "string option" "string option"
  | Hello_other string i32 "string option" "string option"
  | Bye u64
  | Hang_up u64
  | Update u64 "string option" "string option" "string option"
  | Forget_records "u64 list"
  | Forget_queues "u64 list"
  | Next_id
  | Push AskRequest
  | Take u64
  | Take_specific u64 string
  | Clear u64
  | Expire i64
  | Subscribe u64 string
  | Unsubscribe_id u64 u64
  | Unsubscribe_pattern u64 string
  | Pause u64 u64 bool
  | Pause_all u64 bool
  | Add_tags u64 "string list"
  | Remove_tags u64 "string list"
  | Set_config string string
  | Set_definitions u64 bool
  | Publish Scope string frame
  | Deliver "Session \<Rightarrow> bool" frame
  | Answer u64 frame

definition on_inbox :: "(AskInbox \<Rightarrow> AskInbox) \<Rightarrow> DaemonState \<Rightarrow> DaemonState" where
  "on_inbox f g = g\<lparr>ask_inbox := f (ask_inbox g)\<rparr>"

fun run_step :: "daemon_event \<Rightarrow> DaemonState \<Rightarrow> DaemonState" where
  "run_step (Hello_shell uuid pid st tty cwd argv0) g = snd (snd (register_locked uuid pid st tty cwd argv0 g))"
| "run_step (Hello_other uuid pid tty argv0) g = snd (register_ephemeral_session uuid pid tty argv0 g)"
| "run_step (Bye client) g = unregister_session client g"
| "run_step (Hang_up client) g = g\<lparr>sessions := bt_modify client (\<lambda>s. s\<lparr>receiving := False\<rparr>) (sessions g)\<rparr>"
| "run_step (Update client cwd tty argv0) g = snd (update_session client cwd tty argv0 g)"
| "run_step (Forget_records dead) g = remove_shells dead g"
| "run_step (Forget_queues dead) g = drop_queues dead g"
| "run_step Next_id g = on_inbox (\<lambda>ib. snd (next_id ib)) g"
| "run_step (Push r) g = on_inbox (push_request r) g"
| "run_step (Take s) g = on_inbox (\<lambda>ib. snd (take_request s ib)) g"
| "run_step (Take_specific s rid) g = on_inbox (\<lambda>ib. snd (take_specific s rid ib)) g"
| "run_step (Clear s) g = on_inbox (\<lambda>ib. snd (clear_queue s ib)) g"
| "run_step (Expire now) g = on_inbox (\<lambda>ib. snd (drop_expired now ib)) g"
| "run_step (Subscribe client pattern) g = snd (add_subscription client pattern g)"
| "run_step (Unsubscribe_id client n) g = snd (remove_subscription_by_id client n g)"
| "run_step (Unsubscribe_pattern client pattern) g = snd (remove_subscription_by_pattern client pattern g)"
| "run_step (Pause client n on) g = snd (set_subscription_paused client n on g)"
| "run_step (Pause_all client on) g = snd (pause_all_subscriptions client on g)"
| "run_step (Add_tags client ts) g = snd (add_tags client ts g)"
| "run_step (Remove_tags client ts) g = snd (remove_tags client ts g)"
| "run_step (Set_config k v) g = snd (config_set k v g)"
| "run_step (Set_definitions client on) g = snd (set_definitions_subscribed client on g)"
| "run_step (Publish origin topic f) g = snd (publish origin topic f g)"
| "run_step (Deliver P f) g = snd (send_where P f g)"
| "run_step (Answer client f) g = snd (send_to client f g)"

text \<open>A connection subscribes while it is there, and a request is pushed for a shell that was
  registered when the handler looked, so for an id that has been handed out.\<close>

fun enabled :: "daemon_event \<Rightarrow> DaemonState \<Rightarrow> bool" where
  "enabled (Push r) g \<longleftrightarrow> target_shell r < next_shell_id g"
| "enabled (Subscribe client pattern) g \<longleftrightarrow> bt_get (sessions g) client \<noteq> None"
| "enabled _ g \<longleftrightarrow> True"

inductive reaches :: "nat \<Rightarrow> DaemonState \<Rightarrow> bool" where
  at_start: "reaches 0 new_daemon"
| one_more: "reaches n g \<Longrightarrow> enabled e g \<Longrightarrow> reaches (Suc n) (run_step e g)"

section \<open>The invariant\<close>

definition shells_ok :: "DaemonState \<Rightarrow> bool" where
  "shells_ok g \<longleftrightarrow> bt_ok (shells g) \<and>
     (\<forall>k r. bt_get (shells g) k = Some r \<longrightarrow>
        shell_id r = k \<and> k < next_shell_id g \<and> shell_by_pid g (r_pid r) = Some k) \<and>
     (\<forall>pid k. shell_by_pid g pid = Some k \<longrightarrow> (\<exists>r. bt_get (shells g) k = Some r \<and> r_pid r = pid))"

definition sessions_ok :: "DaemonState \<Rightarrow> bool" where
  "sessions_ok g \<longleftrightarrow> bt_ok (sessions g) \<and>
     (\<forall>k s. bt_get (sessions g) k = Some s \<longrightarrow>
        client_id s = k \<and> k < next_client_id g \<and> (\<forall>sh. s_shell_id s = Some sh \<longrightarrow> sh < next_shell_id g))"

definition subs_ok :: "DaemonState \<Rightarrow> bool" where
  "subs_ok g \<longleftrightarrow> bt_ok (subscriptions g) \<and>
     (\<forall>k sub. bt_get (subscriptions g) k = Some sub \<longrightarrow>
        sub_id sub = k \<and> k < next_subscription_id g \<and>
        (\<exists>s. bt_get (sessions g) (sub_client_id sub) = Some s \<and> s_shell_id s = sub_shell_id sub))"

definition inbox_ok :: "DaemonState \<Rightarrow> bool" where
  "inbox_ok g \<longleftrightarrow> bt_ok (queues (ask_inbox g)) \<and>
     (\<forall>k. \<forall>r \<in> set (queue_of (ask_inbox g) k). target_shell r = k \<and> k < next_shell_id g)"

definition counters_ok :: "nat \<Rightarrow> DaemonState \<Rightarrow> bool" where
  "counters_ok n g \<longleftrightarrow> unat (next_client_id g) \<le> Suc n \<and> unat (next_shell_id g) \<le> Suc n \<and>
     unat (next_subscription_id g) \<le> Suc n"

definition daemon_ok :: "nat \<Rightarrow> DaemonState \<Rightarrow> bool" where
  "daemon_ok n g \<longleftrightarrow> counters_ok n g \<and> shells_ok g \<and> sessions_ok g \<and> subs_ok g \<and> inbox_ok g"

section \<open>Every event keeps it\<close>

lemma word_step: "(x :: u64) < y \<Longrightarrow> unat y \<le> Suc n \<Longrightarrow> n < 2 ^ 64 - 2 \<Longrightarrow> x < y + 1"
  and word_new: "unat (y :: u64) \<le> Suc n \<Longrightarrow> n < 2 ^ 64 - 2 \<Longrightarrow> y < y + 1 \<and> unat (y + 1) \<le> Suc (Suc n)"
proof -
  have next_val: "unat (y + 1) = Suc (unat y)" if "unat y \<le> Suc n" "n < 2 ^ 64 - 2" for y :: u64 and n
    using that by (subst unat_add_lem [THEN iffD1]) simp_all
  show "x < y \<Longrightarrow> unat y \<le> Suc n \<Longrightarrow> n < 2 ^ 64 - 2 \<Longrightarrow> x < y + 1"
    using next_val [of y n] by (simp add: word_less_nat_alt)
  show "unat y \<le> Suc n \<Longrightarrow> n < 2 ^ 64 - 2 \<Longrightarrow> y < y + 1 \<and> unat (y + 1) \<le> Suc (Suc n)"
    using next_val [of y n] by (simp add: word_less_nat_alt)
qed

text \<open>What the four parts read.\<close>

lemma shells_ok_reads:
  "shells g' = shells g \<Longrightarrow> shell_by_pid g' = shell_by_pid g \<Longrightarrow> next_shell_id g' = next_shell_id g \<Longrightarrow>
    shells_ok g' = shells_ok g"
  by (simp add: shells_ok_def)

lemma sessions_ok_reads:
  "sessions g' = sessions g \<Longrightarrow> next_client_id g' = next_client_id g \<Longrightarrow> next_shell_id g' = next_shell_id g \<Longrightarrow>
    sessions_ok g' = sessions_ok g"
  by (simp add: sessions_ok_def)

lemma subs_ok_reads:
  "subscriptions g' = subscriptions g \<Longrightarrow> next_subscription_id g' = next_subscription_id g \<Longrightarrow>
    sessions g' = sessions g \<Longrightarrow> subs_ok g' = subs_ok g"
  by (simp add: subs_ok_def)

lemma inbox_ok_reads:
  "ask_inbox g' = ask_inbox g \<Longrightarrow> next_shell_id g' = next_shell_id g \<Longrightarrow> inbox_ok g' = inbox_ok g"
  by (simp add: inbox_ok_def)

lemma counters_ok_mono: "counters_ok n g \<Longrightarrow> counters_ok (Suc n) g"
  by (simp add: counters_ok_def)

lemma new_daemon_ok: "daemon_ok 0 new_daemon"
  by (simp add: daemon_ok_def counters_ok_def shells_ok_def sessions_ok_def subs_ok_def inbox_ok_def
      new_daemon_def new_inbox_def queue_of_def)

text \<open>Connections whose identity an event leaves alone.\<close>

definition same_sessions :: "DaemonState \<Rightarrow> DaemonState \<Rightarrow> bool" where
  "same_sessions g g' \<longleftrightarrow> bt_ok (sessions g) = bt_ok (sessions g') \<and>
     (\<forall>k. map_option (\<lambda>s. (client_id s, s_shell_id s)) (bt_get (sessions g') k) =
          map_option (\<lambda>s. (client_id s, s_shell_id s)) (bt_get (sessions g) k))"

lemma same_sessions_get:
  assumes "same_sessions g g'"
  shows "bt_get (sessions g') k = Some s' \<Longrightarrow>
      \<exists>s. bt_get (sessions g) k = Some s \<and> client_id s' = client_id s \<and> s_shell_id s' = s_shell_id s"
    and "bt_get (sessions g) k = Some s \<Longrightarrow>
      \<exists>s'. bt_get (sessions g') k = Some s' \<and> client_id s' = client_id s \<and> s_shell_id s' = s_shell_id s"
proof -
  have eq: "map_option (\<lambda>s. (client_id s, s_shell_id s)) (bt_get (sessions g') k) =
      map_option (\<lambda>s. (client_id s, s_shell_id s)) (bt_get (sessions g) k)"
    using assms by (simp add: same_sessions_def)
  show "bt_get (sessions g') k = Some s' \<Longrightarrow>
      \<exists>s. bt_get (sessions g) k = Some s \<and> client_id s' = client_id s \<and> s_shell_id s' = s_shell_id s"
    using eq by (cases "bt_get (sessions g) k") auto
  show "bt_get (sessions g) k = Some s \<Longrightarrow>
      \<exists>s'. bt_get (sessions g') k = Some s' \<and> client_id s' = client_id s \<and> s_shell_id s' = s_shell_id s"
    using eq by (cases "bt_get (sessions g') k") auto
qed

lemma same_sessions_ok:
  assumes "same_sessions g g'" "next_client_id g' = next_client_id g" "next_shell_id g' = next_shell_id g"
    "subscriptions g' = subscriptions g" "next_subscription_id g' = next_subscription_id g"
    "sessions_ok g" "subs_ok g"
  shows "sessions_ok g'" "subs_ok g'"
proof -
  show "sessions_ok g'"
    using assms(1,6) same_sessions_get(1) [OF assms(1)] unfolding sessions_ok_def assms(2,3)
    by (auto simp: same_sessions_def) fastforce+
  show "subs_ok g'"
    using assms(7) same_sessions_get(2) [OF assms(1)] unfolding subs_ok_def assms(4,5)
    by (auto simp: same_sessions_def) fastforce+
qed

subsection \<open>Connections\<close>

lemma insert_session_parts:
  assumes "shells_ok g" "sessions_ok g" "subs_ok g" "inbox_ok g" "unat (next_client_id g) \<le> Suc n"
    "unat (next_subscription_id g) \<le> Suc n" "unat (next_shell_id g) \<le> Suc (Suc n)" "n < 2 ^ 64 - 2"
    "\<And>sh. shell = Some sh \<Longrightarrow> sh < next_shell_id g"
  shows "daemon_ok (Suc n) (snd (insert_session uuid pid tty cwd argv0 shell g))"
proof -
  let ?g = "snd (insert_session uuid pid tty cwd argv0 shell g)"
  have fresh: "bt_get (sessions g) (next_client_id g) = None"
    using assms(2) unfolding sessions_ok_def by (metis less_irrefl not_None_eq)
  have less: "next_client_id g < next_client_id g + 1 \<and> unat (next_client_id g + 1) \<le> Suc (Suc n)"
    using assms(5,8) word_new [of "next_client_id g" n] by simp
  have "sessions_ok ?g"
    using assms(2) less assms(9) unfolding sessions_ok_def
    by (auto simp: insert_session_def Let_def intro: less_trans)
  moreover have "subs_ok ?g"
    using assms(3) fresh unfolding subs_ok_def by (fastforce simp: insert_session_def Let_def)
  ultimately show ?thesis
    using assms(1,4,6,7) less
    by (simp add: daemon_ok_def insert_session_def Let_def counters_ok_def shells_ok_def inbox_ok_def)
qed

lemma insert_session_ok:
  "daemon_ok n g \<Longrightarrow> n < 2 ^ 64 - 2 \<Longrightarrow> (\<And>sh. shell = Some sh \<Longrightarrow> sh < next_shell_id g) \<Longrightarrow>
    daemon_ok (Suc n) (snd (insert_session uuid pid tty cwd argv0 shell g))"
  by (rule insert_session_parts) (simp_all add: daemon_ok_def counters_ok_def)

lemma unregister_ok:
  assumes "daemon_ok n g"
  shows "daemon_ok (Suc n) (unregister_session client g)"
  using assms unfolding daemon_ok_def unregister_session_def sessions_ok_def subs_ok_def
  by (auto simp: counters_ok_def shells_ok_def inbox_ok_def bt_get_retain split: option.splits if_splits)

lemma change_sessions_ok:
  assumes "daemon_ok n g" "g' = g\<lparr>sessions := ss\<rparr>" "same_sessions g g'"
  shows "daemon_ok (Suc n) g'"
  using assms(1) same_sessions_ok [OF assms(3)] unfolding daemon_ok_def assms(2)
  by (auto simp: counters_ok_mono shells_ok_def inbox_ok_def counters_ok_def)

lemma modify_same:
  assumes "\<And>s. client_id (f s) = client_id s \<and> s_shell_id (f s) = s_shell_id s"
  shows "same_sessions g (g\<lparr>sessions := bt_modify k f (sessions g)\<rparr>)"
  using assms by (auto simp: same_sessions_def option.map_comp comp_def)

lemma queue_frame_same [simp]:
  "client_id (queue_frame f s) = client_id s" "s_shell_id (queue_frame f s) = s_shell_id s"
  by (simp_all add: queue_frame_def)

lemma send_where_same: "same_sessions g (snd (send_where P f g))"
  by (auto simp: same_sessions_def send_where_def option.map_comp comp_def if_distrib cong: if_cong option.map_cong)

text \<open>Whether a subscription is for an event, and whether its connection takes the frame.\<close>

definition hears :: "Scope \<Rightarrow> string \<Rightarrow> Subscription \<Rightarrow> bool" where
  "hears origin topic sub \<longleftrightarrow>
     \<not> paused sub \<and> matches_scope origin (scope_pat sub) \<and> glob_match (topic_pat sub) topic"

definition takes :: "(u64, Session) btree \<Rightarrow> Subscription \<Rightarrow> bool" where
  "takes ss sub \<longleftrightarrow> (case bt_get ss (sub_client_id sub) of Some s \<Rightarrow> receiving s | None \<Rightarrow> False)"

lemma publish_loop_step:
  "publish_loop origin topic f (sub # subs) ss =
     (if hears origin topic sub \<and> takes ss sub
      then map_prod Suc id (publish_loop origin topic f subs (bt_modify (sub_client_id sub) (queue_frame f) ss))
      else publish_loop origin topic f subs ss)"
  by (auto simp: hears_def takes_def split: option.split prod.split)

declare publish_loop.simps(2) [simp del]

lemma receiving_queue_frame [simp]: "receiving (queue_frame f s) = receiving s"
  by (simp add: queue_frame_def)

lemma takes_modify [simp]: "takes (bt_modify c (queue_frame f) ss) = takes ss"
  by (auto simp: takes_def fun_eq_iff split: option.split)

lemma publish_loop_count:
  "fst (publish_loop origin topic f subs ss) = length (filter (\<lambda>sub. hears origin topic sub \<and> takes ss sub) subs)"
  by (induction subs arbitrary: ss) (auto simp: publish_loop_step)

definition queue_frames :: "nat \<Rightarrow> frame \<Rightarrow> Session \<Rightarrow> Session" where
  "queue_frames n f s = (if receiving s then s\<lparr>outbound := outbound s @ replicate n f\<rparr> else s)"

lemma queue_frames_more [simp]: "queue_frames n f (queue_frame f s) = queue_frames (Suc n) f s"
  by (auto simp: queue_frames_def queue_frame_def)

lemma queue_frames_none [simp]: "queue_frames 0 f s = s"
  by (simp add: queue_frames_def)

lemma publish_loop_get:
  "bt_get (snd (publish_loop origin topic f subs ss)) k =
     map_option (queue_frames (length (filter (\<lambda>sub. hears origin topic sub \<and> sub_client_id sub = k) subs)) f)
       (bt_get ss k)"
proof (induction subs arbitrary: ss)
  case Nil
  then show ?case by (simp add: option.map_ident)
next
  case (Cons sub subs)
  show ?case
  proof (cases "hears origin topic sub \<and> takes ss sub")
    case True
    then show ?thesis
      by (auto simp: publish_loop_step Cons.IH option.map_comp comp_def)
  next
    case False
    then have "map_option (queue_frames (Suc n) f) (bt_get ss k) = map_option (queue_frames n f) (bt_get ss k)"
      if "hears origin topic sub" "sub_client_id sub = k" for n
      using that by (cases "bt_get ss k") (auto simp: takes_def queue_frames_def)
    then show ?thesis using False by (auto simp: publish_loop_step Cons.IH)
  qed
qed

lemma publish_loop_keys: "bt_keys (snd (publish_loop origin topic f subs ss)) = bt_keys ss"
  by (induction subs arbitrary: ss) (auto simp: publish_loop_step)

lemma publish_same: "same_sessions g (snd (publish origin topic f g))"
proof -
  let ?r = "publish_loop origin topic f (bt_values (subscriptions g)) (sessions g)"
  have "sessions (snd (publish origin topic f g)) = snd ?r"
    by (simp add: publish_def split: prod.split)
  then show ?thesis
    by (auto simp: same_sessions_def bt_ok_def publish_loop_keys publish_loop_get queue_frames_def
        option.map_comp comp_def intro!: option.map_cong)
qed

subsection \<open>Shell records\<close>

lemma remove_shell_frame [simp]:
  "sessions (remove_shell_locked k g) = sessions g" "next_client_id (remove_shell_locked k g) = next_client_id g"
  "next_shell_id (remove_shell_locked k g) = next_shell_id g" "ask_inbox (remove_shell_locked k g) = ask_inbox g"
  "next_subscription_id (remove_shell_locked k g) = next_subscription_id g"
  "subscriptions (remove_shell_locked k g) =
     bt_retain (\<lambda>_ s. sub_shell_id s \<noteq> Some k) (subscriptions g)"
  "bt_get (shells (remove_shell_locked k g)) k' = (if k' = k then None else bt_get (shells g) k')"
  by (auto simp: remove_shell_locked_def Let_def split: option.split)

lemma remove_shell_shells:
  assumes "shells_ok g"
  shows "shells_ok (remove_shell_locked k g)"
    and "shell_by_pid (remove_shell_locked k g) pid =
      (if shell_by_pid g pid = Some k then None else shell_by_pid g pid)"
proof -
  show pids: "shell_by_pid (remove_shell_locked k g) pid =
      (if shell_by_pid g pid = Some k then None else shell_by_pid g pid)" for pid
    using assms unfolding shells_ok_def
    by (auto simp: remove_shell_locked_def Let_def split: option.split) (metis option.inject option.distinct(1))+
  have "bt_ok (shells (remove_shell_locked k g))"
    using assms by (auto simp: shells_ok_def remove_shell_locked_def Let_def split: option.split)
  then show "shells_ok (remove_shell_locked k g)"
    using assms unfolding shells_ok_def by (auto simp: pids split: if_splits)
qed

lemma remove_shell_daemon:
  assumes "daemon_ok n g"
  shows "daemon_ok n (remove_shell_locked k g)"
  using assms remove_shell_shells(1) [of g k]
  by (auto simp: daemon_ok_def counters_ok_def sessions_ok_def subs_ok_def inbox_ok_def bt_get_retain
      split: option.splits if_splits)

lemma remove_shells_daemon: "daemon_ok n g \<Longrightarrow> daemon_ok n (remove_shells dead g)"
  unfolding remove_shells_def by (induction dead arbitrary: g) (simp_all add: remove_shell_daemon)

lemma mono_ok: "daemon_ok n g \<Longrightarrow> daemon_ok (Suc n) g"
  by (simp add: daemon_ok_def counters_ok_mono)

text \<open>Changing the fields of a record that are not its id and its pid.\<close>

lemma modify_shells_ok:
  assumes "daemon_ok n g" "\<And>r. shell_id (f r) = shell_id r \<and> r_pid (f r) = r_pid r"
  shows "daemon_ok n (g\<lparr>shells := bt_modify k f (shells g)\<rparr>)"
proof -
  have "shells_ok (g\<lparr>shells := bt_modify k f (shells g)\<rparr>)"
    using assms unfolding daemon_ok_def shells_ok_def by (auto split: if_splits) fastforce+
  then show ?thesis
    using assms by (simp add: daemon_ok_def counters_ok_def sessions_ok_def subs_ok_def inbox_ok_def)
qed

lemma mint_shell_ok:
  fixes new :: "u64 option"
  assumes "daemon_ok n g" "n < 2 ^ 64 - 2" "shell_by_pid g pid = None"
  defines "m \<equiv> mint_shell pid new g"
  shows "shells_ok (snd m)" "sessions_ok (snd m)" "subs_ok (snd m)" "inbox_ok (snd m)"
    "fst m = next_shell_id g" "next_shell_id g < next_shell_id (snd m)"
    "unat (next_shell_id (snd m)) \<le> Suc (Suc n)"
proof -
  note ok = assms(1) [unfolded daemon_ok_def]
  have less: "next_shell_id g < next_shell_id g + 1 \<and> unat (next_shell_id g + 1) \<le> Suc (Suc n)"
    using ok assms(2) word_new [of "next_shell_id g" n] by (simp add: counters_ok_def)
  then have later: "x < next_shell_id g \<Longrightarrow> x < next_shell_id g + 1" for x by auto
  have fresh: "bt_get (shells g) (next_shell_id g) = None"
    using ok unfolding shells_ok_def by (metis less_irrefl not_None_eq)
  show "shells_ok (snd m)"
    using ok less assms(3) fresh later unfolding shells_ok_def
    by (auto simp: m_def mint_shell_def Let_def split: if_splits) (metis option.distinct(1))+
  show "sessions_ok (snd m)"
    using ok later unfolding sessions_ok_def by (auto simp: m_def mint_shell_def Let_def)
  show "subs_ok (snd m)"
    using ok unfolding subs_ok_def by (auto simp: m_def mint_shell_def Let_def)
  show "inbox_ok (snd m)"
    using ok later unfolding inbox_ok_def by (auto simp: m_def mint_shell_def Let_def)
  show "fst m = next_shell_id g" "next_shell_id g < next_shell_id (snd m)"
    "unat (next_shell_id (snd m)) \<le> Suc (Suc n)"
    using less by (simp_all add: m_def mint_shell_def Let_def)
qed

text \<open>What a registration does with the pid: it joins the record there, or mints one with the next
  id in a state where the pid is free.\<close>

lemma join_shell_cases:
  assumes "daemon_ok n g"
  obtains (joined) k g1 r where "join_shell pid new g = (k, None, g1)" "daemon_ok n g1"
      "shell_by_pid g pid = Some k" "bt_get (shells g) k = Some r" "same_process (start r) new"
      "next_shell_id g1 = next_shell_id g"
  | (minted) g0 replaced where
      "join_shell pid new g = (fst (mint_shell pid new g0), replaced, snd (mint_shell pid new g0))"
      "daemon_ok n g0" "shell_by_pid g0 pid = None" "next_shell_id g0 = next_shell_id g"
      "sessions g0 = sessions g" "ask_inbox g0 = ask_inbox g" "next_client_id g0 = next_client_id g"
      "next_subscription_id g0 = next_subscription_id g" "replaced = shell_by_pid g pid"
      "\<And>k. shell_by_pid g pid = Some k \<Longrightarrow> \<exists>r. bt_get (shells g) k = Some r \<and> \<not> same_process (start r) new"
proof (cases "shell_by_pid g pid")
  case None
  then show ?thesis using that(2) [of g None] assms
    by (simp add: join_shell_def reuse_record_def split: prod.split)
next
  case (Some k)
  then obtain r where r: "bt_get (shells g) k = Some r" "r_pid r = pid"
    using assms unfolding daemon_ok_def shells_ok_def by blast
  show ?thesis
  proof (cases "same_process (start r) new")
    case True
    have "\<exists>g1. reuse_record (Some k) new g = (True, g1) \<and> daemon_ok n g1 \<and> next_shell_id g1 = next_shell_id g"
      using True assms r modify_shells_ok [OF assms, of "\<lambda>r. r\<lparr>start := new\<rparr>" k]
      by (auto simp: reuse_record_def same_process_def split: option.splits)
    then show ?thesis using that(1) [OF _ _ Some r(1) True] Some by (auto simp: join_shell_def Let_def)
  next
    case False
    then have "reuse_record (Some k) new g = (False, g)"
      using r by (auto simp: reuse_record_def same_process_def split: option.splits)
    then have join: "join_shell pid new g =
        (fst (mint_shell pid new (remove_shell_locked k g)), Some k, snd (mint_shell pid new (remove_shell_locked k g)))"
      by (simp add: join_shell_def Some split: prod.split)
    have free: "shell_by_pid (remove_shell_locked k g) pid = None"
      using remove_shell_shells(2) [of g k pid] assms Some by (simp add: daemon_ok_def)
    have other: "\<exists>r. bt_get (shells g) k' = Some r \<and> \<not> same_process (start r) new"
      if "shell_by_pid g pid = Some k'" for k'
      using that r False Some by simp
    show ?thesis
      by (rule that(2) [OF join remove_shell_daemon [OF assms] free]) (simp_all only: remove_shell_frame Some other)
  qed
qed

lemma register_locked_ok:
  assumes "daemon_ok n g" "n < 2 ^ 64 - 2"
  shows "daemon_ok (Suc n) (snd (snd (register_locked uuid pid new tty cwd argv0 g)))"
  using assms(1)
proof (cases rule: join_shell_cases [where pid = pid and new = new])
  case (joined k g1 r)
  have k: "k < next_shell_id g1"
    using assms(1) joined by (auto simp: daemon_ok_def shells_ok_def)
  have "daemon_ok n (g1\<lparr>shells := bt_modify k (refresh tty cwd argv0) (shells g1)\<rparr>)"
    using joined(2) by (rule modify_shells_ok) (simp add: refresh_def)
  from insert_session_ok [OF this assms(2), of "Some k" uuid pid tty cwd argv0] k joined(1)
  show ?thesis by (simp add: register_locked_def case_prod_unfold)
next
  case (minted g0 replaced)
  let ?m = "mint_shell pid new g0" and ?k = "next_shell_id g0"
  note m = mint_shell_ok [OF minted(2) assms(2) minted(3), of new]
  define g2 where "g2 = (snd ?m)\<lparr>shells := bt_modify ?k (refresh tty cwd argv0) (shells (snd ?m))\<rparr>"
  have counters: "unat (next_client_id g2) \<le> Suc n \<and> unat (next_subscription_id g2) \<le> Suc n"
    using minted(2) by (simp add: g2_def mint_shell_def Let_def daemon_ok_def counters_ok_def)
  have parts: "shells_ok g2" "sessions_ok g2" "subs_ok g2" "inbox_ok g2"
    using m(1-4) unfolding g2_def shells_ok_def sessions_ok_def subs_ok_def inbox_ok_def
    by (auto simp: refresh_def split: if_splits) fastforce+
  have k: "?k < next_shell_id g2" "unat (next_shell_id g2) \<le> Suc (Suc n)"
    using m(6,7) by (simp_all add: g2_def)
  have "daemon_ok (Suc n) (snd (insert_session uuid pid tty cwd argv0 (Some ?k) g2))"
    using parts counters k assms(2) by (intro insert_session_parts) auto
  then show ?thesis
    using minted(1) m(5) by (simp add: register_locked_def g2_def case_prod_unfold)
qed

lemma update_session_ok:
  assumes "daemon_ok n g"
  shows "daemon_ok (Suc n) (snd (update_session client cwd tty argv0 g))"
proof -
  define g1 where "g1 = (case shell_of g client of
      Some shell \<Rightarrow> g\<lparr>shells := bt_modify shell (refresh tty cwd argv0) (shells g)\<rparr> | None \<Rightarrow> g)"
  have g1: "daemon_ok n g1"
    using assms unfolding g1_def by (auto split: option.split intro!: modify_shells_ok simp: refresh_def)
  let ?upd = "\<lambda>s. s\<lparr>s_cwd := overwrite cwd (s_cwd s), s_tty := overwrite tty (s_tty s),
      s_argv0 := overwrite argv0 (s_argv0 s)\<rparr>"
  have "daemon_ok (Suc n) (g1\<lparr>sessions := bt_modify client ?upd (sessions g1)\<rparr>)"
    using g1 by (rule change_sessions_ok) (auto intro: modify_same)
  then show ?thesis
    using mono_ok [OF g1] by (simp add: update_session_def Let_def g1_def split: option.split)
qed

lemma change_tags_ok: "daemon_ok n g \<Longrightarrow> daemon_ok (Suc n) (snd (change_tags f client g))"
  by (auto simp: change_tags_def mono_ok split: option.split intro!: mono_ok modify_shells_ok)

subsection \<open>Subscriptions\<close>

lemma change_subs_ok:
  assumes "daemon_ok n g" "bt_ok m"
    "\<And>k sub. bt_get m k = Some sub \<Longrightarrow> \<exists>old. bt_get (subscriptions g) k = Some old \<and> sub_id sub = sub_id old \<and>
      sub_client_id sub = sub_client_id old \<and> sub_shell_id sub = sub_shell_id old"
  shows "daemon_ok (Suc n) (g\<lparr>subscriptions := m\<rparr>)"
proof -
  have "subs_ok (g\<lparr>subscriptions := m\<rparr>)"
    using assms unfolding daemon_ok_def subs_ok_def by simp metis
  then show ?thesis
    using assms(1) by (simp add: daemon_ok_def counters_ok_def shells_ok_def sessions_ok_def inbox_ok_def)
qed

lemma subs_of_ok: "daemon_ok n g \<Longrightarrow> bt_ok (subscriptions g)"
  by (simp add: daemon_ok_def subs_ok_def)

lemma unsubscribe_ok:
  assumes "daemon_ok n g"
  shows "daemon_ok (Suc n) (snd (remove_subscription_by_id client k g))"
    and "daemon_ok (Suc n) (snd (remove_subscription_by_pattern client pattern g))"
    and "daemon_ok (Suc n) (snd (set_subscription_paused client k on g))"
    and "daemon_ok (Suc n) (snd (pause_all_subscriptions client on g))"
proof -
  note ok = subs_of_ok [OF assms]
  show "daemon_ok (Suc n) (snd (remove_subscription_by_id client k g))"
    using assms ok by (auto simp: remove_subscription_by_id_def mono_ok split: if_splits intro!: change_subs_ok)
  show "daemon_ok (Suc n) (snd (remove_subscription_by_pattern client pattern g))"
    using assms ok by (auto simp: remove_subscription_by_pattern_def Let_def split: if_splits intro!: change_subs_ok)
  show "daemon_ok (Suc n) (snd (set_subscription_paused client k on g))"
    using assms ok by (auto simp: set_subscription_paused_def mono_ok split: if_splits intro!: change_subs_ok)
  show "daemon_ok (Suc n) (snd (pause_all_subscriptions client on g))"
    unfolding pause_all_subscriptions_def Let_def snd_conv
  proof (rule change_subs_ok [OF assms])
    fix k sub
    assume get: "bt_get (foldl (\<lambda>m n. bt_modify n (\<lambda>s. s\<lparr>paused := on\<rparr>) m) (subscriptions g)
        (owned_ids (\<lambda>s. paused s \<noteq> on) client g)) k = Some sub"
    show "\<exists>old. bt_get (subscriptions g) k = Some old \<and> sub_id sub = sub_id old \<and>
        sub_client_id sub = sub_client_id old \<and> sub_shell_id sub = sub_shell_id old"
      by (rule bt_get_modify_all [OF _ _ get, where Q = "\<lambda>k sub. \<exists>old. bt_get (subscriptions g) k = Some old \<and>
          sub_id sub = sub_id old \<and> sub_client_id sub = sub_client_id old \<and> sub_shell_id sub = sub_shell_id old"])
        auto
  qed (simp add: ok)
qed

lemma parse_subscription_fields:
  "parse_subscription client n pattern = Inr sub \<Longrightarrow> sub_id sub = n \<and> sub_client_id sub = client"
  by (auto simp: parse_subscription_def Let_def split: if_splits)

lemma add_subscription_ok:
  assumes "daemon_ok n g" "n < 2 ^ 64 - 2" "bt_get (sessions g) client \<noteq> None"
  shows "daemon_ok (Suc n) (snd (add_subscription client pattern g))"
proof -
  note ok = assms(1) [unfolded daemon_ok_def]
  let ?k = "next_subscription_id g"
  have less: "?k < ?k + 1 \<and> unat (?k + 1) \<le> Suc (Suc n)"
    using ok assms(2) word_new [of ?k n] by (simp add: counters_ok_def)
  obtain s where s: "bt_get (sessions g) client = Some s" using assms(3) by blast
  have lift: "daemon_ok (Suc n) (g\<lparr>next_subscription_id := ?k + 1, subscriptions := m\<rparr>)"
    if "subs_ok (g\<lparr>next_subscription_id := ?k + 1, subscriptions := m\<rparr>)" for m
    using ok less that
    by (auto simp: daemon_ok_def counters_ok_def shells_ok_def sessions_ok_def inbox_ok_def)
  have later: "x < ?k \<Longrightarrow> x < ?k + 1" for x using less by auto
  show ?thesis
  proof (cases "parse_subscription client ?k pattern")
    case (Inl e)
    have "subs_ok (g\<lparr>next_subscription_id := ?k + 1, subscriptions := subscriptions g\<rparr>)"
      using ok later unfolding subs_ok_def by auto
    from lift [OF this] show ?thesis by (simp add: add_subscription_def Let_def Inl)
  next
    case (Inr sub)
    let ?m = "bt_insert ?k (sub\<lparr>sub_shell_id := s_shell_id s\<rparr>) (subscriptions g)"
    have "subs_ok (g\<lparr>next_subscription_id := ?k + 1, subscriptions := ?m\<rparr>)"
      using ok later less s parse_subscription_fields [OF Inr] unfolding subs_ok_def by auto
    from lift [OF this] show ?thesis by (simp add: add_subscription_def Let_def Inr shell_of_def s)
  qed
qed

subsection \<open>The inbox\<close>

lemma on_inbox_ok:
  assumes "daemon_ok n g" "bt_ok (queues (f (ask_inbox g)))"
    "\<And>k r. r \<in> set (queue_of (f (ask_inbox g)) k) \<Longrightarrow> target_shell r = k \<and> k < next_shell_id g"
  shows "daemon_ok (Suc n) (on_inbox f g)"
  using assms
  by (auto simp: daemon_ok_def on_inbox_def counters_ok_def shells_ok_def sessions_ok_def subs_ok_def inbox_ok_def)

lemma fewer_requests_ok:
  assumes "daemon_ok n g" "bt_ok (queues (f (ask_inbox g))) = bt_ok (queues (ask_inbox g))"
    "\<And>k. set (queue_of (f (ask_inbox g)) k) \<subseteq> set (queue_of (ask_inbox g) k)"
  shows "daemon_ok (Suc n) (on_inbox f g)"
  using assms(2,3) by (intro on_inbox_ok [OF assms(1)]) (use assms(1) in \<open>auto simp: daemon_ok_def inbox_ok_def\<close>)

lemma set_take_drop: "set (take i q @ drop (Suc i) q) \<subseteq> set q"
  by (auto dest: in_set_takeD in_set_dropD)

lemma set_queue_bt [simp]: "bt_ok (queues (set_queue s q ib)) = bt_ok (queues ib)"
  by (simp add: set_queue_def)

lemma remove_at_fewer:
  "bt_get (queues ib) s = Some q \<Longrightarrow> set (queue_of (snd (remove_at s q i ib)) k) \<subseteq> set (queue_of ib k)"
  using set_take_drop [of i q] by (auto simp: remove_at_def queue_of_set) (auto simp: queue_of_def)

lemma remove_at_bt [simp]: "bt_ok (queues (snd (remove_at s q i ib))) = bt_ok (queues ib)"
  by (simp add: remove_at_def)

lemma inbox_events_ok:
  assumes "daemon_ok n g"
  shows "daemon_ok (Suc n) (on_inbox (\<lambda>ib. snd (next_id ib)) g)"
    and "daemon_ok (Suc n) (on_inbox (\<lambda>ib. snd (take_request s ib)) g)"
    and "daemon_ok (Suc n) (on_inbox (\<lambda>ib. snd (take_specific s rid ib)) g)"
    and "daemon_ok (Suc n) (on_inbox (\<lambda>ib. snd (clear_queue s ib)) g)"
    and "daemon_ok (Suc n) (on_inbox (\<lambda>ib. snd (drop_expired now ib)) g)"
proof -
  show "daemon_ok (Suc n) (on_inbox (\<lambda>ib. snd (next_id ib)) g)"
    by (rule fewer_requests_ok [OF assms]) (simp_all add: next_id_def Let_def queue_of_def)
  show "daemon_ok (Suc n) (on_inbox (\<lambda>ib. snd (take_request s ib)) g)"
    by (rule fewer_requests_ok [OF assms])
      (auto simp: take_request_def split: option.split dest!: subsetD [OF remove_at_fewer, rotated])
  show "daemon_ok (Suc n) (on_inbox (\<lambda>ib. snd (take_specific s rid ib)) g)"
    by (rule fewer_requests_ok [OF assms])
      (auto simp: take_specific_def split: option.split dest!: subsetD [OF remove_at_fewer, rotated])
  show "daemon_ok (Suc n) (on_inbox (\<lambda>ib. snd (clear_queue s ib)) g)"
    by (rule fewer_requests_ok [OF assms])
      (auto simp: clear_queue_def queue_of_set split: option.split)
  show "daemon_ok (Suc n) (on_inbox (\<lambda>ib. snd (drop_expired now ib)) g)"
    by (rule fewer_requests_ok [OF assms]) (auto simp: drop_expired_def queue_of_def split: option.splits)
qed

lemma push_ok:
  "daemon_ok n g \<Longrightarrow> target_shell r < next_shell_id g \<Longrightarrow> daemon_ok (Suc n) (on_inbox (push_request r) g)"
  by (rule on_inbox_ok) (auto simp: daemon_ok_def inbox_ok_def queue_of_push split: if_splits, auto simp: push_request_def)

lemma queue_of_drops [simp]:
  "queue_of (foldl (\<lambda>ib s. drop_for_shell s ib) ib dead) k = (if k \<in> set dead then [] else queue_of ib k)"
  by (induction dead arbitrary: ib) (auto simp: queue_of_drop)

lemma bt_ok_drops [simp]:
  "bt_ok (queues ib) \<Longrightarrow> bt_ok (queues (foldl (\<lambda>ib s. drop_for_shell s ib) ib dead))"
  by (induction dead arbitrary: ib) (simp_all add: drop_for_shell_def)

lemma drop_queues_ok:
  assumes "daemon_ok n g"
  shows "daemon_ok (Suc n) (drop_queues dead g)"
proof -
  have "daemon_ok (Suc n) (on_inbox (\<lambda>ib. foldl (\<lambda>ib s. drop_for_shell s ib) ib dead) g)"
    by (rule on_inbox_ok [OF assms]) (use assms in \<open>auto simp: daemon_ok_def inbox_ok_def split: if_splits\<close>)
  then show ?thesis by (simp add: on_inbox_def drop_queues_def)
qed

subsection \<open>All events\<close>

lemma run_step_ok:
  assumes ok: "daemon_ok n g" and e: "enabled e g" and n: "n < 2 ^ 64 - 2"
  shows "daemon_ok (Suc n) (run_step e g)"
proof (cases e)
  case (Hello_shell uuid pid st tty cwd argv0)
  then show ?thesis using register_locked_ok [OF ok n] by simp
next
  case (Hello_other uuid pid tty argv0)
  then show ?thesis
    using insert_session_ok [OF ok n, of None uuid pid tty None argv0]
    by (simp add: register_ephemeral_session_def)
next
  case (Hang_up client)
  show ?thesis unfolding Hang_up run_step.simps
    by (rule change_sessions_ok [OF ok refl]) (simp add: modify_same)
next
  case (Set_definitions client on)
  show ?thesis unfolding Set_definitions run_step.simps
    by (auto simp: set_definitions_subscribed_def mono_ok [OF ok] split: option.split
        intro!: change_sessions_ok [OF ok refl] modify_same)
next
  case (Publish origin topic f)
  have "snd (publish origin topic f g) = g\<lparr>sessions := sessions (snd (publish origin topic f g))\<rparr>"
    by (simp add: publish_def split: prod.split)
  from change_sessions_ok [OF ok this publish_same] show ?thesis by (simp add: Publish)
next
  case (Deliver P f)
  have "snd (send_where P f g) = g\<lparr>sessions := sessions (snd (send_where P f g))\<rparr>"
    by (simp add: send_where_def)
  from change_sessions_ok [OF ok this send_where_same] show ?thesis by (simp add: Deliver)
next
  case (Answer client f)
  show ?thesis unfolding Answer run_step.simps
    by (auto simp: send_to_def mono_ok [OF ok] split: option.split
        intro!: change_sessions_ok [OF ok refl] modify_same)
next
  case (Set_config k v)
  then show ?thesis using mono_ok [OF ok]
    by (simp add: config_set_def daemon_ok_def counters_ok_def shells_ok_def sessions_ok_def subs_ok_def inbox_ok_def)
qed (use e in \<open>simp_all add: unregister_ok [OF ok] update_session_ok [OF ok] remove_shells_daemon mono_ok [OF ok]
      drop_queues_ok [OF ok] inbox_events_ok [OF ok] push_ok [OF ok] add_subscription_ok [OF ok n]
      unsubscribe_ok [OF ok] add_tags_def remove_tags_def change_tags_ok [OF ok] mono_ok [OF remove_shells_daemon [OF ok]]\<close>)

lemma reaches_ok: "reaches n g \<Longrightarrow> n < 2 ^ 64 - 1 \<Longrightarrow> daemon_ok n g"
proof (induction rule: reaches.induct)
  case at_start
  then show ?case by (simp add: new_daemon_ok)
next
  case (one_more n g e)
  then show ?case by (intro run_step_ok) simp_all
qed

end
