(* ===== verification/DaemonFacts.thy ===== *)
theory DaemonFacts
  imports DaemonRuns
begin

text \<open>
  What the daemon promises about shells, subscriptions and requests, over the runs of
  \<open>DaemonRuns\<close>.  Ids are 64 bits wide and handed out in turn, so the statements about runs hold
  for the first \<open>2\<^sup>64 - 2\<close> events.
\<close>

section \<open>Records, connections and subscriptions fit together\<close>

text \<open>C35. In every state the daemon reaches, the table of process ids and the shell records are two
  views of one relation, no two records have a process id in common, and every subscription
  belongs to a connection that is there, and to the shell of that connection.\<close>

theorem registry_consistent:
  assumes "reaches n g" "n < 2 ^ 64 - 2"
  shows "(\<forall>pid k. (shell_by_pid g pid = Some k) = (\<exists>r. bt_get (shells g) k = Some r \<and> r_pid r = pid)) \<and>
    (\<forall>i sub. bt_get (subscriptions g) i = Some sub \<longrightarrow>
      (\<exists>s. bt_get (sessions g) (sub_client_id sub) = Some s \<and> s_shell_id s = sub_shell_id sub))"
  using reaches_ok [OF assms(1)] assms(2) unfolding daemon_ok_def shells_ok_def subs_ok_def by auto

section \<open>A new shell starts clean\<close>

lemma minted_fresh:
  assumes ok: "daemon_ok n g" and n: "n < 2 ^ 64 - 2" and free: "shell_by_pid g pid = None"
  shows "bt_get (shells g) (next_shell_id g) = None" "queue_of (ask_inbox g) (next_shell_id g) = []"
    "bt_get (sessions g) k = Some s \<Longrightarrow> s_shell_id s \<noteq> Some (next_shell_id g)"
    "bt_get (subscriptions g) i = Some sub \<Longrightarrow> sub_shell_id sub \<noteq> Some (next_shell_id g)"
proof -
  note parts = ok [unfolded daemon_ok_def shells_ok_def sessions_ok_def subs_ok_def inbox_ok_def]
  show "bt_get (shells g) (next_shell_id g) = None" using parts by (metis less_irrefl not_None_eq)
  show "queue_of (ask_inbox g) (next_shell_id g) = []"
    using parts by (metis less_irrefl list.set_intros(1) neq_Nil_conv)
  show sess: "s_shell_id s \<noteq> Some (next_shell_id g)" if "bt_get (sessions g) k = Some s" for k s
    using that parts by (metis less_irrefl)
  show "sub_shell_id sub \<noteq> Some (next_shell_id g)" if "bt_get (subscriptions g) i = Some sub"
    using that parts sess by metis
qed

lemma minted_shell:
  assumes "reaches n g" "n < 2 ^ 64 - 2" "register_locked uuid pid new tty cwd argv0 g = (out, replaced, g')"
    "\<And>k r. shell_by_pid g pid = Some k \<Longrightarrow> bt_get (shells g) k = Some r \<Longrightarrow> \<not> same_process (start r) new"
  obtains shell r where "shell_of g' (fst out) = Some shell" "bt_get (shells g') shell = Some r"
    "r_pid r = pid" "tags r = {}" "bt_get (shells g) shell = None" "queue_of (ask_inbox g') shell = []"
    "\<And>k s. bt_get (sessions g) k = Some s \<Longrightarrow> s_shell_id s \<noteq> Some shell"
    "\<And>i sub. bt_get (subscriptions g') i = Some sub \<Longrightarrow> sub_shell_id sub \<noteq> Some shell"
    "replaced = shell_by_pid g pid"
proof -
  have ok: "daemon_ok n g" using reaches_ok assms(1,2) by simp
  have fresh: "bt_get (shells g) (next_shell_id g) = None"
    "bt_get (sessions g) k = Some s \<Longrightarrow> s_shell_id s \<noteq> Some (next_shell_id g)" for k s
    using ok unfolding daemon_ok_def shells_ok_def sessions_ok_def by (metis less_irrefl not_None_eq)+
  from ok show ?thesis
  proof (cases rule: join_shell_cases [where pid = pid and new = new])
    case (joined k g1 r)
    then show ?thesis using assms(4) by blast
  next
    case (minted g0 old)
    note new = minted_fresh [OF minted(2) assms(2) minted(3)]
    let ?k = "next_shell_id g"
    have g': "out = (next_client_id g, uuid)" "replaced = old"
      "sessions g' = bt_insert (next_client_id g)
        \<lparr>client_id = next_client_id g, session_id = uuid, s_pid = pid, s_tty = tty, s_cwd = cwd, s_argv0 = argv0,
         s_shell_id = Some ?k, outbound = [], receiving = True, definitions_subscribed = False\<rparr> (sessions g)"
      "bt_get (shells g') ?k = Some (refresh tty cwd argv0
        \<lparr>shell_id = ?k, r_pid = pid, start = new, r_tty = None, r_cwd = None, r_argv0 = None, tags = {}\<rparr>)"
      "ask_inbox g' = ask_inbox g0" "subscriptions g' = subscriptions g0"
      using assms(3) minted
      by (auto simp: register_locked_def insert_session_def mint_shell_def Let_def)
    show ?thesis
    proof (rule that [of ?k])
      show "bt_get (shells g') ?k = Some (refresh tty cwd argv0
        \<lparr>shell_id = ?k, r_pid = pid, start = new, r_tty = None, r_cwd = None, r_argv0 = None, tags = {}\<rparr>)"
        by (fact g'(4))
    qed (use g' fresh new minted in \<open>auto simp: shell_of_def refresh_def\<close>)
  qed
qed

text \<open>C36. When a shell registers and its process id is new, or belongs to a record of another
  process, it gets a shell id no record, no connection and no subscription has, with no tags and
  an empty queue, whatever happened before, requests pushed for a shell already forgotten
  included.\<close>

theorem new_shell_is_clean:
  assumes "reaches n g" "n < 2 ^ 64 - 2" "register_locked uuid pid new tty cwd argv0 g = (out, replaced, g')"
    "\<forall>k r. shell_by_pid g pid = Some k \<and> bt_get (shells g) k = Some r \<longrightarrow> \<not> same_process (start r) new"
  shows "\<exists>shell r. shell_of g' (fst out) = Some shell \<and> bt_get (shells g') shell = Some r \<and>
    r_pid r = pid \<and> tags r = {} \<and> bt_get (shells g) shell = None \<and> queue_of (ask_inbox g') shell = [] \<and>
    (\<forall>k s. bt_get (sessions g) k = Some s \<longrightarrow> s_shell_id s \<noteq> Some shell) \<and>
    (\<forall>i sub. bt_get (subscriptions g') i = Some sub \<longrightarrow> sub_shell_id sub \<noteq> Some shell)"
proof -
  have other: "\<not> same_process (start r) new" if "shell_by_pid g pid = Some k" "bt_get (shells g) k = Some r" for k r
    using assms(4) that by blast
  show ?thesis by (rule minted_shell [OF assms(1-3) other]) blast+
qed

text \<open>A run in which a shell registers, another one of its connections subscribes, the process id is
  given to a new process, and a late request for the first shell is pushed.\<close>

definition demo_events :: "daemon_event list" where
  "demo_events = [Hello_shell ''a'' 7 (Some 1) None None None, Add_tags 1 [''x''], Subscribe 1 ''*.exit'',
     Push \<lparr>request_id = ''ask-1'', from_shell = 1, target_shell = 1, kind = Menu, payload = Null,
           urgency = ''low'', created_at_ns = 0, timeout_ms = 0\<rparr>]"

definition demo_daemon :: DaemonState where
  "demo_daemon = foldl (\<lambda>g e. run_step e g) new_daemon demo_events"

lemma reaches_run:
  "reaches n g \<Longrightarrow> (\<And>us e vs. es = us @ e # vs \<Longrightarrow> enabled e (foldl (\<lambda>g e. run_step e g) g us)) \<Longrightarrow>
    reaches (n + length es) (foldl (\<lambda>g e. run_step e g) g es)"
proof (induction es arbitrary: n g)
  case (Cons e es)
  have "reaches (Suc n) (run_step e g)" using Cons.prems(2) [of "[]"] by (intro one_more Cons.prems(1)) simp
  moreover have "enabled e' (foldl (\<lambda>g e. run_step e g) (run_step e g) us)" if "es = us @ e' # vs" for us e' vs
    using Cons.prems(2) [of "e # us" e' vs] that by simp
  ultimately show ?case using Cons.IH [of "Suc n" "run_step e g"] by simp
qed simp

lemmas demo_eval = demo_daemon_def demo_events_def new_daemon_def new_inbox_def register_locked_def join_shell_def
  reuse_record_def mint_shell_def insert_session_def add_tags_def change_tags_def shell_of_def bt_modify_def
  add_subscription_def parse_subscription_def on_inbox_def push_request_def queue_of_def bt_get_def refresh_def
  overwrite_def Let_def

lemma demo_reaches: "reaches 4 demo_daemon"
proof -
  have "reaches (0 + length demo_events) demo_daemon"
    unfolding demo_daemon_def
  proof (rule reaches_run [OF at_start])
    fix us e vs
    assume "demo_events = us @ e # vs"
    then consider "us = []" "e = hd demo_events" | "us = take 1 demo_events" "e = demo_events ! 1"
      | "us = take 2 demo_events" "e = demo_events ! 2" | "us = take 3 demo_events" "e = demo_events ! 3"
      by (auto simp: demo_events_def Cons_eq_append_conv)
    then show "enabled e (foldl (\<lambda>g e. run_step e g) new_daemon us)"
      by cases (simp_all add: demo_eval)
  qed
  then show ?thesis by (simp add: demo_events_def eval_nat_numeral)
qed

theorem registry_consistent_witness:
  "(\<forall>pid k. (shell_by_pid demo_daemon pid = Some k) = (\<exists>r. bt_get (shells demo_daemon) k = Some r \<and> r_pid r = pid)) \<and>
    (\<exists>sub s. bt_get (subscriptions demo_daemon) 1 = Some sub \<and>
      bt_get (sessions demo_daemon) (sub_client_id sub) = Some s \<and> s_shell_id s = sub_shell_id sub)"
  using registry_consistent [OF demo_reaches] by (simp add: demo_eval)

lemma demo_pid: "shell_by_pid demo_daemon 7 = Some 1" "map_option start (bt_get (shells demo_daemon) 1) = Some (Some 1)"
  by (simp_all add: demo_eval)

theorem new_shell_is_clean_witness:
  "\<exists>out replaced g' shell r.
    register_locked ''b'' 7 (Some 2) None None None demo_daemon = (out, replaced, g') \<and>
    shell_of g' (fst out) = Some shell \<and> bt_get (shells g') shell = Some r \<and> r_pid r = 7 \<and> tags r = {} \<and>
    queue_of (ask_inbox g') shell = [] \<and>
    \<not> (\<exists>i sub. bt_get (subscriptions g') i = Some sub \<and> sub_shell_id sub = Some shell)"
proof -
  obtain out replaced g' where reg:
    "register_locked ''b'' 7 (Some 2) None None None demo_daemon = (out, replaced, g')"
    by (cases "register_locked ''b'' 7 (Some 2) None None None demo_daemon") auto
  have other: "\<forall>k r. shell_by_pid demo_daemon 7 = Some k \<and> bt_get (shells demo_daemon) k = Some r \<longrightarrow>
      \<not> same_process (start r) (Some 2)"
    using demo_pid by (auto simp: same_process_def)
  have small: "(4 :: nat) < 2 ^ 64 - 2" by simp
  show ?thesis using new_shell_is_clean [OF demo_reaches small reg other] reg by blast
qed

section \<open>Delivery\<close>

text \<open>C37. Publishing queues the frame on each open connection once for every subscription of it that is
  not paused and matches the origin and the topic, on nothing else, and answers the number of
  frames queued.\<close>

theorem publish_delivers:
  "(\<forall>k. bt_get (sessions (snd (publish origin topic f g))) k =
      map_option (queue_frames (length (filter (\<lambda>sub. hears origin topic sub \<and> sub_client_id sub = k)
        (bt_values (subscriptions g)))) f) (bt_get (sessions g) k)) \<and>
    fst (publish origin topic f g) =
      length (filter (\<lambda>sub. hears origin topic sub \<and> takes (sessions g) sub) (bt_values (subscriptions g)))"
  using publish_loop_get [of origin topic f "bt_values (subscriptions g)" "sessions g"]
    publish_loop_count [of origin topic f "bt_values (subscriptions g)" "sessions g"]
  by (simp add: publish_def case_prod_unfold)

section \<open>Reaping\<close>

lemma remove_shells_reads:
  "bt_get (shells (remove_shells dead g)) k = (if k \<in> set dead then None else bt_get (shells g) k)"
  "bt_ok (subscriptions g) \<Longrightarrow> bt_get (subscriptions (remove_shells dead g)) i =
     (case bt_get (subscriptions g) i of
        Some sub \<Rightarrow> if sub_shell_id sub \<in> Some ` set dead then None else Some sub | None \<Rightarrow> None)"
  "sessions (remove_shells dead g) = sessions g" "ask_inbox (remove_shells dead g) = ask_inbox g"
  unfolding remove_shells_def
  by (induction dead arbitrary: g) (auto simp: bt_get_retain split: option.splits if_splits)

text \<open>C38. Reaping forgets exactly the shells the test finds dead: their records, their queues and their
  subscriptions go, everything of the other shells and of the connections stays.\<close>

theorem reaped_shells_forgotten:
  assumes "reaches n g" "n < 2 ^ 64 - 2" "reap_dead_shells_with alive g = (dead, g')"
  shows "set dead = {k. \<exists>r. bt_get (shells g) k = Some r \<and> \<not> alive (r_pid r) (start r)} \<and>
    (\<forall>k. bt_get (shells g') k = (if k \<in> set dead then None else bt_get (shells g) k)) \<and>
    (\<forall>k. queue_of (ask_inbox g') k = (if k \<in> set dead then [] else queue_of (ask_inbox g) k)) \<and>
    (\<forall>i. bt_get (subscriptions g') i = (case bt_get (subscriptions g) i of
       Some sub \<Rightarrow> if sub_shell_id sub \<in> Some ` set dead then None else Some sub | None \<Rightarrow> None)) \<and>
    sessions g' = sessions g"
proof -
  have ok: "shells_ok g" "bt_ok (subscriptions g)"
    using reaches_ok [OF assms(1)] assms(2) by (auto simp: daemon_ok_def subs_ok_def)
  have dead: "dead = dead_shells alive g" and g': "g' = drop_queues dead (remove_shells dead g)"
    using assms(3) by (auto simp: reap_dead_shells_with_def Let_def drop_queues_def remove_shells_def split: if_splits)
  have "set dead = {k. \<exists>r. bt_get (shells g) k = Some r \<and> \<not> alive (r_pid r) (start r)}"
    using ok(1) bt_values_member [of "shells g"] unfolding dead dead_shells_def shells_ok_def
    by (auto simp: image_iff)
  then show ?thesis
    unfolding g' by (simp add: drop_queues_def remove_shells_reads ok(2))
qed

theorem reaped_shells_forgotten_witness:
  "\<exists>g'. reap_dead_shells_with (\<lambda>_ _. False) demo_daemon = ([1], g') \<and>
    bt_get (shells g') 1 = None \<and> queue_of (ask_inbox g') 1 = [] \<and> bt_get (subscriptions g') 1 = None"
proof -
  obtain dead g' where reap: "reap_dead_shells_with (\<lambda>_ _. False) demo_daemon = (dead, g')"
    by (cases "reap_dead_shells_with (\<lambda>_ _. False) demo_daemon") auto
  have dead: "dead = [1]"
    using reap by (auto simp: reap_dead_shells_with_def dead_shells_def demo_eval bt_values_def)
  have sub: "map_option sub_shell_id (bt_get (subscriptions demo_daemon) 1) = Some (Some 1)"
    by (simp add: demo_eval)
  have small: "(4 :: nat) < 2 ^ 64 - 2" by simp
  obtain s where s: "bt_get (subscriptions demo_daemon) 1 = Some s" "sub_shell_id s = Some 1" using sub by auto
  note facts = reaped_shells_forgotten [OF demo_reaches small reap]
  have "bt_get (subscriptions g') 1 = None" using facts [THEN conjunct2, THEN conjunct2, THEN conjunct2] s dead by simp
  moreover have "bt_get (shells g') 1 = None \<and> queue_of (ask_inbox g') 1 = []"
    using facts [THEN conjunct2] dead by simp
  ultimately show ?thesis using reap dead by simp
qed

section \<open>Ownership\<close>

lemma owned_ids_owned:
  "subs_ok g \<Longrightarrow> bt_get (subscriptions g) k = Some sub \<Longrightarrow> k \<in> set (owned_ids P client g) \<Longrightarrow>
    owns_subscription g client sub"
  using bt_values_member [of "subscriptions g"] unfolding owned_ids_def subs_ok_def by auto

lemma bt_get_modify_unlisted: "k \<notin> set ns \<Longrightarrow> bt_get (foldl (\<lambda>m n. bt_modify n f m) m ns) k = bt_get m k"
  by (induction ns arbitrary: m) auto

text \<open>Unsubscribing, pausing and resuming, by id, by pattern or all at once, leave every
  subscription as it is that the caller does not own.\<close>

theorem others_subscriptions_kept:
  assumes "reaches n g" "n < 2 ^ 64 - 2" "bt_get (subscriptions g) k = Some sub"
    "\<not> owns_subscription g client sub"
  shows "bt_get (subscriptions (snd (op_unsubscribe client args g))) k = Some sub \<and>
    bt_get (subscriptions (snd (op_subscription_set_paused client args g))) k = Some sub"
proof -
  have ok: "subs_ok g" using reaches_ok [OF assms(1)] assms(2) by (simp add: daemon_ok_def)
  have not_listed: "k \<notin> set (owned_ids P client g)" for P using owned_ids_owned [OF ok assms(3)] assms(4) by blast
  have not_owned: "owned client k g = False" using assms(3,4) by (simp add: owned_def)
  have "bt_get (subscriptions (snd (remove_subscription_by_id client m g))) k = Some sub"
    "bt_get (subscriptions (snd (remove_subscription_by_pattern client pattern g))) k = Some sub"
    "bt_get (subscriptions (snd (set_subscription_paused client m on g))) k = Some sub"
    "bt_get (subscriptions (snd (pause_all_subscriptions client on g))) k = Some sub" for m pattern on
    using assms(3) not_listed not_owned
    by (auto simp: remove_subscription_by_id_def remove_subscription_by_pattern_def set_subscription_paused_def
        pause_all_subscriptions_def Let_def bt_get_modify_unlisted)
  then show ?thesis
    using assms(3)
    by (auto simp: op_unsubscribe_def op_subscription_set_paused_def case_prod_unfold map_prod_def split: option.split)
qed

theorem others_subscriptions_kept_witness:
  "\<exists>sub. bt_get (subscriptions demo_daemon) 1 = Some sub \<and>
    bt_get (subscriptions (snd (op_unsubscribe 2 (Object [(''id'', Number 1)]) demo_daemon))) 1 = Some sub \<and>
    bt_get (subscriptions (snd (op_subscription_set_paused 2
      (Object [(''paused'', Bool True), (''all'', Bool True)]) demo_daemon))) 1 = Some sub"
proof -
  have "\<exists>sub. bt_get (subscriptions demo_daemon) 1 = Some sub \<and> \<not> owns_subscription demo_daemon 2 sub"
    by (simp add: demo_eval owns_subscription_def)
  then obtain sub where sub: "bt_get (subscriptions demo_daemon) 1 = Some sub" "\<not> owns_subscription demo_daemon 2 sub"
    by blast
  have small: "(4 :: nat) < 2 ^ 64 - 2" by simp
  show ?thesis
    using others_subscriptions_kept [OF demo_reaches small sub, of "Object [(''id'', Number 1)]"]
      others_subscriptions_kept [OF demo_reaches small sub, of "Object [(''paused'', Bool True), (''all'', Bool True)]"] sub
    by blast
qed

section \<open>Requests\<close>

text \<open>Taking requests until the queue is empty, at most a given number of times.\<close>

fun take_times :: "nat \<Rightarrow> u64 \<Rightarrow> AskInbox \<Rightarrow> AskRequest list \<times> AskInbox" where
  "take_times 0 s ib = ([], ib)"
| "take_times (Suc n) s ib = (case take_request s ib of
     (None, ib1) \<Rightarrow> ([], ib1)
   | (Some r, ib1) \<Rightarrow> (case take_times n s ib1 of (rs, ib2) \<Rightarrow> (r # rs, ib2)))"

lemma take_times_drain: "take_times n s ib = inbox.drain n s ib"
  by (induction n arbitrary: ib) (simp_all split: option.split prod.split)

lemma queue_of_pushes: "queue_of (fold push_request rs ib) s = queue_of ib s @ filter (\<lambda>r. target_shell r = s) rs"
  by (induction rs arbitrary: ib) (auto simp: queue_of_push)

text \<open>C39. Whatever was pushed for a shell comes out by taking, each request once: the critical ones
  first, then all others, both in the order they were pushed; the queues of other shells stay.  The comment on
  the code says critical before normal before low; the code does not tell normal from low, so a low request that
  came first leaves before a normal one.\<close>

theorem taken_in_order:
  assumes "waiting = queue_of ib s @ filter (\<lambda>r. target_shell r = s) rs" "length waiting \<le> n"
  shows "fst (take_times n s (fold push_request rs ib)) = filter is_critical waiting @ filter (\<lambda>r. \<not> is_critical r) waiting \<and>
    queue_of (snd (take_times n s (fold push_request rs ib))) s = [] \<and>
    (\<forall>s'. s' \<noteq> s \<longrightarrow> queue_of (snd (take_times n s (fold push_request rs ib))) s' = queue_of (fold push_request rs ib) s')"
  using inbox.drain_leaving [of "fold push_request rs ib" s n] inbox.drain_other [of _ s n "fold push_request rs ib"] assms
  by (simp add: take_times_drain inbox.leaving_def queue_of_pushes)

definition demo_ask :: "string \<Rightarrow> string \<Rightarrow> AskRequest" where
  "demo_ask rid urg = \<lparr>request_id = rid, from_shell = 2, target_shell = 1, kind = Menu, payload = Null,
     urgency = urg, created_at_ns = 5, timeout_ms = 1\<rparr>"

theorem taken_in_order_witness:
  "map request_id (fst (take_times 3 1 (fold push_request
     [demo_ask ''a'' ''low'', demo_ask ''b'' ''normal'', demo_ask ''c'' ''critical''] new_inbox))) =
   [''c'', ''a'', ''b'']"
  using taken_in_order [OF refl, of new_inbox 1
      "[demo_ask ''a'' ''low'', demo_ask ''b'' ''normal'', demo_ask ''c'' ''critical'']" 3]
  by (simp add: new_inbox_def queue_of_def demo_ask_def is_critical_def)

lemma sint_deadline:
  assumes "timeout_ms r * 1000000 = word_of_int t" "- (2 ^ 63) \<le> sint (created_at_ns r) + t"
    "sint (created_at_ns r) + t < 2 ^ 63"
  shows "sint (deadline r) = sint (created_at_ns r) + t"
proof -
  have "deadline r = word_of_int (sint (created_at_ns r) + t)"
    unfolding deadline_def assms(1) by (simp only: wi_hom_add [symmetric] of_int_sint scast_id)
  moreover have "sint (word_of_int (sint (created_at_ns r) + t) :: i64) = sint (created_at_ns r) + t"
    by (rule sint_of_range [OF assms(2,3)])
  ultimately show ?thesis by (simp only:)
qed

text \<open>C40. A request with a timeout is dropped by the ticker exactly when its time has passed, and one
  without never, as long as the deadline in nanoseconds fits 63 bits.\<close>

theorem expiry_on_time:
  assumes "0 \<le> sint (created_at_ns r)" "sint (created_at_ns r) + int (unat (timeout_ms r)) * 1000000 < 2 ^ 63"
  shows "r \<in> set (queue_of (snd (drop_expired now ib)) s) \<longleftrightarrow>
    r \<in> set (queue_of ib s) \<and>
    (timeout_ms r = 0 \<or> sint now \<le> sint (created_at_ns r) + int (unat (timeout_ms r)) * 1000000)"
proof -
  have pos: "0 \<le> int (unat (timeout_ms r)) * 1000000" by simp
  have word: "timeout_ms r * 1000000 = word_of_int (int (unat (timeout_ms r)) * 1000000)"
    by (metis of_int_mult of_int_numeral of_int_of_nat_eq of_nat_unat ucast_id word_of_int_uint uint_nat)
  have "sint (deadline r) = sint (created_at_ns r) + int (unat (timeout_ms r)) * 1000000"
    by (rule sint_deadline [OF word]) (use assms pos in linarith)+
  then show ?thesis
    by (auto simp: drop_expired_def queue_of_def keeps_def i64_lt_def split: option.split)
qed

theorem expiry_on_time_witness:
  "demo_ask ''a'' ''low'' \<in> set (queue_of (snd (drop_expired 1000005 (push_request (demo_ask ''a'' ''low'') new_inbox))) 1)
    \<and> demo_ask ''a'' ''low'' \<notin> set (queue_of (snd (drop_expired 1000006 (push_request (demo_ask ''a'' ''low'') new_inbox))) 1)"
proof -
  let ?r = "demo_ask ''a'' ''low''" and ?ib = "push_request (demo_ask ''a'' ''low'') new_inbox"
  have fits: "0 \<le> sint (created_at_ns ?r)"
    "sint (created_at_ns ?r) + int (unat (timeout_ms ?r)) * 1000000 < 2 ^ 63"
    by (simp_all add: demo_ask_def)
  have "?r \<in> set (queue_of ?ib 1)" by (simp add: queue_of_push demo_ask_def)
  then show ?thesis
    using expiry_on_time [OF fits, of 1000005 ?ib 1] expiry_on_time [OF fits, of 1000006 ?ib 1]
    by (simp add: demo_ask_def)
qed

text \<open>With a timeout of \<open>9223372036855\<close> milliseconds, about 292 years, the deadline wraps and the
  request is dropped by the next tick.\<close>

lemma long_timeout_expires:
  assumes "timeout_ms r = 9223372036855" "0 \<le> sint (created_at_ns r)" "0 \<le> sint now"
    "sint (created_at_ns r) < 2 ^ 62"
  shows "\<not> keeps now r"
proof -
  have "sint (deadline r) = sint (created_at_ns r) + (9223372036855 * 1000000 - 2 ^ 64)"
    by (rule sint_deadline) (use assms in simp_all)
  then show ?thesis using assms by (simp add: keeps_def i64_lt_def)
qed

text \<open>Asking for a request that is not there answers that nothing is waiting, whatever is.\<close>

lemma take_unknown_says_none:
  assumes "shell_of g client = Some shell" "get_str args ''request_id'' = Some rid"
    "\<forall>r \<in> set (queue_of (ask_inbox g) shell). request_id r \<noteq> rid"
  shows "fst (op_ask_take client args g) = Inr (None, 0)"
proof -
  have "take_specific shell rid (ask_inbox g) = (None, ask_inbox g)"
    using assms(3) position_none [of "\<lambda>r. request_id r = rid" "queue_of (ask_inbox g) shell"]
    by (auto simp: take_specific_def queue_of_def split: option.splits)
  then show ?thesis using assms(1,2) by (simp add: op_ask_take_def)
qed

end
