(* ===== verification/OptTable.thy ===== *)
theory OptTable
  imports Prelude
begin

text \<open>
  The option table of the shell: the names of \<open>opt_name\<close> (\<open>src/src/ported/zsh_h.rs\<close>), the flag
  column \<open>optns_flags\<close>, the letters and the aliases of \<open>src/src/ported/options.rs\<close>, and the two
  ways from a text to an option number, \<open>optno_by_name\<close> and \<open>optlookup\<close>.
\<close>

unbundle bit_operations_syntax

section \<open>Option numbers and names\<close>

definition OPT_INVALID :: int where "OPT_INVALID = 0"
definition OPT_SIZE :: int where "OPT_SIZE = 186"

definition APPENDHISTORY :: int where "APPENDHISTORY = 6"
definition BANGHIST :: int where "BANGHIST = 18"
definition CHASELINKS :: int where "CHASELINKS = 33"
definition EMACSMODE :: int where "EMACSMODE = 52"
definition EXECOPT :: int where "EXECOPT = 56"
definition GLOBDOTS :: int where "GLOBDOTS = 68"
definition HASHCMDS :: int where "HASHCMDS = 71"
definition HISTNOFUNCTIONS :: int where "HISTNOFUNCTIONS = 84"
definition IGNOREBRACES :: int where "IGNOREBRACES = 92"
definition INTERACTIVE :: int where "INTERACTIVE = 97"
definition LOGINSHELL :: int where "LOGINSHELL = 114"
definition MAILWARNING :: int where "MAILWARNING = 117"
definition MONITOR :: int where "MONITOR = 120"
definition MULTIBYTE :: int where "MULTIBYTE = 121"
definition PRIVILEGED :: int where "PRIVILEGED = 143"
definition PROMPTSUBST :: int where "PROMPTSUBST = 148"
definition RESTRICTED :: int where "RESTRICTED = 185"
definition SHINSTDIN :: int where "SHINSTDIN = 163"
definition SHOPTIONLETTERS :: int where "SHOPTIONLETTERS = 165"
definition SINGLECOMMAND :: int where "SINGLECOMMAND = 169"
definition SUNKEYBOARDHACK :: int where "SUNKEYBOARDHACK = 172"
definition USEZLE :: int where "USEZLE = 183"
definition VIMODE :: int where "VIMODE = 179"
definition XTRACE :: int where "XTRACE = 182"

lemmas option_numbers = OPT_INVALID_def OPT_SIZE_def
  APPENDHISTORY_def BANGHIST_def CHASELINKS_def EMACSMODE_def EXECOPT_def
  GLOBDOTS_def HASHCMDS_def HISTNOFUNCTIONS_def IGNOREBRACES_def INTERACTIVE_def
  LOGINSHELL_def MAILWARNING_def MONITOR_def MULTIBYTE_def PRIVILEGED_def
  PROMPTSUBST_def RESTRICTED_def SHINSTDIN_def SHOPTIONLETTERS_def SINGLECOMMAND_def
  SUNKEYBOARDHACK_def USEZLE_def VIMODE_def XTRACE_def

text \<open>The vector \<open>opt_name\<close> builds once, by option number, in runs of one initial; a number outside it, and a negative
  one read as \<open>usize\<close>, has the empty name.\<close>


definition names_a :: "string list" where
  "names_a = [
   ''aliases'', ''aliasfuncdef'', ''allexport'', ''alwayslastprompt'', ''alwaystoend'',
   ''appendhistory'', ''autocd'', ''autocontinue'', ''autolist'', ''automenu'',
   ''autonamedirs'', ''autoparamkeys'', ''autoparamslash'', ''autopushd'', ''autoremoveslash'',
   ''autoresume'']"

definition names_b :: "string list" where
  "names_b = [
   ''badpattern'', ''banghist'', ''bareglobqual'', ''bashautolist'', ''bashrematch'', ''beep'',
   ''bgnice'', ''braceccl'', ''bsdecho'']"

definition names_c :: "string list" where
  "names_c = [
   ''caseglob'', ''casematch'', ''casepaths'', ''cbases'', ''cdablevars'', ''cdsilent'',
   ''chasedots'', ''chaselinks'', ''checkjobs'', ''checkrunningjobs'', ''clobber'',
   ''clobberempty'']"

definition names_a2 :: "string list" where
  "names_a2 = [
   ''appendcreate'']"

definition names_c2 :: "string list" where
  "names_c2 = [
   ''combiningchars'', ''completealiases'', ''completeinword'', ''correct'', ''correctall'',
   ''continueonerror'', ''cprecedences'', ''cshjunkiehistory'', ''cshjunkieloops'',
   ''cshjunkiequotes'', ''cshnullcmd'', ''cshnullglob'']"

definition names_d :: "string list" where
  "names_d = [
   ''debugbeforecmd'']"

definition names_e :: "string list" where
  "names_e = [
   ''emacs'', ''equals'', ''errexit'', ''errreturn'', ''exec'', ''extendedglob'',
   ''extendedhistory'', ''evallineno'']"

definition names_f :: "string list" where
  "names_f = [
   ''flowcontrol'', ''forcefloat'', ''functionargzero'']"

definition names_g :: "string list" where
  "names_g = [
   ''glob'', ''globalexport'', ''globalrcs'', ''globassign'', ''globcomplete'', ''globdots'',
   ''globstarshort'', ''globsubst'']"

definition names_h :: "string list" where
  "names_h = [
   ''hashcmds'', ''hashdirs'', ''hashexecutablesonly'', ''hashlistall'', ''histallowclobber'',
   ''histbeep'', ''histexpiredupsfirst'', ''histfcntllock'', ''histfindnodups'',
   ''histignorealldups'', ''histignoredups'', ''histignorespace'', ''histlexwords'',
   ''histnofunctions'', ''histnostore'', ''histreduceblanks'', ''histsavebycopy'',
   ''histsavenodups'', ''histsubstpattern'', ''histverify'', ''hup'']"

definition names_i :: "string list" where
  "names_i = [
   ''ignorebraces'', ''ignoreclosebraces'', ''ignoreeof'', ''incappendhistory'',
   ''incappendhistorytime'', ''interactive'', ''interactivecomments'']"

definition names_k :: "string list" where
  "names_k = [
   ''ksharrays'', ''kshautoload'', ''kshglob'', ''kshoptionprint'', ''kshtypeset'',
   ''kshzerosubscript'']"

definition names_l :: "string list" where
  "names_l = [
   ''listambiguous'', ''listbeep'', ''listpacked'', ''listrowsfirst'', ''listtypes'',
   ''localloops'', ''localoptions'', ''localpatterns'', ''localtraps'', ''loginshell'',
   ''longlistjobs'']"

definition names_m :: "string list" where
  "names_m = [
   ''magicequalsubst'', ''mailwarning'', ''markdirs'', ''menucomplete'', ''monitor'',
   ''multibyte'', ''multifuncdef'', ''multios'']"

definition names_n :: "string list" where
  "names_n = [
   ''nomatch'', ''notify'', ''nullglob'', ''numericglobsort'']"

definition names_o :: "string list" where
  "names_o = [
   ''octalzeroes'', ''overstrike'']"

definition names_p :: "string list" where
  "names_p = [
   ''pathdirs'', ''pathscript'', ''pipefail'', ''posixaliases'', ''posixargzero'',
   ''posixbuiltins'', ''posixcd'', ''posixidentifiers'', ''posixjobs'', ''posixstrings'',
   ''posixtraps'', ''printeightbit'', ''printexitvalue'', ''privileged'', ''promptbang'',
   ''promptcr'', ''promptpercent'', ''promptsp'', ''promptsubst'', ''pushdignoredups'',
   ''pushdminus'', ''pushdsilent'', ''pushdtohome'']"

definition names_r :: "string list" where
  "names_r = [
   ''rcexpandparam'', ''rcquotes'', ''rcs'', ''recexact'', ''rematchpcre'', ''rmstarsilent'',
   ''rmstarwait'']"

definition names_s :: "string list" where
  "names_s = [
   ''sharehistory'', ''shfileexpansion'', ''shglob'', ''shinstdin'', ''shnullcmd'',
   ''shoptionletters'', ''shortloops'', ''shortrepeat'', ''shwordsplit'', ''singlecommand'',
   ''singlelinezle'', ''sourcetrace'', ''sunkeyboardhack'']"

definition names_t :: "string list" where
  "names_t = [
   ''transientrprompt'', ''trapsasync'', ''typesetsilent'', ''typesettounset'']"

definition names_u :: "string list" where
  "names_u = [
   ''unset'']"

definition names_v :: "string list" where
  "names_v = [
   ''verbose'', ''vi'']"

definition names_w :: "string list" where
  "names_w = [
   ''warncreateglobal'', ''warnnestedvar'']"

definition names_x :: "string list" where
  "names_x = [
   ''xtrace'']"

definition names_z :: "string list" where
  "names_z = [
   ''zle'']"

definition names_d2 :: "string list" where
  "names_d2 = [
   ''dvorak'']"

definition names_r2 :: "string list" where
  "names_r2 = [
   ''restricted'']"


definition opt_names :: "string list" where
  "opt_names = [[]] @ names_a @ names_b @ names_c @ names_a2 @ names_c2 @ names_d @ names_e @ names_f
     @ names_g @ names_h @ names_i @ names_k @ names_l @ names_m @ names_n @ names_o @ names_p
     @ names_r @ names_s @ names_t @ names_u @ names_v @ names_w @ names_x @ names_z @ names_d2
     @ names_r2"

definition opt_name :: "int \<Rightarrow> string" where
  "opt_name i = (if 0 \<le> i \<and> i < int (length opt_names) then opt_names ! nat i else [])"

text \<open>The reverse map \<open>REV\<close>: one insertion for each number with a name, later ones on top.\<close>

definition named_slots :: "(string \<times> int) list" where
  "named_slots = filter (\<lambda>(n, i). n \<noteq> []) (zip opt_names [0..OPT_SIZE - 1])"

definition optno_by_name :: "string \<Rightarrow> int option" where
  "optno_by_name s = map_of (rev named_slots) s"

section \<open>Flags\<close>

type_synonym u16 = "16 word"

definition EMULATE_CSH :: int where "EMULATE_CSH = 2"
definition EMULATE_KSH :: int where "EMULATE_KSH = 4"
definition EMULATE_SH :: int where "EMULATE_SH = 8"
definition EMULATE_ZSH :: int where "EMULATE_ZSH = 16"
definition EMULATE_FULLY :: int where "EMULATE_FULLY = 32"
definition EMULATE_UNUSED :: int where "EMULATE_UNUSED = 64"

lemmas emulation_bits = EMULATE_CSH_def EMULATE_KSH_def EMULATE_SH_def EMULATE_ZSH_def
  EMULATE_FULLY_def EMULATE_UNUSED_def

definition OPT_CSH :: u16 where "OPT_CSH = word_of_int EMULATE_CSH"
definition OPT_KSH :: u16 where "OPT_KSH = word_of_int EMULATE_KSH"
definition OPT_SH :: u16 where "OPT_SH = word_of_int EMULATE_SH"
definition OPT_ZSH :: u16 where "OPT_ZSH = word_of_int EMULATE_ZSH"
definition OPT_ALL :: u16 where "OPT_ALL = OPT_CSH OR OPT_KSH OR OPT_SH OR OPT_ZSH"
definition OPT_BOURNE :: u16 where "OPT_BOURNE = OPT_KSH OR OPT_SH"
definition OPT_BSHELL :: u16 where "OPT_BSHELL = OPT_KSH OR OPT_SH OR OPT_ZSH"
definition OPT_NONBOURNE :: u16 where "OPT_NONBOURNE = OPT_ALL AND NOT OPT_BOURNE"
definition OPT_NONZSH :: u16 where "OPT_NONZSH = OPT_ALL AND NOT OPT_ZSH"
definition OPT_EMULATE :: u16 where "OPT_EMULATE = word_of_int EMULATE_UNUSED"
definition OPT_SPECIAL :: u16 where "OPT_SPECIAL = push_bit 1 (word_of_int EMULATE_UNUSED)"
definition OPT_ALIAS :: u16 where "OPT_ALIAS = push_bit 2 (word_of_int EMULATE_UNUSED)"

lemmas option_flags = OPT_CSH_def OPT_KSH_def OPT_SH_def OPT_ZSH_def OPT_ALL_def OPT_BOURNE_def
  OPT_BSHELL_def OPT_NONBOURNE_def OPT_NONZSH_def OPT_EMULATE_def OPT_SPECIAL_def OPT_ALIAS_def

text \<open>The arms of \<open>optns_flags\<close>.  Its \<open>to_lowercase\<close> only ever sees names of the table, so lowering
  the ASCII letters is what it does.\<close>

definition optns_flag_rows :: "(string \<times> u16) list" where
  "optns_flag_rows = [
   (''aliases'', OPT_EMULATE OR OPT_ALL), (''aliasfuncdef'', OPT_EMULATE OR OPT_BOURNE),
   (''allexport'', OPT_EMULATE), (''alwayslastprompt'', OPT_ALL), (''alwaystoend'', 0),
   (''appendcreate'', OPT_EMULATE OR OPT_BOURNE), (''appendhistory'', OPT_ALL),
   (''autocd'', OPT_EMULATE), (''autocontinue'', 0), (''autolist'', OPT_ALL),
   (''automenu'', OPT_ALL), (''autonamedirs'', 0), (''autoparamkeys'', OPT_ALL),
   (''autoparamslash'', OPT_ALL), (''autopushd'', 0), (''autoremoveslash'', OPT_ALL),
   (''autoresume'', 0), (''badpattern'', OPT_EMULATE OR OPT_NONBOURNE),
   (''banghist'', OPT_NONBOURNE), (''bareglobqual'', OPT_EMULATE OR OPT_ZSH),
   (''bashautolist'', 0), (''bashrematch'', 0), (''beep'', OPT_ALL),
   (''bgnice'', OPT_EMULATE OR OPT_NONBOURNE), (''braceccl'', OPT_EMULATE),
   (''bsdecho'', OPT_EMULATE OR OPT_SH), (''caseglob'', OPT_ALL), (''casematch'', OPT_ALL),
   (''casepaths'', 0), (''cbases'', 0), (''cdablevars'', OPT_EMULATE), (''cdsilent'', 0),
   (''chasedots'', OPT_EMULATE), (''chaselinks'', OPT_EMULATE),
   (''checkjobs'', OPT_EMULATE OR OPT_ZSH), (''checkrunningjobs'', OPT_EMULATE OR OPT_ZSH),
   (''clobber'', OPT_EMULATE OR OPT_ALL), (''clobberempty'', 0), (''combiningchars'', 0),
   (''completealiases'', 0), (''completeinword'', 0), (''correct'', 0), (''correctall'', 0),
   (''cprecedences'', OPT_EMULATE OR OPT_NONZSH),
   (''cshjunkiehistory'', OPT_EMULATE OR OPT_CSH),
   (''cshjunkieloops'', OPT_EMULATE OR OPT_CSH), (''cshjunkiequotes'', OPT_EMULATE OR OPT_CSH),
   (''cshnullcmd'', OPT_EMULATE OR OPT_CSH), (''cshnullglob'', OPT_EMULATE OR OPT_CSH),
   (''debugbeforecmd'', OPT_ALL), (''emacs'', 0), (''equals'', OPT_EMULATE OR OPT_ZSH),
   (''errexit'', OPT_EMULATE), (''errreturn'', OPT_EMULATE), (''exec'', OPT_ALL),
   (''extendedglob'', OPT_EMULATE), (''extendedhistory'', OPT_CSH),
   (''evallineno'', OPT_EMULATE OR OPT_ZSH), (''flowcontrol'', OPT_ALL), (''forcefloat'', 0),
   (''functionargzero'', OPT_EMULATE OR OPT_NONBOURNE), (''glob'', OPT_EMULATE OR OPT_ALL),
   (''globalexport'', OPT_EMULATE OR OPT_ZSH), (''globalrcs'', OPT_ALL),
   (''globassign'', OPT_EMULATE OR OPT_CSH), (''globcomplete'', 0),
   (''globdots'', OPT_EMULATE), (''globstarshort'', OPT_EMULATE),
   (''globsubst'', OPT_EMULATE OR OPT_NONZSH), (''hashcmds'', OPT_ALL),
   (''hashdirs'', OPT_ALL), (''hashexecutablesonly'', 0), (''hashlistall'', OPT_ALL),
   (''histallowclobber'', 0), (''histbeep'', OPT_ALL), (''histexpiredupsfirst'', 0),
   (''histfcntllock'', 0), (''histfindnodups'', 0), (''histignorealldups'', 0),
   (''histignoredups'', 0), (''histignorespace'', 0), (''histlexwords'', 0),
   (''histnofunctions'', 0), (''histnostore'', 0), (''histreduceblanks'', 0),
   (''histsavebycopy'', OPT_ALL), (''histsavenodups'', 0), (''histsubstpattern'', OPT_EMULATE),
   (''histverify'', 0), (''hup'', OPT_EMULATE OR OPT_ZSH),
   (''ignorebraces'', OPT_EMULATE OR OPT_SH), (''ignoreclosebraces'', OPT_EMULATE),
   (''ignoreeof'', 0), (''incappendhistory'', 0), (''incappendhistorytime'', 0),
   (''interactive'', OPT_SPECIAL), (''interactivecomments'', OPT_BOURNE),
   (''ksharrays'', OPT_EMULATE OR OPT_BOURNE), (''kshautoload'', OPT_EMULATE OR OPT_BOURNE),
   (''kshglob'', OPT_EMULATE OR OPT_KSH), (''kshoptionprint'', OPT_EMULATE OR OPT_KSH),
   (''kshtypeset'', 0), (''kshzerosubscript'', 0), (''listambiguous'', OPT_ALL),
   (''listbeep'', OPT_ALL), (''listpacked'', 0), (''listrowsfirst'', 0),
   (''listtypes'', OPT_ALL), (''localoptions'', OPT_EMULATE OR OPT_KSH),
   (''localloops'', OPT_EMULATE), (''localpatterns'', OPT_EMULATE),
   (''localtraps'', OPT_EMULATE OR OPT_KSH), (''loginshell'', OPT_SPECIAL),
   (''longlistjobs'', 0), (''magicequalsubst'', OPT_EMULATE), (''mailwarning'', 0),
   (''markdirs'', 0), (''menucomplete'', 0), (''monitor'', OPT_SPECIAL),
   (''multibyte'', OPT_ALL), (''multifuncdef'', OPT_EMULATE OR OPT_ZSH),
   (''multios'', OPT_EMULATE OR OPT_ZSH), (''nomatch'', OPT_EMULATE OR OPT_NONBOURNE),
   (''notify'', OPT_ZSH), (''nullglob'', OPT_EMULATE), (''numericglobsort'', OPT_EMULATE),
   (''octalzeroes'', OPT_EMULATE OR OPT_SH), (''overstrike'', 0), (''pathdirs'', OPT_EMULATE),
   (''pathscript'', OPT_EMULATE OR OPT_BOURNE), (''pipefail'', OPT_EMULATE),
   (''posixaliases'', OPT_EMULATE OR OPT_BOURNE), (''posixargzero'', OPT_EMULATE),
   (''posixbuiltins'', OPT_EMULATE OR OPT_BOURNE), (''posixcd'', OPT_EMULATE OR OPT_BOURNE),
   (''posixidentifiers'', OPT_EMULATE OR OPT_BOURNE),
   (''posixjobs'', OPT_EMULATE OR OPT_BOURNE), (''posixstrings'', OPT_EMULATE OR OPT_BOURNE),
   (''posixtraps'', OPT_EMULATE OR OPT_BOURNE), (''printeightbit'', 0),
   (''printexitvalue'', 0), (''privileged'', OPT_SPECIAL), (''promptbang'', OPT_KSH),
   (''promptcr'', OPT_ALL), (''promptpercent'', OPT_NONBOURNE), (''promptsp'', OPT_ALL),
   (''promptsubst'', OPT_BOURNE), (''pushdignoredups'', OPT_EMULATE),
   (''pushdminus'', OPT_EMULATE), (''pushdsilent'', 0), (''pushdtohome'', OPT_EMULATE),
   (''rcexpandparam'', OPT_EMULATE), (''rcquotes'', OPT_EMULATE), (''rcs'', OPT_ALL),
   (''recexact'', 0), (''rematchpcre'', 0), (''restricted'', OPT_SPECIAL),
   (''rmstarsilent'', OPT_BOURNE), (''rmstarwait'', 0), (''sharehistory'', OPT_KSH),
   (''shfileexpansion'', OPT_EMULATE OR OPT_BOURNE), (''shglob'', OPT_EMULATE OR OPT_BOURNE),
   (''shinstdin'', OPT_SPECIAL), (''shnullcmd'', OPT_EMULATE OR OPT_BOURNE),
   (''shoptionletters'', OPT_EMULATE OR OPT_BOURNE),
   (''shortloops'', OPT_EMULATE OR OPT_NONBOURNE), (''shortrepeat'', OPT_EMULATE),
   (''shwordsplit'', OPT_EMULATE OR OPT_BOURNE), (''singlecommand'', OPT_SPECIAL),
   (''singlelinezle'', OPT_KSH), (''sourcetrace'', 0), (''sunkeyboardhack'', 0),
   (''transientrprompt'', 0), (''trapsasync'', 0),
   (''typesetsilent'', OPT_EMULATE OR OPT_BOURNE),
   (''typesettounset'', OPT_EMULATE OR OPT_BOURNE), (''unset'', OPT_EMULATE OR OPT_BSHELL),
   (''verbose'', 0), (''vi'', 0), (''warncreateglobal'', OPT_EMULATE),
   (''warnnestedvar'', OPT_EMULATE), (''xtrace'', 0), (''zle'', OPT_SPECIAL), (''dvorak'', 0),
   (''continueonerror'', 0), (''login'', OPT_SPECIAL), (''braceexpand'', OPT_ALIAS),
   (''dotglob'', OPT_ALIAS), (''hashall'', OPT_ALIAS), (''histappend'', OPT_ALIAS),
   (''histexpand'', OPT_ALIAS), (''log'', OPT_ALIAS), (''mailwarn'', OPT_ALIAS),
   (''onecmd'', OPT_ALIAS), (''physical'', OPT_ALIAS), (''promptvars'', OPT_ALIAS),
   (''stdin'', OPT_ALIAS), (''trackall'', OPT_ALIAS)]"

definition optns_flags :: "string \<Rightarrow> u16" where
  "optns_flags name = (case map_of optns_flag_rows (map to_lower name) of Some f \<Rightarrow> f | None \<Rightarrow> 0)"

definition has_bits :: "u16 \<Rightarrow> u16 \<Rightarrow> bool" where
  "has_bits flags bits \<longleftrightarrow> flags AND bits \<noteq> 0"

definition defset :: "string \<Rightarrow> int \<Rightarrow> bool" where
  "defset X my_emulation = has_bits (optns_flags X) (word_of_int my_emulation)"

text \<open>\<open>OPTNS_FLAGS_BY_NO[optno]\<close>.\<close>

definition flags_by_no :: "int \<Rightarrow> u16" where
  "flags_by_no optno = (if opt_name optno = [] then 0 else optns_flags (opt_name optno))"

text \<open>\<open>OPTNS\<close>, the rows of the table in order, and the names of the alias rows.\<close>

definition OPTNS :: "string list" where
  "OPTNS = [
   ''aliases'', ''aliasfuncdef'', ''allexport'', ''alwayslastprompt'', ''alwaystoend'',
   ''appendcreate'', ''appendhistory'', ''autocd'', ''autocontinue'', ''autolist'',
   ''automenu'', ''autonamedirs'', ''autoparamkeys'', ''autoparamslash'', ''autopushd'',
   ''autoremoveslash'', ''autoresume'', ''badpattern'', ''banghist'', ''bareglobqual'',
   ''bashautolist'', ''bashrematch'', ''beep'', ''bgnice'', ''braceccl'', ''bsdecho'',
   ''caseglob'', ''casematch'', ''casepaths'', ''cbases'', ''cprecedences'', ''cdablevars'',
   ''cdsilent'', ''chasedots'', ''chaselinks'', ''checkjobs'', ''checkrunningjobs'',
   ''clobber'', ''clobberempty'', ''combiningchars'', ''completealiases'', ''completeinword'',
   ''continueonerror'', ''correct'', ''correctall'', ''cshjunkiehistory'', ''cshjunkieloops'',
   ''cshjunkiequotes'', ''cshnullcmd'', ''cshnullglob'', ''debugbeforecmd'', ''emacs'',
   ''equals'', ''errexit'', ''errreturn'', ''exec'', ''extendedglob'', ''extendedhistory'',
   ''evallineno'', ''flowcontrol'', ''forcefloat'', ''functionargzero'', ''glob'',
   ''globalexport'', ''globalrcs'', ''globassign'', ''globcomplete'', ''globdots'',
   ''globstarshort'', ''globsubst'', ''hashcmds'', ''hashdirs'', ''hashexecutablesonly'',
   ''hashlistall'', ''histallowclobber'', ''histbeep'', ''histexpiredupsfirst'',
   ''histfcntllock'', ''histfindnodups'', ''histignorealldups'', ''histignoredups'',
   ''histignorespace'', ''histlexwords'', ''histnofunctions'', ''histnostore'',
   ''histsubstpattern'', ''histreduceblanks'', ''histsavebycopy'', ''histsavenodups'',
   ''histverify'', ''hup'', ''ignorebraces'', ''ignoreclosebraces'', ''ignoreeof'',
   ''incappendhistory'', ''incappendhistorytime'', ''interactive'', ''interactivecomments'',
   ''ksharrays'', ''kshautoload'', ''kshglob'', ''kshoptionprint'', ''kshtypeset'',
   ''kshzerosubscript'', ''listambiguous'', ''listbeep'', ''listpacked'', ''listrowsfirst'',
   ''listtypes'', ''localoptions'', ''localloops'', ''localpatterns'', ''localtraps'',
   ''login'', ''longlistjobs'', ''magicequalsubst'', ''mailwarning'', ''markdirs'',
   ''menucomplete'', ''monitor'', ''multibyte'', ''multifuncdef'', ''multios'', ''nomatch'',
   ''notify'', ''nullglob'', ''numericglobsort'', ''octalzeroes'', ''overstrike'',
   ''pathdirs'', ''pathscript'', ''pipefail'', ''posixaliases'', ''posixargzero'',
   ''posixbuiltins'', ''posixcd'', ''posixidentifiers'', ''posixjobs'', ''posixstrings'',
   ''posixtraps'', ''printeightbit'', ''printexitvalue'', ''privileged'', ''promptbang'',
   ''promptcr'', ''promptpercent'', ''promptsp'', ''promptsubst'', ''pushdignoredups'',
   ''pushdminus'', ''pushdsilent'', ''pushdtohome'', ''rcexpandparam'', ''rcquotes'', ''rcs'',
   ''recexact'', ''rematchpcre'', ''restricted'', ''rmstarsilent'', ''rmstarwait'',
   ''sharehistory'', ''shfileexpansion'', ''shglob'', ''shinstdin'', ''shnullcmd'',
   ''shoptionletters'', ''shortloops'', ''shortrepeat'', ''shwordsplit'', ''singlecommand'',
   ''singlelinezle'', ''sourcetrace'', ''sunkeyboardhack'', ''transientrprompt'',
   ''trapsasync'', ''typesetsilent'', ''typesettounset'', ''unset'', ''verbose'', ''vi'',
   ''warncreateglobal'', ''warnnestedvar'', ''xtrace'', ''zle'', ''braceexpand'', ''dotglob'',
   ''hashall'', ''histappend'', ''histexpand'', ''log'', ''mailwarn'', ''onecmd'',
   ''physical'', ''promptvars'', ''stdin'', ''trackall'', ''dvorak'']"

definition ZSH_OPTION_ALIASES :: "string list" where
  "ZSH_OPTION_ALIASES = [''braceexpand'', ''dotglob'', ''hashall'', ''histappend'', ''histexpand'',
   ''log'', ''mailwarn'', ''onecmd'', ''physical'', ''promptvars'', ''stdin'', ''trackall'']"

section \<open>From a text to an option number\<close>

text \<open>Underscores go, and the ASCII capitals are lowered, whatever the locale says.\<close>

definition canon_name :: "string \<Rightarrow> string" where
  "canon_name name = map to_lower (filter (\<lambda>c. c \<noteq> CHR ''_'') name)"

definition alias_rows :: "(string \<times> int) list" where
  "alias_rows = [
   (''braceexpand'', - IGNOREBRACES), (''dotglob'', GLOBDOTS), (''hashall'', HASHCMDS),
   (''histappend'', APPENDHISTORY), (''histexpand'', BANGHIST), (''log'', - HISTNOFUNCTIONS),
   (''mailwarn'', MAILWARNING), (''onecmd'', SINGLECOMMAND), (''physical'', CHASELINKS),
   (''promptvars'', PROMPTSUBST), (''stdin'', SHINSTDIN), (''trackall'', HASHCMDS),
   (''login'', LOGINSHELL)]"

definition plain_lookup :: "string \<Rightarrow> int" where
  "plain_lookup s = (case optno_by_name s of Some optno \<Rightarrow> optno | None \<Rightarrow> OPT_INVALID)"

definition optlookup :: "string \<Rightarrow> int" where
  "optlookup name = (let s = canon_name name in
     case map_of alias_rows s of
       Some optno \<Rightarrow> optno
     | None \<Rightarrow> (case strip_prefix ''no'' s of
         None \<Rightarrow> plain_lookup s
       | Some stripped \<Rightarrow> (case optno_by_name stripped of
           Some optno \<Rightarrow> - optno
         | None \<Rightarrow> (case map_of alias_rows stripped of
             Some optno \<Rightarrow> - optno
           | None \<Rightarrow> plain_lookup s))))"

text \<open>The letters of \<open>setopt -x\<close>; the flag says that the letter turns the option off.\<close>

definition zshletters :: "(char \<times> string \<times> bool) list" where
  "zshletters = [
   (CHR ''0'', ''correct'', False), (CHR ''1'', ''printexitvalue'', False),
   (CHR ''2'', ''badpattern'', True), (CHR ''3'', ''nomatch'', True),
   (CHR ''4'', ''globdots'', False), (CHR ''5'', ''notify'', False),
   (CHR ''6'', ''bgnice'', False), (CHR ''7'', ''ignoreeof'', False),
   (CHR ''8'', ''markdirs'', False), (CHR ''9'', ''autolist'', False),
   (CHR ''B'', ''beep'', True), (CHR ''C'', ''clobber'', True),
   (CHR ''D'', ''pushdtohome'', False), (CHR ''E'', ''pushdsilent'', False),
   (CHR ''F'', ''glob'', True), (CHR ''G'', ''nullglob'', False),
   (CHR ''H'', ''rmstarsilent'', False), (CHR ''I'', ''ignorebraces'', False),
   (CHR ''J'', ''autocd'', False), (CHR ''K'', ''banghist'', True),
   (CHR ''L'', ''sunkeyboardhack'', False), (CHR ''M'', ''singlelinezle'', False),
   (CHR ''N'', ''autopushd'', False), (CHR ''O'', ''correctall'', False),
   (CHR ''P'', ''rcexpandparam'', False), (CHR ''Q'', ''pathdirs'', False),
   (CHR ''R'', ''longlistjobs'', False), (CHR ''S'', ''recexact'', False),
   (CHR ''T'', ''cdablevars'', False), (CHR ''U'', ''mailwarning'', False),
   (CHR ''V'', ''promptcr'', True), (CHR ''W'', ''autoresume'', False),
   (CHR ''X'', ''listtypes'', False), (CHR ''Y'', ''menucomplete'', False),
   (CHR ''Z'', ''zle'', False), (CHR ''a'', ''allexport'', False),
   (CHR ''d'', ''globalrcs'', True), (CHR ''e'', ''errexit'', False),
   (CHR ''f'', ''rcs'', True), (CHR ''g'', ''histignorespace'', False),
   (CHR ''h'', ''histignoredups'', False), (CHR ''i'', ''interactive'', False),
   (CHR ''k'', ''interactivecomments'', False), (CHR ''l'', ''loginshell'', False),
   (CHR ''m'', ''monitor'', False), (CHR ''n'', ''exec'', True),
   (CHR ''p'', ''privileged'', False), (CHR ''r'', ''restricted'', False),
   (CHR ''s'', ''shinstdin'', False), (CHR ''t'', ''singlecommand'', False),
   (CHR ''u'', ''unset'', True), (CHR ''v'', ''verbose'', False),
   (CHR ''w'', ''chaselinks'', False), (CHR ''x'', ''xtrace'', False),
   (CHR ''y'', ''shwordsplit'', False)]"

definition KSH_LETTERS :: "(char \<times> string \<times> bool) list" where
  "KSH_LETTERS = [
   (CHR ''C'', ''clobber'', True), (CHR ''T'', ''trapsasync'', False),
   (CHR ''X'', ''markdirs'', False), (CHR ''a'', ''allexport'', False),
   (CHR ''b'', ''notify'', False), (CHR ''e'', ''errexit'', False),
   (CHR ''f'', ''glob'', True), (CHR ''i'', ''interactive'', False),
   (CHR ''l'', ''loginshell'', False), (CHR ''m'', ''monitor'', False),
   (CHR ''n'', ''exec'', True), (CHR ''p'', ''privileged'', False),
   (CHR ''r'', ''restricted'', False), (CHR ''s'', ''shinstdin'', False),
   (CHR ''t'', ''singlecommand'', False), (CHR ''u'', ''unset'', True),
   (CHR ''v'', ''verbose'', False), (CHR ''x'', ''xtrace'', False)]"

fun letter_number :: "(char \<times> string \<times> bool) list \<Rightarrow> char \<Rightarrow> int" where
  "letter_number [] c = 0"
| "letter_number ((ch, name, negated) # rest) c =
     (if ch = c
      then (let optno = (case optno_by_name name of Some n \<Rightarrow> n | None \<Rightarrow> 0) in
            if negated then - optno else optno)
      else letter_number rest c)"

section \<open>The table is one to one\<close>

lemmas run_defs =
  names_a_def names_b_def names_c_def names_a2_def names_c2_def names_d_def names_e_def
  names_f_def names_g_def names_h_def names_i_def names_k_def names_l_def names_m_def
  names_n_def names_o_def names_p_def names_r_def names_s_def names_t_def names_u_def
  names_v_def names_w_def names_x_def names_z_def names_d2_def names_r2_def

lemma run_lengths:
  "length names_a = 16" "length names_b = 9" "length names_c = 12" "length names_a2 = 1"
  "length names_c2 = 12" "length names_d = 1" "length names_e = 8" "length names_f = 3"
  "length names_g = 8" "length names_h = 21" "length names_i = 7" "length names_k = 6"
  "length names_l = 11" "length names_m = 8" "length names_n = 4" "length names_o = 2"
  "length names_p = 23" "length names_r = 7" "length names_s = 13" "length names_t = 4"
  "length names_u = 1" "length names_v = 2" "length names_w = 2" "length names_x = 1"
  "length names_z = 1" "length names_d2 = 1" "length names_r2 = 1"
  by (simp_all add: run_defs)

lemma run_starts:
  "filter (\<lambda>n. take 1 n = k) names_a = (if k = ''a'' then names_a else [])"
  "filter (\<lambda>n. take 1 n = k) names_b = (if k = ''b'' then names_b else [])"
  "filter (\<lambda>n. take 1 n = k) names_c = (if k = ''c'' then names_c else [])"
  "filter (\<lambda>n. take 1 n = k) names_a2 = (if k = ''a'' then names_a2 else [])"
  "filter (\<lambda>n. take 1 n = k) names_c2 = (if k = ''c'' then names_c2 else [])"
  "filter (\<lambda>n. take 1 n = k) names_d = (if k = ''d'' then names_d else [])"
  "filter (\<lambda>n. take 1 n = k) names_e = (if k = ''e'' then names_e else [])"
  "filter (\<lambda>n. take 1 n = k) names_f = (if k = ''f'' then names_f else [])"
  "filter (\<lambda>n. take 1 n = k) names_g = (if k = ''g'' then names_g else [])"
  "filter (\<lambda>n. take 1 n = k) names_h = (if k = ''h'' then names_h else [])"
  "filter (\<lambda>n. take 1 n = k) names_i = (if k = ''i'' then names_i else [])"
  "filter (\<lambda>n. take 1 n = k) names_k = (if k = ''k'' then names_k else [])"
  "filter (\<lambda>n. take 1 n = k) names_l = (if k = ''l'' then names_l else [])"
  "filter (\<lambda>n. take 1 n = k) names_m = (if k = ''m'' then names_m else [])"
  "filter (\<lambda>n. take 1 n = k) names_n = (if k = ''n'' then names_n else [])"
  "filter (\<lambda>n. take 1 n = k) names_o = (if k = ''o'' then names_o else [])"
  "filter (\<lambda>n. take 1 n = k) names_p = (if k = ''p'' then names_p else [])"
  "filter (\<lambda>n. take 1 n = k) names_r = (if k = ''r'' then names_r else [])"
  "filter (\<lambda>n. take 1 n = k) names_s = (if k = ''s'' then names_s else [])"
  "filter (\<lambda>n. take 1 n = k) names_t = (if k = ''t'' then names_t else [])"
  "filter (\<lambda>n. take 1 n = k) names_u = (if k = ''u'' then names_u else [])"
  "filter (\<lambda>n. take 1 n = k) names_v = (if k = ''v'' then names_v else [])"
  "filter (\<lambda>n. take 1 n = k) names_w = (if k = ''w'' then names_w else [])"
  "filter (\<lambda>n. take 1 n = k) names_x = (if k = ''x'' then names_x else [])"
  "filter (\<lambda>n. take 1 n = k) names_z = (if k = ''z'' then names_z else [])"
  "filter (\<lambda>n. take 1 n = k) names_d2 = (if k = ''d'' then names_d2 else [])"
  "filter (\<lambda>n. take 1 n = k) names_r2 = (if k = ''r'' then names_r2 else [])"
  by (simp_all add: run_defs)

lemma runs_distinct:
  "distinct names_a" "distinct names_b" "distinct names_c" "distinct names_a2"
  "distinct names_c2" "distinct names_d" "distinct names_e" "distinct names_f" "distinct names_g"
  "distinct names_h" "distinct names_i" "distinct names_k" "distinct names_l" "distinct names_m"
  "distinct names_n" "distinct names_o" "distinct names_p" "distinct names_r" "distinct names_s"
  "distinct names_t" "distinct names_u" "distinct names_v" "distinct names_w" "distinct names_x"
  "distinct names_z" "distinct names_d2" "distinct names_r2"
  by (simp_all add: run_defs)

lemma distinct_by_key:
  assumes "\<And>k. distinct (filter (\<lambda>x. f x = k) xs)"
  shows "distinct xs"
  using assms
proof (induction xs)
  case (Cons a xs)
  have "distinct (filter (\<lambda>x. f x = k) xs)" for k
    using Cons.prems [of k] by (auto split: if_splits)
  then have "distinct xs" by (rule Cons.IH)
  moreover have "a \<notin> set xs" using Cons.prems [of "f a"] by simp
  ultimately show ?case by simp
qed simp

text \<open>The initials that have two runs.\<close>

lemma runs_apart: "set names_a \<inter> set names_a2 = {}" "set names_c \<inter> set names_c2 = {}"
  "set names_d \<inter> set names_d2 = {}" "set names_r \<inter> set names_r2 = {}"
  by (simp_all add: run_defs)

lemma length_opt_names: "length opt_names = 186"
  by (simp add: opt_names_def run_lengths)

lemma opt_names_distinct: "distinct opt_names"
proof (rule distinct_by_key [where f = "take 1"])
  fix k :: string
  show "distinct (filter (\<lambda>n. take 1 n = k) opt_names)"
  proof (cases "k \<in> (\<lambda>c. [c]) ` set ''abcdefghiklmnoprstuvwxz''")
    case True
    then show ?thesis
      unfolding opt_names_def filter_append run_starts
      by (elim imageE) (simp split del: if_split, elim disjE; simp add: runs_distinct runs_apart)
  next
    case False
    then show ?thesis
      unfolding opt_names_def filter_append run_starts by (simp split del: if_split) simp
  qed
qed

text \<open>Every name is lower case letters.\<close>

definition plain_name :: "string \<Rightarrow> bool" where
  "plain_name n \<longleftrightarrow> n \<noteq> [] \<and> list_all (\<lambda>c. 97 \<le> byte c \<and> byte c \<le> 122) n"

lemma runs_plain:
  "list_all plain_name names_a" "list_all plain_name names_b" "list_all plain_name names_c"
  "list_all plain_name names_a2" "list_all plain_name names_c2" "list_all plain_name names_d"
  "list_all plain_name names_e" "list_all plain_name names_f" "list_all plain_name names_g"
  "list_all plain_name names_h" "list_all plain_name names_i" "list_all plain_name names_k"
  "list_all plain_name names_l" "list_all plain_name names_m" "list_all plain_name names_n"
  "list_all plain_name names_o" "list_all plain_name names_p" "list_all plain_name names_r"
  "list_all plain_name names_s" "list_all plain_name names_t" "list_all plain_name names_u"
  "list_all plain_name names_v" "list_all plain_name names_w" "list_all plain_name names_x"
  "list_all plain_name names_z" "list_all plain_name names_d2" "list_all plain_name names_r2"
  by (simp_all add: run_defs plain_name_def byte_def)

lemma plain_name_canon:
  assumes "plain_name n"
  shows "n \<noteq> []" "canon_name n = n" "map to_lower n = n"
proof -
  have "to_lower c = c \<and> c \<noteq> CHR ''_''" if "c \<in> set n" for c
    using assms that by (auto simp: plain_name_def list_all_iff to_lower_def byte_def)
  then show "map to_lower n = n" by (simp add: map_idI)
  then show "canon_name n = n"
    using \<open>\<And>c. c \<in> set n \<Longrightarrow> to_lower c = c \<and> c \<noteq> CHR ''_''\<close>
    by (simp add: canon_name_def filter_True)
  show "n \<noteq> []" using assms by (simp add: plain_name_def)
qed

lemma opt_names_plain: "list_all plain_name (tl opt_names)"
  by (simp add: opt_names_def runs_plain)

lemma opt_name_nth: "0 \<le> i \<Longrightarrow> i < OPT_SIZE \<Longrightarrow> opt_name i = opt_names ! nat i"
  by (simp add: opt_name_def length_opt_names OPT_SIZE_def)

lemma opt_name_ok:
  assumes "0 < i" "i < OPT_SIZE"
  shows "opt_name i \<noteq> []" "canon_name (opt_name i) = opt_name i" "map to_lower (opt_name i) = opt_name i"
proof -
  have "opt_name i = tl opt_names ! (nat i - 1)"
    using assms by (simp add: opt_name_nth nth_tl length_opt_names OPT_SIZE_def)
  moreover have "nat i - 1 < length (tl opt_names)"
    using assms by (simp add: length_opt_names OPT_SIZE_def)
  ultimately have "plain_name (opt_name i)"
    using opt_names_plain by (simp add: list_all_length)
  then show "opt_name i \<noteq> []" "canon_name (opt_name i) = opt_name i" "map to_lower (opt_name i) = opt_name i"
    by (rule plain_name_canon)+
qed

lemma opt_name_zero: "opt_names ! 0 = []"
  by (simp add: opt_names_def)

lemma opt_name_outside: "i \<le> 0 \<or> OPT_SIZE \<le> i \<Longrightarrow> opt_name i = []"
  using opt_name_zero by (cases "i = 0") (auto simp: opt_name_def length_opt_names OPT_SIZE_def)

lemma opt_name_range: "opt_name i \<noteq> [] \<longleftrightarrow> 0 < i \<and> i < OPT_SIZE"
  using opt_name_ok(1) [of i] opt_name_outside [of i] by linarith

lemma opt_name_inj: "opt_name i = opt_name j \<Longrightarrow> opt_name i \<noteq> [] \<Longrightarrow> i = j"
  using opt_names_distinct opt_name_range [of i] opt_name_range [of j]
  by (auto simp: opt_name_nth nth_eq_iff_index_eq length_opt_names OPT_SIZE_def)

lemma named_slots_iff: "(n, i) \<in> set named_slots \<longleftrightarrow> n = opt_name i \<and> n \<noteq> []"
proof -
  have "(n, i) \<in> set (zip opt_names [0..OPT_SIZE - 1]) \<longleftrightarrow> 0 \<le> i \<and> i < OPT_SIZE \<and> n = opt_name i"
    by (auto simp: in_set_zip length_opt_names OPT_SIZE_def opt_name_def intro!: exI [of _ "nat i"])
  then show ?thesis using opt_name_range [of i] by (auto simp: named_slots_def)
qed

lemma distinct_named_slots: "distinct (map fst named_slots)"
  unfolding named_slots_def by (rule distinct_map_filter) (simp add: map_fst_zip_take opt_names_distinct)

theorem optno_by_name_iff: "optno_by_name s = Some i \<longleftrightarrow> s = opt_name i \<and> s \<noteq> []"
  by (simp add: optno_by_name_def map_of_eq_Some_iff rev_map [symmetric] distinct_named_slots named_slots_iff)

lemma optno_by_opt_name [simp]: "optno_by_name (opt_name i) = (if opt_name i = [] then None else Some i)"
  using optno_by_name_iff [of "opt_name i"] by (cases "optno_by_name (opt_name i)") auto

lemma optno_range: "optno_by_name s = Some i \<Longrightarrow> 0 < i \<and> i < OPT_SIZE"
  using optno_by_name_iff opt_name_range by auto

section \<open>Looking a name up\<close>

lemma canon_append: "canon_name (s @ t) = canon_name s @ canon_name t"
  by (simp add: canon_name_def)

lemma set_opt_names:
  "set opt_names = {[]} \<union> set names_a \<union> set names_b \<union> set names_c \<union> set names_a2 \<union> set names_c2
     \<union> set names_d \<union> set names_e \<union> set names_f \<union> set names_g \<union> set names_h \<union> set names_i \<union> set names_k
     \<union> set names_l \<union> set names_m \<union> set names_n \<union> set names_o \<union> set names_p \<union> set names_r \<union> set names_s
     \<union> set names_t \<union> set names_u \<union> set names_v \<union> set names_w \<union> set names_x \<union> set names_z
     \<union> set names_d2 \<union> set names_r2"
  by (simp add: opt_names_def Un_assoc)

lemma optno_by_name_None: "optno_by_name s = None \<longleftrightarrow> s \<notin> set opt_names \<or> s = []"
proof -
  have "s \<in> set opt_names \<longleftrightarrow> (\<exists>i. s = opt_name i \<and> 0 \<le> i \<and> i < OPT_SIZE)"
  proof
    assume "s \<in> set opt_names"
    then obtain k where "k < 186" "s = opt_names ! k" by (auto simp: in_set_conv_nth length_opt_names)
    then show "\<exists>i. s = opt_name i \<and> 0 \<le> i \<and> i < OPT_SIZE"
      by (intro exI [of _ "int k"]) (simp add: opt_name_nth OPT_SIZE_def)
  qed (auto simp: opt_name_nth length_opt_names OPT_SIZE_def)
  moreover have "0 \<le> i \<and> i < OPT_SIZE" if "s = opt_name i \<and> s \<noteq> []" for i
    using that opt_name_range [of i] by auto
  ultimately have "s \<in> set opt_names \<and> s \<noteq> [] \<longleftrightarrow> (\<exists>i. optno_by_name s = Some i)"
    unfolding optno_by_name_iff by blast
  then show ?thesis by (cases "optno_by_name s") auto
qed

lemma aliases_apart: "list_all (\<lambda>(s, i). s \<notin> set opt_names \<and> take 2 s \<noteq> ''no'' \<and> s \<noteq> []
    \<and> (0 < i \<and> i < OPT_SIZE \<or> 0 < - i \<and> - i < OPT_SIZE)) alias_rows"
  by (simp add: alias_rows_def option_numbers set_opt_names run_defs)

lemma alias_rows_facts:
  assumes "map_of alias_rows s = Some i"
  shows "optno_by_name s = None" "take 2 s \<noteq> ''no''" "s \<noteq> []" "i \<noteq> 0" "\<bar>i\<bar> < OPT_SIZE"
proof -
  have "(s, i) \<in> set alias_rows" using assms by (rule map_of_SomeD)
  with aliases_apart optno_by_name_None [of s] show "optno_by_name s = None" "take 2 s \<noteq> ''no''" "s \<noteq> []" "i \<noteq> 0" "\<bar>i\<bar> < OPT_SIZE"
    by (auto simp: list_all_iff)
qed

text \<open>No name of the table is the negation of another one.\<close>

lemma no_names:
  assumes "n \<in> set opt_names" "take 2 n = ''no''"
  shows "n = ''nomatch'' \<or> n = ''notify''"
proof -
  have "take 1 n = ''n''" using assms(2) by (cases n) auto
  then have "n \<in> set (filter (\<lambda>n. take 1 n = ''n'') opt_names)" using assms(1) by simp
  moreover have "filter (\<lambda>n. take 1 n = ''n'') opt_names = names_n"
    unfolding opt_names_def filter_append run_starts by simp
  ultimately have "n \<in> set names_n" by (simp only:)
  then show ?thesis using assms(2) by (auto simp: names_n_def)
qed

lemma no_name_of_no:
  assumes "optno_by_name s = Some i" "strip_prefix ''no'' s = Some t"
  shows "optno_by_name t = None" "map_of alias_rows t = None"
proof -
  have "s \<in> set opt_names"
    using assms(1) optno_range [OF assms(1)]
    by (auto simp: optno_by_name_iff opt_name_nth length_opt_names OPT_SIZE_def intro!: nth_mem)
  then have "s = ''nomatch'' \<or> s = ''notify''"
    using assms(2) no_names [of s] by (simp add: strip_prefix_def numeral_2_eq_2 split: if_splits)
  then have t: "t = ''match'' \<or> t = ''tify''"
    using assms(2) by (auto simp: strip_prefix_def)
  moreover have "''match'' \<notin> set opt_names" "''tify'' \<notin> set opt_names"
    by (simp_all add: set_opt_names run_defs)
  ultimately show "optno_by_name t = None" by (elim disjE) (simp_all add: optno_by_name_None)
  show "map_of alias_rows t = None" using t by (elim disjE) (simp_all add: alias_rows_def)
qed

lemma optlookup_cong: "canon_name s = canon_name t \<Longrightarrow> optlookup s = optlookup t"
  by (simp add: optlookup_def)

lemma optlookup_named:
  assumes "optno_by_name (canon_name s) = Some i"
  shows "optlookup s = i"
proof -
  have aliasless: "map_of alias_rows (canon_name s) = None"
    using alias_rows_facts(1) [of "canon_name s"] assms by (cases "map_of alias_rows (canon_name s)") simp_all
  show ?thesis
  proof (cases "strip_prefix ''no'' (canon_name s)")
    case None
    then show ?thesis using aliasless assms by (simp add: optlookup_def plain_lookup_def)
  next
    case (Some t)
    then show ?thesis using aliasless assms no_name_of_no [OF assms Some]
      by (simp add: optlookup_def plain_lookup_def)
  qed
qed

lemma optlookup_opt_name: "optlookup (opt_name i) = (if opt_name i = [] then 0 else i)"
proof (cases "opt_name i = []")
  case True
  moreover have "optlookup [] = 0" by code_simp
  ultimately show ?thesis by simp
next
  case False
  then show ?thesis using opt_name_range [of i]
    by (simp add: optlookup_named opt_name_ok(2))
qed

lemma optlookup_negated:
  assumes "optno_by_name (canon_name s) = Some i"
  shows "optlookup (''no'' @ s) = - i"
proof -
  have canon: "canon_name (''no'' @ s) = ''no'' @ canon_name s"
    by (simp add: canon_append) code_simp
  have "map_of alias_rows (''no'' @ canon_name s) = None"
    using alias_rows_facts(2) [of "''no'' @ canon_name s"] by (cases "map_of alias_rows (''no'' @ canon_name s)") auto
  then show ?thesis using assms canon by (simp add: optlookup_def strip_prefix_def Let_def)
qed

lemma optlookup_range: "\<bar>optlookup s\<bar> < OPT_SIZE"
  using alias_rows_facts(5) optno_range
  by (fastforce simp: optlookup_def plain_lookup_def Let_def OPT_INVALID_def OPT_SIZE_def split: option.splits)

section \<open>Names of the options the code treats apart\<close>

lemma opt_name_values:
  "opt_name EMACSMODE = ''emacs''" "opt_name EXECOPT = ''exec''" "opt_name INTERACTIVE = ''interactive''"
  "opt_name MONITOR = ''monitor''" "opt_name PRIVILEGED = ''privileged''" "opt_name RESTRICTED = ''restricted''"
  "opt_name SHINSTDIN = ''shinstdin''" "opt_name SINGLECOMMAND = ''singlecommand''"
  "opt_name USEZLE = ''zle''" "opt_name VIMODE = ''vi''" "opt_name XTRACE = ''xtrace''"
  by code_simp+

end
