(* ===== verification/OptStore.thy ===== *)
theory OptStore
  imports OptTable "HOL-Library.AList"
begin

text \<open>
  Where the shell keeps its options: \<open>opt_state_store\<close> of \<open>src/src/ported/options.rs\<close>, a flat
  array by option number with a map beside it for every other spelling, and the read cache of
  \<open>src/src/extensions/opts_cache.rs\<close> in front of it.  A \<open>HashMap<String, bool>\<close> is an association
  list with one entry for each key.
\<close>

section \<open>The store\<close>

record opt_state_store =
  flat :: "int list"
  extra :: "(string \<times> bool) list"

text \<open>\<open>Default\<close>: nothing was ever written.\<close>

definition empty_store :: opt_state_store where
  "empty_store = \<lparr>flat = replicate (nat OPT_SIZE) (- 1), extra = []\<rparr>"

definition slot :: "string \<Rightarrow> nat option" where
  "slot name = (case optno_by_name name of
     Some o' \<Rightarrow> if o' > 0 \<and> o' < OPT_SIZE then Some (nat o') else None
   | None \<Rightarrow> None)"

definition flat_value :: "int \<Rightarrow> bool option" where
  "flat_value v = (if v = - 1 then None else Some (v = 1))"

definition store_get :: "opt_state_store \<Rightarrow> string \<Rightarrow> bool option" where
  "store_get st name = (case slot name of
     Some i \<Rightarrow> flat_value (flat st ! i)
   | None \<Rightarrow> map_of (extra st) name)"

definition store_set :: "string \<Rightarrow> bool \<Rightarrow> opt_state_store \<Rightarrow> opt_state_store" where
  "store_set name v st = (case slot name of
     Some i \<Rightarrow> st\<lparr>flat := (flat st)[i := of_bool v]\<rparr>
   | None \<Rightarrow> st\<lparr>extra := AList.update name v (extra st)\<rparr>)"

definition store_remove :: "string \<Rightarrow> opt_state_store \<Rightarrow> opt_state_store" where
  "store_remove name st = (case slot name of
     Some i \<Rightarrow> st\<lparr>flat := (flat st)[i := - 1]\<rparr>
   | None \<Rightarrow> st\<lparr>extra := AList.delete name (extra st)\<rparr>)"

definition store_len :: "opt_state_store \<Rightarrow> nat" where
  "store_len st = length (filter (\<lambda>v. v \<ge> 0) (flat st)) + length (extra st)"

text \<open>\<open>to_map\<close>, entry by entry as its two loops insert them, and \<open>from_map\<close>.\<close>

definition map_slot :: "int \<times> int \<Rightarrow> (string \<times> bool) list \<Rightarrow> (string \<times> bool) list" where
  "map_slot iv out = (case iv of (i, v) \<Rightarrow>
     if v < 0 then out
     else if opt_name i = [] then out
     else AList.update (opt_name i) (v = 1) out)"

definition to_map :: "opt_state_store \<Rightarrow> (string \<times> bool) list" where
  "to_map st =
     fold (\<lambda>(k, v). AList.update k v) (extra st) (fold map_slot (zip [0..OPT_SIZE - 1] (flat st)) [])"

definition from_map :: "(string \<times> bool) list \<Rightarrow> opt_state_store" where
  "from_map m = fold (\<lambda>(k, v). store_set k v) m empty_store"

section \<open>The cells: the live store, the read cache, the generation\<close>

record opt_cells =
  opts_live :: opt_state_store
  opts_cache :: "int list"
  opt_gen :: u64

definition fresh_cells :: opt_cells where
  "fresh_cells = \<lparr>opts_live = empty_store, opts_cache = replicate (nat OPT_SIZE) (- 1), opt_gen = 0\<rparr>"

definition invalidate_all :: "opt_cells \<Rightarrow> opt_cells" where
  "invalidate_all c = c\<lparr>opt_gen := opt_gen c + 1, opts_cache := map (\<lambda>_. - 1) (opts_cache c)\<rparr>"

definition invalidate_one :: "int \<Rightarrow> opt_cells \<Rightarrow> opt_cells" where
  "invalidate_one optno c =
     (let c = c\<lparr>opt_gen := opt_gen c + 1\<rparr>; idx = nat \<bar>optno\<bar> in
      if int idx < OPT_SIZE then c\<lparr>opts_cache := (opts_cache c)[idx := - 1]\<rparr> else c)"

text \<open>\<open>opt_state_get\<close>: a canonical name reads its slot, another spelling reads the slot of the
  option it means, negated where it means the negation, and a name that means nothing reads
  what was stored under it.\<close>

definition opt_state_get :: "opt_cells \<Rightarrow> string \<Rightarrow> bool option" where
  "opt_state_get c name =
     (let direct = store_get (opts_live c) name;
          routed =
            (let optno = optlookup name in
             if optno \<noteq> OPT_INVALID
             then (let (target_optno, negate) = (if optno < 0 then (- optno, True) else (optno, False));
                       target_name = opt_name target_optno in
                   if target_name \<noteq> [] \<and> target_name \<noteq> name
                   then (case store_get (opts_live c) target_name of
                           Some v \<Rightarrow> Some (if negate then \<not> v else v)
                         | None \<Rightarrow> direct)
                   else direct)
             else direct)
      in case optno_by_name name of
           Some o' \<Rightarrow> if o' > 0 \<and> o' < OPT_SIZE then flat_value (flat (opts_live c) ! nat o') else routed
         | None \<Rightarrow> routed)"

text \<open>A write that changes nothing leaves the cache warm.\<close>

definition opt_state_set :: "string \<Rightarrow> bool \<Rightarrow> opt_cells \<Rightarrow> opt_cells" where
  "opt_state_set name v c =
     (if store_get (opts_live c) name = Some v then c
      else invalidate_one (optlookup name) (c\<lparr>opts_live := store_set name v (opts_live c)\<rparr>))"

definition opt_state_unset :: "string \<Rightarrow> opt_cells \<Rightarrow> opt_cells" where
  "opt_state_unset name c =
     (if store_get (opts_live c) name = None then c
      else invalidate_one (optlookup name) (c\<lparr>opts_live := store_remove name (opts_live c)\<rparr>))"

definition raw_set :: "string \<Rightarrow> bool \<Rightarrow> opt_cells \<Rightarrow> opt_cells" where
  "raw_set name on c = (if on then opt_state_set name True c else opt_state_unset name c)"

definition opt_state_set_via_alias :: "string \<Rightarrow> bool \<Rightarrow> opt_cells \<Rightarrow> bool \<times> opt_cells" where
  "opt_state_set_via_alias name on c =
     (let optno = optlookup name in
      if optno = OPT_INVALID then (False, raw_set name on c)
      else (let (target_optno, negate) = (if optno < 0 then (- optno, True) else (optno, False));
                target_name = opt_name target_optno in
            if target_name = [] then (False, raw_set name on c)
            else (True, opt_state_set target_name (if negate then \<not> on else on) c)))"

definition opt_state_snapshot :: "opt_cells \<Rightarrow> (string \<times> bool) list" where
  "opt_state_snapshot c = to_map (opts_live c)"

definition opt_state_len :: "opt_cells \<Rightarrow> nat" where
  "opt_state_len c = store_len (opts_live c)"

text \<open>The keys at which two maps differ, those of the first before those of the second.\<close>

definition changed_keys :: "(string \<times> bool) list \<Rightarrow> (string \<times> bool) list \<Rightarrow> string list" where
  "changed_keys old new =
     map fst (filter (\<lambda>(k, v). map_of new k \<noteq> Some v) old) @
     map fst (filter (\<lambda>(k, v). map_of old k \<noteq> Some v) new)"

definition opt_state_restore :: "(string \<times> bool) list \<Rightarrow> opt_cells \<Rightarrow> opt_cells" where
  "opt_state_restore snap c =
     (let changed = changed_keys (to_map (opts_live c)) snap in
      fold (\<lambda>k. invalidate_one (optlookup k)) changed (c\<lparr>opts_live := from_map snap\<rparr>))"

text \<open>What \<open>doshfunc\<close> does around every call: \<open>save\<close>, and \<open>restore\<close> with \<open>PRIVILEGED\<close> carried over.\<close>

definition store_save :: "opt_cells \<Rightarrow> opt_state_store" where
  "store_save c = opts_live c"

definition changed_slots :: "int list \<Rightarrow> int list \<Rightarrow> int list" where
  "changed_slots old new = map fst (filter (\<lambda>(i, a, b). a \<noteq> b) (zip [0..OPT_SIZE - 1] (zip old new)))"

definition store_restore :: "opt_state_store \<Rightarrow> opt_cells \<Rightarrow> opt_cells" where
  "store_restore st c =
     (let changed = changed_slots (flat (opts_live c)) (flat st);
          changed_extra = changed_keys (extra (opts_live c)) (extra st);
          c = c\<lparr>opts_live := st\<rparr>;
          c = fold invalidate_one changed c
      in fold (\<lambda>k. invalidate_one (optlookup k)) changed_extra c)"

definition saved_get :: "opt_state_store \<Rightarrow> string \<Rightarrow> bool option" where
  "saved_get = store_get"

definition carry_privileged_from_live :: "opt_cells \<Rightarrow> opt_state_store \<Rightarrow> opt_state_store" where
  "carry_privileged_from_live c st =
     (case opt_state_get c (opt_name PRIVILEGED) of
        Some v \<Rightarrow> store_set (opt_name PRIVILEGED) v st
      | None \<Rightarrow> store_remove (opt_name PRIVILEGED) st)"

text \<open>The end of \<open>doshfunc\<close>: everything comes back when \<open>localoptions\<close> is on at the end of the
  body or a sticky emulation is undone, else the five options that always come back.  The cells
  of the emulation, restored beside them, are not options.\<close>

definition always_restored :: "string list" where
  "always_restored = [''xtrace'', ''printexitvalue'', ''localoptions'', ''localloops'', ''warnnestedvar'']"

definition function_return :: "bool \<Rightarrow> opt_state_store \<Rightarrow> opt_cells \<Rightarrow> opt_cells" where
  "function_return restore_sticky funcsave c =
     (if opt_state_get c ''localoptions'' = Some True \<or> restore_sticky
      then store_restore (carry_privileged_from_live c funcsave) c
      else fold (\<lambda>opt c. case saved_get funcsave opt of
                           Some v \<Rightarrow> opt_state_set opt v c
                         | None \<Rightarrow> c)
             always_restored c)"

section \<open>Reading\<close>

definition authoritative :: "opt_cells \<Rightarrow> int \<Rightarrow> bool" where
  "authoritative c optno = (opt_state_get c (opt_name optno) = Some True)"

text \<open>\<open>is_set\<close> in one thread; \<open>OptRace\<close> takes its steps apart.\<close>

definition is_set :: "int \<Rightarrow> opt_cells \<Rightarrow> bool \<times> opt_cells" where
  "is_set optno c =
     (if optno < 0 \<or> optno \<ge> OPT_SIZE then (authoritative c optno, c)
      else (let i = nat optno; cached = opts_cache c ! i in
            if cached \<ge> 0 then (cached \<noteq> 0, c)
            else (let gen = opt_gen c;
                      v = authoritative c optno;
                      c = c\<lparr>opts_cache := (opts_cache c)[i := of_bool v]\<rparr>;
                      c = (if opt_gen c \<noteq> gen then c\<lparr>opts_cache := (opts_cache c)[i := - 1]\<rparr> else c)
                  in (v, c))))"

section \<open>The store is a map from names to values\<close>

definition store_ok :: "opt_state_store \<Rightarrow> bool" where
  "store_ok st \<longleftrightarrow> length (flat st) = 186 \<and> flat st ! 0 = - 1 \<and> set (flat st) \<subseteq> {- 1, 0, 1} \<and>
     distinct (map fst (extra st)) \<and> (\<forall>k. optno_by_name k \<noteq> None \<longrightarrow> map_of (extra st) k = None)"

lemma slot_eq: "slot name = map_option nat (optno_by_name name)"
  using optno_range [of name] by (auto simp: slot_def split: option.split)

lemma slot_Some:
  assumes "slot name = Some i"
  shows "0 < i" "i < 186" "name = opt_name (int i)" "name \<noteq> []" "optno_by_name name = Some (int i)"
proof -
  obtain z where z: "optno_by_name name = Some z" "i = nat z" using assms by (auto simp: slot_eq)
  then have "0 < z" "z < 186" using optno_range by (auto simp: OPT_SIZE_def)
  with z show "0 < i" "i < 186" "optno_by_name name = Some (int i)" by auto
  then show "name = opt_name (int i)" "name \<noteq> []" unfolding optno_by_name_iff by blast+
qed

lemma slot_inj: "slot a = Some i \<Longrightarrow> slot b = Some i \<Longrightarrow> a = b"
  using slot_Some(3) by metis

lemma slot_None: "slot name = None \<longleftrightarrow> optno_by_name name = None"
  by (simp add: slot_eq)

lemma flat_value_simps [simp]: "flat_value (of_bool b) = Some b" "flat_value (- 1) = None"
  by (simp_all add: flat_value_def)

lemma empty_store_ok: "store_ok empty_store"
  by (simp add: store_ok_def empty_store_def OPT_SIZE_def set_replicate_conv_if)

lemma store_get_empty [simp]: "store_get empty_store = (\<lambda>_. None)"
  by (rule ext) (auto simp: store_get_def empty_store_def OPT_SIZE_def dest: slot_Some(2) split: option.split)

lemma store_set_ok:
  assumes "store_ok st"
  shows "store_ok (store_set name v st)"
proof (cases "slot name")
  case None
  then show ?thesis
    using assms None [unfolded slot_None] by (auto simp: store_ok_def store_set_def distinct_update update_conv')
next
  case (Some i)
  have "set ((flat st)[i := of_bool v]) \<subseteq> insert (of_bool v) (set (flat st))" by (rule set_update_subset_insert)
  then show ?thesis
    using assms Some slot_Some(1) [OF Some] by (auto simp: store_ok_def store_set_def)
qed

lemma store_remove_ok:
  assumes "store_ok st"
  shows "store_ok (store_remove name st)"
proof (cases "slot name")
  case None
  then show ?thesis
    using assms None [unfolded slot_None] by (auto simp: store_ok_def store_remove_def distinct_delete delete_conv')
next
  case (Some i)
  have "set ((flat st)[i := - 1]) \<subseteq> insert (- 1) (set (flat st))" by (rule set_update_subset_insert)
  then show ?thesis
    using assms Some slot_Some(1) [OF Some] by (auto simp: store_ok_def store_remove_def)
qed

lemma store_get_set:
  assumes "store_ok st"
  shows "store_get (store_set name v st) = (store_get st)(name \<mapsto> v)"
proof (rule ext)
  fix k
  show "store_get (store_set name v st) k = ((store_get st)(name \<mapsto> v)) k"
  proof (cases "slot name")
    case None
    then show ?thesis by (auto simp: store_get_def store_set_def update_conv' split: option.split)
  next
    case (Some i)
    then have "i < length (flat st)" using slot_Some(2) assms by (simp add: store_ok_def)
    moreover have "slot k \<noteq> Some i" if "k \<noteq> name" using that Some slot_inj by blast
    ultimately show ?thesis using Some
      by (cases "k = name"; cases "slot k") (simp_all add: store_get_def store_set_def nth_list_update)
  qed
qed

lemma store_get_remove:
  assumes "store_ok st"
  shows "store_get (store_remove name st) = (store_get st)(name := None)"
proof (rule ext)
  fix k
  show "store_get (store_remove name st) k = ((store_get st)(name := None)) k"
  proof (cases "slot name")
    case None
    then show ?thesis by (auto simp: store_get_def store_remove_def delete_conv' split: option.split)
  next
    case (Some i)
    then have "i < length (flat st)" using slot_Some(2) assms by (simp add: store_ok_def)
    moreover have "slot k \<noteq> Some i" if "k \<noteq> name" using that Some slot_inj by blast
    ultimately show ?thesis using Some
      by (cases "k = name"; cases "slot k") (simp_all add: store_get_def store_remove_def nth_list_update)
  qed
qed

text \<open>There and back through the name keyed view.\<close>

lemma store_fold_ok: "store_ok st \<Longrightarrow> store_ok (fold (\<lambda>(k, v). store_set k v) m st)"
  by (induction m arbitrary: st) (auto simp: store_set_ok)

lemma store_get_fold:
  "store_ok st \<Longrightarrow> store_get (fold (\<lambda>(k, v). store_set k v) m st) = store_get st ++ map_of (rev m)"
  by (induction m arbitrary: st) (auto simp: store_set_ok store_get_set)

lemma from_map_ok: "store_ok (from_map m)"
  by (simp add: from_map_def store_fold_ok empty_store_ok)

lemma map_of_rev: "distinct (map fst m) \<Longrightarrow> map_of (rev m) = map_of m"
  by (rule ext) (metis map_of_eq_Some_iff not_None_eq distinct_rev rev_map set_rev)

lemma store_get_from_map: "distinct (map fst m) \<Longrightarrow> store_get (from_map m) = map_of m"
  by (simp add: from_map_def store_get_fold empty_store_ok map_of_rev)

lemma update_fold: "map_of (fold (\<lambda>(k, v). AList.update k v) xs m) = map_of m ++ map_of (rev xs)"
  by (induction xs arbitrary: m) (auto simp: update_conv')

lemma distinct_update_fold: "distinct (map fst m) \<Longrightarrow> distinct (map fst (fold (\<lambda>(k, v). AList.update k v) xs m))"
  by (induction xs arbitrary: m) (auto simp: distinct_update)

end
