(* ===== verification/OptCache.thy ===== *)
theory OptCache
  imports OptStore
begin

text \<open>
  The cells of \<open>OptStore\<close> carry out a map from names to values: the cache in front of the store is
  never seen to disagree with it, whatever is written, saved, restored or read.
\<close>

section \<open>The name keyed view\<close>

lemma map_slot_fold:
  assumes "distinct (map fst ivs)"
  shows "map_of (fold map_slot ivs out) k =
    (case optno_by_name k of
       None \<Rightarrow> map_of out k
     | Some i \<Rightarrow> (case map_of ivs i of
         None \<Rightarrow> map_of out k
       | Some v \<Rightarrow> if v < 0 then map_of out k else Some (v = 1)))"
  using assms
proof (induction ivs arbitrary: out)
  case Nil
  show ?case by (simp split: option.split)
next
  case (Cons iv ivs)
  obtain i v where iv: "iv = (i, v)" by force
  have gone: "map_of ivs i = None" using Cons.prems iv by (simp add: map_of_eq_None_iff)
  have here: "map_of (map_slot (i, v) out) k =
      (if optno_by_name k = Some i \<and> \<not> v < 0 then Some (v = 1) else map_of out k)"
    by (auto simp: map_slot_def update_conv' optno_by_name_iff)
  show ?case
    using Cons.prems iv gone
    by (cases "optno_by_name k") (auto simp: Cons.IH here split: option.split)
qed

lemma map_of_to_map: "store_ok st \<Longrightarrow> map_of (to_map st) = store_get st"
proof (rule ext)
  fix k
  assume ok: "store_ok st"
  have slots: "map_of (zip [0..OPT_SIZE - 1] (flat st)) i = Some (flat st ! nat i)" if "0 < i" "i < OPT_SIZE" for i
    using ok that by (intro map_of_is_SomeI)
      (auto simp: store_ok_def OPT_SIZE_def in_set_zip map_fst_zip_take intro!: exI [of _ "nat i"])
  have "map_of (fold map_slot (zip [0..OPT_SIZE - 1] (flat st)) []) k =
      (case optno_by_name k of None \<Rightarrow> None | Some i \<Rightarrow> flat_value (flat st ! nat i))"
  proof (cases "optno_by_name k")
    case (Some i)
    then have i: "0 < i" "i < OPT_SIZE" using optno_range by auto
    then have "flat st ! nat i \<in> set (flat st)" using ok by (simp add: store_ok_def OPT_SIZE_def)
    then have "flat st ! nat i \<in> {- 1, 0, 1}" using ok unfolding store_ok_def by blast
    then show ?thesis using Some slots [OF i]
      by (subst map_slot_fold) (auto simp: flat_value_def map_fst_zip_take)
  qed (subst map_slot_fold; simp add: map_fst_zip_take)
  then show "map_of (to_map st) k = store_get st k"
    using ok by (auto simp: to_map_def update_fold map_of_rev store_ok_def store_get_def slot_eq map_add_def
        split: option.split)
qed

lemma distinct_to_map: "distinct (map fst (to_map st))"
proof -
  have "distinct (map fst out) \<Longrightarrow> distinct (map fst (fold map_slot ivs out))" for ivs out
    by (induction ivs arbitrary: out) (auto simp: map_slot_def distinct_update split: prod.split)
  then show ?thesis by (simp add: to_map_def distinct_update_fold)
qed

section \<open>Reading through the cells\<close>

text \<open>What a name reads in a map from names to values.\<close>

definition map_read :: "(string \<Rightarrow> bool option) \<Rightarrow> string \<Rightarrow> bool option" where
  "map_read m name =
     (let optno = optlookup name in
      if optno_by_name name \<noteq> None \<or> optno = OPT_INVALID then m name
      else (case m (opt_name \<bar>optno\<bar>) of
              Some v \<Rightarrow> Some (if optno < 0 then \<not> v else v)
            | None \<Rightarrow> m name))"

lemma optlookup_target:
  "optlookup s \<noteq> OPT_INVALID \<Longrightarrow> opt_name \<bar>optlookup s\<bar> \<noteq> []"
  using optlookup_range [of s] opt_name_range [of "\<bar>optlookup s\<bar>"] by (auto simp: OPT_INVALID_def)

lemma opt_state_get_read: "opt_state_get c name = map_read (store_get (opts_live c)) name"
proof (cases "optno_by_name name")
  case (Some o')
  then show ?thesis using optno_range [OF Some]
    by (simp add: opt_state_get_def map_read_def store_get_def slot_def)
next
  case None
  let ?k = "optlookup name"
  show ?thesis
  proof (cases "?k = OPT_INVALID")
    case True
    then show ?thesis using None by (simp add: opt_state_get_def map_read_def)
  next
    case False
    then have "opt_name \<bar>?k\<bar> \<noteq> []" by (rule optlookup_target)
    moreover from this have "opt_name \<bar>?k\<bar> \<noteq> name"
      using None optno_by_name_iff [of name "\<bar>?k\<bar>"] by auto
    ultimately show ?thesis using None False
      by (cases "?k < 0") (simp_all add: opt_state_get_def map_read_def Let_def split: option.split)
  qed
qed

lemma optlookup_zero: "optlookup [] = 0"
  by code_simp

lemma map_read_opt_name: "map_read m (opt_name i) = m (opt_name i)"
  by (auto simp: map_read_def Let_def optlookup_zero OPT_INVALID_def)

lemma authoritative_eq: "authoritative c i \<longleftrightarrow> store_get (opts_live c) (opt_name i) = Some True"
  by (simp add: authoritative_def opt_state_get_read map_read_opt_name)

section \<open>The cache agrees with the store\<close>

text \<open>All slots but some do.\<close>

definition cache_agrees :: "nat set \<Rightarrow> opt_cells \<Rightarrow> bool" where
  "cache_agrees S c \<longleftrightarrow> length (opts_cache c) = 186 \<and>
     (\<forall>i < 186. i \<notin> S \<longrightarrow> opts_cache c ! i = - 1 \<or> opts_cache c ! i = of_bool (authoritative c (int i)))"

definition cells_ok :: "opt_cells \<Rightarrow> bool" where
  "cells_ok c \<longleftrightarrow> store_ok (opts_live c) \<and> cache_agrees {} c"

lemma fresh_cells_ok: "cells_ok fresh_cells"
  by (simp add: cells_ok_def cache_agrees_def fresh_cells_def empty_store_ok OPT_SIZE_def)

lemma invalidate_one_live [simp]: "opts_live (invalidate_one k c) = opts_live c"
  by (simp add: invalidate_one_def Let_def)

lemma invalidate_fold_live [simp]: "opts_live (fold (\<lambda>x. invalidate_one (f x)) ks c) = opts_live c"
  by (induction ks arbitrary: c) auto

lemma invalidate_one_cache:
  "length (opts_cache c) = 186 \<Longrightarrow> opts_cache (invalidate_one k c) = (opts_cache c)[nat \<bar>k\<bar> := - 1]"
  by (simp add: invalidate_one_def Let_def OPT_SIZE_def list_update_beyond)

lemma invalidate_one_agrees:
  assumes "cache_agrees S c"
  shows "cache_agrees (S - {nat \<bar>k\<bar>}) (invalidate_one k c)"
proof -
  have len: "length (opts_cache c) = 186" using assms by (simp add: cache_agrees_def)
  have "opts_cache (invalidate_one k c) ! i = - 1 \<or>
      opts_cache (invalidate_one k c) ! i = of_bool (authoritative (invalidate_one k c) (int i))"
    if "i < 186" "i \<notin> S - {nat \<bar>k\<bar>}" for i
    using assms that len by (cases "i = nat \<bar>k\<bar>") (simp_all add: invalidate_one_cache cache_agrees_def authoritative_eq)
  then show ?thesis using len by (simp add: cache_agrees_def invalidate_one_cache)
qed

lemma invalidate_fold_agrees:
  "cache_agrees S c \<Longrightarrow>
   cache_agrees (S - (\<lambda>x. nat \<bar>f x\<bar>) ` set ks) (fold (\<lambda>x. invalidate_one (f x)) ks c)"
proof (induction ks arbitrary: S c)
  case (Cons k ks)
  have "(S - {nat \<bar>f k\<bar>}) - (\<lambda>x. nat \<bar>f x\<bar>) ` set ks = S - (\<lambda>x. nat \<bar>f x\<bar>) ` set (k # ks)" by auto
  then show ?case using Cons.IH [OF invalidate_one_agrees [OF Cons.prems, of "f k"]] by (simp only: fold_simps comp_def)
qed simp

lemma cache_agrees_mono: "cache_agrees S c \<Longrightarrow> S \<subseteq> T \<Longrightarrow> cache_agrees T c"
  by (auto simp: cache_agrees_def)

text \<open>A new store spoils the slots of the options whose value it changes.\<close>

lemma cache_agrees_store:
  assumes "cache_agrees {} c"
    "\<And>i. i < 186 \<Longrightarrow> i \<notin> S \<Longrightarrow> store_get st (opt_name (int i)) = store_get (opts_live c) (opt_name (int i))"
  shows "cache_agrees S (c\<lparr>opts_live := st\<rparr>)"
  using assms by (auto simp: cache_agrees_def authoritative_eq)

lemma opt_name_slot: "i < 186 \<Longrightarrow> i = nat \<bar>optlookup (opt_name (int i))\<bar>"
  using opt_name_range [of "int i"] by (auto simp: optlookup_opt_name OPT_SIZE_def)

lemma one_write:
  assumes ok: "cells_ok c" and st: "store_ok st" "\<And>k. k \<noteq> name \<Longrightarrow> store_get st k = store_get (opts_live c) k"
  shows "cells_ok (invalidate_one (optlookup name) (c\<lparr>opts_live := st\<rparr>))"
proof -
  have "cache_agrees {nat \<bar>optlookup name\<bar>} (c\<lparr>opts_live := st\<rparr>)"
  proof (rule cache_agrees_store)
    show "cache_agrees {} c" using ok by (simp add: cells_ok_def)
    fix i :: nat
    assume "i < 186" "i \<notin> {nat \<bar>optlookup name\<bar>}"
    then have "opt_name (int i) \<noteq> name" using opt_name_slot by blast
    then show "store_get st (opt_name (int i)) = store_get (opts_live c) (opt_name (int i))" by (rule st(2))
  qed
  then have "cache_agrees {} (invalidate_one (optlookup name) (c\<lparr>opts_live := st\<rparr>))"
    using invalidate_one_agrees [where k = "optlookup name"] by fastforce
  with st(1) show ?thesis by (simp add: cells_ok_def)
qed

lemma opt_state_set_ok:
  assumes "cells_ok c"
  shows "cells_ok (opt_state_set name v c)"
proof -
  have "store_ok (opts_live c)" using assms by (simp add: cells_ok_def)
  then have "cells_ok (invalidate_one (optlookup name) (c\<lparr>opts_live := store_set name v (opts_live c)\<rparr>))"
    by (intro one_write [OF assms]) (simp_all add: store_set_ok store_get_set)
  then show ?thesis using assms by (simp add: opt_state_set_def)
qed

lemma opt_state_unset_ok:
  assumes "cells_ok c"
  shows "cells_ok (opt_state_unset name c)"
proof -
  have "store_ok (opts_live c)" using assms by (simp add: cells_ok_def)
  then have "cells_ok (invalidate_one (optlookup name) (c\<lparr>opts_live := store_remove name (opts_live c)\<rparr>))"
    by (intro one_write [OF assms]) (simp_all add: store_remove_ok store_get_remove)
  then show ?thesis using assms by (simp add: opt_state_unset_def)
qed

lemma opt_state_set_live:
  "cells_ok c \<Longrightarrow> store_get (opts_live (opt_state_set name v c)) = (store_get (opts_live c))(name \<mapsto> v)"
  by (auto simp: opt_state_set_def cells_ok_def store_get_set)

lemma opt_state_unset_live:
  "cells_ok c \<Longrightarrow> store_get (opts_live (opt_state_unset name c)) = (store_get (opts_live c))(name := None)"
  by (auto simp: opt_state_unset_def cells_ok_def store_get_remove)


section \<open>Reads, restores and the end of a function\<close>

lemma is_set_reads:
  assumes "cells_ok c"
  shows "fst (is_set i c) = (store_get (opts_live c) (opt_name i) = Some True)"
    "opts_live (snd (is_set i c)) = opts_live c" "cells_ok (snd (is_set i c))"
proof -
  have agree: "length (opts_cache c) = 186"
    "0 \<le> i \<Longrightarrow> i < 186 \<Longrightarrow> opts_cache c ! nat i = - 1 \<or> opts_cache c ! nat i = of_bool (authoritative c i)"
  proof -
    show "length (opts_cache c) = 186" using assms by (simp add: cells_ok_def cache_agrees_def)
    assume "0 \<le> i" "i < 186"
    moreover from this have "nat i < 186" by simp
    ultimately show "opts_cache c ! nat i = - 1 \<or> opts_cache c ! nat i = of_bool (authoritative c i)"
      using assms unfolding cells_ok_def cache_agrees_def by (metis empty_iff nat_0_le)
  qed
  show "fst (is_set i c) = (store_get (opts_live c) (opt_name i) = Some True)"
    using agree by (auto simp: is_set_def Let_def OPT_SIZE_def authoritative_eq)
  show "opts_live (snd (is_set i c)) = opts_live c"
    by (simp add: is_set_def Let_def)
  show "cells_ok (snd (is_set i c))"
  proof (cases "0 \<le> i \<and> i < OPT_SIZE \<and> opts_cache c ! nat i < 0")
    case True
    then have snd: "snd (is_set i c) = c\<lparr>opts_cache := (opts_cache c)[nat i := of_bool (authoritative c i)]\<rparr>"
      by (simp add: is_set_def Let_def)
    have "opts_cache (snd (is_set i c)) ! j = - 1 \<or>
        opts_cache (snd (is_set i c)) ! j = of_bool (authoritative (snd (is_set i c)) (int j))" if "j < 186" for j
      using assms that True agree(1) unfolding snd
      by (cases "j = nat i") (simp_all add: cells_ok_def cache_agrees_def authoritative_eq)
    then show ?thesis using assms agree(1) unfolding snd by (simp add: cells_ok_def cache_agrees_def)
  next
    case False
    then have "snd (is_set i c) = c" by (auto simp: is_set_def Let_def)
    then show ?thesis using assms by simp
  qed
qed

lemma changed_keys_cover: "map_of old k \<noteq> map_of new k \<Longrightarrow> k \<in> set (changed_keys old new)"
  by (cases "map_of old k"; cases "map_of new k")
    (force simp: changed_keys_def dest: map_of_SomeD)+

lemma changed_slots_cover:
  "length old = 186 \<Longrightarrow> length new = 186 \<Longrightarrow> i < 186 \<Longrightarrow> old ! i \<noteq> new ! i \<Longrightarrow>
   int i \<in> set (changed_slots old new)"
  by (force simp: changed_slots_def in_set_zip OPT_SIZE_def image_iff intro: exI [of _ i])

lemma opt_state_restore_works:
  assumes "cells_ok c" "distinct (map fst snap)"
  shows "cells_ok (opt_state_restore snap c)"
    "store_get (opts_live (opt_state_restore snap c)) = map_of snap"
proof -
  define changed where "changed = changed_keys (to_map (opts_live c)) snap"
  have ok: "store_ok (opts_live c)" "cache_agrees {} c" using assms(1) by (simp_all add: cells_ok_def)
  have "cache_agrees ((\<lambda>k. nat \<bar>optlookup k\<bar>) ` set changed) (c\<lparr>opts_live := from_map snap\<rparr>)"
  proof (rule cache_agrees_store [OF ok(2)])
    fix i :: nat
    assume i: "i < 186" "i \<notin> (\<lambda>k. nat \<bar>optlookup k\<bar>) ` set changed"
    then have "opt_name (int i) \<notin> set changed" using opt_name_slot by blast
    then have "map_of (to_map (opts_live c)) (opt_name (int i)) = map_of snap (opt_name (int i))"
      using changed_keys_cover unfolding changed_def by blast
    then show "store_get (from_map snap) (opt_name (int i)) = store_get (opts_live c) (opt_name (int i))"
      using assms(2) ok(1) by (simp add: map_of_to_map store_get_from_map)
  qed
  from invalidate_fold_agrees [OF this, of optlookup changed]
  show "cells_ok (opt_state_restore snap c)"
    by (simp add: opt_state_restore_def changed_def cells_ok_def from_map_ok Let_def)
  show "store_get (opts_live (opt_state_restore snap c)) = map_of snap"
    using assms(2) by (simp add: opt_state_restore_def Let_def store_get_from_map)
qed

lemma store_restore_works:
  assumes "cells_ok c" "store_ok st"
  shows "cells_ok (store_restore st c)" "opts_live (store_restore st c) = st"
proof -
  let ?flat = "changed_slots (flat (opts_live c)) (flat st)"
  let ?extra = "changed_keys (extra (opts_live c)) (extra st)"
  define S where "S = (\<lambda>x. nat \<bar>x\<bar>) ` set ?flat \<union> (\<lambda>k. nat \<bar>optlookup k\<bar>) ` set ?extra"
  have ok: "store_ok (opts_live c)" "cache_agrees {} c" using assms(1) by (simp_all add: cells_ok_def)
  have "cache_agrees S (c\<lparr>opts_live := st\<rparr>)"
  proof (rule cache_agrees_store [OF ok(2)])
    fix i :: nat
    assume i: "i < 186" "i \<notin> S"
    show "store_get st (opt_name (int i)) = store_get (opts_live c) (opt_name (int i))"
    proof (cases "slot (opt_name (int i))")
      case None
      have "opt_name (int i) \<notin> set ?extra" using i opt_name_slot by (auto simp: S_def)
      then have "map_of (extra (opts_live c)) (opt_name (int i)) = map_of (extra st) (opt_name (int i))"
        using changed_keys_cover by blast
      then show ?thesis using None by (simp add: store_get_def)
    next
      case (Some j)
      then have "j = i" using slot_Some(3,4) [OF Some] opt_name_inj by fastforce
      moreover have "int i \<notin> set ?flat" using i by (force simp: S_def image_iff)
      ultimately show ?thesis using Some changed_slots_cover i(1) ok(1) assms(2)
        by (force simp: store_get_def store_ok_def)
    qed
  qed
  from invalidate_fold_agrees [OF invalidate_fold_agrees [OF this, of "\<lambda>x. x" ?flat], of optlookup ?extra]
  have "cache_agrees (S - (\<lambda>x. nat \<bar>x\<bar>) ` set ?flat - (\<lambda>k. nat \<bar>optlookup k\<bar>) ` set ?extra) (store_restore st c)"
    by (simp add: store_restore_def Let_def)
  moreover have "S - (\<lambda>x. nat \<bar>x\<bar>) ` set ?flat - (\<lambda>k. nat \<bar>optlookup k\<bar>) ` set ?extra = {}"
    by (auto simp: S_def)
  ultimately have "cache_agrees {} (store_restore st c)" by simp
  then show "cells_ok (store_restore st c)" using assms(2)
    by (simp add: cells_ok_def store_restore_def Let_def invalidate_fold_live [of "\<lambda>x. x", simplified])
  show "opts_live (store_restore st c) = st"
    by (simp add: store_restore_def Let_def invalidate_fold_live [of "\<lambda>x. x", simplified])
qed

text \<open>What the end of a function leaves, as a map.\<close>

definition map_return ::
  "bool \<Rightarrow> (string \<Rightarrow> bool option) \<Rightarrow> (string \<Rightarrow> bool option) \<Rightarrow> (string \<Rightarrow> bool option)" where
  "map_return sticky saved m =
     (if m ''localoptions'' = Some True \<or> sticky then saved(''privileged'' := m ''privileged'')
      else fold (\<lambda>opt m. case saved opt of Some v \<Rightarrow> m(opt \<mapsto> v) | None \<Rightarrow> m)
             always_restored m)"

lemma optno_localoptions: "optno_by_name ''localoptions'' \<noteq> None"
  by (simp add: optno_by_name_None set_opt_names) (simp add: names_l_def)

lemma function_return_works:
  assumes c: "cells_ok c" and st: "store_ok st"
  shows "cells_ok (function_return sticky st c)"
    "store_get (opts_live (function_return sticky st c)) =
     map_return sticky (store_get st) (store_get (opts_live c))"
proof -
  have local: "opt_state_get c ''localoptions'' = store_get (opts_live c) ''localoptions''"
    using optno_localoptions by (simp add: opt_state_get_read map_read_def)
  have priv: "opt_state_get c (opt_name PRIVILEGED) = store_get (opts_live c) ''privileged''"
    unfolding opt_state_get_read map_read_opt_name by (simp add: opt_name_values)
  let ?st = "carry_privileged_from_live c st"
  have carried: "store_ok ?st" "store_get ?st = (store_get st)(''privileged'' := store_get (opts_live c) ''privileged'')"
    unfolding carry_privileged_from_live_def priv
    using st by (auto simp: store_set_ok store_remove_ok store_get_set store_get_remove opt_name_values
        split: option.split)
  have five: "cells_ok (fold (\<lambda>opt c. case saved_get st opt of Some v \<Rightarrow> opt_state_set opt v c | None \<Rightarrow> c) opts c) \<and>
      store_get (opts_live (fold (\<lambda>opt c. case saved_get st opt of Some v \<Rightarrow> opt_state_set opt v c | None \<Rightarrow> c) opts c)) =
      fold (\<lambda>opt m. case store_get st opt of Some v \<Rightarrow> m(opt \<mapsto> v) | None \<Rightarrow> m) opts (store_get (opts_live c))"
    if "cells_ok c" for opts c
    using that
    by (induction opts arbitrary: c)
      (auto simp: saved_get_def opt_state_set_ok opt_state_set_live split: option.split)
  show "cells_ok (function_return sticky st c)"
    using five [OF c] store_restore_works(1) [OF c carried(1)] by (simp add: function_return_def)
  show "store_get (opts_live (function_return sticky st c)) =
      map_return sticky (store_get st) (store_get (opts_live c))"
    unfolding function_return_def map_return_def local
    using five [OF c] store_restore_works(2) [OF c carried(1)] carried(2) by simp
qed

section \<open>Runs of the shell over the options\<close>

text \<open>One operation of the shell on its options.  A function call and a subshell put what they
  saved on a stack and take it back when they end.\<close>

datatype opt_op = Write string bool | Forget string | WriteAlias string bool | IsSet int | Read string
  | Table | Flush | CallFunction | FunctionEnds bool | EnterSubshell | LeaveSubshell

datatype opt_answer = Done | Answer bool | Value "bool option" | Values "string \<Rightarrow> bool option"

datatype ('a, 'b) saved = OfFunction 'a | OfSubshell 'b

type_synonym opt_cells_state = "opt_cells \<times> (opt_state_store, (string \<times> bool) list) saved list"
type_synonym 'm opt_map_state = "'m \<times> ('m, 'm) saved list"

fun opt_step :: "opt_op \<Rightarrow> opt_cells_state \<Rightarrow> opt_answer \<times> opt_cells_state" where
  "opt_step (Write name v) (c, saved) = (Done, opt_state_set name v c, saved)"
| "opt_step (Forget name) (c, saved) = (Done, opt_state_unset name c, saved)"
| "opt_step (WriteAlias name on) (c, saved) =
     (let (known, c) = opt_state_set_via_alias name on c in (Answer known, c, saved))"
| "opt_step (IsSet i) (c, saved) = (let (b, c) = is_set i c in (Answer b, c, saved))"
| "opt_step (Read name) (c, saved) = (Value (opt_state_get c name), c, saved)"
| "opt_step Table (c, saved) = (Values (map_of (opt_state_snapshot c)), c, saved)"
| "opt_step Flush (c, saved) = (Done, invalidate_all c, saved)"
| "opt_step CallFunction (c, saved) = (Done, c, OfFunction (store_save c) # saved)"
| "opt_step (FunctionEnds sticky) (c, OfFunction st # saved) = (Done, function_return sticky st c, saved)"
| "opt_step EnterSubshell (c, saved) = (Done, c, OfSubshell (opt_state_snapshot c) # saved)"
| "opt_step LeaveSubshell (c, OfSubshell snap # saved) = (Done, opt_state_restore snap c, saved)"
| "opt_step op st = (Done, st)"

text \<open>The same operation on a map from names to values.\<close>

fun map_step :: "opt_op \<Rightarrow> (string \<Rightarrow> bool option) opt_map_state \<Rightarrow> opt_answer \<times> (string \<Rightarrow> bool option) opt_map_state" where
  "map_step (Write name v) (m, saved) = (Done, m(name \<mapsto> v), saved)"
| "map_step (Forget name) (m, saved) = (Done, m(name := None), saved)"
| "map_step (WriteAlias name on) (m, saved) =
     (let optno = optlookup name in
      if optno = OPT_INVALID then (Answer False, if on then m(name \<mapsto> True) else m(name := None), saved)
      else (Answer True, m(opt_name \<bar>optno\<bar> \<mapsto> (if optno < 0 then \<not> on else on)), saved))"
| "map_step (IsSet i) (m, saved) = (Answer (m (opt_name i) = Some True), m, saved)"
| "map_step (Read name) (m, saved) = (Value (map_read m name), m, saved)"
| "map_step Table (m, saved) = (Values m, m, saved)"
| "map_step Flush (m, saved) = (Done, m, saved)"
| "map_step CallFunction (m, saved) = (Done, m, OfFunction m # saved)"
| "map_step (FunctionEnds sticky) (m, OfFunction f # saved) = (Done, map_return sticky f m, saved)"
| "map_step EnterSubshell (m, saved) = (Done, m, OfSubshell m # saved)"
| "map_step LeaveSubshell (m, OfSubshell f # saved) = (Done, f, saved)"
| "map_step op st = (Done, st)"

text \<open>The answers of a run.\<close>

fun answers :: "('op \<Rightarrow> 's \<Rightarrow> 'a \<times> 's) \<Rightarrow> 'op list \<Rightarrow> 's \<Rightarrow> 'a list" where
  "answers step [] s = []"
| "answers step (op # ops) s = fst (step op s) # answers step ops (snd (step op s))"

text \<open>A machine that simulates another one answers as it does.\<close>

locale simulates =
  fixes step :: "'op \<Rightarrow> 's \<Rightarrow> 'a \<times> 's" and spec :: "'op \<Rightarrow> 't \<Rightarrow> 'a \<times> 't"
    and abs :: "'s \<Rightarrow> 't" and ok :: "'s \<Rightarrow> bool"
  assumes ok_step: "ok s \<Longrightarrow> ok (snd (step op s))"
    and same_answer: "ok s \<Longrightarrow> fst (step op s) = fst (spec op (abs s))"
    and same_state: "ok s \<Longrightarrow> abs (snd (step op s)) = snd (spec op (abs s))"
begin

lemma run_agrees: "ok s \<Longrightarrow> answers step ops s = answers spec ops (abs s)"
  by (induction ops arbitrary: s) (simp_all add: ok_step same_answer same_state)

end

definition opt_abs :: "opt_cells_state \<Rightarrow> (string \<Rightarrow> bool option) opt_map_state" where
  "opt_abs s = (store_get (opts_live (fst s)),
     map (\<lambda>x. case x of OfFunction st \<Rightarrow> OfFunction (store_get st) | OfSubshell m \<Rightarrow> OfSubshell (map_of m)) (snd s))"

definition opt_run_ok :: "opt_cells_state \<Rightarrow> bool" where
  "opt_run_ok s \<longleftrightarrow> cells_ok (fst s) \<and>
     list_all (\<lambda>x. case x of OfFunction st \<Rightarrow> store_ok st | OfSubshell m \<Rightarrow> distinct (map fst m)) (snd s)"

lemma raw_set_works:
  assumes "cells_ok c"
  shows "cells_ok (raw_set name on c)"
    "store_get (opts_live (raw_set name on c)) =
     (if on then (store_get (opts_live c))(name \<mapsto> True) else (store_get (opts_live c))(name := None))"
  using assms
  by (simp_all add: raw_set_def opt_state_set_ok opt_state_unset_ok opt_state_set_live opt_state_unset_live)

lemma set_via_alias_works:
  assumes "cells_ok c"
  shows "cells_ok (snd (opt_state_set_via_alias name on c))"
    "fst (opt_state_set_via_alias name on c) = (optlookup name \<noteq> OPT_INVALID)"
    "store_get (opts_live (snd (opt_state_set_via_alias name on c))) =
     (let optno = optlookup name in
      if optno = OPT_INVALID then (if on then (store_get (opts_live c))(name \<mapsto> True) else (store_get (opts_live c))(name := None))
      else (store_get (opts_live c))(opt_name \<bar>optno\<bar> \<mapsto> (if optno < 0 then \<not> on else on)))"
  using assms optlookup_target [of name]
  by (cases "optlookup name = OPT_INVALID"; cases "optlookup name < 0";
      simp add: opt_state_set_via_alias_def Let_def raw_set_works opt_state_set_ok opt_state_set_live)+

lemma invalidate_all_works:
  "cells_ok c \<Longrightarrow> cells_ok (invalidate_all c)" "opts_live (invalidate_all c) = opts_live c"
  by (simp_all add: invalidate_all_def cells_ok_def cache_agrees_def)

lemma opt_step_simulates:
  assumes "opt_run_ok s"
  shows "opt_run_ok (snd (opt_step op s)) \<and> fst (opt_step op s) = fst (map_step op (opt_abs s)) \<and>
    opt_abs (snd (opt_step op s)) = snd (map_step op (opt_abs s))"
proof -
  obtain c saved where s: "s = (c, saved)" by force
  then have c: "cells_ok c" and live: "store_ok (opts_live c)"
    using assms by (simp_all add: opt_run_ok_def cells_ok_def)
  note rules = c live map_of_to_map distinct_to_map is_set_reads set_via_alias_works opt_state_set_ok
    opt_state_unset_ok opt_state_set_live opt_state_unset_live invalidate_all_works
    function_return_works opt_state_restore_works opt_state_get_read
  show ?thesis
  proof (cases "(op, s)" rule: opt_step.cases)
  qed (use assms s in \<open>auto simp: opt_run_ok_def opt_abs_def case_prod_unfold opt_state_snapshot_def
      store_save_def rules Let_def\<close>)
qed

interpretation options: simulates opt_step map_step opt_abs opt_run_ok
  by unfold_locales (simp_all add: opt_step_simulates)

lemma fresh_run_ok: "opt_run_ok (fresh_cells, [])" "opt_abs (fresh_cells, []) = ((\<lambda>_. None), [])"
  by (simp_all add: opt_run_ok_def opt_abs_def fresh_cells_ok) (simp add: fresh_cells_def)

end
