(* ===== verification/OptRace.thy ===== *)
theory OptRace
  imports OptCache
begin

text \<open>
  Threads that read and write options at the same time: the steps of \<open>opts_cache::is_set\<close> and of
  the writers of \<open>options.rs\<close>, one shared access each.  The lock around the store makes every
  access to it one step; the atomics of the cache are taken to be sequentially consistent, as
  \<open>SeqCst\<close> makes all of them but the first load of a slot.
\<close>

text \<open>What a thread is doing, with the values it holds.  A reader that found the slot empty loads the
  generation, reads the store, stores what it read, and undoes that when the generation has moved
  on.  A writer has changed the store, and has slots left to invalidate; each one takes the
  generation up first and is then reset.  A flush takes the generation up once and resets them
  all.\<close>

datatype thread =
    Idle
  | Looked int
  | Missed int u64
  | Fetched int u64 bool
  | Stored int u64
  | Undoing int
  | Pending "int list"
  | Bumped int "int list"
  | Flushing "int list"

record race =
  shared :: opt_cells
  threads :: "nat \<Rightarrow> thread"

definition set_slot :: "int \<Rightarrow> int \<Rightarrow> opt_cells \<Rightarrow> opt_cells" where
  "set_slot i v c = c\<lparr>opts_cache := (opts_cache c)[nat i := v]\<rparr>"

definition goes :: "nat \<Rightarrow> thread \<Rightarrow> opt_cells \<Rightarrow> race \<Rightarrow> race" where
  "goes t th c s = s\<lparr>shared := c, threads := (threads s)(t := th)\<rparr>"

definition after :: "int list \<Rightarrow> thread" where
  "after ks = (if ks = [] then Idle else Pending ks)"

text \<open>A write that finds its value already there does nothing; by the time a write gets the lock the
  store may hold any value.  The slots a writer invalidates cover the options whose value its new store changes: one
  name for \<open>opt_state_set\<close> and \<open>opt_state_unset\<close>, the differences for the two restores.\<close>

inductive race_step :: "race \<Rightarrow> race \<Rightarrow> bool" where
  look: "threads s t = Idle \<Longrightarrow> 0 \<le> i \<Longrightarrow> i < OPT_SIZE \<Longrightarrow> opts_cache (shared s) ! nat i < 0 \<Longrightarrow>
    race_step s (goes t (Looked i) (shared s) s)"
| miss: "threads s t = Looked i \<Longrightarrow>
    race_step s (goes t (Missed i (opt_gen (shared s))) (shared s) s)"
| fetch: "threads s t = Missed i g \<Longrightarrow>
    race_step s (goes t (Fetched i g (authoritative (shared s) i)) (shared s) s)"
| memoize: "threads s t = Fetched i g v \<Longrightarrow>
    race_step s (goes t (Stored i g) (set_slot i (of_bool v) (shared s)) s)"
| unmoved: "threads s t = Stored i g \<Longrightarrow> opt_gen (shared s) = g \<Longrightarrow>
    race_step s (goes t Idle (shared s) s)"
| moved: "threads s t = Stored i g \<Longrightarrow> opt_gen (shared s) \<noteq> g \<Longrightarrow>
    race_step s (goes t (Undoing i) (shared s) s)"
| undo: "threads s t = Undoing i \<Longrightarrow>
    race_step s (goes t Idle (set_slot i (- 1) (shared s)) s)"
| write_value: "threads s t = Idle \<Longrightarrow>
    race_step s (goes t (Pending [optlookup name])
      ((shared s)\<lparr>opts_live := store_set name v (opts_live (shared s))\<rparr>) s)"
| forget_value: "threads s t = Idle \<Longrightarrow>
    race_step s (goes t (Pending [optlookup name])
      ((shared s)\<lparr>opts_live := store_remove name (opts_live (shared s))\<rparr>) s)"
| restore_map: "threads s t = Idle \<Longrightarrow> distinct (map fst snap) \<Longrightarrow>
    race_step s (goes t (after (map optlookup (changed_keys (to_map (opts_live (shared s))) snap)))
      ((shared s)\<lparr>opts_live := from_map snap\<rparr>) s)"
| restore_store: "threads s t = Idle \<Longrightarrow> store_ok st \<Longrightarrow>
    race_step s (goes t (after (changed_slots (flat (opts_live (shared s))) (flat st) @
        map optlookup (changed_keys (extra (opts_live (shared s))) (extra st))))
      ((shared s)\<lparr>opts_live := st\<rparr>) s)"
| bump: "threads s t = Pending (k # ks) \<Longrightarrow>
    race_step s (goes t (Bumped k ks) ((shared s)\<lparr>opt_gen := opt_gen (shared s) + 1\<rparr>) s)"
| reset: "threads s t = Bumped k ks \<Longrightarrow>
    race_step s (goes t (after ks)
      (if nat \<bar>k\<bar> < nat OPT_SIZE then set_slot \<bar>k\<bar> (- 1) (shared s) else shared s) s)"
| flush: "threads s t = Idle \<Longrightarrow>
    race_step s (goes t (Flushing [0..OPT_SIZE - 1]) ((shared s)\<lparr>opt_gen := opt_gen (shared s) + 1\<rparr>) s)"
| flush_slot: "threads s t = Flushing (k # ks) \<Longrightarrow>
    race_step s (goes t (if ks = [] then Idle else Flushing ks) (set_slot k (- 1) (shared s)) s)"

text \<open>What a run of so many steps from a fresh start reaches.\<close>

inductive race_reaches :: "nat \<Rightarrow> race \<Rightarrow> bool" where
  start: "race_reaches 0 \<lparr>shared = fresh_cells, threads = (\<lambda>_. Idle)\<rparr>"
| step: "race_reaches n s \<Longrightarrow> race_step s s' \<Longrightarrow> race_reaches (Suc n) s'"

section \<open>The invariant\<close>

text \<open>Slots a writer still has to reset, and those among them whose generation step is to come.\<close>

fun to_reset :: "thread \<Rightarrow> nat set" where
  "to_reset (Pending ks) = (\<lambda>k. nat \<bar>k\<bar>) ` set ks"
| "to_reset (Bumped k ks) = (\<lambda>k. nat \<bar>k\<bar>) ` set (k # ks)"
| "to_reset (Undoing i) = {nat i}"
| "to_reset th = {}"

fun to_bump :: "thread \<Rightarrow> nat set" where
  "to_bump (Pending ks) = (\<lambda>k. nat \<bar>k\<bar>) ` set ks"
| "to_bump (Bumped k ks) = (\<lambda>k. nat \<bar>k\<bar>) ` set ks"
| "to_bump th = {}"

fun held_gen :: "thread \<Rightarrow> u64 option" where
  "held_gen (Missed i g) = Some g"
| "held_gen (Fetched i g v) = Some g"
| "held_gen (Stored i g) = Some g"
| "held_gen th = None"

fun held_slot :: "thread \<Rightarrow> int option" where
  "held_slot (Looked i) = Some i"
| "held_slot (Missed i g) = Some i"
| "held_slot (Fetched i g v) = Some i"
| "held_slot (Stored i g) = Some i"
| "held_slot (Undoing i) = Some i"
| "held_slot th = None"

text \<open>A cached value that is not the current one has someone who will reset it; a value a reader
  is about to store that is no longer current will be found out.\<close>

definition will_reset :: "u64 \<Rightarrow> thread \<Rightarrow> nat \<Rightarrow> bool" where
  "will_reset gen th i \<longleftrightarrow> i \<in> to_reset th \<or> (\<exists>g. th = Stored (int i) g \<and> g \<noteq> gen)"

definition stale_cached :: "race \<Rightarrow> bool" where
  "stale_cached s \<longleftrightarrow> (\<forall>i < 186. opts_cache (shared s) ! i \<noteq> - 1 \<longrightarrow>
     opts_cache (shared s) ! i \<noteq> of_bool (authoritative (shared s) (int i)) \<longrightarrow>
     (\<exists>t. will_reset (opt_gen (shared s)) (threads s t) i))"

definition stale_fetched :: "race \<Rightarrow> bool" where
  "stale_fetched s \<longleftrightarrow> (\<forall>t i g v. threads s t = Fetched i g v \<longrightarrow>
     v \<noteq> authoritative (shared s) i \<longrightarrow>
     g \<noteq> opt_gen (shared s) \<or> (\<exists>t'. nat i \<in> to_bump (threads s t')))"

text \<open>Generations are counted from 0 and never ahead of the steps.\<close>

definition gens_ok :: "nat \<Rightarrow> race \<Rightarrow> bool" where
  "gens_ok n s \<longleftrightarrow> unat (opt_gen (shared s)) \<le> n \<and>
     (\<forall>t g. held_gen (threads s t) = Some g \<longrightarrow> g \<le> opt_gen (shared s))"

definition race_ok :: "nat \<Rightarrow> race \<Rightarrow> bool" where
  "race_ok n s \<longleftrightarrow> store_ok (opts_live (shared s)) \<and> length (opts_cache (shared s)) = 186 \<and>
     (\<forall>t i. held_slot (threads s t) = Some i \<longrightarrow> 0 \<le> i \<and> i < OPT_SIZE) \<and>
     (\<forall>t. threads s t \<noteq> Pending []) \<and>
     gens_ok n s \<and> stale_cached s \<and> stale_fetched s"


lemma goes_simps [simp]:
  "shared (goes t th c s) = c" "threads (goes t th c s) t' = (if t' = t then th else threads s t')"
  by (simp_all add: goes_def)

lemma set_slot_simps [simp]:
  "opts_live (set_slot i v c) = opts_live c" "opt_gen (set_slot i v c) = opt_gen c"
  "opts_cache (set_slot i v c) = (opts_cache c)[nat i := v]"
  "authoritative (set_slot i v c) j = authoritative c j"
  "authoritative (c\<lparr>opt_gen := g\<rparr>) j = authoritative c j"
  by (simp_all add: set_slot_def authoritative_eq)

lemma nth_update_if: "j < length xs \<Longrightarrow> xs[k := v] ! j = (if j = k then v else xs ! j)"
  by (cases "j = k") simp_all

lemma to_bump_reset: "i \<in> to_bump th \<Longrightarrow> i \<in> to_reset th"
  by (cases th) auto

lemma after_simps [simp]:
  "to_reset (after ks) = (\<lambda>k. nat \<bar>k\<bar>) ` set ks" "to_bump (after ks) = (\<lambda>k. nat \<bar>k\<bar>) ` set ks"
  "held_gen (after ks) = None" "held_slot (after ks) = None" "after ks \<noteq> Pending []"
  "after ks \<noteq> Fetched i g v" "after ks \<noteq> Stored i g"
  by (simp_all add: after_def)

text \<open>A writer's step: the options whose value moves are among the slots it has left.\<close>

lemma writer_step:
  assumes ok: "race_ok n s" and idle: "threads s t = Idle" and st: "store_ok st"
    and ks: "th = after ks"
    and cover: "\<And>i. i < 186 \<Longrightarrow> i \<notin> (\<lambda>k. nat \<bar>k\<bar>) ` set ks \<Longrightarrow>
      store_get st (opt_name (int i)) = store_get (opts_live (shared s)) (opt_name (int i))"
  shows "race_ok (Suc n) (goes t th ((shared s)\<lparr>opts_live := st\<rparr>) s)"
proof -
  let ?s = "goes t th ((shared s)\<lparr>opts_live := st\<rparr>) s"
  have same: "authoritative (shared ?s) (int i) = authoritative (shared s) (int i)"
    if "i < 186" "i \<notin> to_reset th" for i
    using cover [of i] that ks by (simp add: authoritative_eq)
  have "stale_cached ?s"
    unfolding stale_cached_def
  proof (intro allI impI)
    fix i :: nat
    assume i: "i < 186" "opts_cache (shared ?s) ! i \<noteq> - 1"
      "opts_cache (shared ?s) ! i \<noteq> of_bool (authoritative (shared ?s) (int i))"
    show "\<exists>t. will_reset (opt_gen (shared ?s)) (threads ?s t) i"
    proof (cases "i \<in> to_reset th")
      case True
      then show ?thesis by (intro exI [of _ t]) (simp add: will_reset_def)
    next
      case False
      then obtain t' where "will_reset (opt_gen (shared s)) (threads s t') i"
        using ok i same [OF i(1) False] unfolding race_ok_def stale_cached_def by auto
      moreover from this have "t' \<noteq> t" using idle by (auto simp: will_reset_def)
      ultimately show ?thesis by (intro exI [of _ t']) simp
    qed
  qed
  moreover have "stale_fetched ?s"
    unfolding stale_fetched_def
  proof (intro allI impI)
    fix t' i g v
    assume f: "threads ?s t' = Fetched i g v" "v \<noteq> authoritative (shared ?s) i"
    then have old: "threads s t' = Fetched i g v" using ks by (simp split: if_splits)
    then have range: "0 \<le> i" "i < 186"
      using ok [unfolded race_ok_def OPT_SIZE_def] by (metis held_slot.simps(3))+
    show "g \<noteq> opt_gen (shared ?s) \<or> (\<exists>t'. nat i \<in> to_bump (threads ?s t'))"
    proof (cases "nat i \<in> to_reset th")
      case True
      then show ?thesis using ks by (intro disjI2 exI [of _ t]) simp
    next
      case False
      then have "v \<noteq> authoritative (shared s) i" using f(2) same [of "nat i"] range by simp
      then have "g \<noteq> opt_gen (shared s) \<or> (\<exists>t'. nat i \<in> to_bump (threads s t'))"
        using ok old unfolding race_ok_def stale_fetched_def by blast
      moreover have "t\<^sub>1 \<noteq> t" if "nat i \<in> to_bump (threads s t\<^sub>1)" for t\<^sub>1 using that idle by auto
      ultimately show ?thesis by (metis goes_simps opt_cells.select_convs(3) opt_cells.surjective opt_cells.update_convs(1))
    qed
  qed
  ultimately show ?thesis using ok st ks by (auto simp: race_ok_def gens_ok_def)
qed


text \<open>A step that leaves the store alone.\<close>

definition detects :: "u64 \<Rightarrow> race \<Rightarrow> int \<Rightarrow> u64 \<Rightarrow> bool" where
  "detects gen s i g \<longleftrightarrow> g \<noteq> gen \<or> (\<exists>t'. nat i \<in> to_bump (threads s t'))"

lemma cache_step:
  assumes ok: "race_ok n s" and live: "opts_live c = opts_live (shared s)"
    and len: "length (opts_cache c) = 186"
    and gen: "opt_gen c = opt_gen (shared s) \<or> opt_gen c = opt_gen (shared s) + 1"
    and small: "n + 1 < 2 ^ 64"
    and slot: "\<And>i. held_slot th = Some i \<Longrightarrow> 0 \<le> i \<and> i < OPT_SIZE" and th: "th \<noteq> Pending []"
    and held: "\<And>g. held_gen th = Some g \<Longrightarrow> g \<le> opt_gen c"
    and resets: "\<And>i. i < 186 \<Longrightarrow> will_reset (opt_gen (shared s)) (threads s t) i \<Longrightarrow>
      will_reset (opt_gen c) th i \<or> opts_cache c ! i = - 1"
    and cached: "\<And>i. i < 186 \<Longrightarrow> opts_cache c ! i = opts_cache (shared s) ! i \<or> opts_cache c ! i = - 1 \<or>
      opts_cache c ! i = of_bool (authoritative (shared s) (int i)) \<or>
      (\<exists>g. th = Stored (int i) g \<and> detects (opt_gen c) s (int i) g)"
    and bumps: "\<And>i g. nat i \<in> to_bump (threads s t) \<Longrightarrow> g \<le> opt_gen (shared s) \<Longrightarrow>
      nat i \<in> to_bump th \<or> g \<noteq> opt_gen c"
    and fetched: "\<And>i g v. th = Fetched i g v \<Longrightarrow> v = authoritative (shared s) i"
  shows "race_ok (Suc n) (goes t th c s)"
proof -
  let ?s = "goes t th c s"
  have auth: "authoritative c i = authoritative (shared s) i" for i
    using live by (simp add: authoritative_eq)
  have gens: "unat (opt_gen (shared s)) \<le> n" "\<And>t g. held_gen (threads s t) = Some g \<Longrightarrow> g \<le> opt_gen (shared s)"
    using ok by (simp_all add: race_ok_def gens_ok_def)
  have up: "opt_gen (shared s) \<le> opt_gen c" "unat (opt_gen c) \<le> n + 1"
    using gen gens(1) small by (auto simp: word_le_nat_alt unat_plus_if')
  have past: "g \<noteq> opt_gen c" if "g \<le> opt_gen (shared s)" "g \<noteq> opt_gen (shared s)" for g
    using that up(1) by auto
  have other: "will_reset (opt_gen c) (threads s t') i" if "will_reset (opt_gen (shared s)) (threads s t') i" for t' i
    using that past gens(2) [of t'] by (auto simp: will_reset_def)
  have old_stale: "\<exists>t'. will_reset (opt_gen (shared s)) (threads s t') i"
    if "i < 186" "opts_cache (shared s) ! i \<noteq> - 1"
      "opts_cache (shared s) ! i \<noteq> of_bool (authoritative (shared s) (int i))" for i
    using ok that by (auto simp: race_ok_def stale_cached_def)
  have bumped: "detects (opt_gen c) ?s i g" if "detects (opt_gen (shared s)) s i g" "g \<le> opt_gen (shared s)" for i g
  proof -
    consider "g \<noteq> opt_gen (shared s)" | t' where "nat i \<in> to_bump (threads s t')"
      using \<open>detects (opt_gen (shared s)) s i g\<close> by (auto simp: detects_def)
    then show ?thesis
    proof cases
      case 1
      then show ?thesis using past that(2) by (simp add: detects_def)
    next
      case (2 t')
      then show ?thesis using bumps [of i g] that(2) by (cases "t' = t") (auto simp: detects_def)
    qed
  qed
  have "stale_cached ?s"
    unfolding stale_cached_def
  proof (intro allI impI)
    fix i :: nat
    assume i: "i < 186" "opts_cache (shared ?s) ! i \<noteq> - 1"
      "opts_cache (shared ?s) ! i \<noteq> of_bool (authoritative (shared ?s) (int i))"
    show "\<exists>t. will_reset (opt_gen (shared ?s)) (threads ?s t) i"
    proof (cases "opts_cache c ! i = opts_cache (shared s) ! i")
      case True
      then obtain t' where t': "will_reset (opt_gen (shared s)) (threads s t') i"
        using old_stale i by (auto simp: auth)
      show ?thesis
      proof (cases "t' = t")
        case True
        then show ?thesis using resets [OF i(1)] t' i(2) by (intro exI [of _ t]) auto
      next
        case False
        then show ?thesis using other [OF t'] by (intro exI [of _ t']) simp
      qed
    next
      case False
      then obtain g where g: "th = Stored (int i) g" "detects (opt_gen c) s (int i) g"
        using cached [OF i(1)] i by (auto simp: auth)
      then consider "g \<noteq> opt_gen c" | t' where "i \<in> to_bump (threads s t')" by (auto simp: detects_def)
      then show ?thesis
      proof cases
        case 1
        then show ?thesis using g by (intro exI [of _ t]) (simp add: will_reset_def)
      next
        case (2 t')
        then show ?thesis using resets [OF i(1)] i(2) to_bump_reset
          by (cases "t' = t") (auto simp: will_reset_def intro: exI [of _ t] exI [of _ t'])
      qed
    qed
  qed
  moreover have "stale_fetched ?s"
    unfolding stale_fetched_def detects_def [symmetric]
  proof (intro allI impI)
    fix t' i g v
    assume f: "threads ?s t' = Fetched i g v" "v \<noteq> authoritative (shared ?s) i"
    have stale: "v \<noteq> authoritative (shared s) i" using f(2) auth by simp
    then have old: "threads s t' = Fetched i g v" using f(1) fetched [of i g v] by (cases "t' = t") simp_all
    have "stale_fetched s" using ok by (simp add: race_ok_def)
    then have "detects (opt_gen (shared s)) s i g" using old stale unfolding stale_fetched_def detects_def by blast
    moreover have "g \<le> opt_gen (shared s)" using gens(2) [of t' g] old by simp
    ultimately have "detects (opt_gen (shared s)) s i g \<and> g \<le> opt_gen (shared s)" by simp
    then show "detects (opt_gen (shared ?s)) ?s i g" using bumped by simp
  qed
  moreover have "gens_ok (Suc n) ?s"
    using up held gens(2) by (auto simp: gens_ok_def intro: order_trans)
  ultimately show ?thesis using ok live len slot th by (auto simp: race_ok_def)
qed


lemma names_covered:
  assumes "\<And>k. store_get st k \<noteq> store_get old k \<Longrightarrow> k \<in> set names" "i < 186"
    "i \<notin> (\<lambda>k. nat \<bar>k\<bar>) ` (optlookup ` set names)"
  shows "store_get st (opt_name (int i)) = store_get old (opt_name (int i))"
proof (rule ccontr)
  assume "store_get st (opt_name (int i)) \<noteq> store_get old (opt_name (int i))"
  then have "opt_name (int i) \<in> set names" by (rule assms(1))
  then have "nat \<bar>optlookup (opt_name (int i))\<bar> \<in> (\<lambda>k. nat \<bar>k\<bar>) ` (optlookup ` set names)" by blast
  then show False using assms(3) opt_name_slot [OF assms(2)] by simp
qed

lemma stores_covered:
  assumes "store_ok old" "store_ok st" "i < 186"
    "i \<notin> (\<lambda>k. nat \<bar>k\<bar>) ` (set (changed_slots (flat old) (flat st)) \<union>
       optlookup ` set (changed_keys (extra old) (extra st)))"
  shows "store_get st (opt_name (int i)) = store_get old (opt_name (int i))"
proof (cases "slot (opt_name (int i))")
  case None
  have "opt_name (int i) \<notin> set (changed_keys (extra old) (extra st))"
    using assms(3,4) opt_name_slot by (metis UnCI image_eqI)
  then have "map_of (extra old) (opt_name (int i)) = map_of (extra st) (opt_name (int i))"
    using changed_keys_cover by blast
  then show ?thesis using None by (simp add: store_get_def)
next
  case (Some j)
  then have "j = i" using slot_Some(3,4) [OF Some] opt_name_inj by fastforce
  moreover have "int i \<notin> set (changed_slots (flat old) (flat st))" using assms(4) by (force simp: image_iff)
  ultimately show ?thesis using Some changed_slots_cover assms(1-3)
    by (force simp: store_get_def store_ok_def)
qed

lemma race_ok_step:
  assumes ok: "race_ok n s" and small: "n + 1 < 2 ^ 64" and step: "race_step s s'"
  shows "race_ok (Suc n) s'"
proof -
  have live: "store_ok (opts_live (shared s))" and len: "length (opts_cache (shared s)) = 186"
    and held: "\<And>t g. held_gen (threads s t) = Some g \<Longrightarrow> g \<le> opt_gen (shared s)"
    and slots: "\<And>t i. held_slot (threads s t) = Some i \<Longrightarrow> 0 \<le> i \<and> i < OPT_SIZE"
    and gen: "unat (opt_gen (shared s)) \<le> n"
    using ok by (auto simp: race_ok_def gens_ok_def)
  have fetched: "detects (opt_gen (shared s)) s i g \<or> v = authoritative (shared s) i"
    if "threads s t = Fetched i g v" for t i g v
  proof -
    have "stale_fetched s" using ok by (simp add: race_ok_def)
    then show ?thesis using that unfolding stale_fetched_def detects_def by blast
  qed
  have up: "opt_gen (shared s) + 1 \<noteq> g" if "g \<le> opt_gen (shared s)" for g
  proof -
    have "unat g \<le> unat (opt_gen (shared s))" using that by (simp add: word_le_nat_alt)
    moreover have "unat (opt_gen (shared s) + 1) = unat (opt_gen (shared s)) + 1"
      using gen small by (simp add: unat_plus_if')
    ultimately show ?thesis by auto
  qed
  note quiet = cache_step [OF ok _ _ _ small]
  from step show ?thesis
  proof cases
    case (look t i)
    then show ?thesis unfolding look(1)
      by (intro quiet) (auto simp: len will_reset_def)
  next
    case (miss t i)
    then show ?thesis unfolding miss(1) using slots [of t]
      by (intro quiet) (auto simp: len will_reset_def)
  next
    case (fetch t i g)
    then show ?thesis unfolding fetch(1) using held [of t] slots [of t]
      by (intro quiet) (auto simp: len will_reset_def)
  next
    case (memoize t i g v)
    then have i: "0 \<le> i" "i < OPT_SIZE" using slots [of t i] by simp_all
    then obtain k where k: "i = int k" by (metis nonneg_int_cases)
    show ?thesis unfolding memoize(1) using held [of t g] memoize(2) fetched [OF memoize(2)] i
      by (intro quiet) (auto simp: len will_reset_def nth_update_if k)
  next
    case (unmoved t i g)
    then show ?thesis unfolding unmoved(1)
      by (intro quiet) (auto simp: len will_reset_def)
  next
    case (moved t i g)
    then show ?thesis unfolding moved(1) using slots [of t]
      by (intro quiet) (auto simp: len will_reset_def)
  next
    case (undo t i)
    then show ?thesis unfolding undo(1)
      by (intro quiet) (auto simp: len will_reset_def nth_update_if)
  next
    case (write_value t name v)
    show ?thesis unfolding write_value(1)
      by (rule writer_step [OF ok write_value(2) store_set_ok [OF live], where ks = "[optlookup name]"])
        (auto simp: after_def store_get_set [OF live] dest: opt_name_slot)
  next
    case (forget_value t name)
    show ?thesis unfolding forget_value(1)
      by (rule writer_step [OF ok forget_value(2) store_remove_ok [OF live], where ks = "[optlookup name]"])
        (auto simp: after_def store_get_remove [OF live] dest: opt_name_slot)
  next
    case (restore_map t snap)
    show ?thesis unfolding restore_map(1)
    proof (rule writer_step [OF ok restore_map(2) from_map_ok refl])
      fix i :: nat
      let ?names = "changed_keys (to_map (opts_live (shared s))) snap"
      assume i: "i < 186" "i \<notin> (\<lambda>k. nat \<bar>k\<bar>) ` set (map optlookup ?names)"
      show "store_get (from_map snap) (opt_name (int i)) = store_get (opts_live (shared s)) (opt_name (int i))"
      proof (rule names_covered [where names = ?names, OF _ i(1)])
        show "k \<in> set ?names" if "store_get (from_map snap) k \<noteq> store_get (opts_live (shared s)) k" for k
          using that by (intro changed_keys_cover) (simp add: store_get_from_map restore_map(3) map_of_to_map live)
      qed (use i(2) in simp)
    qed
  next
    case (restore_store t st)
    show ?thesis unfolding restore_store(1)
    proof (rule writer_step [OF ok restore_store(2,3) refl])
      fix i :: nat
      assume "i < 186" "i \<notin> (\<lambda>k. nat \<bar>k\<bar>) ` set (changed_slots (flat (opts_live (shared s))) (flat st) @
        map optlookup (changed_keys (extra (opts_live (shared s))) (extra st)))"
      then show "store_get st (opt_name (int i)) = store_get (opts_live (shared s)) (opt_name (int i))"
        by (intro stores_covered [OF live restore_store(3)]) auto
    qed
  next
    case (bump t k ks)
    show ?thesis unfolding bump(1) using bump(2) up
      by (intro quiet) (auto simp: len will_reset_def)
  next
    case (reset t k ks)
    show ?thesis unfolding reset(1) using reset(2)
      by (intro quiet) (auto simp: len will_reset_def nth_update_if OPT_SIZE_def)
  next
    case (flush t)
    show ?thesis unfolding flush(1) using flush(2) up
      by (intro quiet) (auto simp: len will_reset_def)
  next
    case (flush_slot t k ks)
    show ?thesis unfolding flush_slot(1) using flush_slot(2)
      by (intro quiet) (auto simp: len will_reset_def nth_update_if split: if_splits)
  qed
qed

lemma race_reaches_ok: "race_reaches n s \<Longrightarrow> n < 2 ^ 64 \<Longrightarrow> race_ok n s"
proof (induction rule: race_reaches.induct)
  case start
  show ?case using fresh_cells_ok
    by (auto simp: race_ok_def gens_ok_def stale_cached_def stale_fetched_def cells_ok_def cache_agrees_def
        fresh_cells_def)
next
  case (step n s s')
  then show ?case using race_ok_step [of n s s'] by simp
qed

end
