(* ===== verification/SetOpt.thy ===== *)
theory SetOpt
  imports OptCache "HOL-Library.List_Lexorder" "HOL-Library.Char_ord"
begin

text \<open>
  Changing options: \<open>dosetopt\<close> with its locks, the builtins \<open>setopt\<close> and \<open>unsetopt\<close>
  (\<open>bin_setopt\<close>), the emulations (\<open>emulate\<close>, \<open>installemulation\<close>, \<open>setemulate\<close>) and the
  listings, all of \<open>src/src/ported/options.rs\<close>.
\<close>

unbundle bit_operations_syntax

section \<open>The state around the options\<close>

text \<open>What \<open>dosetopt\<close> and its callers do outside the option cells, in order.\<close>

datatype opt_effect = SetKeymap int | InitTypTab | AcquirePgrp | Warn string string | Out string

record opt_world =
  cells :: opt_cells
  emulation_live :: int
  emulation_c :: int
  fully_emulating :: bool
  dash_strict_flag :: bool
  keyboardhack :: nat
  origpgrp :: int
  param_flags :: "(string \<times> 32 word) list"
  effects :: "opt_effect list"

text \<open>What the code asks the rest of the shell: the modes of \<open>dash_mode.rs\<close>, the terminal, the
  process group, \<open>createparam\<close>, the pattern code (\<open>None\<close> is a pattern that does not compile),
  whether the function being run is tagged for tracing, and the order in which the hash set of
  option names is walked.\<close>

record opt_conf =
  in_pdksh_family :: bool
  in_korn_mode :: bool
  in_dash_c_string :: bool
  in_posix_faithful :: bool
  shtty :: int
  getpgrp :: int
  createparam :: "string \<Rightarrow> 32 word \<Rightarrow> (string \<times> 32 word) list \<Rightarrow> (string \<times> 32 word) list"
  patcompile :: "string \<Rightarrow> (string \<Rightarrow> bool) option"
  traced_function :: bool
  set_order :: "string list"

definition on_cells :: "(opt_cells \<Rightarrow> opt_cells) \<Rightarrow> opt_world \<Rightarrow> opt_world" where
  "on_cells f w = w\<lparr>cells := f (cells w)\<rparr>"

definition log :: "opt_effect \<Rightarrow> opt_world \<Rightarrow> opt_world" where
  "log e w = w\<lparr>effects := effects w @ [e]\<rparr>"

definition isset :: "int \<Rightarrow> opt_world \<Rightarrow> bool \<times> opt_world" where
  "isset i w = (let (b, c) = is_set i (cells w) in (b, w\<lparr>cells := c\<rparr>))"

section \<open>Option letters\<close>

definition optlookupc :: "char \<Rightarrow> opt_world \<Rightarrow> int \<times> opt_world" where
  "optlookupc c w =
     (let (sh, w) = isset SHOPTIONLETTERS w in
      (letter_number (if sh then KSH_LETTERS else zshletters) c, w))"

text \<open>\<open>$-\<close>: the letters of the options that are on.  The Bourne and Korn drop-ins print their own
  text instead, and the strict \<open>dash\<close> walks its letters in its own order.\<close>

definition dash_letters :: string where
  "dash_letters = ''nubaCEVvxsmiIfe''"

definition dashgetfn :: "string option \<Rightarrow> bool \<Rightarrow> opt_world \<Rightarrow> string \<times> opt_world" where
  "dashgetfn drop_in faithful w =
     (case drop_in of Some text \<Rightarrow> (text, w)
      | None \<Rightarrow>
        (let (sh, w) = isset SHOPTIONLETTERS w;
             letters = (if sh then KSH_LETTERS else zshletters);
             order = (if faithful then dash_letters else map char_of [48..<122 :: nat])
         in (concat (map (\<lambda>c. case List.find (\<lambda>(ch, _, _). ch = c) letters of
                               None \<Rightarrow> []
                             | Some (_, name, negated) \<Rightarrow>
                                 if (opt_state_get (cells w) name = Some True) \<noteq> negated then [c] else [])
               order), w)))"

section \<open>\<open>dosetopt\<close>\<close>

definition PM_RESTRICTED_BIT :: "32 word" where "PM_RESTRICTED_BIT = 0x800000"
definition PM_SPECIAL_BIT :: "32 word" where "PM_SPECIAL_BIT = 0x100000"
definition PM_UNSET_BIT :: "32 word" where "PM_UNSET_BIT = 0x1000000"

definition RPARAMS :: "string list" where
  "RPARAMS = [''SHELL'', ''HISTFILE'', ''LD_LIBRARY_PATH'', ''LD_AOUT_LIBRARY_PATH'', ''LD_PRELOAD'',
     ''LD_AOUT_PRELOAD'']"

definition stamped_params :: "string list" where
  "stamped_params = [''GID'', ''EGID'', ''HISTSIZE'', ''SAVEHIST'', ''UID'', ''EUID'', ''USERNAME'', ''IFS'',
     ''PATH'', ''MODULE_PATH'', ''path'', ''module_path'']"

definition or_flags :: "32 word \<Rightarrow> string \<Rightarrow> (string \<times> 32 word) list \<Rightarrow> (string \<times> 32 word) list" where
  "or_flags bits nam tab = map (\<lambda>(k, f). (k, if k = nam then f OR bits else f)) tab"

definition restrictparam :: "opt_conf \<Rightarrow> string \<Rightarrow> (string \<times> 32 word) list \<Rightarrow> (string \<times> 32 word) list" where
  "restrictparam C nam tab =
     (if map_of tab nam \<noteq> None then or_flags (PM_SPECIAL_BIT OR PM_RESTRICTED_BIT) nam tab
      else createparam C nam (PM_UNSET_BIT OR PM_SPECIAL_BIT OR PM_RESTRICTED_BIT) tab)"

definition restrict_params :: "opt_conf \<Rightarrow> opt_world \<Rightarrow> opt_world" where
  "restrict_params C w =
     w\<lparr>param_flags :=
        fold (restrictparam C) RPARAMS (fold (or_flags PM_RESTRICTED_BIT) stamped_params (param_flags w))\<rparr>"

text \<open>\<open>opt_state_get(name).unwrap_or(false) as i32 == value\<close>.\<close>

definition already :: "int \<Rightarrow> int \<Rightarrow> opt_world \<Rightarrow> bool" where
  "already idx value w \<longleftrightarrow>
     opt_name idx \<noteq> [] \<and> of_bool (opt_state_get (cells w) (opt_name idx) = Some True) = value"

text \<open>The locks on an unforced change: a result ends \<open>dosetopt\<close> with it.\<close>

definition monitor_lock :: "opt_conf \<Rightarrow> int \<Rightarrow> int \<Rightarrow> opt_world \<Rightarrow> int option \<times> opt_world" where
  "monitor_lock C idx value w =
     (if already idx value w then (Some 0, w)
      else if shtty C = - 1 \<and> \<not> in_posix_faithful C then (Some (- 1), w)
      else if shtty C \<noteq> - 1 \<and> origpgrp w = 0
      then (None, log AcquirePgrp (w\<lparr>origpgrp := getpgrp C\<rparr>))
      else (None, w))"

definition option_lock :: "opt_conf \<Rightarrow> int \<Rightarrow> int \<Rightarrow> opt_world \<Rightarrow> int option \<times> opt_world" where
  "option_lock C idx value w =
     (if idx = EXECOPT \<and> value = 0 \<and> in_pdksh_family C \<and> in_korn_mode C \<and> in_dash_c_string C
      then (Some 0, w)
      else
        (let (forbidden, w) = (if idx = EXECOPT \<and> value = 0 then isset INTERACTIVE w else (False, w)) in
         if forbidden then (Some (- 1), w)
         else if idx = INTERACTIVE \<or> idx = SHINSTDIN \<or> idx = SINGLECOMMAND
         then (Some (if already idx value w then 0 else - 1), w)
         else
           (let (interact, w) = (if idx = USEZLE \<and> value \<noteq> 0 then isset INTERACTIVE w else (True, w)) in
            if \<not> interact then (Some (- 1), w)
            else if idx = MONITOR \<and> value \<noteq> 0 then monitor_lock C idx value w
            else (None, w))))"

text \<open>\<open>RESTRICTED\<close> once set stays set; turning it on restricts the parameters first.\<close>

definition restricted_gate :: "opt_conf \<Rightarrow> int \<Rightarrow> int \<Rightarrow> opt_world \<Rightarrow> int option \<times> opt_world" where
  "restricted_gate C idx value w =
     (if idx = RESTRICTED
      then (let (on, w) = isset RESTRICTED w in
            if on then (Some (if value \<noteq> 0 then 0 else - 1), w)
            else (None, if value \<noteq> 0 then restrict_params C w else w))
      else (None, w))"

definition bit_xor :: "int \<Rightarrow> int \<Rightarrow> int" where
  "bit_xor a b = a XOR b"

text \<open>\<open>emacs\<close> and \<open>vi\<close> exclude each other, and select the keymap.\<close>

definition keymap_switch :: "int \<Rightarrow> int \<Rightarrow> opt_world \<Rightarrow> opt_world" where
  "keymap_switch idx value w =
     (if (idx = EMACSMODE \<or> idx = VIMODE) \<and> value \<noteq> 0
      then (let w = log (SetKeymap idx) w; other = bit_xor (bit_xor idx EMACSMODE) VIMODE in
            if opt_name other \<noteq> [] then on_cells (opt_state_set (opt_name other) False) w else w)
      else w)"

definition keyboard_hack :: "int \<Rightarrow> int \<Rightarrow> opt_world \<Rightarrow> opt_world" where
  "keyboard_hack idx value w =
     (if idx = SUNKEYBOARDHACK then w\<lparr>keyboardhack := (if value \<noteq> 0 then 96 else 0)\<rparr> else w)"

definition store_option :: "int \<Rightarrow> int \<Rightarrow> opt_world \<Rightarrow> int \<times> opt_world" where
  "store_option idx value w =
     (let canonical = opt_name idx in
      if canonical \<noteq> []
      then (let w = on_cells (opt_state_set canonical (value \<noteq> 0)) w in
            (0, if idx = MULTIBYTE \<or> idx = BANGHIST \<or> idx = SHINSTDIN then log InitTypTab w else w))
      else (- 1, w))"

definition dosetopt :: "opt_conf \<Rightarrow> int \<Rightarrow> int \<Rightarrow> int \<Rightarrow> opt_world \<Rightarrow> int \<times> opt_world" where
  "dosetopt C optno value force w =
     (if optno = 0 then (- 1, w)
      else
        (let (idx, value) = (if optno < 0 then (- optno, if value \<noteq> 0 then 0 else 1) else (optno, value)) in
         case restricted_gate C idx value w of
           (Some r, w) \<Rightarrow> (r, w)
         | (None, w) \<Rightarrow>
             (case (if force = 0 then option_lock C idx value w else (None, w)) of
                (Some r, w) \<Rightarrow> (r, w)
              | (None, w) \<Rightarrow> store_option idx value (keyboard_hack idx value (keymap_switch idx value w)))))"

section \<open>Listing\<close>

definition in_default_on_options :: "string \<Rightarrow> opt_world \<Rightarrow> bool" where
  "in_default_on_options name w \<longleftrightarrow> name \<in> set OPTNS \<and>
     has_bits (optns_flags name) (word_of_int (emulation_live w)) \<and> \<not> has_bits (optns_flags name) OPT_SPECIAL"

definition pad_to :: "nat \<Rightarrow> string \<Rightarrow> string" where
  "pad_to n s = s @ replicate (n - length s) CHR '' ''"

text \<open>The lines printed, as one text.\<close>

definition printoptionnode :: "string \<Rightarrow> bool \<Rightarrow> opt_world \<Rightarrow> string" where
  "printoptionnode hn wanted w =
     (let on = (opt_state_get (cells w) hn = Some True);
          default_on = in_default_on_options hn w;
          kshprint = (opt_state_get (cells w) ''kshoptionprint'' = Some True) in
      if kshprint
      then (if default_on
            then ''no'' @ pad_to 19 hn @ '' '' @ (if on then ''off'' else ''on'') @ [char_of (10 :: nat)]
            else pad_to 21 hn @ '' '' @ (if on then ''on'' else ''off'') @ [char_of (10 :: nat)])
      else if wanted = (on \<noteq> default_on)
      then (if wanted \<noteq> on then ''no'' else []) @ hn @ [char_of (10 :: nat)]
      else [])"

definition print_emulate_option :: "string \<Rightarrow> bool \<Rightarrow> bool \<Rightarrow> string" where
  "print_emulate_option name value fully =
     (let flags = optns_flags name in
      if has_bits flags OPT_ALIAS then []
      else if \<not> (fully \<and> \<not> has_bits flags OPT_SPECIAL \<or> has_bits flags OPT_EMULATE) then []
      else (if \<not> value then ''no'' else []) @ name @ [char_of (10 :: nat)])"

definition list_emulate_options :: "(string \<Rightarrow> bool option) \<Rightarrow> bool \<Rightarrow> string" where
  "list_emulate_options cmdopts fully =
     concat (map (\<lambda>n. print_emulate_option n (cmdopts n = Some True) fully) (sort OPTNS))"

definition printoptionlist_printequiv :: "int \<Rightarrow> string" where
  "printoptionlist_printequiv optno =
     (let name = opt_name \<bar>optno\<bar> in
      ''  equivalent to --'' @ (if optno < 0 then ''no-'' else []) @ (if name = [] then ''?'' else name) @
      [char_of (10 :: nat)])"

section \<open>\<open>setopt\<close> and \<open>unsetopt\<close>\<close>

text \<open>\<open>c as char\<close> in a message: the byte as a Latin-1 character, in UTF-8.\<close>

definition latin1 :: "char \<Rightarrow> string" where
  "latin1 c = (if byte c < 128 then [c] else [char_of (192 + byte c div 64), char_of (128 + byte c mod 64)])"

definition setoption :: "opt_conf \<Rightarrow> string \<Rightarrow> int \<Rightarrow> opt_world \<Rightarrow> int \<times> opt_world" where
  "setoption C hn value w = (0, snd (dosetopt C (optlookup hn) value 0 w))"

text \<open>One option, by number and by the text it was asked for with.\<close>

definition change_option :: "opt_conf \<Rightarrow> string \<Rightarrow> string \<Rightarrow> string \<Rightarrow> int \<Rightarrow> int \<Rightarrow> int \<times> opt_world \<Rightarrow> int \<times> opt_world" where
  "change_option C nam unknown shown optno value rw =
     (case rw of (retval, w) \<Rightarrow>
        if optno = 0 then (1, log (Warn nam (unknown @ shown)) w)
        else (let (r, w) = dosetopt C optno value 0 w in
              if r \<noteq> 0 then (1, log (Warn nam (''can't change option: '' @ shown)) w) else (retval, w)))"

text \<open>The next byte of an option argument; \<open>Meta\<close> says that the byte after it has its bit 5
  flipped, and ends the argument when there is none.\<close>

definition next_letter :: "string \<Rightarrow> (char \<times> string) option" where
  "next_letter body = (case body of
     [] \<Rightarrow> None
   | c # cs \<Rightarrow> if byte c = 0x83
       then (case cs of [] \<Rightarrow> None | d # ds \<Rightarrow> Some (char_of (nat (bit_xor (int (byte d)) 32)), ds))
       else Some (c, cs))"

lemma next_letter_shorter: "next_letter body = Some (c, cs) \<Longrightarrow> length cs < length body"
  by (auto simp: next_letter_def split: list.splits if_splits)

text \<open>How an option argument ends: with the next one, with the end of the options, or with the
  return value 1 because \<open>-o\<close> has no name.\<close>

datatype after_letters = NextArgument "string list" | DoneOptions "string list" | NoName

type_synonym setopt_state = "bool \<times> int \<times> opt_world"

function setopt_letters ::
  "opt_conf \<Rightarrow> string \<Rightarrow> int \<Rightarrow> string \<Rightarrow> string list \<Rightarrow> setopt_state \<Rightarrow> after_letters \<times> setopt_state" where
  "setopt_letters C nam action body rest st =
     (case next_letter body of
        None \<Rightarrow> (NextArgument rest, st)
      | Some (c, cs) \<Rightarrow>
          (case st of (match_glob, rw) \<Rightarrow>
             if c = CHR ''-'' then (DoneOptions rest, st)
             else if c = CHR ''o''
             then (case (if cs \<noteq> [] then Some (cs, rest) else case rest of [] \<Rightarrow> None | a # as \<Rightarrow> Some (a, as)) of
                     None \<Rightarrow> (NoName, match_glob, fst rw, log (Warn nam ''string expected after -o'') (snd rw))
                   | Some (oarg, rest) \<Rightarrow>
                       (NextArgument rest,
                        match_glob, change_option C nam ''no such option: '' oarg (optlookup oarg) action rw))
             else if c = CHR ''m'' then setopt_letters C nam action cs rest (True, rw)
             else (let (optno, w) = optlookupc c (snd rw) in
                   setopt_letters C nam action cs rest
                     (match_glob, change_option C nam ''bad option: '' (CHR ''-'' # latin1 c) optno action (fst rw, w)))))"
  by pat_completeness auto
termination
  by (relation "measure (\<lambda>(C, nam, action, body, rest, st). length body)") (auto dest: next_letter_shorter)

declare setopt_letters.simps [simp del]

lemma setopt_letters_rest:
  "(NextArgument rest', st') = setopt_letters C nam action body rest st \<Longrightarrow> length rest' \<le> length rest"
proof (induction C nam action body rest st rule: setopt_letters.induct)
  case (1 C nam action body rest st)
  obtain match_glob rw where st: "st = (match_glob, rw)" by (cases st)
  show ?case
  proof (cases "next_letter body")
    case None
    then show ?thesis using "1.prems" by (simp add: setopt_letters.simps [of C nam action body])
  next
    case (Some p)
    obtain c cs where p: "p = (c, cs)" by (cases p)
    obtain optno w where look: "optlookupc c (snd rw) = (optno, w)" by (cases "optlookupc c (snd rw)")
    note step = setopt_letters.simps [of C nam action body rest "(match_glob, rw)"]
    consider "c = CHR ''-''" | "c = CHR ''o''" | "c = CHR ''m''"
      | "c \<noteq> CHR ''-''" "c \<noteq> CHR ''o''" "c \<noteq> CHR ''m''" by blast
    then show ?thesis
    proof cases
      case 1
      then show ?thesis using "1.prems" Some p st by (simp add: step)
    next
      case 2
      then show ?thesis using "1.prems" [unfolded st step] Some p by (cases cs; cases rest) simp_all
    next
      case 3
      then show ?thesis
        using "1.prems" Some p st "1.IH"(1) [OF Some p [symmetric] st [symmetric]] by (simp add: step)
    next
      case 4
      then show ?thesis
        using "1.prems" Some p st look "1.IH"(2) [OF Some p [symmetric] st [symmetric] _ _ _ refl look [symmetric]]
        by (simp add: step)
    qed
  qed
qed

text \<open>The leading arguments: \<open>None\<close> is the early return, else the arguments that are left.\<close>

function setopt_flags ::
  "opt_conf \<Rightarrow> string \<Rightarrow> bool \<Rightarrow> string list \<Rightarrow> setopt_state \<Rightarrow> string list option \<times> setopt_state" where
  "setopt_flags C nam isun args st =
     (case args of
        [] \<Rightarrow> (Some [], st)
      | arg # rest \<Rightarrow>
          if arg \<noteq> [] \<and> (hd arg = CHR ''-'' \<or> hd arg = CHR ''+'')
          then (if length arg = 1 then (Some rest, st)
                else (case setopt_letters C nam (of_bool ((hd arg = CHR ''-'') \<noteq> isun)) (tl arg) rest st of
                        (NextArgument rest', st) \<Rightarrow> setopt_flags C nam isun rest' st
                      | (DoneOptions rest', st) \<Rightarrow> (Some rest', st)
                      | (NoName, st) \<Rightarrow> (None, st)))
          else (Some args, st))"
  by pat_completeness auto
termination
  by (relation "measure (\<lambda>(C, nam, isun, args, st). length args)")
    (auto simp: less_Suc_eq_le dest: setopt_letters_rest)

declare setopt_flags.simps [simp del]

text \<open>The names that are left, one by one or as patterns over the whole table.\<close>

definition setopt_names :: "opt_conf \<Rightarrow> string \<Rightarrow> bool \<Rightarrow> string list \<Rightarrow> int \<times> opt_world \<Rightarrow> int \<times> opt_world" where
  "setopt_names C nam isun args rw =
     fold (\<lambda>oname. change_option C nam ''no such option: '' oname (optlookup oname) (of_bool (\<not> isun))) args rw"

fun setopt_globs :: "opt_conf \<Rightarrow> string \<Rightarrow> bool \<Rightarrow> string list \<Rightarrow> int \<times> opt_world \<Rightarrow> int \<times> opt_world" where
  "setopt_globs C nam isun [] rw = rw"
| "setopt_globs C nam isun (raw # args) (retval, w) =
     (case patcompile C (canon_name raw) of
        None \<Rightarrow> (1, log (Warn nam (''bad pattern: '' @ raw)) w)
      | Some pattry \<Rightarrow> setopt_globs C nam isun args
          (retval, fold (\<lambda>opt w. if pattry opt then snd (setoption C opt (of_bool (\<not> isun)) w) else w) (set_order C) w))"

definition setopt_listing :: "bool \<Rightarrow> opt_world \<Rightarrow> string" where
  "setopt_listing isun w =
     concat (map (\<lambda>n. printoptionnode n (\<not> isun) w) (sort (filter (\<lambda>n. n \<notin> set ZSH_OPTION_ALIASES) OPTNS)))"

definition bin_setopt :: "opt_conf \<Rightarrow> string \<Rightarrow> string list \<Rightarrow> bool \<Rightarrow> opt_world \<Rightarrow> int \<times> opt_world" where
  "bin_setopt C nam args isun w =
     (if args = [] then (0, log (Out (setopt_listing isun w)) w)
      else (case setopt_flags C nam isun args (False, 0, w) of
              (None, _, _, w) \<Rightarrow> (1, w)
            | (Some args, match_glob, rw) \<Rightarrow>
                (let (retval, w) = (if \<not> match_glob then setopt_names C nam isun args rw
                                    else setopt_globs C nam isun args rw)
                 in (retval, log InitTypTab w))))"

section \<open>Emulations\<close>

definition createoptiontable :: "opt_world \<Rightarrow> opt_world" where
  "createoptiontable w = fold (\<lambda>name. on_cells (opt_state_set name (defset name EMULATE_ZSH))) OPTNS w"

text \<open>The array \<open>setemulate\<close> fills, by option number; \<open>-1\<close> is an option it leaves alone.\<close>

definition setemulate :: "int \<Rightarrow> int \<Rightarrow> bool \<Rightarrow> int list \<Rightarrow> int list" where
  "setemulate target optno fully tab =
     (let flags = flags_by_no optno in
      if has_bits flags OPT_ALIAS then tab
      else if \<not> (fully \<and> \<not> has_bits flags OPT_SPECIAL \<or> has_bits flags OPT_EMULATE) then tab
      else tab[nat optno := of_bool (has_bits flags (word_of_int target))])"

definition int_has :: "int \<Rightarrow> int \<Rightarrow> bool" where
  "int_has a b \<longleftrightarrow> a AND b \<noteq> 0"

definition installemulation :: "int \<Rightarrow> int list" where
  "installemulation new_emulation =
     fold (\<lambda>optno tab. if opt_name optno \<noteq> []
                       then setemulate new_emulation optno (int_has new_emulation EMULATE_FULLY) tab else tab)
       [1..OPT_SIZE - 1] (replicate (nat OPT_SIZE) (- 1))"

text \<open>Which emulation a name selects, and whether it is the strict \<open>dash\<close>.\<close>

definition is_dash_name :: "string \<Rightarrow> bool" where
  "is_dash_name mode =
     (let bare = (case strip_prefix ''r'' mode of Some s \<Rightarrow> s | None \<Rightarrow> mode) in
      bare = ''dash'' \<or> bare = ''ash'')"

definition emulation_of :: "string \<Rightarrow> int" where
  "emulation_of mode =
     (let ch = (case mode of [] \<Rightarrow> CHR ''z'' | c # _ \<Rightarrow> c);
          ch = (if ch = CHR ''r'' then (case tl mode of [] \<Rightarrow> CHR ''z'' | c # _ \<Rightarrow> c) else ch) in
      if is_dash_name mode then EMULATE_SH
      else if ch = CHR ''c'' then EMULATE_CSH
      else if ch = CHR ''k'' then EMULATE_KSH
      else if ch = CHR ''s'' \<or> ch = CHR ''b'' then EMULATE_SH
      else EMULATE_ZSH)"

definition zsh_reset :: "bool \<Rightarrow> string \<Rightarrow> u16 \<Rightarrow> opt_world \<Rightarrow> opt_world" where
  "zsh_reset fully name flags w =
     (if has_bits flags OPT_EMULATE \<or> (fully \<and> \<not> has_bits flags OPT_SPECIAL)
      then on_cells (opt_state_set name (has_bits flags (word_of_int EMULATE_ZSH))) w else w)"

definition emulate_commit :: "int list \<Rightarrow> opt_world \<Rightarrow> opt_world" where
  "emulate_commit new_opts w =
     fold (\<lambda>optno w. let v = new_opts ! nat optno in
             if v \<ge> 0 \<and> \<not> has_bits (flags_by_no optno) OPT_SPECIAL
             then on_cells (opt_state_set (opt_name optno) (v = 1)) w else w)
       [1..OPT_SIZE - 1] w"

definition emulate_zsh :: "bool \<Rightarrow> opt_world \<Rightarrow> opt_world" where
  "emulate_zsh fully w =
     fold (\<lambda>name. zsh_reset fully name (optns_flags name)) ZSH_OPTION_ALIASES
       (fold (\<lambda>optno w. if opt_name optno \<noteq> [] then zsh_reset fully (opt_name optno) (flags_by_no optno) w else w)
          [1..OPT_SIZE - 1] w)"

definition emulate :: "opt_conf \<Rightarrow> string \<Rightarrow> bool \<Rightarrow> opt_world \<Rightarrow> opt_world" where
  "emulate C mode fully w =
     (let new_emu = emulation_of mode;
          w = w\<lparr>dash_strict_flag := is_dash_name mode, emulation_live := new_emu, emulation_c := new_emu,
                fully_emulating := fully\<rparr>;
          new_opts = installemulation (if fully then new_emu OR EMULATE_FULLY else new_emu);
          new_opts = (if traced_function C then new_opts[nat XTRACE := 1] else new_opts);
          w = emulate_commit new_opts w;
          w = (if new_emu = EMULATE_ZSH then emulate_zsh fully w else w)
      in if traced_function C then on_cells (opt_state_set ''xtrace'' True) w else w)"

end
