(* ===== verification/OptFacts.thy ===== *)
theory OptFacts
  imports OptRace SetOpt
begin

text \<open>
  What the option code promises: names and numbers, the cache, the locks of \<open>setopt\<close>, the
  emulations.
\<close>

section \<open>Whether an option is on\<close>

definition opt_on :: "opt_world \<Rightarrow> int \<Rightarrow> bool" where
  "opt_on w i \<longleftrightarrow> store_get (opts_live (cells w)) (opt_name i) = Some True"

definition world_ok :: "opt_world \<Rightarrow> bool" where
  "world_ok w \<longleftrightarrow> cells_ok (cells w)"

lemma opt_on_read: "(opt_state_get (cells w) (opt_name i) = Some True) = opt_on w i"
  by (simp add: opt_state_get_read map_read_opt_name opt_on_def)

text \<open>A step that reads options, or does something else, changes no option.\<close>

definition same_options :: "opt_world \<Rightarrow> opt_world \<Rightarrow> bool" where
  "same_options w w' \<longleftrightarrow> opts_live (cells w') = opts_live (cells w) \<and> (world_ok w \<longrightarrow> world_ok w')"

lemma same_options_refl [simp]: "same_options w w"
  by (simp add: same_options_def)

lemma same_options_trans: "same_options u v \<Longrightarrow> same_options v w \<Longrightarrow> same_options u w"
  by (simp add: same_options_def)

lemma same_options_on: "same_options w w' \<Longrightarrow> opt_on w' i = opt_on w i"
  by (simp add: same_options_def opt_on_def)

lemma same_options_update [simp]:
  "same_options w (log e w)" "same_options w (w\<lparr>keyboardhack := k\<rparr>)" "same_options w (w\<lparr>param_flags := p\<rparr>)"
  "same_options w (log e (w\<lparr>origpgrp := g\<rparr>))"
  by (simp_all add: same_options_def log_def world_ok_def)

lemma isset_works:
  assumes "world_ok w"
  shows "fst (isset i w) = opt_on w i" "same_options w (snd (isset i w))"
  using is_set_reads [of "cells w" i] assms
  by (simp_all add: isset_def opt_on_def same_options_def world_ok_def case_prod_unfold)

lemma set_cell_works:
  assumes "world_ok w"
  shows "world_ok (on_cells (opt_state_set name v) w)"
    "opt_on (on_cells (opt_state_set name v) w) i = (if opt_name i = name then v else opt_on w i)"
  using assms by (simp_all add: on_cells_def world_ok_def opt_on_def opt_state_set_ok opt_state_set_live)

section \<open>\<open>dosetopt\<close>\<close>

lemma restricted_gate_works:
  assumes "world_ok w" "restricted_gate C idx value w = (r, w')"
  shows "same_options w w'"
    "r = (if idx = RESTRICTED \<and> opt_on w RESTRICTED then Some (if value \<noteq> 0 then 0 else - 1) else None)"
proof -
  note look = isset_works [OF assms(1), of RESTRICTED]
  have stamped: "same_options w (restrict_params C u)" if "same_options w u" for u
    using that by (simp add: same_options_def restrict_params_def world_ok_def)
  show "same_options w w'"
    "r = (if idx = RESTRICTED \<and> opt_on w RESTRICTED then Some (if value \<noteq> 0 then 0 else - 1) else None)"
    using assms(2) look stamped [OF look(2)]
    by (auto simp: restricted_gate_def case_prod_unfold Let_def split: if_splits)
qed

text \<open>\<open>mksh -c\<close> takes \<open>set -n\<close> and does nothing.\<close>

definition ignores_noexec :: "opt_conf \<Rightarrow> int \<Rightarrow> int \<Rightarrow> bool" where
  "ignores_noexec C idx value \<longleftrightarrow> idx = EXECOPT \<and> value = 0 \<and> in_pdksh_family C \<and> in_korn_mode C \<and> in_dash_c_string C"

lemma option_lock_works:
  assumes "world_ok w" "option_lock C idx value w = (r, w')"
  shows "same_options w w'"
    "r = None \<or> r = Some 0 \<or> r = Some (- 1)"
    "r = None \<Longrightarrow> idx \<noteq> INTERACTIVE \<and> idx \<noteq> SHINSTDIN \<and> idx \<noteq> SINGLECOMMAND"
    "r = Some 0 \<Longrightarrow> ignores_noexec C idx value \<or> of_bool (opt_on w idx) = value"
proof -
  obtain b u where look: "isset INTERACTIVE w = (b, u)" by (cases "isset INTERACTIVE w")
  have u: "same_options w u" using isset_works(2) [OF assms(1), of INTERACTIVE] look by simp
  have already: "of_bool (opt_on w idx) = value" if "already idx value w"
    using that by (auto simp: already_def opt_on_read)
  have monitor: "same_options w (snd (monitor_lock C idx value w))"
    "fst (monitor_lock C idx value w) \<in> {None, Some 0, Some (- 1)}"
    "fst (monitor_lock C idx value w) = Some 0 \<Longrightarrow> of_bool (opt_on w idx) = value"
    using already by (auto simp: monitor_lock_def split: if_splits)
  have "option_lock C idx value w =
     (if ignores_noexec C idx value then (Some 0, w)
      else if idx = EXECOPT \<and> value = 0 \<and> b then (Some (- 1), u)
      else if idx = INTERACTIVE \<or> idx = SHINSTDIN \<or> idx = SINGLECOMMAND
      then (Some (if already idx value w then 0 else - 1), w)
      else if idx = USEZLE \<and> value \<noteq> 0 \<and> \<not> b then (Some (- 1), u)
      else if idx = MONITOR \<and> value \<noteq> 0 then monitor_lock C idx value w
      else (None, if idx = EXECOPT \<and> value = 0 \<or> idx = USEZLE \<and> value \<noteq> 0 then u else w))"
    by (simp add: option_lock_def ignores_noexec_def look [unfolded INTERACTIVE_def] option_numbers)
  with assms(2) show "same_options w w'" "r = None \<or> r = Some 0 \<or> r = Some (- 1)"
    "r = None \<Longrightarrow> idx \<noteq> INTERACTIVE \<and> idx \<noteq> SHINSTDIN \<and> idx \<noteq> SINGLECOMMAND"
    "r = Some 0 \<Longrightarrow> ignores_noexec C idx value \<or> of_bool (opt_on w idx) = value"
    using u already monitor by (simp_all add: option_numbers split: if_splits)
      auto
qed

lemma other_keymap:
  "bit_xor (bit_xor EMACSMODE EMACSMODE) VIMODE = VIMODE" "bit_xor (bit_xor VIMODE EMACSMODE) VIMODE = EMACSMODE"
  "EMACSMODE \<noteq> VIMODE" "VIMODE \<noteq> EMACSMODE"
  by (simp_all add: bit_xor_def EMACSMODE_def VIMODE_def)

text \<open>A change either leaves every option as it was, or sets the one asked for, and turns the other
  editing mode off when that one is turned on.\<close>

definition wants :: "int \<Rightarrow> int \<Rightarrow> bool" where
  "wants optno value \<longleftrightarrow> (value \<noteq> 0) = (0 \<le> optno)"

definition partner :: "int \<Rightarrow> int \<Rightarrow> bool" where
  "partner idx i \<longleftrightarrow> (idx = EMACSMODE \<and> i = VIMODE) \<or> (idx = VIMODE \<and> i = EMACSMODE)"

lemma stored_option:
  assumes "world_ok w" "0 < idx" "idx < OPT_SIZE"
  shows "fst (store_option idx value (keyboard_hack idx value (keymap_switch idx value w))) = 0"
    "world_ok (snd (store_option idx value (keyboard_hack idx value (keymap_switch idx value w))))"
    "opt_on (snd (store_option idx value (keyboard_hack idx value (keymap_switch idx value w)))) i =
     (if opt_name i = opt_name idx then value \<noteq> 0
      else if value \<noteq> 0 \<and> (\<exists>j. partner idx j \<and> opt_name i = opt_name j) then False else opt_on w i)"
proof -
  have name: "opt_name idx \<noteq> []" using assms(2,3) opt_name_range by simp
  let ?u = "keyboard_hack idx value (keymap_switch idx value w)"
  have hack: "same_options v (keyboard_hack idx value v)" for v
    by (simp add: keyboard_hack_def)
  have keys: "world_ok (keymap_switch idx value w) \<and> opt_on (keymap_switch idx value w) i =
      (if value \<noteq> 0 \<and> (\<exists>j. partner idx j \<and> opt_name i = opt_name j) then False else opt_on w i)" for i
  proof -
    have "world_ok (log e w)" "opt_on (log e w) i = opt_on w i" for e
      using assms(1) by (simp_all add: log_def world_ok_def opt_on_def)
    then show ?thesis using assms(1)
      by (auto simp: keymap_switch_def other_keymap opt_name_values set_cell_works partner_def Let_def)
  qed
  have u: "world_ok ?u" "opt_on ?u i = opt_on (keymap_switch idx value w) i" for i
    using hack keys same_options_on [OF hack] by (auto simp: same_options_def)
  have out: "world_ok (if b then log e v else v) = world_ok v" "opt_on (if b then log e v else v) i = opt_on v i" for b e v i
    by (simp_all add: log_def world_ok_def opt_on_def)
  show "fst (store_option idx value ?u) = 0" "world_ok (snd (store_option idx value ?u))"
    "opt_on (snd (store_option idx value ?u)) i =
     (if opt_name i = opt_name idx then value \<noteq> 0
      else if value \<noteq> 0 \<and> (\<exists>j. partner idx j \<and> opt_name i = opt_name j) then False else opt_on w i)"
    using name u keys [of i] by (simp_all add: store_option_def Let_def out set_cell_works)
qed

lemma dosetopt_cases:
  assumes ok: "world_ok w" and run: "dosetopt C optno value force w = (r, w')" and range: "\<bar>optno\<bar> < OPT_SIZE"
  obtains (kept) "same_options w w'" "r = 0 \<or> r = - 1"
      "r = 0 \<Longrightarrow> value \<in> {0, 1} \<Longrightarrow> opt_on w \<bar>optno\<bar> = wants optno value \<or>
         force = 0 \<and> ignores_noexec C \<bar>optno\<bar> (of_bool (wants optno value))"
  | (changed) "r = 0" "world_ok w'" "0 < \<bar>optno\<bar>" "\<bar>optno\<bar> = RESTRICTED \<Longrightarrow> \<not> opt_on w RESTRICTED"
      "force = 0 \<Longrightarrow> \<bar>optno\<bar> \<noteq> INTERACTIVE \<and> \<bar>optno\<bar> \<noteq> SHINSTDIN \<and> \<bar>optno\<bar> \<noteq> SINGLECOMMAND"
      "\<And>i. opt_on w' i = (if opt_name i = opt_name \<bar>optno\<bar> then wants optno value
         else if wants optno value \<and> (\<exists>j. partner \<bar>optno\<bar> j \<and> opt_name i = opt_name j) then False
         else opt_on w i)"
proof (cases "optno = 0")
  case True
  then show ?thesis using run kept by (simp add: dosetopt_def)
next
  case False
  define value' :: int where "value' = (if optno < 0 then if value \<noteq> 0 then 0 else 1 else value)"
  have idx: "(if optno < 0 then (- optno, if value \<noteq> 0 then 0 else 1) else (optno, value)) = (\<bar>optno\<bar>, value')"
    by (simp add: value'_def)
  have wants: "value' \<noteq> 0 \<longleftrightarrow> wants optno value" by (auto simp: value'_def wants_def)
  have as_bool: "value \<in> {0, 1} \<Longrightarrow> value' = of_bool (wants optno value)" by (auto simp: value'_def wants_def)
  obtain r1 w1 where gate: "restricted_gate C \<bar>optno\<bar> value' w = (r1, w1)" by (cases "restricted_gate C \<bar>optno\<bar> value' w")
  note g = restricted_gate_works [OF ok gate]
  obtain r2 w2 where lock: "(if force = 0 then option_lock C \<bar>optno\<bar> value' w1 else (None, w1)) = (r2, w2)"
    by (cases "if force = 0 then option_lock C \<bar>optno\<bar> value' w1 else (None, w1)")
  have ok1: "world_ok w1" using g(1) ok by (simp add: same_options_def)
  have l: "same_options w1 w2" "r2 = None \<or> r2 = Some 0 \<or> r2 = Some (- 1)"
    "force = 0 \<Longrightarrow> r2 = None \<Longrightarrow> \<bar>optno\<bar> \<noteq> INTERACTIVE \<and> \<bar>optno\<bar> \<noteq> SHINSTDIN \<and> \<bar>optno\<bar> \<noteq> SINGLECOMMAND"
    "r2 = Some 0 \<Longrightarrow> force = 0 \<and> ignores_noexec C \<bar>optno\<bar> value' \<or> of_bool (opt_on w1 \<bar>optno\<bar>) = value'"
    using lock option_lock_works [OF ok1, of C "\<bar>optno\<bar>" value' r2 w2] by (cases "force = 0"; simp)+
  note both = same_options_trans [OF g(1) l(1)]
  have ok2: "world_ok w2" using both ok by (simp add: same_options_def)
  have eq: "dosetopt C optno value force w = (case r1 of Some r \<Rightarrow> (r, w1) | None \<Rightarrow>
      (case r2 of Some r \<Rightarrow> (r, w2) | None \<Rightarrow>
        store_option \<bar>optno\<bar> value' (keyboard_hack \<bar>optno\<bar> value' (keymap_switch \<bar>optno\<bar> value' w2))))"
    using False lock by (cases "force = 0") (simp_all add: dosetopt_def idx gate split: option.split)
  show ?thesis
  proof (cases r1)
    case (Some x)
    then have "r = x" "w' = w1" using run eq by simp_all
    moreover have "opt_on w \<bar>optno\<bar>" "x = (if value' \<noteq> 0 then 0 else - 1)"
      using Some g(2) by (auto split: if_splits)
    ultimately show ?thesis using g(1) wants by (intro kept) (auto split: if_splits)
  next
    case r1: None
    show ?thesis
    proof (cases r2)
      case (Some x)
      then have "r = x" "w' = w2" using run eq r1 by simp_all
      then show ?thesis
      proof (intro kept)
        assume z: "r = 0" "value \<in> {0, 1}"
        have "r2 = Some 0" using z(1) Some \<open>r = x\<close> by simp
        from l(4) [OF this]
        show "opt_on w \<bar>optno\<bar> = wants optno value \<or> force = 0 \<and> ignores_noexec C \<bar>optno\<bar> (of_bool (wants optno value))"
          unfolding as_bool [OF z(2)] same_options_on [OF g(1)] of_bool_eq_iff by blast
      qed (use Some both l(2) in auto)
    next
      case None
      then have out: "store_option \<bar>optno\<bar> value' (keyboard_hack \<bar>optno\<bar> value' (keymap_switch \<bar>optno\<bar> value' w2)) = (r, w')"
        using run eq r1 by simp
      have pos: "0 < \<bar>optno\<bar>" using False by simp
      show ?thesis
      proof (rule changed)
        show "r = 0" "world_ok w'"
          using stored_option(1,2) [OF ok2 pos range, of value'] out by simp_all
        show "opt_on w' i = (if opt_name i = opt_name \<bar>optno\<bar> then wants optno value
           else if wants optno value \<and> (\<exists>j. partner \<bar>optno\<bar> j \<and> opt_name i = opt_name j) then False
           else opt_on w i)" for i
          using stored_option(3) [OF ok2 pos range, of value' i] out same_options_on [OF both, of i] wants by auto
      qed (use pos l(3) None g(2) r1 in \<open>auto split: if_splits\<close>)
    qed
  qed
qed

section \<open>The locks hold for every command\<close>

text \<open>What no unforced change breaks.\<close>

definition keeps_locks :: "opt_world \<Rightarrow> opt_world \<Rightarrow> bool" where
  "keeps_locks w w' \<longleftrightarrow> (world_ok w \<longrightarrow> world_ok w' \<and>
     (\<forall>i \<in> {INTERACTIVE, SHINSTDIN, SINGLECOMMAND}. opt_on w' i = opt_on w i) \<and>
     (opt_on w RESTRICTED \<longrightarrow> opt_on w' RESTRICTED) \<and>
     (opt_on w' EMACSMODE \<and> opt_on w' VIMODE \<longrightarrow> opt_on w EMACSMODE \<and> opt_on w VIMODE))"

lemma keeps_locks_refl [simp]: "keeps_locks w w"
  by (simp add: keeps_locks_def)

lemma keeps_locks_trans [trans]: "keeps_locks u v \<Longrightarrow> keeps_locks v w \<Longrightarrow> keeps_locks u w"
  by (auto simp: keeps_locks_def)

lemma same_keeps_locks: "same_options w w' \<Longrightarrow> keeps_locks w w'"
  using same_options_on [of w w'] by (auto simp: keeps_locks_def same_options_def)

lemma locked_names:
  "opt_name i = opt_name j \<Longrightarrow> 0 < j \<Longrightarrow> j < OPT_SIZE \<Longrightarrow> i = j"
  using opt_name_inj opt_name_range by metis

lemma option_facts:
  "0 < INTERACTIVE" "INTERACTIVE < OPT_SIZE" "0 < SHINSTDIN" "SHINSTDIN < OPT_SIZE"
  "0 < SINGLECOMMAND" "SINGLECOMMAND < OPT_SIZE" "0 < RESTRICTED" "RESTRICTED < OPT_SIZE"
  "0 < EMACSMODE" "EMACSMODE < OPT_SIZE" "0 < VIMODE" "VIMODE < OPT_SIZE"
  "0 < XTRACE" "XTRACE < OPT_SIZE"
  by (simp_all add: option_numbers)

lemma opt_name_eq_iff: "0 < j \<Longrightarrow> j < OPT_SIZE \<Longrightarrow> opt_name i = opt_name j \<longleftrightarrow> i = j"
  using locked_names by blast

lemma dosetopt_keeps_locks:
  assumes "\<bar>optno\<bar> < OPT_SIZE"
  shows "keeps_locks w (snd (dosetopt C optno value 0 w))"
proof (cases "world_ok w")
  case ok: True
  obtain r w' where run: "dosetopt C optno value 0 w = (r, w')" by (cases "dosetopt C optno value 0 w")
  from ok run assms show ?thesis
  proof (cases rule: dosetopt_cases)
    case kept
    then show ?thesis using run by (simp add: same_keeps_locks)
  next
    case changed
    have pos: "0 < \<bar>optno\<bar>" "\<bar>optno\<bar> < OPT_SIZE" using changed(3) assms by simp_all
    have "(\<exists>j. partner \<bar>optno\<bar> j \<and> opt_name i = opt_name j) = partner \<bar>optno\<bar> i" for i
      using opt_name_eq_iff by (auto simp: partner_def option_facts)
    then have on: "opt_on w' i = (if i = \<bar>optno\<bar> then wants optno value
        else if wants optno value \<and> partner \<bar>optno\<bar> i then False else opt_on w i)" for i
      using changed(6) [of i] opt_name_eq_iff [OF pos, of i] by simp
    have "opt_on w' i = opt_on w i" if "i \<in> {INTERACTIVE, SHINSTDIN, SINGLECOMMAND}" for i
      using that changed(5) by (auto simp: on partner_def option_numbers)
    moreover have "opt_on w RESTRICTED \<longrightarrow> opt_on w' RESTRICTED"
      using changed(4) by (auto simp: on partner_def option_numbers)
    moreover have "opt_on w' EMACSMODE \<and> opt_on w' VIMODE \<longrightarrow> opt_on w EMACSMODE \<and> opt_on w VIMODE"
      using other_keymap(3) by (auto simp: on partner_def)
    ultimately show ?thesis using changed(2) run by (auto simp: keeps_locks_def)
  qed
qed (simp add: keeps_locks_def)

lemma change_option_keeps_locks:
  assumes "\<bar>optno\<bar> < OPT_SIZE"
  shows "keeps_locks (snd rw) (snd (change_option C nam unknown shown optno value rw))"
  using dosetopt_keeps_locks [OF assms, of "snd rw" C "value"] keeps_locks_trans same_keeps_locks same_options_update(1)
  by (cases rw) (fastforce simp: change_option_def case_prod_unfold Let_def)

lemma letter_number_range: "\<bar>letter_number rows c\<bar> < OPT_SIZE"
proof (induction rows c rule: letter_number.induct)
  case (2 ch name negated rest c)
  then show ?case using optno_range [of name] by (auto simp: Let_def OPT_SIZE_def split: option.split)
qed (simp add: OPT_SIZE_def)

lemma optlookupc_range: "optlookupc c w = (optno, w') \<Longrightarrow> \<bar>optno\<bar> < OPT_SIZE"
  using letter_number_range by (auto simp: optlookupc_def case_prod_unfold Let_def)

lemma isset_keeps_locks: "keeps_locks w (snd (isset i w))"
  using isset_works(2) same_keeps_locks by (cases "world_ok w") (auto simp: keeps_locks_def)

lemma optlookupc_keeps_locks: "keeps_locks w (snd (optlookupc c w))"
  using isset_keeps_locks by (simp add: optlookupc_def case_prod_unfold Let_def)

lemma setopt_letters_keeps_locks:
  "keeps_locks (snd (snd st)) (snd (snd (snd (setopt_letters C nam action body rest st))))"
proof (induction C nam action body rest st rule: setopt_letters.induct)
  case (1 C nam action body rest st)
  obtain match_glob rw where st: "st = (match_glob, rw)" by (cases st)
  show ?case
  proof (cases "next_letter body")
    case None
    then show ?thesis by (simp add: setopt_letters.simps [of C nam action body])
  next
    case (Some p)
    obtain c cs where p: "p = (c, cs)" by (cases p)
    obtain optno w where look: "optlookupc c (snd rw) = (optno, w)" by (cases "optlookupc c (snd rw)")
    note step = setopt_letters.simps [of C nam action body rest "(match_glob, rw)"]
    note named = change_option_keeps_locks [OF optlookup_range, of rw C nam]
    note letter = change_option_keeps_locks [OF optlookupc_range [OF look], of "(fst rw, w)" C nam
      "''bad option: ''" "CHR ''-'' # latin1 c" action]
    consider "c = CHR ''-''" | "c = CHR ''o''" | "c = CHR ''m''"
      | "c \<noteq> CHR ''-''" "c \<noteq> CHR ''o''" "c \<noteq> CHR ''m''" by blast
    then show ?thesis
    proof cases
      case 1
      then show ?thesis using Some p st by (simp add: step)
    next
      case 2
      then show ?thesis unfolding st step using Some p named
        by (cases cs; cases rest) (simp_all add: same_keeps_locks)
    next
      case 3
      then show ?thesis using Some p st "1.IH"(1) [OF Some p [symmetric] st [symmetric]] by (simp add: step)
    next
      case 4
      have "keeps_locks (snd rw) w" using optlookupc_keeps_locks [of "snd rw" c] look by simp
      with letter have "keeps_locks (snd rw)
          (snd (change_option C nam ''bad option: '' (CHR ''-'' # latin1 c) optno action (fst rw, w)))"
        using keeps_locks_trans by fastforce
      with 4 show ?thesis
        using Some p st look "1.IH"(2) [OF Some p [symmetric] st [symmetric] _ _ _ refl look [symmetric]] keeps_locks_trans
        by (fastforce simp: step)
    qed
  qed
qed

lemma setopt_flags_keeps_locks:
  "keeps_locks (snd (snd st)) (snd (snd (snd (setopt_flags C nam isun args st))))"
proof (induction C nam isun args st rule: setopt_flags.induct)
  case (1 C nam isun args st)
  show ?case
  proof (cases args)
    case Nil
    then show ?thesis by (simp add: setopt_flags.simps)
  next
    case (Cons arg rest)
    show ?thesis
    proof (cases "arg \<noteq> [] \<and> (hd arg = CHR ''-'' \<or> hd arg = CHR ''+'') \<and> length arg \<noteq> 1")
      case False
      then show ?thesis using Cons by (auto simp: setopt_flags.simps [of C nam isun "arg # rest"])
    next
      case True
      let ?letters = "setopt_letters C nam (of_bool ((hd arg = CHR ''-'') \<noteq> isun)) (tl arg) rest st"
      obtain how st' where letters: "?letters = (how, st')" by (cases ?letters)
      have first: "keeps_locks (snd (snd st)) (snd (snd st'))"
        using setopt_letters_keeps_locks [of st C nam _ "tl arg" rest] letters by (metis snd_conv)
      show ?thesis
      proof (cases how)
        case (NextArgument rest')
        then have "keeps_locks (snd (snd st')) (snd (snd (snd (setopt_flags C nam isun rest' st'))))"
          using 1 [OF Cons] True letters by auto
        then show ?thesis using first True Cons letters NextArgument keeps_locks_trans
          by (fastforce simp: setopt_flags.simps [of C nam isun "arg # rest"])
      qed (use first True Cons letters in \<open>simp_all add: setopt_flags.simps [of C nam isun "arg # rest"]\<close>)
    qed
  qed
qed

lemma setopt_names_keeps_locks: "keeps_locks (snd rw) (snd (setopt_names C nam isun args rw))"
proof (induction args arbitrary: rw)
  case (Cons a args)
  show ?case
    using keeps_locks_trans [OF change_option_keeps_locks [OF optlookup_range] Cons]
    by (simp add: setopt_names_def)
qed (simp add: setopt_names_def)

lemma setopt_globs_keeps_locks: "keeps_locks (snd rw) (snd (setopt_globs C nam isun args rw))"
proof (induction C nam isun args rw rule: setopt_globs.induct)
  case (2 C nam isun raw args retval w)
  have scan: "keeps_locks w (fold (\<lambda>opt w. if pattry opt then snd (setoption C opt v w) else w) opts w)" for pattry v opts w
  proof (induction opts arbitrary: w)
    case (Cons opt opts)
    have "keeps_locks w (if pattry opt then snd (setoption C opt v w) else w)"
      using dosetopt_keeps_locks [OF optlookup_range] by (simp add: setoption_def)
    from keeps_locks_trans [OF this Cons] show ?case by simp
  qed simp
  show ?case
  proof (cases "patcompile C (canon_name raw)")
    case None
    then show ?thesis by (simp add: same_keeps_locks)
  next
    case (Some pattry)
    show ?thesis using keeps_locks_trans [OF scan [of w pattry "of_bool (\<not> isun)" "set_order C"]] 2 [OF Some] Some
      by simp
  qed
qed simp

lemma bin_setopt_keeps_locks: "keeps_locks w (snd (bin_setopt C nam args isun w))"
proof (cases "args = []")
  case True
  then show ?thesis by (simp add: bin_setopt_def same_keeps_locks)
next
  case False
  obtain left match_glob rw where flags: "setopt_flags C nam isun args (False, 0, w) = (left, match_glob, rw)"
    by (cases "setopt_flags C nam isun args (False, 0, w)")
  have first: "keeps_locks w (snd rw)"
    using setopt_flags_keeps_locks [of "(False, 0, w)" C nam isun args] flags by simp
  have out: "keeps_locks u (log InitTypTab v)" if "keeps_locks u v" for u v
    using that keeps_locks_trans same_keeps_locks same_options_update(1) by blast
  show ?thesis
    using False flags first out [OF keeps_locks_trans [OF first setopt_names_keeps_locks]]
      out [OF keeps_locks_trans [OF first setopt_globs_keeps_locks]]
    by (cases rw) (auto simp: bin_setopt_def case_prod_unfold Let_def split: option.split)
qed

section \<open>Emulations\<close>

lemma flag_values:
  "OPT_CSH = 2" "OPT_KSH = 4" "OPT_SH = 8" "OPT_ZSH = 16" "OPT_ALL = 30" "OPT_BOURNE = 12" "OPT_BSHELL = 28"
  "OPT_NONBOURNE = 18" "OPT_NONZSH = 14" "OPT_EMULATE = 64" "OPT_SPECIAL = 128" "OPT_ALIAS = 256"
  by (simp_all add: option_flags emulation_bits)

text \<open>No row has the bit of \<open>EMULATE_FULLY\<close>, none is both special and relevant to emulation, and only
  the alias rows are flagged as aliases.\<close>

lemma flag_rows:
  "list_all (\<lambda>(n, f). \<not> has_bits f 32 \<and> \<not> (has_bits f OPT_EMULATE \<and> has_bits f OPT_SPECIAL) \<and>
     (\<not> has_bits f OPT_ALIAS \<or> n \<in> set ZSH_OPTION_ALIASES)) optns_flag_rows"
  by (simp add: optns_flag_rows_def flag_values has_bits_def ZSH_OPTION_ALIASES_def)

lemma optns_flags_row:
  "\<not> has_bits (optns_flags n) 32" "has_bits (optns_flags n) OPT_EMULATE \<Longrightarrow> \<not> has_bits (optns_flags n) OPT_SPECIAL"
  "has_bits (optns_flags n) OPT_ALIAS \<Longrightarrow> map to_lower n \<in> set ZSH_OPTION_ALIASES"
  using flag_rows map_of_SomeD [of optns_flag_rows "map to_lower n"]
  by (auto simp: optns_flags_def list_all_iff has_bits_def split: option.splits)

lemma aliases_unnamed: "n \<in> set ZSH_OPTION_ALIASES \<Longrightarrow> optno_by_name n = None"
proof -
  assume "n \<in> set ZSH_OPTION_ALIASES"
  then have "map_of alias_rows n \<noteq> None" by (auto simp: ZSH_OPTION_ALIASES_def alias_rows_def)
  then show ?thesis using alias_rows_facts(1) by blast
qed

text \<open>Which options an emulation sets.\<close>

definition emulated :: "bool \<Rightarrow> int \<Rightarrow> bool" where
  "emulated fully i \<longleftrightarrow> has_bits (flags_by_no i) OPT_EMULATE \<or> (fully \<and> \<not> has_bits (flags_by_no i) OPT_SPECIAL)"

lemma flags_by_no_facts:
  "\<not> has_bits (flags_by_no i) 32" "\<not> has_bits (flags_by_no i) OPT_ALIAS"
  "emulated fully i \<Longrightarrow> \<not> has_bits (flags_by_no i) OPT_SPECIAL"
proof -
  show "emulated fully i \<Longrightarrow> \<not> has_bits (flags_by_no i) OPT_SPECIAL"
    using optns_flags_row(2) by (auto simp: emulated_def flags_by_no_def has_bits_def split: if_splits)
  show "\<not> has_bits (flags_by_no i) 32" using optns_flags_row(1) by (simp add: flags_by_no_def has_bits_def)
  show "\<not> has_bits (flags_by_no i) OPT_ALIAS"
  proof
    assume a: "has_bits (flags_by_no i) OPT_ALIAS"
    then have i: "opt_name i \<noteq> []" by (auto simp: flags_by_no_def has_bits_def)
    then have "opt_name i \<in> set ZSH_OPTION_ALIASES"
      using a optns_flags_row(3) [of "opt_name i"] opt_name_ok(3) [of i] opt_name_range [of i]
      by (simp add: flags_by_no_def)
    then show False using aliases_unnamed i by fastforce
  qed
qed

lemma setemulate_fold:
  assumes "length tab = 186" "set is \<subseteq> {1..<186}" "0 < j" "j < 186"
  shows "length (fold (\<lambda>optno tab. if opt_name optno \<noteq> [] then setemulate target optno fully tab else tab) is tab) = 186 \<and>
    fold (\<lambda>optno tab. if opt_name optno \<noteq> [] then setemulate target optno fully tab else tab) is tab ! nat j =
     (if j \<in> set is \<and> emulated fully j then of_bool (has_bits (flags_by_no j) (word_of_int target)) else tab ! nat j)"
  using assms
proof (induction "is" arbitrary: tab)
  case (Cons i "is")
  have named: "opt_name i \<noteq> []" using Cons.prems(2) opt_name_range [of i] by (simp add: OPT_SIZE_def)
  have len: "length (setemulate target i fully tab) = 186" using Cons.prems by (simp add: setemulate_def Let_def)
  have here: "setemulate target i fully tab ! nat j =
      (if j = i \<and> emulated fully j then of_bool (has_bits (flags_by_no j) (word_of_int target)) else tab ! nat j)"
    using Cons.prems flags_by_no_facts(2) [of i]
    by (auto simp: setemulate_def Let_def emulated_def nth_list_update)
  show ?case using Cons.IH [OF len] Cons.prems named here by auto
qed simp

lemma installemulation_slot:
  assumes "0 < i" "i < OPT_SIZE"
  shows "installemulation target ! nat i =
    (if emulated (int_has target EMULATE_FULLY) i then of_bool (has_bits (flags_by_no i) (word_of_int target)) else - 1)"
    "length (installemulation target) = 186"
proof -
  have "set [1..185 :: int] \<subseteq> {1..<186}" by auto
  from setemulate_fold [OF _ this, of "replicate 186 (- 1)" i target "int_has target EMULATE_FULLY"] assms
  show "installemulation target ! nat i =
      (if emulated (int_has target EMULATE_FULLY) i then of_bool (has_bits (flags_by_no i) (word_of_int target)) else - 1)"
    "length (installemulation target) = 186"
    by (auto simp: installemulation_def OPT_SIZE_def)
qed

text \<open>A walk over the numbers that sets some options sets those and no others.\<close>

lemma options_fold:
  assumes "world_ok w" "0 < j" "j < OPT_SIZE" "set is \<subseteq> {1..<OPT_SIZE}"
  shows "world_ok (fold (\<lambda>i w. if P i then on_cells (opt_state_set (opt_name i) (b i)) w else w) is w) \<and>
    opt_on (fold (\<lambda>i w. if P i then on_cells (opt_state_set (opt_name i) (b i)) w else w) is w) j =
     (if j \<in> set is \<and> P j then b j else opt_on w j)"
  using assms
proof (induction "is" arbitrary: w)
  case (Cons i "is")
  have i: "0 < i" "i < OPT_SIZE" using Cons.prems by simp_all
  let ?w = "if P i then on_cells (opt_state_set (opt_name i) (b i)) w else w"
  have ok: "world_ok ?w" using Cons.prems(1) by (simp add: set_cell_works)
  have on: "opt_on ?w j = (if j = i \<and> P j then b j else opt_on w j)"
    using Cons.prems(1) opt_name_eq_iff [OF i, of j] by (auto simp: set_cell_works)
  show ?case using Cons.IH [OF ok] Cons.prems on by auto
qed simp

lemma emulation_of_cases:
  "emulation_of mode \<in> {EMULATE_CSH, EMULATE_KSH, EMULATE_SH, EMULATE_ZSH}"
  by (simp add: emulation_of_def Let_def)

lemma fully_bit:
  assumes "emu \<in> {EMULATE_CSH, EMULATE_KSH, EMULATE_SH, EMULATE_ZSH}"
  shows "int_has (emu OR EMULATE_FULLY) EMULATE_FULLY" "\<not> int_has emu EMULATE_FULLY"
    "has_bits (flags_by_no i) (word_of_int (emu OR EMULATE_FULLY)) = has_bits (flags_by_no i) (word_of_int emu)"
proof -
  show "int_has (emu OR EMULATE_FULLY) EMULATE_FULLY" "\<not> int_has emu EMULATE_FULLY"
    using assms by (auto simp: int_has_def emulation_bits)
  have split: "f AND (a OR b) = 0 \<longleftrightarrow> f AND a = 0 \<and> f AND b = 0" for f a b :: u16
    by (simp add: bit.conj_disj_distrib or_eq_0_iff)
  show "has_bits (flags_by_no i) (word_of_int (emu OR EMULATE_FULLY)) = has_bits (flags_by_no i) (word_of_int emu)"
  proof -
    have "word_of_int (emu OR EMULATE_FULLY) = (word_of_int emu OR 32 :: u16)"
      using assms by (auto simp: emulation_bits)
    then show ?thesis
      using flags_by_no_facts(1) [of i] split
      by (simp add: has_bits_def)
  qed
qed

lemma alias_walk:
  assumes "world_ok w" "0 < j" "j < OPT_SIZE" "set ns \<subseteq> set ZSH_OPTION_ALIASES"
  shows "world_ok (fold (\<lambda>name. zsh_reset fully name (optns_flags name)) ns w) \<and>
    opt_on (fold (\<lambda>name. zsh_reset fully name (optns_flags name)) ns w) j = opt_on w j"
  using assms
proof (induction ns arbitrary: w)
  case (Cons n ns)
  have "opt_name j \<noteq> n" using Cons.prems aliases_unnamed [of n] opt_name_range [of j] by auto
  then have step: "world_ok (zsh_reset fully n (optns_flags n) w)"
    "opt_on (zsh_reset fully n (optns_flags n) w) j = opt_on w j"
    using Cons.prems(1) by (simp_all add: zsh_reset_def set_cell_works)
  show ?case using Cons.IH [OF step(1)] step(2) Cons.prems by simp
qed simp


text \<open>Every option of the shell after \<open>emulate\<close>.\<close>

lemma emulate_works:
  assumes ok: "world_ok w" and i: "0 < i" "i < OPT_SIZE"
  shows "opt_on (emulate C mode fully w) i =
    (if traced_function C \<and> i = XTRACE then True
     else if emulated fully i then has_bits (flags_by_no i) (word_of_int (emulation_of mode))
     else opt_on w i)" and "world_ok (emulate C mode fully w)"
proof -
  define emu where "emu = emulation_of mode"
  define w1 where "w1 = w\<lparr>dash_strict_flag := is_dash_name mode, emulation_live := emu, emulation_c := emu,
    fully_emulating := fully\<rparr>"
  define new where "new = installemulation (if fully then emu OR EMULATE_FULLY else emu)"
  define new' where "new' = (if traced_function C then new[nat XTRACE := 1] else new)"
  define w2 where "w2 = emulate_commit new' w1"
  define w3 where "w3 = (if emu = EMULATE_ZSH then emulate_zsh fully w2 else w2)"
  have emu: "emu \<in> {EMULATE_CSH, EMULATE_KSH, EMULATE_SH, EMULATE_ZSH}"
    unfolding emu_def by (rule emulation_of_cases)
  have w1: "world_ok w1" "opt_on w1 i = opt_on w i" using ok by (simp_all add: w1_def world_ok_def opt_on_def)
  have new: "length new = 186" "new ! nat i =
      (if emulated fully i then of_bool (has_bits (flags_by_no i) (word_of_int emu)) else - 1)"
    using installemulation_slot [OF i] fully_bit [OF emu] by (simp_all add: new_def)
  have new': "new' ! nat i = (if traced_function C \<and> i = XTRACE then 1 else new ! nat i)"
    using new(1) i by (auto simp: new'_def nth_list_update XTRACE_def OPT_SIZE_def)
  have range: "i \<in> set [1..OPT_SIZE - 1]" "set [1..OPT_SIZE - 1] \<subseteq> {1..<OPT_SIZE}" using i by auto
  note commit = options_fold [OF w1(1) i range(2)]
  have w2: "world_ok w2" "opt_on w2 i =
      (if new' ! nat i \<ge> 0 \<and> \<not> has_bits (flags_by_no i) OPT_SPECIAL then new' ! nat i = 1 else opt_on w i)"
    using commit [where b = "\<lambda>i. new' ! nat i = 1"
        and P = "\<lambda>i. new' ! nat i \<ge> 0 \<and> \<not> has_bits (flags_by_no i) OPT_SPECIAL"] range(1) w1(2)
    by (simp_all add: w2_def emulate_commit_def Let_def)
  have walk: "(if opt_name j \<noteq> [] then zsh_reset fully (opt_name j) (flags_by_no j) v else v) =
      (if opt_name j \<noteq> [] \<and> emulated fully j
       then on_cells (opt_state_set (opt_name j) (has_bits (flags_by_no j) (word_of_int EMULATE_ZSH))) v else v)" for j v
    by (simp add: zsh_reset_def emulated_def)
  have w3: "world_ok w3" "opt_on w3 i =
      (if emu = EMULATE_ZSH \<and> emulated fully i then has_bits (flags_by_no i) (word_of_int EMULATE_ZSH) else opt_on w2 i)"
    using alias_walk [OF _ i subset_refl, of _ fully] range(1) i opt_name_range [of i]
      options_fold [OF w2(1) i range(2), where b = "\<lambda>i. has_bits (flags_by_no i) (word_of_int EMULATE_ZSH)"
        and P = "\<lambda>j. opt_name j \<noteq> [] \<and> emulated fully j"] w2(1)
    by (simp_all add: w3_def emulate_zsh_def walk)
  have out: "emulate C mode fully w = (if traced_function C then on_cells (opt_state_set ''xtrace'' True) w3 else w3)"
    by (simp add: emulate_def Let_def w3_def w2_def new'_def new_def w1_def emu_def)
  have x: "opt_name i = ''xtrace'' \<longleftrightarrow> i = XTRACE"
    using opt_name_eq_iff [OF option_facts(13,14), of i] by (simp add: opt_name_values)
  show "world_ok (emulate C mode fully w)" using w3(1) by (simp add: out set_cell_works)
  show "opt_on (emulate C mode fully w) i =
    (if traced_function C \<and> i = XTRACE then True
     else if emulated fully i then has_bits (flags_by_no i) (word_of_int (emulation_of mode))
     else opt_on w i)"
    using w3 w2(2) new' new(2) flags_by_no_facts(3) [of fully i]
    by (auto simp: out set_cell_works x opt_name_values emu_def [symmetric])
qed


section \<open>The properties\<close>

text \<open>C13. A text that names an option up to underscores and ASCII case is looked up as that option,
  \<open>no\<close> in front of it as its negation, and the number leads back to the name.\<close>

theorem option_names_round_trip:
  assumes "0 < i" "i < OPT_SIZE" "canon_name s = opt_name i"
  shows "optlookup s = i \<and> optlookup (''NO_'' @ s) = - i \<and> opt_name \<bar>optlookup (''NO_'' @ s)\<bar> = canon_name s"
proof -
  have named: "optno_by_name (canon_name s) = Some i" using assms opt_name_ok(1) by simp
  have "canon_name (''NO_'' @ s) = canon_name (''no'' @ s)"
    by (simp only: canon_append) code_simp
  then have "optlookup (''NO_'' @ s) = - i"
    using optlookup_negated [OF named] optlookup_cong by metis
  then show ?thesis using optlookup_named [OF named] assms by simp
qed

theorem option_names_round_trip_witness:
  "optlookup ''Mo_niTOR'' = MONITOR \<and> optlookup ''NO_Mo_niTOR'' = - MONITOR"
proof -
  have "canon_name ''Mo_niTOR'' = opt_name MONITOR" unfolding opt_name_values by code_simp
  moreover have "0 < MONITOR" "MONITOR < OPT_SIZE" by (simp_all add: option_numbers)
  ultimately show ?thesis using option_names_round_trip [of MONITOR "''Mo_niTOR''"] by simp
qed

text \<open>C8. The flat array, the map beside it and the read cache together answer every sequence of
  writes, reads, function calls and subshells as one map from names to values does.\<close>

theorem options_refine_map:
  "answers opt_step ops (fresh_cells, []) = answers map_step ops ((\<lambda>_. None), [])"
  using options.run_agrees [OF fresh_run_ok(1), of ops] by (simp add: fresh_run_ok(2))

text \<open>C9. Whatever readers and writers do at the same time, when all of them are done the cache
  answers every option with the value the store has.\<close>

theorem cache_settles:
  assumes "race_reaches n s" "n < 2 ^ 64" "\<And>t. threads s t = Idle" "0 \<le> i" "i < OPT_SIZE"
  shows "fst (is_set i (shared s)) = (store_get (opts_live (shared s)) (opt_name i) = Some True)"
proof -
  have ok: "race_ok n s" by (rule race_reaches_ok [OF assms(1,2)])
  then have "cache_agrees {} (shared s)"
    using assms(3) by (auto simp: race_ok_def stale_cached_def cache_agrees_def will_reset_def)
  then have "cells_ok (shared s)" using ok by (simp add: cells_ok_def race_ok_def)
  then show ?thesis by (rule is_set_reads(1))
qed

text \<open>A change of the option \<open>exec\<close> that \<open>mksh -c\<close> ignores.\<close>

definition ignored_change :: "opt_conf \<Rightarrow> int \<Rightarrow> int \<Rightarrow> int \<Rightarrow> bool" where
  "ignored_change C optno value force \<longleftrightarrow> force = 0 \<and> \<bar>optno\<bar> = EXECOPT \<and> (value = 1) \<noteq> (0 < optno) \<and>
     in_pdksh_family C \<and> in_korn_mode C \<and> in_dash_c_string C"

lemma ignored_change_keeps:
  assumes "ignored_change C optno value force" "value = 0 \<or> value = 1"
  shows "dosetopt C optno value force w = (0, w)"
proof -
  have "restricted_gate C EXECOPT 0 w = (None, w)" "option_lock C EXECOPT 0 w = (Some 0, w)"
    using assms(1) by (simp_all add: ignored_change_def restricted_gate_def option_lock_def EXECOPT_def RESTRICTED_def)
  then show ?thesis using assms unfolding dosetopt_def
    by (cases "optno < 0") (auto simp: ignored_change_def EXECOPT_def)
qed

text \<open>C11. \<open>dosetopt\<close> that answers 0 leaves the option at the value asked for, with no other option
  changed but the other editing mode, and one that answers -1 changes no option.  The one exception is
  \<open>set -n\<close> in a command string of a shell that stands in for \<open>mksh\<close>: it answers 0 and changes nothing,
  not even the option.\<close>

theorem dosetopt_outcome:
  assumes "world_ok w" "0 < \<bar>optno\<bar>" "\<bar>optno\<bar> < OPT_SIZE" "value = 0 \<or> value = 1"
    "dosetopt C optno value force w = (r, w')"
  shows "world_ok w' \<and>
    (if ignored_change C optno value force then r = 0 \<and> (\<forall>i. opt_on w' i = opt_on w i)
     else r = 0 \<and> opt_on w' \<bar>optno\<bar> = ((value = 1) = (0 < optno)) \<and>
      (\<forall>i. opt_on w' i \<noteq> opt_on w i \<longrightarrow> i = \<bar>optno\<bar> \<or>
         {i, \<bar>optno\<bar>} = {EMACSMODE, VIMODE} \<and> opt_on w' \<bar>optno\<bar> \<and> \<not> opt_on w' i) \<or>
     r = - 1 \<and> (\<forall>i. opt_on w' i = opt_on w i))"
proof (cases "ignored_change C optno value force")
  case True
  then show ?thesis using ignored_change_keeps [OF True assms(4), of w] assms(1,5) by simp
next
  case False
  have wants: "wants optno value = ((value = 1) = (0 < optno))" using assms(2,4) by (auto simp: wants_def)
  from assms(1,5,3) show ?thesis
  proof (cases rule: dosetopt_cases)
    case kept
    have "world_ok w'" "opt_on w' i = opt_on w i" for i
      using kept(1) assms(1) same_options_on [OF kept(1), of i] by (simp_all add: same_options_def)
    moreover have "opt_on w \<bar>optno\<bar> = wants optno value" if "r = 0"
      using kept(3) [OF that] assms(4) False wants unfolding ignores_noexec_def ignored_change_def by auto
    ultimately show ?thesis using kept(2) wants False by auto
  next
    case changed
    have partners: "(\<exists>j. partner \<bar>optno\<bar> j \<and> opt_name i = opt_name j) = partner \<bar>optno\<bar> i" for i
      using opt_name_eq_iff by (auto simp: partner_def option_facts)
    have on: "opt_on w' i = (if i = \<bar>optno\<bar> then wants optno value
        else if wants optno value \<and> partner \<bar>optno\<bar> i then False else opt_on w i)" for i
      using changed(6) [of i] opt_name_eq_iff [OF assms(2,3), of i] partners [of i] by simp
    have "i = \<bar>optno\<bar> \<or> {i, \<bar>optno\<bar>} = {EMACSMODE, VIMODE} \<and> opt_on w' \<bar>optno\<bar> \<and> \<not> opt_on w' i"
      if "opt_on w' i \<noteq> opt_on w i" for i
      using that on [of i] on [of "\<bar>optno\<bar>"] by (auto simp: partner_def split: if_splits)
    then show ?thesis using changed(1,2) on wants False by auto
  qed
qed

text \<open>C10. No sequence of \<open>setopt\<close> and \<open>unsetopt\<close> commands changes \<open>interactive\<close>, \<open>shinstdin\<close> or
  \<open>singlecommand\<close>, turns \<open>restricted\<close> off, or brings \<open>emacs\<close> and \<open>vi\<close> on together.\<close>

theorem setopt_keeps_locks:
  assumes "world_ok w"
    "w' = fold (\<lambda>(nam, args, isun) w. snd (bin_setopt C nam args isun w)) commands w"
  shows "opt_on w' INTERACTIVE = opt_on w INTERACTIVE \<and> opt_on w' SHINSTDIN = opt_on w SHINSTDIN \<and>
    opt_on w' SINGLECOMMAND = opt_on w SINGLECOMMAND \<and> (opt_on w RESTRICTED \<longrightarrow> opt_on w' RESTRICTED) \<and>
    (opt_on w' EMACSMODE \<and> opt_on w' VIMODE \<longrightarrow> opt_on w EMACSMODE \<and> opt_on w VIMODE)"
proof -
  have "keeps_locks w (fold (\<lambda>(nam, args, isun) w. snd (bin_setopt C nam args isun w)) commands w)" for w
  proof (induction commands arbitrary: w)
    case (Cons c commands)
    obtain nam args isun where c: "c = (nam, args, isun)" by (cases c)
    from keeps_locks_trans [OF bin_setopt_keeps_locks [of w C nam args isun] Cons] c show ?case by simp
  qed simp
  then have "keeps_locks w w'" unfolding assms(2) .
  then show ?thesis using assms(1) unfolding keeps_locks_def by simp
qed

text \<open>C12. After \<open>emulate\<close> an option that belongs to emulations, or with the full switch every option
  that is not special, has the default of the emulation the name selects; the others keep their
  value, and a function tagged for tracing is traced.\<close>

theorem emulate_sets_defaults:
  assumes "world_ok w" "0 < i" "i < OPT_SIZE"
  shows "opt_on (emulate C mode fully w) i =
    (if traced_function C \<and> i = XTRACE then True
     else if has_bits (optns_flags (opt_name i)) OPT_EMULATE \<or>
       fully \<and> \<not> has_bits (optns_flags (opt_name i)) OPT_SPECIAL
     then defset (opt_name i) (emulation_of mode)
     else opt_on w i)"
  using emulate_works(1) [OF assms] assms(2,3) opt_name_range [of i]
  by (simp add: emulated_def flags_by_no_def defset_def)

section \<open>At concrete states\<close>

definition demo_opt_conf :: opt_conf where
  "demo_opt_conf = \<lparr>in_pdksh_family = False, in_korn_mode = False, in_dash_c_string = False,
     in_posix_faithful = False, shtty = - 1, getpgrp = 7, createparam = (\<lambda>nam f tab. (nam, f) # tab),
     patcompile = (\<lambda>p. Some (\<lambda>s. s = p)), traced_function = False, set_order = OPTNS\<rparr>"

definition demo_opt_world :: opt_world where
  "demo_opt_world = \<lparr>cells = opt_state_set ''restricted'' True fresh_cells, emulation_live = 16, emulation_c = 16,
     fully_emulating = False, dash_strict_flag = False, keyboardhack = 0, origpgrp = 0, param_flags = [],
     effects = []\<rparr>"

lemma demo_opt_world_ok: "world_ok demo_opt_world"
  by (simp add: world_ok_def demo_opt_world_def opt_state_set_ok fresh_cells_ok)

lemma demo_opt_on: "opt_on demo_opt_world i = (i = RESTRICTED)"
  using opt_name_eq_iff [OF option_facts(7,8), of i]
  by (simp add: opt_on_def demo_opt_world_def opt_state_set_live fresh_cells_ok opt_name_values)
    (simp add: fresh_cells_def)

theorem setopt_keeps_locks_witness:
  "opt_on (fold (\<lambda>(nam, args, isun) w. snd (bin_setopt demo_opt_conf nam args isun w))
     [(''unsetopt'', [''restricted''], True), (''setopt'', [''-o'', ''vi'', ''+r''], False)] demo_opt_world) RESTRICTED"
  using setopt_keeps_locks [OF demo_opt_world_ok refl, of demo_opt_conf
      "[(''unsetopt'', [''restricted''], True), (''setopt'', [''-o'', ''vi'', ''+r''], False)]"]
  by (simp only: demo_opt_on)

theorem dosetopt_outcome_witness:
  "opt_on (snd (dosetopt demo_opt_conf VIMODE 1 0 demo_opt_world)) RESTRICTED \<and>
   fst (dosetopt demo_opt_conf (- RESTRICTED) 1 0 demo_opt_world) = - 1"
proof -
  have conf: "\<not> ignored_change demo_opt_conf n v f" for n v f
    by (simp add: ignored_change_def demo_opt_conf_def)
  note law = dosetopt_outcome [OF demo_opt_world_ok _ _ _ prod.collapse [symmetric], of _ _ demo_opt_conf]
  have "\<forall>i. opt_on (snd (dosetopt demo_opt_conf VIMODE 1 0 demo_opt_world)) i \<noteq> opt_on demo_opt_world i \<longrightarrow>
      i = VIMODE \<or> {i, VIMODE} = {EMACSMODE, VIMODE} \<and> \<not> opt_on demo_opt_world EMACSMODE"
    using law [of VIMODE 1 0] by (auto simp: demo_opt_on option_numbers conf)
  from spec [OF this, of RESTRICTED]
  have "opt_on (snd (dosetopt demo_opt_conf VIMODE 1 0 demo_opt_world)) RESTRICTED"
    by (auto simp: demo_opt_on option_numbers doubleton_eq_iff)
  moreover have "fst (dosetopt demo_opt_conf (- RESTRICTED) 1 0 demo_opt_world) = - 1"
    using isset_works(1) [OF demo_opt_world_ok, of RESTRICTED] demo_opt_on [of RESTRICTED]
    by (simp add: dosetopt_def restricted_gate_def case_prod_unfold Let_def RESTRICTED_def)
  ultimately show ?thesis by simp
qed

text \<open>\<open>emulate sh\<close> turns word splitting on, whatever it was.\<close>

theorem emulate_sets_defaults_witness:
  "opt_on (emulate demo_opt_conf ''sh'' False demo_opt_world) 168 \<and>
   \<not> opt_on (emulate demo_opt_conf ''zsh'' True demo_opt_world) 168"
proof -
  have name: "opt_name 168 = ''shwordsplit''" by code_simp
  have flags: "optns_flags ''shwordsplit'' = OPT_EMULATE OR OPT_BOURNE" by code_simp
  have which: "emulation_of ''sh'' = EMULATE_SH" "emulation_of ''zsh'' = EMULATE_ZSH" by code_simp+
  show ?thesis
    using emulate_sets_defaults [OF demo_opt_world_ok, of 168 demo_opt_conf]
    by (simp add: name flags which defset_def has_bits_def flag_values emulation_bits demo_opt_conf_def
        OPT_SIZE_def XTRACE_def)
qed

text \<open>Thread 0 misses \<open>xtrace\<close> and reads it as off, thread 1 turns it on and invalidates the slot, thread 0
  then stores what it read, finds the generation moved and undoes the store.\<close>

lemma race_demo:
  "\<exists>s. race_reaches 9 s \<and> (\<forall>t. threads s t = Idle) \<and> opts_live (shared s) = store_set ''xtrace'' True empty_store"
proof -
  define s0 where "s0 = \<lparr>shared = fresh_cells, threads = (\<lambda>_. Idle)\<rparr>"
  define s9 where "s9 = goes 0 (Looked XTRACE) (shared s0) s0"
  define s1 where "s1 = goes 0 (Missed XTRACE (opt_gen (shared s9))) (shared s9) s9"
  define s2 where "s2 = goes 0 (Fetched XTRACE 0 (authoritative (shared s1) XTRACE)) (shared s1) s1"
  define s3 where "s3 = goes 1 (Pending [optlookup ''xtrace''])
    ((shared s2)\<lparr>opts_live := store_set ''xtrace'' True (opts_live (shared s2))\<rparr>) s2"
  define s4 where "s4 = goes 1 (Bumped XTRACE []) ((shared s3)\<lparr>opt_gen := opt_gen (shared s3) + 1\<rparr>) s3"
  define s5 where "s5 = goes 1 (after [])
    (if nat \<bar>XTRACE\<bar> < nat OPT_SIZE then set_slot \<bar>XTRACE\<bar> (- 1) (shared s4) else shared s4) s4"
  define s6 where "s6 = goes 0 (Stored XTRACE 0) (set_slot XTRACE (of_bool (authoritative (shared s1) XTRACE)) (shared s5)) s5"
  define s7 where "s7 = goes 0 (Undoing XTRACE) (shared s6) s6"
  define s8 where "s8 = goes 0 Idle (set_slot XTRACE (- 1) (shared s7)) s7"
  have x: "optlookup ''xtrace'' = XTRACE"
    using optlookup_opt_name [of XTRACE] by (simp add: opt_name_values)
  note defs = s0_def s9_def s1_def s2_def s3_def s4_def s5_def s6_def s7_def s8_def
  have "race_reaches 0 s0" unfolding s0_def by (rule race_reaches.start)
  moreover have "race_step s0 s9" unfolding s9_def
    by (rule race_step.look) (simp_all add: s0_def fresh_cells_def option_numbers)
  moreover have "race_step s9 s1" unfolding s1_def
    by (rule race_step.miss) (simp add: s9_def)
  moreover have "race_step s1 s2" unfolding s2_def
    by (rule race_step.fetch) (simp add: s0_def s9_def s1_def fresh_cells_def)
  moreover have "race_step s2 s3" unfolding s3_def
    by (rule race_step.write_value) (simp add: s0_def s9_def s1_def s2_def)
  moreover have "race_step s3 s4" unfolding s4_def
    by (rule race_step.bump) (simp add: s3_def x)
  moreover have "race_step s4 s5" unfolding s5_def
    by (rule race_step.reset) (simp add: s4_def)
  moreover have "race_step s5 s6" unfolding s6_def
    by (rule race_step.memoize) (simp add: s2_def s3_def s4_def s5_def)
  moreover have "race_step s6 s7" unfolding s7_def
    by (rule race_step.moved [where g = 0])
      (simp_all add: s0_def s9_def s1_def s2_def s3_def s4_def s5_def s6_def fresh_cells_def)
  moreover have "race_step s7 s8" unfolding s8_def
    by (rule race_step.undo) (simp add: s7_def)
  ultimately have "race_reaches (Suc (Suc (Suc (Suc (Suc (Suc (Suc (Suc (Suc 0))))))))) s8"
    by (meson race_reaches.step)
  moreover have "threads s8 t = Idle" for t
    by (simp add: defs after_def)
  moreover have "opts_live (shared s8) = store_set ''xtrace'' True empty_store"
    by (simp add: defs fresh_cells_def)
  ultimately show ?thesis by (intro exI [of _ s8]) (simp add: eval_nat_numeral)
qed

theorem cache_settles_witness:
  "\<exists>s. race_reaches 9 s \<and> (\<forall>t. threads s t = Idle) \<and> fst (is_set XTRACE (shared s))"
proof -
  obtain s where s: "race_reaches 9 s" "\<And>t. threads s t = Idle"
    "opts_live (shared s) = store_set ''xtrace'' True empty_store" using race_demo by blast
  have small: "(9 :: nat) < 2 ^ 64" by simp
  have "fst (is_set XTRACE (shared s))"
    unfolding cache_settles [OF s(1) small s(2) order_less_imp_le [OF option_facts(13)] option_facts(14)]
    by (simp add: s(3) store_get_set empty_store_ok opt_name_values)
  then show ?thesis using s by blast
qed

end
