(* ===== verification/JobTable.thy ===== *)
theory JobTable
  imports Prelude
begin

text \<open>
  The job table (\<open>src/src/ported/jobs.rs\<close>, \<open>src/src/ported/zsh_h.rs\<close>): wait statuses, the flags of a
  job, the records of jobs, processes and files, and the operations that work on the table alone:
  looking up a process, marking a job running, adding processes, allocating, freeing and deleting
  slots.  What they do to the system (closing a descriptor, removing a file, handing over the
  terminal) is a list of events.  The times of a process (\<open>ti\<close>, \<open>bgtime\<close>, \<open>endtime\<close>) are left out.
\<close>

section \<open>Flags of a job\<close>

definition stat_has :: "i32 \<Rightarrow> i32 \<Rightarrow> bool" where
  "stat_has s f \<longleftrightarrow> semiring_bit_operations_class.and s f \<noteq> 0"

definition set_flag :: "i32 \<Rightarrow> i32 \<Rightarrow> i32" where
  "set_flag s f = semiring_bit_operations_class.or s f"

definition clear_flag :: "i32 \<Rightarrow> i32 \<Rightarrow> i32" where
  "clear_flag s f = semiring_bit_operations_class.and s (ring_bit_operations_class.not f)"

definition ST_CHANGED :: i32 where "ST_CHANGED = 0x0001"
definition ST_STOPPED :: i32 where "ST_STOPPED = 0x0002"
definition ST_DONE :: i32 where "ST_DONE = 0x0008"
definition ST_LOCKED :: i32 where "ST_LOCKED = 0x0010"
definition ST_NOPRINT :: i32 where "ST_NOPRINT = 0x0020"
definition ST_INUSE :: i32 where "ST_INUSE = 0x0040"
definition ST_SUPERJOB :: i32 where "ST_SUPERJOB = 0x0080"
definition ST_SUBJOB :: i32 where "ST_SUBJOB = 0x0100"
definition ST_WASSUPER :: i32 where "ST_WASSUPER = 0x0200"
definition ST_CURSH :: i32 where "ST_CURSH = 0x0400"
definition ST_NOSTTY :: i32 where "ST_NOSTTY = 0x0800"
definition ST_ATTACH :: i32 where "ST_ATTACH = 0x1000"
definition ST_BUILTIN :: i32 where "ST_BUILTIN = 0x4000"
definition ST_SUBJOB_ORPHANED :: i32 where "ST_SUBJOB_ORPHANED = 0x8000"
definition ST_DISOWN :: i32 where "ST_DISOWN = 0x10000"

lemmas stat_flags = ST_CHANGED_def ST_STOPPED_def ST_DONE_def ST_LOCKED_def ST_NOPRINT_def ST_INUSE_def
  ST_SUPERJOB_def ST_SUBJOB_def ST_WASSUPER_def ST_CURSH_def ST_NOSTTY_def ST_ATTACH_def ST_BUILTIN_def
  ST_SUBJOB_ORPHANED_def ST_DISOWN_def

lemma stat_has_0 [simp]: "\<not> stat_has 0 f"
  by (simp add: stat_has_def)

lemma stat_has_set [simp]: "stat_has (set_flag s f) g \<longleftrightarrow> stat_has s g \<or> stat_has f g"
  by (simp add: stat_has_def set_flag_def bit.conj_disj_distrib2 or_eq_0_iff)

lemma stat_has_or [simp]: "stat_has s (set_flag f g) \<longleftrightarrow> stat_has s f \<or> stat_has s g"
  by (simp add: stat_has_def set_flag_def bit.conj_disj_distrib or_eq_0_iff)

text \<open>Clearing \<open>f\<close> leaves the flags outside \<open>f\<close> and removes those inside.\<close>

lemma stat_has_clear_other: "\<not> stat_has f g \<Longrightarrow> stat_has (clear_flag s f) g \<longleftrightarrow> stat_has s g"
proof -
  assume "\<not> stat_has f g"
  then have disjoint: "semiring_bit_operations_class.and f g = 0" by (simp add: stat_has_def)
  have "\<not> (bit f n \<and> bit g n)" for n
    using arg_cong [OF disjoint, of "\<lambda>w. bit w n"] by (simp only: bit_and_iff bit_0_eq bot_apply bot_bool_def simp_thms)
  then have "semiring_bit_operations_class.and (ring_bit_operations_class.not f) g = g"
    by (intro bit_eqI) (auto simp only: bit_and_iff bit_not_iff)
  then have "semiring_bit_operations_class.and (clear_flag s f) g = semiring_bit_operations_class.and s g"
    by (simp only: clear_flag_def and.assoc)
  then show ?thesis by (simp add: stat_has_def)
qed

lemma stat_has_clear_same [simp]: "\<not> stat_has (clear_flag s f) f"
  by (simp add: stat_has_def clear_flag_def and.assoc)

text \<open>Two different flags are different bits.\<close>

definition single_flags :: "i32 list" where
  "single_flags = [ST_CHANGED, ST_STOPPED, ST_DONE, ST_LOCKED, ST_NOPRINT, ST_INUSE, ST_SUPERJOB, ST_SUBJOB,
     ST_WASSUPER, ST_CURSH, ST_NOSTTY, ST_ATTACH, ST_BUILTIN, ST_SUBJOB_ORPHANED, ST_DISOWN]"

lemma stat_has_single:
  "list_all (\<lambda>f. list_all (\<lambda>g. stat_has f g \<longleftrightarrow> f = g) single_flags) single_flags"
  by (simp add: single_flags_def stat_flags stat_has_def)

lemmas flag_eval = stat_has_def stat_flags

section \<open>Wait statuses\<close>

text \<open>\<open>status\<close> is the \<open>i32\<close> that \<open>waitpid\<close> stores; the sentinel \<open>SP_RUNNING\<close> is no status it stores.\<close>

definition SP_RUNNING :: i32 where "SP_RUNNING = - 1"

definition low7 :: "i32 \<Rightarrow> i32" where "low7 s = semiring_bit_operations_class.and s 0x7F"
definition low8 :: "i32 \<Rightarrow> i32" where "low8 s = semiring_bit_operations_class.and s 0xFF"

text \<open>\<open>(status >> 8) & 0xff\<close>, as the number it is.\<close>

definition high8 :: "i32 \<Rightarrow> int" where
  "high8 s = sint (semiring_bit_operations_class.and (signed_drop_bit 8 s) 0xFF)"

definition wifexited :: "i32 \<Rightarrow> bool" where "wifexited s \<longleftrightarrow> low7 s = 0"
definition wifsignaled :: "i32 \<Rightarrow> bool" where "wifsignaled s \<longleftrightarrow> low7 s \<noteq> 0 \<and> low7 s \<noteq> 0x7F"
definition wifstopped :: "i32 \<Rightarrow> bool" where "wifstopped s \<longleftrightarrow> low8 s = 0x7F"
definition wexitstatus :: "i32 \<Rightarrow> int" where "wexitstatus s = high8 s"
definition wstopsig :: "i32 \<Rightarrow> int" where "wstopsig s = high8 s"
definition wtermsig :: "i32 \<Rightarrow> int" where "wtermsig s = sint (low7 s)"

text \<open>The test of \<open>update_job\<close> for a continued process.\<close>

definition wifcontinued :: "i32 \<Rightarrow> bool" where
  "wifcontinued s \<longleftrightarrow> 0 < sint s \<and> \<not> wifexited s \<and> \<not> wifsignaled s \<and> \<not> wifstopped s"

section \<open>Records\<close>

text \<open>Terminal settings are opaque to the shell.\<close>

typedecl termios

record winsize =
  ws_row :: "16 word"
  ws_col :: "16 word"
  ws_xpixel :: "16 word"
  ws_ypixel :: "16 word"

type_synonym ttyinfo = "termios \<times> winsize"

record process =
  pr_pid :: int
  pr_text :: string
  pr_status :: i32

record jobfile =
  jf_name :: "string option"
  jf_fd :: int
  jf_is_fd :: int

record job =
  jb_gleader :: int
  jb_other :: int
  jb_stat :: i32
  jb_pwd :: "string option"
  jb_procs :: "process list"
  jb_auxprocs :: "process list"
  jb_filelist :: "jobfile list"
  jb_stty_in_env :: int
  jb_ty :: "ttyinfo option"
  jb_text :: string

definition new_process :: "int \<Rightarrow> process" where
  "new_process pid = \<lparr>pr_pid = pid, pr_text = [], pr_status = SP_RUNNING\<rparr>"

definition new_job :: job where
  "new_job = \<lparr>jb_gleader = 0, jb_other = 0, jb_stat = 0, jb_pwd = None, jb_procs = [], jb_auxprocs = [],
     jb_filelist = [], jb_stty_in_env = 0, jb_ty = None, jb_text = []\<rparr>"

definition pr_is_running :: "process \<Rightarrow> bool" where "pr_is_running p \<longleftrightarrow> pr_status p = SP_RUNNING"
definition pr_is_stopped :: "process \<Rightarrow> bool" where "pr_is_stopped p \<longleftrightarrow> low8 (pr_status p) = 0x7F"

definition has_procs :: "job \<Rightarrow> bool" where
  "has_procs j \<longleftrightarrow> jb_procs j \<noteq> [] \<or> jb_auxprocs j \<noteq> []"

definition job_is_done :: "job \<Rightarrow> bool" where
  "job_is_done j \<longleftrightarrow> jb_procs j \<noteq> [] \<and> list_all (\<lambda>p. \<not> pr_is_running p \<and> \<not> pr_is_stopped p) (jb_procs j)"

definition job_is_stopped :: "job \<Rightarrow> bool" where
  "job_is_stopped j \<longleftrightarrow> stat_has (jb_stat j) ST_STOPPED \<or> list_ex pr_is_stopped (jb_procs j)"

definition hasprocs :: "job list \<Rightarrow> nat \<Rightarrow> bool" where
  "hasprocs tab jn \<longleftrightarrow> jn < length tab \<and> has_procs (tab ! jn)"

text \<open>\<open>other as usize\<close>: a negative number becomes an index past every table.\<close>

definition as_usize :: "int \<Rightarrow> nat" where
  "as_usize i = nat (i mod 2 ^ 64)"

section \<open>Marking a job running, finding a process\<close>

definition continue_process :: "process \<Rightarrow> process" where
  "continue_process p = (if pr_is_stopped p then p\<lparr>pr_status := SP_RUNNING\<rparr> else p)"

definition mark_running :: "job \<Rightarrow> job" where
  "mark_running j = j\<lparr>jb_stat := clear_flag (jb_stat j) ST_STOPPED, jb_procs := map continue_process (jb_procs j)\<rparr>"

text \<open>\<open>makerunning\<close> follows \<open>other\<close> from a superjob to its subjob, which may be a superjob again; the
  first argument bounds the calls, \<open>None\<close> is a recursion that is still going then.\<close>

fun makerunning_n :: "nat \<Rightarrow> job list \<Rightarrow> nat \<Rightarrow> job list option" where
  "makerunning_n 0 tab idx = None"
| "makerunning_n (Suc n) tab idx =
    (if length tab \<le> idx then Some tab
     else let other = as_usize (jb_other (tab ! idx));
              is_super = stat_has (jb_stat (tab ! idx)) ST_SUPERJOB;
              tab' = tab[idx := mark_running (tab ! idx)] in
       if is_super \<and> other \<noteq> idx \<and> other < length tab' then makerunning_n n tab' other else Some tab')"

definition makerunning :: "job list \<Rightarrow> nat \<Rightarrow> job list option" where
  "makerunning tab idx = makerunning_n (Suc (length tab)) tab idx"

text \<open>The place of a process: the job, the position in its list, and whether that is the auxiliary
  list.  A running match ends the search, otherwise the last match is taken.\<close>

type_synonym place = "nat \<times> nat \<times> bool"

datatype search = Hit place | Seen "place option"

fun find_in_procs :: "process list \<Rightarrow> nat \<Rightarrow> nat \<Rightarrow> int \<Rightarrow> bool \<Rightarrow> place option \<Rightarrow> search" where
  "find_in_procs [] ji pi pid aux seen = Seen seen"
| "find_in_procs (p # ps) ji pi pid aux seen =
    (if pr_pid p = pid then
       if pr_status p = SP_RUNNING then Hit (ji, pi, aux)
       else find_in_procs ps ji (Suc pi) pid aux (Some (ji, pi, aux))
     else find_in_procs ps ji (Suc pi) pid aux seen)"

fun find_in_jobs :: "job list \<Rightarrow> nat \<Rightarrow> int \<Rightarrow> bool \<Rightarrow> place option \<Rightarrow> place option" where
  "find_in_jobs [] ji pid aux seen = seen"
| "find_in_jobs (j # js) ji pid aux seen =
    (if stat_has (jb_stat j) ST_DONE then find_in_jobs js (Suc ji) pid aux seen
     else (case find_in_procs (if aux then jb_auxprocs j else jb_procs j) ji 0 pid aux seen of
         Hit p \<Rightarrow> Some p
       | Seen l \<Rightarrow> find_in_jobs js (Suc ji) pid aux l))"

definition findproc :: "job list \<Rightarrow> int \<Rightarrow> bool \<Rightarrow> place option" where
  "findproc tab pid aux = find_in_jobs (drop 1 tab) 1 pid aux None"

fun super_from :: "job list \<Rightarrow> nat \<Rightarrow> nat \<Rightarrow> nat option" where
  "super_from [] i sub = None"
| "super_from (j # js) i sub =
    (if stat_has (jb_stat j) ST_SUPERJOB \<and> as_usize (jb_other j) = sub \<and> jb_gleader j \<noteq> 0 then Some i
     else super_from js (Suc i) sub)"

definition super_job :: "job list \<Rightarrow> nat \<Rightarrow> nat option" where
  "super_job tab sub = super_from tab 0 sub"

section \<open>Files of a job\<close>

text \<open>What the job table does to the outside, in order.\<close>

datatype job_event =
    CloseFd int | Unlink string
  | AttachTty int | AdjustWinsize
  | Kill int int | Killpg int int
  | ShoutWrite string | ZleTrash | ZleRefresh | InErrFlush

definition file_of :: "string option \<Rightarrow> int \<Rightarrow> jobfile" where
  "file_of name fd = (case name of
     Some n \<Rightarrow> \<lparr>jf_name = Some n, jf_fd = 0, jf_is_fd = 0\<rparr>
   | None \<Rightarrow> \<lparr>jf_name = None, jf_fd = fd, jf_is_fd = 1\<rparr>)"

definition addfilelist :: "job \<Rightarrow> string option \<Rightarrow> int \<Rightarrow> job" where
  "addfilelist j name fd = j\<lparr>jb_filelist := jb_filelist j @ [file_of name fd]\<rparr>"

text \<open>\<open>procsubst fd\<close> is the test \<open>fdtable_get(fd) == FDT_PROC_SUBST\<close>.\<close>

definition closes :: "(int \<Rightarrow> bool) \<Rightarrow> bool \<Rightarrow> jobfile \<Rightarrow> bool" where
  "closes procsubst only jf \<longleftrightarrow> jf_is_fd jf \<noteq> 0 \<and> (\<not> only \<or> procsubst (jf_fd jf))"

definition pipecleanfilelist :: "(int \<Rightarrow> bool) \<Rightarrow> job \<Rightarrow> bool \<Rightarrow> job \<times> job_event list" where
  "pipecleanfilelist procsubst j only =
    (j\<lparr>jb_filelist := filter (\<lambda>jf. \<not> closes procsubst only jf) (jb_filelist j)\<rparr>,
     map (\<lambda>jf. CloseFd (jf_fd jf)) (filter (closes procsubst only) (jb_filelist j)))"

definition drop_file :: "bool \<Rightarrow> jobfile \<Rightarrow> job_event list" where
  "drop_file disowning jf =
    (if disowning then []
     else if jf_is_fd jf \<noteq> 0 then [CloseFd (jf_fd jf)]
     else (case jf_name jf of Some n \<Rightarrow> [Unlink n] | None \<Rightarrow> []))"

definition deletefilelist :: "job \<Rightarrow> bool \<Rightarrow> job \<times> job_event list" where
  "deletefilelist j disowning =
    (j\<lparr>jb_filelist := []\<rparr>, concat (map (drop_file disowning) (jb_filelist j)))"

definition havefiles :: "job list \<Rightarrow> bool" where
  "havefiles tab \<longleftrightarrow> list_ex (\<lambda>j. jb_stat j \<noteq> 0 \<and> jb_filelist j \<noteq> []) tab"

text \<open>The part of \<open>cleanfilelists\<close> that walks the table.\<close>

definition cleanfilelists :: "job list \<Rightarrow> job list \<times> job_event list" where
  "cleanfilelists tab =
    (take 1 tab @ map (\<lambda>j. fst (deletefilelist j False)) (drop 1 tab),
     concat (map (\<lambda>j. snd (deletefilelist j False)) (drop 1 tab)))"

section \<open>Freeing and deleting a slot\<close>

definition empty_procs :: "job \<Rightarrow> job" where
  "empty_procs j = j\<lparr>jb_procs := [], jb_auxprocs := [], jb_ty := None, jb_pwd := None\<rparr>"

definition reset_job :: "job \<Rightarrow> job" where
  "reset_job j = j\<lparr>jb_gleader := 0, jb_other := 0, jb_stat := 0, jb_stty_in_env := 0, jb_filelist := [], jb_text := []\<rparr>"

definition mark_orphan :: "job \<Rightarrow> job" where
  "mark_orphan j = (if stat_has (jb_stat j) ST_SUBJOB then j\<lparr>jb_stat := set_flag (jb_stat j) ST_SUBJOB_ORPHANED\<rparr> else j)"

text \<open>The slot a former superjob takes with it.\<close>

definition job_partner :: "job list \<Rightarrow> nat \<Rightarrow> nat option" where
  "job_partner tab jn = (let other = as_usize (jb_other (tab ! jn)) in
     if stat_has (jb_stat (tab ! jn)) ST_WASSUPER \<and> other < length tab then Some other else None)"

text \<open>\<open>freejob\<close> and \<open>deletejob\<close> call each other along \<open>other\<close>.  \<open>None\<close> is a call that does not
  return: an index outside of the table is a panic, and a recursion that is still going after the
  number of calls in the first argument.  \<open>pg\<close> is the process group of the shell.\<close>

fun freejob_n :: "nat \<Rightarrow> int \<Rightarrow> job list \<Rightarrow> nat \<Rightarrow> bool \<Rightarrow> (job list \<times> job_event list) option"
and deletejob_n :: "nat \<Rightarrow> int \<Rightarrow> job list \<Rightarrow> nat \<Rightarrow> bool \<Rightarrow> (job list \<times> job_event list) option" where
  "freejob_n 0 pg tab jn deleting = None"
| "freejob_n (Suc n) pg tab jn deleting =
    (if length tab \<le> jn then None
     else let tab1 = tab[jn := empty_procs (tab ! jn)] in
       (case (case job_partner tab1 jn of
            Some other \<Rightarrow> if deleting then deletejob_n n pg tab1 other False else freejob_n n pg tab1 other False
          | None \<Rightarrow> Some (tab1, [])) of
          None \<Rightarrow> None
        | Some (tab2, ev) \<Rightarrow> Some (tab2[jn := reset_job (tab2 ! jn)], ev)))"
| "deletejob_n 0 pg tab jn disowning = None"
| "deletejob_n (Suc n) pg tab jn disowning =
    (if length tab \<le> jn then None
     else let (j, files) = deletefilelist (tab ! jn) disowning;
              tab1 = tab[jn := j];
              tty = (if stat_has (jb_stat j) ST_ATTACH then [AttachTty pg, AdjustWinsize] else []);
              other = as_usize (jb_other j);
              tab2 = (if stat_has (jb_stat j) ST_SUPERJOB \<and> other < length tab1
                      then tab1[other := mark_orphan (tab1 ! other)] else tab1) in
       map_option (\<lambda>(tab3, ev). (tab3, files @ tty @ ev)) (freejob_n n pg tab2 jn True))"

definition freejob :: "int \<Rightarrow> job list \<Rightarrow> nat \<Rightarrow> bool \<Rightarrow> (job list \<times> job_event list) option" where
  "freejob pg tab jn deleting = freejob_n (2 * length tab + 2) pg tab jn deleting"

definition deletejob :: "int \<Rightarrow> job list \<Rightarrow> nat \<Rightarrow> bool \<Rightarrow> (job list \<times> job_event list) option" where
  "deletejob pg tab jn disowning = deletejob_n (2 * length tab + 2) pg tab jn disowning"

section \<open>Adding processes and slots\<close>

text \<open>\<open>addproc\<close> once the text of the process is settled.\<close>

definition addproc :: "job \<Rightarrow> int \<Rightarrow> string \<Rightarrow> bool \<Rightarrow> int \<Rightarrow> job" where
  "addproc j pid text' aux gleader =
    (let proc = (new_process pid)\<lparr>pr_text := text'\<rparr>;
         j' = (if aux then j\<lparr>jb_auxprocs := jb_auxprocs j @ [proc]\<rparr>
               else let j1 = (if gleader \<noteq> - 1 then j\<lparr>jb_gleader := gleader\<rparr>
                              else if jb_gleader j = 0 then j\<lparr>jb_gleader := pid\<rparr> else j) in
                 j1\<lparr>jb_procs := jb_procs j1 @ [proc]\<rparr>) in
     j'\<lparr>jb_stat := clear_flag (jb_stat j') ST_DONE\<rparr>)"

text \<open>The answer of \<open>initnewjob\<close> and \<open>initjob\<close> is the slot, the table and the new \<open>MAXJOB\<close>.\<close>

definition initnewjob :: "job list \<Rightarrow> nat \<Rightarrow> nat \<Rightarrow> nat \<times> job list \<times> nat" where
  "initnewjob tab maxjob i =
    (i, tab[i := new_job\<lparr>jb_stat := ST_INUSE, jb_pwd := None, jb_gleader := 0\<rparr>], max maxjob i)"

definition first_free :: "job list \<Rightarrow> nat option" where
  "first_free tab = find (\<lambda>i. \<not> stat_has (jb_stat (tab ! i)) ST_INUSE) [1..<length tab]"

definition initjob :: "job list \<Rightarrow> nat \<Rightarrow> nat \<times> job list \<times> nat" where
  "initjob tab maxjob =
    (let tab1 = (if tab = [] then [new_job] else tab) in
     case first_free tab1 of
       Some i \<Rightarrow> initnewjob tab1 maxjob i
     | None \<Rightarrow> initnewjob (tab1 @ [new_job]) maxjob (length tab1))"

definition MAXJOBS_ALLOC :: nat where "MAXJOBS_ALLOC = 50"
definition MAX_MAXJOBS :: nat where "MAX_MAXJOBS = 1000"

definition expandjobtab :: "job list \<Rightarrow> bool \<times> job list" where
  "expandjobtab tab =
    (let newsize = length tab + MAXJOBS_ALLOC in
     if MAX_MAXJOBS < newsize then (False, tab) else (True, tab @ replicate MAXJOBS_ALLOC new_job))"

definition maybeshrinkjobtab :: "job list \<Rightarrow> job list" where
  "maybeshrinkjobtab tab = rev (dropWhile (\<lambda>j. \<not> stat_has (jb_stat j) ST_INUSE) (rev tab))"

definition setjobpwd :: "string \<Rightarrow> job list \<Rightarrow> job list" where
  "setjobpwd pwd tab = take 1 tab @
     map (\<lambda>j. if jb_stat j \<noteq> 0 \<and> jb_pwd j = None then j\<lparr>jb_pwd := Some pwd\<rparr> else j) (drop 1 tab)"

end
