(* ===== verification/JobCtl.thy ===== *)
theory JobCtl
  imports JobTable OptTable
begin

text \<open>
  The shell state around the job table and the choice of jobs (\<open>src/src/ported/jobs.rs\<close>): the current
  and the previous job, job specifications (\<open>getjob\<close>), the table a subshell starts with
  (\<open>clearjobtab\<close>), the end of the start of a background job (\<open>spawnjob\<close>) and the list of remembered
  exit statuses (\<open>addbgstatus\<close>, \<open>getbgstatus\<close>).
\<close>

section \<open>State\<close>

text \<open>One field per global of \<open>jobs.rs\<close> and the globals of other files that the modelled code writes;
  \<open>js_events\<close> collects what it does to the outside.  \<open>MAXJOB\<close>, the bound of all searches, is never
  negative, the three job numbers are \<open>-1\<close> for none.\<close>

record jshell =
  js_tab :: "job list"
  js_maxjob :: nat
  js_curjob :: int
  js_prevjob :: int
  js_thisjob :: int
  js_oldtab :: "job list"
  js_oldmax :: nat
  js_bgstatus :: "(int \<times> int) list"
  js_bgcount :: int
  js_lastval :: int
  js_lastval2 :: int
  js_pipestats :: "int list"
  js_numpipestats :: nat
  js_noerrexit :: int
  js_breaks :: int
  js_loops :: int
  js_errflag :: i32
  js_errbrk_saved :: int
  js_prev_breaks :: int
  js_prev_errflag :: i32
  js_pseudo_sig :: int
  js_chld_pending :: nat
  js_shttyinfo :: "termios option"
  js_events :: "job_event list"

text \<open>What the code reads and does not write: options, modes, and what the system answers; \<open>je_jobtab\<close> is
  whether \<open>JOBTAB\<close> was allocated, which the first job does once and for all.\<close>

record jenv =
  je_isset :: "int \<Rightarrow> bool"
  je_ksh93 :: bool
  je_bash :: bool
  je_in_subsh :: bool
  je_emulating_592 :: bool
  je_mypgrp :: int
  je_getpgrp :: int
  je_gettygrp :: int
  je_group_gone :: "int \<Rightarrow> bool"
  je_gettyinfo :: "termios option"
  je_winsize :: winsize
  je_list_pipe :: int
  je_zleactive :: int
  je_shout :: nat
  je_ttyfrozen :: int
  je_sigtrapped :: "int \<Rightarrow> int"
  je_columns :: nat
  je_pwd :: string
  je_fprintdir :: "string \<Rightarrow> string"
  je_child_max :: int
  je_rtmin :: int
  je_rtmax :: int
  je_jobtab :: bool

definition LONGLISTJOBS :: int where "LONGLISTJOBS = 115"
definition NOTIFY :: int where "NOTIFY = 125"
definition PIPEFAIL :: int where "PIPEFAIL = 132"
definition POSIXBUILTINS :: int where "POSIXBUILTINS = 135"
definition POSIXJOBS :: int where "POSIXJOBS = 138"
definition PRINTEXITVALUE :: int where "PRINTEXITVALUE = 142"

text \<open>\<open>signaled_status\<close> of \<open>dash_mode.rs\<close>: 256 plus the signal under ksh93, else bit 7 and the signal.\<close>

definition signaled_status :: "jenv \<Rightarrow> int \<Rightarrow> int" where
  "signaled_status E sig = (if je_ksh93 E then 256 + sig else semiring_bit_operations_class.or 128 sig)"

definition emit :: "job_event list \<Rightarrow> jshell \<Rightarrow> jshell" where
  "emit ev st = st\<lparr>js_events := js_events st @ ev\<rparr>"

definition set_stat :: "nat \<Rightarrow> (i32 \<Rightarrow> i32) \<Rightarrow> jshell \<Rightarrow> jshell" where
  "set_stat i f st = st\<lparr>js_tab := (js_tab st)[i := (js_tab st ! i)\<lparr>jb_stat := f (jb_stat (js_tab st ! i))\<rparr>]\<rparr>"

definition delete_slot :: "jenv \<Rightarrow> nat \<Rightarrow> bool \<Rightarrow> jshell \<Rightarrow> jshell option" where
  "delete_slot E jn disowning st = (case deletejob (je_mypgrp E) (js_tab st) jn disowning of
     None \<Rightarrow> None
   | Some (tab, ev) \<Rightarrow> Some (emit ev (st\<lparr>js_tab := tab\<rparr>)))"

section \<open>Current and previous job\<close>

text \<open>A job that may become the previous job; \<open>stopped\<close> asks for a stopped one.\<close>

definition candidate :: "bool \<Rightarrow> jshell \<Rightarrow> nat \<Rightarrow> bool" where
  "candidate stopped st i \<longleftrightarrow> i < length (js_tab st) \<and>
     stat_has (jb_stat (js_tab st ! i)) ST_INUSE \<and>
     (stopped \<longrightarrow> stat_has (jb_stat (js_tab st ! i)) ST_STOPPED) \<and>
     \<not> stat_has (jb_stat (js_tab st ! i)) ST_SUBJOB \<and> int i \<noteq> js_curjob st \<and> int i \<noteq> js_thisjob st"

definition pick :: "bool \<Rightarrow> jshell \<Rightarrow> nat option" where
  "pick stopped st = find (candidate stopped st) (rev [1..<Suc (js_maxjob st)])"

definition setprevjob :: "jshell \<Rightarrow> jshell" where
  "setprevjob st = st\<lparr>js_prevjob :=
     (case pick True st of Some i \<Rightarrow> int i
      | None \<Rightarrow> (case pick False st of Some i \<Rightarrow> int i | None \<Rightarrow> - 1))\<rparr>"

definition slot_has :: "i32 \<Rightarrow> jshell \<Rightarrow> int \<Rightarrow> bool" where
  "slot_has f st i \<longleftrightarrow> as_usize i < length (js_tab st) \<and> stat_has (jb_stat (js_tab st ! as_usize i)) f"

definition promote :: "jshell \<Rightarrow> jshell" where
  "promote st = setprevjob (st\<lparr>js_curjob := js_prevjob st\<rparr>)"

definition setcurjob :: "jshell \<Rightarrow> jshell" where
  "setcurjob st =
    (let this = js_thisjob st; cur = js_curjob st in
     if (cur \<noteq> - 1 \<and> cur = this) \<or> (cur \<noteq> - 1 \<and> \<not> slot_has ST_INUSE st cur) then
       let st1 = promote st; cur1 = js_curjob st1 in
       if (cur1 \<noteq> - 1 \<and> cur1 = this) \<or>
          (cur1 \<noteq> - 1 \<and> \<not> (slot_has ST_INUSE st1 cur1 \<and> cur1 \<noteq> this))
       then promote st1 else st1
     else st)"

section \<open>Job specifications\<close>

definition isanum :: "string \<Rightarrow> bool" where
  "isanum s \<longleftrightarrow> s \<noteq> [] \<and> list_all (\<lambda>b. b = CHR ''-'' \<or> is_digit b) s"

definition selectjobtab :: "jshell \<Rightarrow> job list \<times> nat" where
  "selectjobtab st = (if js_oldtab st \<noteq> [] then (js_oldtab st, js_oldmax st) else (js_tab st, js_maxjob st))"

text \<open>A slot a name or a search may select.\<close>

definition listed :: "job list \<Rightarrow> int \<Rightarrow> nat \<Rightarrow> bool" where
  "listed tab this i \<longleftrightarrow> i < length tab \<and> jb_stat (tab ! i) \<noteq> 0 \<and>
     \<not> stat_has (jb_stat (tab ! i)) ST_SUBJOB \<and> int i \<noteq> this"

definition has_prefix :: "string \<Rightarrow> string \<Rightarrow> bool" where
  "has_prefix s p \<longleftrightarrow> take (length p) s = p"

fun contains_text :: "string \<Rightarrow> string \<Rightarrow> bool" where
  "contains_text [] p \<longleftrightarrow> p = []"
| "contains_text (c # cs) p \<longleftrightarrow> has_prefix (c # cs) p \<or> contains_text cs p"

definition named :: "job list \<Rightarrow> int \<Rightarrow> string \<Rightarrow> nat \<Rightarrow> bool" where
  "named tab this s i \<longleftrightarrow> listed tab this i \<and>
     (case jb_procs (tab ! i) of [] \<Rightarrow> False | p # _ \<Rightarrow> has_prefix (pr_text p) s)"

definition findjobnam :: "string \<Rightarrow> job list \<Rightarrow> nat \<Rightarrow> int \<Rightarrow> nat option" where
  "findjobnam s tab maxjob this = find (named tab this s) (rev [0..<Suc maxjob])"

definition searched :: "job list \<Rightarrow> int \<Rightarrow> string \<Rightarrow> nat \<Rightarrow> bool" where
  "searched tab this s i \<longleftrightarrow> listed tab this i \<and> list_ex (\<lambda>p. contains_text (pr_text p) s) (jb_procs (tab ! i))"

text \<open>Who prints a warning: \<open>zwarnnam\<close> with the program, or \<open>zwarn\<close> when there is none.\<close>

datatype job_warning = NamedWarning string string | BareWarning string

definition warn_if :: "bool \<Rightarrow> job_warning \<Rightarrow> job_warning option" where
  "warn_if b w = (if b then Some w else None)"

definition name_warning :: "string \<Rightarrow> string \<Rightarrow> job_warning" where
  "name_warning prog msg = (if prog = [] then BareWarning msg else NamedWarning prog msg)"

definition by_name :: "jenv \<Rightarrow> string \<Rightarrow> string \<Rightarrow> job list \<Rightarrow> nat \<Rightarrow> int \<Rightarrow> int \<times> job_warning option" where
  "by_name E prog s tab mj this = (case findjobnam s tab mj this of
     Some i \<Rightarrow> (int i, None)
   | None \<Rightarrow> (- 1, warn_if (\<not> je_isset E POSIXBUILTINS) (name_warning prog (''job not found: '' @ s))))"

text \<open>\<open>getjob\<close>: the job number or -1, and the warning it prints.\<close>

definition getjob :: "jenv \<Rightarrow> string \<Rightarrow> string \<Rightarrow> jshell \<Rightarrow> int \<times> job_warning option" where
  "getjob E s prog st =
    (let (tab, mj) = selectjobtab st; this = js_thisjob st;
         quiet = (prog = [] \<or> je_isset E POSIXBUILTINS);
         no_such = (\<lambda>w. (- 1, warn_if (\<not> quiet) (NamedWarning prog (CHR ''%'' # w @ '': no such job'')))) in
     if s = [] \<or> hd s \<noteq> CHR ''%'' then by_name E prog s tab mj this
     else let rest = tl s in
       if rest = [] \<or> hd rest = CHR ''%'' \<or> hd rest = CHR ''+'' then
         (if js_curjob st = - 1 then no_such [if rest = [] then CHR ''%'' else hd rest] else (js_curjob st, None))
       else if hd rest = CHR ''-'' then
         (if js_prevjob st = - 1 then no_such ''-'' else (js_prevjob st, None))
       else if is_digit (hd rest) then
         (let n = (case parse_i32 rest of Some i \<Rightarrow> i | None \<Rightarrow> 0) in
          if 0 < n \<and> n \<le> int mj \<and> nat n < length tab \<and> jb_stat (tab ! nat n) \<noteq> 0 \<and>
             \<not> stat_has (jb_stat (tab ! nat n)) ST_SUBJOB \<and> (js_oldtab st \<noteq> [] \<or> n \<noteq> this)
          then (n, None) else no_such rest)
       else if hd rest = CHR ''?'' then
         (case find (searched tab this (tl rest)) (rev [0..<Suc mj]) of
            Some i \<Rightarrow> (int i, None)
          | None \<Rightarrow> (- 1, warn_if (\<not> quiet) (NamedWarning prog (''job not found: '' @ rest))))
       else by_name E prog rest tab mj this)"

section \<open>Subshells and background jobs\<close>

text \<open>The loop of \<open>clearjobtab\<close> over the slots: the new bound of the saved table, and the jobs freed.\<close>

fun clear_loop :: "jenv \<Rightarrow> bool \<Rightarrow> nat list \<Rightarrow> job list \<Rightarrow> nat \<Rightarrow> (job list \<times> nat) option" where
  "clear_loop E save [] tab oldmax = Some (tab, oldmax)"
| "clear_loop E save (i # is) tab oldmax =
    (if jb_stat (tab ! i) = 0 then clear_loop E save is tab oldmax
     else if save then clear_loop E save is tab (i + 1)
     else if stat_has (jb_stat (tab ! i)) ST_INUSE then
       (case freejob (je_mypgrp E) tab i False of
          None \<Rightarrow> None
        | Some (tab', ev) \<Rightarrow> clear_loop E save is tab' oldmax)
     else clear_loop E save is tab oldmax)"

definition save_oldtab :: "job list \<Rightarrow> nat \<Rightarrow> jshell \<Rightarrow> jshell" where
  "save_oldtab tab oldmax st =
    (let snap = take oldmax tab;
         snap' = (if 0 \<le> js_thisjob st \<and> nat (js_thisjob st) < oldmax
                  then snap[nat (js_thisjob st) := new_job] else snap) in
     st\<lparr>js_oldmax := oldmax - 1, js_oldtab := snap'\<rparr>)"

definition clearjobtab :: "jenv \<Rightarrow> bool \<Rightarrow> jshell \<Rightarrow> jshell option" where
  "clearjobtab E monitor st =
    (let posix = je_isset E POSIXJOBS;
         st1 = (if posix then st\<lparr>js_oldmax := 0\<rparr> else st) in
     if \<not> je_jobtab E then Some st1
     else case clear_loop E (monitor \<and> \<not> posix) [1..<length (js_tab st1)] (js_tab st1) 0 of
       None \<Rightarrow> None
     | Some (tab, oldmax) \<Rightarrow>
         let st2 = (if monitor \<and> 0 < oldmax then save_oldtab tab oldmax st1 else st1);
             (control, tab', maxjob) = initjob [new_job] 0 in
         Some (st2\<lparr>js_tab := tab', js_maxjob := maxjob, js_thisjob := int control\<rparr>))"

definition clearoldjobtab :: "jshell \<Rightarrow> jshell" where
  "clearoldjobtab st = st\<lparr>js_oldtab := [], js_oldmax := 0\<rparr>"

definition spawn_current :: "jshell \<Rightarrow> jshell" where
  "spawn_current st =
    (if js_curjob st < 0 \<or> \<not> (0 \<le> js_curjob st \<and> slot_has ST_STOPPED st (js_curjob st))
     then setprevjob (st\<lparr>js_curjob := js_thisjob st\<rparr>)
     else if js_prevjob st < 0 \<or> \<not> (0 \<le> js_prevjob st \<and> slot_has ST_STOPPED st (js_prevjob st))
     then st\<lparr>js_prevjob := js_thisjob st\<rparr>
     else st)"

definition spawn_line :: "int \<Rightarrow> job \<Rightarrow> string" where
  "spawn_line jn j = ''['' @ show_int jn @ '']'' @ concat (map (\<lambda>p. '' '' @ show_int (pr_pid p)) (jb_procs j)) @ [CHR 0x0A]"

definition spawn_report :: "jenv \<Rightarrow> nat \<Rightarrow> jshell \<Rightarrow> jshell" where
  "spawn_report E this st =
    (if \<not> je_in_subsh E \<and> je_isset E MONITOR \<and> this < length (js_tab st) \<and> jb_procs (js_tab st ! this) \<noteq> []
     then emit [ShoutWrite (spawn_line (js_thisjob st) (js_tab st ! this))] st else st)"

definition spawn_keep :: "nat \<Rightarrow> jshell \<Rightarrow> jshell" where
  "spawn_keep this st =
    (let j = js_tab st ! this;
         (j', ev) = pipecleanfilelist (\<lambda>_. False) (j\<lparr>jb_stat := set_flag (jb_stat j) ST_LOCKED\<rparr>) False in
     emit ev (st\<lparr>js_tab := (js_tab st)[this := j']\<rparr>))"

definition spawnjob :: "jenv \<Rightarrow> jshell \<Rightarrow> jshell option" where
  "spawnjob E st =
    (if js_thisjob st < 0 then Some st
     else let this = nat (js_thisjob st);
              st1 = (if \<not> je_in_subsh E \<or> \<not> je_emulating_592 E then spawn_current st else st);
              st2 = spawn_report E this st1 in
       map_option (\<lambda>st3. st3\<lparr>js_thisjob := - 1\<rparr>)
         (if hasprocs (js_tab st2) this then Some (spawn_keep this st2)
          else if this < length (js_tab st2) then delete_slot E this False st2
          else Some st2))"

section \<open>Remembered exit statuses\<close>

text \<open>\<open>je_child_max\<close> is \<open>sysconf(_SC_CHILD_MAX)\<close>.\<close>

definition bg_cap :: "int \<Rightarrow> int" where
  "bg_cap max_child = (if 0 < max_child then max_child else 1024)"

definition addbgstatus :: "jenv \<Rightarrow> int \<Rightarrow> int \<Rightarrow> jshell \<Rightarrow> jshell" where
  "addbgstatus E pid status st =
    (let st1 = (if bg_cap (je_child_max E) \<le> js_bgcount st \<and> js_bgstatus st \<noteq> []
                then st\<lparr>js_bgstatus := tl (js_bgstatus st), js_bgcount := js_bgcount st - 1\<rparr> else st) in
     st1\<lparr>js_bgstatus := js_bgstatus st1 @ [(pid, status)], js_bgcount := js_bgcount st1 + 1\<rparr>)"

fun take_pid :: "int \<Rightarrow> (int \<times> int) list \<Rightarrow> (int \<times> (int \<times> int) list) option" where
  "take_pid pid [] = None"
| "take_pid pid (b # bs) =
    (if fst b = pid then Some (snd b, bs)
     else (case take_pid pid bs of None \<Rightarrow> None | Some (v, bs') \<Rightarrow> Some (v, b # bs')))"

definition getbgstatus :: "int \<Rightarrow> jshell \<Rightarrow> int option \<times> jshell" where
  "getbgstatus pid st = (case take_pid pid (js_bgstatus st) of
     None \<Rightarrow> (None, st)
   | Some (v, bs) \<Rightarrow> (Some v, st\<lparr>js_bgstatus := bs, js_bgcount := js_bgcount st - 1\<rparr>))"

end
