(* ===== verification/JobPrint.thy ===== *)
theory JobPrint
  imports JobCtl
begin

text \<open>
  The report lines of a job: \<open>sigmsg\<close> and \<open>printjob\<close> of \<open>src/src/ported/jobs.rs\<close>, with the message
  table of \<open>src/src/ported/signals_h.rs\<close> as it is on Linux.
\<close>

section \<open>Signal messages\<close>

definition SIG_MSG :: "(int \<times> string) list" where
  "SIG_MSG = [
    (1, ''hangup''), (2, ''interrupt''), (3, ''quit''), (4, ''illegal hardware instruction''),
    (5, ''trace trap''), (6, ''abort''), (7, ''bus error''), (8, ''floating point exception''),
    (9, ''killed''), (10, ''user-defined signal 1''), (11, ''segmentation fault''),
    (12, ''user-defined signal 2''), (13, ''broken pipe''), (14, ''alarm''), (15, ''terminated''),
    (17, ''death of child''), (18, ''continued''), (19, ''suspended (signal)''), (20, ''suspended''),
    (21, ''suspended (tty input)''), (22, ''suspended (tty output)''), (23, ''urgent condition''),
    (24, ''cpu limit exceeded''), (25, ''file size limit exceeded''), (26, ''virtual time alarm''),
    (27, ''profile signal''), (28, ''window size changed''), (29, ''pollable event occurred''),
    (30, ''power fail''), (16, ''SIGSTKFLT''), (31, ''invalid system call'')]"

definition sigmsg :: "jenv \<Rightarrow> int \<Rightarrow> string" where
  "sigmsg E sig =
    (if je_rtmin E \<le> sig \<and> sig \<le> je_rtmax E then ''real-time event '' @ show_int (sig - je_rtmin E + 1)
     else if sig = 0 then ''done''
     else (case map_of SIG_MSG sig of Some m \<Rightarrow> m | None \<Rightarrow> ''unknown signal''))"

section \<open>The status column\<close>

definition pad_status :: "nat \<Rightarrow> string \<Rightarrow> string" where
  "pad_status w s = s @ replicate (w - length s) CHR '' ''"

definition core_dumped :: "i32 \<Rightarrow> bool" where
  "core_dumped s \<longleftrightarrow> semiring_bit_operations_class.and s 0x80 \<noteq> 0"

definition status_len :: "jenv \<Rightarrow> i32 \<Rightarrow> nat" where
  "status_len E s =
    (if s = SP_RUNNING then 0
     else if wifsignaled s then length (sigmsg E (wtermsig s)) + (if core_dumped s then 14 else 0)
     else if wifstopped s then length (sigmsg E (wstopsig s)) else 0)"

definition column_len :: "jenv \<Rightarrow> job \<Rightarrow> nat" where
  "column_len E j = fold (\<lambda>p. max (status_len E (pr_status p))) (jb_procs j) 9"

definition status_word :: "jenv \<Rightarrow> bool \<Rightarrow> i32 \<Rightarrow> string" where
  "status_word E conted s =
    (if s = SP_RUNNING \<and> conted then ''continued''
     else if s = SP_RUNNING then ''running''
     else if low7 s = 0 then
       (let code = high8 s in if code = 0 then ''done'' else ''exit '' @ pad_status 4 (show_int code))
     else if low8 s = 0x7F then sigmsg E (high8 s)
     else if core_dumped s then sigmsg E (sint (low7 s)) @ '' (core dumped)''
     else sigmsg E (sint (low7 s)))"

definition job_marker :: "nat \<Rightarrow> int \<Rightarrow> int \<Rightarrow> char" where
  "job_marker n cur prev = (if int n = cur then CHR ''+'' else if int n = prev then CHR ''-'' else CHR '' '')"

fun join_with :: "string \<Rightarrow> string list \<Rightarrow> string" where
  "join_with sep [] = []"
| "join_with sep [x] = x"
| "join_with sep (x # xs) = x @ sep @ join_with sep xs"

section \<open>The layout of bash\<close>

definition bash_state :: "job \<Rightarrow> string" where
  "bash_state j =
    (if list_ex (\<lambda>p. pr_status p = SP_RUNNING) (jb_procs j) then ''Running''
     else if list_ex (\<lambda>p. wifstopped (pr_status p)) (jb_procs j) then ''Stopped''
     else let s = (if jb_procs j = [] then 0 else pr_status (last (jb_procs j)));
              code = (if wifexited s then wexitstatus s else 128 + wtermsig s) in
       if code = 0 then ''Done'' else ''Exit '' @ show_int code)"

definition bash_line :: "nat \<Rightarrow> char \<Rightarrow> job \<Rightarrow> string" where
  "bash_line n marker j =
    ''['' @ show_nat n @ '']'' @ [marker] @ ''  '' @ pad_status 27 (bash_state j) @
    join_with '' | '' (map pr_text (jb_procs j)) @ (if bash_state j = ''Running'' then '' &'' else [])"

section \<open>Lines of a job\<close>

text \<open>How many of the following processes join the line: those of the same status whose text still
  fits the terminal.\<close>

fun group_more :: "nat \<Rightarrow> i32 \<Rightarrow> nat \<Rightarrow> process list \<Rightarrow> nat" where
  "group_more columns s len2 [] = 0"
| "group_more columns s len2 (q # qs) =
    (if pr_status q \<noteq> s then 0
     else if columns < length (pr_text q) + len2 + (if qs \<noteq> [] then 3 else 0) then 0
     else Suc (group_more columns s (len2 + length (pr_text q) + 2) qs))"

fun group_text :: "process list \<Rightarrow> process list \<Rightarrow> string" where
  "group_text [] rest = []"
| "group_text (p # ps) rest = pr_text p @ (if ps \<noteq> [] \<or> rest \<noteq> [] then '' | '' else []) @ group_text ps rest"

fun pid_width :: "nat \<Rightarrow> nat" where
  "pid_width d = (if d div 10 = 0 then 1 else Suc (pid_width (d div 10)))"

declare pid_width.simps [simp del]

text \<open>The three flags are \<open>lng & 1\<close>, \<open>lng & 2\<close> (cleared by the first line) and the width the pid
  on the first line took.\<close>

function job_lines :: "jenv \<Rightarrow> job \<Rightarrow> nat \<Rightarrow> bool \<Rightarrow> bool \<Rightarrow> string \<Rightarrow> string \<Rightarrow> bool \<Rightarrow> bool \<Rightarrow> nat \<Rightarrow> process list
    \<Rightarrow> string list" where
  "job_lines E j len thisfmt conted head cont pids leader skip [] = []"
| "job_lines E j len thisfmt conted head cont pids leader skip (p # ps) =
    (let len2 = (if thisfmt then 5 else 10) + len;
         g = (if \<not> pids \<and> \<not> leader then group_more (je_columns E) (pr_status p) len2 ps else 0);
         rest = drop g ps;
         skip' = (if \<not> pids \<and> leader then skip + pid_width (nat \<bar>jb_gleader j\<bar>) + 1 else skip);
         who = (if pids then show_int (pr_pid p) @ '' ''
                else if leader then show_int (jb_gleader j) @ '' ''
                else replicate skip CHR '' '') in
     (head @ who @ pad_status (len + 2) (status_word E conted (pr_status p)) @ group_text (p # take g ps) rest)
       # job_lines E j len thisfmt conted cont cont pids (if pids then leader else False) skip' rest)"
  by pat_completeness auto
termination
  by (relation "measure (\<lambda>(_, _, _, _, _, _, _, _, _, _, ps). length ps)") auto

definition no_proc_word :: "job \<Rightarrow> string" where
  "no_proc_word j = (if job_is_done j then ''done'' else if job_is_stopped j then ''suspended'' else ''running'')"

text \<open>\<open>printjob\<close>: \<open>cur\<close> and \<open>prev\<close> are the two job numbers, -1 for none.\<close>

definition printjob :: "jenv \<Rightarrow> job \<Rightarrow> nat \<Rightarrow> int \<Rightarrow> int \<Rightarrow> int \<Rightarrow> bool \<Rightarrow> string" where
  "printjob E j n lng0 cur prev thisfmt =
    (let conted = lng0 < 0;
         lng = (if conted then (if je_isset E LONGLISTJOBS then 1 else 0) else lng0);
         len = column_len E j;
         marker = job_marker n cur prev in
     if je_bash E \<and> lng = 0 \<and> jb_procs j \<noteq> [] then bash_line n marker j
     else let (head, cont) =
            (if \<not> thisfmt \<or> lng \<noteq> 0
             then (''['' @ show_nat n @ '']  '' @ [marker] @ '' '', if 9 < n then ''        '' else ''       '')
             else (''zsh: '', ''zsh: '')) in
       if jb_procs j = [] \<and> jb_text j = [] then []
       else let header =
              (if jb_procs j = [] then head @ pad_status (len + 2) (no_proc_word j) @ jb_text j
               else join_with [CHR 0x0A] (job_lines E j len thisfmt conted head cont (bit lng 0) (bit lng 1) 0 (jb_procs j))) in
         if bit lng 2
         then header @ [CHR 0x0A] @ ''(pwd : '' @
                je_fprintdir E (case jb_pwd j of Some p \<Rightarrow> p | None \<Rightarrow> je_pwd E) @ '')''
         else header)"

end
