(* ===== verification/JobUpdate.thy ===== *)
theory JobUpdate
  imports JobPrint
begin

text \<open>
  What a wait status does to the job table: the pipe statuses, the report of a job and its removal
  (\<open>printjob_print\<close>, \<open>printjob_delete_tail\<close>, \<open>printjob_synch\<close> of \<open>src/src/exec_jobs.rs\<close>), a superjob
  and its subjob (\<open>handle_sub\<close>), \<open>update_job\<close> and \<open>update_bg_job\<close> of \<open>src/src/ported/jobs.rs\<close>.
  \<open>None\<close> is an operation that does not return (an index outside of the table, an endless \<open>freejob\<close>).
  The times a job took (\<open>should_report_time\<close>, \<open>dumptime\<close>) are only printed and left out.
\<close>

section \<open>Signals\<close>

definition SIGINT :: int where "SIGINT = 2"
definition SIGQUIT :: int where "SIGQUIT = 3"
definition SIGPIPE :: int where "SIGPIPE = 13"
definition SIGCONT :: int where "SIGCONT = 18"
definition SIGTSTP :: int where "SIGTSTP = 20"
definition ERRFLAG_INT :: i32 where "ERRFLAG_INT = 2"

section \<open>Pipe statuses\<close>

definition MAX_PIPESTATS :: nat where "MAX_PIPESTATS = 256"

definition pipe_entry :: "jenv \<Rightarrow> i32 \<Rightarrow> int" where
  "pipe_entry E s =
    (if s = SP_RUNNING then 0
     else if low7 s \<noteq> 0 \<and> low7 s \<noteq> 0x7F then signaled_status E (sint (low7 s))
     else if low8 s = 0x7F then semiring_bit_operations_class.or 128 (high8 s)
     else high8 s)"

definition pipe_stats :: "jenv \<Rightarrow> job \<Rightarrow> int list" where
  "pipe_stats E j = map (\<lambda>p. pipe_entry E (pr_status p)) (take MAX_PIPESTATS (jb_procs j))"

definition pipe_fail :: "int list \<Rightarrow> int" where
  "pipe_fail stats = foldl (\<lambda>f e. if e \<noteq> 0 then e else f) 0 stats"

definition publish_stats :: "job \<Rightarrow> int list \<Rightarrow> jshell \<Rightarrow> jshell" where
  "publish_stats j stats st =
    (let n = length stats; ps = stats @ drop n (js_pipestats st) in
     if stat_has (jb_stat j) ST_CURSH \<and> n < MAX_PIPESTATS
     then st\<lparr>js_pipestats := ps[n := js_lastval st], js_numpipestats := n + 1\<rparr>
     else st\<lparr>js_pipestats := ps, js_numpipestats := n\<rparr>)"

definition pipe_lastval :: "bool \<Rightarrow> int \<Rightarrow> jshell \<Rightarrow> jshell" where
  "pipe_lastval inforeground pipefail st =
    (let st1 = (if inforeground then st\<lparr>js_noerrexit := 0\<rparr> else st) in st1\<lparr>js_lastval := pipefail\<rparr>)"

text \<open>\<open>storepipestats\<close>; its answer, the statuses and the last one that is not 0, is \<open>pipe_stats\<close> and
  \<open>pipe_fail\<close> of the job.\<close>

definition storepipestats :: "jenv \<Rightarrow> job \<Rightarrow> bool \<Rightarrow> bool \<Rightarrow> jshell \<Rightarrow> jshell" where
  "storepipestats E j inforeground fixlastval st =
    (let stats = pipe_stats E j; pipefail = pipe_fail stats;
         st1 = (if inforeground then publish_stats j stats st else st) in
     if fixlastval then
       (if stat_has (jb_stat j) ST_CURSH then
          (if js_lastval st1 = 0 \<and> je_isset E PIPEFAIL then pipe_lastval inforeground pipefail st1 else st1)
        else if je_isset E PIPEFAIL then pipe_lastval inforeground pipefail st1 else st1)
     else st1)"

section \<open>Reporting a job and removing it\<close>

text \<open>A superjob whose subjob still has processes is reported as the subjob.\<close>

definition shown_job :: "job list \<Rightarrow> nat \<Rightarrow> nat" where
  "shown_job tab ji =
    (let sjn = as_usize (jb_other (tab ! ji)) in
     if stat_has (jb_stat (tab ! ji)) ST_SUPERJOB \<and> jb_other (tab ! ji) \<noteq> 0 \<and>
        sjn < length tab \<and> has_procs (tab ! sjn) then sjn else ji)"

text \<open>While the first process of a superjob runs, its last one counts as running.\<close>

definition revive_last :: "job \<Rightarrow> job" where
  "revive_last j =
    (if stat_has (jb_stat j) ST_SUPERJOB \<and> jb_procs j \<noteq> [] \<and> pr_status (hd (jb_procs j)) = SP_RUNNING
     then j\<lparr>jb_procs := butlast (jb_procs j) @ [(last (jb_procs j))\<lparr>pr_status := SP_RUNNING\<rparr>]\<rparr> else j)"

text \<open>\<open>(sflag, doputnl, skip_print)\<close> after one more process.\<close>

definition report_step :: "jenv \<Rightarrow> bool \<Rightarrow> i32 \<Rightarrow> bool \<times> bool \<times> bool \<Rightarrow> bool \<times> bool \<times> bool" where
  "report_step E is_this s = (\<lambda>(sflag, nl, skip).
    let exitvalue = (je_isset E PRINTEXITVALUE \<and> je_isset E SHINSTDIN) in
    if s = SP_RUNNING then (sflag, nl, skip)
    else if wifsignaled s then
      (let sig = wtermsig s in
       (sflag \<or> (sig \<noteq> SIGINT \<and> sig \<noteq> SIGPIPE) \<or> exitvalue, nl \<or> (is_this \<and> sig = SIGINT), skip \<and> \<not> exitvalue))
    else if wifstopped s then (sflag, nl \<or> (is_this \<and> wstopsig s = SIGTSTP), skip)
    else if exitvalue \<and> wexitstatus s \<noteq> 0 then (True, nl, False)
    else (sflag, nl, skip))"

definition report_flags :: "jenv \<Rightarrow> bool \<Rightarrow> bool \<Rightarrow> process list \<Rightarrow> bool \<times> bool \<times> bool" where
  "report_flags E is_this skip ps = fold (\<lambda>p. report_step E is_this (pr_status p)) ps (False, False, skip)"

definition report_text :: "jenv \<Rightarrow> jshell \<Rightarrow> nat \<Rightarrow> nat \<Rightarrow> int \<Rightarrow> int \<Rightarrow> bool \<Rightarrow> string" where
  "report_text E st jn ji lng synch is_this =
    (if synch = 3 \<and> je_isset E POSIXJOBS then join_with '' | '' (map pr_text (jb_procs (js_tab st ! jn)))
     else printjob E (js_tab st ! jn) ji lng (js_curjob st) (js_prevjob st) (is_this \<and> synch \<noteq> 2))"

definition report_lines :: "jenv \<Rightarrow> nat \<Rightarrow> nat \<Rightarrow> int \<Rightarrow> int \<Rightarrow> bool \<Rightarrow> bool \<Rightarrow> jshell \<Rightarrow> bool \<times> jshell" where
  "report_lines E jn ji lng synch is_this nl st =
    (let trash = (if synch = 0 \<and> je_zleactive E \<noteq> 0 then [ZleTrash] else []);
         newline = nl \<and> synch = 0;
         s = report_text E st jn ji lng synch is_this in
     (newline \<or> s \<noteq> [],
      emit (trash @ [ShoutWrite ((if newline then [CHR 0x0A] else []) @ (if s \<noteq> [] then s @ [CHR 0x0A] else []))]) st))"

definition report_pwd :: "jenv \<Rightarrow> nat \<Rightarrow> int \<Rightarrow> bool \<Rightarrow> bool \<times> jshell \<Rightarrow> bool \<times> jshell" where
  "report_pwd E jn lng is_this r =
    (case jb_pwd (js_tab (snd r) ! jn) of
       Some p \<Rightarrow> if \<not> bit lng 2 \<and> je_isset E INTERACTIVE \<and> is_this \<and> p \<noteq> je_pwd E
                 then (True, emit [ShoutWrite (''(pwd now: '' @ je_fprintdir E (je_pwd E) @ '')'' @ [CHR 0x0A])] (snd r))
                 else r
     | None \<Rightarrow> r)"

text \<open>The answer of \<open>printjob_print\<close>: whether something was printed, the job reported, whether the
  report was skipped.\<close>

definition printjob_print :: "jenv \<Rightarrow> nat \<Rightarrow> int \<Rightarrow> int \<Rightarrow> jshell \<Rightarrow> (bool \<times> nat \<times> bool) \<times> jshell" where
  "printjob_print E ji lng synch st =
    (let is_this = (int ji = js_thisjob st);
         skip0 = stat_has (jb_stat (js_tab st ! ji)) ST_NOPRINT;
         jn = shown_job (js_tab st) ji;
         j = revive_last (js_tab st ! jn);
         st1 = st\<lparr>js_tab := (js_tab st)[jn := j]\<rparr>;
         (sflag, nl, skip) = report_flags E is_this skip0 (jb_procs j) in
     if skip then ((False, jn, True), st1)
     else
       let interact = je_isset E INTERACTIVE;
           stopped = stat_has (jb_stat j) ST_STOPPED;
           r = (if synch = 2 \<or> ((interact \<or> synch \<noteq> 0) \<and> je_isset E MONITOR \<and> (stopped \<or> sflag \<or> \<not> is_this))
                then report_lines E jn ji lng synch is_this nl st1
                else if nl \<and> interact \<and> synch = 0 then (True, emit [ShoutWrite [CHR 0x0A]] st1)
                else (False, st1));
           (done, st2) = report_pwd E jn lng is_this r in
       ((done, jn, False), st2))"

definition swap_current :: "nat \<Rightarrow> jshell \<Rightarrow> jshell" where
  "swap_current jn st =
    (let st1 = (if js_curjob st = int jn then st\<lparr>js_curjob := js_prevjob st, js_prevjob := int jn\<rparr> else st) in
     if js_prevjob st1 = int jn then setprevjob st1 else st1)"

definition printjob_delete_tail :: "jenv \<Rightarrow> nat \<Rightarrow> nat \<Rightarrow> int \<Rightarrow> jshell \<Rightarrow> jshell option" where
  "printjob_delete_tail E jn ji synch st =
    (if length (js_tab st) \<le> jn \<or> \<not> stat_has (jb_stat (js_tab st ! jn)) ST_DONE then Some st
     else let is_this = (int ji = js_thisjob st);
              st1 = (if synch \<le> 1 then storepipestats E (js_tab st ! jn) is_this is_this st else st) in
       map_option (swap_current ji) (delete_slot E jn False st1))"

definition printjob_synch :: "jenv \<Rightarrow> nat \<Rightarrow> int \<Rightarrow> int \<Rightarrow> jshell \<Rightarrow> (bool \<times> jshell) option" where
  "printjob_synch E ji lng synch st =
    (if length (js_tab st) \<le> ji then None
     else let ((done, jn, skipped), st1) = printjob_print E ji lng synch st in
       if stat_has (jb_stat (js_tab st1 ! jn)) ST_DONE
       then map_option (Pair done) (printjob_delete_tail E jn ji synch st1)
       else Some (done, if skipped then st1 else set_stat jn (\<lambda>s. clear_flag s ST_CHANGED) st1))"

text \<open>\<open>scanjobs\<close> over the slots from 1.\<close>

definition long_lng :: "jenv \<Rightarrow> int" where
  "long_lng E = (if je_isset E LONGLISTJOBS then 1 else 0)"

fun scan_slots :: "jenv \<Rightarrow> nat list \<Rightarrow> jshell \<Rightarrow> jshell option" where
  "scan_slots E [] st = Some st"
| "scan_slots E (i # is) st =
    (if stat_has (jb_stat (js_tab st ! i)) ST_CHANGED then
       (case printjob_synch E i (long_lng E) 1 st of None \<Rightarrow> None | Some (_, st1) \<Rightarrow> scan_slots E is st1)
     else scan_slots E is st)"

definition scanjobs :: "jenv \<Rightarrow> jshell \<Rightarrow> jshell option" where
  "scanjobs E st = scan_slots E [1..<length (js_tab st)] st"

section \<open>Superjob and subjob\<close>

fun first_signaled :: "process list \<Rightarrow> int option" where
  "first_signaled [] = None"
| "first_signaled (p # ps) = (if wifsignaled (pr_status p) then Some (wtermsig (pr_status p)) else first_signaled ps)"

text \<open>The subjob was killed: so is the superjob.\<close>

definition kill_super :: "jenv \<Rightarrow> nat \<Rightarrow> nat \<Rightarrow> int \<Rightarrow> jshell \<Rightarrow> jshell" where
  "kill_super E su sub sig st =
    (let j = js_tab st ! su; sj = js_tab st ! sub;
         first = (if jb_gleader j \<noteq> je_getpgrp E \<and> 1 < length (jb_procs j) then [Killpg (jb_gleader j) sig]
                  else (case jb_procs j of [] \<Rightarrow> [] | p # _ \<Rightarrow> [Kill (pr_pid p) sig])) in
     emit (first @ [Kill (jb_other sj) SIGCONT, Kill (jb_other sj) sig]) st)"

text \<open>The subjob ended: the superjob is a job of its own, led by its last process when the leader is
  gone.\<close>

definition release_super :: "jenv \<Rightarrow> nat \<Rightarrow> nat \<Rightarrow> bool \<Rightarrow> jshell \<Rightarrow> jshell option" where
  "release_super E su sub fg st =
    (let st1 = set_stat su (\<lambda>s. set_flag (clear_flag s ST_SUPERJOB) ST_WASSUPER) st;
         j = js_tab st1 ! su;
         first_status = (case jb_procs j of [] \<Rightarrow> 0 | p # _ \<Rightarrow> pr_status p);
         cp = ((wifexited first_status \<or> wifsignaled first_status) \<and> je_group_gone E (jb_gleader j));
         j1 = (if cp \<and> jb_procs j \<noteq> [] then j\<lparr>jb_gleader := pr_pid (last (jb_procs j))\<rparr> else j);
         st2 = st1\<lparr>js_tab := (js_tab st1)[su := j1]\<rparr>;
         attach = (fg \<or> as_usize (js_thisjob st2) = su) \<and>
           (length (jb_procs j1) = 1 \<or> cp \<or>
            (case jb_procs j1 of [] \<Rightarrow> False | p # _ \<Rightarrow> pr_pid p \<noteq> jb_gleader j1));
         st3 = emit ((if attach then [AttachTty (jb_gleader j1)] else []) @
                 [Kill (jb_other (js_tab st2 ! sub)) SIGCONT]) st2 in
     if stat_has (jb_stat (js_tab st3 ! su)) ST_DISOWN then delete_slot E su True st3 else Some st3)"

definition stop_proc :: "i32 \<Rightarrow> process \<Rightarrow> process" where
  "stop_proc s p =
    (if pr_status p = SP_RUNNING \<or> (\<not> wifexited (pr_status p) \<and> \<not> wifsignaled (pr_status p))
     then p\<lparr>pr_status := s\<rparr> else p)"

definition stop_super :: "nat \<Rightarrow> nat \<Rightarrow> jshell \<Rightarrow> jshell" where
  "stop_super su sub st =
    (let st1 = set_stat su (\<lambda>s. set_flag s ST_STOPPED) st;
         s = (case jb_procs (js_tab st1 ! sub) of [] \<Rightarrow> 0 | p # _ \<Rightarrow> pr_status p);
         j = js_tab st1 ! su in
     st1\<lparr>js_tab := (js_tab st1)[su := j\<lparr>jb_procs := map (stop_proc s) (jb_procs j)\<rparr>], js_curjob := int su\<rparr>)"

definition handle_sub :: "jenv \<Rightarrow> nat \<Rightarrow> bool \<Rightarrow> jshell \<Rightarrow> (bool \<times> jshell) option" where
  "handle_sub E su fg st =
    (if length (js_tab st) \<le> su then None
     else let sub = as_usize (jb_other (js_tab st ! su)) in
       if length (js_tab st) \<le> sub then Some (False, st)
       else let sj = js_tab st ! sub in
         if stat_has (jb_stat sj) ST_DONE \<or> \<not> has_procs sj then
           map_option (\<lambda>st1. (False, if fg then st1\<lparr>js_curjob := int su\<rparr> else st1))
             (case first_signaled (jb_procs sj) of
                Some sig \<Rightarrow> Some (kill_super E su sub sig st)
              | None \<Rightarrow> release_super E su sub fg st)
         else if stat_has (jb_stat sj) ST_STOPPED then
           map_option (\<lambda>(_, st1). (True, st1)) (printjob_synch E su (long_lng E) 1 (stop_super su sub st))
         else Some (False, st))"

section \<open>The state of a job after a status\<close>

text \<open>A list of processes up to the first that runs, a continued one included: the list, whether one
  was continued, whether one runs.\<close>

fun settle :: "process list \<Rightarrow> process list \<times> bool \<times> bool" where
  "settle [] = ([], False, False)"
| "settle (p # ps) =
    (if wifcontinued (pr_status p) then (p\<lparr>pr_status := SP_RUNNING\<rparr> # ps, True, True)
     else if pr_is_running p then (p # ps, False, True)
     else (let (qs, c, r) = settle ps in (p # qs, c, r)))"

definition last_status :: "process list \<Rightarrow> i32 option" where
  "last_status ps = (if ps = [] then None else Some (pr_status (last ps)))"

definition status_value :: "jenv \<Rightarrow> i32 option \<Rightarrow> int" where
  "status_value E so = (case so of
     None \<Rightarrow> 0
   | Some s \<Rightarrow> if wifsignaled s then signaled_status E (wtermsig s)
               else if wifstopped s then semiring_bit_operations_class.or 128 (wstopsig s)
               else wexitstatus s)"

definition leader_status :: "job \<Rightarrow> i32" where
  "leader_status j = foldl (\<lambda>s p. if pr_pid p = jb_gleader j then pr_status p else s) 0 (jb_procs j)"

definition check_cursh_sig :: "int \<Rightarrow> jshell \<Rightarrow> jshell" where
  "check_cursh_sig sig st = emit
    (concat (map (\<lambda>j. if stat_has (jb_stat j) ST_CURSH \<and> \<not> job_is_done j
                      then map (\<lambda>p. Kill (pr_pid p) sig) (filter pr_is_running (jb_procs j)) else []) (js_tab st))) st"

text \<open>The terminal settings a stopped job leaves behind.\<close>

definition save_tty :: "jenv \<Rightarrow> nat \<Rightarrow> jshell \<Rightarrow> jshell" where
  "save_tty E jn st =
    (let j = js_tab st ! jn in
     if jb_stty_in_env j \<noteq> 0 \<and> jb_ty j = None then
       (case je_gettyinfo E of
          Some tio \<Rightarrow> st\<lparr>js_tab := (js_tab st)[jn := j\<lparr>jb_ty := Some (tio, je_winsize E)\<rparr>]\<rparr>
        | None \<Rightarrow> st)
     else st)"

definition refresh_after :: "jenv \<Rightarrow> (bool \<times> jshell) option \<Rightarrow> jshell option" where
  "refresh_after E r = map_option (\<lambda>(done, st). if done \<and> je_zleactive E \<noteq> 0 then emit [ZleRefresh] st else st) r"

text \<open>A stopped subjob stops its superjob.\<close>

definition stop_subjob :: "jenv \<Rightarrow> nat \<Rightarrow> jshell \<Rightarrow> jshell option" where
  "stop_subjob E jn st =
    (let mark = (\<lambda>s. set_flag s (set_flag ST_CHANGED ST_STOPPED)); st1 = set_stat jn mark st in
     case super_job (js_tab st1) jn of
       None \<Rightarrow> Some st1
     | Some i \<Rightarrow>
         let st2 = set_stat i mark (emit [Killpg (jb_gleader (js_tab st1 ! i)) SIGTSTP] st1);
             st3 = (if stat_has (jb_stat (js_tab st2 ! i)) ST_DONE then st2
                    else st2\<lparr>js_prevjob := js_curjob st2, js_curjob := int i\<rparr>) in
         if je_isset E NOTIFY \<and> stat_has (jb_stat (js_tab st3 ! i)) ST_LOCKED \<and>
            \<not> stat_has (jb_stat (js_tab st3 ! i)) ST_NOPRINT
         then refresh_after E (printjob_synch E i (long_lng E) 0 st3) else Some st3)"

text \<open>\<open>inforeground\<close>: 1 when the last command ran in the shell, 2 for the current job, else 0.\<close>

definition foreground :: "nat \<Rightarrow> jshell \<Rightarrow> int" where
  "foreground jn st =
    (if stat_has (jb_stat (js_tab st ! jn)) ST_CURSH then 1 else if int jn = js_thisjob st then 2 else 0)"

definition remember_value :: "nat \<Rightarrow> int \<Rightarrow> jshell \<Rightarrow> jshell" where
  "remember_value jn val st =
    (let st1 = st\<lparr>js_lastval2 := val\<rparr> in if foreground jn st = 2 then st1\<lparr>js_lastval := val\<rparr> else st1)"

definition remember_tty :: "jenv \<Rightarrow> nat \<Rightarrow> bool \<Rightarrow> jshell \<Rightarrow> jshell" where
  "remember_tty E jn somestopped st =
    (let j = js_tab st ! jn in
     if je_shout E \<noteq> 0 \<and> je_shout E \<noteq> 3 \<and> je_ttyfrozen E = 0 \<and> jb_stty_in_env j = 0 \<and> je_zleactive E = 0 \<and>
        int jn = js_thisjob st \<and> \<not> somestopped \<and> \<not> stat_has (jb_stat j) ST_NOSTTY
     then (case je_gettyinfo E of Some tio \<Rightarrow> st\<lparr>js_shttyinfo := Some tio\<rparr> | None \<Rightarrow> st)
     else st)"

text \<open>A loop whose command was interrupted is left.\<close>

definition break_loops :: "jshell \<Rightarrow> jshell" where
  "break_loops st =
    (let st1 = (if js_errbrk_saved st = 0
                then st\<lparr>js_errbrk_saved := 1, js_prev_breaks := js_breaks st, js_prev_errflag := js_errflag st\<rparr> else st) in
     emit [InErrFlush] (st1\<lparr>js_breaks := js_loops st1, js_errflag := set_flag (js_errflag st1) ERRFLAG_INT\<rparr>))"

definition is_interrupt :: "int \<Rightarrow> bool" where
  "is_interrupt val \<longleftrightarrow>
    (let v = semiring_bit_operations_class.and val (ring_bit_operations_class.not 128) in v = SIGINT \<or> v = SIGQUIT)"

definition take_terminal :: "jenv \<Rightarrow> jshell \<Rightarrow> jshell" where
  "take_terminal E st = emit [AttachTty (je_mypgrp E), AdjustWinsize] st"

definition settle_terminal :: "jenv \<Rightarrow> nat \<Rightarrow> int \<Rightarrow> int \<Rightarrow> bool \<Rightarrow> bool \<Rightarrow> jshell \<Rightarrow> jshell" where
  "settle_terminal E jn fg val signalled somestopped st =
    (let interrupted = (signalled \<and> fg = 1 \<and> is_interrupt val) in
     if je_isset E MONITOR then
       (let pgrp = je_gettygrp E;
            deadpgrp = (je_mypgrp E \<noteq> pgrp \<and> fg \<noteq> 0 \<and> 1 < pgrp \<and> je_group_gone E pgrp) in
        if je_mypgrp E \<noteq> pgrp \<and> fg \<noteq> 0 \<and> ((jb_gleader (js_tab st ! jn) = pgrp \<and> signalled) \<or> deadpgrp) then
          (if je_list_pipe E \<noteq> 0 then
             (let st1 = (if somestopped \<or> deadpgrp then take_terminal E st
                         else set_stat jn (\<lambda>s. set_flag s ST_ATTACH) st) in
              if interrupted then break_loops st1 else st1)
           else take_terminal E st)
        else st)
     else if je_list_pipe E \<noteq> 0 \<and> interrupted then break_loops st
     else st)"

text \<open>The shell acts as if it had got the signal that killed its foreground job.\<close>

definition pseudo_signal :: "jenv \<Rightarrow> int \<Rightarrow> i32 \<Rightarrow> jshell \<Rightarrow> jshell" where
  "pseudo_signal E fg status st =
    (let sig = wtermsig status in
     if fg = 2 \<and> je_isset E MONITOR \<and> wifsignaled status \<and> (sig = SIGINT \<or> sig = SIGQUIT) then
       (if je_sigtrapped E sig \<noteq> 0 then st\<lparr>js_pseudo_sig := sig\<rparr>
        else check_cursh_sig sig
               (st\<lparr>js_breaks := js_loops st, js_errflag := set_flag (js_errflag st) ERRFLAG_INT\<rparr>))
     else st)"

text \<open>The tail of \<open>update_job\<close> once the job is marked: statuses, superjob, current job, report.\<close>

definition mark_changed :: "nat \<Rightarrow> bool \<Rightarrow> jshell \<Rightarrow> jshell" where
  "mark_changed jn somestopped st =
    set_stat jn (\<lambda>s. set_flag s (set_flag ST_CHANGED (if somestopped then ST_STOPPED else ST_DONE))) st"

definition tell_super :: "jenv \<Rightarrow> nat \<Rightarrow> int \<Rightarrow> jshell \<Rightarrow> jshell option" where
  "tell_super E jn fg st =
    (let s = jb_stat (js_tab st ! jn) in
     if fg = 0 \<and> stat_has s ST_SUBJOB \<and> stat_has s ST_DONE then
       (case super_job (js_tab st) jn of
          Some i \<Rightarrow> map_option snd (handle_sub E i False st)
        | None \<Rightarrow> Some st)
     else Some st)"

definition stop_is_current :: "nat \<Rightarrow> jshell \<Rightarrow> jshell" where
  "stop_is_current jn st =
    (let s = jb_stat (js_tab st ! jn) in
     if \<not> stat_has s ST_DONE \<and> stat_has s ST_STOPPED then st\<lparr>js_prevjob := js_curjob st, js_curjob := int jn\<rparr> else st)"

definition report_change :: "jenv \<Rightarrow> nat \<Rightarrow> jshell \<Rightarrow> jshell option" where
  "report_change E jn st =
    (if (je_isset E NOTIFY \<or> int jn = js_thisjob st) \<and> stat_has (jb_stat (js_tab st ! jn)) ST_LOCKED
     then refresh_after E (printjob_synch E jn (long_lng E) 0 st) else Some st)"

definition finish_update :: "jenv \<Rightarrow> nat \<Rightarrow> int \<Rightarrow> i32 \<Rightarrow> bool \<Rightarrow> jshell \<Rightarrow> jshell option" where
  "finish_update E jn fg status somestopped st =
    (let st1 = mark_changed jn somestopped st;
         st2 = storepipestats E (js_tab st1 ! jn) (fg \<noteq> 0) False st1 in
     case tell_super E jn fg st2 of
       None \<Rightarrow> None
     | Some st3 \<Rightarrow> map_option (pseudo_signal E fg status) (report_change E jn (stop_is_current jn st3)))"

text \<open>All processes of the job have a status.\<close>

definition settled :: "jenv \<Rightarrow> nat \<Rightarrow> jshell \<Rightarrow> jshell option" where
  "settled E jn st =
    (let j = js_tab st ! jn; ps = jb_procs j;
         somestopped = list_ex (\<lambda>p. wifstopped (pr_status p)) ps;
         val = status_value E (last_status ps);
         signalled = (case last_status ps of Some s \<Rightarrow> wifsignaled s | None \<Rightarrow> False);
         st1 = (if somestopped then save_tty E jn st else st) in
     if somestopped \<and> stat_has (jb_stat j) ST_SUBJOB then stop_subjob E jn st1
     else if somestopped \<and> stat_has (jb_stat j) ST_STOPPED then Some st1
     else let fg = foreground jn st1;
              st2 = remember_tty E jn somestopped (remember_value jn val st1);
              st3 = settle_terminal E jn fg val signalled somestopped st2 in
       if somestopped \<and> stat_has (jb_stat (js_tab st3 ! jn)) ST_SUPERJOB then Some st3
       else finish_update E jn fg (leader_status j) somestopped st3)"

text \<open>\<open>update_job\<close>: the answer is false while a process runs.\<close>

definition update_job :: "jenv \<Rightarrow> nat \<Rightarrow> jshell \<Rightarrow> (bool \<times> jshell) option" where
  "update_job E jn st =
    (if length (js_tab st) \<le> jn then None
     else let j = js_tab st ! jn; (aux, _, aux_runs) = settle (jb_auxprocs j);
              j1 = j\<lparr>jb_auxprocs := aux\<rparr> in
       if aux_runs then Some (False, st\<lparr>js_tab := (js_tab st)[jn := j1]\<rparr>)
       else let (ps, continued, runs) = settle (jb_procs j1);
                j2 = j1\<lparr>jb_procs := ps, jb_stat := (if continued then clear_flag (jb_stat j1) ST_STOPPED else jb_stat j1)\<rparr>;
                st1 = st\<lparr>js_tab := (js_tab st)[jn := j2]\<rparr> in
         if runs then Some (False, st1) else map_option (Pair True) (settled E jn st1))"

section \<open>A status from the kernel\<close>

definition put_status :: "place \<Rightarrow> i32 \<Rightarrow> job list \<Rightarrow> job list" where
  "put_status at s tab = (case at of (ji, pi, aux) \<Rightarrow>
     let j = tab ! ji in
     tab[ji := (if aux then j\<lparr>jb_auxprocs := (jb_auxprocs j)[pi := (jb_auxprocs j ! pi)\<lparr>pr_status := s\<rparr>]\<rparr>
                else j\<lparr>jb_procs := (jb_procs j)[pi := (jb_procs j ! pi)\<lparr>pr_status := s\<rparr>]\<rparr>)])"

definition remember_bg :: "jenv \<Rightarrow> nat \<Rightarrow> int \<Rightarrow> i32 \<Rightarrow> jshell \<Rightarrow> jshell" where
  "remember_bg E ji pid s st =
    (let flags = jb_stat (js_tab st ! ji) in
     if \<not> stat_has flags ST_CURSH \<and> \<not> stat_has flags ST_BUILTIN \<and> int ji \<noteq> js_thisjob st then
       (if wifexited s then addbgstatus E pid (wexitstatus s) st
        else if wifsignaled s then addbgstatus E pid (signaled_status E (wtermsig s)) st
        else st)
     else st)"

definition find_any :: "job list \<Rightarrow> int \<Rightarrow> place option" where
  "find_any tab pid = (case findproc tab pid False of Some p \<Rightarrow> Some p | None \<Rightarrow> findproc tab pid True)"

definition update_bg_job :: "jenv \<Rightarrow> int \<Rightarrow> i32 \<Rightarrow> jshell \<Rightarrow> (bool \<times> jshell) option" where
  "update_bg_job E pid s st = (case find_any (js_tab st) pid of
     None \<Rightarrow> Some (False, st)
   | Some at \<Rightarrow>
       let ji = fst at;
           this = js_thisjob st;
           st1 = remember_bg E ji pid s (st\<lparr>js_tab := put_status at s (js_tab st)\<rparr>) in
       map_option (\<lambda>(_, st2). (True, if int ji \<noteq> this then st2\<lparr>js_chld_pending := js_chld_pending st2 + 1\<rparr> else st2))
         (update_job E ji st1))"

end
