(* ===== verification/JobChain.thy ===== *)
theory JobChain
  imports JobTable
begin

text \<open>
  Lemmas on \<open>freejob\<close> and \<open>deletejob\<close> (\<open>src/src/ported/jobs.rs\<close>), which call each other along the
  chain of former superjobs: on a chain that ends both return and empty its slots, on a slot that is its
  own former superjob they do not end.
\<close>


section \<open>Deleting along the chain of former superjobs\<close>

fun is_chain :: "job list \<Rightarrow> nat list \<Rightarrow> bool" where
  "is_chain tab [] \<longleftrightarrow> False"
| "is_chain tab [j] \<longleftrightarrow> job_partner tab j = None"
| "is_chain tab (j # k # js) \<longleftrightarrow> job_partner tab j = Some k \<and> is_chain tab (k # js)"

lemma is_chain_Cons:
  "is_chain tab (j # js) \<longleftrightarrow> (js = [] \<and> job_partner tab j = None) \<or>
     (js \<noteq> [] \<and> job_partner tab j = Some (hd js) \<and> is_chain tab js)"
  by (cases js) auto

lemma is_chain_cong: "(\<And>i. job_partner tab i = job_partner tab' i) \<Longrightarrow> is_chain tab js = is_chain tab' js"
  by (induction tab js rule: is_chain.induct) auto

lemma is_chain_unique: "is_chain tab (j # as) \<Longrightarrow> is_chain tab (j # bs) \<Longrightarrow> as = bs"
proof (induction as arbitrary: j bs)
  case Nil
  then show ?case by (auto simp: is_chain_Cons)
next
  case (Cons k as)
  then show ?case by (cases bs) (auto simp: is_chain_Cons [of tab j])
qed

lemma is_chain_suffix: "is_chain tab (js @ k # ks) \<Longrightarrow> is_chain tab (k # ks)"
  by (induction js) (auto simp: is_chain_Cons)

lemma is_chain_distinct: "is_chain tab js \<Longrightarrow> distinct js"
proof (induction js)
  case (Cons j js)
  have "j \<notin> set js"
  proof
    assume "j \<in> set js"
    then obtain as bs where js: "js = as @ j # bs" by (auto simp: in_set_conv_decomp)
    then have "is_chain tab (j # bs)" using Cons.prems is_chain_suffix [of tab "j # as"] by simp
    then have "js = bs" using is_chain_unique Cons.prems by blast
    then show False using js by simp
  qed
  then show ?case using Cons by (auto simp: is_chain_Cons)
qed simp

lemma partner_bound: "job_partner tab j = Some k \<Longrightarrow> k < length tab"
  by (auto simp: job_partner_def Let_def split: if_splits)

lemma is_chain_bound: "is_chain tab js \<Longrightarrow> hd js < length tab \<Longrightarrow> set js \<subseteq> {..<length tab}"
  by (induction js) (auto simp: is_chain_Cons dest: partner_bound)

lemma is_chain_length: "is_chain tab js \<Longrightarrow> hd js < length tab \<Longrightarrow> length js \<le> length tab"
  using is_chain_bound [of tab js] is_chain_distinct [of tab js]
  by (metis card_lessThan card_mono distinct_card finite_lessThan)

lemma mark_orphan_sel [simp]:
  "jb_other (mark_orphan j) = jb_other j" "jb_procs (mark_orphan j) = jb_procs j"
  "jb_auxprocs (mark_orphan j) = jb_auxprocs j" "jb_gleader (mark_orphan j) = jb_gleader j"
  "jb_filelist (mark_orphan j) = jb_filelist j"
  by (simp_all add: mark_orphan_def)

lemma mark_orphan_flags:
  "stat_has (jb_stat (mark_orphan j)) f \<longleftrightarrow> stat_has (jb_stat j) f \<or>
     (stat_has (jb_stat j) ST_SUBJOB \<and> stat_has ST_SUBJOB_ORPHANED f)"
  by (simp add: mark_orphan_def)

lemma mark_orphan_idem [simp]: "mark_orphan (mark_orphan j) = mark_orphan j"
  by (simp add: mark_orphan_def set_flag_def or.assoc)

lemma flags_apart [simp]:
  "\<not> stat_has ST_SUBJOB_ORPHANED ST_WASSUPER" "\<not> stat_has ST_SUBJOB_ORPHANED ST_INUSE"
  "\<not> stat_has ST_SUBJOB_ORPHANED ST_DONE"
  by (simp_all add: stat_has_def stat_flags)

lemma partner_update:
  "i < length tab \<Longrightarrow> jb_other j = jb_other (tab ! i) \<Longrightarrow>
     (stat_has (jb_stat j) ST_WASSUPER = stat_has (jb_stat (tab ! i)) ST_WASSUPER) \<Longrightarrow>
     job_partner (tab[i := j]) k = job_partner tab k"
  by (cases "k = i") (simp_all add: job_partner_def Let_def)

text \<open>The slots of \<open>js\<close> are empty, the others are as they were but for the orphan mark.\<close>

definition freed :: "nat list \<Rightarrow> job list \<Rightarrow> job list \<Rightarrow> bool" where
  "freed js tab tab' \<longleftrightarrow> length tab' = length tab \<and>
     (\<forall>i < length tab. if i \<in> set js then tab' ! i = new_job else tab' ! i \<in> {tab ! i, mark_orphan (tab ! i)})"

lemma reset_empty: "j \<in> {empty_procs x, mark_orphan (empty_procs x)} \<Longrightarrow> reset_job j = new_job"
  by (auto simp: reset_job_def empty_procs_def mark_orphan_def new_job_def)

lemma freed_step:
  assumes inner: "freed js (tab[jn := empty_procs (tab ! jn)]) tab2" and jn: "jn < length tab" "jn \<notin> set js"
  shows "freed (jn # js) tab (tab2[jn := reset_job (tab2 ! jn)])"
proof -
  have "tab2 ! jn \<in> {empty_procs (tab ! jn), mark_orphan (empty_procs (tab ! jn))}"
    using inner jn by (auto simp: freed_def dest!: spec [of _ jn])
  note reset_empty [OF this]
  moreover have "tab2 ! i = new_job" if "i \<in> set js" "i < length tab" for i
    using inner that by (simp add: freed_def)
  moreover have "tab2 ! i \<in> {tab ! i, mark_orphan (tab ! i)}" if "i \<notin> set js" "i < length tab" "i \<noteq> jn" for i
    using inner that unfolding freed_def by (metis length_list_update nth_list_update_neq)
  moreover have "length tab2 = length tab" using inner by (simp add: freed_def)
  ultimately show ?thesis using jn unfolding freed_def by (auto simp: nth_list_update)
qed

lemma freed_after:
  assumes "freed js tab2 tab'" and "length tab2 = length tab"
    and "\<And>i. i < length tab \<Longrightarrow> i \<notin> set js \<Longrightarrow> tab2 ! i \<in> {tab ! i, mark_orphan (tab ! i)}"
  shows "freed js tab tab'"
  using assms unfolding freed_def by (smt (verit) empty_iff insert_iff mark_orphan_idem)

lemma partner_empty: "jn < length tab \<Longrightarrow> job_partner (tab[jn := empty_procs (tab ! jn)]) k = job_partner tab k"
  by (rule partner_update) (simp_all add: empty_procs_def)

lemma delete_prepares:
  assumes jn: "jn < length tab"
    and tab1: "tab1 = tab[jn := fst (deletefilelist (tab ! jn) d)]"
    and tab2: "tab2 = (if c \<and> other < length tab1 then tab1[other := mark_orphan (tab1 ! other)] else tab1)"
  shows "length tab2 = length tab" "job_partner tab2 k = job_partner tab k"
    "i < length tab \<Longrightarrow> i \<noteq> jn \<Longrightarrow> tab2 ! i \<in> {tab ! i, mark_orphan (tab ! i)}"
proof -
  show "length tab2 = length tab" by (simp add: tab1 tab2)
  have "job_partner tab1 k = job_partner tab k" for k
    unfolding tab1 using jn by (intro partner_update) (simp_all add: deletefilelist_def)
  moreover have "job_partner tab2 k = job_partner tab1 k"
    unfolding tab2 by (simp add: partner_update mark_orphan_flags)
  ultimately show "job_partner tab2 k = job_partner tab k" by simp
  show "tab2 ! i \<in> {tab ! i, mark_orphan (tab ! i)}" if "i < length tab" "i \<noteq> jn"
    using that unfolding tab2 tab1 by (cases "i = other") simp_all
qed

lemma free_chain:
  assumes "is_chain tab js" and "hd js < length tab"
  shows "(2 * length js \<le> n \<longrightarrow> (\<exists>tab' ev. freejob_n n pg tab (hd js) d = Some (tab', ev) \<and> freed js tab tab')) \<and>
    (2 * length js + 1 \<le> n \<longrightarrow> (\<exists>tab' ev. deletejob_n n pg tab (hd js) d = Some (tab', ev) \<and> freed js tab tab'))"
  using assms
proof (induction js arbitrary: tab n d)
  case (Cons jn js)
  have jn: "jn < length tab" using Cons.prems by simp
  have free: "\<exists>tab' ev. freejob_n n pg tab jn d = Some (tab', ev) \<and> freed (jn # js) tab tab'"
    if n: "2 * length (jn # js) \<le> n" and chain: "is_chain tab (jn # js)" and jn: "jn < length tab" for n tab d
  proof -
    obtain m where m: "n = Suc m" "2 * length js + 1 \<le> m" using n by (cases n) auto
    let ?tab1 = "tab[jn := empty_procs (tab ! jn)]"
    have notin: "jn \<notin> set js" using is_chain_distinct [OF chain] by simp
    show ?thesis
    proof (cases "js = []")
      case True
      have "freed [] ?tab1 ?tab1" by (simp add: freed_def)
      then have "freed [jn] tab (?tab1[jn := reset_job (?tab1 ! jn)])"
        by (rule freed_step [OF _ jn]) simp
      then show ?thesis using m True chain jn by (simp add: partner_empty)
    next
      case False
      then have links: "job_partner tab jn = Some (hd js)" "is_chain ?tab1 js" "hd js < length ?tab1"
        using chain partner_bound [of tab jn] by (auto simp: is_chain_Cons partner_empty jn cong: is_chain_cong)
      have "\<exists>tab2 ev. (if d then deletejob_n m pg ?tab1 (hd js) False else freejob_n m pg ?tab1 (hd js) False) = Some (tab2, ev)
          \<and> freed js ?tab1 tab2"
        using Cons.IH [OF links(2,3), of m False] m(2) by auto
      then obtain tab2 ev where
        "(if d then deletejob_n m pg ?tab1 (hd js) False else freejob_n m pg ?tab1 (hd js) False) = Some (tab2, ev)"
        "freed js ?tab1 tab2" by blast
      then show ?thesis using m links jn freed_step [OF _ jn notin, of tab2]
        by (simp add: partner_empty Let_def)
    qed
  qed
  moreover have "\<exists>tab' ev. deletejob_n n pg tab jn d = Some (tab', ev) \<and> freed (jn # js) tab tab'"
    if n: "2 * length (jn # js) + 1 \<le> n" for n d
  proof -
    obtain m where m: "n = Suc m" "2 * length (jn # js) \<le> m" using n by (cases n) auto
    define tab1 where "tab1 = tab[jn := fst (deletefilelist (tab ! jn) d)]"
    define j where "j = fst (deletefilelist (tab ! jn) d)"
    define tab2 where "tab2 = (if stat_has (jb_stat j) ST_SUPERJOB \<and> as_usize (jb_other j) < length tab1
      then tab1[as_usize (jb_other j) := mark_orphan (tab1 ! as_usize (jb_other j))] else tab1)"
    note prep = delete_prepares [OF jn tab1_def tab2_def]
    have "is_chain tab2 (jn # js)" using Cons.prems prep(2) by (simp cong: is_chain_cong)
    then obtain tab' ev where f: "freejob_n m pg tab2 jn True = Some (tab', ev)" "freed (jn # js) tab2 tab'"
      using free [OF m(2), of tab2 True] jn prep(1) by auto
    have "freed (jn # js) tab tab'"
      by (rule freed_after [OF f(2) prep(1)]) (use prep(3) in auto)
    then show ?thesis using m f(1) jn
      by (auto simp: Let_def split_beta tab2_def tab1_def j_def)
  qed
  ultimately show ?case using Cons.prems by simp
qed simp

lemma free_loops: "job_partner tab jn = Some jn \<Longrightarrow> freejob_n n pg tab jn False = None"
proof (induction n arbitrary: tab)
  case (Suc n)
  have "jn < length tab \<Longrightarrow> job_partner (tab[jn := empty_procs (tab ! jn)]) jn = Some jn"
    using Suc.prems by (simp add: partner_empty)
  then show ?case using Suc by (simp add: Let_def)
qed simp

lemma deletejob_chain:
  assumes "is_chain tab js" "hd js = jn" "jn < length tab"
  shows "\<exists>tab' ev. deletejob pg tab jn d = Some (tab', ev) \<and> freed js tab tab'"
  using free_chain [OF assms(1), of "2 * length tab + 2" pg d] is_chain_length [OF assms(1)] assms
  by (auto simp: deletejob_def)

lemma free_needs_chain:
  "(freejob_n n pg tab jn d = Some r \<longrightarrow> (\<exists>js. is_chain tab (jn # js))) \<and>
   (deletejob_n n pg tab jn d = Some r \<longrightarrow> (\<exists>js. is_chain tab (jn # js)))"
proof (induction n arbitrary: tab jn d r)
  case (Suc n)
  have "\<exists>js. is_chain tab (jn # js)" if run: "freejob_n (Suc n) pg tab jn d = Some r"
  proof (cases "job_partner tab jn")
    case None
    then have "is_chain tab [jn]" by simp
    then show ?thesis by blast
  next
    case (Some k)
    define tab1 where "tab1 = tab[jn := empty_procs (tab ! jn)]"
    have jn: "jn < length tab" using run by (auto split: if_splits)
    have same: "job_partner tab1 i = job_partner tab i" for i
      unfolding tab1_def using jn by (rule partner_empty)
    obtain r1 where "deletejob_n n pg tab1 k False = Some r1 \<or> freejob_n n pg tab1 k False = Some r1"
      using run jn Some same [of jn] unfolding freejob_n.simps Let_def tab1_def [symmetric]
      by (auto split: if_splits option.splits)
    then obtain js where "is_chain tab1 (k # js)" using Suc.IH by blast
    then have "is_chain tab (jn # k # js)" using Some is_chain_cong [OF same] by simp
    then show ?thesis by blast
  qed
  moreover have "\<exists>js. is_chain tab (jn # js)" if run: "deletejob_n (Suc n) pg tab jn d = Some r"
  proof -
    define tab1 where "tab1 = tab[jn := fst (deletefilelist (tab ! jn) d)]"
    define j where "j = fst (deletefilelist (tab ! jn) d)"
    define tab2 where "tab2 = (if stat_has (jb_stat j) ST_SUPERJOB \<and> as_usize (jb_other j) < length tab1
      then tab1[as_usize (jb_other j) := mark_orphan (tab1 ! as_usize (jb_other j))] else tab1)"
    have jn: "jn < length tab" using run by (auto split: if_splits)
    obtain r' where "freejob_n n pg tab2 jn True = Some r'"
      using run jn unfolding tab2_def tab1_def j_def by (auto simp: Let_def split_beta)
    then obtain js where js: "is_chain tab2 (jn # js)" using Suc.IH by blast
    have "is_chain tab (jn # js)"
      using js is_chain_cong [OF delete_prepares(2) [OF jn tab1_def tab2_def]] by simp
    then show ?thesis by blast
  qed
  ultimately show ?case by blast
qed simp

end
