(* ===== verification/JobChoice.thy ===== *)
theory JobChoice
  imports JobUpdate JobChain
begin

text \<open>
  Lemmas on the choice of jobs (\<open>src/src/ported/jobs.rs\<close>): what \<open>setprevjob\<close> and \<open>setcurjob\<close> choose and
  what a job specification can answer.
\<close>


section \<open>The choice of jobs\<close>

lemma find_rev_upt:
  "find P (rev [a..<Suc b]) = Some i \<longleftrightarrow> a \<le> i \<and> i \<le> b \<and> P i \<and> (\<forall>k. i < k \<longrightarrow> k \<le> b \<longrightarrow> \<not> P k)"
proof (induction b)
  case 0
  then show ?case by auto
next
  case (Suc b)
  show ?case
  proof (cases "a \<le> Suc b")
    case True
    then have "rev [a..<Suc (Suc b)] = Suc b # rev [a..<Suc b]" by simp
    then show ?thesis using Suc.IH True
      by (cases "P (Suc b)") (auto simp del: upt_Suc simp: le_Suc_eq dest: spec [of _ "Suc b"])
  next
    case False
    then show ?thesis by simp
  qed
qed

lemma find_rev_upt_None: "find P (rev [a..<Suc b]) = None \<longleftrightarrow> (\<forall>k. a \<le> k \<longrightarrow> k \<le> b \<longrightarrow> \<not> P k)"
  by (auto simp: find_None_iff simp del: upt_Suc)

lemma pick_Some:
  "pick s st = Some i \<longleftrightarrow> 1 \<le> i \<and> i \<le> js_maxjob st \<and> candidate s st i \<and>
     (\<forall>k. i < k \<longrightarrow> k \<le> js_maxjob st \<longrightarrow> \<not> candidate s st k)"
  unfolding pick_def find_rev_upt ..

lemma pick_None: "pick s st = None \<longleftrightarrow> (\<forall>k. 1 \<le> k \<longrightarrow> k \<le> js_maxjob st \<longrightarrow> \<not> candidate s st k)"
  unfolding pick_def find_rev_upt_None ..

lemma candidate_stopped: "candidate True st i \<Longrightarrow> candidate False st i"
  by (simp add: candidate_def)

lemma candidate_prevjob [simp]: "candidate s (st\<lparr>js_prevjob := p\<rparr>) i = candidate s st i"
  by (simp add: candidate_def)

text \<open>What \<open>setprevjob\<close> answers: the highest stopped candidate, else the highest, else none.\<close>

lemma setprevjob_answer:
  "(js_prevjob (setprevjob st) = - 1 \<and> (\<forall>k. 1 \<le> k \<longrightarrow> k \<le> js_maxjob st \<longrightarrow> \<not> candidate False st k)) \<or>
   (\<exists>i. js_prevjob (setprevjob st) = int i \<and> 1 \<le> i \<and> i \<le> js_maxjob st \<and> candidate False st i \<and>
      (\<forall>k. i < k \<longrightarrow> k \<le> js_maxjob st \<longrightarrow> \<not> candidate True st k) \<and>
      (candidate True st i \<or> (\<forall>k. 1 \<le> k \<longrightarrow> k \<le> js_maxjob st \<longrightarrow> \<not> candidate True st k)))"
proof (cases "pick True st")
  case (Some i)
  then have "js_prevjob (setprevjob st) = int i" by (simp add: setprevjob_def)
  with Some [unfolded pick_Some] show ?thesis using candidate_stopped by blast
next
  case no_stopped: None
  show ?thesis
  proof (cases "pick False st")
    case (Some i)
    then have "js_prevjob (setprevjob st) = int i" using no_stopped by (simp add: setprevjob_def)
    moreover have "\<not> candidate True st k" if "i < k" "k \<le> js_maxjob st" for k
      using no_stopped [unfolded pick_None] that by simp
    ultimately show ?thesis using Some [unfolded pick_Some] no_stopped [unfolded pick_None] by blast
  next
    case None
    then have "js_prevjob (setprevjob st) = - 1" using no_stopped by (simp add: setprevjob_def)
    with None [unfolded pick_None] show ?thesis by blast
  qed
qed

lemma setprevjob_same [simp]:
  "js_tab (setprevjob st) = js_tab st" "js_maxjob (setprevjob st) = js_maxjob st"
  "js_curjob (setprevjob st) = js_curjob st" "js_thisjob (setprevjob st) = js_thisjob st"
  "js_oldtab (setprevjob st) = js_oldtab st" "js_oldmax (setprevjob st) = js_oldmax st"
  "js_events (setprevjob st) = js_events st" "js_pipestats (setprevjob st) = js_pipestats st"
  by (simp_all add: setprevjob_def)

text \<open>A job number that is none, or that of a job in use other than the one being built.\<close>

definition good_choice :: "jshell \<Rightarrow> int \<Rightarrow> bool" where
  "good_choice st c \<longleftrightarrow> c = - 1 \<or> (slot_has ST_INUSE st c \<and> c \<noteq> js_thisjob st)"

lemma as_usize_int [simp]: "i < length (js_tab st) \<Longrightarrow> length (js_tab st) \<le> 2 ^ 64 \<Longrightarrow> as_usize (int i) = i"
  by (simp add: as_usize_def nat_mod_distrib)

lemma as_usize_small: "i < 2 ^ 64 \<Longrightarrow> as_usize (int i) = i"
  by (simp add: as_usize_def nat_mod_distrib nat_power_eq)

lemma setprevjob_good:
  assumes "js_maxjob st < 2 ^ 64"
  shows "good_choice st (js_prevjob (setprevjob st))"
  using setprevjob_answer [of st] assms
  by (auto simp: good_choice_def slot_has_def candidate_def as_usize_small)

lemma good_choice_same [simp]: "good_choice (setprevjob st) c = good_choice st c"
  "good_choice (st\<lparr>js_curjob := d\<rparr>) c = good_choice st c"
  by (simp_all add: good_choice_def slot_has_def)

lemma promote_sel:
  "js_tab (promote st) = js_tab st" "js_curjob (promote st) = js_prevjob st"
  "js_thisjob (promote st) = js_thisjob st" "js_maxjob (promote st) = js_maxjob st"
  by (simp_all add: promote_def)

lemma good_choice_promote [simp]: "good_choice (promote st) c = good_choice st c"
  by (simp add: promote_def)

lemma promote_good: "js_maxjob st < 2 ^ 64 \<Longrightarrow> good_choice st (js_prevjob (promote st))"
  using setprevjob_good [of "st\<lparr>js_curjob := js_prevjob st\<rparr>"] by (simp add: promote_def)

lemma not_good: "\<not> good_choice st c \<longleftrightarrow> (c \<noteq> - 1 \<and> c = js_thisjob st) \<or> (c \<noteq> - 1 \<and> \<not> slot_has ST_INUSE st c)"
  by (auto simp: good_choice_def)

lemma setcurjob_steps:
  "setcurjob st =
    (if good_choice st (js_curjob st) then st
     else if good_choice st (js_prevjob st) then promote st else promote (promote st))"
  unfolding setcurjob_def Let_def
  by (auto simp: good_choice_def promote_sel slot_has_def)

lemma setcurjob_good:
  "js_maxjob st < 2 ^ 64 \<Longrightarrow> good_choice st (js_curjob (setcurjob st))"
  using promote_good [of st] by (simp add: setcurjob_steps promote_sel)

lemma setcurjob_tab [simp]: "js_tab (setcurjob st) = js_tab st" "js_thisjob (setcurjob st) = js_thisjob st"
  by (simp_all add: setcurjob_steps promote_sel)

lemma listed_named: "named tab this s i \<Longrightarrow> listed tab this i"
  "searched tab this s i \<Longrightarrow> listed tab this i"
  by (simp_all add: named_def searched_def)

lemma findjobnam_Some:
  "findjobnam s tab maxjob this = Some i \<longleftrightarrow>
     i \<le> maxjob \<and> named tab this s i \<and> (\<forall>k. i < k \<longrightarrow> k \<le> maxjob \<longrightarrow> \<not> named tab this s k)"
  by (simp add: findjobnam_def find_rev_upt del: upt_Suc)

lemma findjobnam_None: "findjobnam s tab maxjob this = None \<longleftrightarrow> (\<forall>k \<le> maxjob. \<not> named tab this s k)"
  by (simp add: findjobnam_def find_rev_upt_None del: upt_Suc)

text \<open>What a job specification may answer.\<close>

definition visible :: "jshell \<Rightarrow> nat \<Rightarrow> bool" where
  "visible st i \<longleftrightarrow> i < length (fst (selectjobtab st)) \<and> i \<le> snd (selectjobtab st) \<and>
     jb_stat (fst (selectjobtab st) ! i) \<noteq> 0 \<and> \<not> stat_has (jb_stat (fst (selectjobtab st) ! i)) ST_SUBJOB"

lemma by_name_cases:
  "(\<exists>i. by_name E prog s (fst (selectjobtab st)) (snd (selectjobtab st)) this = (int i, None) \<and> visible st i) \<or>
   fst (by_name E prog s (fst (selectjobtab st)) (snd (selectjobtab st)) this) = - 1"
proof (cases "findjobnam s (fst (selectjobtab st)) (snd (selectjobtab st)) this")
  case None
  then show ?thesis by (simp add: by_name_def)
next
  case (Some i)
  then have "visible st i" using Some [unfolded findjobnam_Some] by (simp add: visible_def named_def listed_def)
  then show ?thesis using Some by (simp add: by_name_def)
qed

lemma getjob_cases:
  fixes E prog s st
  defines "r \<equiv> getjob E s prog st"
  shows "fst r = - 1 \<or> (snd r = None \<and> (fst r = js_curjob st \<or> fst r = js_prevjob st \<or> (\<exists>i. fst r = int i \<and> visible st i)))"
proof -
  obtain tab mj where sel: "selectjobtab st = (tab, mj)" by (cases "selectjobtab st")
  have byname: "(\<exists>i. by_name E prog s' tab mj this = (int i, None) \<and> visible st i) \<or> fst (by_name E prog s' tab mj this) = - 1"
    for s' this using by_name_cases [of E prog s' st this] sel by simp
  have search: "visible st i" if "find (searched tab this s') (rev [0..<Suc mj]) = Some i" for this s' i
    using that by (auto simp: find_rev_upt searched_def listed_def visible_def sel simp del: upt_Suc)
  have number: "visible st (nat n)" if "0 < n" "n \<le> int mj" "nat n < length tab" "jb_stat (tab ! nat n) \<noteq> 0"
    "\<not> stat_has (jb_stat (tab ! nat n)) ST_SUBJOB" for n
    using that by (simp add: visible_def sel nat_le_iff)
  consider "s = [] \<or> hd s \<noteq> CHR ''%''"
    | "\<not> (s = [] \<or> hd s \<noteq> CHR ''%'')" "tl s = [] \<or> hd (tl s) = CHR ''%'' \<or> hd (tl s) = CHR ''+''"
    | "\<not> (s = [] \<or> hd s \<noteq> CHR ''%'')" "\<not> (tl s = [] \<or> hd (tl s) = CHR ''%'' \<or> hd (tl s) = CHR ''+'')"
    by blast
  then show ?thesis
  proof cases
    case 1
    then have "r = by_name E prog s tab mj (js_thisjob st)" by (simp add: r_def getjob_def sel)
    then show ?thesis using byname [of s "js_thisjob st"] by auto
  next
    case 2
    then show ?thesis unfolding r_def getjob_def sel Let_def prod.case by (simp only: if_True if_False) simp
  next
    case 3
    consider "hd (tl s) = CHR ''-''" | "hd (tl s) \<noteq> CHR ''-''" "is_digit (hd (tl s))"
      | "hd (tl s) \<noteq> CHR ''-''" "\<not> is_digit (hd (tl s))" "hd (tl s) = CHR ''?''"
      | "hd (tl s) \<noteq> CHR ''-''" "\<not> is_digit (hd (tl s))" "hd (tl s) \<noteq> CHR ''?''"
      by blast
    then show ?thesis
    proof cases
      case 1
      then show ?thesis using 3 unfolding r_def getjob_def sel Let_def prod.case by (simp only: if_True if_False) simp
    next
      case 2
      define n where "n = (case parse_i32 (tl s) of Some i \<Rightarrow> i | None \<Rightarrow> 0)"
      have r: "r = (if 0 < n \<and> n \<le> int mj \<and> nat n < length tab \<and> jb_stat (tab ! nat n) \<noteq> 0 \<and>
             \<not> stat_has (jb_stat (tab ! nat n)) ST_SUBJOB \<and> (js_oldtab st \<noteq> [] \<or> n \<noteq> js_thisjob st)
          then (n, None) else (- 1, warn_if (\<not> (prog = [] \<or> je_isset E POSIXBUILTINS))
             (NamedWarning prog (CHR ''%'' # tl s @ '': no such job''))))"
        using 2 3 unfolding r_def getjob_def sel Let_def prod.case n_def by (simp only: if_True if_False)
      show ?thesis
      proof (cases "fst r = - 1")
        case False
        then have "r = (int (nat n), None) \<and> visible st (nat n)" using number [of n] r by (auto split: if_splits)
        then show ?thesis by auto
      qed simp
    next
      case case_search: 3
      let ?f = "find (searched tab (js_thisjob st) (tl (tl s))) (rev [0..<Suc mj])"
      have "r = (case ?f of Some i \<Rightarrow> (int i, None)
          | None \<Rightarrow> (- 1, warn_if (\<not> (prog = [] \<or> je_isset E POSIXBUILTINS)) (NamedWarning prog (''job not found: '' @ tl s))))"
        using 3 case_search unfolding r_def getjob_def sel Let_def prod.case by (simp only: if_True if_False simp_thms)
      then show ?thesis using search [of "js_thisjob st" "tl (tl s)"] by (cases ?f) auto
    next
      case 4
      then have "r = by_name E prog (tl s) tab mj (js_thisjob st)"
        using 3 unfolding r_def getjob_def sel Let_def prod.case by (simp only: if_True if_False)
      then show ?thesis using byname [of "tl s" "js_thisjob st"] by auto
    qed
  qed
qed

end
