(* ===== verification/JobSlots.thy ===== *)
theory JobSlots
  imports JobChoice
begin

text \<open>
  The invariant of the job table (\<open>src/src/ported/jobs.rs\<close>): a slot that is not in use is empty, a job
  marked done has no process that runs or is stopped; freeing and deleting jobs keeps it.
\<close>


section \<open>Well-formed tables\<close>

definition finished :: "i32 \<Rightarrow> bool" where "finished s \<longleftrightarrow> wifexited s \<or> wifsignaled s"

text \<open>The statuses \<open>waitpid\<close> stores; \<open>0xFFFF\<close> is a continued process.\<close>

definition wait_status :: "i32 \<Rightarrow> bool" where
  "wait_status s \<longleftrightarrow> finished s \<or> wifstopped s \<or> s = 0xFFFF"

definition status_ok :: "i32 \<Rightarrow> bool" where "status_ok s \<longleftrightarrow> s = SP_RUNNING \<or> wait_status s"

definition idle :: "process \<Rightarrow> bool" where
  "idle p \<longleftrightarrow> \<not> pr_is_running p \<and> \<not> wifcontinued (pr_status p)"

text \<open>A slot not in use is empty; a job marked done has no process that runs or is stopped.\<close>

definition slot_ok :: "job \<Rightarrow> bool" where
  "slot_ok j \<longleftrightarrow>
     (if stat_has (jb_stat j) ST_INUSE
      then (\<forall>p \<in> set (jb_procs j) \<union> set (jb_auxprocs j). status_ok (pr_status p)) \<and>
           (stat_has (jb_stat j) ST_DONE \<longrightarrow>
              (\<forall>p \<in> set (jb_procs j). finished (pr_status p)) \<and>
              (\<forall>p \<in> set (jb_auxprocs j). idle p))
      else j = new_job)"

definition place_ok :: "nat \<Rightarrow> nat \<Rightarrow> job \<Rightarrow> bool" where
  "place_ok m i j \<longleftrightarrow> slot_ok j \<and> (stat_has (jb_stat j) ST_INUSE \<longrightarrow> 0 < i \<and> i \<le> m)"

definition tab_ok :: "nat \<Rightarrow> job list \<Rightarrow> bool" where
  "tab_ok m tab \<longleftrightarrow> (\<forall>i < length tab. place_ok m i (tab ! i))"

text \<open>The invariant of the shell state: slot 0 and the slots past \<open>MAXJOB\<close> are never in use, and the
  array of pipe statuses has its fixed size.\<close>

definition jobs_ok :: "jshell \<Rightarrow> bool" where
  "jobs_ok st \<longleftrightarrow> tab_ok (js_maxjob st) (js_tab st) \<and> length (js_pipestats st) = MAX_PIPESTATS"

subsection \<open>Statuses\<close>

lemma low7_low8: "low8 s = 0x7F \<Longrightarrow> low7 s = 0x7F"
proof -
  assume "low8 s = 0x7F"
  have "low7 s = semiring_bit_operations_class.and (low8 s) 0x7F"
    by (simp add: low7_def low8_def and.assoc)
  then show ?thesis using \<open>low8 s = 0x7F\<close> by simp
qed

lemma status_kinds:
  "wifexited s \<Longrightarrow> \<not> wifsignaled s" "wifexited s \<Longrightarrow> \<not> wifstopped s" "wifsignaled s \<Longrightarrow> \<not> wifstopped s"
  by (auto simp: wifexited_def wifsignaled_def wifstopped_def dest: low7_low8)

lemma finished_not_stopped: "finished s \<Longrightarrow> \<not> wifstopped s" "finished s \<Longrightarrow> s \<noteq> SP_RUNNING"
  using status_kinds by (auto simp: finished_def) (simp_all add: wifexited_def wifsignaled_def low7_def SP_RUNNING_def)

lemma finished_low: "finished s \<longleftrightarrow> low7 s \<noteq> 0x7F"
  by (auto simp: finished_def wifexited_def wifsignaled_def)

lemma continued_status: "wifcontinued 0xFFFF"
  by (simp add: wifcontinued_def wifexited_def wifsignaled_def wifstopped_def low7_def low8_def)

lemma settled_status:
  "status_ok s \<Longrightarrow> \<not> wifcontinued s \<Longrightarrow> s \<noteq> SP_RUNNING \<Longrightarrow> \<not> wifstopped s \<Longrightarrow> finished s"
  using continued_status by (auto simp: status_ok_def wait_status_def)

lemma status_ok_running [simp]: "status_ok SP_RUNNING"
  by (simp add: status_ok_def)

lemma status_ok_zero: "status_ok 0"
  by (simp add: status_ok_def wait_status_def finished_def wifexited_def low7_def)

lemma flag_facts [simp]:
  "stat_has ST_INUSE ST_INUSE" "\<not> stat_has ST_INUSE ST_DONE" "\<not> stat_has ST_CHANGED ST_INUSE"
  "\<not> stat_has ST_CHANGED ST_DONE" "\<not> stat_has ST_STOPPED ST_INUSE" "\<not> stat_has ST_STOPPED ST_DONE"
  "\<not> stat_has ST_DONE ST_INUSE" "stat_has ST_DONE ST_DONE" "\<not> stat_has ST_SUPERJOB ST_INUSE"
  "\<not> stat_has ST_SUPERJOB ST_DONE" "\<not> stat_has ST_WASSUPER ST_INUSE" "\<not> stat_has ST_WASSUPER ST_DONE"
  "\<not> stat_has ST_LOCKED ST_INUSE" "\<not> stat_has ST_LOCKED ST_DONE" "\<not> stat_has ST_ATTACH ST_INUSE"
  "\<not> stat_has ST_ATTACH ST_DONE"
  by (simp_all add: stat_has_def stat_flags)

lemmas clear_simps = stat_has_clear_other [OF flag_facts(3)] stat_has_clear_other [OF flag_facts(4)]
  stat_has_clear_other [OF flag_facts(5)] stat_has_clear_other [OF flag_facts(6)]
  stat_has_clear_other [OF flag_facts(7)] stat_has_clear_other [OF flag_facts(9)]
  stat_has_clear_other [OF flag_facts(10)]

lemma new_job_sel [simp]:
  "jb_stat new_job = 0" "jb_procs new_job = []" "jb_auxprocs new_job = []" "jb_other new_job = 0"
  by (simp_all add: new_job_def)

lemma slot_ok_new [simp]: "slot_ok new_job"
  by (simp add: slot_ok_def)

lemma place_ok_new [simp]: "place_ok m i new_job"
  by (simp add: place_ok_def)

lemma clear_zero [simp]: "clear_flag 0 f = 0"
  by (simp add: clear_flag_def)

subsection \<open>Updating one slot\<close>

lemma tab_ok_nth: "tab_ok m tab \<Longrightarrow> i < length tab \<Longrightarrow> place_ok m i (tab ! i)"
  by (simp add: tab_ok_def)

lemma tab_ok_upd: "tab_ok m tab \<Longrightarrow> place_ok m i j \<Longrightarrow> tab_ok m (tab[i := j])"
  by (cases "i < length tab") (auto simp: tab_ok_def nth_list_update)

lemma tab_ok_upd_len: "tab_ok m tab \<Longrightarrow> (i < length tab \<Longrightarrow> place_ok m i j) \<Longrightarrow> tab_ok m (tab[i := j])"
  by (cases "i < length tab") (auto simp: tab_ok_def nth_list_update)

text \<open>Changing a job in use to another that is well formed.\<close>

lemma place_ok_used:
  "place_ok m i j \<Longrightarrow> stat_has (jb_stat j) ST_INUSE \<Longrightarrow> slot_ok j' \<Longrightarrow> stat_has (jb_stat j') ST_INUSE \<Longrightarrow> place_ok m i j'"
  by (simp add: place_ok_def)

lemma place_in_use: "place_ok m i j \<Longrightarrow> j \<noteq> new_job \<Longrightarrow> stat_has (jb_stat j) ST_INUSE"
  by (auto simp: place_ok_def slot_ok_def split: if_splits)

lemma place_flag_in_use: "place_ok m i j \<Longrightarrow> stat_has (jb_stat j) f \<Longrightarrow> stat_has (jb_stat j) ST_INUSE"
  by (rule place_in_use) auto

text \<open>Flags other than \<open>INUSE\<close> and \<open>DONE\<close> do not matter.\<close>

lemma slot_ok_stat:
  "slot_ok j \<Longrightarrow> stat_has (jb_stat j) ST_INUSE \<Longrightarrow> stat_has s ST_INUSE \<Longrightarrow>
     (stat_has s ST_DONE \<Longrightarrow> stat_has (jb_stat j) ST_DONE) \<Longrightarrow> slot_ok (j\<lparr>jb_stat := s\<rparr>)"
  by (auto simp: slot_ok_def)

lemma place_ok_stat:
  "place_ok m i j \<Longrightarrow> stat_has (jb_stat j) ST_INUSE \<Longrightarrow> stat_has s ST_INUSE \<Longrightarrow>
     (stat_has s ST_DONE \<Longrightarrow> stat_has (jb_stat j) ST_DONE) \<Longrightarrow> place_ok m i (j\<lparr>jb_stat := s\<rparr>)"
  by (auto simp: place_ok_def intro: slot_ok_stat)

lemma place_ok_orphan: "place_ok m i j \<Longrightarrow> place_ok m i (mark_orphan j)"
  using place_flag_in_use [of m i j ST_SUBJOB] place_ok_stat [of m i j "set_flag (jb_stat j) ST_SUBJOB_ORPHANED"]
  by (auto simp: mark_orphan_def)

lemma place_ok_clear_changed: "place_ok m i j \<Longrightarrow> place_ok m i (j\<lparr>jb_stat := clear_flag (jb_stat j) ST_CHANGED\<rparr>)"
proof (cases "j = new_job")
  case True
  then have "j\<lparr>jb_stat := clear_flag (jb_stat j) ST_CHANGED\<rparr> = new_job" by (simp add: new_job_def)
  then show ?thesis by simp
next
  case False
  assume "place_ok m i j"
  then show ?thesis using place_in_use [OF _ False] by (intro place_ok_stat) (auto simp: clear_simps)
qed

lemma tab_ok_freed: "tab_ok m tab \<Longrightarrow> freed js tab tab' \<Longrightarrow> tab_ok m tab'"
  unfolding tab_ok_def freed_def using place_ok_orphan
  by (metis insertE length_greater_0_conv place_ok_new singletonD)

subsection \<open>Freeing keeps the table well formed\<close>

lemma place_ok_fields:
  "place_ok m i j \<Longrightarrow> stat_has (jb_stat j) ST_INUSE \<Longrightarrow> jb_stat j' = jb_stat j \<Longrightarrow>
     set (jb_procs j') \<subseteq> set (jb_procs j) \<Longrightarrow> set (jb_auxprocs j') \<subseteq> set (jb_auxprocs j) \<Longrightarrow> place_ok m i j'"
  by (auto simp: place_ok_def slot_ok_def)

lemma place_ok_files: "place_ok m i j \<Longrightarrow> place_ok m i (fst (deletefilelist j d))"
proof (cases "stat_has (jb_stat j) ST_INUSE")
  case True
  then show "place_ok m i j \<Longrightarrow> ?thesis" by (rule place_ok_fields [rotated]) (simp_all add: deletefilelist_def)
next
  case False
  assume "place_ok m i j"
  then have "j = new_job" using False place_in_use by blast
  then have "fst (deletefilelist j d) = new_job" by (simp add: deletefilelist_def new_job_def)
  then show ?thesis by simp
qed

lemma place_ok_empty: "place_ok m i j \<Longrightarrow> place_ok m i (empty_procs j)"
proof (cases "stat_has (jb_stat j) ST_INUSE")
  case True
  then show "place_ok m i j \<Longrightarrow> ?thesis" by (rule place_ok_fields [rotated]) (simp_all add: empty_procs_def)
next
  case False
  assume "place_ok m i j"
  then have "j = new_job" using False place_in_use by blast
  then have "empty_procs j = new_job" by (simp add: empty_procs_def new_job_def)
  then show ?thesis by simp
qed

lemma clean_procs: "jb_procs j = [] \<Longrightarrow> jb_auxprocs j = [] \<Longrightarrow> jb_pwd j = None \<Longrightarrow> jb_ty j = None \<Longrightarrow> reset_job j = new_job"
  by (simp add: reset_job_def new_job_def)

text \<open>Emptied slots stay empty while their partners are freed.\<close>

definition emptied :: "job \<Rightarrow> bool" where
  "emptied j \<longleftrightarrow> jb_procs j = [] \<and> jb_auxprocs j = [] \<and> jb_pwd j = None \<and> jb_ty j = None"

lemma emptied_simps [simp]: "emptied new_job" "emptied (empty_procs j)" "emptied (mark_orphan j) = emptied j"
  "emptied (reset_job j) = emptied j" "emptied (fst (deletefilelist j d)) = emptied j"
  by (simp_all add: emptied_def new_job_def empty_procs_def mark_orphan_def reset_job_def deletefilelist_def)

lemma free_n_ok:
  "(freejob_n n pg tab jn d = Some (tab', ev) \<longrightarrow> length tab' = length tab \<and>
      (\<forall>i < length tab. emptied (tab ! i) \<longrightarrow> emptied (tab' ! i)) \<and> (tab_ok m tab \<longrightarrow> tab_ok m tab')) \<and>
   (deletejob_n n pg tab jn d = Some (tab', ev) \<longrightarrow> length tab' = length tab \<and>
      (\<forall>i < length tab. emptied (tab ! i) \<longrightarrow> emptied (tab' ! i)) \<and> (tab_ok m tab \<longrightarrow> tab_ok m tab'))"
proof (induction n arbitrary: tab jn d tab' ev)
  case (Suc n)
  have free: "length tab' = length tab \<and> (\<forall>i < length tab. emptied (tab ! i) \<longrightarrow> emptied (tab' ! i)) \<and>
      (tab_ok m tab \<longrightarrow> tab_ok m tab')"
    if run: "freejob_n (Suc n) pg tab jn d = Some (tab', ev)" for tab jn d tab' ev
  proof -
    have jn: "jn < length tab" using run by (auto split: if_splits)
    define tab1 where "tab1 = tab[jn := empty_procs (tab ! jn)]"
    obtain tab2 where tab2: "tab' = tab2[jn := reset_job (tab2 ! jn)]"
      "tab2 = tab1 \<or> (\<exists>k. freejob_n n pg tab1 k False = Some (tab2, ev) \<or> deletejob_n n pg tab1 k False = Some (tab2, ev))"
      using run jn unfolding tab1_def
      by (auto simp: Let_def split: option.splits if_splits)
    have inner: "length tab2 = length tab1 \<and> (\<forall>i < length tab1. emptied (tab1 ! i) \<longrightarrow> emptied (tab2 ! i)) \<and>
        (tab_ok m tab1 \<longrightarrow> tab_ok m tab2)"
      using tab2(2) Suc.IH by blast
    have ok1: "tab_ok m tab1" if "tab_ok m tab"
      unfolding tab1_def using that jn by (intro tab_ok_upd place_ok_empty tab_ok_nth)
    have empty: "emptied (tab2 ! jn)" using inner jn by (simp add: tab1_def)
    then have "reset_job (tab2 ! jn) = new_job" by (simp add: clean_procs emptied_def)
    moreover have "emptied (tab2[jn := new_job] ! i)" if "i < length tab" "emptied (tab ! i)" for i
      using that inner jn by (cases "i = jn") (auto simp: tab1_def)
    moreover have "tab_ok m (tab2[jn := new_job])" if "tab_ok m tab"
      using inner ok1 that by (auto intro: tab_ok_upd)
    ultimately show ?thesis using inner by (auto simp: tab2(1) tab1_def)
  qed
  moreover have "length tab' = length tab \<and> (\<forall>i < length tab. emptied (tab ! i) \<longrightarrow> emptied (tab' ! i)) \<and>
      (tab_ok m tab \<longrightarrow> tab_ok m tab')"
    if run: "deletejob_n (Suc n) pg tab jn d = Some (tab', ev)" for tab' ev
  proof -
    have jn: "jn < length tab" using run by (auto split: if_splits)
    define tab1 where "tab1 = tab[jn := fst (deletefilelist (tab ! jn) d)]"
    define j where "j = fst (deletefilelist (tab ! jn) d)"
    define tab2 where "tab2 = (if stat_has (jb_stat j) ST_SUPERJOB \<and> as_usize (jb_other j) < length tab1
      then tab1[as_usize (jb_other j) := mark_orphan (tab1 ! as_usize (jb_other j))] else tab1)"
    obtain ev' where "freejob_n n pg tab2 jn True = Some (tab', ev')"
      using run jn unfolding tab2_def tab1_def j_def by (auto simp: Let_def split_beta)
    then have inner: "length tab' = length tab2 \<and> (\<forall>i < length tab2. emptied (tab2 ! i) \<longrightarrow> emptied (tab' ! i)) \<and>
        (tab_ok m tab2 \<longrightarrow> tab_ok m tab')"
      using Suc.IH by blast
    have "tab_ok m tab1" if "tab_ok m tab"
      unfolding tab1_def using that jn by (intro tab_ok_upd place_ok_files tab_ok_nth)
    then have ok2: "tab_ok m tab2" if "tab_ok m tab"
      unfolding tab2_def using that by (auto intro!: tab_ok_upd place_ok_orphan tab_ok_nth)
    have "emptied (tab1 ! i)" if "i < length tab" "emptied (tab ! i)" for i
      using that unfolding tab1_def by (cases "i = jn") auto
    then have "emptied (tab2 ! i)" if "i < length tab" "emptied (tab ! i)" for i
      using that unfolding tab2_def by (cases "i = as_usize (jb_other j)") (auto simp: tab1_def)
    then show ?thesis using inner ok2 by (simp add: tab2_def tab1_def)
  qed
  ultimately show ?case by blast
qed simp

lemma freejob_ok: "freejob pg tab jn d = Some (tab', ev) \<Longrightarrow> tab_ok m tab \<Longrightarrow> tab_ok m tab' \<and> length tab' = length tab"
  using free_n_ok [of "2 * length tab + 2" pg tab jn d tab' ev m] by (simp add: freejob_def)

lemma deletejob_ok: "deletejob pg tab jn d = Some (tab', ev) \<Longrightarrow> tab_ok m tab \<Longrightarrow> tab_ok m tab' \<and> length tab' = length tab"
  using free_n_ok [of "2 * length tab + 2" pg tab jn d tab' ev m] by (simp add: deletejob_def)

end
