(* ===== verification/JobKeeps.thy ===== *)
theory JobKeeps
  imports JobSlots
begin

text \<open>
  Reports and status updates (\<open>update_job\<close> of \<open>src/src/ported/jobs.rs\<close>, \<open>printjob\<close> of
  \<open>src/src/exec_jobs.rs\<close>) keep the invariant of the job table.
\<close>


section \<open>Every operation keeps the table well formed\<close>

subsection \<open>Operations that leave the table alone\<close>

definition same_table :: "jshell \<Rightarrow> jshell \<Rightarrow> bool" where
  "same_table st st' \<longleftrightarrow> js_tab st' = js_tab st \<and> js_maxjob st' = js_maxjob st \<and>
     (length (js_pipestats st) = MAX_PIPESTATS \<longrightarrow> length (js_pipestats st') = MAX_PIPESTATS)"

lemma same_table_ok: "same_table st st' \<Longrightarrow> jobs_ok st \<Longrightarrow> jobs_ok st'"
  by (simp add: same_table_def jobs_ok_def)

lemma same_table_refl [simp]: "same_table st st"
  by (simp add: same_table_def)

lemma same_table_trans: "same_table st st1 \<Longrightarrow> same_table st1 st2 \<Longrightarrow> same_table st st2"
  by (simp add: same_table_def)

lemma same_table_simps [simp]:
  "same_table st (emit ev st)" "same_table st (setprevjob st)" "same_table st (promote st)"
  "same_table st (setcurjob st)" "same_table st (swap_current jn st)" "same_table st (addbgstatus E pid v st)"
  "same_table st (remember_bg E ji pid s st)" "same_table st (remember_value jn v st)"
  "same_table st (remember_tty E jn b st)" "same_table st (stop_is_current jn st)" "same_table st (break_loops st)"
  "same_table st (take_terminal E st)" "same_table st (check_cursh_sig sig st)"
  "same_table st (pseudo_signal E fg s st)" "same_table st (spawn_current st)" "same_table st (spawn_report E n st)"
  by (auto simp: same_table_def emit_def setprevjob_def promote_def setcurjob_def swap_current_def addbgstatus_def
      remember_bg_def remember_value_def remember_tty_def stop_is_current_def break_loops_def take_terminal_def
      check_cursh_sig_def pseudo_signal_def spawn_current_def spawn_report_def Let_def split: option.split)

lemma same_table_pipes [simp]: "same_table st (storepipestats E j b c st)"
  by (auto simp: same_table_def storepipestats_def publish_stats_def pipe_lastval_def pipe_stats_def Let_def MAX_PIPESTATS_def)

lemma same_table_tab: "same_table st st' \<Longrightarrow> js_tab st' = js_tab st"
  by (simp add: same_table_def)

lemmas same_tab_simps [simp] = same_table_simps [THEN same_table_tab] same_table_pipes [THEN same_table_tab]

lemma same_report_lines: "same_table st (snd (report_lines E jn ji lng synch b nl st))"
  by (simp add: report_lines_def Let_def)

lemma same_report_pwd: "same_table (snd r) (snd (report_pwd E jn lng b r))"
  by (simp add: report_pwd_def split: option.split)

subsection \<open>Changing one job\<close>

lemma jobs_ok_upd:
  "jobs_ok st \<Longrightarrow> (i < length (js_tab st) \<Longrightarrow> place_ok (js_maxjob st) i j) \<Longrightarrow> jobs_ok (st\<lparr>js_tab := (js_tab st)[i := j]\<rparr>)"
  by (simp add: jobs_ok_def tab_ok_upd_len)

lemma jobs_ok_nth: "jobs_ok st \<Longrightarrow> i < length (js_tab st) \<Longrightarrow> place_ok (js_maxjob st) i (js_tab st ! i)"
  by (simp add: jobs_ok_def tab_ok_nth)

lemma set_stat_ok:
  assumes "jobs_ok st" "i < length (js_tab st)" "stat_has (jb_stat (js_tab st ! i)) ST_INUSE"
    and "stat_has (f (jb_stat (js_tab st ! i))) ST_INUSE"
    and "stat_has (f (jb_stat (js_tab st ! i))) ST_DONE \<Longrightarrow> stat_has (jb_stat (js_tab st ! i)) ST_DONE"
  shows "jobs_ok (set_stat i f st)"
  unfolding set_stat_def using assms by (intro jobs_ok_upd place_ok_stat jobs_ok_nth) auto

lemma set_stat_changed_ok: "jobs_ok st \<Longrightarrow> jobs_ok (set_stat i (\<lambda>s. clear_flag s ST_CHANGED) st)"
  unfolding set_stat_def by (intro jobs_ok_upd place_ok_clear_changed jobs_ok_nth)

lemma set_stat_sel [simp]:
  "length (js_tab (set_stat i f st)) = length (js_tab st)"
  "i < length (js_tab st) \<Longrightarrow> js_tab (set_stat i f st) ! i = (js_tab st ! i)\<lparr>jb_stat := f (jb_stat (js_tab st ! i))\<rparr>"
  "k \<noteq> i \<Longrightarrow> js_tab (set_stat i f st) ! k = js_tab st ! k"
  by (simp_all add: set_stat_def)

lemma in_use: "jobs_ok st \<Longrightarrow> i < length (js_tab st) \<Longrightarrow> stat_has (jb_stat (js_tab st ! i)) f \<Longrightarrow>
    stat_has (jb_stat (js_tab st ! i)) ST_INUSE"
  by (rule place_flag_in_use [OF jobs_ok_nth])

lemma procs_in_use: "jobs_ok st \<Longrightarrow> i < length (js_tab st) \<Longrightarrow> has_procs (js_tab st ! i) \<Longrightarrow>
    stat_has (jb_stat (js_tab st ! i)) ST_INUSE"
proof (cases "js_tab st ! i = new_job")
  case False
  then show "jobs_ok st \<Longrightarrow> i < length (js_tab st) \<Longrightarrow> ?thesis" using place_in_use [OF jobs_ok_nth] by blast
qed (simp add: has_procs_def)

lemma delete_slot_ok:
  "delete_slot E jn d st = Some st' \<Longrightarrow> jobs_ok st \<Longrightarrow> jobs_ok st' \<and> length (js_tab st') = length (js_tab st)"
  using deletejob_ok by (auto simp: delete_slot_def jobs_ok_def emit_def split: option.splits)

subsection \<open>Reports\<close>

lemma revive_ok: "place_ok m i j \<Longrightarrow> place_ok m i (revive_last j)"
proof (cases "stat_has (jb_stat j) ST_SUPERJOB \<and> jb_procs j \<noteq> [] \<and> pr_status (hd (jb_procs j)) = SP_RUNNING")
  case True
  assume ok: "place_ok m i j"
  then have use: "stat_has (jb_stat j) ST_INUSE" using True place_flag_in_use by blast
  have "hd (jb_procs j) \<in> set (jb_procs j)" using True by simp
  moreover have "\<not> finished SP_RUNNING" using finished_not_stopped(2) by blast
  ultimately have "\<not> stat_has (jb_stat j) ST_DONE"
    using ok use True by (metis place_ok_def slot_ok_def)
  then show ?thesis
    using ok use True by (auto simp: revive_last_def place_ok_def slot_ok_def dest: in_set_butlastD)
next
  case False
  then have "revive_last j = j" by (auto simp: revive_last_def)
  then show "place_ok m i j \<Longrightarrow> ?thesis" by simp
qed

lemma printjob_print_ok:
  assumes "printjob_print E ji lng synch st = ((done, jn, skip), st')" "jobs_ok st" "ji < length (js_tab st)"
  shows "jobs_ok st' \<and> length (js_tab st') = length (js_tab st) \<and> jn < length (js_tab st)"
proof -
  define k where "k = shown_job (js_tab st) ji"
  define st1 where "st1 = st\<lparr>js_tab := (js_tab st)[k := revive_last (js_tab st ! k)]\<rparr>"
  have k: "k < length (js_tab st)" using assms(3) by (simp add: k_def shown_job_def Let_def)
  then have "jobs_ok st1" unfolding st1_def using assms(2) by (intro jobs_ok_upd revive_ok jobs_ok_nth)
  moreover have "jn = k \<and> same_table st1 st'"
    using assms(1) unfolding printjob_print_def Let_def k_def [symmetric] st1_def [symmetric]
    apply (auto split: prod.splits if_splits)
    by (metis same_report_pwd same_report_lines same_table_trans same_table_simps(1) snd_conv)+
  ultimately show ?thesis using k same_table_ok [of st1 st'] by (auto simp: same_table_def st1_def)
qed

lemma delete_tail_ok:
  "printjob_delete_tail E jn ji synch st = Some st' \<Longrightarrow> jobs_ok st \<Longrightarrow>
     jobs_ok st' \<and> length (js_tab st') = length (js_tab st)"
  using delete_slot_ok [of E jn False "if synch \<le> 1 then storepipestats E (js_tab st ! jn) (int ji = js_thisjob st) (int ji = js_thisjob st) st else st"]
    same_table_ok [OF same_table_pipes [of st E "js_tab st ! jn"]] same_table_ok [OF same_table_simps(5)]
  by (auto simp: printjob_delete_tail_def Let_def split: if_splits)

lemma printjob_synch_ok:
  assumes "printjob_synch E ji lng synch st = Some (b, st')" "jobs_ok st"
  shows "jobs_ok st' \<and> length (js_tab st') = length (js_tab st)"
proof -
  have ji: "ji < length (js_tab st)" using assms(1) by (simp add: printjob_synch_def split: if_splits)
  obtain dn jn skip st1 where p: "printjob_print E ji lng synch st = ((dn, jn, skip), st1)"
    by (metis prod.exhaust)
  note ok = printjob_print_ok [OF p assms(2) ji]
  show ?thesis
    using assms(1) ok ji set_stat_changed_ok [of st1 jn] delete_tail_ok [of E jn ji synch st1]
    by (auto simp: printjob_synch_def p split: if_splits)
qed

lemma scan_ok: "scan_slots E is st = Some st' \<Longrightarrow> jobs_ok st \<Longrightarrow> jobs_ok st' \<and> length (js_tab st') = length (js_tab st)"
proof (induction E "is" st rule: scan_slots.induct)
  case (2 E i "is" st)
  then show ?case using printjob_synch_ok by (fastforce split: if_splits option.splits)
qed simp

subsection \<open>Superjobs\<close>

lemma release_super_ok:
  assumes "release_super E su sub fg st = Some st'" "jobs_ok st" "su < length (js_tab st)"
    and "stat_has (jb_stat (js_tab st ! su)) ST_SUPERJOB"
  shows "jobs_ok st' \<and> length (js_tab st') = length (js_tab st)"
proof -
  define st1 where "st1 = set_stat su (\<lambda>s. set_flag (clear_flag s ST_SUPERJOB) ST_WASSUPER) st"
  have use: "stat_has (jb_stat (js_tab st ! su)) ST_INUSE" using assms in_use by blast
  have ok1: "jobs_ok st1"
    unfolding st1_def using assms use by (intro set_stat_ok) (auto simp: clear_simps)
  have use1: "su < length (js_tab st1)" "stat_has (jb_stat (js_tab st1 ! su)) ST_INUSE"
    using assms(3) use by (simp_all add: st1_def clear_simps)
  define g where "g = (\<lambda>x. st1\<lparr>js_tab := (js_tab st1)[su := (js_tab st1 ! su)\<lparr>jb_gleader := x\<rparr>]\<rparr>)"
  have okg: "jobs_ok (g x)" for x
    unfolding g_def using ok1 use1
    by (intro jobs_ok_upd place_ok_fields [OF jobs_ok_nth [OF ok1 use1(1)]]) auto
  have same: "st1\<lparr>js_tab := (js_tab st1)[su := js_tab st1 ! su]\<rparr> = st1" by simp
  have len: "length (js_tab (g x)) = length (js_tab st)" "length (js_tab st1) = length (js_tab st)" for x
    by (simp_all add: g_def st1_def)
  have done_ok: "jobs_ok st' \<and> length (js_tab st') = length (js_tab st)"
    if "(if stat_has fl ST_DISOWN then delete_slot E su True (emit ev s2) else Some (emit ev s2)) = Some st'"
      "jobs_ok s2" "length (js_tab s2) = length (js_tab st)" for ev s2 fl
    using that delete_slot_ok [of E su True "emit ev s2" st'] same_table_ok [OF same_table_simps(1), of s2 ev]
    by (auto split: if_splits)
  define cp where "cp = ((wifexited (case jb_procs (js_tab st1 ! su) of [] \<Rightarrow> 0 | p # _ \<Rightarrow> pr_status p) \<or>
      wifsignaled (case jb_procs (js_tab st1 ! su) of [] \<Rightarrow> 0 | p # _ \<Rightarrow> pr_status p)) \<and>
      je_group_gone E (jb_gleader (js_tab st1 ! su)))"
  define s2 where "s2 = (if cp \<and> jb_procs (js_tab st1 ! su) \<noteq> [] then g (pr_pid (last (jb_procs (js_tab st1 ! su)))) else st1)"
  have s2: "jobs_ok s2" "length (js_tab s2) = length (js_tab st)"
    using okg ok1 len by (auto simp: s2_def)
  have s2_eq: "st1\<lparr>js_tab := (js_tab st1)[su := (if cp \<and> jb_procs (js_tab st1 ! su) \<noteq> []
      then (js_tab st1 ! su)\<lparr>jb_gleader := pr_pid (last (jb_procs (js_tab st1 ! su)))\<rparr> else js_tab st1 ! su)]\<rparr> = s2"
    by (simp add: s2_def g_def)
  from assms(1) show ?thesis
    unfolding release_super_def Let_def st1_def [symmetric] cp_def [symmetric] s2_eq
    by (rule done_ok) (use s2 in auto)
qed

lemma stop_super_ok:
  assumes "jobs_ok st" "su < length (js_tab st)" "sub < length (js_tab st)"
    and "stat_has (jb_stat (js_tab st ! su)) ST_SUPERJOB"
  shows "jobs_ok (stop_super su sub st) \<and> length (js_tab (stop_super su sub st)) = length (js_tab st)"
proof -
  define st1 where "st1 = set_stat su (\<lambda>s. set_flag s ST_STOPPED) st"
  have use: "stat_has (jb_stat (js_tab st ! su)) ST_INUSE" using assms in_use by blast
  have ok1: "jobs_ok st1" unfolding st1_def using assms use by (intro set_stat_ok) auto
  have use1: "su < length (js_tab st1)" "stat_has (jb_stat (js_tab st1 ! su)) ST_INUSE"
    using assms(2) use by (simp_all add: st1_def)
  define s where "s = (case jb_procs (js_tab st1 ! sub) of [] \<Rightarrow> 0 | p # _ \<Rightarrow> pr_status p)"
  have "place_ok (js_maxjob st1) sub (js_tab st1 ! sub)" using jobs_ok_nth [OF ok1, of sub] assms(3) by (simp add: st1_def)
  then have s: "status_ok s"
    unfolding s_def by (cases "js_tab st1 ! sub = new_job")
      (auto simp: status_ok_zero place_ok_def slot_ok_def split: list.split if_splits)
  define j where "j = js_tab st1 ! su"
  have pj: "place_ok (js_maxjob st1) su j" unfolding j_def using jobs_ok_nth ok1 use1 by blast
  have "stop_proc s p = p" if "finished (pr_status p)" for p
    using finished_not_stopped(2) [OF that] that by (auto simp: stop_proc_def finished_def)
  then have "place_ok (js_maxjob st1) su (j\<lparr>jb_procs := map (stop_proc s) (jb_procs j)\<rparr>)"
    using pj use1 s unfolding j_def [symmetric]
    by (auto simp: place_ok_def slot_ok_def stop_proc_def split: if_splits)
  then have "jobs_ok (st1\<lparr>js_tab := (js_tab st1)[su := j\<lparr>jb_procs := map (stop_proc s) (jb_procs j)\<rparr>]\<rparr>)"
    using ok1 by (intro jobs_ok_upd)
  then have "jobs_ok (stop_super su sub st)"
    unfolding stop_super_def Let_def st1_def [symmetric] s_def [symmetric] j_def [symmetric] by (simp add: jobs_ok_def)
  then show ?thesis by (simp add: stop_super_def Let_def)
qed

lemma handle_sub_ok:
  assumes "handle_sub E su fg st = Some (b, st')" "jobs_ok st" "stat_has (jb_stat (js_tab st ! su)) ST_SUPERJOB"
  shows "jobs_ok st' \<and> length (js_tab st') = length (js_tab st)"
proof -
  have su: "su < length (js_tab st)" using assms(1) by (simp add: handle_sub_def split: if_splits)
  define sub where "sub = as_usize (jb_other (js_tab st ! su))"
  show ?thesis
  proof (cases "length (js_tab st) \<le> sub")
    case True
    then show ?thesis using assms su by (simp add: handle_sub_def sub_def Let_def)
  next
    case False
    consider "stat_has (jb_stat (js_tab st ! sub)) ST_DONE \<or> \<not> has_procs (js_tab st ! sub)"
      | "\<not> (stat_has (jb_stat (js_tab st ! sub)) ST_DONE \<or> \<not> has_procs (js_tab st ! sub))" by blast
    then show ?thesis
    proof cases
      case 1
      then obtain st1 where st1: "(case first_signaled (jb_procs (js_tab st ! sub)) of
          Some sig \<Rightarrow> Some (kill_super E su sub sig st) | None \<Rightarrow> release_super E su sub fg st) = Some st1"
        "st' = (if fg then st1\<lparr>js_curjob := int su\<rparr> else st1)"
        using assms(1) su False unfolding handle_sub_def Let_def sub_def [symmetric] by auto
      have "jobs_ok st1 \<and> length (js_tab st1) = length (js_tab st)"
        using st1(1) release_super_ok [of E su sub fg st st1] assms su same_table_ok [OF same_table_simps(1), of st]
        by (auto simp: kill_super_def Let_def split: option.splits)
      then show ?thesis using st1(2) by (auto simp: jobs_ok_def)
    next
      case 2
      then show ?thesis
        using assms su False stop_super_ok [OF assms(2) su _ assms(3), of sub] printjob_synch_ok
        unfolding handle_sub_def Let_def sub_def [symmetric]
        by (auto split: if_splits)
    qed
  qed
qed


subsection \<open>A status and what follows\<close>

lemma settle_statuses:
  "settle ps = (qs, c, r) \<Longrightarrow> (\<forall>p \<in> set ps. status_ok (pr_status p)) \<Longrightarrow> (\<forall>q \<in> set qs. status_ok (pr_status q))"
  by (induction ps arbitrary: qs c r) (auto split: if_splits prod.splits)

lemma settle_idle:
  "settle ps = (qs, c, False) \<Longrightarrow> qs = ps \<and> \<not> c \<and> (\<forall>p \<in> set ps. idle p)"
  by (induction ps arbitrary: qs) (auto simp: idle_def split: if_splits prod.splits)

lemma settle_done:
  assumes "settle ps = (qs, c, r)" "\<forall>p \<in> set ps. finished (pr_status p)"
  shows "qs = ps \<and> \<not> r"
proof -
  have fin: "\<not> wifcontinued s \<and> s \<noteq> SP_RUNNING" if "finished s" for s
    using that finished_not_stopped by (auto simp: wifcontinued_def finished_def)
  show ?thesis using assms
    by (induction ps arbitrary: qs c r) (auto simp: pr_is_running_def dest: fin split: if_splits prod.splits)
qed

lemma settle_all_idle: "settle ps = (qs, c, r) \<Longrightarrow> \<forall>p \<in> set ps. idle p \<Longrightarrow> qs = ps \<and> \<not> c \<and> \<not> r"
  by (induction ps arbitrary: qs c r) (auto simp: idle_def split: if_splits prod.splits)

lemma save_tty_cases:
  "save_tty E jn st = st \<or> (\<exists>x. save_tty E jn st = st\<lparr>js_tab := (js_tab st)[jn := (js_tab st ! jn)\<lparr>jb_ty := x\<rparr>]\<rparr>)"
proof (cases "je_gettyinfo E")
  case None
  then show ?thesis unfolding save_tty_def Let_def by simp
next
  case (Some t)
  show ?thesis
  proof (cases "jb_stty_in_env (js_tab st ! jn) \<noteq> 0 \<and> jb_ty (js_tab st ! jn) = None")
    case True
    then have "save_tty E jn st = st\<lparr>js_tab := (js_tab st)[jn := (js_tab st ! jn)\<lparr>jb_ty := Some (t, je_winsize E)\<rparr>]\<rparr>"
      unfolding save_tty_def Let_def by (simp add: Some)
    then show ?thesis by blast
  next
    case False
    then show ?thesis unfolding save_tty_def Let_def if_not_P [OF False] by simp
  qed
qed

lemma nth_ty:
  "jb_stat (tab[jn := (tab ! jn)\<lparr>jb_ty := x\<rparr>] ! i) = jb_stat (tab ! i) \<and>
   jb_procs (tab[jn := (tab ! jn)\<lparr>jb_ty := x\<rparr>] ! i) = jb_procs (tab ! i) \<and>
   jb_auxprocs (tab[jn := (tab ! jn)\<lparr>jb_ty := x\<rparr>] ! i) = jb_auxprocs (tab ! i)"
  by (cases "i = jn"; cases "jn < length tab"; simp add: list_update_beyond)

lemma if3:
  "(if a then x else if b then Some y else if c then Some z else w) = Some r \<Longrightarrow>
     x = Some r \<or> r = y \<or> r = z \<or> w = Some r"
  by (auto split: if_splits)

lemma save_tty_sel [simp]:
  "js_maxjob (save_tty E jn st) = js_maxjob st" "js_pipestats (save_tty E jn st) = js_pipestats st"
  "js_thisjob (save_tty E jn st) = js_thisjob st"
  "length (js_tab (save_tty E jn st)) = length (js_tab st)"
  "jb_stat (js_tab (save_tty E jn st) ! i) = jb_stat (js_tab st ! i)"
  "jb_procs (js_tab (save_tty E jn st) ! i) = jb_procs (js_tab st ! i)"
  "jb_auxprocs (js_tab (save_tty E jn st) ! i) = jb_auxprocs (js_tab st ! i)"
  using save_tty_cases [of E jn st] by (auto simp: nth_ty)

lemma save_tty_ok: "jobs_ok st \<Longrightarrow> jn < length (js_tab st) \<Longrightarrow> stat_has (jb_stat (js_tab st ! jn)) ST_INUSE \<Longrightarrow>
    jobs_ok (save_tty E jn st)"
  unfolding save_tty_def Let_def
  by (auto intro!: jobs_ok_upd place_ok_fields [OF jobs_ok_nth] split: option.split)

lemma refresh_ok:
  "refresh_after E r = Some st' \<Longrightarrow> (\<And>b st1. r = Some (b, st1) \<Longrightarrow> jobs_ok st1 \<and> length (js_tab st1) = n) \<Longrightarrow>
     jobs_ok st' \<and> length (js_tab st') = n"
  using same_table_ok [OF same_table_simps(1)]
  by (auto simp: refresh_after_def split: prod.splits if_splits)

lemma super_from_Some:
  "super_from js i k = Some n \<Longrightarrow> i \<le> n \<and> n < i + length js \<and> stat_has (jb_stat (js ! (n - i))) ST_SUPERJOB"
proof (induction js arbitrary: i)
  case (Cons j js)
  show ?case
  proof (cases "n = i")
    case True
    then have "\<not> super_from js (Suc i) k = Some n" using Cons.IH [of "Suc i"] by auto
    then show ?thesis using Cons.prems True by (auto split: if_splits)
  next
    case False
    then have "super_from js (Suc i) k = Some n" using Cons.prems by (auto split: if_splits)
    then have "Suc i \<le> n \<and> n < Suc i + length js \<and> stat_has (jb_stat (js ! (n - Suc i))) ST_SUPERJOB"
      by (rule Cons.IH)
    moreover from this have "n - i = Suc (n - Suc i)" by (simp add: Suc_diff_Suc)
    ultimately show ?thesis by simp
  qed
qed simp

lemma super_job_Some: "super_job tab k = Some n \<Longrightarrow> n < length tab \<and> stat_has (jb_stat (tab ! n)) ST_SUPERJOB"
  using super_from_Some [of tab 0 k n] by (simp add: super_job_def)

lemma stop_subjob_ok:
  assumes "stop_subjob E jn st = Some st'" "jobs_ok st" "jn < length (js_tab st)"
    "stat_has (jb_stat (js_tab st ! jn)) ST_INUSE"
  shows "jobs_ok st' \<and> length (js_tab st') = length (js_tab st)"
proof -
  define mark where "mark = (\<lambda>s. set_flag s (set_flag ST_CHANGED ST_STOPPED))"
  define st1 where "st1 = set_stat jn mark st"
  have ok1: "jobs_ok st1" "length (js_tab st1) = length (js_tab st)"
    unfolding st1_def using assms by (auto intro!: set_stat_ok simp: mark_def)
  show ?thesis
  proof (cases "super_job (js_tab st1) jn")
    case None
    then show ?thesis using assms(1) ok1 unfolding stop_subjob_def Let_def mark_def [symmetric] st1_def [symmetric] by simp
  next
    case (Some i)
    note i = super_job_Some [OF Some]
    define st2 where "st2 = set_stat i mark (emit [Killpg (jb_gleader (js_tab st1 ! i)) SIGTSTP] st1)"
    have e: "jobs_ok (emit ev st1)" for ev using same_table_ok [OF same_table_simps(1)] ok1 by blast
    have ok2: "jobs_ok st2" "length (js_tab st2) = length (js_tab st)"
      unfolding st2_def using i in_use [OF ok1(1)] ok1(2) e by (auto intro!: set_stat_ok simp: mark_def)
    define st3 where "st3 = (if stat_has (jb_stat (js_tab st2 ! i)) ST_DONE then st2
      else st2\<lparr>js_prevjob := js_curjob st2, js_curjob := int i\<rparr>)"
    have ok3: "jobs_ok st3" "length (js_tab st3) = length (js_tab st)" using ok2 by (auto simp: st3_def jobs_ok_def)
    have "(if je_isset E NOTIFY \<and> stat_has (jb_stat (js_tab st3 ! i)) ST_LOCKED \<and> \<not> stat_has (jb_stat (js_tab st3 ! i)) ST_NOPRINT
        then refresh_after E (printjob_synch E i (long_lng E) 0 st3) else Some st3) = Some st'"
      using assms(1) unfolding stop_subjob_def Let_def mark_def [symmetric] st1_def [symmetric] Some option.case
        st2_def [symmetric] st3_def [symmetric] .
    then show ?thesis
      using ok3 printjob_synch_ok [of E i "long_lng E" 0 st3] refresh_ok [of E "printjob_synch E i (long_lng E) 0 st3" st' "length (js_tab st)"]
      by (auto split: if_splits)
  qed
qed

lemma settle_terminal_ok:
  assumes "jobs_ok st" "jn < length (js_tab st)" "stat_has (jb_stat (js_tab st ! jn)) ST_INUSE"
  shows "jobs_ok (settle_terminal E jn fg val sg ss st)"
    "length (js_tab (settle_terminal E jn fg val sg ss st)) = length (js_tab st)"
    "js_thisjob (settle_terminal E jn fg val sg ss st) = js_thisjob st"
    "jb_procs (js_tab (settle_terminal E jn fg val sg ss st) ! i) = jb_procs (js_tab st ! i)"
    "jb_auxprocs (js_tab (settle_terminal E jn fg val sg ss st) ! i) = jb_auxprocs (js_tab st ! i)"
    "stat_has (jb_stat (js_tab (settle_terminal E jn fg val sg ss st) ! i)) ST_INUSE = stat_has (jb_stat (js_tab st ! i)) ST_INUSE"
proof -
  have attach: "jobs_ok (set_stat jn (\<lambda>s. set_flag s ST_ATTACH) st)" using assms by (intro set_stat_ok) auto
  note br = same_table_ok [OF same_table_simps(11)] same_table_ok [OF same_table_simps(12)]
  show "jobs_ok (settle_terminal E jn fg val sg ss st)"
    unfolding settle_terminal_def Let_def using attach assms(1) br by auto
  show "length (js_tab (settle_terminal E jn fg val sg ss st)) = length (js_tab st)"
    by (simp add: settle_terminal_def Let_def)
  show "js_thisjob (settle_terminal E jn fg val sg ss st) = js_thisjob st"
    by (simp add: settle_terminal_def Let_def break_loops_def take_terminal_def emit_def set_stat_def)
  have *: "jb_procs (js_tab (set_stat jn (\<lambda>s. set_flag s ST_ATTACH) st) ! i) = jb_procs (js_tab st ! i) \<and>
     jb_auxprocs (js_tab (set_stat jn (\<lambda>s. set_flag s ST_ATTACH) st) ! i) = jb_auxprocs (js_tab st ! i) \<and>
     stat_has (jb_stat (js_tab (set_stat jn (\<lambda>s. set_flag s ST_ATTACH) st) ! i)) ST_INUSE = stat_has (jb_stat (js_tab st ! i)) ST_INUSE"
    using assms(2) by (cases "i = jn") auto
  show "jb_procs (js_tab (settle_terminal E jn fg val sg ss st) ! i) = jb_procs (js_tab st ! i)"
    "jb_auxprocs (js_tab (settle_terminal E jn fg val sg ss st) ! i) = jb_auxprocs (js_tab st ! i)"
    "stat_has (jb_stat (js_tab (settle_terminal E jn fg val sg ss st) ! i)) ST_INUSE = stat_has (jb_stat (js_tab st ! i)) ST_INUSE"
    unfolding settle_terminal_def Let_def using * by auto
qed

text \<open>The tail of \<open>update_job\<close>, for a job whose processes all have a status.\<close>

lemma mark_changed_ok:
  assumes "jobs_ok st" "jn < length (js_tab st)" "stat_has (jb_stat (js_tab st ! jn)) ST_INUSE"
    and "\<not> ss \<Longrightarrow> (\<forall>p \<in> set (jb_procs (js_tab st ! jn)). finished (pr_status p)) \<and>
      (\<forall>p \<in> set (jb_auxprocs (js_tab st ! jn)). idle p)"
  shows "jobs_ok (mark_changed jn ss st)"
proof (cases ss)
  case True
  then show ?thesis unfolding mark_changed_def using assms by (intro set_stat_ok) auto
next
  case False
  have "place_ok (js_maxjob st) jn (js_tab st ! jn)" using assms jobs_ok_nth by blast
  then have "place_ok (js_maxjob st) jn
      ((js_tab st ! jn)\<lparr>jb_stat := set_flag (jb_stat (js_tab st ! jn)) (set_flag ST_CHANGED ST_DONE)\<rparr>)"
    using assms(3) assms(4) [OF False] by (simp add: place_ok_def slot_ok_def)
  then show ?thesis using False assms(1) by (simp add: mark_changed_def set_stat_def jobs_ok_upd)
qed

lemma tell_super_ok:
  "tell_super E jn fg st = Some st' \<Longrightarrow> jobs_ok st \<Longrightarrow> jobs_ok st' \<and> length (js_tab st') = length (js_tab st)"
  using handle_sub_ok [of E _ False st] super_job_Some [of "js_tab st" jn]
  by (fastforce simp: tell_super_def Let_def split: if_splits option.splits)

lemma report_change_ok:
  "report_change E jn st = Some st' \<Longrightarrow> jobs_ok st \<Longrightarrow> jobs_ok st' \<and> length (js_tab st') = length (js_tab st)"
  using printjob_synch_ok [of E jn "long_lng E" 0 st] refresh_ok [of E "printjob_synch E jn (long_lng E) 0 st" st' "length (js_tab st)"]
  by (auto simp: report_change_def split: if_splits)

lemma finish_update_ok:
  assumes "finish_update E jn fg s ss st = Some st'" "jobs_ok (mark_changed jn ss st)"
  shows "jobs_ok st' \<and> length (js_tab st') = length (js_tab st)"
proof -
  define st1 where "st1 = mark_changed jn ss st"
  define st2 where "st2 = storepipestats E (js_tab st1 ! jn) (fg \<noteq> 0) False st1"
  have ok2: "jobs_ok st2" "length (js_tab st2) = length (js_tab st)"
    using same_table_ok [OF same_table_pipes] assms(2) by (auto simp: st2_def st1_def mark_changed_def)
  obtain st3 where st3: "tell_super E jn fg st2 = Some st3"
    using assms(1) unfolding finish_update_def Let_def st1_def [symmetric] st2_def [symmetric] by (auto split: option.splits)
  note ok3 = tell_super_ok [OF st3 ok2(1)]
  obtain st4 where st4: "report_change E jn (stop_is_current jn st3) = Some st4" "st' = pseudo_signal E fg s st4"
    using assms(1) st3 unfolding finish_update_def Let_def st1_def [symmetric] st2_def [symmetric] by auto
  have "jobs_ok (stop_is_current jn st3)" using ok3 same_table_ok same_table_simps(10) by blast
  note ok4 = report_change_ok [OF st4(1) this]
  show ?thesis using ok4 ok3 ok2 st4(2) same_table_ok [OF same_table_simps(14)] by auto
qed

lemma settled_ok:
  assumes "settled E jn st = Some st'" "jobs_ok st" "jn < length (js_tab st)"
    and use: "stat_has (jb_stat (js_tab st ! jn)) ST_INUSE"
    and idle: "\<forall>p \<in> set (jb_procs (js_tab st ! jn)). idle p"
      "\<forall>p \<in> set (jb_auxprocs (js_tab st ! jn)). idle p"
  shows "jobs_ok st' \<and> length (js_tab st') = length (js_tab st)"
proof -
  define ps where "ps = jb_procs (js_tab st ! jn)"
  define ss where "ss = list_ex (\<lambda>p. wifstopped (pr_status p)) ps"
  define st1 where "st1 = (if ss then save_tty E jn st else st)"
  have ok1: "jobs_ok st1" "length (js_tab st1) = length (js_tab st)" "jb_stat (js_tab st1 ! jn) = jb_stat (js_tab st ! jn)"
    "jb_procs (js_tab st1 ! jn) = ps" "jb_auxprocs (js_tab st1 ! jn) = jb_auxprocs (js_tab st ! jn)"
    using assms save_tty_ok by (auto simp: st1_def ps_def)
  have statuses: "\<forall>p \<in> set ps. status_ok (pr_status p)"
    using jobs_ok_nth [OF assms(2,3)] use by (auto simp: place_ok_def slot_ok_def ps_def)
  define st2 where "st2 = remember_tty E jn ss (remember_value jn (status_value E (last_status ps)) st1)"
  have ok2: "jobs_ok st2" "js_tab st2 = js_tab st1"
    using ok1(1) same_table_ok [OF same_table_trans [OF same_table_simps(8) same_table_simps(9)]] by (auto simp: st2_def)
  define st3 where "st3 = settle_terminal E jn (foreground jn st1) (status_value E (last_status ps))
    (case last_status ps of Some s \<Rightarrow> wifsignaled s | None \<Rightarrow> False) ss st2"
  have in2: "jn < length (js_tab st2)" "stat_has (jb_stat (js_tab st2 ! jn)) ST_INUSE"
    using ok2 ok1 assms by simp_all
  note tm = settle_terminal_ok [OF ok2(1) in2]
  have ok3: "jobs_ok st3" "length (js_tab st3) = length (js_tab st)" using tm ok2(2) ok1(2) by (simp_all add: st3_def)
  have fin: "(\<forall>p \<in> set (jb_procs (js_tab st3 ! jn)). finished (pr_status p)) \<and>
      (\<forall>p \<in> set (jb_auxprocs (js_tab st3 ! jn)). idle p)" if "\<not> ss"
    using that statuses idle settled_status ok1 ok2(2)
    by (auto simp: st3_def tm(4,5) ss_def list_ex_iff pr_is_running_def ps_def idle_def)
  have marked: "jobs_ok (mark_changed jn ss st3)"
    using ok3 fin in2 assms(3) tm(6) by (intro mark_changed_ok) (auto simp: st3_def)
  have "(if ss \<and> stat_has (jb_stat (js_tab st ! jn)) ST_SUBJOB then stop_subjob E jn st1
      else if ss \<and> stat_has (jb_stat (js_tab st ! jn)) ST_STOPPED then Some st1
      else if ss \<and> stat_has (jb_stat (js_tab st3 ! jn)) ST_SUPERJOB then Some st3
      else finish_update E jn (foreground jn st1) (leader_status (js_tab st ! jn)) ss st3) = Some st'"
    using assms(1) unfolding settled_def Let_def ps_def [symmetric] ss_def [symmetric] st1_def [symmetric]
      st2_def [symmetric] st3_def [symmetric] .
  from if3 [OF this] consider "stop_subjob E jn st1 = Some st'" | "st' = st1" | "st' = st3"
    | "finish_update E jn (foreground jn st1) (leader_status (js_tab st ! jn)) ss st3 = Some st'"
    by blast
  then show ?thesis
  proof cases
    case 1
    then show ?thesis using stop_subjob_ok [of E jn st1 st'] ok1 assms(3) use by simp
  next
    case 4
    then show ?thesis using finish_update_ok [OF 4 marked] ok3 by simp
  qed (use ok1 ok3 in auto)
qed

lemma update_job_ok:
  assumes "update_job E jn st = Some (b, st')" "jobs_ok st" "stat_has (jb_stat (js_tab st ! jn)) ST_INUSE"
  shows "jobs_ok st' \<and> length (js_tab st') = length (js_tab st)"
proof -
  have jn: "jn < length (js_tab st)" using assms(1) by (simp add: update_job_def split: if_splits)
  define j where "j = js_tab st ! jn"
  have pj: "place_ok (js_maxjob st) jn j" using jobs_ok_nth [OF assms(2) jn] by (simp add: j_def)
  obtain aux ca ra where sa: "settle (jb_auxprocs j) = (aux, ca, ra)" by (rule prod_cases3)
  obtain ps c r where sp: "settle (jb_procs j) = (ps, c, r)" by (rule prod_cases3)
  have stat: "\<forall>p \<in> set aux \<union> set ps. status_ok (pr_status p)"
    using settle_statuses [OF sa] settle_statuses [OF sp] pj assms(3) by (auto simp: place_ok_def slot_ok_def j_def)
  have aux_same: "aux = jb_auxprocs j \<and> (\<forall>p \<in> set aux. idle p)" if "\<not> ra"
    using settle_idle [of "jb_auxprocs j" aux ca] sa that by auto
  have done_same: "ps = jb_procs j \<and> \<not> r" if "stat_has (jb_stat j) ST_DONE"
    using settle_done [OF sp] pj assms(3) that by (auto simp: place_ok_def slot_ok_def j_def)
  have done_aux: "aux = jb_auxprocs j" if "stat_has (jb_stat j) ST_DONE"
    using settle_all_idle [OF sa] pj assms(3) that by (auto simp: place_ok_def slot_ok_def j_def)
  define j1 where "j1 = j\<lparr>jb_auxprocs := aux\<rparr>"
  have sp1: "settle (jb_procs j1) = (ps, c, r)" by (simp add: j1_def sp)
  define j2 where "j2 = j1\<lparr>jb_procs := ps, jb_stat := (if c then clear_flag (jb_stat j1) ST_STOPPED else jb_stat j1)\<rparr>"
  have p1: "place_ok (js_maxjob st) jn j1" and p2: "place_ok (js_maxjob st) jn j2"
    using pj stat done_same done_aux assms(3)
    by (auto simp: place_ok_def slot_ok_def j1_def j2_def clear_simps j_def split: if_splits)
  have ok2: "jobs_ok (st\<lparr>js_tab := (js_tab st)[jn := j2]\<rparr>)" and ok1: "jobs_ok (st\<lparr>js_tab := (js_tab st)[jn := j1]\<rparr>)"
    using p1 p2 assms(2) by (simp_all add: jobs_ok_upd)
  have "(if ra then Some (False, st\<lparr>js_tab := (js_tab st)[jn := j1]\<rparr>)
      else if r then Some (False, st\<lparr>js_tab := (js_tab st)[jn := j2]\<rparr>)
      else map_option (Pair True) (settled E jn (st\<lparr>js_tab := (js_tab st)[jn := j2]\<rparr>))) = Some (b, st')"
    using assms(1) jn sp1 unfolding update_job_def Let_def j_def [symmetric] sa prod.case j1_def [symmetric] sp1
      j2_def [symmetric] by (simp only: not_le [symmetric] if_False)
  then consider "st' = st\<lparr>js_tab := (js_tab st)[jn := j1]\<rparr>" | "st' = st\<lparr>js_tab := (js_tab st)[jn := j2]\<rparr>"
    | "\<not> ra" "\<not> r" "settled E jn (st\<lparr>js_tab := (js_tab st)[jn := j2]\<rparr>) = Some st'"
    by (auto split: if_splits)
  then show ?thesis
  proof cases
    case 3
    have "(\<forall>p \<in> set ps. idle p)" using settle_idle [of "jb_procs j" ps c] sp 3(2) by auto
    then show ?thesis
      using settled_ok [OF 3(3) ok2] jn aux_same 3(1) assms(3)
      by (auto simp: j2_def j1_def j_def clear_simps)
  qed (use ok1 ok2 in auto)
qed

end
