(* ===== verification/JobExec.thy ===== *)
theory JobExec
  imports JobKeeps
begin

text \<open>
  What the executor itself writes into the job table: the slots of running pipelines and the marks of a
  command run in the shell (\<open>src/src/exec_jobs.rs\<close>), superjobs and their subjobs (\<open>superjob_fork\<close> of
  \<open>src/src/fusevm_bridge.rs\<close>, \<open>execpline\<close> of \<open>src/src/ported/exec.rs\<close>), and the table that comes back
  at the end of an in-process subshell; and the proof that each keeps the invariant.
\<close>

definition ST_TIMED :: i32 where "ST_TIMED = 0x0004"
definition ST_SUBLEADER :: i32 where "ST_SUBLEADER = 0x2000"
definition ERRFLAG_ERROR :: i32 where "ERRFLAG_ERROR = 1"

section \<open>Commands run in the shell\<close>

definition mark_thisjob_cursh :: "bool \<Rightarrow> jshell \<Rightarrow> jshell" where
  "mark_thisjob_cursh is_builtin st =
    (if js_thisjob st < 0 \<or> length (js_tab st) \<le> nat (js_thisjob st) then st
     else let tj = nat (js_thisjob st); j = js_tab st ! tj;
              s1 = set_flag (jb_stat j) ST_CURSH;
              s2 = (if jb_procs j = [] then set_flag s1 ST_NOPRINT else s1);
              s3 = (if is_builtin then set_flag s2 ST_BUILTIN else s2) in
       st\<lparr>js_tab := (js_tab st)[tj := j\<lparr>jb_stat := s3\<rparr>]\<rparr>)"

text \<open>A command of redirections only.\<close>

definition null_command_done :: "jshell \<Rightarrow> jshell" where
  "null_command_done st =
    (if js_thisjob st < 0 \<or> length (js_tab st) \<le> nat (js_thisjob st) then st
     else set_stat (nat (js_thisjob st)) (\<lambda>s. set_flag s ST_DONE) st)"

section \<open>The slots of running pipelines\<close>

text \<open>The answer is the slot with the job to go back to, which the caller keeps.\<close>

definition execpline_slot_open :: "jshell \<Rightarrow> (nat \<times> int) \<times> jshell" where
  "execpline_slot_open st =
    (let (slot, tab, m) = initjob (js_tab st) (js_maxjob st) in
     ((slot, js_thisjob st), st\<lparr>js_tab := tab, js_maxjob := m, js_thisjob := int slot\<rparr>))"

fun shrink_maxjob :: "job list \<Rightarrow> nat \<Rightarrow> nat" where
  "shrink_maxjob tab 0 = 0"
| "shrink_maxjob tab (Suc m) =
    (if Suc m < length tab \<and> stat_has (jb_stat (tab ! Suc m)) ST_INUSE then Suc m else shrink_maxjob tab m)"

fun release_slots :: "jenv \<Rightarrow> nat list \<Rightarrow> jshell \<Rightarrow> jshell option" where
  "release_slots E [] st = Some st"
| "release_slots E (i # is) st =
    (if i < length (js_tab st) \<and> stat_has (jb_stat (js_tab st ! i)) ST_INUSE \<and>
        \<not> stat_has (jb_stat (js_tab st ! i)) (set_flag ST_STOPPED ST_SUPERJOB)
     then (case delete_slot E i False st of None \<Rightarrow> None | Some st' \<Rightarrow> release_slots E is st')
     else release_slots E is st)"

text \<open>The slots released, outermost first, each with the job to go back to.\<close>

definition release_held_slots :: "jenv \<Rightarrow> (nat \<times> int) list \<Rightarrow> jshell \<Rightarrow> jshell option" where
  "release_held_slots E released st =
    (case released of
       [] \<Rightarrow> Some st
     | (_, pj) # _ \<Rightarrow>
         map_option (\<lambda>st1. st1\<lparr>js_maxjob := shrink_maxjob (js_tab st1) (js_maxjob st1), js_thisjob := pj\<rparr>)
           (release_slots E (rev (map fst released)) st))"

section \<open>Superjobs\<close>

text \<open>\<open>execpline\<close>, a stopped pipeline whose right hand side the shell runs: the pipeline of the command line
  becomes a superjob of the job.\<close>

definition link_subjob :: "nat \<Rightarrow> nat \<Rightarrow> int \<Rightarrow> jshell \<Rightarrow> jshell" where
  "link_subjob lpj jn pid st =
    (if stat_has (jb_stat (js_tab st ! jn)) ST_DONE then st
     else let lj = js_tab st ! lpj;
              tab1 = (js_tab st)[lpj := lj\<lparr>jb_other := int jn, jb_stat := set_flag (jb_stat lj) ST_SUPERJOB\<rparr>];
              sj = tab1 ! jn;
              tab2 = tab1[jn := sj\<lparr>jb_stat := set_flag (jb_stat sj) (set_flag ST_SUBJOB ST_NOPRINT), jb_other := pid\<rparr>];
              tab3 = (if hasprocs tab2 lpj then tab2[jn := (tab2 ! jn)\<lparr>jb_gleader := jb_gleader (tab2 ! lpj)\<rparr>] else tab2) in
       st\<lparr>js_tab := tab3\<rparr>)"

text \<open>The job takes over the subjobs that lost their superjob.\<close>

definition adopt_orphan :: "nat \<Rightarrow> int \<Rightarrow> nat \<Rightarrow> job list \<Rightarrow> job list" where
  "adopt_orphan jn pid k tab =
    (if stat_has (jb_stat (tab ! k)) ST_SUBJOB_ORPHANED
     then let tab1 = tab[jn := (tab ! jn)\<lparr>jb_other := int k, jb_stat := set_flag (jb_stat (tab ! jn)) ST_SUPERJOB\<rparr>] in
       tab1[k := (tab1 ! k)\<lparr>jb_stat := clear_flag (jb_stat (tab1 ! k)) ST_SUBJOB_ORPHANED, jb_other := pid\<rparr>]
     else tab)"

definition lead_job :: "nat \<Rightarrow> int \<Rightarrow> bool \<Rightarrow> job list \<Rightarrow> job list" where
  "lead_job jn pid leader_gone tab =
    (if length (jb_procs (tab ! jn)) \<le> 1 \<or> leader_gone
     then fold (adopt_orphan jn pid) [1..<length tab]
       (tab[jn := (tab ! jn)\<lparr>jb_gleader := pid, jb_stat := set_flag (jb_stat (tab ! jn)) ST_SUBLEADER\<rparr>])
     else tab)"

definition copy_stop :: "job list \<Rightarrow> job \<Rightarrow> job" where
  "copy_stop tab j =
    (let other = as_usize (jb_other j) in
     case (if other < length tab then find pr_is_stopped (jb_procs (tab ! other)) else None) of
       None \<Rightarrow> j
     | Some p \<Rightarrow> if jb_procs j = [] then j
         else j\<lparr>jb_procs := butlast (jb_procs j) @ [(last (jb_procs j))\<lparr>pr_status := pr_status p\<rparr>]\<rparr>)"

text \<open>The marks of a job that stopped with a process of the shell at its head.\<close>

definition suspended_stat :: "i32 \<Rightarrow> i32" where
  "suspended_stat s = set_flag (clear_flag s (set_flag ST_DONE ST_NOPRINT))
     (set_flag ST_STOPPED (set_flag ST_CHANGED (set_flag ST_LOCKED ST_INUSE)))"

definition suspend_pipeline :: "jenv \<Rightarrow> nat \<Rightarrow> int \<Rightarrow> string \<Rightarrow> bool \<Rightarrow> jshell \<Rightarrow> (bool \<times> jshell) option" where
  "suspend_pipeline E jn pid txt leader_gone st =
    (let tab0 = (js_tab st)[jn := addproc (js_tab st ! jn) pid txt False (- 1)];
         tab1 = lead_job jn pid leader_gone tab0;
         j = copy_stop tab1 (tab1 ! jn) in
     printjob_synch E jn (long_lng E) 1
       (st\<lparr>js_curjob := int jn, js_tab := tab1[jn := j\<lparr>jb_stat := suspended_stat (jb_stat j)\<rparr>]\<rparr>))"

text \<open>The parent's side of \<open>superjob_fork\<close>, once the child \<open>pid\<close> has stopped itself; \<open>outermost\<close> is the slot of
  the outermost running pipeline.\<close>

definition superjob_slot :: "nat \<Rightarrow> nat option \<Rightarrow> jshell \<Rightarrow> nat \<times> job list \<times> nat" where
  "superjob_slot sub outermost st =
    (case outermost of
       Some s \<Rightarrow> if s \<noteq> sub \<and> s < length (js_tab st) \<and> jb_procs (js_tab st ! s) = [] then (s, js_tab st, js_maxjob st)
                 else initjob (js_tab st) (js_maxjob st)
     | None \<Rightarrow> initjob (js_tab st) (js_maxjob st))"

definition superjob_of :: "nat \<Rightarrow> int \<Rightarrow> job \<Rightarrow> job" where
  "superjob_of sub pid j =
    j\<lparr>jb_procs := jb_procs j @ [(new_process pid)\<lparr>pr_status := 0x147F\<rparr>], jb_gleader := pid, jb_other := int sub,
      jb_stat := set_flag (suspended_stat (jb_stat j)) (set_flag ST_SUPERJOB ST_SUBLEADER)\<rparr>"

definition superjob_fork :: "jenv \<Rightarrow> nat \<Rightarrow> int \<Rightarrow> nat option \<Rightarrow> jshell \<Rightarrow> jshell option" where
  "superjob_fork E sub pid outermost st =
    (if length (js_tab st) \<le> sub then Some st
     else let (su, tab, m) = superjob_slot sub outermost st;
              tab1 = tab[su := superjob_of sub pid (tab ! su)];
              sj = tab1 ! sub;
              tab2 = tab1[sub := sj\<lparr>jb_stat := set_flag (jb_stat sj) (set_flag ST_SUBJOB ST_NOPRINT), jb_other := pid\<rparr>] in
       map_option (\<lambda>(_, st1). st1\<lparr>js_thisjob := js_thisjob st, js_errflag := set_flag (js_errflag st1) ERRFLAG_ERROR,
           js_breaks := js_loops st1\<rparr>)
         (printjob_synch E su (long_lng E) 1
           (st\<lparr>js_tab := tab2, js_maxjob := m, js_curjob := int su, js_thisjob := int su\<rparr>)))"

section \<open>Processes that are gone\<close>

text \<open>\<open>wait_for_job\<close> on a process that the system no longer knows and that left no status.\<close>

definition lost_process :: "int \<Rightarrow> process \<Rightarrow> process" where
  "lost_process pid p = (if pr_pid p = pid \<and> pr_status p = SP_RUNNING then p\<lparr>pr_status := 0\<rparr> else p)"

definition lose_process :: "jenv \<Rightarrow> nat \<Rightarrow> int \<Rightarrow> jshell \<Rightarrow> jshell option" where
  "lose_process E i pid st =
    (if length (js_tab st) \<le> i then Some st
     else let j = js_tab st ! i in
       map_option snd (update_job E i (st\<lparr>js_tab := (js_tab st)[i :=
         j\<lparr>jb_procs := map (lost_process pid) (jb_procs j), jb_auxprocs := map (lost_process pid) (jb_auxprocs j)\<rparr>]\<rparr>)))"

section \<open>In-process subshells\<close>

text \<open>\<open>( ... )\<close> puts the whole job state of the parent back, \<open>$( ... )\<close> leaves the saved table of the child.\<close>

definition leave_substitution :: "jshell \<Rightarrow> jshell \<Rightarrow> jshell" where
  "leave_substitution old st = st\<lparr>js_tab := js_tab old, js_maxjob := js_maxjob old, js_thisjob := js_thisjob old,
     js_curjob := js_curjob old, js_prevjob := js_prevjob old\<rparr>"

definition leave_parens :: "jshell \<Rightarrow> jshell \<Rightarrow> jshell" where
  "leave_parens old st = (leave_substitution old st)\<lparr>js_oldtab := js_oldtab old, js_oldmax := js_oldmax old\<rparr>"

section \<open>The invariant\<close>

lemma exec_flags [simp]:
  "\<not> stat_has ST_CURSH ST_INUSE" "\<not> stat_has ST_CURSH ST_DONE" "\<not> stat_has ST_NOPRINT ST_INUSE" "\<not> stat_has ST_NOPRINT ST_DONE"
  "\<not> stat_has ST_BUILTIN ST_INUSE" "\<not> stat_has ST_BUILTIN ST_DONE" "\<not> stat_has ST_SUBJOB ST_INUSE" "\<not> stat_has ST_SUBJOB ST_DONE"
  "\<not> stat_has ST_SUBLEADER ST_INUSE" "\<not> stat_has ST_SUBLEADER ST_DONE" "\<not> stat_has ST_TIMED ST_INUSE" "\<not> stat_has ST_TIMED ST_DONE"
  "\<not> stat_has ST_NOSTTY ST_INUSE" "\<not> stat_has ST_NOSTTY ST_DONE" "\<not> stat_has ST_DISOWN ST_INUSE" "\<not> stat_has ST_DISOWN ST_DONE"
  "\<not> stat_has ST_SUBJOB_ORPHANED ST_INUSE" "\<not> stat_has ST_SUBJOB_ORPHANED ST_DONE"
  by (simp_all add: stat_has_def stat_flags ST_SUBLEADER_def ST_TIMED_def)

lemmas exec_clear = clear_simps stat_has_clear_other [OF exec_flags(1)] stat_has_clear_other [OF exec_flags(2)]
  stat_has_clear_other [OF exec_flags(17)] stat_has_clear_other [OF exec_flags(18)]

lemma clear_two: "clear_flag s (set_flag f g) = clear_flag (clear_flag s g) f"
  by (simp add: clear_flag_def set_flag_def ac_simps)

lemma suspended_simps [simp]:
  "stat_has (suspended_stat s) ST_INUSE" "\<not> stat_has (suspended_stat s) ST_DONE"
  by (simp_all add: suspended_stat_def clear_two)

lemma place_ok_marked:
  assumes "place_ok m i j" "stat_has (jb_stat j) ST_INUSE" "jb_procs j' = jb_procs j" "jb_auxprocs j' = jb_auxprocs j"
    and "stat_has (jb_stat j') ST_INUSE" "stat_has (jb_stat j') ST_DONE \<Longrightarrow> stat_has (jb_stat j) ST_DONE"
  shows "place_ok m i j'"
  using assms by (auto simp: place_ok_def slot_ok_def)

text \<open>A job that is not done: only the statuses count.\<close>

lemma place_ok_open:
  assumes "stat_has (jb_stat j') ST_INUSE" "\<not> stat_has (jb_stat j') ST_DONE" "0 < i" "i \<le> m"
    and "\<forall>p \<in> set (jb_procs j') \<union> set (jb_auxprocs j'). status_ok (pr_status p)"
  shows "place_ok m i j'"
  using assms by (simp add: place_ok_def slot_ok_def)

lemma place_used: "place_ok m i j \<Longrightarrow> stat_has (jb_stat j) ST_INUSE \<Longrightarrow>
    0 < i \<and> i \<le> m \<and> (\<forall>p \<in> set (jb_procs j) \<union> set (jb_auxprocs j). status_ok (pr_status p))"
  by (auto simp: place_ok_def slot_ok_def)

lemma mark_cursh_ok:
  "jobs_ok st \<Longrightarrow> (0 \<le> js_thisjob st \<Longrightarrow> nat (js_thisjob st) < length (js_tab st) \<Longrightarrow>
     stat_has (jb_stat (js_tab st ! nat (js_thisjob st))) ST_INUSE) \<Longrightarrow> jobs_ok (mark_thisjob_cursh b st)"
  by (auto simp: mark_thisjob_cursh_def Let_def intro!: jobs_ok_upd place_ok_marked [OF jobs_ok_nth])

lemma null_done_ok:
  assumes "jobs_ok st" "stat_has (jb_stat (js_tab st ! nat (js_thisjob st))) ST_INUSE"
    and "\<forall>p \<in> set (jb_procs (js_tab st ! nat (js_thisjob st))). finished (pr_status p)"
    and "\<forall>p \<in> set (jb_auxprocs (js_tab st ! nat (js_thisjob st))). idle p"
  shows "jobs_ok (null_command_done st)"
proof (cases "js_thisjob st < 0 \<or> length (js_tab st) \<le> nat (js_thisjob st)")
  case False
  then have "place_ok (js_maxjob st) (nat (js_thisjob st)) (js_tab st ! nat (js_thisjob st))" using assms(1) jobs_ok_nth by simp
  then have "place_ok (js_maxjob st) (nat (js_thisjob st)) ((js_tab st ! nat (js_thisjob st))
      \<lparr>jb_stat := set_flag (jb_stat (js_tab st ! nat (js_thisjob st))) ST_DONE\<rparr>)"
    using assms(2-4) by (simp add: place_ok_def slot_ok_def)
  then show ?thesis using False assms(1) jobs_ok_upd by (simp add: null_command_done_def set_stat_def)
qed (use assms(1) in \<open>auto simp: null_command_done_def\<close>)

subsection \<open>Taking slots\<close>

lemma fresh_ok: "0 < i \<Longrightarrow> i \<le> m \<Longrightarrow> place_ok m i (new_job\<lparr>jb_stat := ST_INUSE, jb_pwd := None, jb_gleader := 0\<rparr>)"
  by (simp add: place_ok_def slot_ok_def new_job_def)

lemma tab_ok_mono: "tab_ok m tab \<Longrightarrow> m \<le> m' \<Longrightarrow> tab_ok m' tab"
  by (auto simp: tab_ok_def place_ok_def)

lemma tab_ok_snoc: "tab_ok m tab \<Longrightarrow> tab_ok m (tab @ [new_job])"
  by (auto simp: tab_ok_def nth_append)

lemma tab_ok_single: "tab_ok m [new_job]"
  by (simp add: tab_ok_def)

lemma initnewjob_ok: "tab_ok m tab \<Longrightarrow> 0 < i \<Longrightarrow> initnewjob tab m i = (i', tab', m') \<Longrightarrow> tab_ok m' tab'"
  by (auto simp: initnewjob_def intro!: tab_ok_upd fresh_ok intro: tab_ok_mono)

lemma find_upt_Some: "find P [a..<b] = Some i \<longleftrightarrow> a \<le> i \<and> i < b \<and> P i \<and> (\<forall>k. a \<le> k \<longrightarrow> k < i \<longrightarrow> \<not> P k)"
proof
  assume "find P [a..<b] = Some i"
  then obtain n where n: "n < b - a" "P (a + n)" "i = a + n" "\<forall>j < n. \<not> P (a + j)"
    unfolding find_Some_iff by (auto simp: nth_upt)
  moreover have "\<not> P k" if "a \<le> k" "k < i" for k
    using n(3,4) that by (metis le_add_diff_inverse nat_add_left_cancel_less)
  ultimately show "a \<le> i \<and> i < b \<and> P i \<and> (\<forall>k. a \<le> k \<longrightarrow> k < i \<longrightarrow> \<not> P k)" by auto
next
  assume r: "a \<le> i \<and> i < b \<and> P i \<and> (\<forall>k. a \<le> k \<longrightarrow> k < i \<longrightarrow> \<not> P k)"
  then have "i - a < length [a..<b] \<and> P ([a..<b] ! (i - a)) \<and> i = [a..<b] ! (i - a) \<and> (\<forall>j < i - a. \<not> P ([a..<b] ! j))"
    by (auto simp: nth_upt)
  then show "find P [a..<b] = Some i" unfolding find_Some_iff by blast
qed

lemma tab_ok_Nil [simp]: "tab_ok m []"
  by (simp add: tab_ok_def)

lemma tab_ok_pair: "tab_ok m [new_job, new_job]"
  using tab_ok_snoc [OF tab_ok_single] by simp

lemma initjob_ok: "tab_ok m tab \<Longrightarrow> initjob tab m = (i, tab', m') \<Longrightarrow> tab_ok m' tab'"
  by (auto simp: initjob_def first_free_def Let_def find_upt_Some tab_ok_single split: option.splits if_splits
      intro: initnewjob_ok [rotated 2] initnewjob_ok [OF tab_ok_pair, rotated] tab_ok_snoc)

subsection \<open>Slots of pipelines\<close>

lemma shrink_bound: "0 < i \<Longrightarrow> i \<le> m \<Longrightarrow> i < length tab \<Longrightarrow> stat_has (jb_stat (tab ! i)) ST_INUSE \<Longrightarrow> i \<le> shrink_maxjob tab m"
proof (induction m)
  case (Suc m)
  then show ?case by (cases "i = Suc m") auto
qed simp

lemma shrink_ok: "tab_ok m tab \<Longrightarrow> tab_ok (shrink_maxjob tab m) tab"
  using shrink_bound by (auto simp: tab_ok_def place_ok_def)

lemma release_slots_ok: "release_slots E is st = Some st' \<Longrightarrow> jobs_ok st \<Longrightarrow> jobs_ok st'"
proof (induction E "is" st rule: release_slots.induct)
  case (2 E i "is" st)
  then show ?case using delete_slot_ok by (fastforce split: if_splits option.splits)
qed simp

lemma release_held_ok: "release_held_slots E held st = Some st' \<Longrightarrow> jobs_ok st \<Longrightarrow> jobs_ok st'"
  using release_slots_ok shrink_ok by (fastforce simp: release_held_slots_def jobs_ok_def split: list.splits)

subsection \<open>Superjobs and subjobs\<close>

lemma link_subjob_ok:
  assumes ok: "jobs_ok st" and lpj: "lpj < length (js_tab st)" "stat_has (jb_stat (js_tab st ! lpj)) ST_INUSE"
    and jn: "jn < length (js_tab st)" "stat_has (jb_stat (js_tab st ! jn)) ST_INUSE"
  shows "jobs_ok (link_subjob lpj jn pid st)"
proof -
  define tab1 where "tab1 = (js_tab st)[lpj := (js_tab st ! lpj)\<lparr>jb_other := int jn, jb_stat := set_flag (jb_stat (js_tab st ! lpj)) ST_SUPERJOB\<rparr>]"
  have t1: "tab_ok (js_maxjob st) tab1" "jn < length tab1" "stat_has (jb_stat (tab1 ! jn)) ST_INUSE"
    using ok lpj jn unfolding tab1_def jobs_ok_def
    by (auto intro!: tab_ok_upd place_ok_marked [OF tab_ok_nth] simp: nth_list_update)
  define j where "j = (tab1 ! jn)\<lparr>jb_stat := set_flag (jb_stat (tab1 ! jn)) (set_flag ST_SUBJOB ST_NOPRINT), jb_other := pid\<rparr>"
  have j: "place_ok (js_maxjob st) jn (j\<lparr>jb_gleader := g\<rparr>)" "place_ok (js_maxjob st) jn j" for g
    using t1 tab_ok_nth [OF t1(1,2)] by (auto simp: j_def intro!: place_ok_marked [of _ _ "tab1 ! jn"])
  have tab: "tab_ok (js_maxjob st) (tab1[jn := j, jn := j\<lparr>jb_gleader := g\<rparr>])" "tab_ok (js_maxjob st) (tab1[jn := j])" for g
    using t1(1) j tab_ok_upd by (auto simp del: list_update_overwrite)
  have nth: "tab1[jn := j] ! jn = j" using t1(2) by simp
  show ?thesis
    using ok tab nth unfolding link_subjob_def Let_def tab1_def [symmetric] j_def [symmetric]
    by (auto simp: jobs_ok_def simp del: list_update_overwrite)
qed

text \<open>A job in use keeps being so, with the same processes.\<close>

definition led :: "nat \<Rightarrow> job list \<Rightarrow> nat \<Rightarrow> job list \<Rightarrow> bool" where
  "led m tab jn tab' \<longleftrightarrow> tab_ok m tab' \<and> length tab' = length tab \<and> stat_has (jb_stat (tab' ! jn)) ST_INUSE"

lemma adopt_ok:
  assumes "tab_ok m tab" "jn < length tab" "stat_has (jb_stat (tab ! jn)) ST_INUSE" "k < length tab"
  shows "led m tab jn (adopt_orphan jn pid k tab)"
proof (cases "stat_has (jb_stat (tab ! k)) ST_SUBJOB_ORPHANED")
  case True
  define tab1 where "tab1 = tab[jn := (tab ! jn)\<lparr>jb_other := int k, jb_stat := set_flag (jb_stat (tab ! jn)) ST_SUPERJOB\<rparr>]"
  have use: "stat_has (jb_stat (tab ! k)) ST_INUSE" by (rule place_flag_in_use [OF tab_ok_nth [OF assms(1,4)] True])
  have t1: "tab_ok m tab1" "stat_has (jb_stat (tab1 ! jn)) ST_INUSE" "stat_has (jb_stat (tab1 ! k)) ST_INUSE"
    "length tab1 = length tab"
    unfolding tab1_def using assms use by (auto intro!: tab_ok_upd place_ok_marked [OF tab_ok_nth] simp: nth_list_update)
  have "tab_ok m (tab1[k := (tab1 ! k)\<lparr>jb_stat := clear_flag (jb_stat (tab1 ! k)) ST_SUBJOB_ORPHANED, jb_other := pid\<rparr>])"
    using t1 assms(4) by (intro tab_ok_upd place_ok_marked [OF tab_ok_nth]) (auto simp: exec_clear)
  then show ?thesis using True t1 assms(2,4)
    by (auto simp: led_def adopt_orphan_def Let_def tab1_def [symmetric] nth_list_update exec_clear)
qed (use assms in \<open>simp add: led_def adopt_orphan_def\<close>)

lemma adopt_all_ok:
  "tab_ok m tab \<Longrightarrow> jn < length tab \<Longrightarrow> stat_has (jb_stat (tab ! jn)) ST_INUSE \<Longrightarrow> \<forall>k \<in> set ks. k < length tab \<Longrightarrow>
     led m tab jn (fold (adopt_orphan jn pid) ks tab)"
proof (induction ks arbitrary: tab)
  case (Cons k ks)
  have one: "led m tab jn (adopt_orphan jn pid k tab)" using adopt_ok Cons.prems by simp
  then have "led m (adopt_orphan jn pid k tab) jn (fold (adopt_orphan jn pid) ks (adopt_orphan jn pid k tab))"
    using Cons.prems by (intro Cons.IH) (auto simp: led_def)
  then show ?case using one by (simp add: led_def)
qed (simp add: led_def)

lemma lead_job_ok:
  assumes "tab_ok m tab" "jn < length tab" "stat_has (jb_stat (tab ! jn)) ST_INUSE"
  shows "led m tab jn (lead_job jn pid b tab)"
proof -
  define tab1 where "tab1 = tab[jn := (tab ! jn)\<lparr>jb_gleader := pid, jb_stat := set_flag (jb_stat (tab ! jn)) ST_SUBLEADER\<rparr>]"
  have "tab_ok m tab1" "length tab1 = length tab" "stat_has (jb_stat (tab1 ! jn)) ST_INUSE"
    unfolding tab1_def using assms by (auto intro!: tab_ok_upd place_ok_marked [OF tab_ok_nth])
  then have "led m tab1 jn (fold (adopt_orphan jn pid) [1..<length tab1] tab1)"
    using assms(2) by (intro adopt_all_ok) auto
  then show ?thesis using assms \<open>length tab1 = length tab\<close> by (simp add: led_def lead_job_def tab1_def)
qed

lemma tab_status:
  assumes "tab_ok m tab" "k < length tab" "p \<in> set (jb_procs (tab ! k))"
  shows "status_ok (pr_status p)"
proof -
  have "tab ! k \<noteq> new_job" using assms(3) by auto
  then show ?thesis
    using place_used [OF tab_ok_nth [OF assms(1,2)] place_in_use [OF tab_ok_nth [OF assms(1,2)]]] assms(3) by blast
qed

lemma copy_stop_ok:
  assumes "tab_ok m tab" "p \<in> set (jb_procs (copy_stop tab j))" "\<forall>p \<in> set (jb_procs j). status_ok (pr_status p)"
  shows "status_ok (pr_status p)"
proof -
  have "status_ok (pr_status q)" if "find pr_is_stopped (jb_procs (tab ! k)) = Some q" "k < length tab" for q k
    using that tab_status [OF assms(1)] by (metis find_Some_iff nth_mem)
  then show ?thesis using assms(2,3)
    by (auto simp: copy_stop_def Let_def split: option.splits if_splits dest: in_set_butlastD)
qed

lemma copy_stop_sel [simp]: "jb_stat (copy_stop tab j) = jb_stat j" "jb_auxprocs (copy_stop tab j) = jb_auxprocs j"
  by (auto simp: copy_stop_def Let_def split: option.split)

lemma suspend_ok:
  assumes "suspend_pipeline E jn pid txt b st = Some (d, st')" "jobs_ok st" "jn < length (js_tab st)"
    and use: "stat_has (jb_stat (js_tab st ! jn)) ST_INUSE"
  shows "jobs_ok st'"
proof -
  define tab0 where "tab0 = (js_tab st)[jn := addproc (js_tab st ! jn) pid txt False (- 1)]"
  have place: "place_ok (js_maxjob st) jn (js_tab st ! jn)" by (rule jobs_ok_nth [OF assms(2,3)])
  have add: "\<forall>p \<in> set (jb_procs (addproc (js_tab st ! jn) pid txt False (- 1))) \<union>
      set (jb_auxprocs (addproc (js_tab st ! jn) pid txt False (- 1))). status_ok (pr_status p)"
    "stat_has (jb_stat (addproc (js_tab st ! jn) pid txt False (- 1))) ST_INUSE"
    "\<not> stat_has (jb_stat (addproc (js_tab st ! jn) pid txt False (- 1))) ST_DONE"
    using place_used [OF place use] use by (auto simp: addproc_def Let_def new_process_def clear_simps)
  have t0: "tab_ok (js_maxjob st) tab0" "length tab0 = length (js_tab st)" "stat_has (jb_stat (tab0 ! jn)) ST_INUSE"
    unfolding tab0_def using assms(2,3) add place_used [OF place use]
    by (auto simp: jobs_ok_def intro!: tab_ok_upd place_ok_open)
  define tab1 where "tab1 = lead_job jn pid b tab0"
  have t1: "tab_ok (js_maxjob st) tab1" "length tab1 = length (js_tab st)" "stat_has (jb_stat (tab1 ! jn)) ST_INUSE"
    using lead_job_ok [OF t0(1) _ t0(3), of pid b] assms(3) t0(2) by (simp_all add: led_def tab1_def)
  define j where "j = copy_stop tab1 (tab1 ! jn)"
  have here: "place_ok (js_maxjob st) jn (tab1 ! jn)" using t1 assms(3) tab_ok_nth by simp
  note used = place_used [OF here t1(3)]
  have "place_ok (js_maxjob st) jn (j\<lparr>jb_stat := suspended_stat (jb_stat j)\<rparr>)"
    using used copy_stop_ok [OF t1(1), of _ "tab1 ! jn"] by (intro place_ok_open) (auto simp: j_def)
  then have "jobs_ok (st\<lparr>js_curjob := int jn, js_tab := tab1[jn := j\<lparr>jb_stat := suspended_stat (jb_stat j)\<rparr>]\<rparr>)"
    using assms(2) t1(1) tab_ok_upd by (simp add: jobs_ok_def)
  then show ?thesis using assms(1) printjob_synch_ok
    unfolding suspend_pipeline_def Let_def tab0_def [symmetric] tab1_def [symmetric] j_def [symmetric] by blast
qed

lemma initjob_slot:
  assumes "initjob tab m = (i, tab', m')"
  shows "i < length tab' \<and> stat_has (jb_stat (tab' ! i)) ST_INUSE"
  using assms by (auto simp: initjob_def initnewjob_def first_free_def Let_def find_upt_Some new_job_def split: option.splits if_splits)

lemma initjob_keeps:
  assumes "initjob tab m = (i, tab', m')" "k < length tab" "stat_has (jb_stat (tab ! k)) ST_INUSE"
  shows "k < length tab' \<and> stat_has (jb_stat (tab' ! k)) ST_INUSE"
  using assms by (auto simp: initjob_def initnewjob_def first_free_def Let_def find_upt_Some nth_list_update nth_append
      split: option.splits if_splits)

lemma superjob_slot_ok:
  assumes "superjob_slot sub outermost st = (su, tab, m)" "jobs_ok st" "sub < length (js_tab st)"
    and "stat_has (jb_stat (js_tab st ! sub)) ST_INUSE"
    and "\<And>s. outermost = Some s \<Longrightarrow> s < length (js_tab st) \<Longrightarrow> stat_has (jb_stat (js_tab st ! s)) ST_INUSE"
  shows "tab_ok m tab \<and> su < length tab \<and> stat_has (jb_stat (tab ! su)) ST_INUSE \<and>
    sub < length tab \<and> stat_has (jb_stat (tab ! sub)) ST_INUSE"
proof -
  have "tab_ok (js_maxjob st) (js_tab st)" using assms(2) by (simp add: jobs_ok_def)
  then have fresh: "initjob (js_tab st) (js_maxjob st) = (su, tab, m) \<Longrightarrow> ?thesis"
    using initjob_ok initjob_slot initjob_keeps [OF _ assms(3,4)] by blast
  show ?thesis
  proof (cases outermost)
    case (Some s)
    then show ?thesis using assms fresh by (auto simp: superjob_slot_def jobs_ok_def split: if_splits)
  qed (use assms(1) fresh in \<open>simp add: superjob_slot_def\<close>)
qed

lemma suspended_status: "status_ok 0x147F"
  by (simp add: status_ok_def wait_status_def wifstopped_def low8_def)

lemma superjob_fork_ok:
  assumes "superjob_fork E sub pid outermost st = Some st'" "jobs_ok st"
    and "sub < length (js_tab st) \<Longrightarrow> stat_has (jb_stat (js_tab st ! sub)) ST_INUSE"
    and "\<And>s. outermost = Some s \<Longrightarrow> s < length (js_tab st) \<Longrightarrow> stat_has (jb_stat (js_tab st ! s)) ST_INUSE"
  shows "jobs_ok st'"
proof (cases "length (js_tab st) \<le> sub")
  case True
  then show ?thesis using assms(1,2) by (simp add: superjob_fork_def)
next
  case False
  obtain su tab m where slot: "superjob_slot sub outermost st = (su, tab, m)" by (metis prod_cases3)
  have t: "tab_ok m tab" "su < length tab" "stat_has (jb_stat (tab ! su)) ST_INUSE"
    "sub < length tab" "stat_has (jb_stat (tab ! sub)) ST_INUSE"
    using superjob_slot_ok [OF slot assms(2) _ _ assms(4)] assms(3) False by simp_all
  define tab1 where "tab1 = tab[su := superjob_of sub pid (tab ! su)]"
  define j where "j = (tab1 ! sub)\<lparr>jb_stat := set_flag (jb_stat (tab1 ! sub)) (set_flag ST_SUBJOB ST_NOPRINT), jb_other := pid\<rparr>"
  have t1: "tab_ok m tab1"
    unfolding tab1_def using t place_used [OF tab_ok_nth [OF t(1,2)] t(3)]
    by (intro tab_ok_upd place_ok_open) (auto simp: superjob_of_def suspended_status)
  have t2: "stat_has (jb_stat (tab1 ! sub)) ST_INUSE"
    using t by (cases "sub = su") (simp_all add: tab1_def superjob_of_def)
  have "sub < length tab1" using t(4) by (simp add: tab1_def)
  then have "tab_ok m (tab1[sub := j])"
    using t1 t2 unfolding j_def by (intro tab_ok_upd place_ok_marked [OF tab_ok_nth]) auto
  then have "jobs_ok (st\<lparr>js_tab := tab1[sub := j], js_maxjob := m, js_curjob := int su, js_thisjob := int su\<rparr>)"
    using assms(2) by (simp add: jobs_ok_def)
  moreover obtain d st1 where "printjob_synch E su (long_lng E) 1
      (st\<lparr>js_tab := tab1[sub := j], js_maxjob := m, js_curjob := int su, js_thisjob := int su\<rparr>) = Some (d, st1)"
    "st' = st1\<lparr>js_thisjob := js_thisjob st, js_errflag := set_flag (js_errflag st1) ERRFLAG_ERROR, js_breaks := js_loops st1\<rparr>"
    using assms(1) False
    by (auto simp: superjob_fork_def slot Let_def tab1_def [symmetric] j_def [symmetric])
  ultimately have "jobs_ok st1" using printjob_synch_ok by blast
  then show ?thesis using \<open>st' = _\<close> by (simp add: jobs_ok_def)
qed

lemma lose_process_ok:
  assumes "lose_process E i pid st = Some st'" "jobs_ok st" "stat_has (jb_stat (js_tab st ! i)) ST_INUSE"
  shows "jobs_ok st'"
proof (cases "length (js_tab st) \<le> i")
  case True
  then show ?thesis using assms by (simp add: lose_process_def)
next
  case False
  define j where "j = (js_tab st ! i)\<lparr>jb_procs := map (lost_process pid) (jb_procs (js_tab st ! i)),
    jb_auxprocs := map (lost_process pid) (jb_auxprocs (js_tab st ! i))\<rparr>"
  have "finished 0" by (simp add: finished_def wifexited_def low7_def)
  then have "idle (p\<lparr>pr_status := 0\<rparr>)" for p
    using finished_not_stopped [of 0] status_kinds(1) [of 0] by (simp add: idle_def pr_is_running_def wifcontinued_def finished_def)
  then have "place_ok (js_maxjob st) i j"
    using jobs_ok_nth [OF assms(2), of i] False assms(3) \<open>finished 0\<close> status_ok_zero
    by (auto simp: place_ok_def slot_ok_def j_def lost_process_def)
  then have "jobs_ok (st\<lparr>js_tab := (js_tab st)[i := j]\<rparr>)" using assms(2) by (intro jobs_ok_upd)
  moreover have "stat_has (jb_stat ((js_tab st)[i := j] ! i)) ST_INUSE" using assms(3) False by (simp add: j_def)
  moreover obtain b where "update_job E i (st\<lparr>js_tab := (js_tab st)[i := j]\<rparr>) = Some (b, st')"
    using assms(1) False by (auto simp: lose_process_def j_def [symmetric])
  ultimately show ?thesis using update_job_ok [of E i "st\<lparr>js_tab := (js_tab st)[i := j]\<rparr>"] False by simp
qed

subsection \<open>Subshells\<close>

lemma leave_ok: "jobs_ok st \<Longrightarrow> jobs_ok old \<Longrightarrow> jobs_ok (leave_substitution old st)"
  "jobs_ok st \<Longrightarrow> jobs_ok old \<Longrightarrow> jobs_ok (leave_parens old st)"
  by (simp_all add: leave_substitution_def leave_parens_def jobs_ok_def)

end
