(* ===== verification/JobSteps.thy ===== *)
theory JobSteps
  imports JobExec
begin

text \<open>
  What happens to the job table while the shell runs, as a step relation over the operations of
  \<open>src/src/ported/jobs.rs\<close> and what the executor writes itself, with the in-process subshells the shell is
  in (\<open>src/src/fusevm_bridge.rs\<close>, \<open>src/src/vm_helper.rs\<close>), and the proof that every step keeps the
  invariant.
\<close>


text \<open>Where a search may end.\<close>

definition proc_list :: "job \<Rightarrow> bool \<Rightarrow> process list" where
  "proc_list j aux = (if aux then jb_auxprocs j else jb_procs j)"

definition at_place :: "job list \<Rightarrow> int \<Rightarrow> place \<Rightarrow> bool" where
  "at_place tab pid at \<longleftrightarrow> (case at of (ji, pi, aux) \<Rightarrow>
     0 < ji \<and> ji < length tab \<and> \<not> stat_has (jb_stat (tab ! ji)) ST_DONE \<and>
     pi < length (proc_list (tab ! ji) aux) \<and> pr_pid (proc_list (tab ! ji) aux ! pi) = pid)"

lemma find_in_procs_place:
  assumes "\<And>k. k < length ps \<Longrightarrow> pr_pid (ps ! k) = pid \<Longrightarrow> P (ji, pi + k, aux)"
  shows "(find_in_procs ps ji pi pid aux seen = Hit at \<longrightarrow> P at) \<and>
    (find_in_procs ps ji pi pid aux seen = Seen l \<longrightarrow> (\<forall>p. seen = Some p \<longrightarrow> P p) \<longrightarrow> (\<forall>p. l = Some p \<longrightarrow> P p))"
  using assms
proof (induction ps arbitrary: pi seen)
  case (Cons p ps)
  have rest: "P (ji, Suc pi + k, aux)" if "k < length ps" "pr_pid (ps ! k) = pid" for k
    using Cons.prems [of "Suc k"] that by simp
  have here: "pr_pid p = pid \<Longrightarrow> P (ji, pi, aux)" using Cons.prems [of 0] by simp
  note IH = Cons.IH [of "Suc pi", OF rest]
  show ?case
  proof (cases "pr_pid p = pid")
    case True
    then show ?thesis using IH [of "Some (ji, pi, aux)"] here
      by (cases "pr_status p = SP_RUNNING") auto
  next
    case False
    then show ?thesis using IH [of seen] by simp
  qed
qed simp

lemma find_in_jobs_place:
  assumes "find_in_jobs js ji pid aux seen = Some at" "\<And>p. seen = Some p \<Longrightarrow> P p"
    and "\<And>k i. k < length js \<Longrightarrow> \<not> stat_has (jb_stat (js ! k)) ST_DONE \<Longrightarrow> i < length (proc_list (js ! k) aux) \<Longrightarrow>
      pr_pid (proc_list (js ! k) aux ! i) = pid \<Longrightarrow> P (ji + k, i, aux)"
  shows "P at"
  using assms
proof (induction js arbitrary: ji seen)
  case (Cons j js)
  have rest: "P (Suc ji + k, i, aux)" if "k < length js" "\<not> stat_has (jb_stat (js ! k)) ST_DONE"
    "i < length (proc_list (js ! k) aux)" "pr_pid (proc_list (js ! k) aux ! i) = pid" for k i
    using Cons.prems(3) [of "Suc k" i] that by simp
  have IH: "P at" if "find_in_jobs js (Suc ji) pid aux sn = Some at" "\<And>p. sn = Some p \<Longrightarrow> P p" for sn
    by (rule Cons.IH [OF that rest])
  show ?case
  proof (cases "stat_has (jb_stat j) ST_DONE")
    case True
    then have "find_in_jobs js (Suc ji) pid aux seen = Some at" using Cons.prems(1) by simp
    then show ?thesis using IH Cons.prems(2) by blast
  next
    case False
    have here: "P (ji, 0 + i, aux)" if "i < length (proc_list j aux)" "pr_pid (proc_list j aux ! i) = pid" for i
      using Cons.prems(3) [of 0 i] that False by simp
    note found = find_in_procs_place [of "proc_list j aux" pid P ji 0 aux seen, OF here]
    show ?thesis
    proof (cases "find_in_procs (proc_list j aux) ji 0 pid aux seen")
      case (Hit p)
      then show ?thesis using found Cons.prems(1) False by (simp add: proc_list_def)
    next
      case (Seen l)
      then have "find_in_jobs js (Suc ji) pid aux l = Some at" using Cons.prems(1) False by (simp add: proc_list_def)
      moreover have "P p" if "l = Some p" for p using found Seen Cons.prems(2) that by blast
      ultimately show ?thesis using IH by blast
    qed
  qed
qed simp

lemma findproc_place:
  assumes "findproc tab pid aux = Some at"
  shows "at_place tab pid at"
  using assms unfolding findproc_def
  by (rule find_in_jobs_place) (auto simp: at_place_def)

lemma find_any_place: "find_any tab pid = Some at \<Longrightarrow> at_place tab pid at"
  by (auto simp: find_any_def split: option.splits dest: findproc_place)

lemma status_set: "(\<forall>p \<in> set ps. status_ok (pr_status p)) \<Longrightarrow> status_ok s \<Longrightarrow>
    (\<forall>p \<in> set (ps[i := (ps ! i)\<lparr>pr_status := s\<rparr>]). status_ok (pr_status p))"
  by (auto dest!: set_update_subset_insert [THEN subsetD])

lemma put_status_ok:
  assumes "tab_ok m tab" "find_any tab pid = Some at" "status_ok s"
  shows "tab_ok m (put_status at s tab) \<and> length (put_status at s tab) = length tab \<and> fst at < length tab \<and>
    stat_has (jb_stat (tab ! fst at)) ST_INUSE \<and> stat_has (jb_stat (put_status at s tab ! fst at)) ST_INUSE"
proof -
  obtain ji pi aux where at: "at = (ji, pi, aux)" by (rule prod_cases3)
  note place = find_any_place [OF assms(2), unfolded at at_place_def prod.case]
  have ok: "place_ok m ji (tab ! ji)" using assms(1) place tab_ok_nth by blast
  have "proc_list (tab ! ji) aux \<noteq> []" using place by auto
  then have "tab ! ji \<noteq> new_job" by (cases aux) (auto simp: proc_list_def)
  then have use: "stat_has (jb_stat (tab ! ji)) ST_INUSE" using place_in_use [OF ok] by blast
  define j where "j = (if aux then (tab ! ji)\<lparr>jb_auxprocs := (jb_auxprocs (tab ! ji))[pi := (jb_auxprocs (tab ! ji) ! pi)\<lparr>pr_status := s\<rparr>]\<rparr>
      else (tab ! ji)\<lparr>jb_procs := (jb_procs (tab ! ji))[pi := (jb_procs (tab ! ji) ! pi)\<lparr>pr_status := s\<rparr>]\<rparr>)"
  have put: "put_status at s tab = tab[ji := j]" by (simp add: put_status_def at j_def Let_def)
  have stat: "jb_stat j = jb_stat (tab ! ji)" by (simp add: j_def)
  have old: "\<forall>p \<in> set (jb_procs (tab ! ji)) \<union> set (jb_auxprocs (tab ! ji)). status_ok (pr_status p)"
    using ok use by (auto simp: place_ok_def slot_ok_def)
  then have "\<forall>p \<in> set (jb_procs j) \<union> set (jb_auxprocs j). status_ok (pr_status p)"
    using status_set [OF _ assms(3)] unfolding j_def by (auto split: if_splits)
  then have "place_ok m ji j"
    using ok use place stat by (simp add: place_ok_def slot_ok_def)
  then show ?thesis using assms(1) use place stat unfolding put by (simp add: at tab_ok_upd)
qed

lemma update_bg_ok:
  assumes "update_bg_job E pid s st = Some (b, st')" "jobs_ok st" "wait_status s"
  shows "jobs_ok st' \<and> length (js_tab st') = length (js_tab st)"
proof (cases "find_any (js_tab st) pid")
  case None
  then show ?thesis using assms by (simp add: update_bg_job_def)
next
  case (Some at)
  define st0 where "st0 = st\<lparr>js_tab := put_status at s (js_tab st)\<rparr>"
  define st1 where "st1 = remember_bg E (fst at) pid s st0"
  note put = put_status_ok [of "js_maxjob st" "js_tab st" pid at s]
  have "status_ok s" using assms(3) by (simp add: status_ok_def)
  then have put: "jobs_ok st0" "length (js_tab st0) = length (js_tab st)"
    "stat_has (jb_stat (js_tab st0 ! fst at)) ST_INUSE"
    using put Some assms(2) by (auto simp: jobs_ok_def st0_def)
  have ok1: "jobs_ok st1" "js_tab st1 = js_tab st0"
    using put(1) same_table_ok [OF same_table_simps(7)] by (auto simp: st1_def)
  obtain b' st2 where u: "update_job E (fst at) st1 = Some (b', st2)"
      "st' = (if int (fst at) \<noteq> js_thisjob st then st2\<lparr>js_chld_pending := js_chld_pending st2 + 1\<rparr> else st2)"
    using assms(1) unfolding update_bg_job_def Some option.case Let_def st0_def [symmetric] st1_def [symmetric] by auto
  have "jobs_ok st2 \<and> length (js_tab st2) = length (js_tab st1)"
    using update_job_ok [OF u(1) ok1(1)] put(3) ok1(2) by simp
  then show ?thesis using u(2) ok1(2) put(2) by (auto simp: jobs_ok_def)
qed

subsection \<open>Filling and continuing slots\<close>

lemma addproc_ok:
  "place_ok m i j \<Longrightarrow> stat_has (jb_stat j) ST_INUSE \<Longrightarrow> place_ok m i (addproc j pid t aux gl)"
  by (auto simp: place_ok_def slot_ok_def addproc_def Let_def new_process_def clear_simps
      stat_has_clear_other [of ST_DONE ST_INUSE])

lemma mark_running_ok: "place_ok m i j \<Longrightarrow> place_ok m i (mark_running j)"
proof (cases "j = new_job")
  case True
  then have "mark_running j = new_job" by (simp add: mark_running_def new_job_def)
  then show ?thesis by simp
next
  case False
  assume ok: "place_ok m i j"
  have "continue_process p = p" if "finished (pr_status p)" for p
    using finished_not_stopped(1) [OF that] by (simp add: continue_process_def pr_is_stopped_def wifstopped_def)
  then show ?thesis using ok place_in_use [OF ok False]
    by (auto simp: place_ok_def slot_ok_def mark_running_def clear_simps continue_process_def split: if_splits)
qed

lemma if2: "(if a then Some x else if b then w else Some y) = Some r \<Longrightarrow> r = x \<or> w = Some r \<or> r = y"
  by (auto split: if_splits)

lemma makerunning_ok: "makerunning_n n tab i = Some tab' \<Longrightarrow> tab_ok m tab \<Longrightarrow> tab_ok m tab' \<and> length tab' = length tab"
proof (induction n arbitrary: tab i)
  case (Suc n)
  define tab1 where "tab1 = tab[i := mark_running (tab ! i)]"
  have ok1: "tab_ok m tab1" "length tab1 = length tab"
    unfolding tab1_def using Suc.prems(2) by (auto intro: tab_ok_upd_len mark_running_ok tab_ok_nth)
  from if2 [OF Suc.prems(1) [unfolded makerunning_n.simps Let_def, folded tab1_def]]
  consider "tab' = tab" | "tab' = tab1" | "makerunning_n n tab1 (as_usize (jb_other (tab ! i))) = Some tab'"
    by blast
  then show ?case
  proof cases
    case 3
    then show ?thesis using Suc.IH ok1 by metis
  qed (use ok1 Suc.prems in auto)
qed simp

lemma clear_loop_ok:
  "clear_loop E save is tab om = Some (tab', om') \<Longrightarrow> tab_ok m tab \<Longrightarrow> tab_ok m tab' \<and> length tab' = length tab"
proof (induction "is" arbitrary: tab om)
  case (Cons i "is")
  show ?case
  proof (cases "jb_stat (tab ! i) \<noteq> 0 \<and> \<not> save \<and> stat_has (jb_stat (tab ! i)) ST_INUSE")
    case True
    then obtain tab1 ev where f: "freejob (je_mypgrp E) tab i False = Some (tab1, ev)"
      using Cons.prems(1) by (auto split: option.splits)
    then have "clear_loop E save is tab1 om = Some (tab', om')" using Cons.prems(1) True by simp
    then show ?thesis using Cons.IH freejob_ok [OF f Cons.prems(2)] by auto
  next
    case False
    then have "clear_loop E save is tab (if jb_stat (tab ! i) \<noteq> 0 \<and> save then i + 1 else om) = Some (tab', om')"
      using Cons.prems(1) by (auto split: if_splits)
    then show ?thesis using Cons.IH Cons.prems(2) by blast
  qed
qed simp

lemma clearjobtab_ok: "clearjobtab E mon st = Some st' \<Longrightarrow> jobs_ok st \<Longrightarrow> jobs_ok st'"
  using initjob_ok [OF tab_ok_single, of 0]
  by (auto simp: clearjobtab_def Let_def jobs_ok_def save_oldtab_def split: option.splits prod.splits if_splits)

lemma spawn_keep_ok: "jobs_ok st \<Longrightarrow> hasprocs (js_tab st) n \<Longrightarrow> jobs_ok (spawn_keep n st)"
proof -
  assume ok: "jobs_ok st" and n: "hasprocs (js_tab st) n"
  then have use: "n < length (js_tab st)" "stat_has (jb_stat (js_tab st ! n)) ST_INUSE"
    using procs_in_use by (auto simp: hasprocs_def)
  have "place_ok (js_maxjob st) n ((js_tab st ! n)\<lparr>jb_stat := set_flag (jb_stat (js_tab st ! n)) ST_LOCKED, jb_filelist := f\<rparr>)" for f
    by (rule place_ok_fields [OF place_ok_stat [OF jobs_ok_nth [OF ok use(1)] use(2)]]) (use use in auto)
  then have "jobs_ok (st\<lparr>js_tab := (js_tab st)[n := (js_tab st ! n)\<lparr>jb_stat := set_flag (jb_stat (js_tab st ! n)) ST_LOCKED, jb_filelist := f\<rparr>]\<rparr>)" for f
    using ok by (intro jobs_ok_upd)
  then show ?thesis
    unfolding spawn_keep_def Let_def pipecleanfilelist_def
    using same_table_ok [OF same_table_simps(1)] by simp
qed

lemma spawnjob_ok:
  assumes "spawnjob E st = Some st'" "jobs_ok st"
  shows "jobs_ok st'"
proof (cases "js_thisjob st < 0")
  case False
  define n where "n = nat (js_thisjob st)"
  define st2 where "st2 = spawn_report E n (if \<not> je_in_subsh E \<or> \<not> je_emulating_592 E then spawn_current st else st)"
  have ok2: "jobs_ok st2"
    using assms(2) same_table_ok [OF same_table_simps(15)] same_table_ok [OF same_table_simps(16)] by (simp add: st2_def)
  obtain st3 where st3: "(if hasprocs (js_tab st2) n then Some (spawn_keep n st2)
      else if n < length (js_tab st2) then delete_slot E n False st2 else Some st2) = Some st3"
      "st' = st3\<lparr>js_thisjob := - 1\<rparr>"
    using assms(1) False unfolding spawnjob_def Let_def n_def [symmetric] st2_def [symmetric] by auto
  have "jobs_ok st3"
    using st3(1) ok2 spawn_keep_ok delete_slot_ok by (auto split: if_splits)
  then show ?thesis using st3(2) by (simp add: jobs_ok_def)
qed (use assms in \<open>simp add: spawnjob_def\<close>)

lemma setjobpwd_ok: "jobs_ok st \<Longrightarrow> jobs_ok (st\<lparr>js_tab := setjobpwd pwd (js_tab st)\<rparr>)"
proof -
  assume ok: "jobs_ok st"
  define f :: "job \<Rightarrow> job" where "f = (\<lambda>j. if jb_stat j \<noteq> 0 \<and> jb_pwd j = None then j\<lparr>jb_pwd := Some pwd\<rparr> else j)"
  have pf: "place_ok m i j \<Longrightarrow> place_ok m i (f j)" for m i j
    by (cases "j = new_job") (auto simp: f_def place_ok_def slot_ok_def split: if_splits)
  have len: "length (setjobpwd pwd (js_tab st)) = length (js_tab st)" by (cases "js_tab st") (simp_all add: setjobpwd_def)
  have nth: "setjobpwd pwd (js_tab st) ! i = (if i = 0 then js_tab st ! 0 else f (js_tab st ! i))" if "i < length (js_tab st)" for i
    using that by (cases "js_tab st"; cases i) (simp_all add: setjobpwd_def f_def)
  show ?thesis using ok pf len nth unfolding jobs_ok_def tab_ok_def
    by (auto simp flip: length_greater_0_conv)
qed

subsection \<open>Steps\<close>

text \<open>The flags that the executor and the job commands set on a job in use, beside those of the operations below.\<close>

definition executor_flags :: "i32 list" where
  "executor_flags = [ST_TIMED, ST_NOSTTY, ST_NOPRINT, ST_LOCKED, ST_DISOWN]"

text \<open>\<open>bg\<close> on a job.\<close>

definition resume_bg :: "nat \<Rightarrow> jshell \<Rightarrow> jshell" where
  "resume_bg i st = set_stat i (\<lambda>s. clear_flag (set_flag s ST_NOSTTY) ST_CURSH) st"

definition used_slot :: "jshell \<Rightarrow> nat \<Rightarrow> bool" where
  "used_slot st i \<longleftrightarrow> i < length (js_tab st) \<and> stat_has (jb_stat (js_tab st ! i)) ST_INUSE"

definition idle_job :: "job \<Rightarrow> bool" where
  "idle_job j \<longleftrightarrow> list_all (\<lambda>p. finished (pr_status p)) (jb_procs j) \<and> list_all idle (jb_auxprocs j)"

text \<open>What happens to the table of one shell: a slot is taken, processes and files are added to a job in use, the
  kernel reports a status, jobs are reported, continued, deleted and put into the background, the shell changes
  its directory, the current job is chosen, the table is cleared in a forked subshell; the executor marks
  the job it runs, opens and releases the slots of pipelines, makes superjobs and gives an unused slot
  back; the table is made larger or smaller; and everything else the shell does leaves the table alone.  The executor
  writes to slots that are in use, and a command of redirections marks a job done whose processes have ended.\<close>

inductive job_step :: "jshell \<Rightarrow> jshell \<Rightarrow> bool" where
  take_slot: "initjob (js_tab st) (js_maxjob st) = (i, tab, m) \<Longrightarrow>
     job_step st (st\<lparr>js_tab := tab, js_maxjob := m, js_thisjob := int i\<rparr>)"
| add_proc: "i < length (js_tab st) \<Longrightarrow> stat_has (jb_stat (js_tab st ! i)) ST_INUSE \<Longrightarrow>
     job_step st (st\<lparr>js_tab := (js_tab st)[i := addproc (js_tab st ! i) pid txt' aux gl]\<rparr>)"
| add_file: "i < length (js_tab st) \<Longrightarrow> stat_has (jb_stat (js_tab st ! i)) ST_INUSE \<Longrightarrow>
     job_step st (st\<lparr>js_tab := (js_tab st)[i := addfilelist (js_tab st ! i) name fd]\<rparr>)"
| reaped: "wait_status s \<Longrightarrow> update_bg_job E pid s st = Some (b, st') \<Longrightarrow> job_step st st'"
| lost: "used_slot st i \<Longrightarrow> lose_process E i pid st = Some st' \<Longrightarrow> job_step st st'"
| reported: "scanjobs E st = Some st' \<Longrightarrow> job_step st st'"
| shown: "printjob_synch E i lng synch st = Some (b, st') \<Longrightarrow> job_step st st'"
| continued: "makerunning (js_tab st) i = Some tab \<Longrightarrow> job_step st (st\<lparr>js_tab := tab\<rparr>)"
| deleted: "delete_slot E i d st = Some st' \<Longrightarrow> job_step st st'"
| spawned: "spawnjob E st = Some st' \<Longrightarrow> job_step st st'"
| moved: "job_step st (st\<lparr>js_tab := setjobpwd pwd (js_tab st)\<rparr>)"
| chosen: "job_step st (setcurjob st)"
| subshell: "clearjobtab E mon st = Some st' \<Longrightarrow> job_step st st'"
| run_here: "used_slot st (nat (js_thisjob st)) \<Longrightarrow> job_step st (mark_thisjob_cursh b st)"
| null_command: "used_slot st (nat (js_thisjob st)) \<Longrightarrow> idle_job (js_tab st ! nat (js_thisjob st)) \<Longrightarrow>
     job_step st (null_command_done st)"
| flagged: "used_slot st i \<Longrightarrow> f \<in> set executor_flags \<Longrightarrow> job_step st (set_stat i (\<lambda>s. set_flag s f) st)"
| resumed: "used_slot st i \<Longrightarrow> job_step st (resume_bg i st)"
| slot_opened: "execpline_slot_open st = (held, st') \<Longrightarrow> job_step st st'"
| slots_released: "release_held_slots E held st = Some st' \<Longrightarrow> job_step st st'"
| slot_returned: "i < length (js_tab st) \<Longrightarrow> js_tab st ! i = new_job\<lparr>jb_stat := ST_INUSE\<rparr> \<Longrightarrow>
     job_step st (set_stat i (\<lambda>_. 0) st)"
| linked: "used_slot st lpj \<Longrightarrow> used_slot st jn \<Longrightarrow> job_step st (link_subjob lpj jn pid st)"
| suspended: "used_slot st jn \<Longrightarrow> suspend_pipeline E jn pid txt' b st = Some (d, st') \<Longrightarrow> job_step st st'"
| forked: "used_slot st sub \<Longrightarrow> (\<And>s. outermost = Some s \<Longrightarrow> used_slot st s) \<Longrightarrow>
     superjob_fork E sub pid outermost st = Some st' \<Longrightarrow> job_step st st'"
| grown: "job_step st (st\<lparr>js_tab := snd (expandjobtab (js_tab st))\<rparr>)"
| shrunk: "job_step st (st\<lparr>js_tab := maybeshrinkjobtab (js_tab st)\<rparr>)"
| elsewhere: "js_tab st' = js_tab st \<Longrightarrow> js_maxjob st' = js_maxjob st \<Longrightarrow> js_pipestats st' = js_pipestats st \<Longrightarrow> job_step st st'"

lemma used_place: "jobs_ok st \<Longrightarrow> used_slot st i \<Longrightarrow>
    place_ok (js_maxjob st) i (js_tab st ! i) \<and> i < length (js_tab st) \<and> stat_has (jb_stat (js_tab st ! i)) ST_INUSE"
  using jobs_ok_nth by (simp add: used_slot_def)

lemma flag_ok: "jobs_ok st \<Longrightarrow> used_slot st i \<Longrightarrow> f \<in> set executor_flags \<Longrightarrow> jobs_ok (set_stat i (\<lambda>s. set_flag s f) st)"
  using used_place [of st i] by (intro set_stat_ok) (auto simp: executor_flags_def)

lemma resume_bg_ok: "jobs_ok st \<Longrightarrow> used_slot st i \<Longrightarrow> jobs_ok (resume_bg i st)"
  using used_place [of st i] unfolding resume_bg_def by (intro set_stat_ok) (auto simp: exec_clear)

lemma return_ok:
  assumes "jobs_ok st" "js_tab st ! i = new_job\<lparr>jb_stat := ST_INUSE\<rparr>"
  shows "jobs_ok (set_stat i (\<lambda>_. 0) st)"
proof -
  have "(js_tab st ! i)\<lparr>jb_stat := 0\<rparr> = new_job" by (simp add: assms(2) new_job_def)
  then show ?thesis using assms(1) unfolding set_stat_def by (intro jobs_ok_upd) simp_all
qed

lemma expand_ok: "tab_ok m tab \<Longrightarrow> tab_ok m (snd (expandjobtab tab))"
  by (auto simp: expandjobtab_def Let_def tab_ok_def nth_append)

lemma shrunk_prefix: "\<exists>rest. tab = maybeshrinkjobtab tab @ rest"
proof
  let ?P = "\<lambda>j. \<not> stat_has (jb_stat j) ST_INUSE"
  have "rev tab = takeWhile ?P (rev tab) @ dropWhile ?P (rev tab)" by simp
  then show "tab = maybeshrinkjobtab tab @ rev (takeWhile ?P (rev tab))"
    by (metis maybeshrinkjobtab_def rev_append rev_rev_ident)
qed

lemma shrunk_ok: "tab_ok m tab \<Longrightarrow> tab_ok m (maybeshrinkjobtab tab)"
proof -
  assume ok: "tab_ok m tab"
  obtain rest where rest: "tab = maybeshrinkjobtab tab @ rest" using shrunk_prefix by blast
  have "maybeshrinkjobtab tab ! i = tab ! i \<and> i < length tab" if "i < length (maybeshrinkjobtab tab)" for i
    using that by (subst (2 3) rest) (simp add: nth_append)
  then show ?thesis using ok unfolding tab_ok_def by metis
qed

lemma job_step_ok: "job_step st st' \<Longrightarrow> jobs_ok st \<Longrightarrow> jobs_ok st'"
proof (induction rule: job_step.induct)
  case (take_slot st i tab m)
  then show ?case using initjob_ok by (auto simp: jobs_ok_def)
next
  case (add_proc i st pid t aux gl)
  then show ?case by (intro jobs_ok_upd addproc_ok jobs_ok_nth) auto
next
  case (add_file i st name fd)
  then show ?case by (intro jobs_ok_upd place_ok_fields [OF jobs_ok_nth]) (auto simp: addfilelist_def)
next
  case (reaped s E pid st b st')
  then show ?case using update_bg_ok by blast
next
  case (lost st i E pid st')
  then show ?case using lose_process_ok by (simp add: used_slot_def)
next
  case (reported E st st')
  then show ?case using scan_ok by (auto simp: scanjobs_def)
next
  case (shown E i lng synch st b st')
  then show ?case using printjob_synch_ok by blast
next
  case (continued st i tab)
  note mk = makerunning_ok [OF continued(1) [unfolded makerunning_def], of "js_maxjob st"]
  show ?case using mk continued(2) by (simp add: jobs_ok_def)
next
  case (deleted E i d st st')
  then show ?case using delete_slot_ok by blast
next
  case (spawned E st st')
  then show ?case using spawnjob_ok by blast
next
  case (moved st pwd)
  then show ?case by (rule setjobpwd_ok)
next
  case (chosen st)
  then show ?case using same_table_ok [OF same_table_simps(4)] by blast
next
  case (subshell E mon st st')
  then show ?case using clearjobtab_ok by blast
next
  case (run_here st b)
  then show ?case using mark_cursh_ok by (simp add: used_slot_def)
next
  case (null_command st)
  then show ?case using null_done_ok by (simp add: used_slot_def idle_job_def list_all_iff)
next
  case (flagged st i f)
  then show ?case using flag_ok by blast
next
  case (resumed st i)
  then show ?case using resume_bg_ok by blast
next
  case (slot_opened st held st')
  then show ?case using initjob_ok by (auto simp: execpline_slot_open_def jobs_ok_def split: prod.splits)
next
  case (slots_released E held st st')
  then show ?case using release_held_ok by blast
next
  case (slot_returned i st)
  then show ?case using return_ok by blast
next
  case (linked st lpj jn pid)
  then show ?case using link_subjob_ok by (simp add: used_slot_def)
next
  case (suspended st jn E pid t b d st')
  then show ?case using suspend_ok by (simp add: used_slot_def)
next
  case (forked st sub outermost E pid st')
  then show ?case using superjob_fork_ok [of E sub pid outermost st st'] by (simp add: used_slot_def)
next
  case (grown st)
  then show ?case using expand_ok by (simp add: jobs_ok_def)
next
  case (shrunk st)
  then show ?case using shrunk_ok by (simp add: jobs_ok_def)
next
  case (elsewhere st' st)
  then show ?case by (simp add: jobs_ok_def)
qed

text \<open>A shell with the in-process subshells it is in: \<open>( ... )\<close> and \<open>$( ... )\<close> clear the table and put back, at the end, the
  one they started with.\<close>

datatype subshell_kind = Parens | Substitution

type_synonym shells = "jshell \<times> (subshell_kind \<times> jshell) list"

definition enter_subshell :: "subshell_kind \<Rightarrow> jenv \<Rightarrow> bool \<Rightarrow> jshell \<Rightarrow> jshell option" where
  "enter_subshell k E monitor st =
    (case k of
       Parens \<Rightarrow> map_option (\<lambda>st'. st'\<lparr>js_thisjob := - 1\<rparr>) (clearjobtab E monitor st)
     | Substitution \<Rightarrow> clearjobtab E monitor st)"

definition leave_subshell :: "subshell_kind \<Rightarrow> jshell \<Rightarrow> jshell \<Rightarrow> jshell" where
  "leave_subshell k old st = (case k of Parens \<Rightarrow> leave_parens old st | Substitution \<Rightarrow> leave_substitution old st)"

inductive shell_step :: "shells \<Rightarrow> shells \<Rightarrow> bool" where
  run: "job_step st st' \<Longrightarrow> shell_step (st, outer) (st', outer)"
| enter: "enter_subshell k E monitor st = Some st' \<Longrightarrow> shell_step (st, outer) (st', (k, st) # outer)"
| leave: "shell_step (st, (k, old) # outer) (leave_subshell k old st, outer)"

definition nested_ok :: "shells \<Rightarrow> bool" where
  "nested_ok s \<longleftrightarrow> jobs_ok (fst s) \<and> (\<forall>(k, old) \<in> set (snd s). jobs_ok old)"

lemma shell_step_ok: "shell_step s t \<Longrightarrow> nested_ok s \<Longrightarrow> nested_ok t"
proof (induction rule: shell_step.induct)
  case (run st st' outer)
  then show ?case using job_step_ok by (simp add: nested_ok_def)
next
  case (enter k E monitor st st' outer)
  then show ?case using clearjobtab_ok
    by (auto simp: nested_ok_def enter_subshell_def jobs_ok_def split: subshell_kind.splits)
next
  case (leave st k old outer)
  then show ?case using leave_ok by (auto simp: nested_ok_def leave_subshell_def split: subshell_kind.split)
qed

text \<open>What every step keeps holds after any number of steps.\<close>

locale kept_by_steps =
  fixes step :: "'s \<Rightarrow> 's \<Rightarrow> bool"
    and inv :: "'s \<Rightarrow> bool"
  assumes step_keeps: "step s t \<Longrightarrow> inv s \<Longrightarrow> inv t"
begin

lemma steps_keep: "step\<^sup>*\<^sup>* s t \<Longrightarrow> inv s \<Longrightarrow> inv t"
  by (induction rule: rtranclp_induct) (auto intro: step_keeps)

lemma reached_from: "inv s \<Longrightarrow> step\<^sup>*\<^sup>* s t \<Longrightarrow> step t u \<Longrightarrow> inv u"
  using steps_keep step_keeps by blast

end

interpretation jobs: kept_by_steps job_step jobs_ok
  by unfold_locales (rule job_step_ok)

interpretation shells: kept_by_steps shell_step nested_ok
  by unfold_locales (rule shell_step_ok)

end
