(* ===== verification/JobRuns.thy ===== *)
theory JobRuns
  imports JobSteps
begin

text \<open>
  A job from its start to its end: the reports of the kernel on the processes of one job, in any order,
  through \<open>update_bg_job\<close> (\<open>src/src/ported/jobs.rs\<close>).
\<close>


section \<open>A job from its start to its end\<close>

subsection \<open>Finding the process\<close>

lemma find_in_procs_complete:
  "find_in_procs ps ji pi pid aux seen = Seen None \<Longrightarrow> seen = None \<and> (\<forall>p \<in> set ps. pr_pid p \<noteq> pid)"
  by (induction ps arbitrary: pi seen) (auto split: if_splits)

lemma find_in_jobs_complete:
  "find_in_jobs js ji pid aux seen = None \<Longrightarrow>
     seen = None \<and> (\<forall>j \<in> set js. stat_has (jb_stat j) ST_DONE \<or> (\<forall>p \<in> set (proc_list j aux). pr_pid p \<noteq> pid))"
proof (induction js arbitrary: ji seen)
  case (Cons j js)
  show ?case
  proof (cases "stat_has (jb_stat j) ST_DONE")
    case True
    then show ?thesis using Cons.IH [of "Suc ji" seen] Cons.prems by simp
  next
    case False
    then obtain l where l: "find_in_procs (proc_list j aux) ji 0 pid aux seen = Seen l"
      "find_in_jobs js (Suc ji) pid aux l = None"
      using Cons.prems by (auto simp: proc_list_def split: search.splits)
    then show ?thesis using Cons.IH [OF l(2)] find_in_procs_complete [of "proc_list j aux" ji 0 pid aux seen] by simp
  qed
qed simp

lemma findproc_complete:
  assumes "at_place tab pid (jn, k, aux)"
  shows "findproc tab pid aux \<noteq> None"
proof
  assume none: "findproc tab pid aux = None"
  obtain i where i: "jn = Suc i" "i < length (drop 1 tab)" "drop 1 tab ! i = tab ! jn"
    using assms by (cases jn) (auto simp: at_place_def)
  then have "tab ! jn \<in> set (drop 1 tab)" using nth_mem by metis
  moreover have "proc_list (tab ! jn) aux ! k \<in> set (proc_list (tab ! jn) aux)"
    using assms by (simp add: at_place_def)
  ultimately have "stat_has (jb_stat (tab ! jn)) ST_DONE \<or> pr_pid (proc_list (tab ! jn) aux ! k) \<noteq> pid"
    using find_in_jobs_complete [OF none [unfolded findproc_def]] by blast
  then show False using assms by (simp add: at_place_def)
qed

lemma find_any_unique:
  assumes "at_place tab pid (jn, k, False)" and "\<And>at. at_place tab pid at \<Longrightarrow> at = (jn, k, False)"
  shows "find_any tab pid = Some (jn, k, False)"
  using findproc_complete [OF assms(1)] findproc_place assms(2) unfolding find_any_def by (fastforce split: option.split)

subsection \<open>Reports that leave a process running\<close>

lemma settle_mixed:
  "(\<forall>p \<in> set ps. finished (pr_status p) \<or> pr_is_running p) \<Longrightarrow> settle ps = (ps, False, list_ex pr_is_running ps)"
proof (induction ps)
  case (Cons p ps)
  have "\<not> wifcontinued (pr_status p)"
    using Cons.prems by (auto simp: wifcontinued_def finished_def pr_is_running_def SP_RUNNING_def)
  moreover have "finished (pr_status p) \<Longrightarrow> \<not> pr_is_running p"
    using finished_not_stopped(2) by (auto simp: pr_is_running_def)
  ultimately show ?case using Cons by auto
qed simp

lemma remember_bg_sel [simp]:
  "js_tab (remember_bg E ji pid s st) = js_tab st" "js_thisjob (remember_bg E ji pid s st) = js_thisjob st"
  "js_lastval (remember_bg E ji pid s st) = js_lastval st" "js_lastval2 (remember_bg E ji pid s st) = js_lastval2 st"
  "js_maxjob (remember_bg E ji pid s st) = js_maxjob st" "js_curjob (remember_bg E ji pid s st) = js_curjob st"
  "js_prevjob (remember_bg E ji pid s st) = js_prevjob st" "js_pipestats (remember_bg E ji pid s st) = js_pipestats st"
  by (simp_all add: remember_bg_def addbgstatus_def Let_def)

text \<open>The processes of a job after the reports \<open>rs\<close>.\<close>

definition reported :: "(int \<times> i32) list \<Rightarrow> process list \<Rightarrow> process list" where
  "reported rs ps = map (\<lambda>p. case map_of rs (pr_pid p) of Some s \<Rightarrow> p\<lparr>pr_status := s\<rparr> | None \<Rightarrow> p) ps"

lemma reported_pids [simp]: "map pr_pid (reported rs ps) = map pr_pid ps"
  by (simp add: reported_def split: option.split)

lemma reported_length [simp]: "length (reported rs ps) = length ps"
  by (simp add: reported_def)

lemma reported_Nil [simp]: "reported [] ps = ps"
  by (simp add: reported_def)

lemma reported_snoc:
  assumes "distinct (map pr_pid ps)" "k < length ps" "pr_pid (ps ! k) = pid" "pid \<notin> fst ` set rs"
  shows "(reported rs ps)[k := (reported rs ps ! k)\<lparr>pr_status := s\<rparr>] = reported (rs @ [(pid, s)]) ps"
proof (rule nth_equalityI)
  fix i
  assume "i < length ((reported rs ps)[k := (reported rs ps ! k)\<lparr>pr_status := s\<rparr>])"
  then have i: "i < length ps" by simp
  have none: "map_of rs pid = None" using assms(4) by (simp add: map_of_eq_None_iff)
  show "(reported rs ps)[k := (reported rs ps ! k)\<lparr>pr_status := s\<rparr>] ! i = reported (rs @ [(pid, s)]) ps ! i"
  proof (cases "i = k")
    case True
    then show ?thesis using i none assms(2,3) by (simp add: reported_def map_add_def)
  next
    case False
    then have "pr_pid (ps ! i) \<noteq> pid"
      using assms(1-3) i by (metis length_map nth_eq_iff_index_eq nth_map)
    then show ?thesis using i False by (simp add: reported_def map_add_def split: option.split)
  qed
qed simp

fun reap :: "jenv \<Rightarrow> (int \<times> i32) list \<Rightarrow> jshell \<Rightarrow> jshell option" where
  "reap E [] st = Some st"
| "reap E ((pid, s) # rs) st = (case update_bg_job E pid s st of None \<Rightarrow> None | Some (_, st1) \<Rightarrow> reap E rs st1)"

lemma reap_snoc:
  "reap E (rs @ [(pid, s)]) st =
    (case reap E rs st of None \<Rightarrow> None | Some st1 \<Rightarrow> map_option snd (update_bg_job E pid s st1))"
  by (induction rs arbitrary: st) (auto split: option.split)

text \<open>A job of its own, with processes that all run and whose numbers are nowhere else in the table.\<close>

definition started_job :: "jshell \<Rightarrow> nat \<Rightarrow> bool" where
  "started_job st jn \<longleftrightarrow>
     (let j = js_tab st ! jn in
      0 < jn \<and> jn < length (js_tab st) \<and> jb_procs j \<noteq> [] \<and> jb_auxprocs j = [] \<and>
      \<not> stat_has (jb_stat j) ST_DONE \<and> \<not> stat_has (jb_stat j) ST_SUPERJOB \<and> \<not> stat_has (jb_stat j) ST_SUBJOB \<and>
      \<not> stat_has (jb_stat j) ST_WASSUPER \<and> \<not> stat_has (jb_stat j) ST_CURSH \<and>
      list_all pr_is_running (jb_procs j) \<and> distinct (map pr_pid (jb_procs j)) \<and>
      (\<forall>i < length (js_tab st). i \<noteq> jn \<longrightarrow> \<not> stat_has (jb_stat (js_tab st ! i)) ST_DONE \<longrightarrow>
         (\<forall>p \<in> set (jb_procs (js_tab st ! i)) \<union> set (jb_auxprocs (js_tab st ! i)). pr_pid p \<notin> pr_pid ` set (jb_procs j))))"

definition with_reports :: "(int \<times> i32) list \<Rightarrow> nat \<Rightarrow> job list \<Rightarrow> job list" where
  "with_reports rs jn tab = tab[jn := (tab ! jn)\<lparr>jb_procs := reported rs (jb_procs (tab ! jn))\<rparr>]"

lemma find_started:
  assumes "started_job st jn" "k < length (jb_procs (js_tab st ! jn))" "pr_pid (jb_procs (js_tab st ! jn) ! k) = pid"
    and tab: "tab = with_reports rs jn (js_tab st)"
  shows "find_any tab pid = Some (jn, k, False)"
proof (rule find_any_unique)
  define j where "j = js_tab st ! jn"
  have jn: "0 < jn" "jn < length tab" "tab ! jn = j\<lparr>jb_procs := reported rs (jb_procs j)\<rparr>"
    using assms(1) by (auto simp: started_job_def Let_def tab with_reports_def j_def)
  have pid_at: "pr_pid (reported rs (jb_procs j) ! i) = pr_pid (jb_procs j ! i)" if "i < length (jb_procs j)" for i
    using that by (simp add: reported_def split: option.split)
  show "at_place tab pid (jn, k, False)"
    using assms(1-3) jn pid_at [of k] by (simp add: at_place_def proc_list_def started_job_def Let_def j_def)
  show "at = (jn, k, False)" if at: "at_place tab pid at" for at
  proof -
    obtain i n aux where a: "at = (i, n, aux)" by (rule prod_cases3)
    have "i = jn"
    proof (rule ccontr)
      assume ne: "i \<noteq> jn"
      then have "tab ! i = js_tab st ! i" "i < length (js_tab st)"
        using at a by (auto simp: tab with_reports_def at_place_def)
      moreover have "proc_list (tab ! i) aux ! n \<in> set (jb_procs (tab ! i)) \<union> set (jb_auxprocs (tab ! i))"
        using at a by (auto simp: at_place_def proc_list_def split: if_splits)
      moreover have "pid \<in> pr_pid ` set (jb_procs (js_tab st ! jn))" using assms(2,3) by force
      ultimately show False using assms(1) at a ne
        by (auto simp: started_job_def Let_def at_place_def)
    qed
    moreover have "\<not> aux" using at a calculation jn assms(1)
      by (auto simp: at_place_def proc_list_def started_job_def Let_def j_def)
    moreover have "n = k"
      using at a calculation jn assms(1-3) pid_at
      by (auto simp: at_place_def proc_list_def started_job_def Let_def j_def distinct_conv_nth)
    ultimately show ?thesis by (simp add: a)
  qed
qed

lemma report_finished: "map_of rs k = Some s \<Longrightarrow> (\<forall>r \<in> set rs. finished (snd r)) \<Longrightarrow> finished s"
  by (drule map_of_SomeD) (drule bspec, assumption, simp)

lemma all_reported:
  "(\<forall>r \<in> set rs. finished (snd r)) \<Longrightarrow> list_all pr_is_running ps \<Longrightarrow>
     \<forall>p \<in> set (reported rs ps). finished (pr_status p) \<or> pr_is_running p"
  using report_finished [of rs] by (auto simp: reported_def list_all_iff split: option.split)

lemma still_running:
  assumes "list_all pr_is_running ps" "(\<forall>r \<in> set rs. finished (snd r))"
  shows "list_ex pr_is_running (reported rs ps) \<longleftrightarrow> \<not> pr_pid ` set ps \<subseteq> fst ` set rs"
proof -
  have fin: "finished s \<Longrightarrow> s \<noteq> SP_RUNNING" for s using finished_not_stopped(2) by blast
  have "pr_is_running (case map_of rs (pr_pid p) of Some s \<Rightarrow> p\<lparr>pr_status := s\<rparr> | None \<Rightarrow> p) \<longleftrightarrow> pr_pid p \<notin> fst ` set rs"
    if "p \<in> set ps" for p
  proof (cases "map_of rs (pr_pid p)")
    case None
    then have "pr_pid p \<notin> fst ` set rs" by (simp add: map_of_eq_None_iff)
    then show ?thesis using that assms(1) None by (simp add: list_all_iff)
  next
    case (Some s)
    then have "pr_pid p \<in> fst ` set rs" by (metis map_of_eq_None_iff option.distinct(1))
    then show ?thesis using fin [OF report_finished [OF Some assms(2)]] Some by (simp add: pr_is_running_def)
  qed
  then show ?thesis by (auto simp: reported_def list_ex_iff)
qed


subsection \<open>The remembered value\<close>

lemma lastval2_simps [simp]:
  "js_lastval2 (emit ev st) = js_lastval2 st" "js_lastval2 (setprevjob st) = js_lastval2 st"
  "js_lastval2 (swap_current jn st) = js_lastval2 st" "js_lastval2 (storepipestats E j b c st) = js_lastval2 st"
  "js_lastval2 (remember_tty E jn b st) = js_lastval2 st" "js_lastval2 (remember_value jn v st) = v"
  "js_lastval2 (set_stat i f st) = js_lastval2 st" "js_lastval2 (mark_changed jn b st) = js_lastval2 st"
  "js_lastval2 (break_loops st) = js_lastval2 st" "js_lastval2 (take_terminal E st) = js_lastval2 st"
  "js_lastval2 (check_cursh_sig sig st) = js_lastval2 st" "js_lastval2 (pseudo_signal E fg s st) = js_lastval2 st"
  "js_lastval2 (settle_terminal E jn fg v sg ss st) = js_lastval2 st"
  "js_lastval2 (snd (report_lines E jn ji lng synch b nl st)) = js_lastval2 st"
  by (simp_all add: emit_def setprevjob_def swap_current_def storepipestats_def publish_stats_def pipe_lastval_def
      remember_tty_def remember_value_def set_stat_def mark_changed_def break_loops_def take_terminal_def
      check_cursh_sig_def pseudo_signal_def settle_terminal_def report_lines_def Let_def split: option.split)

lemma thisjob_simps [simp]:
  "js_thisjob (emit ev st) = js_thisjob st" "js_thisjob (storepipestats E j b c st) = js_thisjob st"
  "js_thisjob (remember_tty E jn b st) = js_thisjob st" "js_thisjob (remember_value jn v st) = js_thisjob st"
  "js_thisjob (set_stat i f st) = js_thisjob st" "js_thisjob (mark_changed jn b st) = js_thisjob st"
  "js_thisjob (settle_terminal E jn fg v sg ss st) = js_thisjob st"
  by (simp_all add: emit_def storepipestats_def publish_stats_def pipe_lastval_def
      remember_tty_def remember_value_def set_stat_def mark_changed_def break_loops_def take_terminal_def
      settle_terminal_def Let_def split: option.split)

lemma report_pwd_sel: "js_lastval2 (snd (report_pwd E jn lng b r)) = js_lastval2 (snd r)"
  by (simp add: report_pwd_def split: option.split)

lemma delete_slot_lastval2: "delete_slot E jn d st = Some st' \<Longrightarrow> js_lastval2 st' = js_lastval2 st"
  by (auto simp: delete_slot_def split: option.splits)

subsection \<open>Reporting a job that is done\<close>

lemma print_plain:
  assumes "\<not> stat_has (jb_stat (js_tab st ! jn)) ST_SUPERJOB"
  shows "\<exists>b skip st1. printjob_print E jn lng synch st = ((b, jn, skip), st1) \<and> js_tab st1 = js_tab st \<and>
    js_lastval2 st1 = js_lastval2 st"
proof -
  have k: "shown_job (js_tab st) jn = jn" using assms by (simp add: shown_job_def Let_def)
  have r: "revive_last (js_tab st ! jn) = js_tab st ! jn" using assms by (auto simp: revive_last_def)
  have st: "st\<lparr>js_tab := (js_tab st)[jn := js_tab st ! jn]\<rparr> = st" by simp
  obtain sf nl skip where f: "report_flags E (int jn = js_thisjob st) (stat_has (jb_stat (js_tab st ! jn)) ST_NOPRINT)
      (jb_procs (js_tab st ! jn)) = (sf, nl, skip)" by (rule prod_cases3)
  have tabs: "js_tab (snd (report_lines E jn jn lng synch b nl st)) = js_tab st" for b
    using same_report_lines by (simp add: same_table_def)
  have pwd: "\<exists>b st2. report_pwd E jn lng c r = (b, st2) \<and> js_tab st2 = js_tab (snd r) \<and> js_lastval2 st2 = js_lastval2 (snd r)" for c r
    using same_report_pwd [of r E jn lng c] report_pwd_sel [of E jn lng c r]
    by (metis prod.collapse same_table_tab)
  show ?thesis
  proof (cases skip)
    case True
    then show ?thesis unfolding printjob_print_def Let_def k r st f by auto
  next
    case False
    define R where "R = (if synch = 2 \<or> ((je_isset E INTERACTIVE \<or> synch \<noteq> 0) \<and> je_isset E MONITOR \<and>
        (stat_has (jb_stat (js_tab st ! jn)) ST_STOPPED \<or> sf \<or> \<not> int jn = js_thisjob st))
      then report_lines E jn jn lng synch (int jn = js_thisjob st) nl st
      else if nl \<and> je_isset E INTERACTIVE \<and> synch = 0 then (True, emit [ShoutWrite [CHR 0x0A]] st) else (False, st))"
    have "js_tab (snd R) = js_tab st \<and> js_lastval2 (snd R) = js_lastval2 st"
      using tabs by (simp add: R_def)
    moreover obtain b st2 where b: "report_pwd E jn lng (int jn = js_thisjob st) R = (b, st2)" "js_tab st2 = js_tab (snd R)"
        "js_lastval2 st2 = js_lastval2 (snd R)" using pwd by blast
    moreover have "printjob_print E jn lng synch st = ((b, jn, False), st2)"
      using False b(1) unfolding printjob_print_def Let_def k r st f R_def by simp
    ultimately show ?thesis by auto
  qed
qed

lemma synch_done:
  assumes "jn < length (js_tab st)" "stat_has (jb_stat (js_tab st ! jn)) ST_DONE"
    "\<not> stat_has (jb_stat (js_tab st ! jn)) ST_SUPERJOB" "\<not> stat_has (jb_stat (js_tab st ! jn)) ST_WASSUPER"
  shows "\<exists>b st1. printjob_synch E jn lng synch st = Some (b, st1) \<and> length (js_tab st1) = length (js_tab st) \<and>
    js_tab st1 ! jn = new_job \<and> js_lastval2 st1 = js_lastval2 st"
proof -
  obtain b skip st1 where p: "printjob_print E jn lng synch st = ((b, jn, skip), st1)" "js_tab st1 = js_tab st"
      "js_lastval2 st1 = js_lastval2 st"
    using print_plain [OF assms(3)] by blast
  define st2 where "st2 = (if synch \<le> 1
    then storepipestats E (js_tab st1 ! jn) (int jn = js_thisjob st1) (int jn = js_thisjob st1) st1 else st1)"
  have st2: "js_tab st2 = js_tab st" "js_lastval2 st2 = js_lastval2 st" using p by (simp_all add: st2_def)
  have "is_chain (js_tab st) [jn]" using assms(4) by (simp add: job_partner_def Let_def)
  then obtain tab ev where d: "deletejob (je_mypgrp E) (js_tab st) jn False = Some (tab, ev)" "freed [jn] (js_tab st) tab"
    using deletejob_chain [of "js_tab st" "[jn]" jn "je_mypgrp E" False] assms(1) by auto
  have "delete_slot E jn False st2 = Some (emit ev (st2\<lparr>js_tab := tab\<rparr>))"
    using d(1) st2(1) by (simp add: delete_slot_def)
  then have "printjob_synch E jn lng synch st = Some (b, swap_current jn (emit ev (st2\<lparr>js_tab := tab\<rparr>)))"
    using assms(1,2) p by (simp add: printjob_synch_def printjob_delete_tail_def Let_def st2_def [symmetric])
  moreover have "js_tab (emit ev s) = js_tab s" for s by simp
  ultimately show ?thesis using d(2) assms(1) st2 by (auto simp: freed_def)
qed

subsection \<open>The last report\<close>

text \<open>Whether \<open>update_job\<close> reports the job, and removes it with that, as soon as it is done.\<close>

definition reports_at_once :: "jenv \<Rightarrow> jshell \<Rightarrow> nat \<Rightarrow> bool" where
  "reports_at_once E st jn \<longleftrightarrow>
     (je_isset E NOTIFY \<or> int jn = js_thisjob st) \<and> stat_has (jb_stat (js_tab st ! jn)) ST_LOCKED"

lemma more_flags [simp]:
  "\<not> stat_has ST_CHANGED ST_LOCKED" "\<not> stat_has ST_DONE ST_LOCKED" "\<not> stat_has ST_ATTACH ST_LOCKED"
  "\<not> stat_has ST_CHANGED ST_SUPERJOB" "\<not> stat_has ST_DONE ST_SUPERJOB" "\<not> stat_has ST_ATTACH ST_SUPERJOB"
  "\<not> stat_has ST_CHANGED ST_SUBJOB" "\<not> stat_has ST_DONE ST_SUBJOB" "\<not> stat_has ST_ATTACH ST_SUBJOB"
  "\<not> stat_has ST_CHANGED ST_WASSUPER" "\<not> stat_has ST_DONE ST_WASSUPER" "\<not> stat_has ST_ATTACH ST_WASSUPER"
  by (simp_all add: stat_has_def stat_flags)

lemma finish_done:
  assumes "jn < length (js_tab st)" "\<not> stat_has (jb_stat (js_tab st ! jn)) ST_SUBJOB"
    "\<not> stat_has (jb_stat (js_tab st ! jn)) ST_SUPERJOB" "\<not> stat_has (jb_stat (js_tab st ! jn)) ST_WASSUPER"
  shows "\<exists>st1. finish_update E jn fg s False st = Some st1 \<and> length (js_tab st1) = length (js_tab st) \<and>
    js_lastval2 st1 = js_lastval2 st \<and>
    (if reports_at_once E st jn then js_tab st1 ! jn = new_job
     else stat_has (jb_stat (js_tab st1 ! jn)) ST_DONE \<and> jb_procs (js_tab st1 ! jn) = jb_procs (js_tab st ! jn))"
proof -
  define m where "m = mark_changed jn False st"
  define st2 where "st2 = storepipestats E (js_tab m ! jn) (fg \<noteq> 0) False m"
  have tab: "js_tab st2 = js_tab m" "js_thisjob st2 = js_thisjob st" "js_lastval2 st2 = js_lastval2 st"
    by (simp_all add: st2_def m_def)
  have len: "length (js_tab m) = length (js_tab st)" by (simp add: m_def mark_changed_def)
  have jobm: "js_tab m ! jn = (js_tab st ! jn)\<lparr>jb_stat := set_flag (jb_stat (js_tab st ! jn)) (set_flag ST_CHANGED ST_DONE)\<rparr>"
    using assms(1) by (simp add: m_def mark_changed_def)
  have flags: "stat_has (jb_stat (js_tab st2 ! jn)) ST_DONE" "\<not> stat_has (jb_stat (js_tab st2 ! jn)) ST_SUBJOB"
    "\<not> stat_has (jb_stat (js_tab st2 ! jn)) ST_SUPERJOB" "\<not> stat_has (jb_stat (js_tab st2 ! jn)) ST_WASSUPER"
    "stat_has (jb_stat (js_tab st2 ! jn)) ST_LOCKED = stat_has (jb_stat (js_tab st ! jn)) ST_LOCKED"
    using assms by (simp_all add: tab jobm)
  have tell: "tell_super E jn fg st2 = Some st2" using flags by (simp add: tell_super_def Let_def)
  have cur: "stop_is_current jn st2 = st2" using flags by (simp add: stop_is_current_def Let_def)
  have fin: "finish_update E jn fg s False st = map_option (pseudo_signal E fg s) (report_change E jn st2)"
    unfolding finish_update_def Let_def m_def [symmetric] st2_def [symmetric] tell option.case cur ..
  show ?thesis
  proof (cases "reports_at_once E st jn")
    case True
    obtain b st3 where s3: "printjob_synch E jn (long_lng E) 0 st2 = Some (b, st3)" "length (js_tab st3) = length (js_tab st2)"
        "js_tab st3 ! jn = new_job" "js_lastval2 st3 = js_lastval2 st2"
      using synch_done [of jn st2 E "long_lng E" 0] flags assms(1) tab len by auto
    have "report_change E jn st2 = refresh_after E (Some (b, st3))"
      using True flags tab s3(1) by (simp add: report_change_def reports_at_once_def)
    then show ?thesis using True fin s3 tab len by (auto simp: refresh_after_def)
  next
    case False
    then have "report_change E jn st2 = Some st2" using flags tab by (auto simp: report_change_def reports_at_once_def)
    then show ?thesis using False fin tab len flags jobm by simp
  qed
qed

lemma settled_done:
  assumes "jn < length (js_tab st)" and fin: "\<forall>p \<in> set (jb_procs (js_tab st ! jn)). finished (pr_status p)"
    and plain: "\<not> stat_has (jb_stat (js_tab st ! jn)) ST_SUBJOB" "\<not> stat_has (jb_stat (js_tab st ! jn)) ST_SUPERJOB"
    "\<not> stat_has (jb_stat (js_tab st ! jn)) ST_WASSUPER"
  shows "\<exists>st1. settled E jn st = Some st1 \<and> length (js_tab st1) = length (js_tab st) \<and>
    js_lastval2 st1 = status_value E (last_status (jb_procs (js_tab st ! jn))) \<and>
    (if reports_at_once E st jn then js_tab st1 ! jn = new_job
     else stat_has (jb_stat (js_tab st1 ! jn)) ST_DONE \<and> jb_procs (js_tab st1 ! jn) = jb_procs (js_tab st ! jn))"
proof -
  define ps where "ps = jb_procs (js_tab st ! jn)"
  have ss: "list_ex (\<lambda>p. wifstopped (pr_status p)) ps = False"
    using fin finished_not_stopped(1) by (auto simp: ps_def list_ex_iff)
  define st3 where "st3 = settle_terminal E jn (foreground jn st) (status_value E (last_status ps))
    (case last_status ps of Some s \<Rightarrow> wifsignaled s | None \<Rightarrow> False) False
    (remember_tty E jn False (remember_value jn (status_value E (last_status ps)) st))"
  have tab: "js_tab st3 = js_tab st \<or> js_tab st3 = (js_tab st)[jn := (js_tab st ! jn)\<lparr>jb_stat := set_flag (jb_stat (js_tab st ! jn)) ST_ATTACH\<rparr>]"
    by (simp add: st3_def settle_terminal_def Let_def set_stat_def)
  then have st3: "length (js_tab st3) = length (js_tab st)" "jb_procs (js_tab st3 ! jn) = ps"
    "\<not> stat_has (jb_stat (js_tab st3 ! jn)) ST_SUBJOB" "\<not> stat_has (jb_stat (js_tab st3 ! jn)) ST_SUPERJOB"
    "\<not> stat_has (jb_stat (js_tab st3 ! jn)) ST_WASSUPER"
    "stat_has (jb_stat (js_tab st3 ! jn)) ST_LOCKED = stat_has (jb_stat (js_tab st ! jn)) ST_LOCKED"
    using assms by (auto simp: ps_def)
  moreover have "js_thisjob st3 = js_thisjob st" and v: "js_lastval2 st3 = status_value E (last_status ps)"
    by (simp_all add: st3_def)
  ultimately have at_once: "reports_at_once E st3 jn = reports_at_once E st jn"
    by (simp add: reports_at_once_def)
  have eq: "settled E jn st = finish_update E jn (foreground jn st) (leader_status (js_tab st ! jn)) False st3"
    unfolding settled_def Let_def ps_def [symmetric] ss if_False simp_thms st3_def ..
  show ?thesis
    using finish_done [of jn st3 E "foreground jn st" "leader_status (js_tab st ! jn)"] assms(1) st3(1,3-5)
    unfolding eq at_once v st3(1,2) ps_def [symmetric] by simp
qed


lemma with_reports_sel:
  assumes "jn < length tab"
  shows "length (with_reports rs jn tab) = length tab" "with_reports rs jn tab ! jn = (tab ! jn)\<lparr>jb_procs := reported rs (jb_procs (tab ! jn))\<rparr>"
    "(with_reports rs jn tab)[jn := with_reports rs jn tab ! jn] = with_reports rs jn tab"
  using assms by (simp_all add: with_reports_def)

lemma put_reported:
  assumes "jn < length tab" "distinct (map pr_pid (jb_procs (tab ! jn)))" "k < length (jb_procs (tab ! jn))"
    "pr_pid (jb_procs (tab ! jn) ! k) = pid" "pid \<notin> fst ` set rs"
  shows "put_status (jn, k, False) s (with_reports rs jn tab) = with_reports (rs @ [(pid, s)]) jn tab"
  using reported_snoc [OF assms(2-5), of s] assms(1) by (simp add: put_status_def with_reports_def Let_def)

text \<open>One more report on a started job.\<close>

lemma one_report:
  fixes E :: jenv
  assumes start: "started_job st jn" and pid: "pid \<in> pr_pid ` set (jb_procs (js_tab st ! jn))" "pid \<notin> fst ` set rs"
    and fin: "\<forall>r \<in> set rs. finished (snd r)" "finished s"
    and st1: "js_tab st1 = with_reports rs jn (js_tab st)"
  defines "st0 \<equiv> remember_bg E jn pid s (st1\<lparr>js_tab := with_reports (rs @ [(pid, s)]) jn (js_tab st)\<rparr>)"
  shows "update_bg_job E pid s st1 =
    map_option (\<lambda>(_, st2). (True, if int jn \<noteq> js_thisjob st1 then st2\<lparr>js_chld_pending := js_chld_pending st2 + 1\<rparr> else st2))
      (if pr_pid ` set (jb_procs (js_tab st ! jn)) \<subseteq> insert pid (fst ` set rs)
       then map_option (Pair True) (settled E jn st0) else Some (False, st0))"
proof -
  have jn: "jn < length (js_tab st)" and aux: "jb_auxprocs (js_tab st ! jn) = []"
    and run: "list_all pr_is_running (jb_procs (js_tab st ! jn))"
    and dist: "distinct (map pr_pid (jb_procs (js_tab st ! jn)))"
    using start by (simp_all add: started_job_def Let_def)
  obtain k where k: "k < length (jb_procs (js_tab st ! jn))" "pr_pid (jb_procs (js_tab st ! jn) ! k) = pid"
    using pid(1) by (auto simp: in_set_conv_nth)
  have found: "find_any (js_tab st1) pid = Some (jn, k, False)" by (rule find_started [OF start k st1])
  have put: "put_status (jn, k, False) s (js_tab st1) = with_reports (rs @ [(pid, s)]) jn (js_tab st)"
    unfolding st1 by (rule put_reported [OF jn dist k pid(2)])
  have tab0: "js_tab st0 = with_reports (rs @ [(pid, s)]) jn (js_tab st)" by (simp add: st0_def)
  have fin': "\<forall>r \<in> set (rs @ [(pid, s)]). finished (snd r)" using fin by auto
  have settle: "settle (reported (rs @ [(pid, s)]) (jb_procs (js_tab st ! jn))) =
      (reported (rs @ [(pid, s)]) (jb_procs (js_tab st ! jn)), False,
       \<not> pr_pid ` set (jb_procs (js_tab st ! jn)) \<subseteq> insert pid (fst ` set rs))"
    using settle_mixed [OF all_reported [OF fin' run]] still_running [OF run fin'] by simp
  define j0 where "j0 = js_tab st0 ! jn"
  have j0: "jb_auxprocs j0 = []" "jb_procs j0 = reported (rs @ [(pid, s)]) (jb_procs (js_tab st ! jn))"
    using aux jn by (simp_all add: j0_def tab0 with_reports_sel)
  have same: "j0\<lparr>jb_auxprocs := [], jb_procs := reported (rs @ [(pid, s)]) (jb_procs (js_tab st ! jn))\<rparr> = j0"
    using j0 by (cases j0) simp
  have id0: "st0\<lparr>js_tab := (js_tab st0)[jn := j0]\<rparr> = st0" by (simp add: j0_def)
  have len0: "jn < length (js_tab st0)" using jn by (simp add: tab0 with_reports_sel)
  have "update_job E jn st0 = (if pr_pid ` set (jb_procs (js_tab st ! jn)) \<subseteq> insert pid (fst ` set rs)
       then map_option (Pair True) (settled E jn st0) else Some (False, st0))"
    using len0 settle j0 unfolding update_job_def j0_def [symmetric] Let_def
    by (simp add: same id0)
  then show ?thesis
    unfolding update_bg_job_def found option.case Let_def fst_conv put st0_def by simp
qed

lemma reap_waits:
  assumes start: "started_job st jn" and rs: "distinct (map fst rs)"
    "\<forall>r \<in> set rs. fst r \<in> pr_pid ` set (jb_procs (js_tab st ! jn)) \<and> finished (snd r)"
    and some: "\<not> pr_pid ` set (jb_procs (js_tab st ! jn)) \<subseteq> fst ` set rs"
  shows "\<exists>st1. reap E rs st = Some st1 \<and> js_tab st1 = with_reports rs jn (js_tab st) \<and>
    js_lastval2 st1 = js_lastval2 st \<and> js_thisjob st1 = js_thisjob st"
  using rs some
proof (induction rs rule: rev_induct)
  case Nil
  show ?case by (simp add: with_reports_def)
next
  case (snoc r rs)
  obtain pid s where r: "r = (pid, s)" by force
  have pid: "pid \<in> pr_pid ` set (jb_procs (js_tab st ! jn))" "pid \<notin> fst ` set rs" "finished s"
    using snoc.prems r by auto
  have more: "\<not> pr_pid ` set (jb_procs (js_tab st ! jn)) \<subseteq> insert pid (fst ` set rs)" using snoc.prems(3) r by simp
  obtain st1 where st1: "reap E rs st = Some st1" "js_tab st1 = with_reports rs jn (js_tab st)"
      "js_lastval2 st1 = js_lastval2 st" "js_thisjob st1 = js_thisjob st"
    using snoc.IH snoc.prems more by auto
  have fin: "\<forall>r \<in> set rs. finished (snd r)" using snoc.prems(2) by simp
  show ?case
    using one_report [OF start pid(1,2) fin pid(3) st1(2), of E] more st1
    by (simp add: r reap_snoc)
qed

lemma last_reported:
  "ps \<noteq> [] \<Longrightarrow> map_of rs (pr_pid (last ps)) = Some s \<Longrightarrow> last_status (reported rs ps) = Some s"
  by (simp add: last_status_def reported_def last_map)

lemma reap_ends:
  assumes start: "started_job st jn" and rs: "distinct (map fst rs)"
    "\<forall>r \<in> set rs. fst r \<in> pr_pid ` set (jb_procs (js_tab st ! jn)) \<and> finished (snd r)"
    and all: "pr_pid ` set (jb_procs (js_tab st ! jn)) \<subseteq> fst ` set rs"
  shows "\<exists>st1. reap E rs st = Some st1 \<and>
    js_lastval2 st1 = status_value E (map_of rs (pr_pid (last (jb_procs (js_tab st ! jn))))) \<and>
    (if reports_at_once E st jn then js_tab st1 ! jn = new_job
     else stat_has (jb_stat (js_tab st1 ! jn)) ST_DONE \<and>
       jb_procs (js_tab st1 ! jn) = reported rs (jb_procs (js_tab st ! jn)))"
proof -
  define ps where "ps = jb_procs (js_tab st ! jn)"
  have plain: "jn < length (js_tab st)" "ps \<noteq> []" "\<not> stat_has (jb_stat (js_tab st ! jn)) ST_SUBJOB"
    "\<not> stat_has (jb_stat (js_tab st ! jn)) ST_SUPERJOB" "\<not> stat_has (jb_stat (js_tab st ! jn)) ST_WASSUPER"
    "list_all pr_is_running ps"
    using start by (simp_all add: started_job_def Let_def ps_def)
  have "rs \<noteq> []" using all plain(2) by (auto simp: ps_def)
  then obtain rs' pid s where r: "rs = rs' @ [(pid, s)]" by (metis rev_exhaust surj_pair)
  have pid: "pid \<in> pr_pid ` set ps" "pid \<notin> fst ` set rs'" "finished s" and fin: "\<forall>r \<in> set rs'. finished (snd r)"
    using rs r by (auto simp: ps_def)
  have "\<not> pr_pid ` set ps \<subseteq> fst ` set rs'" using pid by auto
  then obtain st1 where st1: "reap E rs' st = Some st1" "js_tab st1 = with_reports rs' jn (js_tab st)"
      "js_lastval2 st1 = js_lastval2 st" "js_thisjob st1 = js_thisjob st"
    using reap_waits [OF start, of rs' E] rs by (auto simp: r ps_def)
  define st0 where "st0 = remember_bg E jn pid s (st1\<lparr>js_tab := with_reports rs jn (js_tab st)\<rparr>)"
  have "js_tab st0 = with_reports rs jn (js_tab st)" by (simp add: st0_def)
  then have j0: "jn < length (js_tab st0)" "js_tab st0 ! jn = (js_tab st ! jn)\<lparr>jb_procs := reported rs ps\<rparr>"
    using plain(1) by (simp_all add: with_reports_sel ps_def)
  have fin_all: "\<forall>r \<in> set rs. finished (snd r)" using rs(2) by simp
  have "\<not> list_ex pr_is_running (reported rs ps)"
    using still_running [OF plain(6) fin_all] all by (simp add: ps_def)
  then have "\<forall>p \<in> set (reported rs ps). finished (pr_status p)"
    using all_reported [OF fin_all plain(6)] by (auto simp: list_ex_iff)
  then obtain st2 where st2: "settled E jn st0 = Some st2" "js_lastval2 st2 = status_value E (last_status (reported rs ps))"
    "if reports_at_once E st0 jn then js_tab st2 ! jn = new_job
     else stat_has (jb_stat (js_tab st2 ! jn)) ST_DONE \<and> jb_procs (js_tab st2 ! jn) = reported rs ps"
    using settled_done [of jn st0 E] j0 plain by auto
  have at_once: "reports_at_once E st0 jn = reports_at_once E st jn"
    using j0(2) st1(4) by (simp add: reports_at_once_def st0_def)
  have "last ps \<in> set ps" using plain(2) by simp
  then have "pr_pid (last ps) \<in> fst ` set rs" using all by (auto simp: ps_def)
  then obtain v where v: "map_of rs (pr_pid (last ps)) = Some v" by (meson domD dom_map_of_conv_image_fst map_of_eq_None_iff not_None_eq)
  have "update_bg_job E pid s st1 = Some (True, if int jn \<noteq> js_thisjob st1 then st2\<lparr>js_chld_pending := js_chld_pending st2 + 1\<rparr> else st2)"
    using one_report [OF start pid(1) [unfolded ps_def] pid(2) fin pid(3) st1(2), of E] all st2(1)
    by (simp add: r st0_def)
  then have "reap E rs st = Some (if int jn \<noteq> js_thisjob st1 then st2\<lparr>js_chld_pending := js_chld_pending st2 + 1\<rparr> else st2)"
    using st1(1) by (simp add: r reap_snoc)
  then show ?thesis
    using st2(2,3) at_once last_reported [OF plain(2) v] v unfolding ps_def [symmetric] by auto
qed


end
