(* ===== verification/JobFacts.thy ===== *)
theory JobFacts
  imports JobRuns
begin

text \<open>
  The properties of the job table (\<open>src/src/ported/jobs.rs\<close>, \<open>src/src/exec_jobs.rs\<close>), with a small
  shell to try them on; before them the lemmas on the table a subshell starts with (\<open>clearjobtab\<close>) and on the
  list of remembered exit statuses (\<open>addbgstatus\<close>, \<open>getbgstatus\<close>).
\<close>

section \<open>The table a subshell starts with\<close>

lemma find_append: "find P (xs @ ys) = (case find P xs of Some x \<Rightarrow> Some x | None \<Rightarrow> find P ys)"
  by (induction xs) simp_all

lemma clear_loop_saves:
  "clear_loop E True is tab om = Some (tab, case find (\<lambda>i. jb_stat (tab ! i) \<noteq> 0) (rev is) of Some i \<Rightarrow> i + 1 | None \<Rightarrow> om)"
  by (induction "is" arbitrary: om) (auto simp: find_append split: option.split)

lemma highest_slot:
  "(\<exists>i. find P (rev [1..<m]) = Some i \<and> 0 < i \<and> i < m \<and> P i \<and> (\<forall>k. i < k \<longrightarrow> k < m \<longrightarrow> \<not> P k)) \<or>
   (find P (rev [1..<m]) = None \<and> (\<forall>k. 0 < k \<longrightarrow> k < m \<longrightarrow> \<not> P k))"
proof (cases m)
  case 0
  then show ?thesis by simp
next
  case (Suc b)
  show ?thesis
  proof (cases "find P (rev [1..<Suc b])")
    case None
    then show ?thesis unfolding Suc using find_rev_upt_None [of P 1 b] by auto
  next
    case (Some i)
    then show ?thesis unfolding Suc using find_rev_upt [of P 1 b i] by auto
  qed
qed

lemma fresh_slot: "initjob [new_job] 0 = (1, [new_job, new_job\<lparr>jb_stat := ST_INUSE\<rparr>], 1)"
  by (simp add: initjob_def first_free_def initnewjob_def new_job_def)

lemma clearjobtab_saves:
  assumes "\<not> je_isset E POSIXJOBS" "je_jobtab E"
  shows "clearjobtab E True st = Some ((case find (\<lambda>i. jb_stat (js_tab st ! i) \<noteq> 0) (rev [1..<length (js_tab st)]) of
      Some i \<Rightarrow> save_oldtab (js_tab st) (i + 1) st | None \<Rightarrow> st)
    \<lparr>js_tab := [new_job, new_job\<lparr>jb_stat := ST_INUSE\<rparr>], js_maxjob := 1, js_thisjob := 1\<rparr>)"
  using assms by (simp add: clearjobtab_def clear_loop_saves fresh_slot split: option.split)

text \<open>The slot a number selects.\<close>

definition chosen_slot :: "job list \<Rightarrow> int \<Rightarrow> int \<Rightarrow> bool" where
  "chosen_slot tab this n \<longleftrightarrow> 0 < n \<and> nat n < length tab \<and> jb_stat (tab ! nat n) \<noteq> 0 \<and>
     \<not> stat_has (jb_stat (tab ! nat n)) ST_SUBJOB \<and> n \<noteq> this"

lemma getjob_number:
  assumes "is_digit d" "parse_i32 (d # ds) = Some n" "selectjobtab st = (tab, mj)"
  shows "fst (getjob E (CHR ''%'' # d # ds) prog st) =
    (if 0 < n \<and> n \<le> int mj \<and> nat n < length tab \<and> jb_stat (tab ! nat n) \<noteq> 0 \<and>
        \<not> stat_has (jb_stat (tab ! nat n)) ST_SUBJOB \<and> (js_oldtab st \<noteq> [] \<or> n \<noteq> js_thisjob st) then n else - 1)"
proof -
  have d: "d \<noteq> CHR ''%''" "d \<noteq> CHR ''+''" "d \<noteq> CHR ''-''"
    using assms(1) by (auto simp: is_digit_def byte_def)
  show ?thesis using assms(2) d unfolding getjob_def assms(3) Let_def prod.case
    by (simp only: list.sel list.distinct d assms(1) if_True if_False simp_thms) simp
qed

lemma saved_slot:
  assumes i: "0 < i" "i < length tab" "\<forall>k. i < k \<longrightarrow> k < length tab \<longrightarrow> jb_stat (tab ! k) = 0"
    and s: "s = (if 0 \<le> this \<and> nat this < i + 1 then (take (i + 1) tab)[nat this := new_job] else take (i + 1) tab)"
  shows "(0 < n \<and> n \<le> int i \<and> nat n < length s \<and> jb_stat (s ! nat n) \<noteq> 0 \<and> \<not> stat_has (jb_stat (s ! nat n)) ST_SUBJOB)
    = chosen_slot tab this n"
proof (cases "0 < n \<and> nat n \<le> i")
  case True
  then have "n = this \<Longrightarrow> s ! nat n = new_job" using i s by auto
  moreover have "n \<noteq> this \<Longrightarrow> s ! nat n = tab ! nat n" using i s True by (auto simp: nth_list_update)
  ultimately show ?thesis using i s True by (cases "n = this") (auto simp: chosen_slot_def)
next
  case False
  then show ?thesis using i(3) by (auto simp: chosen_slot_def)
qed

lemma subshell_number:
  assumes "js_oldtab st = []" "\<not> je_isset E POSIXJOBS" "is_digit d" "parse_i32 (d # ds) = Some n" "je_jobtab E"
  shows "\<exists>st'. clearjobtab E True st = Some st' \<and>
    fst (getjob E' (CHR ''%'' # d # ds) prog st') = (if chosen_slot (js_tab st) (js_thisjob st) n then n else - 1)"
proof -
  define P where "P = (\<lambda>i. jb_stat (js_tab st ! i) \<noteq> 0)"
  note clear = clearjobtab_saves [OF assms(2,5), of st, folded P_def]
  from highest_slot [of P "length (js_tab st)"] show ?thesis
  proof
    assume "\<exists>i. find P (rev [1..<length (js_tab st)]) = Some i \<and> 0 < i \<and> i < length (js_tab st) \<and> P i \<and>
      (\<forall>k. i < k \<longrightarrow> k < length (js_tab st) \<longrightarrow> \<not> P k)"
    then obtain i where f: "find P (rev [1..<length (js_tab st)]) = Some i" and i: "0 < i" "i < length (js_tab st)" "P i"
        "\<forall>k. i < k \<longrightarrow> k < length (js_tab st) \<longrightarrow> \<not> P k" by blast
    define s where "s = (if 0 \<le> js_thisjob st \<and> nat (js_thisjob st) < i + 1
      then (take (i + 1) (js_tab st))[nat (js_thisjob st) := new_job] else take (i + 1) (js_tab st))"
    obtain st' where st': "clearjobtab E True st = Some st'" "js_oldtab st' = s" "js_oldmax st' = i"
      using clear f by (simp add: save_oldtab_def Let_def s_def)
    have "s \<noteq> []" using i(1,2) by (auto simp: s_def)
    then have sel: "selectjobtab st' = (s, i)" using st' by (simp add: selectjobtab_def)
    have "\<forall>k. i < k \<longrightarrow> k < length (js_tab st) \<longrightarrow> jb_stat (js_tab st ! k) = 0" using i(4) by (simp add: P_def)
    from saved_slot [OF i(1,2) this s_def] show ?thesis
      using getjob_number [OF assms(3,4) sel, of E' prog] st'(1,2) \<open>s \<noteq> []\<close> by (simp cong: if_cong)
  next
    assume no: "find P (rev [1..<length (js_tab st)]) = None \<and> (\<forall>k. 0 < k \<longrightarrow> k < length (js_tab st) \<longrightarrow> \<not> P k)"
    obtain st' where st': "clearjobtab E True st = Some st'" "js_oldtab st' = []" "js_thisjob st' = 1" "js_maxjob st' = 1"
      using clear no assms(1) by simp
    have sel: "selectjobtab st' = (js_tab st', 1)" using st' by (simp add: selectjobtab_def)
    have "\<not> chosen_slot (js_tab st) (js_thisjob st) n"
      using no by (auto simp: chosen_slot_def P_def)
    then show ?thesis using getjob_number [OF assms(3,4) sel, of E' prog] st' by simp
  qed
qed

text \<open>With \<open>POSIX_JOBS\<close> nothing is saved.\<close>

lemma clear_loop_posix: "clear_loop E False is tab om = Some (tab', om') \<Longrightarrow> om' = om"
  by (induction "is" arbitrary: tab) (auto split: if_splits option.splits)

lemma posix_number:
  assumes "js_oldtab st = []" "je_isset E POSIXJOBS" "is_digit d" "parse_i32 (d # ds) = Some n" "je_jobtab E"
    and clear: "clearjobtab E True st = Some st'"
  shows "fst (getjob E' (CHR ''%'' # d # ds) prog st') = - 1"
proof -
  have st': "js_oldtab st' = []" "js_maxjob st' = 1" "js_thisjob st' = 1"
    using clear assms(1,2,5) by (auto simp: clearjobtab_def Let_def fresh_slot dest!: clear_loop_posix split: option.splits)
  then have "selectjobtab st' = (js_tab st', 1)" by (simp add: selectjobtab_def)
  from getjob_number [OF assms(3,4) this, of E' prog] st' show ?thesis by auto
qed

section \<open>Remembered exit statuses\<close>

lemma take_pid_append:
  "take_pid pid (xs @ ys) = (case take_pid pid xs of
     Some (v, zs) \<Rightarrow> Some (v, zs @ ys)
   | None \<Rightarrow> (case take_pid pid ys of Some (v, zs) \<Rightarrow> Some (v, xs @ zs) | None \<Rightarrow> None))"
  by (induction xs) (auto split: option.splits)

lemma take_pid_None: "take_pid pid xs = None \<longleftrightarrow> pid \<notin> fst ` set xs"
  by (induction xs) (auto split: option.splits)

fun add_all :: "jenv \<Rightarrow> (int \<times> int) list \<Rightarrow> jshell \<Rightarrow> jshell" where
  "add_all E [] st = st"
| "add_all E ((pid, v) # rs) st = add_all E rs (addbgstatus E pid v st)"

text \<open>The counter is the number of entries, and stays within the bound.\<close>

definition bg_ok :: "jenv \<Rightarrow> jshell \<Rightarrow> bool" where
  "bg_ok E st \<longleftrightarrow> js_bgcount st = int (length (js_bgstatus st)) \<and> js_bgcount st \<le> bg_cap (je_child_max E)"

lemma bg_cap_pos: "0 < bg_cap n"
  by (simp add: bg_cap_def)

lemma addbg_ok: "bg_ok E st \<Longrightarrow> bg_ok E (addbgstatus E pid v st)"
  using bg_cap_pos [of "je_child_max E"] by (cases "js_bgstatus st") (auto simp: bg_ok_def addbgstatus_def Let_def)

lemma addbg_list:
  "bg_ok E st \<Longrightarrow> js_bgstatus (addbgstatus E pid v st) =
     (if int (length (js_bgstatus st)) < bg_cap (je_child_max E) then js_bgstatus st else tl (js_bgstatus st)) @ [(pid, v)]"
  using bg_cap_pos [of "je_child_max E"] by (auto simp: bg_ok_def addbgstatus_def Let_def)

text \<open>The list is the last \<open>bg_cap\<close> statuses, in order.\<close>

lemma addbg_suffix:
  assumes "bg_ok E st"
  shows "js_bgstatus (addbgstatus E pid v st) =
    drop (length (js_bgstatus st) + 1 - nat (bg_cap (je_child_max E))) (js_bgstatus st @ [(pid, v)])"
proof (cases "int (length (js_bgstatus st)) < bg_cap (je_child_max E)")
  case True
  then have "length (js_bgstatus st) + 1 - nat (bg_cap (je_child_max E)) = 0" by linarith
  then show ?thesis using True by (simp add: addbg_list [OF assms])
next
  case False
  then have "length (js_bgstatus st) = nat (bg_cap (je_child_max E))" using assms unfolding bg_ok_def by linarith
  moreover have "0 < nat (bg_cap (je_child_max E))" using bg_cap_pos by simp
  ultimately show ?thesis using False
    by (cases "js_bgstatus st") (simp_all add: addbg_list [OF assms])
qed

lemma drop_twice:
  assumes "k = length xs - c"
  shows "drop (length (drop k xs) + n - c) (drop k xs @ ys) = drop (length xs + n - c) (xs @ ys)"
proof -
  have "drop k xs @ ys = drop k (xs @ ys)" using assms by simp
  moreover have "length (drop k xs) + n - c + k = length xs + n - c" using assms by auto
  ultimately show ?thesis by (simp only: drop_drop)
qed

lemma add_all_suffix:
  "bg_ok E st \<Longrightarrow> bg_ok E (add_all E rs st) \<and> js_bgstatus (add_all E rs st) =
     drop (length (js_bgstatus st) + length rs - nat (bg_cap (je_child_max E))) (js_bgstatus st @ rs)"
proof (induction rs arbitrary: st)
  case Nil
  then have "length (js_bgstatus st) - nat (bg_cap (je_child_max E)) = 0" unfolding bg_ok_def by linarith
  then show ?case using Nil by simp
next
  case (Cons r rs)
  obtain pid v where r: "r = (pid, v)" by force
  let ?c = "nat (bg_cap (je_child_max E))"
  note step = addbg_suffix [OF Cons.prems, of pid v]
  have "drop (length (js_bgstatus (addbgstatus E pid v st)) + length rs - ?c) (js_bgstatus (addbgstatus E pid v st) @ rs) =
      drop (length (js_bgstatus st) + length (r # rs) - ?c) (js_bgstatus st @ r # rs)"
    unfolding step r using drop_twice [of _ "js_bgstatus st @ [(pid, v)]" ?c "length rs" rs] by simp
  then show ?case using Cons.IH [OF addbg_ok [OF Cons.prems]] by (simp add: r)
qed

lemma bgstatus_once:
  assumes ok: "bg_ok E st" and old: "pid \<notin> fst ` set (js_bgstatus st)" and new: "pid \<notin> fst ` set rs"
  shows "fst (getbgstatus pid (add_all E rs (addbgstatus E pid v st))) =
      (if int (length rs) < bg_cap (je_child_max E) then Some v else None) \<and>
    fst (getbgstatus pid (snd (getbgstatus pid (add_all E rs (addbgstatus E pid v st))))) = None"
proof -
  define c where "c = nat (bg_cap (je_child_max E))"
  define l where "l = js_bgstatus st"
  define bs where "bs = js_bgstatus (add_all E rs (addbgstatus E pid v st))"
  have len: "length l \<le> c" using ok unfolding bg_ok_def c_def l_def by linarith
  have bs: "bs = drop (length l + Suc (length rs) - c) (l @ (pid, v) # rs)"
    using add_all_suffix [OF ok, of "(pid, v) # rs"] unfolding bs_def c_def l_def by simp
  have l: "pid \<notin> fst ` set (drop k l)" for k using old in_set_dropD by (fastforce simp: l_def)
  then have none: "take_pid pid (drop k l) = None" for k by (simp add: take_pid_None)
  have rs: "pid \<notin> fst ` set (drop k rs)" for k using new in_set_dropD by fastforce
  show ?thesis
  proof (cases "int (length rs) < bg_cap (je_child_max E)")
    case True
    then have "length rs < c" by (simp add: c_def)
    then have "bs = drop (length l + Suc (length rs) - c) l @ (pid, v) # rs"
      unfolding bs by simp
    then have t: "take_pid pid bs = Some (v, drop (length l + Suc (length rs) - c) l @ rs)"
      by (simp add: take_pid_append none)
    have "take_pid pid (drop (length l + Suc (length rs) - c) l @ rs) = None"
      using l new by (simp add: take_pid_None image_Un)
    then show ?thesis using True t by (simp add: getbgstatus_def bs_def)
  next
    case False
    then have "c \<le> length rs" by (simp add: c_def)
    then have "length l < length l + Suc (length rs) - c" by simp
    then have "bs = drop (length rs - c) rs" unfolding bs using \<open>c \<le> length rs\<close>
      by (simp add: Suc_diff_le)
    then have "take_pid pid bs = None" using rs by (simp add: take_pid_None)
    then show ?thesis using False by (simp add: getbgstatus_def bs_def)
  qed
qed

section \<open>A small shell\<close>

text \<open>The globals before the first command: every one of them empty.\<close>

definition first_shell :: jshell where
  "first_shell = \<lparr>js_tab = [], js_maxjob = 0, js_curjob = - 1, js_prevjob = - 1, js_thisjob = - 1,
     js_oldtab = [], js_oldmax = 0, js_bgstatus = [], js_bgcount = 0, js_lastval = 0, js_lastval2 = 0,
     js_pipestats = replicate 256 0, js_numpipestats = 0, js_noerrexit = 0, js_breaks = 0, js_loops = 0,
     js_errflag = 0, js_errbrk_saved = 0, js_prev_breaks = 0, js_prev_errflag = 0, js_pseudo_sig = 0,
     js_chld_pending = 0, js_shttyinfo = None, js_events = []\<rparr>"

definition plain_env :: jenv where
  "plain_env = \<lparr>je_isset = (\<lambda>_. False), je_ksh93 = False, je_bash = False, je_in_subsh = False,
     je_emulating_592 = False, je_mypgrp = 100, je_getpgrp = 100, je_gettygrp = 100, je_group_gone = (\<lambda>_. False),
     je_gettyinfo = None, je_winsize = \<lparr>ws_row = 24, ws_col = 80, ws_xpixel = 0, ws_ypixel = 0\<rparr>,
     je_list_pipe = 0, je_zleactive = 0, je_shout = 0, je_ttyfrozen = 0, je_sigtrapped = (\<lambda>_. 0),
     je_columns = 80, je_pwd = ''/'', je_fprintdir = id, je_child_max = 3, je_rtmin = 34, je_rtmax = 64, je_jobtab = True\<rparr>"

text \<open>A job in use with the given processes, all running.\<close>

definition running_job :: "int list \<Rightarrow> job" where
  "running_job pids = new_job\<lparr>jb_stat := set_flag ST_INUSE ST_LOCKED, jb_gleader := hd pids,
     jb_procs := map new_process pids\<rparr>"

definition two_procs :: jshell where
  "two_procs = first_shell\<lparr>js_tab := [new_job, running_job [101, 102]]\<rparr>"

definition first_step :: jshell where
  "first_step = first_shell\<lparr>js_tab := [new_job, new_job\<lparr>jb_stat := ST_INUSE\<rparr>], js_maxjob := 1, js_thisjob := 1\<rparr>"

definition two_jobs :: jshell where
  "two_jobs = first_shell\<lparr>js_tab := [new_job, running_job [101], running_job [102]], js_thisjob := 2\<rparr>"

lemma first_ok: "jobs_ok first_shell"
  by (simp add: jobs_ok_def first_shell_def MAX_PIPESTATS_def)

text \<open>In a subshell a search by name leaves out the slot of the subshell's own control job also where it searches the
  table of the parent: there \<open>%1\<close> selects the first job and \<open>%sl\<close> does not.\<close>

definition sleeper :: jshell where
  "sleeper = first_shell\<lparr>js_tab := [new_job, new_job\<lparr>jb_stat := ST_INUSE, jb_procs := [(new_process 101)\<lparr>pr_text := ''sleep''\<rparr>]\<rparr>],
     js_maxjob := 1\<rparr>"

lemma name_skips_control:
  "map_option (\<lambda>st. (fst (getjob plain_env ''%1'' [] st), fst (getjob plain_env ''%sl'' [] st))) (clearjobtab plain_env True sleeper)
     = Some (1, - 1)"
  "fst (getjob plain_env ''%sl'' [] sleeper) = 1"
  by code_simp+

text \<open>\<open>$( ... )\<close> leaves the table that its child saved in the parent, where \<open>( ... )\<close> puts the parent's own back: after it
  \<open>%1\<close> goes on selecting a job that has been deleted.\<close>

lemma substitution_leaves_saved:
  "map_option (\<lambda>st. map_option (\<lambda>st'. (length (js_oldtab st'), fst (getjob plain_env ''%1'' [] st')))
       (delete_slot plain_env 1 False (leave_subshell Substitution sleeper st)))
     (enter_subshell Substitution plain_env True sleeper) = Some (Some (2, 1))"
  "map_option (\<lambda>st. map_option (\<lambda>st'. (length (js_oldtab st'), fst (getjob plain_env ''%1'' [] st')))
       (delete_slot plain_env 1 False (leave_subshell Parens sleeper st)))
     (enter_subshell Parens plain_env True sleeper) = Some (Some (0, - 1))"
  by code_simp+

section \<open>Properties\<close>

text \<open>C6. A job that ends: whatever the order in which the kernel reports the end of the processes of a started job (one
  in use without auxiliary processes that is no superjob, no subjob and not run in the shell itself), as long
  as one is missing only their statuses change; with the last report the job is marked done, or reported and its
  slot emptied at once when notification is on or it is the current job and locked, and the value remembered is the
  status of the last process of the pipeline, not that of the last report.\<close>

theorem job_done_when_all_reported:
  assumes "started_job st jn" and "distinct (map fst rs)"
    and "\<forall>r \<in> set rs. fst r \<in> pr_pid ` set (jb_procs (js_tab st ! jn)) \<and> finished (snd r)"
  shows "\<exists>st1. reap E rs st = Some st1 \<and>
    (if pr_pid ` set (jb_procs (js_tab st ! jn)) \<subseteq> fst ` set rs
     then js_lastval2 st1 = status_value E (map_of rs (pr_pid (last (jb_procs (js_tab st ! jn))))) \<and>
       (if reports_at_once E st jn then js_tab st1 ! jn = new_job
        else stat_has (jb_stat (js_tab st1 ! jn)) ST_DONE \<and>
          jb_procs (js_tab st1 ! jn) = reported rs (jb_procs (js_tab st ! jn)))
     else js_tab st1 = with_reports rs jn (js_tab st) \<and> js_lastval2 st1 = js_lastval2 st)"
proof (cases "pr_pid ` set (jb_procs (js_tab st ! jn)) \<subseteq> fst ` set rs")
  case True
  then show ?thesis using reap_ends [OF assms True, of E] by simp
next
  case False
  then show ?thesis using reap_waits [OF assms False, of E] by auto
qed

theorem job_done_when_all_reported_witness:
  "\<exists>st1. reap plain_env [(102, 0x0300), (101, 0)] two_procs = Some st1 \<and>
     js_lastval2 st1 = 3 \<and> map pr_status (jb_procs (js_tab st1 ! 1)) = [0, 0x0300]"
proof -
  have job: "js_tab two_procs ! 1 = running_job [101, 102]" by (simp add: two_procs_def)
  have "started_job two_procs 1"
    by (auto simp: started_job_def two_procs_def running_job_def new_process_def new_job_def flag_eval set_flag_def
        pr_is_running_def less_Suc_eq)
  moreover have "\<forall>r \<in> set [(102, 0x0300 :: i32), (101, 0)]. fst r \<in> pr_pid ` set (jb_procs (js_tab two_procs ! 1)) \<and> finished (snd r)"
    unfolding job by (simp add: running_job_def new_process_def finished_def wifexited_def low7_def)
  moreover have "\<not> reports_at_once plain_env two_procs 1"
    by (simp add: reports_at_once_def two_procs_def first_shell_def plain_env_def)
  moreover have "high8 0x0300 = 3" by code_simp
  ultimately show ?thesis
    using job_done_when_all_reported [of two_procs 1 "[(102, 0x0300), (101, 0)]" plain_env] job
    by (auto simp: running_job_def new_process_def reported_def status_value_def wexitstatus_def wifsignaled_def
        wifstopped_def low7_def low8_def)
qed

text \<open>C7. The job table is well formed after every sequence of the steps of \<open>shell_step\<close> from the start of the shell, and so
  is every table that a subshell the shell is in will put back: a slot that is not in use is empty, slot 0 and the
  slots past the bound are never in use, a process runs or has a status the kernel can report, a job marked done
  has only processes that have ended, and the array of pipe statuses has its size.  The steps are the operations
  of the job code, what the executor writes itself, superjobs, subjobs and the flags of a command run in the shell
  included, and the start and the end of in-process subshells; the executor writes to slots in use, and a
  command of redirections marks a job done whose processes have ended.\<close>

theorem jobs_stay_well_formed:
  "shell_step\<^sup>*\<^sup>* (first_shell, []) (st, outer) \<Longrightarrow> jobs_ok st \<and> (\<forall>(k, old) \<in> set outer. jobs_ok old)"
  using shells.steps_keep [of "(first_shell, [])" "(st, outer)"] first_ok by (simp add: nested_ok_def)

text \<open>A superjob in slot 1 with its subjob in slot 2, in a command substitution of the shell.\<close>

definition linked_jobs :: jshell where
  "linked_jobs = link_subjob 1 2 102 (snd (execpline_slot_open
     (first_step\<lparr>js_tab := (js_tab first_step)[1 := addproc (js_tab first_step ! 1) 101 [] False (- 1)]\<rparr>)))"

lemma linked_reached: "shell_step\<^sup>*\<^sup>* (first_shell, []) (linked_jobs, [])"
proof -
  have i: "initjob (js_tab first_shell) (js_maxjob first_shell) = (1, [new_job, new_job\<lparr>jb_stat := ST_INUSE\<rparr>], 1)"
    by (simp add: first_shell_def initjob_def first_free_def initnewjob_def new_job_def Let_def)
  from take_slot [OF i] have s1: "job_step first_shell first_step" by (simp add: first_step_def)
  define st where "st = first_step\<lparr>js_tab := (js_tab first_step)[1 := addproc (js_tab first_step ! 1) 101 [] False (- 1)]\<rparr>"
  have s2: "job_step first_step st" unfolding st_def by (rule add_proc) (simp_all add: first_step_def)
  obtain held st1 where o: "execpline_slot_open st = (held, st1)" by (cases "execpline_slot_open st")
  have s3: "job_step st st1" by (rule slot_opened [OF o])
  have "used_slot st1 1" "used_slot st1 2"
    using o by (auto simp: used_slot_def execpline_slot_open_def st_def first_step_def first_shell_def initjob_def first_free_def
        initnewjob_def addproc_def new_job_def Let_def clear_simps upt_rec)
  then have s4: "job_step st1 (link_subjob 1 2 102 st1)" by (rule linked)
  have "linked_jobs = link_subjob 1 2 102 st1" by (simp only: linked_jobs_def st_def [symmetric] o snd_conv)
  then show ?thesis using s1 s2 s3 s4 run by (metis (no_types) rtranclp.simps)
qed

theorem jobs_stay_well_formed_witness:
  "\<exists>st. jobs_ok st \<and> jobs_ok linked_jobs \<and> super_job (js_tab linked_jobs) 2 = Some 1 \<and> length (js_oldtab st) = 3"
proof -
  obtain st where st: "enter_subshell Substitution plain_env True linked_jobs = Some st" "length (js_oldtab st) = 3"
  proof -
    have "map_option (\<lambda>st. length (js_oldtab st)) (enter_subshell Substitution plain_env True linked_jobs) = Some 3"
      by code_simp
    then show ?thesis using that by auto
  qed
  have "shell_step (linked_jobs, []) (st, [(Substitution, linked_jobs)])" by (rule enter [OF st(1)])
  with linked_reached have "shell_step\<^sup>*\<^sup>* (first_shell, []) (st, [(Substitution, linked_jobs)])"
    by (rule rtranclp.rtrancl_into_rtrancl)
  moreover have "super_job (js_tab linked_jobs) 2 = Some 1" by code_simp
  ultimately show ?thesis using jobs_stay_well_formed [of st "[(Substitution, linked_jobs)]"] st(2) by auto
qed

text \<open>C14. A number given to a job command in a subshell: unless \<open>POSIX_JOBS\<close> is set it means the job of the parent:
  after \<open>clearjobtab\<close>, which then returns, the specification \<open>%n\<close> selects \<open>n\<close> exactly when slot \<open>n\<close> of the parent's
  table held a job that is neither a subjob nor the one that starts the subshell, and no job otherwise.  With
  \<open>POSIX_JOBS\<close> the subshell has no access to the jobs of the parent and \<open>%n\<close> selects none.  The parent has job control
  and has had a job, and is itself no subshell that still has the table of a parent of its own.\<close>

theorem subshell_sees_jobs:
  assumes "js_oldtab st = []" "je_jobtab E" "is_digit d" "parse_i32 (d # ds) = Some n"
  shows "(\<not> je_isset E POSIXJOBS \<longrightarrow> clearjobtab E True st \<noteq> None) \<and>
    (\<forall>st'. clearjobtab E True st = Some st' \<longrightarrow> fst (getjob E' (CHR ''%'' # d # ds) prog st') =
       (if \<not> je_isset E POSIXJOBS \<and> chosen_slot (js_tab st) (js_thisjob st) n then n else - 1))"
  using subshell_number [of st E d ds n E' prog] posix_number [of st E d ds n _ E' prog] assms
  by (cases "je_isset E POSIXJOBS") auto

theorem subshell_sees_jobs_witness:
  "\<exists>st'. clearjobtab plain_env True two_jobs = Some st' \<and> fst (getjob plain_env ''%1'' [] st') = 1"
proof -
  have "js_oldtab two_jobs = []" "\<not> je_isset plain_env POSIXJOBS" "je_jobtab plain_env"
    by (simp_all add: two_jobs_def first_shell_def plain_env_def)
  moreover have "is_digit CHR ''1''" "parse_i32 ''1'' = Some 1" by code_simp+
  moreover have "chosen_slot (js_tab two_jobs) (js_thisjob two_jobs) 1"
    by (simp add: chosen_slot_def two_jobs_def running_job_def flag_eval set_flag_def)
  ultimately show ?thesis using subshell_sees_jobs [of two_jobs plain_env "CHR ''1''" "[]" 1 plain_env "[]"] by auto
qed

text \<open>C15. Deleting a job returns exactly when the chain of former superjobs that starts at it ends, and then empties
  the slots of that chain and leaves the others as they were, but for the mark of an orphaned subjob; on a chain
  that runs into a cycle it never returns.\<close>

theorem deletejob_frees_chain:
  assumes "jn < length tab"
  shows "(\<forall>js. is_chain tab (jn # js) \<longrightarrow>
      (\<exists>tab' ev. deletejob pg tab jn d = Some (tab', ev) \<and> freed (jn # js) tab tab')) \<and>
    ((\<exists>js. is_chain tab (jn # js)) \<or> (\<forall>n. deletejob_n n pg tab jn d = None))"
proof -
  have "deletejob_n n pg tab jn d = None" if "\<not> (\<exists>js. is_chain tab (jn # js))" for n
    using free_needs_chain [of n pg tab jn d] that by (meson not_None_eq)
  then show ?thesis using deletejob_chain [of tab _ jn pg d] assms by auto
qed

theorem deletejob_frees_chain_witness:
  "\<exists>tab' ev. deletejob 100 [new_job, running_job [101]] 1 False = Some (tab', ev) \<and> freed [1] [new_job, running_job [101]] tab'"
proof -
  have "is_chain [new_job, running_job [101]] [1]"
    by (simp add: job_partner_def Let_def running_job_def new_job_def flag_eval set_flag_def)
  then show ?thesis using deletejob_frees_chain [of 1 "[new_job, running_job [101]]" 100 False] by auto
qed

text \<open>C17. After \<open>setcurjob\<close> the current job is none or a job in use other than the one being built, and a current job
  that was already such is kept.\<close>

theorem setcurjob_valid:
  assumes "js_maxjob st < 2 ^ 64"
  shows "good_choice st (js_curjob (setcurjob st)) \<and> (\<not> good_choice st (js_curjob st) \<or> setcurjob st = st)"
  using setcurjob_good [OF assms] by (simp add: setcurjob_steps)

theorem setcurjob_valid_witness:
  "js_curjob (setcurjob (first_shell\<lparr>js_tab := [new_job, running_job [101]], js_maxjob := 1, js_curjob := 1\<rparr>)) = 1"
proof -
  have "good_choice (first_shell\<lparr>js_tab := [new_job, running_job [101]], js_maxjob := 1, js_curjob := 1\<rparr>) 1"
    by (simp add: good_choice_def slot_has_def as_usize_def first_shell_def running_job_def flag_eval set_flag_def)
  then show ?thesis
    using setcurjob_valid [of "first_shell\<lparr>js_tab := [new_job, running_job [101]], js_maxjob := 1, js_curjob := 1\<rparr>"]
    by (simp add: first_shell_def)
qed

text \<open>C16. The exit status remembered for a process, of which no older one is still listed, is given back once: as long as fewer statuses of other processes
  than the bound were remembered after it, the first question answers it and the next answers nothing; after as
  many as the bound it is forgotten.\<close>

theorem bgstatus_round_trip:
  assumes "bg_ok E st" "pid \<notin> fst ` set (js_bgstatus st)" "pid \<notin> fst ` set rs"
  shows "let r = getbgstatus pid (add_all E rs (addbgstatus E pid v st)) in
    fst r = (if int (length rs) < bg_cap (je_child_max E) then Some v else None) \<and>
    fst (getbgstatus pid (snd r)) = None"
  unfolding Let_def by (rule bgstatus_once [OF assms])

theorem bgstatus_round_trip_witness:
  "fst (getbgstatus 101 (add_all plain_env [(102, 0), (103, 1)] (addbgstatus plain_env 101 7 first_shell))) = Some 7"
  using bgstatus_round_trip [of plain_env first_shell 101 "[(102, 0), (103, 1)]" 7]
  by (simp add: bg_ok_def first_shell_def plain_env_def bg_cap_def Let_def)

end
