(* ===== verification/Quote.thy ===== *)
theory Quote
  imports Braces
begin

text \<open>
  Quoting of a string: \<open>quotestring\<close> and \<open>addunprintable\<close> of \<open>src/src/ported/utils.rs\<close>, in all its
  styles.  A string is a list of Unicode scalar values, as in \<open>Braces\<close>: the tokens of the lexer are
  the private-use values, and a byte that is not part of a character is stored as U+0083 and the byte
  with bit 5 flipped.  The locale, the character tables and the options are the fields of \<open>quote_conf\<close>.
\<close>

section \<open>Tokens and styles\<close>

definition MetaC :: nat where "MetaC = 0x83"
definition Stringg :: nat where "Stringg = 0xE185"
definition QInpar :: nat where "QInpar = 0xE188"
definition Inparmath :: nat where "Inparmath = 0xE189"
definition Outpar :: nat where "Outpar = 0xE18A"
definition Outparmath :: nat where "Outparmath = 0xE18B"
definition Qstring :: nat where "Qstring = 0xE18C"
definition Inbrack :: nat where "Inbrack = 0xE191"
definition Outbrack :: nat where "Outbrack = 0xE192"
definition Tick :: nat where "Tick = 0xE193"
definition Qtick :: nat where "Qtick = 0xE199"
definition Snull :: nat where "Snull = 0xE19D"
definition TOKEN_BASE :: nat where "TOKEN_BASE = 0xE100"

definition QT_NONE :: nat where "QT_NONE = 0"
definition QT_BACKSLASH :: nat where "QT_BACKSLASH = 1"
definition QT_SINGLE :: nat where "QT_SINGLE = 2"
definition QT_DOUBLE :: nat where "QT_DOUBLE = 3"
definition QT_DOLLARS :: nat where "QT_DOLLARS = 4"
definition QT_BACKTICK :: nat where "QT_BACKTICK = 5"
definition QT_SINGLE_OPTIONAL :: nat where "QT_SINGLE_OPTIONAL = 6"
definition QT_BACKSLASH_PATTERN :: nat where "QT_BACKSLASH_PATTERN = 7"
definition QT_BACKSLASH_SHOWNULL :: nat where "QT_BACKSLASH_SHOWNULL = 8"

lemmas quote_styles = QT_NONE_def QT_BACKSLASH_def QT_SINGLE_def QT_DOUBLE_def QT_DOLLARS_def QT_BACKTICK_def
  QT_SINGLE_OPTIONAL_def QT_BACKSLASH_PATTERN_def QT_BACKSLASH_SHOWNULL_def

text \<open>A token whose byte has the class \<open>INULL\<close>: \<open>Snull\<close> to \<open>Nularg\<close>.\<close>

definition inull_char :: "nat \<Rightarrow> bool" where "inull_char c \<longleftrightarrow> Snull \<le> c \<and> c \<le> BNularg"

text \<open>\<open>q_decode\<close> is \<open>mb_metacharlenconv\<close> in a multibyte codeset that is not UTF-8: how many bytes after
  the first belong to the character, and the character, if it has a scalar value; \<open>q_converts\<close> is
  whether \<open>mbrtowc\<close> takes the byte alone, \<open>q_iswprint\<close> is \<open>u9_iswprint\<close>, \<open>q_ispecial\<close> the class
  \<open>ISPECIAL\<close> of the character table.\<close>

record quote_conf =
  q_multibyte :: bool
  q_not_utf8 :: bool
  q_cur_max :: nat
  q_decode :: "nat list \<Rightarrow> nat \<times> nat option"
  q_converts :: "nat \<Rightarrow> bool"
  q_iswprint :: "nat \<Rightarrow> bool"
  q_ispecial :: "nat \<Rightarrow> bool"
  q_banghist :: bool
  q_bangchar :: nat
  q_magicequal :: bool
  q_extendedglob :: bool
  q_rcquotes :: bool

definition mb_not_utf8 :: "quote_conf \<Rightarrow> bool" where
  "mb_not_utf8 Q \<longleftrightarrow> q_multibyte Q \<and> q_not_utf8 Q"

definition mb_multi :: "quote_conf \<Rightarrow> bool" where
  "mb_multi Q \<longleftrightarrow> mb_not_utf8 Q \<and> 1 < q_cur_max Q"

definition mb_sb :: "quote_conf \<Rightarrow> bool" where
  "mb_sb Q \<longleftrightarrow> mb_not_utf8 Q \<and> \<not> mb_multi Q"

section \<open>The characters of a string\<close>

text \<open>\<open>unmetafy_str\<close>: the bytes a string stands for.\<close>

fun unmeta_bytes :: "word_text \<Rightarrow> nat list" where
  "unmeta_bytes [] = []"
| "unmeta_bytes [c] = utf8_bytes c"
| "unmeta_bytes (c # n # cs) =
    (if c = MetaC \<and> 0x80 \<le> n \<and> n \<le> 0xFF then semiring_bit_operations_class.xor n 32 # unmeta_bytes cs
     else utf8_bytes c @ unmeta_bytes (n # cs))"

text \<open>The scalar whose encoding is the list, and the shortest prefix of at most four bytes that is one.\<close>

definition scalar_of :: "nat \<Rightarrow> nat list \<Rightarrow> nat option" where
  "scalar_of c bs = (if char_from_u32 c = Some c \<and> utf8_bytes c = bs then Some c else None)"

fun utf8_scalar :: "nat list \<Rightarrow> nat option" where
  "utf8_scalar [a] = scalar_of a [a]"
| "utf8_scalar [a, b] = scalar_of ((a - 192) * 64 + (b - 128)) [a, b]"
| "utf8_scalar [a, b, c] = scalar_of ((a - 224) * 4096 + (b - 128) * 64 + (c - 128)) [a, b, c]"
| "utf8_scalar [a, b, c, d] =
    scalar_of ((a - 240) * 262144 + (b - 128) * 4096 + (c - 128) * 64 + (d - 128)) [a, b, c, d]"
| "utf8_scalar _ = None"

definition utf8_first :: "nat list \<Rightarrow> (nat \<times> nat) option" where
  "utf8_first bs = (case find (\<lambda>k. utf8_scalar (take k bs) \<noteq> None) [1..<Suc (min 4 (length bs))] of
     Some k \<Rightarrow> map_option (\<lambda>c. (c, k)) (utf8_scalar (take k bs))
   | None \<Rightarrow> None)"

text \<open>A decoded character, a byte that is none, or a character of another multibyte codeset with its
  bytes.\<close>

datatype MetaChar = Ch nat | Raw nat | Mb "nat option" "nat list"

text \<open>The first unit of a byte string and how many bytes follow its first.\<close>

definition first_unit :: "quote_conf \<Rightarrow> nat \<Rightarrow> nat list \<Rightarrow> MetaChar \<times> nat" where
  "first_unit Q b bs =
    (if \<not> q_multibyte Q \<or> mb_sb Q \<or> b \<le> 0x7F then (if b \<le> 0x7F then Ch b else Raw b, 0)
     else if mb_multi Q then
       (let (more, ch) = q_decode Q (b # bs) in
        if more = 0 \<and> ch = None then (Raw b, 0)
        else let k = min more 3 in (Mb ch (b # take k bs), k))
     else (case utf8_first (b # bs) of Some (c, k) \<Rightarrow> (Ch c, k - 1) | None \<Rightarrow> (Raw b, 0)))"

function byte_units :: "quote_conf \<Rightarrow> nat list \<Rightarrow> MetaChar list" where
  "byte_units Q [] = []"
| "byte_units Q (b # bs) = fst (first_unit Q b bs) # byte_units Q (drop (snd (first_unit Q b bs)) bs)"
  by pat_completeness auto
termination by (relation "measure (\<lambda>(_, bs). length bs)") auto

definition meta_chars :: "quote_conf \<Rightarrow> word_text \<Rightarrow> MetaChar list" where
  "meta_chars Q s = byte_units Q (unmeta_bytes s)"

definition mc_printable :: "quote_conf \<Rightarrow> MetaChar \<Rightarrow> bool" where
  "mc_printable Q mc = (case mc of
     Ch c \<Rightarrow> q_iswprint Q c
   | Mb ch _ \<Rightarrow> (case ch of Some c \<Rightarrow> q_iswprint Q c | None \<Rightarrow> False)
   | Raw b \<Rightarrow> (\<not> q_multibyte Q \<or> mb_sb Q \<and> q_converts Q b) \<and> q_iswprint Q b)"

definition meta_byte :: "nat \<Rightarrow> word_text" where
  "meta_byte b = [MetaC, semiring_bit_operations_class.xor b 32]"

definition push_metachar :: "MetaChar \<Rightarrow> word_text" where
  "push_metachar mc = (case mc of
     Ch c \<Rightarrow> [c]
   | Mb _ u \<Rightarrow> concat (map (\<lambda>b. if b < 0x80 then [b] else meta_byte b) u)
   | Raw b \<Rightarrow> meta_byte b)"

section \<open>Escapes\<close>

definition addunprintable :: "nat \<Rightarrow> word_text" where
  "addunprintable b = Backslash # text_of
    (if b = 0x00 then ''0'' else if b = 0x07 then ''a'' else if b = 0x08 then ''b''
     else if b = 0x0C then ''f'' else if b = 0x0A then ''n'' else if b = 0x0D then ''r''
     else if b = 0x09 then ''t'' else if b = 0x0B then ''v''
     else [digit_char (b div 64 mod 8), digit_char (b div 8 mod 8), digit_char (b mod 8)])"

definition unit_bytes :: "MetaChar \<Rightarrow> nat list" where
  "unit_bytes mc = (case mc of Ch c \<Rightarrow> utf8_bytes c | Raw b \<Rightarrow> [b] | Mb _ u \<Rightarrow> u)"

definition octal_byte :: "nat option \<Rightarrow> bool" where
  "octal_byte nx \<longleftrightarrow> (case nx of Some b \<Rightarrow> 48 \<le> b \<and> b \<le> 55 | None \<Rightarrow> False)"

text \<open>The escapes of the bytes of a unit; \<open>nx\<close> is the byte that follows.\<close>

fun escape_bytes :: "nat list \<Rightarrow> nat option \<Rightarrow> word_text" where
  "escape_bytes [] nx = []"
| "escape_bytes (b # bs) nx =
    (if b = 0 then addunprintable b @
       (if octal_byte (if bs = [] then nx else Some (hd bs)) then text_of ''00'' else [])
     else addunprintable b) @ escape_bytes bs nx"

definition next_byte :: "MetaChar list \<Rightarrow> nat option" where
  "next_byte mcs = (case mcs of [] \<Rightarrow> None | mc # _ \<Rightarrow> Some (hd (unit_bytes mc)))"

definition push_unprintable :: "MetaChar \<Rightarrow> MetaChar list \<Rightarrow> word_text" where
  "push_unprintable mc rest = escape_bytes (unit_bytes mc) (next_byte rest)"

section \<open>The style of dollar and quote\<close>

definition skip_inull :: "word_text \<Rightarrow> word_text" where
  "skip_inull s = (case s of c # cs \<Rightarrow> if inull_char c then cs else s | [] \<Rightarrow> [])"

definition bang_now :: "quote_conf \<Rightarrow> nat \<Rightarrow> bool" where
  "bang_now Q c \<longleftrightarrow> q_banghist Q \<and> q_bangchar Q \<noteq> 0 \<and> c = q_bangchar Q"

definition dollar_escaped :: "quote_conf \<Rightarrow> MetaChar \<Rightarrow> bool" where
  "dollar_escaped Q mc \<longleftrightarrow> (case mc of Ch c \<Rightarrow> c = Backslash \<or> c = 39 \<or> bang_now Q c | _ \<Rightarrow> False)"

fun dollar_body :: "quote_conf \<Rightarrow> MetaChar list \<Rightarrow> word_text" where
  "dollar_body Q [] = []"
| "dollar_body Q (mc # mcs) =
    (if mc_printable Q mc then (if dollar_escaped Q mc then [Backslash] else []) @ push_metachar mc
     else push_unprintable mc mcs) @ dollar_body Q mcs"

section \<open>The other styles\<close>

text \<open>An element is a token or a unit.\<close>

datatype quote_elt = Tok nat | Data MetaChar

fun split_tokens :: "quote_conf \<Rightarrow> word_text \<Rightarrow> bool \<Rightarrow> word_text \<Rightarrow> quote_elt list" where
  "split_tokens Q run prev_meta [] = map Data (meta_chars Q run)"
| "split_tokens Q run prev_meta (c # cs) =
    (if \<not> prev_meta \<and> itok_char c then map Data (meta_chars Q run) @ Tok c # split_tokens Q [] prev_meta cs
     else split_tokens Q (run @ [c]) (\<not> prev_meta \<and> c = MetaC) cs)"

text \<open>Every style but that of the backslash goes through a multibyte codeset byte by byte.\<close>

definition bytewise :: "quote_conf \<Rightarrow> nat \<Rightarrow> quote_elt list \<Rightarrow> quote_elt list" where
  "bytewise Q style es =
    (if mb_multi Q \<and> style \<noteq> QT_BACKSLASH
     then concat (map (\<lambda>e. case e of
            Data (Mb _ u) \<Rightarrow> map (\<lambda>b. Data (if b \<le> 0x7F then Ch b else Raw b)) u
          | _ \<Rightarrow> [e]) es)
     else es)"

definition as_unit :: "quote_elt \<Rightarrow> MetaChar" where
  "as_unit e = (case e of Tok t \<Rightarrow> Raw (t - TOKEN_BASE) | Data mc \<Rightarrow> mc)"

definition cval :: "quote_elt \<Rightarrow> nat" where
  "cval e = (case e of
     Tok t \<Rightarrow> t
   | Data (Raw b) \<Rightarrow> b
   | Data (Mb ch u) \<Rightarrow> (case ch of Some c \<Rightarrow> c | None \<Rightarrow> hd u)
   | Data (Ch c) \<Rightarrow> c)"

definition elt_char :: "quote_elt \<Rightarrow> nat" where
  "elt_char e = (case e of Tok t \<Rightarrow> t - TOKEN_BASE | Data _ \<Rightarrow> cval e)"

definition is_ch :: "quote_elt \<Rightarrow> nat \<Rightarrow> bool" where
  "is_ch e c \<longleftrightarrow> (case e of Tok _ \<Rightarrow> False | Data _ \<Rightarrow> cval e = c)"

definition is_token :: "quote_elt \<Rightarrow> bool" where
  "is_token e \<longleftrightarrow> (case e of Tok _ \<Rightarrow> True | Data _ \<Rightarrow> False)"

definition verbatim :: "quote_elt \<Rightarrow> word_text" where
  "verbatim e = (case e of Tok t \<Rightarrow> [t] | Data mc \<Rightarrow> push_metachar mc)"

definition verbatim_all :: "quote_elt list \<Rightarrow> word_text" where
  "verbatim_all es = concat (map verbatim es)"

definition last_val :: "nat \<Rightarrow> quote_elt list \<Rightarrow> nat" where
  "last_val p es = (if es = [] then p else cval (last es))"

text \<open>The brackets of a group that goes through as it is.\<close>

definition group_opener :: "quote_elt \<Rightarrow> quote_elt list \<Rightarrow> (nat \<times> nat) option" where
  "group_opener e es =
    (if (e = Tok Stringg \<or> e = Tok Qstring) \<and> es \<noteq> [] then
       (if hd es = Tok QInpar then Some (QInpar, Outpar)
        else if hd es = Tok Inbrack then Some (Inbrack, Outbrack)
        else if hd es = Tok Inbrace then Some (Inbrace, Outbrace) else None)
     else None)"

fun group_len :: "nat \<Rightarrow> nat \<Rightarrow> nat \<Rightarrow> quote_elt list \<Rightarrow> nat" where
  "group_len beg close level [] = 0"
| "group_len beg close level (e # es) =
    (if e = Tok close \<and> level = 0 then 1
     else Suc (group_len beg close
       (if e = Tok beg then level + 1 else if e = Tok close then level - 1 else level) es))"

fun math_len :: "nat \<Rightarrow> quote_elt list \<Rightarrow> nat" where
  "math_len inmath [] = 0"
| "math_len inmath (e # es) =
    (if e = Tok Outparmath then (if inmath = 1 then 1 else Suc (math_len (inmath - 1) es))
     else Suc (math_len (if e = Tok Inparmath then inmath + 1 else inmath) es))"

text \<open>The text so far, and for the style of optional quotes the state of the quotes (0 off, 1 none open,
  2 open) and where an opening quote belongs.\<close>

type_synonym quote_out = "word_text \<times> nat \<times> nat"

definition emit_text :: "word_text \<Rightarrow> quote_out \<Rightarrow> quote_out" where
  "emit_text w out = (case out of (res, sub, start) \<Rightarrow> (res @ w, sub, start))"

definition insert_at :: "nat \<Rightarrow> nat \<Rightarrow> word_text \<Rightarrow> word_text" where
  "insert_at k c w = take k w @ c # drop k w"

definition optional_special :: "quote_conf \<Rightarrow> quote_elt \<Rightarrow> quote_out \<Rightarrow> quote_out" where
  "optional_special Q e out = (case out of (res, sub, start) \<Rightarrow>
     let c = elt_char e in
     if sub = 1 then
       (let (res1, sub1) = (if c = 39 then (res @ [Backslash], sub) else (insert_at start 39 res, 2));
            res2 = res1 @ verbatim e in (res2, sub1, length res2))
     else if c = 39 then
       (if \<not> q_rcquotes Q then (let res1 = res @ [39, Backslash, 39] in (res1, 1, length res1))
        else (res @ [39, 39], sub, start))
     else (res @ verbatim e, sub, start))"

text \<open>Whether the element must be quoted in the style.\<close>

definition special_now :: "quote_conf \<Rightarrow> nat \<Rightarrow> bool \<Rightarrow> nat \<Rightarrow> quote_elt \<Rightarrow> bool" where
  "special_now Q style first prev e \<longleftrightarrow>
    (let c = elt_char e in
     (case e of Data (Ch d) \<Rightarrow> d \<le> 0xFF \<and> q_ispecial Q d | _ \<Rightarrow> False) \<and>
     (c = 61 \<or> c = 126 \<longrightarrow>
        first \<or> (q_magicequal Q \<and> (prev = 61 \<or> prev = 58)) \<or> (c = 126 \<and> q_extendedglob Q)) \<and>
     (style = QT_BACKSLASH \<or> style = QT_SINGLE_OPTIONAL \<or> (bang_now Q c \<and> style \<noteq> QT_SINGLE) \<or>
      (style = QT_DOUBLE \<and> (c = 36 \<or> c = 96 \<or> c = 34 \<or> c = Backslash)) \<or> (style = QT_SINGLE \<and> c = 39)))"

text \<open>A newline, and a quote inside single quotes.\<close>

definition quoted_island :: "quote_conf \<Rightarrow> nat \<Rightarrow> word_text" where
  "quoted_island Q c =
    (if c = 10 then [36, 39, Backslash, 110, 39]
     else if \<not> q_rcquotes Q then 39 # (if c = 39 then [Backslash] else []) @ [c, 39]
     else [39, 39])"

text \<open>The end of a turn, with an element that is not special or only owed a backslash: the text, the new
  previous character and how many more elements it took.\<close>

definition pass_element :: "quote_conf \<Rightarrow> nat \<Rightarrow> bool \<Rightarrow> quote_elt \<Rightarrow> quote_elt list \<Rightarrow> word_text \<times> nat \<times> nat" where
  "pass_element Q style backslash e es =
    (let b = (if backslash then [Backslash] else []) in
     if is_token e \<or> style \<noteq> QT_BACKSLASH then
       (if e = Tok Inparmath then
          (let k = math_len 1 es in (b @ verbatim e @ verbatim_all (take k es), last_val (cval e) (take k es), k))
        else (b @ verbatim e, elt_char e, 0))
     else (case e of
        Data mc \<Rightarrow>
          (if mc_printable Q mc then b @ push_metachar mc
           else [36, 39] @ push_unprintable mc (map as_unit es) @ [39],
           elt_char e, 0)
      | Tok t \<Rightarrow> ([], elt_char e, 0)))"

text \<open>One turn with the element the special characters are looked for in.\<close>

definition quote_element ::
  "quote_conf \<Rightarrow> nat \<Rightarrow> bool \<Rightarrow> bool \<Rightarrow> nat \<Rightarrow> quote_elt \<Rightarrow> quote_elt list \<Rightarrow> quote_out \<Rightarrow> quote_out \<times> nat \<times> nat" where
  "quote_element Q style skip first prev e es out =
    (let c = elt_char e; special = (\<not> skip \<and> special_now Q style first prev e) in
     if special \<and> style = QT_SINGLE_OPTIONAL then (optional_special Q e out, c, 0)
     else if special \<and> (c = 10 \<or> (style = QT_SINGLE \<and> c = 39)) then (emit_text (quoted_island Q c) out, c, 0)
     else (case pass_element Q style special e es of (w, p, k) \<Rightarrow> (emit_text w out, p, k)))"

definition dollar_quote_here :: "nat \<Rightarrow> quote_elt \<Rightarrow> quote_elt list \<Rightarrow> bool" where
  "dollar_quote_here style e es \<longleftrightarrow>
     style = QT_DOUBLE \<and> es \<noteq> [] \<and> (e = Tok Qstring \<or> is_ch e 36) \<and> is_ch (hd es) 39"

text \<open>One turn of the loop: the output, the new previous character, and how many elements after the first
  it took.\<close>

definition quote_turn ::
  "quote_conf \<Rightarrow> nat \<Rightarrow> bool \<Rightarrow> nat \<Rightarrow> quote_elt \<Rightarrow> quote_elt list \<Rightarrow> quote_out \<Rightarrow> quote_out \<times> nat \<times> nat" where
  "quote_turn Q style first prev e es out =
    (if e = Tok Tick \<or> e = Tok Qtick then
       (let body = takeWhile (\<lambda>x. x \<noteq> e) es in
        (emit_text (verbatim e @ verbatim_all body @ verbatim e) out, cval e, Suc (length body)))
     else if dollar_quote_here style e es then
       (case quote_element Q style True False (cval e) (hd es) (tl es) (emit_text (verbatim e) out) of
          (out1, p, k) \<Rightarrow> (out1, p, Suc k))
     else (case group_opener e es of
        Some (opn, close) \<Rightarrow>
          (let k = group_len (cval e) close 0 (tl es); body = take k (tl es) in
           (emit_text (verbatim e @ [opn] @ verbatim_all body) out, last_val opn body, Suc k))
      | None \<Rightarrow> quote_element Q style False first prev e es out))"

function quote_loop :: "quote_conf \<Rightarrow> nat \<Rightarrow> bool \<Rightarrow> nat \<Rightarrow> quote_elt list \<Rightarrow> quote_out \<Rightarrow> quote_out" where
  "quote_loop Q style first prev [] out = out"
| "quote_loop Q style first prev (e # es) out =
    (case quote_turn Q style first prev e es out of (out1, p, k) \<Rightarrow> quote_loop Q style False p (drop k es) out1)"
  by pat_completeness auto
termination by (relation "measure (\<lambda>(_, _, _, _, es, _). length es)") auto

definition quote_body :: "quote_conf \<Rightarrow> nat \<Rightarrow> word_text \<Rightarrow> word_text" where
  "quote_body Q style0 s =
    (let style = (if style0 = QT_BACKSLASH_SHOWNULL then QT_BACKSLASH else style0);
         es = bytewise Q style (split_tokens Q [] False s) in
     case quote_loop Q style True 0 es ([], if style = QT_SINGLE_OPTIONAL then 1 else 0, 0) of
       (res, sub, _) \<Rightarrow> if sub = 2 then res @ [39] else res)"

definition pattern_chars :: word_text where "pattern_chars = text_of ''*?[]<>()|#^~''"

definition quotestring :: "quote_conf \<Rightarrow> word_text \<Rightarrow> nat \<Rightarrow> word_text" where
  "quotestring Q s style =
    (if s = [] then (if style = QT_BACKSLASH_SHOWNULL \<or> style = QT_SINGLE_OPTIONAL then [39, 39] else [])
     else if style = QT_NONE then s
     else if style = QT_BACKSLASH_PATTERN then
       concat (map (\<lambda>c. if c \<in> set pattern_chars then [Backslash, c] else [c]) s)
     else if style = QT_BACKSLASH \<or> style = QT_BACKSLASH_SHOWNULL \<or> style = QT_SINGLE \<or>
             style = QT_SINGLE_OPTIONAL \<or> style = QT_DOUBLE then quote_body Q style s
     else if style = QT_DOLLARS then dollar_body Q (meta_chars Q (skip_inull s))
     else if style = QT_BACKTICK then concat (map (\<lambda>c. if c = 96 then [Backslash, 96] else [c]) s)
     else s)"

end
