(* ===== verification/KeyString.thy ===== *)
theory KeyString
  imports Quote Strtol
begin

text \<open>
  The escapes of \<open>print\<close>, \<open>echo\<close>, \<open>printf\<close>, \<open>bindkey\<close> and of the text between dollar-quotes:
  \<open>getkeystring\<close> of \<open>src/src/ported/utils.rs\<close>, with every combination of its flags and in every shell
  mode.  \<open>key_ucs4\<close> is \<open>ucs4tomb\<close>, the encoding of a code in the codeset of the locale (\<open>None\<close> is the
  failed conversion); the modes are those of the configuration of the evaluator, which \<open>zstrtol\<close>
  reads too.
\<close>

section \<open>Flags\<close>

definition GETKEY_OCTAL_ESC :: nat where "GETKEY_OCTAL_ESC = 1"
definition GETKEY_EMACS :: nat where "GETKEY_EMACS = 2"
definition GETKEY_CTRL :: nat where "GETKEY_CTRL = 4"
definition GETKEY_BACKSLASH_C :: nat where "GETKEY_BACKSLASH_C = 8"
definition GETKEY_DOLLAR_QUOTE :: nat where "GETKEY_DOLLAR_QUOTE = 16"
definition GETKEY_BACKSLASH_MINUS :: nat where "GETKEY_BACKSLASH_MINUS = 32"
definition GETKEY_UPDATE_OFFSET :: nat where "GETKEY_UPDATE_OFFSET = 128"
definition GETKEY_PRINTF_PERCENT :: nat where "GETKEY_PRINTF_PERCENT = 256"
definition GETKEYS_DOLLARS_QUOTE :: nat where "GETKEYS_DOLLARS_QUOTE = 19"

lemmas getkey_flags = GETKEY_OCTAL_ESC_def GETKEY_EMACS_def GETKEY_CTRL_def GETKEY_BACKSLASH_C_def
  GETKEY_DOLLAR_QUOTE_def GETKEY_BACKSLASH_MINUS_def GETKEY_UPDATE_OFFSET_def GETKEY_PRINTF_PERCENT_def

definition asks :: "nat \<Rightarrow> nat \<Rightarrow> bool" where
  "asks how f \<longleftrightarrow> semiring_bit_operations_class.and how f \<noteq> 0"

record ('f, 'e) key_conf =
  key_math :: "('f, 'e) mconf"
  key_posixstrings :: bool
  key_ucs4 :: "nat \<Rightarrow> nat list option"

definition key_bash :: "('f, 'e) key_conf \<Rightarrow> bool" where "key_bash K = bash_mode (key_math K)"
definition key_sh :: "('f, 'e) key_conf \<Rightarrow> bool" where "key_sh K = sh_mode (key_math K)"
definition key_pdksh :: "('f, 'e) key_conf \<Rightarrow> bool" where "key_pdksh K = pdksh_family (key_math K)"
definition key_ksh93 :: "('f, 'e) key_conf \<Rightarrow> bool" where
  "key_ksh93 K \<longleftrightarrow> korn_mode (key_math K) \<and> \<not> pdksh_family (key_math K)"

definition bash_dollar :: "('f, 'e) key_conf \<Rightarrow> nat \<Rightarrow> bool" where
  "bash_dollar K how \<longleftrightarrow> asks how GETKEY_DOLLAR_QUOTE \<and> key_bash K"

section \<open>State\<close>

text \<open>The output, the bytes taken, the offset a caller tracks, a caret that waits for its character, the
  control and meta bits that wait for theirs with the length of the output when they were read, the
  state of the cut at a NUL, and whether \<open>\c\<close> was seen.\<close>

record keys =
  ks_result :: word_text
  ks_consumed :: nat
  ks_misc :: "int option"
  ks_control :: bool
  ks_mask :: "(nat \<times> nat \<times> nat) option"
  ks_ignoring :: bool
  ks_mark :: "nat option"
  ks_truncated :: bool

definition start_keys :: "int option \<Rightarrow> keys" where
  "start_keys misc = \<lparr>ks_result = [], ks_consumed = 0, ks_misc = misc, ks_control = False, ks_mask = None,
     ks_ignoring = False, ks_mark = None, ks_truncated = False\<rparr>"

definition put_text :: "word_text \<Rightarrow> keys \<Rightarrow> keys" where
  "put_text w st = st\<lparr>ks_result := ks_result st @ w\<rparr>"

definition took :: "nat \<Rightarrow> keys \<Rightarrow> keys" where
  "took n st = st\<lparr>ks_consumed := ks_consumed st + n\<rparr>"

text \<open>\<open>*m += d\<close>, when there is an offset.\<close>

definition shift_misc :: "int \<Rightarrow> keys \<Rightarrow> keys" where
  "shift_misc d st = st\<lparr>ks_misc := map_option (\<lambda>m. m + d) (ks_misc st)\<rparr>"

definition before_misc :: "nat \<Rightarrow> nat \<Rightarrow> keys \<Rightarrow> bool" where
  "before_misc how off st \<longleftrightarrow> asks how GETKEY_UPDATE_OFFSET \<and>
     (case ks_misc st of Some m \<Rightarrow> int off < m | None \<Rightarrow> False)"

text \<open>A byte of the output: high ones are metafied.\<close>

definition metafied_byte :: "nat \<Rightarrow> word_text" where
  "metafied_byte b = (if b < 0x80 then [b] else meta_byte b)"

definition mask_byte :: "nat \<Rightarrow> nat \<Rightarrow> nat \<Rightarrow> nat" where
  "mask_byte control meta b0 =
    (let b1 = (if meta = 2 then semiring_bit_operations_class.or b0 0x80 else b0);
         b2 = (if control = 1 then (if b1 = 63 then 0x7F else semiring_bit_operations_class.and b1 0x9F) else b1) in
     if meta = 1 then semiring_bit_operations_class.or b2 0x80 else b2)"

text \<open>The last unit of the output: what is before it, and its byte or character.\<close>

definition last_unit :: "word_text \<Rightarrow> word_text \<times> nat" where
  "last_unit w =
    (let units = butlast w; c = last w in
     if units \<noteq> [] \<and> last units = MetaC then (butlast units, semiring_bit_operations_class.xor c 32) else (units, c))"

definition apply_pending_mask :: "keys \<Rightarrow> keys" where
  "apply_pending_mask st = (case ks_mask st of
     None \<Rightarrow> st
   | Some (mark, control, meta) \<Rightarrow>
       if length (ks_result st) \<le> mark then st
       else let st1 = st\<lparr>ks_mask := None\<rparr>; (units, b) = last_unit (ks_result st) in
         if 0xFF < b then st1 else st1\<lparr>ks_result := units @ metafied_byte (mask_byte control meta b mod 256)\<rparr>)"

definition posix_cut :: "('f, 'e) key_conf \<Rightarrow> nat \<Rightarrow> bool" where
  "posix_cut K how \<longleftrightarrow> asks how GETKEY_DOLLAR_QUOTE \<and> key_posixstrings K"

definition flush_tbuf :: "bool \<Rightarrow> keys \<Rightarrow> keys" where
  "flush_tbuf posix st = (case ks_mark st of
     None \<Rightarrow> st
   | Some m \<Rightarrow>
       let st1 = st\<lparr>ks_mark := None\<rparr>; chunk = drop m (ks_result st) in
       if \<not> posix \<or> length (ks_result st) < m then st1
       else if ks_ignoring st then st1\<lparr>ks_result := take m (ks_result st)\<rparr>
       else if 0 \<in> set chunk
       then st1\<lparr>ks_ignoring := True, ks_result := take m (ks_result st) @ takeWhile (\<lambda>c. c \<noteq> 0) chunk\<rparr>
       else st1)"

section \<open>Escapes\<close>

text \<open>What a turn answers: go on after so many more characters, leave the loop, or return.\<close>

datatype key_turn = Goes keys nat | Leaves keys | Returns keys

definition hex_digit :: "nat \<Rightarrow> nat option" where
  "hex_digit c =
    (if 48 \<le> c \<and> c \<le> 57 then Some (c - 48) else if 97 \<le> c \<and> c \<le> 102 then Some (c - 87)
     else if 65 \<le> c \<and> c \<le> 70 then Some (c - 55) else None)"

definition hex_next :: "word_text \<Rightarrow> bool" where
  "hex_next cs \<longleftrightarrow> cs \<noteq> [] \<and> hex_digit (hd cs) \<noteq> None"

fun hex_digits :: "nat \<Rightarrow> word_text \<Rightarrow> nat \<Rightarrow> nat \<times> nat" where
  "hex_digits 0 cs v = (v, 0)"
| "hex_digits (Suc n) cs v = (case cs of
     [] \<Rightarrow> (v, 0)
   | c # r \<Rightarrow> (case hex_digit c of
       None \<Rightarrow> (v, 0)
     | Some d \<Rightarrow> (case hex_digits n r ((v * 16 + d) mod 2 ^ 32) of (w, k) \<Rightarrow> (w, Suc k))))"

text \<open>\<open>str::from_utf8\<close>.\<close>

function utf8_text :: "nat list \<Rightarrow> word_text option" where
  "utf8_text [] = Some []"
| "utf8_text (b # bs) = (case utf8_first (b # bs) of
     None \<Rightarrow> None
   | Some (c, k) \<Rightarrow> map_option (Cons c) (utf8_text (drop (k - 1) bs)))"
  by pat_completeness auto
termination by (relation "measure length") auto

definition ucs4_text :: "nat list \<Rightarrow> word_text" where
  "ucs4_text bs = (case utf8_text bs of Some w \<Rightarrow> w | None \<Rightarrow> concat (map metafied_byte bs))"

fun copy_rest :: "nat \<Rightarrow> word_text \<Rightarrow> keys \<Rightarrow> keys" where
  "copy_rest how [] st = st"
| "copy_rest how (c # cs) st =
    (let st1 = (if asks how GETKEY_UPDATE_OFFSET \<and> (case ks_misc st of Some m \<Rightarrow> m < int (ks_consumed st) | None \<Rightarrow> False)
                then shift_misc 1 st else st) in
     copy_rest how cs (put_text [c] (took (length (utf8_bytes c)) st1)))"

text \<open>\<open>\u\<close> and \<open>\U\<close>; \<open>off\<close> is the offset of the backslash.\<close>

definition unicode_escape :: "('f, 'e) key_conf \<Rightarrow> nat \<Rightarrow> nat \<Rightarrow> nat \<Rightarrow> word_text \<Rightarrow> keys \<Rightarrow> key_turn" where
  "unicode_escape K how off uc cs st0 =
    (let st = took 1 st0 in
     if bash_dollar K how \<and> \<not> hex_next cs then Goes (put_text [Backslash, uc] st) 1
     else
       let st1 = (if before_misc how (off + 1) st then shift_misc (if uc = 85 then - 10 else - 6) st else st);
           (wval, k) = hex_digits (if uc = 117 then 4 else 8) cs 0;
           st2 = took k st1 in
       case key_ucs4 K wval of
         None \<Rightarrow> Returns (flush_tbuf (posix_cut K how)
           (if asks how GETKEY_DOLLAR_QUOTE then copy_rest how (drop k cs) st2 else st2))
       | Some bs \<Rightarrow>
           Goes (put_text (ucs4_text bs)
             (if before_misc how (ks_consumed st2 - 1) st2 then shift_misc (int (length bs)) st2 else st2)) (Suc k))"

text \<open>How many characters the first bytes of a text are.\<close>

fun chars_in :: "nat \<Rightarrow> word_text \<Rightarrow> nat" where
  "chars_in 0 cs = 0"
| "chars_in n [] = 0"
| "chars_in n (c # cs) = Suc (chars_in (n - length (utf8_bytes c)) cs)"

definition text_string :: "word_text \<Rightarrow> string" where
  "text_string w = map char_of (concat (map utf8_bytes w))"

text \<open>The value of a numeric escape, and how many characters after the digit \<open>d\<close> it takes.\<close>

definition numeric_value :: "('f, 'e) key_conf \<Rightarrow> nat \<Rightarrow> nat \<Rightarrow> word_text \<Rightarrow> nat \<times> nat" where
  "numeric_value K how d cs =
    (let zero_intro = (\<not> asks how GETKEY_OCTAL_ESC \<and> d = 48);
         rest = take 4 cs;
         p = (if zero_intro then take 1 rest else [d]);
         after = (if zero_intro then drop 1 rest else rest);
         vis = p @ (if 3 \<le> length after then take 2 after else after);
         (base, skip) = (if p = [120] then (16, 1) else (8, 0 :: nat));
         src = drop skip vis;
         (num, used, _) = zstrtol (key_math K) (text_string src) base;
         vis_used = skip + chars_in used src in
     (unat num mod 256, if zero_intro then vis_used else vis_used - 1))"

definition numeric_escape :: "('f, 'e) key_conf \<Rightarrow> nat \<Rightarrow> nat \<Rightarrow> word_text \<Rightarrow> keys \<Rightarrow> key_turn" where
  "numeric_escape K how d cs st0 =
    (let st = took 1 st0; dollar = asks how GETKEY_DOLLAR_QUOTE in
     if bash_dollar K how \<and> d = 120 \<and> \<not> hex_next cs then Goes (put_text [Backslash, 120] st) 1
     else if d = 120 \<and> \<not> hex_next cs \<and> \<not> dollar \<and> \<not> (key_ksh93 K \<and> asks how GETKEY_PRINTF_PERCENT) \<and>
        \<not> asks how GETKEY_EMACS \<and> (posix_faithful (key_math K) \<or> key_bash K) then Goes (put_text [Backslash, 120] st) 1
     else if d = 120 \<and> \<not> hex_next cs \<and> dollar \<and> key_pdksh K then Goes (put_text [120] st) 1
     else if \<not> asks how GETKEY_OCTAL_ESC \<and> d \<noteq> 48 \<and> d \<noteq> 120 then Goes (put_text [Backslash, d] st) 1
     else case numeric_value K how d cs of (val, k) \<Rightarrow>
       Goes (put_text (metafied_byte val @ (if asks how GETKEY_PRINTF_PERCENT \<and> val = 37 then [37] else [])) (took k st)) (Suc k))"

text \<open>The modifiers after \<open>\C\<close> or \<open>\M\<close>: the control bit, the meta count and the characters taken.\<close>

definition dash_len :: "word_text \<Rightarrow> nat" where
  "dash_len cs = (if cs \<noteq> [] \<and> hd cs = 45 then 1 else 0)"

function modifiers :: "nat \<Rightarrow> nat \<Rightarrow> nat \<Rightarrow> word_text \<Rightarrow> nat \<times> nat \<times> nat" where
  "modifiers how control meta cs =
    (if 2 \<le> length cs \<and> hd cs = Backslash \<and> (cs ! 1 = 67 \<or> cs ! 1 = 77) then
       (let n = 2 + dash_len (drop 2 cs) in
        case modifiers how (if cs ! 1 = 67 then 1 else control) (if cs ! 1 = 67 then meta else 1 + control) (drop n cs) of
          (c, m, k) \<Rightarrow> (c, m, n + k))
     else if control = 0 \<and> asks how GETKEY_CTRL \<and> 2 \<le> length cs \<and> hd cs = 94 then
       (case modifiers how 1 meta (drop 1 cs) of (c, m, k) \<Rightarrow> (c, m, 1 + k))
     else (control, meta, 0))"
  by pat_completeness auto
termination by (relation "measure (\<lambda>(_, _, _, cs). length cs)") auto

declare modifiers.simps [simp del]

definition modifier_escape :: "nat \<Rightarrow> nat \<Rightarrow> word_text \<Rightarrow> keys \<Rightarrow> key_turn" where
  "modifier_escape how letter cs st0 =
    (let control0 = (if ks_control st0 then 1 else 0 :: nat);
         st = took 1 (st0\<lparr>ks_control := False\<rparr>);
         control = (if letter = 67 then 1 else control0);
         meta = (if letter = 67 then 0 else 1 + control0);
         n = dash_len cs in
     case modifiers how control meta (drop n cs) of (c, m, k) \<Rightarrow>
       Goes ((took (n + k) st)\<lparr>ks_mask := Some (length (ks_result st), c, m)\<rparr>) (Suc (n + k)))"

text \<open>\<open>char::to_ascii_uppercase\<close>.\<close>

definition upper_ascii :: "nat \<Rightarrow> nat" where
  "upper_ascii c = (if 97 \<le> c \<and> c \<le> 122 then c - 32 else c)"

definition control_of :: "nat \<Rightarrow> nat" where
  "control_of c = semiring_bit_operations_class.xor (upper_ascii c mod 256) 0x40"

definition named_escape :: "nat \<Rightarrow> nat option" where
  "named_escape c =
    (if c = 110 then Some 10 else if c = 116 then Some 9 else if c = 114 then Some 13
     else if c = 97 then Some 7 else if c = 98 then Some 8 else if c = 102 then Some 12
     else if c = 118 then Some 11 else None)"

text \<open>\<open>\c\<close> in a format of ksh93: the control character of the next character, decoded.\<close>

definition ksh93_control :: "word_text \<Rightarrow> keys \<Rightarrow> key_turn" where
  "ksh93_control cs st =
    (let escaped = (cs \<noteq> [] \<and> hd cs = Backslash);
         cs1 = (if escaped then tl cs else cs);
         n = (if escaped then 1 else 0 :: nat);
         decode = (\<lambda>x. if escaped then (case named_escape x of Some y \<Rightarrow> y
                     | None \<Rightarrow> if x = 101 \<or> x = 69 then 27 else x) else x) in
     case cs1 of
       [] \<Rightarrow> Goes (put_text [0] (took n st)) (Suc n)
     | x # _ \<Rightarrow> Goes (put_text [control_of (decode x)] (took (n + 1) st)) (Suc (n + 1)))"

text \<open>Every other escape; \<open>added\<close> is whether the offset was lowered for the backslash.\<close>

definition other_escape ::
  "('f, 'e) key_conf \<Rightarrow> nat \<Rightarrow> bool \<Rightarrow> nat \<Rightarrow> word_text \<Rightarrow> keys \<Rightarrow> key_turn" where
  "other_escape K how added c cs st0 =
    (let st = took 1 st0; fmt = asks how GETKEY_PRINTF_PERCENT; dollar = asks how GETKEY_DOLLAR_QUOTE in
     if c = 99 \<and> fmt \<and> (key_bash K \<or> key_sh K) then Goes (put_text [Backslash, 99] st) 1
     else if c = 99 \<and> fmt \<and> key_ksh93 K then ksh93_control cs st
     else if c = 99 \<and> fmt \<and> key_pdksh K then Goes (put_text [99] st) 1
     else if fmt \<and> (key_bash K \<or> key_sh K) \<and> (c = 34 \<or> c = 39 \<or> c = 63) then Goes (put_text [c] st) 1
     else if fmt \<and> key_ksh93 K then Goes (put_text (if c = 37 then [37, 37] else [c]) st) 1
     else if c = 99 \<and> asks how GETKEY_BACKSLASH_C then
       (if key_pdksh K then Goes (st\<lparr>ks_truncated := True\<rparr>) 1 else Leaves (st\<lparr>ks_truncated := True\<rparr>))
     else if c = 99 \<and> dollar \<and> key_pdksh K \<and> cs \<noteq> [] \<and> hd cs < 128 then
       Goes (put_text [if hd cs = 63 then 0x7F else semiring_bit_operations_class.and (hd cs) 0x1F] (took 1 st)) 2
     else if bash_dollar K how \<and> c = 99 \<and> cs \<noteq> [] then
       Goes (put_text [if hd cs = 63 then 0x7F else control_of (hd cs)] (took 1 st)) 2
     else if bash_dollar K how \<and> c \<noteq> 39 \<and> c \<noteq> 34 \<and> c \<noteq> 63 \<and> c \<noteq> Backslash then Goes (put_text [Backslash, c] st) 1
     else if \<not> asks how GETKEY_EMACS then
       Goes (put_text [Backslash, c] (if added then shift_misc 1 st else st)) 1
     else Goes (put_text [c] st) 1)"

text \<open>The escape after a backslash at \<open>off\<close>.\<close>

definition escape_turn :: "('f, 'e) key_conf \<Rightarrow> nat \<Rightarrow> nat \<Rightarrow> word_text \<Rightarrow> keys \<Rightarrow> key_turn" where
  "escape_turn K how off cs st0 =
    (let added = (cs \<noteq> [] \<and> before_misc how off st0);
         st = (if added then shift_misc (- 1) st0 else st0) in
     case cs of
       [] \<Rightarrow> Goes (put_text [Backslash] st) 0
     | c # r \<Rightarrow>
         (case named_escape c of
            Some y \<Rightarrow> Goes (put_text [y] (took 1 st)) 1
          | None \<Rightarrow>
              if (c = 101 \<or> c = 69) \<and> asks how GETKEY_PRINTF_PERCENT \<and> key_pdksh K then Goes (put_text [c] (took 1 st)) 1
              else if c = 69 \<and> \<not> asks how GETKEY_EMACS \<and> \<not> (key_bash K \<or> key_ksh93 K \<or> key_sh K \<or> key_pdksh K) then
                Goes (put_text [Backslash, 69] (if added then shift_misc 1 (took 1 st) else took 1 st)) 1
              else if c = 101 \<or> c = 69 then Goes (put_text [27] (took 1 st)) 1
              else if c = Backslash then Goes (put_text [Backslash] (took 1 st)) 1
              else if c = 45 \<and> asks how GETKEY_BACKSLASH_MINUS then
                Goes ((took 1 st)\<lparr>ks_misc := map_option (\<lambda>_. 1) (ks_misc st)\<rparr>) 1
              else if c = 117 \<or> c = 85 then unicode_escape K how off c r st
              else if (48 \<le> c \<and> c \<le> 55) \<or> c = 120 then numeric_escape K how c r st
              else if (c = 67 \<or> c = 77) \<and> asks how GETKEY_EMACS then modifier_escape how c r st
              else other_escape K how added c r st))"

section \<open>The loop\<close>

text \<open>A caret: with a modifier after it the control bit waits, else it takes its character.\<close>

definition caret_turn :: "nat \<Rightarrow> word_text \<Rightarrow> keys \<Rightarrow> key_turn" where
  "caret_turn how cs st =
    (if asks how GETKEY_EMACS \<and> 2 \<le> length cs \<and> hd cs = Backslash \<and> (cs ! 1 = 77 \<or> cs ! 1 = 67)
     then Goes (st\<lparr>ks_control := True\<rparr>) 0
     else (case cs of
        [] \<Rightarrow> Goes (put_text [94] st) 0
      | c # _ \<Rightarrow>
          (let b = (if c = 63 then 0x7F else if c \<le> 0xFF then semiring_bit_operations_class.and c 0x9F else c) in
           Goes (put_text (if b \<le> 0xFF then metafied_byte b else [b]) (took (length (utf8_bytes c)) st)) 1)))"

text \<open>The end of the turn before, and the start of a new chunk.\<close>

definition settle_turn :: "('f, 'e) key_conf \<Rightarrow> nat \<Rightarrow> keys \<Rightarrow> keys" where
  "settle_turn K how st = flush_tbuf (posix_cut K how) (apply_pending_mask st)"

definition mark_chunk :: "nat \<Rightarrow> word_text \<Rightarrow> keys \<Rightarrow> keys" where
  "mark_chunk c cs st =
    (if itok_char c \<or> (c = Backslash \<and> cs \<noteq> [] \<and> (hd cs = 117 \<or> hd cs = 85)) then st
     else st\<lparr>ks_mark := Some (length (ks_result st))\<rparr>)"

definition key_turn_at :: "('f, 'e) key_conf \<Rightarrow> nat \<Rightarrow> nat \<Rightarrow> word_text \<Rightarrow> keys \<Rightarrow> key_turn" where
  "key_turn_at K how c cs st0 =
    (let st = took (length (utf8_bytes c)) (mark_chunk c cs (settle_turn K how st0)) in
     if c = 94 \<and> \<not> ks_control st \<and> asks how GETKEY_CTRL then caret_turn how cs st
     else if c \<noteq> Backslash then Goes (put_text [c] st) 0
     else escape_turn K how (ks_consumed st - 1) cs st)"

function key_loop :: "('f, 'e) key_conf \<Rightarrow> nat \<Rightarrow> word_text \<Rightarrow> keys \<Rightarrow> keys" where
  "key_loop K how [] st = settle_turn K how st"
| "key_loop K how (c # cs) st = (case key_turn_at K how c cs st of
     Goes st1 k \<Rightarrow> key_loop K how (drop k cs) st1
   | Leaves st1 \<Rightarrow> settle_turn K how st1
   | Returns st1 \<Rightarrow> st1)"
  by pat_completeness auto
termination by (relation "measure (\<lambda>(_, _, cs, _). length cs)") auto

text \<open>The decoded text and the bytes taken, with the offset and whether \<open>\c\<close> ended the output.\<close>

definition getkeystring :: "('f, 'e) key_conf \<Rightarrow> word_text \<Rightarrow> nat \<Rightarrow> int option \<Rightarrow> keys" where
  "getkeystring K s how misc = key_loop K how s (start_keys misc)"

end
