(* ===== verification/QuoteUnits.thy ===== *)
theory QuoteUnits
  imports KeyString
begin

text \<open>
  The units of a stored string: the bytes a string stands for are cut into decoded characters and bytes
  that are none, and what is written for a unit reads back as its bytes.
\<close>

section \<open>Bytes and units\<close>

lemma utf8_bytes_small: "c < 128 \<Longrightarrow> utf8_bytes c = [c]"
  by (simp add: utf8_bytes_def)

lemma utf8_bytes_bound: "char_from_u32 c = Some c \<Longrightarrow> \<forall>b \<in> set (utf8_bytes c). b < 256"
  by (auto simp: utf8_bytes_def char_from_u32_def split: if_splits)

lemma utf8_bytes_ne: "utf8_bytes c \<noteq> []"
  by (simp add: utf8_bytes_def)

lemma scalar_of_Some: "scalar_of c bs = Some d \<Longrightarrow> utf8_bytes d = bs \<and> char_from_u32 d = Some d"
  by (auto simp: scalar_of_def split: if_splits)

lemma utf8_scalar_Some: "utf8_scalar bs = Some c \<Longrightarrow> utf8_bytes c = bs \<and> char_from_u32 c = Some c"
  by (induction bs rule: utf8_scalar.induct) (auto dest: scalar_of_Some)

lemma utf8_first_Some:
  assumes "utf8_first bs = Some (c, k)"
  shows "utf8_bytes c = take k bs" "0 < k" "k \<le> length bs" "char_from_u32 c = Some c"
proof -
  obtain j where j: "find (\<lambda>k. utf8_scalar (take k bs) \<noteq> None) [1..<Suc (min 4 (length bs))] = Some j"
      "map_option (\<lambda>c. (c, j)) (utf8_scalar (take j bs)) = Some (c, k)"
    using assms by (auto simp: utf8_first_def simp del: upt_Suc split: option.splits)
  have "j \<in> set [1..<Suc (min 4 (length bs))]" using j(1) by (auto simp: find_Some_iff simp del: upt_Suc)
  then show "0 < k" "k \<le> length bs" using j(2) by auto
  show "utf8_bytes c = take k bs" "char_from_u32 c = Some c" using j(2) utf8_scalar_Some by auto
qed

text \<open>A unit outside of the multibyte codesets other than UTF-8.\<close>

definition plain_unit :: "MetaChar \<Rightarrow> bool" where
  "plain_unit mc \<longleftrightarrow> (case mc of Ch c \<Rightarrow> char_from_u32 c = Some c | Raw b \<Rightarrow> 0x80 \<le> b \<and> b < 256 | Mb _ _ \<Rightarrow> False)"

lemma first_unit_plain:
  assumes "\<not> mb_multi Q" "b < 256"
  shows "plain_unit (fst (first_unit Q b bs))"
    "unit_bytes (fst (first_unit Q b bs)) @ drop (snd (first_unit Q b bs)) bs = b # bs"
proof -
  have "plain_unit (fst (first_unit Q b bs)) \<and>
    unit_bytes (fst (first_unit Q b bs)) @ drop (snd (first_unit Q b bs)) bs = b # bs"
  proof (cases "\<not> q_multibyte Q \<or> mb_sb Q \<or> b \<le> 0x7F")
    case True
    then show ?thesis using assms(2)
      by (auto simp: first_unit_def plain_unit_def unit_bytes_def char_from_u32_def utf8_bytes_small)
  next
    case False
    show ?thesis
    proof (cases "utf8_first (b # bs)")
      case None
      then show ?thesis using False assms by (simp add: first_unit_def plain_unit_def unit_bytes_def)
    next
      case (Some p)
      obtain c k where p: "p = (c, k)" by force
      have "take k (b # bs) @ drop (k - 1) bs = b # bs"
        using utf8_first_Some(2) [OF Some [unfolded p]] by (cases k) auto
      then show ?thesis using False assms Some utf8_first_Some [OF Some [unfolded p]]
        by (simp add: first_unit_def plain_unit_def unit_bytes_def p)
    qed
  qed
  then show "plain_unit (fst (first_unit Q b bs))"
    "unit_bytes (fst (first_unit Q b bs)) @ drop (snd (first_unit Q b bs)) bs = b # bs" by auto
qed

lemma byte_units_plain:
  "\<not> mb_multi Q \<Longrightarrow> \<forall>b \<in> set bs. b < 256 \<Longrightarrow>
     list_all plain_unit (byte_units Q bs) \<and> concat (map unit_bytes (byte_units Q bs)) = bs"
proof (induction Q bs rule: byte_units.induct)
  case (2 Q b bs)
  have "\<forall>x \<in> set (drop (snd (first_unit Q b bs)) bs). x < 256" using 2(3) in_set_dropD by fastforce
  note IH = 2(1) [OF 2(2) this]
  have b: "b < 256" using 2(3) by simp
  show ?case using first_unit_plain [OF 2(2) b, of bs] IH by simp
qed simp

text \<open>The bytes of a text are bytes.\<close>

definition scalars :: "word_text \<Rightarrow> bool" where
  "scalars w \<longleftrightarrow> list_all (\<lambda>c. char_from_u32 c = Some c) w"

lemma xor32: "0x80 \<le> n \<Longrightarrow> n < 256 \<Longrightarrow>
  0x80 \<le> semiring_bit_operations_class.xor n 32 \<and> semiring_bit_operations_class.xor n 32 < (256::nat)"
proof -
  assume n: "0x80 \<le> n" "n < 256"
  have t: "take_bit 8 n = n" "take_bit 8 (32::nat) = 32" using n by (simp_all add: take_bit_nat_eq_self)
  have "take_bit 8 (semiring_bit_operations_class.xor n 32) = semiring_bit_operations_class.xor n 32"
    by (simp only: take_bit_xor t)
  then have u: "semiring_bit_operations_class.xor n 32 < 2 ^ 8" by (simp only: take_bit_nat_eq_self_iff)
  have "n div 2 ^ 7 = 1" using n by simp
  then have "bit n 7" by (simp add: bit_iff_odd)
  moreover have "\<not> bit (32::nat) 7" by (simp add: bit_iff_odd)
  ultimately have "bit (semiring_bit_operations_class.xor n 32) 7" by (simp add: bit_xor_iff)
  then have "odd (semiring_bit_operations_class.xor n 32 div 2 ^ 7)" by (rule bit_iff_odd [THEN iffD1])
  then have "semiring_bit_operations_class.xor n 32 div 2 ^ 7 \<noteq> 0" by (metis dvd_0_right)
  then have "0x80 \<le> semiring_bit_operations_class.xor n 32" by (simp add: div_eq_0_iff)
  then show ?thesis using u by simp
qed

lemma unmeta_bytes_bound: "scalars w \<Longrightarrow> \<forall>b \<in> set (unmeta_bytes w). b < 256"
proof (induction w rule: unmeta_bytes.induct)
  case (2 c)
  then show ?case using utf8_bytes_bound by (simp add: scalars_def)
next
  case (3 c n cs)
  then show ?case using utf8_bytes_bound [of c] xor32 [of n] by (auto simp: scalars_def)
qed (simp add: scalars_def)

lemma meta_chars_plain:
  "\<not> mb_multi Q \<Longrightarrow> scalars s \<Longrightarrow>
     list_all plain_unit (meta_chars Q s) \<and> concat (map unit_bytes (meta_chars Q s)) = unmeta_bytes s"
  unfolding meta_chars_def by (intro byte_units_plain unmeta_bytes_bound)

subsection \<open>Reading back what is stored\<close>

lemma unmeta_Cons: "c \<noteq> MetaC \<Longrightarrow> unmeta_bytes (c # w) = utf8_bytes c @ unmeta_bytes w"
  by (cases w) simp_all

lemma unmeta_byte: "b < 256 \<Longrightarrow> unmeta_bytes (metafied_byte b @ w) = b # unmeta_bytes w"
  using xor32 [of b] unmeta_Cons [of b w]
  by (auto simp: metafied_byte_def meta_byte_def MetaC_def utf8_bytes_small xor.assoc)

lemma unmeta_byte_texts: "\<forall>b \<in> set bs. b < 256 \<Longrightarrow> unmeta_bytes (concat (map metafied_byte bs) @ w) = bs @ unmeta_bytes w"
  by (induction bs) (simp_all add: unmeta_byte)

text \<open>What the reader makes of a unit.\<close>

definition unit_read :: "quote_conf \<Rightarrow> MetaChar \<Rightarrow> word_text" where
  "unit_read Q mc = (if mc_printable Q mc then push_metachar mc else concat (map metafied_byte (unit_bytes mc)))"

lemma unit_read_bytes:
  assumes "plain_unit mc" "\<not> q_iswprint Q MetaC"
  shows "unmeta_bytes (unit_read Q mc @ w) = unit_bytes mc @ unmeta_bytes w"
proof (cases mc)
  case (Ch c)
  have b: "\<forall>b \<in> set (utf8_bytes c). b < 256" using assms(1) Ch utf8_bytes_bound by (simp add: plain_unit_def)
  show ?thesis using assms(2) unmeta_Cons [of c w] unmeta_byte_texts [OF b, of w]
    by (auto simp: Ch unit_read_def mc_printable_def push_metachar_def unit_bytes_def)
next
  case (Raw b)
  then have "b < 256" "\<not> b < 0x80" using assms(1) by (simp_all add: plain_unit_def)
  then show ?thesis using unmeta_byte [of b w]
    by (simp add: Raw unit_read_def push_metachar_def unit_bytes_def metafied_byte_def)
qed (use assms(1) in \<open>simp add: plain_unit_def\<close>)

lemma units_read_bytes:
  "list_all plain_unit mcs \<Longrightarrow> \<not> q_iswprint Q MetaC \<Longrightarrow>
     unmeta_bytes (concat (map (unit_read Q) mcs)) = concat (map unit_bytes mcs)"
  by (induction mcs) (simp_all add: unit_read_bytes)

end
