(* ===== verification/KeyFacts.thy ===== *)
theory KeyFacts
  imports QuoteUnits
begin

text \<open>
  The reader of the text between dollar-quotes, turn by turn: plain characters, named escapes, octal
  escapes and characters that stand for themselves.
\<close>

section \<open>Three octal digits\<close>

lemma octal_step:
  assumes "x < 8" "a < 2 ^ 32"
  shows "zstrtol_loop 8 u (digit_char x # s) i (of_nat a) None = zstrtol_loop 8 u s (i + 1) (of_nat (8 * a + x)) None"
proof -
  have n: "unat (of_nat a :: 64 word) = a" "unat (of_nat (8 * a + x) :: 64 word) = 8 * a + x"
    using assms by (simp_all add: unat_of_nat del: of_nat_add of_nat_mult)
  have eq: "of_nat a * of_nat 8 + of_nat x = (of_nat (8 * a + x) :: 64 word)" by simp
  have "\<not> (of_nat (8 * a + x) :: 64 word) < of_nat a" by (simp add: word_less_nat_alt n del: of_nat_add of_nat_mult)
  moreover have "zstrtol_digit 8 (digit_char x) = Some x" using assms(1) by (simp add: zstrtol_digit_def)
  ultimately show ?thesis by (simp only: zstrtol_loop.simps option.case eq Let_def if_False)
qed

lemma octal_scan:
  assumes "x < 8" "zstrtol_loop 8 False (digit_char x # s) 0 0 None = (i, of_nat v, None)" "v < 2 ^ 32"
  shows "zstrtol C (digit_char x # s) 8 = (of_nat v, i, None)"
proof -
  have sign: "zstrtol_sign (digit_char x # s) = (0, False)"
    using is_digit_digit_char [of x] assms(1)
    by (auto simp: zstrtol_sign_def span_len_def is_digit_def byte_def simp del: is_digit_digit_char)
  have "sint (word_of_int (int v) :: 64 word) = int v"
    using assms(3) by (intro sint_of_range) simp_all
  then have "\<not> sint (of_nat v :: 64 word) < 0" by simp
  then have "zstrtol_clip 8 False (i, of_nat v, None) = (i, of_nat v, None)" by (simp add: zstrtol_clip_def)
  then show ?thesis using assms(2) by (simp add: zstrtol_def zstrtol_underscore_def zstrtol_base_def sign)
qed

lemma octal_three:
  assumes "x < 8" "y < 8" "z < 8"
  shows "zstrtol C [digit_char x, digit_char y, digit_char z] 8 = (of_nat (64 * x + 8 * y + z), 3, None)"
proof (rule octal_scan [OF assms(1)])
  note nosimps = zstrtol_loop.simps(2) of_nat_add of_nat_mult
  have "zstrtol_loop 8 False [digit_char x, digit_char y, digit_char z] 0 0 None =
      zstrtol_loop 8 False [digit_char y, digit_char z] 1 (of_nat x) None"
    using octal_step [of x 0 False "[digit_char y, digit_char z]" 0] assms by (simp del: nosimps)
  also have "\<dots> = zstrtol_loop 8 False [digit_char z] (1 + 1) (of_nat (8 * x + y)) None"
    using octal_step [of y x False "[digit_char z]" 1] assms by (simp del: nosimps)
  also have "\<dots> = (3, of_nat (8 * (8 * x + y) + z), None)"
    using octal_step [of z "8 * x + y" False "[]" "1 + 1"] assms by (simp del: nosimps)
  also have "8 * (8 * x + y) + z = 64 * x + 8 * y + z" by simp
  finally show "zstrtol_loop 8 False [digit_char x, digit_char y, digit_char z] 0 0 None =
      (3, of_nat (64 * x + 8 * y + z), None)" .
qed (use assms in simp)

lemma octal_zero:
  assumes "s = [] \<or> byte (hd s) < 48 \<or> 55 < byte (hd s)"
  shows "zstrtol C (digit_char 0 # s) 8 = (0, 1, None)"
proof -
  have "zstrtol_loop 8 False s 1 0 None = (1, 0, None)" using assms by (cases s) (auto simp: zstrtol_digit_def)
  then have "zstrtol_loop 8 False (digit_char 0 # s) 0 0 None = (1, of_nat 0, None)"
    using octal_step [of 0 0 False s 0] by (simp del: zstrtol_loop.simps)
  from octal_scan [OF _ this, of C] show ?thesis by simp
qed

section \<open>Numeric escapes\<close>

lemma dollars_asks [simp]:
  "asks GETKEYS_DOLLARS_QUOTE GETKEY_OCTAL_ESC" "asks GETKEYS_DOLLARS_QUOTE GETKEY_EMACS"
  "\<not> asks GETKEYS_DOLLARS_QUOTE GETKEY_CTRL" "\<not> asks GETKEYS_DOLLARS_QUOTE GETKEY_BACKSLASH_C"
  "asks GETKEYS_DOLLARS_QUOTE GETKEY_DOLLAR_QUOTE" "\<not> asks GETKEYS_DOLLARS_QUOTE GETKEY_BACKSLASH_MINUS"
  "\<not> asks GETKEYS_DOLLARS_QUOTE GETKEY_UPDATE_OFFSET" "\<not> asks GETKEYS_DOLLARS_QUOTE GETKEY_PRINTF_PERCENT"
  by (simp_all add: asks_def getkey_flags GETKEYS_DOLLARS_QUOTE_def)

lemma numeric_window:
  assumes "48 \<le> d" "d \<le> 55" "zstrtol (key_math K) (text_string (d # take 2 cs)) 8 = (num, used, e)"
  shows "numeric_value K GETKEYS_DOLLARS_QUOTE d cs = (unat num mod 256, chars_in used (d # take 2 cs) - 1)"
proof -
  have "(if 3 \<le> length (take 4 cs) then take 2 (take 4 cs) else take 4 cs) = take 2 cs" by auto
  then show ?thesis using assms by (cases "3 \<le> length cs") (simp_all add: numeric_value_def Let_def)
qed

lemma text_string_Cons: "c < 128 \<Longrightarrow> text_string (c # w) = char_of c # text_string w"
  by (simp add: text_string_def utf8_bytes_small)

lemma numeric_three:
  assumes "x < 4" "y < 8" "z < 8"
  shows "numeric_value K GETKEYS_DOLLARS_QUOTE (48 + x) ((48 + y) # (48 + z) # cs) = (64 * x + 8 * y + z, 2)"
proof -
  have "text_string [48 + x, 48 + y, 48 + z] = [digit_char x, digit_char y, digit_char z]"
    using assms by (simp add: text_string_Cons digit_char_def) (simp add: text_string_def)
  then have "zstrtol (key_math K) (text_string ((48 + x) # take 2 ((48 + y) # (48 + z) # cs))) 8 =
      (of_nat (64 * x + 8 * y + z), 3, None)"
    using octal_three [of x y z "key_math K"] assms by (simp add: numeral_2_eq_2)
  note w = numeric_window [OF _ _ this]
  have "64 * x + 8 * y + z < 256" using assms by simp
  then have "unat (of_nat (64 * x + 8 * y + z) :: 64 word) mod 256 = 64 * x + 8 * y + z"
    by (simp add: unat_of_nat del: of_nat_add of_nat_mult)
  then show ?thesis using w assms by (simp add: utf8_bytes_small numeral_2_eq_2 numeral_3_eq_3 del: of_nat_add of_nat_mult)
qed

lemma numeric_zero:
  assumes "scalars cs" "cs = [] \<or> hd cs < 48 \<or> 55 < hd cs"
  shows "numeric_value K GETKEYS_DOLLARS_QUOTE 48 cs = (0, 0)"
proof -
  have "text_string (take 2 cs) = [] \<or> byte (hd (text_string (take 2 cs))) < 48 \<or> 55 < byte (hd (text_string (take 2 cs)))"
  proof (cases cs)
    case (Cons c r)
    have "hd (text_string (c # w)) = char_of (hd (utf8_bytes c))" for w
      by (simp add: text_string_def hd_append utf8_bytes_ne hd_map)
    moreover have "(of_char (char_of (hd (utf8_bytes c)) :: char) :: nat) < 48 \<or> 55 < (of_char (char_of (hd (utf8_bytes c)) :: char) :: nat)"
      using assms Cons by (auto simp: utf8_bytes_def scalars_def char_from_u32_def split: if_splits)
    ultimately show ?thesis by (simp add: Cons byte_def numeral_2_eq_2)
  qed (simp add: text_string_def)
  note z = octal_zero [OF this, of "key_math K"]
  have "digit_char 0 # text_string (take 2 cs) = text_string (48 # take 2 cs)"
    by (simp add: text_string_Cons digit_char_def)
  from numeric_window [OF _ _ z [unfolded this]] show ?thesis by (simp add: utf8_bytes_small)
qed

section \<open>The reader of text between dollar-quotes\<close>

text \<open>With nothing pending, the reader takes \<open>w\<close> and adds \<open>out\<close>.\<close>

definition calm_keys :: "keys \<Rightarrow> bool" where
  "calm_keys st \<longleftrightarrow> ks_mask st = None \<and> \<not> ks_control st"

definition key_reads :: "('f, 'e) key_conf \<Rightarrow> word_text \<Rightarrow> word_text \<Rightarrow> word_text \<Rightarrow> bool" where
  "key_reads K w rest out \<longleftrightarrow> (\<forall>st. calm_keys st \<longrightarrow> (\<exists>st'. calm_keys st' \<and> ks_result st' = ks_result st @ out \<and>
     key_loop K GETKEYS_DOLLARS_QUOTE (w @ rest) st = key_loop K GETKEYS_DOLLARS_QUOTE rest st'))"

lemma key_reads_Nil: "key_reads K [] rest []"
  by (auto simp: key_reads_def)

lemma key_reads_append:
  assumes "key_reads K w (v @ rest) out" "key_reads K v rest out'"
  shows "key_reads K (w @ v) rest (out @ out')"
  unfolding key_reads_def
proof (intro allI impI)
  fix st assume "calm_keys st"
  then obtain st1 where a: "calm_keys st1" "ks_result st1 = ks_result st @ out"
      "key_loop K GETKEYS_DOLLARS_QUOTE (w @ v @ rest) st = key_loop K GETKEYS_DOLLARS_QUOTE (v @ rest) st1"
    using assms(1) unfolding key_reads_def by blast
  obtain st2 where "calm_keys st2" "ks_result st2 = ks_result st1 @ out'"
      "key_loop K GETKEYS_DOLLARS_QUOTE (v @ rest) st1 = key_loop K GETKEYS_DOLLARS_QUOTE rest st2"
    using assms(2) a(1) unfolding key_reads_def by blast
  then show "\<exists>st'. calm_keys st' \<and> ks_result st' = ks_result st @ out @ out' \<and>
      key_loop K GETKEYS_DOLLARS_QUOTE ((w @ v) @ rest) st = key_loop K GETKEYS_DOLLARS_QUOTE rest st'"
    using a by auto
qed

lemma settle_calm:
  assumes "calm_keys st" "\<not> key_posixstrings K"
  shows "calm_keys (settle_turn K how st)" "ks_result (settle_turn K how st) = ks_result st"
  using assms by (simp_all add: settle_turn_def posix_cut_def apply_pending_mask_def flush_tbuf_def calm_keys_def Let_def
      split: option.splits)

text \<open>A turn from a calm_keys state starts in a calm_keys one with the same output.\<close>

definition turn_state :: "('f, 'e) key_conf \<Rightarrow> nat \<Rightarrow> word_text \<Rightarrow> keys \<Rightarrow> keys" where
  "turn_state K c cs st = took (length (utf8_bytes c)) (mark_chunk c cs (settle_turn K GETKEYS_DOLLARS_QUOTE st))"

lemma turn_state_calm:
  assumes "calm_keys st" "\<not> key_posixstrings K"
  shows "calm_keys (turn_state K c cs st)" "ks_result (turn_state K c cs st) = ks_result st"
  using settle_calm [OF assms] by (simp_all add: turn_state_def took_def mark_chunk_def calm_keys_def)

lemma calm_keys_simps [simp]:
  "calm_keys (put_text w st) = calm_keys st" "calm_keys (took n st) = calm_keys st"
  "ks_result (put_text w st) = ks_result st @ w" "ks_result (took n st) = ks_result st"
  by (simp_all add: put_text_def took_def calm_keys_def)

lemma key_turn_dollar:
  "key_turn_at K GETKEYS_DOLLARS_QUOTE c cs st =
    (if c \<noteq> Backslash then Goes (put_text [c] (turn_state K c cs st)) 0
     else escape_turn K GETKEYS_DOLLARS_QUOTE (ks_consumed (turn_state K c cs st) - 1) cs (turn_state K c cs st))"
  by (simp add: key_turn_at_def turn_state_def Let_def)

lemma key_reads_turn:
  assumes "\<not> key_posixstrings K"
    "\<And>st. \<exists>st'. key_turn_at K GETKEYS_DOLLARS_QUOTE c (w @ rest) st = Goes st' (length w) \<and>
       (calm_keys (turn_state K c (w @ rest) st) \<longrightarrow> calm_keys st' \<and> ks_result st' = ks_result (turn_state K c (w @ rest) st) @ out)"
  shows "key_reads K (c # w) rest out"
  unfolding key_reads_def
proof (intro allI impI)
  fix st assume st: "calm_keys st"
  obtain st' where t: "key_turn_at K GETKEYS_DOLLARS_QUOTE c (w @ rest) st = Goes st' (length w)"
      "calm_keys (turn_state K c (w @ rest) st) \<longrightarrow> calm_keys st' \<and> ks_result st' = ks_result (turn_state K c (w @ rest) st) @ out"
    using assms(2) by blast
  have "key_loop K GETKEYS_DOLLARS_QUOTE ((c # w) @ rest) st = key_loop K GETKEYS_DOLLARS_QUOTE rest st'"
    by (simp add: t(1))
  then show "\<exists>st'. calm_keys st' \<and> ks_result st' = ks_result st @ out \<and>
      key_loop K GETKEYS_DOLLARS_QUOTE ((c # w) @ rest) st = key_loop K GETKEYS_DOLLARS_QUOTE rest st'"
    using t(2) turn_state_calm [OF st assms(1)] by metis
qed

lemma key_reads_plain:
  "\<not> key_posixstrings K \<Longrightarrow> c \<noteq> Backslash \<Longrightarrow> key_reads K [c] rest [c]"
  using key_reads_turn [of K c "[]" rest "[c]"] by (simp add: key_turn_dollar)

lemma key_reads_plain_text:
  "\<not> key_posixstrings K \<Longrightarrow> Backslash \<notin> set w \<Longrightarrow> key_reads K w rest w"
proof (induction w)
  case (Cons c w)
  then show ?case using key_reads_append [of K "[c]" w rest "[c]" w] key_reads_plain [of K c] by simp
qed (simp add: key_reads_Nil)

text \<open>A backslash and a letter of the table.\<close>

lemma key_reads_named:
  assumes "\<not> key_posixstrings K" "named_escape c = Some y"
  shows "key_reads K [Backslash, c] rest [y]"
  by (rule key_reads_turn [OF assms(1)]) (simp add: key_turn_dollar escape_turn_def Let_def assms(2) before_misc_def)

text \<open>A character that stands for itself after a backslash.\<close>

definition stands_alone :: "('f, 'e) key_conf \<Rightarrow> nat \<Rightarrow> bool" where
  "stands_alone K c \<longleftrightarrow> c = Backslash \<or>
     (named_escape c = None \<and> c \<notin> {101, 69, 117, 85, 120, 67, 77, 99} \<and> \<not> (48 \<le> c \<and> c \<le> 55) \<and>
      (key_bash K \<longrightarrow> c = 39 \<or> c = 34 \<or> c = 63))"

lemma key_reads_alone:
  assumes "\<not> key_posixstrings K" "stands_alone K c"
  shows "key_reads K [Backslash, c] rest [c]"
proof (rule key_reads_turn [OF assms(1)])
  fix st
  have e: "other_escape K GETKEYS_DOLLARS_QUOTE False c rest st1 = Goes (put_text [c] (took 1 st1)) 1"
    if "c \<noteq> Backslash" for st1
    using that assms(2) by (auto simp: other_escape_def stands_alone_def bash_dollar_def Let_def)
  have "escape_turn K GETKEYS_DOLLARS_QUOTE off (c # rest) st1 = Goes (put_text [c] (took 1 st1)) 1" for off st1
  proof (cases "c = Backslash")
    case True
    then show ?thesis by (simp add: escape_turn_def before_misc_def named_escape_def Let_def)
  next
    case False
    then have "named_escape c = None" "c \<noteq> 101" "c \<noteq> 69" "c \<noteq> 117" "c \<noteq> 85" "c \<noteq> 120" "c \<noteq> 67" "c \<noteq> 77"
        "\<not> (48 \<le> c \<and> c \<le> 55)"
      using assms(2) by (simp_all add: stands_alone_def)
    then show ?thesis using False
      by (simp only: escape_turn_def before_misc_def dollars_asks list.case option.case Let_def simp_thms if_False e [OF False])
  qed
  then show "\<exists>st'. key_turn_at K GETKEYS_DOLLARS_QUOTE Backslash ([c] @ rest) st = Goes st' (length [c]) \<and>
      (calm_keys (turn_state K Backslash ([c] @ rest) st) \<longrightarrow>
       calm_keys st' \<and> ks_result st' = ks_result (turn_state K Backslash ([c] @ rest) st) @ [c])"
    by (simp add: key_turn_dollar)
qed

text \<open>A backslash and octal digits.\<close>

lemma key_reads_numeric:
  assumes "\<not> key_posixstrings K" "48 \<le> d" "d \<le> 55"
    "numeric_value K GETKEYS_DOLLARS_QUOTE d (w @ rest) = (b, length w)"
  shows "key_reads K (Backslash # d # w) rest (metafied_byte b)"
proof (rule key_reads_turn [OF assms(1)])
  fix st
  have "named_escape d = None" using assms(2, 3) by (auto simp: named_escape_def)
  then have "escape_turn K GETKEYS_DOLLARS_QUOTE off (d # w @ rest) st1 =
      Goes (put_text (metafied_byte b) (took (length w) (took 1 st1))) (Suc (length w))" for off st1
    using assms by (auto simp: escape_turn_def before_misc_def numeric_escape_def bash_dollar_def Let_def)
  then show "\<exists>st'. key_turn_at K GETKEYS_DOLLARS_QUOTE Backslash ((d # w) @ rest) st = Goes st' (length (d # w)) \<and>
      (calm_keys (turn_state K Backslash ((d # w) @ rest) st) \<longrightarrow>
       calm_keys st' \<and> ks_result st' = ks_result (turn_state K Backslash ((d # w) @ rest) st) @ metafied_byte b)"
    by (simp add: key_turn_dollar)
qed

lemma key_reads_octal:
  assumes "\<not> key_posixstrings K" "x < 4" "y < 8" "z < 8"
  shows "key_reads K [Backslash, 48 + x, 48 + y, 48 + z] rest (metafied_byte (64 * x + 8 * y + z))"
  using key_reads_numeric [OF assms(1), of "48 + x" "[48 + y, 48 + z]" rest] numeric_three [OF assms(2-4), of K rest] assms(2)
  by (simp add: numeral_2_eq_2)

lemma key_reads_nul:
  assumes "\<not> key_posixstrings K" "scalars rest" "rest = [] \<or> hd rest < 48 \<or> 55 < hd rest"
  shows "key_reads K [Backslash, 48] rest [0]"
  using key_reads_numeric [OF assms(1), of 48 "[]" rest 0] numeric_zero [OF assms(2, 3), of K]
  by (simp add: metafied_byte_def)

end
