(* ===== verification/QuoteFacts.thy ===== *)
theory QuoteFacts
  imports KeyFacts MathDemo
begin

text \<open>
  What the writer of dollar-quotes makes of every unit is read back as that unit, so the two functions are
  inverse to each other on the bytes of a string.
\<close>

section \<open>What the writer makes is text\<close>

lemma scalars_append [simp]: "scalars (v @ w) \<longleftrightarrow> scalars v \<and> scalars w"
  by (simp add: scalars_def)







section \<open>One byte\<close>





section \<open>One unit\<close>





section \<open>The round trip\<close>



section \<open>At a configuration\<close>

definition demo_quotes :: quote_conf where
  "demo_quotes = \<lparr>q_multibyte = True, q_not_utf8 = False, q_cur_max = 6, q_decode = (\<lambda>_. (0, None)),
     q_converts = (\<lambda>_. False), q_iswprint = (\<lambda>c. 32 \<le> c \<and> c < 127 \<or> 160 \<le> c),
     q_ispecial = (\<lambda>c. c = 59), q_banghist = True, q_bangchar = 33, q_magicequal = False, q_extendedglob = False,
     q_rcquotes = False\<rparr>"

definition demo_keys :: "(int, demo_env) key_conf" where
  "demo_keys = \<lparr>key_math = demo_conf, key_posixstrings = False, key_ucs4 = (\<lambda>c. map_option utf8_bytes (char_from_u32 c))\<rparr>"


text \<open>A history character that is the letter of an escape is not read back.\<close>

theorem history_letter_lost:
  "quotestring (demo_quotes\<lparr>q_bangchar := 110\<rparr>) [110] QT_DOLLARS = [Backslash, 110] \<and>
   ks_result (getkeystring demo_keys [Backslash, 110] GETKEYS_DOLLARS_QUOTE None) = [10]"
proof
  have "utf8_first [110] = Some (110, 1)" by (simp add: utf8_first_def scalar_of_def char_from_u32_def utf8_bytes_def)
  then show "quotestring (demo_quotes\<lparr>q_bangchar := 110\<rparr>) [110] QT_DOLLARS = [Backslash, 110]"
    by (simp add: quotestring_def quote_styles skip_inull_def inull_char_def Snull_def meta_chars_def utf8_bytes_def first_unit_def
        demo_quotes_def mc_printable_def dollar_escaped_def bang_now_def push_metachar_def)
  have "key_reads demo_keys [Backslash, 110] [] [10]"
    by (rule key_reads_named) (simp_all add: demo_keys_def named_escape_def)
  moreover have c: "calm_keys (start_keys None)" by (simp add: calm_keys_def start_keys_def)
  ultimately obtain st' where st': "calm_keys st'" "ks_result st' = [10]"
      "key_loop demo_keys GETKEYS_DOLLARS_QUOTE [Backslash, 110] (start_keys None) = key_loop demo_keys GETKEYS_DOLLARS_QUOTE [] st'"
    unfolding key_reads_def by (auto simp: start_keys_def)
  have "\<not> key_posixstrings demo_keys" by (simp add: demo_keys_def)
  from settle_calm(2) [OF st'(1) this] st'(2,3)
  show "ks_result (getkeystring demo_keys [Backslash, 110] GETKEYS_DOLLARS_QUOTE None) = [10]"
    by (simp add: getkeystring_def)
qed

end
