(* ===== verification/NiceText.thy ===== *)
theory NiceText
  imports KeyString
begin

text \<open>
  Text made visible and text made safe to read again: \<open>nicechar\<close>, \<open>wcs_nicechar\<close>, \<open>mb_niceformat\<close> and
  \<open>is_mb_niceformat\<close>, \<open>hasspecial\<close>, \<open>quotedzputs\<close> and \<open>dquotedztrdup\<close> of \<open>src/src/ported/utils.rs\<close>, and
  \<open>bindztrdup\<close> of \<open>src/src/ported/zle/zle_utils.rs\<close>.  \<open>'m\<close> is the shift state of \<open>mbrtowc\<close>; the locale, the
  character tables and the options are the fields of \<open>nice_conf\<close>.
\<close>

section \<open>The locale\<close>

text \<open>\<open>mbrtowc\<close>: the bytes end inside a character, they are none, or a character of so many bytes.\<close>

datatype mb_result = MbIncomplete | MbInvalid | MbTook nat nat

record 'm nice_conf =
  n_multibyte :: bool
  n_not_utf8 :: bool
  n_cur_max :: nat
  n_mbrtowc :: "'m \<Rightarrow> nat list \<Rightarrow> mb_result \<times> 'm"
  n_zero :: 'm
  n_wcrtomb :: "nat \<Rightarrow> nat list option"
  n_iswprint :: "nat \<Rightarrow> bool"
  n_wcwidth :: "nat \<Rightarrow> int"
  n_ispecial :: "nat \<Rightarrow> bool"
  n_printeightbit :: bool
  n_cshjunkiequotes :: bool
  n_rcquotes :: bool

definition n_multi :: "'m nice_conf \<Rightarrow> bool" where
  "n_multi N \<longleftrightarrow> n_not_utf8 N \<and> 1 < n_cur_max N"

definition n_single :: "'m nice_conf \<Rightarrow> bool" where
  "n_single N \<longleftrightarrow> n_not_utf8 N \<and> \<not> n_multi N"

definition NICEFLAG_QUOTE :: nat where "NICEFLAG_QUOTE = 2"
definition NICEFLAG_NODUP :: nat where "NICEFLAG_NODUP = 4"
definition Dash :: nat where "Dash = 0xE19B"

text \<open>\<open>str::len\<close>.\<close>

definition text_len :: "word_text \<Rightarrow> nat" where
  "text_len w = sum_list (map (\<lambda>c. length (utf8_bytes c)) w)"

fun ztrlen :: "word_text \<Rightarrow> nat" where
  "ztrlen [] = 0"
| "ztrlen [c] = 1"
| "ztrlen (c # n # cs) = Suc (if c = MetaC then ztrlen cs else ztrlen (n # cs))"

section \<open>One character\<close>

definition ZISPRINT :: "nat \<Rightarrow> bool" where "ZISPRINT c \<longleftrightarrow> 32 \<le> c \<and> c < 127"

definition control_prefix :: "bool \<Rightarrow> word_text" where
  "control_prefix quotable = (if quotable then text_of [CHR 0x5C, CHR ''C'', CHR ''-''] else [94])"

definition nice_control :: "bool \<Rightarrow> nat \<Rightarrow> word_text" where
  "nice_control quotable c =
    (if c = 0x7F then control_prefix quotable @ [63]
     else if c = 10 then [Backslash, 110] else if c = 9 then [Backslash, 116]
     else if c < 32 then control_prefix quotable @ [c + 0x40] else [c])"

definition nicechar_sel :: "'m nice_conf \<Rightarrow> nat \<Rightarrow> bool \<Rightarrow> word_text" where
  "nicechar_sel N c0 quotable =
    (let c = c0 mod 256 in
     if ZISPRINT c then [c]
     else if 0x80 \<le> c \<and> \<not> n_printeightbit N then
       [Backslash, 77, 45] @ (if ZISPRINT (c - 0x80) then [c - 0x80] else nice_control quotable (c - 0x80))
     else nice_control quotable c)"

definition nicechar :: "'m nice_conf \<Rightarrow> nat \<Rightarrow> word_text" where
  "nicechar N c = nicechar_sel N c False"

definition is_nicechar :: "'m nice_conf \<Rightarrow> nat \<Rightarrow> bool" where
  "is_nicechar N c0 =
    (let c = c0 mod 256 in
     if ZISPRINT c then False
     else if 0x80 \<le> c then \<not> n_printeightbit N
     else c = 0x7F \<or> c = 10 \<or> c = 9 \<or> c < 32)"

definition zwcwidth :: "'m nice_conf \<Rightarrow> nat \<Rightarrow> nat" where
  "zwcwidth N c = (if \<not> n_multibyte N \<or> n_wcwidth N c < 0 then 1 else nat (n_wcwidth N c))"

definition hex_char :: "nat \<Rightarrow> nat" where "hex_char d = (if d < 10 then 48 + d else 87 + d)"

fun hex_text :: "nat \<Rightarrow> nat \<Rightarrow> word_text" where
  "hex_text 0 n = []"
| "hex_text (Suc k) n = hex_text k (n div 16) @ [hex_char (n mod 16)]"

definition hex_escape :: "nat \<Rightarrow> word_text \<times> nat" where
  "hex_escape c = (if 0x10000 \<le> c then (Backslash # 85 # hex_text 8 c, 10) else (Backslash # 117 # hex_text 4 c, 6))"

text \<open>The text and its width.\<close>

definition wcs_nicechar_sel :: "'m nice_conf \<Rightarrow> nat \<Rightarrow> bool \<Rightarrow> word_text \<times> nat" where
  "wcs_nicechar_sel N c quotable =
    (let printable = n_iswprint N c; plain = (printable \<or> 0x80 \<le> c \<and> n_printeightbit N) in
     if \<not> plain \<and> (c = 0x7F \<or> c < 0x20) then (nice_control quotable c, length (nice_control quotable c))
     else if plain \<and> c < 0x80 then ([c], 1)
     else if printable then ([c], zwcwidth N c)
     else if 0x100 \<le> c then hex_escape c
     else (nicechar_sel N c quotable, ztrlen (nicechar_sel N c quotable)))"

definition wcs_nicechar :: "'m nice_conf \<Rightarrow> nat \<Rightarrow> word_text \<times> nat" where
  "wcs_nicechar N c = wcs_nicechar_sel N c False"

definition is_wcs_nicechar :: "'m nice_conf \<Rightarrow> nat \<Rightarrow> bool" where
  "is_wcs_nicechar N c \<longleftrightarrow>
    \<not> n_iswprint N c \<and> (c < 0x80 \<or> \<not> n_printeightbit N) \<and>
    (c = 0x7F \<or> c = 10 \<or> c = 9 \<or> c < 0x20 \<or> (0x80 \<le> c \<and> (0x100 \<le> c \<or> is_nicechar N c)))"

section \<open>A whole string\<close>

text \<open>Tokens become what they were typed as.\<close>

fun untokenize_ztokens :: "word_text \<Rightarrow> word_text" where
  "untokenize_ztokens [] = []"
| "untokenize_ztokens (c # cs) =
    (if c = MetaC \<and> cs \<noteq> [] then c # hd cs # untokenize_ztokens (tl cs)
     else (if itok_char c then
        (if c = BNularg then [] else if c - Pound < length ZTOKENS then [ZTOKENS ! (c - Pound)] else [c])
      else [c]) @ untokenize_ztokens cs)"

definition nice_bytes :: "word_text \<Rightarrow> nat list" where
  "nice_bytes s = unmeta_bytes (untokenize_ztokens s)"

text \<open>\<open>Utf8Error::error_len\<close> is \<open>None\<close>: the bytes end inside a character.\<close>

definition utf8_cont :: "nat \<Rightarrow> bool" where "utf8_cont b \<longleftrightarrow> 0x80 \<le> b \<and> b \<le> 0xBF"

definition utf8_second :: "nat \<Rightarrow> nat \<Rightarrow> bool" where
  "utf8_second a b \<longleftrightarrow>
    (if a = 0xE0 then 0xA0 \<le> b \<and> b \<le> 0xBF else if a = 0xED then 0x80 \<le> b \<and> b \<le> 0x9F
     else if a = 0xF0 then 0x90 \<le> b \<and> b \<le> 0xBF else if a = 0xF4 then 0x80 \<le> b \<and> b \<le> 0x8F else utf8_cont b)"

definition utf8_partial :: "nat list \<Rightarrow> bool" where
  "utf8_partial bs = (case bs of
     [a] \<Rightarrow> 0xC2 \<le> a \<and> a \<le> 0xF4
   | [a, b] \<Rightarrow> 0xE0 \<le> a \<and> a \<le> 0xF4 \<and> utf8_second a b
   | [a, b, c] \<Rightarrow> 0xF0 \<le> a \<and> a \<le> 0xF4 \<and> utf8_second a b \<and> utf8_cont c
   | _ \<Rightarrow> False)"

text \<open>The next character: itself if it converts, how many bytes it has after the first, its wide code when
  \<open>mbrtowc\<close> gave one, whether the string ended inside it, and the shift state.\<close>

definition nice_decode ::
  "'m nice_conf \<Rightarrow> bool \<Rightarrow> 'm \<Rightarrow> nat \<Rightarrow> nat list \<Rightarrow> nat option \<times> nat \<times> nat option \<times> bool \<times> 'm" where
  "nice_decode N eol mbs b bs =
    (if eol then (None, 0, None, True, mbs)
     else if n_multi N then (case n_mbrtowc N mbs (b # bs) of
         (MbIncomplete, mbs1) \<Rightarrow> (None, 0, None, True, mbs1)
       | (MbInvalid, mbs1) \<Rightarrow> (None, 0, None, False, mbs1)
       | (MbTook r wc, mbs1) \<Rightarrow> (char_from_u32 wc, r - 1, Some wc, False, mbs1))
     else if n_single N then
       (if fst (n_mbrtowc N (n_zero N) [b]) = MbInvalid then None else Some b, 0, None, False, mbs)
     else (case utf8_first (b # bs) of
         Some (c, k) \<Rightarrow> (Some c, k - 1, None, False, mbs)
       | None \<Rightarrow> (None, 0, None, utf8_partial (take 4 (b # bs)), mbs)))"

text \<open>What is shown for it, with the width; the bytes \<open>wcrtomb\<close> gives when a character goes through.\<close>

definition nice_shown :: "'m nice_conf \<Rightarrow> bool \<Rightarrow> nat \<Rightarrow> nat option \<Rightarrow> nat option \<Rightarrow> word_text \<times> nat" where
  "nice_shown N quote b ch wc = (case ch of
     None \<Rightarrow> (case wc of
         Some w \<Rightarrow> if n_printeightbit N then ([], 1) else hex_escape w
       | None \<Rightarrow> (nicechar_sel N b quote, text_len (nicechar_sel N b quote)))
   | Some c \<Rightarrow>
       if c = 39 \<and> quote then ([Backslash, 39], 2)
       else if c = Backslash \<and> quote then ([Backslash, Backslash], 2)
       else wcs_nicechar_sel N c quote)"

definition nice_through :: "'m nice_conf \<Rightarrow> bool \<Rightarrow> word_text \<times> nat \<Rightarrow> nat option \<Rightarrow> nat option \<Rightarrow> (word_text \<times> nat) \<times> nat list option" where
  "nice_through N quote shown ch wc = (case wc of
     None \<Rightarrow> (shown, None)
   | Some w \<Rightarrow>
       if 0x80 \<le> w \<and> fst shown = (case ch of Some c \<Rightarrow> [c] | None \<Rightarrow> []) then
         (case n_wcrtomb N w of
            Some bs \<Rightarrow> (shown, Some bs)
          | None \<Rightarrow> (if 0x100 \<le> w then hex_escape w
                     else (nicechar_sel N w quote, ztrlen (nicechar_sel N w quote)), None))
       else (shown, None))"

text \<open>The pieces of the whole string with their widths.\<close>

function nice_pieces :: "'m nice_conf \<Rightarrow> bool \<Rightarrow> bool \<Rightarrow> 'm \<Rightarrow> nat list \<Rightarrow> ((word_text \<times> nat) \<times> nat list option) list" where
  "nice_pieces N quote eol mbs [] = []"
| "nice_pieces N quote eol mbs (b # bs) =
    (case nice_decode N eol mbs b bs of (ch, cnt, wc, eol1, mbs1) \<Rightarrow>
       nice_through N quote (nice_shown N quote b ch wc) ch wc #
       nice_pieces N quote eol1 (if ch = None \<and> wc = None then n_zero N else mbs1)
         (drop (if ch = None \<and> wc = None \<or> ch = Some 0 then 0 else cnt) bs))"
  by pat_completeness auto
termination by (relation "measure (\<lambda>(_, _, _, _, bs). length bs)") auto

definition niceformat :: "'m nice_conf \<Rightarrow> word_text \<Rightarrow> nat \<Rightarrow> ((word_text \<times> nat) \<times> nat list option) list" where
  "niceformat N s flags = nice_pieces N (asks flags NICEFLAG_QUOTE) False (n_zero N) (nice_bytes s)"

text \<open>The width, the text for a caller that keeps it, and the bytes for a stream.\<close>

definition mb_niceformat :: "'m nice_conf \<Rightarrow> word_text \<Rightarrow> nat \<Rightarrow> nat" where
  "mb_niceformat N s flags = sum_list (map (snd \<circ> fst) (niceformat N s flags))"

definition nice_text :: "'m nice_conf \<Rightarrow> word_text \<Rightarrow> nat \<Rightarrow> word_text" where
  "nice_text N s flags = concat (map (\<lambda>((fmt, _), through). case through of
       Some bs \<Rightarrow> concat (map metafied_byte bs)
     | None \<Rightarrow> if n_single N then concat (map (\<lambda>c. if 0x80 \<le> c \<and> c < 0x100 then meta_byte c else [c]) fmt) else fmt)
     (niceformat N s flags))"

definition nice_stream :: "'m nice_conf \<Rightarrow> word_text \<Rightarrow> nat \<Rightarrow> nat list" where
  "nice_stream N s flags = concat (map (\<lambda>((fmt, _), through). case through of
       Some bs \<Rightarrow> bs
     | None \<Rightarrow> concat (map (\<lambda>c. if n_single N \<and> c < 0x100 then [c] else utf8_bytes c) fmt))
     (niceformat N s flags))"

definition nicedup :: "'m nice_conf \<Rightarrow> word_text \<Rightarrow> nat \<Rightarrow> word_text" where
  "nicedup N s heap = nice_text N s (if heap \<noteq> 0 then 1 else 0)"

definition nicedupstring :: "'m nice_conf \<Rightarrow> word_text \<Rightarrow> word_text" where
  "nicedupstring N s = nicedup N s 1"

definition nicezputs :: "'m nice_conf \<Rightarrow> word_text \<Rightarrow> nat list" where
  "nicezputs N s = nice_stream N s 0"

definition niceztrlen :: "'m nice_conf \<Rightarrow> word_text \<Rightarrow> nat" where
  "niceztrlen N s =
    (if list_all (\<lambda>b. 0x20 \<le> b \<and> b < 0x7F) (concat (map utf8_bytes s)) then text_len s else mb_niceformat N s 0)"

section \<open>Whether a string needs it\<close>

function nice_multi :: "'m nice_conf \<Rightarrow> bool \<Rightarrow> 'm \<Rightarrow> nat list \<Rightarrow> bool" where
  "nice_multi N eol mbs [] = False"
| "nice_multi N eol mbs (b # bs) =
    (case (if eol then (MbInvalid, mbs) else n_mbrtowc N mbs (b # bs)) of
       (MbTook r wc, mbs1) \<Rightarrow>
         (case char_from_u32 wc of Some c \<Rightarrow> is_wcs_nicechar N c | None \<Rightarrow> \<not> n_printeightbit N) \<or>
         nice_multi N eol mbs1 (drop (r - 1) bs)
     | (MbInvalid, _) \<Rightarrow> is_nicechar N b \<or> nice_multi N eol (n_zero N) bs
     | (MbIncomplete, _) \<Rightarrow> is_nicechar N b \<or> nice_multi N True (n_zero N) bs)"
  by pat_completeness auto
termination by (relation "measure (\<lambda>(_, _, _, bs). length bs)") auto

definition nice_byte :: "'m nice_conf \<Rightarrow> nat \<Rightarrow> bool" where
  "nice_byte N b = (if fst (n_mbrtowc N (n_zero N) [b]) = MbInvalid then is_nicechar N b else is_wcs_nicechar N b)"

function nice_utf8 :: "'m nice_conf \<Rightarrow> nat list \<Rightarrow> bool" where
  "nice_utf8 N [] = False"
| "nice_utf8 N (b # bs) = (case utf8_first (b # bs) of
     Some (c, k) \<Rightarrow> is_wcs_nicechar N c \<or> nice_utf8 N (drop (k - 1) bs)
   | None \<Rightarrow> is_nicechar N b \<or> nice_utf8 N bs)"
  by pat_completeness auto
termination by (relation "measure (\<lambda>(_, bs). length bs)") auto

definition is_mb_niceformat :: "'m nice_conf \<Rightarrow> word_text \<Rightarrow> bool" where
  "is_mb_niceformat N s =
    (if n_multi N then nice_multi N False (n_zero N) (nice_bytes s)
     else if n_single N then list_ex (nice_byte N) (nice_bytes s)
     else nice_utf8 N (nice_bytes s))"

section \<open>Single quotes\<close>

fun special_in :: "(nat \<Rightarrow> bool) \<Rightarrow> nat list \<Rightarrow> bool" where
  "special_in P [] = False"
| "special_in P [b] = P b"
| "special_in P (b # n # bs) =
    (if b = MetaC then P (semiring_bit_operations_class.xor n 32) \<or> special_in P bs else P b \<or> special_in P (n # bs))"

definition hasspecial :: "'m nice_conf \<Rightarrow> word_text \<Rightarrow> bool" where
  "hasspecial N s = special_in (n_ispecial N) (concat (map utf8_bytes s))"

text \<open>The character a quoted one stands for, and what goes out for it.\<close>

fun quoted_chars :: "word_text \<Rightarrow> (nat \<times> word_text) list" where
  "quoted_chars [] = []"
| "quoted_chars (c # cs) =
    (if c = Dash then (45, [45]) # quoted_chars cs
     else if c = MetaC \<and> cs \<noteq> [] then
       (case char_from_u32 (semiring_bit_operations_class.xor (hd cs) 32) of Some d \<Rightarrow> d | None \<Rightarrow> hd cs, [c, hd cs]) #
         quoted_chars (tl cs)
     else (c, [c]) # quoted_chars cs)"

definition newline_mark :: "'m nice_conf \<Rightarrow> nat \<Rightarrow> word_text" where
  "newline_mark N c = (if c = 10 \<and> n_cshjunkiequotes N then [Backslash] else [])"

definition rc_quote :: "'m nice_conf \<Rightarrow> (nat \<times> word_text) list \<Rightarrow> word_text" where
  "rc_quote N items = 39 # concat (map (\<lambda>(c, w). (if c = 39 then [39] else newline_mark N c) @ w) items) @ [39]"

fun bourne_quote :: "'m nice_conf \<Rightarrow> bool \<Rightarrow> (nat \<times> word_text) list \<Rightarrow> word_text" where
  "bourne_quote N inquote [] = (if inquote then [39] else [])"
| "bourne_quote N inquote ((c, w) # items) =
    (if c = 39 then (if inquote then [39] else []) @ [Backslash, 39] @ bourne_quote N False items
     else (if inquote then [] else [39]) @ newline_mark N c @ w @ bourne_quote N True items)"

definition quotedzputs :: "'m nice_conf \<Rightarrow> word_text \<Rightarrow> word_text" where
  "quotedzputs N s =
    (if s = [] then [39, 39]
     else if is_mb_niceformat N s then [36, 39] @ nice_text N s (NICEFLAG_QUOTE + NICEFLAG_NODUP) @ [39]
     else if \<not> hasspecial N s then s
     else if n_rcquotes N then rc_quote N (quoted_chars s)
     else bourne_quote N False (quoted_chars s))"

section \<open>Double quotes\<close>

text \<open>\<open>String::from_utf8_lossy\<close>.\<close>

definition bad_len :: "nat list \<Rightarrow> nat" where
  "bad_len bs =
    (if 2 \<le> length bs \<and> 0xE0 \<le> bs ! 0 \<and> bs ! 0 \<le> 0xF4 \<and> utf8_second (bs ! 0) (bs ! 1)
     then (if 3 \<le> length bs \<and> 0xF0 \<le> bs ! 0 \<and> utf8_cont (bs ! 2) then 3 else 2) else 1)"

function from_utf8_lossy :: "nat list \<Rightarrow> word_text" where
  "from_utf8_lossy [] = []"
| "from_utf8_lossy (b # bs) = (case utf8_first (b # bs) of
     Some (c, k) \<Rightarrow> c # from_utf8_lossy (drop (k - 1) bs)
   | None \<Rightarrow> 0xFFFD # from_utf8_lossy (drop (bad_len (b # bs) - 1) bs))"
  by pat_completeness auto
termination by (relation "measure length") auto

definition is_imeta_byte :: "nat \<Rightarrow> bool" where
  "is_imeta_byte b \<longleftrightarrow> b = 0 \<or> (0x83 \<le> b \<and> b \<le> 0xA2)"

definition metafy :: "word_text \<Rightarrow> word_text" where
  "metafy w = from_utf8_lossy (concat (map (\<lambda>b.
     if is_imeta_byte b then [MetaC, semiring_bit_operations_class.xor b 32] else [b]) (concat (map utf8_bytes w))))"

text \<open>The bytes of the string, each as a character.\<close>

fun byte_chars :: "nat list \<Rightarrow> word_text" where
  "byte_chars [] = []"
| "byte_chars [b] = [b]"
| "byte_chars (b # n # bs) =
    (if b = MetaC then semiring_bit_operations_class.xor n 32 # byte_chars bs else b # byte_chars (n # bs))"

fun csh_double :: "bool \<Rightarrow> word_text \<Rightarrow> word_text" where
  "csh_double inquote [] = (if inquote then [34] else [])"
| "csh_double inquote (c # cs) =
    (if c = 34 \<or> c = 36 \<or> c = 96 then (if inquote then [34] else []) @ [Backslash, c] @ csh_double False cs
     else (if inquote then [] else [34]) @ (if c = 10 then [Backslash] else []) @ [c] @ csh_double True cs)"

fun double_body :: "bool \<Rightarrow> word_text \<Rightarrow> word_text" where
  "double_body pending [] = (if pending then [Backslash] else []) @ [34]"
| "double_body pending (c # cs) =
    (if c = Backslash then (if pending then [Backslash] else []) @ [Backslash] @ double_body True cs
     else if c = 34 \<or> c = 36 \<or> c = 96 then (if pending then [Backslash] else []) @ [Backslash, c] @ double_body False cs
     else c # double_body False cs)"

definition dquotedztrdup :: "'m nice_conf \<Rightarrow> word_text \<Rightarrow> word_text" where
  "dquotedztrdup N s = (let cs = byte_chars (concat (map utf8_bytes s)) in
     metafy (if n_cshjunkiequotes N then csh_double False cs else 34 # double_body False cs))"

definition dquotedzputs :: "'m nice_conf \<Rightarrow> word_text \<Rightarrow> word_text" where
  "dquotedzputs N s = dquotedztrdup N s"

section \<open>Key sequences\<close>

definition bind_low :: "nat \<Rightarrow> word_text" where
  "bind_low c =
    (let ctrl = (c < 32 \<or> c = 0x7F); d = (if ctrl then semiring_bit_operations_class.xor c 64 else c) in
     (if ctrl then [94] else []) @ (if d = Backslash \<or> d = 94 then [Backslash] else []) @ [d])"

definition bind_byte :: "nat \<Rightarrow> word_text" where
  "bind_byte b = (if 0x80 \<le> b then [Backslash, 77, 45] @ bind_low (b - 0x80) else bind_low b)"

definition bindztrdup :: "'m nice_conf \<Rightarrow> nat list \<Rightarrow> word_text" where
  "bindztrdup N seq = dquotedztrdup N (concat (map bind_byte seq))"

definition GETKEYS_BINDKEY :: nat where "GETKEYS_BINDKEY = 7"

text \<open>\<open>getkeystring\<close> of \<open>zle_bindings.rs\<close>: the bytes of a typed key sequence.\<close>

definition bindkey_bytes :: "('f, 'e) key_conf \<Rightarrow> word_text \<Rightarrow> nat list" where
  "bindkey_bytes K w = unmeta_bytes (ks_result (getkeystring K w GETKEYS_BINDKEY None))"

text \<open>\<open>ucs4toutf8\<close>.\<close>

fun utf8_tail :: "nat \<Rightarrow> nat \<Rightarrow> nat list \<Rightarrow> nat \<times> nat list" where
  "utf8_tail 0 w bs = (w, bs)"
| "utf8_tail (Suc n) w bs = utf8_tail n (w div 64) ((w mod 64 + 0x80) # bs)"

definition ucs4toutf8 :: "nat \<Rightarrow> nat list option" where
  "ucs4toutf8 wval =
    (let n = (if wval < 0x80 then 1 else if wval < 0x800 then 2 else if wval < 0x10000 then 3
              else if wval < 0x200000 then 4 else if wval < 0x4000000 then 5 else if wval < 0x80000000 then 6 else (0 :: nat)) in
     if n = 0 then None
     else if n = 1 then Some [wval]
     else (case utf8_tail (n - 1) wval [] of (w, bs) \<Rightarrow>
       Some (semiring_bit_operations_class.or (w mod 256) (semiring_bit_operations_class.and (0xFC * 2 ^ (6 - n)) 0xFC) # bs)))"

end
