(* ===== verification/BindFacts.thy ===== *)
theory BindFacts
  imports NiceText KeyFacts MathDemo
begin

text \<open>
  The listing of key sequences and its reader: what \<open>bindkey -L\<close> writes for a sequence of bytes, the shell
  and \<open>bindkey\<close> read back as those bytes, but for the two control characters and the pair of bytes they
  get wrong.
\<close>

section \<open>Text in double quotes\<close>

text \<open>What the shell makes of one word in double quotes that has no expansion.\<close>

fun double_inside :: "word_text \<Rightarrow> word_text option" where
  "double_inside [] = None"
| "double_inside [c] = (if c = 34 then Some [] else None)"
| "double_inside (c # d # r) =
    (if c = 34 \<or> c = 36 \<or> c = 96 then None
     else if c = Backslash then
       (if d = 34 \<or> d = 36 \<or> d = 96 \<or> d = Backslash then map_option (Cons d) (double_inside r)
        else if d = 10 then double_inside r else map_option (Cons c) (double_inside (d # r)))
     else map_option (Cons c) (double_inside (d # r)))"

definition double_word :: "word_text \<Rightarrow> word_text option" where
  "double_word w = (case w of c # r \<Rightarrow> if c = 34 then double_inside r else None | [] \<Rightarrow> None)"

lemma double_body_ne: "\<exists>c r. double_body p w = c # r"
  by (cases w) auto

lemma double_inside_plain:
  "c \<noteq> 34 \<Longrightarrow> c \<noteq> 36 \<Longrightarrow> c \<noteq> 96 \<Longrightarrow> c \<noteq> Backslash \<Longrightarrow>
     double_inside (c # double_body p w) = map_option (Cons c) (double_inside (double_body p w))"
  using double_body_ne [of p w] by auto

lemma double_inside_body:
  "10 \<notin> set w \<Longrightarrow>
     double_inside ((if p then [Backslash] else []) @ double_body p w) = Some ((if p then [Backslash] else []) @ w)"
proof (induction w arbitrary: p)
  case (Cons c w)
  have IH: "double_inside (double_body False w) = Some w" "double_inside (Backslash # double_body True w) = Some (Backslash # w)"
    using Cons.IH [of False] Cons.IH [of True] Cons.prems by simp_all
  show ?case
  proof (cases "c = Backslash \<or> c = 34 \<or> c = 36 \<or> c = 96")
    case True
    then show ?thesis using IH by (cases p) auto
  next
    case False
    then show ?thesis using IH(1) Cons.prems double_inside_plain [of c False w] by (cases p) auto
  qed
qed simp

lemma utf8_first_ascii:
  assumes "b < 128"
  shows "utf8_first (b # bs) = Some (b, 1)"
proof -
  have "[1..<Suc (min 4 (length (b # bs)))] = 1 # [2..<Suc (min 4 (length (b # bs)))]"
    by (simp add: upt_rec numeral_2_eq_2)
  moreover have "utf8_scalar [b] = Some b" using assms by (simp add: scalar_of_def char_from_u32_def utf8_bytes_small)
  ultimately show ?thesis by (simp add: utf8_first_def)
qed

lemma lossy_ascii: "list_all (\<lambda>b. b < 128) bs \<Longrightarrow> from_utf8_lossy bs = bs"
  by (induction bs) (simp_all add: utf8_first_ascii)

lemma bytes_ascii: "list_all (\<lambda>c. c < 128) w \<Longrightarrow> concat (map utf8_bytes w) = w"
  by (induction w) (simp_all add: utf8_bytes_small)

lemma byte_chars_ascii: "list_all (\<lambda>c. c < 128) w \<Longrightarrow> byte_chars w = w"
  by (induction w rule: byte_chars.induct) (auto simp: MetaC_def)

lemma metafy_ascii:
  assumes "list_all (\<lambda>c. 0 < c \<and> c < 128) w"
  shows "metafy w = w"
proof -
  have "concat (map (\<lambda>b. if is_imeta_byte b then [MetaC, semiring_bit_operations_class.xor b 32] else [b]) w) = w"
    using assms by (induction w) (simp_all add: is_imeta_byte_def)
  moreover have "list_all (\<lambda>c. c < 128) w" using assms by (auto simp: list_all_iff)
  ultimately show ?thesis by (simp add: metafy_def bytes_ascii lossy_ascii)
qed

lemma double_body_ascii:
  "list_all (\<lambda>c. 0 < c \<and> c < 128) w \<Longrightarrow> list_all (\<lambda>c. 0 < c \<and> c < 128) (double_body p w)"
  by (induction w arbitrary: p) auto

lemma dquoted_reads_back:
  assumes "list_all (\<lambda>c. 0 < c \<and> c < 128 \<and> c \<noteq> 10) w" "\<not> n_cshjunkiequotes N"
  shows "double_word (dquotedztrdup N w) = Some w"
proof -
  have w: "list_all (\<lambda>c. 0 < c \<and> c < 128) w" "list_all (\<lambda>c. c < 128) w" "10 \<notin> set w"
    using assms(1) by (auto simp: list_all_iff)
  have "dquotedztrdup N w = 34 # double_body False w"
    using w double_body_ascii [OF w(1), of False] assms(2)
    by (simp add: dquotedztrdup_def Let_def bytes_ascii byte_chars_ascii metafy_ascii)
  then show ?thesis using double_inside_body [OF w(3), of False] by (simp add: double_word_def)
qed


section \<open>The reader of key sequences\<close>

lemma bindkey_asks [simp]:
  "asks GETKEYS_BINDKEY GETKEY_OCTAL_ESC" "asks GETKEYS_BINDKEY GETKEY_EMACS" "asks GETKEYS_BINDKEY GETKEY_CTRL"
  "\<not> asks GETKEYS_BINDKEY GETKEY_BACKSLASH_C" "\<not> asks GETKEYS_BINDKEY GETKEY_DOLLAR_QUOTE"
  "\<not> asks GETKEYS_BINDKEY GETKEY_BACKSLASH_MINUS" "\<not> asks GETKEYS_BINDKEY GETKEY_UPDATE_OFFSET"
  "\<not> asks GETKEYS_BINDKEY GETKEY_PRINTF_PERCENT"
  by (simp_all add: asks_def getkey_flags GETKEYS_BINDKEY_def)

text \<open>The output once what is pending has been done, and the modifiers that still wait for a character.\<close>

definition stands_at :: "keys \<Rightarrow> word_text \<Rightarrow> (nat \<times> nat \<times> nat) option \<Rightarrow> bool" where
  "stands_at st out waits \<longleftrightarrow> \<not> ks_control st \<and> ks_result (apply_pending_mask st) = out \<and> ks_mask (apply_pending_mask st) = waits"

lemma stands_none: "\<not> ks_control st \<Longrightarrow> ks_mask st = None \<Longrightarrow> stands_at st (ks_result st) None"
  by (simp add: stands_at_def apply_pending_mask_def)

lemma stands_waiting:
  "\<not> ks_control st \<Longrightarrow> ks_mask st = Some (length (ks_result st), c, m) \<Longrightarrow>
     stands_at st (ks_result st) (Some (length (ks_result st), c, m))"
  by (simp add: stands_at_def apply_pending_mask_def)

lemma stands_masked:
  assumes "\<not> ks_control st" "ks_mask st = Some (length out, c, m)" "ks_result st = out @ [x]" "x < 256"
    "out = [] \<or> last out \<noteq> MetaC"
  shows "stands_at st (out @ metafied_byte (mask_byte c m x mod 256)) None"
  using assms by (auto simp: stands_at_def apply_pending_mask_def last_unit_def Let_def)

definition bind_state :: "('f, 'e) key_conf \<Rightarrow> nat \<Rightarrow> word_text \<Rightarrow> keys \<Rightarrow> keys" where
  "bind_state K c cs st = took (length (utf8_bytes c)) (mark_chunk c cs (settle_turn K GETKEYS_BINDKEY st))"

lemma apply_control: "ks_control (apply_pending_mask st) = ks_control st"
  by (simp add: apply_pending_mask_def Let_def split: option.splits prod.splits)

lemma bind_state_fields:
  assumes "stands_at st out waits"
  shows "\<not> ks_control (bind_state K c cs st)" "ks_result (bind_state K c cs st) = out" "ks_mask (bind_state K c cs st) = waits"
  using assms apply_control [of st]
  by (simp_all add: bind_state_def stands_at_def took_def mark_chunk_def settle_turn_def flush_tbuf_def posix_cut_def Let_def
      split: option.splits)

lemma bind_turn:
  assumes "stands_at st out waits"
  shows "key_turn_at K GETKEYS_BINDKEY c cs st =
    (if c = 94 then caret_turn GETKEYS_BINDKEY cs (bind_state K c cs st)
     else if c \<noteq> Backslash then Goes (put_text [c] (bind_state K c cs st)) 0
     else escape_turn K GETKEYS_BINDKEY (ks_consumed (bind_state K c cs st) - 1) cs (bind_state K c cs st))"
  using bind_state_fields(1) [OF assms, of K c cs] by (simp add: key_turn_at_def bind_state_def Let_def)

lemma put_took_fields [simp]:
  "ks_control (put_text w st) = ks_control st" "ks_mask (put_text w st) = ks_mask st"
  "ks_control (took n st) = ks_control st" "ks_mask (took n st) = ks_mask st"
  by (simp_all add: put_text_def took_def)

text \<open>How one character of a sequence is written, without the modifiers.\<close>

definition bind_char :: "nat \<Rightarrow> word_text" where
  "bind_char x = (if x = Backslash \<or> x = 94 then [Backslash, x] else [x])"

lemma read_char:
  assumes "stands_at st out waits"
  shows "\<exists>st'. key_loop K GETKEYS_BINDKEY (bind_char x @ rest) st = key_loop K GETKEYS_BINDKEY rest st' \<and>
    \<not> ks_control st' \<and> ks_result st' = out @ [x] \<and> ks_mask st' = waits"
proof (cases "x = Backslash \<or> x = 94")
  case False
  then have "key_loop K GETKEYS_BINDKEY (bind_char x @ rest) st =
      key_loop K GETKEYS_BINDKEY rest (put_text [x] (bind_state K x rest st))"
    by (simp add: bind_char_def bind_turn [OF assms])
  then show ?thesis using bind_state_fields [OF assms, of K x rest] by auto
next
  case True
  let ?st = "bind_state K Backslash (x # rest) st"
  have "escape_turn K GETKEYS_BINDKEY off (x # rest) ?st = Goes (put_text [x] (took 1 ?st)) 1" for off
    using True by (auto simp: escape_turn_def before_misc_def named_escape_def other_escape_def bash_dollar_def Let_def)
  then have "key_loop K GETKEYS_BINDKEY (bind_char x @ rest) st =
      key_loop K GETKEYS_BINDKEY rest (put_text [x] (took 1 ?st))"
    using True by (simp add: bind_char_def bind_turn [OF assms])
  then show ?thesis using bind_state_fields [OF assms, of K Backslash "x # rest"] by auto
qed

lemma mask_low:
  assumes "x < 256"
  shows "semiring_bit_operations_class.and x 0x9F < (256 :: nat)"
proof -
  have "take_bit 8 x = x" "take_bit 8 (0x9F :: nat) = 0x9F" using assms by (simp_all add: take_bit_nat_eq_self)
  then have "take_bit 8 (semiring_bit_operations_class.and x 0x9F) = semiring_bit_operations_class.and x 0x9F"
    by (simp only: take_bit_and)
  then show ?thesis by (simp only: take_bit_nat_eq_self_iff) simp
qed

lemma read_caret:
  assumes "stands_at st out None" "x \<noteq> Backslash" "x < 128"
  shows "\<exists>st'. key_loop K GETKEYS_BINDKEY (94 # x # rest) st = key_loop K GETKEYS_BINDKEY rest st' \<and>
    \<not> ks_control st' \<and> ks_result st' = out @ metafied_byte (if x = 63 then 0x7F else semiring_bit_operations_class.and x 0x9F) \<and>
    ks_mask st' = None"
proof -
  let ?st = "bind_state K 94 (x # rest) st"
  let ?b = "if x = 63 then 0x7F else semiring_bit_operations_class.and x 0x9F"
  have "key_loop K GETKEYS_BINDKEY (94 # x # rest) st =
      key_loop K GETKEYS_BINDKEY rest (put_text (metafied_byte ?b) (took (length (utf8_bytes x)) ?st))"
    using assms(2, 3) mask_low [of x] by (simp add: bind_turn [OF assms(1)] caret_turn_def Let_def)
  then show ?thesis using bind_state_fields [OF assms(1), of K 94 "x # rest"] by auto
qed

lemma read_meta:
  assumes "stands_at st out None" "modifiers GETKEYS_BINDKEY 0 1 rest = (c, m, k)"
  shows "\<exists>st'. key_loop K GETKEYS_BINDKEY (Backslash # 77 # 45 # rest) st = key_loop K GETKEYS_BINDKEY (drop k rest) st' \<and>
    \<not> ks_control st' \<and> ks_result st' = out \<and> ks_mask st' = Some (length out, c, m)"
proof -
  let ?st = "bind_state K Backslash (77 # 45 # rest) st"
  note f = bind_state_fields [OF assms(1), of K Backslash "77 # 45 # rest"]
  let ?st' = "(took (1 + k) (took 1 (?st\<lparr>ks_control := False\<rparr>)))\<lparr>ks_mask := Some (length out, c, m)\<rparr>"
  have "modifier_escape GETKEYS_BINDKEY 77 (45 # rest) ?st = Goes ?st' (Suc (1 + k))"
    using f assms(2) by (simp add: modifier_escape_def dash_len_def Let_def took_def)
  then have "key_loop K GETKEYS_BINDKEY (Backslash # 77 # 45 # rest) st = key_loop K GETKEYS_BINDKEY (drop k rest) ?st'"
    by (simp add: bind_turn [OF assms(1)] escape_turn_def before_misc_def named_escape_def Let_def)
  then show ?thesis using f by (auto simp: took_def)
qed

section \<open>One byte\<close>

lemma control_bits:
  assumes "c < 32"
  shows "semiring_bit_operations_class.xor c 64 = c + (64::nat)" "semiring_bit_operations_class.and (c + 64) 0x9F = c"
proof -
  have "list_all (\<lambda>c. semiring_bit_operations_class.xor c 64 = c + (64::nat) \<and> semiring_bit_operations_class.and (c + 64) 0x9F = c) [0..<32]"
    by code_simp
  then show "semiring_bit_operations_class.xor c 64 = c + (64::nat)" "semiring_bit_operations_class.and (c + 64) 0x9F = c"
    using assms by (simp_all add: list_all_iff)
qed

lemma or_high:
  assumes "c < 128"
  shows "semiring_bit_operations_class.or c 0x80 = c + (0x80::nat)"
proof -
  have c: "take_bit 7 c = c" using assms by (simp add: take_bit_nat_eq_self)
  have "(0x80 :: nat) = 2 ^ 7" by simp
  then have "\<not> (bit c n \<and> bit (0x80 :: nat) n)" for n
    by (metis bit_exp_iff bit_take_bit_iff c less_irrefl)
  then have "semiring_bit_operations_class.and c 0x80 = 0" by (intro bit_eqI) (simp add: bit_and_iff)
  then show ?thesis by (simp add: disjunctive_add_eq_or)
qed

lemma bind_low_split:
  assumes "c < 128"
  obtains (ctrl) d where "bind_low c = 94 # bind_char d" "d < 128" "c < 32 \<or> c = 127"
      "(if d = 63 then 0x7F else semiring_bit_operations_class.and d 0x9F) = c" "d = Backslash \<longleftrightarrow> c = 28" "d = 94 \<longleftrightarrow> c = 30" "32 \<le> d"
  | (plain) "bind_low c = bind_char c" "32 \<le> c"
proof (cases "c < 32 \<or> c = 127")
  case True
  then have "bind_low c = 94 # bind_char (if c = 127 then 63 else c + 64)"
    using control_bits by (auto simp: bind_low_def bind_char_def Let_def)
  then show ?thesis using True control_bits by (intro ctrl [of "if c = 127 then 63 else c + 64"]) (auto split: if_splits)
next
  case False
  then show ?thesis by (intro plain) (simp_all add: bind_low_def bind_char_def)
qed

lemma modifiers_stop: "control \<noteq> 0 \<or> hd (bind_char d) \<noteq> 94 \<Longrightarrow>
  modifiers GETKEYS_BINDKEY control 1 (bind_char d @ rest) = (control, 1, 0)"
  by (subst modifiers.simps) (auto simp: bind_char_def)

lemma modifiers_caret: "modifiers GETKEYS_BINDKEY 0 1 (94 # bind_char d @ rest) = (1, 1, 1)"
proof -
  have "2 \<le> length (94 # bind_char d @ rest)" by (simp add: bind_char_def)
  then show ?thesis using modifiers_stop [of 1 d rest] by (subst modifiers.simps) simp
qed

lemma read_byte:
  assumes "stands_at st out None" "b < 256" "b \<noteq> 28" "b \<noteq> 30" "0x80 \<le> b \<longrightarrow> out = [] \<or> last out \<noteq> MetaC"
  shows "\<exists>st'. key_loop K GETKEYS_BINDKEY (bind_byte b @ rest) st = key_loop K GETKEYS_BINDKEY rest st' \<and>
    stands_at st' (out @ metafied_byte b) None"
proof (cases "b < 0x80")
  case True
  then have tx: "bind_byte b = bind_low b" "metafied_byte b = [b]" by (simp_all add: bind_byte_def metafied_byte_def)
  show ?thesis
  proof (rule bind_low_split [of b])
    fix d assume d: "bind_low b = 94 # bind_char d" "d < 128"
      "(if d = 63 then 0x7F else semiring_bit_operations_class.and d 0x9F) = b" "d = Backslash \<longleftrightarrow> b = 28" "d = 94 \<longleftrightarrow> b = 30"
    then have "bind_char d = [d]" "d \<noteq> Backslash" using assms(3, 4) by (simp_all add: bind_char_def)
    then show ?thesis
      using read_caret [OF assms(1) _ d(2), of K rest] stands_none d(3) by (simp add: tx d(1)) metis
  next
    assume "bind_low b = bind_char b"
    then show ?thesis using read_char [OF assms(1), of K b rest] stands_none by (simp add: tx) metis
  qed (use True in simp)
next
  case False
  let ?c = "b - 0x80"
  have c: "?c < 128" "semiring_bit_operations_class.or ?c 0x80 = b"
    using False assms(2) or_high [of ?c] by simp_all
  have tx: "bind_byte b = Backslash # 77 # 45 # bind_low ?c" using False by (simp add: bind_byte_def)
  have last: "out = [] \<or> last out \<noteq> MetaC" using assms(5) False by simp
  have "\<exists>c1 m k d. modifiers GETKEYS_BINDKEY 0 1 (bind_low ?c @ rest) = (c1, m, k) \<and>
      drop k (bind_low ?c @ rest) = bind_char d @ rest \<and> d < 128 \<and> mask_byte c1 m d = b"
  proof (rule bind_low_split [OF c(1)])
    fix d assume d: "bind_low ?c = 94 # bind_char d" "d < 128"
      "(if d = 63 then 0x7F else semiring_bit_operations_class.and d 0x9F) = ?c"
    then show ?thesis using modifiers_caret [of d rest] c(2)
      by (intro exI [of _ 1] exI [of _ d]) (auto simp: mask_byte_def Let_def)
  next
    assume "bind_low ?c = bind_char ?c"
    then show ?thesis using modifiers_stop [of 0 ?c rest] c
      by (intro exI [of _ 0] exI [of _ 1] exI [of _ ?c]) (auto simp: mask_byte_def Let_def bind_low_def bind_char_def)
  qed
  then obtain c1 m k d where m: "modifiers GETKEYS_BINDKEY 0 1 (bind_low ?c @ rest) = (c1, m, k)"
      "drop k (bind_low ?c @ rest) = bind_char d @ rest" "d < 128" "mask_byte c1 m d = b" by blast
  obtain st1 where st1: "key_loop K GETKEYS_BINDKEY (bind_byte b @ rest) st = key_loop K GETKEYS_BINDKEY (bind_char d @ rest) st1"
      "\<not> ks_control st1" "ks_result st1 = out" "ks_mask st1 = Some (length out, c1, m)"
    using read_meta [OF assms(1) m(1), of K] unfolding m(2) tx append_Cons by blast
  have w: "stands_at st1 out (Some (length out, c1, m))" using stands_waiting [of st1] st1 by auto
  obtain st2 where "key_loop K GETKEYS_BINDKEY (bind_char d @ rest) st1 = key_loop K GETKEYS_BINDKEY rest st2"
      "\<not> ks_control st2" "ks_result st2 = out @ [d]" "ks_mask st2 = Some (length out, c1, m)"
    using read_char [OF w, of K d rest] by blast
  then show ?thesis using stands_masked [of st2 out c1 m d] m(3, 4) last assms(2) st1(1) by auto
qed

section \<open>A sequence\<close>

text \<open>The sequences the listing does not lose: without the two control characters whose letter is escaped,
  and without the byte A3, stored as two markers, before a byte with the high bit.\<close>

fun safe_keys :: "nat list \<Rightarrow> bool" where
  "safe_keys [] = True"
| "safe_keys [b] = (b < 256 \<and> b \<noteq> 28 \<and> b \<noteq> 30)"
| "safe_keys (b # c # bs) =
    (b < 256 \<and> b \<noteq> 28 \<and> b \<noteq> 30 \<and> \<not> (b = 0xA3 \<and> 0x80 \<le> c) \<and> safe_keys (c # bs))"

lemma last_metafied: "last (metafied_byte b) = MetaC \<Longrightarrow> b < 256 \<Longrightarrow> b = 0xA3"
proof -
  assume m: "last (metafied_byte b) = MetaC" "b < 256"
  then have "0x80 \<le> b" by (auto simp: metafied_byte_def MetaC_def split: if_splits)
  then have "semiring_bit_operations_class.xor b 32 = MetaC" using m(1) by (simp add: metafied_byte_def meta_byte_def)
  then have "semiring_bit_operations_class.xor (semiring_bit_operations_class.xor b 32) 32 = semiring_bit_operations_class.xor MetaC 32"
    by simp
  then show "b = 0xA3" by (simp add: xor.assoc MetaC_def)
qed

lemma metafied_byte_ne [simp]: "metafied_byte b \<noteq> []"
  by (simp add: metafied_byte_def meta_byte_def)

lemma read_bytes:
  assumes "stands_at st out None" "safe_keys bs" "bs \<noteq> [] \<and> 0x80 \<le> hd bs \<longrightarrow> out = [] \<or> last out \<noteq> MetaC"
  shows "ks_result (key_loop K GETKEYS_BINDKEY (concat (map bind_byte bs)) st) = out @ concat (map metafied_byte bs)"
  using assms
proof (induction bs arbitrary: st out rule: safe_keys.induct)
  case 1
  then show ?case
    by (simp add: stands_at_def settle_turn_def flush_tbuf_def posix_cut_def Let_def split: option.splits)
next
  case (2 b)
  obtain st' where st': "key_loop K GETKEYS_BINDKEY (bind_byte b @ []) st = key_loop K GETKEYS_BINDKEY [] st'"
      "stands_at st' (out @ metafied_byte b) None"
    using read_byte [OF 2(1), of b K "[]"] 2(2, 3) by auto
  then show ?case
    by (simp add: stands_at_def settle_turn_def flush_tbuf_def posix_cut_def Let_def split: option.splits)
next
  case (3 b c bs)
  have b: "b < 256" "b \<noteq> 28" "b \<noteq> 30" "\<not> (b = 0xA3 \<and> 0x80 \<le> c)" "safe_keys (c # bs)" using 3(3) by auto
  obtain st' where st': "key_loop K GETKEYS_BINDKEY (bind_byte b @ concat (map bind_byte (c # bs))) st =
        key_loop K GETKEYS_BINDKEY (concat (map bind_byte (c # bs))) st'"
      "stands_at st' (out @ metafied_byte b) None"
    using read_byte [OF 3(2) b(1-3), of K "concat (map bind_byte (c # bs))"] 3(4) by auto
  have "0x80 \<le> c \<longrightarrow> last (out @ metafied_byte b) \<noteq> MetaC" using b(1, 4) last_metafied [of b] by auto
  then show ?case using 3(1) [OF st'(2) b(5)] st'(1) by simp
qed

lemma bind_low_ascii: "c < 128 \<Longrightarrow> list_all (\<lambda>c. 0 < c \<and> c < 128 \<and> c \<noteq> 10) (bind_low c)"
  by (rule bind_low_split [of c]) (auto simp: bind_char_def)

lemma bind_bytes_ascii:
  "\<forall>b \<in> set bs. b < 256 \<Longrightarrow> list_all (\<lambda>c. 0 < c \<and> c < 128 \<and> c \<noteq> 10) (concat (map bind_byte bs))"
  by (induction bs) (auto simp: bind_byte_def bind_low_ascii)

lemma safe_keys_bytes: "safe_keys bs \<Longrightarrow> \<forall>b \<in> set bs. b < 256"
  by (induction bs rule: safe_keys.induct) auto

lemma bind_word:
  assumes "\<forall>b \<in> set bs. b < 256" "\<not> n_cshjunkiequotes N"
  shows "double_word (bindztrdup N bs) = Some (concat (map bind_byte bs))"
  unfolding bindztrdup_def by (rule dquoted_reads_back [OF bind_bytes_ascii [OF assms(1)] assms(2)])

text \<open>C31.  Round trip: the shell and \<open>bindkey\<close> read every key sequence that \<open>bindkey -L\<close> lists back to the
  same bytes, control characters, bytes with the high bit, backslashes and carets included, if there is
  neither 1C nor 1E among them and no A3 before a byte with the high bit, and \<open>CSH_JUNKIE_QUOTES\<close> is off.
  The shell's part is \<open>double_word\<close>, the removal of double quotes around a word without expansions.\<close>

theorem bindkey_listing_reads_back:
  assumes "safe_keys bs" "\<not> n_cshjunkiequotes N"
  shows "map_option (bindkey_bytes K) (double_word (bindztrdup N bs)) = Some bs"
proof -
  have "stands_at (start_keys None) [] None" by (simp add: stands_at_def start_keys_def apply_pending_mask_def)
  from read_bytes [OF this assms(1), of K]
  have "ks_result (getkeystring K (concat (map bind_byte bs)) GETKEYS_BINDKEY None) = concat (map metafied_byte bs)"
    by (simp add: getkeystring_def)
  then show ?thesis
    using unmeta_byte_texts [OF safe_keys_bytes [OF assms(1)], of "[]"]
    by (simp add: bind_word [OF safe_keys_bytes [OF assms(1)] assms(2)] bindkey_bytes_def)
qed

lemmas read_defs = bind_byte_def bind_low_def bindkey_bytes_def getkeystring_def start_keys_def key_turn_at_def
  caret_turn_def escape_turn_def named_escape_def modifier_escape_def dash_len_def before_misc_def settle_turn_def
  flush_tbuf_def apply_pending_mask_def last_unit_def mark_chunk_def itok_char_def posix_cut_def took_def put_text_def
  metafied_byte_def meta_byte_def mask_byte_def MetaC_def utf8_bytes_def modifiers.simps

text \<open>What the listing loses: the control characters 1C and 1E, whose letter is written with a
  backslash, are read back as 1C and a backslash or a caret, since the reader takes the backslash for the
  letter; and the byte A3 before a byte with the high bit corrupts both, since its stored form ends with
  the marker and the reader looks back one character only.\<close>

theorem bindkey_listing_loses:
  assumes "\<not> n_cshjunkiequotes N"
  shows "map_option (bindkey_bytes K) (double_word (bindztrdup N [28])) = Some [28, 92] \<and>
    map_option (bindkey_bytes K) (double_word (bindztrdup N [30])) = Some [28, 94] \<and>
    map_option (bindkey_bytes K) (double_word (bindztrdup N [0xA3, 0xE1])) = Some [0xA3, 0xC3, 0xA1]"
  by (intro conjI) (simp_all add: bind_word [OF _ assms] read_defs Let_def)

section \<open>At a configuration\<close>

definition demo_nice :: "unit nice_conf" where
  "demo_nice = \<lparr>n_multibyte = True, n_not_utf8 = False, n_cur_max = 6, n_mbrtowc = (\<lambda>m _. (MbInvalid, m)), n_zero = (),
     n_wcrtomb = (\<lambda>_. None), n_iswprint = (\<lambda>c. 32 \<le> c \<and> c < 127 \<or> 160 \<le> c), n_wcwidth = (\<lambda>_. 1),
     n_ispecial = (\<lambda>c. c = 39 \<or> c = 59 \<or> c = 92), n_printeightbit = False, n_cshjunkiequotes = False, n_rcquotes = False\<rparr>"

definition demo_bind_keys :: "(int, demo_env) key_conf" where
  "demo_bind_keys = \<lparr>key_math = demo_conf, key_posixstrings = False, key_ucs4 = (\<lambda>_. None)\<rparr>"

lemma demo_nice_quotes: "\<not> n_cshjunkiequotes demo_nice"
  by (simp add: demo_nice_def)

theorem bindkey_listing_reads_back_witness:
  "map_option (bindkey_bytes demo_bind_keys) (double_word (bindztrdup demo_nice [27, 91, 65, 0xE1, 0x81, 127, 92, 94, 0xDE])) =
   Some [27, 91, 65, 0xE1, 0x81, 127, 92, 94, 0xDE]"
  by (rule bindkey_listing_reads_back [OF _ demo_nice_quotes]) simp

theorem bindkey_listing_loses_witness:
  "map_option (bindkey_bytes demo_bind_keys) (double_word (bindztrdup demo_nice [28])) = Some [28, 92]"
  using bindkey_listing_loses [OF demo_nice_quotes, of demo_bind_keys] by blast

end
