(* ===== verification/NiceFacts.thy ===== *)
theory NiceFacts
  imports BindFacts
begin

text \<open>
  What \<open>set\<close>, \<open>typeset -p\<close> and the trace write for a string, the shell reads back as that string; and the
  strings for which the test of special characters misses one.
\<close>

section \<open>A word in single quotes\<close>

text \<open>What the shell makes of a word of plain, quoted and escaped characters; \<open>P\<close> are the characters that
  may not stand bare.\<close>

fun plain_word :: "(nat \<Rightarrow> bool) \<Rightarrow> bool \<Rightarrow> word_text \<Rightarrow> word_text option" where
  "plain_word P inquote [] = (if inquote then None else Some [])"
| "plain_word P True (c # r) = (if c = 39 then plain_word P False r else map_option (Cons c) (plain_word P True r))"
| "plain_word P False (c # r) =
    (if c = 39 then plain_word P True r
     else if c = Backslash then (case r of [] \<Rightarrow> None | d # r1 \<Rightarrow> if d = 10 then None else map_option (Cons d) (plain_word P False r1))
     else if c < 128 \<and> P c then None else map_option (Cons c) (plain_word P False r))"

lemma plain_word_bare:
  "\<forall>c \<in> set s. c < 128 \<longrightarrow> \<not> P c \<Longrightarrow> P 39 \<Longrightarrow> P Backslash \<Longrightarrow> plain_word P False s = Some s"
  by (induction s) auto

lemma quoted_chars_plain:
  "Dash \<notin> set s \<Longrightarrow> MetaC \<notin> set s \<Longrightarrow> quoted_chars s = map (\<lambda>c. (c, [c])) s"
  by (induction s rule: quoted_chars.induct) auto

lemma plain_word_bourne:
  "\<not> n_cshjunkiequotes N \<Longrightarrow>
     plain_word P inquote (bourne_quote N inquote (map (\<lambda>c. (c, [c])) s)) = Some s"
proof (induction s arbitrary: inquote)
  case (Cons c s)
  show ?case using Cons.IH [OF Cons.prems, of True] Cons.IH [OF Cons.prems, of False] Cons.prems
    by (cases inquote; cases "c = 39") (simp_all add: newline_mark_def)
qed (simp split: if_splits)

section \<open>The test of special characters\<close>

lemma special_in_bytes: "MetaC \<notin> set bs \<Longrightarrow> special_in P bs \<longleftrightarrow> (\<exists>b \<in> set bs. P b)"
  by (induction P bs rule: special_in.induct) auto

lemma meta_byte_in: "MetaC \<in> set s \<Longrightarrow> MetaC \<in> set (concat (map utf8_bytes s))"
  by (induction s) (auto simp: utf8_bytes_def MetaC_def)

lemma bare_chars:
  assumes "\<not> hasspecial N s" "MetaC \<notin> set (concat (map utf8_bytes s))" "c \<in> set s" "c < 128"
  shows "\<not> n_ispecial N c"
proof -
  have "c \<in> set (concat (map utf8_bytes s))" using assms(3, 4) by (auto simp: utf8_bytes_small intro!: bexI [of _ c])
  then show ?thesis using assms(1, 2) special_in_bytes by (auto simp: hasspecial_def)
qed

text \<open>Round trip: a string that needs no escapes comes back from its quoted form, bare, in single
  quotes or in pieces around its own quotes, as long as no byte of it is that of the marker.\<close>

theorem quotedzputs_reads_back:
  assumes "\<not> is_mb_niceformat N s" "Dash \<notin> set s" "MetaC \<notin> set (concat (map utf8_bytes s))"
    "n_ispecial N 39" "n_ispecial N Backslash" "\<not> n_rcquotes N" "\<not> n_cshjunkiequotes N"
  shows "plain_word (n_ispecial N) False (quotedzputs N s) = Some s"
proof -
  have m: "MetaC \<notin> set s" using assms(3) meta_byte_in by blast
  consider "s = []" | "s \<noteq> []" "\<not> hasspecial N s" | "s \<noteq> []" "hasspecial N s" by blast
  then show ?thesis
  proof cases
    case 1
    then show ?thesis by (simp add: quotedzputs_def)
  next
    case 2
    then show ?thesis using assms plain_word_bare bare_chars [OF 2(2) assms(3)] by (simp add: quotedzputs_def)
  next
    case 3
    then show ?thesis using assms m plain_word_bourne quoted_chars_plain by (simp add: quotedzputs_def)
  qed
qed

text \<open>A character whose last byte is that of the marker hides the special character after it from the test:
  the string goes out bare and is read back as something else.\<close>

theorem listing_leaves_special:
  assumes "\<not> n_not_utf8 N" "n_iswprint N 0xC3" "n_iswprint N 59" "n_ispecial N 59" "\<not> n_ispecial N 0xC3" "\<not> n_ispecial N 27"
  shows "quotedzputs N [0xC3, 59] = [0xC3, 59] \<and> plain_word (n_ispecial N) False (quotedzputs N [0xC3, 59]) = None"
proof -
  have u: "utf8_bytes 0xC3 = [0xC3, 0x83]" "utf8_bytes 59 = [59]" by (simp_all add: utf8_bytes_def)
  have "nice_bytes [0xC3, 59] = [0xC3, 0x83, 59]"
    by (simp add: nice_bytes_def itok_char_def MetaC_def u)
  moreover have "utf8_first [0xC3, 0x83, 59] = Some (0xC3, 2)"
    by (simp add: utf8_first_def upt_rec scalar_of_def char_from_u32_def utf8_bytes_def)
  moreover have "utf8_first [59] = Some (59, 1)"
    by (simp add: utf8_first_def scalar_of_def char_from_u32_def utf8_bytes_def)
  ultimately have "\<not> is_mb_niceformat N [0xC3, 59]"
    using assms by (simp add: is_mb_niceformat_def n_multi_def n_single_def is_wcs_nicechar_def)
  moreover have "\<not> hasspecial N [0xC3, 59]" using assms by (simp add: hasspecial_def u MetaC_def)
  ultimately show ?thesis using assms by (simp add: quotedzputs_def)
qed

theorem quotedzputs_reads_back_witness:
  "plain_word (n_ispecial demo_nice) False (quotedzputs demo_nice [105, 116, 39, 115, 59]) = Some [105, 116, 39, 115, 59]"
proof (rule quotedzputs_reads_back)
  have "utf8_first (b # bs) = Some (b, 1)" if "b < 128" for b bs by (rule utf8_first_ascii [OF that])
  then have "nice_utf8 demo_nice [105, 116, 39, 115, 59] = False"
    by (simp add: is_wcs_nicechar_def demo_nice_def)
  moreover have "nice_bytes [105, 116, 39, 115, 59] = [105, 116, 39, 115, 59]"
    by (simp add: nice_bytes_def itok_char_def MetaC_def utf8_bytes_def)
  ultimately show "\<not> is_mb_niceformat demo_nice [105, 116, 39, 115, 59]"
    by (simp add: is_mb_niceformat_def n_multi_def n_single_def) (simp add: demo_nice_def)
qed (simp_all add: demo_nice_def Dash_def MetaC_def utf8_bytes_def)

end
