(* ===== verification/SplitJoin.thy ===== *)
theory SplitJoin
  imports NiceText
begin

text \<open>
  Fields: \<open>spacesplit\<close> without quotes, \<open>skipwsep\<close>, \<open>wordcount\<close>, \<open>sepsplit\<close>, \<open>sepjoin\<close>, \<open>colonsplit\<close>, \<open>zjoin\<close> and
  \<open>findword\<close> of \<open>src/src/ported/utils.rs\<close>, and the join of ksh93 under an empty \<open>IFS\<close> of
  \<open>src/src/extensions/emulation_output.rs\<close>.  A string is the list of the bytes of its UTF-8 form; a place
  in it is the rest of the list there.
\<close>

section \<open>Characters\<close>

text \<open>\<open>sp_isep\<close> and \<open>sp_iwsep\<close> are the classes \<open>ISEP\<close> and \<open>IWSEP\<close> of the character table, \<open>sp_wide\<close> is
  \<open>wcsitype\<close> of a character beyond ASCII, \<open>sp_ifs\<close> the parameter \<open>IFS\<close>.\<close>

record split_conf =
  sp_isep :: "nat \<Rightarrow> bool"
  sp_iwsep :: "nat \<Rightarrow> bool"
  sp_wide :: "nat \<Rightarrow> bool"
  sp_multibyte :: bool
  sp_posix_faithful :: bool
  sp_ksh93 :: bool
  sp_ifs :: "nat list option"

text \<open>\<open>chars().next()\<close>: the character and its bytes.\<close>

definition str_char :: "nat list \<Rightarrow> nat \<times> nat" where
  "str_char bs = (case utf8_first bs of Some p \<Rightarrow> p | None \<Rightarrow> (hd bs, 1))"

definition char_at :: "nat list \<Rightarrow> nat \<times> nat" where
  "char_at bs =
    (if hd bs = 0xC2 \<and> 4 \<le> length bs \<and> bs ! 1 = MetaC then
       (case str_char (drop 2 bs) of (n, l) \<Rightarrow> (semiring_bit_operations_class.xor (n mod 256) 32, 2 + l))
     else if hd bs = MetaC \<and> 2 \<le> length bs then (semiring_bit_operations_class.xor (bs ! 1) 32, 2)
     else (hd bs, 1))"

text \<open>A test at a place: whether it holds, and the bytes to step over.\<close>

type_synonym place_test = "nat list \<Rightarrow> bool \<times> nat"

definition ws_at :: "split_conf \<Rightarrow> place_test" where
  "ws_at S bs = (case char_at bs of (c, l) \<Rightarrow> (sp_iwsep S c, l))"

definition sep_at :: "split_conf \<Rightarrow> place_test" where
  "sep_at S bs =
    (if \<not> sp_multibyte S \<or> hd bs < 0xC0 \<or> (hd bs = 0xC2 \<and> 2 \<le> length bs \<and> bs ! 1 = MetaC)
     then (case char_at bs of (c, l) \<Rightarrow> (sp_isep S c, l))
     else (case str_char bs of (c, l) \<Rightarrow> (sp_wide S c, l)))"

definition not_at :: "place_test \<Rightarrow> place_test" where
  "not_at t bs = (case t bs of (ok, l) \<Rightarrow> (\<not> ok, l))"

text \<open>The bytes as long as the test holds, and the rest.\<close>

function span_while :: "place_test \<Rightarrow> nat list \<Rightarrow> nat list \<times> nat list" where
  "span_while t [] = ([], [])"
| "span_while t (b # bs) =
    (if fst (t (b # bs)) then
       (let k = snd (t (b # bs)) - 1 in
        case span_while t (drop k bs) of (w, r) \<Rightarrow> (b # take k bs @ w, r))
     else ([], b # bs))"
  by pat_completeness auto
termination by (relation "measure (\<lambda>(_, bs). length bs)") auto

definition skip_places :: "place_test \<Rightarrow> nat list \<Rightarrow> nat list" where
  "skip_places t bs = snd (span_while t bs)"

text \<open>The rest after one match.\<close>

definition step_over :: "place_test \<Rightarrow> nat list \<Rightarrow> nat list" where
  "step_over t bs = (if bs \<noteq> [] \<and> fst (t bs) then drop (snd (t bs) - 1) (tl bs) else bs)"

lemma span_while_split: "fst (span_while t bs) @ snd (span_while t bs) = bs"
  by (induction t bs rule: span_while.induct) (auto simp: Let_def split: prod.splits)

lemma span_while_length: "length (snd (span_while t bs)) \<le> length bs"
  using span_while_split [of t bs] by (metis length_append le_add2)

lemma skip_places_length: "length (skip_places t bs) \<le> length bs"
  by (simp add: skip_places_def span_while_length)

lemma span_while_shorter: "bs \<noteq> [] \<Longrightarrow> fst (t bs) \<Longrightarrow> length (snd (span_while t bs)) < length bs"
proof (cases bs)
  case (Cons b r)
  assume "fst (t bs)"
  then have "snd (span_while t bs) = snd (span_while t (drop (snd (t bs) - 1) r))"
    by (simp add: Cons Let_def split_beta)
  also have "length \<dots> \<le> length (drop (snd (t bs) - 1) r)" by (rule span_while_length)
  finally show ?thesis by (simp add: Cons)
qed simp

lemma step_over_shorter: "bs \<noteq> [] \<Longrightarrow> fst (t bs) \<Longrightarrow> length (step_over t bs) < length bs"
  by (cases bs) (auto simp: step_over_def)

text \<open>The string after its separating blanks, and how many there were.\<close>

function skipwsep :: "split_conf \<Rightarrow> nat list \<Rightarrow> nat list \<times> nat" where
  "skipwsep S [] = ([], 0)"
| "skipwsep S (b # bs) =
    (if fst (ws_at S (b # bs)) then
       (case skipwsep S (drop (snd (ws_at S (b # bs)) - 1) bs) of (r, n) \<Rightarrow> (r, Suc n))
     else (b # bs, 0))"
  by pat_completeness auto
termination by (relation "measure (\<lambda>(_, bs). length bs)") auto

section \<open>Fields of a string\<close>

definition nulstring :: "nat list" where "nulstring = utf8_bytes BNularg"

text \<open>One word, from where a word or its separator begins: where the word begins, and whether the end of
  the string ends the words here.\<close>

definition word_start :: "split_conf \<Rightarrow> nat list \<Rightarrow> nat list" where
  "word_start S bs = (if fst (sep_at S bs) then skip_places (ws_at S) (step_over (sep_at S) bs) else bs)"

definition ends_here :: "split_conf \<Rightarrow> bool \<Rightarrow> nat list \<Rightarrow> bool" where
  "ends_here S allownull bs \<longleftrightarrow>
     fst (sep_at S bs) \<and> word_start S bs = [] \<and> \<not> allownull \<and> sp_posix_faithful S"

definition word_at :: "split_conf \<Rightarrow> nat list \<Rightarrow> nat list \<times> nat list" where
  "word_at S bs = span_while (not_at (sep_at S)) (word_start S bs)"

lemma word_at_shorter: "bs \<noteq> [] \<Longrightarrow> length (snd (word_at S bs)) < length bs"
proof (cases "fst (sep_at S bs)")
  case True
  assume "bs \<noteq> []"
  have "length (snd (word_at S bs)) \<le> length (word_start S bs)" unfolding word_at_def by (rule span_while_length)
  also have "\<dots> \<le> length (step_over (sep_at S) bs)" using True by (simp add: word_start_def skip_places_length)
  also have "\<dots> < length bs" using True \<open>bs \<noteq> []\<close> by (rule step_over_shorter [rotated])
  finally show ?thesis .
next
  case False
  assume "bs \<noteq> []"
  then show ?thesis using False span_while_shorter [of bs "not_at (sep_at S)"]
    by (simp add: word_at_def word_start_def not_at_def split_beta)
qed

text \<open>\<open>moved\<close>: blanks were skipped since the end of the last word.\<close>

function split_loop :: "split_conf \<Rightarrow> bool \<Rightarrow> bool \<Rightarrow> nat list \<Rightarrow> nat list list" where
  "split_loop S allownull moved [] = (if \<not> allownull \<and> moved then [[]] else [])"
| "split_loop S allownull moved (b # bs) =
    (if ends_here S allownull (b # bs) then [[]]
     else (case word_at S (b # bs) of (w, r) \<Rightarrow>
       (if w \<noteq> [] \<or> allownull then w else nulstring) #
       split_loop S allownull (skip_places (ws_at S) r \<noteq> r) (skip_places (ws_at S) r)))"
  by pat_completeness auto
termination
proof (relation "measure (\<lambda>(_, _, _, bs). length bs)")
  fix S b bs w r and allownull moved :: bool
  assume "(w, r) = word_at S (b # bs)"
  then have "length r < length (b # bs)" using word_at_shorter [of "b # bs" S] by (metis list.distinct(1) snd_conv)
  then show "((S, allownull, skip_places (ws_at S) r \<noteq> r, skip_places (ws_at S) r), S, allownull, moved, b # bs)
      \<in> measure (\<lambda>(_, _, _, bs). length bs)"
    using skip_places_length [of "ws_at S" r] by simp
qed simp

definition spacesplit :: "split_conf \<Rightarrow> nat list \<Rightarrow> bool \<Rightarrow> nat list list" where
  "spacesplit S s allownull =
    (let r = skip_places (ws_at S) s in
     (if r \<noteq> [] \<and> fst (sep_at S r) then [if allownull then [] else nulstring]
      else if \<not> allownull \<and> r \<noteq> s then [[]] else []) @
     split_loop S allownull (r \<noteq> s) r)"

section \<open>How many words\<close>

text \<open>\<open>str::find\<close>.\<close>

fun find_sub :: "nat list \<Rightarrow> nat list \<Rightarrow> nat option" where
  "find_sub sep [] = (if sep = [] then Some 0 else None)"
| "find_sub sep (b # bs) = (if take (length sep) (b # bs) = sep then Some 0 else map_option Suc (find_sub sep bs))"

function count_sep :: "nat list \<Rightarrow> int \<Rightarrow> nat list \<Rightarrow> int" where
  "count_sep sep mul rest =
    (if sep = [] then (case rest of [] \<Rightarrow> 0 | _ # r \<Rightarrow> (if mul \<noteq> 0 then 1 else 0) + count_sep sep mul r)
     else (case find_sub sep rest of
         None \<Rightarrow> 0
       | Some c \<Rightarrow> (if c \<noteq> 0 \<or> mul \<noteq> 0 then 1 else 0) + count_sep sep mul (drop (c + length sep) rest)))"
  by pat_completeness auto
termination
proof (relation "measure (\<lambda>(_, _, rest). length rest)")
  fix sep rest :: "nat list" and mul :: int and c
  assume a: "sep \<noteq> []" "find_sub sep rest = Some c"
  have "rest \<noteq> []" using a by (auto split: if_splits)
  then show "((sep, mul, drop (c + length sep) rest), sep, mul, rest) \<in> measure (\<lambda>(_, _, rest). length rest)"
    using a(1) by (cases sep) auto
qed auto

declare count_sep.simps [simp del]

text \<open>The counter steps over the bytes of a string one by one, but for the marker and the byte after it.\<close>

definition count_at :: "nat list \<Rightarrow> nat \<times> nat" where
  "count_at bs = (if hd bs = MetaC \<and> 2 \<le> length bs then (semiring_bit_operations_class.xor (bs ! 1) 32, 2) else (hd bs, 1))"

definition count_ws :: "split_conf \<Rightarrow> place_test" where
  "count_ws S bs = (case count_at bs of (c, l) \<Rightarrow> (sp_iwsep S c, l))"

definition count_isep :: "split_conf \<Rightarrow> place_test" where
  "count_isep S bs = (case count_at bs of (c, l) \<Rightarrow> (sp_isep S c, l))"

definition count_skip :: "split_conf \<Rightarrow> int \<Rightarrow> nat list \<Rightarrow> nat list" where
  "count_skip S mul bs = (if mul \<le> 0 then skip_places (count_ws S) bs else bs)"

definition count_word :: "split_conf \<Rightarrow> int \<Rightarrow> nat list \<Rightarrow> nat list" where
  "count_word S mul bs =
    skip_places (not_at (count_isep S)) (if fst (count_isep S bs) then count_skip S mul (step_over (count_isep S) bs) else bs)"

lemma count_skip_length: "length (count_skip S mul bs) \<le> length bs"
  by (simp add: count_skip_def skip_places_length)

lemma count_word_shorter: "bs \<noteq> [] \<Longrightarrow> length (count_word S mul bs) < length bs"
proof (cases "fst (count_isep S bs)")
  case True
  assume "bs \<noteq> []"
  have "length (count_word S mul bs) \<le> length (count_skip S mul (step_over (count_isep S) bs))"
    using True by (simp add: count_word_def skip_places_length)
  also have "\<dots> \<le> length (step_over (count_isep S) bs)" by (rule count_skip_length)
  also have "\<dots> < length bs" using True \<open>bs \<noteq> []\<close> by (rule step_over_shorter [rotated])
  finally show ?thesis .
next
  case False
  assume "bs \<noteq> []"
  then show ?thesis using False span_while_shorter [of bs "not_at (count_isep S)"]
    by (simp add: count_word_def skip_places_def not_at_def split_beta)
qed

function count_loop :: "split_conf \<Rightarrow> int \<Rightarrow> bool \<Rightarrow> nat list \<Rightarrow> int" where
  "count_loop S mul moved [] = (if mul < 0 \<and> moved then 1 else 0)"
| "count_loop S mul moved (b # bs) =
    (let r = count_word S mul (b # bs) in 1 + count_loop S mul (count_skip S mul r \<noteq> r) (count_skip S mul r))"
  by pat_completeness auto
termination
proof (relation "measure (\<lambda>(_, _, _, bs). length bs)")
  fix S b bs r and mul :: int and moved
  assume "r = count_word S mul (b # bs)"
  then have "length r < length (b # bs)" using count_word_shorter [of "b # bs"] by simp
  then show "((S, mul, count_skip S mul r \<noteq> r, count_skip S mul r), S, mul, moved, b # bs)
      \<in> measure (\<lambda>(_, _, _, bs). length bs)"
    using count_skip_length [of S mul r] by simp
qed simp

definition wordcount :: "split_conf \<Rightarrow> nat list \<Rightarrow> nat list option \<Rightarrow> int \<Rightarrow> int" where
  "wordcount S s sep mul = (case sep of
     Some p \<Rightarrow> 1 + count_sep p mul s
   | None \<Rightarrow>
       let r = count_skip S mul s in
       (if (r \<noteq> [] \<and> fst (count_isep S r)) \<or> (mul < 0 \<and> r \<noteq> s) then 1 else 0) + count_loop S mul (r \<noteq> s) r)"

section \<open>Joining and splitting at a text\<close>

definition zjoin :: "nat list list \<Rightarrow> nat \<Rightarrow> nat list" where
  "zjoin arr delim =
    (if arr = [] then []
     else let d = (if delim < 0x100 \<and> is_imeta_byte delim then [MetaC, semiring_bit_operations_class.xor delim 32]
                   else if delim < 0x100 then [delim] else utf8_bytes delim);
              out = hd arr @ concat (map (\<lambda>s. d @ s) (tl arr)) in
       concat (map utf8_bytes (from_utf8_lossy out)))"

text \<open>\<open>slice::join\<close>.\<close>

definition join_fields :: "nat list \<Rightarrow> nat list list \<Rightarrow> nat list" where
  "join_fields sep arr = (case arr of [] \<Rightarrow> [] | s # ss \<Rightarrow> s @ concat (map (\<lambda>t. sep @ t) ss))"

text \<open>The join of ksh93 under an empty \<open>IFS\<close>: runs of empty elements leave a mark.\<close>

function ksh93_join :: "bool \<Rightarrow> nat list list \<Rightarrow> nat list" where
  "ksh93_join first [] = []"
| "ksh93_join first (e # es) =
    (if e \<noteq> [] then e @ ksh93_join False es
     else let run = length (takeWhile (\<lambda>x. x = []) es); rest = drop run es in
       (if \<not> first \<and> rest \<noteq> [] \<or> 1 \<le> run then [Backslash] else []) @ ksh93_join False rest)"
  by pat_completeness auto
termination by (relation "measure (\<lambda>(_, es). length es)") auto

definition ksh93_empty_ifs_join :: "nat list list \<Rightarrow> nat list" where
  "ksh93_empty_ifs_join arr = (if list_all (\<lambda>e. e = []) arr then [] else ksh93_join True arr)"

definition ifs_sep :: "split_conf \<Rightarrow> nat list" where
  "ifs_sep S = (case sp_ifs S of
     Some ifs \<Rightarrow> if ifs = [] then [] else if hd ifs = 32 then [32] else take (snd (str_char ifs)) ifs
   | None \<Rightarrow> [32])"

definition sepjoin :: "split_conf \<Rightarrow> nat list list \<Rightarrow> nat list option \<Rightarrow> nat list" where
  "sepjoin S arr sep =
    (if arr = [] then []
     else let p = (case sep of Some p \<Rightarrow> p | None \<Rightarrow> ifs_sep S) in
       if p = [] \<and> sp_ksh93 S then ksh93_empty_ifs_join arr else join_fields p arr)"

text \<open>\<open>str::split\<close> at a text that is not empty, and \<open>chars()\<close>.\<close>

function str_split :: "nat list \<Rightarrow> nat list \<Rightarrow> nat list \<Rightarrow> nat list list" where
  "str_split sep cur [] = [cur]"
| "str_split sep cur (b # bs) =
    (if take (length sep) (b # bs) = sep then cur # str_split sep [] (drop (length sep - 1) bs)
     else str_split sep (cur @ [b]) bs)"
  by pat_completeness auto
termination by (relation "measure (\<lambda>(_, _, bs). length bs)") auto

function str_chars :: "nat list \<Rightarrow> nat list list" where
  "str_chars [] = []"
| "str_chars (b # bs) = (let k = snd (str_char (b # bs)) - 1 in (b # take k bs) # str_chars (drop k bs))"
  by pat_completeness auto
termination by (relation "measure length") auto

definition sepsplit :: "split_conf \<Rightarrow> nat list \<Rightarrow> nat list option \<Rightarrow> bool \<Rightarrow> nat list list" where
  "sepsplit S s0 sep allownull =
    (let s = (if s0 \<noteq> [] \<and> hd s0 = 0 \<and> 1 < length s0 then tl s0 else s0) in
     case sep of
       None \<Rightarrow> spacesplit S s allownull
     | Some p \<Rightarrow>
         if p = [] then (if allownull then str_chars s else filter (\<lambda>c. c \<noteq> []) (str_chars s))
         else if allownull then str_split p [] s else filter (\<lambda>w. w \<noteq> []) (str_split p [] s))"

fun segments :: "nat list \<Rightarrow> nat list \<Rightarrow> nat list list" where
  "segments cur [] = [cur]"
| "segments cur (b # bs) = (if b = 58 then cur # segments [] bs else segments (cur @ [b]) bs)"

definition colonsplit :: "nat list \<Rightarrow> bool \<Rightarrow> nat list list" where
  "colonsplit s uniq =
    foldl (\<lambda>ret seg. if \<not> uniq \<or> seg \<notin> set ret then ret @ [seg] else ret) [] (segments [] s)"

text \<open>\<open>char::is_whitespace\<close> and \<open>is_ascii_whitespace\<close>.\<close>

definition white_space :: "nat \<Rightarrow> bool" where
  "white_space c \<longleftrightarrow> (9 \<le> c \<and> c \<le> 13) \<or> c \<in> {0x20, 0x85, 0xA0, 0x1680, 0x2028, 0x2029, 0x202F, 0x205F, 0x3000} \<or>
     (0x2000 \<le> c \<and> c \<le> 0x200A)"

definition ascii_space :: "nat \<Rightarrow> bool" where
  "ascii_space c \<longleftrightarrow> c \<in> {9, 10, 12, 13, 32}"

definition trim_str :: "nat list \<Rightarrow> nat list" where
  "trim_str s = skip_places (\<lambda>bs. case str_char bs of (c, l) \<Rightarrow> (white_space c, l)) s"

definition findword :: "nat list \<Rightarrow> nat list option \<Rightarrow> (nat list \<times> nat list) option" where
  "findword s0 sep =
    (let s = (case sep of Some _ \<Rightarrow> s0 | None \<Rightarrow> trim_str s0) in
     if s = [] then None
     else (case sep of
         Some p \<Rightarrow> (case find_sub p s of Some i \<Rightarrow> Some (take i s, drop (i + length p) s) | None \<Rightarrow> Some (s, []))
       | None \<Rightarrow> Some (takeWhile (\<lambda>b. \<not> ascii_space b) s, dropWhile (\<lambda>b. \<not> ascii_space b) s)))"

end
