(* ===== verification/SplitFacts.thy ===== *)
theory SplitFacts
  imports SplitJoin QuoteUnits
begin

text \<open>
  Splitting undoes joining: at a text, and into the fields of \<open>IFS\<close>.  The counter of words agrees with the
  splitter on ASCII text, and misses words after a character whose last byte is that of the marker.
\<close>

section \<open>Joining and splitting at a text\<close>

lemma find_sub_None_step:
  assumes "find_sub p ((b # x) @ butlast p) = None" "p \<noteq> []"
  shows "take (length p) (b # x @ p @ rest) \<noteq> p" "find_sub p (x @ butlast p) = None"
proof -
  have n: "take (length p) (b # x @ butlast p) \<noteq> p" and r: "find_sub p (x @ butlast p) = None"
    using assms(1) by (simp_all split: if_splits)
  have "p = butlast p @ [last p]" using assms(2) by simp
  then have "b # x @ p @ rest = (b # x @ butlast p) @ last p # rest" by (metis append_Cons append_assoc append_Nil)
  moreover have "length p \<le> length (b # x @ butlast p)" by simp
  ultimately have "take (length p) (b # x @ p @ rest) = take (length p) (b # x @ butlast p)"
    by (metis take_append diff_is_0_eq take0 append_Nil2)
  then show "take (length p) (b # x @ p @ rest) \<noteq> p" using n by simp
  show "find_sub p (x @ butlast p) = None" by (rule r)
qed

lemma find_sub_None_last:
  assumes "find_sub p ((b # x) @ butlast p) = None" "p \<noteq> []"
  shows "take (length p) (b # x) \<noteq> p"
proof
  assume t: "take (length p) (b # x) = p"
  then have "length p \<le> length (b # x)" by (metis length_take min.absorb_iff2 nle_le)
  then have "take (length p) (b # x @ p @ []) = p" using t by (simp add: take_Cons' split: if_splits)
  then show False using find_sub_None_step(1) [OF assms, of "[]"] by simp
qed

lemma str_split_piece:
  "find_sub p (x @ butlast p) = None \<Longrightarrow> p \<noteq> [] \<Longrightarrow>
     str_split p cur (x @ p @ rest) = (cur @ x) # str_split p [] rest"
proof (induction x arbitrary: cur)
  case Nil
  obtain a q where p: "p = a # q" using Nil.prems(2) by (cases p) auto
  show ?case by (simp add: p)
next
  case (Cons b x)
  note s = find_sub_None_step [OF Cons.prems]
  show ?case using s(1) [of rest] Cons.IH [OF s(2) Cons.prems(2), of "cur @ [b]"] by simp
qed

lemma str_split_last:
  "find_sub p (x @ butlast p) = None \<Longrightarrow> p \<noteq> [] \<Longrightarrow> str_split p cur x = [cur @ x]"
proof (induction x arbitrary: cur)
  case (Cons b x)
  show ?case using find_sub_None_last [OF Cons.prems] Cons.IH [OF find_sub_None_step(2) [OF Cons.prems] Cons.prems(2), of "cur @ [b]"]
    by simp
qed simp

lemma join_fields_Cons: "xs \<noteq> [] \<Longrightarrow> join_fields p (x # xs) = x @ p @ join_fields p xs"
  by (cases xs) (simp_all add: join_fields_def)

lemma str_split_join:
  "xs \<noteq> [] \<Longrightarrow> \<forall>x \<in> set xs. find_sub p (x @ butlast p) = None \<Longrightarrow> p \<noteq> [] \<Longrightarrow> str_split p [] (join_fields p xs) = xs"
proof (induction xs)
  case (Cons x xs)
  show ?case
  proof (cases "xs = []")
    case True
    then show ?thesis using Cons.prems str_split_last [of p x "[]"] by (simp add: join_fields_def)
  next
    case False
    then show ?thesis using Cons str_split_piece [of p x "[]"] by (simp add: join_fields_Cons)
  qed
qed simp

text \<open>Round trip: \<open>sepsplit\<close> at a text gives back the elements that \<open>sepjoin\<close> joined with it, empty ones
  included, when the text does not occur in an element or across its end, and the joined text does not
  start with NUL.\<close>

theorem sepjoin_sepsplit:
  assumes "xs \<noteq> []" "p \<noteq> []" "\<forall>x \<in> set xs. find_sub p (x @ butlast p) = None" "take 1 (sepjoin S xs (Some p)) \<noteq> [0]"
  shows "sepsplit S (sepjoin S xs (Some p)) (Some p) True = xs"
proof -
  let ?s = "join_fields p xs"
  have "sepjoin S xs (Some p) = ?s" using assms(1, 2) by (simp add: sepjoin_def)
  moreover have "\<not> (?s \<noteq> [] \<and> hd ?s = 0 \<and> 1 < length ?s)"
    using assms(4) calculation by (cases ?s) auto
  ultimately show ?thesis using assms(2) str_split_join [OF assms(1, 3, 2)] by (simp only: sepsplit_def Let_def if_False) simp
qed

section \<open>The counter and the splitter\<close>

lemma char_at_ascii: "b < 128 \<Longrightarrow> char_at (b # bs) = (b, 1)" "b < 128 \<Longrightarrow> count_at (b # bs) = (b, 1)"
  by (auto simp: char_at_def count_at_def MetaC_def)

lemma tests_ascii:
  assumes "list_all (\<lambda>b. b < 128) bs" "bs \<noteq> []"
  shows "ws_at S bs = count_ws S bs" "sep_at S bs = count_isep S bs" "snd (count_ws S bs) = 1" "snd (count_isep S bs) = 1"
  using assms char_at_ascii [of "hd bs" "tl bs"]
  by (cases bs; simp add: ws_at_def count_ws_def sep_at_def count_isep_def)+

lemma span_rest: "list_all P bs \<Longrightarrow> list_all P (snd (span_while t bs))"
  using span_while_split [of t bs] by (metis list_all_append)

lemma step_over_rest: "list_all P bs \<Longrightarrow> list_all P (step_over t bs)"
  by (cases bs) (auto simp: step_over_def list_all_iff dest: in_set_dropD)

lemma span_cong:
  assumes "\<And>r. list_all P r \<Longrightarrow> r \<noteq> [] \<Longrightarrow> t r = u r" "list_all P bs"
  shows "span_while t bs = span_while u bs"
  using assms(2)
proof (induction bs rule: length_induct)
  case (1 bs)
  show ?case
  proof (cases bs)
    case (Cons b r)
    have "t (b # r) = u (b # r)" using assms(1) 1 Cons by simp
    moreover have "list_all P (drop k r)" for k using 1(2) Cons by (auto simp: list_all_iff dest: in_set_dropD)
    ultimately show ?thesis using 1(1) by (simp add: Cons Let_def)
  qed simp
qed

abbreviation ascii :: "nat list \<Rightarrow> bool" where "ascii bs \<equiv> list_all (\<lambda>b. b < 128) bs"

lemma skips_ascii:
  assumes "ascii bs"
  shows "skip_places (ws_at S) bs = skip_places (count_ws S) bs"
    "skip_places (not_at (sep_at S)) bs = skip_places (not_at (count_isep S)) bs"
    "step_over (sep_at S) bs = step_over (count_isep S) bs"
proof -
  show "skip_places (ws_at S) bs = skip_places (count_ws S) bs"
    unfolding skip_places_def using span_cong [of "\<lambda>b. b < 128" "ws_at S" "count_ws S"] tests_ascii(1) assms by simp
  show "skip_places (not_at (sep_at S)) bs = skip_places (not_at (count_isep S)) bs"
    unfolding skip_places_def using span_cong [of "\<lambda>b. b < 128" "not_at (sep_at S)" "not_at (count_isep S)"] tests_ascii(2) assms
    by (simp add: not_at_def)
  show "step_over (sep_at S) bs = step_over (count_isep S) bs"
    using tests_ascii(2) [OF assms] by (auto simp: step_over_def)
qed

lemma word_ascii:
  assumes "ascii bs" "bs \<noteq> []" "mul \<le> 0"
  shows "snd (word_at S bs) = count_word S mul bs" "ascii (snd (word_at S bs))"
proof -
  have a: "ascii (skip_places (ws_at S) (step_over (sep_at S) bs))"
    unfolding skip_places_def by (intro span_rest step_over_rest assms)
  then have w: "ascii (word_start S bs)" using assms(1) by (simp add: word_start_def)
  have "word_start S bs = (if fst (count_isep S bs) then count_skip S mul (step_over (count_isep S) bs) else bs)"
    using assms skips_ascii [of bs S] skips_ascii(1) [OF step_over_rest [OF assms(1)], of S "sep_at S"] tests_ascii(2) [OF assms(1, 2), of S]
    by (simp add: word_start_def count_skip_def)
  then show "snd (word_at S bs) = count_word S mul bs"
    using skips_ascii(2) [OF w, of S] by (simp add: word_at_def count_word_def skip_places_def)
  show "ascii (snd (word_at S bs))" unfolding word_at_def by (rule span_rest [OF w])
qed

lemma loops_agree:
  "ascii bs \<Longrightarrow> \<not> sp_posix_faithful S \<Longrightarrow>
     int (length (split_loop S allownull moved bs)) = count_loop S (if allownull then 0 else - 1) moved bs"
proof (induction S allownull moved bs rule: split_loop.induct)
  case (2 S allownull moved b bs)
  let ?mul = "if allownull then 0 else - 1 :: int"
  obtain w r where r: "word_at S (b # bs) = (w, r)" by force
  have c: "count_word S ?mul (b # bs) = r" "ascii r"
    using word_ascii [OF 2(2), of ?mul S] r by (auto split: if_splits)
  have s: "count_skip S ?mul r = skip_places (ws_at S) r" using skips_ascii(1) [OF c(2), of S] by (simp add: count_skip_def)
  have e: "\<not> ends_here S allownull (b # bs)" using 2(3) by (simp add: ends_here_def)
  have "ascii (skip_places (ws_at S) r)" unfolding skip_places_def by (rule span_rest [OF c(2)])
  from 2(1) [OF e r [symmetric] this 2(3)] show ?case
    using e by (simp add: r c(1) s Let_def)
qed simp

text \<open>Equivalence: on ASCII text \<open>wordcount\<close> answers the number of fields \<open>spacesplit\<close> makes, empty ones at the
  ends and between separators included, whatever the separators are.\<close>

theorem wordcount_counts_fields:
  assumes "ascii s" "\<not> sp_posix_faithful S"
  shows "wordcount S s None (if allownull then 0 else - 1) = int (length (spacesplit S s allownull))"
proof -
  let ?r = "skip_places (ws_at S) s"
  have r: "count_skip S (if allownull then 0 else - 1) s = ?r" using skips_ascii(1) [OF assms(1), of S] by (simp add: count_skip_def)
  have a: "ascii ?r" unfolding skip_places_def by (rule span_rest [OF assms(1)])
  have "?r \<noteq> [] \<Longrightarrow> sep_at S ?r = count_isep S ?r" by (rule tests_ascii(2) [OF a])
  then show ?thesis using loops_agree [OF a assms(2), of allownull "?r \<noteq> s"]
    by (auto simp: wordcount_def spacesplit_def r Let_def)
qed

section \<open>Fields\<close>

text \<open>Decoding what was encoded.\<close>

lemma scalar_of_length: "length (utf8_bytes v) \<noteq> length bs \<Longrightarrow> scalar_of v bs = None"
  by (auto simp: scalar_of_def)

lemma utf8_short:
  "192 \<le> a \<Longrightarrow> utf8_scalar [a] = None"
  "224 \<le> a \<Longrightarrow> 128 \<le> b \<Longrightarrow> utf8_scalar [a, b] = None"
  "240 \<le> a \<Longrightarrow> 128 \<le> b \<Longrightarrow> 128 \<le> c \<Longrightarrow> utf8_scalar [a, b, c] = None"
proof -
  show "utf8_scalar [a] = None" if "192 \<le> a"
    using that by (simp add: scalar_of_length utf8_bytes_def)
  show "utf8_scalar [a, b] = None" if "224 \<le> a" "128 \<le> b"
  proof -
    have "2048 \<le> (a - 192) * 64 + (b - 128)" using that by simp
    then show ?thesis by (simp add: scalar_of_length utf8_bytes_def)
  qed
  show "utf8_scalar [a, b, c] = None" if "240 \<le> a" "128 \<le> b" "128 \<le> c"
  proof -
    have "65536 \<le> (a - 224) * 4096 + (b - 128) * 64 + (c - 128)" using that by simp
    then show ?thesis by (simp add: scalar_of_length utf8_bytes_def)
  qed
qed

lemma base64_digits:
  "c div 64 * 64 + c mod 64 = (c :: nat)"
  "c div 4096 * 4096 + c div 64 mod 64 * 64 + c mod 64 = c"
  "c div 262144 * 262144 + c div 4096 mod 64 * 4096 + c div 64 mod 64 * 64 + c mod 64 = c"
proof -
  have a: "c div 64 * 64 + c mod 64 = c" by (rule div_mult_mod_eq)
  have b: "c div 4096 * 64 + c div 64 mod 64 = c div 64"
    using div_mult_mod_eq [of "c div 64" 64] by (simp add: div_mult2_eq [symmetric])
  have d: "c div 262144 * 64 + c div 4096 mod 64 = c div 4096"
    using div_mult_mod_eq [of "c div 4096" 64] by (simp add: div_mult2_eq [symmetric])
  show "c div 64 * 64 + c mod 64 = c" "c div 4096 * 4096 + c div 64 mod 64 * 64 + c mod 64 = c"
    "c div 262144 * 262144 + c div 4096 mod 64 * 4096 + c div 64 mod 64 * 64 + c mod 64 = c"
    using a b d by linarith+
qed

lemma utf8_scalar_bytes: "char_from_u32 c = Some c \<Longrightarrow> utf8_scalar (utf8_bytes c) = Some c"
  using base64_digits [of c] by (auto simp: utf8_bytes_def scalar_of_def add.assoc)

lemma find_skip: "find P xs = None \<Longrightarrow> find P (xs @ ys) = find P ys"
  by (induction xs) (auto split: if_splits)

lemma utf8_first_at:
  assumes "utf8_scalar (take k bs) = Some c" "0 < k" "k \<le> 4" "k \<le> length bs"
    "\<And>j. 0 < j \<Longrightarrow> j < k \<Longrightarrow> utf8_scalar (take j bs) = None"
  shows "utf8_first bs = Some (c, k)"
proof -
  obtain m where m: "Suc (min 4 (length bs)) = k + Suc m"
    using assms(3, 4) by (metis add_Suc_right le_Suc_ex min.bounded_iff)
  have "[1..<Suc (min 4 (length bs))] = [1..<k] @ k # [Suc k..<Suc (min 4 (length bs))]"
    unfolding m using assms(2) by (subst upt_add_eq_append) (simp_all add: upt_conv_Cons)
  moreover have "find (\<lambda>k. utf8_scalar (take k bs) \<noteq> None) ([1..<k] @ k # ys) = Some k" for ys
  proof -
    have "find (\<lambda>k. utf8_scalar (take k bs) \<noteq> None) [1..<k] = None"
      using assms(5) by (auto simp: find_None_iff)
    then show ?thesis using assms(1) by (simp add: find_skip)
  qed
  ultimately show ?thesis using assms(1) by (simp add: utf8_first_def)
qed

lemma utf8_shape:
  obtains "utf8_bytes c = [c]"
  | x y where "utf8_bytes c = [x, y]" "192 \<le> x"
  | x y z where "utf8_bytes c = [x, y, z]" "224 \<le> x" "128 \<le> y"
  | x y z w where "utf8_bytes c = [x, y, z, w]" "240 \<le> x" "128 \<le> y" "128 \<le> z"
proof -
  consider "c < 128" | "128 \<le> c" "c < 2048" | "2048 \<le> c" "c < 65536" | "65536 \<le> c" by linarith
  then show thesis
  proof cases
    case 1
    then show thesis by (intro that(1)) (simp add: utf8_bytes_def)
  next
    case 2
    then show thesis by (intro that(2) [of "192 + c div 64" "128 + c mod 64"]) (simp add: utf8_bytes_def, rule le_add1)
  next
    case 3
    then show thesis by (intro that(3)) (simp add: utf8_bytes_def, (rule le_add1)+)
  next
    case 4
    then show thesis by (intro that(4)) (simp add: utf8_bytes_def, (rule le_add1)+)
  qed
qed

lemma utf8_prefix_none:
  assumes "0 < j" "j < length (utf8_bytes c)"
  shows "utf8_scalar (take j (utf8_bytes c)) = None"
proof (rule utf8_shape [of c])
  fix x y assume "utf8_bytes c = [x, y]" "192 \<le> x"
  moreover have "j = 1" using assms calculation by simp
  ultimately show ?thesis using utf8_short(1) by (simp del: utf8_scalar.simps)
next
  fix x y z assume u: "utf8_bytes c = [x, y, z]" "224 \<le> x" "128 \<le> y"
  have "j = 1 \<or> j = 2" using assms u(1) by auto
  then show ?thesis using utf8_short(1) [of x] utf8_short(2) [of x y] u by (auto simp del: utf8_scalar.simps)
next
  fix x y z w assume u: "utf8_bytes c = [x, y, z, w]" "240 \<le> x" "128 \<le> y" "128 \<le> z"
  have "j = 1 \<or> j = 2 \<or> j = 3" using assms u(1) by auto
  then show ?thesis using utf8_short(1) [of x] utf8_short(2) [of x y] utf8_short(3) [of x y z] u
    by (auto simp del: utf8_scalar.simps)
qed (use assms in simp)

lemma utf8_first_bytes:
  assumes "char_from_u32 c = Some c"
  shows "utf8_first (utf8_bytes c @ r) = Some (c, length (utf8_bytes c))"
proof (rule utf8_first_at)
  show "utf8_scalar (take (length (utf8_bytes c)) (utf8_bytes c @ r)) = Some c"
    using utf8_scalar_bytes [OF assms] by simp
  show "0 < length (utf8_bytes c)" "length (utf8_bytes c) \<le> 4" by (simp_all add: utf8_bytes_def)
qed (simp_all add: utf8_prefix_none)

text \<open>A character that belongs to a field, the blanks and the other separators.\<close>

definition field_char :: "split_conf \<Rightarrow> nat \<Rightarrow> bool" where
  "field_char S c \<longleftrightarrow> char_from_u32 c = Some c \<and> c \<noteq> MetaC \<and>
     (if c < 128 then \<not> sp_isep S c else sp_multibyte S \<and> \<not> sp_wide S c)"

definition is_field :: "split_conf \<Rightarrow> nat list \<Rightarrow> bool" where
  "is_field S w \<longleftrightarrow> w \<noteq> [] \<and> list_all (field_char S) w"

definition all_blank :: "split_conf \<Rightarrow> nat list \<Rightarrow> bool" where
  "all_blank S d \<longleftrightarrow> list_all (sp_iwsep S) d"

definition hard_sep :: "split_conf \<Rightarrow> nat \<Rightarrow> bool" where
  "hard_sep S b \<longleftrightarrow> b < 128 \<and> sp_isep S b \<and> \<not> sp_iwsep S b"

definition is_separator :: "split_conf \<Rightarrow> nat list \<Rightarrow> bool" where
  "is_separator S d \<longleftrightarrow> (d \<noteq> [] \<and> all_blank S d) \<or> (\<exists>x b z. d = x @ b # z \<and> all_blank S x \<and> hard_sep S b \<and> all_blank S z)"

text \<open>Blanks are ASCII separators.\<close>

definition blanks_ascii :: "split_conf \<Rightarrow> bool" where
  "blanks_ascii S \<longleftrightarrow> (\<forall>b. sp_iwsep S b \<longrightarrow> b < 128 \<and> sp_isep S b)"

definition word_bytes :: "nat list \<Rightarrow> nat list" where
  "word_bytes w = concat (map utf8_bytes w)"

lemma wide_head:
  assumes "char_from_u32 c = Some c" "128 \<le> c" "c \<noteq> MetaC"
  shows "\<exists>a b q. utf8_bytes c = a # b # q \<and> 0xC2 \<le> a \<and> \<not> (a = 0xC2 \<and> b = MetaC)"
proof -
  have "c = 131" if a: "c div 64 = 2" "c mod 64 = 3"
    using base64_digits(1) [of c] unfolding a by simp
  then show ?thesis using assms by (auto simp: utf8_bytes_def MetaC_def)
qed

lemma field_char_sep:
  assumes "field_char S c"
  shows "sep_at S (utf8_bytes c @ r) = (False, length (utf8_bytes c))"
proof (cases "c < 128")
  case True
  then show ?thesis using assms by (simp add: field_char_def sep_at_def utf8_bytes_small char_at_ascii)
next
  case False
  then have c: "char_from_u32 c = Some c" "128 \<le> c" "c \<noteq> MetaC" "sp_multibyte S" "\<not> sp_wide S c"
    using assms by (simp_all add: field_char_def)
  obtain a b q where h: "utf8_bytes c = a # b # q" "0xC2 \<le> a" "\<not> (a = 0xC2 \<and> b = MetaC)" using wide_head [OF c(1-3)] by blast
  have "str_char (utf8_bytes c @ r) = (c, length (utf8_bytes c))" using utf8_first_bytes [OF c(1)] by (simp add: str_char_def)
  then show ?thesis using c(4, 5) h by (auto simp: sep_at_def)
qed

lemma field_char_blank:
  assumes "field_char S c" "blanks_ascii S"
  shows "\<not> fst (ws_at S (utf8_bytes c @ r))"
proof (cases "c < 128")
  case True
  then show ?thesis using assms by (auto simp: field_char_def ws_at_def utf8_bytes_small char_at_ascii blanks_ascii_def)
next
  case False
  then obtain a b q where h: "utf8_bytes c = a # b # q" "0xC2 \<le> a" "\<not> (a = 0xC2 \<and> b = MetaC)"
    using wide_head [of c] assms(1) by (auto simp: field_char_def)
  then have "char_at (utf8_bytes c @ r) = (a, 1)" by (auto simp: char_at_def MetaC_def)
  then show ?thesis using h(2) assms(2) by (auto simp: ws_at_def blanks_ascii_def)
qed

lemma span_step:
  assumes "w \<noteq> []" "t (w @ r) = (True, length w)"
  shows "span_while t (w @ r) = (w @ fst (span_while t r), snd (span_while t r))"
  using assms by (cases w) (simp_all add: Let_def split_beta)

lemma span_stop: "r = [] \<or> \<not> fst (t r) \<Longrightarrow> span_while t r = ([], r)"
  by (cases r) auto

lemma span_word:
  "list_all (field_char S) w \<Longrightarrow> tail = [] \<or> fst (sep_at S tail) \<Longrightarrow>
     span_while (not_at (sep_at S)) (word_bytes w @ tail) = (word_bytes w, tail)"
proof (induction w)
  case Nil
  then show ?case using span_stop [of tail "not_at (sep_at S)"] by (auto simp: word_bytes_def not_at_def [of _ tail] split_beta)
next
  case (Cons c w)
  have "not_at (sep_at S) (utf8_bytes c @ word_bytes w @ tail) = (True, length (utf8_bytes c))"
    using field_char_sep [of S c] Cons.prems by (simp add: not_at_def)
  from span_step [where t = "not_at (sep_at S)" and w = "utf8_bytes c", OF utf8_bytes_ne this] show ?case using Cons by (simp add: word_bytes_def)
qed

lemma skip_blank_run: "all_blank S x \<Longrightarrow> blanks_ascii S \<Longrightarrow> skip_places (ws_at S) (x @ r) = skip_places (ws_at S) r"
proof (induction x)
  case (Cons b x)
  then have "b < 128" by (auto simp: all_blank_def blanks_ascii_def)
  then have "ws_at S ([b] @ x @ r) = (True, length [b])" using Cons.prems by (simp add: ws_at_def char_at_ascii all_blank_def)
  from span_step [where t = "ws_at S" and w = "[b]", OF _ this] show ?case using Cons by (simp add: skip_places_def all_blank_def)
qed simp

lemma skip_stop: "r = [] \<or> \<not> fst (ws_at S r) \<Longrightarrow> skip_places (ws_at S) r = r"
  by (simp add: skip_places_def span_stop)

lemma field_start:
  assumes "is_field S w" "blanks_ascii S"
  shows "\<not> fst (ws_at S (word_bytes w @ r))" "\<not> fst (sep_at S (word_bytes w @ r))" "word_bytes w \<noteq> []"
  using assms field_char_blank [of S "hd w"] field_char_sep [of S "hd w"] utf8_bytes_ne
  by (cases w; simp add: is_field_def word_bytes_def)+

text \<open>What may stand before a field when the splitter looks for it.\<close>

definition may_lead :: "split_conf \<Rightarrow> nat list \<Rightarrow> bool" where
  "may_lead S pre \<longleftrightarrow> pre = [] \<or> (\<exists>b z. pre = b # z \<and> hard_sep S b \<and> all_blank S z)"

lemma hard_sep_at: "hard_sep S b \<Longrightarrow> sep_at S (b # r) = (True, 1)" "hard_sep S b \<Longrightarrow> \<not> fst (ws_at S (b # r))"
  by (simp_all add: hard_sep_def sep_at_def ws_at_def char_at_ascii)

lemma split_field:
  assumes "may_lead S pre" "is_field S w" "blanks_ascii S" "tail = [] \<or> fst (sep_at S tail)"
  shows "split_loop S False m (pre @ word_bytes w @ tail) =
    word_bytes w # split_loop S False (skip_places (ws_at S) tail \<noteq> tail) (skip_places (ws_at S) tail)"
proof -
  let ?s = "pre @ word_bytes w @ tail"
  note f = field_start [OF assms(2, 3)]
  have start: "word_start S ?s = word_bytes w @ tail"
  proof (cases "pre = []")
    case True
    then show ?thesis using f(2) by (simp add: word_start_def)
  next
    case False
    then obtain b z where p: "pre = b # z" "hard_sep S b" "all_blank S z" using assms(1) by (auto simp: may_lead_def)
    then show ?thesis using hard_sep_at [OF p(2)] skip_blank_run [OF p(3) assms(3)] skip_stop [of "word_bytes w @ tail" S] f(1)
      by (simp add: word_start_def step_over_def)
  qed
  have "word_at S ?s = (word_bytes w, tail)"
    unfolding word_at_def start using assms(2, 4) by (intro span_word) (simp_all add: is_field_def)
  moreover have "\<not> ends_here S False ?s" using f(3) by (simp add: ends_here_def start)
  moreover obtain b bs where "?s = b # bs" using f(3) by (cases ?s) auto
  ultimately show ?thesis using f(3) by simp
qed

lemma skip_separator:
  assumes "is_separator S d" "is_field S w" "blanks_ascii S"
  shows "\<exists>pre. may_lead S pre \<and> skip_places (ws_at S) (d @ word_bytes w @ r) = pre @ word_bytes w @ r"
proof -
  have f: "skip_places (ws_at S) (word_bytes w @ r) = word_bytes w @ r"
    using field_start(1) [OF assms(2, 3)] by (intro skip_stop) simp
  from assms(1) consider "all_blank S d" | x b z where "d = x @ b # z" "all_blank S x" "hard_sep S b" "all_blank S z"
    unfolding is_separator_def by blast
  then show ?thesis
  proof cases
    case 1
    then show ?thesis using skip_blank_run [OF 1 assms(3)] f by (intro exI [of _ "[]"]) (simp add: may_lead_def)
  next
    case 2
    have "skip_places (ws_at S) (d @ word_bytes w @ r) = b # z @ word_bytes w @ r"
      using skip_blank_run [OF 2(2) assms(3)] hard_sep_at(2) [OF 2(3)] skip_stop by (simp add: 2(1))
    then show ?thesis using 2 by (intro exI [of _ "b # z"]) (simp add: may_lead_def)
  qed
qed

lemma separator_start:
  assumes "is_separator S d" "blanks_ascii S"
  shows "fst (sep_at S (d @ r))"
proof -
  obtain b q where "d = b # q" "b < 128" "sp_isep S b"
    using assms unfolding is_separator_def all_blank_def hard_sep_def blanks_ascii_def
    by (metis append_Cons append_Nil list.exhaust list.pred_inject(2))
  then show ?thesis by (simp add: sep_at_def char_at_ascii)
qed

definition fields_text :: "nat list \<Rightarrow> (nat list \<times> nat list) list \<Rightarrow> nat list" where
  "fields_text w rest = word_bytes w @ concat (map (\<lambda>(d, v). d @ word_bytes v) rest)"

lemma split_fields:
  "may_lead S pre \<Longrightarrow> is_field S w \<Longrightarrow> blanks_ascii S \<Longrightarrow> \<forall>(d, v) \<in> set rest. is_separator S d \<and> is_field S v \<Longrightarrow>
     split_loop S False m (pre @ fields_text w rest) = map word_bytes (w # map snd rest)"
proof (induction rest arbitrary: pre w m)
  case Nil
  then show ?case using split_field [of S pre w "[]" m] skip_stop [of "[]" S] by (simp add: fields_text_def)
next
  case (Cons p rest)
  obtain d v where p: "p = (d, v)" by force
  have d: "is_separator S d" "is_field S v" using Cons.prems(4) by (auto simp: p)
  let ?r = "concat (map (\<lambda>(d, v). d @ word_bytes v) rest)"
  obtain q where q: "may_lead S q" "skip_places (ws_at S) (d @ word_bytes v @ ?r) = q @ word_bytes v @ ?r"
    using skip_separator [OF d Cons.prems(3)] by blast
  have "split_loop S False m (pre @ fields_text w (p # rest)) =
      word_bytes w # split_loop S False (q @ word_bytes v @ ?r \<noteq> d @ word_bytes v @ ?r) (q @ word_bytes v @ ?r)"
    using split_field [OF Cons.prems(1-3), of "d @ word_bytes v @ ?r" m] separator_start [OF d(1) Cons.prems(3)]
    by (simp add: fields_text_def p q(2))
  also have "\<dots> = map word_bytes (w # map snd (p # rest))"
    using Cons.IH [OF q(1) d(2) Cons.prems(3), of "q @ word_bytes v @ ?r \<noteq> d @ word_bytes v @ ?r"] Cons.prems(4)
    by (simp add: fields_text_def p)
  finally show ?case .
qed

text \<open>Splitting into fields: fields of any characters that are no separators, put together with runs of
  blanks or with one other separator among blanks, come back in their order, and nothing else.\<close>

theorem spacesplit_reads_fields:
  assumes "blanks_ascii S" "is_field S w" "\<forall>(d, v) \<in> set rest. is_separator S d \<and> is_field S v"
  shows "spacesplit S (fields_text w rest) False = map word_bytes (w # map snd rest)"
proof -
  let ?s = "fields_text w rest"
  have "\<not> fst (ws_at S ?s)" "\<not> fst (sep_at S ?s)"
    using field_start [OF assms(2, 1)] by (simp_all add: fields_text_def)
  then have r: "skip_places (ws_at S) ?s = ?s" using skip_stop by blast
  show ?thesis using split_fields [OF _ assms(2, 1, 3), of "[]" False] \<open>\<not> fst (sep_at S ?s)\<close>
    by (simp add: spacesplit_def Let_def r may_lead_def)
qed

text \<open>The counter takes the last byte of U+00C3 for the marker and steps over the blank after it.\<close>

theorem wordcount_misses_word:
  assumes "sp_iwsep S = (\<lambda>b. b = 32)" "sp_isep S = (\<lambda>b. b = 32)" "sp_multibyte S" "\<not> sp_wide S 0xC3"
  shows "spacesplit S [0xC3, 0x83, 32, 98] False = [[0xC3, 0x83], [98]] \<and> wordcount S [0xC3, 0x83, 32, 98] None (- 1) = 1"
proof
  have "blanks_ascii S" "is_field S [0xC3]" "is_separator S [32]" "is_field S [98]"
    using assms by (simp_all add: blanks_ascii_def is_field_def field_char_def MetaC_def char_from_u32_def is_separator_def all_blank_def)
  then show "spacesplit S [0xC3, 0x83, 32, 98] False = [[0xC3, 0x83], [98]]"
    using spacesplit_reads_fields [of S "[0xC3]" "[([32], [98])]"] by (simp add: fields_text_def word_bytes_def utf8_bytes_def)
  show "wordcount S [0xC3, 0x83, 32, 98] None (- 1) = 1"
    using assms by (simp add: wordcount_def count_skip_def skip_places_def count_word_def step_over_def count_ws_def
        count_isep_def count_at_def not_at_def MetaC_def)
qed

section \<open>At a configuration\<close>

definition demo_split :: split_conf where
  "demo_split = \<lparr>sp_isep = (\<lambda>b. b = 32 \<or> b = 9 \<or> b = 58), sp_iwsep = (\<lambda>b. b = 32 \<or> b = 9), sp_wide = (\<lambda>_. False),
     sp_multibyte = True, sp_posix_faithful = False, sp_ksh93 = False, sp_ifs = None\<rparr>"

theorem sepjoin_sepsplit_witness:
  "sepsplit demo_split (sepjoin demo_split [[97], [], [45, 98]] (Some [45, 45])) (Some [45, 45]) True = [[97], [], [45, 98]]"
  by (rule sepjoin_sepsplit) (simp_all add: sepjoin_def join_fields_def)

theorem wordcount_counts_fields_witness:
  "wordcount demo_split [32, 97, 58, 58, 98, 32] None (- 1) = int (length (spacesplit demo_split [32, 97, 58, 58, 98, 32] False))"
  using wordcount_counts_fields [of "[32, 97, 58, 58, 98, 32]" demo_split False] by (simp add: demo_split_def)

theorem spacesplit_reads_fields_witness:
  "spacesplit demo_split [97, 32, 9, 0xC3, 0xA9, 32, 58, 98] False = [[97], [0xC3, 0xA9], [98]]"
proof -
  have "is_separator demo_split [32, 9]" by (simp add: is_separator_def all_blank_def demo_split_def)
  moreover have "is_separator demo_split ([32] @ 58 # [])"
    unfolding is_separator_def by (rule disjI2) (auto simp: all_blank_def hard_sep_def demo_split_def intro!: exI [of _ "[32]"])
  ultimately have "\<forall>(d, v) \<in> set [([32, 9], [233]), ([32, 58], [98])]. is_separator demo_split d \<and> is_field demo_split v"
    by (simp add: is_field_def field_char_def char_from_u32_def MetaC_def) (simp add: demo_split_def)
  moreover have "blanks_ascii demo_split" "is_field demo_split [97]"
    by (auto simp: blanks_ascii_def is_field_def field_char_def char_from_u32_def MetaC_def demo_split_def)
  ultimately have "spacesplit demo_split (fields_text [97] [([32, 9], [233]), ([32, 58], [98])]) False =
      map word_bytes ([97] # map snd [([32 :: nat, 9 :: nat], [233 :: nat]), ([32, 58], [98])])"
    by (intro spacesplit_reads_fields)
  then show ?thesis by (simp add: fields_text_def word_bytes_def utf8_bytes_def)
qed

end
