(* ===== verification/Spec2Isabelle.thy ===== *)
theory Spec2Isabelle
  imports MathEval MathArith StrtolFacts SortFacts TermcapFacts LockFacts BraceFacts Auth DaemonFacts OptFacts JobFacts
    QuoteFacts NiceFacts SplitFacts
begin

text \<open>
  A verification library for zshrs, a zsh-compatible shell written in Rust, with a daemon that its
  shells share.  The shell is a port of the C sources of zsh, one Rust file per C file under
  \<open>src/src/ported\<close>, with extensions beside it (\<open>src/src/extensions\<close>) and the
  emulation modes of other shells (\<open>dash_mode.rs\<close>).  The daemon is under \<open>src/daemon\<close>.

  The parts that are modelled, from the source and executable:

  \<^item> The arithmetic evaluator of \<open>$((...))\<close>, \<open>src/src/ported/math.rs\<close>, with the string conversion
    \<open>zstrtol\<close> of \<open>utils.rs\<close> it calls.  \<open>MathTypes\<close> has the numbers, the tokens, the two
    precedence tables and the state (a record of the file's thread-local variables), \<open>MathOps\<close>
    the operand stack, the variable accesses and every operator, \<open>Strtol\<close> the conversion,
    \<open>MathLex\<close> the lexer \<open>zzlex\<close> and \<open>MathParse\<close> the precedence parser
    \<open>mathparse\<close>, \<open>mathevall\<close>, the fast path of \<open>matheval\<close> and the other entry points.  Nested
    evaluations, which read the value of a parameter as an expression, go through the same
    definitions one level deeper.
  \<^item> The sort of arrays and matches: \<open>TolerantSort\<close> is the merge sort of
    \<open>src/src/tolerant_sort.rs\<close>, with the arrays of indices and the cycle walk that applies them,
    and \<open>StrSort\<close> the comparators and \<open>strmetasort\<close> of \<open>src/src/ported/sort.rs\<close> on top of it.
  \<^item> The terminal strings of \<open>src/src/extensions/tparm.rs\<close>: \<open>Tparm\<close> is the stack machine of
    terminfo capabilities, \<open>Termcap\<close> the cursor addresses and the padding.
  \<^item> Brace expansion, \<open>src/src/ported/glob.rs\<close>: \<open>Braces\<close>.
  \<^item> The options, \<open>src/src/ported/options.rs\<close>.  \<open>OptTable\<close> has the table: numbers and names
    (\<open>opt_name\<close> of \<open>zsh_h.rs\<close>), flags, aliases and letters, and the lookups.  \<open>OptStore\<close> is the
    store with the read cache of \<open>src/src/extensions/opts_cache.rs\<close> in front of it, and what
    \<open>doshfunc\<close> of \<open>exec.rs\<close> saves and restores; \<open>OptRace\<close> takes the reads and writes apart into the
    single steps of threads.  \<open>SetOpt\<close> is \<open>dosetopt\<close>, \<open>bin_setopt\<close>, \<open>emulate\<close> and the listings.
  \<^item> The job table, \<open>src/src/ported/jobs.rs\<close> and \<open>src/src/exec_jobs.rs\<close>.  \<open>JobTable\<close> has the records
    of \<open>zsh_h.rs\<close> and what works on the table alone: slots, processes, files, the freeing and deleting
    of a job.  \<open>JobCtl\<close> has the state around it (the record \<open>jshell\<close>, one field per global), the
    current and the previous job, job specifications, subshells, background jobs and the remembered
    exit statuses; \<open>JobPrint\<close> the lines of a report; \<open>JobUpdate\<close> the reports that remove a job,
    superjobs, and \<open>update_job\<close> and \<open>update_bg_job\<close>, which a status from the kernel goes through.
    \<open>JobExec\<close> has what the executor writes into the table (\<open>exec_jobs.rs\<close>, \<open>exec.rs\<close>,
    \<open>fusevm_bridge.rs\<close>, \<open>vm_helper.rs\<close>): the slots of running pipelines, the marks of commands run in
    the shell, superjobs and subjobs, in-process subshells.
    What the code only reads is the record \<open>jenv\<close>; signals, output and terminal calls are collected as
    events.  \<open>None\<close> is an operation that does not return.
  \<^item> Quoting and text, of \<open>src/src/ported/utils.rs\<close>.  \<open>Quote\<close> is \<open>quotestring\<close> in its styles,
    \<open>KeyString\<close> the escapes read by \<open>getkeystring\<close>, \<open>NiceText\<close> the visible forms and the quoted forms
    of listings, with the sequences of \<open>bindkey -L\<close> (\<open>zle_utils.rs\<close>, \<open>zle_bindings.rs\<close>), \<open>SplitJoin\<close> the
    splitting, joining and counting of fields.
  \<^item> The daemon.  \<open>LockService\<close> is the table of named locks (\<open>lock.rs\<close>); \<open>PubSub\<close> the
    subscription patterns (\<open>pubsub.rs\<close>), \<open>AskInbox\<close> the queues of requests to the user
    (\<open>zask.rs\<close>), \<open>DaemonState\<close> and \<open>DaemonBus\<close> the registry of shells and connections, the
    subscriptions, delivery and the handlers (\<open>state.rs\<close>, part of \<open>ops.rs\<close>, the handlers of
    \<open>zask.rs\<close>), \<open>Auth\<close> the tokens, their scopes and the gate of the HTTP handler (\<open>auth.rs\<close>,
    \<open>http.rs\<close>).

  How the code appears.  Integers are words of their width and wrap, as they do in the release
  build; a Rust string is the list of its UTF-8 bytes, except in \<open>Braces\<close>, \<open>Quote\<close>, \<open>KeyString\<close>
  and \<open>NiceText\<close>, which work on the code points the source works on.  Functions that fail return a sum or an option.  State is passed:
  a thread-local or a mutex-guarded structure is a record, a function that changes it returns the
  new one.  What lies outside the source is an argument: floating point, the parameter table, the
  collation of the C library, the kernel's answers about processes, clocks and random tokens.
  \<open>Prelude\<close> has the machine integers, the decimal texts and the string functions of the standard
  library that several parts use, \<open>BTree\<close> its ordered map.

  What is proved, by group.

  \<^item> \<open>MathTables\<close>, \<open>MathLexFacts\<close>, \<open>MathFrames\<close>: the tables, and what the lexer and each operator
    leave alone.  The laws the parser needs of a lexer are the locale \<open>math_lexer\<close>, interpreted
    on \<open>zzlex\<close>.  \<open>MathCorrect\<close>, \<open>MathStack\<close>, \<open>MathRuns\<close>: the parser over such a lexer, its
    frame, its fuel, its stack, and one rule per case of its loop.  \<open>MathProps\<close>: the parser always
    returns with the fuel it is given, modes are restored, one value is left, and
    none only by the empty expression.
    \<open>MathRender\<close>, \<open>MathValue\<close>, \<open>MathEval\<close>: printed expressions are read back to their value.
    \<open>MathArith\<close>: powers and division.  \<open>StrtolFacts\<close>: round trip and bounds of the conversion.
  \<^item> \<open>SortFacts\<close>: the sort ends, permutes, and orders by each of the comparisons; numeric order
    is order of values.
  \<^item> \<open>TparmFacts\<close>, \<open>TermcapFacts\<close>: the machine runs structured capabilities as they mean; addresses,
    order of parameters, delays.
  \<^item> \<open>BraceFacts\<close>: expansion is the product of the groups; the classes; the range that never ends.
  \<^item> \<open>LockFacts\<close>: exclusion, release, progress, over the locale \<open>holding\<close>.
  \<^item> \<open>DaemonRuns\<close>, \<open>DaemonFacts\<close>: the runs of the daemon as a step relation with one event per locked
    section, the invariant of its tables, and what follows for new shells, reaping, delivery,
    ownership and the order of requests, the last over the locale \<open>request_queue\<close>.

  \<^item> \<open>OptCache\<close>: store and cache refine a map from names to values, by the locale \<open>simulates\<close>.
    \<open>OptRace\<close>: the invariant of threads at work.  \<open>OptFacts\<close>: the locks of \<open>setopt\<close>, the outcome of
    \<open>dosetopt\<close>, what an emulation sets, the round trip of names.
  \<^item> \<open>JobChain\<close>: which deletions return.  \<open>JobChoice\<close>: what the choice of a job can answer.  \<open>JobSlots\<close>,
    \<open>JobKeeps\<close>, \<open>JobExec\<close>, \<open>JobSteps\<close>: the invariant of the table, kept by every step of the relation
    \<open>job_step\<close>, and by \<open>shell_step\<close>, which adds the in-process subshells and the tables put aside for them
    (two interpretations of the locale \<open>kept_by_steps\<close>).  \<open>JobRuns\<close>: the reports on one job, in any order.  \<open>JobFacts\<close>: the
    properties, with the table of a subshell and the remembered statuses, and the saved table that a command
    substitution leaves behind.
  \<^item> \<open>QuoteUnits\<close>, \<open>KeyFacts\<close>, \<open>QuoteFacts\<close>: the units a stored string is cut into, the reader turn by
    turn, the round trip of dollar-quotes.  \<open>BindFacts\<close>: the listing of key sequences is read back, and
    which sequences are lost.  \<open>NiceFacts\<close>: the quoted form of a listing is read back, and a character it
    misses.  \<open>SplitFacts\<close>: splitting undoes joining, fields are found, words are counted.

  Bounds and fuel.  The parser of the evaluator has fuel \<open>parse_fuel\<close>, twice the unread length and
  four, proved to suffice; the depth of nested evaluations is the code's own limit of 256.  The brace
  expander has as fuel the number of its passes, and the number of groups and two suffice; a walk
  over a numeric range has none that suffices for the range named in \<open>brace_range_overflows\<close>.  The
  cycle walk of the sort ends within the length of the array.  The statements about runs of the
  daemon hold for the first \<open>2 ^ 64 - 2\<close> events, before an id could repeat, the one about threads
  for the first \<open>2 ^ 64\<close> steps, before the generation of the cache could.  \<open>freejob\<close> and \<open>deletejob\<close>
  have two calls per slot and two, enough for every chain that ends; \<open>makerunning\<close> one call per slot
  and one.

  Not modelled: the parser and compiler of the shell language, expansion, parameters, the builtins
  and the execution of commands, whose code is large and works on state shared between all of them; of
  the jobs the commands (\<open>fg\<close>, \<open>bg\<close>, \<open>wait\<close>, \<open>kill\<close>), the loops that wait for processes, the times
  that a report prints, the shortening of a long command text and the group leader a forked
  child writes into its own copy of the table; the variant of \<open>spacesplit\<close> that removes backslashes; pattern
  matching and file globbing; the line editor and completion, driven by the terminal; the modules,
  which are interfaces to the system; in the evaluator the reading of subscripted parameters, which
  is the parameter code's, and the long-double mode of ksh93; the matches variant of the sort, which
  calls the C library; in the daemon the databases, the jobs, the file watchers and the transport.
\<close>

end
